(* ===== verification/Prelude.thy ===== *)
theory Prelude
  imports Main "HOL-Library.Word" "HOL-Library.Signed_Division"
begin

text \<open>
  What every component shares: the errors the program can raise, the result type of fallible
  operations with its bind, the fixed-width integers of the C++ code (two's complement,
  \<open>int\<close> is 32 bits wide and \<open>int64_t\<close> and \<open>size_t\<close> are 64 bits wide), truncating division, and
  the little-endian view of a word as a list of bytes that \<open>memcpy\<close> gives.

  \<open>vm_simps\<close> collects the equations that evaluate one instruction of the RV64 machine;
  \<open>word_sem\<close> collects the facts that relate the 32-bit and the 64-bit views of a value.
\<close>

named_theorems vm_simps
named_theorems word_sem

section \<open>Errors and results\<close>

text \<open>
  Every \<open>throw\<close> of the program is a value of \<open>cerror\<close>; \<open>Undefined\<close> stands for a C++ operation
  without defined behaviour (reading past a buffer, \<open>back\<close> of an empty vector, a signed division
  that overflows, \<open>std::get\<close> on the wrong alternative is \<open>Bad_variant\<close>).
\<close>

datatype cerror =
    Compiler_error string
  | Unimplemented_error string
  | Semantic_error string
  | Out_of_range
  | Bad_variant
  | Undefined string

type_synonym 'a result = "cerror + 'a"

fun rbind :: "'a result \<Rightarrow> ('a \<Rightarrow> 'b result) \<Rightarrow> 'b result" where
  "rbind (Inl e) f = Inl e"
| "rbind (Inr x) f = f x"

definition is_ok :: "'a result \<Rightarrow> bool" where
  "is_ok r = (case r of Inl _ \<Rightarrow> False | Inr _ \<Rightarrow> True)"

lemma is_ok_simps [simp]: "is_ok (Inr x)" "\<not> is_ok (Inl e)"
  by (simp_all add: is_ok_def)

lemma is_ok_iff: "is_ok r \<longleftrightarrow> (\<exists>x. r = Inr x)"
  by (cases r) auto

lemma rbind_eq_Inr: "rbind r f = Inr y \<longleftrightarrow> (\<exists>x. r = Inr x \<and> f x = Inr y)"
  by (cases r) auto

lemma rbind_assoc: "rbind (rbind r f) g = rbind r (\<lambda>x. rbind (f x) g)"
  by (cases r) auto

lemma rbind_Inr [simp]: "rbind r Inr = r"
  by (cases r) simp_all

lemma rbind_cong [fundef_cong]:
  "r = r' \<Longrightarrow> (\<And>x. r' = Inr x \<Longrightarrow> f x = f' x) \<Longrightarrow> rbind r f = rbind r' f'"
  by (cases r') auto

text \<open>Threading a state through a list, stopping at the first error.\<close>

fun rfold :: "('a \<Rightarrow> 's \<Rightarrow> 's result) \<Rightarrow> 'a list \<Rightarrow> 's \<Rightarrow> 's result" where
  "rfold f [] s = Inr s"
| "rfold f (x # xs) s = rbind (f x s) (rfold f xs)"

lemma rfold_append: "rfold f (xs @ ys) s = rbind (rfold f xs s) (rfold f ys)"
proof (induction xs arbitrary: s)
  case (Cons x xs)
  then show ?case by (cases "f x s") simp_all
qed simp

section \<open>Machine integers\<close>

type_synonym u8 = "8 word"
type_synonym u16 = "16 word"
type_synonym u32 = "32 word"
type_synonym u64 = "64 word"

abbreviation low32 :: "u64 \<Rightarrow> u32" where "low32 w \<equiv> ucast w"
abbreviation sext32 :: "u32 \<Rightarrow> u64" where "sext32 w \<equiv> scast w"
abbreviation zext32 :: "u32 \<Rightarrow> u64" where "zext32 w \<equiv> ucast w"

text \<open>\<open>size_t\<close> values are natural numbers below \<open>2 ^ 64\<close>; every sum and product of them wraps.\<close>

definition wrap64 :: "nat \<Rightarrow> nat" where
  "wrap64 n = n mod 2 ^ 64"

lemma wrap64_id [simp]: "n < 2 ^ 64 \<Longrightarrow> wrap64 n = n"
  by (simp add: wrap64_def)

lemma wrap64_less: "wrap64 n < 2 ^ 64"
  by (simp add: wrap64_def)

lemma wrap64_le: "wrap64 n \<le> n"
  by (simp add: wrap64_def)

lemma wrap64_mult [simp]: "wrap64 (a * wrap64 b) = wrap64 (a * b)" "wrap64 (wrap64 a * b) = wrap64 (a * b)"
  by (simp_all add: wrap64_def mod_mult_right_eq mod_mult_left_eq)

lemma wrap64_add [simp]: "wrap64 (a + wrap64 b) = wrap64 (a + b)" "wrap64 (wrap64 a + b) = wrap64 (a + b)"
  by (simp_all add: wrap64_def mod_add_right_eq mod_add_left_eq)

lemma of_nat_wrap64 [simp]: "(of_nat (wrap64 n) :: u64) = of_nat n"
  by (simp add: wrap64_def word_of_nat_eq_iff take_bit_eq_mod)

definition bool_word :: "bool \<Rightarrow> u64" where
  "bool_word b = (if b then 1 else 0)"

text \<open>Division and remainder of C++ round towards zero.\<close>

definition sdiv_word :: "'a::len word \<Rightarrow> 'a word \<Rightarrow> 'a word" where
  "sdiv_word a b = word_of_int (sint a sdiv sint b)"

definition smod_word :: "'a::len word \<Rightarrow> 'a word \<Rightarrow> 'a word" where
  "smod_word a b = word_of_int (sint a smod sint b)"

text \<open>A quotient overflows for the least integer and \<open>-1\<close> only.\<close>

definition div_overflows :: "'a::len word \<Rightarrow> 'a word \<Rightarrow> bool" where
  "div_overflows a b \<longleftrightarrow> sint a = - (2 ^ (LENGTH('a) - 1)) \<and> sint b = - 1"

text \<open>Decimal numbers as \<open>fmt\<close> and the output stream print them.\<close>

fun nat_to_string :: "nat \<Rightarrow> string" where
  "nat_to_string n =
     (if n < 10 then [char_of (48 + n)] else nat_to_string (n div 10) @ [char_of (48 + n mod 10)])"

definition int_to_string :: "int \<Rightarrow> string" where
  "int_to_string i = (if i < 0 then CHR ''-'' # nat_to_string (nat (- i)) else nat_to_string (nat i))"

abbreviation newline :: string where "newline \<equiv> [CHR 0x0A]"

declare nat_to_string.simps [simp del]

section \<open>Rounding up to an alignment\<close>

text \<open>
  \<open>(offset + align - 1) & ~(align - 1)\<close> on \<open>size_t\<close>, as written in the frame layout and in the
  placement of globals, where \<open>align\<close> is the size of the type and need not be a power of two.
\<close>

definition align_up :: "u64 \<Rightarrow> u64 \<Rightarrow> u64" where
  "align_up offset align = and (offset + align - 1) (not (align - 1))"

lemma and_not_eq_minus: "and x (not y) = x - and x (y :: 'a::len word)"
proof -
  have "x = or (and x y) (and x (not y))"
    by (rule bit_word_eqI) (auto simp: bit_simps)
  moreover have "and (and x y) (and x (not y)) = 0"
    by (rule bit_word_eqI) (auto simp: bit_simps)
  ultimately have "x = and x y + and x (not y)"
    using word_plus_and_or [of "and x y" "and x (not y)"] by (metis add_0)
  then show ?thesis by (simp add: eq_diff_eq add.commute)
qed

lemma and_le_words: "and x y \<le> (y :: 'a::len word)" "and x y \<le> (x :: 'a::len word)"
  by (rule word_and_le1, rule word_and_le2)

text \<open>Rounding never moves an offset down, and moves it up by less than the alignment.\<close>

lemma align_up_bounds:
  assumes "0 < unat align" and "unat offset + unat align < 2 ^ 64"
  shows "unat offset \<le> unat (align_up offset align)"
    and "unat (align_up offset align) < unat offset + unat align"
proof -
  have sub: "unat (align - 1) = unat align - 1"
    using assms(1) by (simp add: unat_minus_one unat_gt_0)
  have sum: "unat (offset + (align - 1)) = unat offset + (unat align - 1)"
    using assms sub by (simp add: unat_add_lem [THEN iffD1])
  let ?y = "offset + (align - 1)"
  have "align_up offset align = ?y - and ?y (align - 1)"
    unfolding align_up_def by (simp add: and_not_eq_minus add_diff_eq)
  then have "unat (align_up offset align) = unat ?y - unat (and ?y (align - 1))"
    by (simp only: unat_sub [OF and_le_words(2)])
  moreover have "unat (and (offset + (align - 1)) (align - 1)) \<le> unat align - 1"
    using and_le_words(1) [of ?y "align - 1"] sub by (simp only: word_le_nat_alt)
  ultimately show "unat offset \<le> unat (align_up offset align)"
    and "unat (align_up offset align) < unat offset + unat align"
    using sum assms(1) by linarith+
qed

text \<open>The result is a multiple of every power of two that divides the alignment.\<close>

lemma align_up_dvd:
  assumes "2 ^ k dvd unat align" and "0 < unat align" and "k < 64"
  shows "2 ^ k dvd unat (align_up offset align)"
proof -
  have low: "bit (align - 1) i" if "i < k" for i
  proof -
    have "unat (align - 1) = unat align - 1"
      using assms(2) by (simp add: unat_minus_one unat_gt_0)
    moreover obtain m where m: "unat align = 2 ^ k * m" "0 < m" using assms(1,2) by auto
    ultimately have "unat (align - 1) = 2 ^ k * (m - 1) + (2 ^ k - 1)"
      by (cases m) (simp_all add: algebra_simps)
    then have "take_bit k (unat (align - 1)) = 2 ^ k - 1"
      by (simp only: take_bit_eq_mod mod_mult_self3 mult.commute [of "2 ^ k"]) simp
    then have "bit (take_bit k (unat (align - 1))) i"
      using that by (simp only: mask_eq_exp_minus_1 [symmetric]) (simp add: bit_mask_iff)
    then have "bit (unat (align - 1)) i" by (simp add: bit_take_bit_iff that)
    then show ?thesis by (simp add: bit_unsigned_iff)
  qed
  have "take_bit k (align_up offset align) = 0"
    by (rule bit_word_eqI) (auto simp: align_up_def bit_simps low)
  then have "take_bit k (unat (align_up offset align)) = 0"
    by (metis unsigned_0 unsigned_take_bit_eq)
  then show ?thesis by (simp add: take_bit_eq_0_iff)
qed

section \<open>Words as bytes, least significant byte first\<close>

definition word_bytes :: "nat \<Rightarrow> 'a::len word \<Rightarrow> u8 list" where
  "word_bytes n w = map (\<lambda>i. ucast (drop_bit (8 * i) w)) [0..<n]"

fun bytes_word :: "u8 list \<Rightarrow> 'a::len word" where
  "bytes_word [] = 0"
| "bytes_word (b # bs) = or (ucast b) (push_bit 8 (bytes_word bs))"

lemma length_word_bytes [simp]: "length (word_bytes n w) = n"
  by (simp add: word_bytes_def)

lemma bit_bytes_word:
  "bit (bytes_word bs :: 'a::len word) i \<longleftrightarrow>
     i < LENGTH('a) \<and> i div 8 < length bs \<and> bit (bs ! (i div 8)) (i mod 8)"
proof (induction bs arbitrary: i)
  case Nil
  then show ?case by simp
next
  case (Cons b bs)
  have step: "bit (bytes_word (b # bs) :: 'a word) i \<longleftrightarrow>
      i < LENGTH('a) \<and> (bit b i \<or> 8 \<le> i \<and> bit (bytes_word bs :: 'a word) (i - 8))"
    by (simp add: bit_or_iff bit_push_bit_iff bit_ucast_iff) blast
  show ?case
  proof (cases "i < 8")
    case True
    then show ?thesis
      unfolding step by (simp add: div_eq_0_iff)
  next
    case False
    then have "i div 8 = Suc ((i - 8) div 8)" and "i mod 8 = (i - 8) mod 8"
      by (simp_all add: le_div_geq le_mod_geq)
    moreover have "\<not> bit b i"
      using False bit_imp_le_length [of b i] by auto
    ultimately show ?thesis
      using False unfolding step by (simp add: Cons.IH) linarith
  qed
qed

end
