(* ===== verification/Ir_Op.thy ===== *)
theory Ir_Op
  imports Prelude
begin

text \<open>
  The operators of the source language (\<open>frontend/ast/op.hpp\<close>) and of the IR
  (\<open>backend/ir/op.hpp\<close>): their enumerations, their printed forms and the translation of the
  first into the second. A cast of an out-of-range integer to the enumeration is not modelled, so
  the \<open>default\<close> branches of the two AST printers are unreachable here.
\<close>

section \<open>Operators of the source language\<close>

datatype ast_type = T_INT | T_FLOAT | T_BOOL | T_DOUBLE | T_VOID

fun ast_type_toString :: "ast_type \<Rightarrow> string" where
  "ast_type_toString T_INT = ''int''"
| "ast_type_toString T_FLOAT = ''float''"
| "ast_type_toString T_BOOL = ''bool''"
| "ast_type_toString T_DOUBLE = ''double''"
| "ast_type_toString T_VOID = ''void''"

datatype ast_unary_op = U_PLUS | U_MINUS | U_NOT

fun ast_unary_toString :: "ast_unary_op \<Rightarrow> string" where
  "ast_unary_toString U_PLUS = ''+''"
| "ast_unary_toString U_MINUS = ''-''"
| "ast_unary_toString U_NOT = ''!''"

datatype ast_binary_op =
    B_MUL | B_DIV | B_MOD | B_ADD | B_SUB
  | B_LT | B_GT | B_LEQ | B_GEQ | B_EQ | B_NEQ
  | B_AND | B_OR | B_INDEX

fun ast_binary_toString :: "ast_binary_op \<Rightarrow> string" where
  "ast_binary_toString B_MUL = ''*''"
| "ast_binary_toString B_DIV = ''/''"
| "ast_binary_toString B_MOD = ''%''"
| "ast_binary_toString B_ADD = ''+''"
| "ast_binary_toString B_SUB = ''-''"
| "ast_binary_toString B_LT = ''<''"
| "ast_binary_toString B_GT = ''>''"
| "ast_binary_toString B_LEQ = ''<=''"
| "ast_binary_toString B_GEQ = ''>=''"
| "ast_binary_toString B_EQ = ''==''"
| "ast_binary_toString B_NEQ = ''!=''"
| "ast_binary_toString B_AND = ''&&''"
| "ast_binary_toString B_OR = ''||''"
| "ast_binary_toString B_INDEX = ''[]''"

section \<open>Operators of the IR\<close>

datatype unary_inst_op =
    Op_MOV | Op_NOT | Op_NEG | Op_LOAD | Op_BORROW | Op_BORROW_MUT | Op_CONVERT

datatype inst_op =
    Op_MUL | Op_DIV | Op_MOD | Op_ADD | Op_SUB
  | Op_LT | Op_GT | Op_LEQ | Op_GEQ | Op_EQ | Op_NEQ
  | Op_AND | Op_OR | Op_SHL | Op_SHRL | Op_SHRA
  | Op_STORE | Op_LOAD_ELEM | Op_BORROW_ELEM | Op_BORROW_ELEM_MUT

fun unary_inst_op_toString :: "unary_inst_op \<Rightarrow> string" where
  "unary_inst_op_toString Op_MOV = ''''"
| "unary_inst_op_toString Op_NOT = ''! ''"
| "unary_inst_op_toString Op_NEG = ''- ''"
| "unary_inst_op_toString Op_LOAD = ''* ''"
| "unary_inst_op_toString Op_BORROW = ''& ''"
| "unary_inst_op_toString Op_BORROW_MUT = ''&mut ''"
| "unary_inst_op_toString Op_CONVERT = ''as ''"

fun inst_op_toString :: "inst_op \<Rightarrow> string" where
  "inst_op_toString Op_MUL = ''*''"
| "inst_op_toString Op_DIV = ''/''"
| "inst_op_toString Op_MOD = ''%''"
| "inst_op_toString Op_ADD = ''+''"
| "inst_op_toString Op_SUB = ''-''"
| "inst_op_toString Op_LT = ''<''"
| "inst_op_toString Op_GT = ''>''"
| "inst_op_toString Op_LEQ = ''<=''"
| "inst_op_toString Op_GEQ = ''>=''"
| "inst_op_toString Op_EQ = ''==''"
| "inst_op_toString Op_NEQ = ''!=''"
| "inst_op_toString Op_AND = ''&&''"
| "inst_op_toString Op_OR = ''||''"
| "inst_op_toString Op_STORE = ''<-''"
| "inst_op_toString Op_SHL = ''<<''"
| "inst_op_toString Op_SHRL = ''>>''"
| "inst_op_toString Op_SHRA = ''>>>''"
| "inst_op_toString Op_LOAD_ELEM = ''[]''"
| "inst_op_toString Op_BORROW_ELEM = ''& ''"
| "inst_op_toString Op_BORROW_ELEM_MUT = ''&mut ''"

fun convert_binary_op :: "ast_binary_op \<Rightarrow> inst_op result" where
  "convert_binary_op B_MUL = Inr Op_MUL"
| "convert_binary_op B_DIV = Inr Op_DIV"
| "convert_binary_op B_MOD = Inr Op_MOD"
| "convert_binary_op B_ADD = Inr Op_ADD"
| "convert_binary_op B_SUB = Inr Op_SUB"
| "convert_binary_op B_LT = Inr Op_LT"
| "convert_binary_op B_GT = Inr Op_GT"
| "convert_binary_op B_LEQ = Inr Op_LEQ"
| "convert_binary_op B_GEQ = Inr Op_GEQ"
| "convert_binary_op B_EQ = Inr Op_EQ"
| "convert_binary_op B_NEQ = Inr Op_NEQ"
| "convert_binary_op B_AND = Inr Op_AND"
| "convert_binary_op B_OR = Inr Op_OR"
| "convert_binary_op _ = Inl (Compiler_error ''unsupported binary operator'')"

definition commutative :: "inst_op \<Rightarrow> bool" where
  "commutative p \<longleftrightarrow> p = Op_MUL \<or> p = Op_ADD \<or> p = Op_AND \<or> p = Op_OR \<or> p = Op_EQ \<or> p = Op_NEQ"

fun convert_unary_op :: "ast_unary_op \<Rightarrow> unary_inst_op" where
  "convert_unary_op U_PLUS = Op_MOV"
| "convert_unary_op U_MINUS = Op_NEG"
| "convert_unary_op U_NOT = Op_NOT"

text \<open>Translation keeps the symbol the programmer wrote, and fails on indexing only.\<close>

lemma convert_binary_op_symbol:
  "convert_binary_op b = Inr p \<Longrightarrow> inst_op_toString p = ast_binary_toString b"
  by (cases b) auto

lemma convert_binary_op_total: "is_ok (convert_binary_op b) \<longleftrightarrow> b \<noteq> B_INDEX"
  by (cases b) auto

end
