(* ===== verification/Ir_Type.thy ===== *)
theory Ir_Type
  imports Ir_Op
begin

text \<open>
  The algebraic data types of the IR (\<open>backend/ir/type.hpp\<close>): the type grammar, sizes,
  flattening and decay of arrays, borrowing, the subtype test \<open>operator<=\<close> with its overloads in
  the order C++ selects them, the sum constructor and the join \<open>operator|\<close>, and
  \<open>constructable\<close>. A \<open>size_t\<close> is a natural number below \<open>2 ^ 64\<close>, and its arithmetic wraps
  (\<open>wrap64\<close>). \<open>sizeof(void*)\<close> is 8 and \<open>sizeof(int)\<close> is 4.
\<close>

section \<open>Types\<close>

datatype prim = Int1 | Int32 | Float32 | Float64 | Int64 | Float

datatype ty =
    Prim prim
  | Sum "ty list"
  | Product "ty list"
  | Func ty ty
  | Array ty nat
  | Reference ty (is_readonly: bool) (ref_slice: bool)
  | Top
  | Bottom

fun is_array :: "ty \<Rightarrow> bool" where
  "is_array (Array e n) = True"
| "is_array _ = False"

fun is_primitive :: "ty \<Rightarrow> bool" where
  "is_primitive (Prim p) = True"
| "is_primitive _ = False"

fun is_reference :: "ty \<Rightarrow> bool" where
  "is_reference (Reference e r s) = True"
| "is_reference _ = False"

fun isPointer :: "ty \<Rightarrow> bool" where
  "isPointer (Reference e r s) = (\<not> s)"
| "isPointer _ = False"

fun isSlice :: "ty \<Rightarrow> bool" where
  "isSlice (Reference e r s) = s"
| "isSlice _ = False"

definition slice :: "ty \<Rightarrow> bool \<Rightarrow> ty" where
  "slice e readonly = Reference e readonly True"

definition pointer :: "ty \<Rightarrow> bool \<Rightarrow> ty" where
  "pointer e readonly = Reference e readonly False"

definition unit_ty :: ty where
  "unit_ty = Product []"

text \<open>\<open>Array::flatten\<close> works on the element type and the size.\<close>

fun array_flatten :: "ty \<Rightarrow> nat \<Rightarrow> ty \<times> nat" where
  "array_flatten (Array e m) n = array_flatten e (wrap64 (n * m))"
| "array_flatten e n = (e, n)"

fun flatten :: "ty \<Rightarrow> ty" where
  "flatten (Array e n) = (case array_flatten e n of (e', n') \<Rightarrow> Array e' n')"
| "flatten t = t"

fun decay :: "bool \<Rightarrow> ty \<Rightarrow> ty" where
  "decay readonly (Array e n) = slice e readonly"
| "decay readonly t = t"

fun borrow :: "bool \<Rightarrow> ty \<Rightarrow> ty" where
  "borrow readonly (Array e n) = slice e readonly"
| "borrow readonly t = pointer t readonly"

section \<open>Sizes\<close>

fun size_of_prim :: "prim \<Rightarrow> nat" where
  "size_of_prim Int1 = 1"
| "size_of_prim Int32 = 4"
| "size_of_prim Int64 = 8"
| "size_of_prim Float32 = 4"
| "size_of_prim Float64 = 8"
| "size_of_prim Float = 8"

fun size_of :: "ty \<Rightarrow> nat" where
  "size_of (Prim p) = size_of_prim p"
| "size_of (Product ts) = wrap64 (sum_list (map size_of ts))"
| "size_of (Sum ts) = wrap64 (foldr max (map size_of ts) 0 + 4)"
| "size_of (Func p r) = 8"
| "size_of (Array e n) = wrap64 (n * size_of e)"
| "size_of (Reference e r s) = 8"
| "size_of Top = 0"
| "size_of Bottom = 0"

lemma size_of_prim_pos [simp]: "0 < size_of_prim p"
  by (cases p) auto

lemma array_flatten_size: "array_flatten e n = (e', n') \<Longrightarrow> wrap64 (n' * size_of e') = wrap64 (n * size_of e)"
  by (induction e n rule: array_flatten.induct) (auto simp: mult.assoc)

lemma array_flatten_elem: "array_flatten e n = (e', n') \<Longrightarrow> \<not> is_array e'"
  by (induction e n rule: array_flatten.induct) auto

lemma array_flatten_id: "\<not> is_array e \<Longrightarrow> array_flatten e n = (e, n)"
  by (cases e) auto

lemma flatten_size_of: "size_of (flatten t) = size_of t"
  by (cases t) (auto split: prod.splits dest: array_flatten_size)

lemma flatten_idem: "flatten (flatten t) = flatten t"
  by (cases t) (auto split: prod.splits simp: array_flatten_id dest: array_flatten_elem)

lemma flatten_array: "is_array (flatten t) \<longleftrightarrow> is_array t"
  by (cases t) (auto split: prod.splits)

section \<open>Subtyping\<close>

lemma size_list_elem: "x \<in> set xs \<Longrightarrow> size x \<le> size_list size xs"
  by (rule size_list_estimation' [OF _ order_refl])

lemma size_zip_elem:
  "(x, y) \<in> set (zip xs ys) \<Longrightarrow> size x + size y \<le> size_list size xs + size_list size ys"
  by (meson add_mono set_zip_leftD set_zip_rightD size_list_elem)

text \<open>
  \<open>operator<=\<close>. A \<open>Bottom\<close> on the left and a \<open>Top\<close> on the right are decided when the boxes are
  opened, before the overload for the two alternatives is chosen; a sum on the left is tried
  before a sum on the right; alternatives without an overload of their own are unrelated.
\<close>

function (sequential) sub_ty :: "ty \<Rightarrow> ty \<Rightarrow> bool" where
  "sub_ty Bottom t = True"
| "sub_ty t Top = True"
| "sub_ty (Sum xs) t = list_all (\<lambda>x. sub_ty x t) xs"
| "sub_ty t (Sum ys) = list_ex (\<lambda>y. sub_ty t y) ys"
| "sub_ty (Prim p) (Prim q) = (p = q)"
| "sub_ty (Product xs) (Product ys) =
     (length xs = length ys \<and> list_all (\<lambda>(x, y). sub_ty x y) (zip xs ys))"
| "sub_ty (Func p r) (Func p' r') = (sub_ty p' p \<and> sub_ty r r')"
| "sub_ty (Array e n) (Array e' n') = (sub_ty e e' \<and> sub_ty e' e \<and> n = n')"
| "sub_ty (Reference e ro s) (Reference e' ro' s') =
     (sub_ty e e' \<and> \<not> (ro \<and> \<not> ro') \<and> (ro' \<or> sub_ty e' e))"
| "sub_ty (Array e n) (Reference e' ro' s') = (sub_ty e e' \<and> (ro' \<or> sub_ty e' e))"
| "sub_ty (Reference e ro s) (Array e' n') = (sub_ty e e' \<and> \<not> ro \<and> sub_ty e' e)"
| "sub_ty _ _ = False"
  by pat_completeness auto
termination
  by (relation "measure (\<lambda>(a, b). size a + size b)")
    (auto simp: less_Suc_eq_le add.commute dest: size_zip_elem size_list_elem)

definition eq_ty :: "ty \<Rightarrow> ty \<Rightarrow> bool" where
  "eq_ty a b \<longleftrightarrow> sub_ty a b \<and> sub_ty b a"

lemma sub_ty_Top [simp]: "sub_ty t Top"
  by (cases t) auto

lemma sub_ty_Sum_left: "sub_ty (Sum xs) t \<longleftrightarrow> (\<forall>x\<in>set xs. sub_ty x t)"
  by (cases t) (auto simp: list_all_iff)

text \<open>A subtype of an alternative is a subtype of the sum, also when it is a sum itself.\<close>

lemma sub_ty_Sum_right: "sub_ty a b \<Longrightarrow> b \<in> set ys \<Longrightarrow> sub_ty a (Sum ys)"
proof (induction a)
  case (Sum xs)
  then show ?case
    by (auto simp: sub_ty_Sum_left)
qed (auto simp: list_ex_iff)

lemma list_all_zip_refl: "(\<And>x. x \<in> set xs \<Longrightarrow> P x x) \<Longrightarrow> list_all (\<lambda>(x, y). P x y) (zip xs xs)"
  by (induction xs) auto

lemma sub_ty_refl [simp]: "sub_ty t t"
proof (induction t)
  case (Sum xs)
  then show ?case
    by (simp add: sub_ty_Sum_left) (blast intro: sub_ty_Sum_right)
next
  case (Product xs)
  then show ?case
    by (simp add: list_all_zip_refl)
qed auto

lemma eq_ty_refl [simp]: "eq_ty t t"
  by (simp add: eq_ty_def)

lemma eq_ty_sym: "eq_ty a b \<longleftrightarrow> eq_ty b a"
  by (auto simp: eq_ty_def)

section \<open>Sums and the join\<close>

text \<open>\<open>Sum::append\<close>, the constructor of sums, \<open>index_of\<close> and \<open>type_of\<close>.\<close>

definition sum_append :: "ty \<Rightarrow> ty list \<Rightarrow> ty list" where
  "sum_append item items =
     (if item = Bottom then items
      else if list_ex (\<lambda>i. eq_ty i item) items then items
      else items @ [item])"

definition mk_sum :: "ty list \<Rightarrow> ty result" where
  "mk_sum items =
     (let its = fold sum_append items []
      in if length its < 2 then Inl (Compiler_error ''Sum type must have at least 2 items'')
         else Inr (Sum its))"

fun index_of_from :: "nat \<Rightarrow> ty list \<Rightarrow> ty \<Rightarrow> nat result" where
  "index_of_from i [] item = Inl (Compiler_error ''Type not found in Sum type'')"
| "index_of_from i (x # xs) item = (if eq_ty x item then Inr i else index_of_from (Suc i) xs item)"

definition index_of :: "ty list \<Rightarrow> ty \<Rightarrow> nat result" where
  "index_of items item = index_of_from 0 items item"

definition sum_type_of :: "ty list \<Rightarrow> nat \<Rightarrow> ty result" where
  "sum_type_of items index =
     (if length items \<le> index then Inl (Compiler_error ''Index out of bounds for Sum type'')
      else Inr (items ! index))"

text \<open>\<open>operator|\<close>: sums are opened one level, duplicates (up to \<open>==\<close>) dropped.\<close>

fun join_collect :: "ty \<Rightarrow> ty list" where
  "join_collect (Sum s) = s"
| "join_collect t = [t]"

definition push_unique :: "ty \<Rightarrow> ty list \<Rightarrow> ty list" where
  "push_unique item unique =
     (if list_all (\<lambda>u. \<not> eq_ty item u) unique then unique @ [item] else unique)"

definition join_ty :: "ty \<Rightarrow> ty \<Rightarrow> ty result" where
  "join_ty lhs rhs =
     (if lhs = Bottom then Inr rhs
      else if rhs = Bottom then Inr lhs
      else if eq_ty lhs rhs then Inr lhs
      else (let unique = fold push_unique (join_collect lhs @ join_collect rhs) []
            in if length unique = 1 then Inr (hd unique) else mk_sum unique))"

text \<open>A sum built by its constructor has no \<open>Bottom\<close> alternative.\<close>

fun sum_wf :: "ty \<Rightarrow> bool" where
  "sum_wf (Sum xs) = (Bottom \<notin> set xs \<and> 2 \<le> length xs)"
| "sum_wf t = True"

lemma push_unique_set: "set (push_unique x us) \<subseteq> insert x (set us)"
  by (auto simp: push_unique_def)

lemma push_unique_covers: "\<exists>u\<in>set (push_unique x us). eq_ty x u"
  by (auto simp: push_unique_def list_all_iff)

lemma fold_push_unique_mono: "set us \<subseteq> set (fold push_unique xs us)"
proof (induction xs arbitrary: us)
  case (Cons x xs)
  have "set us \<subseteq> set (push_unique x us)" by (auto simp: push_unique_def)
  with Cons show ?case by fastforce
qed simp

lemma fold_push_unique_set: "set (fold push_unique xs us) \<subseteq> set xs \<union> set us"
proof (induction xs arbitrary: us)
  case (Cons x xs)
  then show ?case using push_unique_set [of x us] by fastforce
qed simp

lemma fold_push_unique_covers: "x \<in> set xs \<Longrightarrow> \<exists>u\<in>set (fold push_unique xs us). eq_ty x u"
proof (induction xs arbitrary: us)
  case (Cons y xs)
  then show ?case
    using push_unique_covers [of y us] fold_push_unique_mono [of "push_unique y us" xs] by fastforce
qed simp

text \<open>No two members of a list without duplicates are equal types.\<close>

fun distinct_ty :: "ty list \<Rightarrow> bool" where
  "distinct_ty [] = True"
| "distinct_ty (x # xs) = (list_all (\<lambda>y. \<not> eq_ty x y) xs \<and> distinct_ty xs)"

lemma distinct_ty_snoc: "distinct_ty (xs @ [x]) \<longleftrightarrow> distinct_ty xs \<and> list_all (\<lambda>y. \<not> eq_ty y x) xs"
  by (induction xs) auto

lemma fold_push_unique_distinct: "distinct_ty us \<Longrightarrow> distinct_ty (fold push_unique xs us)"
  by (induction xs arbitrary: us)
    (simp_all add: push_unique_def distinct_ty_snoc list_all_iff eq_ty_sym [of x for x])

lemma fold_sum_append_distinct:
  "distinct_ty (us @ xs) \<Longrightarrow> Bottom \<notin> set xs \<Longrightarrow> fold sum_append xs us = us @ xs"
proof (induction xs arbitrary: us)
  case (Cons x xs)
  have "distinct_ty (us @ [x])"
    using Cons.prems(1) by (induction us) auto
  then have "sum_append x us = us @ [x]"
    using Cons.prems(2) by (auto simp: sum_append_def distinct_ty_snoc list_all_iff list_ex_iff)
  with Cons show ?case by simp
qed simp

lemma join_collect_no_Bottom: "sum_wf t \<Longrightarrow> t \<noteq> Bottom \<Longrightarrow> Bottom \<notin> set (join_collect t)"
  by (cases t) auto

lemma join_collect_nonempty: "sum_wf t \<Longrightarrow> join_collect t \<noteq> []"
  by (cases t) auto

lemma sub_ty_join_collect:
  assumes "\<forall>x\<in>set (join_collect t). sub_ty x s"
  shows "sub_ty t s"
  using assms by (cases t) (auto simp: sub_ty_Sum_left)

lemma mk_sum_distinct:
  "distinct_ty us \<Longrightarrow> Bottom \<notin> set us \<Longrightarrow> 2 \<le> length us \<Longrightarrow> mk_sum us = Inr (Sum us)"
  using fold_sum_append_distinct [of "[]" us] by (simp add: mk_sum_def)

text \<open>What the collected and deduplicated alternatives make of a join.\<close>

lemma join_unique_upper:
  assumes wf: "sum_wf a" "sum_wf b" and nb: "a \<noteq> Bottom" "b \<noteq> Bottom"
  defines "us \<equiv> fold push_unique (join_collect a @ join_collect b) []"
  shows "\<exists>t. (if length us = 1 then Inr (hd us) else mk_sum us) = Inr t \<and> sub_ty a t \<and> sub_ty b t"
proof -
  let ?xs = "join_collect a @ join_collect b"
  have noB: "Bottom \<notin> set us"
    using fold_push_unique_set [of ?xs "[]"] join_collect_no_Bottom [OF wf(1) nb(1)]
      join_collect_no_Bottom [OF wf(2) nb(2)] by (auto simp: us_def simp del: fold_append)
  have dist: "distinct_ty us"
    unfolding us_def by (rule fold_push_unique_distinct) simp
  have cov: "\<exists>u\<in>set us. sub_ty x u" if "x \<in> set ?xs" for x
    using fold_push_unique_covers [OF that, of "[]"] by (auto simp: us_def eq_ty_def simp del: fold_append)
  have "hd ?xs \<in> set ?xs"
    using join_collect_nonempty [OF wf(1)] by (intro hd_in_set) simp
  then have "us \<noteq> []"
    using cov by fastforce
  then consider (one) u where "us = [u]" | (more) "2 \<le> length us"
    by (cases us; cases "tl us") auto
  then show ?thesis
  proof cases
    case one
    then have "\<forall>x\<in>set ?xs. sub_ty x u" using cov by auto
    then show ?thesis using one by (auto intro: sub_ty_join_collect)
  next
    case more
    have "\<forall>x\<in>set ?xs. sub_ty x (Sum us)" using cov by (blast intro: sub_ty_Sum_right)
    then have "sub_ty a (Sum us)" "sub_ty b (Sum us)" by (auto intro: sub_ty_join_collect)
    with more dist noB show ?thesis by (simp add: mk_sum_distinct)
  qed
qed

text \<open>
  C35: the join of two types is an upper bound: on types whose sums are built by the constructor
  operator| succeeds and both arguments are subtypes of the result.
\<close>

lemma join_ty_upper:
  assumes "sum_wf a" "sum_wf b"
  shows "\<exists>t. join_ty a b = Inr t \<and> sub_ty a t \<and> sub_ty b t"
  using join_unique_upper [OF assms]
  by (auto simp: join_ty_def Let_def eq_ty_def simp del: fold_append)

section \<open>Which initialisers fit\<close>

fun dim :: "ty \<Rightarrow> nat" where
  "dim (Array e n) = (if is_array e then 1 + dim e else 1)"
| "dim t = 0"

function (sequential) constructable :: "ty \<Rightarrow> ty \<Rightarrow> bool" where
  "constructable (Array fe fn) (Array te tn) =
     (if 1 < dim (Array fe fn) \<and> dim (Array te tn) \<noteq> dim (Array fe fn) then False
      else if dim (Array fe fn) = 1 \<and> 1 < dim (Array te tn)
        then (case array_flatten te tn of (fae, fas) \<Rightarrow> constructable fe fae \<and> fn \<le> fas)
      else constructable fe te \<and> fn \<le> tn)"
| "constructable (Reference fe fr fs) (Reference te tr ts) = constructable fe te"
| "constructable (Array fe fn) (Reference te tr ts) = False"
| "constructable (Reference fe fr fs) (Array te tn) = False"
| "constructable a b = sub_ty a b"
  by pat_completeness auto
termination
  by (relation "measure (\<lambda>(a, b). size a)") auto

text \<open>Data of initialisers: scalars, the type of an empty list, and arrays of these.\<close>

fun scalar_data :: "ty \<Rightarrow> bool" where
  "scalar_data (Prim p) = True"
| "scalar_data Bottom = True"
| "scalar_data (Array e n) = scalar_data e"
| "scalar_data _ = False"

lemma scalar_data_flatten: "scalar_data e \<Longrightarrow> array_flatten e n = (e', n') \<Longrightarrow> scalar_data e'"
  by (induction e n rule: array_flatten.induct) auto

lemma sub_ty_scalar_size_of:
  "sub_ty a b \<Longrightarrow> scalar_data a \<Longrightarrow> scalar_data b \<Longrightarrow> is_primitive a \<or> \<not> is_array b \<Longrightarrow>
     size_of a \<le> size_of b"
  by (cases a; cases b) auto

text \<open>The size of an array type is computed without wrapping.\<close>

fun fits64 :: "ty \<Rightarrow> bool" where
  "fits64 (Array e n) \<longleftrightarrow> fits64 e \<and> n * size_of e < 2 ^ 64"
| "fits64 t \<longleftrightarrow> True"

lemma array_flatten_fits:
  "array_flatten e n = (e', n') \<Longrightarrow> fits64 (Array e n) \<Longrightarrow> fits64 e' \<and> n' * size_of e' \<le> n * size_of e"
proof (induction e n rule: array_flatten.induct)
  case (1 e m n)
  have m: "m * size_of e < 2 ^ 64" and n: "n * (m * size_of e) < 2 ^ 64" and e: "fits64 e" using "1.prems"(2) by auto
  have le: "wrap64 (n * m) * size_of e \<le> n * (m * size_of e)"
    using mult_le_mono1 [OF wrap64_le, of "n * m" "size_of e"] by (simp add: mult.assoc)
  then have "wrap64 (n * m) * size_of e < 2 ^ 64" using n by (rule order.strict_trans1)
  then have "fits64 (Array e (wrap64 (n * m)))" using e by simp
  from "1.IH" [OF _ this] "1.prems"(1) have "fits64 e' \<and> n' * size_of e' \<le> wrap64 (n * m) * size_of e" by simp
  then have "fits64 e' \<and> n' * size_of e' \<le> n * (m * size_of e)" using le order_trans by blast
  then show ?case using m by simp
qed auto

text \<open>
  C37: an initialiser that constructable accepts is no larger than the variable it initialises,
  when both types are scalar data and the size of the variable is below 2^64 (sizes are computed
  in size_t and wrap around; beyond 2^64 bytes the claim fails).
\<close>

lemma constructable_size_of:
  "constructable a b \<Longrightarrow> scalar_data a \<Longrightarrow> scalar_data b \<Longrightarrow> fits64 b \<Longrightarrow> size_of a \<le> size_of b"
proof (induction a b rule: constructable.induct)
  case (1 fe fn te tn)
  obtain fae fas where fl: "array_flatten te tn = (fae, fas)" by force
  show ?case
  proof (cases "dim (Array fe fn) = 1 \<and> 1 < dim (Array te tn)")
    case True
    with "1.prems" fl have c: "constructable fe fae" "fn \<le> fas" by auto
    have fits: "fits64 fae" "fas * size_of fae \<le> tn * size_of te" using array_flatten_fits [OF fl "1.prems"(4)] by simp_all
    have "scalar_data fae" using "1.prems" fl by (auto intro: scalar_data_flatten)
    then have "size_of fe \<le> size_of fae" using "1.IH"(1) "1.prems" fl True c fits(1) by auto
    with c fits(2) have "fn * size_of fe \<le> tn * size_of te" by (meson mult_le_mono order_trans)
    then show ?thesis using wrap64_le [of "fn * size_of fe"] "1.prems"(4) by simp
  next
    case False
    have dims: "\<not> (1 < dim (Array fe fn) \<and> dim (Array te tn) \<noteq> dim (Array fe fn))"
      and c: "constructable fe te" "fn \<le> tn"
      using "1.prems"(1) False by (simp_all split: if_splits del: dim.simps)
    have "size_of fe \<le> size_of te"
      using "1.prems"(2-4) by (intro "1.IH"(2) [OF dims False c(1)]) simp_all
    with c(2) have "fn * size_of fe \<le> tn * size_of te" by (simp add: mult_le_mono)
    then show ?thesis using wrap64_le [of "fn * size_of fe"] "1.prems"(4) by simp
  qed
qed (auto dest: sub_ty_scalar_size_of)

section \<open>Instances\<close>

theorem constructable_size_of_witness: "size_of (Array (Prim Int32) 3) \<le> size_of (Array (Prim Int32) 4)"
  by (rule constructable_size_of) simp_all

theorem join_ty_upper_witness:
  "\<exists>t. join_ty (Prim Int32) (Sum [Prim Int32, Prim Float32]) = Inr t \<and> sub_ty (Prim Int32) t \<and>
     sub_ty (Sum [Prim Int32, Prim Float32]) t"
  by (rule join_ty_upper) simp_all

end
