(* ===== verification/Ir_Value.thy ===== *)
theory Ir_Value
  imports Ir_Type
begin

text \<open>
  The values of the IR (\<open>backend/ir/ir.h\<close>, \<open>value.cpp\<close>, \<open>alloc.cpp\<close>): compile-time constants
  with their variant and their type, the three kinds of variables, and allocations.

  A pointer to an object is the number of the object (\<open>alloc_id\<close>, \<open>func_id\<close>, \<open>block_id\<close>), so
  comparing pointers is comparing numbers; what an \<open>Alloc*\<close> points to is looked up in a store
  \<open>alloc_id \<Rightarrow> alloc\<close>. Floating-point values are their IEEE-754 bit patterns; the tests for
  equality and order, negation and NaN are computed from the bits (\<open>f32_eq\<close> and so on).
\<close>

section \<open>Floating-point bit patterns\<close>

definition f32_mag :: "u32 \<Rightarrow> u32" where "f32_mag w = take_bit 31 w"
definition f64_mag :: "u64 \<Rightarrow> u64" where "f64_mag w = take_bit 63 w"

definition f32_nan :: "u32 \<Rightarrow> bool" where "f32_nan w \<longleftrightarrow> 0x7F800000 < f32_mag w"
definition f64_nan :: "u64 \<Rightarrow> bool" where "f64_nan w \<longleftrightarrow> 0x7FF0000000000000 < f64_mag w"

definition f32_eq :: "u32 \<Rightarrow> u32 \<Rightarrow> bool" where
  "f32_eq a b \<longleftrightarrow> \<not> f32_nan a \<and> \<not> f32_nan b \<and> (a = b \<or> f32_mag a = 0 \<and> f32_mag b = 0)"

definition f64_eq :: "u64 \<Rightarrow> u64 \<Rightarrow> bool" where
  "f64_eq a b \<longleftrightarrow> \<not> f64_nan a \<and> \<not> f64_nan b \<and> (a = b \<or> f64_mag a = 0 \<and> f64_mag b = 0)"

text \<open>The signed magnitude orders the values that are not NaN.\<close>

definition f32_key :: "u32 \<Rightarrow> int" where
  "f32_key w = (if bit w 31 then - uint (f32_mag w) else uint (f32_mag w))"

definition f64_key :: "u64 \<Rightarrow> int" where
  "f64_key w = (if bit w 63 then - uint (f64_mag w) else uint (f64_mag w))"

definition f32_lt :: "u32 \<Rightarrow> u32 \<Rightarrow> bool" where
  "f32_lt a b \<longleftrightarrow> \<not> f32_nan a \<and> \<not> f32_nan b \<and> f32_key a < f32_key b"

definition f32_le :: "u32 \<Rightarrow> u32 \<Rightarrow> bool" where
  "f32_le a b \<longleftrightarrow> \<not> f32_nan a \<and> \<not> f32_nan b \<and> f32_key a \<le> f32_key b"

definition f64_lt :: "u64 \<Rightarrow> u64 \<Rightarrow> bool" where
  "f64_lt a b \<longleftrightarrow> \<not> f64_nan a \<and> \<not> f64_nan b \<and> f64_key a < f64_key b"

definition f64_le :: "u64 \<Rightarrow> u64 \<Rightarrow> bool" where
  "f64_le a b \<longleftrightarrow> \<not> f64_nan a \<and> \<not> f64_nan b \<and> f64_key a \<le> f64_key b"

definition f32_neg :: "u32 \<Rightarrow> u32" where "f32_neg w = xor w 0x80000000"
definition f64_neg :: "u64 \<Rightarrow> u64" where "f64_neg w = xor w 0x8000000000000000"

definition f32_one :: u32 where "f32_one = 0x3F800000"
definition f64_one :: u64 where "f64_one = 0x3FF0000000000000"

section \<open>Constants\<close>

datatype cval =
    V_none
  | V_int u32
  | V_int64 u64
  | V_float u32
  | V_bool bool
  | V_double u64
  | V_bytes "u8 list"

datatype constexpr = Constexpr (ctype: ty) (cvalue: cval)

text \<open>The converting constructors: the type is the one of the C++ value.\<close>

fun type_of_cval :: "cval \<Rightarrow> ty" where
  "type_of_cval (V_int v) = Prim Int32"
| "type_of_cval (V_int64 v) = Prim Int64"
| "type_of_cval (V_float v) = Prim Float32"
| "type_of_cval (V_double v) = Prim Float64"
| "type_of_cval (V_bool v) = Prim Int1"
| "type_of_cval V_none = unit_ty"
| "type_of_cval (V_bytes bs) = Bottom"

definition mk_const :: "cval \<Rightarrow> constexpr" where
  "mk_const v = Constexpr (type_of_cval v) v"

definition void_const :: constexpr where
  "void_const = Constexpr unit_ty V_none"

fun zero_of_prim :: "prim \<Rightarrow> cval" where
  "zero_of_prim Int1 = V_bool False"
| "zero_of_prim Int32 = V_int 0"
| "zero_of_prim Int64 = V_int64 0"
| "zero_of_prim Float32 = V_float 0"
| "zero_of_prim Float64 = V_double 0"
| "zero_of_prim Float = V_double 0"

fun zeros_like :: "ty \<Rightarrow> constexpr result" where
  "zeros_like (Prim p) = Inr (mk_const (zero_of_prim p))"
| "zeros_like (Array e n) =
     Inr (Constexpr (flatten (Array e n)) (V_bytes (replicate (size_of (Array e n)) 0)))"
| "zeros_like t = Inl (Compiler_error ''Unsupported type in zeros_like'')"

text \<open>The bytes of element \<open>i\<close> of a buffer of elements of \<open>k\<close> bytes.\<close>

definition elem_bytes :: "nat \<Rightarrow> u8 list \<Rightarrow> nat \<Rightarrow> u8 list" where
  "elem_bytes k bs i = take k (drop (i * k) bs)"

text \<open>\<open>==\<close> on two elements of the C++ type of the primitive type.\<close>

fun elem_eq :: "prim \<Rightarrow> u8 list \<Rightarrow> u8 list \<Rightarrow> bool" where
  "elem_eq Float32 a b = f32_eq (bytes_word a) (bytes_word b)"
| "elem_eq Float64 a b = f64_eq (bytes_word a) (bytes_word b)"
| "elem_eq Float a b = f64_eq (bytes_word a) (bytes_word b)"
| "elem_eq p a b = (a = b)"

definition elem_is_zero :: "prim \<Rightarrow> u8 list \<Rightarrow> bool" where
  "elem_is_zero p a = elem_eq p a (replicate (size_of_prim p) 0)"

fun cval_eq :: "cval \<Rightarrow> cval \<Rightarrow> bool" where
  "cval_eq V_none V_none = True"
| "cval_eq (V_int a) (V_int b) = (a = b)"
| "cval_eq (V_int64 a) (V_int64 b) = (a = b)"
| "cval_eq (V_float a) (V_float b) = f32_eq a b"
| "cval_eq (V_bool a) (V_bool b) = (a = b)"
| "cval_eq (V_double a) (V_double b) = f64_eq a b"
| "cval_eq _ _ = False"

text \<open>
  \<open>operator==\<close>. Two buffers outside an array type are compared as pointers by the variant, so
  two distinct constants are different. Reading an array constant that holds no buffer throws
  \<open>bad_variant_access\<close>.
\<close>

definition constexpr_eq :: "constexpr \<Rightarrow> constexpr \<Rightarrow> bool result" where
  "constexpr_eq l r =
     (if \<not> eq_ty (ctype l) (ctype r) then Inr False
      else case flatten (ctype l) of
        Array e n \<Rightarrow>
          (case e of
             Prim p \<Rightarrow>
               (case (cvalue l, cvalue r) of
                  (V_bytes a, V_bytes b) \<Rightarrow>
                    (let k = size_of_prim p in
                     Inr (list_all (\<lambda>i. elem_eq p (elem_bytes k a i) (elem_bytes k b i)) [0..<n]))
                | _ \<Rightarrow> Inl Bad_variant)
           | _ \<Rightarrow> Inl (Compiler_error ''Type is not Primitive''))
      | _ \<Rightarrow> Inr (cval_eq (cvalue l) (cvalue r)))"

text \<open>The loop of \<open>prune\<close>: the length without the trailing elements that equal zero.\<close>

fun prune_size :: "prim \<Rightarrow> u8 list \<Rightarrow> nat \<Rightarrow> nat" where
  "prune_size p bs 0 = 0"
| "prune_size p bs (Suc n) =
     (if elem_is_zero p (elem_bytes (size_of_prim p) bs n) then prune_size p bs n else Suc n)"

definition prune :: "constexpr \<Rightarrow> constexpr result" where
  "prune c =
     (case ctype c of
        Array e n \<Rightarrow>
          (case e of
             Prim p \<Rightarrow>
               (case cvalue c of
                  V_bytes bs \<Rightarrow>
                    (let m = prune_size p bs n in
                     Inr (Constexpr (Array e m) (V_bytes (take (m * size_of_prim p) bs))))
                | _ \<Rightarrow> Inl Bad_variant)
           | _ \<Rightarrow> Inl (Compiler_error ''Type is not Primitive''))
      | _ \<Rightarrow> Inr c)"

lemma prune_size_le: "prune_size p bs n \<le> n"
  by (induction p bs n rule: prune_size.induct) auto

lemma prune_size_zero:
  "prune_size p bs n \<le> i \<Longrightarrow> i < n \<Longrightarrow> elem_is_zero p (elem_bytes (size_of_prim p) bs i)"
proof (induction p bs n rule: prune_size.induct)
  case (2 p bs n)
  then show ?case by (cases "i = n") (auto split: if_splits)
qed simp

text \<open>A zero element of an integer type consists of zero bytes; of a floating type it need not.\<close>

definition int_prim :: "prim \<Rightarrow> bool" where
  "int_prim p \<longleftrightarrow> p = Int1 \<or> p = Int32 \<or> p = Int64"

lemma elem_is_zero_int: "int_prim p \<Longrightarrow> elem_is_zero p a \<longleftrightarrow> a = replicate (size_of_prim p) 0"
  by (auto simp: int_prim_def elem_is_zero_def)

text \<open>
  C38: prune loses nothing of an integer array: every byte it cuts off is zero.
\<close>

lemma prune_tail_zero:
  assumes "int_prim p" and "length bs = n * size_of_prim p"
    and "prune_size p bs n * size_of_prim p \<le> j" and "j < length bs"
  shows "bs ! j = 0"
proof -
  let ?k = "size_of_prim p"
  let ?i = "j div ?k"
  have k: "0 < ?k" by simp
  have "prune_size p bs n \<le> ?i" using assms(3) k by (simp add: less_eq_div_iff_mult_less_eq)
  moreover have "?i < n" using assms(2,4) k by (simp add: less_mult_imp_div_less)
  ultimately have z: "elem_bytes ?k bs ?i = replicate ?k 0"
    using prune_size_zero elem_is_zero_int [OF assms(1)] by blast
  have "j mod ?k < ?k" using k by simp
  then have "elem_bytes ?k bs ?i ! (j mod ?k) = 0" using z by simp
  moreover have "elem_bytes ?k bs ?i ! (j mod ?k) = bs ! j"
  proof -
    have "?i * ?k \<le> j" by (rule div_times_less_eq_dividend)
    then have "drop (?i * ?k) bs ! (j mod ?k) = bs ! (?i * ?k + j mod ?k)"
      using assms(4) by (intro nth_drop) linarith
    then show ?thesis using k by (simp add: elem_bytes_def)
  qed
  ultimately show ?thesis by simp
qed

section \<open>Variables and values\<close>

type_synonym alloc_id = nat
type_synonym func_id = nat
type_synonym block_id = nat

datatype name_def = Def_alloc alloc_id | Def_func func_id | Def_builtin nat

datatype left_value =
    NamedValue ty name_def
  | TempValue ty nat func_id
  | SSAValue ty alloc_id nat

datatype val = Const constexpr | Left left_value

text \<open>
  \<open>operator==\<close> of variables ignores the type; a container keyed by variables is a container
  keyed by what \<open>==\<close> compares.
\<close>

datatype lv_key = K_named name_def | K_temp func_id nat | K_ssa alloc_id nat

fun key_of :: "left_value \<Rightarrow> lv_key" where
  "key_of (NamedValue t d) = K_named d"
| "key_of (TempValue t i f) = K_temp f i"
| "key_of (SSAValue t d v) = K_ssa d v"

definition lv_eq :: "left_value \<Rightarrow> left_value \<Rightarrow> bool" where
  "lv_eq a b \<longleftrightarrow> key_of a = key_of b"

fun type_of_lv :: "left_value \<Rightarrow> ty" where
  "type_of_lv (NamedValue t d) = t"
| "type_of_lv (TempValue t i f) = t"
| "type_of_lv (SSAValue t d v) = t"

fun type_of :: "val \<Rightarrow> ty" where
  "type_of (Const c) = ctype c"
| "type_of (Left l) = type_of_lv l"

fun as_lvalue :: "val \<Rightarrow> left_value result" where
  "as_lvalue (Left l) = Inr l"
| "as_lvalue (Const c) = Inl (Compiler_error ''expected LeftValue'')"

section \<open>Allocations\<close>

record alloc =
  al_name :: string
  al_type :: ty
  al_comptime :: bool
  al_immutable :: bool
  al_reference :: bool
  al_init :: "constexpr option"

type_synonym alloc_store = "alloc_id \<Rightarrow> alloc"

definition mk_alloc ::
  "string \<Rightarrow> ty \<Rightarrow> bool \<Rightarrow> bool \<Rightarrow> bool \<Rightarrow> constexpr option \<Rightarrow> alloc result" where
  "mk_alloc name t comptime immutable reference init =
     (if comptime \<and> init = None
        then Inl (Compiler_error ''comptime variable must have an initializer'')
      else if comptime \<and> \<not> immutable
        then Inl (Compiler_error ''comptime variable must be immutable'')
      else Inr \<lparr>al_name = name, al_type = t, al_comptime = comptime, al_immutable = immutable,
                al_reference = reference, al_init = init\<rparr>)"

definition alloc_constant :: "string \<Rightarrow> ty \<Rightarrow> constexpr \<Rightarrow> bool \<Rightarrow> alloc result" where
  "alloc_constant name t init reference = mk_alloc name t True True reference (Some init)"

definition alloc_variable :: "string \<Rightarrow> ty \<Rightarrow> constexpr option \<Rightarrow> bool \<Rightarrow> alloc result" where
  "alloc_variable name t init immutable = mk_alloc name t False immutable False init"

definition alloc_reference_var :: "string \<Rightarrow> ty \<Rightarrow> constexpr option \<Rightarrow> bool \<Rightarrow> alloc result" where
  "alloc_reference_var name t init immutable = mk_alloc name t False immutable True init"

definition alloc_clone :: "string \<Rightarrow> alloc \<Rightarrow> alloc result" where
  "alloc_clone prefix a =
     mk_alloc (prefix @ al_name a) (al_type a) (al_comptime a) (al_immutable a) (al_reference a) (al_init a)"

definition alloc_attrString :: "alloc \<Rightarrow> string" where
  "alloc_attrString a =
     (if al_reference a then ''ref '' else '''') @ (if al_immutable a then '''' else ''mut '')"

definition alloc_value :: "alloc_store \<Rightarrow> alloc_id \<Rightarrow> left_value" where
  "alloc_value A i =
     (if al_reference (A i) then NamedValue (borrow (al_immutable (A i)) (al_type (A i))) (Def_alloc i)
      else NamedValue (al_type (A i)) (Def_alloc i))"

section \<open>Instances\<close>

theorem prune_tail_zero_witness: "[1, 0, 0, 0, 0, 0, 0, 0 :: u8] ! 5 = 0"
  by (rule prune_tail_zero [where p = Int32 and n = 2])
    (simp_all add: int_prim_def eval_nat_numeral elem_bytes_def elem_is_zero_def)

end
