(* ===== verification/Ir_Inst.thy ===== *)
theory Ir_Inst
  imports Ir_Value
begin

text \<open>
  Instructions, blocks, functions and programs of the IR (\<open>backend/ir/ir.h\<close>, \<open>inst.cpp\<close>,
  \<open>block.cpp\<close>, \<open>func.cpp\<close>), the walks over them (\<open>analysis/utils.hpp\<close>) and the control-flow graph
  (\<open>analysis/cfg.hpp\<close>).

  A function lists the numbers of its blocks in order; what a \<open>Block*\<close> points to is \<open>fn_blk\<close>. The
  targets of a branch may be null. Registration of uses with the callbacks of the program is not
  part of these operations.
\<close>

section \<open>Instructions\<close>

datatype inst =
    Phi "left_value option" "(block_id \<times> val) list"
  | Unary unary_inst_op "left_value option" val
  | Binary inst_op "left_value option" val val
  | CallI "left_value option" ty name_def "val list"

datatype ir_exit =
    BranchExit val "block_id option" "block_id option"
  | JumpExit block_id
  | ReturnExit val

definition mk_jump :: "block_id option \<Rightarrow> ir_exit result" where
  "mk_jump t = (case t of None \<Rightarrow> Inl (Compiler_error ''target block cannot be null'') | Some b \<Rightarrow> Inr (JumpExit b))"

text \<open>\<open>PhiInst::operator[]\<close>, \<open>value\<close> and \<open>contains\<close>.\<close>

fun phi_value :: "(block_id \<times> val) list \<Rightarrow> block_id \<Rightarrow> val result" where
  "phi_value [] b = Inl (Compiler_error ''Block not found in PhiInst'')"
| "phi_value ((b', v) # args) b = (if b' = b then Inr v else phi_value args b)"

definition phi_contains :: "(block_id \<times> val) list \<Rightarrow> block_id \<Rightarrow> bool" where
  "phi_contains args b \<longleftrightarrow> b \<in> set (map fst args)"

lemma phi_value_contains: "is_ok (phi_value args b) \<longleftrightarrow> phi_contains args b"
  by (induction args b rule: phi_value.induct) (auto simp: phi_contains_def)

section \<open>Walks over instructions\<close>

fun alloc_of :: "left_value \<Rightarrow> alloc_id option" where
  "alloc_of (NamedValue t (Def_alloc a)) = Some a"
| "alloc_of (NamedValue t d) = None"
| "alloc_of (SSAValue t a v) = Some a"
| "alloc_of (TempValue t i f) = None"

fun as_var :: "val \<Rightarrow> left_value option" where
  "as_var (Left l) = Some l"
| "as_var (Const c) = None"

lemma as_var_Some: "as_var v = Some l \<longleftrightarrow> v = Left l"
  by (cases v) auto

fun defined_var :: "inst \<Rightarrow> left_value option" where
  "defined_var (Phi r args) = r"
| "defined_var (Unary op r x) = r"
| "defined_var (Binary op r x y) = r"
| "defined_var (CallI r t f args) = r"

fun used :: "inst \<Rightarrow> val list" where
  "used (Phi r args) = map snd args"
| "used (Binary op r x y) = [x, y]"
| "used (Unary op r x) = [x]"
| "used (CallI r t f args) = args"

definition used_vars :: "inst \<Rightarrow> left_value list" where
  "used_vars i = List.map_filter as_var (used i)"

fun used_exit :: "ir_exit \<Rightarrow> val option" where
  "used_exit (JumpExit t) = None"
| "used_exit (BranchExit c t f) = Some c"
| "used_exit (ReturnExit v) = Some v"

definition used_var_exit :: "ir_exit \<Rightarrow> left_value option" where
  "used_var_exit e = (case used_exit e of None \<Rightarrow> None | Some v \<Rightarrow> as_var v)"

fun targets :: "ir_exit \<Rightarrow> block_id list" where
  "targets (JumpExit t) = [t]"
| "targets (BranchExit c t f) =
     (case t of None \<Rightarrow> [] | Some b \<Rightarrow> [b]) @ (case f of None \<Rightarrow> [] | Some b \<Rightarrow> [b])"
| "targets (ReturnExit v) = []"

fun is_phi_inst :: "inst \<Rightarrow> bool" where
  "is_phi_inst (Phi r args) = True"
| "is_phi_inst _ = False"

fun sources :: "inst \<Rightarrow> block_id list" where
  "sources (Phi r args) = map fst args"
| "sources _ = []"

definition vars :: "inst \<Rightarrow> left_value list" where
  "vars i = used_vars i @ (case defined_var i of None \<Rightarrow> [] | Some l \<Rightarrow> [l])"

fun has_side_effect :: "inst \<Rightarrow> bool" where
  "has_side_effect (CallI r t f args) = True"
| "has_side_effect (Binary op r x y) = (op = Op_STORE)"
| "has_side_effect _ = False"

section \<open>Blocks\<close>

record ir_block =
  bk_label :: string
  bk_insts :: "inst list"
  bk_exit :: "ir_exit option"

definition new_ir_block :: "string \<Rightarrow> ir_block" where
  "new_ir_block label = \<lparr>bk_label = label, bk_insts = [], bk_exit = None\<rparr>"

definition block_append :: "inst \<Rightarrow> ir_block \<Rightarrow> ir_block" where
  "block_append i b = b\<lparr>bk_insts := bk_insts b @ [i]\<rparr>"

definition block_prepend :: "inst \<Rightarrow> ir_block \<Rightarrow> ir_block" where
  "block_prepend i b = b\<lparr>bk_insts := i # bk_insts b\<rparr>"

definition block_pop_front :: "ir_block \<Rightarrow> (inst \<times> ir_block) result" where
  "block_pop_front b =
     (case bk_insts b of
        [] \<Rightarrow> Inl (Undefined ''front of an empty list'')
      | i # is \<Rightarrow> Inr (i, b\<lparr>bk_insts := is\<rparr>))"

text \<open>An iterator is the position of its element.\<close>

definition block_replace :: "nat \<Rightarrow> inst \<Rightarrow> ir_block \<Rightarrow> ir_block" where
  "block_replace k i b = b\<lparr>bk_insts := (bk_insts b)[k := i]\<rparr>"

definition block_erase :: "nat \<Rightarrow> ir_block \<Rightarrow> ir_block" where
  "block_erase k b = b\<lparr>bk_insts := take k (bk_insts b) @ drop (Suc k) (bk_insts b)\<rparr>"

definition block_insert :: "nat \<Rightarrow> inst \<Rightarrow> ir_block \<Rightarrow> ir_block" where
  "block_insert k i b = b\<lparr>bk_insts := take k (bk_insts b) @ i # drop k (bk_insts b)\<rparr>"

definition setExit :: "ir_exit \<Rightarrow> ir_block \<Rightarrow> ir_block" where
  "setExit e b = b\<lparr>bk_exit := Some e\<rparr>"

definition hasExit :: "ir_block \<Rightarrow> bool" where
  "hasExit b \<longleftrightarrow> bk_exit b \<noteq> None"

definition get_exit :: "ir_block \<Rightarrow> ir_exit result" where
  "get_exit b = (case bk_exit b of None \<Rightarrow> Inl (Undefined ''block without exit'') | Some e \<Rightarrow> Inr e)"

definition block_clone :: "string \<Rightarrow> ir_block \<Rightarrow> ir_block" where
  "block_clone prefix b = b\<lparr>bk_label := prefix @ bk_label b\<rparr>"

definition block_targets :: "ir_block \<Rightarrow> block_id list" where
  "block_targets b = (case bk_exit b of None \<Rightarrow> [] | Some e \<Rightarrow> targets e)"

definition block_used_vars :: "ir_block \<Rightarrow> left_value list" where
  "block_used_vars b =
     concat (map used_vars (bk_insts b)) @
     (case bk_exit b of None \<Rightarrow> [] | Some e \<Rightarrow> (case used_var_exit e of None \<Rightarrow> [] | Some l \<Rightarrow> [l]))"

definition block_defined_vars :: "ir_block \<Rightarrow> left_value list" where
  "block_defined_vars b = List.map_filter defined_var (bk_insts b)"

definition block_sources :: "ir_block \<Rightarrow> block_id list" where
  "block_sources b = concat (map sources (bk_insts b))"

section \<open>Functions and programs\<close>

record ir_func =
  fn_id :: func_id
  fn_name :: string
  fn_ret :: ty
  fn_params :: "alloc_id list"
  fn_locals :: "alloc_id list"
  fn_blocks :: "block_id list"
  fn_blk :: "block_id \<Rightarrow> ir_block"
  fn_temps :: "(ty \<times> block_id) list"
  fn_loops :: "(block_id \<times> block_id) list"

record ir_program =
  pr_alloc :: alloc_store
  pr_globals :: "alloc_id list"
  pr_funcs :: "ir_func list"
  pr_builtins :: "(string \<times> ty) list"
  pr_is_ssa :: bool

definition update_block :: "block_id \<Rightarrow> (ir_block \<Rightarrow> ir_block) \<Rightarrow> ir_func \<Rightarrow> ir_func" where
  "update_block b u fn = fn\<lparr>fn_blk := (fn_blk fn)(b := u (fn_blk fn b))\<rparr>"

definition newTemp :: "ty \<Rightarrow> block_id \<Rightarrow> ir_func \<Rightarrow> left_value \<times> ir_func" where
  "newTemp t container fn =
     (TempValue t (length (fn_temps fn)) (fn_id fn), fn\<lparr>fn_temps := fn_temps fn @ [(t, container)]\<rparr>)"

definition addLocal :: "alloc_id \<Rightarrow> ir_func \<Rightarrow> ir_func" where
  "addLocal a fn = fn\<lparr>fn_locals := fn_locals fn @ [a]\<rparr>"

text \<open>Adding a block; \<open>b\<close> is the number of the new object.\<close>

definition addBlock :: "block_id \<Rightarrow> ir_block \<Rightarrow> ir_func \<Rightarrow> ir_func result" where
  "addBlock b blk fn =
     (if bk_label blk \<in> set (map (\<lambda>c. bk_label (fn_blk fn c)) (fn_blocks fn))
        then Inl (Compiler_error ''block already exists'')
      else Inr (fn\<lparr>fn_blocks := fn_blocks fn @ [b], fn_blk := (fn_blk fn)(b := blk)\<rparr>))"

definition findBlock :: "string \<Rightarrow> ir_func \<Rightarrow> block_id result" where
  "findBlock label fn =
     (case List.find (\<lambda>b. bk_label (fn_blk fn b) = label) (fn_blocks fn) of
        None \<Rightarrow> Inl (Compiler_error ''block not found'')
      | Some b \<Rightarrow> Inr b)"

definition findAlloc :: "alloc_store \<Rightarrow> string \<Rightarrow> ir_func \<Rightarrow> alloc_id result" where
  "findAlloc A name fn =
     (case List.find (\<lambda>a. al_name (A a) = name) (fn_params fn @ fn_locals fn) of
        None \<Rightarrow> Inl (Compiler_error ''alloc not found'')
      | Some a \<Rightarrow> Inr a)"

definition entrance :: "ir_func \<Rightarrow> block_id result" where
  "entrance fn = (case fn_blocks fn of [] \<Rightarrow> Inl (Undefined ''front of an empty list'') | b # bs \<Rightarrow> Inr b)"

definition removeBlock :: "nat \<Rightarrow> ir_func \<Rightarrow> ir_func" where
  "removeBlock k fn = fn\<lparr>fn_blocks := take k (fn_blocks fn) @ drop (Suc k) (fn_blocks fn)\<rparr>"

definition func_exits :: "ir_func \<Rightarrow> block_id list" where
  "func_exits fn =
     [b \<leftarrow> fn_blocks fn. case bk_exit (fn_blk fn b) of Some (ReturnExit v) \<Rightarrow> True | _ \<Rightarrow> False]"

definition pushLoop :: "block_id \<Rightarrow> block_id \<Rightarrow> ir_func \<Rightarrow> ir_func" where
  "pushLoop continue_target break_target fn =
     fn\<lparr>fn_loops := fn_loops fn @ [(continue_target, break_target)]\<rparr>"

definition popLoop :: "ir_func \<Rightarrow> ir_func result" where
  "popLoop fn =
     (if fn_loops fn = [] then Inl (Undefined ''pop_back of an empty vector'')
      else Inr (fn\<lparr>fn_loops := butlast (fn_loops fn)\<rparr>))"

definition currentLoop :: "ir_func \<Rightarrow> (block_id \<times> block_id) result" where
  "currentLoop fn =
     (if fn_loops fn = [] then Inl (Compiler_error ''No loop context available'')
      else Inr (last (fn_loops fn)))"

definition func_insts :: "ir_func \<Rightarrow> inst list" where
  "func_insts fn = concat (map (\<lambda>b. bk_insts (fn_blk fn b)) (fn_blocks fn))"

definition hasRecursiveCall :: "ir_func \<Rightarrow> bool" where
  "hasRecursiveCall fn \<longleftrightarrow>
     list_ex (\<lambda>i. case i of CallI r t f args \<Rightarrow> f = Def_func (fn_id fn) | _ \<Rightarrow> False) (func_insts fn)"

definition numInsts :: "ir_func \<Rightarrow> nat" where
  "numInsts fn = sum_list (map (\<lambda>b. length (bk_insts (fn_blk fn b)) + 1) (fn_blocks fn))"

definition func_value :: "alloc_store \<Rightarrow> ir_func \<Rightarrow> left_value" where
  "func_value A fn =
     NamedValue (Func (Product (map (\<lambda>p. al_type (A p)) (fn_params fn))) (fn_ret fn)) (Def_func (fn_id fn))"

text \<open>
  \<open>Func::split\<close>: the instructions from position \<open>k\<close> on and the exit move to a new block \<open>new\<close>;
  every phi of a block of the function that names the old block names the new one. The new block is
  added last, so its own phis are not renamed.
\<close>

fun rename_source :: "block_id \<Rightarrow> block_id \<Rightarrow> inst \<Rightarrow> inst" where
  "rename_source old new (Phi r args) = Phi r (map (\<lambda>(b, v). (if b = old then new else b, v)) args)"
| "rename_source old new i = i"

definition split_func ::
  "block_id \<Rightarrow> nat \<Rightarrow> ir_exit \<Rightarrow> string \<Rightarrow> block_id \<Rightarrow> ir_func \<Rightarrow> ir_func" where
  "split_func b k prev_exit next_label new fn =
     (let blk = fn_blk fn b;
          next = \<lparr>bk_label = next_label, bk_insts = drop k (bk_insts blk), bk_exit = bk_exit blk\<rparr>;
          cut = (fn_blk fn)(b := blk\<lparr>bk_insts := take k (bk_insts blk), bk_exit := Some prev_exit\<rparr>);
          renamed = (\<lambda>c. if c \<in> set (fn_blocks fn)
                         then (cut c)\<lparr>bk_insts := map (rename_source b new) (bk_insts (cut c))\<rparr> else cut c)
      in fn\<lparr>fn_blocks := fn_blocks fn @ [new], fn_blk := renamed(new := next)\<rparr>)"

section \<open>Control flow\<close>

text \<open>
  The targets of a block: reading the exit of a block that has none is undefined (\<open>Block::exit\<close>
  dereferences an empty optional).
\<close>

definition succs :: "ir_func \<Rightarrow> block_id \<Rightarrow> block_id list result" where
  "succs fn b = rbind (get_exit (fn_blk fn b)) (\<lambda>e. Inr (targets e))"

text \<open>The same for the blocks that have an exit; only blocks with an exit are given to it below.\<close>

definition exit_succs :: "ir_func \<Rightarrow> block_id \<Rightarrow> block_id list" where
  "exit_succs fn b = block_targets (fn_blk fn b)"

lemma succs_exit: "hasExit (fn_blk fn b) \<Longrightarrow> succs fn b = Inr (exit_succs fn b)"
  by (auto simp: hasExit_def succs_def get_exit_def exit_succs_def block_targets_def)

lemma succs_Inr: "succs fn b = Inr ts \<Longrightarrow> exit_succs fn b = ts"
  by (auto simp: succs_def get_exit_def exit_succs_def block_targets_def split: option.splits)

text \<open>
  \<open>ControlFlowGraph\<close>: the nodes are the blocks of the function, \<open>succ\<close> and \<open>pred\<close> are filled from
  every block's exit. The constructor reads the exit of every block, so it is undefined as soon as one
  has none; a branch with a null target, which it would connect to a null node, is not followed.
\<close>

fun exit_complete :: "ir_exit option \<Rightarrow> bool" where
  "exit_complete None = False"
| "exit_complete (Some (BranchExit c t f)) = (t \<noteq> None \<and> f \<noteq> None)"
| "exit_complete (Some e) = True"

definition cfg_defined :: "ir_func \<Rightarrow> bool" where
  "cfg_defined fn \<longleftrightarrow> list_all (\<lambda>b. exit_complete (bk_exit (fn_blk fn b))) (fn_blocks fn)"

definition cfg_succ :: "ir_func \<Rightarrow> block_id \<Rightarrow> block_id list" where
  "cfg_succ fn b = (if b \<in> set (fn_blocks fn) then remdups (exit_succs fn b) else [])"

definition cfg_pred :: "ir_func \<Rightarrow> block_id \<Rightarrow> block_id list" where
  "cfg_pred fn b = [c \<leftarrow> remdups (fn_blocks fn). b \<in> set (exit_succs fn c)]"

text \<open>What a pass does with the graph it has built first.\<close>

definition with_cfg :: "ir_func \<Rightarrow> 'a result \<Rightarrow> 'a result" where
  "with_cfg fn r = (if cfg_defined fn then r else Inl (Undefined ''graph of a block without its exit''))"

lemma with_cfg_defined [simp]: "cfg_defined fn \<Longrightarrow> with_cfg fn r = r"
  by (simp add: with_cfg_def)

lemma exit_complete_has: "exit_complete (bk_exit b) \<Longrightarrow> hasExit b"
  by (cases "bk_exit b") (auto simp: hasExit_def)

lemma cfg_defined_has: "cfg_defined fn \<Longrightarrow> b \<in> set (fn_blocks fn) \<Longrightarrow> hasExit (fn_blk fn b)"
  by (auto simp: cfg_defined_def list_all_iff exit_complete_has)

lemma cfg_pred_succ: "c \<in> set (cfg_pred fn b) \<longleftrightarrow> b \<in> set (cfg_succ fn c)"
  by (auto simp: cfg_pred_def cfg_succ_def)

subsection \<open>Post order\<close>

text \<open>
  The recursive walk of \<open>post_order\<close>; the state is \<open>visited\<close> and \<open>order\<close>. The fuel bounds the
  depth of the recursion, which is at most the number of blocks, see \<open>post_order_total\<close>.
\<close>

fun dfs :: "(block_id \<Rightarrow> block_id list result) \<Rightarrow> nat \<Rightarrow> block_id \<Rightarrow> block_id list \<times> block_id list \<Rightarrow>
      (block_id list \<times> block_id list) result"
  and dfs_list :: "(block_id \<Rightarrow> block_id list result) \<Rightarrow> nat \<Rightarrow> block_id list \<Rightarrow> block_id list \<times> block_id list \<Rightarrow>
      (block_id list \<times> block_id list) result" where
  "dfs succ 0 b st = Inl (Undefined ''recursion deeper than the number of blocks'')"
| "dfs succ (Suc n) b st =
     (if b \<in> set (fst st) then Inr st
      else case succ b of
             Inl e \<Rightarrow> Inl e
           | Inr ts \<Rightarrow>
               (case dfs_list succ n ts (b # fst st, snd st) of
                  Inl e \<Rightarrow> Inl e
                | Inr (vis, ord) \<Rightarrow> Inr (vis, ord @ [b])))"
| "dfs_list succ n [] st = Inr st"
| "dfs_list succ n (t # ts) st =
     (case dfs succ n t st of Inl e \<Rightarrow> Inl e | Inr st' \<Rightarrow> dfs_list succ n ts st')"

definition post_order :: "ir_func \<Rightarrow> block_id list result" where
  "post_order fn =
     rbind (entrance fn) (\<lambda>b.
     rbind (dfs (succs fn) (Suc (Suc (length (fn_blocks fn)))) b ([], [])) (\<lambda>(vis, ord). Inr ord))"

definition reverse_post_order :: "ir_func \<Rightarrow> block_id list result" where
  "reverse_post_order fn = rbind (post_order fn) (\<lambda>ord. Inr (rev ord))"

end
