(* ===== verification/Ir_Order.thy ===== *)
theory Ir_Order
  imports Ir_Inst
begin

text \<open>
  Facts about the post order of \<open>analysis/utils.hpp\<close>: the recursion ends within the depth it is
  given, and the order lists the blocks reachable from the entrance, each once, the entrance last.
\<close>

definition edges :: "(block_id \<Rightarrow> block_id list) \<Rightarrow> (block_id \<times> block_id) set" where
  "edges succ = {(x, y). y \<in> set (succ x)}"

definition reaches :: "(block_id \<Rightarrow> block_id list) \<Rightarrow> block_id \<Rightarrow> block_id \<Rightarrow> bool" where
  "reaches succ x y \<longleftrightarrow> (x, y) \<in> (edges succ)\<^sup>*"

lemma reaches_refl [simp, intro]: "reaches succ x x"
  by (simp add: reaches_def)

lemma reaches_step: "y \<in> set (succ x) \<Longrightarrow> reaches succ y z \<Longrightarrow> reaches succ x z"
  unfolding reaches_def edges_def by (metis (mono_tags, lifting) case_prodI converse_rtrancl_into_rtrancl mem_Collect_eq)

lemma reaches_closed:
  assumes "reaches succ x y" and "x \<in> S" and "\<And>u v. u \<in> S \<Longrightarrow> v \<in> set (succ u) \<Longrightarrow> v \<in> S"
  shows "y \<in> S"
  using assms(1) unfolding reaches_def
  by (induction rule: rtrancl_induct) (use assms(2,3) in \<open>auto simp: edges_def\<close>)

section \<open>Enough depth\<close>

text \<open>A set of blocks closed under successors bounds the depth of the walk.\<close>

lemma dfs_visited:
  shows "dfs succ n b st = Inr st' \<Longrightarrow> set (fst st) \<subseteq> set (fst st')"
    and "dfs_list succ n ts st = Inr st' \<Longrightarrow> set (fst st) \<subseteq> set (fst st')"
proof (induction succ n b st and succ n ts st arbitrary: st' and st' rule: dfs_dfs_list.induct)
  case (2 succ n b st)
  show ?case
  proof (cases "b \<in> set (fst st)")
    case False
    then obtain ts q where q: "succ b = Inr ts" "dfs_list succ n ts (b # fst st, snd st) = Inr q" "fst st' = fst q"
      using "2.prems" by (auto split: sum.splits)
    then show ?thesis using "2.IH" [OF False q(1,2)] by auto
  qed (use "2.prems" in simp)
next
  case (4 succ n t ts st)
  then obtain q where q: "dfs succ n t st = Inr q" "dfs_list succ n ts q = Inr st'"
    by (auto split: sum.splits)
  show ?case using "4.IH"(1) [OF q(1)] "4.IH"(2) [OF q] by simp
qed simp_all

lemma dfs_within:
  assumes "\<And>x ts. x \<in> U \<Longrightarrow> succ x = Inr ts \<Longrightarrow> set ts \<subseteq> U"
  shows "dfs succ n b st = Inr st' \<Longrightarrow> b \<in> U \<Longrightarrow> set (fst st) \<subseteq> U \<Longrightarrow> set (fst st') \<subseteq> U"
    and "dfs_list succ n ts st = Inr st' \<Longrightarrow> set ts \<subseteq> U \<Longrightarrow> set (fst st) \<subseteq> U \<Longrightarrow> set (fst st') \<subseteq> U"
  using assms
proof (induction succ n b st and succ n ts st arbitrary: st' and st' rule: dfs_dfs_list.induct)
  case (2 succ n b st)
  show ?case
  proof (cases "b \<in> set (fst st)")
    case False
    then obtain ts q where q: "succ b = Inr ts" "dfs_list succ n ts (b # fst st, snd st) = Inr q" "fst st' = fst q"
      using "2.prems"(1) by (auto split: sum.splits)
    have "set ts \<subseteq> U" using "2.prems"(2,4) q(1) by blast
    then show ?thesis using "2.IH" [OF False q(1,2)] "2.prems"(2-4) q(3) by simp
  qed (use "2.prems" in simp)
next
  case (4 succ n t ts st)
  then obtain q where q: "dfs succ n t st = Inr q" "dfs_list succ n ts q = Inr st'"
    by (auto split: sum.splits)
  have "set (fst q) \<subseteq> U" using "4.IH"(1) [OF q(1)] "4.prems" by auto
  then show ?case using "4.IH"(2) [OF q] "4.prems" by auto
qed simp_all

lemma dfs_total:
  assumes fin: "finite U" and closed: "\<And>x. x \<in> U \<Longrightarrow> \<exists>ts. succ x = Inr ts \<and> set ts \<subseteq> U"
  shows "b \<in> U \<Longrightarrow> set (fst st) \<subseteq> U \<Longrightarrow> card (U - set (fst st)) < n \<Longrightarrow> \<exists>r. dfs succ n b st = Inr r"
    and "set ts \<subseteq> U \<Longrightarrow> set (fst st) \<subseteq> U \<Longrightarrow> card (U - set (fst st)) < n \<Longrightarrow> \<exists>r. dfs_list succ n ts st = Inr r"
  using closed
proof (induction succ n b st and succ n ts st rule: dfs_dfs_list.induct)
  case (2 succ n b st)
  show ?case
  proof (cases "b \<in> set (fst st)")
    case False
    then have "U - set (fst st) = insert b (U - set (b # fst st))" using "2.prems"(1) by auto
    then have "card (U - set (fst st)) = Suc (card (U - set (b # fst st)))"
      using fin by (metis DiffD2 card_insert_disjoint finite_Diff list.set_intros(1))
    moreover obtain ts where ts: "succ b = Inr ts" "set ts \<subseteq> U" using "2.prems"(1,4) by blast
    ultimately have "\<exists>r. dfs_list succ n ts (b # fst st, snd st) = Inr r"
      using "2.IH" [OF False ts(1)] "2.prems" by auto
    then show ?thesis using False ts(1) by auto
  qed simp
next
  case (4 succ n t ts st)
  then obtain q where q: "dfs succ n t st = Inr q" by auto
  have "set (fst q) \<subseteq> U"
    by (rule dfs_within(1) [OF _ q]) (use "4.prems" in force)+
  moreover have "set (fst st) \<subseteq> set (fst q)" by (rule dfs_visited(1) [OF q])
  moreover from this have "card (U - set (fst q)) \<le> card (U - set (fst st))"
    using fin by (intro card_mono) auto
  ultimately show ?case
    using "4.IH"(2) [OF q] "4.prems" q by simp
qed simp_all

section \<open>What the walk visits\<close>

definition walk ::
  "(block_id \<Rightarrow> block_id list) \<Rightarrow> block_id list \<Rightarrow> block_id list \<times> block_id list \<Rightarrow> block_id list \<times> block_id list \<Rightarrow> bool" where
  "walk succ roots st st' \<longleftrightarrow>
     set (fst st) \<subseteq> set (fst st') \<and> set roots \<subseteq> set (fst st') \<and>
     (\<exists>new. snd st' = snd st @ new \<and> distinct new \<and> set new = set (fst st') - set (fst st) \<and>
        (\<forall>x\<in>set new. set (succ x) \<subseteq> set (fst st')) \<and>
        (\<forall>x\<in>set new. \<exists>r\<in>set roots. reaches succ r x))"

lemma walk_nil: "walk succ [] st st"
  by (auto simp: walk_def)

lemma walk_seen: "b \<in> set (fst st) \<Longrightarrow> walk succ [b] st st"
  by (auto simp: walk_def)

lemma walk_seq:
  assumes "walk succ [t] st q" and "walk succ ts q st'"
  shows "walk succ (t # ts) st st'"
proof -
  obtain n1 where n1: "snd q = snd st @ n1" "distinct n1" "set n1 = set (fst q) - set (fst st)"
    "\<forall>x\<in>set n1. set (succ x) \<subseteq> set (fst q)" "\<forall>x\<in>set n1. reaches succ t x"
    and q: "set (fst st) \<subseteq> set (fst q)" "t \<in> set (fst q)"
    using assms(1) by (auto simp: walk_def)
  obtain n2 where n2: "snd st' = snd q @ n2" "distinct n2" "set n2 = set (fst st') - set (fst q)"
    "\<forall>x\<in>set n2. set (succ x) \<subseteq> set (fst st')" "\<forall>x\<in>set n2. \<exists>r\<in>set ts. reaches succ r x"
    and s: "set (fst q) \<subseteq> set (fst st')" "set ts \<subseteq> set (fst st')"
    using assms(2) by (auto simp: walk_def)
  have "distinct (n1 @ n2)" using n1 n2 by auto
  moreover have "set (n1 @ n2) = set (fst st') - set (fst st)" using n1(3) n2(3) q s by auto
  moreover have "\<forall>x\<in>set (n1 @ n2). set (succ x) \<subseteq> set (fst st')" using n1(4) n2(4) s by auto
  moreover have "\<forall>x\<in>set (n1 @ n2). \<exists>r\<in>set (t # ts). reaches succ r x" using n1(5) n2(5) by auto
  ultimately show ?thesis
    unfolding walk_def using q s n1(1) n2(1) by (auto intro!: exI [of _ "n1 @ n2"])
qed

lemma walk_node:
  assumes "walk succ (succ b) (b # vis, ord) (vis', ord')" and "b \<notin> set vis"
  shows "walk succ [b] (vis, ord) (vis', ord' @ [b])"
proof -
  obtain n where n: "ord' = ord @ n" "distinct n" "set n = set vis' - set (b # vis)"
    "\<forall>x\<in>set n. set (succ x) \<subseteq> set vis'" "\<forall>x\<in>set n. \<exists>r\<in>set (succ b). reaches succ r x"
    and s: "set (b # vis) \<subseteq> set vis'" "set (succ b) \<subseteq> set vis'"
    using assms(1) by (auto simp: walk_def)
  have "distinct (n @ [b])" using n by auto
  moreover have "set (n @ [b]) = set vis' - set vis" using n(3) s assms(2) by auto
  moreover have "\<forall>x\<in>set (n @ [b]). set (succ x) \<subseteq> set vis'" using n(4) s by auto
  moreover have "\<forall>x\<in>set (n @ [b]). reaches succ b x" using n(5) reaches_step by fastforce
  ultimately show ?thesis
    unfolding walk_def using s n(1) by (auto intro!: exI [of _ "n @ [b]"])
qed

lemma dfs_walk:
  assumes "\<And>x ts. succ x = Inr ts \<Longrightarrow> out x = ts"
  shows "dfs succ n b st = Inr st' \<Longrightarrow> walk out [b] st st'"
    and "dfs_list succ n ts st = Inr st' \<Longrightarrow> walk out ts st st'"
  using assms
proof (induction succ n b st and succ n ts st arbitrary: st' and st' rule: dfs_dfs_list.induct)
  case (2 succ n b st)
  show ?case
  proof (cases "b \<in> set (fst st)")
    case True
    then show ?thesis using "2.prems" by (simp add: walk_seen)
  next
    case False
    then obtain ts vis ord where d: "succ b = Inr ts" "dfs_list succ n ts (b # fst st, snd st) = Inr (vis, ord)"
      "st' = (vis, ord @ [b])"
      using "2.prems"(1) by (auto split: sum.splits)
    have "walk out (out b) (b # fst st, snd st) (vis, ord)"
      using "2.IH" [OF False d(1,2)] "2.prems"(2) d(1) by simp
    then show ?thesis using walk_node [OF _ False] d(3) by fastforce
  qed
next
  case (4 succ n t ts st)
  then obtain q where q: "dfs succ n t st = Inr q" "dfs_list succ n ts q = Inr st'"
    by (auto split: sum.splits)
  show ?case by (rule walk_seq [OF "4.IH"(1) [OF q(1)] "4.IH"(2) [OF q]]) (use "4.prems" in auto)
qed (simp_all add: walk_nil)

section \<open>The post order\<close>

text \<open>Every block has an exit and every exit names blocks of the function.\<close>

definition closed_cfg :: "ir_func \<Rightarrow> bool" where
  "closed_cfg fn \<longleftrightarrow>
     (\<forall>b\<in>set (fn_blocks fn). hasExit (fn_blk fn b) \<and> set (exit_succs fn b) \<subseteq> set (fn_blocks fn))"

lemma post_order_total:
  assumes "closed_cfg fn" and "fn_blocks fn \<noteq> []"
  shows "\<exists>ord. post_order fn = Inr ord"
proof -
  let ?U = "set (fn_blocks fn)"
  obtain b where b: "entrance fn = Inr b" "b \<in> ?U"
    using assms(2) by (cases "fn_blocks fn") (auto simp: entrance_def)
  have "card (?U - set (fst ([], []))) < Suc (Suc (length (fn_blocks fn)))"
    using card_length [of "fn_blocks fn"] by simp
  then have "\<exists>r. dfs (succs fn) (Suc (Suc (length (fn_blocks fn)))) b ([], []) = Inr r"
    using assms(1) b(2) by (intro dfs_total(1) [of ?U]) (auto simp: closed_cfg_def succs_exit)
  then show ?thesis using b(1) by (auto simp: post_order_def)
qed

lemma post_order_spec:
  assumes "post_order fn = Inr ord" and "entrance fn = Inr b"
  shows "distinct ord" and "set ord = {x. reaches (exit_succs fn) b x}" and "last ord = b" and "ord \<noteq> []"
proof -
  obtain vis where d: "dfs (succs fn) (Suc (Suc (length (fn_blocks fn)))) b ([], []) = Inr (vis, ord)"
    using assms by (auto simp: post_order_def rbind_eq_Inr)
  have w: "walk (exit_succs fn) [b] ([], []) (vis, ord)" by (rule dfs_walk(1) [OF succs_Inr d])
  then show "distinct ord" by (auto simp: walk_def)
  have vis: "set ord = set vis" "b \<in> set vis" using w by (auto simp: walk_def)
  show "set ord = {x. reaches (exit_succs fn) b x}"
  proof
    show "set ord \<subseteq> {x. reaches (exit_succs fn) b x}" using w by (auto simp: walk_def)
    have "x \<in> set ord" if "reaches (exit_succs fn) b x" for x
      using that
    proof (rule reaches_closed)
      show "b \<in> set ord" using vis by simp
      show "v \<in> set ord" if "u \<in> set ord" "v \<in> set (exit_succs fn u)" for u v
        using w that by (auto simp: walk_def)
    qed
    then show "{x. reaches (exit_succs fn) b x} \<subseteq> set ord" by auto
  qed
  show "ord \<noteq> []" using vis by auto
  show "last ord = b"
    using d by (auto split: if_splits sum.splits)
qed

lemma post_order_undefined:
  assumes "fn_blocks fn = b # bs" and "\<not> hasExit (fn_blk fn b)"
  shows "post_order fn = Inl (Undefined ''block without exit'')"
  using assms by (simp add: post_order_def entrance_def succs_def get_exit_def hasExit_def)

text \<open>
  C20: reverse_post_order is total and complete. On a function whose blocks all have an exit that
  names blocks of the function the walk returns, starts with the entry block and lists every block
  reachable from it once. (A reachable block without exit makes it undefined, see
  post_order_undefined.)
\<close>

lemma reverse_post_order_spec:
  assumes "closed_cfg fn" and "fn_blocks fn = b # bs"
  shows "\<exists>ord. reverse_post_order fn = Inr ord \<and> distinct ord \<and> hd ord = b \<and>
    set ord = {x. reaches (exit_succs fn) b x} \<and> set ord \<subseteq> set (fn_blocks fn)"
proof -
  obtain ord where ord: "post_order fn = Inr ord"
    using post_order_total [OF assms(1)] assms(2) by auto
  have b: "entrance fn = Inr b" by (simp add: entrance_def assms(2))
  note spec = post_order_spec [OF ord b]
  have "set ord \<subseteq> set (fn_blocks fn)"
  proof
    fix x assume "x \<in> set ord"
    then have "reaches (exit_succs fn) b x" using spec(2) by simp
    then show "x \<in> set (fn_blocks fn)"
      by (rule reaches_closed) (use assms in \<open>auto simp: closed_cfg_def\<close>)
  qed
  then show ?thesis
    using spec by (auto simp: reverse_post_order_def ord hd_rev)
qed

definition sample_func :: ir_func where
  "sample_func = \<lparr>fn_id = 0, fn_name = ''f'', fn_ret = Prim Int32, fn_params = [3], fn_locals = [0, 1],
     fn_blocks = [0, 1, 2, 3],
     fn_blk = (\<lambda>b. \<lparr>bk_label = ''b'', bk_insts = [],
       bk_exit = Some (if b = 0 then BranchExit (Const (mk_const (V_bool True))) (Some 1) (Some 2)
                       else ReturnExit (Const void_const))\<rparr>),
     fn_temps = [], fn_loops = []\<rparr>"

theorem reverse_post_order_spec_witness:
  "\<exists>ord. reverse_post_order sample_func = Inr ord \<and> distinct ord \<and> hd ord = 0 \<and>
    set ord = {x. reaches (exit_succs sample_func) 0 x} \<and> set ord \<subseteq> set (fn_blocks sample_func)"
  by (rule reverse_post_order_spec [where bs = "[1, 2, 3]"])
    (auto simp: closed_cfg_def sample_func_def hasExit_def exit_succs_def block_targets_def split: if_splits)

end
