(* ===== verification/Rv64_Inst.thy ===== *)
theory Rv64_Inst
  imports Ir_Value
begin

text \<open>
  The RV64 instructions the back end emits (\<open>backend/rv64/op.hpp\<close>, \<open>inst.hpp\<close>): register
  numbers with their names, the opcodes with their mnemonics, the thirteen instruction forms,
  blocks, functions and modules. The opcode \<open>OpX::Y\<close> is the constructor \<open>X_Y\<close>
  (\<open>RB_\<close> for the branches).
\<close>

section \<open>Registers\<close>

text \<open>
  \<open>GeneralReg(id)\<close> and \<open>FloatReg(id)\<close> reject a number from 32 on; \<open>id\<close> is a \<open>uint8_t\<close>.
\<close>

datatype general_reg = GReg (gid: nat)
datatype float_reg = FReg (fid: nat)

definition mk_general_reg :: "nat \<Rightarrow> general_reg result" where
  "mk_general_reg i = (if 32 \<le> i then Inl (Compiler_error ''Invalid general register'') else Inr (GReg i))"

definition mk_float_reg :: "nat \<Rightarrow> float_reg result" where
  "mk_float_reg i = (if 32 \<le> i then Inl (Compiler_error ''Invalid float register'') else Inr (FReg i))"

definition general_names :: "string list" where
  "general_names =
     [''zero'', ''ra'', ''sp'', ''gp'', ''tp'', ''t0'', ''t1'', ''t2'', ''s0'', ''s1'', ''a0'',
      ''a1'', ''a2'', ''a3'', ''a4'', ''a5'', ''a6'', ''a7'', ''s2'', ''s3'', ''s4'', ''s5'',
      ''s6'', ''s7'', ''s8'', ''s9'', ''s10'', ''s11'', ''t3'', ''t4'', ''t5'', ''t6'']"

definition general_reg_toString :: "general_reg \<Rightarrow> string" where
  "general_reg_toString r = general_names ! gid r"

definition float_names :: "string list" where
  "float_names =
     [''ft0'', ''ft1'', ''ft2'', ''ft3'', ''ft4'', ''ft5'', ''ft6'', ''ft7'', ''fs0'', ''fs1'', ''fa0'',
      ''fa1'', ''fa2'', ''fa3'', ''fa4'', ''fa5'', ''fa6'', ''fa7'', ''fs2'', ''fs3'', ''fs4'', ''fs5'',
      ''fs6'', ''fs7'', ''fs8'', ''fs9'', ''fs10'', ''fs11'', ''ft8'', ''ft9'', ''ft10'', ''ft11'']"

definition float_reg_toString :: "float_reg \<Rightarrow> string" where
  "float_reg_toString r = float_names ! fid r"

section \<open>Opcodes\<close>

datatype op_r =
    R_ADD | R_SUB | R_SLL | R_SLT | R_SLTU | R_XOR | R_SRL | R_SRA
  | R_OR | R_AND | R_MUL | R_DIV | R_REM | R_ADDW | R_SUBW | R_SLLW
  | R_SRLW | R_SRAW | R_MULW | R_DIVW | R_REMW

datatype op_fr =
    FR_FADD_S | FR_FADD_D | FR_FSUB_S | FR_FSUB_D | FR_FMUL_S | FR_FMUL_D
  | FR_FDIV_S | FR_FDIV_D | FR_FSQRT_S | FR_FSQRT_D | FR_FSGNJ_S | FR_FSGNJ_D
  | FR_FSGNJN_S | FR_FSGNJN_D | FR_FEQ_S | FR_FEQ_D | FR_FLT_S | FR_FLT_D
  | FR_FLE_S | FR_FLE_D | FR_FCVT_W_S | FR_FCVT_W_D | FR_FCVT_L_S | FR_FCVT_L_D
  | FR_FCVT_S_W | FR_FCVT_D_W | FR_FCVT_S_L | FR_FCVT_D_L | FR_FCVT_S_D | FR_FCVT_D_S
  | FR_FMV_X_W | FR_FMV_W_X

datatype op_i =
    I_ADDI | I_SLLI | I_SLTI | I_SLTIU | I_XORI | I_SRLI | I_SRAI | I_ORI
  | I_ANDI | I_LD | I_LW | I_LWU | I_LB | I_LBU | I_LH | I_LHU
  | I_JALR | I_SD | I_SW | I_SB | I_SH | I_ADDIW | I_SLLIW | I_SRLIW
  | I_SRAIW

datatype op_b =
    RB_BEQ | RB_BNE | RB_BLT | RB_BGE | RB_BLTU | RB_BGEU

datatype op_fi =
    FI_FLW | FI_FLD | FI_FSW | FI_FSD

datatype op_j = J_JAL

datatype op_u = U_LUI | U_AUIPC

fun op_r_toString :: "op_r \<Rightarrow> string" where
  "op_r_toString R_ADD = ''add''"
| "op_r_toString R_SUB = ''sub''"
| "op_r_toString R_SLL = ''sll''"
| "op_r_toString R_SLT = ''slt''"
| "op_r_toString R_SLTU = ''sltu''"
| "op_r_toString R_XOR = ''xor''"
| "op_r_toString R_SRL = ''srl''"
| "op_r_toString R_SRA = ''sra''"
| "op_r_toString R_OR = ''or''"
| "op_r_toString R_AND = ''and''"
| "op_r_toString R_MUL = ''mul''"
| "op_r_toString R_DIV = ''div''"
| "op_r_toString R_REM = ''rem''"
| "op_r_toString R_ADDW = ''addw''"
| "op_r_toString R_SUBW = ''subw''"
| "op_r_toString R_SLLW = ''sllw''"
| "op_r_toString R_SRLW = ''srlw''"
| "op_r_toString R_SRAW = ''sraw''"
| "op_r_toString R_MULW = ''mulw''"
| "op_r_toString R_DIVW = ''divw''"
| "op_r_toString R_REMW = ''remw''"

fun op_fr_toString :: "op_fr \<Rightarrow> string" where
  "op_fr_toString FR_FADD_S = ''fadd.s''"
| "op_fr_toString FR_FADD_D = ''fadd.d''"
| "op_fr_toString FR_FSUB_S = ''fsub.s''"
| "op_fr_toString FR_FSUB_D = ''fsub.d''"
| "op_fr_toString FR_FMUL_S = ''fmul.s''"
| "op_fr_toString FR_FMUL_D = ''fmul.d''"
| "op_fr_toString FR_FDIV_S = ''fdiv.s''"
| "op_fr_toString FR_FDIV_D = ''fdiv.d''"
| "op_fr_toString FR_FSQRT_S = ''fsqrt.s''"
| "op_fr_toString FR_FSQRT_D = ''fsqrt.d''"
| "op_fr_toString FR_FSGNJ_S = ''fsgnj.s''"
| "op_fr_toString FR_FSGNJ_D = ''fsgnj.d''"
| "op_fr_toString FR_FSGNJN_S = ''fsgnjn.s''"
| "op_fr_toString FR_FSGNJN_D = ''fsgnjn.d''"
| "op_fr_toString FR_FEQ_S = ''feq.s''"
| "op_fr_toString FR_FEQ_D = ''feq.d''"
| "op_fr_toString FR_FLT_S = ''flt.s''"
| "op_fr_toString FR_FLT_D = ''flt.d''"
| "op_fr_toString FR_FLE_S = ''fle.s''"
| "op_fr_toString FR_FLE_D = ''fle.d''"
| "op_fr_toString FR_FCVT_W_S = ''fcvt.w.s''"
| "op_fr_toString FR_FCVT_W_D = ''fcvt.w.d''"
| "op_fr_toString FR_FCVT_L_S = ''fcvt.l.s''"
| "op_fr_toString FR_FCVT_L_D = ''fcvt.l.d''"
| "op_fr_toString FR_FCVT_S_W = ''fcvt.s.w''"
| "op_fr_toString FR_FCVT_D_W = ''fcvt.d.w''"
| "op_fr_toString FR_FCVT_S_L = ''fcvt.s.l''"
| "op_fr_toString FR_FCVT_D_L = ''fcvt.d.l''"
| "op_fr_toString FR_FCVT_S_D = ''fcvt.s.d''"
| "op_fr_toString FR_FCVT_D_S = ''fcvt.d.s''"
| "op_fr_toString FR_FMV_X_W = ''fmv.x.w''"
| "op_fr_toString FR_FMV_W_X = ''fmv.w.x''"

fun op_i_toString :: "op_i \<Rightarrow> string" where
  "op_i_toString I_ADDI = ''addi''"
| "op_i_toString I_SLLI = ''slli''"
| "op_i_toString I_SLTI = ''slti''"
| "op_i_toString I_SLTIU = ''sltiu''"
| "op_i_toString I_XORI = ''xori''"
| "op_i_toString I_SRLI = ''srli''"
| "op_i_toString I_SRAI = ''srai''"
| "op_i_toString I_ORI = ''ori''"
| "op_i_toString I_ANDI = ''andi''"
| "op_i_toString I_LD = ''ld''"
| "op_i_toString I_LW = ''lw''"
| "op_i_toString I_LWU = ''lwu''"
| "op_i_toString I_LB = ''lb''"
| "op_i_toString I_LBU = ''lbu''"
| "op_i_toString I_LH = ''lh''"
| "op_i_toString I_LHU = ''lhu''"
| "op_i_toString I_JALR = ''jalr''"
| "op_i_toString I_SD = ''sd''"
| "op_i_toString I_SW = ''sw''"
| "op_i_toString I_SB = ''sb''"
| "op_i_toString I_SH = ''sh''"
| "op_i_toString I_ADDIW = ''addiw''"
| "op_i_toString I_SLLIW = ''slliw''"
| "op_i_toString I_SRLIW = ''srliw''"
| "op_i_toString I_SRAIW = ''sraiw''"

fun op_b_toString :: "op_b \<Rightarrow> string" where
  "op_b_toString RB_BEQ = ''beq''"
| "op_b_toString RB_BNE = ''bne''"
| "op_b_toString RB_BLT = ''blt''"
| "op_b_toString RB_BGE = ''bge''"
| "op_b_toString RB_BLTU = ''bltu''"
| "op_b_toString RB_BGEU = ''bgeu''"

fun op_fi_toString :: "op_fi \<Rightarrow> string" where
  "op_fi_toString FI_FLW = ''flw''"
| "op_fi_toString FI_FLD = ''fld''"
| "op_fi_toString FI_FSW = ''fsw''"
| "op_fi_toString FI_FSD = ''fsd''"

fun op_j_toString :: "op_j \<Rightarrow> string" where
  "op_j_toString J_JAL = ''jal''"

fun op_u_toString :: "op_u \<Rightarrow> string" where
  "op_u_toString U_LUI = ''lui''"
| "op_u_toString U_AUIPC = ''auipc''"

section \<open>Instructions\<close>

text \<open>The operands of \<open>InstFR\<close> are float or general registers, \<open>rs2\<close> may be absent.\<close>

datatype any_reg = AF float_reg | AG general_reg

datatype pseudo_r_op = P_MV | P_NOT | P_NEG | P_NEGW | P_SEQZ | P_SNEZ
datatype pseudo_b_op = P_BEQZ | P_BNEZ
datatype pseudo_j_op = P_J | P_CALL
datatype pseudo_l_op = P_LA | P_LGD | P_LGW | P_SGD | P_SGW

datatype rinst =
    InstR op_r general_reg general_reg general_reg
  | InstFR op_fr any_reg any_reg "any_reg option"
  | InstI op_i general_reg general_reg u32
  | InstB op_b general_reg general_reg string
  | InstFI op_fi float_reg general_reg u32
  | InstJ op_j general_reg string
  | InstU op_u general_reg u64
  | PseudoR pseudo_r_op general_reg general_reg
  | PseudoLI general_reg u64
  | PseudoL pseudo_l_op general_reg string
  | PseudoB pseudo_b_op general_reg string
  | PseudoJ pseudo_j_op string
  | PseudoRet

record global_var =
  gl_name :: string
  gl_type :: ty
  gl_init :: "constexpr option"
  gl_comptime :: bool

definition is_zero_init :: "global_var \<Rightarrow> bool result" where
  "is_zero_init g =
     (case gl_init g of
        None \<Rightarrow> Inr True
      | Some c \<Rightarrow> rbind (zeros_like (gl_type g)) (\<lambda>z. constexpr_eq c z))"

record frame_layout =
  total_size :: nat
  ra_offset :: nat
  saved_gprs :: "(general_reg \<times> nat) list"
  saved_fprs :: "(float_reg \<times> nat) list"
  spill_offsets :: "alloc_id \<rightharpoonup> nat"

definition empty_frame :: frame_layout where
  "empty_frame = \<lparr>total_size = 0, ra_offset = 0, saved_gprs = [], saved_fprs = [],
     spill_offsets = Map.empty\<rparr>"

definition offset_of :: "frame_layout \<Rightarrow> alloc_id \<Rightarrow> nat result" where
  "offset_of fr a = (case spill_offsets fr a of None \<Rightarrow> Inl Out_of_range | Some n \<Rightarrow> Inr n)"

definition has_spill :: "frame_layout \<Rightarrow> alloc_id \<Rightarrow> bool" where
  "has_spill fr a \<longleftrightarrow> spill_offsets fr a \<noteq> None"

record rblock =
  rb_label :: string
  rb_insts :: "rinst list"

record rfunc =
  rf_name :: string
  rf_frame :: frame_layout
  rf_blocks :: "rblock list"

record float_literal =
  lit_label :: string
  lit_value :: constexpr

record rmodule =
  m_globals :: "global_var list"
  m_funcs :: "rfunc list"
  m_literals :: "float_literal list"

section \<open>Register names determine registers\<close>

lemma general_names_distinct: "distinct general_names" and general_names_length: "length general_names = 32"
  by (simp_all add: general_names_def)

lemma float_names_distinct: "distinct float_names" and float_names_length: "length float_names = 32"
  by (simp_all add: float_names_def)

lemma general_reg_toString_inj:
  "gid a < 32 \<Longrightarrow> gid b < 32 \<Longrightarrow> general_reg_toString a = general_reg_toString b \<Longrightarrow> a = b"
  unfolding general_reg_toString_def
  by (metis general_names_distinct general_names_length general_reg.expand nth_eq_iff_index_eq)

end
