(* ===== verification/Abi.thy ===== *)
theory Abi
  imports Rv64_Inst
begin

text \<open>
  The calling convention: the description of a register file (\<open>backend/ir/lowering/abi.hpp\<close>),
  the assignment of argument registers by position and class, the two register files of RV64 and
  the size of a type in the target (\<open>backend/rv64/abi.hpp\<close>). A \<open>std::set\<close> of register numbers
  is the ascending list of its elements.
\<close>

section \<open>Register files\<close>

record register_abi =
  ra_size :: nat
  caller_saved :: "nat list"
  callee_saved :: "nat list"
  reserved :: "nat list"
  parameters :: "nat list"
  return_value :: nat

fun is_fp_prim :: "prim \<Rightarrow> bool" where
  "is_fp_prim Float32 = True"
| "is_fp_prim Float64 = True"
| "is_fp_prim Float = True"
| "is_fp_prim _ = False"

fun is_fp :: "ty \<Rightarrow> bool" where
  "is_fp (Prim p) = is_fp_prim p"
| "is_fp _ = False"

record target_abi =
  generals :: register_abi
  floats :: register_abi
  return_addr :: nat
  stack_alignment :: nat

definition reg_of :: "target_abi \<Rightarrow> ty \<Rightarrow> register_abi" where
  "reg_of abi t = (if is_fp t then floats abi else generals abi)"

section \<open>Argument registers\<close>

text \<open>
  One step of \<open>assign\<close>: the register at the counter, or none when the list is used up, in
  which case the counter stays.
\<close>

definition assign_reg :: "nat \<Rightarrow> nat list \<Rightarrow> nat option \<times> nat" where
  "assign_reg counter params =
     (if counter < length params then (Some (params ! counter), Suc counter) else (None, counter))"

text \<open>
  \<open>assign_call_regs\<close>, with the two counters as arguments. A reference is handled by the inner
  \<open>if\<close> and then, having no \<open>continue\<close>, once more by the last \<open>else\<close>: it takes two entries.
\<close>

fun assign_regs :: "target_abi \<Rightarrow> nat \<Rightarrow> nat \<Rightarrow> ty list \<Rightarrow> nat option list result" where
  "assign_regs abi ng nf [] = Inr []"
| "assign_regs abi ng nf (t # ts) =
     rbind
       (if \<not> is_primitive t
          then (if is_reference t
                then (case assign_reg ng (parameters (generals abi)) of (r, ng') \<Rightarrow> Inr ([r], ng'))
                else Inl (Unimplemented_error ''non-primitive parameter type''))
          else Inr ([], ng))
       (\<lambda>(out, ng1).
         if is_fp t
           then (case assign_reg nf (parameters (floats abi)) of
                   (r, nf') \<Rightarrow> rbind (assign_regs abi ng1 nf' ts) (\<lambda>rs. Inr (out @ r # rs)))
           else (case assign_reg ng1 (parameters (generals abi)) of
                   (r, ng') \<Rightarrow> rbind (assign_regs abi ng' nf ts) (\<lambda>rs. Inr (out @ r # rs))))"

definition assign_call_regs :: "ty list \<Rightarrow> target_abi \<Rightarrow> nat option list result" where
  "assign_call_regs types abi = assign_regs abi 0 0 types"

definition assign_param_regs :: "alloc_store \<Rightarrow> alloc_id list \<Rightarrow> target_abi \<Rightarrow> nat option list result" where
  "assign_param_regs A params abi = assign_call_regs (map (\<lambda>p. al_type (A p)) params) abi"

definition assign_arg_regs :: "val list \<Rightarrow> target_abi \<Rightarrow> nat option list result" where
  "assign_arg_regs args abi = assign_call_regs (map type_of args) abi"

section \<open>RV64\<close>

definition GPR :: register_abi where
  "GPR = \<lparr>ra_size = 32,
     caller_saved = [6, 7, 10, 11, 12, 13, 14, 15, 16, 17, 28, 29, 30, 31],
     callee_saved = [1, 8, 9, 18, 19, 20, 21, 22, 23, 24, 25, 26, 27],
     reserved = [0, 2, 3, 4, 5],
     parameters = [10, 11, 12, 13, 14, 15, 16, 17],
     return_value = 10\<rparr>"

definition FPR :: register_abi where
  "FPR = \<lparr>ra_size = 32,
     caller_saved = [0, 1, 2, 3, 4, 5, 6, 7, 10, 11, 12, 13, 14, 15, 16, 17, 28, 29, 30, 31],
     callee_saved = [8, 9, 18, 19, 20, 21, 22, 23, 24, 25, 26, 27],
     reserved = [5],
     parameters = [10, 11, 12, 13, 14, 15, 16, 17],
     return_value = 10\<rparr>"

text \<open>
  \<open>abi::size\<close>. A product that equals the empty one under \<open>==\<close> has size 0; every other type
  without a rule is not implemented.
\<close>

fun abi_size :: "ty \<Rightarrow> nat result" where
  "abi_size (Prim p) = Inr (case p of Int64 \<Rightarrow> 8 | Float \<Rightarrow> 8 | Int32 \<Rightarrow> 4 | Int1 \<Rightarrow> 1 | Float32 \<Rightarrow> 4 | Float64 \<Rightarrow> 8)"
| "abi_size (Reference e r s) = (if eq_ty (Reference e r s) unit_ty then Inr 0 else Inr 8)"
| "abi_size (Array e n) =
     (if eq_ty (Array e n) unit_ty then Inr 0 else rbind (abi_size e) (\<lambda>k. Inr (wrap64 (k * n))))"
| "abi_size t =
     (if eq_ty t unit_ty then Inr 0 else Inl (Unimplemented_error ''size: non-trivial type''))"

definition rv64_abi :: target_abi where
  "rv64_abi = \<lparr>generals = GPR, floats = FPR, return_addr = 1, stack_alignment = 16\<rparr>"

section \<open>The target sizes are the IR sizes\<close>

lemma eq_unit_ty:
  "eq_ty t unit_ty \<Longrightarrow> t = unit_ty \<or> (\<exists>xs. t = Sum xs)"
  by (cases t) (auto simp: eq_ty_def unit_ty_def)

lemma eq_unit_ty_simps [simp]:
  "\<not> eq_ty (Reference e r s) unit_ty" "\<not> eq_ty (Array e n) unit_ty" "\<not> eq_ty (Prim p) unit_ty"
  by (auto simp: eq_ty_def unit_ty_def)

text \<open>The fragment of types that reach the back end.\<close>

fun has_sum :: "ty \<Rightarrow> bool" where
  "has_sum (Sum xs) = True"
| "has_sum (Array e n) = has_sum e"
| "has_sum t = False"

text \<open>
  C39: the size the back end uses for a type is the size the IR uses for it.
\<close>

lemma abi_size_eq_size_of: "abi_size t = Inr n \<Longrightarrow> \<not> has_sum t \<Longrightarrow> n = size_of t"
proof (induction t arbitrary: n)
  case (Prim p)
  then show ?case by (cases p) auto
next
  case (Product ts)
  then show ?case by (auto split: if_splits simp: eq_ty_def unit_ty_def)
qed (auto split: if_splits simp: rbind_eq_Inr mult.commute dest: eq_unit_ty simp: unit_ty_def eq_ty_def)

section \<open>Scalar parameters get distinct registers\<close>

definition fresh_from :: "register_abi \<Rightarrow> nat \<Rightarrow> nat \<Rightarrow> bool" where
  "fresh_from ra n r \<longleftrightarrow> (\<exists>i\<ge>n. i < length (parameters ra) \<and> r = parameters ra ! i)"

lemma assign_reg_fresh:
  assumes "distinct (parameters ra)" and "assign_reg n (parameters ra) = (Some r, n')"
  shows "fresh_from ra n r" and "\<not> fresh_from ra n' r"
  using assms by (auto simp: assign_reg_def fresh_from_def nth_eq_iff_index_eq split: if_splits)

lemma assign_reg_mono:
  "assign_reg n ps = (r, n') \<Longrightarrow> n \<le> n'"
  by (auto simp: assign_reg_def split: if_splits)

lemma fresh_from_mono: "fresh_from ra n' r \<Longrightarrow> n \<le> n' \<Longrightarrow> fresh_from ra n r"
proof -
  assume "fresh_from ra n' r" "n \<le> n'"
  then obtain i where "n \<le> i" "i < length (parameters ra)" "r = parameters ra ! i"
    using order_trans by (auto simp: fresh_from_def)
  then show ?thesis by (auto simp: fresh_from_def)
qed

abbreviation class_regs :: "target_abi \<Rightarrow> ty \<Rightarrow> nat \<Rightarrow> nat \<Rightarrow> nat \<Rightarrow> bool" where
  "class_regs abi t ng nf r \<equiv>
     (if is_fp t then fresh_from (floats abi) nf r else fresh_from (generals abi) ng r)"

text \<open>
  C36: scalar arguments get registers of their own. Every argument gets one entry, an argument in
  a register is in an argument register of its class, and two arguments of one class never share a
  register.
\<close>

lemma assign_regs_scalars:
  assumes "list_all is_primitive ts"
    and "distinct (parameters (generals abi))" "distinct (parameters (floats abi))"
    and "assign_regs abi ng nf ts = Inr rs"
  shows "length rs = length ts
    \<and> (\<forall>i r. i < length ts \<longrightarrow> rs ! i = Some r \<longrightarrow> class_regs abi (ts ! i) ng nf r)
    \<and> (\<forall>i j r. i < j \<longrightarrow> j < length ts \<longrightarrow> is_fp (ts ! i) = is_fp (ts ! j) \<longrightarrow>
          rs ! i = Some r \<longrightarrow> rs ! j \<noteq> Some r)"
  using assms(1,4)
proof (induction ts arbitrary: ng nf rs)
  case Nil
  then show ?case by simp
next
  case (Cons t ts)
  define ra where "ra = (if is_fp t then floats abi else generals abi)"
  define n where "n = (if is_fp t then nf else ng)"
  obtain r n' where r: "assign_reg n (parameters ra) = (r, n')" by force
  define ng' where "ng' = (if is_fp t then ng else n')"
  define nf' where "nf' = (if is_fp t then n' else nf)"
  obtain rs' where rs: "rs = r # rs'" and rec: "assign_regs abi ng' nf' ts = Inr rs'"
    using Cons.prems r by (auto simp: ra_def n_def ng'_def nf'_def rbind_eq_Inr split: if_splits)
  have le: "ng \<le> ng'" "nf \<le> nf'"
    using assign_reg_mono [OF r] by (auto simp: ng'_def nf'_def n_def)
  have dist: "distinct (parameters ra)" using assms(2,3) by (simp add: ra_def)
  note IH = Cons.IH [OF _ rec]
  have here: "class_regs abi t ng nf q \<and> \<not> class_regs abi t ng' nf' q" if "r = Some q" for q
    using assign_reg_fresh [OF dist r [unfolded that]] by (auto simp: ra_def n_def ng'_def nf'_def)
  have tail: "class_regs abi (ts ! i) ng' nf' q" if "i < length ts" "rs' ! i = Some q" for i q
    using IH Cons.prems(1) that by auto
  have later: "rs' ! j \<noteq> Some q" if "r = Some q" "j < length ts" "is_fp t = is_fp (ts ! j)" for j q
    using here [OF that(1)] tail [of j q] that by auto
  show ?case
  proof (intro conjI allI impI)
    show "length rs = length (t # ts)" using IH Cons.prems(1) rs by simp
  next
    fix i q assume "i < length (t # ts)" "rs ! i = Some q"
    then show "class_regs abi ((t # ts) ! i) ng nf q"
      using here tail [of "i - 1" q] le by (cases i) (auto simp: rs split: if_splits intro: fresh_from_mono)
  next
    fix i j q
    assume "i < j" "j < length (t # ts)" "is_fp ((t # ts) ! i) = is_fp ((t # ts) ! j)" "rs ! i = Some q"
    then show "rs ! j \<noteq> Some q"
      using later IH Cons.prems(1) by (cases i; cases j) (auto simp: rs)
  qed
qed

section \<open>Instances\<close>

theorem assign_regs_scalars_witness:
  "class_regs rv64_abi (Prim Float32) 0 0 10 \<and> [Some 10, Some 10, Some 11] ! 2 \<noteq> Some (10 :: nat)"
proof -
  let ?ts = "[Prim Int32, Prim Float32, Prim Int64]" and ?rs = "[Some 10, Some 10, Some (11 :: nat)]"
  have "assign_regs rv64_abi 0 0 ?ts = Inr ?rs" and "list_all is_primitive ?ts"
    and "distinct (parameters (generals rv64_abi))" "distinct (parameters (floats rv64_abi))"
    by (simp_all add: rv64_abi_def GPR_def FPR_def assign_reg_def)
  note all = assign_regs_scalars [OF this(2-4) this(1)]
  have "class_regs rv64_abi (?ts ! 1) 0 0 10" using all [THEN conjunct2, THEN conjunct1, rule_format, of 1 10] by simp
  moreover have "?rs ! 2 \<noteq> Some 10"
    using all [THEN conjunct2, THEN conjunct2, rule_format, of 0 2 10] by simp
  ultimately show ?thesis by simp
qed

theorem abi_size_eq_size_of_witness: "(16 :: nat) = size_of (Array (Prim Int32) 4)"
  by (rule abi_size_eq_size_of) simp_all

end
