(* ===== verification/Rv64_Vm.thy ===== *)
theory Rv64_Vm
  imports Abi
begin

text \<open>
  The RV64 virtual machine (\<open>backend/rv64/vm/vm.hpp\<close>, \<open>vm/exec.cpp\<close>): registers, byte-addressed
  memory with the bounds check of \<open>load\<close> and \<open>store\<close>, the flat instruction list with its labels
  and symbols, one function per instruction form and the execution loop with its instruction
  limit.

  Integer arithmetic on registers wraps, as the compiled machine code does (the C++ source adds
  \<open>int64_t\<close> values). Floating-point arithmetic, conversion, formatting and parsing of floats are
  those of the host and are fields of \<open>host\<close>; comparison, sign injection, moves and memory access
  of floats are computed on the bit patterns. The call stack is a list with its top first.
\<close>

section \<open>The host's floating point\<close>

record host =
  f32_add :: "u32 \<Rightarrow> u32 \<Rightarrow> u32"
  f32_sub :: "u32 \<Rightarrow> u32 \<Rightarrow> u32"
  f32_mul :: "u32 \<Rightarrow> u32 \<Rightarrow> u32"
  f32_div :: "u32 \<Rightarrow> u32 \<Rightarrow> u32"
  f32_sqrt :: "u32 \<Rightarrow> u32"
  f64_add :: "u64 \<Rightarrow> u64 \<Rightarrow> u64"
  f64_sub :: "u64 \<Rightarrow> u64 \<Rightarrow> u64"
  f64_mul :: "u64 \<Rightarrow> u64 \<Rightarrow> u64"
  f64_div :: "u64 \<Rightarrow> u64 \<Rightarrow> u64"
  f64_sqrt :: "u64 \<Rightarrow> u64"
  f32_fmod :: "u32 \<Rightarrow> u32 \<Rightarrow> u32"
  f64_fmod :: "u64 \<Rightarrow> u64 \<Rightarrow> u64"
  f32_to_i32 :: "u32 \<Rightarrow> u32"
  f64_to_i32 :: "u64 \<Rightarrow> u32"
  f32_to_i64 :: "u32 \<Rightarrow> u64"
  f64_to_i64 :: "u64 \<Rightarrow> u64"
  i32_to_f32 :: "u32 \<Rightarrow> u32"
  i32_to_f64 :: "u32 \<Rightarrow> u64"
  i64_to_f32 :: "u64 \<Rightarrow> u32"
  i64_to_f64 :: "u64 \<Rightarrow> u64"
  f64_to_f32 :: "u64 \<Rightarrow> u32"
  f32_to_f64 :: "u32 \<Rightarrow> u64"
  fmt_f32 :: "u32 \<Rightarrow> string"
  fmt_f64 :: "u64 \<Rightarrow> string"
  read_f32 :: "string \<Rightarrow> (u32 \<times> string) result"
  read_f64 :: "string \<Rightarrow> (u64 \<times> string) result"

section \<open>State\<close>

record vm =
  regs :: "nat \<Rightarrow> u64"
  fregs :: "nat \<Rightarrow> u64"
  memory :: "nat \<Rightarrow> u8"
  mem_size :: nat
  pc :: nat
  call_stack :: "nat list"
  vm_in :: string
  vm_in_ok :: bool
  vm_out :: string

record flat_inst =
  fl_inst :: rinst
  is_call_builtin :: bool
  branch_target :: nat

record image =
  flat_insts :: "flat_inst list"
  label_map :: "string \<rightharpoonup> nat"
  symbol_map :: "string \<rightharpoonup> u64"

definition MEM_SIZE :: nat where "MEM_SIZE = 64 * 1024 * 1024"
definition STACK_INIT :: nat where "STACK_INIT = MEM_SIZE - 512"
definition GLOBAL_BASE :: u64 where "GLOBAL_BASE = 0x1000"

definition reg :: "vm \<Rightarrow> general_reg \<Rightarrow> u64" where
  "reg s r = regs s (gid r)"

definition set_reg :: "general_reg \<Rightarrow> u64 \<Rightarrow> vm \<Rightarrow> vm" where
  "set_reg r v s = s\<lparr>regs := (regs s)(gid r := v)\<rparr>"

text \<open>The float accessors: the low four or all eight bytes of a float register.\<close>

definition get_f :: "vm \<Rightarrow> nat \<Rightarrow> u32" where
  "get_f s i = low32 (fregs s i)"

definition get_d :: "vm \<Rightarrow> nat \<Rightarrow> u64" where
  "get_d s i = fregs s i"

definition set_f :: "nat \<Rightarrow> u32 \<Rightarrow> vm \<Rightarrow> vm" where
  "set_f i v s = s\<lparr>fregs := (fregs s)(i := or (push_bit 32 (drop_bit 32 (fregs s i))) (zext32 v))\<rparr>"

definition set_d :: "nat \<Rightarrow> u64 \<Rightarrow> vm \<Rightarrow> vm" where
  "set_d i v s = s\<lparr>fregs := (fregs s)(i := v)\<rparr>"

section \<open>Memory\<close>

text \<open>
  \<open>addr + n > memory.size()\<close> is computed on 64-bit words. Where the sum wraps around, the check
  passes and the access itself is out of the buffer.
\<close>

definition check_access :: "u64 \<Rightarrow> nat \<Rightarrow> vm \<Rightarrow> unit result" where
  "check_access addr n s =
     (if mem_size s < unat (addr + of_nat n) then Inl (Compiler_error ''Segfault'')
      else if mem_size s < unat addr + n then Inl (Undefined ''access outside the memory buffer'')
      else Inr ())"

definition load_bytes :: "u64 \<Rightarrow> nat \<Rightarrow> vm \<Rightarrow> u8 list result" where
  "load_bytes addr n s =
     rbind (check_access addr n s) (\<lambda>_. Inr (map (\<lambda>i. memory s (unat addr + i)) [0..<n]))"

definition write_bytes :: "nat \<Rightarrow> u8 list \<Rightarrow> (nat \<Rightarrow> u8) \<Rightarrow> nat \<Rightarrow> u8" where
  "write_bytes a bs m = (\<lambda>i. if a \<le> i \<and> i < a + length bs then bs ! (i - a) else m i)"

definition store_bytes :: "u64 \<Rightarrow> u8 list \<Rightarrow> vm \<Rightarrow> vm result" where
  "store_bytes addr bs s =
     rbind (check_access addr (length bs) s)
       (\<lambda>_. Inr (s\<lparr>memory := write_bytes (unat addr) bs (memory s)\<rparr>))"

section \<open>Register-register instructions\<close>

definition divw :: "u32 \<Rightarrow> u32 \<Rightarrow> u64" where
  "divw a b =
     (if b = 0 then - 1
      else if div_overflows a b then sext32 a
      else sext32 (sdiv_word a b))"

definition remw :: "u32 \<Rightarrow> u32 \<Rightarrow> u64" where
  "remw a b =
     (if b = 0 then sext32 a
      else if div_overflows a b then 0
      else sext32 (smod_word a b))"

definition divd :: "u64 \<Rightarrow> u64 \<Rightarrow> u64" where
  "divd a b = (if b = 0 then - 1 else if div_overflows a b then a else sdiv_word a b)"

definition remd :: "u64 \<Rightarrow> u64 \<Rightarrow> u64" where
  "remd a b = (if b = 0 then a else if div_overflows a b then 0 else smod_word a b)"

definition shamt6 :: "u64 \<Rightarrow> nat" where "shamt6 w = unat (and w 0x3F)"
definition shamt5 :: "u64 \<Rightarrow> nat" where "shamt5 w = unat (and w 0x1F)"

fun alu_r :: "op_r \<Rightarrow> u64 \<Rightarrow> u64 \<Rightarrow> u64" where
  "alu_r R_ADD a b = a + b"
| "alu_r R_SUB a b = a - b"
| "alu_r R_SLL a b = push_bit (shamt6 b) a"
| "alu_r R_SLT a b = bool_word (a <s b)"
| "alu_r R_SLTU a b = bool_word (a < b)"
| "alu_r R_XOR a b = xor a b"
| "alu_r R_SRL a b = drop_bit (shamt6 b) a"
| "alu_r R_SRA a b = signed_drop_bit (shamt6 b) a"
| "alu_r R_OR a b = or a b"
| "alu_r R_AND a b = and a b"
| "alu_r R_MUL a b = a * b"
| "alu_r R_ADDW a b = sext32 (low32 a + low32 b)"
| "alu_r R_SUBW a b = sext32 (low32 a - low32 b)"
| "alu_r R_SLLW a b = sext32 (push_bit (shamt5 b) (low32 a))"
| "alu_r R_SRLW a b = sext32 (drop_bit (shamt5 b) (low32 a))"
| "alu_r R_SRAW a b = sext32 (signed_drop_bit (shamt5 b) (low32 a))"
| "alu_r R_MULW a b = sext32 (low32 a * low32 b)"
| "alu_r R_DIVW a b = divw (low32 a) (low32 b)"
| "alu_r R_REMW a b = remw (low32 a) (low32 b)"
| "alu_r R_DIV a b = divd a b"
| "alu_r R_REM a b = remd a b"

definition exec_r :: "op_r \<Rightarrow> general_reg \<Rightarrow> general_reg \<Rightarrow> general_reg \<Rightarrow> vm \<Rightarrow> vm" where
  "exec_r op rd rs1 rs2 s = set_reg rd (alu_r op (reg s rs1) (reg s rs2)) s"

section \<open>Floating-point instructions\<close>

text \<open>The number of an operand; the third operand may be missing.\<close>

fun any_id :: "any_reg \<Rightarrow> nat" where
  "any_id (AF f) = fid f"
| "any_id (AG g) = gid g"

fun opt_id :: "any_reg option \<Rightarrow> nat result" where
  "opt_id None = Inl (Compiler_error ''invalid register for this instruction'')"
| "opt_id (Some r) = Inr (any_id r)"

definition fr_bin_s :: "(u32 \<Rightarrow> u32 \<Rightarrow> u32) \<Rightarrow> nat \<Rightarrow> nat \<Rightarrow> nat result \<Rightarrow> vm \<Rightarrow> vm result" where
  "fr_bin_s f d a b s = rbind b (\<lambda>b. Inr (set_f d (f (get_f s a) (get_f s b)) s))"

definition fr_bin_d :: "(u64 \<Rightarrow> u64 \<Rightarrow> u64) \<Rightarrow> nat \<Rightarrow> nat \<Rightarrow> nat result \<Rightarrow> vm \<Rightarrow> vm result" where
  "fr_bin_d f d a b s = rbind b (\<lambda>b. Inr (set_d d (f (get_d s a) (get_d s b)) s))"

definition fr_cmp_s :: "(u32 \<Rightarrow> u32 \<Rightarrow> bool) \<Rightarrow> nat \<Rightarrow> nat \<Rightarrow> nat result \<Rightarrow> vm \<Rightarrow> vm result" where
  "fr_cmp_s f d a b s =
     rbind b (\<lambda>b. Inr (set_reg (GReg d) (bool_word (f (get_f s a) (get_f s b))) s))"

definition fr_cmp_d :: "(u64 \<Rightarrow> u64 \<Rightarrow> bool) \<Rightarrow> nat \<Rightarrow> nat \<Rightarrow> nat result \<Rightarrow> vm \<Rightarrow> vm result" where
  "fr_cmp_d f d a b s =
     rbind b (\<lambda>b. Inr (set_reg (GReg d) (bool_word (f (get_d s a) (get_d s b))) s))"

definition sgnj_s :: "u32 \<Rightarrow> u32 \<Rightarrow> u32" where
  "sgnj_s v1 v2 = or (and v1 0x7FFFFFFF) (and v2 0x80000000)"

definition sgnjn_s :: "u32 \<Rightarrow> u32 \<Rightarrow> u32" where
  "sgnjn_s v1 v2 = or (and v1 0x7FFFFFFF) (xor (and v2 0x80000000) 0x80000000)"

definition sgnj_d :: "u64 \<Rightarrow> u64 \<Rightarrow> u64" where
  "sgnj_d v1 v2 = or (and v1 0x7FFFFFFFFFFFFFFF) (and v2 0x8000000000000000)"

definition sgnjn_d :: "u64 \<Rightarrow> u64 \<Rightarrow> u64" where
  "sgnjn_d v1 v2 =
     or (and v1 0x7FFFFFFFFFFFFFFF) (xor (and v2 0x8000000000000000) 0x8000000000000000)"

fun exec_fr :: "host \<Rightarrow> op_fr \<Rightarrow> any_reg \<Rightarrow> any_reg \<Rightarrow> any_reg option \<Rightarrow> vm \<Rightarrow> vm result" where
  "exec_fr h FR_FADD_S rd rs1 rs2 s = fr_bin_s (f32_add h) (any_id rd) (any_id rs1) (opt_id rs2) s"
| "exec_fr h FR_FSUB_S rd rs1 rs2 s = fr_bin_s (f32_sub h) (any_id rd) (any_id rs1) (opt_id rs2) s"
| "exec_fr h FR_FMUL_S rd rs1 rs2 s = fr_bin_s (f32_mul h) (any_id rd) (any_id rs1) (opt_id rs2) s"
| "exec_fr h FR_FDIV_S rd rs1 rs2 s = fr_bin_s (f32_div h) (any_id rd) (any_id rs1) (opt_id rs2) s"
| "exec_fr h FR_FADD_D rd rs1 rs2 s = fr_bin_d (f64_add h) (any_id rd) (any_id rs1) (opt_id rs2) s"
| "exec_fr h FR_FSUB_D rd rs1 rs2 s = fr_bin_d (f64_sub h) (any_id rd) (any_id rs1) (opt_id rs2) s"
| "exec_fr h FR_FMUL_D rd rs1 rs2 s = fr_bin_d (f64_mul h) (any_id rd) (any_id rs1) (opt_id rs2) s"
| "exec_fr h FR_FDIV_D rd rs1 rs2 s = fr_bin_d (f64_div h) (any_id rd) (any_id rs1) (opt_id rs2) s"
| "exec_fr h FR_FSQRT_S rd rs1 rs2 s = Inr (set_f (any_id rd) (f32_sqrt h (get_f s (any_id rs1))) s)"
| "exec_fr h FR_FSQRT_D rd rs1 rs2 s = Inr (set_d (any_id rd) (f64_sqrt h (get_d s (any_id rs1))) s)"
| "exec_fr h FR_FSGNJ_S rd rs1 rs2 s = fr_bin_s sgnj_s (any_id rd) (any_id rs1) (opt_id rs2) s"
| "exec_fr h FR_FSGNJN_S rd rs1 rs2 s = fr_bin_s sgnjn_s (any_id rd) (any_id rs1) (opt_id rs2) s"
| "exec_fr h FR_FSGNJ_D rd rs1 rs2 s = fr_bin_d sgnj_d (any_id rd) (any_id rs1) (opt_id rs2) s"
| "exec_fr h FR_FSGNJN_D rd rs1 rs2 s = fr_bin_d sgnjn_d (any_id rd) (any_id rs1) (opt_id rs2) s"
| "exec_fr h FR_FEQ_S rd rs1 rs2 s = fr_cmp_s f32_eq (any_id rd) (any_id rs1) (opt_id rs2) s"
| "exec_fr h FR_FLT_S rd rs1 rs2 s = fr_cmp_s f32_lt (any_id rd) (any_id rs1) (opt_id rs2) s"
| "exec_fr h FR_FLE_S rd rs1 rs2 s = fr_cmp_s f32_le (any_id rd) (any_id rs1) (opt_id rs2) s"
| "exec_fr h FR_FEQ_D rd rs1 rs2 s = fr_cmp_d f64_eq (any_id rd) (any_id rs1) (opt_id rs2) s"
| "exec_fr h FR_FLT_D rd rs1 rs2 s = fr_cmp_d f64_lt (any_id rd) (any_id rs1) (opt_id rs2) s"
| "exec_fr h FR_FLE_D rd rs1 rs2 s = fr_cmp_d f64_le (any_id rd) (any_id rs1) (opt_id rs2) s"
| "exec_fr h FR_FCVT_W_S rd rs1 rs2 s =
     Inr (set_reg (GReg (any_id rd)) (sext32 (f32_to_i32 h (get_f s (any_id rs1)))) s)"
| "exec_fr h FR_FCVT_W_D rd rs1 rs2 s =
     Inr (set_reg (GReg (any_id rd)) (sext32 (f64_to_i32 h (get_d s (any_id rs1)))) s)"
| "exec_fr h FR_FCVT_L_S rd rs1 rs2 s =
     Inr (set_reg (GReg (any_id rd)) (f32_to_i64 h (get_f s (any_id rs1))) s)"
| "exec_fr h FR_FCVT_L_D rd rs1 rs2 s =
     Inr (set_reg (GReg (any_id rd)) (f64_to_i64 h (get_d s (any_id rs1))) s)"
| "exec_fr h FR_FCVT_S_W rd rs1 rs2 s =
     Inr (set_f (any_id rd) (i32_to_f32 h (low32 (regs s (any_id rs1)))) s)"
| "exec_fr h FR_FCVT_D_W rd rs1 rs2 s =
     Inr (set_d (any_id rd) (i32_to_f64 h (low32 (regs s (any_id rs1)))) s)"
| "exec_fr h FR_FCVT_S_L rd rs1 rs2 s = Inr (set_f (any_id rd) (i64_to_f32 h (regs s (any_id rs1))) s)"
| "exec_fr h FR_FCVT_D_L rd rs1 rs2 s = Inr (set_d (any_id rd) (i64_to_f64 h (regs s (any_id rs1))) s)"
| "exec_fr h FR_FCVT_S_D rd rs1 rs2 s = Inr (set_f (any_id rd) (f64_to_f32 h (get_d s (any_id rs1))) s)"
| "exec_fr h FR_FCVT_D_S rd rs1 rs2 s = Inr (set_d (any_id rd) (f32_to_f64 h (get_f s (any_id rs1))) s)"
| "exec_fr h FR_FMV_X_W rd rs1 rs2 s =
     Inr (set_reg (GReg (any_id rd)) (sext32 (get_f s (any_id rs1))) s)"
| "exec_fr h FR_FMV_W_X rd rs1 rs2 s = Inr (set_f (any_id rd) (low32 (regs s (any_id rs1))) s)"

section \<open>Immediate instructions, loads and stores\<close>

definition imm_shamt6 :: "u32 \<Rightarrow> nat" where "imm_shamt6 w = unat (and w 0x3F)"
definition imm_shamt5 :: "u32 \<Rightarrow> nat" where "imm_shamt5 w = unat (and w 0x1F)"

text \<open>What an arithmetic immediate instruction puts into \<open>rd\<close>; none for the others.\<close>

fun alu_i :: "op_i \<Rightarrow> u64 \<Rightarrow> u32 \<Rightarrow> u64 option" where
  "alu_i I_ADDI a imm = Some (a + sext32 imm)"
| "alu_i I_ADDIW a imm = Some (sext32 (low32 a + imm))"
| "alu_i I_SLTI a imm = Some (bool_word (a <s sext32 imm))"
| "alu_i I_SLTIU a imm = Some (bool_word (a < sext32 imm))"
| "alu_i I_XORI a imm = Some (xor a (sext32 imm))"
| "alu_i I_ORI a imm = Some (or a (sext32 imm))"
| "alu_i I_ANDI a imm = Some (and a (sext32 imm))"
| "alu_i I_SLLI a imm = Some (push_bit (imm_shamt6 imm) a)"
| "alu_i I_SRLI a imm = Some (drop_bit (imm_shamt6 imm) a)"
| "alu_i I_SRAI a imm = Some (signed_drop_bit (imm_shamt6 imm) a)"
| "alu_i I_SLLIW a imm = Some (sext32 (push_bit (imm_shamt5 imm) (low32 a)))"
| "alu_i I_SRLIW a imm = Some (sext32 (drop_bit (imm_shamt5 imm) (low32 a)))"
| "alu_i I_SRAIW a imm = Some (sext32 (signed_drop_bit (imm_shamt5 imm) (low32 a)))"
| "alu_i _ a imm = None"

text \<open>The width of a load and how the loaded bytes are extended.\<close>

fun load_i :: "op_i \<Rightarrow> (nat \<times> (u8 list \<Rightarrow> u64)) option" where
  "load_i I_LD = Some (8, \<lambda>bs. bytes_word bs)"
| "load_i I_LW = Some (4, \<lambda>bs. sext32 (bytes_word bs))"
| "load_i I_LWU = Some (4, \<lambda>bs. zext32 (bytes_word bs))"
| "load_i I_LH = Some (2, \<lambda>bs. scast (bytes_word bs :: u16))"
| "load_i I_LHU = Some (2, \<lambda>bs. ucast (bytes_word bs :: u16))"
| "load_i I_LB = Some (1, \<lambda>bs. scast (bytes_word bs :: u8))"
| "load_i I_LBU = Some (1, \<lambda>bs. ucast (bytes_word bs :: u8))"
| "load_i _ = None"

fun store_i :: "op_i \<Rightarrow> nat option" where
  "store_i I_SD = Some 8"
| "store_i I_SW = Some 4"
| "store_i I_SH = Some 2"
| "store_i I_SB = Some 1"
| "store_i _ = None"

definition exec_jalr :: "general_reg \<Rightarrow> general_reg \<Rightarrow> u32 \<Rightarrow> vm \<Rightarrow> vm" where
  "exec_jalr rd rs1 imm s =
     (let tmp = of_nat (pc s) :: u64;
          s1 = s\<lparr>pc := unat (and (reg s rs1 + sext32 imm) (not 1))\<rparr>
      in if gid rd \<noteq> 0 then set_reg rd tmp s1 else s1)"

definition exec_i :: "op_i \<Rightarrow> general_reg \<Rightarrow> general_reg \<Rightarrow> u32 \<Rightarrow> vm \<Rightarrow> vm result" where
  "exec_i op rd rs1 imm s =
     (case alu_i op (reg s rs1) imm of
        Some v \<Rightarrow> Inr (set_reg rd v s)
      | None \<Rightarrow>
     (case load_i op of
        Some (n, ext) \<Rightarrow>
          rbind (load_bytes (reg s rs1 + sext32 imm) n s) (\<lambda>bs. Inr (set_reg rd (ext bs) s))
      | None \<Rightarrow>
     (case store_i op of
        Some n \<Rightarrow> store_bytes (reg s rs1 + sext32 imm) (word_bytes n (reg s rd)) s
      | None \<Rightarrow> Inr (exec_jalr rd rs1 imm s))))"

fun branch_taken :: "op_b \<Rightarrow> u64 \<Rightarrow> u64 \<Rightarrow> bool" where
  "branch_taken RB_BEQ a b = (a = b)"
| "branch_taken RB_BNE a b = (a \<noteq> b)"
| "branch_taken RB_BLT a b = (a <s b)"
| "branch_taken RB_BGE a b = (b \<le>s a)"
| "branch_taken RB_BLTU a b = (a < b)"
| "branch_taken RB_BGEU a b = (b \<le> a)"

definition exec_b :: "op_b \<Rightarrow> general_reg \<Rightarrow> general_reg \<Rightarrow> nat \<Rightarrow> vm \<Rightarrow> vm" where
  "exec_b op rs1 rs2 target s =
     (if branch_taken op (reg s rs1) (reg s rs2) then s\<lparr>pc := target\<rparr> else s)"

fun exec_fi :: "op_fi \<Rightarrow> float_reg \<Rightarrow> general_reg \<Rightarrow> u32 \<Rightarrow> vm \<Rightarrow> vm result" where
  "exec_fi FI_FLW rd rs1 imm s =
     rbind (load_bytes (reg s rs1 + sext32 imm) 4 s) (\<lambda>bs. Inr (set_f (fid rd) (bytes_word bs) s))"
| "exec_fi FI_FLD rd rs1 imm s =
     rbind (load_bytes (reg s rs1 + sext32 imm) 8 s) (\<lambda>bs. Inr (set_d (fid rd) (bytes_word bs) s))"
| "exec_fi FI_FSW rd rs1 imm s =
     store_bytes (reg s rs1 + sext32 imm) (word_bytes 4 (get_f s (fid rd))) s"
| "exec_fi FI_FSD rd rs1 imm s =
     store_bytes (reg s rs1 + sext32 imm) (word_bytes 8 (get_d s (fid rd))) s"

definition exec_j :: "general_reg \<Rightarrow> nat \<Rightarrow> vm \<Rightarrow> vm" where
  "exec_j rd target s = (set_reg rd (of_nat (pc s)) s)\<lparr>pc := target\<rparr>"

fun exec_u :: "op_u \<Rightarrow> general_reg \<Rightarrow> u64 \<Rightarrow> vm \<Rightarrow> vm" where
  "exec_u U_LUI rd imm s = set_reg rd (push_bit 12 imm) s"
| "exec_u U_AUIPC rd imm s = set_reg rd (of_nat (pc s) - 1 + push_bit 12 imm) s"

section \<open>Pseudo-instructions\<close>

fun pseudo_r :: "pseudo_r_op \<Rightarrow> u64 \<Rightarrow> u64" where
  "pseudo_r P_MV a = a"
| "pseudo_r P_NOT a = not a"
| "pseudo_r P_NEG a = - a"
| "pseudo_r P_NEGW a = sext32 (- low32 a)"
| "pseudo_r P_SEQZ a = bool_word (a = 0)"
| "pseudo_r P_SNEZ a = bool_word (a \<noteq> 0)"

definition exec_pseudo_r :: "pseudo_r_op \<Rightarrow> general_reg \<Rightarrow> general_reg \<Rightarrow> vm \<Rightarrow> vm" where
  "exec_pseudo_r op rd rs1 s = set_reg rd (pseudo_r op (reg s rs1)) s"

definition exec_pseudo_li :: "general_reg \<Rightarrow> u64 \<Rightarrow> vm \<Rightarrow> vm" where
  "exec_pseudo_li rd imm s = set_reg rd imm s"

fun pseudo_taken :: "pseudo_b_op \<Rightarrow> u64 \<Rightarrow> bool" where
  "pseudo_taken P_BEQZ a = (a = 0)"
| "pseudo_taken P_BNEZ a = (a \<noteq> 0)"

definition exec_pseudo_b :: "pseudo_b_op \<Rightarrow> general_reg \<Rightarrow> nat \<Rightarrow> vm \<Rightarrow> vm" where
  "exec_pseudo_b op rs1 target s =
     (if pseudo_taken op (reg s rs1) then s\<lparr>pc := target\<rparr> else s)"

text \<open>\<open>symbol_map[symbol]\<close> is 0 for a symbol that was never placed.\<close>

definition symbol_addr :: "image \<Rightarrow> string \<Rightarrow> u64" where
  "symbol_addr im sy = (case symbol_map im sy of None \<Rightarrow> 0 | Some a \<Rightarrow> a)"

fun exec_pseudo_l :: "image \<Rightarrow> pseudo_l_op \<Rightarrow> general_reg \<Rightarrow> string \<Rightarrow> vm \<Rightarrow> vm result" where
  "exec_pseudo_l im P_LA rd sy s = Inr (set_reg rd (symbol_addr im sy) s)"
| "exec_pseudo_l im P_LGD rd sy s =
     rbind (load_bytes (symbol_addr im sy) 8 s) (\<lambda>bs. Inr (set_reg rd (bytes_word bs) s))"
| "exec_pseudo_l im P_LGW rd sy s =
     rbind (load_bytes (symbol_addr im sy) 4 s) (\<lambda>bs. Inr (set_reg rd (sext32 (bytes_word bs)) s))"
| "exec_pseudo_l im P_SGD rd sy s = store_bytes (symbol_addr im sy) (word_bytes 8 (reg s rd)) s"
| "exec_pseudo_l im P_SGW rd sy s = store_bytes (symbol_addr im sy) (word_bytes 4 (reg s rd)) s"

definition exec_pseudo_ret :: "image \<Rightarrow> vm \<Rightarrow> vm" where
  "exec_pseudo_ret im s =
     (case call_stack s of
        [] \<Rightarrow> s\<lparr>pc := length (flat_insts im)\<rparr>
      | ret # rest \<Rightarrow> s\<lparr>pc := ret, call_stack := rest\<rparr>)"

section \<open>Built-in functions\<close>

text \<open>
  \<open>input >> val\<close> for an \<open>int\<close>: skip white space, then an optional sign and decimal digits. With
  nothing left or a stream in the failed state the variable stays uninitialised; without digits it
  is 0 and the stream fails; out of range it is clamped and the stream fails.
\<close>

definition is_space :: "char \<Rightarrow> bool" where
  "is_space c \<longleftrightarrow> c = CHR '' '' \<or> c = CHR 0x09 \<or> c = CHR 0x0A \<or> c = CHR 0x0B \<or> c = CHR 0x0C \<or> c = CHR 0x0D"

definition is_digit :: "char \<Rightarrow> bool" where
  "is_digit c \<longleftrightarrow> 48 \<le> (of_char c :: nat) \<and> (of_char c :: nat) \<le> 57"

fun digits_value :: "int \<Rightarrow> string \<Rightarrow> int" where
  "digits_value acc [] = acc"
| "digits_value acc (c # cs) = digits_value (10 * acc + (of_char c - 48)) cs"

definition read_int :: "string \<Rightarrow> bool \<Rightarrow> (u32 \<times> bool \<times> string) result" where
  "read_int str ok =
     (let s1 = dropWhile is_space str in
      if \<not> ok \<or> s1 = [] then Inl (Undefined ''uninitialised value'')
      else
        (let neg = (hd s1 = CHR ''-'');
             s2 = (if hd s1 = CHR ''-'' \<or> hd s1 = CHR ''+'' then tl s1 else s1);
             ds = takeWhile is_digit s2; rest = dropWhile is_digit s2;
             v = (if neg then - digits_value 0 ds else digits_value 0 ds)
         in if ds = [] then Inr (0, False, rest)
            else if 2 ^ 31 \<le> v then Inr (0x7FFFFFFF, False, rest)
            else if v < - (2 ^ 31) then Inr (0x80000000, False, rest)
            else Inr (word_of_int v, True, rest)))"

definition a0 :: nat where "a0 = 10"
definition a1 :: nat where "a1 = 11"
definition a2 :: nat where "a2 = 12"

definition builtin_print_int :: "vm \<Rightarrow> vm result" where
  "builtin_print_int s = Inr (s\<lparr>vm_out := vm_out s @ int_to_string (sint (regs s a0)) @ newline\<rparr>)"

definition builtin_print_float :: "host \<Rightarrow> vm \<Rightarrow> vm result" where
  "builtin_print_float h s = Inr (s\<lparr>vm_out := vm_out s @ fmt_f32 h (get_f s a0) @ newline\<rparr>)"

definition builtin_print_double :: "host \<Rightarrow> vm \<Rightarrow> vm result" where
  "builtin_print_double h s = Inr (s\<lparr>vm_out := vm_out s @ fmt_f64 h (get_d s a0) @ newline\<rparr>)"

definition builtin_print_bool :: "vm \<Rightarrow> vm result" where
  "builtin_print_bool s =
     Inr (s\<lparr>vm_out := vm_out s @ (if regs s a0 \<noteq> 0 then ''true'' else ''false'') @ newline\<rparr>)"

definition builtin_get_int :: "vm \<Rightarrow> vm result" where
  "builtin_get_int s =
     rbind (read_int (vm_in s) (vm_in_ok s))
       (\<lambda>(v, ok, rest). Inr (s\<lparr>regs := (regs s)(a0 := sext32 v), vm_in := rest, vm_in_ok := ok\<rparr>))"

definition builtin_get_float :: "host \<Rightarrow> vm \<Rightarrow> vm result" where
  "builtin_get_float h s =
     rbind (read_f32 h (vm_in s)) (\<lambda>(v, rest). Inr (set_f a0 v (s\<lparr>vm_in := rest\<rparr>)))"

definition builtin_get_double :: "host \<Rightarrow> vm \<Rightarrow> vm result" where
  "builtin_get_double h s =
     rbind (read_f64 h (vm_in s)) (\<lambda>(v, rest). Inr (set_d a0 v (s\<lparr>vm_in := rest\<rparr>)))"

text \<open>The checks of \<open>memcpy\<close> and \<open>memset\<close> add on 64-bit words as \<open>load\<close> does.\<close>

definition range_ok :: "u64 \<Rightarrow> u64 \<Rightarrow> vm \<Rightarrow> bool" where
  "range_ok a n s \<longleftrightarrow> unat (a + n) \<le> mem_size s"

definition range_inside :: "u64 \<Rightarrow> u64 \<Rightarrow> vm \<Rightarrow> bool" where
  "range_inside a n s \<longleftrightarrow> unat a + unat n \<le> mem_size s"

definition builtin_memcpy :: "vm \<Rightarrow> vm result" where
  "builtin_memcpy s =
     (let dest = regs s a0; src = regs s a1; n = regs s a2 in
      if \<not> range_ok dest n s \<or> \<not> range_ok src n s
        then Inl (Compiler_error ''RV64 VM: memcpy out of bounds'')
      else if \<not> range_inside dest n s \<or> \<not> range_inside src n s
        then Inl (Undefined ''memmove outside the memory buffer'')
      else Inr (s\<lparr>memory := (\<lambda>i. if unat dest \<le> i \<and> i < unat dest + unat n
                                then memory s (unat src + (i - unat dest)) else memory s i)\<rparr>))"

definition builtin_memset :: "vm \<Rightarrow> vm result" where
  "builtin_memset s =
     (let dest = regs s a0; value = ucast (regs s a1) :: u8; n = regs s a2 in
      if \<not> range_ok dest n s then Inl (Compiler_error ''RV64 VM: memset out of bounds'')
      else if \<not> range_inside dest n s then Inl (Undefined ''memset outside the memory buffer'')
      else Inr (s\<lparr>memory := (\<lambda>i. if unat dest \<le> i \<and> i < unat dest + unat n
                                then value else memory s i)\<rparr>))"

definition builtin_fn :: "host \<Rightarrow> string \<Rightarrow> (vm \<Rightarrow> vm result) option" where
  "builtin_fn h name =
     (if name = ''print_int'' then Some builtin_print_int
      else if name = ''print_float'' then Some (builtin_print_float h)
      else if name = ''print_double'' then Some (builtin_print_double h)
      else if name = ''print_bool'' then Some builtin_print_bool
      else if name = ''get_int'' then Some builtin_get_int
      else if name = ''get_float'' then Some (builtin_get_float h)
      else if name = ''get_double'' then Some (builtin_get_double h)
      else if name = ''memcpy'' then Some builtin_memcpy
      else if name = ''memset'' then Some builtin_memset
      else None)"

definition is_builtin :: "string \<Rightarrow> bool" where
  "is_builtin name \<longleftrightarrow> name \<in> set [''print_int'', ''print_float'', ''print_double'', ''print_bool'',
     ''get_int'', ''get_float'', ''get_double'', ''memcpy'', ''memset'']"

lemma is_builtin_iff: "is_builtin name \<longleftrightarrow> builtin_fn h name \<noteq> None"
  by (auto simp: is_builtin_def builtin_fn_def)

fun exec_pseudo_j :: "host \<Rightarrow> pseudo_j_op \<Rightarrow> string \<Rightarrow> bool \<Rightarrow> nat \<Rightarrow> vm \<Rightarrow> vm result" where
  "exec_pseudo_j h P_J target bi tgt s = Inr (s\<lparr>pc := tgt\<rparr>)"
| "exec_pseudo_j h P_CALL target bi tgt s =
     (if bi then (case builtin_fn h target of
                    None \<Rightarrow> Inl (Undefined ''call of a null builtin'')
                  | Some f \<Rightarrow> f s)
      else Inr (s\<lparr>call_stack := pc s # call_stack s, pc := tgt\<rparr>))"

section \<open>Dispatch\<close>

fun exec :: "host \<Rightarrow> image \<Rightarrow> rinst \<Rightarrow> bool \<Rightarrow> nat \<Rightarrow> vm \<Rightarrow> vm result" where
  "exec h im (InstR op rd rs1 rs2) bi tgt s = Inr (exec_r op rd rs1 rs2 s)"
| "exec h im (InstFR op rd rs1 rs2) bi tgt s = exec_fr h op rd rs1 rs2 s"
| "exec h im (InstI op rd rs1 imm) bi tgt s = exec_i op rd rs1 imm s"
| "exec h im (InstB op rs1 rs2 l) bi tgt s = Inr (exec_b op rs1 rs2 tgt s)"
| "exec h im (InstFI op rd rs1 imm) bi tgt s = exec_fi op rd rs1 imm s"
| "exec h im (InstJ op rd l) bi tgt s = Inr (exec_j rd tgt s)"
| "exec h im (InstU op rd imm) bi tgt s = Inr (exec_u op rd imm s)"
| "exec h im (PseudoR op rd rs1) bi tgt s = Inr (exec_pseudo_r op rd rs1 s)"
| "exec h im (PseudoLI rd imm) bi tgt s = Inr (exec_pseudo_li rd imm s)"
| "exec h im (PseudoB op rs1 l) bi tgt s = Inr (exec_pseudo_b op rs1 tgt s)"
| "exec h im (PseudoJ op l) bi tgt s = exec_pseudo_j h op l bi tgt s"
| "exec h im (PseudoL op rd sy) bi tgt s = exec_pseudo_l im op rd sy s"
| "exec h im PseudoRet bi tgt s = Inr (exec_pseudo_ret im s)"

section \<open>Building the image\<close>

fun block_insts :: "rblock list \<Rightarrow> rinst list" where
  "block_insts [] = []"
| "block_insts (b # bs) = rb_insts b @ block_insts bs"

fun label_blocks :: "nat \<Rightarrow> rblock list \<Rightarrow> (string \<rightharpoonup> nat) \<Rightarrow> (string \<rightharpoonup> nat)" where
  "label_blocks idx [] m = m"
| "label_blocks idx (b # bs) m =
     label_blocks (idx + length (rb_insts b)) bs (m(rb_label b \<mapsto> idx))"

definition module_blocks :: "rmodule \<Rightarrow> rblock list" where
  "module_blocks md = concat (map rf_blocks (m_funcs md))"

definition build_flat_insts :: "rmodule \<Rightarrow> flat_inst list \<times> (string \<rightharpoonup> nat)" where
  "build_flat_insts md =
     (map (\<lambda>i. \<lparr>fl_inst = i, is_call_builtin = False, branch_target = 0\<rparr>)
        (block_insts (module_blocks md)),
      label_blocks 0 (module_blocks md) Map.empty)"

text \<open>The bytes an initialiser writes at its address.\<close>

fun init_bytes :: "cval \<Rightarrow> nat \<Rightarrow> u8 list result" where
  "init_bytes V_none sz = Inr []"
| "init_bytes (V_int v) sz = Inr (word_bytes 4 v)"
| "init_bytes (V_int64 v) sz = Inr (word_bytes 8 v)"
| "init_bytes (V_float v) sz = Inr (word_bytes 4 v)"
| "init_bytes (V_bool v) sz = Inr [if v then 1 else 0]"
| "init_bytes (V_double v) sz = Inr (word_bytes 8 v)"
| "init_bytes (V_bytes bs) sz =
     (if length bs < sz then Inl (Undefined ''read past the initialiser'') else Inr (take sz bs))"

text \<open>An array initialiser is copied with \<open>memcpy(&memory[offset], ...)\<close>, without a check.\<close>

definition copy_bytes :: "u64 \<Rightarrow> u8 list \<Rightarrow> vm \<Rightarrow> vm result" where
  "copy_bytes addr bs s =
     (if mem_size s < unat addr + length bs then Inl (Undefined ''memcpy outside the memory buffer'')
      else Inr (s\<lparr>memory := write_bytes (unat addr) bs (memory s)\<rparr>))"

definition place_global ::
  "global_var \<Rightarrow> u64 \<times> (string \<rightharpoonup> u64) \<times> vm \<Rightarrow> (u64 \<times> (string \<rightharpoonup> u64) \<times> vm) result" where
  "place_global g st =
     (case st of (offset, syms, s) \<Rightarrow>
        rbind (abi_size (gl_type g)) (\<lambda>sz.
          (let off = (if 1 < sz then align_up offset (of_nat sz) else offset);
               syms' = syms(gl_name g \<mapsto> off)
           in case gl_init g of
                None \<Rightarrow> Inr (off + of_nat sz, syms', s)
              | Some c \<Rightarrow>
                  rbind (init_bytes (cvalue c) sz) (\<lambda>bs.
                    if bs = [] then Inr (off + of_nat sz, syms', s)
                    else rbind (case cvalue c of
                                  V_bytes _ \<Rightarrow> copy_bytes off bs s
                                | _ \<Rightarrow> store_bytes off bs s)
                           (\<lambda>s'. Inr (off + of_nat sz, syms', s'))))))"

definition place_literal ::
  "float_literal \<Rightarrow> u64 \<times> (string \<rightharpoonup> u64) \<times> vm \<Rightarrow> (u64 \<times> (string \<rightharpoonup> u64) \<times> vm) result" where
  "place_literal lit st =
     (case st of (offset, syms, s) \<Rightarrow>
        (let off = and (offset + 7) (not 7); syms' = syms(lit_label lit \<mapsto> off)
         in case cvalue (lit_value lit) of
              V_float v \<Rightarrow> rbind (store_bytes off (word_bytes 4 v) s) (\<lambda>s'. Inr (off + 4, syms', s'))
            | V_double v \<Rightarrow> rbind (store_bytes off (word_bytes 8 v) s) (\<lambda>s'. Inr (off + 8, syms', s'))
            | _ \<Rightarrow> Inr (off + 8, syms', s)))"

definition place_globals :: "rmodule \<Rightarrow> vm \<Rightarrow> ((string \<rightharpoonup> u64) \<times> vm) result" where
  "place_globals md s =
     rbind (rfold place_global (m_globals md) (GLOBAL_BASE, Map.empty, s)) (\<lambda>st.
     rbind (rfold place_literal (m_literals md) st) (\<lambda>(off, syms, s'). Inr (syms, s')))"

definition find_label :: "(string \<rightharpoonup> nat) \<Rightarrow> string \<Rightarrow> nat result" where
  "find_label m l =
     (case m l of None \<Rightarrow> Inl (Compiler_error ''RV64 VM: undefined label'') | Some i \<Rightarrow> Inr i)"

definition resolve_branch :: "(string \<rightharpoonup> nat) \<Rightarrow> flat_inst \<Rightarrow> flat_inst result" where
  "resolve_branch m fi =
     (case fl_inst fi of
        PseudoB op r l \<Rightarrow> rbind (find_label m l) (\<lambda>i. Inr (fi\<lparr>branch_target := i\<rparr>))
      | InstB op r1 r2 l \<Rightarrow> rbind (find_label m l) (\<lambda>i. Inr (fi\<lparr>branch_target := i\<rparr>))
      | PseudoJ op l \<Rightarrow>
          (if op = P_CALL \<and> is_builtin l then Inr (fi\<lparr>is_call_builtin := True\<rparr>)
           else rbind (find_label m l) (\<lambda>i. Inr (fi\<lparr>branch_target := i\<rparr>)))
      | InstJ op r l \<Rightarrow> rbind (find_label m l) (\<lambda>i. Inr (fi\<lparr>branch_target := i\<rparr>))
      | _ \<Rightarrow> Inr fi)"

fun resolve_branches :: "(string \<rightharpoonup> nat) \<Rightarrow> flat_inst list \<Rightarrow> flat_inst list result" where
  "resolve_branches m [] = Inr []"
| "resolve_branches m (fi # fis) =
     rbind (resolve_branch m fi) (\<lambda>fi'. rbind (resolve_branches m fis) (\<lambda>r. Inr (fi' # r)))"

section \<open>Execution\<close>

definition reset_vm :: "string \<Rightarrow> bool \<Rightarrow> string \<Rightarrow> vm" where
  "reset_vm inp ok out =
     \<lparr>regs = (\<lambda>_. 0), fregs = (\<lambda>_. 0), memory = (\<lambda>_. 0), mem_size = MEM_SIZE, pc = 0,
      call_stack = [], vm_in = inp, vm_in_ok = ok, vm_out = out\<rparr>"

text \<open>One round of the loop: fetch, advance \<open>pc\<close>, execute.\<close>

definition step :: "host \<Rightarrow> image \<Rightarrow> vm \<Rightarrow> vm result" where
  "step h im s =
     (let fi = flat_insts im ! pc s
      in exec h im (fl_inst fi) (is_call_builtin fi) (branch_target fi) (s\<lparr>pc := Suc (pc s)\<rparr>))"

text \<open>
  The execution loop; the argument counts the instructions left before \<open>max_insts\<close>. The limit is
  the program's own, so the loop is total.
\<close>

fun run :: "host \<Rightarrow> image \<Rightarrow> nat \<Rightarrow> vm \<Rightarrow> vm result" where
  "run h im 0 s =
     (if pc s < length (flat_insts im) then Inl (Compiler_error ''RV64 VM: execution limit exceeded'')
      else Inr s)"
| "run h im (Suc left) s =
     (if pc s < length (flat_insts im) then rbind (step h im s) (run h im left) else Inr s)"

definition max_insts :: nat where "max_insts = 1000000000"

definition execute :: "host \<Rightarrow> rmodule \<Rightarrow> string \<Rightarrow> bool \<Rightarrow> string \<Rightarrow> (u8 \<times> vm) result" where
  "execute h md inp ok out =
     (case build_flat_insts md of (flat, labels) \<Rightarrow>
        rbind (place_globals md (reset_vm inp ok out)) (\<lambda>(syms, s0).
        rbind (resolve_branches labels flat) (\<lambda>flat'.
          (case labels ''main'' of
             None \<Rightarrow> Inl (Compiler_error ''RV64 VM: no main function found'')
           | Some m \<Rightarrow>
               (let im = \<lparr>flat_insts = flat', label_map = labels, symbol_map = syms\<rparr>;
                    s1 = s0\<lparr>regs := (regs s0)(2 := of_nat STACK_INIT, 1 := - 1), pc := m\<rparr>
                in rbind (run h im max_insts s1) (\<lambda>s. Inr (ucast (regs s a0), s)))))))"

end
