(* ===== verification/Rv64_Block.thy ===== *)
theory Rv64_Block
  imports Rv64_Vm
begin

text \<open>
  Straight-line code and basic blocks of the RV64 machine. \<open>exec_seq\<close> runs a list of
  instructions that neither jump nor look at the program counter; \<open>exec_block\<close> runs a block up to
  the branch that leaves it. The last section relates both to the machine's own loop \<open>run\<close>, which
  works on the flat instruction list.
\<close>

section \<open>Instructions that neither jump nor read the program counter\<close>

fun plain :: "rinst \<Rightarrow> bool" where
  "plain (InstI op rd rs1 imm) = (op \<noteq> I_JALR)"
| "plain (InstB op rs1 rs2 l) = False"
| "plain (InstJ op rd l) = False"
| "plain (InstU op rd imm) = (op = U_LUI)"
| "plain (PseudoB op rs1 l) = False"
| "plain (PseudoJ op l) = False"
| "plain PseudoRet = False"
| "plain _ = True"

definition exec_plain :: "host \<Rightarrow> image \<Rightarrow> rinst \<Rightarrow> vm \<Rightarrow> vm result" where
  "exec_plain h im i s = exec h im i False 0 s"

definition exec_seq :: "host \<Rightarrow> image \<Rightarrow> rinst list \<Rightarrow> vm \<Rightarrow> vm result" where
  "exec_seq h im is = rfold (exec_plain h im) is"

lemma exec_seq_Nil [simp]: "exec_seq h im [] s = Inr s"
  by (simp add: exec_seq_def)

lemma exec_seq_Nil_fun [simp]: "exec_seq h im [] = Inr"
  by (rule ext) simp

lemma exec_seq_Cons: "exec_seq h im (i # is) s = rbind (exec_plain h im i s) (exec_seq h im is)"
  by (simp add: exec_seq_def)

lemma exec_seq_append: "exec_seq h im (is @ js) s = rbind (exec_seq h im is s) (exec_seq h im js)"
  by (simp add: exec_seq_def rfold_append)

section \<open>Reading the state after an update\<close>

lemma reg_set_reg [simp]: "reg (set_reg r v s) q = (if gid q = gid r then v else reg s q)"
  by (simp add: reg_def set_reg_def)

lemma set_reg_fields [simp]:
  "memory (set_reg r v s) = memory s" "mem_size (set_reg r v s) = mem_size s"
  "pc (set_reg r v s) = pc s" "fregs (set_reg r v s) = fregs s"
  "call_stack (set_reg r v s) = call_stack s" "vm_out (set_reg r v s) = vm_out s"
  "vm_in (set_reg r v s) = vm_in s" "vm_in_ok (set_reg r v s) = vm_in_ok s"
  by (simp_all add: set_reg_def)

lemma set_reg_twice [simp]: "set_reg r v (set_reg r w s) = set_reg r v s"
  by (simp add: set_reg_def)

lemma reg_pc [simp]: "reg (s\<lparr>pc := k\<rparr>) r = reg s r" "reg (s\<lparr>memory := m\<rparr>) r = reg s r"
  by (simp_all add: reg_def)

lemma set_reg_pc: "set_reg r v (s\<lparr>pc := k\<rparr>) = (set_reg r v s)\<lparr>pc := k\<rparr>"
  by (simp add: set_reg_def)

lemma get_f_pc [simp]: "get_f (s\<lparr>pc := k\<rparr>) i = get_f s i" "get_d (s\<lparr>pc := k\<rparr>) i = get_d s i"
  by (simp_all add: get_f_def get_d_def)

lemma set_f_pc: "set_f i v (s\<lparr>pc := k\<rparr>) = (set_f i v s)\<lparr>pc := k\<rparr>"
  and set_d_pc: "set_d i w (s\<lparr>pc := k\<rparr>) = (set_d i w s)\<lparr>pc := k\<rparr>"
  by (simp_all add: set_f_def set_d_def)

section \<open>Plain instructions leave the program counter alone\<close>

definition at_pc :: "nat \<Rightarrow> vm result \<Rightarrow> vm result" where
  "at_pc k r = rbind r (\<lambda>s. Inr (s\<lparr>pc := k\<rparr>))"

lemma at_pc_simps [simp]: "at_pc k (Inl e) = Inl e" "at_pc k (Inr s) = Inr (s\<lparr>pc := k\<rparr>)"
  by (simp_all add: at_pc_def)

lemma at_pc_rbind: "at_pc k (rbind r f) = rbind r (\<lambda>x. at_pc k (f x))"
  by (simp add: at_pc_def rbind_assoc)

lemma load_bytes_pc [simp]: "load_bytes a n (s\<lparr>pc := k\<rparr>) = load_bytes a n s"
  by (simp add: load_bytes_def check_access_def)

lemma store_bytes_pc: "store_bytes a bs (s\<lparr>pc := k\<rparr>) = at_pc k (store_bytes a bs s)"
  by (simp add: store_bytes_def check_access_def)

lemma fr_pc:
  "fr_bin_s f d a b (s\<lparr>pc := k\<rparr>) = at_pc k (fr_bin_s f d a b s)"
  "fr_bin_d g d a b (s\<lparr>pc := k\<rparr>) = at_pc k (fr_bin_d g d a b s)"
  "fr_cmp_s p d a b (s\<lparr>pc := k\<rparr>) = at_pc k (fr_cmp_s p d a b s)"
  "fr_cmp_d q d a b (s\<lparr>pc := k\<rparr>) = at_pc k (fr_cmp_d q d a b s)"
  by (cases b; simp add: fr_bin_s_def fr_bin_d_def fr_cmp_s_def fr_cmp_d_def
        set_f_pc set_d_pc set_reg_pc)+

lemma exec_fr_pc: "exec_fr h op rd rs1 rs2 (s\<lparr>pc := k\<rparr>) = at_pc k (exec_fr h op rd rs1 rs2 s)"
  by (cases op) (simp_all add: fr_pc set_f_pc set_d_pc set_reg_pc)

lemma exec_i_pc:
  "op \<noteq> I_JALR \<Longrightarrow> exec_i op rd rs1 imm (s\<lparr>pc := k\<rparr>) = at_pc k (exec_i op rd rs1 imm s)"
  by (cases op)
    (simp_all add: exec_i_def store_bytes_pc at_pc_rbind set_reg_pc)

lemma exec_fi_pc: "exec_fi op rd rs1 imm (s\<lparr>pc := k\<rparr>) = at_pc k (exec_fi op rd rs1 imm s)"
  by (cases op) (simp_all add: store_bytes_pc at_pc_rbind set_f_pc set_d_pc)

lemma exec_pseudo_l_pc: "exec_pseudo_l im op rd sy (s\<lparr>pc := k\<rparr>) = at_pc k (exec_pseudo_l im op rd sy s)"
  by (cases op) (simp_all add: store_bytes_pc at_pc_rbind set_reg_pc)

lemma exec_plain_pc:
  "plain i \<Longrightarrow> exec h im i bi t (s\<lparr>pc := k\<rparr>) = at_pc k (exec_plain h im i s)"
  by (cases i)
    (simp_all add: exec_plain_def exec_r_def exec_pseudo_r_def exec_pseudo_li_def set_reg_pc
      exec_fr_pc exec_i_pc exec_fi_pc exec_pseudo_l_pc)

section \<open>Basic blocks\<close>

text \<open>
  How a run through a block ends: it falls through to the next block, jumps to a label, or returns.
  A call runs \<open>callf\<close> on the state and continues with the next instruction.
\<close>

datatype block_exit = Falls | Goes string | Returns

fun exec_block ::
  "host \<Rightarrow> image \<Rightarrow> (string \<Rightarrow> vm \<Rightarrow> vm result) \<Rightarrow> rinst list \<Rightarrow> vm \<Rightarrow> (block_exit \<times> vm) result" where
  "exec_block h im callf [] s = Inr (Falls, s)"
| "exec_block h im callf (i # is) s =
     (case i of
        InstB op rs1 rs2 l \<Rightarrow>
          if branch_taken op (reg s rs1) (reg s rs2) then Inr (Goes l, s) else exec_block h im callf is s
      | PseudoB op rs1 l \<Rightarrow>
          if pseudo_taken op (reg s rs1) then Inr (Goes l, s) else exec_block h im callf is s
      | PseudoJ op l \<Rightarrow>
          if op = P_J then Inr (Goes l, s) else rbind (callf l s) (exec_block h im callf is)
      | PseudoRet \<Rightarrow> Inr (Returns, s)
      | _ \<Rightarrow> rbind (exec_plain h im i s) (exec_block h im callf is))"

lemma exec_block_plain:
  "plain i \<Longrightarrow> exec_block h im callf (i # is) s = rbind (exec_plain h im i s) (exec_block h im callf is)"
  by (cases i) simp_all

lemma exec_block_append:
  "exec_block h im callf (is @ js) s =
     rbind (exec_block h im callf is s)
       (\<lambda>(e, s'). if e = Falls then exec_block h im callf js s' else Inr (e, s'))"
proof (induction "is" arbitrary: s)
  case Nil
  then show ?case by simp
next
  case (Cons i "is")
  show ?case
    by (cases i)
      (simp_all add: Cons.IH rbind_assoc cong: rbind_cong)
qed

text \<open>A list of plain instructions is a block that always falls through.\<close>

lemma exec_block_seq:
  "\<forall>i\<in>set is. plain i \<Longrightarrow>
     exec_block h im callf is s = rbind (exec_seq h im is s) (\<lambda>s'. Inr (Falls, s'))"
proof (induction "is" arbitrary: s)
  case (Cons i "is")
  then have "plain i" by simp
  then show ?case
    using Cons by (simp only: exec_block_plain exec_seq_Cons rbind_assoc) (simp cong: rbind_cong)
qed simp

section \<open>Blocks in the flat instruction list\<close>

fun resolved :: "(string \<Rightarrow> nat) \<Rightarrow> rinst \<Rightarrow> nat \<Rightarrow> bool" where
  "resolved lab (InstB op a b l) t = (t = lab l)"
| "resolved lab (PseudoB op a l) t = (t = lab l)"
| "resolved lab (PseudoJ op l) t = (t = lab l)"
| "resolved lab i t = True"

definition placed :: "image \<Rightarrow> (string \<Rightarrow> nat) \<Rightarrow> nat \<Rightarrow> rinst list \<Rightarrow> bool" where
  "placed im lab p is \<longleftrightarrow>
     p + length is \<le> length (flat_insts im) \<and>
     (\<forall>k<length is. fl_inst (flat_insts im ! (p + k)) = is ! k \<and>
        resolved lab (is ! k) (branch_target (flat_insts im ! (p + k))))"

lemma placed_Cons:
  assumes "placed im lab p (i # is)"
  shows "p < length (flat_insts im)" and "fl_inst (flat_insts im ! p) = i"
    and "resolved lab i (branch_target (flat_insts im ! p))"
    and "placed im lab (Suc p) is"
proof -
  have all: "fl_inst (flat_insts im ! (p + k)) = (i # is) ! k \<and>
      resolved lab ((i # is) ! k) (branch_target (flat_insts im ! (p + k)))"
    if "k < length (i # is)" for k
    using assms that unfolding placed_def by blast
  show "p < length (flat_insts im)" using assms by (simp add: placed_def)
  show "fl_inst (flat_insts im ! p) = i" and "resolved lab i (branch_target (flat_insts im ! p))"
    using all [of 0] by simp_all
  show "placed im lab (Suc p) is"
    using assms all [of "Suc k" for k] by (simp add: placed_def)
qed

text \<open>Blocks made of plain instructions, branches and jumps.\<close>

fun local_inst :: "rinst \<Rightarrow> bool" where
  "local_inst (InstB op a b l) = True"
| "local_inst (PseudoB op a l) = True"
| "local_inst (PseudoJ op l) = (op = P_J)"
| "local_inst i = plain i"

fun exit_pc :: "(string \<Rightarrow> nat) \<Rightarrow> nat \<Rightarrow> block_exit \<Rightarrow> nat" where
  "exit_pc lab p Falls = p"
| "exit_pc lab p (Goes l) = lab l"
| "exit_pc lab p Returns = 0"

lemma run_step:
  "p < length (flat_insts im) \<Longrightarrow>
     run h im (Suc left) (s\<lparr>pc := p\<rparr>) = rbind (step h im (s\<lparr>pc := p\<rparr>)) (run h im left)"
  by simp

lemma step_at:
  "step h im (s\<lparr>pc := p\<rparr>) =
     exec h im (fl_inst (flat_insts im ! p)) (is_call_builtin (flat_insts im ! p))
       (branch_target (flat_insts im ! p)) (s\<lparr>pc := Suc p\<rparr>)"
  by (simp add: step_def Let_def)

text \<open>
  Where the flat instruction list holds a block of local instructions with its labels resolved, the
  execution loop needs at most one step per instruction to go from the start of the block to the place
  its exit names, in the state the block semantics computes.
\<close>

lemma exec_block_run:
  assumes "placed im lab p is" and "\<forall>i\<in>set is. local_inst i"
    and "exec_block h im callf is s = Inr (e, s')"
  shows "\<exists>n\<le>length is. \<forall>left. run h im (n + left) (s\<lparr>pc := p\<rparr>) =
           run h im left (s'\<lparr>pc := exit_pc lab (p + length is) e\<rparr>)"
  using assms
proof (induction "is" arbitrary: p s)
  case Nil
  then show ?case by auto
next
  case (Cons i "is")
  note here = placed_Cons [OF Cons.prems(1)]
  have loc: "local_inst i" "\<forall>i\<in>set is. local_inst i" using Cons.prems(2) by simp_all
  have on: "\<exists>n\<le>length (i # is). \<forall>left. run h im (n + left) (s\<lparr>pc := p\<rparr>) =
           run h im left (s'\<lparr>pc := exit_pc lab (p + length (i # is)) e\<rparr>)"
    if "step h im (s\<lparr>pc := p\<rparr>) = Inr (t\<lparr>pc := Suc p\<rparr>)" and "exec_block h im callf is t = Inr (e, s')" for t
  proof -
    note went = that
    obtain n where "n \<le> length is"
      and "\<forall>left. run h im (n + left) (t\<lparr>pc := Suc p\<rparr>) =
           run h im left (s'\<lparr>pc := exit_pc lab (Suc p + length is) e\<rparr>)"
      using Cons.IH [OF here(4) loc(2) went(2)] by blast
    then show ?thesis
      using went(1) here(1) by (intro exI [of _ "Suc n"]) (simp add: run_step)
  qed
  have out: "\<exists>n\<le>length (i # is). \<forall>left. run h im (n + left) (s\<lparr>pc := p\<rparr>) =
           run h im left (s'\<lparr>pc := exit_pc lab (p + length (i # is)) e\<rparr>)"
    if "step h im (s\<lparr>pc := p\<rparr>) = Inr (s'\<lparr>pc := exit_pc lab (p + length (i # is)) e\<rparr>)"
    using that here(1) by (intro exI [of _ 1]) (simp add: run_step)
  show ?case
  proof (cases "plain i")
    case True
    then obtain t where t: "exec_plain h im i s = Inr t" "exec_block h im callf is t = Inr (e, s')"
      using Cons.prems(3) [unfolded exec_block_plain [OF True]] by (auto simp only: rbind_eq_Inr)
    then show ?thesis
      using on [of t] True by (simp add: step_at here(2) exec_plain_pc)
  next
    case False
    with loc(1) consider (b) op a b l where "i = InstB op a b l" | (pb) op a l where "i = PseudoB op a l"
      | (j) l where "i = PseudoJ P_J l"
      by (cases i) auto
    then show ?thesis
    proof cases
      case b
      then show ?thesis
        using Cons.prems(3) on [of s] out here(3) b
        by (auto simp: step_at here(2) exec_b_def split: if_splits)
    next
      case pb
      then show ?thesis
        using Cons.prems(3) on [of s] out here(3) pb
        by (auto simp: step_at here(2) exec_pseudo_b_def split: if_splits)
    next
      case j
      then show ?thesis
        using Cons.prems(3) out here(3) j by (auto simp: step_at here(2))
    qed
  qed
qed

section \<open>Instances\<close>

theorem exec_block_run_witness:
  "\<forall>h s. \<exists>n\<le>2. \<forall>left.
     run h \<lparr>flat_insts = [\<lparr>fl_inst = PseudoLI (GReg 10) 1, is_call_builtin = False, branch_target = 0\<rparr>,
                          \<lparr>fl_inst = PseudoJ P_J ''l'', is_call_builtin = False, branch_target = 9\<rparr>],
            label_map = Map.empty, symbol_map = Map.empty\<rparr> (n + left) (s\<lparr>pc := 0\<rparr>) =
     run h \<lparr>flat_insts = [\<lparr>fl_inst = PseudoLI (GReg 10) 1, is_call_builtin = False, branch_target = 0\<rparr>,
                          \<lparr>fl_inst = PseudoJ P_J ''l'', is_call_builtin = False, branch_target = 9\<rparr>],
            label_map = Map.empty, symbol_map = Map.empty\<rparr> left ((set_reg (GReg 10) 1 s)\<lparr>pc := 9\<rparr>)"
proof (intro allI)
  fix h :: host and s :: vm
  let ?is = "[PseudoLI (GReg 10) 1, PseudoJ P_J ''l'']"
  let ?im = "\<lparr>flat_insts = [\<lparr>fl_inst = PseudoLI (GReg 10) 1, is_call_builtin = False, branch_target = 0\<rparr>,
                          \<lparr>fl_inst = PseudoJ P_J ''l'', is_call_builtin = False, branch_target = 9\<rparr>],
            label_map = Map.empty, symbol_map = Map.empty\<rparr>"
  have "placed ?im (\<lambda>_. 9) 0 ?is" by (simp add: placed_def less_Suc_eq)
  moreover have "\<forall>i\<in>set ?is. local_inst i" by simp
  moreover have "exec_block h ?im (\<lambda>_. Inr) ?is s = Inr (Goes ''l'', set_reg (GReg 10) 1 s)"
    by (simp add: exec_plain_def exec_pseudo_li_def)
  ultimately show "\<exists>n\<le>2. \<forall>left. run h ?im (n + left) (s\<lparr>pc := 0\<rparr>) = run h ?im left ((set_reg (GReg 10) 1 s)\<lparr>pc := 9\<rparr>)"
    using exec_block_run [of ?im "\<lambda>_. 9" 0 ?is h "\<lambda>_. Inr" s "Goes ''l''" "set_reg (GReg 10) 1 s"]
    by (simp add: numeral_2_eq_2 del: run.simps exec_block.simps)
qed

end
