(* ===== verification/Rv64_Peephole.thy ===== *)
theory Rv64_Peephole
  imports Rv64_Block
begin

text \<open>
  The clean-up passes on the emitted instructions (\<open>backend/rv64/optim/peephole.hpp\<close>,
  \<open>label.hpp\<close>): the window framework, the elimination of a load that follows a store to the same
  address, the simplification of a comparison that feeds a branch, redundant jumps and dead labels.
  A pass returns whether it changed the code, and the code.

  The locale \<open>sound_rule\<close> states what a rule has to promise for the whole pass to keep the meaning
  of a block; it is interpreted for the redundant-load rule.
\<close>

section \<open>The window framework\<close>

type_synonym rule = "rinst list \<Rightarrow> nat \<Rightarrow> rinst list option"

text \<open>\<open>for (i = size - window; i >= 0; i--)\<close>: the first argument is \<open>i + 1\<close>.\<close>

fun peephole_loop :: "nat \<Rightarrow> rule \<Rightarrow> nat \<Rightarrow> rinst list \<Rightarrow> bool \<times> rinst list" where
  "peephole_loop w f 0 insts = (False, insts)"
| "peephole_loop w f (Suc i) insts =
     (if length insts < i + w then peephole_loop w f i insts
      else case f insts i of
             None \<Rightarrow> peephole_loop w f i insts
           | Some r \<Rightarrow> (True, snd (peephole_loop w f i (take i insts @ r @ drop (i + w) insts))))"

definition peephole_apply :: "nat \<Rightarrow> rule \<Rightarrow> rinst list \<Rightarrow> bool \<times> rinst list" where
  "peephole_apply w f insts = peephole_loop w f (Suc (length insts) - w) insts"

locale sound_rule =
  fixes w :: nat and f :: rule and sem :: "rinst list \<Rightarrow> 's \<Rightarrow> 's result"
  assumes sem_append: "sem (xs @ ys) s = rbind (sem xs s) (sem ys)"
    and rule_sound: "i + w \<le> length insts \<Longrightarrow> f insts i = Some r \<Longrightarrow>
      sem r s = sem (take w (drop i insts)) s"
begin

lemma window_sound:
  assumes "i + w \<le> length insts" and "f insts i = Some r"
  shows "sem (take i insts @ r @ drop (i + w) insts) s = sem insts s"
proof -
  have "insts = take i insts @ take w (drop i insts) @ drop (i + w) insts"
    by (metis append_take_drop_id add.commute drop_drop)
  then have "sem insts s =
      sem (take i insts @ take w (drop i insts) @ drop (i + w) insts) s" by simp
  then show ?thesis
    using rule_sound [OF assms] by (simp add: sem_append cong: rbind_cong)
qed

lemma loop_sound: "sem (snd (peephole_loop w f i insts)) s = sem insts s"
  by (induction i arbitrary: insts) (auto simp: window_sound split: option.splits)

lemma apply_sound: "sem (snd (peephole_apply w f insts)) s = sem insts s"
  by (simp add: peephole_apply_def loop_sound)

end

text \<open>A pass that reports no change returns the code it was given.\<close>

lemma peephole_loop_unchanged: "\<not> fst (peephole_loop w f i insts) \<Longrightarrow> snd (peephole_loop w f i insts) = insts"
  by (induction w f i insts rule: peephole_loop.induct) (auto split: option.splits if_splits)

section \<open>RedundantLoadElimination\<close>

fun store_width :: "op_i \<Rightarrow> nat" where
  "store_width I_SD = 8"
| "store_width I_SW = 4"
| "store_width I_SH = 2"
| "store_width I_SB = 1"
| "store_width _ = 0"

fun load_width :: "op_i \<Rightarrow> nat" where
  "load_width I_LD = 8"
| "load_width I_LW = 4"
| "load_width I_LWU = 4"
| "load_width I_LH = 2"
| "load_width I_LHU = 2"
| "load_width I_LB = 1"
| "load_width I_LBU = 1"
| "load_width _ = 0"

fun gen_extract :: "op_i \<Rightarrow> general_reg \<Rightarrow> general_reg \<Rightarrow> rinst list" where
  "gen_extract I_LD dst src = [InstI I_ADDI dst src 0]"
| "gen_extract I_LW dst src = [InstI I_ADDIW dst src 0]"
| "gen_extract I_LWU dst src = [InstI I_SLLI dst src 32, InstI I_SRLI dst dst 32]"
| "gen_extract I_LH dst src = [InstI I_SLLI dst src 48, InstI I_SRAI dst dst 48]"
| "gen_extract I_LHU dst src = [InstI I_SLLI dst src 48, InstI I_SRLI dst dst 48]"
| "gen_extract I_LB dst src = [InstI I_SLLI dst src 56, InstI I_SRAI dst dst 56]"
| "gen_extract I_LBU dst src = [InstI I_ANDI dst src 0xff]"
| "gen_extract _ dst src = []"

definition load_rule :: rule where
  "load_rule ii i =
     (case (ii ! i, ii ! (i + 1)) of
        (InstI sop srd srs1 simm, InstI lop lrd lrs1 limm) \<Rightarrow>
          (let sw = store_width sop; lw = load_width lop in
           if sw = 0 \<or> lw = 0 then None
           else if sw < lw then None
           else if gid srs1 \<noteq> gid lrs1 \<or> simm \<noteq> limm then None
           else Some (InstI sop srd srs1 simm # gen_extract lop lrd srd))
      | _ \<Rightarrow> None)"

definition RedundantLoadElimination_block :: "rinst list \<Rightarrow> bool \<times> rinst list" where
  "RedundantLoadElimination_block insts = peephole_apply 2 load_rule insts"

text \<open>Passes work block by block through every function.\<close>

definition map_blocks ::
  "(rinst list \<Rightarrow> bool \<times> rinst list) \<Rightarrow> rmodule \<Rightarrow> bool \<times> rmodule" where
  "map_blocks p md =
     ((\<exists>fn\<in>set (m_funcs md). \<exists>b\<in>set (rf_blocks fn). fst (p (rb_insts b))),
      md\<lparr>m_funcs := map (\<lambda>fn. fn\<lparr>rf_blocks :=
             map (\<lambda>b. b\<lparr>rb_insts := snd (p (rb_insts b))\<rparr>) (rf_blocks fn)\<rparr>) (m_funcs md)\<rparr>)"

definition RedundantLoadElimination :: "rmodule \<Rightarrow> bool \<times> rmodule" where
  "RedundantLoadElimination md = map_blocks RedundantLoadElimination_block md"

subsection \<open>What a load reads back\<close>

lemma bytes_word_word_bytes:
  fixes w :: "'a::len word"
  assumes "LENGTH('b::len) = 8 * n"
  shows "(bytes_word (word_bytes n w) :: 'b word) = ucast w"
proof (rule bit_word_eqI)
  fix i assume i: "i < LENGTH('b)"
  then have "i div 8 < n" using assms by auto
  moreover have "bit (ucast (drop_bit (8 * (i div 8)) w) :: u8) (i mod 8) = bit w i"
    by (simp add: bit_ucast_iff bit_drop_bit_eq)
  ultimately show "bit (bytes_word (word_bytes n w) :: 'b word) i = bit (ucast w :: 'b word) i"
    using i by (simp add: bit_bytes_word word_bytes_def bit_ucast_iff)
qed

lemma write_bytes_read:
  "m \<le> length bs \<Longrightarrow> map (\<lambda>i. write_bytes a bs g (a + i)) [0..<m] = take m bs"
  by (rule nth_equalityI) (simp_all add: write_bytes_def)

lemma take_word_bytes: "m \<le> n \<Longrightarrow> take m (word_bytes n w) = word_bytes m w"
  by (simp add: word_bytes_def take_map)

lemma check_access_shorter:
  assumes "check_access a n s = Inr ()" and "m \<le> n"
  shows "check_access a m s = Inr ()"
proof -
  have "unat a + n \<le> mem_size s"
    using assms(1) by (simp add: check_access_def split: if_splits)
  moreover have "unat (a + of_nat m) \<le> unat a + m"
  proof -
    have "unat (of_nat m :: u64) \<le> m" by (simp add: unsigned_of_nat)
    moreover have "unat (a + of_nat m) \<le> unat a + unat (of_nat m :: u64)"
      by (simp only: unat_word_ariths(1) mod_less_eq_dividend)
    ultimately show ?thesis by linarith
  qed
  ultimately show ?thesis using assms(2) by (simp add: check_access_def)
qed

lemma load_after_store:
  assumes "store_bytes a (word_bytes n w) s = Inr t" and "m \<le> n"
  shows "load_bytes a m t = Inr (word_bytes m w)"
proof -
  have ok: "check_access a n s = Inr ()"
    and t: "t = s\<lparr>memory := write_bytes (unat a) (word_bytes n w) (memory s)\<rparr>"
    using assms(1) by (auto simp: store_bytes_def rbind_eq_Inr)
  have "check_access a m t = Inr ()"
    using check_access_shorter [OF ok assms(2)] by (simp add: check_access_def t split: if_splits)
  then show ?thesis
    using assms(2) by (simp add: load_bytes_def t write_bytes_read take_word_bytes)
qed

subsection \<open>The replacement computes the loaded value\<close>

lemma extend_bits:
  fixes w :: u64
  shows "drop_bit 32 (push_bit 32 w) = zext32 (low32 w)"
    and "signed_drop_bit 48 (push_bit 48 w) = scast (ucast w :: u16)"
    and "drop_bit 48 (push_bit 48 w) = ucast (ucast w :: u16)"
    and "signed_drop_bit 56 (push_bit 56 w) = scast (ucast w :: u8)"
    and "and w 0xff = ucast (ucast w :: u8)"
proof -
  have mask: "(0xff :: u64) = mask 8" by (simp add: mask_eq_exp_minus_1)
  show "drop_bit 32 (push_bit 32 w) = zext32 (low32 w)"
    "drop_bit 48 (push_bit 48 w) = ucast (ucast w :: u16)"
    by (rule bit_word_eqI; auto simp: bit_simps)+
  show "and w 0xff = ucast (ucast w :: u8)"
    unfolding mask by (rule bit_word_eqI) (auto simp: bit_simps)
  show "signed_drop_bit 48 (push_bit 48 w) = scast (ucast w :: u16)"
  proof (rule bit_word_eqI)
    fix n
    show "bit (signed_drop_bit 48 (push_bit 48 w)) n = bit (scast (ucast w :: u16) :: u64) n"
      by (cases "n = 15") (auto simp: bit_simps min_def not_less)
  qed
  show "signed_drop_bit 56 (push_bit 56 w) = scast (ucast w :: u8)"
  proof (rule bit_word_eqI)
    fix n
    show "bit (signed_drop_bit 56 (push_bit 56 w)) n = bit (scast (ucast w :: u8) :: u64) n"
      by (cases "n = 7") (auto simp: bit_simps min_def not_less)
  qed
qed

lemma load_i_width: "load_i op = Some (n, ext) \<Longrightarrow> load_width op = n"
  by (cases op) auto

lemma load_width_pos: "load_width op \<noteq> 0 \<Longrightarrow> \<exists>ext. load_i op = Some (load_width op, ext) \<and> alu_i op a imm = None"
  by (cases op) auto

lemma store_width_pos:
  "store_width op \<noteq> 0 \<Longrightarrow> store_i op = Some (store_width op) \<and> load_i op = None \<and> alu_i op a imm = None"
  by (cases op) auto

lemma exec_store:
  "store_width op \<noteq> 0 \<Longrightarrow>
     exec_plain h im (InstI op rd rs1 imm) s =
       store_bytes (reg s rs1 + sext32 imm) (word_bytes (store_width op) (reg s rd)) s"
  using store_width_pos [of op "reg s rs1" imm] by (simp add: exec_plain_def exec_i_def)

lemma store_keeps_regs: "store_bytes a bs s = Inr t \<Longrightarrow> reg t r = reg s r"
  by (auto simp: store_bytes_def rbind_eq_Inr)

lemma gen_extract_loads:
  assumes "load_width op \<noteq> 0"
    and "load_bytes (reg s rs1 + sext32 imm) (load_width op) s = Inr (word_bytes (load_width op) (reg s src))"
  shows "exec_seq h im (gen_extract op rd src) s = exec_plain h im (InstI op rd rs1 imm) s"
  using assms
  by (cases op)
    (simp_all add: exec_seq_Cons exec_plain_def exec_i_def bytes_word_word_bytes extend_bits
      imm_shamt6_def)

lemma load_rule_sound:
  assumes "load_rule ii i = Some r"
  shows "exec_seq h im r s = exec_seq h im [ii ! i, ii ! (i + 1)] s"
proof -
  obtain sop srd srs1 simm lop lrd lrs1 where ops:
    "ii ! i = InstI sop srd srs1 simm" "ii ! (i + 1) = InstI lop lrd lrs1 simm"
    "store_width sop \<noteq> 0" "load_width lop \<noteq> 0" "load_width lop \<le> store_width sop"
    "gid srs1 = gid lrs1" "r = InstI sop srd srs1 simm # gen_extract lop lrd srd"
    using assms
    by (auto simp: load_rule_def Let_def split: rinst.splits if_splits)
  show ?thesis
  proof (cases "exec_plain h im (InstI sop srd srs1 simm) s")
    case (Inl e)
    then show ?thesis by (simp add: ops exec_seq_Cons)
  next
    case (Inr t)
    then have st: "store_bytes (reg s srs1 + sext32 simm) (word_bytes (store_width sop) (reg s srd)) s = Inr t"
      by (simp add: exec_store ops(3))
    have "load_bytes (reg t lrs1 + sext32 simm) (load_width lop) t =
        Inr (word_bytes (load_width lop) (reg t srd))"
      using load_after_store [OF st ops(5)] ops(6) store_keeps_regs [OF st]
      by (metis general_reg.expand)
    then show ?thesis
      using gen_extract_loads [OF ops(4)] Inr by (simp add: ops [simplified] exec_seq_Cons)
  qed
qed

subsection \<open>The pass keeps the meaning of every block\<close>

lemma gen_extract_plain: "\<forall>i\<in>set (gen_extract op dst src). plain i"
  by (cases op) simp_all

lemma take_two: "i + 2 \<le> length xs \<Longrightarrow> take 2 (drop i xs) = [xs ! i, xs ! (i + 1)]"
  by (rule nth_equalityI) (auto simp: less_Suc_eq numeral_2_eq_2)

lemma load_rule_plain:
  assumes "load_rule ii i = Some r"
  shows "\<forall>j\<in>set r. plain j" and "\<forall>j\<in>set [ii ! i, ii ! (i + 1)]. plain j"
proof -
  have width: "store_width op \<noteq> 0 \<or> load_width op \<noteq> 0 \<Longrightarrow> op \<noteq> I_JALR" for op
    by auto
  then show "\<forall>j\<in>set r. plain j" and "\<forall>j\<in>set [ii ! i, ii ! (i + 1)]. plain j"
    using assms gen_extract_plain
    by (auto simp: load_rule_def Let_def split: rinst.splits if_splits)
qed

text \<open>A block as a transformer of a state that may already have left it.\<close>

definition block_sem ::
  "host \<Rightarrow> image \<Rightarrow> (string \<Rightarrow> vm \<Rightarrow> vm result) \<Rightarrow> rinst list \<Rightarrow> block_exit \<times> vm \<Rightarrow> (block_exit \<times> vm) result" where
  "block_sem h im callf is st =
     (if fst st = Falls then exec_block h im callf is (snd st) else Inr st)"

lemma block_sem_append:
  "block_sem h im callf (xs @ ys) st = rbind (block_sem h im callf xs st) (block_sem h im callf ys)"
  by (cases "exec_block h im callf xs (snd st)")
    (auto simp: block_sem_def exec_block_append split: prod.splits)

interpretation rle: sound_rule 2 load_rule "block_sem h im callf" for h im callf
proof
  fix xs ys :: "rinst list" and st
  show "block_sem h im callf (xs @ ys) st = rbind (block_sem h im callf xs st) (block_sem h im callf ys)"
    by (rule block_sem_append)
next
  fix i insts r st
  assume fit: "i + 2 \<le> length insts" and hit: "load_rule insts i = Some r"
  note pl = load_rule_plain [OF hit]
  show "block_sem h im callf r st = block_sem h im callf (take 2 (drop i insts)) st"
    unfolding take_two [OF fit] block_sem_def
    by (simp only: exec_block_seq [OF pl(1)] exec_block_seq [OF pl(2)] load_rule_sound [OF hit])
qed

text \<open>
  C8: redundant-load elimination keeps the meaning of a block: the rewritten instructions reach
  the same state by the same exit, or stop with the same error, from every state.
\<close>

lemma RedundantLoadElimination_block_sound:
  "exec_block h im callf (snd (RedundantLoadElimination_block insts)) s = exec_block h im callf insts s"
  using rle.apply_sound [of h im callf insts "(Falls, s)"]
  by (simp add: RedundantLoadElimination_block_def block_sem_def)

section \<open>BranchCondSimplification\<close>

fun cmp_rd :: "rinst \<Rightarrow> nat option" where
  "cmp_rd (InstR op rd rs1 rs2) = (if op = R_SLT \<or> op = R_SLTU then Some (gid rd) else None)"
| "cmp_rd (InstI op rd rs1 imm) = (if op = I_SLTI \<or> op = I_SLTIU then Some (gid rd) else None)"
| "cmp_rd (PseudoR op rd rs1) = (if op = P_SEQZ \<or> op = P_SNEZ then Some (gid rd) else None)"
| "cmp_rd _ = None"

definition flip :: "pseudo_b_op \<Rightarrow> pseudo_b_op" where
  "flip op = (if op = P_BNEZ then P_BEQZ else P_BNEZ)"

text \<open>\<open>cmp x; xori x, x, 1; bnez x\<close> becomes \<open>cmp x; beqz x\<close>.\<close>

definition rule1 :: rule where
  "rule1 ii i =
     (case (ii ! (i + 1), ii ! (i + 2)) of
        (InstI op rd rs1 imm, PseudoB bop brs l) \<Rightarrow>
          (if op \<noteq> I_XORI \<or> imm \<noteq> 1 \<or> gid rd \<noteq> gid rs1 then None
           else case cmp_rd (ii ! i) of
                  None \<Rightarrow> None
                | Some r \<Rightarrow>
                    if r \<noteq> gid rd \<or> r \<noteq> gid brs then None
                    else Some [ii ! i, PseudoB (flip bop) brs l])
      | _ \<Rightarrow> None)"

text \<open>\<open>slt x, y, z; bnez x\<close> becomes \<open>blt y, z\<close>.\<close>

definition rule2 :: rule where
  "rule2 ii i =
     (case (ii ! i, ii ! (i + 1)) of
        (InstR op rd rs1 rs2, PseudoB bop brs l) \<Rightarrow>
          (if op \<noteq> R_SLT \<and> op \<noteq> R_SLTU then None
           else if gid rd \<noteq> gid brs then None
           else Some [InstB (if op = R_SLT
                             then (if bop = P_BNEZ then RB_BLT else RB_BGE)
                             else (if bop = P_BNEZ then RB_BLTU else RB_BGEU)) rs1 rs2 l])
      | _ \<Rightarrow> None)"

text \<open>\<open>seqz x, y; bnez x\<close> becomes \<open>beqz y\<close>.\<close>

definition rule3 :: rule where
  "rule3 ii i =
     (case (ii ! i, ii ! (i + 1)) of
        (PseudoR op rd rs1, PseudoB bop brs l) \<Rightarrow>
          (if op \<noteq> P_SEQZ \<and> op \<noteq> P_SNEZ then None
           else if gid rd \<noteq> gid brs then None
           else Some [PseudoB (if (op = P_SEQZ) = (bop = P_BNEZ) then P_BEQZ else P_BNEZ) rs1 l])
      | _ \<Rightarrow> None)"

definition BranchCondSimplification_block :: "rinst list \<Rightarrow> bool \<times> rinst list" where
  "BranchCondSimplification_block insts =
     (let (c1, i1) = peephole_apply 3 rule1 insts;
          (c2, i2) = peephole_apply 2 rule2 i1;
          (c3, i3) = peephole_apply 2 rule3 i2
      in (c1 \<or> c2 \<or> c3, i3))"

definition BranchCondSimplification :: "rmodule \<Rightarrow> bool \<times> rmodule" where
  "BranchCondSimplification md = map_blocks BranchCondSimplification_block md"

text \<open>Two states that agree on everything except general register \<open>x\<close>.\<close>

definition agree_off :: "nat \<Rightarrow> vm \<Rightarrow> vm \<Rightarrow> bool" where
  "agree_off x s t \<longleftrightarrow> (\<exists>v. t = set_reg (GReg x) v s)"

definition same_exit_off :: "nat \<Rightarrow> (block_exit \<times> vm) result \<Rightarrow> (block_exit \<times> vm) result \<Rightarrow> bool" where
  "same_exit_off x r q \<longleftrightarrow>
     (\<exists>e s t. r = Inr (e, s) \<and> q = Inr (e, t) \<and> agree_off x s t)"

lemma set_reg_self [simp]: "set_reg (GReg (gid r)) v s = set_reg r v s"
  by (simp add: set_reg_def)

lemma set_reg_gid: "gid q = gid r \<Longrightarrow> set_reg q v s = set_reg r v s"
  by (simp add: set_reg_def)

lemma agree_off_set: "gid r = x \<Longrightarrow> agree_off x (set_reg r v s) s"
  and agree_off_refl: "agree_off x s s"
  and agree_off_sets: "gid r = x \<Longrightarrow> gid q = x \<Longrightarrow> agree_off x (set_reg r v s) (set_reg q w s)"
proof -
  show "agree_off x s s" unfolding agree_off_def
    by (intro exI [of _ "regs s x"]) (simp add: set_reg_def)
  show "gid r = x \<Longrightarrow> agree_off x (set_reg r v s) s" unfolding agree_off_def
    by (intro exI [of _ "regs s x"]) (simp add: set_reg_def)
  show "gid r = x \<Longrightarrow> gid q = x \<Longrightarrow> agree_off x (set_reg r v s) (set_reg q w s)"
    unfolding agree_off_def by (intro exI [of _ w]) (simp add: set_reg_def)
qed

text \<open>A comparison puts 0 or 1 into its register.\<close>

lemma exec_cmp:
  "cmp_rd i = Some x \<Longrightarrow> \<exists>b. \<forall>h im. exec_plain h im i s = Inr (set_reg (GReg x) (bool_word b) s)"
  by (cases i) (auto simp: exec_plain_def exec_r_def exec_i_def exec_pseudo_r_def split: if_splits)

lemma cmp_rd_plain: "cmp_rd i = Some x \<Longrightarrow> plain i"
  by (cases i) (auto split: if_splits)

lemma bool_word_zero [simp]: "bool_word b = 0 \<longleftrightarrow> \<not> b" "bool_word b \<noteq> 0 \<longleftrightarrow> b"
  by (simp_all add: bool_word_def)

lemma xor_bool_word: "xor (bool_word b) 1 = bool_word (\<not> b)"
  by (simp add: bool_word_def)

lemma pseudo_taken_flip: "pseudo_taken (flip op) (bool_word b) = pseudo_taken op (bool_word (\<not> b))"
  by (cases op) (simp_all add: flip_def)

text \<open>
  C17: the first rule of the branch simplification takes the same branch. The shortened sequence
  leaves by the same exit, and the states differ at most in the register of the comparison.
\<close>

lemma rule1_sound:
  assumes "rule1 ii i = Some r"
  shows "\<exists>x. cmp_rd (ii ! i) = Some x \<and>
    same_exit_off x (exec_block h im callf [ii ! i, ii ! (i + 1), ii ! (i + 2)] s)
      (exec_block h im callf r s)"
proof -
  obtain x rd rs1 bop brs l where ops: "cmp_rd (ii ! i) = Some x" "ii ! (i + 1) = InstI I_XORI rd rs1 1"
    "ii ! (i + 2) = PseudoB bop brs l" "gid rd = x" "gid rs1 = x" "gid brs = x"
    "r = [ii ! i, PseudoB (flip bop) brs l]"
    using assms
    by (auto simp: rule1_def split: rinst.splits if_splits option.splits)
  obtain b where b: "\<And>h im. exec_plain h im (ii ! i) s = Inr (set_reg (GReg x) (bool_word b) s)"
    using exec_cmp [OF ops(1)] by blast
  have xori: "exec_plain h im (InstI I_XORI rd rs1 1) (set_reg (GReg x) (bool_word b) s) =
      Inr (set_reg (GReg x) (bool_word (\<not> b)) s)" for h im
    using ops(4,5) by (simp add: exec_plain_def exec_i_def xor_bool_word set_reg_gid [of rd "GReg x"])
  have first: "exec_block h im callf (ii ! i # rest) s =
      exec_block h im callf rest (set_reg (GReg x) (bool_word b) s)" for rest
    by (simp only: exec_block_plain [OF cmp_rd_plain [OF ops(1)]] b rbind.simps)
  show ?thesis
    unfolding ops(2,3,7) first
    using ops(1,4,5,6)
    by (simp add: xori same_exit_off_def pseudo_taken_flip agree_off_sets)
qed

text \<open>
  C18: the second rule of the branch simplification takes the same branch: the fused
  compare-and-branch leaves by the same exit, and the states differ at most in the register of the
  dropped comparison.
\<close>

lemma rule2_sound:
  assumes "rule2 ii i = Some r"
  shows "\<exists>x. cmp_rd (ii ! i) = Some x \<and>
    same_exit_off x (exec_block h im callf [ii ! i, ii ! (i + 1)] s) (exec_block h im callf r s)"
proof -
  obtain op rd rs1 rs2 bop brs l where ops: "ii ! i = InstR op rd rs1 rs2"
    "ii ! (i + 1) = PseudoB bop brs l" "op = R_SLT \<or> op = R_SLTU" "gid rd = gid brs"
    "r = [InstB (if op = R_SLT
                 then (if bop = P_BNEZ then RB_BLT else RB_BGE)
                 else (if bop = P_BNEZ then RB_BLTU else RB_BGEU)) rs1 rs2 l]"
    using assms by (auto simp: rule2_def split: rinst.splits if_splits)
  show ?thesis
    using ops(3,4)
    by (cases bop)
      (auto simp: ops(1,2,5) ops(2) [simplified] same_exit_off_def exec_plain_def exec_r_def
        agree_off_set not_less word_sless_alt word_sle_eq)
qed

text \<open>
  C19: the third rule of the branch simplification takes the same branch: the branch on the tested
  register leaves by the same exit, and the states differ at most in the register of the dropped
  test.
\<close>

lemma rule3_sound:
  assumes "rule3 ii i = Some r"
  shows "\<exists>x. cmp_rd (ii ! i) = Some x \<and>
    same_exit_off x (exec_block h im callf [ii ! i, ii ! (i + 1)] s) (exec_block h im callf r s)"
proof -
  obtain op rd rs1 bop brs l where ops: "ii ! i = PseudoR op rd rs1"
    "ii ! (i + 1) = PseudoB bop brs l" "op = P_SEQZ \<or> op = P_SNEZ" "gid rd = gid brs"
    "r = [PseudoB (if (op = P_SEQZ) = (bop = P_BNEZ) then P_BEQZ else P_BNEZ) rs1 l]"
    using assms by (auto simp: rule3_def split: rinst.splits if_splits)
  show ?thesis
    using ops(3,4)
    by (cases bop)
      (auto simp: ops(1,2,5) ops(2) [simplified] same_exit_off_def exec_plain_def
        exec_pseudo_r_def agree_off_set)
qed

section \<open>Instances\<close>

theorem rule1_sound_witness:
  "\<forall>h im callf s. \<exists>x. cmp_rd (InstR R_SLT (GReg 11) (GReg 10) (GReg 12)) = Some x \<and>
    same_exit_off x
      (exec_block h im callf [InstR R_SLT (GReg 11) (GReg 10) (GReg 12), InstI I_XORI (GReg 11) (GReg 11) 1,
         PseudoB P_BNEZ (GReg 11) ''l''] s)
      (exec_block h im callf [InstR R_SLT (GReg 11) (GReg 10) (GReg 12), PseudoB P_BEQZ (GReg 11) ''l''] s)"
  using rule1_sound [of "[InstR R_SLT (GReg 11) (GReg 10) (GReg 12), InstI I_XORI (GReg 11) (GReg 11) 1,
         PseudoB P_BNEZ (GReg 11) ''l'']" 0]
  by (simp add: rule1_def flip_def eval_nat_numeral del: exec_block.simps)

theorem rule2_sound_witness:
  "\<forall>h im callf s. \<exists>x. cmp_rd (InstR R_SLT (GReg 11) (GReg 10) (GReg 12)) = Some x \<and>
    same_exit_off x
      (exec_block h im callf [InstR R_SLT (GReg 11) (GReg 10) (GReg 12), PseudoB P_BEQZ (GReg 11) ''l''] s)
      (exec_block h im callf [InstB RB_BGE (GReg 10) (GReg 12) ''l''] s)"
  using rule2_sound [of "[InstR R_SLT (GReg 11) (GReg 10) (GReg 12), PseudoB P_BEQZ (GReg 11) ''l'']" 0]
  by (simp add: rule2_def del: exec_block.simps)

theorem rule3_sound_witness:
  "\<forall>h im callf s. \<exists>x. cmp_rd (PseudoR P_SEQZ (GReg 11) (GReg 10)) = Some x \<and>
    same_exit_off x
      (exec_block h im callf [PseudoR P_SEQZ (GReg 11) (GReg 10), PseudoB P_BNEZ (GReg 11) ''l''] s)
      (exec_block h im callf [PseudoB P_BEQZ (GReg 10) ''l''] s)"
  using rule3_sound [of "[PseudoR P_SEQZ (GReg 11) (GReg 10), PseudoB P_BNEZ (GReg 11) ''l'']" 0]
  by (simp add: rule3_def del: exec_block.simps)

end
