(* ===== verification/Rv64_Labels.thy ===== *)
theory Rv64_Labels
  imports Rv64_Peephole
begin

text \<open>
  The passes on the block structure: \<open>RedundantJumpElimination\<close> (\<open>peephole.hpp\<close>) removes a jump to
  the next block, \<open>DeadLabelElimination\<close> (\<open>label.hpp\<close>) merges a block whose label nobody uses into
  the block before it. The first keeps what every block computes and where it goes; the second
  keeps the whole execution of the module on the virtual machine.
\<close>

section \<open>RedundantJumpElimination\<close>

definition jumps_to :: "string \<Rightarrow> rinst \<Rightarrow> bool" where
  "jumps_to l i = (case i of PseudoJ op t \<Rightarrow> op = P_J \<and> t = l | _ \<Rightarrow> False)"

text \<open>\<open>insts.back()\<close> of an empty block is undefined.\<close>

fun rje_blocks :: "rblock list \<Rightarrow> (bool \<times> rblock list) result" where
  "rje_blocks (b # b' # bs) =
     (if rb_insts b = [] then Inl (Undefined ''back of an empty vector'')
      else
        rbind (rje_blocks (b' # bs)) (\<lambda>(c, r).
          (let hit = jumps_to (rb_label b') (last (rb_insts b))
           in Inr (hit \<or> c, (if hit then b\<lparr>rb_insts := butlast (rb_insts b)\<rparr> else b) # r))))"
| "rje_blocks bs = Inr (False, bs)"

fun rje_funcs :: "rfunc list \<Rightarrow> (bool \<times> rfunc list) result" where
  "rje_funcs [] = Inr (False, [])"
| "rje_funcs (fn # fns) =
     rbind (rje_blocks (rf_blocks fn)) (\<lambda>(c, bs).
     rbind (rje_funcs fns) (\<lambda>(d, r). Inr (c \<or> d, fn\<lparr>rf_blocks := bs\<rparr> # r)))"

definition RedundantJumpElimination :: "rmodule \<Rightarrow> (bool \<times> rmodule) result" where
  "RedundantJumpElimination md =
     rbind (rje_funcs (m_funcs md)) (\<lambda>(c, fns). Inr (c, md\<lparr>m_funcs := fns\<rparr>))"

text \<open>Where a block goes, once falling through means jumping to the label of the next block.\<close>

definition leave_to :: "rblock list \<Rightarrow> nat \<Rightarrow> block_exit \<Rightarrow> block_exit" where
  "leave_to bs k e =
     (if e = Falls \<and> Suc k < length bs then Goes (rb_label (bs ! Suc k)) else e)"

definition block_outcome ::
  "host \<Rightarrow> image \<Rightarrow> (string \<Rightarrow> vm \<Rightarrow> vm result) \<Rightarrow> rblock list \<Rightarrow> nat \<Rightarrow> vm \<Rightarrow> (block_exit \<times> vm) result" where
  "block_outcome h im callf bs k s =
     rbind (exec_block h im callf (rb_insts (bs ! k)) s) (\<lambda>(e, t). Inr (leave_to bs k e, t))"

lemma rje_blocks_shape:
  "rje_blocks bs = Inr (c, r) \<Longrightarrow> map rb_label r = map rb_label bs"
  by (induction bs arbitrary: c r rule: rje_blocks.induct)
    (auto simp: rbind_eq_Inr Let_def split: if_splits)

lemma drop_jump_block:
  assumes "is \<noteq> []" and "jumps_to l (last is)"
  shows "rbind (exec_block h im callf (butlast is) s)
      (\<lambda>(e, t). Inr (if e = Falls then Goes l else e, t)) =
    rbind (exec_block h im callf is s) (\<lambda>(e, t). Inr (if e = Falls then Goes l else e, t))"
proof -
  have j: "last is = PseudoJ P_J l"
    using assms(2) by (auto simp: jumps_to_def split: rinst.splits)
  have "exec_block h im callf is s = exec_block h im callf (butlast is @ [PseudoJ P_J l]) s"
    using assms(1) j by (metis append_butlast_last_id)
  then show ?thesis
    by (cases "exec_block h im callf (butlast is) s")
      (auto simp: exec_block_append split: prod.splits)
qed

lemma leave_to_Suc: "leave_to (b # bs) (Suc k) = leave_to bs k"
  by (rule ext) (auto simp: leave_to_def)

lemma block_outcome_Suc:
  "block_outcome h im callf (b # bs) (Suc k) s = block_outcome h im callf bs k s"
  by (simp add: block_outcome_def leave_to_Suc)

lemma block_outcome_labels:
  assumes "map rb_label bs = map rb_label bs'" and "rb_insts (bs ! k) = rb_insts (bs' ! k)"
  shows "block_outcome h im callf bs k s = block_outcome h im callf bs' k s"
proof -
  have len: "length bs = length bs'" using assms(1) by (metis length_map)
  moreover have "Suc k < length bs \<Longrightarrow> rb_label (bs ! Suc k) = rb_label (bs' ! Suc k)"
    using assms(1) len by (metis nth_map)
  ultimately show ?thesis
    using assms(2) by (auto simp: block_outcome_def leave_to_def intro!: rbind_cong)
qed

text \<open>
  C33: redundant-jump elimination keeps where every block of a function leads: from any state the
  shortened block continues at the same label, with the fall-through resolved, in the same state
  or error. The pass of the code only drops a jump to the next block; it does not redirect jumps
  to blocks that only jump on, as the report says.
\<close>

lemma rje_blocks_outcome:
  assumes "rje_blocks bs = Inr (c, r)" and "k < length bs"
  shows "block_outcome h im callf r k s = block_outcome h im callf bs k s"
  using assms
proof (induction bs arbitrary: c r k rule: rje_blocks.induct)
  case (1 b b' bs)
  then obtain d q where q: "rje_blocks (b' # bs) = Inr (d, q)" and ne: "rb_insts b \<noteq> []"
    and r: "r = (if jumps_to (rb_label b') (last (rb_insts b))
                 then b\<lparr>rb_insts := butlast (rb_insts b)\<rparr> else b) # q"
    by (auto simp: rbind_eq_Inr Let_def split: if_splits)
  have labels: "map rb_label q = map rb_label (b' # bs)" by (rule rje_blocks_shape [OF q])
  show ?case
  proof (cases k)
    case (Suc j)
    then show ?thesis
      using "1.IH" [OF ne q, of j] "1.prems"(2) r by (simp only: block_outcome_Suc) simp
  next
    case 0
    have ex: "q \<noteq> []" "rb_label (hd q) = rb_label b'" using labels by (cases q; simp)+
    have shape: "block_outcome h im callf (x # ys) 0 s =
        rbind (exec_block h im callf (rb_insts x) s)
          (\<lambda>(e, t). Inr (if e = Falls then Goes l else e, t))"
      if "ys \<noteq> []" and "rb_label (hd ys) = l" for x ys l
      using that by (auto simp: block_outcome_def leave_to_def hd_conv_nth intro!: rbind_cong)
    show ?thesis
      unfolding 0 r using drop_jump_block [OF ne] ex shape [OF ex]
        shape [of "b' # bs" "rb_label b'"]
      by simp
  qed
qed simp_all

section \<open>DeadLabelElimination\<close>

fun inst_labels :: "rinst \<Rightarrow> string list" where
  "inst_labels (InstB op a b l) = [l]"
| "inst_labels (InstJ op a l) = [l]"
| "inst_labels (PseudoB op a l) = [l]"
| "inst_labels (PseudoJ op l) = [l]"
| "inst_labels i = []"

definition labels_in_block :: "rblock \<Rightarrow> string list" where
  "labels_in_block b = concat (map inst_labels (rb_insts b))"

definition labels_in :: "rfunc \<Rightarrow> string list" where
  "labels_in fn = concat (map labels_in_block (rf_blocks fn))"

text \<open>\<open>func.blocks[0]\<close> of a function without blocks is undefined.\<close>

fun used_labels :: "rfunc list \<Rightarrow> string list result" where
  "used_labels [] = Inr []"
| "used_labels (fn # fns) =
     (if rf_blocks fn = [] then Inl (Undefined ''blocks[0] of an empty function'')
      else rbind (used_labels fns) (\<lambda>r. Inr (labels_in fn @ rb_label (hd (rf_blocks fn)) # r)))"

definition merge_into :: "rblock \<Rightarrow> rblock \<Rightarrow> rblock" where
  "merge_into a b = a\<lparr>rb_insts := rb_insts a @ rb_insts b\<rparr>"

text \<open>The first argument after the labels is \<open>squashed_blocks\<close>.\<close>

fun squash :: "string list \<Rightarrow> rblock list \<Rightarrow> rblock list \<Rightarrow> (bool \<times> rblock list) result" where
  "squash labs acc [] = Inr (False, acc)"
| "squash labs acc (b # bs) =
     (if rb_label b \<in> set labs then squash labs (acc @ [b]) bs
      else if acc = [] then Inl (Undefined ''back of an empty vector'')
      else rbind (squash labs (butlast acc @ [merge_into (last acc) b]) bs) (\<lambda>(c, r). Inr (True, r)))"

fun squash_funcs :: "string list \<Rightarrow> rfunc list \<Rightarrow> (bool \<times> rfunc list) result" where
  "squash_funcs labs [] = Inr (False, [])"
| "squash_funcs labs (fn # fns) =
     rbind (squash labs [] (rf_blocks fn)) (\<lambda>(c, bs).
     rbind (squash_funcs labs fns) (\<lambda>(d, r). Inr (c \<or> d, fn\<lparr>rf_blocks := bs\<rparr> # r)))"

definition DeadLabelElimination :: "rmodule \<Rightarrow> (bool \<times> rmodule) result" where
  "DeadLabelElimination md =
     rbind (used_labels (m_funcs md)) (\<lambda>labs.
     rbind (squash_funcs labs (m_funcs md)) (\<lambda>(c, fns). Inr (c, md\<lparr>m_funcs := fns\<rparr>)))"

subsection \<open>Labels and instructions of a list of blocks\<close>

lemma block_insts_append: "block_insts (xs @ ys) = block_insts xs @ block_insts ys"
  by (induction xs) simp_all

lemma block_insts_concat: "block_insts (concat bss) = concat (map block_insts bss)"
  by (induction bss) (simp_all add: block_insts_append)

lemma label_blocks_append:
  "label_blocks idx (xs @ ys) m =
     label_blocks (idx + length (block_insts xs)) ys (label_blocks idx xs m)"
  by (induction xs arbitrary: idx m) (simp_all add: add.assoc)

lemma label_blocks_at: "m l = m' l \<Longrightarrow> label_blocks idx bs m l = label_blocks idx bs m' l"
proof (induction bs arbitrary: idx m m')
  case (Cons b bs)
  show ?case
    unfolding label_blocks.simps by (rule Cons.IH) (simp add: Cons.prems)
qed simp

lemma label_blocks_absent: "l \<notin> rb_label ` set bs \<Longrightarrow> label_blocks idx bs m l = m l"
  by (induction bs arbitrary: idx m) auto

lemma squash_insts:
  "squash labs acc bs = Inr (c, r) \<Longrightarrow> block_insts r = block_insts acc @ block_insts bs"
proof (induction labs acc bs arbitrary: c r rule: squash.induct)
  case (2 labs acc b bs)
  show ?case
  proof (cases "rb_label b \<in> set labs")
    case True
    then show ?thesis using 2 by (simp add: block_insts_append)
  next
    case False
    then obtain d where ne: "acc \<noteq> []"
      and d: "squash labs (butlast acc @ [merge_into (last acc) b]) bs = Inr (d, r)"
      using "2.prems" by (auto simp: rbind_eq_Inr split: if_splits)
    have "block_insts acc = block_insts (butlast acc) @ rb_insts (last acc)"
      using ne by (metis append_butlast_last_id append_Nil2 block_insts.simps block_insts_append)
    then show ?thesis
      using "2.IH"(2) [OF False ne d] by (simp add: block_insts_append merge_into_def)
  qed
qed simp

lemma squash_labels:
  assumes "squash labs acc bs = Inr (c, r)" and "l \<in> set labs"
  shows "label_blocks idx r m l = label_blocks idx (acc @ bs) m l"
  using assms
proof (induction labs acc bs arbitrary: c r rule: squash.induct)
  case (2 labs acc b bs)
  show ?case
  proof (cases "rb_label b \<in> set labs")
    case True
    then show ?thesis using 2 by simp
  next
    case False
    then obtain d where ne: "acc \<noteq> []"
      and d: "squash labs (butlast acc @ [merge_into (last acc) b]) bs = Inr (d, r)"
      using "2.prems" by (auto simp: rbind_eq_Inr split: if_splits)
    have other: "rb_label b \<noteq> l" using False "2.prems"(2) by auto
    obtain ac a where acc: "acc = ac @ [a]" using ne by (metis append_butlast_last_id)
    show ?thesis
      using "2.IH"(2) [OF False ne d "2.prems"(2)] other
      by (simp add: acc label_blocks_append merge_into_def add.assoc block_insts_append)
        (rule label_blocks_at, simp)
  qed
qed simp

subsection \<open>The whole module\<close>

lemma squash_funcs_blocks:
  assumes "squash_funcs labs fns = Inr (c, r)"
  shows "block_insts (concat (map rf_blocks r)) = block_insts (concat (map rf_blocks fns))"
    and "l \<in> set labs \<Longrightarrow>
      label_blocks idx (concat (map rf_blocks r)) m l = label_blocks idx (concat (map rf_blocks fns)) m l"
  using assms
proof (induction fns arbitrary: c r idx m)
  case (Cons fn fns)
  {
    case 1
    then show ?case
      using Cons.IH(1) by (auto simp: rbind_eq_Inr block_insts_append dest!: squash_insts)
  next
    case 2
    then obtain d bs e q where q: "squash labs [] (rf_blocks fn) = Inr (d, bs)"
      "squash_funcs labs fns = Inr (e, q)" "r = fn\<lparr>rf_blocks := bs\<rparr> # q"
      by (auto simp: rbind_eq_Inr)
    note this(3) [simp]
    have "block_insts bs = block_insts (rf_blocks fn)" using squash_insts [OF q(1)] by simp
    then show ?case
      using Cons.IH(2) [OF 2(1) q(2)] squash_labels [OF q(1) 2(1)]
      by (simp add: label_blocks_append) (rule label_blocks_at, simp)
  }
qed simp_all

lemma squash_labels_subset:
  "squash labs acc bs = Inr (c, r) \<Longrightarrow> rb_label ` set r \<subseteq> rb_label ` set acc \<union> rb_label ` set bs"
proof (induction labs acc bs arbitrary: c r rule: squash.induct)
  case (2 labs acc b bs)
  show ?case
  proof (cases "rb_label b \<in> set labs")
    case True
    then show ?thesis using 2 by auto
  next
    case False
    then obtain d where ne: "acc \<noteq> []"
      and d: "squash labs (butlast acc @ [merge_into (last acc) b]) bs = Inr (d, r)"
      using "2.prems" by (auto simp: rbind_eq_Inr split: if_splits)
    have "rb_label ` set (butlast acc @ [merge_into (last acc) b]) = rb_label ` set acc"
      using ne by (cases acc rule: rev_cases) (simp_all add: merge_into_def)
    then show ?thesis
      using "2.IH"(2) [OF False ne d] by auto
  qed
qed simp

lemma squash_funcs_labels_subset:
  "squash_funcs labs fns = Inr (c, r) \<Longrightarrow>
     rb_label ` set (concat (map rf_blocks r)) \<subseteq> rb_label ` set (concat (map rf_blocks fns))"
proof (induction fns arbitrary: c r)
  case (Cons fn fns)
  then obtain d bs e q where q: "squash labs [] (rf_blocks fn) = Inr (d, bs)"
    "squash_funcs labs fns = Inr (e, q)" "r = fn\<lparr>rf_blocks := bs\<rparr> # q"
    by (auto simp: rbind_eq_Inr)
  show ?case
    using Un_mono [OF squash_labels_subset [OF q(1)] Cons.IH [OF q(2)]] by (simp add: q(3) image_Un)
qed simp

lemma squash_total:
  "acc \<noteq> [] \<or> bs = [] \<or> rb_label (hd bs) \<in> set labs \<Longrightarrow> \<exists>p. squash labs acc bs = Inr p"
proof (induction labs acc bs rule: squash.induct)
  case (2 labs acc b bs)
  then show ?case by (cases "rb_label b \<in> set labs") (auto simp: rbind_eq_Inr)
qed (simp del: split_paired_Ex)

lemma squash_funcs_total:
  "\<forall>fn\<in>set fns. rf_blocks fn \<noteq> [] \<longrightarrow> rb_label (hd (rf_blocks fn)) \<in> set labs \<Longrightarrow>
     \<exists>p. squash_funcs labs fns = Inr p"
proof (induction fns)
  case (Cons fn fns)
  then obtain c bs where "squash labs [] (rf_blocks fn) = Inr (c, bs)"
    using squash_total [of "[]" "rf_blocks fn" labs] by auto
  then show ?case using Cons by (auto simp: rbind_eq_Inr split: prod.splits)
qed (simp del: split_paired_Ex)

lemma used_labels_total:
  "\<forall>fn\<in>set fns. rf_blocks fn \<noteq> [] \<Longrightarrow> \<exists>labs. used_labels fns = Inr labs"
  by (induction fns) auto

lemma used_labels_covers:
  assumes "used_labels fns = Inr labs" and "fn \<in> set fns"
  shows "rf_blocks fn \<noteq> []" and "rb_label (hd (rf_blocks fn)) \<in> set labs"
    and "set (labels_in fn) \<subseteq> set labs"
  using assms
  by (induction fns arbitrary: labs) (auto simp: rbind_eq_Inr split: if_splits)

lemma labels_of_insts:
  "i \<in> set (block_insts (concat (map rf_blocks fns))) \<Longrightarrow> \<exists>fn\<in>set fns. set (inst_labels i) \<subseteq> set (labels_in fn)"
proof -
  assume "i \<in> set (block_insts (concat (map rf_blocks fns)))"
  moreover have "set (block_insts bs) = (\<Union>b\<in>set bs. set (rb_insts b))" for bs
    by (induction bs) simp_all
  ultimately obtain fn b where "fn \<in> set fns" "b \<in> set (rf_blocks fn)" "i \<in> set (rb_insts b)" by auto
  then show ?thesis by (intro bexI [of _ fn]) (auto simp: labels_in_def labels_in_block_def)
qed

subsection \<open>The virtual machine cannot tell the difference\<close>

lemma resolve_branch_cong:
  "\<forall>l\<in>set (inst_labels (fl_inst fi)). m l = m' l \<Longrightarrow> resolve_branch m fi = resolve_branch m' fi"
  by (cases "fl_inst fi") (simp_all add: resolve_branch_def find_label_def)

lemma resolve_branches_cong:
  "\<forall>fi\<in>set fis. \<forall>l\<in>set (inst_labels (fl_inst fi)). m l = m' l \<Longrightarrow>
     resolve_branches m fis = resolve_branches m' fis"
proof (induction fis)
  case (Cons fi fis)
  then have "resolve_branch m fi = resolve_branch m' fi" by (intro resolve_branch_cong) simp
  then show ?case using Cons by simp
qed simp

lemma exec_image_cong:
  assumes "flat_insts im = flat_insts im'" and "symbol_map im = symbol_map im'"
  shows "exec h im i bi t s = exec h im' i bi t s"
proof (cases i)
  case (PseudoL op rd sy)
  then show ?thesis using assms by (cases op) (simp_all add: symbol_addr_def)
qed (simp_all add: exec_pseudo_ret_def assms split: list.split)

lemma run_image_cong:
  assumes "flat_insts im = flat_insts im'" and "symbol_map im = symbol_map im'"
  shows "run h im n s = run h im' n s"
  by (induction n arbitrary: s)
    (simp_all add: step_def Let_def assms(1) exec_image_cong [OF assms] cong: rbind_cong)

lemma execute_cong:
  assumes "block_insts (module_blocks md') = block_insts (module_blocks md)"
    and "\<forall>i\<in>set (block_insts (module_blocks md)). \<forall>l\<in>set (inst_labels i).
      label_blocks 0 (module_blocks md') Map.empty l = label_blocks 0 (module_blocks md) Map.empty l"
    and "label_blocks 0 (module_blocks md') Map.empty ''main'' =
      label_blocks 0 (module_blocks md) Map.empty ''main''"
    and "m_globals md' = m_globals md" and "m_literals md' = m_literals md"
  shows "execute h md' inp ok out = execute h md inp ok out"
proof -
  let ?flat = "map (\<lambda>i. \<lparr>fl_inst = i, is_call_builtin = False, branch_target = 0\<rparr>)
    (block_insts (module_blocks md))"
  have "resolve_branches (label_blocks 0 (module_blocks md') Map.empty) ?flat =
      resolve_branches (label_blocks 0 (module_blocks md) Map.empty) ?flat"
    by (rule resolve_branches_cong) (use assms(2) in auto)
  moreover have "place_globals md' = place_globals md"
    by (rule ext) (simp add: place_globals_def assms(4,5))
  moreover have
    "run h \<lparr>flat_insts = f, label_map = label_blocks 0 (module_blocks md') Map.empty, symbol_map = y\<rparr> n s =
     run h \<lparr>flat_insts = f, label_map = label_blocks 0 (module_blocks md) Map.empty, symbol_map = y\<rparr> n s"
    for f y n s
    by (rule run_image_cong) simp_all
  ultimately show ?thesis
    unfolding execute_def build_flat_insts_def assms(1) assms(3)
    by (simp add: assms(3) Let_def cong: option.case_cong)
qed

definition main_only_entry :: "rmodule \<Rightarrow> bool" where
  "main_only_entry md \<longleftrightarrow>
     (\<forall>fn\<in>set (m_funcs md). \<forall>b\<in>set (tl (rf_blocks fn)). rb_label b \<noteq> ''main'')"

text \<open>
  C7: dead-label elimination does not change the program. On a module without empty functions
  whose main label is a function entry the pass succeeds, and executing its result gives the same
  exit value, output, final state or error as executing the module.
\<close>

lemma DeadLabelElimination_execute:
  assumes blocks: "\<forall>fn\<in>set (m_funcs md). rf_blocks fn \<noteq> []" and main: "main_only_entry md"
  shows "\<exists>c md'. DeadLabelElimination md = Inr (c, md') \<and>
    (\<forall>h inp ok out. execute h md' inp ok out = execute h md inp ok out)"
proof -
  obtain labs where labs: "used_labels (m_funcs md) = Inr labs"
    using used_labels_total [OF blocks] by blast
  note cov = used_labels_covers [OF labs]
  obtain c r where r: "squash_funcs labs (m_funcs md) = Inr (c, r)"
    using squash_funcs_total [of "m_funcs md" labs] cov(2) by auto
  let ?md' = "md\<lparr>m_funcs := r\<rparr>"
  have same: "label_blocks 0 (module_blocks ?md') Map.empty l = label_blocks 0 (module_blocks md) Map.empty l"
    if "l \<in> set labs" for l
    using squash_funcs_blocks(2) [OF r that] by (simp add: module_blocks_def)
  have "label_blocks 0 (module_blocks ?md') Map.empty ''main'' =
      label_blocks 0 (module_blocks md) Map.empty ''main''"
  proof (cases "''main'' \<in> set labs")
    case False
    have "rb_label b \<noteq> ''main''" if "fn \<in> set (m_funcs md)" "b \<in> set (rf_blocks fn)" for fn b
    proof (cases "b = hd (rf_blocks fn)")
      case True
      then show ?thesis using cov(2) [OF that(1)] False by auto
    next
      case other: False
      then have "b \<in> set (tl (rf_blocks fn))" using that(2) by (cases "rf_blocks fn") auto
      then show ?thesis using main that(1) by (auto simp: main_only_entry_def)
    qed
    then have "''main'' \<notin> rb_label ` set (module_blocks md)"
      unfolding module_blocks_def by force
    moreover have "rb_label ` set (module_blocks ?md') \<subseteq> rb_label ` set (module_blocks md)"
      using squash_funcs_labels_subset [OF r] by (simp add: module_blocks_def)
    ultimately have "''main'' \<notin> rb_label ` set (module_blocks md)"
      and "''main'' \<notin> rb_label ` set (module_blocks ?md')" by blast+
    then show ?thesis by (simp add: label_blocks_absent)
  qed (rule same)
  moreover have "\<forall>i\<in>set (block_insts (module_blocks md)). \<forall>l\<in>set (inst_labels i).
      label_blocks 0 (module_blocks ?md') Map.empty l = label_blocks 0 (module_blocks md) Map.empty l"
    using same cov(3) labels_of_insts by (fastforce simp: module_blocks_def)
  moreover have "block_insts (module_blocks ?md') = block_insts (module_blocks md)"
    using squash_funcs_blocks(1) [OF r] by (simp add: module_blocks_def)
  ultimately have "execute h ?md' inp ok out = execute h md inp ok out" for h inp ok out
    by (intro execute_cong) simp_all
  then show ?thesis by (auto simp: DeadLabelElimination_def labs r)
qed

section \<open>Instances\<close>

theorem DeadLabelElimination_execute_witness:
  "\<exists>c md'. DeadLabelElimination \<lparr>m_globals = [], m_funcs = [\<lparr>rf_name = ''main'', rf_frame = empty_frame,
       rf_blocks = [\<lparr>rb_label = ''main'', rb_insts = [PseudoLI (GReg 10) 7]\<rparr>,
                    \<lparr>rb_label = ''.L0'', rb_insts = [PseudoRet]\<rparr>]\<rparr>], m_literals = []\<rparr> = Inr (c, md') \<and>
    (\<forall>h inp ok out. execute h md' inp ok out =
       execute h \<lparr>m_globals = [], m_funcs = [\<lparr>rf_name = ''main'', rf_frame = empty_frame,
       rf_blocks = [\<lparr>rb_label = ''main'', rb_insts = [PseudoLI (GReg 10) 7]\<rparr>,
                    \<lparr>rb_label = ''.L0'', rb_insts = [PseudoRet]\<rparr>]\<rparr>], m_literals = []\<rparr> inp ok out)"
  by (rule DeadLabelElimination_execute) (simp_all add: main_only_entry_def)

theorem rje_blocks_outcome_witness:
  "\<forall>h im callf s.
     block_outcome h im callf [\<lparr>rb_label = ''a'', rb_insts = []\<rparr>, \<lparr>rb_label = ''b'', rb_insts = [PseudoRet]\<rparr>] 0 s =
     block_outcome h im callf
       [\<lparr>rb_label = ''a'', rb_insts = [PseudoJ P_J ''b'']\<rparr>, \<lparr>rb_label = ''b'', rb_insts = [PseudoRet]\<rparr>] 0 s"
  by (intro allI, rule rje_blocks_outcome [where c = True]) (simp_all add: jumps_to_def)

end
