(* ===== verification/Isel.thy ===== *)
theory Isel
  imports Ir_Order Rv64_Labels
begin

text \<open>
  Instruction selection (\<open>backend/rv64/isel.hpp\<close>): the stack frame, the translation of each IR
  instruction, exit, function and of the program into RV64 instructions. A function that appends to
  a block returns the list of the instructions it appends; the pool of float literals is threaded
  through. \<open>cm\<close> (\<open>regs\<close> in the source) is the colouring the register allocator produced.
\<close>

type_synonym color_map = "lv_key \<rightharpoonup> nat"
type_synonym emitted = "(rinst list \<times> float_literal list) result"

section \<open>Looking at operands\<close>

definition lookup_lv :: "color_map \<Rightarrow> left_value \<Rightarrow> nat option" where
  "lookup_lv cm lv = cm (key_of lv)"

fun lookup_reg :: "color_map \<Rightarrow> val \<Rightarrow> nat option" where
  "lookup_reg cm (Left lv) = lookup_lv cm lv"
| "lookup_reg cm (Const c) = None"

definition extract_imm :: "constexpr \<Rightarrow> u64 option" where
  "extract_imm c =
     (case cvalue c of
        V_int v \<Rightarrow> Some (sext32 v)
      | V_int64 v \<Rightarrow> Some v
      | V_bool b \<Rightarrow> Some (bool_word b)
      | _ \<Rightarrow> None)"

definition fits_i12 :: "u64 \<Rightarrow> bool" where
  "fits_i12 imm \<longleftrightarrow> - 2048 \<le> sint imm \<and> sint imm < 2048"

fun is_32bit_op :: "ty \<Rightarrow> bool" where
  "is_32bit_op (Prim p) = (p = Int32 \<or> p = Float32)"
| "is_32bit_op t = False"

fun is_fp_op :: "ty \<Rightarrow> bool" where
  "is_fp_op (Prim p) = (p = Float32 \<or> p = Float64 \<or> p = Float)"
| "is_fp_op t = False"

definition is_bool_ty :: "ty \<Rightarrow> bool" where
  "is_bool_ty t \<longleftrightarrow> t = Prim Int1"

fun resolve_alloc :: "val \<Rightarrow> alloc_id option" where
  "resolve_alloc (Left (NamedValue t (Def_alloc a))) = Some a"
| "resolve_alloc v = None"

section \<open>The stack frame\<close>

definition outgoing_arg_area :: "ir_func \<Rightarrow> nat" where
  "outgoing_arg_area fn =
     foldl max 0 (map (\<lambda>i. case i of CallI r t f args \<Rightarrow> length args * 8 | _ \<Rightarrow> 0) (func_insts fn))"

definition align_nat :: "nat \<Rightarrow> nat \<Rightarrow> nat" where
  "align_nat offset align =
     (if 1 < align then unat (align_up (of_nat offset) (of_nat align)) else offset)"

type_synonym slots = "nat \<times> (alloc_id \<rightharpoonup> nat)"

text \<open>One round over the locals: size and alignment are both \<open>abi::size\<close>.\<close>

definition place_local :: "alloc_store \<Rightarrow> alloc_id \<Rightarrow> slots \<Rightarrow> slots result" where
  "place_local A a st =
     (if \<not> al_reference (A a) then Inr st
      else rbind (abi_size (al_type (A a))) (\<lambda>sz.
             let off = align_nat (fst st) sz in Inr (off + sz, (snd st)(a \<mapsto> off))))"

definition place_param :: "alloc_store \<Rightarrow> alloc_id \<Rightarrow> slots \<Rightarrow> slots result" where
  "place_param A a st =
     (if \<not> al_reference (A a) then Inr st
      else (let off = unat (and (of_nat (fst st) + 7 :: u64) (not 7))
            in Inr (off + 8, (snd st)(a \<mapsto> off))))"

definition compute_frame :: "alloc_store \<Rightarrow> ir_func \<Rightarrow> frame_layout result" where
  "compute_frame A fn =
     rbind (rfold (place_local A) (fn_locals fn) (outgoing_arg_area fn, Map.empty)) (\<lambda>st.
       let total = align_nat (fst st) 16 in
       rbind (rfold (place_param A) (fn_params fn) (total, snd st)) (\<lambda>st'.
         Inr (empty_frame\<lparr>total_size := total, spill_offsets := snd st'\<rparr>)))"

definition block_label :: "string \<Rightarrow> string \<Rightarrow> string" where
  "block_label func_name blk_label = ''.L'' @ func_name @ ''_'' @ blk_label"

section \<open>Emission helpers\<close>

text \<open>
  \<open>gpr\<close> and \<open>fpr\<close> cut the number to a byte; the constructors reject a number from 32 on, which
  \<open>checked\<close> does for all registers of the emitted code.
\<close>

definition gpr :: "nat \<Rightarrow> general_reg" where "gpr i = GReg (i mod 256)"
definition fpr :: "nat \<Rightarrow> float_reg" where "fpr i = FReg (i mod 256)"

abbreviation reg_t0 :: general_reg where "reg_t0 \<equiv> GReg 5"
abbreviation reg_t1 :: general_reg where "reg_t1 \<equiv> GReg 6"
abbreviation reg_sp :: general_reg where "reg_sp \<equiv> GReg 2"
abbreviation reg_ft0 :: float_reg where "reg_ft0 \<equiv> FReg 5"

definition opt_list :: "any_reg option \<Rightarrow> any_reg list" where
  "opt_list r = (case r of None \<Rightarrow> [] | Some a \<Rightarrow> [a])"

fun inst_regs :: "rinst \<Rightarrow> nat list" where
  "inst_regs (InstR op a b c) = [gid a, gid b, gid c]"
| "inst_regs (InstFR op a b c) = map any_id (a # b # opt_list c)"
| "inst_regs (InstI op a b imm) = [gid a, gid b]"
| "inst_regs (InstB op a b l) = [gid a, gid b]"
| "inst_regs (InstFI op a b imm) = [fid a, gid b]"
| "inst_regs (InstJ op a l) = [gid a]"
| "inst_regs (InstU op a imm) = [gid a]"
| "inst_regs (PseudoR op a b) = [gid a, gid b]"
| "inst_regs (PseudoLI a imm) = [gid a]"
| "inst_regs (PseudoL op a l) = [gid a]"
| "inst_regs (PseudoB op a l) = [gid a]"
| "inst_regs (PseudoJ op l) = []"
| "inst_regs PseudoRet = []"

definition checked :: "emitted \<Rightarrow> emitted" where
  "checked r =
     rbind r (\<lambda>(is, lits).
       if list_all (\<lambda>i. list_all (\<lambda>k. k < 32) (inst_regs i)) is then Inr (is, lits)
       else Inl (Compiler_error ''Invalid register''))"

definition emit_int_reg_op ::
  "op_r \<Rightarrow> op_r \<Rightarrow> bool \<Rightarrow> general_reg \<Rightarrow> general_reg \<Rightarrow> general_reg \<Rightarrow> rinst list" where
  "emit_int_reg_op op64 op32 w rd lhs rhs = [InstR (if w then op32 else op64) rd lhs rhs]"

definition emit_add_reg_imm ::
  "general_reg \<Rightarrow> general_reg \<Rightarrow> u64 \<Rightarrow> bool \<Rightarrow> rinst list" where
  "emit_add_reg_imm rd rs imm w =
     (if fits_i12 imm then [InstI (if w then I_ADDIW else I_ADDI) rd rs (low32 imm)]
      else PseudoLI reg_t0 imm # emit_int_reg_op R_ADD R_ADDW w rd rs reg_t0)"

definition resolve_addr :: "general_reg \<Rightarrow> u64 \<Rightarrow> rinst list \<times> general_reg \<times> u32" where
  "resolve_addr base offset =
     (if fits_i12 offset then ([], base, low32 offset)
      else (emit_add_reg_imm reg_t0 base offset False, reg_t0, 0))"

definition emit_add_sp :: "u64 \<Rightarrow> rinst list" where
  "emit_add_sp delta =
     (if fits_i12 delta then [InstI I_ADDI reg_sp reg_sp (low32 delta)]
      else [PseudoLI reg_t0 delta, InstR R_ADD reg_sp reg_sp reg_t0])"

text \<open>
  \<open>emit_store_bytes\<close>: four, two or one byte at a time. The loop is indexed by the bytes that are
  left, \<open>off\<close> is the offset of the first of them.
\<close>

fun store_chunks :: "general_reg \<Rightarrow> u64 \<Rightarrow> u8 list \<Rightarrow> rinst list" where
  "store_chunks base off (b0 # b1 # b2 # b3 # bs) =
     PseudoLI reg_t0 (sext32 (bytes_word [b0, b1, b2, b3])) # InstI I_SW reg_t0 base (low32 off) #
       store_chunks base (off + 4) bs"
| "store_chunks base off (b0 # b1 # bs) =
     PseudoLI reg_t0 (bytes_word [b0, b1]) # InstI I_SH reg_t0 base (low32 off) #
       store_chunks base (off + 2) bs"
| "store_chunks base off [b0] = [PseudoLI reg_t0 (ucast b0), InstI I_SB reg_t0 base (low32 off)]"
| "store_chunks base off [] = []"

definition emit_store_bytes :: "u8 list \<Rightarrow> general_reg \<Rightarrow> u64 \<Rightarrow> rinst list" where
  "emit_store_bytes data base off =
     (if \<not> fits_i12 off \<or> \<not> fits_i12 (off + of_nat (length data))
      then emit_add_reg_imm reg_t1 base off False @ store_chunks reg_t1 0 data
      else store_chunks base off data)"

definition new_literal :: "constexpr \<Rightarrow> float_literal list \<Rightarrow> string \<times> float_literal list" where
  "new_literal cv lits =
     (let label = ''.L_fc_'' @ nat_to_string (length lits)
      in (label, lits @ [\<lparr>lit_label = label, lit_value = cv\<rparr>]))"

definition emit_load_float_const ::
  "constexpr \<Rightarrow> ty \<Rightarrow> float_reg \<Rightarrow> float_literal list \<Rightarrow> rinst list \<times> float_literal list" where
  "emit_load_float_const cv t dst lits =
     (case new_literal cv lits of (label, lits') \<Rightarrow>
        ([PseudoL P_LA reg_t0 label,
          InstFI (if \<not> is_32bit_op t then FI_FLD else FI_FLW) dst reg_t0 0], lits'))"

definition int_load_op :: "ty \<Rightarrow> op_i" where
  "int_load_op t = (if is_bool_ty t then I_LBU else if is_32bit_op t then I_LW else I_LD)"

definition int_store_op :: "ty \<Rightarrow> op_i" where
  "int_store_op t = (if is_bool_ty t then I_SB else if is_32bit_op t then I_SW else I_SD)"

definition fp_load_op :: "ty \<Rightarrow> op_fi" where
  "fp_load_op t = (if is_32bit_op t then FI_FLW else FI_FLD)"

definition fp_store_op :: "ty \<Rightarrow> op_fi" where
  "fp_store_op t = (if is_32bit_op t then FI_FSW else FI_FSD)"

section \<open>Unary instructions\<close>

definition isel_error :: "string \<Rightarrow> 'a result" where
  "isel_error msg = Inl (Compiler_error msg)"

text \<open>The address of an alloc: a stack slot or a symbol.\<close>

definition emit_address :: "alloc_store \<Rightarrow> frame_layout \<Rightarrow> nat \<Rightarrow> alloc_id \<Rightarrow> rinst list result" where
  "emit_address A fr rd a =
     (if has_spill fr a
        then rbind (offset_of fr a) (\<lambda>off. Inr (emit_add_reg_imm (gpr rd) reg_sp (of_nat off) False))
      else Inr [PseudoL P_LA (gpr rd) (al_name (A a))])"

definition translate_mov ::
  "alloc_store \<Rightarrow> frame_layout \<Rightarrow> color_map \<Rightarrow> left_value \<Rightarrow> val \<Rightarrow> nat \<Rightarrow> float_literal list \<Rightarrow> emitted" where
  "translate_mov A fr cm res x rd lits =
     (let fp = is_fp_op (type_of_lv res) in
      case x of
        Const cv \<Rightarrow>
          (case extract_imm cv of
             Some imm \<Rightarrow> Inr ([PseudoLI (gpr rd) imm], lits)
           | None \<Rightarrow>
               if fp then Inr (emit_load_float_const cv (ctype cv) (fpr rd) lits) else Inr ([], lits))
      | Left lv \<Rightarrow>
          (case lookup_reg cm x of
             Some src \<Rightarrow>
               if rd = src then Inr ([], lits)
               else if fp then
                 Inr ([InstFR (if \<not> is_32bit_op (type_of_lv res) then FR_FSGNJ_D else FR_FSGNJ_S)
                        (AF (fpr rd)) (AF (fpr src)) (Some (AF (fpr src)))], lits)
               else Inr ([PseudoR P_MV (gpr rd) (gpr src)], lits)
           | None \<Rightarrow>
               (case resolve_alloc x of
                  None \<Rightarrow> isel_error ''MOV operand is neither register, const, nor alloc''
                | Some a \<Rightarrow>
                    (case (al_comptime (A a), al_init (A a)) of
                       (True, Some init) \<Rightarrow>
                         if fp then rbind (emit_address A fr rd a) (\<lambda>is. Inr (is, lits))
                         else (case extract_imm init of
                                 Some imm \<Rightarrow> Inr ([PseudoLI (gpr rd) imm], lits)
                               | None \<Rightarrow> Inr ([PseudoL P_LA (gpr rd) (al_name (A a))], lits))
                     | _ \<Rightarrow> rbind (emit_address A fr rd a) (\<lambda>is. Inr (is, lits))))))"

definition translate_neg :: "color_map \<Rightarrow> left_value \<Rightarrow> val \<Rightarrow> nat \<Rightarrow> rinst list result" where
  "translate_neg cm res x rd =
     (if is_fp_op (type_of_lv res) then
        (case lookup_reg cm x of
           Some src \<Rightarrow>
             Inr [InstFR (if \<not> is_32bit_op (type_of_lv res) then FR_FSGNJN_D else FR_FSGNJN_S)
                   (AF (fpr rd)) (AF (fpr src)) (Some (AF (fpr src)))]
         | None \<Rightarrow> isel_error ''FP NEG operand has no register'')
      else
        (case lookup_reg cm x of
           Some src \<Rightarrow>
             Inr [PseudoR (if is_32bit_op (type_of_lv res) then P_NEGW else P_NEG) (gpr rd) (gpr src)]
         | None \<Rightarrow>
             (case x of
                Const cv \<Rightarrow>
                  (case extract_imm cv of
                     Some imm \<Rightarrow> Inr [PseudoLI (gpr rd) (- imm)]
                   | None \<Rightarrow> isel_error ''Int NEG constexpr operand not extractable'')
              | _ \<Rightarrow> isel_error ''Int NEG operand has no register and is not constexpr'')))"

definition translate_not :: "color_map \<Rightarrow> left_value \<Rightarrow> val \<Rightarrow> nat \<Rightarrow> rinst list result" where
  "translate_not cm res x rd =
     (case lookup_reg cm x of
        Some src \<Rightarrow>
          if is_bool_ty (type_of_lv res) then Inr [InstI I_XORI (gpr rd) (gpr src) 1]
          else Inr [PseudoR P_SEQZ (gpr rd) (gpr src)]
      | None \<Rightarrow>
          (case x of
             Const cv \<Rightarrow>
               (case extract_imm cv of
                  Some imm \<Rightarrow> Inr [PseudoLI (gpr rd) (if imm \<noteq> 0 then 0 else 1)]
                | None \<Rightarrow> isel_error ''NOT constexpr operand not extractable'')
           | _ \<Rightarrow> isel_error ''NOT operand has no register and is not constexpr''))"

definition emit_load :: "ty \<Rightarrow> nat \<Rightarrow> general_reg \<Rightarrow> u32 \<Rightarrow> rinst" where
  "emit_load elem rd base imm =
     (if is_fp_op elem then InstFI (fp_load_op elem) (fpr rd) base imm
      else InstI (int_load_op elem) (gpr rd) base imm)"

definition translate_load ::
  "alloc_store \<Rightarrow> frame_layout \<Rightarrow> color_map \<Rightarrow> val \<Rightarrow> nat \<Rightarrow> rinst list result" where
  "translate_load A fr cm x rd =
     (case type_of x of
        Reference elem ro sl \<Rightarrow>
          (let ref_alloc = resolve_alloc x in
           if (case ref_alloc of Some a \<Rightarrow> has_spill fr a | None \<Rightarrow> False) then
             rbind (offset_of fr (the ref_alloc)) (\<lambda>off.
               case resolve_addr reg_sp (of_nat off) of
                 (pre, base, imm) \<Rightarrow> Inr (pre @ [emit_load elem rd base imm]))
           else
             (case lookup_reg cm x of
                Some base \<Rightarrow> Inr [emit_load elem rd (gpr base) 0]
              | None \<Rightarrow>
                  (case ref_alloc of
                     Some a \<Rightarrow>
                       rbind (abi_size (al_type (A a))) (\<lambda>sz.
                         if is_fp_op elem then
                           Inr [PseudoL P_LA reg_t0 (al_name (A a)), InstFI (fp_load_op elem) (fpr rd) reg_t0 0]
                         else if sz = 1 then
                           Inr [PseudoL P_LA reg_t0 (al_name (A a)), InstI I_LBU (gpr rd) reg_t0 0]
                         else Inr [PseudoL (if sz = 8 then P_LGD else P_LGW) (gpr rd) (al_name (A a))])
                   | None \<Rightarrow> isel_error ''LOAD operand is neither alloc nor register'')))
      | _ \<Rightarrow> Inl (Compiler_error ''Type is not Reference''))"

definition translate_convert ::
  "alloc_store \<Rightarrow> frame_layout \<Rightarrow> color_map \<Rightarrow> left_value \<Rightarrow> val \<Rightarrow> nat \<Rightarrow> rinst list result" where
  "translate_convert A fr cm res x rd =
     (let src_t = type_of x; dst_t = type_of_lv res; src_fp = is_fp_op src_t; dst_fp = is_fp_op dst_t in
      case lookup_reg cm x of
        Some src \<Rightarrow>
          Inr (if src_fp \<and> dst_fp then
                 (if is_32bit_op src_t \<and> \<not> is_32bit_op dst_t
                    then [InstFR FR_FCVT_D_S (AF (fpr rd)) (AF (fpr src)) None]
                  else if \<not> is_32bit_op src_t \<and> is_32bit_op dst_t
                    then [InstFR FR_FCVT_S_D (AF (fpr rd)) (AF (fpr src)) None]
                  else if rd \<noteq> src
                    then [InstFR (if \<not> is_32bit_op dst_t then FR_FSGNJ_D else FR_FSGNJ_S)
                           (AF (fpr rd)) (AF (fpr src)) (Some (AF (fpr src)))]
                  else [])
               else if src_fp \<and> \<not> dst_fp then
                 [InstFR (if \<not> is_32bit_op src_t
                          then (if is_32bit_op dst_t then FR_FCVT_W_D else FR_FCVT_L_D)
                          else (if is_32bit_op dst_t then FR_FCVT_W_S else FR_FCVT_L_S))
                    (AG (gpr rd)) (AF (fpr src)) None]
               else if \<not> src_fp \<and> dst_fp then
                 [InstFR (if \<not> is_32bit_op dst_t
                          then (if is_32bit_op src_t then FR_FCVT_D_W else FR_FCVT_D_L)
                          else (if is_32bit_op src_t then FR_FCVT_S_W else FR_FCVT_S_L))
                    (AF (fpr rd)) (AG (gpr src)) None]
               else if is_32bit_op src_t \<and> \<not> is_32bit_op dst_t then
                 [InstI I_ADDIW (gpr rd) (gpr src) 0]
               else [PseudoR P_MV (gpr rd) (gpr src)])
      | None \<Rightarrow>
          (case resolve_alloc x of
             Some a \<Rightarrow> emit_address A fr rd a
           | None \<Rightarrow> isel_error ''CONVERT operand is neither register nor alloc''))"

definition with_lits :: "float_literal list \<Rightarrow> rinst list result \<Rightarrow> emitted" where
  "with_lits lits r = rbind r (\<lambda>is. Inr (is, lits))"

definition translate_unary ::
  "alloc_store \<Rightarrow> frame_layout \<Rightarrow> color_map \<Rightarrow> unary_inst_op \<Rightarrow> left_value option \<Rightarrow> val \<Rightarrow>
     float_literal list \<Rightarrow> emitted" where
  "translate_unary A fr cm op result x lits =
     (case result of
        None \<Rightarrow> isel_error ''Unary inst has no result''
      | Some res \<Rightarrow>
          (case lookup_lv cm res of
             None \<Rightarrow> isel_error ''Unary inst result has no register assigned''
           | Some rd \<Rightarrow>
               (case op of
                  Op_MOV \<Rightarrow> translate_mov A fr cm res x rd lits
                | Op_NEG \<Rightarrow> with_lits lits (translate_neg cm res x rd)
                | Op_NOT \<Rightarrow> with_lits lits (translate_not cm res x rd)
                | Op_LOAD \<Rightarrow> with_lits lits (translate_load A fr cm x rd)
                | Op_CONVERT \<Rightarrow> with_lits lits (translate_convert A fr cm res x rd)
                | _ \<Rightarrow> isel_error ''BORROW should be lowered by AddressLowering'')))"

section \<open>Binary instructions\<close>

definition emit_store :: "ty \<Rightarrow> nat \<Rightarrow> general_reg \<Rightarrow> u32 \<Rightarrow> rinst" where
  "emit_store t rv base imm =
     (if is_fp_op t then InstFI (fp_store_op t) (fpr rv) base imm
      else InstI (int_store_op t) (gpr rv) base imm)"

definition translate_store ::
  "alloc_store \<Rightarrow> frame_layout \<Rightarrow> color_map \<Rightarrow> val \<Rightarrow> val \<Rightarrow> rinst list result" where
  "translate_store A fr cm lhs rhs =
     (case lookup_reg cm rhs of
        None \<Rightarrow> isel_error ''STORE value has no register assigned''
      | Some rv \<Rightarrow>
          (let ref_alloc = resolve_alloc lhs; t = type_of rhs in
           if (case ref_alloc of Some a \<Rightarrow> has_spill fr a | None \<Rightarrow> False) then
             rbind (offset_of fr (the ref_alloc)) (\<lambda>off.
               case resolve_addr reg_sp (of_nat off) of
                 (pre, base, imm) \<Rightarrow> Inr (pre @ [emit_store t rv base imm]))
           else
             (case lookup_reg cm lhs of
                Some base \<Rightarrow> Inr [emit_store t rv (gpr base) 0]
              | None \<Rightarrow>
                  (case ref_alloc of
                     Some a \<Rightarrow> Inr [PseudoL P_LA reg_t0 (al_name (A a)), emit_store t rv reg_t0 0]
                   | None \<Rightarrow> isel_error ''STORE target is neither alloc nor register''))))"

definition translate_fp_binary :: "inst_op \<Rightarrow> bool \<Rightarrow> nat \<Rightarrow> nat \<Rightarrow> nat \<Rightarrow> rinst list result" where
  "translate_fp_binary op dbl rd lhs rhs =
     (let ff = (\<lambda>d s. [InstFR (if dbl then d else s) (AF (fpr rd)) (AF (fpr lhs)) (Some (AF (fpr rhs)))]);
          fg = (\<lambda>d s a b. [InstFR (if dbl then d else s) (AG (gpr rd)) (AF (fpr a)) (Some (AF (fpr b)))])
      in case op of
           Op_ADD \<Rightarrow> Inr (ff FR_FADD_D FR_FADD_S)
         | Op_SUB \<Rightarrow> Inr (ff FR_FSUB_D FR_FSUB_S)
         | Op_MUL \<Rightarrow> Inr (ff FR_FMUL_D FR_FMUL_S)
         | Op_DIV \<Rightarrow> Inr (ff FR_FDIV_D FR_FDIV_S)
         | Op_LT \<Rightarrow> Inr (fg FR_FLT_D FR_FLT_S lhs rhs)
         | Op_GT \<Rightarrow> Inr (fg FR_FLT_D FR_FLT_S rhs lhs)
         | Op_LEQ \<Rightarrow> Inr (fg FR_FLE_D FR_FLE_S lhs rhs)
         | Op_GEQ \<Rightarrow> Inr (fg FR_FLE_D FR_FLE_S rhs lhs)
         | Op_EQ \<Rightarrow> Inr (fg FR_FEQ_D FR_FEQ_S lhs rhs)
         | Op_NEQ \<Rightarrow> Inr (fg FR_FEQ_D FR_FEQ_S lhs rhs @ [InstI I_XORI (gpr rd) (gpr rd) 1])
         | _ \<Rightarrow> isel_error ''Unhandled FP binary op in isel'')"

text \<open>Both operands in registers.\<close>

definition translate_int_rr :: "inst_op \<Rightarrow> bool \<Rightarrow> nat \<Rightarrow> nat \<Rightarrow> nat \<Rightarrow> rinst list result" where
  "translate_int_rr op w rd lhs rhs =
     (let emit_r = (\<lambda>o64 o32. emit_int_reg_op o64 o32 w (gpr rd) (gpr lhs) (gpr rhs));
          inv = InstI I_XORI (gpr rd) (gpr rd) 1
      in case op of
           Op_ADD \<Rightarrow> Inr (emit_r R_ADD R_ADDW)
         | Op_SUB \<Rightarrow> Inr (emit_r R_SUB R_SUBW)
         | Op_MUL \<Rightarrow> Inr (emit_r R_MUL R_MULW)
         | Op_DIV \<Rightarrow> Inr (emit_r R_DIV R_DIVW)
         | Op_MOD \<Rightarrow> Inr (emit_r R_REM R_REMW)
         | Op_SHL \<Rightarrow> Inr (emit_r R_SLL R_SLLW)
         | Op_SHRL \<Rightarrow> Inr (emit_r R_SRL R_SRLW)
         | Op_SHRA \<Rightarrow> Inr (emit_r R_SRA R_SRAW)
         | Op_AND \<Rightarrow> Inr [InstR R_AND (gpr rd) (gpr lhs) (gpr rhs)]
         | Op_OR \<Rightarrow> Inr [InstR R_OR (gpr rd) (gpr lhs) (gpr rhs)]
         | Op_LT \<Rightarrow> Inr [InstR R_SLT (gpr rd) (gpr lhs) (gpr rhs)]
         | Op_GT \<Rightarrow> Inr [InstR R_SLT (gpr rd) (gpr rhs) (gpr lhs)]
         | Op_LEQ \<Rightarrow> Inr [InstR R_SLT (gpr rd) (gpr rhs) (gpr lhs), inv]
         | Op_GEQ \<Rightarrow> Inr [InstR R_SLT (gpr rd) (gpr lhs) (gpr rhs), inv]
         | Op_EQ \<Rightarrow> Inr [InstR R_SUB (gpr rd) (gpr lhs) (gpr rhs), PseudoR P_SEQZ (gpr rd) (gpr rd)]
         | Op_NEQ \<Rightarrow> Inr [InstR R_SUB (gpr rd) (gpr lhs) (gpr rhs), PseudoR P_SNEZ (gpr rd) (gpr rd)]
         | _ \<Rightarrow> isel_error ''Unhandled int binary op in isel'')"

text \<open>
  A register and a constant on the right. \<open>imm\<close> is the constant cut to 32 bits; most operators use
  it instead of the constant itself.
\<close>

definition translate_int_ri :: "inst_op \<Rightarrow> bool \<Rightarrow> nat \<Rightarrow> nat \<Rightarrow> u64 \<Rightarrow> rinst list result" where
  "translate_int_ri op w rd lhs imm_opt =
     (let imm = low32 imm_opt; imm64 = sext32 imm;
          r = gpr rd; l = gpr lhs; inv = InstI I_XORI r r 1;
          tmp = (if rd = lhs then reg_t0 else r);
          slt = (if fits_i12 imm64 then [InstI I_SLTI r l imm]
                 else [PseudoLI reg_t0 imm_opt, InstR R_SLT r l reg_t0])
      in case op of
           Op_ADD \<Rightarrow> Inr (emit_add_reg_imm r l imm_opt w)
         | Op_LT \<Rightarrow> Inr slt
         | Op_GEQ \<Rightarrow> Inr (slt @ [inv])
         | Op_GT \<Rightarrow>
             Inr (if fits_i12 (imm64 + 1) then [InstI I_SLTI r l (imm + 1), inv]
                  else [PseudoLI reg_t0 imm64, InstR R_SLT r reg_t0 l])
         | Op_LEQ \<Rightarrow>
             Inr (if fits_i12 (imm64 + 1) then [InstI I_SLTI r l (imm + 1)]
                  else [PseudoLI reg_t0 imm64, InstR R_SLT r reg_t0 l, inv])
         | Op_EQ \<Rightarrow> Inr [PseudoLI reg_t0 imm64, InstR R_SUB r l reg_t0, PseudoR P_SEQZ r r]
         | Op_NEQ \<Rightarrow> Inr [PseudoLI reg_t0 imm64, InstR R_SUB r l reg_t0, PseudoR P_SNEZ r r]
         | Op_SUB \<Rightarrow> Inr (emit_add_reg_imm r l (- imm_opt) w)
         | Op_SHL \<Rightarrow> Inr [InstI (if w then I_SLLIW else I_SLLI) r l imm]
         | Op_SHRL \<Rightarrow> Inr [InstI (if w then I_SRLIW else I_SRLI) r l imm]
         | Op_SHRA \<Rightarrow> Inr [InstI (if w then I_SRAIW else I_SRAI) r l imm]
         | Op_MUL \<Rightarrow> Inr (PseudoLI tmp imm64 # emit_int_reg_op R_MUL R_MULW w r l tmp)
         | Op_DIV \<Rightarrow> Inr (PseudoLI tmp imm64 # emit_int_reg_op R_DIV R_DIVW w r l tmp)
         | Op_MOD \<Rightarrow> Inr (PseudoLI tmp imm64 # emit_int_reg_op R_REM R_REMW w r l tmp)
         | Op_AND \<Rightarrow> Inr [PseudoLI tmp imm64, InstR R_AND r l tmp]
         | Op_OR \<Rightarrow> Inr [PseudoLI tmp imm64, InstR R_OR r l tmp]
         | _ \<Rightarrow> isel_error ''Unhandled int-imm binary op in isel'')"

text \<open>A constant on the left and a register.\<close>

definition translate_int_ir :: "inst_op \<Rightarrow> bool \<Rightarrow> nat \<Rightarrow> u64 \<Rightarrow> nat \<Rightarrow> rinst list result" where
  "translate_int_ir op w rd cv rhs =
     (let r = gpr rd; x = gpr rhs; inv = InstI I_XORI r r 1;
          tmp = (if rd = rhs then reg_t0 else r)
      in case op of
           Op_ADD \<Rightarrow> Inr (emit_add_reg_imm r x cv w)
         | Op_MUL \<Rightarrow> Inr (PseudoLI tmp cv # emit_int_reg_op R_MUL R_MULW w r x tmp)
         | Op_AND \<Rightarrow> Inr [PseudoLI tmp cv, InstR R_AND r x tmp]
         | Op_OR \<Rightarrow> Inr [PseudoLI tmp cv, InstR R_OR r x tmp]
         | Op_EQ \<Rightarrow> Inr [PseudoLI tmp cv, InstR R_SUB r x tmp, PseudoR P_SEQZ r r]
         | Op_NEQ \<Rightarrow> Inr [PseudoLI tmp cv, InstR R_SUB r x tmp, PseudoR P_SNEZ r r]
         | Op_SUB \<Rightarrow> Inr (PseudoLI tmp cv # emit_int_reg_op R_SUB R_SUBW w r tmp x)
         | Op_DIV \<Rightarrow> Inr (PseudoLI tmp cv # emit_int_reg_op R_DIV R_DIVW w r tmp x)
         | Op_MOD \<Rightarrow> Inr (PseudoLI tmp cv # emit_int_reg_op R_REM R_REMW w r tmp x)
         | Op_GT \<Rightarrow>
             Inr (if fits_i12 cv then [InstI I_SLTI r x (low32 cv)]
                  else [PseudoLI reg_t0 cv, InstR R_SLT r reg_t0 x])
         | Op_LEQ \<Rightarrow>
             Inr (if fits_i12 cv then [InstI I_SLTI r x (low32 cv), inv]
                  else [PseudoLI reg_t0 cv, InstR R_SLT r reg_t0 x, inv])
         | Op_LT \<Rightarrow> Inr [PseudoLI reg_t0 cv, InstR R_SLT r reg_t0 x]
         | Op_GEQ \<Rightarrow> Inr [PseudoLI reg_t0 cv, InstR R_SLT r reg_t0 x, inv]
         | _ \<Rightarrow> isel_error ''Unhandled const-lhs binary op in isel'')"

text \<open>A float constant is loaded into \<open>ft0\<close>, number 5, which then is the operand's register.\<close>

definition load_fp_operand ::
  "color_map \<Rightarrow> val \<Rightarrow> float_literal list \<Rightarrow> rinst list \<times> nat option \<times> float_literal list" where
  "load_fp_operand cm x lits =
     (case x of
        Const cv \<Rightarrow>
          if extract_imm cv = None then
            (case emit_load_float_const cv (ctype cv) reg_ft0 lits of (is, lits') \<Rightarrow> (is, Some 5, lits'))
          else ([], None, lits)
      | _ \<Rightarrow> ([], lookup_reg cm x, lits))"

text \<open>The choice among the three integer forms and the floating-point form.\<close>

definition select_form ::
  "bool \<Rightarrow> bool \<Rightarrow> inst_op \<Rightarrow> nat \<Rightarrow> val \<Rightarrow> val \<Rightarrow> nat option \<Rightarrow> nat option \<Rightarrow> rinst list result" where
  "select_form fp w op rd lhs rhs l r =
     (case (l, r) of
        (Some a, Some b) \<Rightarrow>
          if fp then translate_fp_binary op (\<not> w) rd a b else translate_int_rr op w rd a b
      | (Some a, None) \<Rightarrow>
          (case rhs of
             Const c \<Rightarrow>
               (case extract_imm c of
                  Some imm \<Rightarrow> translate_int_ri op w rd a imm
                | None \<Rightarrow> isel_error ''Binary op RHS constexpr is not an extractable integer'')
           | _ \<Rightarrow> isel_error ''Binary inst has no translatable operand pattern'')
      | (None, Some b) \<Rightarrow>
          (case lhs of
             Const c \<Rightarrow>
               (case extract_imm c of
                  Some imm \<Rightarrow> translate_int_ir op w rd imm b
                | None \<Rightarrow> isel_error ''Binary op LHS constexpr is not an extractable integer'')
           | _ \<Rightarrow> isel_error ''Binary inst has no translatable operand pattern'')
      | (None, None) \<Rightarrow> isel_error ''Binary inst has no translatable operand pattern'')"

definition translate_operation ::
  "color_map \<Rightarrow> inst_op \<Rightarrow> nat \<Rightarrow> val \<Rightarrow> val \<Rightarrow> float_literal list \<Rightarrow> emitted" where
  "translate_operation cm op rd lhs rhs lits =
     (let lt = type_of lhs; rt = type_of rhs; fp = is_fp_op lt \<or> is_fp_op rt in
      if fp \<and> \<not> eq_ty lt rt then isel_error ''Type mismatch for FP binary op''
      else
        rbind (abi_size lt) (\<lambda>ls. rbind (abi_size rt) (\<lambda>rs.
          (let w = is_32bit_op (if ls < rs then rt else lt) in
           if \<not> fp then with_lits lits (select_form False w op rd lhs rhs (lookup_reg cm lhs) (lookup_reg cm rhs))
           else if lookup_reg cm lhs = None \<and> lookup_reg cm rhs = None
             then isel_error ''At least one operand of an FP binary op must be a register''
           else
             (case load_fp_operand cm lhs lits of (p1, l, lits1) \<Rightarrow>
             (case load_fp_operand cm rhs lits1 of (p2, r, lits2) \<Rightarrow>
                rbind (select_form True w op rd lhs rhs l r) (\<lambda>is. Inr (p1 @ p2 @ is, lits2))))))))"

definition translate_binary ::
  "alloc_store \<Rightarrow> frame_layout \<Rightarrow> color_map \<Rightarrow> inst_op \<Rightarrow> left_value option \<Rightarrow> val \<Rightarrow> val \<Rightarrow>
     float_literal list \<Rightarrow> emitted" where
  "translate_binary A fr cm op result lhs rhs lits =
     (case result of
        None \<Rightarrow>
          if op \<noteq> Op_STORE then isel_error ''Binary inst with no result that is not STORE''
          else with_lits lits (translate_store A fr cm lhs rhs)
      | Some res \<Rightarrow>
          (case lookup_lv cm res of
             None \<Rightarrow> isel_error ''Binary inst result has no register assigned''
           | Some rd \<Rightarrow> translate_operation cm op rd lhs rhs lits))"

section \<open>Calls and exits\<close>

text \<open>
  One argument of a call: nothing for an argument in a register; the stack slot of eight bytes is
  used up by every other argument, also by one that is neither in a register nor a constant and for
  which no store is emitted.
\<close>

definition stack_arg ::
  "color_map \<Rightarrow> val \<times> nat option \<Rightarrow> rinst list \<times> nat \<times> float_literal list \<Rightarrow>
     (rinst list \<times> nat \<times> float_literal list) result" where
  "stack_arg cm ar st =
     (case (ar, st) of ((arg, ra), (is, off, lits)) \<Rightarrow>
        (case ra of
           Some r \<Rightarrow> Inr (is, off, lits)
         | None \<Rightarrow>
             (let t = type_of arg; off32 = of_nat off :: u32 in
              case lookup_reg cm arg of
                Some v \<Rightarrow>
                  (case resolve_addr reg_sp (sext32 off32) of
                     (pre, base, imm) \<Rightarrow> Inr (is @ pre @ [emit_store t v base imm], off + 8, lits))
              | None \<Rightarrow>
                  (case arg of
                     Const cv \<Rightarrow>
                       (case extract_imm cv of
                          Some imm \<Rightarrow>
                            Inr (is @ [PseudoLI reg_t0 imm, InstI I_SD reg_t0 reg_sp off32], off + 8, lits)
                        | None \<Rightarrow>
                            if is_fp_op t then
                              (case emit_load_float_const cv t reg_ft0 lits of (ld, lits') \<Rightarrow>
                                 Inr (is @ ld @ [InstFI (fp_store_op t) reg_ft0 reg_sp off32], off + 8, lits'))
                            else Inr (is, off + 8, lits))
                   | _ \<Rightarrow> Inr (is, off + 8, lits)))))"

text \<open>The list of registers is at least as long as the arguments, so \<open>arg_regs[i]\<close> is in range.\<close>

definition translate_call ::
  "(name_def \<Rightarrow> string) \<Rightarrow> target_abi \<Rightarrow> color_map \<Rightarrow> name_def \<Rightarrow> val list \<Rightarrow> float_literal list \<Rightarrow> emitted" where
  "translate_call nm abi cm f args lits =
     rbind (assign_arg_regs args abi) (\<lambda>arg_regs.
     rbind (rfold (stack_arg cm) (zip args arg_regs) ([], 0, lits)) (\<lambda>(is, off, lits').
       Inr (is @ [PseudoJ P_CALL (nm f)], lits')))"

fun translate_inst ::
  "(name_def \<Rightarrow> string) \<Rightarrow> alloc_store \<Rightarrow> frame_layout \<Rightarrow> target_abi \<Rightarrow> color_map \<Rightarrow> inst \<Rightarrow>
     float_literal list \<Rightarrow> emitted" where
  "translate_inst nm A fr abi cm (Unary op r x) lits = checked (translate_unary A fr cm op r x lits)"
| "translate_inst nm A fr abi cm (Binary op r x y) lits = checked (translate_binary A fr cm op r x y lits)"
| "translate_inst nm A fr abi cm (CallI r t f args) lits = checked (translate_call nm abi cm f args lits)"
| "translate_inst nm A fr abi cm (Phi r args) lits = isel_error ''PhiInst should be eliminated before isel''"

definition target_label :: "ir_func \<Rightarrow> block_id option \<Rightarrow> string result" where
  "target_label fn t =
     (case t of None \<Rightarrow> Inl (Undefined ''label of a null block'')
      | Some b \<Rightarrow> Inr (block_label (fn_name fn) (bk_label (fn_blk fn b))))"

fun translate_exit :: "ir_func \<Rightarrow> color_map \<Rightarrow> ir_exit \<Rightarrow> rinst list result" where
  "translate_exit fn cm (ReturnExit v) = Inr [PseudoJ P_J (''.L'' @ fn_name fn @ ''_epilogue'')]"
| "translate_exit fn cm (JumpExit t) =
     rbind (target_label fn (Some t)) (\<lambda>l. Inr [PseudoJ P_J l])"
| "translate_exit fn cm (BranchExit c t f) =
     (case lookup_reg cm c of
        None \<Rightarrow> isel_error ''Branch condition must be GPR''
      | Some r \<Rightarrow>
          if 32 \<le> r mod 256 then isel_error ''Invalid register''
          else rbind (target_label fn t) (\<lambda>lt. rbind (target_label fn f) (\<lambda>lf.
                 Inr [PseudoB P_BNEZ (gpr r) lt, PseudoJ P_J lf])))"

section \<open>Functions and programs\<close>

text \<open>The value a scalar initialiser stores; an array is handled before, no value is skipped.\<close>

fun init_word :: "cval \<Rightarrow> u64 option" where
  "init_word (V_int v) = Some (sext32 v)"
| "init_word (V_int64 v) = Some v"
| "init_word (V_float v) = Some (zext32 v)"
| "init_word (V_double v) = Some v"
| "init_word (V_bool b) = Some (bool_word b)"
| "init_word _ = None"

definition init_store_op :: "nat \<Rightarrow> op_i" where
  "init_store_op sz = (if sz = 8 then I_SD else if sz = 4 then I_SW else if sz = 2 then I_SH else I_SB)"

definition emit_init :: "u64 \<Rightarrow> nat \<Rightarrow> u64 \<Rightarrow> rinst list" where
  "emit_init v sz off =
     PseudoLI reg_t0 v #
     (if fits_i12 off then [InstI (init_store_op sz) reg_t0 reg_sp (low32 off)]
      else emit_add_reg_imm reg_t1 reg_sp off False @ [InstI (init_store_op sz) reg_t0 reg_t1 0])"

definition init_local ::
  "alloc_store \<Rightarrow> frame_layout \<Rightarrow> alloc_id \<Rightarrow> rinst list \<Rightarrow> rinst list result" where
  "init_local A fr a is =
     (case al_init (A a) of
        None \<Rightarrow> Inr is
      | Some init \<Rightarrow>
          if \<not> has_spill fr a then Inr is
          else
            rbind (offset_of fr a) (\<lambda>off.
              (case cvalue init of
                 V_bytes bs \<Rightarrow>
                   rbind (abi_size (al_type (A a))) (\<lambda>sz.
                     if length bs < sz then Inl (Undefined ''read past the initialiser'')
                     else Inr (is @ emit_store_bytes (take sz bs) reg_sp (of_nat off)))
               | v \<Rightarrow>
                   (case init_word v of
                      None \<Rightarrow> Inr is
                    | Some w \<Rightarrow>
                        rbind (abi_size (al_type (A a))) (\<lambda>sz. Inr (is @ emit_init w sz (of_nat off)))))))"

definition translate_block ::
  "(name_def \<Rightarrow> string) \<Rightarrow> alloc_store \<Rightarrow> frame_layout \<Rightarrow> color_map \<Rightarrow> ir_func \<Rightarrow> block_id \<Rightarrow>
     rblock list \<times> float_literal list \<Rightarrow> (rblock list \<times> float_literal list) result" where
  "translate_block nm A fr cm fn b st =
     (case st of (out, lits) \<Rightarrow>
        (let blk = fn_blk fn b in
         rbind (rfold (\<lambda>i (is, lits). rbind (translate_inst nm A fr rv64_abi cm i lits)
                                 (\<lambda>(js, lits'). Inr (is @ js, lits'))) (bk_insts blk) ([], lits))
           (\<lambda>(is, lits').
         rbind (get_exit blk) (\<lambda>e.
         rbind (translate_exit fn cm e) (\<lambda>js.
           Inr (out @ [\<lparr>rb_label = block_label (fn_name fn) (bk_label blk), rb_insts = is @ js\<rparr>], lits'))))))"

definition translate_func ::
  "(name_def \<Rightarrow> string) \<Rightarrow> alloc_store \<Rightarrow> color_map \<Rightarrow> ir_func \<Rightarrow> float_literal list \<Rightarrow>
     (rfunc \<times> float_literal list) result" where
  "translate_func nm A cm fn lits =
     rbind (compute_frame A fn) (\<lambda>fr.
     (let size = of_nat (total_size fr) :: u64;
          entry_lbl = ''.L'' @ fn_name fn @ ''_entry'';
          epi_lbl = ''.L'' @ fn_name fn @ ''_epilogue''
      in
     rbind (rfold (init_local A fr) (fn_locals fn) (if 0 < total_size fr then emit_add_sp (- size) else []))
       (\<lambda>pro.
     rbind (reverse_post_order fn) (\<lambda>order.
     rbind (rfold (translate_block nm A fr cm fn) order ([], lits)) (\<lambda>(body, lits').
       Inr (\<lparr>rf_name = fn_name fn, rf_frame = fr,
             rf_blocks =
               \<lparr>rb_label = fn_name fn, rb_insts = pro @ [PseudoJ P_J entry_lbl]\<rparr> # body @
               [\<lparr>rb_label = epi_lbl,
                 rb_insts = (if 0 < total_size fr then emit_add_sp size else []) @ [PseudoRet]\<rparr>]\<rparr>,
            lits'))))))"

definition name_of :: "ir_program \<Rightarrow> name_def \<Rightarrow> string" where
  "name_of prog d =
     (case d of
        Def_alloc a \<Rightarrow> al_name (pr_alloc prog a)
      | Def_func f \<Rightarrow> (case List.find (\<lambda>fn. fn_id fn = f) (pr_funcs prog) of None \<Rightarrow> [] | Some fn \<Rightarrow> fn_name fn)
      | Def_builtin k \<Rightarrow> (if k < length (pr_builtins prog) then fst (pr_builtins prog ! k) else []))"

definition lower_global :: "alloc_store \<Rightarrow> alloc_id \<Rightarrow> global_var" where
  "lower_global A a =
     \<lparr>gl_name = al_name (A a), gl_type = al_type (A a), gl_init = al_init (A a), gl_comptime = al_comptime (A a)\<rparr>"

definition lower :: "ir_program \<Rightarrow> color_map \<Rightarrow> rmodule result" where
  "lower prog cm =
     (let A = pr_alloc prog;
          gs = [a \<leftarrow> pr_globals prog. lookup_lv cm (alloc_value A a) = None]
      in rbind (rfold (\<lambda>fn (fns, lits).
                  rbind (translate_func (name_of prog) A cm fn lits) (\<lambda>(rf, lits'). Inr (fns @ [rf], lits')))
                 (pr_funcs prog) ([], []))
           (\<lambda>(fns, lits). Inr \<lparr>m_globals = map (lower_global A) gs, m_funcs = fns, m_literals = lits\<rparr>))"

end
