(* ===== verification/Ir_Eval.thy ===== *)
theory Ir_Eval
  imports Ir_Inst Rv64_Vm
begin

text \<open>
  The arithmetic of the IR virtual machine (\<open>backend/ir/vm/vm.h\<close>, \<open>assign.cpp\<close>) on scalars: the
  implicit conversions of C++, the binary operations, comparisons, unary operations and the
  assignment between primitive types. A scalar is a \<open>cval\<close>; a reference operand takes part as a
  64-bit integer. The C++ operations without defined behaviour (division by zero, a quotient that
  overflows, a shift distance that is not below the width) are errors; other signed overflow wraps.
\<close>

section \<open>Conversions\<close>

definition f32_zero :: "u32 \<Rightarrow> bool" where "f32_zero w \<longleftrightarrow> f32_mag w = 0"
definition f64_zero :: "u64 \<Rightarrow> bool" where "f64_zero w \<longleftrightarrow> f64_mag w = 0"

fun to_bool :: "cval \<Rightarrow> bool result" where
  "to_bool (V_bool b) = Inr b"
| "to_bool (V_int w) = Inr (w \<noteq> 0)"
| "to_bool (V_int64 w) = Inr (w \<noteq> 0)"
| "to_bool (V_float w) = Inr (\<not> f32_zero w)"
| "to_bool (V_double w) = Inr (\<not> f64_zero w)"
| "to_bool _ = Inl Bad_variant"

fun to_i32 :: "host \<Rightarrow> cval \<Rightarrow> u32 result" where
  "to_i32 h (V_bool b) = Inr (if b then 1 else 0)"
| "to_i32 h (V_int w) = Inr w"
| "to_i32 h (V_int64 w) = Inr (low32 w)"
| "to_i32 h (V_float w) = Inr (f32_to_i32 h w)"
| "to_i32 h (V_double w) = Inr (f64_to_i32 h w)"
| "to_i32 h _ = Inl Bad_variant"

fun to_i64 :: "host \<Rightarrow> cval \<Rightarrow> u64 result" where
  "to_i64 h (V_bool b) = Inr (bool_word b)"
| "to_i64 h (V_int w) = Inr (sext32 w)"
| "to_i64 h (V_int64 w) = Inr w"
| "to_i64 h (V_float w) = Inr (f32_to_i64 h w)"
| "to_i64 h (V_double w) = Inr (f64_to_i64 h w)"
| "to_i64 h _ = Inl Bad_variant"

fun to_f32 :: "host \<Rightarrow> cval \<Rightarrow> u32 result" where
  "to_f32 h (V_bool b) = Inr (if b then f32_one else 0)"
| "to_f32 h (V_int w) = Inr (i32_to_f32 h w)"
| "to_f32 h (V_int64 w) = Inr (i64_to_f32 h w)"
| "to_f32 h (V_float w) = Inr w"
| "to_f32 h (V_double w) = Inr (f64_to_f32 h w)"
| "to_f32 h _ = Inl Bad_variant"

fun to_f64 :: "host \<Rightarrow> cval \<Rightarrow> u64 result" where
  "to_f64 h (V_bool b) = Inr (if b then f64_one else 0)"
| "to_f64 h (V_int w) = Inr (i32_to_f64 h w)"
| "to_f64 h (V_int64 w) = Inr (i64_to_f64 h w)"
| "to_f64 h (V_float w) = Inr (f32_to_f64 h w)"
| "to_f64 h (V_double w) = Inr w"
| "to_f64 h _ = Inl Bad_variant"

fun conv_to :: "host \<Rightarrow> prim \<Rightarrow> cval \<Rightarrow> cval result" where
  "conv_to h Int1 v = rbind (to_bool v) (\<lambda>b. Inr (V_bool b))"
| "conv_to h Int32 v = rbind (to_i32 h v) (\<lambda>w. Inr (V_int w))"
| "conv_to h Int64 v = rbind (to_i64 h v) (\<lambda>w. Inr (V_int64 w))"
| "conv_to h Float32 v = rbind (to_f32 h v) (\<lambda>w. Inr (V_float w))"
| "conv_to h Float64 v = rbind (to_f64 h v) (\<lambda>w. Inr (V_double w))"
| "conv_to h Float v = rbind (to_f64 h v) (\<lambda>w. Inr (V_double w))"

text \<open>The alternative of the variant that stores a value of a primitive type.\<close>

fun has_prim :: "prim \<Rightarrow> cval \<Rightarrow> bool" where
  "has_prim Int1 (V_bool b) = True"
| "has_prim Int32 (V_int w) = True"
| "has_prim Int64 (V_int64 w) = True"
| "has_prim Float32 (V_float w) = True"
| "has_prim Float64 (V_double w) = True"
| "has_prim Float (V_double w) = True"
| "has_prim p v = False"

lemma conv_to_same: "has_prim p v \<Longrightarrow> conv_to h p v = Inr v"
  by (cases p; cases v) simp_all

lemma conv_to_has_prim: "conv_to h p v = Inr w \<Longrightarrow> has_prim p w"
  by (cases p) (auto simp: rbind_eq_Inr)

section \<open>Binary operations\<close>

text \<open>\<open>std::logical_and<T>\<close> gives a \<open>bool\<close>, converted back to the type.\<close>

definition truth :: "bool \<Rightarrow> 'a::len word" where
  "truth b = (if b then 1 else 0)"

fun arith_int :: "inst_op \<Rightarrow> 'a::len word \<Rightarrow> 'a word \<Rightarrow> 'a word result" where
  "arith_int Op_ADD a b = Inr (a + b)"
| "arith_int Op_SUB a b = Inr (a - b)"
| "arith_int Op_MUL a b = Inr (a * b)"
| "arith_int Op_DIV a b =
     (if b = 0 then Inl (Undefined ''division by zero'')
      else if div_overflows a b then Inl (Undefined ''quotient overflows'') else Inr (sdiv_word a b))"
| "arith_int Op_MOD a b =
     (if b = 0 then Inl (Undefined ''division by zero'')
      else if div_overflows a b then Inl (Undefined ''quotient overflows'') else Inr (smod_word a b))"
| "arith_int Op_SHL a b =
     (if LENGTH('a) \<le> unat b then Inl (Undefined ''shift distance'') else Inr (push_bit (unat b) a))"
| "arith_int Op_SHRL a b =
     (if LENGTH('a) \<le> unat b then Inl (Undefined ''shift distance'') else Inr (drop_bit (unat b) a))"
| "arith_int Op_SHRA a b =
     (if LENGTH('a) \<le> unat b then Inl (Undefined ''shift distance'') else Inr (signed_drop_bit (unat b) a))"
| "arith_int Op_AND a b = Inr (truth (a \<noteq> 0 \<and> b \<noteq> 0))"
| "arith_int Op_OR a b = Inr (truth (a \<noteq> 0 \<or> b \<noteq> 0))"
| "arith_int _ a b = Inl (Compiler_error ''Unsupported binary operation'')"

text \<open>On \<open>bool\<close> the arithmetic is done on \<open>int\<close> and the result is compared with zero.\<close>

fun arith_bool :: "inst_op \<Rightarrow> bool \<Rightarrow> bool \<Rightarrow> bool result" where
  "arith_bool Op_ADD a b = Inr (a \<or> b)"
| "arith_bool Op_SUB a b = Inr (a \<noteq> b)"
| "arith_bool Op_MUL a b = Inr (a \<and> b)"
| "arith_bool Op_DIV a b = (if b then Inr a else Inl (Undefined ''division by zero''))"
| "arith_bool Op_MOD a b = (if b then Inr False else Inl (Undefined ''division by zero''))"
| "arith_bool Op_AND a b = Inr (a \<and> b)"
| "arith_bool Op_OR a b = Inr (a \<or> b)"
| "arith_bool Op_SHL a b = Inl (Compiler_error ''shift operations are only defined for integral types'')"
| "arith_bool Op_SHRL a b = Inl (Compiler_error ''shift operations are only defined for integral types'')"
| "arith_bool Op_SHRA a b = Inl (Compiler_error ''shift operations are only defined for integral types'')"
| "arith_bool _ a b = Inl (Compiler_error ''Unsupported binary operation'')"

fun arith_f32 :: "host \<Rightarrow> inst_op \<Rightarrow> u32 \<Rightarrow> u32 \<Rightarrow> u32 result" where
  "arith_f32 h Op_ADD a b = Inr (f32_add h a b)"
| "arith_f32 h Op_SUB a b = Inr (f32_sub h a b)"
| "arith_f32 h Op_MUL a b = Inr (f32_mul h a b)"
| "arith_f32 h Op_DIV a b = Inr (f32_div h a b)"
| "arith_f32 h Op_MOD a b = Inr (f32_fmod h a b)"
| "arith_f32 h Op_AND a b = Inr (if \<not> f32_zero a \<and> \<not> f32_zero b then f32_one else 0)"
| "arith_f32 h Op_OR a b = Inr (if \<not> f32_zero a \<or> \<not> f32_zero b then f32_one else 0)"
| "arith_f32 h Op_SHL a b = Inl (Compiler_error ''shift operations are only defined for integral types'')"
| "arith_f32 h Op_SHRL a b = Inl (Compiler_error ''shift operations are only defined for integral types'')"
| "arith_f32 h Op_SHRA a b = Inl (Compiler_error ''shift operations are only defined for integral types'')"
| "arith_f32 h _ a b = Inl (Compiler_error ''Unsupported binary operation'')"

fun arith_f64 :: "host \<Rightarrow> inst_op \<Rightarrow> u64 \<Rightarrow> u64 \<Rightarrow> u64 result" where
  "arith_f64 h Op_ADD a b = Inr (f64_add h a b)"
| "arith_f64 h Op_SUB a b = Inr (f64_sub h a b)"
| "arith_f64 h Op_MUL a b = Inr (f64_mul h a b)"
| "arith_f64 h Op_DIV a b = Inr (f64_div h a b)"
| "arith_f64 h Op_MOD a b = Inr (f64_fmod h a b)"
| "arith_f64 h Op_AND a b = Inr (if \<not> f64_zero a \<and> \<not> f64_zero b then f64_one else 0)"
| "arith_f64 h Op_OR a b = Inr (if \<not> f64_zero a \<or> \<not> f64_zero b then f64_one else 0)"
| "arith_f64 h Op_SHL a b = Inl (Compiler_error ''shift operations are only defined for integral types'')"
| "arith_f64 h Op_SHRL a b = Inl (Compiler_error ''shift operations are only defined for integral types'')"
| "arith_f64 h Op_SHRA a b = Inl (Compiler_error ''shift operations are only defined for integral types'')"
| "arith_f64 h _ a b = Inl (Compiler_error ''Unsupported binary operation'')"

text \<open>\<open>eval_binary\<close> on operands of one type.\<close>

fun arith :: "host \<Rightarrow> inst_op \<Rightarrow> cval \<Rightarrow> cval \<Rightarrow> cval result" where
  "arith h op (V_bool a) (V_bool b) = rbind (arith_bool op a b) (\<lambda>v. Inr (V_bool v))"
| "arith h op (V_int a) (V_int b) = rbind (arith_int op a b) (\<lambda>v. Inr (V_int v))"
| "arith h op (V_int64 a) (V_int64 b) = rbind (arith_int op a b) (\<lambda>v. Inr (V_int64 v))"
| "arith h op (V_float a) (V_float b) = rbind (arith_f32 h op a b) (\<lambda>v. Inr (V_float v))"
| "arith h op (V_double a) (V_double b) = rbind (arith_f64 h op a b) (\<lambda>v. Inr (V_double v))"
| "arith h op _ _ = Inl Bad_variant"

text \<open>
  The remainder for a floating destination is \<open>std::fmod\<close> on the operands as they are: its overload for
  two \<open>float\<close>s, else the one for \<open>double\<close>, to which integers are promoted. The result is converted.
\<close>

fun eval_fmod :: "host \<Rightarrow> cval \<Rightarrow> cval \<Rightarrow> cval result" where
  "eval_fmod h (V_float a) (V_float b) = Inr (V_float (f32_fmod h a b))"
| "eval_fmod h l r = rbind (to_f64 h l) (\<lambda>a. rbind (to_f64 h r) (\<lambda>b. Inr (V_double (f64_fmod h a b))))"

definition eval_binary :: "host \<Rightarrow> inst_op \<Rightarrow> prim \<Rightarrow> cval \<Rightarrow> cval \<Rightarrow> cval result" where
  "eval_binary h op d l r =
     (if op = Op_MOD \<and> d \<in> {Float32, Float64, Float} then rbind (eval_fmod h l r) (conv_to h d)
      else rbind (conv_to h d l) (\<lambda>a. rbind (conv_to h d r) (\<lambda>b. arith h op a b)))"

section \<open>Comparisons\<close>

fun rank :: "prim \<Rightarrow> nat" where
  "rank Int1 = 0"
| "rank Int32 = 1"
| "rank Int64 = 2"
| "rank Float32 = 3"
| "rank Float64 = 4"
| "rank Float = 4"

definition common_type :: "prim \<Rightarrow> prim \<Rightarrow> prim" where
  "common_type a b = (if rank a < rank b then b else a)"

definition is_comparison :: "inst_op \<Rightarrow> bool" where
  "is_comparison op \<longleftrightarrow> op \<in> set [Op_LT, Op_GT, Op_LEQ, Op_GEQ, Op_EQ, Op_NEQ]"

text \<open>A comparison from the tests \<open>less\<close>, \<open>less or equal\<close> and \<open>equal\<close>.\<close>

fun by_tests :: "inst_op \<Rightarrow> ('a \<Rightarrow> 'a \<Rightarrow> bool) \<Rightarrow> ('a \<Rightarrow> 'a \<Rightarrow> bool) \<Rightarrow> ('a \<Rightarrow> 'a \<Rightarrow> bool) \<Rightarrow> 'a \<Rightarrow> 'a \<Rightarrow> bool result" where
  "by_tests Op_LT lt le eq a b = Inr (lt a b)"
| "by_tests Op_GT lt le eq a b = Inr (lt b a)"
| "by_tests Op_LEQ lt le eq a b = Inr (le a b)"
| "by_tests Op_GEQ lt le eq a b = Inr (le b a)"
| "by_tests Op_EQ lt le eq a b = Inr (eq a b)"
| "by_tests Op_NEQ lt le eq a b = Inr (\<not> eq a b)"
| "by_tests _ lt le eq a b = Inl (Compiler_error ''Unsupported binary operation'')"

fun compare :: "inst_op \<Rightarrow> cval \<Rightarrow> cval \<Rightarrow> bool result" where
  "compare op (V_bool a) (V_bool b) = by_tests op (<) (\<le>) (=) a b"
| "compare op (V_int a) (V_int b) = by_tests op (<) (\<le>) (=) (sint a) (sint b)"
| "compare op (V_int64 a) (V_int64 b) = by_tests op (<) (\<le>) (=) (sint a) (sint b)"
| "compare op (V_float a) (V_float b) = by_tests op f32_lt f32_le f32_eq a b"
| "compare op (V_double a) (V_double b) = by_tests op f64_lt f64_le f64_eq a b"
| "compare op _ _ = Inl Bad_variant"

definition eval_comparison ::
  "host \<Rightarrow> inst_op \<Rightarrow> prim \<Rightarrow> prim \<times> cval \<Rightarrow> prim \<times> cval \<Rightarrow> cval result" where
  "eval_comparison h op d l r =
     (let t = common_type (fst l) (fst r) in
      rbind (conv_to h t (snd l)) (\<lambda>a. rbind (conv_to h t (snd r)) (\<lambda>b.
      rbind (compare op a b) (\<lambda>c. conv_to h d (V_bool c)))))"

text \<open>
  The entries of the table \<open>binary_ops\<close> for arithmetic, logic, shifts and comparisons. The entries for
  memory (\<open>STORE\<close>, \<open>LOAD_ELEM\<close>, \<open>BORROW_ELEM\<close>, \<open>BORROW_ELEM_MUT\<close>) work on views, not on scalars;
  they are in \<open>vm_binary\<close> of \<open>Ir_Vm\<close>, which dispatches to this definition for all others. Given two
  scalars, as here, those entries throw: neither operand is a reference or an array.
\<close>

definition eval_op :: "host \<Rightarrow> inst_op \<Rightarrow> prim \<Rightarrow> prim \<times> cval \<Rightarrow> prim \<times> cval \<Rightarrow> cval result" where
  "eval_op h op d l r =
     (if is_comparison op then eval_comparison h op d l r else eval_binary h op d (snd l) (snd r))"

section \<open>Unary operations and assignment\<close>

fun negate :: "cval \<Rightarrow> cval result" where
  "negate (V_bool b) = Inr (V_bool b)"
| "negate (V_int w) = Inr (V_int (- w))"
| "negate (V_int64 w) = Inr (V_int64 (- w))"
| "negate (V_float w) = Inr (V_float (f32_neg w))"
| "negate (V_double w) = Inr (V_double (f64_neg w))"
| "negate _ = Inl Bad_variant"

definition eval_not :: "host \<Rightarrow> prim \<Rightarrow> cval \<Rightarrow> cval result" where
  "eval_not h d v = rbind (conv_to h d v) (\<lambda>a. rbind (to_bool a) (\<lambda>b. conv_to h d (V_bool (\<not> b))))"

definition eval_neg :: "host \<Rightarrow> prim \<Rightarrow> cval \<Rightarrow> cval result" where
  "eval_neg h d v = rbind (conv_to h d v) negate"

text \<open>\<open>assign\<close> between primitive types: equal types are copied, some pairs convert, others throw.\<close>

definition assign_pairs :: "(prim \<times> prim) list" where
  "assign_pairs =
     [(Int64, Int32), (Int64, Int1), (Int32, Int64), (Int1, Int64),
      (Float, Float32), (Float, Float64), (Float32, Float), (Float64, Float)]"

definition assign_prim :: "host \<Rightarrow> prim \<Rightarrow> prim \<Rightarrow> cval \<Rightarrow> cval result" where
  "assign_prim h d s v =
     (if d = s then Inr v
      else if (d, s) \<in> set assign_pairs then conv_to h d v
      else Inl (Compiler_error ''Cannot assign''))"

fun eval_unary :: "host \<Rightarrow> unary_inst_op \<Rightarrow> prim \<Rightarrow> prim \<times> cval \<Rightarrow> cval result" where
  "eval_unary h Op_MOV d x = assign_prim h d (fst x) (snd x)"
| "eval_unary h Op_CONVERT d x = assign_prim h d (fst x) (snd x)"
| "eval_unary h Op_NOT d x = eval_not h d (snd x)"
| "eval_unary h Op_NEG d x = eval_neg h d (snd x)"
| "eval_unary h _ d x = Inl (Compiler_error ''memory operation'')"

text \<open>The result has the type of the destination.\<close>

lemma arith_has_prim:
  "has_prim d a \<Longrightarrow> has_prim d b \<Longrightarrow> arith h op a b = Inr v \<Longrightarrow> has_prim d v"
  by (cases d; cases a; cases b) (auto simp: rbind_eq_Inr)

lemma eval_binary_has_prim: "eval_binary h op d l r = Inr v \<Longrightarrow> has_prim d v"
  unfolding eval_binary_def by (auto simp: rbind_eq_Inr dest: conv_to_has_prim arith_has_prim split: if_splits)

lemma eval_op_has_prim: "eval_op h op d l r = Inr v \<Longrightarrow> has_prim d v"
  by (auto simp: eval_op_def eval_comparison_def Let_def rbind_eq_Inr
      dest: conv_to_has_prim eval_binary_has_prim split: if_splits)

section \<open>Instances\<close>

theorem eval_op_has_prim_witness: "has_prim Int64 (V_int64 12)"
  by (rule eval_op_has_prim [of undefined Op_ADD Int64 "(Int32, V_int 5)" "(Int64, V_int64 7)"])
    (simp add: eval_op_def eval_binary_def is_comparison_def)

end
