(* ===== verification/Isel_Correct.thy ===== *)
theory Isel_Correct
  imports Isel Ir_Eval
begin

text \<open>
  The integer code that instruction selection emits computes what the IR machine computes. A value
  of an integer type lives in a register as its sign extension to 64 bits, a truth value as 0 or 1
  (\<open>repr\<close>). The code of an operation puts the result into its destination and changes no other
  register than \<open>t0\<close> (\<open>computes\<close>), also where the destination is one of the operands.
\<close>

fun repr :: "cval \<Rightarrow> u64" where
  "repr (V_bool b) = bool_word b"
| "repr (V_int w) = sext32 w"
| "repr (V_int64 w) = w"
| "repr _ = 0"

definition finishes :: "nat \<Rightarrow> u64 \<Rightarrow> vm \<Rightarrow> vm result \<Rightarrow> bool" where
  "finishes rd v s r \<longleftrightarrow> (\<exists>t. r = Inr (set_reg (GReg rd) v (set_reg reg_t0 t s)))"

definition computes :: "host \<Rightarrow> image \<Rightarrow> rinst list \<Rightarrow> vm \<Rightarrow> nat \<Rightarrow> u64 \<Rightarrow> bool" where
  "computes h im is s rd v \<longleftrightarrow> finishes rd v s (exec_seq h im is s)"

section \<open>Words\<close>

lemma low32_sext32 [simp]: "low32 (sext32 a) = a"
  by (rule bit_word_eqI) (auto simp: bit_simps)

lemma sint_sext32 [simp]: "sint (sext32 a) = sint a"
  by (simp add: sint_up_scast is_up)

lemma sext32_inj [simp]: "sext32 a = sext32 b \<longleftrightarrow> a = b"
  by (metis low32_sext32)

lemma low32_bool_word [simp]: "low32 (bool_word b) = (if b then 1 else 0)"
  by (simp add: bool_word_def)

lemma sint_bool_word: "sint (bool_word b) = (if b then 1 else 0)"
  by (simp add: bool_word_def)

lemma and_bool_word: "and (bool_word a) (bool_word b) = bool_word (a \<and> b)"
  and or_bool_word: "or (bool_word a) (bool_word b) = bool_word (a \<or> b)"
  by (simp_all add: bool_word_def)

lemma sless_sint: "a <s b \<longleftrightarrow> sint a < sint b" "a \<le>s b \<longleftrightarrow> sint a \<le> sint b"
  by (simp_all add: word_sless_alt word_sle_eq)

lemma sint_eq_iff: "sint (a :: 'a::len word) = sint b \<longleftrightarrow> a = b"
  by (rule word_eq_iff_signed [symmetric])

lemma bool_word_inj [simp]: "bool_word a = bool_word b \<longleftrightarrow> a = b"
  by (simp add: bool_word_def)

lemma shamt_small:
  "unat b < 64 \<Longrightarrow> shamt6 b = unat b"
  "unat (low32 b) < 32 \<Longrightarrow> shamt5 b = unat (low32 b)"
  "unat c < 32 \<Longrightarrow> imm_shamt5 c = unat c"
  "unat c < 64 \<Longrightarrow> imm_shamt6 c = unat c"
proof -
  have m: "(0x3F :: u64) = mask 6" "(0x1F :: u64) = mask 5" "(0x1F :: u32) = mask 5" "(0x3F :: u32) = mask 6"
    by (simp_all add: mask_eq_exp_minus_1)
  show "unat b < 64 \<Longrightarrow> shamt6 b = unat b" "unat c < 32 \<Longrightarrow> imm_shamt5 c = unat c"
    "unat c < 64 \<Longrightarrow> imm_shamt6 c = unat c"
    by (simp_all add: shamt6_def imm_shamt5_def imm_shamt6_def m take_bit_eq_mask [symmetric] unsigned_take_bit_eq take_bit_nat_eq_self)
  assume "unat (low32 b) < 32"
  then have "take_bit 5 (unat (low32 b)) = unat (low32 b)" by (simp add: take_bit_nat_eq_self)
  moreover have "take_bit 5 (unat b) = take_bit 5 (unat (low32 b))"
    by (simp add: unsigned_ucast_eq)
  ultimately show "shamt5 b = unat (low32 b)"
    by (simp add: shamt5_def m take_bit_eq_mask [symmetric] unsigned_take_bit_eq)
qed

lemma is_down_low32: "is_down (ucast :: u64 \<Rightarrow> u32)"
  by (simp add: is_down)

lemma fits_i12_sext: "fits_i12 imm \<Longrightarrow> sext32 (low32 imm) = imm"
proof -
  assume "fits_i12 imm"
  then have "- (2 ^ 31) \<le> sint imm" "sint imm < 2 ^ 31" by (auto simp: fits_i12_def)
  then have k: "signed_take_bit 31 (sint imm) = sint imm"
    by (simp add: signed_take_bit_int_eq_self_iff)
  have "sint (word_of_int (sint imm) :: u32) = signed_take_bit (LENGTH(32) - 1) (sint imm)"
    by (rule sint_sbintrunc')
  moreover have "low32 imm = word_of_int (sint imm)"
    using ucast_down_wi [OF is_down_low32, of "sint imm"] by simp
  ultimately have "sint (low32 imm) = sint imm" using k by simp
  then show ?thesis by (metis sint_eq_iff sint_sext32)
qed

section \<open>Running emitted code\<close>

lemma exec_plain_r [vm_simps]:
  "exec_plain h im (InstR op rd a b) s = Inr (set_reg rd (alu_r op (reg s a) (reg s b)) s)"
  by (simp add: exec_plain_def exec_r_def)

lemma exec_plain_i [vm_simps]:
  "alu_i op (reg s a) imm = Some v \<Longrightarrow> exec_plain h im (InstI op rd a imm) s = Inr (set_reg rd v s)"
  by (simp add: exec_plain_def exec_i_def)

lemma exec_plain_pr [vm_simps]:
  "exec_plain h im (PseudoR op rd a) s = Inr (set_reg rd (pseudo_r op (reg s a)) s)"
  by (simp add: exec_plain_def exec_pseudo_r_def)

lemma exec_plain_li [vm_simps]: "exec_plain h im (PseudoLI rd imm) s = Inr (set_reg rd imm s)"
  by (simp add: exec_plain_def exec_pseudo_li_def)

lemma set_reg_same [simp]: "set_reg r (reg s r) s = s"
  by (simp add: set_reg_def reg_def)

lemma finishes_simps [simp]:
  "v' = v \<Longrightarrow> finishes rd v s (Inr (set_reg (GReg rd) v' s))"
  "v' = v \<Longrightarrow> finishes rd v s (Inr (set_reg (GReg rd) v' (set_reg reg_t0 t s)))"
  by (auto simp: finishes_def intro: exI [of _ "reg s reg_t0"])

lemma gpr_small [simp]: "i < 32 \<Longrightarrow> gpr i = GReg i"
  by (simp add: gpr_def)

text \<open>What a run leaves alone.\<close>

lemma computes_result:
  assumes "computes h im is s rd v"
  shows "\<exists>s'. exec_seq h im is s = Inr s' \<and> reg s' (GReg rd) = v \<and>
    (\<forall>r. r \<noteq> rd \<longrightarrow> r \<noteq> 5 \<longrightarrow> reg s' (GReg r) = reg s (GReg r)) \<and>
    memory s' = memory s \<and> fregs s' = fregs s \<and> vm_out s' = vm_out s"
  using assms by (auto simp: computes_def finishes_def)

text \<open>A register that can be an operand or a destination.\<close>

definition usable :: "nat \<Rightarrow> bool" where
  "usable i \<longleftrightarrow> i < 32 \<and> i \<noteq> 5"

section \<open>Comparisons\<close>

lemma xor_one_bool: "xor (bool_word b) 1 = bool_word (\<not> b)"
  by (rule xor_bool_word)

lemmas run_code =
  computes_def exec_seq_Cons vm_simps sless_sint sint_eq_iff xor_one_bool emit_int_reg_op_def

lemma compare_rr:
  assumes "is_comparison op" and "translate_int_rr op w rd a b = Inr is"
    and "by_tests op (<) (\<le>) (=) (sint (reg s (GReg a))) (sint (reg s (GReg b))) = Inr c"
    and "usable rd" "usable a" "usable b"
  shows "computes h im is s rd (bool_word c)"
  using assms
  by (cases op) (clarsimp simp: is_comparison_def translate_int_rr_def usable_def run_code not_less)+

text \<open>Constants that fit into 32 bits, with their sign.\<close>

definition word_sized :: "u64 \<Rightarrow> bool" where
  "word_sized c \<longleftrightarrow> sext32 (low32 c) = c"

lemma fits_i12_word_sized: "fits_i12 c \<Longrightarrow> word_sized c"
  by (simp add: word_sized_def fits_i12_sext)

lemma word_sized_repr: "word_sized (sext32 a)" "word_sized (bool_word b)"
  by (simp_all add: word_sized_def) (simp add: bool_word_def)

text \<open>\<open>imm + 1\<close> computed on \<open>int\<close> is \<open>imm + 1\<close> where that fits twelve bits.\<close>

lemma word_sized_Suc:
  assumes "word_sized c" and "fits_i12 (c + 1)"
  shows "sext32 (low32 c + 1) = c + 1" and "sint (c + 1) = sint c + 1"
proof -
  have "sext32 (low32 (c + 1)) = c + 1" by (rule fits_i12_sext [OF assms(2)])
  moreover have "low32 (c + 1) = low32 c + 1"
    using ucast_down_wi [OF is_down_low32, of "uint c + 1"]
    by (simp only: of_int_add of_int_1 word_of_int_uint ucast_eq [symmetric])
  ultimately show "sext32 (low32 c + 1) = c + 1" by simp
  have "sint c = sint (low32 c)" using assms(1) by (metis sint_sext32 word_sized_def)
  then have "- (2 ^ 31) \<le> sint c" "sint c < 2 ^ 31"
    using sint_ge [of "low32 c"] sint_lt [of "low32 c"] by simp_all
  then show "sint (c + 1) = sint c + 1"
    by (simp add: sint_word_ariths(1) signed_take_bit_int_eq_self_iff)
qed

lemma compare_ri:
  assumes "is_comparison op" and "translate_int_ri op w rd a c = Inr is" and "word_sized c"
    and "by_tests op (<) (\<le>) (=) (sint (reg s (GReg a))) (sint c) = Inr b"
    and "usable rd" "usable a"
  shows "computes h im is s rd (bool_word b)"
proof -
  have c: "sext32 (low32 c) = c" using assms(3) by (simp add: word_sized_def)
  have le: "x < y + 1 \<longleftrightarrow> x \<le> y" for x y :: int by linarith
  note suc = word_sized_Suc [OF assms(3)]
  show ?thesis
    using assms(1,2,4,5,6)
    by (cases op; cases "fits_i12 c"; cases "fits_i12 (c + 1)")
      (clarsimp simp: is_comparison_def translate_int_ri_def Let_def usable_def run_code c suc le not_less not_le)+
qed

lemma compare_ir:
  assumes "is_comparison op" and "translate_int_ir op w rd c a = Inr is"
    and "op = Op_GT \<or> op = Op_LEQ \<longrightarrow> fits_i12 c"
    and "by_tests op (<) (\<le>) (=) (sint c) (sint (reg s (GReg a))) = Inr b"
    and "usable rd" "usable a"
  shows "computes h im is s rd (bool_word b)"
  using assms
  by (cases op; cases "rd = a")
    (clarsimp simp: is_comparison_def translate_int_ir_def Let_def usable_def run_code fits_i12_sext
      not_less eq_commute [of c])+

section \<open>Arithmetic\<close>

text \<open>
  What the operation of the machine gives on two registers: for the 32-bit form the low halves are
  the operands.
\<close>

fun alu_of :: "inst_op \<Rightarrow> bool \<Rightarrow> op_r option" where
  "alu_of Op_ADD w = Some (if w then R_ADDW else R_ADD)"
| "alu_of Op_SUB w = Some (if w then R_SUBW else R_SUB)"
| "alu_of Op_MUL w = Some (if w then R_MULW else R_MUL)"
| "alu_of Op_DIV w = Some (if w then R_DIVW else R_DIV)"
| "alu_of Op_MOD w = Some (if w then R_REMW else R_REM)"
| "alu_of Op_SHL w = Some (if w then R_SLLW else R_SLL)"
| "alu_of Op_SHRL w = Some (if w then R_SRLW else R_SRL)"
| "alu_of Op_SHRA w = Some (if w then R_SRAW else R_SRA)"
| "alu_of _ w = None"

lemma alu_word:
  assumes "alu_of op True = Some p" and "arith_int op (low32 x) (low32 y) = Inr v"
  shows "alu_r p x y = sext32 v"
  using assms
  by (cases op) (auto simp: divw_def remw_def shamt_small not_le split: if_splits)

lemma alu_double:
  assumes "alu_of op False = Some p" and "arith_int op x y = Inr v"
  shows "alu_r p x y = v"
  using assms
  by (cases op) (auto simp: divd_def remd_def shamt_small not_le split: if_splits)

lemma arith_rr:
  assumes "alu_of op w = Some p" and "translate_int_rr op w rd a b = Inr is"
    and "usable rd" "usable a" "usable b"
  shows "computes h im is s rd (alu_r p (reg s (GReg a)) (reg s (GReg b)))"
  using assms
  by (cases op) (auto simp: translate_int_rr_def usable_def run_code)

lemma low32_minus: "low32 (- c) = - low32 (c :: u64)"
  using ucast_down_wi [OF is_down_low32, of "- uint c"]
  by (simp only: of_int_minus word_of_int_uint ucast_eq [symmetric])

text \<open>Shift distances in the instruction are the operand where the shift is defined.\<close>

definition is_shift :: "inst_op \<Rightarrow> bool" where
  "is_shift op \<longleftrightarrow> op = Op_SHL \<or> op = Op_SHRL \<or> op = Op_SHRA"

lemma shift_defined: "is_shift op \<Longrightarrow> arith_int op x (c :: 'a::len word) = Inr v \<Longrightarrow> unat c < LENGTH('a)"
  by (auto simp: is_shift_def not_le split: if_splits)

lemma low32_small: "unat c < 64 \<Longrightarrow> unat (low32 c) = unat c"
  by (simp add: unsigned_ucast_eq take_bit_nat_eq_self)

lemma shamt_imm:
  "unat (low32 c) < 32 \<Longrightarrow> shamt5 c = imm_shamt5 (low32 c)"
  "unat c < 64 \<Longrightarrow> shamt6 c = imm_shamt6 (low32 c)"
  by (simp_all add: shamt_small low32_small)

lemma add_imm:
  assumes "usable rd" "usable a"
  shows "computes h im (emit_add_reg_imm (gpr rd) (gpr a) c w) s rd
    (alu_r (if w then R_ADDW else R_ADD) (reg s (GReg a)) c)"
  using assms by (auto simp: emit_add_reg_imm_def usable_def run_code fits_i12_sext)

lemma arith_ri_shift:
  assumes "is_shift op" and "alu_of op w = Some p" and "translate_int_ri op w rd a c = Inr is"
    and "if w then unat (low32 c) < 32 else unat c < 64"
    and "usable rd" "usable a"
  shows "computes h im is s rd (alu_r p (reg s (GReg a)) c)"
  using assms
  by (cases op; cases w) (auto simp: is_shift_def translate_int_ri_def Let_def usable_def run_code shamt_imm)

lemma arith_ri_mul:
  assumes "op = Op_MUL \<or> op = Op_DIV \<or> op = Op_MOD" and "alu_of op w = Some p"
    and "translate_int_ri op w rd a c = Inr is" and "word_sized c"
    and "usable rd" "usable a"
  shows "computes h im is s rd (alu_r p (reg s (GReg a)) c)"
  using assms
  by (cases "rd = a") (auto simp: translate_int_ri_def Let_def usable_def run_code word_sized_def)

lemma arith_ri:
  assumes "alu_of op w = Some p" and "translate_int_ri op w rd a c = Inr is" and "word_sized c"
    and "is_shift op \<longrightarrow> (if w then unat (low32 c) < 32 else unat c < 64)"
    and "usable rd" "usable a"
  shows "computes h im is s rd (alu_r p (reg s (GReg a)) c)"
proof -
  consider (shift) "is_shift op" | (mul) "op = Op_MUL \<or> op = Op_DIV \<or> op = Op_MOD"
    | (add) "op = Op_ADD" | (sub) "op = Op_SUB"
    using assms(1) by (cases op) (auto simp: is_shift_def)
  then show ?thesis
  proof cases
    case shift
    then show ?thesis using arith_ri_shift assms by blast
  next
    case mul
    then show ?thesis using arith_ri_mul assms by blast
  next
    case add
    then show ?thesis
      using assms(1,2) add_imm [OF assms(5,6)] by (auto simp: translate_int_ri_def Let_def)
  next
    case sub
    have "alu_r (if w then R_ADDW else R_ADD) x (- c) = alu_r p x c" for x
      using assms(1) sub by (auto simp: low32_minus)
    then show ?thesis
      using assms(2) sub add_imm [OF assms(5,6), of h im "- c" w s] by (simp add: translate_int_ri_def Let_def)
  qed
qed

text \<open>With the constant on the left there is no form for a shift.\<close>

lemma arith_ir:
  assumes "alu_of op w = Some p" and "translate_int_ir op w rd c a = Inr is"
    and "usable rd" "usable a"
  shows "computes h im is s rd (alu_r p c (reg s (GReg a)))"
proof (cases "op = Op_ADD")
  case True
  have "alu_r p x y = alu_r p y x" for x y
    using assms(1) True by (auto simp: add.commute)
  then show ?thesis
    using assms True add_imm [OF assms(3,4), of h im c w s] by (simp add: translate_int_ir_def Let_def)
next
  case False
  then show ?thesis
    using assms
    by (cases op; cases "rd = a") (auto simp: translate_int_ir_def Let_def usable_def run_code isel_error_def mult.commute)
qed

text \<open>Conjunction and disjunction work bit by bit, which is right for truth values.\<close>

lemma bool_and_or:
  assumes "op = Op_AND \<or> op = Op_OR" and "arith_bool op x y = Inr c" and "usable rd" "usable a"
  shows "usable b \<Longrightarrow> translate_int_rr op w rd a b = Inr is \<Longrightarrow> reg s (GReg a) = bool_word x \<Longrightarrow>
      reg s (GReg b) = bool_word y \<Longrightarrow> computes h im is s rd (bool_word c)"
    and "translate_int_ri op w rd a (bool_word y) = Inr is \<Longrightarrow> reg s (GReg a) = bool_word x \<Longrightarrow>
      computes h im is s rd (bool_word c)"
    and "translate_int_ir op w rd (bool_word x) a = Inr is \<Longrightarrow> reg s (GReg a) = bool_word y \<Longrightarrow>
      computes h im is s rd (bool_word c)"
proof -
  have ws: "sext32 (if y then 1 else 0) = bool_word y" by (simp add: bool_word_def)
  show "usable b \<Longrightarrow> translate_int_rr op w rd a b = Inr is \<Longrightarrow> reg s (GReg a) = bool_word x \<Longrightarrow>
      reg s (GReg b) = bool_word y \<Longrightarrow> computes h im is s rd (bool_word c)"
    using assms by (auto simp: translate_int_rr_def usable_def run_code and_bool_word or_bool_word)
  show "translate_int_ri op w rd a (bool_word y) = Inr is \<Longrightarrow> reg s (GReg a) = bool_word x \<Longrightarrow>
      computes h im is s rd (bool_word c)"
    using assms
    by (cases "rd = a")
      (auto simp: translate_int_ri_def Let_def usable_def run_code ws and_bool_word or_bool_word)
  show "translate_int_ir op w rd (bool_word x) a = Inr is \<Longrightarrow> reg s (GReg a) = bool_word y \<Longrightarrow>
      computes h im is s rd (bool_word c)"
    using assms
    by (cases "rd = a")
      (auto simp: translate_int_ir_def Let_def usable_def run_code and_bool_word or_bool_word
        conj_commute disj_commute)
qed

section \<open>What the IR machine computes, in registers\<close>

lemma conv_int64: "int_prim p \<Longrightarrow> has_prim p v \<Longrightarrow> conv_to h Int64 v = Inr (V_int64 (repr v))"
  by (cases v; cases p) (simp_all add: int_prim_def)

lemma conv_int32:
  "p = Int1 \<or> p = Int32 \<Longrightarrow> has_prim p v \<Longrightarrow> conv_to h Int32 v = Inr (V_int (low32 (repr v)))"
  by (cases v; cases p) simp_all

definition wider :: "prim \<Rightarrow> prim \<Rightarrow> prim" where
  "wider p q = (if size_of_prim p < size_of_prim q then q else p)"

lemma wider_int: "int_prim p \<Longrightarrow> int_prim q \<Longrightarrow> int_prim (wider p q)"
  by (simp add: wider_def)

lemma wider_32: "int_prim p \<Longrightarrow> int_prim q \<Longrightarrow> wider p q = Int32 \<Longrightarrow> (p = Int1 \<or> p = Int32) \<and> (q = Int1 \<or> q = Int32)"
  by (auto simp: int_prim_def wider_def split: if_splits)

lemma eval_arith:
  assumes "alu_of op (d = Int32) = Some p" and "d = wider p1 p2" and "d \<noteq> Int1"
    and "int_prim p1" "int_prim p2" "has_prim p1 v1" "has_prim p2 v2"
    and "eval_binary h op d v1 v2 = Inr v"
  shows "repr v = alu_r p (repr v1) (repr v2)"
    and "is_shift op \<longrightarrow> (if d = Int32 then unat (low32 (repr v2)) < 32 else unat (repr v2) < 64)"
proof -
  have int: "d = Int32 \<or> d = Int64"
    using wider_int [OF assms(4,5)] assms(2,3) by (auto simp: int_prim_def)
  have "repr v = alu_r p (repr v1) (repr v2) \<and>
    (is_shift op \<longrightarrow> (if d = Int32 then unat (low32 (repr v2)) < 32 else unat (repr v2) < 64))"
  proof (cases "d = Int32")
    case True
    then have c: "conv_to h d v1 = Inr (V_int (low32 (repr v1)))" "conv_to h d v2 = Inr (V_int (low32 (repr v2)))"
      using wider_32 [OF assms(4,5)] conv_int32 assms(2,6,7) by auto
    then obtain r where r: "arith_int op (low32 (repr v1)) (low32 (repr v2)) = Inr r" "v = V_int r"
      using assms(8) True by (auto simp: eval_binary_def rbind_eq_Inr)
    then show ?thesis
      using alu_word [OF _ r(1)] shift_defined [OF _ r(1)] assms(1) True by auto
  next
    case False
    then have c: "conv_to h d v1 = Inr (V_int64 (repr v1))" "conv_to h d v2 = Inr (V_int64 (repr v2))"
      using int conv_int64 assms(4-7) by auto
    then obtain r where r: "arith_int op (repr v1) (repr v2) = Inr r" "v = V_int64 r"
      using assms(8) False int by (auto simp: eval_binary_def rbind_eq_Inr)
    then show ?thesis
      using alu_double [OF _ r(1)] shift_defined [OF _ r(1)] assms(1) False by auto
  qed
  then show "repr v = alu_r p (repr v1) (repr v2)"
    and "is_shift op \<longrightarrow> (if d = Int32 then unat (low32 (repr v2)) < 32 else unat (repr v2) < 64)"
    by blast+
qed

lemma compare_repr:
  assumes "int_prim t" "has_prim t a" "has_prim t b"
  shows "compare op a b = by_tests op (<) (\<le>) (=) (sint (repr a)) (sint (repr b))"
  using assms
proof (cases t)
  case Int1
  then obtain x y where "a = V_bool x" "b = V_bool y"
    using assms(2,3) by (cases a; cases b) auto
  then show ?thesis
    by (cases op; cases x; cases y) (simp_all add: sint_bool_word)
next
  case Int32
  then show ?thesis using assms(2,3) by (cases a; cases b) auto
next
  case Int64
  then show ?thesis using assms(2,3) by (cases a; cases b) auto
qed (simp_all add: int_prim_def)

lemma conv_widens:
  assumes "int_prim p" "int_prim t" "has_prim p v" "rank p \<le> rank t"
  shows "\<exists>u. conv_to h t v = Inr u \<and> has_prim t u \<and> repr u = repr v"
  using assms
  by (cases v; cases p; cases t) (auto simp: int_prim_def bool_word_def)

lemma conv_bool: "int_prim d \<Longrightarrow> \<exists>u. conv_to h d (V_bool c) = Inr u \<and> repr u = bool_word c"
  by (cases d) (auto simp: int_prim_def bool_word_def)

lemma eval_compare:
  assumes "int_prim p1" "int_prim p2" "int_prim d" "has_prim p1 v1" "has_prim p2 v2"
    and "eval_comparison h op d (p1, v1) (p2, v2) = Inr v"
  shows "\<exists>c. by_tests op (<) (\<le>) (=) (sint (repr v1)) (sint (repr v2)) = Inr c \<and> repr v = bool_word c"
proof -
  let ?t = "common_type p1 p2"
  have t: "int_prim ?t" "rank p1 \<le> rank ?t" "rank p2 \<le> rank ?t"
    using assms(1,2) by (auto simp: common_type_def)
  obtain a where a: "conv_to h ?t v1 = Inr a" "has_prim ?t a" "repr a = repr v1"
    using conv_widens [OF assms(1) t(1) assms(4) t(2)] by blast
  obtain b where b: "conv_to h ?t v2 = Inr b" "has_prim ?t b" "repr b = repr v2"
    using conv_widens [OF assms(2) t(1) assms(5) t(3)] by blast
  obtain c where c: "compare op a b = Inr c" "conv_to h d (V_bool c) = Inr v"
    using assms(6) a(1) b(1) by (auto simp: eval_comparison_def Let_def rbind_eq_Inr)
  show ?thesis
    using c conv_bool [OF assms(3), of h c] compare_repr [OF t(1) a(2) b(2), of op] a(3) b(3) by auto
qed

section \<open>Instruction selection is correct on integers\<close>

text \<open>An operand is a constant of its type or a variable whose register holds its value.\<close>

definition holds :: "color_map \<Rightarrow> vm \<Rightarrow> val \<Rightarrow> prim \<Rightarrow> cval \<Rightarrow> bool" where
  "holds cm s x p v \<longleftrightarrow>
     int_prim p \<and> has_prim p v \<and> type_of x = Prim p \<and>
     (case x of
        Const c \<Rightarrow> cvalue c = v
      | Left lv \<Rightarrow> (case lookup_lv cm lv of
                     None \<Rightarrow> False
                   | Some r \<Rightarrow> usable r \<and> reg s (GReg r) = repr v))"

definition is_const :: "val \<Rightarrow> bool" where
  "is_const x = (case x of Const c \<Rightarrow> True | Left lv \<Rightarrow> False)"

text \<open>The operand patterns for which the emitted code is right.\<close>

definition good_operands :: "inst_op \<Rightarrow> val \<Rightarrow> cval \<Rightarrow> val \<Rightarrow> cval \<Rightarrow> bool" where
  "good_operands op lhs v1 rhs v2 \<longleftrightarrow>
     \<not> (is_const lhs \<and> is_const rhs) \<and>
     (is_const rhs \<longrightarrow> word_sized (repr v2)) \<and>
     (is_const lhs \<longrightarrow> \<not> is_shift op \<and> (op = Op_GT \<or> op = Op_LEQ \<longrightarrow> fits_i12 (repr v1)))"

text \<open>The destination type for which the emitted code is right.\<close>

definition good_dest :: "inst_op \<Rightarrow> prim \<Rightarrow> prim \<Rightarrow> prim \<Rightarrow> bool" where
  "good_dest op d p1 p2 \<longleftrightarrow>
     int_prim d \<and>
     (if is_comparison op then True
      else if op = Op_AND \<or> op = Op_OR then d = Int1 \<and> p1 = Int1 \<and> p2 = Int1
      else alu_of op True \<noteq> None \<and> d = wider p1 p2 \<and> d \<noteq> Int1)"

lemma extract_imm_repr: "int_prim p \<Longrightarrow> has_prim p (cvalue c) \<Longrightarrow> extract_imm c = Some (repr (cvalue c))"
  by (cases "cvalue c"; cases p) (auto simp: extract_imm_def int_prim_def)

lemma abi_size_prim: "abi_size (Prim p) = Inr (size_of_prim p)"
  by (cases p) simp_all

lemma translate_operation_int:
  assumes "int_prim p1" "int_prim p2" "type_of lhs = Prim p1" "type_of rhs = Prim p2"
  shows "translate_operation cm op rd lhs rhs lits =
    with_lits lits (select_form False (wider p1 p2 = Int32) op rd lhs rhs (lookup_reg cm lhs) (lookup_reg cm rhs))"
proof -
  have fp: "\<not> is_fp_op (Prim p1)" "\<not> is_fp_op (Prim p2)"
    and w: "is_32bit_op (Prim p1) = (p1 = Int32)" "is_32bit_op (Prim p2) = (p2 = Int32)"
    using assms(1,2) by (auto simp: int_prim_def)
  show ?thesis
    unfolding translate_operation_def Let_def assms(3,4) abi_size_prim rbind.simps
    by (simp only: fp w wider_def simp_thms if_True if_False if_distrib [of is_32bit_op] split: if_split)
      simp
qed

lemma alu_of_w: "alu_of op True \<noteq> None \<Longrightarrow> \<exists>p. alu_of op w = Some p"
  by (cases op) auto

lemma forms_total:
  assumes "is_comparison op \<or> op = Op_AND \<or> op = Op_OR \<or> alu_of op True \<noteq> None"
  shows "\<exists>is. translate_int_rr op w rd a b = Inr is"
    and "\<exists>is. translate_int_ri op w rd a c = Inr is"
    and "\<not> is_shift op \<Longrightarrow> \<exists>is. translate_int_ir op w rd c a = Inr is"
  using assms
  by (cases op; simp add: translate_int_rr_def translate_int_ri_def translate_int_ir_def Let_def
      is_comparison_def is_shift_def)+

text \<open>The three integer forms, from what is in the registers.\<close>

lemma int_forms_correct:
  assumes good: "good_dest op d p1 p2" and ev: "eval_op h op d (p1, v1) (p2, v2) = Inr v"
    and ty: "int_prim p1" "int_prim p2" "has_prim p1 v1" "has_prim p2 v2"
    and rd: "usable rd" and w: "w = (wider p1 p2 = Int32)"
  shows "translate_int_rr op w rd a b = Inr is \<Longrightarrow> usable a \<Longrightarrow> usable b \<Longrightarrow>
      reg s (GReg a) = repr v1 \<Longrightarrow> reg s (GReg b) = repr v2 \<Longrightarrow> computes h' im is s rd (repr v)"
    and "translate_int_ri op w rd a (repr v2) = Inr is \<Longrightarrow> usable a \<Longrightarrow> word_sized (repr v2) \<Longrightarrow>
      reg s (GReg a) = repr v1 \<Longrightarrow> computes h' im is s rd (repr v)"
    and "translate_int_ir op w rd (repr v1) a = Inr is \<Longrightarrow> usable a \<Longrightarrow>
      op = Op_GT \<or> op = Op_LEQ \<longrightarrow> fits_i12 (repr v1) \<Longrightarrow>
      reg s (GReg a) = repr v2 \<Longrightarrow> computes h' im is s rd (repr v)"
proof -
  consider (cmp) "is_comparison op" | (bool) "op = Op_AND \<or> op = Op_OR" "d = Int1" "p1 = Int1" "p2 = Int1"
    "\<not> is_comparison op"
    | (arith) p where "alu_of op w = Some p" "d = wider p1 p2" "d \<noteq> Int1" "\<not> is_comparison op"
    using good alu_of_w [of op w] by (auto simp: good_dest_def split: if_splits)
  then have "(translate_int_rr op w rd a b = Inr is \<longrightarrow> usable a \<longrightarrow> usable b \<longrightarrow>
      reg s (GReg a) = repr v1 \<longrightarrow> reg s (GReg b) = repr v2 \<longrightarrow> computes h' im is s rd (repr v)) \<and>
    (translate_int_ri op w rd a (repr v2) = Inr is \<longrightarrow> usable a \<longrightarrow> word_sized (repr v2) \<longrightarrow>
      reg s (GReg a) = repr v1 \<longrightarrow> computes h' im is s rd (repr v)) \<and>
    (translate_int_ir op w rd (repr v1) a = Inr is \<longrightarrow> usable a \<longrightarrow>
      (op = Op_GT \<or> op = Op_LEQ \<longrightarrow> fits_i12 (repr v1)) \<longrightarrow>
      reg s (GReg a) = repr v2 \<longrightarrow> computes h' im is s rd (repr v))"
  proof cases
    case cmp
    then obtain c where c: "by_tests op (<) (\<le>) (=) (sint (repr v1)) (sint (repr v2)) = Inr c" "repr v = bool_word c"
      using ev good eval_compare [OF ty(1,2) _ ty(3,4), of d h op v] by (auto simp: eval_op_def good_dest_def)
    show ?thesis
      using c rd compare_rr [OF cmp] compare_ri [OF cmp] compare_ir [OF cmp] by metis
  next
    case bool
    obtain x y where xy: "v1 = V_bool x" "v2 = V_bool y"
      using ty(3,4) bool(3,4) by (cases v1; cases v2) auto
    then obtain c where c: "arith_bool op x y = Inr c" "v = V_bool c"
      using ev bool(2,5) by (auto simp: eval_op_def eval_binary_def rbind_eq_Inr)
    show ?thesis
      using bool_and_or [OF bool(1) c(1) rd] c(2) xy by auto
  next
    case arith
    have e: "eval_binary h op d v1 v2 = Inr v" using ev arith(4) by (simp add: eval_op_def)
    have w': "w = (d = Int32)" using w arith(2) by simp
    note val = eval_arith [OF arith(1) [unfolded w'] arith(2,3) ty e]
    show ?thesis
      unfolding val(1)
      using val(2) arith_rr [OF arith(1) _ rd, of a b "is" h' im s]
        arith_ri [OF arith(1) _ _ _ rd, of a "repr v2" "is" h' im s]
        arith_ir [OF arith(1) _ rd, of "repr v1" a "is" h' im s]
      by (intro conjI impI) (simp_all add: w')
  qed
  then show "translate_int_rr op w rd a b = Inr is \<Longrightarrow> usable a \<Longrightarrow> usable b \<Longrightarrow>
      reg s (GReg a) = repr v1 \<Longrightarrow> reg s (GReg b) = repr v2 \<Longrightarrow> computes h' im is s rd (repr v)"
    and "translate_int_ri op w rd a (repr v2) = Inr is \<Longrightarrow> usable a \<Longrightarrow> word_sized (repr v2) \<Longrightarrow>
      reg s (GReg a) = repr v1 \<Longrightarrow> computes h' im is s rd (repr v)"
    and "translate_int_ir op w rd (repr v1) a = Inr is \<Longrightarrow> usable a \<Longrightarrow>
      op = Op_GT \<or> op = Op_LEQ \<longrightarrow> fits_i12 (repr v1) \<Longrightarrow>
      reg s (GReg a) = repr v2 \<Longrightarrow> computes h' im is s rd (repr v)"
    by blast+
qed

lemma holds_const: "holds cm s (Const c) p v \<Longrightarrow> extract_imm c = Some (repr v) \<and> lookup_reg cm (Const c) = None"
  using extract_imm_repr by (auto simp: holds_def)

lemma holds_var:
  "holds cm s (Left lv) p v \<Longrightarrow> \<exists>r. lookup_reg cm (Left lv) = Some r \<and> usable r \<and> reg s (GReg r) = repr v"
  by (auto simp: holds_def split: option.splits)

text \<open>
  C1: instruction selection of an integer binary instruction is correct under stated conditions.
  The operands are variables in registers or constants, not both constants, and the IR result is
  defined. The destination is of integer type: any for a comparison, i1 with i1 operands for AND
  and OR (on wider operands the code is bitwise where the IR is logical, see bitwise_and), the
  wider operand type, not i1, for arithmetic and shifts. A constant on the right fits 32 bits (the
  code cuts it, see cut_constant); a constant on the left is not shifted, and under greater-than
  and less-or-equal it fits twelve bits (beyond, the code compares in the opposite order). Then
  the emitted instructions run to the end, put the IR result into the result register and change
  only that register and the scratch register t0.
\<close>

lemma translate_binary_int:
  assumes good: "good_dest op d p1 p2" "good_operands op lhs v1 rhs v2"
    and ops: "holds cm s lhs p1 v1" "holds cm s rhs p2 v2"
    and ev: "eval_op h op d (p1, v1) (p2, v2) = Inr v"
    and res: "lookup_lv cm res = Some rd" "usable rd"
  shows "\<exists>is. translate_binary A fr cm op (Some res) lhs rhs lits = Inr (is, lits) \<and>
    computes h' im is s rd (repr v)"
proof -
  have ty: "int_prim p1" "int_prim p2" "has_prim p1 v1" "has_prim p2 v2" "type_of lhs = Prim p1" "type_of rhs = Prim p2"
    using ops by (auto simp: holds_def)
  define w where "w = (wider p1 p2 = Int32)"
  have known: "is_comparison op \<or> op = Op_AND \<or> op = Op_OR \<or> alu_of op True \<noteq> None"
    using good(1) by (auto simp: good_dest_def split: if_splits)
  note forms = int_forms_correct [OF good(1) ev ty(1-4) res(2) w_def]
  have "\<exists>is. select_form False w op rd lhs rhs (lookup_reg cm lhs) (lookup_reg cm rhs) = Inr is \<and>
      computes h' im is s rd (repr v)"
  proof (cases lhs)
    case c1: (Const c)
    then obtain lv where rhs: "rhs = Left lv"
      using good(2) by (cases rhs) (auto simp: good_operands_def is_const_def)
    obtain r where r: "lookup_reg cm (Left lv) = Some r" "usable r" "reg s (GReg r) = repr v2"
      using holds_var ops(2) rhs by blast
    have g: "\<not> is_shift op" "op = Op_GT \<or> op = Op_LEQ \<longrightarrow> fits_i12 (repr v1)"
      using good(2) c1 by (auto simp: good_operands_def is_const_def)
    then obtain "is" where "translate_int_ir op w rd (repr v1) r = Inr is"
      using forms_total(3) [OF known] by blast
    then show ?thesis
      using forms(3) g(2) r holds_const ops(1) by (auto simp: c1 rhs select_form_def)
  next
    case l: (Left lv)
    obtain a where a: "lookup_reg cm (Left lv) = Some a" "usable a" "reg s (GReg a) = repr v1"
      using holds_var ops(1) l by blast
    show ?thesis
    proof (cases rhs)
      case (Const c)
      have "word_sized (repr v2)" using good(2) Const by (auto simp: good_operands_def is_const_def)
      moreover obtain "is" where "translate_int_ri op w rd a (repr v2) = Inr is"
        using forms_total(2) [OF known] by blast
      ultimately show ?thesis
        using forms(2) a holds_const ops(2) by (auto simp: l Const select_form_def)
    next
      case (Left lv')
      obtain b where b: "lookup_reg cm (Left lv') = Some b" "usable b" "reg s (GReg b) = repr v2"
        using holds_var ops(2) Left by blast
      moreover obtain "is" where "translate_int_rr op w rd a b = Inr is"
        using forms_total(1) [OF known] by blast
      ultimately show ?thesis
        using forms(1) a by (auto simp: l Left select_form_def)
    qed
  qed
  then show ?thesis
    using translate_operation_int [OF ty(1,2,5,6), of cm op rd lits] res(1)
    by (auto simp: translate_binary_def w_def with_lits_def)
qed

text \<open>
  With a constant beyond twelve bits on the left, \<open>>\<close> and \<open><=\<close> are emitted as \<open><\<close> and \<open>>=\<close>: the
  comparison computes the opposite order.
\<close>

text \<open>
  C34: with a constant that does not fit twelve bits on the left, the greater-than and
  less-or-equal comparisons are emitted in the opposite order: for constant c and operand x the
  register receives c < x instead of c > x, and c >= x instead of c <= x.
\<close>

lemma wrong_order:
  assumes "\<not> fits_i12 c" and "usable rd" "usable a"
  shows "(\<exists>is. translate_int_ir Op_GT w rd c a = Inr is \<and>
      computes h im is s rd (bool_word (sint c < sint (reg s (GReg a))))) \<and>
    (\<exists>is. translate_int_ir Op_LEQ w rd c a = Inr is \<and>
      computes h im is s rd (bool_word (sint (reg s (GReg a)) \<le> sint c)))"
  using assms by (simp_all add: translate_int_ir_def Let_def usable_def run_code not_less)

text \<open>
  A constant on the right is cut to 32 bits by most operators, and AND and OR work bit by bit on all
  integer types. So the conditions on the operands and on the types above cannot be dropped.
\<close>

lemma cut_constant:
  assumes "usable rd" and "usable a"
  shows "\<exists>is. translate_int_ri Op_EQ w rd a c = Inr is \<and>
    computes h im is s rd (bool_word (reg s (GReg a) = sext32 (low32 c)))"
  using assms by (simp add: translate_int_ri_def Let_def usable_def run_code)

lemma bitwise_and:
  assumes "usable rd" and "usable a" and "usable b"
  shows "\<exists>is. translate_int_rr Op_AND w rd a b = Inr is \<and>
    computes h im is s rd (alu_r R_AND (reg s (GReg a)) (reg s (GReg b)))"
  using assms by (simp add: translate_int_rr_def Let_def usable_def run_code)

section \<open>Instances\<close>

theorem translate_binary_int_witness:
  "\<forall>A fr h h' im. \<exists>is.
     translate_binary A fr [K_temp 0 0 \<mapsto> 10, K_temp 0 1 \<mapsto> 11] Op_SUB (Some (TempValue (Prim Int32) 1 0))
       (Left (TempValue (Prim Int32) 0 0)) (Const (mk_const (V_int 7))) [] = Inr (is, []) \<and>
     computes h' im is (set_reg (GReg 10) 5 (reset_vm [] True [])) 11 (repr (V_int (- 2)))"
proof (intro allI)
  fix A fr h h' im
  show "\<exists>is. translate_binary A fr [K_temp 0 0 \<mapsto> 10, K_temp 0 1 \<mapsto> 11] Op_SUB (Some (TempValue (Prim Int32) 1 0))
       (Left (TempValue (Prim Int32) 0 0)) (Const (mk_const (V_int 7))) [] = Inr (is, []) \<and>
     computes h' im is (set_reg (GReg 10) 5 (reset_vm [] True [])) 11 (repr (V_int (- 2)))"
  proof (rule translate_binary_int [where ?p1.0 = Int32 and ?p2.0 = Int32 and d = Int32 and h = h and
        ?v1.0 = "V_int 5" and ?v2.0 = "V_int 7"])
    show "eval_op h Op_SUB Int32 (Int32, V_int 5) (Int32, V_int 7) = Inr (V_int (- 2))"
      by (simp add: eval_op_def is_comparison_def eval_binary_def)
  qed (simp_all add: good_dest_def is_comparison_def wider_def int_prim_def good_operands_def is_const_def is_shift_def
      word_sized_def holds_def lookup_lv_def usable_def mk_const_def)
qed

theorem wrong_order_witness:
  "\<forall>h im s. (\<exists>is. translate_int_ir Op_GT False 11 5000 10 = Inr is \<and>
       computes h im is s 11 (bool_word (sint (5000 :: u64) < sint (reg s (GReg 10))))) \<and>
     (\<exists>is. translate_int_ir Op_LEQ False 11 5000 10 = Inr is \<and>
       computes h im is s 11 (bool_word (sint (reg s (GReg 10)) \<le> sint (5000 :: u64))))"
proof (intro allI conjI)
  fix h im s
  have c: "\<not> fits_i12 5000" "usable 11" "usable 10" by (simp_all add: fits_i12_def usable_def)
  show "\<exists>is. translate_int_ir Op_GT False 11 5000 10 = Inr is \<and>
       computes h im is s 11 (bool_word (sint (5000 :: u64) < sint (reg s (GReg 10))))"
    using wrong_order [OF c, of False h im s] by simp
  show "\<exists>is. translate_int_ir Op_LEQ False 11 5000 10 = Inr is \<and>
       computes h im is s 11 (bool_word (sint (reg s (GReg 10)) \<le> sint (5000 :: u64)))"
    using wrong_order [OF c, of False h im s] by simp
qed

end
