(* ===== verification/Isel_Frame.thy ===== *)
theory Isel_Frame
  imports Isel
begin

text \<open>
  The stack frame of \<open>compute_frame\<close>: the slots of the locals lie between the area for outgoing
  arguments and the end of the frame, do not overlap and are aligned; the slots of the parameters
  lie above the frame, eight bytes each; the size of the frame is a multiple of 16.
\<close>

definition slot_size :: "alloc_store \<Rightarrow> alloc_id \<Rightarrow> nat" where
  "slot_size A a = (case abi_size (al_type (A a)) of Inl e \<Rightarrow> 0 | Inr n \<Rightarrow> n)"

definition slots_ok :: "alloc_store \<Rightarrow> nat \<Rightarrow> slots \<Rightarrow> bool" where
  "slots_ok A base st \<longleftrightarrow>
     base \<le> fst st \<and>
     (\<forall>a x. snd st a = Some x \<longrightarrow> base \<le> x \<and> x + slot_size A a \<le> fst st) \<and>
     (\<forall>a b x y. a \<noteq> b \<longrightarrow> snd st a = Some x \<longrightarrow> snd st b = Some y \<longrightarrow>
        x + slot_size A a \<le> y \<or> y + slot_size A b \<le> x) \<and>
     (\<forall>a x k. snd st a = Some x \<longrightarrow> 1 < slot_size A a \<longrightarrow> 2 ^ k dvd slot_size A a \<longrightarrow> 2 ^ k dvd x)"

lemma align_nat_bounds:
  assumes "offset + align < 2 ^ 64"
  shows "offset \<le> align_nat offset align" and "align_nat offset align \<le> offset + align"
    and "1 < align \<Longrightarrow> 2 ^ k dvd align \<Longrightarrow> 2 ^ k dvd align_nat offset align"
proof -
  have u: "unat (of_nat offset :: u64) = offset" "unat (of_nat align :: u64) = align"
    using assms by (simp_all add: unsigned_of_nat take_bit_nat_eq_self)
  show "offset \<le> align_nat offset align" "align_nat offset align \<le> offset + align"
    using align_up_bounds [of "of_nat align :: u64" "of_nat offset :: u64"] assms
    by (auto simp: align_nat_def u)
  assume a: "1 < align" "2 ^ k dvd align"
  have "(2 :: nat) ^ k \<le> align" using a by (intro dvd_imp_le) auto
  then have "(2 :: nat) ^ k < 2 ^ 64" using assms by linarith
  then have "k < 64" by (rule power_less_imp_less_exp [rotated]) simp
  then show "2 ^ k dvd align_nat offset align"
    using align_up_dvd [of k "of_nat align :: u64" "of_nat offset :: u64"] a by (auto simp: align_nat_def u)
qed

lemma place_local_step:
  assumes "place_local A a st = Inr st'" and "slots_ok A base st" and "snd st a = None"
    and "fst st + 2 * slot_size A a < 2 ^ 64"
  shows "slots_ok A base st'" and "fst st' \<le> fst st + 2 * slot_size A a"
    and "dom (snd st') = dom (snd st) \<union> (if al_reference (A a) then {a} else {})"
proof -
  have "slots_ok A base st' \<and> fst st' \<le> fst st + 2 * slot_size A a \<and>
    dom (snd st') = dom (snd st) \<union> (if al_reference (A a) then {a} else {})"
  proof (cases "al_reference (A a)")
    case False
    then show ?thesis using assms by (simp add: place_local_def)
  next
    case True
    define x where "x = align_nat (fst st) (slot_size A a)"
    have st': "st' = (x + slot_size A a, (snd st)(a \<mapsto> x))"
      using assms(1) True by (auto simp: place_local_def rbind_eq_Inr Let_def x_def slot_size_def)
    have "fst st + slot_size A a < 2 ^ 64" using assms(4) by linarith
    note al = align_nat_bounds [OF this, folded x_def]
    show ?thesis
      unfolding slots_ok_def st'
      using assms(2,3) al True unfolding slots_ok_def
      by (auto split: if_splits) (fastforce)+
  qed
  then show "slots_ok A base st'" "fst st' \<le> fst st + 2 * slot_size A a"
    "dom (snd st') = dom (snd st) \<union> (if al_reference (A a) then {a} else {})" by blast+
qed

lemma place_locals:
  assumes "rfold (place_local A) as st = Inr st'" and "slots_ok A base st"
    and "distinct as" "set as \<inter> dom (snd st) = {}"
    and "fst st + 2 * sum_list (map (slot_size A) as) < 2 ^ 64"
  shows "slots_ok A base st' \<and> fst st' \<le> fst st + 2 * sum_list (map (slot_size A) as) \<and>
    dom (snd st') = dom (snd st) \<union> {a \<in> set as. al_reference (A a)}"
  using assms
proof (induction as arbitrary: st)
  case (Cons a as)
  then obtain q where q: "place_local A a st = Inr q" "rfold (place_local A) as q = Inr st'"
    by (auto simp: rbind_eq_Inr)
  have "snd st a = None" "fst st + 2 * slot_size A a < 2 ^ 64"
    using Cons.prems(4,5) by auto
  note here = place_local_step [OF q(1) Cons.prems(2) this]
  have "slots_ok A base st' \<and> fst st' \<le> fst q + 2 * sum_list (map (slot_size A) as) \<and>
    dom (snd st') = dom (snd q) \<union> {a \<in> set as. al_reference (A a)}"
    by (rule Cons.IH [OF q(2) here(1)]) (use Cons.prems(3-5) here in \<open>auto split: if_splits\<close>)
  then show ?case using here by (auto split: if_splits)
qed auto

section \<open>Parameters\<close>

lemma place_param_offset:
  assumes "8 dvd n" and "n + 8 < 2 ^ 64"
  shows "unat (and (of_nat n + 7 :: u64) (not 7)) = n"
proof -
  have al: "and (of_nat n + 7 :: u64) (not 7) = align_up (of_nat n) 8"
    by (simp add: align_up_def add.commute)
  have u: "unat (of_nat n :: u64) = n"
    using assms(2) by (simp add: unsigned_of_nat take_bit_nat_eq_self)
  have b: "n \<le> unat (align_up (of_nat n) (8 :: u64))" "unat (align_up (of_nat n) (8 :: u64)) < n + 8"
    using align_up_bounds [of "8 :: u64" "of_nat n :: u64"] assms(2) by (simp_all add: u)
  have "2 ^ 3 dvd unat (align_up (of_nat n) (8 :: u64))" by (rule align_up_dvd) simp_all
  then have "8 dvd unat (align_up (of_nat n) (8 :: u64))" by simp
  then show ?thesis
    using b assms(1) unfolding al by (auto elim!: dvdE)
qed

lemma place_params:
  assumes "rfold (place_param A) ps st = Inr st'" and "8 dvd fst st"
    and "fst st + 8 * length ps < 2 ^ 64" and "distinct ps"
  shows "(\<forall>k<length (filter (\<lambda>a. al_reference (A a)) ps).
      snd st' (filter (\<lambda>a. al_reference (A a)) ps ! k) = Some (fst st + 8 * k)) \<and>
    (\<forall>a. a \<notin> set ps \<longrightarrow> snd st' a = snd st a)"
  using assms
proof (induction ps arbitrary: st)
  case (Cons p ps)
  from Cons.prems(1) obtain q where q: "place_param A p st = Inr q" "rfold (place_param A) ps q = Inr st'"
    by (auto simp: rbind_eq_Inr)
  have q_eq: "q = (if al_reference (A p) then (fst st + 8, (snd st)(p \<mapsto> fst st)) else st)"
    using q(1) place_param_offset [of "fst st"] Cons.prems(2,3)
    by (auto simp: place_param_def Let_def split: if_splits)
  have pre: "8 dvd fst q" "fst q + 8 * length ps < 2 ^ 64" "distinct ps" "p \<notin> set ps"
    using Cons.prems(2-4) by (auto simp: q_eq)
  note IH = Cons.IH [OF q(2) pre(1-3)]
  show ?case
  proof (cases "al_reference (A p)")
    case True
    have "snd st' p = Some (fst st)" using IH pre(4) True by (simp add: q_eq)
    then show ?thesis
      using IH True by (auto simp: q_eq nth_Cons' split: if_splits)
  next
    case False
    then show ?thesis using IH by (simp add: q_eq)
  qed
qed simp

section \<open>The frame\<close>

definition frame_bound :: "alloc_store \<Rightarrow> ir_func \<Rightarrow> nat" where
  "frame_bound A fn =
     outgoing_arg_area fn + 2 * sum_list (map (slot_size A) (fn_locals fn)) + 32 + 8 * length (fn_params fn)"

definition ref_params :: "alloc_store \<Rightarrow> ir_func \<Rightarrow> alloc_id list" where
  "ref_params A fn = filter (\<lambda>a. al_reference (A a)) (fn_params fn)"

lemma frame_parts:
  assumes fr: "compute_frame A fn = Inr fr" and dist: "distinct (fn_params fn @ fn_locals fn)"
    and bound: "frame_bound A fn < 2 ^ 64"
  shows "16 dvd total_size fr"
    and "\<forall>a\<in>set (fn_locals fn). al_reference (A a) \<longrightarrow>
      (\<exists>x. spill_offsets fr a = Some x \<and> outgoing_arg_area fn \<le> x \<and> x + slot_size A a \<le> total_size fr \<and>
        (\<forall>k. 1 < slot_size A a \<longrightarrow> 2 ^ k dvd slot_size A a \<longrightarrow> 2 ^ k dvd x))"
    and "\<forall>a\<in>set (fn_locals fn). \<forall>b\<in>set (fn_locals fn). a \<noteq> b \<longrightarrow>
      al_reference (A a) \<longrightarrow> al_reference (A b) \<longrightarrow>
      the (spill_offsets fr a) + slot_size A a \<le> the (spill_offsets fr b) \<or>
      the (spill_offsets fr b) + slot_size A b \<le> the (spill_offsets fr a)"
    and "\<forall>k<length (ref_params A fn). spill_offsets fr (ref_params A fn ! k) = Some (total_size fr + 8 * k)"
proof -
  obtain st st' where st: "rfold (place_local A) (fn_locals fn) (outgoing_arg_area fn, Map.empty) = Inr st"
    and st': "rfold (place_param A) (fn_params fn) (align_nat (fst st) 16, snd st) = Inr st'"
    and layout: "fr = empty_frame\<lparr>total_size := align_nat (fst st) 16, spill_offsets := snd st'\<rparr>"
    using fr by (auto simp: compute_frame_def rbind_eq_Inr Let_def)
  let ?t = "align_nat (fst st) 16"
  have locals: "slots_ok A (outgoing_arg_area fn) st"
    "fst st \<le> outgoing_arg_area fn + 2 * sum_list (map (slot_size A) (fn_locals fn))"
    "dom (snd st) = {a \<in> set (fn_locals fn). al_reference (A a)}"
    using place_locals [OF st, of "outgoing_arg_area fn"] dist bound
    by (auto simp: slots_ok_def frame_bound_def)
  have small: "fst st + 16 < 2 ^ 64" using locals(2) bound by (simp add: frame_bound_def)
  have t: "fst st \<le> ?t" "?t \<le> fst st + 16" "16 dvd ?t"
    using align_nat_bounds(1,2) [OF small] align_nat_bounds(3) [OF small, of 4] by simp_all
  then show "16 dvd total_size fr" by (simp add: layout)
  have params: "\<forall>k<length (ref_params A fn). snd st' (ref_params A fn ! k) = Some (?t + 8 * k)"
    "\<forall>a. a \<notin> set (fn_params fn) \<longrightarrow> snd st' a = snd st a"
  proof -
    have "8 dvd (16 :: nat)" by simp
    then have "8 dvd ?t" using t(3) by (rule dvd_trans)
    moreover have "?t + 8 * length (fn_params fn) < 2 ^ 64"
      using t(2) locals(2) bound by (simp add: frame_bound_def)
    ultimately show "\<forall>k<length (ref_params A fn). snd st' (ref_params A fn ! k) = Some (?t + 8 * k)"
      "\<forall>a. a \<notin> set (fn_params fn) \<longrightarrow> snd st' a = snd st a"
      using place_params [OF st'] dist by (simp_all add: ref_params_def)
  qed
  then show "\<forall>k<length (ref_params A fn). spill_offsets fr (ref_params A fn ! k) = Some (total_size fr + 8 * k)"
    by (simp add: layout)
  have spill: "spill_offsets fr a = snd st a" if "a \<in> set (fn_locals fn)" for a
    using params(2) that dist by (auto simp: layout)
  have slot: "\<exists>x. snd st a = Some x" if "a \<in> set (fn_locals fn)" "al_reference (A a)" for a
    using locals(3) that by auto
  show "\<forall>a\<in>set (fn_locals fn). al_reference (A a) \<longrightarrow>
      (\<exists>x. spill_offsets fr a = Some x \<and> outgoing_arg_area fn \<le> x \<and> x + slot_size A a \<le> total_size fr \<and>
        (\<forall>k. 1 < slot_size A a \<longrightarrow> 2 ^ k dvd slot_size A a \<longrightarrow> 2 ^ k dvd x))"
  proof (intro ballI impI)
    fix a assume a: "a \<in> set (fn_locals fn)" "al_reference (A a)"
    obtain x where x: "snd st a = Some x" using slot [OF a] by blast
    then have "outgoing_arg_area fn \<le> x" "x + slot_size A a \<le> fst st"
      "\<forall>k. 1 < slot_size A a \<longrightarrow> 2 ^ k dvd slot_size A a \<longrightarrow> 2 ^ k dvd x"
      using locals(1) unfolding slots_ok_def by blast+
    then show "\<exists>x. spill_offsets fr a = Some x \<and> outgoing_arg_area fn \<le> x \<and> x + slot_size A a \<le> total_size fr \<and>
        (\<forall>k. 1 < slot_size A a \<longrightarrow> 2 ^ k dvd slot_size A a \<longrightarrow> 2 ^ k dvd x)"
      using spill [OF a(1)] x t(1) by (simp add: layout)
  qed
  show "\<forall>a\<in>set (fn_locals fn). \<forall>b\<in>set (fn_locals fn). a \<noteq> b \<longrightarrow>
      al_reference (A a) \<longrightarrow> al_reference (A b) \<longrightarrow>
      the (spill_offsets fr a) + slot_size A a \<le> the (spill_offsets fr b) \<or>
      the (spill_offsets fr b) + slot_size A b \<le> the (spill_offsets fr a)"
  proof (intro ballI impI)
    fix a b assume ab: "a \<in> set (fn_locals fn)" "b \<in> set (fn_locals fn)" "a \<noteq> b" "al_reference (A a)" "al_reference (A b)"
    obtain x y where "snd st a = Some x" "snd st b = Some y" using slot ab by meson
    then show "the (spill_offsets fr a) + slot_size A a \<le> the (spill_offsets fr b) \<or>
      the (spill_offsets fr b) + slot_size A b \<le> the (spill_offsets fr a)"
      using locals(1) ab(3) spill [OF ab(1)] spill [OF ab(2)] unfolding slots_ok_def by simp
  qed
qed

text \<open>
  C9: the stack frame is well laid out. Its size is a multiple of 16; every memory local has a
  slot above the outgoing argument area, inside the frame and aligned to the powers of two
  dividing its size; two slots do not overlap; and the memory parameters are found one after
  another in the slots of the caller, just above the frame.
\<close>

theorem compute_frame_layout:
  assumes "compute_frame A fn = Inr fr" and "distinct (fn_params fn @ fn_locals fn)"
    and "frame_bound A fn < 2 ^ 64"
  shows "16 dvd total_size fr \<and>
    (\<forall>a\<in>set (fn_locals fn). al_reference (A a) \<longrightarrow>
      (\<exists>x. spill_offsets fr a = Some x \<and> outgoing_arg_area fn \<le> x \<and> x + slot_size A a \<le> total_size fr \<and>
        (\<forall>k. 1 < slot_size A a \<longrightarrow> 2 ^ k dvd slot_size A a \<longrightarrow> 2 ^ k dvd x))) \<and>
    (\<forall>a\<in>set (fn_locals fn). \<forall>b\<in>set (fn_locals fn). a \<noteq> b \<longrightarrow>
      al_reference (A a) \<longrightarrow> al_reference (A b) \<longrightarrow>
      the (spill_offsets fr a) + slot_size A a \<le> the (spill_offsets fr b) \<or>
      the (spill_offsets fr b) + slot_size A b \<le> the (spill_offsets fr a)) \<and>
    (\<forall>k<length (ref_params A fn). spill_offsets fr (ref_params A fn ! k) = Some (total_size fr + 8 * k))"
  using frame_parts [OF assms] by blast

section \<open>Instances\<close>

definition sample_store :: alloc_store where
  "sample_store a = \<lparr>al_name = ''v'', al_type = (if a = 0 then Prim Int1 else Array (Prim Int32) 4),
     al_comptime = False, al_immutable = False, al_reference = True, al_init = None\<rparr>"

lemma sample_frame:
  "compute_frame sample_store sample_func =
     Inr (empty_frame\<lparr>total_size := 32, spill_offsets := [0 \<mapsto> 0, 1 \<mapsto> 16, 3 \<mapsto> 32]\<rparr>)"
  by (simp add: compute_frame_def sample_store_def sample_func_def outgoing_arg_area_def func_insts_def place_local_def place_param_def align_nat_def align_up_def)

theorem compute_frame_layout_witness:
  "16 dvd (32 :: nat) \<and> [0 \<mapsto> 0, 1 \<mapsto> 16, 3 \<mapsto> (32 :: nat)] (ref_params sample_store sample_func ! 0) = Some 32"
proof -
  have fits: "distinct (fn_params sample_func @ fn_locals sample_func)"
    "frame_bound sample_store sample_func < 2 ^ 64"
    by (simp_all add: sample_func_def frame_bound_def slot_size_def sample_store_def outgoing_arg_area_def
        func_insts_def)
  have one: "0 < length (ref_params sample_store sample_func)"
    by (simp add: ref_params_def sample_func_def sample_store_def)
  show ?thesis using compute_frame_layout [OF sample_frame fits] one by fastforce
qed

end
