(* ===== verification/Isel_Store.thy ===== *)
theory Isel_Store
  imports Isel_Correct
begin

text \<open>
  The code of \<open>emit_store_bytes\<close>, which the prologue runs to initialise a local array, writes exactly
  the bytes of the initialiser at the slot. The machine accepts every offset the code uses; an
  instruction of RV64 takes twelve bits of it (see \<open>imm_fits\<close>).
\<close>

section \<open>Bytes of words\<close>

lemma word_bytes_bytes_word:
  assumes "8 * length bs \<le> LENGTH('a::len)"
  shows "word_bytes (length bs) (bytes_word bs :: 'a word) = bs"
proof (rule nth_equalityI)
  fix i assume i: "i < length (word_bytes (length bs) (bytes_word bs :: 'a word))"
  have "word_bytes (length bs) (bytes_word bs :: 'a word) ! i = bs ! i"
  proof (rule bit_word_eqI)
    fix n assume n: "n < LENGTH(8)"
    have "(8 * i + n) div 8 = i" "(8 * i + n) mod 8 = n" using n by simp_all
    moreover have "8 * i + n < LENGTH('a)" using i n assms by simp
    ultimately show "bit (word_bytes (length bs) (bytes_word bs :: 'a word) ! i) n = bit (bs ! i) n"
      using i n by (simp add: word_bytes_def bit_ucast_iff bit_drop_bit_eq bit_bytes_word)
  qed
  then show "word_bytes (length bs) (bytes_word bs :: 'a word) ! i = bs ! i" .
qed simp

lemma word_bytes_of:
  "length bs = n \<Longrightarrow> 8 * n \<le> LENGTH('a::len) \<Longrightarrow> word_bytes n (bytes_word bs :: 'a word) = bs"
  using word_bytes_bytes_word by blast

lemma word_bytes_sext32: "word_bytes 4 (sext32 w) = word_bytes 4 w"
proof (rule nth_equalityI)
  fix i assume "i < length (word_bytes 4 (sext32 w))"
  then have i: "i < 4" by simp
  show "word_bytes 4 (sext32 w) ! i = word_bytes 4 w ! i"
  proof (rule bit_word_eqI)
    fix n assume "n < LENGTH(8)"
    then have n: "8 * i + n < 32" using i by simp
    show "bit (word_bytes 4 (sext32 w) ! i) n = bit (word_bytes 4 w ! i) n"
      by (cases "8 * i + n = 31") (use i n in \<open>auto simp: word_bytes_def bit_simps min_def\<close>)
  qed
qed simp

lemma write_bytes_append:
  "write_bytes (a + length bs) cs (write_bytes a bs m) = write_bytes a (bs @ cs) m"
  by (rule ext) (auto simp: write_bytes_def nth_append)

lemma write_bytes_Nil [simp]: "write_bytes a [] m = m"
  by (rule ext) (auto simp: write_bytes_def split: if_splits)

section \<open>One store\<close>

text \<open>An access that stays inside the memory, whose size is below the address space.\<close>

definition room :: "vm \<Rightarrow> u64 \<Rightarrow> nat \<Rightarrow> bool" where
  "room s a n \<longleftrightarrow> unat a + n \<le> mem_size s \<and> mem_size s < 2 ^ 64"

lemma room_step: "room s a (k + n) \<Longrightarrow> room s (a + of_nat k) n" "room s a (k + n) \<Longrightarrow> unat (a + of_nat k) = unat a + k"
proof -
  assume r: "room s a (k + n)"
  then have "unat (of_nat k :: u64) = k"
    by (simp add: room_def unsigned_of_nat take_bit_nat_eq_self)
  then show "unat (a + of_nat k) = unat a + k"
    using r by (simp add: room_def unat_add_lem [THEN iffD1])
  then show "room s (a + of_nat k) n" using r by (simp add: room_def)
qed

lemma store_bytes_room:
  assumes "room s a (length bs)"
  shows "store_bytes a bs s = Inr (s\<lparr>memory := write_bytes (unat a) bs (memory s)\<rparr>)"
  using assms room_step(2) [of s a "length bs" 0] by (simp add: store_bytes_def check_access_def room_def)

lemma exec_plain_store:
  assumes "store_i op = Some n" and "room s (reg s base + sext32 imm) n"
  shows "exec_plain h im (InstI op rv base imm) s =
    Inr (s\<lparr>memory := write_bytes (unat (reg s base + sext32 imm)) (word_bytes n (reg s rv)) (memory s)\<rparr>)"
proof -
  have "alu_i op a imm = None" "load_i op = None" for a using assms(1) by (cases op; simp)+
  then show ?thesis
    using assms store_bytes_room [of s _ "word_bytes n (reg s rv)"]
    by (simp add: exec_plain_def exec_i_def)
qed

section \<open>The bytes of an initialiser\<close>

definition wrote :: "u64 \<Rightarrow> u8 list \<Rightarrow> vm \<Rightarrow> vm \<Rightarrow> bool" where
  "wrote a bs s s' \<longleftrightarrow>
     (\<exists>t. s' = (set_reg reg_t0 t s)\<lparr>memory := write_bytes (unat a) bs (memory s)\<rparr>)"

lemma wrote_refl: "wrote a [] s s"
  by (auto simp: wrote_def intro: exI [of _ "reg s reg_t0"])

text \<open>One chunk: load the value, store it.\<close>

lemma chunk_step:
  assumes op: "store_i op = Some (length bs)" and bytes: "word_bytes (length bs) v = bs"
    and base: "gid base \<noteq> 5" and off: "word_sized off" and room: "room s (reg s base + off) (length bs)"
  shows "\<exists>s'. exec_seq h im [PseudoLI reg_t0 v, InstI op reg_t0 base (low32 off)] s = Inr s' \<and>
    wrote (reg s base + off) bs s s'"
  using exec_plain_store [OF op, of "set_reg reg_t0 v s" base "low32 off" h im reg_t0] base off room bytes
  by (auto simp: exec_seq_Cons exec_plain_li word_sized_def room_def wrote_def)

lemma wrote_trans:
  assumes "wrote a bs s s'" and "wrote (a + of_nat (length bs)) cs s' s''"
    and "unat (a + of_nat (length bs)) = unat a + length bs"
  shows "wrote a (bs @ cs) s s''"
proof -
  obtain t where t: "s' = (set_reg reg_t0 t s)\<lparr>memory := write_bytes (unat a) bs (memory s)\<rparr>"
    using assms(1) by (auto simp: wrote_def)
  obtain u where u: "s'' = (set_reg reg_t0 u s')\<lparr>memory := write_bytes (unat a + length bs) cs (memory s')\<rparr>"
    using assms(2,3) by (auto simp: wrote_def)
  have "s'' = (set_reg reg_t0 u s)\<lparr>memory := write_bytes (unat a) (bs @ cs) (memory s)\<rparr>"
    unfolding u t by (simp add: write_bytes_append) (simp add: set_reg_def)
  then show ?thesis by (auto simp: wrote_def)
qed

definition sized_range :: "u64 \<Rightarrow> nat \<Rightarrow> bool" where
  "sized_range off n \<longleftrightarrow> (\<forall>k\<le>n. word_sized (off + of_nat k))"

lemma sized_range_step: "sized_range off (k + n) \<Longrightarrow> word_sized off \<and> sized_range (off + of_nat k) n"
proof -
  assume all: "sized_range off (k + n)"
  have "word_sized (off + of_nat 0)" using all unfolding sized_range_def by blast
  moreover have "word_sized (off + of_nat k + of_nat j)" if "j \<le> n" for j
  proof -
    have "k + j \<le> k + n \<longrightarrow> word_sized (off + of_nat (k + j))"
      using all unfolding sized_range_def by blast
    then have "word_sized (off + of_nat (k + j))" using that by simp
    then show ?thesis by (simp add: add.assoc)
  qed
  ultimately show ?thesis by (simp add: sized_range_def)
qed

lemma store_more:
  assumes "word_bytes (length bs) v = bs" and "store_i op = Some (length bs)"
    and more: "\<And>s'. reg s' base + (off + of_nat (length bs)) = reg s base + off + of_nat (length bs) \<Longrightarrow>
      room s' (reg s' base + (off + of_nat (length bs))) (length cs) \<Longrightarrow>
      \<exists>s''. exec_seq h im rest s' = Inr s'' \<and> wrote (reg s' base + (off + of_nat (length bs))) cs s' s''"
    and base: "gid base \<noteq> 5" and off: "word_sized off"
    and room: "room s (reg s base + off) (length bs + length cs)"
  shows "\<exists>s''. exec_seq h im (PseudoLI reg_t0 v # InstI op reg_t0 base (low32 off) # rest) s = Inr s'' \<and>
    wrote (reg s base + off) (bs @ cs) s s''"
proof -
  have "room s (reg s base + off) (length bs)" using room by (simp add: room_def)
  then obtain s' where s': "exec_seq h im [PseudoLI reg_t0 v, InstI op reg_t0 base (low32 off)] s = Inr s'"
    "wrote (reg s base + off) bs s s'"
    using chunk_step [OF assms(2,1) base off] by blast
  have same: "reg s' base = reg s base" "mem_size s' = mem_size s"
    using s'(2) base by (auto simp: wrote_def)
  have "room s' (reg s' base + (off + of_nat (length bs))) (length cs)"
    using room_step(1) [OF room] same by (simp add: room_def add.assoc)
  then obtain s'' where s'': "exec_seq h im rest s' = Inr s''"
    "wrote (reg s base + off + of_nat (length bs)) cs s' s''"
    using more [of s'] same by (auto simp: add.assoc)
  have "exec_seq h im (PseudoLI reg_t0 v # InstI op reg_t0 base (low32 off) # rest) s = Inr s''"
    using s'(1) s''(1) exec_seq_append [of h im "[PseudoLI reg_t0 v, InstI op reg_t0 base (low32 off)]" rest s]
    by simp
  then show ?thesis using wrote_trans [OF s'(2) s''(2) room_step(2) [OF room]] by blast
qed

text \<open>The same with the number of bytes as a parameter.\<close>

lemma store_more_n:
  assumes "length bs = n" and "word_bytes n v = bs" and "store_i op = Some n"
    and "\<And>s'. reg s' base + (off + of_nat n) = reg s base + off + of_nat n \<Longrightarrow>
      room s' (reg s' base + (off + of_nat n)) (length cs) \<Longrightarrow>
      \<exists>s''. exec_seq h im rest s' = Inr s'' \<and> wrote (reg s' base + (off + of_nat n)) cs s' s''"
    and "gid base \<noteq> 5" and "word_sized off" and "room s (reg s base + off) (n + length cs)"
  shows "\<exists>s''. exec_seq h im (PseudoLI reg_t0 v # InstI op reg_t0 base (low32 off) # rest) s = Inr s'' \<and>
    wrote (reg s base + off) (bs @ cs) s s''"
  using store_more [of bs v op base off s cs h im rest] assms by blast

lemmas store_chunks_cases = store_chunks.induct [case_names four two three one none]

lemma store_chunks_wrote:
  assumes "gid base \<noteq> 5" and "sized_range off (length data)" and "room s (reg s base + off) (length data)"
  shows "\<exists>s'. exec_seq h im (store_chunks base off data) s = Inr s' \<and> wrote (reg s base + off) data s s'"
  using assms
proof (induction base off data arbitrary: s rule: store_chunks_cases)
  case (four base off b0 b1 b2 b3 bs)
  have "sized_range off (4 + length bs)" using four.prems(2) by (simp add: eval_nat_numeral)
  then have sz: "word_sized off" "sized_range (off + of_nat 4) (length bs)"
    using sized_range_step by blast+
  have rm: "room s (reg s base + off) (4 + length bs)" using four.prems(3) by (simp add: eval_nat_numeral)
  have wb: "word_bytes 4 (sext32 (bytes_word [b0, b1, b2, b3])) = [b0, b1, b2, b3]"
    unfolding word_bytes_sext32 by (rule word_bytes_of) simp_all
  have more: "\<exists>s''. exec_seq h im (store_chunks base (off + 4) bs) s' = Inr s'' \<and>
      wrote (reg s' base + (off + of_nat 4)) bs s' s''"
    if "room s' (reg s' base + (off + of_nat 4)) (length bs)" for s'
    using four.IH [OF four.prems(1)] sz(2) that by simp
  show ?case
    using store_more_n [OF _ wb _ more four.prems(1) sz(1) rm] by simp
next
  case (two base off b0 b1)
  have wb: "word_bytes 2 (bytes_word [b0, b1] :: u64) = [b0, b1]"
    by (rule word_bytes_of) simp_all
  have "sized_range off (2 + 0)" and rm: "room s (reg s base + off) (2 + length [])"
    using two.prems(2,3) by (simp_all add: numeral_2_eq_2)
  then have sz: "word_sized off" using sized_range_step by blast
  show ?case
    using store_more_n [OF _ wb _ _ two.prems(1) sz rm, of I_SH h im "[]"] by (simp add: wrote_refl)
next
  case (three base off b0 b1 b2)
  have wb: "word_bytes 2 (bytes_word [b0, b1] :: u64) = [b0, b1]"
    by (rule word_bytes_of) simp_all
  have "sized_range off (2 + 1)" using three.prems(2) by (simp add: eval_nat_numeral)
  then have sz: "word_sized off" "sized_range (off + of_nat 2) 1" using sized_range_step by blast+
  have rm: "room s (reg s base + off) (2 + length [b2])" using three.prems(3) by (simp add: eval_nat_numeral)
  have more: "\<exists>s''. exec_seq h im (store_chunks base (off + 2) [b2]) s' = Inr s'' \<and>
      wrote (reg s' base + (off + of_nat 2)) [b2] s' s''"
    if "room s' (reg s' base + (off + of_nat 2)) (length [b2])" for s'
    using three.IH [OF three.prems(1)] sz(2) that by simp
  show ?case
    using store_more_n [OF _ wb _ more three.prems(1) sz(1) rm] by simp
next
  case (one base off b0)
  have "word_bytes 1 (ucast b0 :: u64) = [b0]"
    using word_bytes_of [of "[b0]" 1, where 'a = 64] by simp
  then show ?case
    using store_more_n [of "[b0]" 1 "ucast b0" I_SB base off s "[]" h im "[]"]
      sized_range_step [of off 1 0] one.prems by (simp add: wrote_refl)
next
  case (none base off)
  then show ?case by (simp add: wrote_refl)
qed

section \<open>The whole initialiser\<close>

lemma sized_range_small: "off = 0 \<Longrightarrow> n < 2 ^ 31 \<Longrightarrow> sized_range off n"
proof -
  assume z: "off = 0" and n: "n < 2 ^ 31"
  have "word_sized (of_nat k)" if "k \<le> n" for k
  proof -
    have "sint (of_nat k :: u32) = int k"
      using that n by (simp add: signed_of_nat signed_take_bit_int_eq_self_iff)
    then have "scast (of_nat k :: u32) = (of_nat k :: u64)"
      by (metis of_int_of_nat_eq scast_eq)
    moreover have "low32 (of_nat k) = of_nat k"
      using ucast_down_wi [OF is_down_low32, of "int k"] by simp
    ultimately show ?thesis by (simp add: word_sized_def)
  qed
  then show ?thesis by (simp add: sized_range_def z)
qed

text \<open>Between two offsets that fit twelve bits every offset does.\<close>

lemma sized_range_i12:
  assumes "fits_i12 off" and "fits_i12 (off + of_nat n)" and "n < 2 ^ 31"
  shows "sized_range off n"
  unfolding sized_range_def
proof (intro allI impI)
  fix k assume k: "k \<le> n"
  have s: "sint (off + of_nat j) = sint off + int j" if "j < 2 ^ 31" for j
  proof -
    have "sint (of_nat j :: u64) = int j"
      using that by (simp add: signed_of_nat signed_take_bit_int_eq_self_iff)
    then show ?thesis
      using assms(1) that
      by (simp add: sint_word_ariths(1) signed_take_bit_int_eq_self_iff fits_i12_def)
  qed
  have "fits_i12 (off + of_nat k)"
    using assms s [of k] s [of n] k by (simp add: fits_i12_def)
  then show "word_sized (off + of_nat k)" by (rule fits_i12_word_sized)
qed

definition keeps_regs :: "nat set \<Rightarrow> vm \<Rightarrow> vm \<Rightarrow> bool" where
  "keeps_regs X s s' \<longleftrightarrow>
     (\<forall>r. gid r \<notin> X \<longrightarrow> reg s' r = reg s r) \<and> fregs s' = fregs s \<and> mem_size s' = mem_size s \<and> vm_out s' = vm_out s"

lemma wrote_keeps: "wrote a bs s s' \<Longrightarrow> keeps_regs {5} s s' \<and> memory s' = write_bytes (unat a) bs (memory s)"
  by (auto simp: wrote_def keeps_regs_def)

text \<open>
  C10: the code emit_store_bytes emits writes exactly the given bytes. From every state with room
  for them it runs to the end, the memory becomes the old one with the data at the base register
  plus offset, and no register but t0 and t1 changes.
\<close>

lemma emit_store_bytes_correct:
  assumes "gid base \<noteq> 5" "gid base \<noteq> 6" and "length data < 2 ^ 31"
    and "room s (reg s base + off) (length data)"
  shows "\<exists>s'. exec_seq h im (emit_store_bytes data base off) s = Inr s' \<and>
    memory s' = write_bytes (unat (reg s base + off)) data (memory s) \<and> keeps_regs {5, 6} s s'"
proof (cases "\<not> fits_i12 off \<or> \<not> fits_i12 (off + of_nat (length data))")
  case False
  then have "sized_range off (length data)" using sized_range_i12 assms(3) by blast
  then obtain s' where "exec_seq h im (store_chunks base off data) s = Inr s'"
    "wrote (reg s base + off) data s s'"
    using store_chunks_wrote assms(1,4) by blast
  then show ?thesis
    using False wrote_keeps by (fastforce simp: emit_store_bytes_def keeps_regs_def)
next
  case True
  obtain q where q: "exec_seq h im (emit_add_reg_imm reg_t1 base off False) s = Inr q"
    and q_eq: "\<exists>t. q = set_reg reg_t1 (reg s base + off) (set_reg reg_t0 t s)"
  proof (cases "fits_i12 off")
    case True
    then have "exec_seq h im (emit_add_reg_imm reg_t1 base off False) s =
        Inr (set_reg reg_t1 (reg s base + off) (set_reg reg_t0 (reg s reg_t0) s))"
      by (simp add: emit_add_reg_imm_def exec_seq_Cons vm_simps fits_i12_sext)
    then show ?thesis using that by blast
  next
    case False
    then have "exec_seq h im (emit_add_reg_imm reg_t1 base off False) s =
        Inr (set_reg reg_t1 (reg s base + off) (set_reg reg_t0 off s))"
      using assms(1) by (simp add: emit_add_reg_imm_def emit_int_reg_op_def exec_seq_Cons vm_simps)
    then show ?thesis using that by blast
  qed
  have q': "reg q reg_t1 = reg s base + off" "mem_size q = mem_size s" "memory q = memory s"
    "keeps_regs {5, 6} s q"
    using q_eq by (auto simp: keeps_regs_def)
  have "room q (reg q reg_t1 + 0) (length data)" using assms(4) q' by (simp add: room_def)
  then obtain s' where s': "exec_seq h im (store_chunks reg_t1 0 data) q = Inr s'"
    "wrote (reg q reg_t1 + 0) data q s'"
    using store_chunks_wrote [of reg_t1 0 data q h im] sized_range_small [of 0 "length data"] assms(3) by auto
  have "exec_seq h im (emit_store_bytes data base off) s = Inr s'"
    using True q s'(1) by (simp add: emit_store_bytes_def exec_seq_append)
  moreover have "memory s' = write_bytes (unat (reg s base + off)) data (memory s)"
    using wrote_keeps [OF s'(2)] q' by simp
  moreover have "keeps_regs {5, 6} s s'"
    using wrote_keeps [OF s'(2)] q'(4) by (auto simp: keeps_regs_def)
  ultimately show ?thesis by blast
qed

section \<open>The offsets in the instructions\<close>

text \<open>The machine of the repository accepts any offset, an RV64 instruction takes twelve bits of it.\<close>

definition imm_fits :: "rinst \<Rightarrow> bool" where
  "imm_fits i = (case i of InstI op rd rs imm \<Rightarrow> fits_i12 (sext32 imm) | _ \<Rightarrow> True)"

lemma low_bits_of_nat: "low32 (of_nat m) = of_nat m"
  by (rule bit_word_eqI) (simp add: bit_ucast_iff bit_of_nat_iff)

lemma fits_nat: "m < 2 ^ 31 \<Longrightarrow> fits_i12 (sext32 (low32 (of_nat m))) \<longleftrightarrow> m < 2048"
proof -
  assume m: "m < 2 ^ 31"
  have "sint (of_nat m :: u32) = int m" "sint (of_nat m :: u64) = int m"
    using m by (simp_all add: signed_of_nat signed_take_bit_int_eq_self_iff)
  moreover have "low32 (of_nat m) = of_nat m" by (metis low_bits_of_nat)
  ultimately show ?thesis by (simp add: fits_i12_def)
qed

lemma chunks_fit: "m + length data \<le> 2048 \<Longrightarrow> off = of_nat m \<Longrightarrow> list_all imm_fits (store_chunks base off data)"
proof (induction base off data arbitrary: m rule: store_chunks_cases)
  case (four base off b0 b1 b2 b3 bs)
  then show ?case using four.IH [of "m + 4"] fits_nat [of m] by (simp add: imm_fits_def ac_simps)
next
  case (three base off b0 b1 b2)
  then show ?case using fits_nat [of m] fits_nat [of "m + 2"] by (simp add: imm_fits_def ac_simps)
qed (use fits_nat in \<open>simp_all add: imm_fits_def\<close>)

lemma chunks_far:
  "4 dvd m \<Longrightarrow> m \<le> 2048 \<Longrightarrow> 2048 < m + length data \<Longrightarrow> off = of_nat m \<Longrightarrow> \<not> list_all imm_fits (store_chunks base off data)"
proof (induction base off data arbitrary: m rule: store_chunks_cases)
  case (four base off b0 b1 b2 b3 bs)
  show ?case
  proof (cases "m = 2048")
    case True
    then show ?thesis using four.prems fits_nat [of m] by (simp add: imm_fits_def)
  next
    case False
    then have "4 dvd m + 4" "m + 4 \<le> 2048" using four.prems(1,2) by presburger+
    then show ?thesis using four.IH [of "m + 4"] four.prems by (simp add: ac_simps)
  qed
next
  case (two base off b0 b1)
  then have "m = 2048" using two.prems(1-3) by (simp only: list.size; presburger)
  then show ?case using two.prems fits_nat [of m] by (simp add: imm_fits_def)
next
  case (three base off b0 b1 b2)
  then have "m = 2048" using three.prems(1-3) by (simp only: list.size; presburger)
  then show ?case using three.prems fits_nat [of m] by (simp add: imm_fits_def)
next
  case (one base off b0)
  then have "m = 2048" using one.prems(1-3) by (simp only: list.size; presburger)
  then show ?case using one.prems fits_nat [of m] by (simp add: imm_fits_def)
qed simp

lemma add_imm_fits: "list_all imm_fits (emit_add_reg_imm rd rs off w)"
  by (simp add: emit_add_reg_imm_def emit_int_reg_op_def imm_fits_def fits_i12_sext)

text \<open>
  C40: the initialiser code can be encoded exactly up to 2048 bytes. For every slot at a
  non-negative offset and all bytes, the instructions that emit_store_bytes emits have immediates
  of twelve bits if and only if there are at most 2048 bytes; for every longer initialiser some
  store has an offset that the instruction cannot hold, because the code checks the range once and
  then counts up from the base it has computed.
\<close>

theorem store_chunks_offset:
  assumes "0 \<le> sint off" and "length data < 2 ^ 62"
  shows "list_all imm_fits (emit_store_bytes data base off) \<longleftrightarrow> length data \<le> 2048"
proof -
  let ?n = "length data"
  have far: "list_all imm_fits (emit_add_reg_imm reg_t1 base off False @ store_chunks reg_t1 0 data) \<longleftrightarrow> ?n \<le> 2048"
    using chunks_fit [of 0 data 0 reg_t1] chunks_far [of 0 data 0 reg_t1] by (auto simp: add_imm_fits not_less [symmetric])
  show ?thesis
  proof (cases "fits_i12 off \<and> fits_i12 (off + of_nat ?n)")
    case True
    define m where "m = nat (sint off)"
    have m: "off = of_nat m" "m < 2048"
      using True assms(1) by (simp_all add: m_def fits_i12_def nat_less_iff)
    have "sint (of_nat (m + ?n) :: u64) = int (m + ?n)"
      using m(2) assms(2) by (simp only: signed_of_nat) (simp add: signed_take_bit_int_eq_self_iff)
    then have "m + ?n < 2048" using True by (simp add: fits_i12_def m(1))
    then show ?thesis using True chunks_fit [OF _ m(1), of data base] by (simp add: emit_store_bytes_def)
  next
    case False
    then show ?thesis using far by (simp add: emit_store_bytes_def)
  qed
qed
section \<open>Instances\<close>

theorem emit_store_bytes_correct_witness:
  "\<forall>h im. \<exists>s'. exec_seq h im (emit_store_bytes [1, 2, 3, 4, 5] reg_sp 16)
       (set_reg reg_sp 4096 (reset_vm [] True [])) = Inr s' \<and>
    memory s' = write_bytes 4112 [1, 2, 3, 4, 5] (\<lambda>_. 0) \<and>
    keeps_regs {5, 6} (set_reg reg_sp 4096 (reset_vm [] True [])) s'"
  using emit_store_bytes_correct [of reg_sp "[1, 2, 3, 4, 5]" "set_reg reg_sp 4096 (reset_vm [] True [])" 16]
  by (simp add: room_def reset_vm_def MEM_SIZE_def)

theorem store_chunks_offset_witness:
  "\<not> list_all imm_fits (emit_store_bytes (replicate 2052 0) reg_sp 16) \<and>
   list_all imm_fits (emit_store_bytes (replicate 2048 0) reg_sp 16)"
  using store_chunks_offset [of 16 "replicate 2052 0" reg_sp] store_chunks_offset [of 16 "replicate 2048 0" reg_sp] by simp

end
