(* ===== verification/Dataflow.thy ===== *)
theory Dataflow
  imports Ir_Order
begin

text \<open>
  The solver of data-flow equations (\<open>analysis/dataflow/framework.hpp\<close>): the \<open>FlowTrait\<close> of an
  analysis together with the graph it runs on is the record \<open>flow\<close>; \<open>Set\<close>, a set that may be the
  universe, is \<open>dset\<close>. A backward analysis runs on the reversed graph, so \<open>fl_pred\<close> and \<open>fl_edge\<close>
  are given in the direction of the flow.

  The locale \<open>flow_problem\<close> states what the solver relies on (a partial order of finite height with
  monotone functions) and derives what it promises: the iteration ends, the result solves the
  equations, and it is the greatest solution.
\<close>

section \<open>Sets with a universe\<close>

datatype 'a dset = Universe | Elems "'a set"

definition dset_empty :: "'a dset" where "dset_empty = Elems {}"

fun intersection_set :: "'a dset \<Rightarrow> 'a dset \<Rightarrow> 'a dset" where
  "intersection_set Universe b = b"
| "intersection_set a Universe = a"
| "intersection_set (Elems s) (Elems t) = Elems (s \<inter> t)"

fun union_set :: "'a dset \<Rightarrow> 'a dset \<Rightarrow> 'a dset" where
  "union_set (Elems s) (Elems t) = Elems (s \<union> t)"
| "union_set a b = Universe"

fun difference :: "'a dset \<Rightarrow> 'a dset \<Rightarrow> 'a dset result" where
  "difference Universe Universe = Inr dset_empty"
| "difference Universe (Elems t) =
     (if t = {} then Inr Universe else Inl (Compiler_error ''Cannot difference non-trivial set from universe set''))"
| "difference (Elems s) Universe = Inr dset_empty"
| "difference (Elems s) (Elems t) = Inr (Elems (s - t))"

fun dset_elems :: "'a dset \<Rightarrow> 'a set result" where
  "dset_elems Universe = Inl (Compiler_error ''Cannot iterate over universe set'')"
| "dset_elems (Elems s) = Inr s"

fun dset_size :: "'a dset \<Rightarrow> nat result" where
  "dset_size Universe = Inl (Compiler_error ''Cannot get size of universe set'')"
| "dset_size (Elems s) = Inr (card s)"

fun dset_contains :: "'a dset \<Rightarrow> 'a \<Rightarrow> bool" where
  "dset_contains Universe x = True"
| "dset_contains (Elems s) x = (x \<in> s)"

fun dset_insert :: "'a \<Rightarrow> 'a dset \<Rightarrow> 'a dset" where
  "dset_insert x Universe = Universe"
| "dset_insert x (Elems s) = Elems (insert x s)"

fun dset_erase :: "'a \<Rightarrow> 'a dset \<Rightarrow> 'a dset" where
  "dset_erase x Universe = Universe"
| "dset_erase x (Elems s) = Elems (s - {x})"

fun divide_set :: "('a \<Rightarrow> bool) \<Rightarrow> 'a dset \<Rightarrow> ('a dset \<times> 'a dset) result" where
  "divide_set P Universe = Inl (Compiler_error ''Cannot divide universe set'')"
| "divide_set P (Elems s) = Inr (Elems {x \<in> s. P x}, Elems {x \<in> s. \<not> P x})"

text \<open>Inclusion, with the universe on top.\<close>

fun dset_le :: "'a dset \<Rightarrow> 'a dset \<Rightarrow> bool" where
  "dset_le a Universe = True"
| "dset_le Universe (Elems t) = False"
| "dset_le (Elems s) (Elems t) = (s \<subseteq> t)"

lemma dset_le_iff: "dset_le a b \<longleftrightarrow> b = Universe \<or> (\<exists>s t. a = Elems s \<and> b = Elems t \<and> s \<subseteq> t)"
  by (cases a; cases b) auto

lemma dset_le_refl [simp]: "dset_le a a"
  by (cases a) auto

lemma dset_le_trans: "dset_le a b \<Longrightarrow> dset_le b c \<Longrightarrow> dset_le a c"
  by (cases a; cases b; cases c) auto

lemma dset_contains_ops [simp]:
  "dset_contains (intersection_set a b) x \<longleftrightarrow> dset_contains a x \<and> dset_contains b x"
  "dset_contains (union_set a b) x \<longleftrightarrow> dset_contains a x \<or> dset_contains b x"
  "dset_contains (dset_insert x a) y \<longleftrightarrow> y = x \<or> dset_contains a y"
  by (cases a; cases b; auto)+

section \<open>The solver\<close>

record 'd flow =
  fl_blocks :: "block_id list"
  fl_pred :: "block_id \<Rightarrow> block_id list"
  fl_is_boundary :: "block_id \<Rightarrow> bool"
  fl_boundary :: 'd
  fl_top :: 'd
  fl_default :: 'd
  fl_meet :: "'d \<Rightarrow> 'd \<Rightarrow> 'd"
  fl_edge :: "block_id \<Rightarrow> block_id \<Rightarrow> 'd \<Rightarrow> 'd"
  fl_transfer :: "block_id \<Rightarrow> 'd \<Rightarrow> 'd result"

record 'd flow_state =
  fs_in :: "block_id \<rightharpoonup> 'd"
  fs_out :: "block_id \<rightharpoonup> 'd"

text \<open>\<open>flow_out[p]\<close>, which creates default data for a missing block.\<close>

definition out_of :: "'d flow \<Rightarrow> (block_id \<rightharpoonup> 'd) \<Rightarrow> block_id \<Rightarrow> 'd" where
  "out_of fl out p = (case out p of None \<Rightarrow> fl_default fl | Some d \<Rightarrow> d)"

definition meet_preds :: "'d flow \<Rightarrow> (block_id \<rightharpoonup> 'd) \<Rightarrow> block_id \<Rightarrow> 'd" where
  "meet_preds fl out b =
     fold (\<lambda>p acc. fl_meet fl acc (fl_edge fl p b (out_of fl out p))) (fl_pred fl b) (fl_top fl)"

definition flow_new_in :: "'d flow \<Rightarrow> (block_id \<rightharpoonup> 'd) \<Rightarrow> block_id \<Rightarrow> 'd" where
  "flow_new_in fl out b =
     (if fl_is_boundary fl b then fl_meet fl (meet_preds fl out b) (fl_boundary fl) else meet_preds fl out b)"

definition flow_init_block :: "'d flow \<Rightarrow> block_id \<Rightarrow> 'd flow_state \<Rightarrow> 'd flow_state result" where
  "flow_init_block fl b st =
     (if fl_is_boundary fl b
        then rbind (fl_transfer fl b (fl_boundary fl)) (\<lambda>d.
          Inr (st\<lparr>fs_in := (fs_in st)(b \<mapsto> fl_boundary fl), fs_out := (fs_out st)(b \<mapsto> d)\<rparr>))
      else Inr (st\<lparr>fs_in := (fs_in st)(b \<mapsto> fl_top fl), fs_out := (fs_out st)(b \<mapsto> fl_top fl)\<rparr>))"

definition flow_init :: "'d flow \<Rightarrow> 'd flow_state result" where
  "flow_init fl = rfold (flow_init_block fl) (fl_blocks fl) \<lparr>fs_in = Map.empty, fs_out = Map.empty\<rparr>"

definition flow_visit :: "'d flow \<Rightarrow> block_id \<Rightarrow> 'd flow_state \<times> bool \<Rightarrow> ('d flow_state \<times> bool) result" where
  "flow_visit fl b = (\<lambda>(st, changed).
     let new_in = flow_new_in fl (fs_out st) b in
     rbind (fl_transfer fl b new_in) (\<lambda>new_out.
       if new_out = out_of fl (fs_out st) b
         then Inr (st\<lparr>fs_in := (fs_in st)(b \<mapsto> new_in)\<rparr>, changed)
       else Inr (st\<lparr>fs_in := (fs_in st)(b \<mapsto> new_in), fs_out := (fs_out st)(b \<mapsto> new_out)\<rparr>, True)))"

definition flow_round :: "'d flow \<Rightarrow> 'd flow_state \<Rightarrow> ('d flow_state \<times> bool) result" where
  "flow_round fl st = rfold (flow_visit fl) (fl_blocks fl) (st, False)"

text \<open>Rounds are repeated until one changes nothing; \<open>None\<close> is an iteration that does not end.\<close>

partial_function (option) flow_iterate :: "'d flow \<Rightarrow> 'd flow_state \<Rightarrow> 'd flow_state result option" where
  "flow_iterate fl st =
     (case flow_round fl st of
        Inl e \<Rightarrow> Some (Inl e)
      | Inr (st', changed) \<Rightarrow> if changed then flow_iterate fl st' else Some (Inr st'))"

definition flow_solve :: "'d flow \<Rightarrow> 'd flow_state result option" where
  "flow_solve fl = (case flow_init fl of Inl e \<Rightarrow> Some (Inl e) | Inr st \<Rightarrow> flow_iterate fl st)"

text \<open>Sequencing of computations that may fail or not end.\<close>

definition obind :: "'a result option \<Rightarrow> ('a \<Rightarrow> 'b result option) \<Rightarrow> 'b result option" where
  "obind r f = (case r of None \<Rightarrow> None | Some (Inl e) \<Rightarrow> Some (Inl e) | Some (Inr x) \<Rightarrow> f x)"

lemma obind_simps [simp]:
  "obind None f = None" "obind (Some (Inl e)) f = Some (Inl e)" "obind (Some (Inr x)) f = f x"
  by (simp_all add: obind_def)

section \<open>What the solver promises\<close>

text \<open>A solution of the equations; data outside the blocks of the graph is the default.\<close>

definition flow_solution :: "'d flow \<Rightarrow> 'd flow_state \<Rightarrow> bool" where
  "flow_solution fl st \<longleftrightarrow>
     dom (fs_out st) = set (fl_blocks fl) \<and>
     (\<forall>b\<in>set (fl_blocks fl).
        fs_in st b = Some (flow_new_in fl (fs_out st) b) \<and>
        (\<exists>d. fs_out st b = Some d \<and> fl_transfer fl b (flow_new_in fl (fs_out st) b) = Inr d))"

locale flow_problem =
  fixes fl :: "'d flow" and A :: "'d set" and le :: "'d \<Rightarrow> 'd \<Rightarrow> bool" and height :: "'d \<Rightarrow> nat"
  assumes le_refl: "d \<in> A \<Longrightarrow> le d d"
    and le_trans: "d1 \<in> A \<Longrightarrow> d2 \<in> A \<Longrightarrow> d3 \<in> A \<Longrightarrow> le d1 d2 \<Longrightarrow> le d2 d3 \<Longrightarrow> le d1 d3"
    and height_less: "d1 \<in> A \<Longrightarrow> d2 \<in> A \<Longrightarrow> le d1 d2 \<Longrightarrow> d1 \<noteq> d2 \<Longrightarrow> height d1 < height d2"
    and top_A: "fl_top fl \<in> A" and top_greatest: "d \<in> A \<Longrightarrow> le d (fl_top fl)"
    and boundary_A: "fl_boundary fl \<in> A" and default_A: "fl_default fl \<in> A"
    and meet_A: "d1 \<in> A \<Longrightarrow> d2 \<in> A \<Longrightarrow> fl_meet fl d1 d2 \<in> A"
    and meet_mono: "d1 \<in> A \<Longrightarrow> d2 \<in> A \<Longrightarrow> d3 \<in> A \<Longrightarrow> d4 \<in> A \<Longrightarrow> le d1 d3 \<Longrightarrow> le d2 d4 \<Longrightarrow>
      le (fl_meet fl d1 d2) (fl_meet fl d3 d4)"
    and meet_le: "d1 \<in> A \<Longrightarrow> d2 \<in> A \<Longrightarrow> le (fl_meet fl d1 d2) d2"
    and edge_A: "d \<in> A \<Longrightarrow> fl_edge fl p b d \<in> A"
    and edge_mono: "d1 \<in> A \<Longrightarrow> d2 \<in> A \<Longrightarrow> le d1 d2 \<Longrightarrow> le (fl_edge fl p b d1) (fl_edge fl p b d2)"
    and transfer_A: "b \<in> set (fl_blocks fl) \<Longrightarrow> d \<in> A \<Longrightarrow> \<exists>d'\<in>A. fl_transfer fl b d = Inr d'"
    and transfer_mono: "b \<in> set (fl_blocks fl) \<Longrightarrow> d1 \<in> A \<Longrightarrow> d2 \<in> A \<Longrightarrow> le d1 d2 \<Longrightarrow>
      fl_transfer fl b d1 = Inr e1 \<Longrightarrow> fl_transfer fl b d2 = Inr e2 \<Longrightarrow> le e1 e2"
begin

definition outs_ok :: "(block_id \<rightharpoonup> 'd) \<Rightarrow> bool" where
  "outs_ok out \<longleftrightarrow> dom out = set (fl_blocks fl) \<and> ran out \<subseteq> A"

definition outs_le :: "(block_id \<rightharpoonup> 'd) \<Rightarrow> (block_id \<rightharpoonup> 'd) \<Rightarrow> bool" where
  "outs_le out out' \<longleftrightarrow> (\<forall>b. le (out_of fl out b) (out_of fl out' b))"

lemma out_of_A: "ran out \<subseteq> A \<Longrightarrow> out_of fl out b \<in> A"
  by (auto simp: out_of_def default_A ran_def split: option.split)

lemma outs_le_refl: "ran out \<subseteq> A \<Longrightarrow> outs_le out out"
  by (simp add: outs_le_def le_refl out_of_A)

lemma outs_le_trans:
  "ran o1 \<subseteq> A \<Longrightarrow> ran o2 \<subseteq> A \<Longrightarrow> ran o3 \<subseteq> A \<Longrightarrow> outs_le o1 o2 \<Longrightarrow> outs_le o2 o3 \<Longrightarrow> outs_le o1 o3"
  unfolding outs_le_def by (meson le_trans out_of_A)

lemma meet_preds_mono:
  assumes "ran out \<subseteq> A" "ran out' \<subseteq> A" "outs_le out out'"
  shows "meet_preds fl out b \<in> A" "le (meet_preds fl out b) (meet_preds fl out' b)"
proof -
  have "fold (\<lambda>p acc. fl_meet fl acc (fl_edge fl p b (out_of fl out p))) ps d \<in> A \<and>
      le (fold (\<lambda>p acc. fl_meet fl acc (fl_edge fl p b (out_of fl out p))) ps d)
         (fold (\<lambda>p acc. fl_meet fl acc (fl_edge fl p b (out_of fl out' p))) ps d')"
    if "d \<in> A" "d' \<in> A" "le d d'" for ps d d'
    using that
  proof (induction ps arbitrary: d d')
    case (Cons p ps)
    have o: "out_of fl out p \<in> A" "out_of fl out' p \<in> A" "le (out_of fl out p) (out_of fl out' p)"
      using assms by (simp_all add: outs_le_def out_of_A)
    note e = edge_A [OF o(1), of p b] edge_A [OF o(2), of p b] edge_mono [OF o, of p b]
    show ?case
      using Cons.IH [OF meet_A [OF Cons.prems(1) e(1)] meet_A [OF Cons.prems(2) e(2)]
          meet_mono [OF Cons.prems(1) e(1) Cons.prems(2) e(2) Cons.prems(3) e(3)]] by simp
  qed simp
  then show "meet_preds fl out b \<in> A" "le (meet_preds fl out b) (meet_preds fl out' b)"
    unfolding meet_preds_def using top_A le_refl by blast+
qed

lemma new_in_mono:
  assumes "ran out \<subseteq> A" "ran out' \<subseteq> A" "outs_le out out'"
  shows "flow_new_in fl out b \<in> A" "le (flow_new_in fl out b) (flow_new_in fl out' b)"
  using meet_preds_mono [OF assms, of b] meet_preds_mono(1) [OF assms(2,2) outs_le_refl [OF assms(2)], of b]
    meet_mono [OF _ boundary_A _ boundary_A _ le_refl [OF boundary_A],
      of "meet_preds fl out b" "meet_preds fl out' b"]
  by (auto simp: flow_new_in_def meet_A boundary_A)

lemma new_in_A: "ran out \<subseteq> A \<Longrightarrow> flow_new_in fl out b \<in> A"
  by (rule new_in_mono(1) [OF _ _ outs_le_refl])

lemma new_in_boundary:
  "ran out \<subseteq> A \<Longrightarrow> fl_is_boundary fl b \<Longrightarrow> le (flow_new_in fl out b) (fl_boundary fl)"
  using meet_preds_mono(1) [OF _ _ outs_le_refl] by (simp add: flow_new_in_def meet_le boundary_A)

text \<open>Applying the equations once more does not increase the data of any block.\<close>

definition descending :: "(block_id \<rightharpoonup> 'd) \<Rightarrow> bool" where
  "descending out \<longleftrightarrow>
     (\<forall>b\<in>set (fl_blocks fl). \<forall>d. fl_transfer fl b (flow_new_in fl out b) = Inr d \<longrightarrow> le d (out_of fl out b))"

text \<open>A solution of the inequations; the data stays above all of them.\<close>

definition lower_solution :: "(block_id \<rightharpoonup> 'd) \<Rightarrow> bool" where
  "lower_solution X \<longleftrightarrow> outs_ok X \<and>
     (\<forall>b\<in>set (fl_blocks fl). \<forall>d. fl_transfer fl b (flow_new_in fl X b) = Inr d \<longrightarrow> le (out_of fl X b) d)"

lemma out_of_upd: "out_of fl (out(b \<mapsto> d)) c = (if c = b then d else out_of fl out c)"
  by (simp add: out_of_def)

lemma outs_ok_upd: "outs_ok out \<Longrightarrow> b \<in> set (fl_blocks fl) \<Longrightarrow> d \<in> A \<Longrightarrow> outs_ok (out(b \<mapsto> d))"
  unfolding outs_ok_def by (auto simp: ran_def split: if_splits)

lemma transfer_obtain:
  assumes "b \<in> set (fl_blocks fl)" "d \<in> A"
  obtains d' where "d' \<in> A" "fl_transfer fl b d = Inr d'"
  using transfer_A [OF assms] by blast


definition total_height :: "(block_id \<rightharpoonup> 'd) \<Rightarrow> nat" where
  "total_height out = (\<Sum>b\<in>set (fl_blocks fl). height (out_of fl out b))"

definition flow_inv :: "(block_id \<rightharpoonup> 'd) \<Rightarrow> (block_id \<rightharpoonup> 'd) \<Rightarrow> bool" where
  "flow_inv X out \<longleftrightarrow> outs_ok out \<and> descending out \<and> outs_le X out"

lemma lower_le:
  assumes X: "lower_solution X" and out: "outs_ok out" "outs_le X out" and b: "b \<in> set (fl_blocks fl)"
    and d: "fl_transfer fl b d = Inr e" "d \<in> A" "e \<in> A" "le (flow_new_in fl X b) d"
  shows "le (out_of fl X b) e"
proof -
  have rX: "ran X \<subseteq> A" using X by (simp add: lower_solution_def outs_ok_def)
  obtain x where x: "x \<in> A" "fl_transfer fl b (flow_new_in fl X b) = Inr x"
    using transfer_obtain [OF b new_in_A [OF rX]] by blast
  have "le (out_of fl X b) x" using X b x(2) by (simp add: lower_solution_def)
  moreover have "le x e" using transfer_mono [OF b new_in_A [OF rX] d(2,4) x(2) d(1)] .
  ultimately show ?thesis using le_trans [OF out_of_A [OF rX] x(1) d(3)] by blast
qed

lemma lower_step:
  assumes X: "lower_solution X" and out: "outs_ok out" "outs_le X out" and b: "b \<in> set (fl_blocks fl)"
    and d: "fl_transfer fl b (flow_new_in fl out b) = Inr d" "d \<in> A"
  shows "outs_le X (out(b \<mapsto> d))"
proof -
  have "ran X \<subseteq> A" "ran out \<subseteq> A" using X out(1) by (simp_all add: lower_solution_def outs_ok_def)
  then have "le (out_of fl X b) d"
    using lower_le [OF X out b d(1) new_in_A d(2) new_in_mono(2)] out(2) by blast
  then show ?thesis using out(2) unfolding outs_le_def by (simp add: out_of_upd)
qed

lemma visit_descends:
  assumes inv: "flow_inv X out" and b: "b \<in> set (fl_blocks fl)"
    and d: "fl_transfer fl b (flow_new_in fl out b) = Inr d" "d \<in> A"
  shows "descending (out(b \<mapsto> d))"
  unfolding descending_def
proof (intro ballI allI impI)
  fix c e assume c: "c \<in> set (fl_blocks fl)" and e: "fl_transfer fl c (flow_new_in fl (out(b \<mapsto> d)) c) = Inr e"
  have ok: "outs_ok out" and dsc: "descending out" using inv by (simp_all add: flow_inv_def)
  have ran: "ran out \<subseteq> A" "ran (out(b \<mapsto> d)) \<subseteq> A"
    using ok outs_ok_upd [OF ok b d(2)] by (simp_all add: outs_ok_def)
  have "le d (out_of fl out b)" using dsc b d(1) by (simp add: descending_def)
  then have le: "outs_le (out(b \<mapsto> d)) out"
    using outs_le_refl [OF ran(1)] unfolding outs_le_def by (simp add: out_of_upd)
  note m = new_in_mono [OF ran(2,1) le, of c]
  obtain e' where e': "e' \<in> A" "fl_transfer fl c (flow_new_in fl out c) = Inr e'"
    using transfer_obtain [OF c new_in_A [OF ran(1)]] by blast
  have "le e e'" by (rule transfer_mono [OF c m(1) new_in_A [OF ran(1)] m(2) e e'(2)])
  moreover have "le e' (out_of fl out c)" using dsc c e'(2) by (simp add: descending_def)
  moreover have "e \<in> A" using transfer_obtain [OF c m(1)] e by (metis sum.inject(2))
  ultimately have "le e (out_of fl out c)" using le_trans e'(1) out_of_A [OF ran(1)] by blast
  then show "le e (out_of fl (out(b \<mapsto> d)) c)" using \<open>le e e'\<close> e'(2) d(1) by (auto simp: out_of_upd)
qed

lemma visit_height:
  assumes ok: "outs_ok out" and b: "b \<in> set (fl_blocks fl)"
    and d: "d \<in> A" "le d (out_of fl out b)" "d \<noteq> out_of fl out b"
  shows "total_height (out(b \<mapsto> d)) < total_height out"
proof -
  have "height d < height (out_of fl out b)"
    using height_less d out_of_A ok by (simp add: outs_ok_def)
  then show ?thesis
    unfolding total_height_def using b by (intro sum_strict_mono_ex1) (auto simp: out_of_upd)
qed

text \<open>One visit of a block.\<close>

lemma visit_step:
  assumes X: "lower_solution X" and inv: "flow_inv X (fs_out st)" and b: "b \<in> set (fl_blocks fl)"
  obtains st' ch' where "flow_visit fl b (st, ch) = Inr (st', ch')"
    and "flow_inv X (fs_out st')"
    and "fs_in st' = (fs_in st)(b \<mapsto> flow_new_in fl (fs_out st) b)"
    and "fs_out st' = fs_out st \<and> ch' = ch \<and>
           fl_transfer fl b (flow_new_in fl (fs_out st) b) = Inr (out_of fl (fs_out st) b) \<or>
         total_height (fs_out st') < total_height (fs_out st) \<and> ch'"
proof -
  have ok: "outs_ok (fs_out st)" "outs_le X (fs_out st)" and dsc: "descending (fs_out st)"
    using inv by (simp_all add: flow_inv_def)
  obtain d where d: "d \<in> A" "fl_transfer fl b (flow_new_in fl (fs_out st) b) = Inr d"
    using transfer_obtain [OF b new_in_A] ok(1) unfolding outs_ok_def by blast
  show thesis
  proof (cases "d = out_of fl (fs_out st) b")
    case True
    then show thesis
      using inv d that [of "st\<lparr>fs_in := (fs_in st)(b \<mapsto> flow_new_in fl (fs_out st) b)\<rparr>" ch]
      by (simp add: flow_visit_def Let_def)
  next
    case False
    have "le d (out_of fl (fs_out st) b)" using dsc b d(2) by (simp add: descending_def)
    then have "total_height ((fs_out st)(b \<mapsto> d)) < total_height (fs_out st)"
      using visit_height [OF ok(1) b d(1)] False by blast
    moreover have "flow_inv X ((fs_out st)(b \<mapsto> d))"
      using lower_step [OF X ok b d(2,1)] visit_descends [OF inv b d(2,1)] outs_ok_upd [OF ok(1) b d(1)]
      by (simp add: flow_inv_def)
    ultimately show thesis
      using False d that [of "st\<lparr>fs_in := (fs_in st)(b \<mapsto> flow_new_in fl (fs_out st) b),
          fs_out := (fs_out st)(b \<mapsto> d)\<rparr>" True]
      by (simp add: flow_visit_def Let_def)
  qed
qed


text \<open>A round either lowers the data or shows that every equation holds.\<close>

lemma round_steps:
  assumes X: "lower_solution X" and "flow_inv X (fs_out st)" and "set bs \<subseteq> set (fl_blocks fl)"
  shows "\<exists>st' ch'. rfold (flow_visit fl) bs (st, ch) = Inr (st', ch') \<and> flow_inv X (fs_out st') \<and>
    (fs_out st' = fs_out st \<and> ch' = ch \<and>
       (\<forall>b\<in>set bs. fs_in st' b = Some (flow_new_in fl (fs_out st) b) \<and>
          fl_transfer fl b (flow_new_in fl (fs_out st) b) = Inr (out_of fl (fs_out st) b)) \<and>
       (\<forall>b. b \<notin> set bs \<longrightarrow> fs_in st' b = fs_in st b) \<or>
     total_height (fs_out st') < total_height (fs_out st) \<and> ch')"
  using assms(2,3)
proof (induction bs arbitrary: st ch)
  case (Cons b bs)
  have b: "b \<in> set (fl_blocks fl)" "set bs \<subseteq> set (fl_blocks fl)" using Cons.prems(2) by auto
  obtain st1 c1 where v: "flow_visit fl b (st, ch) = Inr (st1, c1)" and inv1: "flow_inv X (fs_out st1)"
    and in1: "fs_in st1 = (fs_in st)(b \<mapsto> flow_new_in fl (fs_out st) b)"
    and ch1: "fs_out st1 = fs_out st \<and> c1 = ch \<and>
           fl_transfer fl b (flow_new_in fl (fs_out st) b) = Inr (out_of fl (fs_out st) b) \<or>
         total_height (fs_out st1) < total_height (fs_out st) \<and> c1"
    using visit_step [OF X Cons.prems(1) b(1)] .
  obtain st2 c2 where r: "rfold (flow_visit fl) bs (st1, c1) = Inr (st2, c2)" and inv2: "flow_inv X (fs_out st2)"
    and ch2: "fs_out st2 = fs_out st1 \<and> c2 = c1 \<and>
       (\<forall>b\<in>set bs. fs_in st2 b = Some (flow_new_in fl (fs_out st1) b) \<and>
          fl_transfer fl b (flow_new_in fl (fs_out st1) b) = Inr (out_of fl (fs_out st1) b)) \<and>
       (\<forall>b. b \<notin> set bs \<longrightarrow> fs_in st2 b = fs_in st1 b) \<or>
     total_height (fs_out st2) < total_height (fs_out st1) \<and> c2"
    using Cons.IH [OF inv1 b(2), of c1] by blast
  show ?case
    by (rule exI [of _ st2], rule exI [of _ c2]) (use r inv2 ch1 ch2 in1 v in auto)
qed simp

lemma round_step:
  assumes X: "lower_solution X" and inv: "flow_inv X (fs_out st)"
  obtains (stable) st' where "flow_round fl st = Inr (st', False)" "flow_inv X (fs_out st')" "flow_solution fl st'"
  | (again) st' where "flow_round fl st = Inr (st', True)" "flow_inv X (fs_out st')"
      "total_height (fs_out st') < total_height (fs_out st)"
proof -
  obtain st' ch' where r: "flow_round fl st = Inr (st', ch')" and inv': "flow_inv X (fs_out st')"
    and alt: "fs_out st' = fs_out st \<and> ch' = False \<and>
       (\<forall>b\<in>set (fl_blocks fl). fs_in st' b = Some (flow_new_in fl (fs_out st) b) \<and>
          fl_transfer fl b (flow_new_in fl (fs_out st) b) = Inr (out_of fl (fs_out st) b)) \<or>
     total_height (fs_out st') < total_height (fs_out st) \<and> ch'"
    using round_steps [OF X inv order_refl, of False] unfolding flow_round_def by blast
  have out: "dom (fs_out st') = set (fl_blocks fl)" using inv' by (simp add: flow_inv_def outs_ok_def)
  show thesis
  proof (cases ch')
    case False
    then have eq: "fs_out st' = fs_out st" "\<forall>b\<in>set (fl_blocks fl). fs_in st' b = Some (flow_new_in fl (fs_out st) b) \<and>
          fl_transfer fl b (flow_new_in fl (fs_out st) b) = Inr (out_of fl (fs_out st) b)"
      using alt by blast+
    have "fs_out st b = Some (out_of fl (fs_out st) b)" if "b \<in> set (fl_blocks fl)" for b
      using out that unfolding eq(1) by (auto simp: out_of_def split: option.split)
    then have "flow_solution fl st'" using eq out unfolding flow_solution_def by simp
    then show thesis using stable r inv' False by simp
  qed (use again r inv' alt in simp)
qed

lemma iterate_total:
  assumes X: "lower_solution X" and inv: "flow_inv X (fs_out st)"
  shows "\<exists>r. flow_iterate fl st = Some (Inr r) \<and> flow_solution fl r \<and> flow_inv X (fs_out r)"
  using inv
proof (induction "total_height (fs_out st)" arbitrary: st rule: less_induct)
  case less
  show ?case
  proof (cases rule: round_step [OF X less.prems])
    case (1 st')
    then show ?thesis by (simp add: flow_iterate.simps)
  next
    case (2 st')
    then show ?thesis using less.hyps by (simp add: flow_iterate.simps)
  qed
qed

subsection \<open>The initial data\<close>

definition init_out :: "block_id \<Rightarrow> 'd \<Rightarrow> bool" where
  "init_out b d \<longleftrightarrow> (if fl_is_boundary fl b then fl_transfer fl b (fl_boundary fl) = Inr d else d = fl_top fl)"

lemma init_steps:
  assumes "set bs \<subseteq> set (fl_blocks fl)" "ran (fs_out st) \<subseteq> A" "\<forall>b d. fs_out st b = Some d \<longrightarrow> init_out b d"
  shows "\<exists>st'. rfold (flow_init_block fl) bs st = Inr st' \<and> dom (fs_out st') = dom (fs_out st) \<union> set bs \<and>
    ran (fs_out st') \<subseteq> A \<and> (\<forall>b d. fs_out st' b = Some d \<longrightarrow> init_out b d)"
  using assms
proof (induction bs arbitrary: st)
  case (Cons b bs)
  have b: "b \<in> set (fl_blocks fl)" "set bs \<subseteq> set (fl_blocks fl)" using Cons.prems(1) by auto
  obtain d0 where d0: "d0 \<in> A" "fl_transfer fl b (fl_boundary fl) = Inr d0"
    using transfer_obtain [OF b(1) boundary_A] .
  define d where "d = (if fl_is_boundary fl b then d0 else fl_top fl)"
  have d: "d \<in> A" "init_out b d" using d0 top_A by (simp_all add: d_def init_out_def)
  obtain i where i: "flow_init_block fl b st = Inr (st\<lparr>fs_in := i, fs_out := (fs_out st)(b \<mapsto> d)\<rparr>)"
    using d0 by (cases "fl_is_boundary fl b") (auto simp: flow_init_block_def d_def)
  have "ran ((fs_out st)(b \<mapsto> d)) \<subseteq> A" using Cons.prems(2) d(1) by (auto simp: ran_def split: if_splits)
  moreover have "\<forall>c e. ((fs_out st)(b \<mapsto> d)) c = Some e \<longrightarrow> init_out c e" using Cons.prems(3) d(2) by simp
  ultimately show ?case
    using Cons.IH [OF b(2), of "st\<lparr>fs_in := i, fs_out := (fs_out st)(b \<mapsto> d)\<rparr>"] i
    by (simp del: fun_upd_apply)
qed simp

lemma init_total:
  obtains st where "flow_init fl = Inr st" "outs_ok (fs_out st)" "\<forall>b\<in>set (fl_blocks fl). init_out b (out_of fl (fs_out st) b)"
proof -
  obtain st where "flow_init fl = Inr st" "outs_ok (fs_out st)" "\<forall>b d. fs_out st b = Some d \<longrightarrow> init_out b d"
    using init_steps [of "fl_blocks fl" "\<lparr>fs_in = Map.empty, fs_out = Map.empty\<rparr>"]
    by (auto simp: flow_init_def outs_ok_def)
  moreover from this have "\<forall>b\<in>set (fl_blocks fl). init_out b (out_of fl (fs_out st) b)"
    by (auto simp: outs_ok_def out_of_def split: option.split)
  ultimately show thesis using that by blast
qed

text \<open>The initial data of a block is above what the transfer gives for any data allowed there.\<close>

lemma init_above:
  assumes "init_out b d" and b: "b \<in> set (fl_blocks fl)" and e: "e \<in> A" "fl_transfer fl b e = Inr e'" "e' \<in> A"
    and le: "fl_is_boundary fl b \<Longrightarrow> le e (fl_boundary fl)"
  shows "le e' d"
  using assms(1) transfer_mono [OF b e(1) boundary_A le e(2)] top_greatest [OF e(3)]
  by (auto simp: init_out_def split: if_splits)

lemma init_inv:
  assumes X: "lower_solution X" and ok: "outs_ok out" and i: "\<forall>b\<in>set (fl_blocks fl). init_out b (out_of fl out b)"
  shows "flow_inv X out"
proof -
  have rX: "ran X \<subseteq> A" "dom X = set (fl_blocks fl)" and ro: "ran out \<subseteq> A" "dom out = set (fl_blocks fl)"
    using X ok by (simp_all add: lower_solution_def outs_ok_def)
  have "descending out"
    unfolding descending_def
  proof (intro ballI allI impI)
    fix b d assume b: "b \<in> set (fl_blocks fl)" and d: "fl_transfer fl b (flow_new_in fl out b) = Inr d"
    have "d \<in> A" using transfer_obtain [OF b new_in_A [OF ro(1)]] d by (metis sum.inject(2))
    then show "le d (out_of fl out b)"
      using init_above [OF _ b new_in_A [OF ro(1)] d _ new_in_boundary [OF ro(1)]] i b by blast
  qed
  moreover have "le (out_of fl X b) (out_of fl out b)" for b
  proof (cases "b \<in> set (fl_blocks fl)")
    case True
    obtain x where x: "x \<in> A" "fl_transfer fl b (flow_new_in fl X b) = Inr x"
      using transfer_obtain [OF True new_in_A [OF rX(1)]] by blast
    have "le x (out_of fl out b)"
      using init_above [OF _ True new_in_A [OF rX(1)] x(2,1) new_in_boundary [OF rX(1)]] i True by blast
    moreover have "le (out_of fl X b) x" using X True x(2) by (simp add: lower_solution_def)
    ultimately show ?thesis using le_trans out_of_A [OF rX(1)] out_of_A [OF ro(1)] x(1) by blast
  next
    case False
    then have "X b = None" "out b = None" using rX(2) ro(2) by blast+
    then have "out_of fl X b = out_of fl out b" by (simp add: out_of_def)
    then show ?thesis using le_refl [OF out_of_A [OF rX(1), of b]] by simp
  qed
  ultimately show ?thesis using ok by (simp add: flow_inv_def outs_le_def)
qed

text \<open>The solver returns a solution, and no solution of the inequations is anywhere above it.\<close>

lemma solve_from:
  assumes "lower_solution X"
  shows "\<exists>r. flow_solve fl = Some (Inr r) \<and> flow_solution fl r \<and> outs_ok (fs_out r) \<and> outs_le X (fs_out r)"
proof -
  obtain st where st: "flow_init fl = Inr st" "outs_ok (fs_out st)"
    "\<forall>b\<in>set (fl_blocks fl). init_out b (out_of fl (fs_out st) b)"
    by (rule init_total)
  show ?thesis
    using iterate_total [OF assms init_inv [OF assms st(2,3)]] st(1) by (auto simp: flow_solve_def flow_inv_def)
qed

end

section \<open>An example\<close>

text \<open>A loop that decrements its phi until it is zero.\<close>

definition count_fn :: ir_func where
  "count_fn =
     (let int = Prim Int32; n = TempValue int 0 7; m = TempValue int 1 7 in
     \<lparr>fn_id = 7, fn_name = ''f'', fn_ret = int, fn_params = [], fn_locals = [], fn_blocks = [0, 1, 2],
      fn_blk = (\<lambda>b.
        if b = 0 then \<lparr>bk_label = ''l0'', bk_insts = [], bk_exit = Some (JumpExit 1)\<rparr>
        else if b = 1 then \<lparr>bk_label = ''l1'',
          bk_insts = [Phi (Some n) [(0, Const (Constexpr int (V_int 5))), (1, Left m)],
            Binary Op_SUB (Some m) (Left n) (Const (Constexpr int (V_int 1)))],
          bk_exit = Some (BranchExit (Left m) (Some 1) (Some 2))\<rparr>
        else \<lparr>bk_label = ''l2'', bk_insts = [], bk_exit = Some (ReturnExit (Left n))\<rparr>),
      fn_temps = [(int, 1), (int, 1)], fn_loops = []\<rparr>)"

lemma count_fn_blocks [simp]:
  "fn_blocks count_fn = [0, 1, 2]" "hasExit (fn_blk count_fn b)"
  "exit_succs count_fn b = (if b = 0 then [1] else if b = 1 then [1, 2] else [])"
  by (simp_all add: count_fn_def Let_def hasExit_def exit_succs_def block_targets_def)

end
