(* ===== verification/Dominance.thy ===== *)
theory Dominance
  imports Dataflow
begin

text \<open>
  Dominators (\<open>analysis/dataflow/dominance.hpp\<close>), the dominator tree and the dominance frontier
  (\<open>analysis/dominance.hpp\<close>). The order in which a hash set is traversed is the argument \<open>arrange\<close>.

  The analysis computes the dominators by paths; the tree fails exactly when a block is unreachable
  and holds the immediate dominators otherwise; the frontier is the set of blocks with a dominated
  predecessor that are not strictly dominated, the entrance left out.
\<close>

section \<open>The analysis\<close>

type_synonym block_set = "block_id dset"

definition dom_flow :: "ir_func \<Rightarrow> block_set flow" where
  "dom_flow fn =
     \<lparr>fl_blocks = fn_blocks fn, fl_pred = cfg_pred fn, fl_is_boundary = (\<lambda>b. b = hd (fn_blocks fn)),
      fl_boundary = dset_empty, fl_top = Universe, fl_default = dset_empty,
      fl_meet = intersection_set, fl_edge = (\<lambda>p b d. d), fl_transfer = (\<lambda>b d. Inr (dset_insert b d))\<rparr>"

definition dominance :: "ir_func \<Rightarrow> block_set flow_state result option" where
  "dominance fn = obind (Some (with_cfg fn (Inr (dom_flow fn)))) flow_solve"

section \<open>The dominator tree\<close>

definition dom_size :: "(block_id \<rightharpoonup> block_set) \<Rightarrow> block_id \<Rightarrow> nat result" where
  "dom_size out b = (case out b of None \<Rightarrow> Inl Out_of_range | Some d \<Rightarrow> dset_size d)"

text \<open>The dominator of a block, other than itself, that has the most dominators.\<close>

fun pick_idom :: "(block_id \<rightharpoonup> block_set) \<Rightarrow> block_id \<Rightarrow> block_id option \<Rightarrow> block_id list \<Rightarrow> block_id option result" where
  "pick_idom out b acc [] = Inr acc"
| "pick_idom out b acc (d # ds) =
     (if d = b then pick_idom out b acc ds
      else case acc of
             None \<Rightarrow> pick_idom out b (Some d) ds
           | Some c \<Rightarrow>
               rbind (dom_size out d) (\<lambda>m. rbind (dom_size out c) (\<lambda>n.
                 pick_idom out b (if m > n then Some d else Some c) ds)))"

type_synonym idom_map = "block_id \<rightharpoonup> block_id option"

definition idom_block :: "(block_id set \<Rightarrow> block_id list) \<Rightarrow> (block_id \<rightharpoonup> block_set) \<Rightarrow> block_id \<Rightarrow> idom_map \<Rightarrow>
    idom_map result" where
  "idom_block arrange out b m =
     (case out b of
        None \<Rightarrow> Inl Out_of_range
      | Some d \<Rightarrow> rbind (dset_elems d) (\<lambda>s. rbind (pick_idom out b None (arrange s)) (\<lambda>i. Inr (m(b \<mapsto> i)))))"

definition dominance_tree :: "(block_id set \<Rightarrow> block_id list) \<Rightarrow> (block_id \<rightharpoonup> block_set) \<Rightarrow> ir_func \<Rightarrow> idom_map result" where
  "dominance_tree arrange out fn = rfold (idom_block arrange out) (fn_blocks fn) Map.empty"

definition idom :: "idom_map \<Rightarrow> block_id \<Rightarrow> block_id option result" where
  "idom m b = (case m b of None \<Rightarrow> Inl (Compiler_error ''Block not found in dominance tree'') | Some i \<Rightarrow> Inr i)"

text \<open>The children of a block, in the order in which the map of parents is traversed.\<close>

definition dom_children :: "(block_id set \<Rightarrow> block_id list) \<Rightarrow> idom_map \<Rightarrow> block_id \<Rightarrow> block_id list" where
  "dom_children arrange m p = [c \<leftarrow> arrange (dom m). m c = Some (Some p)]"

section \<open>The dominance frontier\<close>

type_synonym frontier_map = "block_id \<rightharpoonup> block_set"

definition frontier_insert :: "block_id \<Rightarrow> block_id \<Rightarrow> frontier_map \<Rightarrow> frontier_map" where
  "frontier_insert runner b F =
     F(runner \<mapsto> dset_insert b (case F runner of None \<Rightarrow> dset_empty | Some d \<Rightarrow> d))"

text \<open>The walk from a predecessor up to the immediate dominator \<open>stop\<close> of the block \<open>b\<close>.\<close>

partial_function (option) run_up ::
  "idom_map \<Rightarrow> block_id \<Rightarrow> block_id \<Rightarrow> block_id option \<Rightarrow> frontier_map \<Rightarrow> frontier_map result option" where
  "run_up m stop b runner F =
     (case runner of
        None \<Rightarrow> Some (Inr F)
      | Some r \<Rightarrow>
          if r = stop then Some (Inr F)
          else (case idom m r of
                  Inl e \<Rightarrow> Some (Inl e)
                | Inr next \<Rightarrow> run_up m stop b next (frontier_insert r b F)))"

fun frontier_preds :: "idom_map \<Rightarrow> block_id \<Rightarrow> block_id \<Rightarrow> block_id list \<Rightarrow> frontier_map \<Rightarrow> frontier_map result option" where
  "frontier_preds m stop b [] F = Some (Inr F)"
| "frontier_preds m stop b (p # ps) F = obind (run_up m stop b (Some p) F) (frontier_preds m stop b ps)"

definition frontier_block :: "ir_func \<Rightarrow> idom_map \<Rightarrow> block_id \<Rightarrow> frontier_map \<Rightarrow> frontier_map result option" where
  "frontier_block fn m b F =
     (case idom m b of
        Inl e \<Rightarrow> Some (Inl e)
      | Inr None \<Rightarrow> Some (Inr F)
      | Inr (Some i) \<Rightarrow>
          if cfg_pred fn b = [] then Some (Inl Out_of_range) else frontier_preds m i b (cfg_pred fn b) F)"

fun frontier_blocks :: "ir_func \<Rightarrow> idom_map \<Rightarrow> block_id list \<Rightarrow> frontier_map \<Rightarrow> frontier_map result option" where
  "frontier_blocks fn m [] F = Some (Inr F)"
| "frontier_blocks fn m (b # bs) F = obind (frontier_block fn m b F) (frontier_blocks fn m bs)"

definition dominance_frontier :: "ir_func \<Rightarrow> idom_map \<Rightarrow> frontier_map result option" where
  "dominance_frontier fn m =
     frontier_blocks fn m (fn_blocks fn) (\<lambda>b. if b \<in> set (fn_blocks fn) then Some dset_empty else None)"

text \<open>The three analyses in sequence, as the passes construct them.\<close>

definition dominators :: "(block_id set \<Rightarrow> block_id list) \<Rightarrow> ir_func \<Rightarrow> idom_map result option" where
  "dominators arrange fn = obind (dominance fn) (\<lambda>st. Some (dominance_tree arrange (fs_out st) fn))"

definition frontiers :: "(block_id set \<Rightarrow> block_id list) \<Rightarrow> ir_func \<Rightarrow> frontier_map result option" where
  "frontiers arrange fn = obind (dominators arrange fn) (dominance_frontier fn)"

section \<open>Dominators by paths\<close>

text \<open>Paths from the entrance, last block first.\<close>

inductive path_to :: "ir_func \<Rightarrow> block_id \<Rightarrow> block_id list \<Rightarrow> bool" for fn where
  start: "entrance fn = Inr e \<Longrightarrow> path_to fn e [e]"
| step: "path_to fn p ps \<Longrightarrow> b \<in> set (cfg_succ fn p) \<Longrightarrow> path_to fn b (b # ps)"

definition reachable :: "ir_func \<Rightarrow> block_id \<Rightarrow> bool" where
  "reachable fn b \<longleftrightarrow> (\<exists>ps. path_to fn b ps)"

definition dominates :: "ir_func \<Rightarrow> block_id \<Rightarrow> block_id \<Rightarrow> bool" where
  "dominates fn d b \<longleftrightarrow> (\<forall>ps. path_to fn b ps \<longrightarrow> d \<in> set ps)"

definition strictly_dominates :: "ir_func \<Rightarrow> block_id \<Rightarrow> block_id \<Rightarrow> bool" where
  "strictly_dominates fn d b \<longleftrightarrow> dominates fn d b \<and> d \<noteq> b"

lemma path_to_Cons: "path_to fn b ps \<Longrightarrow> \<exists>qs. ps = b # qs"
  by (erule path_to.cases) auto

lemma path_to_suffix: "path_to fn b (xs @ c # ys) \<Longrightarrow> path_to fn c (c # ys)"
proof (induction xs arbitrary: b)
  case Nil
  then show ?case using path_to_Cons by fastforce
next
  case (Cons x xs)
  from Cons.prems show ?case by (cases rule: path_to.cases) (use Cons.IH in auto)
qed

lemma path_to_replace: "path_to fn w (xs @ u # ys) \<Longrightarrow> path_to fn u qs \<Longrightarrow> path_to fn w (xs @ qs)"
proof (induction xs arbitrary: w)
  case Nil
  then show ?case using path_to_Cons by fastforce
next
  case (Cons x xs)
  from Cons.prems(1) show ?case
    by (cases rule: path_to.cases) (use Cons.IH Cons.prems(2) in \<open>auto intro: path_to.step\<close>)
qed

lemma dominates_refl [simp]: "dominates fn b b"
  using path_to_Cons by (fastforce simp: dominates_def)

lemma dominates_trans: "dominates fn d c \<Longrightarrow> dominates fn c b \<Longrightarrow> dominates fn d b"
  unfolding dominates_def by (metis in_set_conv_decomp in_set_conv_decomp_first path_to_suffix Un_iff set_append)

lemma dominates_reachable: "dominates fn d b \<Longrightarrow> reachable fn b \<Longrightarrow> reachable fn d"
  unfolding dominates_def reachable_def by (metis in_set_conv_decomp path_to_suffix)

lemma dominates_antisym:
  assumes "dominates fn d c" "dominates fn c d" "reachable fn c"
  shows "d = c"
proof (rule ccontr)
  assume ne: "d \<noteq> c"
  obtain ps where ps: "path_to fn c ps" and least: "\<And>qs. path_to fn c qs \<Longrightarrow> length ps \<le> length qs"
    using assms(3) ex_has_least_nat [of "path_to fn c" _ length] unfolding reachable_def by blast
  obtain ps' where c: "ps = c # ps'" using path_to_Cons [OF ps] by blast
  have "d \<in> set ps'" using assms(1) ps c ne by (auto simp: dominates_def)
  then obtain xs ys where d: "ps' = xs @ d # ys" by (auto simp: in_set_conv_decomp)
  then have "path_to fn d (d # ys)" using path_to_suffix [of fn c "c # xs"] ps c by simp
  then have "c \<in> set ys" using assms(2) ne by (auto simp: dominates_def)
  then obtain us vs where "ys = us @ c # vs" by (auto simp: in_set_conv_decomp)
  then have "path_to fn c (c # vs)" using path_to_suffix [of fn c "c # xs @ d # us"] ps c d by simp
  then show False using least [of "c # vs"] c d \<open>ys = us @ c # vs\<close> by simp
qed

text \<open>Two dominators of a block are comparable.\<close>

lemma dominates_linear:
  assumes "dominates fn u w" "dominates fn v w" "reachable fn w"
  shows "dominates fn u v \<or> dominates fn v u"
proof -
  obtain ps where ps: "path_to fn w ps" using assms(3) by (auto simp: reachable_def)
  then have "\<exists>x\<in>set ps. x = u \<or> x = v" using assms(1) by (auto simp: dominates_def)
  then obtain xs x ys where x: "ps = xs @ x # ys" "x = u \<or> x = v" "\<forall>y\<in>set xs. \<not> (y = u \<or> y = v)"
    using split_list_first_prop [of ps "\<lambda>x. x = u \<or> x = v"] by blast
  have "u \<in> set qs \<and> v \<in> set qs" if "path_to fn x qs" for qs
    using path_to_replace [OF ps [unfolded x(1)] that] assms(1,2) x(3)
    unfolding dominates_def by (metis Un_iff set_append)
  then show ?thesis using x(2) by (auto simp: dominates_def)
qed

section \<open>The analysis computes the dominators\<close>

lemma dom_flow_sel [simp]:
  "fl_blocks (dom_flow fn) = fn_blocks fn" "fl_pred (dom_flow fn) = cfg_pred fn"
  "fl_is_boundary (dom_flow fn) b = (b = hd (fn_blocks fn))"
  "fl_boundary (dom_flow fn) = Elems {}" "fl_top (dom_flow fn) = Universe"
  "fl_default (dom_flow fn) = Elems {}" "fl_meet (dom_flow fn) = intersection_set"
  "fl_edge (dom_flow fn) p b d = d" "fl_transfer (dom_flow fn) b d = Inr (dset_insert b d)"
  by (simp_all add: dom_flow_def dset_empty_def)

definition dom_data :: "ir_func \<Rightarrow> block_set set" where
  "dom_data fn = {d. \<forall>s. d = Elems s \<longrightarrow> s \<subseteq> set (fn_blocks fn)}"

definition dom_height :: "ir_func \<Rightarrow> block_set \<Rightarrow> nat" where
  "dom_height fn d = (case d of Universe \<Rightarrow> Suc (card (set (fn_blocks fn))) | Elems s \<Rightarrow> card s)"

lemma dom_data_iff: "d \<in> dom_data fn \<longleftrightarrow> d = Universe \<or> (\<exists>s. d = Elems s \<and> s \<subseteq> set (fn_blocks fn))"
  by (cases d) (auto simp: dom_data_def)

lemma intersection_mono:
  "dset_le a c \<Longrightarrow> dset_le b d \<Longrightarrow> dset_le (intersection_set a b) (intersection_set c d)"
  by (cases a; cases b; cases c; cases d) auto

lemma intersection_le: "dset_le (intersection_set a b) b"
  by (cases a; cases b) auto

interpretation dom: flow_problem "dom_flow fn" "dom_data fn" dset_le "dom_height fn" for fn
proof (unfold_locales, goal_cases)
  case (3 d1 d2)
  show ?case
  proof (cases d2)
    case Universe
    then obtain s where s: "d1 = Elems s" "s \<subseteq> set (fn_blocks fn)" using 3 by (auto simp: dom_data_iff)
    then show ?thesis using Universe by (simp add: dom_height_def card_mono less_Suc_eq_le)
  next
    case (Elems t)
    then obtain s where "d1 = Elems s" "s \<subset> t" using 3 by (cases d1) auto
    moreover have "finite t" using 3(2) Elems by (auto simp: dom_data_iff intro: finite_subset)
    ultimately show ?thesis using Elems by (simp add: dom_height_def psubset_card_mono)
  qed
next
  case (8 d1 d2)
  then show ?case by (cases d1; cases d2) (auto simp: dom_data_iff)
next
  case (14 b d1 d2 e1 e2)
  then show ?case by (cases d1; cases d2) auto
qed (auto simp: dom_data_iff intersection_mono intersection_le intro: dset_le_trans)

text \<open>The dominators solve the inequations; for an unreachable block they are all blocks.\<close>

definition dom_sets :: "ir_func \<Rightarrow> block_id \<rightharpoonup> block_set" where
  "dom_sets fn b =
     (if b \<in> set (fn_blocks fn)
        then Some (if reachable fn b then Elems {d. dominates fn d b} else Universe) else None)"

abbreviation well_formed :: "ir_func \<Rightarrow> bool" where
  "well_formed fn \<equiv> fn_blocks fn \<noteq> [] \<and> cfg_defined fn \<and> (\<forall>b\<in>set (fn_blocks fn). set (exit_succs fn b) \<subseteq> set (fn_blocks fn))"

lemma entrance_hd: "well_formed fn \<Longrightarrow> entrance fn = Inr (hd (fn_blocks fn))"
  by (cases "fn_blocks fn") (simp_all add: entrance_def)

lemma path_to_blocks:
  assumes wf: "well_formed fn" and "path_to fn b ps"
  shows "set ps \<subseteq> set (fn_blocks fn)"
  using assms(2)
proof (induction rule: path_to.induct)
  case (start e)
  then show ?case using wf entrance_hd [OF wf] hd_in_set [of "fn_blocks fn"] by auto
next
  case (step p ps b)
  then show ?case using wf by (auto simp: cfg_succ_def split: if_splits)
qed

lemma reachable_block: "well_formed fn \<Longrightarrow> reachable fn b \<Longrightarrow> b \<in> set (fn_blocks fn)"
  unfolding reachable_def using path_to_blocks path_to_Cons by fastforce

lemma reachable_step: "reachable fn p \<Longrightarrow> b \<in> set (cfg_succ fn p) \<Longrightarrow> reachable fn b"
  unfolding reachable_def by (meson path_to.step)

lemma reachable_entry: "well_formed fn \<Longrightarrow> reachable fn (hd (fn_blocks fn))"
  unfolding reachable_def using entrance_hd path_to.start by blast

lemma dominates_blocks: "well_formed fn \<Longrightarrow> reachable fn b \<Longrightarrow> dominates fn d b \<Longrightarrow> d \<in> set (fn_blocks fn)"
  unfolding reachable_def dominates_def using path_to_blocks by blast

lemma dominates_entry: "well_formed fn \<Longrightarrow> dominates fn d (hd (fn_blocks fn)) \<longleftrightarrow> d = hd (fn_blocks fn)"
  using path_to.start [OF entrance_hd, of fn] dominates_refl [of fn] unfolding dominates_def by fastforce

text \<open>A strict dominator of a block dominates its reachable predecessors.\<close>

lemma dominates_pred:
  "dominates fn d b \<Longrightarrow> d \<noteq> b \<Longrightarrow> b \<in> set (cfg_succ fn p) \<Longrightarrow> dominates fn d p"
  unfolding dominates_def by (metis path_to.step set_ConsD)

lemma dominates_from_preds:
  assumes "reachable fn b" "b \<noteq> hd (fn_blocks fn)" "well_formed fn"
    and "\<And>p. p \<in> set (cfg_pred fn b) \<Longrightarrow> reachable fn p \<Longrightarrow> dominates fn d p"
  shows "dominates fn d b"
  unfolding dominates_def
proof (intro allI impI)
  fix ps assume "path_to fn b ps"
  then show "d \<in> set ps"
  proof (cases rule: path_to.cases)
    case start
    then show ?thesis using assms(2) entrance_hd [OF assms(3)] by simp
  next
    case (step p qs)
    then show ?thesis using assms(4) [of p] by (auto simp: cfg_pred_succ dominates_def reachable_def)
  qed
qed

lemma dset_le_contains:
  assumes "\<forall>s. b = Elems s \<longrightarrow> finite s"
  shows "dset_le a b \<longleftrightarrow> (\<forall>x::nat. dset_contains a x \<longrightarrow> dset_contains b x)"
proof (cases a)
  case Universe
  have "\<exists>x. x \<notin> s" if "finite s" for s :: "nat set"
    using that infinite_UNIV_nat by (metis UNIV_eq_I)
  then show ?thesis using assms Universe by (cases b) auto
next
  case (Elems s)
  then show ?thesis by (cases b) auto
qed

lemma dom_new_in:
  "dset_contains (flow_new_in (dom_flow fn) out b) x \<longleftrightarrow>
     b \<noteq> hd (fn_blocks fn) \<and> (\<forall>p\<in>set (cfg_pred fn b). dset_contains (out_of (dom_flow fn) out p) x)"
proof -
  have "dset_contains (fold (\<lambda>p acc. intersection_set acc (out_of (dom_flow fn) out p)) ps acc) x \<longleftrightarrow>
      dset_contains acc x \<and> (\<forall>p\<in>set ps. dset_contains (out_of (dom_flow fn) out p) x)" for ps acc
    by (induction ps arbitrary: acc) auto
  then show ?thesis by (auto simp: flow_new_in_def meet_preds_def)
qed

lemma cfg_pred_block: "p \<in> set (cfg_pred fn b) \<Longrightarrow> p \<in> set (fn_blocks fn)"
  by (simp add: cfg_pred_def)

lemma dom_sets_out: "b \<in> set (fn_blocks fn) \<Longrightarrow>
    out_of (dom_flow fn) (dom_sets fn) b = (if reachable fn b then Elems {d. dominates fn d b} else Universe)"
  by (simp add: out_of_def dom_sets_def)

lemma dom_sets_lower:
  assumes wf: "well_formed fn"
  shows "dom.lower_solution fn (dom_sets fn)"
  unfolding dom.lower_solution_def
proof (intro conjI ballI allI impI)
  have "ran (dom_sets fn) \<subseteq> dom_data fn"
    using dominates_blocks [OF wf] by (auto simp: dom_sets_def ran_def dom_data_def split: if_splits)
  then show ok: "dom.outs_ok fn (dom_sets fn)"
    by (auto simp: dom.outs_ok_def dom_sets_def split: if_splits)
  fix b d
  assume "b \<in> set (fl_blocks (dom_flow fn))"
    and "fl_transfer (dom_flow fn) b (flow_new_in (dom_flow fn) (dom_sets fn) b) = Inr d"
  then have b: "b \<in> set (fn_blocks fn)" and d: "d = dset_insert b (flow_new_in (dom_flow fn) (dom_sets fn) b)"
    by simp_all
  have "x = b \<or> dset_contains (flow_new_in (dom_flow fn) (dom_sets fn) b) x"
    if x: "dset_contains (out_of (dom_flow fn) (dom_sets fn) b) x" for x
  proof (cases "x = b")
    case False
    have "\<not> reachable fn b \<or> dominates fn x b" using x b by (auto simp: dom_sets_out split: if_splits)
    then have "b \<noteq> hd (fn_blocks fn)"
      using dominates_entry [OF wf] reachable_entry [OF wf] False by auto
    moreover have "dset_contains (out_of (dom_flow fn) (dom_sets fn) p) x" if p: "p \<in> set (cfg_pred fn b)" for p
      using \<open>\<not> reachable fn b \<or> dominates fn x b\<close> dominates_pred [of fn x b p] reachable_step [of fn p b] False p
      by (auto simp: dom_sets_out [OF cfg_pred_block [OF p]] cfg_pred_succ)
    ultimately show ?thesis by (simp add: dom_new_in)
  qed simp
  moreover have "d \<in> dom_data fn"
    using dom.transfer_A [of b fn] dom.new_in_A [of "dom_sets fn" fn b] ok b unfolding d dom.outs_ok_def by fastforce
  then have "\<forall>s. d = Elems s \<longrightarrow> finite s" by (auto simp: dom_data_def intro: finite_subset)
  ultimately show "dset_le (out_of (dom_flow fn) (dom_sets fn) b) d"
    unfolding dset_le_contains [OF \<open>\<forall>s. d = Elems s \<longrightarrow> finite s\<close>] unfolding d by simp
qed

text \<open>In a solution only blocks on the path are dominators.\<close>

lemma solution_on_path:
  assumes sol: "flow_solution (dom_flow fn) st" and wf: "well_formed fn"
    and "path_to fn b ps" and "dset_contains (out_of (dom_flow fn) (fs_out st) b) x"
  shows "x \<in> set ps"
  using assms(3,4)
proof (induction rule: path_to.induct)
  case (start e)
  have e: "e \<in> set (fn_blocks fn)" "e = hd (fn_blocks fn)" using start(1) entrance_hd [OF wf] wf by auto
  then have "out_of (dom_flow fn) (fs_out st) e = dset_insert e (flow_new_in (dom_flow fn) (fs_out st) e)"
    using sol by (auto simp: flow_solution_def out_of_def)
  then show ?case using start(2) e(2) by (auto simp: dom_new_in)
next
  case (step p ps b)
  have "b \<in> set (fn_blocks fn)" using path_to_blocks [OF wf path_to.step [OF step(1,2)]] by simp
  then have "out_of (dom_flow fn) (fs_out st) b = dset_insert b (flow_new_in (dom_flow fn) (fs_out st) b)"
    using sol by (auto simp: flow_solution_def out_of_def)
  then show ?case using step by (auto simp: dom_new_in cfg_pred_succ)
qed

lemma dominance_sets:
  assumes wf: "well_formed fn"
  shows "\<exists>st. dominance fn = Some (Inr st) \<and> fs_out st = dom_sets fn"
proof -
  obtain st where st: "flow_solve (dom_flow fn) = Some (Inr st)" and sol: "flow_solution (dom_flow fn) st"
    and ok: "dom.outs_ok fn (fs_out st)" and le: "dom.outs_le fn (dom_sets fn) (fs_out st)"
    using dom.solve_from [OF dom_sets_lower [OF wf]] by blast
  have "fs_out st b = dom_sets fn b" for b
  proof (cases "b \<in> set (fn_blocks fn)")
    case True
    then obtain d where d: "fs_out st b = Some d" using sol by (auto simp: flow_solution_def)
    have above: "dset_le (if reachable fn b then Elems {d. dominates fn d b} else Universe) d"
      using le d unfolding dom.outs_le_def by (auto simp: out_of_def dom_sets_def True dest: spec [of _ b])
    show ?thesis
    proof (cases "reachable fn b")
      case reach: True
      have on_path: "x \<in> set ps" if "path_to fn b ps" "dset_contains d x" for ps x
        using solution_on_path [OF sol wf that(1), of x] that(2) d by (simp add: out_of_def)
      have "d \<noteq> Universe"
      proof
        assume "d = Universe"
        then have "set ps = UNIV" if "path_to fn b ps" for ps using on_path [OF that] by auto
        then show False using reach infinite_UNIV_nat unfolding reachable_def by (metis finite_set)
      qed
      then obtain s where s: "d = Elems s" by (cases d) auto
      then have "s = {d. dominates fn d b}" using above reach on_path by (auto simp: dominates_def)
      then show ?thesis using d s reach True by (simp add: dom_sets_def)
    qed (use above d True in \<open>auto simp: dom_sets_def dset_le_iff\<close>)
  next
    case False
    then show ?thesis using ok by (auto simp: dom.outs_ok_def dom_sets_def)
  qed
  then show ?thesis using st wf by (auto simp: dominance_def)
qed

section \<open>The tree holds the immediate dominators\<close>

definition immediate_dominator :: "ir_func \<Rightarrow> block_id \<Rightarrow> block_id \<Rightarrow> bool" where
  "immediate_dominator fn i b \<longleftrightarrow>
     strictly_dominates fn i b \<and> (\<forall>d. strictly_dominates fn d b \<longrightarrow> dominates fn d i)"

abbreviation arranges :: "(block_id set \<Rightarrow> block_id list) \<Rightarrow> bool" where
  "arranges arrange \<equiv> \<forall>S. finite S \<longrightarrow> set (arrange S) = S"

lemma finite_dominators:
  assumes "reachable fn b"
  shows "finite {d. dominates fn d b}"
proof -
  obtain ps where "path_to fn b ps" using assms by (auto simp: reachable_def)
  then have "{d. dominates fn d b} \<subseteq> set ps" by (auto simp: dominates_def)
  then show ?thesis by (rule finite_subset) simp
qed

text \<open>A strict dominator has fewer dominators.\<close>

lemma dominators_less:
  assumes "dominates fn d b" "d \<noteq> b" "reachable fn b"
  shows "card {x. dominates fn x d} < card {x. dominates fn x b}"
proof (rule psubset_card_mono)
  have "\<not> dominates fn b d" using dominates_antisym [OF assms(1) _ assms(3)] assms(2) by blast
  then show "{x. dominates fn x d} \<subset> {x. dominates fn x b}"
    using dominates_trans [OF _ assms(1)] dominates_refl [of fn b] by blast
qed (rule finite_dominators [OF assms(3)])

lemma dominates_by_size:
  assumes "dominates fn u w" "dominates fn v w" "reachable fn w"
    and "card {x. dominates fn x u} \<le> card {x. dominates fn x v}"
  shows "dominates fn u v"
proof (rule ccontr)
  assume "\<not> dominates fn u v"
  then have "dominates fn v u" "v \<noteq> u" using dominates_linear [OF assms(1-3)] by auto
  then show False
    using dominators_less [of fn v u] dominates_reachable [OF assms(1,3)] assms(4) by simp
qed

lemma dom_size_sets:
  assumes "well_formed fn" "reachable fn b"
  shows "dom_size (dom_sets fn) b = Inr (card {d. dominates fn d b})"
  using reachable_block [OF assms] assms(2) by (simp add: dom_size_def dom_sets_def)

lemma pick_idom_closest:
  assumes wf: "well_formed fn" and b: "reachable fn b"
    and "\<forall>d\<in>set ds. dominates fn d b" and "\<forall>c. acc = Some c \<longrightarrow> strictly_dominates fn c b"
  shows "\<exists>i. pick_idom (dom_sets fn) b acc ds = Inr i \<and>
    (i = None \<longrightarrow> acc = None \<and> set ds \<subseteq> {b}) \<and>
    (\<forall>c. i = Some c \<longrightarrow> strictly_dominates fn c b \<and>
      (\<forall>d. d \<in> set ds \<and> d \<noteq> b \<or> acc = Some d \<longrightarrow> dominates fn d c))"
  using assms(3,4)
proof (induction ds arbitrary: acc)
  case Nil
  then show ?case by simp
next
  case (Cons d ds)
  have db: "dominates fn d b" and ds: "\<forall>d\<in>set ds. dominates fn d b" using Cons.prems(1) by auto
  consider (self) "d = b" | (first) "d \<noteq> b" "acc = None" | (compare) c where "d \<noteq> b" "acc = Some c"
    by (cases acc) auto
  then show ?case
  proof cases
    case self
    then show ?thesis using Cons.IH [OF ds Cons.prems(2)] by auto
  next
    case first
    then show ?thesis using Cons.IH [OF ds, of "Some d"] db by (auto simp: strictly_dominates_def)
  next
    case compare
    have cb: "dominates fn c b" "c \<noteq> b" using Cons.prems(2) compare by (auto simp: strictly_dominates_def)
    let ?m = "card {x. dominates fn x d}" and ?n = "card {x. dominates fn x c}"
    have sizes: "dom_size (dom_sets fn) d = Inr ?m" "dom_size (dom_sets fn) c = Inr ?n"
      using dom_size_sets [OF wf] dominates_reachable [OF _ b] db cb by blast+
    define best where "best = (if ?m > ?n then d else c)"
    have best: "strictly_dominates fn best b" "dominates fn d best" "dominates fn c best"
      using db cb compare(1) dominates_by_size [OF db cb(1) b] dominates_by_size [OF cb(1) db b]
      by (auto simp: best_def strictly_dominates_def)
    have "pick_idom (dom_sets fn) b acc (d # ds) = pick_idom (dom_sets fn) b (Some best) ds"
      using compare sizes by (simp add: best_def)
    then show ?thesis
      using Cons.IH [OF ds, of "Some best"] best(1) dominates_trans [OF best(2)] dominates_trans [OF best(3)]
        compare by auto
  qed
qed

lemma idom_block_spec:
  assumes wf: "well_formed fn" and b: "reachable fn b" and arr: "arranges arrange"
  shows "\<exists>i. idom_block arrange (dom_sets fn) b m = Inr (m(b \<mapsto> i)) \<and>
    (case i of None \<Rightarrow> b = hd (fn_blocks fn) | Some c \<Rightarrow> immediate_dominator fn c b \<and> b \<noteq> hd (fn_blocks fn))"
proof -
  let ?ds = "arrange {d. dominates fn d b}"
  have ds: "set ?ds = {d. dominates fn d b}" using arr finite_dominators [OF b] by blast
  obtain i where i: "pick_idom (dom_sets fn) b None ?ds = Inr i" "i = None \<longrightarrow> set ?ds \<subseteq> {b}"
    "\<forall>c. i = Some c \<longrightarrow> strictly_dominates fn c b \<and> (\<forall>d. d \<in> set ?ds \<and> d \<noteq> b \<longrightarrow> dominates fn d c)"
    using pick_idom_closest [OF wf b, of ?ds None] ds by auto
  have entry: "dominates fn (hd (fn_blocks fn)) b"
    unfolding dominates_def
  proof (intro allI impI)
    fix ps assume "path_to fn b ps"
    then show "hd (fn_blocks fn) \<in> set ps"
      by (induction rule: path_to.induct) (use entrance_hd [OF wf] in auto)
  qed
  have "case i of None \<Rightarrow> b = hd (fn_blocks fn) | Some c \<Rightarrow> immediate_dominator fn c b \<and> b \<noteq> hd (fn_blocks fn)"
  proof (cases i)
    case None
    then show ?thesis using i(2) ds entry by auto
  next
    case (Some c)
    then have c: "strictly_dominates fn c b" "\<forall>d. strictly_dominates fn d b \<longrightarrow> dominates fn d c"
      using i(3) ds by (auto simp: strictly_dominates_def)
    then show ?thesis
      using Some dominates_entry [OF wf, of c] by (auto simp: immediate_dominator_def strictly_dominates_def)
  qed
  moreover have "idom_block arrange (dom_sets fn) b m = Inr (m(b \<mapsto> i))"
    using i(1) b reachable_block [OF wf b] by (simp add: idom_block_def dom_sets_def)
  ultimately show ?thesis by blast
qed

text \<open>What the tree says about a set of blocks.\<close>

definition tree_ok :: "ir_func \<Rightarrow> block_id set \<Rightarrow> idom_map \<Rightarrow> bool" where
  "tree_ok fn B m \<longleftrightarrow> dom m = B \<and>
     (\<forall>b\<in>B. case m b of Some (Some i) \<Rightarrow> b \<noteq> hd (fn_blocks fn) \<and> immediate_dominator fn i b
                     | _ \<Rightarrow> b = hd (fn_blocks fn))"

lemma tree_ok_upd:
  "tree_ok fn B m \<Longrightarrow>
     (case i of None \<Rightarrow> b = hd (fn_blocks fn) | Some c \<Rightarrow> immediate_dominator fn c b \<and> b \<noteq> hd (fn_blocks fn)) \<Longrightarrow>
     tree_ok fn (insert b B) (m(b \<mapsto> i))"
  by (auto simp: tree_ok_def split: option.splits)

lemma tree_steps:
  assumes wf: "well_formed fn" and arr: "arranges arrange"
    and "\<forall>b\<in>set bs. reachable fn b" "tree_ok fn B m"
  shows "\<exists>m'. rfold (idom_block arrange (dom_sets fn)) bs m = Inr m' \<and> tree_ok fn (B \<union> set bs) m'"
  using assms(3,4)
proof (induction bs arbitrary: B m)
  case (Cons b bs)
  obtain i where i: "idom_block arrange (dom_sets fn) b m = Inr (m(b \<mapsto> i))"
    "case i of None \<Rightarrow> b = hd (fn_blocks fn) | Some c \<Rightarrow> immediate_dominator fn c b \<and> b \<noteq> hd (fn_blocks fn)"
    using idom_block_spec [OF wf _ arr, of b m] Cons.prems(1) by auto
  show ?case
    using Cons.IH [OF _ tree_ok_upd [OF Cons.prems(2) i(2)]] Cons.prems(1) i(1) by (auto simp del: fun_upd_apply)
qed simp

lemma dominators_of:
  assumes "well_formed fn" and "\<forall>b\<in>set (fn_blocks fn). reachable fn b" and "arranges arrange"
  shows "\<exists>m. dominators arrange fn = Some (Inr m) \<and> tree_ok fn (set (fn_blocks fn)) m"
proof -
  obtain st where "dominance fn = Some (Inr st)" "fs_out st = dom_sets fn"
    using dominance_sets [OF assms(1)] by blast
  moreover have "tree_ok fn {} Map.empty" by (simp add: tree_ok_def)
  then obtain m where "dominance_tree arrange (dom_sets fn) fn = Inr m" "tree_ok fn (set (fn_blocks fn)) m"
    using tree_steps [OF assms(1,3,2), of "{}" Map.empty] unfolding dominance_tree_def by auto
  ultimately show ?thesis by (simp add: dominators_def)
qed

text \<open>An unreachable block makes the construction fail.\<close>

lemma tree_unreachable:
  assumes wf: "well_formed fn" and arr: "arranges arrange"
    and "set bs \<subseteq> set (fn_blocks fn)" "\<exists>b\<in>set bs. \<not> reachable fn b"
  shows "rfold (idom_block arrange (dom_sets fn)) bs m =
    Inl (Compiler_error ''Cannot iterate over universe set'')"
  using assms(3,4)
proof (induction bs arbitrary: m)
  case (Cons b bs)
  show ?case
  proof (cases "reachable fn b")
    case True
    then obtain i where "idom_block arrange (dom_sets fn) b m = Inr (m(b \<mapsto> i))"
      using idom_block_spec [OF wf _ arr] by blast
    then show ?thesis using Cons True by auto
  next
    case False
    then show ?thesis using Cons.prems(1) by (simp add: idom_block_def dom_sets_def)
  qed
qed simp

theorem dominators_unreachable:
  assumes "well_formed fn" and "\<exists>b\<in>set (fn_blocks fn). \<not> reachable fn b" and "arranges arrange"
  shows "dominators arrange fn = Some (Inl (Compiler_error ''Cannot iterate over universe set''))"
proof -
  obtain st where "dominance fn = Some (Inr st)" "fs_out st = dom_sets fn"
    using dominance_sets [OF assms(1)] by blast
  then show ?thesis
    using tree_unreachable [OF assms(1,3) order_refl assms(2)] by (simp add: dominators_def dominance_tree_def)
qed

section \<open>The frontier\<close>

definition frontier_of :: "ir_func \<Rightarrow> block_id \<Rightarrow> block_id set" where
  "frontier_of fn n =
     {b \<in> set (fn_blocks fn). b \<noteq> hd (fn_blocks fn) \<and>
        (\<exists>p\<in>set (cfg_pred fn b). dominates fn n p) \<and> \<not> strictly_dominates fn n b}"

definition frontier_is :: "ir_func \<Rightarrow> (block_id \<Rightarrow> block_id set) \<Rightarrow> frontier_map \<Rightarrow> bool" where
  "frontier_is fn S F \<longleftrightarrow> (\<forall>n. F n = (if n \<in> set (fn_blocks fn) then Some (Elems (S n)) else None))"

lemma immediate_dominates:
  assumes "immediate_dominator fn i b" "reachable fn b"
  shows "dominates fn n i \<longleftrightarrow> strictly_dominates fn n b"
proof
  have i: "dominates fn i b" "i \<noteq> b" using assms(1) by (simp_all add: immediate_dominator_def strictly_dominates_def)
  assume "dominates fn n i"
  then show "strictly_dominates fn n b"
    using dominates_trans [OF _ i(1)] dominates_antisym [OF _ i(1)] i(2) dominates_reachable [OF i(1) assms(2)]
    unfolding strictly_dominates_def by metis
qed (use assms(1) in \<open>simp add: immediate_dominator_def\<close>)

lemma tree_idom:
  assumes "tree_ok fn (set (fn_blocks fn)) m" "b \<in> set (fn_blocks fn)" "b \<noteq> hd (fn_blocks fn)"
  obtains i where "idom m b = Inr (Some i)" "immediate_dominator fn i b"
proof -
  obtain x where "m b = Some x" using assms(1,2) by (auto simp: tree_ok_def)
  then show thesis
    using assms that by (cases x) (fastforce simp: tree_ok_def idom_def split: option.splits)+
qed

text \<open>The walk adds the block to the frontier of every dominator of its start below \<open>stop\<close>.\<close>

lemma run_up_walk:
  assumes wf: "well_formed fn" and reach: "\<forall>b\<in>set (fn_blocks fn). reachable fn b"
    and tree: "tree_ok fn (set (fn_blocks fn)) m"
    and r: "r \<in> set (fn_blocks fn)" "dominates fn stop r" and F: "frontier_is fn S F"
  shows "\<exists>F'. run_up m stop b (Some r) F = Some (Inr F') \<and>
    frontier_is fn (\<lambda>n. S n \<union> {c. c = b \<and> dominates fn n r \<and> \<not> dominates fn n stop}) F'"
  using r F
proof (induction "card {x. dominates fn x r}" arbitrary: r F S rule: less_induct)
  case less
  show ?case
  proof (cases "r = stop")
    case True
    then show ?thesis using less.prems by (auto simp: run_up.simps frontier_is_def)
  next
    case False
    have rr: "reachable fn r" using reach less.prems(1) by blast
    have "r \<noteq> hd (fn_blocks fn)" using less.prems(2) dominates_entry [OF wf] False by auto
    then obtain j where j: "idom m r = Inr (Some j)" "immediate_dominator fn j r"
      using tree_idom [OF tree less.prems(1)] by blast
    have jr: "dominates fn j r" "j \<noteq> r" using j(2) by (simp_all add: immediate_dominator_def strictly_dominates_def)
    have js: "dominates fn stop j" "j \<in> set (fn_blocks fn)"
      using j(2) less.prems(2) False dominates_blocks [OF wf rr jr(1)]
      by (auto simp: immediate_dominator_def strictly_dominates_def)
    have F1: "frontier_is fn (\<lambda>n. if n = r then insert b (S n) else S n) (frontier_insert r b F)"
      using less.prems(1,3) by (auto simp: frontier_is_def frontier_insert_def)
    obtain F' where F': "run_up m stop b (Some j) (frontier_insert r b F) = Some (Inr F')"
      "frontier_is fn (\<lambda>n. (if n = r then insert b (S n) else S n) \<union>
         {c. c = b \<and> dominates fn n j \<and> \<not> dominates fn n stop}) F'"
      using less.hyps [OF dominators_less [OF jr rr] js(2,1) F1] by blast
    have "run_up m stop b (Some r) F = Some (Inr F')"
      using j(1) False F'(1) by (simp add: run_up.simps)
    moreover have "\<not> dominates fn r stop" using dominates_antisym [OF less.prems(2) _ rr] False by blast
    then have "(if n = r then insert b (S n) else S n) \<union> {c. c = b \<and> dominates fn n j \<and> \<not> dominates fn n stop} =
        S n \<union> {c. c = b \<and> dominates fn n r \<and> \<not> dominates fn n stop}" for n
      using immediate_dominates [OF j(2) rr, of n] by (auto simp: strictly_dominates_def)
    then have "frontier_is fn (\<lambda>n. S n \<union> {c. c = b \<and> dominates fn n r \<and> \<not> dominates fn n stop}) F'"
      using F'(2) by simp
    ultimately show ?thesis by blast
  qed
qed

lemma frontier_preds_walk:
  assumes ok: "well_formed fn" "\<forall>b\<in>set (fn_blocks fn). reachable fn b" "tree_ok fn (set (fn_blocks fn)) m"
    and "\<forall>p\<in>set ps. p \<in> set (fn_blocks fn) \<and> dominates fn stop p" and "frontier_is fn S F"
  shows "\<exists>F'. frontier_preds m stop b ps F = Some (Inr F') \<and>
    frontier_is fn (\<lambda>n. S n \<union> {c. c = b \<and> (\<exists>p\<in>set ps. dominates fn n p) \<and> \<not> dominates fn n stop}) F'"
  using assms(4,5)
proof (induction ps arbitrary: F S)
  case Nil
  then show ?case by simp
next
  case (Cons p ps)
  then obtain F1 where F1: "run_up m stop b (Some p) F = Some (Inr F1)"
    "frontier_is fn (\<lambda>n. S n \<union> {c. c = b \<and> dominates fn n p \<and> \<not> dominates fn n stop}) F1"
    using run_up_walk [OF ok, of p stop S F b] by auto
  obtain F' where F': "frontier_preds m stop b ps F1 = Some (Inr F')"
    "frontier_is fn (\<lambda>n. (S n \<union> {c. c = b \<and> dominates fn n p \<and> \<not> dominates fn n stop}) \<union>
       {c. c = b \<and> (\<exists>p\<in>set ps. dominates fn n p) \<and> \<not> dominates fn n stop}) F'"
    using Cons.IH [OF _ F1(2)] Cons.prems(1) by auto
  have "(S n \<union> {c. c = b \<and> dominates fn n p \<and> \<not> dominates fn n stop}) \<union>
       {c. c = b \<and> (\<exists>p\<in>set ps. dominates fn n p) \<and> \<not> dominates fn n stop} =
     S n \<union> {c. c = b \<and> (\<exists>q\<in>set (p # ps). dominates fn n q) \<and> \<not> dominates fn n stop}" for n
    by auto
  then show ?case using F1(1) F' by simp
qed

lemma frontier_block_adds:
  assumes ok: "well_formed fn" "\<forall>b\<in>set (fn_blocks fn). reachable fn b" "tree_ok fn (set (fn_blocks fn)) m"
    and b: "b \<in> set (fn_blocks fn)" and F: "frontier_is fn S F"
  shows "\<exists>F'. frontier_block fn m b F = Some (Inr F') \<and>
    frontier_is fn (\<lambda>n. S n \<union> {c. c = b \<and> c \<in> frontier_of fn n}) F'"
proof (cases "b = hd (fn_blocks fn)")
  case True
  have "idom m b = Inr None"
    using ok(3) b True unfolding tree_ok_def idom_def by (fastforce split: option.splits)
  moreover have "S n \<union> {c. c = b \<and> c \<in> frontier_of fn n} = S n" for n using True by (auto simp: frontier_of_def)
  ultimately show ?thesis using F by (simp add: frontier_block_def)
next
  case False
  obtain i where i: "idom m b = Inr (Some i)" "immediate_dominator fn i b"
    using tree_idom [OF ok(3) b False] .
  have rb: "reachable fn b" using ok(2) b by blast
  have sd: "dominates fn n i \<longleftrightarrow> strictly_dominates fn n b" for n by (rule immediate_dominates [OF i(2) rb])
  have "\<forall>p\<in>set (cfg_pred fn b). p \<in> set (fn_blocks fn) \<and> dominates fn i p"
    using cfg_pred_block dominates_pred [of fn i b] i(2)
    by (auto simp: immediate_dominator_def strictly_dominates_def cfg_pred_succ)
  then obtain F' where F': "frontier_preds m i b (cfg_pred fn b) F = Some (Inr F')"
    "frontier_is fn (\<lambda>n. S n \<union> {c. c = b \<and> (\<exists>p\<in>set (cfg_pred fn b). dominates fn n p) \<and> \<not> dominates fn n i}) F'"
    using frontier_preds_walk [OF ok _ F] by blast
  have "cfg_pred fn b \<noteq> []"
  proof
    assume "cfg_pred fn b = []"
    then have none: "b \<notin> set (cfg_succ fn p)" for p using cfg_pred_succ [of p fn b] by simp
    obtain ps where "path_to fn b ps" using rb by (auto simp: reachable_def)
    then show False
      by (cases rule: path_to.cases) (use none entrance_hd [OF ok(1)] False in auto)
  qed
  moreover have "{c. c = b \<and> (\<exists>p\<in>set (cfg_pred fn b). dominates fn n p) \<and> \<not> dominates fn n i} =
      {c. c = b \<and> c \<in> frontier_of fn n}" for n
    using b False by (auto simp: frontier_of_def sd)
  ultimately show ?thesis using i(1) F' by (simp add: frontier_block_def)
qed

lemma frontier_blocks_adds:
  assumes ok: "well_formed fn" "\<forall>b\<in>set (fn_blocks fn). reachable fn b" "tree_ok fn (set (fn_blocks fn)) m"
    and "set bs \<subseteq> set (fn_blocks fn)" "frontier_is fn S F"
  shows "\<exists>F'. frontier_blocks fn m bs F = Some (Inr F') \<and>
    frontier_is fn (\<lambda>n. S n \<union> {c. c \<in> set bs \<and> c \<in> frontier_of fn n}) F'"
  using assms(4,5)
proof (induction bs arbitrary: F S)
  case Nil
  then show ?case by simp
next
  case (Cons b bs)
  then obtain F1 where F1: "frontier_block fn m b F = Some (Inr F1)"
    "frontier_is fn (\<lambda>n. S n \<union> {c. c = b \<and> c \<in> frontier_of fn n}) F1"
    using frontier_block_adds [OF ok _ Cons.prems(2), of b] by auto
  have "(S n \<union> {c. c = b \<and> c \<in> frontier_of fn n}) \<union> {c. c \<in> set bs \<and> c \<in> frontier_of fn n} =
      S n \<union> {c. c \<in> set (b # bs) \<and> c \<in> frontier_of fn n}" for n
    by auto
  then show ?case using Cons.IH [OF _ F1(2)] Cons.prems(1) F1(1) by simp
qed

lemma frontiers_of:
  assumes "well_formed fn" and "\<forall>b\<in>set (fn_blocks fn). reachable fn b" and "arranges arrange"
  shows "\<exists>F. frontiers arrange fn = Some (Inr F) \<and>
    (\<forall>n\<in>set (fn_blocks fn). F n = Some (Elems (frontier_of fn n)))"
proof -
  obtain m where m: "dominators arrange fn = Some (Inr m)" "tree_ok fn (set (fn_blocks fn)) m"
    using dominators_of [OF assms] by blast
  have "frontier_is fn (\<lambda>n. {}) (\<lambda>b. if b \<in> set (fn_blocks fn) then Some dset_empty else None)"
    by (simp add: frontier_is_def dset_empty_def)
  then obtain F where "dominance_frontier fn m = Some (Inr F)"
    "frontier_is fn (\<lambda>n. {c. c \<in> set (fn_blocks fn) \<and> c \<in> frontier_of fn n}) F"
    using frontier_blocks_adds [OF assms(1,2) m(2) order_refl] unfolding dominance_frontier_def by fastforce
  moreover have "{c. c \<in> set (fn_blocks fn) \<and> c \<in> frontier_of fn n} = frontier_of fn n" for n
    by (auto simp: frontier_of_def)
  ultimately show ?thesis using m(1) by (simp add: frontiers_def frontier_is_def)
qed

text \<open>
  C22: when every block is reachable the frontier computed for a block is the set of blocks other
  than the entrance that the block does not strictly dominate but one of whose predecessors it
  dominates.
\<close>

theorem frontiers_exact:
  assumes "well_formed fn" and "\<forall>b\<in>set (fn_blocks fn). reachable fn b" and "arranges arrange"
  shows "\<exists>F. frontiers arrange fn = Some (Inr F) \<and>
    (\<forall>n\<in>set (fn_blocks fn). F n = Some (Elems (frontier_of fn n)))"
  using frontiers_of [OF assms] .

section \<open>Examples\<close>

lemma count_fn_defined: "cfg_defined count_fn"
  by (simp add: cfg_defined_def count_fn_def Let_def)

lemma count_fn_ok: "well_formed count_fn" "\<forall>b\<in>set (fn_blocks count_fn). reachable count_fn b"
proof -
  have "reachable count_fn 0" using path_to.start [of count_fn 0] by (auto simp: reachable_def entrance_def)
  moreover from this have "reachable count_fn 1" by (rule reachable_step) (simp add: cfg_succ_def)
  moreover from this have "reachable count_fn 2" by (rule reachable_step) (simp add: cfg_succ_def)
  ultimately show "\<forall>b\<in>set (fn_blocks count_fn). reachable count_fn b" by simp
qed (simp add: count_fn_defined)

text \<open>
  C14: the dominance analysis is exact: on a well-formed function it returns, and the set of a
  reachable block holds the blocks on every path from the entrance to it, while an unreachable
  block has the universe.
\<close>

theorem dominance_exact:
  assumes wf: "well_formed fn"
  shows "\<exists>st. dominance fn = Some (Inr st) \<and> fs_out st = dom_sets fn"
  using dominance_sets [OF wf] .

lemma dominance_exact_witness:
  "\<exists>st. dominance count_fn = Some (Inr st) \<and> fs_out st = dom_sets count_fn \<and>
     dom_sets count_fn 0 = Some (Elems {0})"
proof -
  have "{d. dominates count_fn d 0} = {0}"
    using dominates_entry [OF count_fn_ok(1)] by simp
  then have "dom_sets count_fn 0 = Some (Elems {0})"
    using count_fn_ok(2) by (simp add: dom_sets_def)
  then show ?thesis using dominance_exact [OF count_fn_ok(1)] by blast
qed

text \<open>
  C21: when every block is reachable the dominator tree is built, and the parent of a block other
  than the entrance is its immediate dominator.
\<close>

theorem dominators_tree:
  assumes "well_formed fn" and "\<forall>b\<in>set (fn_blocks fn). reachable fn b" and "arranges arrange"
  shows "\<exists>m. dominators arrange fn = Some (Inr m) \<and> tree_ok fn (set (fn_blocks fn)) m"
  using dominators_of [OF assms] .

lemma dominators_tree_witness:
  "\<exists>m. dominators sorted_list_of_set count_fn = Some (Inr m) \<and> tree_ok count_fn {0, 1, 2} m"
  using dominators_tree [OF count_fn_ok, of sorted_list_of_set] by simp

lemma dominators_unreachable_witness:
  "dominators sorted_list_of_set (count_fn\<lparr>fn_blocks := [0, 1, 2, 3]\<rparr>) =
     Some (Inl (Compiler_error ''Cannot iterate over universe set''))"
proof -
  let ?fn = "count_fn\<lparr>fn_blocks := [0, 1, 2, 3]\<rparr>"
  have exit_succs: "exit_succs (count_fn\<lparr>fn_blocks := bs\<rparr>) b = (if b = 0 then [1] else if b = 1 then [1, 2] else [])" for b bs
    by (simp add: count_fn_def Let_def exit_succs_def block_targets_def)
  have "\<not> reachable ?fn 3"
  proof
    assume "reachable ?fn 3"
    then obtain ps where "path_to ?fn 3 ps" by (auto simp: reachable_def)
    then show False by (cases rule: path_to.cases) (auto simp: cfg_succ_def exit_succs entrance_def split: if_splits)
  qed
  moreover have "cfg_defined ?fn" by (simp add: cfg_defined_def count_fn_def Let_def)
  ultimately show ?thesis by (intro dominators_unreachable) (simp_all add: exit_succs)
qed

lemma frontiers_exact_witness:
  "\<exists>F. frontiers sorted_list_of_set count_fn = Some (Inr F) \<and> F 1 = Some (Elems (frontier_of count_fn 1)) \<and>
     1 \<in> frontier_of count_fn 1"
proof -
  have "1 \<in> frontier_of count_fn 1"
    by (auto simp: frontier_of_def cfg_pred_def strictly_dominates_def)
  then show ?thesis using frontiers_exact [OF count_fn_ok, of sorted_list_of_set] by auto
qed

end
