(* ===== verification/Ssa_Copies.thy ===== *)
theory Ssa_Copies
  imports Ir_Inst
begin

text \<open>
  The last step out of SSA form (\<open>ReplacePhi::schedule_copy\<close> and \<open>remove_phi\<close> in
  \<open>transform/ssa/destruct.hpp\<close>): the phi instructions at the head of the successors of a block stand
  for copies that happen at once on the edge; they become a sequence of moves at the end of the
  block. The order in which \<open>std::set\<close> lists the copies depends on addresses and is the argument
  \<open>arrange\<close>.

  The main result says that the sequence has the effect of the simultaneous copies.
\<close>

section \<open>Keys of values\<close>

text \<open>
  The maps are keyed by values up to \<open><\<close>: constants are compared by their value, so the two zeros of
  a floating type are one key; variables by what \<open>==\<close> compares. A NaN has no place in that order
  and is kept apart here.
\<close>

datatype vkey = K_const cval | K_var lv_key

fun const_key :: "cval \<Rightarrow> cval" where
  "const_key (V_float w) = V_float (if f32_eq w 0 then 0 else w)"
| "const_key (V_double w) = V_double (if f64_eq w 0 then 0 else w)"
| "const_key v = v"

fun value_key :: "val \<Rightarrow> vkey" where
  "value_key (Const c) = K_const (const_key (cvalue c))"
| "value_key (Left l) = K_var (key_of l)"

section \<open>The copies of a block\<close>

type_synonym copy = "val \<times> left_value"

fun is_phi :: "inst \<Rightarrow> bool" where
  "is_phi (Phi r args) = True"
| "is_phi i = False"

fun phi_copy :: "block_id \<Rightarrow> inst \<Rightarrow> copy result" where
  "phi_copy b (Phi r args) =
     rbind (phi_value args b) (\<lambda>src.
       case r of None \<Rightarrow> Inl (Undefined ''phi without a result'') | Some dest \<Rightarrow> Inr (src, dest))"
| "phi_copy b i = Inl Bad_variant"

fun phi_copies :: "block_id \<Rightarrow> inst list \<Rightarrow> copy list result" where
  "phi_copies b [] = Inr []"
| "phi_copies b (i # is) =
     (if is_phi i then rbind (phi_copy b i) (\<lambda>c. rbind (phi_copies b is) (\<lambda>cs. Inr (c # cs))) else Inr [])"

fun edge_copies :: "ir_func \<Rightarrow> block_id \<Rightarrow> block_id list \<Rightarrow> copy list result" where
  "edge_copies fn b [] = Inr []"
| "edge_copies fn b (t # ts) =
     rbind (phi_copies b (bk_insts (fn_blk fn t))) (\<lambda>cs. rbind (edge_copies fn b ts) (\<lambda>ds. Inr (cs @ ds)))"

definition copy_key :: "copy \<Rightarrow> vkey \<times> lv_key" where
  "copy_key c = (value_key (fst c), key_of (snd c))"

text \<open>Insertion into the set keeps the first of equivalent pairs.\<close>

fun insert_copies :: "copy list \<Rightarrow> copy list \<Rightarrow> copy list" where
  "insert_copies acc [] = acc"
| "insert_copies acc (c # cs) =
     insert_copies (if copy_key c \<in> copy_key ` set acc then acc else acc @ [c]) cs"

section \<open>Scheduling\<close>

record copy_state =
  cp_work :: "copy list"
  cp_set :: "copy list"
  cp_map :: "vkey \<rightharpoonup> val"
  cp_temps :: "(ty \<times> block_id) list"
  cp_out :: "inst list"

text \<open>\<open>map[v]\<close>, which creates an empty constant for a missing key.\<close>

definition map_value :: "copy_state \<Rightarrow> val \<Rightarrow> val" where
  "map_value st v = (case cp_map st (value_key v) of None \<Rightarrow> Const void_const | Some x \<Rightarrow> x)"

definition feeds :: "val \<Rightarrow> copy \<Rightarrow> bool" where
  "feeds v c \<longleftrightarrow> value_key v = K_var (key_of (snd c))"

definition init_map :: "copy list \<Rightarrow> vkey \<rightharpoonup> val" where
  "init_map cs =
     fold (\<lambda>c m. m(value_key (fst c) \<mapsto> fst c, K_var (key_of (snd c)) \<mapsto> Left (snd c))) cs Map.empty"

definition init_copies :: "(ty \<times> block_id) list \<Rightarrow> copy list \<Rightarrow> copy list \<Rightarrow> copy_state" where
  "init_copies temps cs set_order =
     (let used = (\<lambda>c. \<exists>c'\<in>set cs. feeds (fst c') c)
      in \<lparr>cp_work = filter (\<lambda>c. \<not> used c) set_order, cp_set = filter used set_order,
          cp_map = init_map cs, cp_temps = temps, cp_out = []\<rparr>)"

text \<open>The inner loop: emit the last copy of the worklist, free the copies into its source.\<close>

definition emit_copy :: "copy_state \<Rightarrow> copy_state" where
  "emit_copy st =
     (case last (cp_work st) of (src, dest) \<Rightarrow>
        st\<lparr>cp_work := butlast (cp_work st) @ filter (feeds src) (cp_set st),
           cp_set := filter (\<lambda>c. \<not> feeds src c) (cp_set st),
           cp_map := (cp_map st)(value_key src \<mapsto> Left dest),
           cp_out := cp_out st @ [Unary Op_MOV (Some dest) (map_value st src)]\<rparr>)"

text \<open>The worklist is empty but copies are left: save the destination of the first in a new temporary.\<close>

definition break_cycle :: "func_id \<Rightarrow> block_id \<Rightarrow> copy_state \<Rightarrow> copy_state" where
  "break_cycle f b st =
     (case hd (cp_set st) of (src, dest) \<Rightarrow>
        (let temp = TempValue (type_of_lv dest) (length (cp_temps st)) f
         in st\<lparr>cp_work := cp_work st @ [(src, dest)],
               cp_set := tl (cp_set st),
               cp_map := (cp_map st)(K_var (key_of dest) \<mapsto> Left temp),
               cp_temps := cp_temps st @ [(type_of_lv dest, b)],
               cp_out := cp_out st @ [Unary Op_MOV (Some temp) (Left dest)]\<rparr>))"

function schedule_loop :: "func_id \<Rightarrow> block_id \<Rightarrow> copy_state \<Rightarrow> copy_state" where
  "schedule_loop f b st =
     (if cp_work st \<noteq> [] then schedule_loop f b (emit_copy st)
      else if cp_set st \<noteq> [] then schedule_loop f b (break_cycle f b st)
      else st)"
  by pat_completeness auto

lemma emit_copy_eq:
  "last (cp_work st) = (src, dest) \<Longrightarrow>
     emit_copy st = st\<lparr>cp_work := butlast (cp_work st) @ filter (feeds src) (cp_set st),
           cp_set := filter (\<lambda>c. \<not> feeds src c) (cp_set st),
           cp_map := (cp_map st)(value_key src \<mapsto> Left dest),
           cp_out := cp_out st @ [Unary Op_MOV (Some dest) (map_value st src)]\<rparr>"
  by (simp add: emit_copy_def)

lemma emit_copy_measure:
  assumes "cp_work st \<noteq> []"
  shows "2 * length (cp_set (emit_copy st)) + length (cp_work (emit_copy st)) <
     2 * length (cp_set st) + length (cp_work st)"
proof -
  obtain src dest where c: "last (cp_work st) = (src, dest)" by force
  have "length (filter (feeds src) (cp_set st)) + length (filter (\<lambda>c. \<not> feeds src c) (cp_set st)) =
      length (cp_set st)"
    by (rule sum_length_filter_compl)
  moreover obtain w x where "cp_work st = w @ [x]" using assms by (cases "cp_work st" rule: rev_cases) auto
  ultimately show ?thesis by (simp add: emit_copy_eq [OF c])
qed

lemma break_cycle_measure:
  "cp_work st = [] \<Longrightarrow> cp_set st \<noteq> [] \<Longrightarrow>
     2 * length (cp_set (break_cycle f b st)) + length (cp_work (break_cycle f b st)) <
     2 * length (cp_set st) + length (cp_work st)"
  by (cases "cp_set st") (simp_all add: break_cycle_def Let_def split: prod.split)

termination schedule_loop
  by (relation "measure (\<lambda>(f, b, st). 2 * length (cp_set st) + length (cp_work st))")
    (use emit_copy_measure break_cycle_measure in auto)

declare schedule_loop.simps [simp del]

definition schedule_copy :: "(copy list \<Rightarrow> copy list) \<Rightarrow> block_id \<Rightarrow> ir_func \<Rightarrow> ir_func result" where
  "schedule_copy arrange b fn =
     rbind (edge_copies fn b (cfg_succ fn b)) (\<lambda>cs.
       let st = schedule_loop (fn_id fn) b
                  (init_copies (fn_temps fn) cs (arrange (insert_copies [] cs)))
       in Inr ((update_block b (\<lambda>bl. bl\<lparr>bk_insts := bk_insts bl @ cp_out st\<rparr>) fn)
                \<lparr>fn_temps := cp_temps st\<rparr>))"

definition remove_phi :: "ir_block \<Rightarrow> bool \<times> ir_block" where
  "remove_phi bl = (bk_insts bl \<noteq> [] \<and> is_phi (hd (bk_insts bl)), bl\<lparr>bk_insts := dropWhile is_phi (bk_insts bl)\<rparr>)"

section \<open>Moves on a store\<close>

type_synonym 'v store = "lv_key \<Rightarrow> 'v"

fun value_in :: "(constexpr \<Rightarrow> 'v) \<Rightarrow> 'v store \<Rightarrow> val \<Rightarrow> 'v" where
  "value_in C \<sigma> (Const c) = C c"
| "value_in C \<sigma> (Left l) = \<sigma> (key_of l)"

fun do_move :: "(constexpr \<Rightarrow> 'v) \<Rightarrow> inst \<Rightarrow> 'v store \<Rightarrow> 'v store" where
  "do_move C (Unary Op_MOV (Some d) v) \<sigma> = \<sigma>(key_of d := value_in C \<sigma> v)"
| "do_move C i \<sigma> = \<sigma>"

definition do_moves :: "(constexpr \<Rightarrow> 'v) \<Rightarrow> inst list \<Rightarrow> 'v store \<Rightarrow> 'v store" where
  "do_moves C is \<sigma> = fold (do_move C) is \<sigma>"

lemma do_moves_snoc: "do_moves C (is @ [i]) \<sigma> = do_move C i (do_moves C is \<sigma>)"
  by (simp add: do_moves_def)

text \<open>What the copies mean: all sources are read before any destination is written.\<close>

definition copied :: "(constexpr \<Rightarrow> 'v) \<Rightarrow> copy list \<Rightarrow> (lv_key \<Rightarrow> bool) \<Rightarrow> 'v store \<Rightarrow> 'v store \<Rightarrow> bool" where
  "copied C cs scratch \<sigma> \<sigma>' \<longleftrightarrow>
     (\<forall>(s, d)\<in>set cs. \<sigma>' (key_of d) = value_in C \<sigma> s) \<and>
     (\<forall>x. x \<notin> key_of ` snd ` set cs \<longrightarrow> \<not> scratch x \<longrightarrow> \<sigma>' x = \<sigma> x)"

abbreviation new_temp :: "func_id \<Rightarrow> nat \<Rightarrow> lv_key \<Rightarrow> bool" where
  "new_temp f n x \<equiv> (\<exists>k\<ge>n. x = K_temp f k)"

definition no_temps :: "func_id \<Rightarrow> nat \<Rightarrow> copy list \<Rightarrow> bool" where
  "no_temps f n cs \<longleftrightarrow>
     (\<forall>(s, d)\<in>set cs. \<not> new_temp f n (key_of d) \<and> (\<forall>x. value_key s = K_var x \<longrightarrow> \<not> new_temp f n x))"

text \<open>Constants that are one key are one value: no zeros of both signs among the sources.\<close>

definition keys_exact :: "(constexpr \<Rightarrow> 'v) \<Rightarrow> copy list \<Rightarrow> bool" where
  "keys_exact C cs \<longleftrightarrow>
     (\<forall>c c'. Const c \<in> fst ` set cs \<longrightarrow> Const c' \<in> fst ` set cs \<longrightarrow>
        const_key (cvalue c) = const_key (cvalue c') \<longrightarrow> C c = C c')"

lemma keys_exact_value:
  assumes "keys_exact C cs" "s \<in> fst ` set cs" "s' \<in> fst ` set cs" "value_key s = value_key s'"
  shows "value_in C \<sigma> s = value_in C \<sigma> s'"
proof (cases s)
  case s: (Const c)
  then obtain c' where s': "s' = Const c'" "const_key (cvalue c) = const_key (cvalue c')" using assms(4) by (cases s') auto
  have "Const c \<in> fst ` set cs" "Const c' \<in> fst ` set cs" using assms(2,3) unfolding s s'(1) .
  then have "C c = C c'" using assms(1) s'(2) unfolding keys_exact_def by blast
  then show ?thesis using s s'(1) by simp
next
  case (Left l)
  then show ?thesis using assms(4) by (cases s') auto
qed

section \<open>The schedule implements the simultaneous copies\<close>

abbreviation dest_key :: "copy \<Rightarrow> lv_key" where
  "dest_key c \<equiv> key_of (snd c)"

abbreviation pending :: "copy_state \<Rightarrow> copy list" where
  "pending st \<equiv> cp_work st @ cp_set st"

definition copies_ok :: "(constexpr \<Rightarrow> 'v) \<Rightarrow> func_id \<Rightarrow> nat \<Rightarrow> copy list \<Rightarrow> bool" where
  "copies_ok C f n cs \<longleftrightarrow> distinct (map dest_key cs) \<and> no_temps f n cs \<and> keys_exact C cs"

text \<open>
  What holds between the emissions: the value of a pending source is where the map says, pending
  destinations still have their old values, the map leads to no place that a copy on the worklist
  will overwrite, and finished destinations have their final values.
\<close>

definition located :: "(constexpr \<Rightarrow> 'v) \<Rightarrow> func_id \<Rightarrow> 'v store \<Rightarrow> copy_state \<Rightarrow> bool" where
  "located C f \<sigma> st \<longleftrightarrow>
     (\<forall>c\<in>set (pending st).
        value_in C (do_moves C (cp_out st) \<sigma>) (map_value st (fst c)) = value_in C \<sigma> (fst c) \<and>
        do_moves C (cp_out st) \<sigma> (dest_key c) = \<sigma> (dest_key c) \<and>
        (\<forall>x. value_key (map_value st (fst c)) = K_var x \<longrightarrow> \<not> new_temp f (length (cp_temps st)) x))"

definition safe_map :: "copy_state \<Rightarrow> bool" where
  "safe_map st \<longleftrightarrow>
     (\<forall>c\<in>set (pending st). \<forall>c'\<in>set (pending st). feeds (map_value st (fst c)) c' \<longrightarrow> feeds (fst c) c') \<and>
     (\<forall>c\<in>set (pending st). \<forall>c'\<in>set (cp_work st). c \<noteq> c' \<longrightarrow> \<not> feeds (map_value st (fst c)) c')"

definition settled :: "(constexpr \<Rightarrow> 'v) \<Rightarrow> func_id \<Rightarrow> nat \<Rightarrow> 'v store \<Rightarrow> copy list \<Rightarrow> copy_state \<Rightarrow> bool" where
  "settled C f n \<sigma> cs st \<longleftrightarrow>
     (\<forall>c\<in>set cs - set (pending st). do_moves C (cp_out st) \<sigma> (dest_key c) = value_in C \<sigma> (fst c)) \<and>
     (\<forall>x. x \<notin> dest_key ` set cs \<longrightarrow> \<not> new_temp f n x \<longrightarrow> do_moves C (cp_out st) \<sigma> x = \<sigma> x)"

definition copies_inv :: "(constexpr \<Rightarrow> 'v) \<Rightarrow> func_id \<Rightarrow> nat \<Rightarrow> 'v store \<Rightarrow> copy list \<Rightarrow> copy_state \<Rightarrow> bool" where
  "copies_inv C f n \<sigma> cs st \<longleftrightarrow>
     distinct (map dest_key (pending st)) \<and> set (pending st) \<subseteq> set cs \<and> n \<le> length (cp_temps st) \<and>
     located C f \<sigma> st \<and> safe_map st \<and> settled C f n \<sigma> cs st"

lemma feeds_iff: "feeds v c \<longleftrightarrow> value_key v = K_var (dest_key c)"
  by (simp add: feeds_def)

lemma value_in_upd:
  "value_in C (\<sigma>(k := w)) v = (if value_key v = K_var k then w else value_in C \<sigma> v)"
  by (cases v) auto

lemma value_in_key: "value_key v = K_var k \<Longrightarrow> value_in C \<sigma> v = \<sigma> k"
  by (cases v) auto

lemma map_value_upd:
  "cp_map st' = (cp_map st)(k \<mapsto> v) \<Longrightarrow>
     map_value st' s = (if value_key s = k then v else map_value st s)"
  by (simp add: map_value_def)

lemma new_dest:
  assumes "copies_ok C f n cs" "c \<in> set cs" "n \<le> m"
  shows "\<not> new_temp f m (dest_key c)"
proof -
  have "\<not> new_temp f n (dest_key c)"
    using assms(1,2) by (cases c) (auto simp only: copies_ok_def no_temps_def fst_conv snd_conv)
  then show ?thesis using assms(3) by (meson order_trans)
qed

lemma copies_inv_pending:
  assumes "copies_inv C f n \<sigma> cs st" "c \<in> set (pending st)"
  shows "c \<in> set cs" "do_moves C (cp_out st) \<sigma> (dest_key c) = \<sigma> (dest_key c)"
    "value_in C (do_moves C (cp_out st) \<sigma>) (map_value st (fst c)) = value_in C \<sigma> (fst c)"
    "\<forall>x. value_key (map_value st (fst c)) = K_var x \<longrightarrow> \<not> new_temp f (length (cp_temps st)) x"
  using assms unfolding copies_inv_def located_def by blast+

text \<open>One emission, in the terms the invariant needs.\<close>

lemma emit_copy_pending:
  assumes c: "last (cp_work st) = (src, dest)" and ne: "cp_work st \<noteq> []"
    and dist: "distinct (map dest_key (pending st))"
  shows "set (pending st) = insert (src, dest) (set (pending (emit_copy st)))"
    and "c' \<in> set (pending (emit_copy st)) \<Longrightarrow> dest_key c' \<noteq> key_of dest"
    and "distinct (map dest_key (pending (emit_copy st)))"
proof -
  define w where "w = butlast (cp_work st)"
  have work: "cp_work st = w @ [(src, dest)]"
    using ne c by (metis append_butlast_last_id w_def)
  note st' = emit_copy_eq [OF c, folded w_def]
  show pend: "set (pending st) = insert (src, dest) (set (pending (emit_copy st)))"
    by (auto simp: st' work)
  show "dest_key c' \<noteq> key_of dest" if "c' \<in> set (pending (emit_copy st))"
  proof -
    have "dest_key c' \<in> dest_key ` set (w @ cp_set st)" using that by (auto simp: st')
    moreover have "key_of dest \<notin> dest_key ` set (w @ cp_set st)" using dist by (auto simp: work)
    ultimately show ?thesis by metis
  qed
  have "inj_on dest_key (set (pending st))" using dist by (simp only: distinct_map)
  then have "inj_on dest_key (set (pending (emit_copy st)))"
    by (rule inj_on_subset) (simp only: pend subset_insertI)
  moreover have "distinct (pending (emit_copy st))" using dist by (auto simp: st' work distinct_map)
  ultimately show "distinct (map dest_key (pending (emit_copy st)))" by (simp only: distinct_map)
qed

lemma emit_copy_map:
  assumes "last (cp_work st) = (src, dest)"
  shows "map_value (emit_copy st) s = (if value_key s = value_key src then Left dest else map_value st s)"
  by (rule map_value_upd) (simp add: emit_copy_eq [OF assms])

lemma emit_copy_moves:
  assumes inv: "copies_inv C f n \<sigma> cs st" and c: "last (cp_work st) = (src, dest)" and ne: "cp_work st \<noteq> []"
  shows "do_moves C (cp_out (emit_copy st)) \<sigma> =
    (do_moves C (cp_out st) \<sigma>)(key_of dest := value_in C \<sigma> src)"
proof -
  have "(src, dest) \<in> set (pending st)" using c ne last_in_set by fastforce
  then show ?thesis
    using copies_inv_pending(3) [OF inv, of "(src, dest)"] by (simp add: emit_copy_eq [OF c] do_moves_snoc)
qed

lemma emit_copy_away:
  assumes inv: "copies_inv C f n \<sigma> cs st" and c: "last (cp_work st) = (src, dest)" and ne: "cp_work st \<noteq> []"
    and c': "c' \<in> set (pending (emit_copy st))"
  shows "value_key (map_value st (fst c')) \<noteq> K_var (key_of dest)"
proof -
  have dist: "distinct (map dest_key (pending st))" using inv by (simp add: copies_inv_def)
  have "c' \<in> set (pending st)" "c' \<noteq> (src, dest)"
    using c' emit_copy_pending(1,2) [OF c ne dist] by force+
  moreover have "(src, dest) \<in> set (cp_work st)" using c ne last_in_set by fastforce
  ultimately have "\<not> feeds (map_value st (fst c')) (src, dest)"
    using inv unfolding copies_inv_def safe_map_def by blast
  then show ?thesis by (simp add: feeds_iff)
qed

lemma emit_copy_located:
  assumes ok: "copies_ok C f n cs" and inv: "copies_inv C f n \<sigma> cs st" and ne: "cp_work st \<noteq> []"
  shows "located C f \<sigma> (emit_copy st)"
proof -
  obtain src dest where c: "last (cp_work st) = (src, dest)" by force
  have dist: "distinct (map dest_key (pending st))" using inv by (simp add: copies_inv_def)
  note pend = emit_copy_pending [OF c ne dist] and mv = emit_copy_map [OF c]
  have cs: "(src, dest) \<in> set cs" "n \<le> length (cp_temps st)"
    using inv pend(1) by (auto simp: copies_inv_def)
  have temps: "cp_temps (emit_copy st) = cp_temps st" by (simp add: emit_copy_eq [OF c])
  show ?thesis
    unfolding located_def emit_copy_moves [OF inv c ne]
  proof (intro ballI conjI)
    fix c' assume c': "c' \<in> set (pending (emit_copy st))"
    then have cp: "c' \<in> set (pending st)" using pend(1) by blast
    note l = copies_inv_pending [OF inv cp]
    have "value_in C \<sigma> src = value_in C \<sigma> (fst c')" if "value_key (fst c') = value_key src"
      using keys_exact_value [of C cs src "fst c'" \<sigma>] ok cs(1) l(1) that by (force simp: copies_ok_def)
    then show "value_in C ((do_moves C (cp_out st) \<sigma>)(key_of dest := value_in C \<sigma> src))
        (map_value (emit_copy st) (fst c')) = value_in C \<sigma> (fst c')"
      using l(3) emit_copy_away [OF inv c ne c'] by (auto simp: mv value_in_upd)
    show "((do_moves C (cp_out st) \<sigma>)(key_of dest := value_in C \<sigma> src)) (dest_key c') = \<sigma> (dest_key c')"
      using l(2) pend(2) [OF c'] by simp
    show "\<forall>x. value_key (map_value (emit_copy st) (fst c')) = K_var x \<longrightarrow>
        \<not> new_temp f (length (cp_temps (emit_copy st))) x"
      using l(4) new_dest [OF ok cs] by (simp add: mv temps)
  qed
qed

lemma emit_copy_safe:
  assumes inv: "copies_inv C f n \<sigma> cs st" and ne: "cp_work st \<noteq> []"
  shows "safe_map (emit_copy st)"
proof -
  obtain src dest where c: "last (cp_work st) = (src, dest)" by force
  have dist: "distinct (map dest_key (pending st))" using inv by (simp add: copies_inv_def)
  note pend = emit_copy_pending [OF c ne dist]
  have to: "feeds (map_value st (fst c)) c' \<and> value_key (fst c) \<noteq> value_key src"
    if "c' \<in> set (pending (emit_copy st))" "feeds (map_value (emit_copy st) (fst c)) c'" for c c'
    using that(2) pend(2) [OF that(1)] by (auto simp: emit_copy_map [OF c] feeds_iff split: if_splits)
  have fd: "feeds (fst c) c'"
    if "c \<in> set (pending (emit_copy st))" "c' \<in> set (pending (emit_copy st))"
      "feeds (map_value (emit_copy st) (fst c)) c'" for c c'
    using to [OF that(2,3)] that(1,2) pend(1) inv unfolding copies_inv_def safe_map_def by blast
  have "\<not> feeds (map_value (emit_copy st) (fst c1)) c'"
    if cc: "c1 \<in> set (pending (emit_copy st))" "c' \<in> set (cp_work (emit_copy st))" "c1 \<noteq> c'" for c1 c'
  proof
    assume f: "feeds (map_value (emit_copy st) (fst c1)) c'"
    have c': "c' \<in> set (pending (emit_copy st))" using cc(2) by simp
    have "c1 \<in> set (pending st)" using cc(1) pend(1) by blast
    then have "c' \<notin> set (cp_work st)"
      using to [OF c' f] cc(3) inv unfolding copies_inv_def safe_map_def by blast
    then have "feeds src c'" using cc(2) by (auto simp: emit_copy_eq [OF c] dest: in_set_butlastD)
    then show False using fd [OF cc(1) c' f] to [OF c' f] by (simp add: feeds_iff)
  qed
  then show ?thesis using fd unfolding safe_map_def by blast
qed

lemma emit_copy_settled:
  assumes ok: "copies_ok C f n cs" and inv: "copies_inv C f n \<sigma> cs st" and ne: "cp_work st \<noteq> []"
  shows "settled C f n \<sigma> cs (emit_copy st)"
proof -
  obtain src dest where c: "last (cp_work st) = (src, dest)" by force
  have dist: "distinct (map dest_key (pending st))" using inv by (simp add: copies_inv_def)
  note pend = emit_copy_pending [OF c ne dist]
  have cs: "(src, dest) \<in> set cs" using inv pend(1) by (auto simp: copies_inv_def)
  let ?cur = "do_moves C (cp_out st) \<sigma>"
  have "(?cur(key_of dest := value_in C \<sigma> src)) (dest_key c') = value_in C \<sigma> (fst c')"
    if c': "c' \<in> set cs - set (pending (emit_copy st))" for c'
  proof (cases "c' = (src, dest)")
    case False
    have "inj_on dest_key (set cs)" using ok by (simp only: copies_ok_def distinct_map)
    then have "dest_key c' \<noteq> key_of dest"
      using inj_onD [of dest_key "set cs" c' "(src, dest)"] c' cs False by auto
    moreover have "c' \<in> set cs - set (pending st)" using c' False pend(1) by blast
    then have "?cur (dest_key c') = value_in C \<sigma> (fst c')"
      using inv unfolding copies_inv_def settled_def by blast
    ultimately show ?thesis by simp
  qed simp
  moreover have "(?cur(key_of dest := value_in C \<sigma> src)) x = \<sigma> x"
    if x: "x \<notin> dest_key ` set cs" "\<not> new_temp f n x" for x
  proof -
    have "?cur x = \<sigma> x" using inv x unfolding copies_inv_def settled_def by blast
    moreover have "x \<noteq> key_of dest" using x(1) cs by force
    ultimately show ?thesis by simp
  qed
  ultimately show ?thesis unfolding settled_def emit_copy_moves [OF inv c ne] by blast
qed

lemma emit_copy_inv:
  assumes ok: "copies_ok C f n cs" and inv: "copies_inv C f n \<sigma> cs st" and ne: "cp_work st \<noteq> []"
  shows "copies_inv C f n \<sigma> cs (emit_copy st)"
proof -
  obtain src dest where c: "last (cp_work st) = (src, dest)" by force
  have dist: "distinct (map dest_key (pending st))" using inv by (simp add: copies_inv_def)
  have "set (pending (emit_copy st)) \<subseteq> set cs"
    using emit_copy_pending(1) [OF c ne dist] inv by (auto simp: copies_inv_def)
  moreover have "n \<le> length (cp_temps (emit_copy st))" using inv by (simp add: copies_inv_def emit_copy_eq [OF c])
  ultimately show ?thesis
    using emit_copy_pending(3) [OF c ne dist] emit_copy_located [OF assms] emit_copy_safe [OF inv ne]
      emit_copy_settled [OF assms]
    by (simp only: copies_inv_def simp_thms)
qed

lemma break_cycle_inv:
  assumes ok: "copies_ok C f n cs" and inv: "copies_inv C f n \<sigma> cs st"
    and ne: "cp_work st = []" "cp_set st \<noteq> []"
  shows "copies_inv C f n \<sigma> cs (break_cycle f b st)"
proof -
  obtain src dest rest where set: "cp_set st = (src, dest) # rest"
    using ne(2) by (cases "cp_set st") auto
  let ?st = "break_cycle f b st" and ?cur = "do_moves C (cp_out st) \<sigma>" and ?k = "K_temp f (length (cp_temps st))"
  have st': "cp_work ?st = [(src, dest)]" "cp_set ?st = rest"
    "cp_map ?st = (cp_map st)(K_var (key_of dest) \<mapsto> Left (TempValue (type_of_lv dest) (length (cp_temps st)) f))"
    "length (cp_temps ?st) = Suc (length (cp_temps st))"
    by (simp_all add: break_cycle_def set Let_def ne(1))
  have cur': "do_moves C (cp_out ?st) \<sigma> = ?cur(?k := ?cur (key_of dest))"
    by (simp add: break_cycle_def set Let_def do_moves_snoc)
  have pend: "pending ?st = pending st" by (simp add: st' set ne(1))
  have fresh: "dest_key c \<noteq> ?k" if c: "c \<in> set cs" for c
    using new_dest [OF ok c, of "length (cp_temps st)"] inv by (auto simp: copies_inv_def)
  have mv: "map_value ?st s = (if value_key s = K_var (key_of dest)
      then Left (TempValue (type_of_lv dest) (length (cp_temps st)) f) else map_value st s)" for s
    by (rule map_value_upd) (rule st'(3))
  have sub: "set (pending st) \<subseteq> set cs" and dist: "distinct (map dest_key (pending st))"
    using inv by (simp_all add: copies_inv_def)
  have here: "(src, dest) \<in> set (pending st)" by (simp add: set)
  have old: "?cur (key_of dest) = \<sigma> (key_of dest)"
    using copies_inv_pending(2) [OF inv here] by simp
  have "located C f \<sigma> ?st"
    unfolding located_def cur' pend
  proof (intro ballI conjI)
    fix c assume c: "c \<in> set (pending st)"
    note l = copies_inv_pending [OF inv c] and cs = copies_inv_pending(1) [OF inv c]
    show "value_in C (?cur(?k := ?cur (key_of dest))) (map_value ?st (fst c)) = value_in C \<sigma> (fst c)"
      using l(3,4) old value_in_key [of "fst c" "key_of dest" C \<sigma>] by (auto simp: mv value_in_upd)
    show "(?cur(?k := ?cur (key_of dest))) (dest_key c) = \<sigma> (dest_key c)"
      using l(2) fresh [OF cs] by simp
    show "\<forall>x. value_key (map_value ?st (fst c)) = K_var x \<longrightarrow> \<not> new_temp f (length (cp_temps ?st)) x"
      using l(4) by (auto simp: mv st'(4))
  qed
  moreover have "safe_map ?st"
  proof -
    have to: "feeds (map_value st (fst c)) c' \<and> value_key (fst c) \<noteq> K_var (key_of dest)"
      if "c' \<in> set (pending st)" "feeds (map_value ?st (fst c)) c'" for c c'
      using that fresh [of c'] sub by (auto simp: mv feeds_iff split: if_splits)
    show ?thesis
      unfolding safe_map_def pend
    proof (intro conjI ballI impI)
      fix c c' assume "c \<in> set (pending st)" "c' \<in> set (pending st)" "feeds (map_value ?st (fst c)) c'"
      then show "feeds (fst c) c'"
        using to inv unfolding copies_inv_def safe_map_def by blast
    next
      fix c c' assume c: "c \<in> set (pending st)" "c' \<in> set (cp_work ?st)" "c \<noteq> c'"
      have "feeds (fst c) (src, dest)" if "feeds (map_value st (fst c)) (src, dest)"
        using that c(1) here inv unfolding copies_inv_def safe_map_def by blast
      then show "\<not> feeds (map_value ?st (fst c)) c'"
        using to [of "(src, dest)" c] here c(2) by (auto simp: st' feeds_iff)
    qed
  qed
  moreover have "settled C f n \<sigma> cs ?st"
    using inv fresh unfolding settled_def cur' pend by (auto simp: copies_inv_def settled_def)
  ultimately show ?thesis
    using inv pend by (simp add: copies_inv_def st')
qed

lemma schedule_loop_inv:
  assumes "copies_ok C f n cs" and "copies_inv C f n \<sigma> cs st"
  shows "copies_inv C f n \<sigma> cs (schedule_loop f b st) \<and> pending (schedule_loop f b st) = []"
  using assms
proof (induction f b st rule: schedule_loop.induct)
  case (1 f b st)
  consider (emit) "cp_work st \<noteq> []" | (cut) "cp_work st = []" "cp_set st \<noteq> []" | (stop) "pending st = []"
    by auto
  then show ?case
  proof cases
    case emit
    then show ?thesis
      using "1.IH"(1) [OF emit "1.prems"(1) emit_copy_inv [OF "1.prems" emit]] schedule_loop.simps [of f b st] by simp
  next
    case cut
    then show ?thesis
      using "1.IH"(2) [OF _ cut(2) "1.prems"(1) break_cycle_inv [OF "1.prems" cut]] schedule_loop.simps [of f b st]
      by simp
  next
    case stop
    then show ?thesis using "1.prems" schedule_loop.simps [of f b st] by simp
  qed
qed

lemma init_map_some:
  "fold (\<lambda>c m. m(value_key (fst c) \<mapsto> fst c, K_var (key_of (snd c)) \<mapsto> Left (snd c))) cs m k = Some v \<Longrightarrow>
     m k = Some v \<or> value_key v = k \<and> (v \<in> fst ` set cs \<or> v \<in> Left ` snd ` set cs)"
  by (induction cs arbitrary: m) (fastforce split: if_splits)+

lemma init_map_dom:
  "k \<in> dom m \<or> k \<in> value_key ` fst ` set cs \<Longrightarrow>
     k \<in> dom (fold (\<lambda>c m. m(value_key (fst c) \<mapsto> fst c, K_var (key_of (snd c)) \<mapsto> Left (snd c))) cs m)"
proof (induction cs arbitrary: m)
  case (Cons c cs)
  show ?case unfolding fold_simps by (rule Cons.IH) (use Cons.prems in auto)
qed auto

lemma init_map_value:
  assumes "keys_exact C cs" "c \<in> set cs" and m: "cp_map st = init_map cs"
  shows "value_key (map_value st (fst c)) = value_key (fst c)"
    and "value_in C \<sigma> (map_value st (fst c)) = value_in C \<sigma> (fst c)"
proof -
  obtain v where "init_map cs (value_key (fst c)) = Some v"
    using init_map_dom [of "value_key (fst c)" Map.empty cs] assms(2) by (auto simp: init_map_def)
  then have v: "map_value st (fst c) = v" "value_key v = value_key (fst c)"
    "v \<in> fst ` set cs \<or> v \<in> Left ` snd ` set cs"
    using init_map_some [of cs Map.empty] by (auto simp: map_value_def m init_map_def)
  then show "value_key (map_value st (fst c)) = value_key (fst c)" by simp
  show "value_in C \<sigma> (map_value st (fst c)) = value_in C \<sigma> (fst c)"
  proof (cases "v \<in> fst ` set cs")
    case True
    then show ?thesis using keys_exact_value [OF assms(1) True _ v(2)] assms(2) v(1) by simp
  next
    case False
    then obtain l where "v = Left l" using v(3) by blast
    then show ?thesis using v value_in_key [of "fst c" "key_of l" C \<sigma>] by simp
  qed
qed

lemma init_copies_inv:
  assumes "copies_ok C f (length temps) cs" and "set order = set cs" "distinct order"
  shows "copies_inv C f (length temps) \<sigma> cs (init_copies temps cs order)"
proof -
  let ?st = "init_copies temps cs order"
  have ke: "keys_exact C cs" and nt: "no_temps f (length temps) cs" and dist: "inj_on dest_key (set cs)"
    using assms(1) by (auto simp: copies_ok_def distinct_map)
  have map: "cp_map ?st = init_map cs" and out: "do_moves C (cp_out ?st) \<sigma> = \<sigma>"
    and pend: "set (pending ?st) = set cs" and temps: "cp_temps ?st = temps"
    using assms(2) by (auto simp: init_copies_def Let_def do_moves_def)
  have "distinct (pending ?st)"
    using assms(3) by (auto simp: init_copies_def Let_def)
  then have "distinct (map dest_key (pending ?st))"
    using dist by (simp only: distinct_map pend)
  moreover have "located C f \<sigma> ?st"
    using init_map_value [OF ke _ map] nt unfolding located_def pend out temps no_temps_def by fastforce
  moreover have "safe_map ?st"
    unfolding safe_map_def pend
    using init_map_value(1) [OF ke _ map]
    by (auto simp: feeds_iff) (auto simp: init_copies_def Let_def feeds_iff)
  moreover have "settled C f (length temps) \<sigma> cs ?st"
    unfolding settled_def pend out by simp
  ultimately show ?thesis using pend temps by (simp add: copies_inv_def)
qed

lemma schedule_loop_copies:
  assumes "copies_ok C f (length temps) cs" and "set order = set cs" "distinct order"
  shows "copied C cs (new_temp f (length temps)) \<sigma>
    (do_moves C (cp_out (schedule_loop f b (init_copies temps cs order))) \<sigma>)"
proof -
  let ?st = "schedule_loop f b (init_copies temps cs order)"
  have inv: "copies_inv C f (length temps) \<sigma> cs ?st" and "pending ?st = []"
    using schedule_loop_inv [OF assms(1) init_copies_inv [OF assms]] by blast+
  then have "settled C f (length temps) \<sigma> cs ?st" "set (pending ?st) = {}" by (simp_all add: copies_inv_def)
  then show ?thesis unfolding settled_def copied_def by (auto simp: image_image)
qed

lemma insert_copies_distinct:
  "distinct (map dest_key (acc @ cs)) \<Longrightarrow> insert_copies acc cs = acc @ cs"
proof (induction acc cs rule: insert_copies.induct)
  case (2 acc c cs)
  have "copy_key c \<notin> copy_key ` set acc" using 2(2) by (force simp: copy_key_def)
  then show ?case using 2 by simp
qed simp

text \<open>What \<open>schedule_copy\<close> appends to the block performs the copies of its outgoing edges.\<close>

text \<open>
  C12: the moves that replace the phi instructions of the successors of a block act as one
  parallel copy: in every store each destination receives the value its source had before the
  first move, however the copies are ordered and whatever cycles they form.
\<close>

theorem schedule_copy_parallel:
  assumes "edge_copies fn b (cfg_succ fn b) = Inr cs"
    and "copies_ok C (fn_id fn) (length (fn_temps fn)) cs"
    and "set (arrange cs) = set cs" and "distinct (arrange cs)"
  shows "\<exists>fn' ms. schedule_copy arrange b fn = Inr fn' \<and>
    bk_insts (fn_blk fn' b) = bk_insts (fn_blk fn b) @ ms \<and>
    (\<forall>\<sigma>. copied C cs (new_temp (fn_id fn) (length (fn_temps fn))) \<sigma> (do_moves C ms \<sigma>))"
proof -
  have ins: "insert_copies [] cs = cs"
    using insert_copies_distinct [of "[]" cs] assms(2) by (simp add: copies_ok_def)
  define st where "st = schedule_loop (fn_id fn) b (init_copies (fn_temps fn) cs (arrange cs))"
  have "schedule_copy arrange b fn =
      Inr ((update_block b (\<lambda>bl. bl\<lparr>bk_insts := bk_insts bl @ cp_out st\<rparr>) fn)\<lparr>fn_temps := cp_temps st\<rparr>)"
    by (simp add: schedule_copy_def assms(1) ins st_def Let_def)
  moreover have "\<forall>\<sigma>. copied C cs (new_temp (fn_id fn) (length (fn_temps fn))) \<sigma> (do_moves C (cp_out st) \<sigma>)"
    unfolding st_def using schedule_loop_copies [OF assms(2-4)] by blast
  ultimately show ?thesis by (fastforce simp: update_block_def)
qed

text \<open>Two phis that swap two temporaries across an edge.\<close>

definition swap_fn :: ir_func where
  "swap_fn =
     \<lparr>fn_id = 7, fn_name = ''f'', fn_ret = Prim Int32, fn_params = [], fn_locals = [], fn_blocks = [0, 1],
      fn_blk = (\<lambda>b. if b = 1
        then \<lparr>bk_label = ''l1'',
              bk_insts = [Phi (Some (TempValue (Prim Int32) 0 7)) [(0, Left (TempValue (Prim Int32) 1 7))],
                          Phi (Some (TempValue (Prim Int32) 1 7)) [(0, Left (TempValue (Prim Int32) 0 7))]],
              bk_exit = None\<rparr>
        else \<lparr>bk_label = ''l0'', bk_insts = [], bk_exit = Some (JumpExit 1)\<rparr>),
      fn_temps = [(Prim Int32, 0), (Prim Int32, 0)], fn_loops = []\<rparr>"

lemma schedule_copy_parallel_witness:
  "\<exists>fn' ms. schedule_copy (\<lambda>cs. cs) 0 swap_fn = Inr fn' \<and> bk_insts (fn_blk fn' 0) = ms \<and>
    (\<forall>\<sigma>. do_moves cvalue ms \<sigma> (K_temp 7 0) = \<sigma> (K_temp 7 1) \<and> do_moves cvalue ms \<sigma> (K_temp 7 1) = \<sigma> (K_temp 7 0))"
proof -
  let ?x = "TempValue (Prim Int32) 0 7" and ?y = "TempValue (Prim Int32) 1 7"
  let ?cs = "[(Left ?y, ?x), (Left ?x, ?y)]"
  have "edge_copies swap_fn 0 (cfg_succ swap_fn 0) = Inr ?cs"
    by (simp add: swap_fn_def cfg_succ_def exit_succs_def block_targets_def)
  moreover have "copies_ok cvalue (fn_id swap_fn) (length (fn_temps swap_fn)) ?cs"
    by (auto simp: copies_ok_def no_temps_def keys_exact_def swap_fn_def)
  ultimately obtain fn' ms where "schedule_copy (\<lambda>cs. cs) 0 swap_fn = Inr fn'"
    and "bk_insts (fn_blk fn' 0) = bk_insts (fn_blk swap_fn 0) @ ms"
    and "\<forall>\<sigma>. copied cvalue ?cs (new_temp (fn_id swap_fn) (length (fn_temps swap_fn))) \<sigma> (do_moves cvalue ms \<sigma>)"
    using schedule_copy_parallel [where arrange = "\<lambda>cs. cs" and C = cvalue and fn = swap_fn and b = 0 and cs = ?cs] by auto
  then show ?thesis by (auto simp: copied_def swap_fn_def)
qed

end
