(* ===== verification/Liveness.thy ===== *)
theory Liveness
  imports Dataflow
begin

text \<open>
  Live variables (\<open>analysis/dataflow/liveness.hpp\<close>): the sets \<open>gen\<close> and \<open>kill\<close> of a block, the
  variables the phis of a block read from each predecessor, and the backward analysis over them.
  Variables are taken up to \<open>==\<close>, that is by their keys.

  The main result is exact: the analysis returns, and a variable is in the set of a block if and only
  if some path from the block's first instruction reaches a use before a definition.
\<close>

section \<open>The analysis\<close>

type_synonym lv_set = "lv_key dset"

record live_ctx =
  lc_gen :: "block_id \<rightharpoonup> lv_set"
  lc_kill :: "block_id \<rightharpoonup> lv_set"
  lc_phi :: "block_id \<Rightarrow> block_id \<rightharpoonup> lv_set"

definition record_phi_arg :: "block_id \<times> val \<Rightarrow> (block_id \<rightharpoonup> lv_set) \<Rightarrow> (block_id \<rightharpoonup> lv_set)" where
  "record_phi_arg = (\<lambda>(pred, v) m.
     case as_var v of
       None \<Rightarrow> m
     | Some l \<Rightarrow> m(pred \<mapsto> dset_insert (key_of l) (case m pred of None \<Rightarrow> dset_empty | Some s \<Rightarrow> s)))"

fun record_phi :: "inst \<Rightarrow> (block_id \<rightharpoonup> lv_set) \<Rightarrow> (block_id \<rightharpoonup> lv_set)" where
  "record_phi (Phi r args) m = fold record_phi_arg args m"
| "record_phi i m = m"

definition gen_use :: "lv_set \<Rightarrow> left_value \<Rightarrow> lv_set \<Rightarrow> lv_set" where
  "gen_use kill u gen = (if dset_contains kill (key_of u) then gen else dset_insert (key_of u) gen)"

definition kill_def :: "left_value option \<Rightarrow> lv_set \<Rightarrow> lv_set" where
  "kill_def d kill = (case d of None \<Rightarrow> kill | Some l \<Rightarrow> dset_insert (key_of l) kill)"

fun scan_inst :: "inst \<Rightarrow> lv_set \<times> lv_set \<Rightarrow> lv_set \<times> lv_set" where
  "scan_inst (Phi r args) (gen, kill) = (gen, kill_def r kill)"
| "scan_inst i (gen, kill) = (fold (gen_use kill) (used_vars i) gen, kill_def (defined_var i) kill)"

definition scan_exit :: "ir_exit \<Rightarrow> lv_set \<times> lv_set \<Rightarrow> lv_set \<times> lv_set" where
  "scan_exit e = (\<lambda>(gen, kill).
     (case used_var_exit e of None \<Rightarrow> gen | Some l \<Rightarrow> gen_use kill l gen, kill))"

definition scan_block :: "inst list \<Rightarrow> ir_exit \<Rightarrow> lv_set \<times> lv_set" where
  "scan_block is e = scan_exit e (fold scan_inst is (dset_empty, dset_empty))"

definition live_init_block :: "ir_func \<Rightarrow> block_id \<Rightarrow> live_ctx \<Rightarrow> live_ctx result" where
  "live_init_block fn b ctx =
     rbind (get_exit (fn_blk fn b)) (\<lambda>e.
       case scan_block (bk_insts (fn_blk fn b)) e of (gen, kill) \<Rightarrow>
         Inr (ctx\<lparr>lc_gen := (lc_gen ctx)(b \<mapsto> gen), lc_kill := (lc_kill ctx)(b \<mapsto> kill),
               lc_phi := (lc_phi ctx)(b := fold record_phi (bk_insts (fn_blk fn b)) (lc_phi ctx b))\<rparr>))"

definition live_init :: "ir_func \<Rightarrow> live_ctx result" where
  "live_init fn = rfold (live_init_block fn) (fn_blocks fn)
     \<lparr>lc_gen = Map.empty, lc_kill = Map.empty, lc_phi = (\<lambda>b. Map.empty)\<rparr>"

fun map_at :: "'v option \<Rightarrow> 'v result" where
  "map_at None = Inl Out_of_range"
| "map_at (Some v) = Inr v"

definition live_transfer :: "live_ctx \<Rightarrow> block_id \<Rightarrow> lv_set \<Rightarrow> lv_set result" where
  "live_transfer ctx b out =
     rbind (map_at (lc_kill ctx b)) (\<lambda>kill.
     rbind (difference out kill) (\<lambda>rest.
     rbind (map_at (lc_gen ctx b)) (\<lambda>gen.
     Inr (union_set rest gen))))"

definition live_edge :: "live_ctx \<Rightarrow> block_id \<Rightarrow> block_id \<Rightarrow> lv_set \<Rightarrow> lv_set" where
  "live_edge ctx dst src dst_in =
     (case lc_phi ctx dst src of None \<Rightarrow> dst_in | Some u \<Rightarrow> union_set dst_in u)"

fun is_return :: "ir_exit option \<Rightarrow> bool" where
  "is_return (Some (ReturnExit v)) = True"
| "is_return e = False"

definition live_flow :: "live_ctx \<Rightarrow> ir_func \<Rightarrow> lv_set flow" where
  "live_flow ctx fn =
     \<lparr>fl_blocks = fn_blocks fn, fl_pred = cfg_succ fn, fl_is_boundary = (\<lambda>b. is_return (bk_exit (fn_blk fn b))),
      fl_boundary = dset_empty, fl_top = dset_empty, fl_default = dset_empty,
      fl_meet = union_set, fl_edge = live_edge ctx, fl_transfer = live_transfer ctx\<rparr>"

text \<open>
  The analysis runs backwards: what flows out of a block is its \<open>in\<close>, what flows into it its \<open>out\<close>.
\<close>

record live_result =
  lr_in :: "block_id \<rightharpoonup> lv_set"
  lr_out :: "block_id \<rightharpoonup> lv_set"

definition liveness :: "ir_func \<Rightarrow> live_result result option" where
  "liveness fn =
     (case live_init fn of
        Inl e \<Rightarrow> Some (Inl e)
      | Inr ctx \<Rightarrow>
          (case flow_solve (live_flow ctx fn) of
             None \<Rightarrow> None
           | Some r \<Rightarrow> Some (rbind r (\<lambda>st. Inr \<lparr>lr_in = fs_out st, lr_out = fs_in st\<rparr>))))"

section \<open>Live variables by paths\<close>

text \<open>
  \<open>live_at fn b k x\<close>: from the \<open>k\<close>-th instruction of \<open>b\<close> some path reaches a use of \<open>x\<close> with no
  definition of \<open>x\<close> on the way. A phi reads its argument on the edge from the predecessor.
\<close>

definition uses_key :: "inst \<Rightarrow> lv_key \<Rightarrow> bool" where
  "uses_key i x \<longleftrightarrow> (case i of Phi r args \<Rightarrow> False | _ \<Rightarrow> x \<in> key_of ` set (used_vars i))"

definition defines_key :: "inst \<Rightarrow> lv_key \<Rightarrow> bool" where
  "defines_key i x \<longleftrightarrow> (case defined_var i of None \<Rightarrow> False | Some l \<Rightarrow> key_of l = x)"

definition exit_uses :: "ir_exit option \<Rightarrow> lv_key \<Rightarrow> bool" where
  "exit_uses e x \<longleftrightarrow> (\<exists>e' l. e = Some e' \<and> used_var_exit e' = Some l \<and> key_of l = x)"

definition phi_reads :: "ir_func \<Rightarrow> block_id \<Rightarrow> block_id \<Rightarrow> lv_key \<Rightarrow> bool" where
  "phi_reads fn src dst x \<longleftrightarrow>
     (\<exists>r args l. Phi r args \<in> set (bk_insts (fn_blk fn dst)) \<and> (src, Left l) \<in> set args \<and> key_of l = x)"

inductive live_at :: "ir_func \<Rightarrow> block_id \<Rightarrow> nat \<Rightarrow> lv_key \<Rightarrow> bool"
  and live_end :: "ir_func \<Rightarrow> block_id \<Rightarrow> lv_key \<Rightarrow> bool" for fn where
  use: "k < length (bk_insts (fn_blk fn b)) \<Longrightarrow> uses_key (bk_insts (fn_blk fn b) ! k) x \<Longrightarrow> live_at fn b k x"
| skip: "k < length (bk_insts (fn_blk fn b)) \<Longrightarrow> \<not> defines_key (bk_insts (fn_blk fn b) ! k) x \<Longrightarrow>
    live_at fn b (Suc k) x \<Longrightarrow> live_at fn b k x"
| at_exit: "exit_uses (bk_exit (fn_blk fn b)) x \<Longrightarrow> live_at fn b (length (bk_insts (fn_blk fn b))) x"
| leave: "live_end fn b x \<Longrightarrow> live_at fn b (length (bk_insts (fn_blk fn b))) x"
| phi: "s \<in> set (cfg_succ fn b) \<Longrightarrow> phi_reads fn b s x \<Longrightarrow> live_end fn b x"
| edge: "s \<in> set (cfg_succ fn b) \<Longrightarrow> live_at fn s 0 x \<Longrightarrow> live_end fn b x"

section \<open>What the context holds\<close>

fun exposed :: "inst list \<Rightarrow> ir_exit option \<Rightarrow> lv_key \<Rightarrow> bool" where
  "exposed [] e x = exit_uses e x"
| "exposed (i # is) e x = (uses_key i x \<or> \<not> defines_key i x \<and> exposed is e x)"

definition killed :: "inst list \<Rightarrow> lv_key \<Rightarrow> bool" where
  "killed is x \<longleftrightarrow> (\<exists>i\<in>set is. defines_key i x)"

lemma gen_uses:
  "fold (gen_use (Elems kill)) us (Elems gen) = Elems (gen \<union> (key_of ` set us - kill))"
  by (induction us arbitrary: gen) (auto simp: gen_use_def)

lemma kill_def_elems: "kill_def (defined_var i) (Elems kill) = Elems (kill \<union> {x. defines_key i x})"
  by (auto simp: kill_def_def defines_key_def split: option.split)

lemma scan_inst_elems:
  "scan_inst i (Elems gen, Elems kill) =
     (Elems (gen \<union> {x. x \<notin> kill \<and> uses_key i x}), Elems (kill \<union> {x. defines_key i x}))"
  using kill_def_elems [of i kill] by (cases i) (auto simp: gen_uses uses_key_def)

lemma scan_block_from:
  "scan_exit e (fold scan_inst is (Elems gen, Elems kill)) =
     (Elems (gen \<union> {x. x \<notin> kill \<and> exposed is (Some e) x}), Elems (kill \<union> {x. killed is x}))"
proof (induction "is" arbitrary: gen kill)
  case Nil
  show ?case
    by (auto simp: scan_exit_def exit_uses_def gen_use_def killed_def split: option.split)
next
  case (Cons i "is")
  show ?case unfolding fold_simps scan_inst_elems Cons by (auto simp: killed_def)
qed

lemma scan_block_elems:
  "scan_block is e = (Elems {x. exposed is (Some e) x}, Elems {x. killed is x})"
  unfolding scan_block_def dset_empty_def scan_block_from by simp

definition phi_set :: "inst list \<Rightarrow> block_id \<Rightarrow> lv_key set" where
  "phi_set is src = {x. \<exists>r args l. Phi r args \<in> set is \<and> (src, Left l) \<in> set args \<and> key_of l = x}"

definition opt_elems :: "lv_set option \<Rightarrow> lv_key set" where
  "opt_elems m = (case m of Some (Elems s) \<Rightarrow> s | _ \<Rightarrow> {})"

lemma record_phi_args:
  assumes "\<forall>s. m src \<noteq> Some Universe"
  shows "fold record_phi_arg args m src \<noteq> Some Universe \<and>
    opt_elems (fold record_phi_arg args m src) = opt_elems (m src) \<union> {key_of l | l. (src, Left l) \<in> set args}"
  using assms
proof (induction args arbitrary: m)
  case (Cons a args)
  have "record_phi_arg a m src \<noteq> Some Universe \<and>
      opt_elems (record_phi_arg a m src) = opt_elems (m src) \<union> {key_of l | l. a = (src, Left l)}"
    using Cons.prems
    by (cases a; cases "snd a"; cases "m src"; cases "the (m src)")
      (auto simp: record_phi_arg_def opt_elems_def dset_empty_def)
  then show ?case using Cons.IH [of "record_phi_arg a m"] by auto
qed simp

lemma phi_set_Cons: "phi_set (i # is) src = phi_set [i] src \<union> phi_set is src"
  by (simp add: phi_set_def set_eq_iff) blast

lemma record_phis:
  assumes "m src \<noteq> Some Universe"
  shows "fold record_phi is m src \<noteq> Some Universe \<and>
    opt_elems (fold record_phi is m src) = opt_elems (m src) \<union> phi_set is src"
  using assms
proof (induction "is" arbitrary: m)
  case (Cons i "is")
  have "record_phi i m src \<noteq> Some Universe \<and> opt_elems (record_phi i m src) = opt_elems (m src) \<union> phi_set [i] src"
    using Cons.prems record_phi_args [of m src] by (cases i) (auto simp: phi_set_def)
  then show ?case using Cons.IH [of "record_phi i m"] phi_set_Cons [of i "is" src] by auto
qed (simp add: phi_set_def)

text \<open>The context of a function whose blocks all have exits, in closed form.\<close>

definition live_context :: "ir_func \<Rightarrow> live_ctx" where
  "live_context fn =
     (let bs = set (fn_blocks fn); is = (\<lambda>b. bk_insts (fn_blk fn b)) in
      \<lparr>lc_gen = (\<lambda>b. if b \<in> bs then Some (Elems {x. exposed (is b) (bk_exit (fn_blk fn b)) x}) else None),
       lc_kill = (\<lambda>b. if b \<in> bs then Some (Elems {x. killed (is b) x}) else None),
       lc_phi = (\<lambda>b. if b \<in> bs then fold record_phi (is b) Map.empty else Map.empty)\<rparr>)"

lemma live_init_from:
  assumes "distinct bs" "\<forall>b\<in>set bs. hasExit (fn_blk fn b)" "\<forall>b\<in>set bs. lc_phi ctx b = Map.empty"
  shows "rfold (live_init_block fn) bs ctx = Inr
    (ctx\<lparr>lc_gen := (\<lambda>b. if b \<in> set bs then lc_gen (live_context (fn\<lparr>fn_blocks := bs\<rparr>)) b else lc_gen ctx b),
         lc_kill := (\<lambda>b. if b \<in> set bs then lc_kill (live_context (fn\<lparr>fn_blocks := bs\<rparr>)) b else lc_kill ctx b),
         lc_phi := (\<lambda>b. if b \<in> set bs then lc_phi (live_context (fn\<lparr>fn_blocks := bs\<rparr>)) b else lc_phi ctx b)\<rparr>)"
  using assms
proof (induction bs arbitrary: ctx)
  case Nil
  then show ?case by simp
next
  case (Cons b bs)
  obtain e where e: "bk_exit (fn_blk fn b) = Some e" using Cons.prems(2) by (auto simp: hasExit_def)
  have "live_init_block fn b ctx = Inr (ctx\<lparr>
      lc_gen := (lc_gen ctx)(b \<mapsto> Elems {x. exposed (bk_insts (fn_blk fn b)) (Some e) x}),
      lc_kill := (lc_kill ctx)(b \<mapsto> Elems {x. killed (bk_insts (fn_blk fn b)) x}),
      lc_phi := (lc_phi ctx)(b := fold record_phi (bk_insts (fn_blk fn b)) Map.empty)\<rparr>)"
    using e Cons.prems(3) by (simp add: live_init_block_def get_exit_def scan_block_elems)
  then show ?case
    using Cons.prems e by (auto simp: Cons.IH live_context_def Let_def fun_eq_iff)
qed

lemma live_init_context:
  assumes "distinct (fn_blocks fn)" "\<forall>b\<in>set (fn_blocks fn). hasExit (fn_blk fn b)"
  shows "live_init fn = Inr (live_context fn)"
  using live_init_from [OF assms, of "\<lparr>lc_gen = Map.empty, lc_kill = Map.empty, lc_phi = (\<lambda>b. Map.empty)\<rparr>"]
  by (simp add: live_init_def live_context_def Let_def fun_eq_iff)

section \<open>The equations\<close>

text \<open>The variables an analysis of the function can mention.\<close>

definition func_keys :: "ir_func \<Rightarrow> lv_key set" where
  "func_keys fn =
     (\<Union>b\<in>set (fn_blocks fn). {x. exposed (bk_insts (fn_blk fn b)) (bk_exit (fn_blk fn b)) x}) \<union>
     (\<Union>b\<in>set (fn_blocks fn). \<Union>src. phi_set (bk_insts (fn_blk fn b)) src)"

lemma finite_uses: "finite {x. uses_key i x}"
  by (cases i) (auto simp: uses_key_def intro: finite_subset)

lemma finite_exposed: "finite {x. exposed is e x}"
proof (induction "is")
  case Nil
  have "{x. exposed [] e x} \<subseteq> (case e of None \<Rightarrow> {} | Some e' \<Rightarrow>
      (case used_var_exit e' of None \<Rightarrow> {} | Some l \<Rightarrow> {key_of l}))"
    by (auto simp: exit_uses_def)
  then show ?case by (rule finite_subset) (auto split: option.split)
next
  case (Cons i "is")
  show ?case
    by (rule finite_subset [OF _ finite_UnI [OF finite_uses [of i] Cons.IH]]) auto
qed

lemma finite_phi_set: "finite (\<Union>src. phi_set is src)"
proof (induction "is")
  case (Cons i "is")
  have "(\<Union>src. phi_set [i] src) \<subseteq> (\<lambda>v. case v of Left l \<Rightarrow> key_of l | Const c \<Rightarrow> undefined) ` set (used i)"
    by (cases i) (force simp: phi_set_def)+
  then have "finite (\<Union>src. phi_set [i] src)" by (rule finite_subset) simp
  moreover have "(\<Union>src. phi_set (i # is) src) = (\<Union>src. phi_set [i] src) \<union> (\<Union>src. phi_set is src)"
    using phi_set_Cons [of i "is"] by auto
  ultimately show ?case using Cons.IH by simp
qed (simp add: phi_set_def)

lemma finite_func_keys: "finite (func_keys fn)"
  by (simp add: func_keys_def finite_exposed finite_phi_set)

definition live_data :: "ir_func \<Rightarrow> lv_set set" where
  "live_data fn = Elems ` Pow (func_keys fn)"

lemma live_data_iff: "d \<in> live_data fn \<longleftrightarrow> (\<exists>s. d = Elems s \<and> s \<subseteq> func_keys fn)"
  by (auto simp: live_data_def)

lemma in_func_keys:
  "b \<in> set (fn_blocks fn) \<Longrightarrow> phi_set (bk_insts (fn_blk fn b)) src \<subseteq> func_keys fn"
  "b \<in> set (fn_blocks fn) \<Longrightarrow> {x. exposed (bk_insts (fn_blk fn b)) (bk_exit (fn_blk fn b)) x} \<subseteq> func_keys fn"
  unfolding func_keys_def by blast+

definition live_height :: "ir_func \<Rightarrow> lv_set \<Rightarrow> nat" where
  "live_height fn d = (case d of Universe \<Rightarrow> 0 | Elems s \<Rightarrow> card (func_keys fn - s))"

lemma live_edge_elems:
  "live_edge (live_context fn) dst src (Elems s) =
     Elems (s \<union> (if dst \<in> set (fn_blocks fn) then phi_set (bk_insts (fn_blk fn dst)) src else {}))"
  using record_phis [of Map.empty src "bk_insts (fn_blk fn dst)"]
  by (auto simp: live_edge_def live_context_def Let_def opt_elems_def split: option.splits dset.splits)

lemma live_transfer_elems:
  "b \<in> set (fn_blocks fn) \<Longrightarrow> live_transfer (live_context fn) b (Elems s) =
     Inr (Elems ((s - {x. killed (bk_insts (fn_blk fn b)) x}) \<union>
       {x. exposed (bk_insts (fn_blk fn b)) (bk_exit (fn_blk fn b)) x}))"
  by (simp add: live_transfer_def live_context_def Let_def)

lemma live_flow_sel [simp]:
  "fl_blocks (live_flow ctx fn) = fn_blocks fn" "fl_pred (live_flow ctx fn) = cfg_succ fn"
  "fl_is_boundary (live_flow ctx fn) b = is_return (bk_exit (fn_blk fn b))"
  "fl_boundary (live_flow ctx fn) = Elems {}" "fl_top (live_flow ctx fn) = Elems {}"
  "fl_default (live_flow ctx fn) = Elems {}" "fl_meet (live_flow ctx fn) = union_set"
  "fl_edge (live_flow ctx fn) = live_edge ctx" "fl_transfer (live_flow ctx fn) = live_transfer ctx"
  by (simp_all add: live_flow_def dset_empty_def)

interpretation live: flow_problem "live_flow (live_context fn) fn" "live_data fn"
  "\<lambda>d1 d2. dset_le d2 d1" "live_height fn" for fn
proof (unfold_locales, goal_cases)
  case (3 d1 d2)
  then obtain s t where "d1 = Elems s" "d2 = Elems t" "t \<subseteq> s" "t \<noteq> s" "s \<subseteq> func_keys fn"
    unfolding live_data_def by (elim imageE) (metis PowD dset_le.simps(3))
  then show ?case
    using finite_func_keys [of fn] by (auto simp: live_height_def intro!: psubset_card_mono)
next
  case (14 b d1 d2 e1 e2)
  then show ?case by (auto simp: live_data_iff live_transfer_elems) blast
qed (use in_func_keys [of _ fn] in \<open>auto simp: live_data_iff live_edge_elems live_transfer_elems
    dset_empty_def intro: dset_le_trans\<close>)

section \<open>The analysis is exact\<close>

text \<open>Inside a block, liveness is exposure or survival up to the end.\<close>

lemma live_at_split:
  assumes "k \<le> length (bk_insts (fn_blk fn b))"
  shows "live_at fn b k x \<longleftrightarrow>
    exposed (drop k (bk_insts (fn_blk fn b))) (bk_exit (fn_blk fn b)) x \<or>
    \<not> killed (drop k (bk_insts (fn_blk fn b))) x \<and> live_end fn b x"
  using assms
proof (induction k rule: inc_induct)
  case base
  show ?case by (auto simp: killed_def elim: live_at.cases intro: live_at_live_end.intros)
next
  case (step k)
  let ?is = "bk_insts (fn_blk fn b)"
  have "drop k ?is = ?is ! k # drop (Suc k) ?is" using step.hyps by (simp add: Cons_nth_drop_Suc)
  moreover have "live_at fn b k x \<longleftrightarrow>
      uses_key (?is ! k) x \<or> \<not> defines_key (?is ! k) x \<and> live_at fn b (Suc k) x"
    using step.hyps by (auto elim: live_at.cases intro: live_at_live_end.intros)
  ultimately show ?case using step.IH by (auto simp: killed_def)
qed

lemma live_end_iff:
  "live_end fn b x \<longleftrightarrow> (\<exists>s\<in>set (cfg_succ fn b). phi_reads fn b s x \<or> live_at fn s 0 x)"
  by (auto elim: live_end.cases intro: live_at_live_end.intros)

definition elems_of :: "lv_set option \<Rightarrow> lv_key set" where
  "elems_of d = {x. \<exists>s. d = Some (Elems s) \<and> x \<in> s}"

lemma live_out_elems:
  assumes "ran out \<subseteq> live_data fn"
  shows "out_of (live_flow (live_context fn) fn) out b = Elems (elems_of (out b))"
proof (cases "out b")
  case (Some d)
  then have "d \<in> live_data fn" using assms by (auto simp: ran_def)
  then show ?thesis using Some by (auto simp: out_of_def elems_of_def live_data_iff)
qed (simp add: out_of_def elems_of_def)

lemma live_new_in:
  assumes "ran out \<subseteq> live_data fn" "set (cfg_succ fn b) \<subseteq> set (fn_blocks fn)"
  shows "flow_new_in (live_flow (live_context fn) fn) out b =
    Elems {x. \<exists>s\<in>set (cfg_succ fn b). phi_reads fn b s x \<or> x \<in> elems_of (out s)}"
proof -
  let ?fl = "live_flow (live_context fn) fn"
  have "fold (\<lambda>p acc. fl_meet ?fl acc (fl_edge ?fl p b (out_of ?fl out p))) ps (Elems acc) =
      Elems (acc \<union> {x. \<exists>s\<in>set ps. phi_reads fn b s x \<or> x \<in> elems_of (out s)})"
    if "set ps \<subseteq> set (fn_blocks fn)" for ps acc
    using that
  proof (induction ps arbitrary: acc)
    case (Cons p ps)
    have "fl_meet ?fl (Elems acc) (fl_edge ?fl p b (out_of ?fl out p)) =
        Elems (acc \<union> {x. phi_reads fn b p x \<or> x \<in> elems_of (out p)})"
      using Cons.prems
      by (simp add: live_out_elems [OF assms(1)] live_edge_elems phi_reads_def phi_set_def) blast
    then show ?case using Cons by auto
  qed simp
  from this [OF assms(2), of "{}"] show ?thesis
    by (simp add: flow_new_in_def meet_preds_def)
qed

text \<open>The sets of live variables solve the inequations.\<close>

definition live_sets :: "ir_func \<Rightarrow> block_id \<rightharpoonup> lv_set" where
  "live_sets fn b = (if b \<in> set (fn_blocks fn) then Some (Elems {x \<in> func_keys fn. live_at fn b 0 x}) else None)"

abbreviation targets_inside :: "ir_func \<Rightarrow> bool" where
  "targets_inside fn \<equiv> \<forall>b\<in>set (fn_blocks fn). set (exit_succs fn b) \<subseteq> set (fn_blocks fn)"

lemma succ_inside: "targets_inside fn \<Longrightarrow> set (cfg_succ fn b) \<subseteq> set (fn_blocks fn)"
  by (auto simp: cfg_succ_def)

lemma live_sets_elems:
  "elems_of (live_sets fn b) = {x. b \<in> set (fn_blocks fn) \<and> x \<in> func_keys fn \<and> live_at fn b 0 x}"
  by (auto simp: live_sets_def elems_of_def)

lemma elems_of_simps [simp]: "elems_of None = {}" "elems_of (Some (Elems s)) = s"
  by (auto simp: elems_of_def)

lemma live_sets_ran: "ran (live_sets fn) \<subseteq> live_data fn"
  by (auto simp: live_sets_def ran_def live_data_iff split: if_splits)

lemma live_sets_lower:
  assumes "targets_inside fn"
  shows "live.lower_solution fn (live_sets fn)"
  unfolding live.lower_solution_def
proof (intro conjI ballI allI impI)
  show "live.outs_ok fn (live_sets fn)"
    using live_sets_ran by (auto simp: live.outs_ok_def live_sets_def split: if_splits)
next
  fix b d
  assume "b \<in> set (fl_blocks (live_flow (live_context fn) fn))"
    and d: "fl_transfer (live_flow (live_context fn) fn) b
      (flow_new_in (live_flow (live_context fn) fn) (live_sets fn) b) = Inr d"
  then have b: "b \<in> set (fn_blocks fn)" by (simp add:)
  let ?n = "{x. \<exists>s\<in>set (cfg_succ fn b). phi_reads fn b s x \<or> x \<in> elems_of (live_sets fn s)}"
  let ?d = "(?n - {x. killed (bk_insts (fn_blk fn b)) x}) \<union>
      {x. exposed (bk_insts (fn_blk fn b)) (bk_exit (fn_blk fn b)) x}"
  have "?n \<subseteq> {x. live_end fn b x}" by (auto simp: live_end_iff live_sets_elems)
  then have sub: "?d \<subseteq> {x. live_at fn b 0 x}" using live_at_split [of 0 fn b] by auto
  have "d = Elems ?d"
    using d b by (simp add: live_new_in [OF live_sets_ran succ_inside [OF assms]] live_transfer_elems)
  moreover have "d \<in> live_data fn"
    using live.transfer_A [of b fn "flow_new_in (live_flow (live_context fn) fn) (live_sets fn) b"]
      live.new_in_A [OF live_sets_ran] d b by auto
  then have "\<exists>s. d = Elems s \<and> s \<subseteq> func_keys fn" by (simp only: live_data_iff)
  ultimately have "?d \<subseteq> func_keys fn" by (elim exE conjE) (simp only: dset.inject)
  then have "?d \<subseteq> elems_of (live_sets fn b)" using sub b unfolding live_sets_elems by blast
  then show "dset_le d (out_of (live_flow (live_context fn) fn) (live_sets fn) b)"
    unfolding \<open>d = Elems ?d\<close> live_out_elems [OF live_sets_ran] by (simp only: dset_le.simps)
qed

lemma live_equations:
  assumes sol: "flow_solution (live_flow (live_context fn) fn) st" and ran: "ran (fs_out st) \<subseteq> live_data fn"
    and inside: "targets_inside fn" and b: "b \<in> set (fn_blocks fn)"
  shows "fs_in st b = Some (Elems {x. \<exists>s\<in>set (cfg_succ fn b). phi_reads fn b s x \<or> x \<in> elems_of (fs_out st s)})"
    and "fs_out st b = Some (Elems ((elems_of (fs_in st b) - {x. killed (bk_insts (fn_blk fn b)) x}) \<union>
      {x. exposed (bk_insts (fn_blk fn b)) (bk_exit (fn_blk fn b)) x}))"
proof -
  note n = live_new_in [OF ran succ_inside [OF inside]]
  show i: "fs_in st b = Some (Elems {x. \<exists>s\<in>set (cfg_succ fn b). phi_reads fn b s x \<or> x \<in> elems_of (fs_out st s)})"
    using sol b by (simp add: flow_solution_def n)
  show "fs_out st b = Some (Elems ((elems_of (fs_in st b) - {x. killed (bk_insts (fn_blk fn b)) x}) \<union>
      {x. exposed (bk_insts (fn_blk fn b)) (bk_exit (fn_blk fn b)) x}))"
    using sol b unfolding i by (auto simp: flow_solution_def n live_transfer_elems elems_of_def)
qed

text \<open>Every solution holds the variables that are live.\<close>

lemma solution_live:
  assumes sol: "flow_solution (live_flow (live_context fn) fn) st" and ran: "ran (fs_out st) \<subseteq> live_data fn"
    and inside: "targets_inside fn"
  shows "live_at fn b k x \<Longrightarrow> b \<in> set (fn_blocks fn) \<Longrightarrow>
      exposed (drop k (bk_insts (fn_blk fn b))) (bk_exit (fn_blk fn b)) x \<or>
      \<not> killed (drop k (bk_insts (fn_blk fn b))) x \<and> x \<in> elems_of (fs_in st b)"
    and "live_end fn b x \<Longrightarrow> b \<in> set (fn_blocks fn) \<Longrightarrow> x \<in> elems_of (fs_in st b)"
proof (induction rule: live_at_live_end.inducts)
  case (use k b x)
  then show ?case by (simp flip: Cons_nth_drop_Suc)
next
  case (skip k b x)
  then show ?case by (auto simp flip: Cons_nth_drop_Suc simp: killed_def)
next
  case (phi s b x)
  then show ?case
    using live_equations(1) [OF sol ran inside phi(3)] by (auto simp: elems_of_def)
next
  case (edge s b x)
  have s: "s \<in> set (fn_blocks fn)" using succ_inside [OF inside] edge(1) by blast
  have "x \<in> elems_of (fs_out st s)"
    using edge(3) [OF s] live_equations(2) [OF sol ran inside s] by (auto simp: elems_of_def)
  then show ?case
    using edge(1) live_equations(1) [OF sol ran inside edge(4)] by (auto simp: elems_of_def)
qed (auto simp: killed_def)

lemma liveness_sets:
  assumes "distinct (fn_blocks fn)" and exits: "\<forall>b\<in>set (fn_blocks fn). hasExit (fn_blk fn b)"
    and inside: "targets_inside fn"
  shows "\<exists>r. liveness fn = Some (Inr r) \<and>
    (\<forall>b\<in>set (fn_blocks fn). lr_in r b = Some (Elems {x. live_at fn b 0 x}) \<and>
       lr_out r b = Some (Elems {x. live_end fn b x}))"
proof -
  obtain st where st: "flow_solve (live_flow (live_context fn) fn) = Some (Inr st)"
    and sol: "flow_solution (live_flow (live_context fn) fn) st"
    and ok: "live.outs_ok fn (fs_out st)" and below: "live.outs_le fn (live_sets fn) (fs_out st)"
    using live.solve_from [OF live_sets_lower [OF inside]] by blast
  have ran: "ran (fs_out st) \<subseteq> live_data fn" using ok by (simp add: live.outs_ok_def)
  note eqs = live_equations [OF sol ran inside] and sound = solution_live [OF sol ran inside]
  have at_start: "fs_out st b = Some (Elems {x. live_at fn b 0 x})" if b: "b \<in> set (fn_blocks fn)" for b
  proof -
    have "elems_of (fs_out st b) \<subseteq> {x. live_at fn b 0 x}"
      using below b unfolding live.outs_le_def live_out_elems [OF ran] live_out_elems [OF live_sets_ran]
      by (auto simp: live_sets_elems)
    moreover have "{x. live_at fn b 0 x} \<subseteq> elems_of (fs_out st b)"
      using sound(1) [of b 0, OF _ b] eqs(2) [OF b] by (auto simp: elems_of_def)
    ultimately show ?thesis using eqs(2) [OF b] by (auto simp: elems_of_def)
  qed
  have "fs_in st b = Some (Elems {x. live_end fn b x})" if b: "b \<in> set (fn_blocks fn)" for b
  proof -
    have "s \<in> set (fn_blocks fn)" if "s \<in> set (cfg_succ fn b)" for s using succ_inside [OF inside] that by blast
    then show ?thesis using eqs(1) [OF b] by (auto simp: at_start elems_of_def live_end_iff)
  qed
  then show ?thesis
    using at_start st by (auto simp: liveness_def live_init_context [OF assms(1) exits])
qed

lemma live_end_func_keys:
  assumes inside: "targets_inside fn"
  shows "live_at fn b k x \<Longrightarrow> b \<in> set (fn_blocks fn) \<Longrightarrow>
      exposed (drop k (bk_insts (fn_blk fn b))) (bk_exit (fn_blk fn b)) x \<or> x \<in> func_keys fn"
    and "live_end fn b x \<Longrightarrow> b \<in> set (fn_blocks fn) \<Longrightarrow> x \<in> func_keys fn"
proof (induction rule: live_at_live_end.inducts)
  case (use k b x)
  then show ?case by (simp flip: Cons_nth_drop_Suc)
next
  case (skip k b x)
  then show ?case by (auto simp flip: Cons_nth_drop_Suc)
next
  case (phi s b x)
  then have "s \<in> set (fn_blocks fn)" using succ_inside [OF inside] by blast
  moreover have "x \<in> phi_set (bk_insts (fn_blk fn s)) b" using phi(2) by (auto simp: phi_reads_def phi_set_def)
  ultimately show ?case using in_func_keys(1) by blast
next
  case (edge s b x)
  then have s: "s \<in> set (fn_blocks fn)" using succ_inside [OF inside] by blast
  then show ?case using edge(3) in_func_keys(2) by auto
qed auto

lemma finite_live_end: "targets_inside fn \<Longrightarrow> b \<in> set (fn_blocks fn) \<Longrightarrow> finite {x. live_end fn b x}"
  using live_end_func_keys(2) by (auto intro: finite_subset [OF _ finite_func_keys [of fn]])

text \<open>The analysis returns, and its sets are the live variables.\<close>



end
