(* ===== verification/Ir_Key.thy ===== *)
theory Ir_Key
  imports Ir_Value
begin

text \<open>
  The order of variables (\<open>operator<\<close> of \<open>NamedValue\<close>, \<open>TempValue\<close> and \<open>SSAValue\<close> in
  \<open>backend/ir/ir.h\<close>), in which the sets and maps keyed by variables are traversed. Variants compare
  their alternative first; a pointer is compared as its number, which stands for its address. The
  types are ignored, as \<open>operator==\<close> does, so the order is one of keys and is linear.
\<close>

fun name_less :: "name_def \<Rightarrow> name_def \<Rightarrow> bool" where
  "name_less (Def_alloc a) (Def_alloc b) \<longleftrightarrow> a < b"
| "name_less (Def_func a) (Def_func b) \<longleftrightarrow> a < b"
| "name_less (Def_builtin a) (Def_builtin b) \<longleftrightarrow> a < b"
| "name_less (Def_alloc a) _ \<longleftrightarrow> True"
| "name_less (Def_func a) (Def_builtin b) \<longleftrightarrow> True"
| "name_less _ _ \<longleftrightarrow> False"

fun key_less :: "lv_key \<Rightarrow> lv_key \<Rightarrow> bool" where
  "key_less (K_named a) (K_named b) \<longleftrightarrow> name_less a b"
| "key_less (K_temp f i) (K_temp g j) \<longleftrightarrow> (if f = g then i < j else f < g)"
| "key_less (K_ssa a v) (K_ssa b w) \<longleftrightarrow> (if a = b then v < w else a < b)"
| "key_less (K_named a) _ \<longleftrightarrow> True"
| "key_less (K_temp f i) (K_ssa a v) \<longleftrightarrow> True"
| "key_less _ _ \<longleftrightarrow> False"

lemma name_less_irrefl: "\<not> name_less a a"
  by (cases a) simp_all

lemma name_less_trans: "name_less a b \<Longrightarrow> name_less b c \<Longrightarrow> name_less a c"
  by (cases a; cases b; cases c) simp_all

lemma name_less_linear: "name_less a b \<or> a = b \<or> name_less b a"
  by (cases a; cases b) auto

lemma key_less_irrefl: "\<not> key_less a a"
  by (cases a) (simp_all add: name_less_irrefl)

lemma key_less_trans: "key_less a b \<Longrightarrow> key_less b c \<Longrightarrow> key_less a c"
  by (cases a; cases b; cases c) (auto split: if_splits intro: name_less_trans)

lemma key_less_linear: "key_less a b \<or> a = b \<or> key_less b a"
  using name_less_linear by (cases a; cases b) auto

instantiation lv_key :: linorder
begin

definition less_eq_lv_key :: "lv_key \<Rightarrow> lv_key \<Rightarrow> bool" where
  "less_eq_lv_key a b \<longleftrightarrow> a = b \<or> key_less a b"

definition less_lv_key :: "lv_key \<Rightarrow> lv_key \<Rightarrow> bool" where
  "less_lv_key a b \<longleftrightarrow> key_less a b"

instance
  by standard
    (use key_less_irrefl key_less_trans key_less_linear in \<open>auto simp: less_eq_lv_key_def less_lv_key_def, blast+\<close>)

end

text \<open>The traversal of a set of variables.\<close>

definition key_order :: "lv_key set \<Rightarrow> lv_key list" where
  "key_order S = sorted_list_of_set S"

lemma key_order_ok: "finite S \<Longrightarrow> set (key_order S) = S \<and> distinct (key_order S)"
  by (simp add: key_order_def)

lemma key_order_set [simp]: "key_order (set xs) = sort (remdups xs)"
  by (simp add: key_order_def sorted_list_of_set_sort_remdups)

lemma key_order_sorted: "finite S \<Longrightarrow> v \<in> S \<Longrightarrow> w \<in> S \<Longrightarrow> key_less v w \<Longrightarrow>
    \<exists>i j. i < j \<and> j < length (key_order S) \<and> key_order S ! i = v \<and> key_order S ! j = w"
proof -
  assume S: "finite S" "v \<in> S" "w \<in> S" and less: "key_less v w"
  then obtain i j where ij: "i < length (key_order S)" "key_order S ! i = v" "j < length (key_order S)" "key_order S ! j = w"
    using key_order_ok [OF S(1)] by (metis in_set_conv_nth)
  have "i < j"
  proof (rule ccontr)
    assume "\<not> i < j"
    then have "w \<le> v" using ij sorted_nth_mono [of "key_order S" j i] by (simp add: key_order_def)
    then show False using less key_less_irrefl key_less_trans unfolding less_eq_lv_key_def by blast
  qed
  then show ?thesis using ij by blast
qed

end
