(* ===== verification/Ra_Graph.thy ===== *)
theory Ra_Graph
  imports Liveness Abi Ir_Key
begin

text \<open>
  The interference graph of the register allocator (\<open>ir/lowering/regalloc/graph.hpp\<close>): nodes with
  their interferences, moves, degree and colour, the aliases of merged variables, and the
  construction of the two graphs, general and floating, of a program from its live variables.

  Variables are keys; \<open>need\<close> says which take part (\<open>need_register\<close>), \<open>fp\<close> which are of the
  floating class, \<open>proxy\<close> gives the variable that stands for a register. A node that was never
  created reads as an empty one; the keys of the map are kept in \<open>ig_keys\<close>.
\<close>

section \<open>Nodes and aliases\<close>

record ig_node =
  adj :: "lv_key set"
  moves_of :: "lv_key set"
  degree :: u64
  node_color :: "nat option"

definition new_node :: ig_node where
  "new_node = \<lparr>adj = {}, moves_of = {}, degree = 0, node_color = None\<rparr>"

record igraph =
  max_color :: nat
  ig_alias :: "(lv_key \<times> lv_key) list"
  ig_keys :: "lv_key list"
  ig_nodes :: "lv_key \<Rightarrow> ig_node"
  ig_prior :: "lv_key \<Rightarrow> int"

definition new_graph :: "nat \<Rightarrow> igraph" where
  "new_graph k = \<lparr>max_color = k, ig_alias = [], ig_keys = [], ig_nodes = (\<lambda>v. new_node), ig_prior = (\<lambda>v. 0)\<rparr>"

text \<open>
  \<open>alias\<close> follows the aliases; the newest entry for a key counts. Path compression changes only how
  long that takes. A chain is at most as long as the list, see \<open>alias_Cons\<close>.
\<close>

fun follow :: "nat \<Rightarrow> (lv_key \<times> lv_key) list \<Rightarrow> lv_key \<Rightarrow> lv_key" where
  "follow 0 al v = v"
| "follow (Suc n) al v =
     (case map_of al v of None \<Rightarrow> v | Some w \<Rightarrow> if w = v then v else follow n al w)"

definition alias_key :: "igraph \<Rightarrow> lv_key \<Rightarrow> lv_key" where
  "alias_key g v = follow (length (ig_alias g)) (ig_alias g) v"

definition set_alias :: "lv_key \<Rightarrow> lv_key \<Rightarrow> igraph \<Rightarrow> igraph" where
  "set_alias dest src g = g\<lparr>ig_alias := (src, dest) # ig_alias g\<rparr>"

definition same_alias :: "igraph \<Rightarrow> lv_key \<Rightarrow> lv_key \<Rightarrow> bool" where
  "same_alias g a b \<longleftrightarrow> alias_key g a = alias_key g b"

definition ensure :: "lv_key \<Rightarrow> igraph \<Rightarrow> igraph" where
  "ensure v g =
     (if v \<in> set (ig_keys g) then g
      else g\<lparr>ig_keys := ig_keys g @ [v], ig_nodes := (ig_nodes g)(v := new_node)\<rparr>)"

definition graph_node :: "igraph \<Rightarrow> lv_key \<Rightarrow> ig_node" where
  "graph_node g v = ig_nodes g (alias_key g v)"

definition update_node :: "lv_key \<Rightarrow> (ig_node \<Rightarrow> ig_node) \<Rightarrow> igraph \<Rightarrow> igraph" where
  "update_node v f g = g\<lparr>ig_nodes := (ig_nodes g)(alias_key g v := f (ig_nodes g (alias_key g v)))\<rparr>"

text \<open>A by-reference or compile-time allocation needs no register; the value of \<open>be_need\<close> and \<open>needs\<close>.\<close>

fun need_register :: "alloc_store \<Rightarrow> lv_key \<Rightarrow> bool" where
  "need_register A (K_named (Def_alloc d)) \<longleftrightarrow> \<not> al_reference (A d) \<and> \<not> al_comptime (A d)"
| "need_register A v \<longleftrightarrow> True"

section \<open>Interference\<close>

definition interferes :: "igraph \<Rightarrow> lv_key \<Rightarrow> lv_key \<Rightarrow> bool" where
  "interferes g a b \<longleftrightarrow> alias_key g a \<noteq> alias_key g b \<and> alias_key g b \<in> adj (graph_node g a)"

definition graph_move_related :: "igraph \<Rightarrow> lv_key \<Rightarrow> lv_key \<Rightarrow> bool" where
  "graph_move_related g a b \<longleftrightarrow> alias_key g a \<noteq> alias_key g b \<and> alias_key g b \<in> moves_of (graph_node g a)"

definition pin :: "lv_key \<Rightarrow> nat \<Rightarrow> igraph \<Rightarrow> igraph" where
  "pin v c g = (let w = alias_key g v in update_node w (\<lambda>n. n\<lparr>node_color := Some c\<rparr>) (ensure w g))"

definition add_adj :: "lv_key \<Rightarrow> lv_key \<Rightarrow> igraph \<Rightarrow> igraph" where
  "add_adj u v g =
     (let n = ig_nodes g u in
      if v \<in> adj n then g
      else g\<lparr>ig_nodes := (ig_nodes g)(u := n\<lparr>adj := insert v (adj n), degree := degree n + 1\<rparr>)\<rparr>)"

definition interfere :: "(lv_key \<Rightarrow> bool) \<Rightarrow> lv_key \<Rightarrow> lv_key \<Rightarrow> igraph \<Rightarrow> igraph" where
  "interfere need u v g =
     (if \<not> need u \<or> \<not> need v then g
      else let u' = alias_key g u; v' = alias_key g v in
        if u' = v' then g else add_adj v' u' (add_adj u' v' (ensure v' (ensure u' g))))"

definition add_move :: "lv_key \<Rightarrow> lv_key \<Rightarrow> igraph \<Rightarrow> igraph" where
  "add_move u v g =
     (let n = ig_nodes g u in g\<lparr>ig_nodes := (ig_nodes g)(u := n\<lparr>moves_of := insert v (moves_of n)\<rparr>)\<rparr>)"

definition graph_move :: "(lv_key \<Rightarrow> bool) \<Rightarrow> lv_key \<Rightarrow> lv_key \<Rightarrow> igraph \<Rightarrow> igraph" where
  "graph_move need u v g =
     (if \<not> need u \<or> \<not> need v then g
      else let u' = alias_key g u; v' = alias_key g v in
        if u' = v' then g else add_move v' u' (add_move u' v' (ensure v' (ensure u' g))))"

definition add_prior :: "lv_key \<Rightarrow> int \<Rightarrow> igraph \<Rightarrow> igraph" where
  "add_prior v p g = g\<lparr>ig_prior := (ig_prior g)(v := ig_prior g v + p)\<rparr>"

text \<open>The node is created when its priority is counted (\<open>operator[]\<close>).\<close>

definition count_use :: "lv_key \<Rightarrow> int \<Rightarrow> igraph \<Rightarrow> igraph" where
  "count_use v p g = add_prior v p (ensure v g)"

section \<open>When two nodes may be merged\<close>

text \<open>The neighbours of the node that merging would give.\<close>

definition merge_preview :: "igraph \<Rightarrow> lv_key \<Rightarrow> lv_key \<Rightarrow> lv_key list" where
  "merge_preview g dest src =
     [v \<leftarrow> ig_keys g. v \<noteq> dest \<and> (src \<in> adj (ig_nodes g v) \<or> dest \<in> adj (ig_nodes g v))]"

definition george :: "igraph \<Rightarrow> lv_key \<Rightarrow> lv_key \<Rightarrow> bool" where
  "george g dest src \<longleftrightarrow>
     (\<forall>n\<in>adj (ig_nodes g src). unat (degree (ig_nodes g n)) < max_color g \<or> interferes g dest n)"

definition briggs :: "igraph \<Rightarrow> lv_key \<Rightarrow> lv_key \<Rightarrow> bool" where
  "briggs g dest src \<longleftrightarrow>
     length [n \<leftarrow> merge_preview g dest src. max_color g \<le> unat (degree (ig_nodes g n))] < max_color g"

definition mergable :: "igraph \<Rightarrow> lv_key \<Rightarrow> lv_key \<Rightarrow> bool" where
  "mergable g dest src =
     (let d = alias_key g dest; s = alias_key g src in
      d \<noteq> s \<and> node_color (ig_nodes g s) = None \<and> \<not> interferes g d s \<and> (george g d s \<or> briggs g d s))"

section \<open>Building the graphs\<close>

text \<open>The variables of the registers, by class and number.\<close>

type_synonym proxies = "bool \<Rightarrow> nat \<Rightarrow> lv_key option"

text \<open>The general and the floating graph.\<close>

type_synonym graphs = "igraph \<times> igraph"

definition graph_of :: "(lv_key \<Rightarrow> bool) \<Rightarrow> lv_key \<Rightarrow> (igraph \<Rightarrow> igraph) \<Rightarrow> graphs \<Rightarrow> graphs" where
  "graph_of fp v f gs = (if fp v then (fst gs, f (snd gs)) else (f (fst gs), snd gs))"

text \<open>\<open>precolor\<close> lists the registers with their variables in the order of the hash map.\<close>

definition connect_all :: "(lv_key \<Rightarrow> bool) \<Rightarrow> igraph \<Rightarrow> igraph" where
  "connect_all need g = fold (\<lambda>u. fold (interfere need u) (ig_keys g)) (ig_keys g) g"

definition from_precolored ::
  "(lv_key \<Rightarrow> bool) \<Rightarrow> ((bool \<times> nat) \<times> lv_key) list \<Rightarrow> target_abi \<Rightarrow> graphs" where
  "from_precolored need precolor abi =
     (let pinned = (\<lambda>cls. fold (\<lambda>((c, r), v) g. if c = cls then pin v r g else g) precolor)
      in (connect_all need (pinned False (new_graph (ra_size (generals abi)))),
          connect_all need (pinned True (new_graph (ra_size (floats abi))))))"

definition proxy_at :: "((bool \<times> nat) \<times> lv_key) list \<Rightarrow> bool \<Rightarrow> nat \<Rightarrow> lv_key result" where
  "proxy_at precolor cls r = map_at (map_of precolor (cls, r))"

text \<open>The state of the walk over a block: the graphs and the variables that are live, by class.\<close>

type_synonym build_state = "graphs \<times> (lv_key set \<times> lv_key set)"

definition lives_of :: "(lv_key \<Rightarrow> bool) \<Rightarrow> lv_key \<Rightarrow> lv_key set \<times> lv_key set \<Rightarrow> lv_key set" where
  "lives_of fp v lives = (if fp v then snd lives else fst lives)"

definition upd_lives ::
  "(lv_key \<Rightarrow> bool) \<Rightarrow> lv_key \<Rightarrow> (lv_key set \<Rightarrow> lv_key set) \<Rightarrow> lv_key set \<times> lv_key set \<Rightarrow> lv_key set \<times> lv_key set" where
  "upd_lives fp v f lives = (if fp v then (fst lives, f (snd lives)) else (f (fst lives), snd lives))"

record build_env =
  be_need :: "lv_key \<Rightarrow> bool"
  be_fp :: "lv_key \<Rightarrow> bool"
  be_order :: "lv_key set \<Rightarrow> lv_key list"
  be_precolor :: "((bool \<times> nat) \<times> lv_key) list"
  be_abi :: target_abi

definition count_var :: "build_env \<Rightarrow> lv_key \<Rightarrow> graphs \<Rightarrow> graphs" where
  "count_var E v gs =
     (if be_need E v then graph_of (be_fp E) v (count_use v 3) gs else gs)"

fun build_move :: "build_env \<Rightarrow> inst \<Rightarrow> graphs \<Rightarrow> graphs result" where
  "build_move E (Unary op r (Left src)) gs =
     (if op = Op_MOV \<or> op = Op_CONVERT
        then (case r of
                None \<Rightarrow> Inl (Undefined ''move without a result'')
              | Some d \<Rightarrow> Inr (graph_of (be_fp E) (key_of src) (graph_move (be_need E) (key_of d) (key_of src)) gs))
      else Inr gs)"
| "build_move E i gs = Inr gs"

definition is_call :: "inst \<Rightarrow> bool" where
  "is_call i = (case i of CallI r t f args \<Rightarrow> True | _ \<Rightarrow> False)"

definition build_defs :: "build_env \<Rightarrow> inst \<Rightarrow> lv_key list result" where
  "build_defs E i =
     (let own = (case defined_var i of None \<Rightarrow> [] | Some l \<Rightarrow> [key_of l]) in
      if is_call i
        then rbind (proxy_at (be_precolor E) False (return_addr (be_abi E))) (\<lambda>ra. Inr (own @ [ra]))
      else Inr own)"

definition interfere_def :: "build_env \<Rightarrow> lv_key set \<times> lv_key set \<Rightarrow> lv_key \<Rightarrow> graphs \<Rightarrow> graphs" where
  "interfere_def E lives d gs =
     fold (\<lambda>l. graph_of (be_fp E) d (interfere (be_need E) d l)) (be_order E (lives_of (be_fp E) d lives)) gs"

definition interfere_defs :: "build_env \<Rightarrow> lv_key list \<Rightarrow> build_state \<Rightarrow> graphs" where
  "interfere_defs E ds st = (case st of (gs, lives) \<Rightarrow> fold (interfere_def E lives) ds gs)"

definition live_priority :: "build_env \<Rightarrow> lv_key set \<times> lv_key set \<Rightarrow> graphs \<Rightarrow> graphs" where
  "live_priority E lives gs =
     fold (\<lambda>l. graph_of (be_fp E) l (add_prior l (- 1))) (be_order E (fst lives) @ be_order E (snd lives)) gs"

text \<open>Variables that live across a call interfere with the caller-saved registers of their class.\<close>

fun interfere_regs :: "build_env \<Rightarrow> bool \<Rightarrow> lv_key \<Rightarrow> nat list \<Rightarrow> graphs \<Rightarrow> graphs result" where
  "interfere_regs E cls l [] gs = Inr gs"
| "interfere_regs E cls l (r # rs) gs =
     rbind (proxy_at (be_precolor E) cls r) (\<lambda>p.
       interfere_regs E cls l rs (graph_of (be_fp E) l (interfere (be_need E) l p) gs))"

definition cross_call :: "build_env \<Rightarrow> lv_key set \<times> lv_key set \<Rightarrow> graphs \<Rightarrow> graphs result" where
  "cross_call E lives gs =
     rbind (rfold (\<lambda>l. interfere_regs E False l (caller_saved (generals (be_abi E)))) (be_order E (fst lives)) gs)
       (rfold (\<lambda>l. interfere_regs E True l (caller_saved (floats (be_abi E)))) (be_order E (snd lives)))"

definition build_inst :: "build_env \<Rightarrow> inst \<Rightarrow> build_state \<Rightarrow> build_state result" where
  "build_inst E i st = (case st of (gs, lives) \<Rightarrow>
     rbind (build_move E i (fold (count_var E) (map key_of (vars i)) gs)) (\<lambda>gs1.
     rbind (build_defs E i) (\<lambda>ds.
     let gs2 = live_priority E lives (interfere_defs E ds (gs1, lives)) in
     rbind (if is_call i then cross_call E lives gs2 else Inr gs2) (\<lambda>gs3.
     let after = fold (\<lambda>d. upd_lives (be_fp E) d (\<lambda>s. s - {d})) ds lives in
     Inr (gs3, case i of
                 Phi r args \<Rightarrow> after
               | _ \<Rightarrow> fold (\<lambda>u. upd_lives (be_fp E) u (insert u)) (map key_of (used_vars i)) after)))))"

definition build_block :: "build_env \<Rightarrow> ir_func \<Rightarrow> (block_id \<rightharpoonup> lv_set) \<Rightarrow> block_id \<Rightarrow> graphs \<Rightarrow> graphs result" where
  "build_block E fn out b gs =
     rbind (map_at (out b)) (\<lambda>live_out.
     rbind (get_exit (fn_blk fn b)) (\<lambda>e.
     let use = (case used_var_exit e of
                  None \<Rightarrow> None
                | Some l \<Rightarrow> if be_need E (key_of l) then Some (key_of l) else None);
         live_out' = (case use of None \<Rightarrow> live_out | Some u \<Rightarrow> dset_insert u live_out);
         gs' = (case use of None \<Rightarrow> gs | Some u \<Rightarrow> graph_of (be_fp E) u (count_use u 1) gs) in
     rbind (dset_elems live_out') (\<lambda>s.
     rbind (rfold (build_inst E) (rev (bk_insts (fn_blk fn b))) (gs', ({v \<in> s. \<not> be_fp E v}, {v \<in> s. be_fp E v})))
       (\<lambda>st. Inr (fst st)))))"

text \<open>The live variables of each function are computed first; \<open>None\<close> if that does not end.\<close>

fun build_funcs :: "build_env \<Rightarrow> ir_func list \<Rightarrow> graphs \<Rightarrow> graphs result option" where
  "build_funcs E [] gs = Some (Inr gs)"
| "build_funcs E (fn # fns) gs =
     obind (liveness fn) (\<lambda>live.
       obind (Some (rfold (build_block E fn (lr_out live)) (fn_blocks fn) gs)) (build_funcs E fns))"

fun reserve_regs :: "build_env \<Rightarrow> bool \<Rightarrow> lv_key \<Rightarrow> nat list \<Rightarrow> igraph \<Rightarrow> igraph result" where
  "reserve_regs E cls v [] g = Inr g"
| "reserve_regs E cls v (r # rs) g =
     rbind (proxy_at (be_precolor E) cls r) (\<lambda>p. reserve_regs E cls v rs (interfere (be_need E) v p g))"

definition reserve :: "build_env \<Rightarrow> bool \<Rightarrow> register_abi \<Rightarrow> igraph \<Rightarrow> igraph result" where
  "reserve E cls abi g = rfold (\<lambda>v. reserve_regs E cls v (reserved abi)) (be_order E (set (ig_keys g))) g"

definition build :: "build_env \<Rightarrow> ir_func list \<Rightarrow> graphs result option" where
  "build E fns =
     obind (build_funcs E fns (from_precolored (be_need E) (be_precolor E) (be_abi E))) (\<lambda>gs.
       Some (rbind (reserve E False (generals (be_abi E)) (fst gs)) (\<lambda>g.
             rbind (reserve E True (floats (be_abi E)) (snd gs)) (\<lambda>f. Inr (g, f)))))"

end
