(* ===== verification/Ra_Colour.thy ===== *)
theory Ra_Colour
  imports Ra_Graph
begin

text \<open>
  The Chaitin-Briggs colouring with iterated coalescing (\<open>ir/lowering/regalloc/colorize.hpp\<close>): the
  work lists of nodes and moves, the steps \<open>simplify\<close>, \<open>coalesce\<close>, \<open>freeze\<close> and \<open>spill\<close>, the main
  loop and the assignment of colours.

  A list of nodes or moves is named by a constructor; \<open>at\<close> on the map of locations throws for a
  missing key. \<open>order\<close> is the order in which a set of variables is traversed, \<open>priority\<close> the priority
  of a colour, \<open>cheaper\<close> the comparison of two spill priorities given as the pair of the counted
  uses and the degree, whose quotient is a floating-point number.
\<close>

section \<open>Work lists\<close>

datatype node_list =
    N_precolored | N_initial | N_simplify | N_freeze | N_to_spill | N_spilled | N_coalesced | N_colored
  | N_select

datatype move_list = M_coalesced | M_constrained | M_frozen | M_ready | M_scheduled

type_synonym move = "lv_key \<times> lv_key"

record colour_env =
  order :: "lv_key set \<Rightarrow> lv_key list"
  needs :: "lv_key \<Rightarrow> bool"
  priority :: "nat \<Rightarrow> int"
  cheaper :: "int \<times> u64 \<Rightarrow> int \<times> u64 \<Rightarrow> bool"

record allocator =
  al_nodes :: "node_list \<Rightarrow> lv_key list"
  al_node_at :: "lv_key \<rightharpoonup> node_list"
  al_moves :: "move_list \<Rightarrow> move list"
  al_move_at :: "move \<rightharpoonup> move_list"
  al_graph :: igraph
  al_colors :: "lv_key \<rightharpoonup> nat"
  al_spilled :: "lv_key list"

definition relocate_node :: "lv_key \<Rightarrow> node_list \<Rightarrow> allocator \<Rightarrow> allocator result" where
  "relocate_node v to a =
     rbind (map_at (al_node_at a v)) (\<lambda>from.
       let cut = (al_nodes a)(from := remove1 v (al_nodes a from)) in
       Inr (a\<lparr>al_nodes := cut(to := cut to @ [v]), al_node_at := (al_node_at a)(v \<mapsto> to)\<rparr>))"

definition relocate_move :: "move \<Rightarrow> move_list \<Rightarrow> allocator \<Rightarrow> allocator result" where
  "relocate_move m to a =
     rbind (map_at (al_move_at a m)) (\<lambda>from.
       let cut = (al_moves a)(from := remove1 m (al_moves a from)) in
       Inr (a\<lparr>al_moves := cut(to := cut to @ [m]), al_move_at := (al_move_at a)(m \<mapsto> to)\<rparr>))"

section \<open>The constructor\<close>

definition add_ready :: "move \<Rightarrow> allocator \<Rightarrow> allocator" where
  "add_ready m a = a\<lparr>al_moves := (al_moves a)(M_ready := al_moves a M_ready @ [m]),
                    al_move_at := (al_move_at a)(m \<mapsto> M_ready)\<rparr>"

definition place_node :: "lv_key \<Rightarrow> node_list \<Rightarrow> allocator \<Rightarrow> allocator" where
  "place_node v l a = a\<lparr>al_nodes := (al_nodes a)(l := al_nodes a l @ [v]), al_node_at := (al_node_at a)(v \<mapsto> l)\<rparr>"

definition start_node :: "colour_env \<Rightarrow> lv_key \<Rightarrow> allocator \<Rightarrow> allocator" where
  "start_node E v a =
     (let n = ig_nodes (al_graph a) v;
          a1 = (case node_color n of
                  Some c \<Rightarrow> (place_node v N_precolored a)\<lparr>al_colors := (al_colors a)(v \<mapsto> c)\<rparr>
                | None \<Rightarrow> place_node v N_initial a)
      in fold (\<lambda>s. add_ready (v, s)) (order E (moves_of n)) a1)"

definition new_allocator :: "colour_env \<Rightarrow> igraph \<Rightarrow> allocator" where
  "new_allocator E g =
     fold (start_node E) (order E (set (ig_keys g)))
       \<lparr>al_nodes = (\<lambda>l. []), al_node_at = Map.empty, al_moves = (\<lambda>l. []), al_move_at = Map.empty,
        al_graph = g, al_colors = Map.empty, al_spilled = []\<rparr>"

section \<open>Queries\<close>

text \<open>\<open>graph[v]\<close> is the node of the alias of \<open>v\<close>.\<close>

definition node_of :: "allocator \<Rightarrow> lv_key \<Rightarrow> ig_node" where
  "node_of a v = graph_node (al_graph a) v"

fun filter_nodes :: "allocator \<Rightarrow> lv_key list \<Rightarrow> lv_key list result" where
  "filter_nodes a [] = Inr []"
| "filter_nodes a (v # vs) =
     rbind (map_at (al_node_at a v)) (\<lambda>l. rbind (filter_nodes a vs) (\<lambda>ws.
       Inr (if l = N_select \<or> l = N_coalesced then ws else v # ws)))"

definition adjacent :: "colour_env \<Rightarrow> allocator \<Rightarrow> lv_key \<Rightarrow> lv_key list result" where
  "adjacent E a v = filter_nodes a (order E (adj (node_of a v)))"

fun filter_moves :: "allocator \<Rightarrow> move list \<Rightarrow> move list result" where
  "filter_moves a [] = Inr []"
| "filter_moves a (m # ms) =
     rbind (map_at (al_move_at a m)) (\<lambda>l. rbind (filter_moves a ms) (\<lambda>ns.
       Inr (if l = M_scheduled \<or> l = M_ready then m # ns else ns)))"

definition effective_moves :: "colour_env \<Rightarrow> allocator \<Rightarrow> lv_key \<Rightarrow> move list result" where
  "effective_moves E a dest = filter_moves a (map (Pair dest) (order E (moves_of (node_of a dest))))"

definition move_related :: "colour_env \<Rightarrow> allocator \<Rightarrow> lv_key \<Rightarrow> bool result" where
  "move_related E a v = rbind (effective_moves E a v) (\<lambda>ms. Inr (ms \<noteq> []))"

definition high_degree :: "allocator \<Rightarrow> lv_key \<Rightarrow> bool" where
  "high_degree a v \<longleftrightarrow> max_color (al_graph a) \<le> unat (degree (node_of a v))"

section \<open>The steps\<close>

definition initialize_node :: "colour_env \<Rightarrow> lv_key \<Rightarrow> allocator \<Rightarrow> allocator result" where
  "initialize_node E v a =
     (if high_degree a v then relocate_node v N_to_spill a
      else rbind (move_related E a v) (\<lambda>m. relocate_node v (if m then N_freeze else N_simplify) a))"

definition initialize :: "colour_env \<Rightarrow> allocator \<Rightarrow> allocator result" where
  "initialize E a = rfold (initialize_node E) (al_nodes a N_initial) a"

definition enable_moves :: "colour_env \<Rightarrow> lv_key \<Rightarrow> allocator \<Rightarrow> allocator result" where
  "enable_moves E dest a =
     rbind (effective_moves E a dest) (\<lambda>ms.
       rfold (\<lambda>m a. if al_move_at a m = Some M_scheduled then relocate_move m M_ready a else Inr a) ms a)"

definition set_degree :: "lv_key \<Rightarrow> u64 \<Rightarrow> allocator \<Rightarrow> allocator" where
  "set_degree v d a = a\<lparr>al_graph := update_node v (\<lambda>n. n\<lparr>degree := d\<rparr>) (al_graph a)\<rparr>"

definition decrement_degree :: "colour_env \<Rightarrow> lv_key \<Rightarrow> allocator \<Rightarrow> allocator result" where
  "decrement_degree E v a =
     rbind (map_at (al_node_at a v)) (\<lambda>l.
     if l = N_precolored then Inr a
     else let d = degree (node_of a v); a1 = set_degree v (d - 1) a in
       if unat d = max_color (al_graph a)
         then rbind (enable_moves E v a1) (\<lambda>a2.
              rbind (adjacent E a2 v) (\<lambda>ns.
              rbind (rfold (enable_moves E) ns a2) (\<lambda>a3.
              rbind (move_related E a3 v) (\<lambda>m.
              relocate_node v (if m then N_freeze else N_simplify) a3))))
       else Inr a1)"

definition simplify :: "colour_env \<Rightarrow> allocator \<Rightarrow> allocator result" where
  "simplify E a =
     (let n = hd (al_nodes a N_simplify) in
      rbind (relocate_node n N_select a) (\<lambda>a1.
      rbind (adjacent E a1 n) (\<lambda>ns.
      rfold (decrement_degree E) ns a1)))"

text \<open>A move under a new name keeps its list; without a new name it disappears.\<close>

definition replace_move :: "move \<Rightarrow> move option \<Rightarrow> allocator \<Rightarrow> allocator result" where
  "replace_move old new a =
     rbind (map_at (al_move_at a old)) (\<lambda>l.
       let a1 = a\<lparr>al_moves := (al_moves a)(l := remove1 old (al_moves a l)),
                  al_move_at := (al_move_at a)(old := None)\<rparr> in
       Inr (case new of
              None \<Rightarrow> a1
            | Some m \<Rightarrow> a1\<lparr>al_moves := (al_moves a1)(l := al_moves a1 l @ [m]),
                          al_move_at := (al_move_at a1)(m \<mapsto> l)\<rparr>))"

definition set_moves :: "lv_key \<Rightarrow> (lv_key set \<Rightarrow> lv_key set) \<Rightarrow> allocator \<Rightarrow> allocator" where
  "set_moves v f a = a\<lparr>al_graph := update_node v (\<lambda>n. n\<lparr>moves_of := f (moves_of n)\<rparr>) (al_graph a)\<rparr>"

definition merge_move :: "lv_key \<Rightarrow> lv_key \<Rightarrow> lv_key \<Rightarrow> allocator \<Rightarrow> allocator result" where
  "merge_move dest src m a =
     (if m \<in> moves_of (node_of a dest) then Inr a
      else let a1 = set_moves m (\<lambda>s. if m = dest then s - {src} else insert dest (s - {src})) a in
        rbind (replace_move (src, m) (if m = dest then None else Some (dest, m)) a1)
          (replace_move (m, src) (if m = dest then None else Some (m, dest))))"

definition merge_neighbor :: "colour_env \<Rightarrow> lv_key \<Rightarrow> lv_key \<Rightarrow> allocator \<Rightarrow> allocator result" where
  "merge_neighbor E dest n a =
     (let a1 = a\<lparr>al_graph := interfere (needs E) dest n (al_graph a)\<rparr> in
      rbind (map_at (al_node_at a1 n)) (\<lambda>l.
        if l \<noteq> N_select \<and> l \<noteq> N_coalesced then decrement_degree E n a1 else Inr a1))"

definition merge :: "colour_env \<Rightarrow> lv_key \<Rightarrow> lv_key \<Rightarrow> allocator \<Rightarrow> allocator result" where
  "merge E dest src a =
     rbind (relocate_node src N_coalesced a) (\<lambda>a1.
     rbind (enable_moves E src a1) (\<lambda>a2.
     rbind (rfold (merge_move dest src) (order E (moves_of (node_of a2 src))) a2) (\<lambda>a3.
     let a4 = set_moves dest (\<lambda>s. (s \<union> moves_of (node_of a3 src)) - {dest} - {src}) a3 in
     rbind (rfold (merge_neighbor E dest) (order E (adj (node_of a4 src))) a4) (\<lambda>a5.
     rbind (if high_degree a5 dest \<and> al_node_at a5 dest = Some N_freeze
              then relocate_node dest N_to_spill a5 else Inr a5) (\<lambda>a6.
     Inr (a6\<lparr>al_graph := set_alias dest src (al_graph a6)\<rparr>))))))"

definition freeze_move :: "colour_env \<Rightarrow> lv_key \<Rightarrow> move \<Rightarrow> allocator \<Rightarrow> allocator result" where
  "freeze_move E dest m a =
     rbind (relocate_move m M_frozen a) (\<lambda>a1.
       let g = al_graph a1;
           src = (if alias_key g (fst m) = alias_key g dest then alias_key g (snd m) else alias_key g (fst m)) in
       rbind (effective_moves E a1 src) (\<lambda>ms.
         if ms = [] \<and> \<not> high_degree a1 src \<and> al_node_at a1 src = Some N_freeze
           then relocate_node src N_simplify a1 else Inr a1))"

definition freeze_moves :: "colour_env \<Rightarrow> lv_key \<Rightarrow> allocator \<Rightarrow> allocator result" where
  "freeze_moves E dest a = rbind (effective_moves E a dest) (\<lambda>ms. rfold (freeze_move E dest) ms a)"

definition freeze :: "colour_env \<Rightarrow> allocator \<Rightarrow> allocator result" where
  "freeze E a =
     (let f = hd (al_nodes a N_freeze) in rbind (relocate_node f N_simplify a) (freeze_moves E f))"

definition unfreeze :: "colour_env \<Rightarrow> lv_key \<Rightarrow> allocator \<Rightarrow> allocator result" where
  "unfreeze E v a =
     rbind (map_at (al_node_at a v)) (\<lambda>l.
       if l = N_precolored then Inr a
       else rbind (move_related E a v) (\<lambda>m.
         if m \<or> high_degree a v then Inr a else relocate_node v N_simplify a))"

text \<open>The move \<open>mov\<close> between the aliases \<open>x\<close> and \<open>y\<close>, of which only \<open>x\<close> may be a register.\<close>

definition coalesce_pair :: "colour_env \<Rightarrow> move \<Rightarrow> lv_key \<Rightarrow> lv_key \<Rightarrow> allocator \<Rightarrow> allocator result" where
  "coalesce_pair E mov x y a =
     (if x = y then rbind (relocate_move mov M_coalesced a) (unfreeze E x)
      else if al_node_at a y = Some N_precolored \<or> interferes (al_graph a) x y
        then rbind (relocate_move mov M_constrained a) (\<lambda>a1. rbind (unfreeze E x a1) (unfreeze E y))
      else if mergable (al_graph a) x y
        then rbind (relocate_move mov M_coalesced a) (\<lambda>a1. rbind (merge E x y a1) (unfreeze E x))
      else relocate_move mov M_scheduled a)"

definition coalesce :: "colour_env \<Rightarrow> allocator \<Rightarrow> allocator result" where
  "coalesce E a =
     (let mov = hd (al_moves a M_ready);
          x = alias_key (al_graph a) (fst mov); y = alias_key (al_graph a) (snd mov) in
      if al_node_at a y = Some N_precolored then coalesce_pair E mov y x a else coalesce_pair E mov x y a)"

definition spill_cost :: "allocator \<Rightarrow> lv_key \<Rightarrow> int \<times> u64" where
  "spill_cost a v = (ig_prior (al_graph a) v, degree (ig_nodes (al_graph a) v))"

definition spill :: "colour_env \<Rightarrow> allocator \<Rightarrow> allocator result" where
  "spill E a =
     (let vs = al_nodes a N_to_spill;
          m = fold (\<lambda>n m. if cheaper E (spill_cost a n) (spill_cost a m) then n else m) vs (hd vs) in
      rbind (relocate_node m N_simplify a) (freeze_moves E m))"

section \<open>The main loop\<close>

definition busy :: "allocator \<Rightarrow> bool" where
  "busy a \<longleftrightarrow> al_nodes a N_simplify \<noteq> [] \<or> al_nodes a N_freeze \<noteq> [] \<or> al_nodes a N_to_spill \<noteq> [] \<or>
     al_moves a M_ready \<noteq> []"

definition colour_step :: "colour_env \<Rightarrow> allocator \<Rightarrow> allocator result" where
  "colour_step E a =
     (if al_nodes a N_simplify \<noteq> [] then simplify E a
      else if al_moves a M_ready \<noteq> [] then coalesce E a
      else if al_nodes a N_freeze \<noteq> [] then freeze E a
      else spill E a)"

partial_function (option) colour_loop :: "colour_env \<Rightarrow> allocator \<Rightarrow> allocator result option" where
  "colour_loop E a =
     (if busy a
        then (case colour_step E a of Inl e \<Rightarrow> Some (Inl e) | Inr a' \<Rightarrow> colour_loop E a')
      else Some (Inr a))"

section \<open>Colours\<close>

definition ok_colors :: "allocator \<Rightarrow> lv_key \<Rightarrow> nat list" where
  "ok_colors a n =
     [c \<leftarrow> [0..<max_color (al_graph a)].
        \<forall>v\<in>adj (node_of a n). al_colors a (alias_key (al_graph a) v) \<noteq> Some c]"

text \<open>The colour of the last move partner that is free, else the first of highest priority.\<close>

definition move_color :: "colour_env \<Rightarrow> allocator \<Rightarrow> nat list \<Rightarrow> lv_key \<Rightarrow> nat option" where
  "move_color E a ok n =
     fold (\<lambda>m best. case al_colors a (alias_key (al_graph a) m) of
                      None \<Rightarrow> best | Some c \<Rightarrow> if c \<in> set ok then Some c else best)
       (order E (moves_of (node_of a n))) None"

fun best_color :: "colour_env \<Rightarrow> nat \<Rightarrow> nat list \<Rightarrow> nat" where
  "best_color E best [] = best"
| "best_color E best (c # cs) = best_color E (if priority E c > priority E best then c else best) cs"

definition assign_color :: "colour_env \<Rightarrow> lv_key \<Rightarrow> allocator \<Rightarrow> allocator result" where
  "assign_color E n a =
     (case ok_colors a n of
        [] \<Rightarrow> relocate_node n N_spilled a
      | c # cs \<Rightarrow>
          let best = (case move_color E a (c # cs) n of Some b \<Rightarrow> b | None \<Rightarrow> best_color E c cs) in
          relocate_node n N_colored (a\<lparr>al_colors := (al_colors a)(n \<mapsto> best)\<rparr>))"

definition color_coalesced :: "lv_key \<Rightarrow> allocator \<Rightarrow> allocator" where
  "color_coalesced n a =
     (case al_colors a (alias_key (al_graph a) n) of
        Some c \<Rightarrow> a\<lparr>al_colors := (al_colors a)(n \<mapsto> c)\<rparr>
      | None \<Rightarrow> a\<lparr>al_spilled := al_spilled a @ [n]\<rparr>)"

definition assign_colors :: "colour_env \<Rightarrow> allocator \<Rightarrow> allocator result" where
  "assign_colors E a =
     rbind (rfold (assign_color E) (rev (al_nodes a N_select)) a) (\<lambda>a1.
       Inr (fold color_coalesced (al_nodes a1 N_coalesced) a1))"

record colour_result =
  cr_spilled :: "lv_key list"
  cr_colors :: "lv_key \<rightharpoonup> nat"

definition colorize :: "colour_env \<Rightarrow> igraph \<Rightarrow> colour_result result option" where
  "colorize E g =
     obind (Some (initialize E (new_allocator E g))) (\<lambda>a.
     obind (colour_loop E a) (\<lambda>b.
     Some (rbind (assign_colors E b) (\<lambda>c.
       Inr \<lparr>cr_spilled = al_spilled c @ al_nodes c N_spilled, cr_colors = al_colors c\<rparr>))))"

end
