(* ===== verification/Ra_Loop.thy ===== *)
theory Ra_Loop
  imports Ra_Colour
begin

text \<open>
  The main loop of the colouring keeps an invariant: the aliases of two interfering variables are
  different and interfere, every variable is on one list, the merged variables are the coalesced
  ones and precoloured variables stay where they are. Only \<open>merge\<close> touches aliases or interferences;
  every other step is framed by \<open>step_ok\<close>.
\<close>

section \<open>Aliases\<close>

fun alias_ok :: "(lv_key \<times> lv_key) list \<Rightarrow> bool" where
  "alias_ok [] = True"
| "alias_ok ((s, d) # al) = (alias_ok al \<and> s \<notin> fst ` set al \<and> d \<notin> fst ` set al \<and> d \<noteq> s)"

lemma follow_end: "v \<notin> fst ` set al \<Longrightarrow> follow n al v = v"
proof -
  assume "v \<notin> fst ` set al"
  then have "map_of al v = None" by (simp add: map_of_eq_None_iff)
  then show ?thesis by (cases n) simp_all
qed

lemma follow_Cons:
  assumes "s \<notin> fst ` set al" "d \<notin> fst ` set al" "d \<noteq> s" and "follow n al v \<notin> fst ` set al"
  shows "follow (Suc n) ((s, d) # al) v = (if follow n al v = s then d else follow n al v)"
  using assms(4)
proof (induction n arbitrary: v)
  case 0
  then have "map_of al v = None" by (simp add: map_of_eq_None_iff)
  then show ?case using assms(3) by simp
next
  case (Suc n)
  show ?case
  proof (cases "map_of al v")
    case None
    then have "v \<notin> fst ` set al" by (simp add: map_of_eq_None_iff)
    then have "follow (Suc n) al v = v" by (rule follow_end)
    moreover have "follow (Suc n) ((s, d) # al) d = d" using assms(2,3) by (intro follow_end) auto
    ultimately show ?thesis using None assms(3) by auto
  next
    case (Some w)
    then have v: "v \<in> fst ` set al" by (force dest: map_of_SomeD)
    moreover have "w \<noteq> v"
    proof
      assume "w = v"
      then have "follow (Suc n) al v = v" using Some by simp
      then show False using Suc.prems v by simp
    qed
    ultimately show ?thesis using Suc Some assms(1) by auto
  qed
qed

lemma follow_ends: "alias_ok al \<Longrightarrow> follow (length al) al v \<notin> fst ` set al"
proof (induction al)
  case (Cons p al)
  obtain s d where p: "p = (s, d)" by force
  have "follow (length (p # al)) (p # al) v =
      (if follow (length al) al v = s then d else follow (length al) al v)"
    unfolding p list.size(4) add_Suc_right add_0_right using Cons by (intro follow_Cons) (simp_all add: p)
  then show ?case using Cons by (auto simp: p)
qed simp

abbreviation merged :: "igraph \<Rightarrow> lv_key set" where
  "merged g \<equiv> fst ` set (ig_alias g)"

lemma alias_merged: "alias_ok (ig_alias g) \<Longrightarrow> alias_key g v \<notin> merged g"
  by (simp add: alias_key_def follow_ends)

lemma alias_self: "v \<notin> merged g \<Longrightarrow> alias_key g v = v"
  by (simp add: alias_key_def follow_end)

lemma alias_Cons:
  assumes "alias_ok (ig_alias g)" "src \<notin> merged g" "dest \<notin> merged g" "dest \<noteq> src"
  shows "alias_key (set_alias dest src g) v = (if alias_key g v = src then dest else alias_key g v)"
  using follow_Cons [OF assms(2-4) follow_ends [OF assms(1)]] by (simp add: alias_key_def set_alias_def)

lemma set_alias_sel: "ig_nodes (set_alias d s g) = ig_nodes g"
  by (simp add: set_alias_def)

lemma alias_cong: "ig_alias g' = ig_alias g \<Longrightarrow> alias_key g' = alias_key g"
  by (simp add: alias_key_def fun_eq_iff)

section \<open>Frames\<close>

lemma rfold_inv:
  assumes "rfold f xs s = Inr s'" "P s" "\<And>x s s'. x \<in> set xs \<Longrightarrow> P s \<Longrightarrow> f x s = Inr s' \<Longrightarrow> P s'"
  shows "P s'"
  using assms
proof (induction xs arbitrary: s)
  case (Cons x xs)
  obtain s1 where "f x s = Inr s1" "rfold f xs s1 = Inr s'" using Cons.prems(1) by (auto simp: rbind_eq_Inr)
  then show ?case using Cons.IH [of s1] Cons.prems by auto
qed simp

abbreviation edge_set :: "igraph \<Rightarrow> lv_key \<Rightarrow> lv_key set" where
  "edge_set g v \<equiv> adj (ig_nodes g v)"

definition graph_same :: "igraph \<Rightarrow> igraph \<Rightarrow> bool" where
  "graph_same g g' \<longleftrightarrow>
     ig_alias g' = ig_alias g \<and> ig_keys g' = ig_keys g \<and> max_color g' = max_color g \<and>
     (\<forall>v. edge_set g' v = edge_set g v \<and> node_color (ig_nodes g' v) = node_color (ig_nodes g v))"

definition wf_lists :: "allocator \<Rightarrow> bool" where
  "wf_lists a \<longleftrightarrow>
     (\<forall>v l. al_node_at a v = Some l \<longleftrightarrow> v \<in> set (al_nodes a l)) \<and> (\<forall>l. distinct (al_nodes a l))"

definition lists_same :: "node_list set \<Rightarrow> allocator \<Rightarrow> allocator \<Rightarrow> bool" where
  "lists_same W a a' \<longleftrightarrow>
     wf_lists a' \<and> (\<forall>l. l \<notin> W \<longrightarrow> al_nodes a' l = al_nodes a l) \<and> dom (al_node_at a') = dom (al_node_at a) \<and>
     al_colors a' = al_colors a \<and> al_spilled a' = al_spilled a"

definition step_ok :: "node_list set \<Rightarrow> allocator \<Rightarrow> allocator \<Rightarrow> bool" where
  "step_ok W a a' \<longleftrightarrow> lists_same W a a' \<and> graph_same (al_graph a) (al_graph a')"

lemma step_ok_refl: "wf_lists a \<Longrightarrow> step_ok W a a"
  by (simp add: step_ok_def lists_same_def graph_same_def)

lemma step_ok_trans: "step_ok W a b \<Longrightarrow> step_ok W b c \<Longrightarrow> step_ok W a c"
  by (auto simp: step_ok_def lists_same_def graph_same_def)

lemma step_ok_wf: "step_ok W a b \<Longrightarrow> wf_lists b"
  by (simp add: step_ok_def lists_same_def)

lemma step_ok_at:
  assumes "step_ok W a b" "wf_lists a" "l \<notin> W"
  shows "al_node_at b v = Some l \<longleftrightarrow> al_node_at a v = Some l"
  using assms by (auto simp: step_ok_def lists_same_def wf_lists_def)

lemma relocate_node_ok:
  assumes "relocate_node v to a = Inr a'" "wf_lists a" "al_node_at a v = Some from"
  shows "step_ok {from, to} a a'" and "al_node_at a' = (al_node_at a)(v \<mapsto> to)"
proof -
  define cut where "cut = (al_nodes a)(from := remove1 v (al_nodes a from))"
  have a': "a' = a\<lparr>al_nodes := cut(to := cut to @ [v]), al_node_at := (al_node_at a)(v \<mapsto> to)\<rparr>"
    using assms(1,3) by (simp add: relocate_node_def Let_def cut_def)
  have wf: "al_node_at a w = Some l \<longleftrightarrow> w \<in> set (al_nodes a l)" "distinct (al_nodes a l)" for w l
    using assms(2) by (auto simp: wf_lists_def)
  have "v \<notin> set (al_nodes a l)" if "l \<noteq> from" for l using wf(1) [of v l] assms(3) that by simp
  then have cut: "set (cut l) = {w. al_node_at a w = Some l} - {v}" "distinct (cut l)" for l
    using wf(2) by (auto simp: set_remove1_eq wf(1) cut_def)
  have "wf_lists a'" unfolding wf_lists_def a' by (auto simp: cut)
  then show "step_ok {from, to} a a'"
    using assms(3) by (auto simp: a' step_ok_def lists_same_def graph_same_def cut_def)
  show "al_node_at a' = (al_node_at a)(v \<mapsto> to)" by (simp add: a')
qed

lemma step_ok_mono: "step_ok W a b \<Longrightarrow> W \<subseteq> W' \<Longrightarrow> step_ok W' a b"
  by (auto simp: step_ok_def lists_same_def)

lemma relocate_move_ok: "relocate_move m l a = Inr a' \<Longrightarrow> wf_lists a \<Longrightarrow> step_ok W a a'"
  by (auto simp: relocate_move_def Let_def rbind_eq_Inr step_ok_def lists_same_def graph_same_def wf_lists_def)

lemma relocate_move_at: "relocate_move m l a = Inr a' \<Longrightarrow> al_node_at a' = al_node_at a"
  by (auto simp: relocate_move_def Let_def rbind_eq_Inr)

lemma update_node_sel:
  "ig_alias (update_node v f g) = ig_alias g" "ig_keys (update_node v f g) = ig_keys g"
  "max_color (update_node v f g) = max_color g"
  "ig_nodes (update_node v f g) w = (if w = alias_key g v then f (ig_nodes g w) else ig_nodes g w)"
  by (simp_all add: update_node_def)

lemma set_degree_ok: "wf_lists a \<Longrightarrow> step_ok W a (set_degree v d a)" "al_node_at (set_degree v d a) = al_node_at a"
  by (auto simp: set_degree_def step_ok_def lists_same_def graph_same_def wf_lists_def update_node_sel)

lemma set_moves_ok: "wf_lists a \<Longrightarrow> step_ok W a (set_moves v f a)" "al_node_at (set_moves v f a) = al_node_at a"
  by (auto simp: set_moves_def step_ok_def lists_same_def graph_same_def wf_lists_def update_node_sel)

lemma replace_move_ok: "replace_move m n a = Inr a' \<Longrightarrow> wf_lists a \<Longrightarrow> step_ok W a a'"
  by (cases n) (auto simp: replace_move_def Let_def rbind_eq_Inr step_ok_def lists_same_def graph_same_def wf_lists_def)

text \<open>A sequence of framed steps is framed.\<close>

lemma rfold_step_ok:
  assumes "rfold f xs a = Inr a'" "wf_lists a"
    and "\<And>x b b'. x \<in> set xs \<Longrightarrow> step_ok W a b \<Longrightarrow> f x b = Inr b' \<Longrightarrow> step_ok W b b'"
  shows "step_ok W a a'"
  by (rule rfold_inv [OF assms(1), where P = "step_ok W a"])
    (use assms(2,3) step_ok_refl step_ok_trans in blast)+

lemma enable_moves_ok: "enable_moves E v a = Inr a' \<Longrightarrow> wf_lists a \<Longrightarrow> step_ok W a a' \<and> al_node_at a' = al_node_at a"
  unfolding enable_moves_def rbind_eq_Inr
proof (elim exE conjE)
  fix ms assume w: "wf_lists a"
    and "rfold (\<lambda>m a. if al_move_at a m = Some M_scheduled then relocate_move m M_ready a else Inr a) ms a = Inr a'"
  then show ?thesis
    by (rule_tac rfold_inv [where P = "\<lambda>b. step_ok W a b \<and> al_node_at b = al_node_at a", rotated -1])
      (auto simp: step_ok_refl relocate_move_at split: if_splits
        intro: step_ok_trans relocate_move_ok dest: step_ok_wf)
qed

section \<open>Every step but \<open>merge\<close> keeps the interferences\<close>

definition work :: "node_list set" where
  "work = {N_simplify, N_freeze, N_to_spill, N_select}"

definition quiet :: "allocator \<Rightarrow> bool" where
  "quiet a \<longleftrightarrow> wf_lists a \<and> al_nodes a N_initial = [] \<and> al_nodes a N_spilled = [] \<and> al_nodes a N_colored = []"

lemma quiet_wf: "quiet a \<Longrightarrow> wf_lists a"
  by (simp add: quiet_def)

lemma quiet_step: "step_ok work a b \<Longrightarrow> quiet a \<Longrightarrow> quiet b"
  by (auto simp: quiet_def step_ok_def lists_same_def work_def)

lemma quiet_at:
  assumes "quiet a" "al_node_at a v = Some l" "l \<noteq> N_coalesced" "l \<noteq> N_precolored"
  shows "l \<in> work"
proof -
  have "v \<in> set (al_nodes a l)" using assms(1,2) by (simp add: quiet_def wf_lists_def)
  then show ?thesis using assms by (cases l) (auto simp: quiet_def work_def)
qed

lemma relocate_ok:
  assumes "relocate_node v to a = Inr a'" "quiet a" "to \<in> work"
    and "al_node_at a v \<noteq> Some N_coalesced" "al_node_at a v \<noteq> Some N_precolored"
  shows "step_ok work a a'"
proof -
  obtain l where f: "al_node_at a v = Some l"
    using assms(1) by (auto simp: relocate_node_def rbind_eq_Inr elim: map_at.elims)
  have "l \<in> work" using quiet_at [OF assms(2) f] assms(4,5) f by simp
  then show ?thesis
    using relocate_node_ok(1) [OF assms(1) quiet_wf [OF assms(2)] f] assms(3) by (auto intro: step_ok_mono)
qed

lemma step_ok_fixed:
  assumes "step_ok work a b" "quiet a" "l \<in> {N_coalesced, N_precolored}"
  shows "al_node_at b v = Some l \<longleftrightarrow> al_node_at a v = Some l"
  using step_ok_at [OF assms(1) quiet_wf [OF assms(2)], of l v] assms(3) by (auto simp: work_def)

text \<open>Bundles for chains of steps.\<close>

lemmas chain = step_ok_trans quiet_step

lemma decrement_degree_ok:
  assumes d: "decrement_degree E v a = Inr a'" and q: "quiet a" and nc: "al_node_at a v \<noteq> Some N_coalesced"
  shows "step_ok work a a'"
proof -
  obtain l where l: "al_node_at a v = Some l"
    using d by (auto simp: decrement_degree_def rbind_eq_Inr elim: map_at.elims)
  let ?d = "degree (node_of a v)"
  define a1 where "a1 = set_degree v (?d - 1) a"
  have 1: "step_ok work a a1" unfolding a1_def by (rule set_degree_ok(1) [OF quiet_wf [OF q]])
  consider (pre) "l = N_precolored" "a' = a" | (same) "a' = a1"
    | (drop) a2 ns a3 to where "l \<noteq> N_precolored" "enable_moves E v a1 = Inr a2" "adjacent E a2 v = Inr ns"
        "rfold (enable_moves E) ns a2 = Inr a3" "to \<in> work"
        "relocate_node v to a3 = Inr a'"
    using d l by (auto simp: decrement_degree_def Let_def rbind_eq_Inr a1_def [symmetric] work_def split: if_splits)
  then show ?thesis
  proof cases
    case pre
    then show ?thesis using step_ok_refl quiet_wf [OF q] by blast
  next
    case same
    then show ?thesis using 1 by simp
  next
    case drop
    have 2: "step_ok work a1 a2" using enable_moves_ok [OF drop(2) step_ok_wf [OF 1]] by blast
    have 3: "step_ok work a2 a3"
      by (rule rfold_step_ok [OF drop(4) step_ok_wf [OF 2]]) (use enable_moves_ok step_ok_wf in blast)
    have 13: "step_ok work a a3" using 1 2 3 by (blast intro: step_ok_trans)
    have "al_node_at a3 v \<noteq> Some N_coalesced" "al_node_at a3 v \<noteq> Some N_precolored"
      using step_ok_fixed [OF 13 q, of _ v] nc l drop(1) by auto
    then have "step_ok work a3 a'"
      by (intro relocate_ok [OF drop(6) quiet_step [OF 13 q] drop(5)])
    then show ?thesis using 13 by (blast intro: step_ok_trans)
  qed
qed

lemma filter_nodes_at:
  "filter_nodes a vs = Inr ws \<Longrightarrow> v \<in> set ws \<Longrightarrow> al_node_at a v \<noteq> Some N_coalesced"
proof (induction vs arbitrary: ws)
  case (Cons u vs)
  then show ?case by (auto simp: rbind_eq_Inr split: if_splits elim!: map_at.elims)
qed simp

lemma simplify_ok:
  assumes "simplify E a = Inr a'" "quiet a" "al_nodes a N_simplify \<noteq> []"
  shows "step_ok work a a'"
proof -
  let ?n = "hd (al_nodes a N_simplify)"
  obtain a1 ns where s: "relocate_node ?n N_select a = Inr a1" "adjacent E a1 ?n = Inr ns"
    "rfold (decrement_degree E) ns a1 = Inr a'"
    using assms(1) by (auto simp: simplify_def Let_def rbind_eq_Inr)
  have "al_node_at a ?n = Some N_simplify" using assms(2,3) by (simp add: quiet_def wf_lists_def)
  then have 1: "step_ok work a a1" by (intro relocate_ok [OF s(1) assms(2)]) (simp_all add: work_def)
  have "step_ok work a1 a'"
  proof (rule rfold_step_ok [OF s(3) step_ok_wf [OF 1]])
    fix v b b' assume v: "v \<in> set ns" and b: "step_ok work a1 b" and d: "decrement_degree E v b = Inr b'"
    have q1: "quiet a1" using quiet_step [OF 1 assms(2)] .
    have "al_node_at a1 v \<noteq> Some N_coalesced" using filter_nodes_at s(2) v by (auto simp: adjacent_def)
    then have "al_node_at b v \<noteq> Some N_coalesced" using step_ok_fixed [OF b q1] by simp
    then show "step_ok work b b'" using decrement_degree_ok [OF d quiet_step [OF b q1]] by blast
  qed
  then show ?thesis using 1 by (blast intro: step_ok_trans)
qed

lemma freeze_moves_ok:
  assumes "freeze_moves E v a = Inr a'" "quiet a"
  shows "step_ok work a a'"
proof -
  obtain ms where ms: "rfold (freeze_move E v) ms a = Inr a'"
    using assms(1) by (auto simp: freeze_moves_def rbind_eq_Inr)
  show ?thesis
  proof (rule rfold_step_ok [OF ms quiet_wf [OF assms(2)]])
    fix m b b' assume b: "step_ok work a b" and f: "freeze_move E v m b = Inr b'"
    then obtain b1 where b1: "relocate_move m M_frozen b = Inr b1"
      and c: "b' = b1 \<or> (\<exists>w. al_node_at b1 w = Some N_freeze \<and> relocate_node w N_simplify b1 = Inr b')"
      by (auto simp: freeze_move_def Let_def rbind_eq_Inr split: if_splits)
    have 1: "step_ok work b b1" by (rule relocate_move_ok [OF b1 step_ok_wf [OF b]])
    have q: "quiet b1" using quiet_step [OF 1 quiet_step [OF b assms(2)]] .
    have "step_ok work b1 b'"
      using c relocate_ok [OF _ q, of _ N_simplify b'] step_ok_refl [OF quiet_wf [OF q]]
      by (fastforce simp: work_def)
    then show "step_ok work b b'" using 1 by (blast intro: step_ok_trans)
  qed
qed

lemma freeze_ok:
  assumes "freeze E a = Inr a'" "quiet a" "al_nodes a N_freeze \<noteq> []"
  shows "step_ok work a a'"
proof -
  let ?f = "hd (al_nodes a N_freeze)"
  obtain a1 where s: "relocate_node ?f N_simplify a = Inr a1" "freeze_moves E ?f a1 = Inr a'"
    using assms(1) by (auto simp: freeze_def Let_def rbind_eq_Inr)
  have "al_node_at a ?f = Some N_freeze" using assms(2,3) by (simp add: quiet_def wf_lists_def)
  then have 1: "step_ok work a a1" by (intro relocate_ok [OF s(1) assms(2)]) (simp_all add: work_def)
  then show ?thesis using freeze_moves_ok [OF s(2) quiet_step [OF 1 assms(2)]] by (blast intro: step_ok_trans)
qed

lemma fold_pick: "fold (\<lambda>n m. if P n m then n else m) vs m \<in> insert m (set vs)"
  by (induction vs arbitrary: m) auto

lemma spill_ok:
  assumes "spill E a = Inr a'" "quiet a" "al_nodes a N_to_spill \<noteq> []"
  shows "step_ok work a a'"
proof -
  obtain m a1 where m: "m \<in> insert (hd (al_nodes a N_to_spill)) (set (al_nodes a N_to_spill))"
    and s: "relocate_node m N_simplify a = Inr a1" "freeze_moves E m a1 = Inr a'"
    using assms(1) fold_pick [of "\<lambda>n m. cheaper E (spill_cost a n) (spill_cost a m)"]
    unfolding spill_def Let_def rbind_eq_Inr by blast
  then have "al_node_at a m = Some N_to_spill" using assms(2,3) by (auto simp: quiet_def wf_lists_def)
  then have 1: "step_ok work a a1" by (intro relocate_ok [OF s(1) assms(2)]) (simp_all add: work_def)
  then show ?thesis using freeze_moves_ok [OF s(2) quiet_step [OF 1 assms(2)]] by (blast intro: step_ok_trans)
qed

lemma unfreeze_ok:
  assumes "unfreeze E v a = Inr a'" "quiet a" "al_node_at a v \<noteq> Some N_coalesced"
  shows "step_ok work a a'"
proof -
  obtain l where l: "al_node_at a v = Some l"
    and c: "a' = a \<or> l \<noteq> N_precolored \<and> relocate_node v N_simplify a = Inr a'"
    using assms(1) by (auto simp: unfreeze_def rbind_eq_Inr split: if_splits elim!: map_at.elims)
  then show ?thesis
    using relocate_ok [OF _ assms(2), of v N_simplify a'] step_ok_refl [OF quiet_wf [OF assms(2)]] assms(3)
    by (auto simp: work_def)
qed

section \<open>Merging\<close>

definition graph_inv :: "(lv_key \<Rightarrow> bool) \<Rightarrow> igraph \<Rightarrow> bool" where
  "graph_inv need g \<longleftrightarrow>
     alias_ok (ig_alias g) \<and> (\<forall>v\<in>set (ig_keys g). need v) \<and>
     (\<forall>(s, d)\<in>set (ig_alias g). d \<in> set (ig_keys g)) \<and>
     (\<forall>u v. v \<in> edge_set g u \<longrightarrow> u \<noteq> v \<and> u \<in> edge_set g v \<and> v \<in> set (ig_keys g))"

lemma graph_inv_same: "graph_same g g' \<Longrightarrow> graph_inv need g \<Longrightarrow> graph_inv need g'"
  by (simp add: graph_same_def graph_inv_def)

lemma follow_in: "v \<in> K \<Longrightarrow> \<forall>(s, d)\<in>set al. d \<in> K \<Longrightarrow> follow n al v \<in> K"
proof (induction n arbitrary: v)
  case (Suc n)
  then show ?case by (fastforce split: option.split dest: map_of_SomeD)
qed simp

lemma alias_in_keys: "graph_inv need g \<Longrightarrow> v \<in> set (ig_keys g) \<Longrightarrow> alias_key g v \<in> set (ig_keys g)"
  by (simp add: graph_inv_def alias_key_def follow_in)

definition joined :: "igraph \<Rightarrow> lv_key \<Rightarrow> lv_key \<Rightarrow> bool" where
  "joined g u v \<longleftrightarrow> alias_key g u \<noteq> alias_key g v \<and> alias_key g v \<in> edge_set g (alias_key g u)"

lemma joined_same: "graph_same g g' \<Longrightarrow> joined g' u v \<longleftrightarrow> joined g u v"
  by (simp add: graph_same_def joined_def alias_key_def)

text \<open>Edges are only added.\<close>

definition grown :: "(lv_key \<Rightarrow> bool) \<Rightarrow> igraph \<Rightarrow> igraph \<Rightarrow> bool" where
  "grown need g g' \<longleftrightarrow>
     graph_inv need g' \<and> ig_alias g' = ig_alias g \<and> ig_keys g' = ig_keys g \<and> max_color g' = max_color g \<and>
     (\<forall>v. node_color (ig_nodes g' v) = node_color (ig_nodes g v) \<and> edge_set g v \<subseteq> edge_set g' v)"

lemma grown_trans: "grown need g h \<Longrightarrow> grown need h k \<Longrightarrow> grown need g k"
  by (auto simp: grown_def)

lemma grown_same: "graph_inv need g \<Longrightarrow> graph_same g g' \<Longrightarrow> grown need g g'"
  using graph_inv_same [of g g' need] by (auto simp: grown_def graph_same_def)

lemma add_adj_sel:
  "ig_alias (add_adj u v g) = ig_alias g" "ig_keys (add_adj u v g) = ig_keys g"
  "max_color (add_adj u v g) = max_color g"
  "node_color (ig_nodes (add_adj u v g) w) = node_color (ig_nodes g w)"
  "edge_set (add_adj u v g) w = (if w = u then insert v (edge_set g u) else edge_set g w)"
  by (auto simp: add_adj_def Let_def)

lemma interfere_grown:
  assumes inv: "graph_inv need g" and uv: "u \<in> set (ig_keys g)" "v \<in> set (ig_keys g)"
  shows "grown need g (interfere need u v g)"
    and "alias_key g u \<noteq> alias_key g v \<Longrightarrow> alias_key g v \<in> edge_set (interfere need u v g) (alias_key g u)"
proof -
  note k = alias_in_keys [OF inv uv(1)] alias_in_keys [OF inv uv(2)]
  have n: "need u" "need v" using inv uv by (simp_all add: graph_inv_def)
  let ?g = "add_adj (alias_key g v) (alias_key g u) (add_adj (alias_key g u) (alias_key g v) g)"
  have eq: "interfere need u v g = (if alias_key g u = alias_key g v then g else ?g)"
    using n k by (simp add: interfere_def Let_def ensure_def)
  show "alias_key g u \<noteq> alias_key g v \<Longrightarrow> alias_key g v \<in> edge_set (interfere need u v g) (alias_key g u)"
    by (simp add: eq add_adj_sel)
  show "grown need g (interfere need u v g)"
  proof (cases "alias_key g u = alias_key g v")
    case True
    then show ?thesis using inv eq by (auto simp: grown_def)
  next
    case False
    have "graph_inv need ?g"
      using inv k False unfolding graph_inv_def by (auto simp: add_adj_sel split: if_splits)
    then show ?thesis using False by (auto simp: grown_def eq add_adj_sel)
  qed
qed

definition alloc_grown :: "(lv_key \<Rightarrow> bool) \<Rightarrow> allocator \<Rightarrow> allocator \<Rightarrow> bool" where
  "alloc_grown need a b \<longleftrightarrow> lists_same work a b \<and> grown need (al_graph a) (al_graph b)"

lemma alloc_grown_trans: "alloc_grown need a b \<Longrightarrow> alloc_grown need b c \<Longrightarrow> alloc_grown need a c"
  by (auto simp: alloc_grown_def lists_same_def intro: grown_trans)

lemma alloc_grown_step: "step_ok work a b \<Longrightarrow> graph_inv need (al_graph a) \<Longrightarrow> alloc_grown need a b"
  by (simp add: alloc_grown_def step_ok_def grown_same)

lemma quiet_grown: "alloc_grown need a b \<Longrightarrow> quiet a \<Longrightarrow> quiet b"
  by (auto simp: alloc_grown_def quiet_def lists_same_def work_def)

lemma merge_neighbor_ok:
  assumes m: "merge_neighbor E dest n a = Inr a'" and q: "quiet a" and inv: "graph_inv (needs E) (al_graph a)"
    and keys: "dest \<in> set (ig_keys (al_graph a))" "n \<in> set (ig_keys (al_graph a))"
  shows "alloc_grown (needs E) a a'"
    and "alias_key (al_graph a) dest \<noteq> alias_key (al_graph a) n \<Longrightarrow>
      alias_key (al_graph a) n \<in> edge_set (al_graph a') (alias_key (al_graph a) dest)"
proof -
  define a1 where "a1 = a\<lparr>al_graph := interfere (needs E) dest n (al_graph a)\<rparr>"
  have q1: "quiet a1" using q by (simp add: a1_def quiet_def wf_lists_def)
  note i = interfere_grown [OF inv keys]
  have g1: "alloc_grown (needs E) a a1"
    using i(1) q by (simp add: alloc_grown_def lists_same_def a1_def quiet_def wf_lists_def)
  have s: "step_ok work a1 a'"
    using m decrement_degree_ok [OF _ q1, of E n a'] step_ok_refl [OF quiet_wf [OF q1]]
    by (auto simp: merge_neighbor_def Let_def a1_def [symmetric] rbind_eq_Inr split: if_splits elim!: map_at.elims)
  have "graph_inv (needs E) (al_graph a1)" using g1 by (simp add: alloc_grown_def grown_def)
  then show "alloc_grown (needs E) a a'" using alloc_grown_trans [OF g1 alloc_grown_step [OF s]] by blast
  have "edge_set (al_graph a') v = edge_set (al_graph a1) v" for v
    using s by (auto simp: step_ok_def graph_same_def)
  then show "alias_key (al_graph a) dest \<noteq> alias_key (al_graph a) n \<Longrightarrow>
      alias_key (al_graph a) n \<in> edge_set (al_graph a') (alias_key (al_graph a) dest)"
    using i(2) by (simp add: a1_def)
qed

lemma merge_neighbors_ok:
  assumes "rfold (merge_neighbor E dest) ns a = Inr a'" "quiet a" "graph_inv (needs E) (al_graph a)"
    and "dest \<in> set (ig_keys (al_graph a))" "set ns \<subseteq> set (ig_keys (al_graph a))"
  shows "alloc_grown (needs E) a a' \<and> (\<forall>n\<in>set ns. alias_key (al_graph a) dest \<noteq> alias_key (al_graph a) n \<longrightarrow>
      alias_key (al_graph a) n \<in> edge_set (al_graph a') (alias_key (al_graph a) dest))"
  using assms
proof (induction ns arbitrary: a)
  case Nil
  then show ?case using alloc_grown_step [OF step_ok_refl [OF quiet_wf]] by simp
next
  case (Cons n ns)
  obtain a1 where a1: "merge_neighbor E dest n a = Inr a1" "rfold (merge_neighbor E dest) ns a1 = Inr a'"
    using Cons.prems(1) by (auto simp: rbind_eq_Inr)
  have n: "n \<in> set (ig_keys (al_graph a))" using Cons.prems(5) by simp
  note m = merge_neighbor_ok [OF a1(1) Cons.prems(2,3,4) n]
  have g: "graph_inv (needs E) (al_graph a1)" "ig_keys (al_graph a1) = ig_keys (al_graph a)"
    "ig_alias (al_graph a1) = ig_alias (al_graph a)"
    using m(1) by (simp_all add: alloc_grown_def grown_def)
  note al = alias_cong [OF g(3)]
  have ih: "alloc_grown (needs E) a1 a'"
    "\<forall>n\<in>set ns. alias_key (al_graph a) dest \<noteq> alias_key (al_graph a) n \<longrightarrow>
      alias_key (al_graph a) n \<in> edge_set (al_graph a') (alias_key (al_graph a) dest)"
    using Cons.IH [OF a1(2) quiet_grown [OF m(1) Cons.prems(2)] g(1)] Cons.prems(4,5) by (simp_all add: g(2) al)
  have "edge_set (al_graph a1) v \<subseteq> edge_set (al_graph a') v" for v
    using ih(1) by (simp add: alloc_grown_def grown_def)
  then show ?case using alloc_grown_trans [OF m(1) ih(1)] ih(2) m(2) by auto
qed

text \<open>The order lists every finite set once.\<close>

definition order_ok :: "colour_env \<Rightarrow> bool" where
  "order_ok E \<longleftrightarrow> (\<forall>S. finite S \<longrightarrow> set (order E S) = S \<and> distinct (order E S))"

lemma edges_finite: "graph_inv need g \<Longrightarrow> finite (edge_set g v)"
  by (rule finite_subset [of _ "set (ig_keys g)"]) (auto simp: graph_inv_def)

lemma merge_moves_ok:
  assumes "rfold (merge_move dest src) ms a = Inr a'" "wf_lists a"
  shows "step_ok W a a'"
proof (rule rfold_step_ok [OF assms])
  fix m b b' assume b: "step_ok W a b" and m: "merge_move dest src m b = Inr b'"
  show "step_ok W b b'"
  proof (cases "m \<in> moves_of (node_of b dest)")
    case True
    then show ?thesis using m step_ok_refl [OF step_ok_wf [OF b]] by (simp add: merge_move_def)
  next
    case False
    obtain f b1 n1 n2 where b1: "replace_move (src, m) n1 (set_moves m f b) = Inr b1"
      "replace_move (m, src) n2 b1 = Inr b'"
      using m False by (fastforce simp: merge_move_def Let_def rbind_eq_Inr)
    have 1: "step_ok W b (set_moves m f b)" by (rule set_moves_ok(1) [OF step_ok_wf [OF b]])
    have 2: "step_ok W (set_moves m f b) b1" by (rule replace_move_ok [OF b1(1) step_ok_wf [OF 1]])
    have 3: "step_ok W b1 b'" by (rule replace_move_ok [OF b1(2) step_ok_wf [OF 2]])
    show ?thesis using 1 2 3 by (blast intro: step_ok_trans)
  qed
qed

text \<open>What \<open>merge\<close> does to the lists and the graph.\<close>

lemma merge_effect:
  assumes m: "merge E dest src a = Inr a'" and q: "quiet a" and inv: "graph_inv (needs E) (al_graph a)"
    and ord: "order_ok E" and keys: "dest \<in> set (ig_keys (al_graph a))"
    and reps: "src \<notin> merged (al_graph a)" "dest \<notin> merged (al_graph a)"
    and src: "al_node_at a src \<noteq> Some N_coalesced" "al_node_at a src \<noteq> Some N_precolored"
  shows "\<exists>a1 b. relocate_node src N_coalesced a = Inr a1 \<and> alloc_grown (needs E) a1 b \<and> quiet a1 \<and>
    a' = b\<lparr>al_graph := set_alias dest src (al_graph b)\<rparr> \<and> graph_same (al_graph a) (al_graph a1) \<and>
    (\<forall>n\<in>edge_set (al_graph a) src. n \<notin> merged (al_graph a) \<longrightarrow> n \<noteq> dest \<longrightarrow> n \<in> edge_set (al_graph b) dest)"
proof -
  obtain a1 a2 a3 a5 a6 where
    s1: "relocate_node src N_coalesced a = Inr a1" and s2: "enable_moves E src a1 = Inr a2"
    and s3: "rfold (merge_move dest src) (order E (moves_of (node_of a2 src))) a2 = Inr a3"
    and s5: "rfold (merge_neighbor E dest) (order E (adj (node_of (set_moves dest (\<lambda>s. (s \<union> moves_of (node_of a3 src)) - {dest} - {src}) a3) src)))
          (set_moves dest (\<lambda>s. (s \<union> moves_of (node_of a3 src)) - {dest} - {src}) a3) = Inr a5"
    and s6: "(if high_degree a5 dest \<and> al_node_at a5 dest = Some N_freeze
              then relocate_node dest N_to_spill a5 else Inr a5) = Inr a6"
    and a': "a' = a6\<lparr>al_graph := set_alias dest src (al_graph a6)\<rparr>"
    using m unfolding merge_def Let_def rbind_eq_Inr by blast
  define a4 where "a4 = set_moves dest (\<lambda>s. (s \<union> moves_of (node_of a3 src)) - {dest} - {src}) a3"
  obtain l where l: "al_node_at a src = Some l" "l \<in> work"
    using s1 quiet_at [OF q, of src] src by (auto simp: relocate_node_def rbind_eq_Inr elim!: map_at.elims)
  note r = relocate_node_ok [OF s1 quiet_wf [OF q] l(1)]
  have same1: "graph_same (al_graph a) (al_graph a1)" and q1: "quiet a1"
    using r(1) q l(2) by (auto simp: step_ok_def lists_same_def quiet_def work_def)
  have 2: "step_ok work a1 a2" using enable_moves_ok [OF s2 quiet_wf [OF q1]] by blast
  have 3: "step_ok work a2 a3" by (rule merge_moves_ok [OF s3 step_ok_wf [OF 2]])
  have 4: "step_ok work a3 a4" unfolding a4_def by (rule set_moves_ok(1) [OF step_ok_wf [OF 3]])
  have 14: "step_ok work a1 a4" using 2 3 4 by (blast intro: step_ok_trans)
  have same4: "graph_same (al_graph a) (al_graph a4)"
    using same1 14 by (auto simp: step_ok_def graph_same_def)
  have inv4: "graph_inv (needs E) (al_graph a4)" using graph_inv_same [OF same4 inv] .
  have q4: "quiet a4" using quiet_step [OF 14 q1] .
  have al4: "alias_key (al_graph a4) = alias_key (al_graph a)" using same4 by (intro alias_cong) (simp add: graph_same_def)
  have ns: "set (order E (adj (node_of a4 src))) = edge_set (al_graph a) src"
    using ord edges_finite [OF inv] same4 alias_self [OF reps(1)]
    by (simp add: order_ok_def node_of_def graph_node_def al4 graph_same_def)
  have keys4: "dest \<in> set (ig_keys (al_graph a4))" "set (order E (adj (node_of a4 src))) \<subseteq> set (ig_keys (al_graph a4))"
    using keys same4 inv unfolding ns by (auto simp: graph_same_def graph_inv_def)
  note n = merge_neighbors_ok [OF s5 [folded a4_def] q4 inv4 keys4]
  have q5: "quiet a5" using quiet_grown [OF conjunct1 [OF n] q4] .
  have 6: "step_ok work a5 a6"
    using s6 relocate_ok [of dest N_to_spill a5 a6] q5 step_ok_refl [OF quiet_wf [OF q5]]
    by (auto simp: work_def split: if_splits)
  have "graph_inv (needs E) (al_graph a1)" using graph_inv_same [OF same1 inv] .
  moreover have "graph_inv (needs E) (al_graph a5)" using n by (simp add: alloc_grown_def grown_def)
  ultimately have grown: "alloc_grown (needs E) a1 a6"
    using alloc_grown_trans [OF alloc_grown_step [OF 14]] alloc_grown_trans [OF conjunct1 [OF n]]
      alloc_grown_step [OF 6] by blast
  have e6: "edge_set (al_graph a6) v = edge_set (al_graph a5) v" for v
    using 6 by (simp add: step_ok_def graph_same_def)
  have "n \<in> edge_set (al_graph a6) dest"
    if "n \<in> edge_set (al_graph a) src" "n \<notin> merged (al_graph a)" "n \<noteq> dest" for n
    using n that alias_self [OF that(2)] alias_self [OF reps(2)] by (auto simp: ns al4 e6)
  then show ?thesis using s1 grown q1 a' same1 by blast
qed

section \<open>The invariant of the main loop\<close>

definition precolor_of :: "igraph \<Rightarrow> lv_key \<rightharpoonup> nat" where
  "precolor_of g v = (if v \<in> set (ig_keys g) then node_color (ig_nodes g v) else None)"

definition alloc_inv :: "colour_env \<Rightarrow> igraph \<Rightarrow> allocator \<Rightarrow> bool" where
  "alloc_inv E g0 a \<longleftrightarrow>
     quiet a \<and> graph_inv (needs E) (al_graph a) \<and>
     (\<forall>v. al_node_at a v = Some N_coalesced \<longleftrightarrow> v \<in> merged (al_graph a)) \<and>
     (\<forall>v. al_node_at a v = Some N_precolored \<longleftrightarrow> precolor_of g0 v \<noteq> None) \<and>
     dom (al_node_at a) = set (ig_keys g0) \<and> ig_keys (al_graph a) = ig_keys g0 \<and>
     max_color (al_graph a) = max_color g0 \<and>
     (\<forall>v. node_color (ig_nodes (al_graph a) v) = node_color (ig_nodes g0 v)) \<and>
     (\<forall>u v. v \<in> edge_set g0 u \<longrightarrow> joined (al_graph a) u v) \<and>
     al_colors a = precolor_of g0 \<and> al_spilled a = []"

lemma alloc_inv_step:
  assumes inv: "alloc_inv E g0 a" and s: "step_ok work a b"
  shows "alloc_inv E g0 b"
proof -
  have q: "quiet a" using inv by (simp add: alloc_inv_def)
  have g: "graph_same (al_graph a) (al_graph b)" and l: "lists_same work a b"
    using s by (simp_all add: step_ok_def)
  show ?thesis
    using inv quiet_step [OF s q] graph_inv_same [OF g] step_ok_fixed [OF s q] g l joined_same [OF g]
    unfolding alloc_inv_def by (simp add: graph_same_def lists_same_def)
qed

lemma alloc_inv_merge:
  assumes inv: "alloc_inv E g0 a" and ord: "order_ok E" and m: "merge E dest src a = Inr a'"
    and reps: "src \<notin> merged (al_graph a)" "dest \<notin> merged (al_graph a)" and keys: "dest \<in> set (ig_keys g0)"
    and new: "dest \<noteq> src" "src \<notin> edge_set (al_graph a) dest" "precolor_of g0 src = None"
  shows "alloc_inv E g0 a'" and "merged (al_graph a') = insert src (merged (al_graph a))"
proof -
  let ?g = "al_graph a"
  have q: "quiet a" and gi: "graph_inv (needs E) ?g" using inv by (simp_all add: alloc_inv_def)
  have src: "al_node_at a src \<noteq> Some N_coalesced" "al_node_at a src \<noteq> Some N_precolored"
    using inv reps(1) new(3) by (simp_all add: alloc_inv_def)
  obtain a1 b where s1: "relocate_node src N_coalesced a = Inr a1" and gr: "alloc_grown (needs E) a1 b"
    and q1: "quiet a1" and a': "a' = b\<lparr>al_graph := set_alias dest src (al_graph b)\<rparr>"
    and same: "graph_same ?g (al_graph a1)"
    and joined_src: "\<And>n. n \<in> edge_set ?g src \<Longrightarrow> n \<notin> merged ?g \<Longrightarrow> n \<noteq> dest \<Longrightarrow> n \<in> edge_set (al_graph b) dest"
    using merge_effect [OF m q gi ord _ reps src] keys inv by (auto simp: alloc_inv_def)
  obtain l where l: "al_node_at a src = Some l"
    using s1 by (auto simp: relocate_node_def rbind_eq_Inr elim!: map_at.elims)
  note r = relocate_node_ok [OF s1 quiet_wf [OF q] l]
  have gb: "graph_inv (needs E) (al_graph b)" "ig_alias (al_graph b) = ig_alias ?g"
    "ig_keys (al_graph b) = ig_keys ?g" "max_color (al_graph b) = max_color ?g"
    "node_color (ig_nodes (al_graph b) v) = node_color (ig_nodes ?g v)" "edge_set ?g v \<subseteq> edge_set (al_graph b) v" for v
    using gr same by (auto simp: alloc_grown_def grown_def graph_same_def)
  have lb: "quiet b" "al_node_at b v = Some k \<longleftrightarrow> al_node_at a1 v = Some k" if "k \<notin> work" for v k
    using quiet_grown [OF gr q1] gr q1 that by (auto simp: alloc_grown_def lists_same_def quiet_def wf_lists_def)
  let ?h = "set_alias dest src (al_graph b)"
  have al: "alias_key ?h v = (if alias_key ?g v = src then dest else alias_key ?g v)" for v
    using alias_Cons [of "al_graph b" src dest v] gb(1,2) reps new(1) alias_cong [OF gb(2)]
    by (simp add: graph_inv_def)
  have "joined ?h u v" if e: "v \<in> edge_set g0 u" for u v
  proof -
    let ?x = "alias_key ?g u" and ?y = "alias_key ?g v"
    have xy: "?x \<noteq> ?y" "?y \<in> edge_set ?g ?x" using inv e by (auto simp: alloc_inv_def joined_def)
    have sym: "q \<in> edge_set k p \<Longrightarrow> p \<in> edge_set k q" if "graph_inv (needs E) k" for k p q
      using that by (simp add: graph_inv_def)
    have rep: "?x \<notin> merged ?g" "?y \<notin> merged ?g" using gi by (simp_all add: alias_merged graph_inv_def)
    have "?x = src \<Longrightarrow> ?y \<noteq> dest \<and> ?y \<in> edge_set (al_graph b) dest"
      using joined_src [of ?y] xy rep sym [OF gi, of dest src] new(2) by auto
    moreover have "?x \<noteq> dest \<and> dest \<in> edge_set (al_graph b) ?x" if y: "?y = src"
    proof
      show "?x \<noteq> dest" using xy(2) new(2) y by auto
      then show "dest \<in> edge_set (al_graph b) ?x"
        using joined_src [of ?x] sym [OF gi xy(2)] rep(1) sym [OF gb(1), of ?x dest] y by simp
    qed
    moreover have "?y \<in> edge_set (al_graph b) ?x" using gb(6) xy(2) by blast
    ultimately show ?thesis using xy(1) by (auto simp: joined_def al set_alias_sel)
  qed
  moreover have "graph_inv (needs E) ?h"
    using gb reps new(1) keys inv by (auto simp: graph_inv_def set_alias_def alloc_inv_def)
  moreover have "dom (al_node_at b) = set (ig_keys g0)"
    using gr r(2) l inv by (auto simp: alloc_grown_def lists_same_def alloc_inv_def)
  moreover have "al_node_at b v = Some N_coalesced \<longleftrightarrow> v \<in> merged ?h" for v
    using lb(2) [of N_coalesced v] r(2) inv gb(2) by (auto simp: work_def alloc_inv_def set_alias_def)
  moreover have "al_node_at b v = Some N_precolored \<longleftrightarrow> precolor_of g0 v \<noteq> None" for v
    using lb(2) [of N_precolored v] r(2) inv src new(3) by (auto simp: work_def alloc_inv_def)
  moreover have "quiet a'" using lb(1) [of N_initial] by (simp add: a' quiet_def wf_lists_def work_def)
  moreover have "al_colors b = precolor_of g0" "al_spilled b = []"
    using gr r(1) inv by (auto simp: alloc_grown_def lists_same_def step_ok_def alloc_inv_def)
  ultimately show "alloc_inv E g0 a'"
    using inv gb(3-5) unfolding alloc_inv_def a' by (simp add: set_alias_def)
  show "merged (al_graph a') = insert src (merged (al_graph a))" by (simp add: a' set_alias_def gb(2))
qed

text \<open>No step adds or loses a node.\<close>

definition located :: "allocator \<Rightarrow> lv_key set" where
  "located a = dom (al_node_at a)"

lemma located_cong: "al_node_at a' = al_node_at a \<Longrightarrow> located a' = located a"
  by (simp add: located_def)

lemma located_simps [simp]:
  "located (a\<lparr>al_graph := g\<rparr>) = located a" "located (a\<lparr>al_moves := m\<rparr>) = located a"
  "located (a\<lparr>al_moves := m, al_move_at := n\<rparr>) = located a"
  by (simp_all add: located_def)

lemma relocate_node_dom: "relocate_node v l a = Inr a' \<Longrightarrow> located a' = located a"
  by (auto simp: relocate_node_def rbind_eq_Inr Let_def located_def split: if_splits elim!: map_at.elims)

lemma rfold_dom:
  assumes "rfold f xs a = Inr a'" "\<And>x b b'. f x b = Inr b' \<Longrightarrow> located b' = located b"
  shows "located a' = located a"
  by (rule rfold_inv [OF assms(1), where P = "\<lambda>c. located c = located a"]) (use assms(2) in auto)

lemma relocate_move_dom: "relocate_move m l a = Inr a' \<Longrightarrow> located a' = located a"
  by (rule located_cong) (rule relocate_move_at)

lemma enable_moves_dom: "enable_moves E v a = Inr a' \<Longrightarrow> located a' = located a"
  unfolding enable_moves_def rbind_eq_Inr
proof (elim exE conjE)
  fix ms assume "rfold (\<lambda>m a. if al_move_at a m = Some M_scheduled then relocate_move m M_ready a else Inr a) ms a = Inr a'"
  then show ?thesis by (rule rfold_dom) (auto dest: relocate_move_dom split: if_splits)
qed

lemma decrement_degree_dom:
  assumes "decrement_degree E v a = Inr a'"
  shows "located a' = located a"
proof -
  define a1 where "a1 = set_degree v (degree (node_of a v) - 1) a"
  have 1: "located a1 = located a" by (simp add: a1_def set_degree_def)
  consider "a' = a" | "a' = a1"
    | (drop) a2 ns a3 to where "enable_moves E v a1 = Inr a2" "rfold (enable_moves E) ns a2 = Inr a3"
        "relocate_node v to a3 = Inr a'"
    using assms by (auto simp: decrement_degree_def Let_def rbind_eq_Inr a1_def [symmetric] split: if_splits)
  then show ?thesis
  proof cases
    case drop
    show ?thesis
      using 1 enable_moves_dom [OF drop(1)] rfold_dom [OF drop(2) enable_moves_dom] relocate_node_dom [OF drop(3)]
      by simp
  qed (use 1 in simp_all)
qed

lemma replace_move_dom: "replace_move m n a = Inr a' \<Longrightarrow> located a' = located a"
  by (cases n) (auto simp: replace_move_def Let_def rbind_eq_Inr located_def)

lemma merge_move_dom:
  assumes "merge_move dest src m a = Inr a'"
  shows "located a' = located a"
proof (cases "m \<in> moves_of (node_of a dest)")
  case False
  obtain f b n1 n2 where "replace_move (src, m) n1 (set_moves m f a) = Inr b" "replace_move (m, src) n2 b = Inr a'"
    using assms False by (fastforce simp: merge_move_def Let_def rbind_eq_Inr)
  then show ?thesis using replace_move_dom by (simp add: set_moves_def)
qed (use assms in \<open>simp add: merge_move_def\<close>)

lemma merge_neighbor_dom:
  assumes "merge_neighbor E dest n a = Inr a'"
  shows "located a' = located a"
proof -
  define a1 where "a1 = a\<lparr>al_graph := interfere (needs E) dest n (al_graph a)\<rparr>"
  have "a' = a1 \<or> decrement_degree E n a1 = Inr a'"
    using assms by (auto simp: merge_neighbor_def Let_def rbind_eq_Inr a1_def [symmetric] split: if_splits)
  then show ?thesis using decrement_degree_dom [of E n a1 a'] by (auto simp: a1_def)
qed

lemma merge_dom:
  assumes "merge E dest src a = Inr a'"
  shows "located a' = located a"
proof -
  obtain a1 a2 a3 a5 a6 ms ns f where s: "relocate_node src N_coalesced a = Inr a1" "enable_moves E src a1 = Inr a2"
    "rfold (merge_move dest src) ms a2 = Inr a3" "rfold (merge_neighbor E dest) ns (set_moves dest f a3) = Inr a5"
    "(if high_degree a5 dest \<and> al_node_at a5 dest = Some N_freeze
        then relocate_node dest N_to_spill a5 else Inr a5) = Inr a6"
    "a' = a6\<lparr>al_graph := set_alias dest src (al_graph a6)\<rparr>"
    using assms unfolding merge_def Let_def rbind_eq_Inr by blast
  have "located a6 = located a5" using s(5) by (auto split: if_splits dest: relocate_node_dom)
  then show ?thesis
    using relocate_node_dom [OF s(1)] enable_moves_dom [OF s(2)] rfold_dom [OF s(3) merge_move_dom]
      rfold_dom [OF s(4) merge_neighbor_dom] by (simp add: s(6) set_moves_def)
qed

lemma unfreeze_located: "unfreeze E v a = Inr a' \<Longrightarrow> v \<in> located a"
  by (auto simp: unfreeze_def rbind_eq_Inr located_def elim!: map_at.elims)

lemma alloc_inv_coalesce:
  assumes inv: "alloc_inv E g0 a" and ord: "order_ok E" and c: "coalesce E a = Inr a'"
  shows "alloc_inv E g0 a'"
proof -
  let ?g = "al_graph a" and ?mov = "hd (al_moves a M_ready)"
  have q: "quiet a" and gi: "graph_inv (needs E) ?g" using inv by (simp_all add: alloc_inv_def)
  obtain x y where xy: "x \<notin> merged ?g" "y \<notin> merged ?g" and c: "coalesce_pair E ?mov x y a = Inr a'"
    using c alias_merged [of ?g] gi unfolding coalesce_def Let_def graph_inv_def by (metis (full_types))
  have move: "alloc_inv E g0 b" "al_node_at b = al_node_at a" "al_graph b = ?g" if "relocate_move ?mov l a = Inr b" for l b
    using alloc_inv_step [OF inv relocate_move_ok [OF that quiet_wf [OF q]]] that
    by (auto simp: relocate_move_def Let_def rbind_eq_Inr)
  have unfreeze: "alloc_inv E g0 d" if "unfreeze E v b = Inr d" "alloc_inv E g0 b" "v \<notin> merged (al_graph b)" for v b d
    using alloc_inv_step [OF that(2) unfreeze_ok [OF that(1)]] that(2,3) by (simp add: alloc_inv_def)
  have kept: "merged (al_graph d) = merged (al_graph b)" if "unfreeze E v b = Inr d" "alloc_inv E g0 b" "v \<notin> merged (al_graph b)" for v b d
    using unfreeze_ok [OF that(1)] that(2,3) by (simp add: alloc_inv_def step_ok_def graph_same_def)
  consider (equal) b where "relocate_move ?mov M_coalesced a = Inr b" "unfreeze E x b = Inr a'"
    | (conflict) b d where "relocate_move ?mov M_constrained a = Inr b" "unfreeze E x b = Inr d" "unfreeze E y d = Inr a'"
    | (join) b d where "x \<noteq> y" "al_node_at a y \<noteq> Some N_precolored" "mergable ?g x y"
        "relocate_move ?mov M_coalesced a = Inr b" "merge E x y b = Inr d" "unfreeze E x d = Inr a'"
    | (later) "relocate_move ?mov M_scheduled a = Inr a'"
    using c by (auto simp: coalesce_pair_def rbind_eq_Inr split: if_splits)
  then show ?thesis
  proof cases
    case equal
    then show ?thesis using move [OF equal(1)] unfreeze xy by simp
  next
    case conflict
    note m = move [OF conflict(1)]
    have "alloc_inv E g0 d" "merged (al_graph d) = merged ?g"
      using unfreeze [OF conflict(2) m(1)] kept [OF conflict(2) m(1)] m(3) xy(1) by simp_all
    then show ?thesis using unfreeze [OF conflict(3)] xy(2) by simp
  next
    case join
    note m = move [OF join(4)]
    have al: "alias_key ?g x = x" "alias_key ?g y = y" using xy by (simp_all add: alias_self)
    have "y \<notin> edge_set ?g x"
      using join(1,3) al by (auto simp: mergable_def Let_def interferes_def graph_node_def)
    moreover have "precolor_of g0 y = None" using join(2) inv by (simp add: alloc_inv_def)
    moreover have "x \<in> set (ig_keys g0)"
      using unfreeze_located [OF join(6)] merge_dom [OF join(5)] m(2) inv by (simp add: alloc_inv_def located_def)
    ultimately have d: "alloc_inv E g0 d" "merged (al_graph d) = insert y (merged ?g)"
      using alloc_inv_merge [OF m(1) ord join(5)] xy join(1) m(3) by simp_all
    then show ?thesis using unfreeze [OF join(6) d(1)] xy(1) join(1) by simp
  next
    case later
    then show ?thesis using move by simp
  qed
qed

lemma alloc_inv_loop_step:
  assumes inv: "alloc_inv E g0 a" and ord: "order_ok E" and b: "busy a" and s: "colour_step E a = Inr a'"
  shows "alloc_inv E g0 a'"
proof -
  have q: "quiet a" using inv by (simp add: alloc_inv_def)
  consider "al_nodes a N_simplify \<noteq> []" "simplify E a = Inr a'"
    | "coalesce E a = Inr a'"
    | "al_nodes a N_freeze \<noteq> []" "freeze E a = Inr a'"
    | "al_nodes a N_to_spill \<noteq> []" "spill E a = Inr a'"
    using s b by (auto simp: colour_step_def busy_def split: if_splits)
  then show ?thesis
  proof cases
    case 2
    then show ?thesis using alloc_inv_coalesce [OF inv ord] by blast
  qed (use alloc_inv_step [OF inv] simplify_ok freeze_ok spill_ok q in blast)+
qed

text \<open>When the loop returns, the invariant holds and every list of open work is empty.\<close>

lemma colour_loop_inv:
  assumes "colour_loop E a = Some r"
  shows "order_ok E \<Longrightarrow> alloc_inv E g0 a \<Longrightarrow> r = Inr b \<Longrightarrow> alloc_inv E g0 b \<and> \<not> busy b"
proof (induction rule: colour_loop.raw_induct [OF _ assms])
  case (1 loop E a r)
  show ?case
  proof (cases "busy a")
    case True
    then obtain a' where s: "colour_step E a = Inr a'" "loop E a' = Some r"
      using 1(2,5) by (auto split: sum.splits)
    show ?thesis
      using 1(1) [OF s(2) 1(3)] alloc_inv_loop_step [OF 1(4,3) True s(1)] 1(5) by blast
  next
    case False
    then show ?thesis using 1 by auto
  qed
qed

end
