(* ===== verification/Ra_Build.thy ===== *)
theory Ra_Build
  imports Ra_Loop
begin

text \<open>
  The interference graph that \<open>build\<close> constructs: it is irreflexive, symmetric, over variables that
  need a register, without aliases, and a colour is pinned only to the variable of that register.
  These are the conditions under which the colouring starts. Every operation of the construction
  only adds nodes, edges, moves and priorities.
\<close>

section \<open>Where the colouring starts\<close>

definition graph_start :: "(lv_key \<Rightarrow> bool) \<Rightarrow> igraph \<Rightarrow> bool" where
  "graph_start need g \<longleftrightarrow>
     ig_alias g = [] \<and> distinct (ig_keys g) \<and> (\<forall>v\<in>set (ig_keys g). need v) \<and>
     (\<forall>u v. v \<in> edge_set g u \<longrightarrow> u \<noteq> v \<and> u \<in> edge_set g v \<and> v \<in> set (ig_keys g)) \<and>
     (\<forall>u v c. precolor_of g u = Some c \<longrightarrow> precolor_of g v = Some c \<longrightarrow> u = v) \<and>
     (\<forall>v c. precolor_of g v = Some c \<longrightarrow> c < max_color g)"

definition start_ok :: "colour_env \<Rightarrow> igraph \<Rightarrow> bool" where
  "start_ok E g \<longleftrightarrow> order_ok E \<and> graph_start (needs E) g"

section \<open>What the construction keeps\<close>

text \<open>\<open>pins\<close> gives the variable to which a colour may be pinned.\<close>

definition built :: "(lv_key \<Rightarrow> bool) \<Rightarrow> (nat \<rightharpoonup> lv_key) \<Rightarrow> igraph \<Rightarrow> bool" where
  "built need pins g \<longleftrightarrow>
     ig_alias g = [] \<and> distinct (ig_keys g) \<and> (\<forall>v\<in>set (ig_keys g). need v) \<and>
     (\<forall>u v. v \<in> edge_set g u \<longrightarrow> u \<noteq> v \<and> u \<in> edge_set g v \<and> v \<in> set (ig_keys g)) \<and>
     (\<forall>v c. v \<in> set (ig_keys g) \<longrightarrow> node_color (ig_nodes g v) = Some c \<longrightarrow> pins c = Some v) \<and>
     (\<forall>c\<in>dom pins. c < max_color g)"

definition wider :: "igraph \<Rightarrow> igraph \<Rightarrow> bool" where
  "wider g g' \<longleftrightarrow> max_color g' = max_color g \<and> set (ig_keys g) \<subseteq> set (ig_keys g') \<and> (\<forall>v\<in>set (ig_keys g). edge_set g v \<subseteq> edge_set g' v)"

definition extends :: "(lv_key \<Rightarrow> bool) \<Rightarrow> (nat \<rightharpoonup> lv_key) \<Rightarrow> igraph \<Rightarrow> igraph \<Rightarrow> bool" where
  "extends need pins g g' \<longleftrightarrow> built need pins g' \<and> wider g g'"

lemma built_start: "built need pins g \<Longrightarrow> graph_start need g"
  by (auto simp: built_def graph_start_def precolor_of_def split: if_splits)
    (metis option.inject)

lemma wider_trans: "wider g h \<Longrightarrow> wider h k \<Longrightarrow> wider g k"
  by (fastforce simp: wider_def)

lemma extends_refl: "built need pins g \<Longrightarrow> extends need pins g g"
  by (simp add: extends_def wider_def)

lemma extends_trans: "extends need pins g h \<Longrightarrow> extends need pins h k \<Longrightarrow> extends need pins g k"
  by (auto simp: extends_def intro: wider_trans)

lemma extends_built: "extends need pins g g' \<Longrightarrow> built need pins g'"
  by (simp add: extends_def)

lemma built_alias: "built need pins g \<Longrightarrow> alias_key g v = v"
  by (simp add: built_def alias_key_def)

lemma built_symmetric: "built need pins g \<Longrightarrow> v \<in> edge_set g u \<Longrightarrow> u \<in> edge_set g v"
  unfolding built_def by blast

lemma edge_keys: "built need pins g \<Longrightarrow> v \<in> edge_set g u \<Longrightarrow> u \<in> set (ig_keys g) \<and> v \<in> set (ig_keys g)"
  unfolding built_def by blast

lemma wider_edge: "wider g g' \<Longrightarrow> built need pins g \<Longrightarrow> v \<in> edge_set g u \<Longrightarrow> v \<in> edge_set g' u"
  using edge_keys [of need pins g v u] by (auto simp: wider_def)

lemma ensure_extends: "built need pins g \<Longrightarrow> need v \<Longrightarrow> extends need pins g (ensure v g)"
  by (auto simp: extends_def wider_def built_def ensure_def new_node_def)

lemma ensure_key [simp]: "v \<in> set (ig_keys (ensure v g))"
  by (simp add: ensure_def)

lemma ensure_keys: "u \<in> set (ig_keys g) \<Longrightarrow> u \<in> set (ig_keys (ensure v g))"
  by (simp add: ensure_def)

lemma add_prior_extends: "built need pins g \<Longrightarrow> extends need pins g (add_prior v p g)"
  by (simp add: extends_def wider_def built_def add_prior_def)

lemma count_use_extends: "built need pins g \<Longrightarrow> need v \<Longrightarrow> extends need pins g (count_use v p g)"
  unfolding count_use_def using ensure_extends add_prior_extends extends_built extends_trans by blast

lemma link_extends:
  assumes "built need pins g" "u \<in> set (ig_keys g)" "v \<in> set (ig_keys g)" "u \<noteq> v"
  shows "extends need pins g (add_adj v u (add_adj u v g))"
proof -
  let ?g = "add_adj v u (add_adj u v g)"
  have e: "edge_set ?g w = (if w = v then insert u (edge_set g v) else if w = u then insert v (edge_set g u) else edge_set g w)" for w
    using assms(4) by (simp add: add_adj_sel)
  show ?thesis
    using assms unfolding extends_def built_def wider_def by (auto simp: add_adj_sel(1-4) e)
qed

lemma add_move_sel:
  "ig_alias (add_move u v g) = ig_alias g" "ig_keys (add_move u v g) = ig_keys g"
  "max_color (add_move u v g) = max_color g" "edge_set (add_move u v g) w = edge_set g w"
  "node_color (ig_nodes (add_move u v g) w) = node_color (ig_nodes g w)"
  by (auto simp: add_move_def Let_def)

lemma add_move_extends: "built need pins g \<Longrightarrow> extends need pins g (add_move u v g)"
  unfolding extends_def built_def wider_def by (simp add: add_move_sel)

lemma interfere_extends:
  assumes b: "built need pins g"
  shows "extends need pins g (interfere need u v g)"
    and "need u \<Longrightarrow> need v \<Longrightarrow> u \<noteq> v \<Longrightarrow> v \<in> edge_set (interfere need u v g) u"
proof -
  note 1 = ensure_extends [OF b, of u]
  note 2 = ensure_extends [OF extends_built [OF 1], of v]
  let ?h = "ensure v (ensure u g)"
  have eq: "interfere need u v g = (if need u \<and> need v \<and> u \<noteq> v then add_adj v u (add_adj u v ?h) else g)"
    by (simp add: interfere_def built_alias [OF b] Let_def)
  show "need u \<Longrightarrow> need v \<Longrightarrow> u \<noteq> v \<Longrightarrow> v \<in> edge_set (interfere need u v g) u"
    by (simp add: eq add_adj_sel)
  show "extends need pins g (interfere need u v g)"
  proof (cases "need u \<and> need v \<and> u \<noteq> v")
    case True
    then have "extends need pins ?h (add_adj v u (add_adj u v ?h))"
      using link_extends [OF extends_built [OF 2], of u v] by (simp add: ensure_keys)
    then show ?thesis using True 1 2 eq by (auto intro: extends_trans)
  next
    case False
    then show ?thesis using extends_refl [OF b] eq by auto
  qed
qed

lemma graph_move_extends:
  assumes b: "built need pins g"
  shows "extends need pins g (graph_move need u v g)"
proof (cases "need u \<and> need v \<and> u \<noteq> v")
  case True
  note 1 = ensure_extends [OF b, of u]
  note 2 = ensure_extends [OF extends_built [OF 1], of v]
  note 3 = add_move_extends [OF extends_built [OF 2]]
  note 4 = add_move_extends [OF extends_built [OF 3]]
  show ?thesis
    using True extends_trans [OF extends_trans [OF 1 2] extends_trans [OF 3 4]]
    by (simp add: graph_move_def built_alias [OF b] Let_def)
next
  case False
  then show ?thesis using extends_refl [OF b] by (auto simp: graph_move_def built_alias [OF b] Let_def)
qed

lemma pin_extends:
  assumes b: "built need pins g" and v: "need v" "pins c = Some v"
  shows "extends need pins g (pin v c g)"
proof -
  have e: "extends need pins g (ensure v g)" using ensure_extends [OF b v(1)] .
  have "extends need pins (ensure v g) (pin v c g)"
    using extends_built [OF e] v unfolding pin_def built_alias [OF b] Let_def
    by (auto simp: extends_def wider_def built_def update_node_sel alias_key_def update_node_def)
  then show ?thesis using e by (rule extends_trans [rotated])
qed

text \<open>A sequence of extensions is an extension, and an edge that one of its members adds stays.\<close>

lemma fold_extends:
  assumes "built need pins g" "\<And>x g. x \<in> set xs \<Longrightarrow> built need pins g \<Longrightarrow> extends need pins g (f x g)"
  shows "extends need pins g (fold f xs g)"
  using assms
proof (induction xs arbitrary: g)
  case (Cons x xs)
  have 1: "extends need pins g (f x g)" using Cons.prems by simp
  have "extends need pins (f x g) (fold f xs (f x g))"
    using Cons.IH [OF extends_built [OF 1]] Cons.prems(2) by simp
  then show ?case using 1 by (auto intro: extends_trans)
qed (simp add: extends_refl)

lemma new_graph_built: "\<forall>c\<in>dom pins. c < k \<Longrightarrow> built need pins (new_graph k)"
  by (simp add: built_def new_graph_def new_node_def)

lemma connect_all_extends: "built need pins g \<Longrightarrow> extends need pins g (connect_all need g)"
  unfolding connect_all_def by (intro fold_extends interfere_extends(1))


lemma obind_eq_Inr: "obind m f = Some (Inr r) \<longleftrightarrow> (\<exists>x. m = Some (Inr x) \<and> f x = Some (Inr r))"
  by (auto simp: obind_def split: option.split sum.split)

section \<open>Both graphs\<close>

definition cls_graph :: "bool \<Rightarrow> graphs \<Rightarrow> igraph" where
  "cls_graph c gs = (if c then snd gs else fst gs)"

definition grow :: "build_env \<Rightarrow> graphs \<Rightarrow> graphs \<Rightarrow> bool" where
  "grow E gs gs' \<longleftrightarrow> (\<forall>c. extends (be_need E) (\<lambda>r. map_of (be_precolor E) (c, r)) (cls_graph c gs) (cls_graph c gs'))"

definition graphs_ok :: "build_env \<Rightarrow> graphs \<Rightarrow> bool" where
  "graphs_ok E gs \<longleftrightarrow> (\<forall>c. built (be_need E) (\<lambda>r. map_of (be_precolor E) (c, r)) (cls_graph c gs))"

lemma grow_refl: "graphs_ok E gs \<Longrightarrow> grow E gs gs"
  by (simp add: grow_def graphs_ok_def extends_refl)

lemma grow_trans: "grow E a b \<Longrightarrow> grow E b c \<Longrightarrow> grow E a c"
  unfolding grow_def by (blast intro: extends_trans)

lemma grow_ok: "grow E a b \<Longrightarrow> graphs_ok E b"
  unfolding grow_def graphs_ok_def by (blast intro: extends_built)

lemma grow_edge: "grow E gs gs' \<Longrightarrow> graphs_ok E gs \<Longrightarrow> v \<in> edge_set (cls_graph c gs) u \<Longrightarrow> v \<in> edge_set (cls_graph c gs') u"
  unfolding grow_def graphs_ok_def extends_def by (blast intro: wider_edge)

lemma cls_graph_of [simp]: "cls_graph c (graph_of fp v f gs) = (if fp v = c then f (cls_graph c gs) else cls_graph c gs)"
  by (auto simp: cls_graph_def graph_of_def)

lemma graph_of_grow:
  assumes "graphs_ok E gs" "\<And>pins g. built (be_need E) pins g \<Longrightarrow> extends (be_need E) pins g (f g)"
  shows "grow E gs (graph_of fp v f gs)"
  using assms by (simp add: grow_def graphs_ok_def extends_refl)

lemma grow_fold:
  assumes "graphs_ok E gs" "\<And>x gs. graphs_ok E gs \<Longrightarrow> grow E gs (f x gs)"
  shows "grow E gs (fold f xs gs)"
  using assms
proof (induction xs arbitrary: gs)
  case (Cons x xs)
  have 1: "grow E gs (f x gs)" using Cons.prems by blast
  then have "grow E (f x gs) (fold f xs (f x gs))" using Cons.IH [OF grow_ok] Cons.prems(2) by blast
  then show ?case using 1 by (auto intro: grow_trans)
qed (simp add: grow_refl)

lemma grow_rfold:
  assumes "rfold f xs gs = Inr gs'" "graphs_ok E gs"
    and "\<And>x gs gs'. graphs_ok E gs \<Longrightarrow> f x gs = Inr gs' \<Longrightarrow> grow E gs gs'"
  shows "grow E gs gs'"
  by (rule rfold_inv [OF assms(1), where P = "grow E gs"]) (use assms(2,3) grow_refl grow_trans grow_ok in blast)+

section \<open>One instruction\<close>

lemma interfere_grow: "graphs_ok E gs \<Longrightarrow> grow E gs (graph_of fp d (interfere (be_need E) u v) gs)"
  by (intro graph_of_grow interfere_extends(1))

lemma count_var_grow: "graphs_ok E gs \<Longrightarrow> grow E gs (count_var E v gs)"
proof -
  assume ok: "graphs_ok E gs"
  then show ?thesis by (auto simp: count_var_def intro: graph_of_grow grow_refl count_use_extends)
qed

lemma build_move_grow: "build_move E i gs = Inr gs' \<Longrightarrow> graphs_ok E gs \<Longrightarrow> grow E gs gs'"
  by (cases "(E, i, gs)" rule: build_move.cases)
    (auto intro!: graph_of_grow graph_move_extends grow_refl split: if_splits option.splits)

lemma live_priority_grow: "graphs_ok E gs \<Longrightarrow> grow E gs (live_priority E lives gs)"
  unfolding live_priority_def by (intro grow_fold graph_of_grow add_prior_extends)

lemma interfere_regs_grow: "interfere_regs E c l rs gs = Inr gs' \<Longrightarrow> graphs_ok E gs \<Longrightarrow> grow E gs gs'"
proof (induction E c l rs gs rule: interfere_regs.induct)
  case (2 E c l r rs gs)
  then obtain p where p: "proxy_at (be_precolor E) c r = Inr p"
      "interfere_regs E c l rs (graph_of (be_fp E) l (interfere (be_need E) l p) gs) = Inr gs'"
    by (auto simp: rbind_eq_Inr)
  have 1: "grow E gs (graph_of (be_fp E) l (interfere (be_need E) l p) gs)" using interfere_grow 2(3) .
  then show ?case using 2(1) [OF p grow_ok [OF 1]] by (rule grow_trans)
qed (simp add: grow_refl)

lemma cross_call_grow: "cross_call E lives gs = Inr gs' \<Longrightarrow> graphs_ok E gs \<Longrightarrow> grow E gs gs'"
  unfolding cross_call_def rbind_eq_Inr
proof (elim exE conjE)
  fix hs assume gs: "graphs_ok E gs"
    and 1: "rfold (\<lambda>l. interfere_regs E False l (caller_saved (generals (be_abi E)))) (be_order E (fst lives)) gs = Inr hs"
    and 2: "rfold (\<lambda>l. interfere_regs E True l (caller_saved (floats (be_abi E)))) (be_order E (snd lives)) hs = Inr gs'"
  have "grow E gs hs" using interfere_regs_grow by (rule grow_rfold [OF 1 gs])
  moreover from grow_ok [OF this] have "grow E hs gs'" using interfere_regs_grow by (intro grow_rfold [OF 2])
  ultimately show "grow E gs gs'" by (rule grow_trans)
qed

lemma interfere_defs_grow: "graphs_ok E gs \<Longrightarrow> grow E gs (interfere_defs E ds (gs, lives))"
  unfolding interfere_defs_def interfere_def_def prod.case by (intro grow_fold interfere_grow)

text \<open>Each definition meets each live variable of its class.\<close>

lemma interfere_fold_edge:
  assumes "graphs_ok E gs" "l \<in> set ls" "be_need E d" "be_need E l" "d \<noteq> l"
  shows "l \<in> edge_set (cls_graph (be_fp E d) (fold (\<lambda>l. graph_of (be_fp E) d (interfere (be_need E) d l)) ls gs)) d"
  using assms
proof (induction ls arbitrary: gs)
  case (Cons m ls)
  let ?f = "\<lambda>l. graph_of (be_fp E) d (interfere (be_need E) d l)"
  have ok: "graphs_ok E (?f m gs)" using interfere_grow grow_ok Cons.prems(1) by blast
  show ?case
  proof (cases "m = l")
    case True
    have "l \<in> edge_set (cls_graph (be_fp E d) (?f l gs)) d"
      using Cons.prems interfere_extends(2) by (simp add: graphs_ok_def) blast
    moreover have "grow E (?f l gs) (fold ?f ls (?f l gs))"
      using ok True by (intro grow_fold interfere_grow) simp_all
    ultimately show ?thesis using ok True grow_edge by simp
  next
    case False
    then show ?thesis using Cons ok by simp
  qed
qed simp

lemma interfere_defs_edge:
  assumes ok: "graphs_ok E gs" and d: "d \<in> set ds" and l: "l \<in> set (be_order E (lives_of (be_fp E) d lives))"
    and "be_need E d" "be_need E l" "d \<noteq> l"
  shows "l \<in> edge_set (cls_graph (be_fp E d) (interfere_defs E ds (gs, lives))) d"
  using ok d
proof (induction ds arbitrary: gs)
  case (Cons c ds)
  let ?f = "interfere_def E lives"
  have step: "grow E gs (?f c gs)" if "graphs_ok E gs" for gs c
    unfolding interfere_def_def using that by (intro grow_fold interfere_grow)
  have ok: "graphs_ok E (?f c gs)" using step grow_ok Cons.prems(1) by blast
  show ?case
  proof (cases "c = d")
    case True
    have "l \<in> edge_set (cls_graph (be_fp E d) (?f d gs)) d"
      using interfere_fold_edge [OF Cons.prems(1) l assms(4-6)] by (simp add: interfere_def_def)
    moreover have "grow E (?f d gs) (fold ?f ds (?f d gs))"
      using ok True by (intro grow_fold step) simp_all
    ultimately show ?thesis using ok True grow_edge by (simp add: interfere_defs_def)
  next
    case False
    then show ?thesis using Cons.IH [OF ok] Cons.prems(2) by (simp add: interfere_defs_def)
  qed
qed simp

section \<open>A block\<close>

text \<open>The environment: traversals are complete, and the table of precoloured variables is one of registers.\<close>

definition env_ok :: "build_env \<Rightarrow> bool" where
  "env_ok E \<longleftrightarrow>
     (\<forall>S. finite S \<longrightarrow> set (be_order E S) = S) \<and> distinct (map fst (be_precolor E)) \<and>
     (\<forall>((c, r), v)\<in>set (be_precolor E). be_need E v \<and>
        r < ra_size (if c then floats (be_abi E) else generals (be_abi E)))"

definition finite_lives :: "lv_key set \<times> lv_key set \<Rightarrow> bool" where
  "finite_lives lives \<longleftrightarrow> finite (fst lives) \<and> finite (snd lives)"

lemma lives_upd:
  "l \<in> lives_of fp l (upd_lives fp d f lives) \<longleftrightarrow>
     (if fp d = fp l then l \<in> f (lives_of fp l lives) else l \<in> lives_of fp l lives)"
  by (auto simp: lives_of_def upd_lives_def)

lemma lives_insert: "l \<in> lives_of fp l (fold (\<lambda>u. upd_lives fp u (insert u)) us lives) \<longleftrightarrow>
    l \<in> set us \<or> l \<in> lives_of fp l lives"
  by (induction us arbitrary: lives) (auto simp: lives_upd)

lemma lives_delete: "l \<in> lives_of fp l (fold (\<lambda>d. upd_lives fp d (\<lambda>s. s - {d})) ds lives) \<longleftrightarrow>
    l \<notin> set ds \<and> l \<in> lives_of fp l lives"
  by (induction ds arbitrary: lives) (auto simp: lives_upd)

lemma finite_lives_fold:
  assumes "finite_lives lives" "\<And>x S. finite S \<Longrightarrow> finite (f x S)"
  shows "finite_lives (fold (\<lambda>x. upd_lives fp x (f x)) xs lives)"
  using assms(1)
proof (induction xs arbitrary: lives)
  case (Cons x xs)
  have "finite_lives (upd_lives fp x (f x) lives)" using Cons.prems assms(2) by (simp add: finite_lives_def upd_lives_def)
  then show ?case using Cons.IH by simp
qed simp

text \<open>The variable that stands for the return address of a call counts as defined by it.\<close>

definition link_var :: "build_env \<Rightarrow> lv_key \<Rightarrow> bool" where
  "link_var E l \<longleftrightarrow> map_of (be_precolor E) (False, return_addr (be_abi E)) = Some l"

text \<open>
  A register is clobbered by a call if it is the one of the return address or caller-saved. \<open>writes\<close>: the
  instruction defines the variable, or it is a call that clobbers its register.
\<close>

definition caller_reg :: "build_env \<Rightarrow> lv_key \<Rightarrow> bool" where
  "caller_reg E d \<longleftrightarrow>
     (\<exists>r\<in>set (caller_saved (if be_fp E d then floats (be_abi E) else generals (be_abi E))).
        map_of (be_precolor E) (be_fp E d, r) = Some d)"

definition clobbered :: "build_env \<Rightarrow> lv_key \<Rightarrow> bool" where
  "clobbered E d \<longleftrightarrow> link_var E d \<or> caller_reg E d"

definition writes :: "build_env \<Rightarrow> inst \<Rightarrow> lv_key \<Rightarrow> bool" where
  "writes E i d \<longleftrightarrow> defines_key i d \<or> is_call i \<and> clobbered E d"

text \<open>Every live variable meets the caller-saved registers of its class at a call.\<close>

lemma interfere_regs_edge:
  assumes "interfere_regs E c l rs gs = Inr gs'" "graphs_ok E gs" "r \<in> set rs" "map_of (be_precolor E) (c, r) = Some d"
    and need: "be_need E l" "be_need E d" "d \<noteq> l"
  shows "d \<in> edge_set (cls_graph (be_fp E l) gs') l"
  using assms(1-3)
proof (induction rs arbitrary: gs)
  case (Cons q rs)
  let ?f = "\<lambda>p. graph_of (be_fp E) l (interfere (be_need E) l p) gs"
  obtain p where p: "proxy_at (be_precolor E) c q = Inr p" "interfere_regs E c l rs (?f p) = Inr gs'"
    using Cons.prems(1) by (auto simp: rbind_eq_Inr)
  have ok: "graphs_ok E (?f p)" using interfere_grow grow_ok Cons.prems(2) by blast
  show ?case
  proof (cases "q = r")
    case True
    then have "p = d" using p(1) assms(4) by (simp add: proxy_at_def)
    then have "d \<in> edge_set (cls_graph (be_fp E l) (?f p)) l"
      using Cons.prems(2) interfere_extends(2) [OF _ need(1,2)] need(3) by (simp add: graphs_ok_def) blast
    then show ?thesis using grow_edge [OF interfere_regs_grow [OF p(2) ok] ok] by blast
  next
    case False
    then show ?thesis using Cons.IH [OF p(2) ok] Cons.prems(3) by simp
  qed
qed simp

lemma interfere_lives_edge:
  assumes "rfold (\<lambda>l. interfere_regs E c l rs) ls gs = Inr gs'" "graphs_ok E gs" "l \<in> set ls"
    and reg: "r \<in> set rs" "map_of (be_precolor E) (c, r) = Some d" "be_need E l" "be_need E d" "d \<noteq> l"
  shows "d \<in> edge_set (cls_graph (be_fp E l) gs') l"
  using assms(1-3)
proof (induction ls arbitrary: gs)
  case (Cons m ls)
  obtain h where h: "interfere_regs E c m rs gs = Inr h" "rfold (\<lambda>l. interfere_regs E c l rs) ls h = Inr gs'"
    using Cons.prems(1) by (auto simp: rbind_eq_Inr)
  have ok: "graphs_ok E h" using interfere_regs_grow [OF h(1) Cons.prems(2)] grow_ok by blast
  show ?case
  proof (cases "m = l")
    case True
    then have "d \<in> edge_set (cls_graph (be_fp E l) h) l" using interfere_regs_edge [OF h(1)] Cons.prems(2) reg by blast
    moreover have "grow E h gs'" using interfere_regs_grow by (rule grow_rfold [OF h(2) ok])
    ultimately show ?thesis using grow_edge ok by blast
  next
    case False
    then show ?thesis using Cons.IH [OF h(2) ok] Cons.prems(3) by simp
  qed
qed simp

lemma cross_call_edge:
  assumes c: "cross_call E lives gs = Inr gs'" and ok: "graphs_ok E gs"
    and l: "l \<in> set (be_order E (lives_of (be_fp E) l lives))" "be_fp E d = be_fp E l" "caller_reg E d" "be_need E l" "be_need E d" "d \<noteq> l"
  shows "d \<in> edge_set (cls_graph (be_fp E l) gs') l"
proof -
  obtain hs where 1: "rfold (\<lambda>l. interfere_regs E False l (caller_saved (generals (be_abi E)))) (be_order E (fst lives)) gs = Inr hs"
    and 2: "rfold (\<lambda>l. interfere_regs E True l (caller_saved (floats (be_abi E)))) (be_order E (snd lives)) hs = Inr gs'"
    using c by (auto simp: cross_call_def rbind_eq_Inr)
  have g: "grow E gs hs" using interfere_regs_grow by (rule grow_rfold [OF 1 ok])
  have g2: "grow E hs gs'" using interfere_regs_grow by (rule grow_rfold [OF 2 grow_ok [OF g]])
  show ?thesis
  proof (cases "be_fp E l")
    case True
    then show ?thesis
      using interfere_lives_edge [OF 2 grow_ok [OF g], of l] l by (auto simp: lives_of_def caller_reg_def)
  next
    case False
    then show ?thesis
      using interfere_lives_edge [OF 1 ok, of l] l grow_edge [OF g2 grow_ok [OF g]] by (auto simp: lives_of_def caller_reg_def)
  qed
qed

lemma build_defs_set:
  "build_defs E i = Inr ds \<Longrightarrow> l \<in> set ds \<longleftrightarrow> defines_key i l \<or> is_call i \<and> link_var E l"
  by (cases "defined_var i") (auto simp: build_defs_def Let_def defines_key_def link_var_def proxy_at_def rbind_eq_Inr
    split: if_splits option.splits elim!: map_at.elims)

lemma build_inst_step:
  assumes s: "build_inst E i (gs, lives) = Inr (gs', lives')" and ok: "graphs_ok E gs" and fin: "finite_lives lives"
  shows "grow E gs gs'" and "finite_lives lives'"
    and "uses_key i l \<or> \<not> defines_key i l \<and> \<not> (is_call i \<and> link_var E l) \<and> l \<in> lives_of (be_fp E) l lives \<Longrightarrow>
      l \<in> lives_of (be_fp E) l lives'"
    and "env_ok E \<Longrightarrow> writes E i d \<Longrightarrow> l \<in> lives_of (be_fp E) l lives \<Longrightarrow> be_fp E d = be_fp E l \<Longrightarrow>
      be_need E d \<Longrightarrow> be_need E l \<Longrightarrow> d \<noteq> l \<Longrightarrow> l \<in> edge_set (cls_graph (be_fp E d) gs') d"
proof -
  define h where "h = fold (count_var E) (map key_of (vars i)) gs"
  obtain gs1 ds where 1: "build_move E i h = Inr gs1" and ds: "build_defs E i = Inr ds"
    and 3: "(if is_call i then cross_call E lives (live_priority E lives (interfere_defs E ds (gs1, lives)))
             else Inr (live_priority E lives (interfere_defs E ds (gs1, lives)))) = Inr gs'"
    and lives': "lives' = (let after = fold (\<lambda>d. upd_lives (be_fp E) d (\<lambda>s. s - {d})) ds lives in
       case i of Phi r args \<Rightarrow> after
               | _ \<Rightarrow> fold (\<lambda>u. upd_lives (be_fp E) u (insert u)) (map key_of (used_vars i)) after)"
    using s by (auto simp: build_inst_def h_def rbind_eq_Inr Let_def)
  have h: "grow E gs h" unfolding h_def by (intro grow_fold count_var_grow ok)
  then have g1: "grow E gs gs1" using build_move_grow [OF 1 grow_ok] grow_trans by blast
  let ?g2 = "interfere_defs E ds (gs1, lives)"
  have g2: "grow E gs1 ?g2" using interfere_defs_grow [OF grow_ok [OF g1]] .
  let ?p = "live_priority E lives ?g2"
  have p: "grow E ?g2 ?p" using live_priority_grow [OF grow_ok [OF g2]] .
  have "grow E ?p gs'"
    using 3 cross_call_grow [OF _ grow_ok [OF p], of lives gs'] grow_refl [OF grow_ok [OF p]] by (auto split: if_splits)
  then have g3: "grow E ?g2 gs'" using grow_trans [OF p] by blast
  show "grow E gs gs'" using grow_trans [OF g1 grow_trans [OF g2 g3]] .
  show "finite_lives lives'" unfolding lives' Let_def
    using finite_lives_fold [OF finite_lives_fold [OF fin]] finite_lives_fold [OF fin] by (cases i) simp_all
  show "l \<in> lives_of (be_fp E) l lives'"
    if "uses_key i l \<or> \<not> defines_key i l \<and> \<not> (is_call i \<and> link_var E l) \<and> l \<in> lives_of (be_fp E) l lives"
    using that build_defs_set [OF ds, of l]
    by (cases i) (auto simp: lives' Let_def lives_insert lives_delete uses_key_def)
  show "l \<in> edge_set (cls_graph (be_fp E d) gs') d"
    if e: "env_ok E" "writes E i d" "l \<in> lives_of (be_fp E) l lives" "be_fp E d = be_fp E l"
      "be_need E d" "be_need E l" "d \<noteq> l"
  proof -
    have "finite (lives_of (be_fp E) d lives)" using fin by (simp add: finite_lives_def lives_of_def)
    then have ls: "l \<in> set (be_order E (lives_of (be_fp E) d lives))"
      using e(1,3,4) by (simp add: env_ok_def) (simp add: lives_of_def)
    show ?thesis
    proof (cases "d \<in> set ds")
      case True
      then have "l \<in> edge_set (cls_graph (be_fp E d) ?g2) d"
        using interfere_defs_edge [OF grow_ok [OF g1] _ ls] e(5-7) by blast
      then show ?thesis using grow_edge [OF g3 grow_ok [OF g2]] by blast
    next
      case False
      then have "is_call i" "caller_reg E d"
        using build_defs_set [OF ds, of d] e(2) by (auto simp: writes_def clobbered_def)
      then have "d \<in> edge_set (cls_graph (be_fp E l) gs') l"
        using 3 cross_call_edge [OF _ grow_ok [OF p]] ls e(4-7) by (simp add: lives_of_def)
      moreover have "graphs_ok E gs'" using grow_ok [OF grow_trans [OF g1 grow_trans [OF g2 g3]]] .
      then have "built (be_need E) (\<lambda>r. map_of (be_precolor E) (be_fp E l, r)) (cls_graph (be_fp E l) gs')"
        unfolding graphs_ok_def by blast
      ultimately have "l \<in> edge_set (cls_graph (be_fp E l) gs') d" by (rule built_symmetric [rotated])
      then show ?thesis using e(4) by simp
    qed
  qed
qed


text \<open>What is live before the instructions \<open>is\<close> that end a block with exit \<open>e\<close> and live-out set \<open>L\<close>.\<close>

definition live_before :: "inst list \<Rightarrow> ir_exit option \<Rightarrow> lv_key set \<Rightarrow> lv_key \<Rightarrow> bool" where
  "live_before is e L l \<longleftrightarrow> exposed is e l \<or> \<not> killed is l \<and> l \<in> L"

lemma live_before_Cons:
  "live_before (i # is) e L l \<longleftrightarrow> uses_key i l \<or> \<not> defines_key i l \<and> live_before is e L l"
  by (auto simp: live_before_def killed_def)

text \<open>\<open>A\<close> holds of the variables that are live after a call, \<open>past_calls\<close> says so.\<close>

definition covers :: "build_env \<Rightarrow> (lv_key \<Rightarrow> bool) \<Rightarrow> (lv_key \<Rightarrow> bool) \<Rightarrow> lv_key set \<times> lv_key set \<Rightarrow> bool" where
  "covers E A P lives \<longleftrightarrow> (\<forall>l. be_need E l \<and> \<not> (link_var E l \<and> A l) \<and> P l \<longrightarrow> l \<in> lives_of (be_fp E) l lives)"

definition past_calls :: "(lv_key \<Rightarrow> bool) \<Rightarrow> inst list \<Rightarrow> ir_exit option \<Rightarrow> lv_key set \<Rightarrow> bool" where
  "past_calls A is e L \<longleftrightarrow>
     (\<forall>k<length is. is_call (is ! k) \<longrightarrow> (\<forall>l. live_before (drop (Suc k) is) e L l \<longrightarrow> A l))"

lemma past_calls_drop: "past_calls A is e L \<Longrightarrow> past_calls A (drop n is) e L"
  unfolding past_calls_def
proof (intro allI impI)
  fix k l
  assume past: "\<forall>k<length is. is_call (is ! k) \<longrightarrow> (\<forall>l. live_before (drop (Suc k) is) e L l \<longrightarrow> A l)"
    and k: "k < length (drop n is)" "is_call (drop n is ! k)" "live_before (drop (Suc k) (drop n is)) e L l"
  have n: "n + k < length is" using k(1) by simp
  moreover have "is_call (is ! (n + k))" using k(2) n by simp
  moreover have "live_before (drop (Suc (n + k)) is) e L l" using k(3) by (simp add: add.commute)
  ultimately show "A l" using past by blast
qed

lemma past_calls_Cons:
  assumes "past_calls A (i # is) e L"
  shows "past_calls A is e L \<and> (is_call i \<longrightarrow> (\<forall>l. live_before is e L l \<longrightarrow> A l))"
proof
  show "past_calls A is e L" using past_calls_drop [OF assms, of 1] by simp
  show "is_call i \<longrightarrow> (\<forall>l. live_before is e L l \<longrightarrow> A l)"
    using assms [unfolded past_calls_def, rule_format, of 0] by simp
qed

lemma walk_lives:
  assumes "rfold (build_inst E) (rev is) (gs, lives) = Inr (gs', lives')" "graphs_ok E gs" "finite_lives lives"
    and "covers E A (live_before [] e L) lives" "past_calls A is e L"
  shows "grow E gs gs' \<and> finite_lives lives' \<and> covers E A (live_before is e L) lives'"
  using assms(1,5)
proof (induction "is" arbitrary: gs' lives')
  case Nil
  then show ?case using assms grow_refl by simp
next
  case (Cons i "is")
  obtain h lv where h: "rfold (build_inst E) (rev is) (gs, lives) = Inr (h, lv)" "build_inst E i (h, lv) = Inr (gs', lives')"
    using Cons.prems by (auto simp: rfold_append rbind_eq_Inr)
  note past = past_calls_Cons [OF Cons.prems(2)]
  have ih: "grow E gs h" "finite_lives lv" "covers E A (live_before is e L) lv" using Cons.IH [OF h(1)] past by auto
  note s = build_inst_step [OF h(2) grow_ok [OF ih(1)] ih(2)]
  show ?case
    using s(2,3) grow_trans [OF ih(1) s(1)] ih(3) past unfolding covers_def live_before_Cons by blast
qed

lemma walk_grow:
  assumes "rfold (build_inst E) is (gs, lives) = Inr (gs', lives')" "graphs_ok E gs" "finite_lives lives"
  shows "grow E gs gs'"
  using assms
proof (induction "is" arbitrary: gs lives)
  case (Cons i "is")
  obtain h lv where h: "build_inst E i (gs, lives) = Inr (h, lv)" "rfold (build_inst E) is (h, lv) = Inr (gs', lives')"
    using Cons.prems(1) by (auto simp: rbind_eq_Inr)
  note s = build_inst_step(1,2) [OF h(1) Cons.prems(2,3)]
  show ?case using Cons.IH [OF h(2) grow_ok [OF s(1)] s(2)] s(1) by (blast intro: grow_trans)
qed (simp add: grow_refl)

lemma walk_edge:
  assumes r: "rfold (build_inst E) (rev is) (gs, lives) = Inr (gs', lives')" and ok: "graphs_ok E gs" "finite_lives lives"
    and base: "covers E A (live_before [] e L) lives" and env: "env_ok E" and past: "past_calls A is e L"
    and k: "k < length is" "writes E (is ! k) d" "live_before (drop (Suc k) is) e L l"
    and l: "be_fp E d = be_fp E l" "be_need E d" "be_need E l" "d \<noteq> l" "\<not> (link_var E l \<and> A l)"
  shows "l \<in> edge_set (cls_graph (be_fp E d) gs') d"
proof -
  have "rev is = rev (drop (Suc k) is) @ is ! k # rev (take k is)"
    using id_take_nth_drop [OF k(1)] by (metis append.assoc append_Cons append_Nil rev.simps(2) rev_append)
  then obtain h lv h2 lv2 where h: "rfold (build_inst E) (rev (drop (Suc k) is)) (gs, lives) = Inr (h, lv)"
      "build_inst E (is ! k) (h, lv) = Inr (h2, lv2)" "rfold (build_inst E) (rev (take k is)) (h2, lv2) = Inr (gs', lives')"
    using r by (auto simp: rfold_append rbind_eq_Inr)
  have w: "grow E gs h" "finite_lives lv" "covers E A (live_before (drop (Suc k) is) e L) lv"
    using walk_lives [OF h(1) ok base past_calls_drop [OF past]] by auto
  note s = build_inst_step [OF h(2) grow_ok [OF w(1)] w(2)]
  have "l \<in> lives_of (be_fp E) l lv" using w(3) k(3) l(3,5) by (simp add: covers_def)
  then have "l \<in> edge_set (cls_graph (be_fp E d) h2) d" using s(4) env k(2) l by blast
  moreover have "grow E h2 gs'"
    using walk_grow [OF h(3) grow_ok [OF s(1)] s(2)] .
  ultimately show ?thesis using grow_edge grow_ok [OF s(1)] by blast
qed

lemma build_block_ok:
  assumes b: "build_block E fn out b gs = Inr gs'" and ok: "graphs_ok E gs" and S: "out b = Some (Elems S)" "finite S"
    and past: "past_calls A (bk_insts (fn_blk fn b)) (bk_exit (fn_blk fn b)) S"
  shows "grow E gs gs'"
    and "env_ok E \<Longrightarrow> k < length (bk_insts (fn_blk fn b)) \<Longrightarrow> writes E (bk_insts (fn_blk fn b) ! k) d \<Longrightarrow>
      live_before (drop (Suc k) (bk_insts (fn_blk fn b))) (bk_exit (fn_blk fn b)) S l \<Longrightarrow>
      be_fp E d = be_fp E l \<Longrightarrow> be_need E d \<Longrightarrow> be_need E l \<Longrightarrow> d \<noteq> l \<Longrightarrow> \<not> (link_var E l \<and> A l) \<Longrightarrow>
      l \<in> edge_set (cls_graph (be_fp E d) gs') d"
proof -
  let ?is = "bk_insts (fn_blk fn b)"
  obtain e where e: "bk_exit (fn_blk fn b) = Some e"
    using b S by (auto simp: build_block_def rbind_eq_Inr get_exit_def split: option.splits)
  define use where "use = (case used_var_exit e of
     None \<Rightarrow> None | Some l \<Rightarrow> if be_need E (key_of l) then Some (key_of l) else None)"
  define T where "T = (case use of None \<Rightarrow> S | Some u \<Rightarrow> insert u S)"
  define h where "h = (case use of None \<Rightarrow> gs | Some u \<Rightarrow> graph_of (be_fp E) u (count_use u 1) gs)"
  obtain lv where r: "rfold (build_inst E) (rev ?is) (h, ({v \<in> T. \<not> be_fp E v}, {v \<in> T. be_fp E v})) = Inr (gs', lv)"
    using b S e by (auto simp: build_block_def rbind_eq_Inr get_exit_def T_def h_def use_def Let_def split: option.splits)
  have fin: "finite T" using S(2) by (auto simp: T_def split: option.split)
  have "use = Some u \<Longrightarrow> be_need E u" for u by (auto simp: use_def split: option.splits if_splits)
  then have gh: "grow E gs h"
    using ok by (auto simp: h_def intro: grow_refl graph_of_grow count_use_extends split: option.split)
  have fl: "finite_lives ({v \<in> T. \<not> be_fp E v}, {v \<in> T. be_fp E v})" using fin by (simp add: finite_lives_def)
  have base: "covers E A (live_before [] (Some e) S) ({v \<in> T. \<not> be_fp E v}, {v \<in> T. be_fp E v})"
    by (auto simp: covers_def live_before_def lives_of_def T_def use_def exit_uses_def split: option.split)
  show "grow E gs gs'" using walk_lives [OF r grow_ok [OF gh] fl base] past [unfolded e] grow_trans [OF gh] by blast
  show "l \<in> edge_set (cls_graph (be_fp E d) gs') d"
    if "env_ok E" "k < length ?is" "writes E (?is ! k) d" "live_before (drop (Suc k) ?is) (bk_exit (fn_blk fn b)) S l"
      "be_fp E d = be_fp E l" "be_need E d" "be_need E l" "d \<noteq> l" "\<not> (link_var E l \<and> A l)"
    using walk_edge [OF r grow_ok [OF gh] fl base that(1) _ that(2,3)] past that(4-9) e by simp
qed


section \<open>A program\<close>

text \<open>The condition under which the live variables are known.\<close>

definition func_ok :: "ir_func \<Rightarrow> bool" where
  "func_ok fn \<longleftrightarrow> distinct (fn_blocks fn) \<and> (\<forall>b\<in>set (fn_blocks fn). hasExit (fn_blk fn b)) \<and> targets_inside fn"

text \<open>
  \<open>clash E fn d l\<close>: somewhere in \<open>fn\<close> an instruction writes \<open>d\<close> while \<open>l\<close> is live after it.
  \<open>rivals E fn d l\<close>: two variables for registers of the same class; the return address is a rival
  only where it is not read after a call.
\<close>

definition block_clash :: "build_env \<Rightarrow> ir_func \<Rightarrow> block_id \<Rightarrow> lv_key \<Rightarrow> lv_key \<Rightarrow> bool" where
  "block_clash E fn b d l \<longleftrightarrow> (\<exists>k < length (bk_insts (fn_blk fn b)).
     writes E (bk_insts (fn_blk fn b) ! k) d \<and> live_at fn b (Suc k) l)"

definition clash :: "build_env \<Rightarrow> ir_func \<Rightarrow> lv_key \<Rightarrow> lv_key \<Rightarrow> bool" where
  "clash E fn d l \<longleftrightarrow> (\<exists>b\<in>set (fn_blocks fn). block_clash E fn b d l)"

definition after_call :: "ir_func \<Rightarrow> lv_key \<Rightarrow> bool" where
  "after_call fn l \<longleftrightarrow> (\<exists>b\<in>set (fn_blocks fn). \<exists>k < length (bk_insts (fn_blk fn b)).
     is_call (bk_insts (fn_blk fn b) ! k) \<and> live_at fn b (Suc k) l)"

definition rivals :: "build_env \<Rightarrow> ir_func \<Rightarrow> lv_key \<Rightarrow> lv_key \<Rightarrow> bool" where
  "rivals E fn d l \<longleftrightarrow> be_fp E d = be_fp E l \<and> be_need E d \<and> be_need E l \<and> d \<noteq> l \<and> \<not> (link_var E l \<and> after_call fn l)"

lemma past_calls_func:
  assumes "b \<in> set (fn_blocks fn)"
  shows "past_calls (after_call fn) (bk_insts (fn_blk fn b)) (bk_exit (fn_blk fn b)) {x. live_end fn b x}"
proof -
  have "live_at fn b (Suc k) l" if "k < length (bk_insts (fn_blk fn b))"
      "live_before (drop (Suc k) (bk_insts (fn_blk fn b))) (bk_exit (fn_blk fn b)) {x. live_end fn b x} l" for k l
    using that live_at_split [of "Suc k" fn b l] by (simp add: live_before_def)
  then show ?thesis using assms unfolding past_calls_def after_call_def by blast
qed

lemma build_block_clash:
  assumes b: "build_block E fn (lr_out r) b gs = Inr gs'" and ok: "graphs_ok E gs" and env: "env_ok E"
    and S: "lr_out r b = Some (Elems {x. live_end fn b x})" "finite {x. live_end fn b x}"
    and c: "b \<in> set (fn_blocks fn)" "block_clash E fn b d l" "rivals E fn d l"
  shows "l \<in> edge_set (cls_graph (be_fp E d) gs') d"
proof -
  obtain k where k: "k < length (bk_insts (fn_blk fn b))" "writes E (bk_insts (fn_blk fn b) ! k) d" "live_at fn b (Suc k) l"
    using c(2) unfolding block_clash_def by blast
  have "live_before (drop (Suc k) (bk_insts (fn_blk fn b))) (bk_exit (fn_blk fn b)) {x. live_end fn b x} l"
    using k(1,3) live_at_split [of "Suc k" fn b l] by (simp add: live_before_def)
  then show ?thesis using build_block_ok(2) [OF b ok S past_calls_func [OF c(1)] env k(1,2)] c(3) unfolding rivals_def by blast
qed

lemma build_blocks_grown:
  assumes "rfold (build_block E fn (lr_out r)) bs gs = Inr gs'" "graphs_ok E gs" "env_ok E"
    and "\<forall>b\<in>set bs. b \<in> set (fn_blocks fn) \<and> lr_out r b = Some (Elems {x. live_end fn b x}) \<and> finite {x. live_end fn b x}"
  shows "grow E gs gs'"
    and "b \<in> set bs \<Longrightarrow> block_clash E fn b d l \<Longrightarrow> rivals E fn d l \<Longrightarrow> l \<in> edge_set (cls_graph (be_fp E d) gs') d"
proof -
  have "grow E gs gs' \<and> (b \<in> set bs \<longrightarrow> block_clash E fn b d l \<longrightarrow> rivals E fn d l \<longrightarrow> l \<in> edge_set (cls_graph (be_fp E d) gs') d)"
    using assms
  proof (induction bs arbitrary: gs)
    case Nil
    then show ?case by (simp add: grow_refl)
  next
    case (Cons c bs)
    obtain h where h: "build_block E fn (lr_out r) c gs = Inr h" "rfold (build_block E fn (lr_out r)) bs h = Inr gs'"
      using Cons.prems(1) by (auto simp: rbind_eq_Inr)
    have c: "c \<in> set (fn_blocks fn)" using Cons.prems(4) by simp
    have S: "lr_out r c = Some (Elems {x. live_end fn c x})" "finite {x. live_end fn c x}" using Cons.prems(4) by auto
    have s: "grow E gs h" using build_block_ok(1) [OF h(1) Cons.prems(2) S past_calls_func [OF c]] .
    note ih = Cons.IH [OF h(2) grow_ok [OF s] Cons.prems(3)]
    have g: "grow E h gs'" using ih Cons.prems(4) by simp
    have "block_clash E fn c d l \<Longrightarrow> rivals E fn d l \<Longrightarrow> l \<in> edge_set (cls_graph (be_fp E d) gs') d"
      using build_block_clash [OF h(1) Cons.prems(2,3) S c] grow_edge [OF g grow_ok [OF s]] by blast
    then show ?case using ih Cons.prems(4) grow_trans [OF s g] by auto
  qed
  then show "grow E gs gs'"
    and "b \<in> set bs \<Longrightarrow> block_clash E fn b d l \<Longrightarrow> rivals E fn d l \<Longrightarrow> l \<in> edge_set (cls_graph (be_fp E d) gs') d" by blast+
qed

lemma build_funcs_grown:
  assumes "build_funcs E fns gs = Some (Inr gs')" "graphs_ok E gs" "env_ok E" "\<forall>fn\<in>set fns. func_ok fn"
  shows "grow E gs gs' \<and> (\<forall>fn\<in>set fns. \<forall>d l. clash E fn d l \<longrightarrow> rivals E fn d l \<longrightarrow> l \<in> edge_set (cls_graph (be_fp E d) gs') d)"
  using assms
proof (induction fns arbitrary: gs)
  case Nil
  then show ?case by (simp add: grow_refl)
next
  case (Cons fn fns)
  obtain live h where live: "liveness fn = Some (Inr live)" and h: "rfold (build_block E fn (lr_out live)) (fn_blocks fn) gs = Inr h"
    and rest: "build_funcs E fns h = Some (Inr gs')"
    using Cons.prems(1) by (auto simp: obind_eq_Inr)
  have out: "\<forall>b\<in>set (fn_blocks fn). b \<in> set (fn_blocks fn) \<and> lr_out live b = Some (Elems {x. live_end fn b x}) \<and> finite {x. live_end fn b x}"
    using Cons.prems(4) live liveness_sets [of fn] finite_live_end [of fn] by (auto simp: func_ok_def)
  note b = build_blocks_grown [OF h Cons.prems(2,3) out]
  have ok: "graphs_ok E h" using grow_ok [OF b(1)] .
  have ih: "grow E h gs'" "\<forall>fn\<in>set fns. \<forall>d l. clash E fn d l \<longrightarrow> rivals E fn d l \<longrightarrow> l \<in> edge_set (cls_graph (be_fp E d) gs') d"
    using Cons.IH [OF rest ok Cons.prems(3)] Cons.prems(4) by auto
  have "clash E fn d l \<Longrightarrow> rivals E fn d l \<Longrightarrow> l \<in> edge_set (cls_graph (be_fp E d) gs') d" for d l
    using b(2) grow_edge [OF ih(1) ok] unfolding clash_def by blast
  then show ?case using grow_trans [OF b(1) ih(1)] ih(2) by simp
qed

lemma reserve_regs_extends:
  assumes "reserve_regs E c v rs g = Inr g'" "built (be_need E) pins g"
  shows "extends (be_need E) pins g g'"
  using assms
proof (induction E c v rs g rule: reserve_regs.induct)
  case (2 E c v r rs g)
  then obtain p where p: "proxy_at (be_precolor E) c r = Inr p"
      "reserve_regs E c v rs (interfere (be_need E) v p g) = Inr g'"
    by (auto simp: rbind_eq_Inr)
  note 1 = interfere_extends(1) [OF 2(3), of v p]
  show ?case using extends_trans [OF 1 2(1) [OF p extends_built [OF 1]]] .
qed (simp add: extends_refl)

lemma reserve_extends:
  assumes "reserve E c abi g = Inr g'" "built (be_need E) pins g"
  shows "extends (be_need E) pins g g'"
  by (rule rfold_inv [OF assms(1) [unfolded reserve_def], where P = "extends (be_need E) pins g"])
    (use extends_refl [OF assms(2)] reserve_regs_extends extends_built extends_trans in blast)+

lemma from_precolored_ok: "env_ok E \<Longrightarrow> graphs_ok E (from_precolored (be_need E) (be_precolor E) (be_abi E))"
proof -
  assume env: "env_ok E"
  have "built (be_need E) (\<lambda>r. map_of (be_precolor E) (c, r))
      (connect_all (be_need E) (fold (\<lambda>((d, r), v) g. if d = c then pin v r g else g) (be_precolor E)
        (new_graph (ra_size (if c then floats (be_abi E) else generals (be_abi E))))))" (is "built ?need ?pins _") for c
  proof (rule extends_built [OF connect_all_extends [OF extends_built [OF fold_extends]]])
    show "built ?need ?pins (new_graph (ra_size (if c then floats (be_abi E) else generals (be_abi E))))"
      using env by (intro new_graph_built) (fastforce simp: env_ok_def dest: map_of_SomeD)
    fix x :: "(bool \<times> nat) \<times> lv_key" and g
    assume x: "x \<in> set (be_precolor E)" and g: "built ?need ?pins g"
    obtain d r v where xe: "x = ((d, r), v)" by (metis prod.exhaust)
    have "be_need E v" "map_of (be_precolor E) (d, r) = Some v"
      using env x by (auto simp: env_ok_def xe)
    then show "extends ?need ?pins g ((\<lambda>((d, r), v) g. if d = c then pin v r g else g) x g)"
      using g pin_extends [OF g] extends_refl [OF g] by (cases "d = c") (simp_all add: xe)
  qed
  from this [of True] this [of False] show ?thesis
    by (simp add: graphs_ok_def cls_graph_def from_precolored_def Let_def)
qed

lemma build_grown:
  assumes b: "build E fns = Some (Inr gs)" and env: "env_ok E" and fns: "\<forall>fn\<in>set fns. func_ok fn"
  shows "graphs_ok E gs"
    and "fn \<in> set fns \<Longrightarrow> clash E fn d l \<Longrightarrow> rivals E fn d l \<Longrightarrow> l \<in> edge_set (cls_graph (be_fp E d) gs) d"
proof -
  obtain hs g f where h: "build_funcs E fns (from_precolored (be_need E) (be_precolor E) (be_abi E)) = Some (Inr hs)"
    and g: "reserve E False (generals (be_abi E)) (fst hs) = Inr g" and f: "reserve E True (floats (be_abi E)) (snd hs) = Inr f"
    and gs: "gs = (g, f)"
    using b by (auto simp: build_def obind_eq_Inr rbind_eq_Inr)
  note k = build_funcs_grown [OF h from_precolored_ok [OF env] env fns]
  have ok: "graphs_ok E hs" using k grow_ok by blast
  have "built (be_need E) (\<lambda>r. map_of (be_precolor E) (False, r)) (fst hs)"
    "built (be_need E) (\<lambda>r. map_of (be_precolor E) (True, r)) (snd hs)"
    using ok unfolding graphs_ok_def cls_graph_def by (metis (full_types))+
  from reserve_extends [OF g this(1)] reserve_extends [OF f this(2)] have r: "grow E hs gs"
    by (simp add: grow_def gs cls_graph_def)
  show "graphs_ok E gs" using grow_ok [OF r] .
  show "l \<in> edge_set (cls_graph (be_fp E d) gs) d"
    if "fn \<in> set fns" "clash E fn d l" "rivals E fn d l"
    using k that grow_edge [OF r ok] by blast
qed

end
