(* ===== verification/Ra_Sound.thy ===== *)
theory Ra_Sound
  imports Ra_Build
begin

text \<open>
  The colouring is proper. When the allocator of \<open>Ra_Colour\<close> returns, two variables that interfere
  in the graph it was given never have the same colour, precoloured variables keep theirs, and every
  variable of the graph has a colour or is reported as spilled. The invariant of the loop is that of
  \<open>Ra_Loop\<close>; here it is established and carried through the assignment of colours.
\<close>

section \<open>Before the loop\<close>

lemma add_ready_fold:
  "al_nodes (fold (\<lambda>s. add_ready (v, s)) ss a) = al_nodes a"
  "al_node_at (fold (\<lambda>s. add_ready (v, s)) ss a) = al_node_at a"
  "al_graph (fold (\<lambda>s. add_ready (v, s)) ss a) = al_graph a"
  "al_colors (fold (\<lambda>s. add_ready (v, s)) ss a) = al_colors a"
  "al_spilled (fold (\<lambda>s. add_ready (v, s)) ss a) = al_spilled a"
  by (induction ss arbitrary: a) (simp_all add: add_ready_def)

definition started :: "igraph \<Rightarrow> lv_key set \<Rightarrow> allocator \<Rightarrow> bool" where
  "started g V a \<longleftrightarrow>
     wf_lists a \<and> al_graph a = g \<and> al_spilled a = [] \<and> (\<forall>l. l \<noteq> N_initial \<longrightarrow> l \<noteq> N_precolored \<longrightarrow> al_nodes a l = []) \<and>
     set (al_nodes a N_initial) = {v \<in> V. node_color (ig_nodes g v) = None} \<and>
     set (al_nodes a N_precolored) = {v \<in> V. node_color (ig_nodes g v) \<noteq> None} \<and>
     al_colors a = (\<lambda>v. if v \<in> V then node_color (ig_nodes g v) else None)"

lemma start_node_started:
  assumes "started g V a" "v \<notin> V"
  shows "started g (insert v V) (start_node E v a)"
proof -
  let ?l = "if node_color (ig_nodes g v) = None then N_initial else N_precolored"
  let ?b = "start_node E v a"
  have b: "al_nodes ?b = (al_nodes a)(?l := al_nodes a ?l @ [v])" "al_node_at ?b = (al_node_at a)(v \<mapsto> ?l)"
    "al_graph ?b = g" "al_spilled ?b = []"
    "al_colors ?b = (al_colors a)(v := node_color (ig_nodes g v))"
    using assms by (auto simp: start_node_def Let_def add_ready_fold place_node_def started_def fun_eq_iff split: option.split)
  have new: "v \<notin> set (al_nodes a l)" for l
    using assms by (cases "l = N_initial \<or> l = N_precolored") (auto simp: started_def)
  have wf: "wf_lists a" using assms(1) by (simp add: started_def)
  have none: "al_node_at a v = None"
    using new wf by (cases "al_node_at a v") (auto simp: wf_lists_def)
  have "wf_lists ?b"
    using wf new none unfolding wf_lists_def b(1,2) by auto
  then show ?thesis
    using assms unfolding started_def b by (auto simp: fun_eq_iff)
qed

lemma new_allocator_started:
  assumes "order_ok E" "distinct (ig_keys g)"
  shows "started g (set (ig_keys g)) (new_allocator E g)"
proof -
  have "started g (V \<union> set vs) (fold (start_node E) vs a)" if "started g V a" "distinct vs" "V \<inter> set vs = {}" for V vs a
    using that
  proof (induction vs arbitrary: V a)
    case (Cons v vs)
    then show ?case using Cons.IH [OF start_node_started [OF Cons.prems(1), of v E]] by auto
  qed simp
  from this [of "{}" _ "order E (set (ig_keys g))"] assms show ?thesis
    unfolding new_allocator_def by (auto simp: order_ok_def started_def wf_lists_def)
qed

text \<open>\<open>initialize\<close> moves every uncoloured node to a work list.\<close>

lemma initialize_steps:
  assumes "rfold (initialize_node E) vs a = Inr a'" and "wf_lists a" "set vs \<subseteq> set (al_nodes a N_initial)" "distinct vs"
  shows "step_ok (insert N_initial work) a a' \<and> set (al_nodes a' N_initial) = set (al_nodes a N_initial) - set vs"
  using assms
proof (induction vs arbitrary: a)
  case Nil
  then show ?case by (simp add: step_ok_refl)
next
  case (Cons v vs)
  obtain b where i: "initialize_node E v a = Inr b" "rfold (initialize_node E) vs b = Inr a'"
    using Cons.prems(1) by (auto simp: rbind_eq_Inr)
  have "\<exists>to. relocate_node v to a = Inr b \<and> to \<in> work"
    using i(1) by (auto simp: initialize_node_def rbind_eq_Inr work_def split: if_splits)
  then obtain to where b: "relocate_node v to a = Inr b" "to \<in> work" "rfold (initialize_node E) vs b = Inr a'"
    using i(2) by blast
  have v: "al_node_at a v = Some N_initial" using Cons.prems(2,3) by (simp add: wf_lists_def)
  note r = relocate_node_ok [OF b(1) Cons.prems(2) v]
  have 1: "step_ok (insert N_initial work) a b" using r(1) b(2) by (auto intro: step_ok_mono)
  have "u \<in> set (al_nodes b N_initial) \<longleftrightarrow> u \<in> set (al_nodes a N_initial) - {v}" for u
  proof -
    have "u \<in> set (al_nodes b N_initial) \<longleftrightarrow> al_node_at b u = Some N_initial"
      using step_ok_wf [OF 1] by (simp add: wf_lists_def)
    also have "\<dots> \<longleftrightarrow> al_node_at a u = Some N_initial \<and> u \<noteq> v"
      using r(2) b(2) by (auto simp: work_def)
    finally show ?thesis using Cons.prems(2) by (simp add: wf_lists_def)
  qed
  then have init: "set (al_nodes b N_initial) = set (al_nodes a N_initial) - {v}" by blast
  show ?case
    using Cons.IH [OF b(3) step_ok_wf [OF 1]] init Cons.prems(3,4) 1 by (auto intro: step_ok_trans)
qed

lemma initialize_inv:
  assumes ok: "start_ok E g" and i: "initialize E (new_allocator E g) = Inr a"
  shows "alloc_inv E g a"
proof -
  let ?n = "new_allocator E g"
  have st: "started g (set (ig_keys g)) ?n"
    using ok new_allocator_started [of E g] by (simp add: start_ok_def graph_start_def)
  have wf: "wf_lists ?n" using st by (simp add: started_def)
  note s = initialize_steps [OF i [unfolded initialize_def] wf order_refl]
  have d: "distinct (al_nodes ?n N_initial)" using wf by (simp add: wf_lists_def)
  have 1: "step_ok (insert N_initial work) ?n a" and none: "al_nodes a N_initial = []" using s [OF d] by auto
  have same: "graph_same g (al_graph a)" using 1 st by (simp add: step_ok_def started_def)
  have gi: "graph_inv (needs E) g" using ok by (simp add: start_ok_def graph_start_def graph_inv_def)
  have lists: "al_nodes a l = al_nodes ?n l" if "l \<notin> work" "l \<noteq> N_initial" for l
    using 1 that by (simp add: step_ok_def lists_same_def)
  have q: "quiet a" using step_ok_wf [OF 1] none lists st by (simp add: quiet_def work_def started_def)
  have at: "al_node_at a v = Some l \<longleftrightarrow> v \<in> set (al_nodes ?n l)" if "l \<notin> work" "l \<noteq> N_initial" for v l
    using quiet_wf [OF q] lists [OF that] by (simp add: wf_lists_def)
  have "dom (al_node_at ?n) = set (ig_keys g)"
  proof -
    have "v \<in> dom (al_node_at ?n) \<longleftrightarrow> v \<in> set (al_nodes ?n N_initial) \<union> set (al_nodes ?n N_precolored)" for v
    proof
      assume "v \<in> dom (al_node_at ?n)"
      then obtain l where "v \<in> set (al_nodes ?n l)" using wf by (auto simp: wf_lists_def)
      then show "v \<in> set (al_nodes ?n N_initial) \<union> set (al_nodes ?n N_precolored)"
        using st by (cases "l = N_initial \<or> l = N_precolored") (auto simp: started_def)
    next
      assume "v \<in> set (al_nodes ?n N_initial) \<union> set (al_nodes ?n N_precolored)"
      then show "v \<in> dom (al_node_at ?n)" using wf unfolding wf_lists_def by blast
    qed
    then have "dom (al_node_at ?n) = set (al_nodes ?n N_initial) \<union> set (al_nodes ?n N_precolored)" by blast
    also have "\<dots> = set (ig_keys g)" using st by (auto simp: started_def)
    finally show ?thesis .
  qed
  then have "dom (al_node_at a) = set (ig_keys g)" using 1 by (simp add: step_ok_def lists_same_def)
  moreover have "joined (al_graph a) u v" if "v \<in> edge_set g u" for u v
    using that ok joined_same [OF same] by (auto simp: joined_def start_ok_def graph_start_def alias_key_def)
  moreover have "al_colors a = precolor_of g" "al_spilled a = []"
    using 1 st by (auto simp: step_ok_def lists_same_def started_def precolor_of_def fun_eq_iff)
  moreover have "al_node_at a v = Some N_precolored \<longleftrightarrow> precolor_of g v \<noteq> None" for v
    using at [of N_precolored v] st by (auto simp: work_def started_def precolor_of_def)
  moreover have "al_node_at a v = Some N_coalesced \<longleftrightarrow> v \<in> merged (al_graph a)" for v
    using at [of N_coalesced v] st same ok by (simp add: work_def started_def start_ok_def graph_start_def graph_same_def)
  ultimately show ?thesis
    using q graph_inv_same [OF same gi] same unfolding alloc_inv_def by (simp add: graph_same_def)
qed

section \<open>Assigning colours\<close>

definition colouring_inv :: "igraph \<Rightarrow> igraph \<Rightarrow> lv_key set \<Rightarrow> allocator \<Rightarrow> bool" where
  "colouring_inv g0 g todo a \<longleftrightarrow>
     wf_lists a \<and> al_graph a = g \<and> al_spilled a = [] \<and> set (al_nodes a N_coalesced) = merged g \<and>
     set (al_nodes a N_select) = todo \<and>
     (\<forall>v c. al_colors a v = Some c \<longrightarrow> v \<notin> merged g \<and> v \<in> set (ig_keys g) \<and> c < max_color g) \<and>
     (\<forall>u v c. v \<in> edge_set g u \<longrightarrow> al_colors a u = Some c \<longrightarrow> al_colors a v \<noteq> Some c) \<and>
     (\<forall>v c. precolor_of g0 v = Some c \<longrightarrow> al_colors a v = Some c) \<and>
     (\<forall>v\<in>set (ig_keys g). v \<in> merged g \<or> al_colors a v \<noteq> None \<or> v \<in> set (al_nodes a N_spilled) \<or> v \<in> todo)"

lemma colouring_inv_proper:
  "colouring_inv g0 g todo a \<Longrightarrow> v \<in> edge_set g u \<Longrightarrow> al_colors a u = Some c \<Longrightarrow> al_colors a v \<noteq> Some c"
  unfolding colouring_inv_def by blast

lemma best_color_in: "best_color E b cs \<in> insert b (set cs)"
  by (induction E b cs rule: best_color.induct) auto

lemma move_color_in: "move_color E a ok n = Some c \<Longrightarrow> c \<in> set ok"
proof -
  have "fold (\<lambda>m best. case al_colors a (alias_key (al_graph a) m) of
                      None \<Rightarrow> best | Some c \<Rightarrow> if c \<in> set ok then Some c else best) ms x = Some c \<Longrightarrow>
    (\<And>c. x = Some c \<Longrightarrow> c \<in> set ok) \<Longrightarrow> c \<in> set ok" for ms x
    by (induction ms arbitrary: x) (auto split: option.splits if_splits)
  then show "move_color E a ok n = Some c \<Longrightarrow> c \<in> set ok" by (auto simp: move_color_def)
qed

lemma colouring_inv_step:
  assumes inv: "colouring_inv g0 g todo a" and gi: "graph_inv need g" and n: "n \<in> todo" "n \<notin> merged g" "n \<in> set (ig_keys g)"
    and new: "precolor_of g0 n = None" and s: "assign_color E n a = Inr a'"
  shows "colouring_inv g0 g (todo - {n}) a'"
proof -
  have wf: "wf_lists a" and g: "al_graph a = g" using inv by (simp_all add: colouring_inv_def)
  have at: "al_node_at a n = Some N_select" using inv n(1) by (simp add: colouring_inv_def wf_lists_def)
  have reloc: "wf_lists b \<and> al_graph b = al_graph c \<and> al_colors b = al_colors c \<and> al_spilled b = al_spilled c \<and>
      set (al_nodes b N_coalesced) = set (al_nodes c N_coalesced) \<and> set (al_nodes b N_select) = set (al_nodes c N_select) - {n} \<and>
      set (al_nodes b N_spilled) = set (al_nodes c N_spilled) \<union> (if l = N_spilled then {n} else {})"
    if "relocate_node n l c = Inr b" "wf_lists c" "al_node_at c n = Some N_select" "l \<in> {N_spilled, N_colored}" for b c l
  proof -
    note r = relocate_node_ok [OF that(1-3)]
    have w: "wf_lists b" using step_ok_wf [OF r(1)] .
    have "set (al_nodes b k) = {v. al_node_at b v = Some k}" "set (al_nodes c k) = {v. al_node_at c v = Some k}" for k
      using w that(2) by (auto simp: wf_lists_def)
    moreover have "al_graph b = al_graph c"
      using that(1) by (auto simp: relocate_node_def rbind_eq_Inr Let_def)
    ultimately show ?thesis
      using r that(3,4) w by (auto simp: step_ok_def lists_same_def)
  qed
  show ?thesis
  proof (cases "ok_colors a n")
    case Nil
    then have "relocate_node n N_spilled a = Inr a'" using s by (simp add: assign_color_def)
    from reloc [OF this wf at] show ?thesis using inv by (auto simp: colouring_inv_def)
  next
    case (Cons c cs)
    define best where "best = (case move_color E a (c # cs) n of Some b \<Rightarrow> b | None \<Rightarrow> best_color E c cs)"
    have "best \<in> set (ok_colors a n)"
      using best_color_in [of E c cs] move_color_in [of E a "c # cs" n] Cons
      by (auto simp: best_def split: option.split)
    then have free: "best < max_color g" "\<And>v. v \<in> edge_set g n \<Longrightarrow> v \<notin> merged g \<Longrightarrow> al_colors a v \<noteq> Some best"
      using alias_self n(2) by (auto simp: ok_colors_def node_of_def graph_node_def g)
    have sym: "v \<in> edge_set g u \<Longrightarrow> u \<in> edge_set g v \<and> u \<noteq> v" for u v using gi by (auto simp: graph_inv_def)
    let ?c = "a\<lparr>al_colors := (al_colors a)(n \<mapsto> best)\<rparr>"
    have "relocate_node n N_colored ?c = Inr a'" using s Cons by (simp add: assign_color_def Let_def best_def)
    moreover have "wf_lists ?c" "al_node_at ?c n = Some N_select" using wf at by (simp_all add: wf_lists_def)
    ultimately have r: "wf_lists a'" "al_graph a' = g" "al_colors a' = (al_colors a)(n \<mapsto> best)" "al_spilled a' = al_spilled a"
      "set (al_nodes a' N_coalesced) = set (al_nodes a N_coalesced)"
      "set (al_nodes a' N_select) = set (al_nodes a N_select) - {n}" "set (al_nodes a' N_spilled) = set (al_nodes a N_spilled)"
      using reloc [of N_colored ?c a'] g by simp_all
    have proper: "al_colors a w \<noteq> Some k" if "w \<in> edge_set g u" "al_colors a u = Some k" for u w k
      using inv that by (simp add: colouring_inv_def)
    have other: "al_colors a w \<noteq> Some best" if "w \<in> edge_set g n" for w
      using inv free(2) [OF that] by (auto simp: colouring_inv_def)
    have "al_colors a' w \<noteq> Some k" if e: "w \<in> edge_set g u" and k: "al_colors a' u = Some k" for u w k
      using proper [OF e] other [of u] other [of w] sym [OF e] e k by (auto simp: r(3) split: if_splits)
    moreover have "precolor_of g0 w = Some k \<longrightarrow> al_colors a' w = Some k" for w k
      using inv new by (auto simp: r(3) colouring_inv_def)
    moreover have "w \<notin> merged g \<and> w \<in> set (ig_keys g) \<and> k < max_color g" if "al_colors a' w = Some k" for w k
      using inv that free(1) n by (auto simp: r(3) colouring_inv_def split: if_splits)
    moreover have "w \<in> merged g \<or> al_colors a' w \<noteq> None \<or> w \<in> set (al_nodes a' N_spilled) \<or> w \<in> todo - {n}"
      if "w \<in> set (ig_keys g)" for w
      using inv that by (auto simp: r colouring_inv_def)
    ultimately show ?thesis
      using inv r unfolding colouring_inv_def by simp
  qed
qed

lemma assign_steps:
  assumes "rfold (assign_color E) ns a = Inr a'" "colouring_inv g0 g (set ns) a" "distinct ns" "graph_inv need g"
    and "\<forall>n\<in>set ns. n \<notin> merged g \<and> n \<in> set (ig_keys g) \<and> precolor_of g0 n = None"
  shows "colouring_inv g0 g {} a'"
  using assms
proof (induction ns arbitrary: a)
  case (Cons n ns)
  obtain b where b: "assign_color E n a = Inr b" "rfold (assign_color E) ns b = Inr a'"
    using Cons.prems(1) by (auto simp: rbind_eq_Inr)
  have "colouring_inv g0 g (set (n # ns) - {n}) b"
    using Cons.prems(5) by (intro colouring_inv_step [OF Cons.prems(2,4) _ _ _ _ b(1)]) auto
  moreover have "set (n # ns) - {n} = set ns" using Cons.prems(3) by auto
  ultimately show ?case using Cons.IH [OF b(2) _ _ Cons.prems(4)] Cons.prems(3,5) by auto
qed simp

lemma color_coalesced_fold:
  assumes "\<forall>n. alias_key (al_graph a) n \<notin> M" "set ns \<subseteq> M"
  shows "fold color_coalesced ns a =
    a\<lparr>al_colors := (\<lambda>v. if v \<in> set ns \<and> al_colors a (alias_key (al_graph a) v) \<noteq> None
                      then al_colors a (alias_key (al_graph a) v) else al_colors a v),
      al_spilled := al_spilled a @ [n \<leftarrow> ns. al_colors a (alias_key (al_graph a) n) = None]\<rparr>"
  using assms
proof (induction ns arbitrary: a)
  case (Cons n ns)
  let ?b = "color_coalesced n a"
  have g: "al_graph ?b = al_graph a" by (simp add: color_coalesced_def split: option.split)
  have c: "al_colors ?b (alias_key (al_graph a) v) = al_colors a (alias_key (al_graph a) v)" for v
    using Cons.prems by (auto simp: color_coalesced_def split: option.split)
  note ih = Cons.IH [of ?b, unfolded g c, OF Cons.prems(1)]
  show ?case
    using ih Cons.prems(2)
    by (cases "al_colors a (alias_key (al_graph a) n)") (auto simp: color_coalesced_def fun_eq_iff)
qed simp

section \<open>The result\<close>

lemma loop_end_inv:
  assumes ok: "start_ok E g0" and inv: "alloc_inv E g0 b" and idle: "\<not> busy b"
  shows "colouring_inv g0 (al_graph b) (set (al_nodes b N_select)) b"
proof -
  let ?g = "al_graph b"
  have q: "quiet b" using inv by (simp add: alloc_inv_def)
  have at: "v \<in> set (al_nodes b l) \<longleftrightarrow> al_node_at b v = Some l" for v l using quiet_wf [OF q] by (simp add: wf_lists_def)
  have col: "al_colors b = precolor_of g0" using inv by (simp add: alloc_inv_def)
  have pre: "v \<notin> merged ?g \<and> v \<in> set (ig_keys ?g) \<and> k < max_color ?g" if "al_colors b v = Some k" for v k
  proof -
    have "al_node_at b v = Some N_precolored" using inv that col by (simp add: alloc_inv_def)
    moreover have "al_node_at b v = Some N_coalesced \<longleftrightarrow> v \<in> merged ?g" using inv by (simp add: alloc_inv_def)
    moreover have "v \<in> set (ig_keys g0)" using that col by (auto simp: precolor_of_def split: if_splits)
    moreover have "k < max_color g0" using ok that col by (simp add: start_ok_def graph_start_def)
    ultimately show ?thesis using inv by (auto simp: alloc_inv_def)
  qed
  have proper: "al_colors b w \<noteq> Some k" if "w \<in> edge_set ?g u" "al_colors b u = Some k" for u w k
  proof
    assume "al_colors b w = Some k"
    then have "u = w" using ok that(2) unfolding start_ok_def graph_start_def col by blast
    then show False using inv that(1) by (auto simp: alloc_inv_def graph_inv_def)
  qed
  have all: "v \<in> merged ?g \<or> al_colors b v \<noteq> None \<or> v \<in> set (al_nodes b N_spilled) \<or> v \<in> set (al_nodes b N_select)" if "v \<in> set (ig_keys ?g)" for v
  proof -
    have "v \<in> dom (al_node_at b)" using inv that by (simp add: alloc_inv_def)
    then obtain l where l: "al_node_at b v = Some l" by auto
    then consider "l = N_coalesced" | "l = N_precolored" | "l \<in> work" using quiet_at [OF q l] by blast
    then show ?thesis
    proof cases
      case 3
      have "al_nodes b l \<noteq> []" using l at by force
      then have "l = N_select" using idle 3 by (auto simp: work_def busy_def)
      then show ?thesis using l at by simp
    qed (use inv l col in \<open>auto simp: alloc_inv_def\<close>)
  qed
  have "set (al_nodes b N_coalesced) = merged ?g" using at inv by (auto simp: alloc_inv_def)
  moreover have "al_spilled b = []" using inv by (simp add: alloc_inv_def)
  ultimately show ?thesis
    unfolding colouring_inv_def
    by (intro conjI allI impI ballI)
      ((rule all, assumption) | simp add: quiet_wf [OF q] col pre [unfolded col] proper [unfolded col])+
qed

lemma colorize_end:
  assumes ok: "start_ok E g0" and r: "colorize E g0 = Some (Inr r)"
  obtains b c where "alloc_inv E g0 b" "colouring_inv g0 (al_graph b) {} c"
    "cr_colors r = (\<lambda>v. al_colors c (alias_key (al_graph b) v))"
    "set (cr_spilled r) = {v \<in> merged (al_graph b). cr_colors r v = None} \<union> set (al_nodes c N_spilled)"
proof -
  obtain a b c where steps: "initialize E (new_allocator E g0) = Inr a" "colour_loop E a = Some (Inr b)"
      "rfold (assign_color E) (rev (al_nodes b N_select)) b = Inr c"
    and res: "r = \<lparr>cr_spilled = al_spilled (fold color_coalesced (al_nodes c N_coalesced) c) @
                     al_nodes (fold color_coalesced (al_nodes c N_coalesced) c) N_spilled,
                   cr_colors = al_colors (fold color_coalesced (al_nodes c N_coalesced) c)\<rparr>"
    using r unfolding colorize_def assign_colors_def by (auto simp: obind_eq_Inr rbind_eq_Inr)
  have ord: "order_ok E" using ok by (simp add: start_ok_def graph_start_def)
  have inv: "alloc_inv E g0 b" and idle: "\<not> busy b"
    using colour_loop_inv [OF steps(2) ord initialize_inv [OF ok steps(1)]] by auto
  let ?g = "al_graph b"
  have q: "quiet b" and gi: "graph_inv (needs E) ?g" using inv by (simp_all add: alloc_inv_def)
  have sel: "n \<notin> merged ?g \<and> n \<in> set (ig_keys ?g) \<and> precolor_of g0 n = None" if "n \<in> set (al_nodes b N_select)" for n
  proof -
    have "al_node_at b n = Some N_select" using that quiet_wf [OF q] by (simp add: wf_lists_def)
    then have "n \<in> dom (al_node_at b)" "al_node_at b n \<noteq> Some N_coalesced" "al_node_at b n \<noteq> Some N_precolored" by auto
    then show ?thesis using inv unfolding alloc_inv_def by auto
  qed
  have c: "colouring_inv g0 ?g {} c"
    using assign_steps [OF steps(3), of g0 ?g "needs E"] loop_end_inv [OF ok inv idle] sel gi quiet_wf [OF q]
    by (simp add: wf_lists_def)
  let ?f = "fold color_coalesced (al_nodes c N_coalesced) c"
  have co: "set (al_nodes c N_coalesced) = merged ?g" "al_graph c = ?g" "al_spilled c = []" using c by (simp_all add: colouring_inv_def)
  have rep: "alias_key ?g v \<notin> merged ?g" for v using gi by (simp add: alias_merged graph_inv_def)
  note f = color_coalesced_fold [of c "merged ?g" "al_nodes c N_coalesced", unfolded co, OF _ order_refl]
  have un: "al_colors c v = None" if "v \<in> merged ?g" for v
    using c that by (cases "al_colors c v") (auto simp: colouring_inv_def)
  have "cr_colors r v = al_colors c (alias_key ?g v)" for v
    using f rep un [of v] alias_self [of v ?g] by (cases "v \<in> merged ?g") (auto simp: res)
  moreover from this have "set (cr_spilled r) = {v \<in> merged ?g. cr_colors r v = None} \<union> set (al_nodes c N_spilled)"
    using f rep by (auto simp: res co)
  ultimately show ?thesis using that [OF inv c] by auto
qed

text \<open>With enough fuel for the loop the same is computed step by step.\<close>

fun colour_steps :: "nat \<Rightarrow> colour_env \<Rightarrow> allocator \<Rightarrow> allocator result option" where
  "colour_steps 0 E a = None"
| "colour_steps (Suc n) E a =
     (if busy a
        then (case colour_step E a of Inl e \<Rightarrow> Some (Inl e) | Inr a' \<Rightarrow> colour_steps n E a')
      else Some (Inr a))"

lemma colour_steps_loop: "colour_steps n E a = Some r \<Longrightarrow> colour_loop E a = Some r"
proof (induction n arbitrary: a)
  case (Suc n)
  then show ?case by (subst colour_loop.simps) (auto split: if_splits sum.splits)
qed simp

section \<open>A program for two registers\<close>

text \<open>
  \<open>a = 5; b = 6; c = a + b; d = c; return d\<close>: \<open>a\<close> is live where \<open>b\<close> is defined, and the move lets \<open>c\<close>
  and \<open>d\<close> share a register.
\<close>

definition two_live_fn :: ir_func where
  "two_live_fn =
     (let int = Prim Int32; a = TempValue int 0 7; b = TempValue int 1 7; c = TempValue int 2 7; d = TempValue int 3 7 in
     \<lparr>fn_id = 7, fn_name = ''f'', fn_ret = int, fn_params = [], fn_locals = [], fn_blocks = [0],
      fn_blk = (\<lambda>x. \<lparr>bk_label = ''l0'',
          bk_insts = [Unary Op_MOV (Some a) (Const (Constexpr int (V_int 5))),
            Unary Op_MOV (Some b) (Const (Constexpr int (V_int 6))),
            Binary Op_ADD (Some c) (Left a) (Left b),
            Unary Op_MOV (Some d) (Left c)],
          bk_exit = Some (ReturnExit (Left d))\<rparr>),
      fn_temps = [(int, 1), (int, 1), (int, 1), (int, 1)], fn_loops = []\<rparr>)"

definition two_reg_abi :: target_abi where
  "two_reg_abi =
     (let regs = \<lparr>ra_size = 2, caller_saved = [0], callee_saved = [1], reserved = [], parameters = [0], return_value = 0\<rparr>
      in \<lparr>generals = regs, floats = regs, return_addr = 1, stack_alignment = 16\<rparr>)"

definition two_reg_env :: build_env where
  "two_reg_env =
     \<lparr>be_need = (\<lambda>v. True), be_fp = (\<lambda>v. False), be_order = key_order,
      be_precolor = [((False, 0), K_named (Def_alloc 0)), ((False, 1), K_named (Def_alloc 1))],
      be_abi = two_reg_abi\<rparr>"

definition two_reg_colours :: colour_env where
  "two_reg_colours =
     \<lparr>order = key_order, needs = (\<lambda>v. True), priority = (\<lambda>c. 0),
      cheaper = (\<lambda>(p, d) (q, e). p < q)\<rparr>"

lemma two_reg_ok: "env_ok two_reg_env" "order_ok two_reg_colours" "func_ok two_live_fn"
  "needs two_reg_colours = be_need two_reg_env"
  by (auto simp: env_ok_def two_reg_env_def two_reg_abi_def Let_def key_order_ok order_ok_def two_reg_colours_def
    func_ok_def two_live_fn_def hasExit_def exit_succs_def block_targets_def)

definition two_live_built :: "graphs result" where
  "two_live_built =
     (let E = two_reg_env in
      rbind (rfold (build_block E two_live_fn [0 \<mapsto> Elems {}]) [0] (from_precolored (be_need E) (be_precolor E) (be_abi E)))
        (\<lambda>gs. rbind (reserve E False (generals (be_abi E)) (fst gs)) (\<lambda>g.
              rbind (reserve E True (floats (be_abi E)) (snd gs)) (\<lambda>f. Inr (g, f)))))"

lemma two_live_build: "build two_reg_env [two_live_fn] = Some two_live_built"
proof -
  have blocks: "fn_blocks two_live_fn = [0]" by (simp add: two_live_fn_def Let_def)
  have "\<not> live_end two_live_fn 0 x" for x
    by (auto simp: live_end_iff cfg_succ_def two_live_fn_def Let_def exit_succs_def block_targets_def)
  then obtain live where "liveness two_live_fn = Some (Inr live)" "lr_out live 0 = Some (Elems {})"
    using liveness_sets [of two_live_fn] two_reg_ok(3) blocks by (auto simp: func_ok_def)
  moreover from this(2) have "build_block two_reg_env two_live_fn (lr_out live) 0 gs =
      build_block two_reg_env two_live_fn [0 \<mapsto> Elems {}] 0 gs" for gs
    by (simp add: build_block_def)
  ultimately show ?thesis
    unfolding build_def build_funcs.simps two_live_built_def Let_def
    by (cases "build_block two_reg_env two_live_fn [0 \<mapsto> Elems {}] 0
        (from_precolored (be_need two_reg_env) (be_precolor two_reg_env) (be_abi two_reg_env))")
      (simp_all add: blocks)
qed

lemma rbind_case [code_unfold]: "rbind m f = (case m of Inl e \<Rightarrow> Inl e | Inr x \<Rightarrow> f x)"
  by (cases m) simp_all

lemma let_case [code_unfold]: "Let s f = (case Inr s of Inl u \<Rightarrow> f u | Inr x \<Rightarrow> f x)"
  by simp

definition two_live_expected :: "(lv_key \<rightharpoonup> nat) \<Rightarrow> bool" where
  "two_live_expected col \<longleftrightarrow> col (K_temp 7 0) = Some 1 \<and> col (K_temp 7 1) = Some 0 \<and>
     col (K_temp 7 2) = Some 0 \<and> col (K_temp 7 3) = Some 0"

definition two_live_colours :: "graphs \<Rightarrow> (allocator \<Rightarrow> bool) \<Rightarrow> bool" where
  "two_live_colours gs P =
     (case initialize two_reg_colours (new_allocator two_reg_colours (fst gs)) of
        Inl e \<Rightarrow> False
      | Inr a \<Rightarrow> (case colour_steps 20 two_reg_colours a of
          Some (Inr b) \<Rightarrow> (case assign_colors two_reg_colours b of Inl e \<Rightarrow> False | Inr c \<Rightarrow> P c)
        | _ \<Rightarrow> False))"

lemma two_live_run:
  "case two_live_built of Inl e \<Rightarrow> False | Inr gs \<Rightarrow>
     edge_set (fst gs) (K_temp 7 1) = {K_temp 7 0} \<and> K_temp 7 3 \<in> set (ig_keys (fst gs)) \<and>
     two_live_colours gs (\<lambda>c. two_live_expected (al_colors c))"
  by code_simp

lemma two_live_first:
  "case two_live_built of Inl e \<Rightarrow> False | Inr gs \<Rightarrow>
     (case initialize two_reg_colours (new_allocator two_reg_colours (fst gs)) of
        Inl e \<Rightarrow> False
      | Inr a \<Rightarrow> busy a \<and> (case colour_step two_reg_colours a of Inl e \<Rightarrow> False | Inr a' \<Rightarrow> True))"
  by code_simp

lemma two_live_colorize:
  obtains gs r where "build two_reg_env [two_live_fn] = Some (Inr gs)" "edge_set (fst gs) (K_temp 7 1) = {K_temp 7 0}"
    "K_temp 7 3 \<in> set (ig_keys (fst gs))" "start_ok two_reg_colours (fst gs)"
    "colorize two_reg_colours (fst gs) = Some (Inr r)" "two_live_expected (cr_colors r)"
proof -
  obtain gs where gs: "two_live_built = Inr gs" "edge_set (fst gs) (K_temp 7 1) = {K_temp 7 0}"
      "K_temp 7 3 \<in> set (ig_keys (fst gs))"
      "two_live_colours gs (\<lambda>c. two_live_expected (al_colors c))"
    using two_live_run by (auto split: sum.splits)
  have b: "build two_reg_env [two_live_fn] = Some (Inr gs)" using two_live_build gs(1) by simp
  have "graphs_ok two_reg_env gs" using build_grown(1) [OF b] two_reg_ok by simp
  then have "graph_start (\<lambda>v. True) (cls_graph False gs)"
    using built_start by (fastforce simp: graphs_ok_def two_reg_env_def)
  then have "start_ok two_reg_colours (fst gs)"
    using two_reg_ok(2) by (simp add: start_ok_def cls_graph_def two_reg_colours_def)
  moreover obtain a bb c where "initialize two_reg_colours (new_allocator two_reg_colours (fst gs)) = Inr a"
      "colour_steps 20 two_reg_colours a = Some (Inr bb)" "assign_colors two_reg_colours bb = Inr c"
      "two_live_expected (al_colors c)"
    using gs(4) unfolding two_live_colours_def by (auto split: sum.split_asm option.split_asm) (metis sum.exhaust)
  moreover from this(1-3) have "colorize two_reg_colours (fst gs) = Some (Inr \<lparr>cr_spilled = al_spilled c @ al_nodes c N_spilled, cr_colors = al_colors c\<rparr>)"
    using colour_steps_loop [of 20 two_reg_colours a "Inr bb"] by (simp add: colorize_def)
  ultimately show ?thesis using that b gs(2,3) by fastforce
qed

section \<open>The colouring is proper and complete\<close>

lemma colorize_separate:
  assumes "start_ok E g" "colorize E g = Some (Inr r)" "v \<in> edge_set g u" "cr_colors r u = Some k"
  shows "cr_colors r v \<noteq> Some k"
proof -
  obtain b c where b: "alloc_inv E g b" and c: "colouring_inv g (al_graph b) {} c"
    and col: "cr_colors r = (\<lambda>v. al_colors c (alias_key (al_graph b) v))"
    and "set (cr_spilled r) = {v \<in> merged (al_graph b). cr_colors r v = None} \<union> set (al_nodes c N_spilled)"
    by (rule colorize_end [OF assms(1,2)])
  have "joined (al_graph b) u v" using b assms(3) unfolding alloc_inv_def by blast
  then have "alias_key (al_graph b) v \<in> edge_set (al_graph b) (alias_key (al_graph b) u)" by (simp add: joined_def)
  then show ?thesis using colouring_inv_proper [OF c] assms(4) unfolding col by blast
qed

text \<open>
  C3: the colouring is proper: when the Chaitin-Briggs allocator returns, two variables that
  interfere in the graph it was given have different colours, merged and precoloured variables
  included.
\<close>

theorem colorize_proper:
  assumes "start_ok E g" "colorize E g = Some (Inr r)" "v \<in> edge_set g u" "cr_colors r u = Some k"
  shows "cr_colors r v \<noteq> Some k"
  using colorize_separate [OF assms] .

lemma colorize_proper_witness:
  "\<exists>g r. colorize two_reg_colours g = Some (Inr r) \<and> cr_colors r (K_temp 7 1) = Some 0 \<and> cr_colors r (K_temp 7 0) \<noteq> Some 0"
proof -
  obtain gs r where b: "build two_reg_env [two_live_fn] = Some (Inr gs)" and e: "edge_set (fst gs) (K_temp 7 1) = {K_temp 7 0}"
    and k: "K_temp 7 3 \<in> set (ig_keys (fst gs))" and ok: "start_ok two_reg_colours (fst gs)"
    and r: "colorize two_reg_colours (fst gs) = Some (Inr r)" and col: "two_live_expected (cr_colors r)"
    by (rule two_live_colorize)
  have "cr_colors r (K_temp 7 1) = Some 0" using col by (simp add: two_live_expected_def)
  then show ?thesis using colorize_proper [OF ok r, of "K_temp 7 0" "K_temp 7 1" 0] e r by blast
qed

definition colour_or_spill :: "igraph \<Rightarrow> colour_result \<Rightarrow> lv_key \<Rightarrow> bool" where
  "colour_or_spill g r v \<longleftrightarrow>
     (case node_color (ig_nodes g v) of
        Some k \<Rightarrow> cr_colors r v = Some k
      | None \<Rightarrow> (case cr_colors r v of Some k \<Rightarrow> k < max_color g | None \<Rightarrow> v \<in> set (cr_spilled r)))"

text \<open>
  C23: when the allocator returns, every variable of the graph is accounted for: a precoloured
  variable keeps its colour, any other has a colour below the number of registers or is reported
  as spilled.
\<close>

theorem colorize_complete:
  assumes "start_ok E g" "colorize E g = Some (Inr r)" "v \<in> set (ig_keys g)"
  shows "colour_or_spill g r v"
proof -
  obtain b c where b: "alloc_inv E g b" and c: "colouring_inv g (al_graph b) {} c"
    and col: "cr_colors r = (\<lambda>v. al_colors c (alias_key (al_graph b) v))"
    and sp: "set (cr_spilled r) = {v \<in> merged (al_graph b). cr_colors r v = None} \<union> set (al_nodes c N_spilled)"
    by (rule colorize_end [OF assms(1,2)])
  let ?g = "al_graph b" let ?x = "alias_key ?g v"
  have gi: "graph_inv (needs E) ?g" and keys: "ig_keys ?g = ig_keys g" "max_color ?g = max_color g"
    using b by (simp_all add: alloc_inv_def)
  have x: "?x \<in> set (ig_keys ?g)" "?x \<notin> merged ?g"
    using alias_in_keys [OF gi] alias_merged [of ?g v] gi assms(3) keys by (simp_all add: graph_inv_def)
  show ?thesis
  proof (cases "node_color (ig_nodes g v)")
    case None
    show ?thesis
    proof (cases "cr_colors r v")
      case None2: None
      have "?x \<in> set (al_nodes c N_spilled)" using None2 c x by (auto simp: col colouring_inv_def)
      then have "v \<in> set (cr_spilled r)" using None2 alias_self [of v ?g] by (cases "v \<in> merged ?g") (auto simp: sp)
      then show ?thesis using None None2 by (simp add: colour_or_spill_def)
    next
      case (Some k)
      then show ?thesis using None c keys by (auto simp: colour_or_spill_def col colouring_inv_def)
    qed
  next
    case (Some k)
    then have k: "al_colors c v = Some k" using assms(3) c by (simp add: precolor_of_def colouring_inv_def)
    then have "v \<notin> merged ?g" using c by (auto simp: colouring_inv_def)
    then show ?thesis using Some k alias_self [of v ?g] by (simp add: colour_or_spill_def col)
  qed
qed

lemma colorize_complete_witness:
  "\<exists>g r. colorize two_reg_colours g = Some (Inr r) \<and> colour_or_spill g r (K_temp 7 3)"
proof -
  obtain gs r where b: "build two_reg_env [two_live_fn] = Some (Inr gs)" and e: "edge_set (fst gs) (K_temp 7 1) = {K_temp 7 0}"
    and k: "K_temp 7 3 \<in> set (ig_keys (fst gs))" and ok: "start_ok two_reg_colours (fst gs)"
    and r: "colorize two_reg_colours (fst gs) = Some (Inr r)" and col: "two_live_expected (cr_colors r)"
    by (rule two_live_colorize)
  show ?thesis using colorize_complete [OF ok r k] r by blast
qed

section \<open>Every step keeps the invariant\<close>

text \<open>
  C13: every step of the main loop of the allocator (simplify, coalesce, freeze, spill) keeps its
  invariant: every variable is on exactly one list, the merged variables are the coalesced ones,
  precoloured variables stay where they are, and the aliases of two variables that interfere in
  the input differ and interfere.
\<close>

theorem colour_step_inv:
  assumes "order_ok E" "alloc_inv E g a" "busy a" "colour_step E a = Inr a'"
  shows "alloc_inv E g a'"
  using alloc_inv_loop_step [OF assms(2,1,3,4)] .

lemma colour_step_inv_witness:
  "\<exists>g a a'. busy a \<and> colour_step two_reg_colours a = Inr a' \<and> alloc_inv two_reg_colours g a'"
proof -
  obtain gs r where b: "build two_reg_env [two_live_fn] = Some (Inr gs)" and e: "edge_set (fst gs) (K_temp 7 1) = {K_temp 7 0}"
    and k: "K_temp 7 3 \<in> set (ig_keys (fst gs))" and ok: "start_ok two_reg_colours (fst gs)"
    and r: "colorize two_reg_colours (fst gs) = Some (Inr r)" and col: "two_live_expected (cr_colors r)"
    by (rule two_live_colorize)
  have built: "two_live_built = Inr gs" using b two_live_build by simp
  obtain a a' where a: "initialize two_reg_colours (new_allocator two_reg_colours (fst gs)) = Inr a" "busy a"
      "colour_step two_reg_colours a = Inr a'"
    using two_live_first by (auto simp: built split: sum.split_asm)
  show ?thesis
    using colour_step_inv [OF two_reg_ok(2) initialize_inv [OF ok a(1)] a(2,3)] a(2,3) by blast
qed

section \<open>From liveness to registers\<close>

text \<open>
  C2: a register is never shared by two live variables. When the interference graphs of a program
  are built and the graph of a class is coloured, and an instruction of a function writes d while
  l is live after it, both being variables of that class that need a register, then d and l do not
  get the same colour. An instruction writes d if it defines d or is a call that clobbers the
  register d stands for; only a variable of the return-address register that is live after a call
  is exempt as l.
\<close>

theorem allocation_separates:
  assumes "build E fns = Some (Inr gs)" "env_ok E" "\<forall>fn\<in>set fns. func_ok fn"
    and "order_ok C" "needs C = be_need E" "colorize C (cls_graph (be_fp E d) gs) = Some (Inr r)"
    and "fn \<in> set fns" "clash E fn d l" "rivals E fn d l" "cr_colors r d = Some k"
  shows "cr_colors r l \<noteq> Some k"
proof -
  have "graphs_ok E gs" and e: "l \<in> edge_set (cls_graph (be_fp E d) gs) d"
    using build_grown [OF assms(1-3)] assms(7-9) by blast+
  then have "graph_start (be_need E) (cls_graph (be_fp E d) gs)" using built_start unfolding graphs_ok_def by blast
  then have "start_ok C (cls_graph (be_fp E d) gs)" using assms(4,5) by (simp add: start_ok_def)
  then show ?thesis using colorize_separate assms(6,10) e by blast
qed

lemma allocation_separates_witness:
  "\<exists>gs r. build two_reg_env [two_live_fn] = Some (Inr gs) \<and> colorize two_reg_colours (fst gs) = Some (Inr r) \<and>
     cr_colors r (K_temp 7 1) = Some 0 \<and> cr_colors r (K_temp 7 0) \<noteq> Some 0"
proof -
  obtain gs r where b: "build two_reg_env [two_live_fn] = Some (Inr gs)" and e: "edge_set (fst gs) (K_temp 7 1) = {K_temp 7 0}"
    and k: "K_temp 7 3 \<in> set (ig_keys (fst gs))" and ok: "start_ok two_reg_colours (fst gs)"
    and r: "colorize two_reg_colours (fst gs) = Some (Inr r)" and col: "two_live_expected (cr_colors r)"
    by (rule two_live_colorize)
  have c: "cr_colors r (K_temp 7 1) = Some 0" using col by (simp add: two_live_expected_def)
  have "live_at two_live_fn 0 2 (K_temp 7 0)"
    by (rule use) (auto simp: two_live_fn_def Let_def uses_key_def used_vars_def List.map_filter_def)
  then have "clash two_reg_env two_live_fn (K_temp 7 1) (K_temp 7 0)"
    unfolding clash_def block_clash_def
    by (intro bexI [of _ 0] exI [of _ 1]) (auto simp: two_live_fn_def Let_def writes_def defines_key_def numeral_2_eq_2)
  moreover have "rivals two_reg_env two_live_fn (K_temp 7 1) (K_temp 7 0)"
    by (simp add: rivals_def link_var_def two_reg_env_def two_reg_abi_def Let_def)
  moreover have "cls_graph (be_fp two_reg_env (K_temp 7 1)) gs = fst gs" by (simp add: cls_graph_def two_reg_env_def)
  ultimately have "cr_colors r (K_temp 7 0) \<noteq> Some 0"
    using allocation_separates [OF b two_reg_ok(1) _ two_reg_ok(2,4), of "K_temp 7 1" r two_live_fn "K_temp 7 0" 0]
      r c two_reg_ok(3) by simp
  then show ?thesis using b r c by blast
qed

end
