(* ===== verification/Ast.thy ===== *)
theory Ast
  imports Ir_Op Ir_Value
begin

text \<open>
  The syntax tree of the source language (\<open>frontend/ast/ast.hpp\<close>). The analysis records the type of
  a node, the definition a name refers to and whether a statement always returns in tables keyed by
  the address of the node; here these records are parts of the node: \<open>'l\<close> belongs to a name (\<open>LVal\<close>),
  \<open>'t\<close> to an operator or call, \<open>'s\<close> to an \<open>if\<close>. The parser's tree has \<open>unit\<close> there. A definition
  keeps a number, which stands for its address; a location is its printed form.
\<close>

section \<open>Expressions\<close>

datatype const_exp = CE_int u32 | CE_float u32 | CE_double u64 | CE_bool bool

fun const_cval :: "const_exp \<Rightarrow> cval" where
  "const_cval (CE_int v) = V_int v"
| "const_cval (CE_float v) = V_float v"
| "const_cval (CE_double v) = V_double v"
| "const_cval (CE_bool v) = V_bool v"

definition const_type :: "const_exp \<Rightarrow> ty" where
  "const_type c = type_of_cval (const_cval c)"

text \<open>
  A primary expression is a boxed expression, an \<open>LValExp\<close> or a constant; an \<open>LValExp\<close> is a name or a
  binary expression, which the parser makes an index.
\<close>

datatype ('l, 't) exp =
    BoxE "('l, 't) exp"
  | LValE "('l, 't) lval_exp"
  | ConstE const_exp
  | UnaryE ast_unary_op 't "('l, 't) exp"
  | BinaryE "('l, 't) binary_exp"
  | CallE string 'l 't "('l, 't) exp list"
and ('l, 't) lval_exp =
    NameL string 'l
  | IndexL "('l, 't) binary_exp"
and ('l, 't) binary_exp =
    BinaryExp ast_binary_op 't "('l, 't) exp" "('l, 't) exp"

section \<open>Declarations\<close>

datatype init_val = InitExp const_exp | InitList "init_val list"

record const_def =
  cd_id :: nat
  cd_name :: string
  cd_dims :: "nat option list"
  cd_val :: init_val

record var_def =
  vd_id :: nat
  vd_name :: string
  vd_dims :: "nat option list"
  vd_val :: "init_val option"

datatype decl = ConstDecl ast_type "const_def list" | VarDecl ast_type "var_def list"

record func_param =
  fp_id :: nat
  fp_type :: ast_type
  fp_name :: string
  fp_dims :: "nat option list"

section \<open>Statements\<close>

type_synonym location = string

datatype ('l, 't, 's) stmt =
    IfS location 's "('l, 't) exp" "('l, 't, 's) stmt" "('l, 't, 's) stmt option"
  | WhileS location "('l, 't) exp" "('l, 't, 's) stmt"
  | ReturnS "('l, 't) exp option"
  | BreakS
  | ContinueS
  | AssignS "('l, 't) lval_exp" "('l, 't) exp"
  | BlockS "('l, 't, 's) item list"
  | ExpS "('l, 't) exp"
and ('l, 't, 's) item =
    DeclI decl
  | StmtI "('l, 't, 's) stmt"

record ('l, 't, 's) func_def =
  fd_id :: nat
  fd_type :: ast_type
  fd_name :: string
  fd_params :: "func_param list"
  fd_block :: "('l, 't, 's) item list"

datatype ('l, 't, 's) unit_item = DeclU decl | FuncU "('l, 't, 's) func_def"

text \<open>What a name refers to: the address of its definition.\<close>

datatype sym_def = Def_const nat | Def_var nat | Def_param nat | Def_fun nat | Def_predef nat

text \<open>The tree of the parser and the tree with the records of the analysis.\<close>

type_synonym raw_exp = "(unit, unit) exp"
type_synonym raw_lval = "(unit, unit) lval_exp"
type_synonym raw_binary = "(unit, unit) binary_exp"
type_synonym raw_stmt = "(unit, unit, unit) stmt"
type_synonym raw_item = "(unit, unit, unit) item"

type_synonym typed_exp = "(ty \<times> sym_def, ty) exp"
type_synonym typed_lval = "(ty \<times> sym_def, ty) lval_exp"
type_synonym typed_binary = "(ty \<times> sym_def, ty) binary_exp"
type_synonym typed_stmt = "(ty \<times> sym_def, ty, bool) stmt"
type_synonym typed_item = "(ty \<times> sym_def, ty, bool) item"

section \<open>Recorded types\<close>

text \<open>\<open>type_of\<close> of an expression of the checked tree.\<close>

fun exp_type :: "typed_exp \<Rightarrow> ty" and lval_type :: "typed_lval \<Rightarrow> ty" and binary_type :: "typed_binary \<Rightarrow> ty" where
  "exp_type (BoxE e) = exp_type e"
| "exp_type (LValE l) = lval_type l"
| "exp_type (ConstE c) = const_type c"
| "exp_type (UnaryE op t e) = t"
| "exp_type (BinaryE b) = binary_type b"
| "exp_type (CallE f l t args) = t"
| "lval_type (NameL x l) = fst l"
| "lval_type (IndexL b) = binary_type b"
| "binary_type (BinaryExp op t l r) = t"

section \<open>The predefined functions\<close>

definition builtin_funcs :: "(unit, unit, unit) func_def list" where
  "builtin_funcs =
     (let f = (\<lambda>i t x ps. \<lparr>fd_id = i, fd_type = t, fd_name = x,
                fd_params = map (\<lambda>p. \<lparr>fp_id = 0, fp_type = p, fp_name = [], fp_dims = []\<rparr>) ps, fd_block = []\<rparr>) in
      [f 0 T_INT ''get_int'' [], f 1 T_FLOAT ''get_float'' [], f 2 T_DOUBLE ''get_double'' [],
       f 3 T_VOID ''print_int'' [T_INT], f 4 T_VOID ''print_float'' [T_FLOAT],
       f 5 T_VOID ''print_double'' [T_DOUBLE], f 6 T_VOID ''print_bool'' [T_BOOL]])"

end
