(* ===== verification/Sema.thy ===== *)
theory Sema
  imports Ast
begin

text \<open>
  The semantic analysis (\<open>frontend/ast/analysis\<close>): scopes, name resolution and type checking. An
  analysis returns the checked node, see \<open>Ast\<close>; declarations and functions change the state. The
  table of the types of definitions is kept in the state, because names read it later. The scopes
  are listed from the innermost, which is the back of the vector in the code.
\<close>

section \<open>State\<close>

record sem =
  sm_funcs :: "string \<rightharpoonup> sym_def"
  sm_vars :: "(string \<rightharpoonup> sym_def) list"
  sm_readonly :: "sym_def set"
  sm_types :: "sym_def \<rightharpoonup> ty"

definition empty_sem :: sem where
  "empty_sem = \<lparr>sm_funcs = Map.empty, sm_vars = [], sm_readonly = {}, sm_types = Map.empty\<rparr>"

definition pushScope :: "sem \<Rightarrow> sem" where
  "pushScope S = S\<lparr>sm_vars := Map.empty # sm_vars S\<rparr>"

definition popScope :: "sem \<Rightarrow> sem" where
  "popScope S = S\<lparr>sm_vars := tl (sm_vars S)\<rparr>"

fun lookup_in :: "(string \<rightharpoonup> sym_def) list \<Rightarrow> string \<Rightarrow> sym_def option" where
  "lookup_in [] x = None"
| "lookup_in (sc # scs) x = (case sc x of Some d \<Rightarrow> Some d | None \<Rightarrow> lookup_in scs x)"

definition lookup_var :: "sem \<Rightarrow> string \<Rightarrow> sym_def option" where
  "lookup_var S x = lookup_in (sm_vars S) x"

definition registerFunction :: "string \<Rightarrow> sym_def \<Rightarrow> sem \<Rightarrow> sem result" where
  "registerFunction x d S =
     (if sm_funcs S x \<noteq> None then Inl (Semantic_error (''redefinition of function '' @ x))
      else Inr (S\<lparr>sm_funcs := (sm_funcs S)(x \<mapsto> d)\<rparr>))"

definition registerVariable :: "string \<Rightarrow> sym_def \<Rightarrow> sem \<Rightarrow> sem result" where
  "registerVariable x d S =
     (case sm_vars S of
        [] \<Rightarrow> Inl (Undefined ''back of an empty vector'')
      | sc # scs \<Rightarrow>
          if sc x \<noteq> None then Inl (Semantic_error (''redefinition of variable '' @ x))
          else Inr (S\<lparr>sm_vars := sc(x \<mapsto> d) # scs\<rparr>))"

definition set_type :: "sym_def \<Rightarrow> ty \<Rightarrow> sem \<Rightarrow> sem" where
  "set_type d t S = S\<lparr>sm_types := (sm_types S)(d \<mapsto> t)\<rparr>"

text \<open>\<open>types[d]\<close> of a definition that is not in the table is a type without alternative.\<close>

definition type_of_def :: "sem \<Rightarrow> sym_def \<Rightarrow> ty result" where
  "type_of_def S d = (case sm_types S d of None \<Rightarrow> Inl (Undefined ''type of an unknown definition'') | Some t \<Rightarrow> Inr t)"

section \<open>Types\<close>

definition num_ty :: ty where "num_ty = Sum [Prim Int32, Prim Float32, Prim Float64]"
definition bool_ty :: ty where "bool_ty = Prim Int1"
definition int_ty :: ty where "int_ty = Prim Int32"

fun base_type :: "ast_type \<Rightarrow> ty" where
  "base_type T_INT = Prim Int32"
| "base_type T_FLOAT = Prim Float32"
| "base_type T_BOOL = Prim Int1"
| "base_type T_DOUBLE = Prim Float64"
| "base_type T_VOID = unit_ty"

text \<open>\<open>value()\<close> of a missing dimension throws.\<close>

fun array_type :: "nat option list \<Rightarrow> ty \<Rightarrow> ty result" where
  "array_type [] t = Inr t"
| "array_type (d # ds) t =
     rbind (array_type ds t) (\<lambda>e. case d of
       None \<Rightarrow> Inl (Undefined ''bad optional access'') | Some n \<Rightarrow> Inr (Array e n))"

text \<open>The first dimension of a parameter is not read: the array is passed as a slice.\<close>

definition param_type :: "func_param \<Rightarrow> ty result" where
  "param_type p =
     (case fp_dims p of
        [] \<Rightarrow> Inr (base_type (fp_type p))
      | d # ds \<Rightarrow> rbind (array_type ds (base_type (fp_type p))) (\<lambda>e. Inr (slice e False)))"

fun param_types :: "func_param list \<Rightarrow> ty list result" where
  "param_types [] = Inr []"
| "param_types (p # ps) = rbind (param_type p) (\<lambda>t. rbind (param_types ps) (\<lambda>ts. Inr (t # ts)))"

definition func_type :: "('l, 't, 's) func_def \<Rightarrow> ty result" where
  "func_type f = rbind (param_types (fd_params f)) (\<lambda>ts. Inr (Func (Product ts) (base_type (fd_type f))))"

definition check_type :: "ty \<Rightarrow> ty \<Rightarrow> 'a \<Rightarrow> 'a result" where
  "check_type t bound x = (if sub_ty t bound then Inr x else Inl (Semantic_error ''type error: not a subtype''))"

section \<open>Expressions\<close>

fun is_func :: "ty \<Rightarrow> bool" where
  "is_func (Func p r) = True"
| "is_func _ = False"

definition an_lval :: "sem \<Rightarrow> string \<Rightarrow> ty \<Rightarrow> bool \<Rightarrow> (ty \<times> sym_def) result" where
  "an_lval S x bound readonly =
     (if \<not> is_func bound
        then (case lookup_var S x of
                None \<Rightarrow> Inl (Semantic_error (''undefined variable '' @ x))
              | Some d \<Rightarrow>
                  if d \<in> sm_readonly S \<and> \<not> readonly
                    then Inl (Semantic_error (''can not use constant as left val: '' @ x))
                  else rbind (type_of_def S d) (\<lambda>t.
                    let t' = decay (d \<in> sm_readonly S) t in check_type t' bound (t', d)))
      else (case sm_funcs S x of
              None \<Rightarrow> Inl (Semantic_error (''undefined function '' @ x))
            | Some d \<Rightarrow> rbind (type_of_def S d) (\<lambda>t. check_type t bound (t, d))))"

text \<open>The bounds of the operands of a binary operator.\<close>

fun right_bound :: "ast_binary_op \<Rightarrow> ty" where
  "right_bound B_AND = bool_ty"
| "right_bound B_OR = bool_ty"
| "right_bound B_INDEX = int_ty"
| "right_bound _ = num_ty"

fun left_bound :: "ast_binary_op \<Rightarrow> ty \<Rightarrow> bool \<Rightarrow> ty" where
  "left_bound B_INDEX bound readonly = slice bound readonly"
| "left_bound B_AND bound readonly = bool_ty"
| "left_bound B_OR bound readonly = bool_ty"
| "left_bound _ bound readonly = num_ty"

definition is_comparison_op :: "ast_binary_op \<Rightarrow> bool" where
  "is_comparison_op op \<longleftrightarrow> op \<in> {B_EQ, B_NEQ, B_LT, B_GT, B_LEQ, B_GEQ}"

definition binary_result :: "ast_binary_op \<Rightarrow> ty \<Rightarrow> ty \<Rightarrow> ty result" where
  "binary_result op lt rt =
     (if op = B_INDEX
        then (case lt of
                Reference e ro s \<Rightarrow> Inr (decay ro e)
              | _ \<Rightarrow> Inl (Compiler_error ''Type is not a reference''))
      else if \<not> sub_ty lt rt \<and> \<not> sub_ty rt lt then Inl (Semantic_error ''type error: cannot apply operator'')
      else if is_comparison_op op then Inr bool_ty
      else Inr (if sub_ty lt rt then rt else lt))"

fun unary_bound :: "ast_unary_op \<Rightarrow> ty" where
  "unary_bound U_NOT = bool_ty"
| "unary_bound _ = num_ty"

text \<open>The parameter types and the result type of a callee.\<close>

fun call_type :: "ty \<Rightarrow> (ty list \<times> ty) result" where
  "call_type (Func (Product ps) r) = Inr (ps, r)"
| "call_type t = Inl (Compiler_error ''Type is not a function of a product'')"

text \<open>A box checks the type of its content once more.\<close>

definition boxed :: "ty \<Rightarrow> (ty \<times> 'a) result \<Rightarrow> (ty \<times> 'a) result" where
  "boxed bound r = rbind r (\<lambda>(t, x). check_type t bound (t, x))"

fun an_exp :: "sem \<Rightarrow> raw_exp \<Rightarrow> ty \<Rightarrow> bool \<Rightarrow> (ty \<times> typed_exp) result"
  and an_lval_exp :: "sem \<Rightarrow> raw_lval \<Rightarrow> ty \<Rightarrow> bool \<Rightarrow> (ty \<times> typed_lval) result"
  and an_binary :: "sem \<Rightarrow> raw_binary \<Rightarrow> ty \<Rightarrow> bool \<Rightarrow> (ty \<times> typed_binary) result"
  and an_args :: "sem \<Rightarrow> raw_exp list \<Rightarrow> ty list \<Rightarrow> typed_exp list result" where
  "an_exp S (BoxE e) bound ro =
     boxed bound (rbind (boxed bound (an_exp S e bound ro)) (\<lambda>(t, e'). Inr (t, BoxE e')))"
| "an_exp S (LValE l) bound ro = boxed bound (rbind (an_lval_exp S l bound ro) (\<lambda>(t, l'). Inr (t, LValE l')))"
| "an_exp S (ConstE c) bound ro = boxed bound (Inr (const_type c, ConstE c))"
| "an_exp S (UnaryE op u e) bound ro =
     rbind (boxed (unary_bound op) (an_exp S e (unary_bound op) True)) (\<lambda>(t, e').
       check_type t bound (t, UnaryE op t e'))"
| "an_exp S (BinaryE b) bound ro = rbind (an_binary S b bound ro) (\<lambda>(t, b'). Inr (t, BinaryE b'))"
| "an_exp S (CallE f u v args) bound ro =
     rbind (an_lval S f (Func Bottom Top) True) (\<lambda>(ft, d).
     rbind (call_type ft) (\<lambda>(ps, r).
       if length args \<noteq> length ps then Inl (Semantic_error ''wrong number of arguments'')
       else rbind (an_args S args ps) (\<lambda>args'. check_type r bound (r, CallE f (ft, d) r args'))))"
| "an_lval_exp S (NameL x u) bound ro = rbind (an_lval S x bound ro) (\<lambda>(t, d). Inr (t, NameL x (t, d)))"
| "an_lval_exp S (IndexL b) bound ro = rbind (an_binary S b bound ro) (\<lambda>(t, b'). Inr (t, IndexL b'))"
| "an_binary S (BinaryExp op u l r) bound ro =
     rbind (boxed (right_bound op) (an_exp S r (right_bound op) True)) (\<lambda>(rt, r').
     rbind (boxed (left_bound op bound ro) (an_exp S l (left_bound op bound ro) (ro \<or> op \<noteq> B_INDEX))) (\<lambda>(lt, l').
     rbind (binary_result op lt rt) (\<lambda>t. check_type t bound (t, BinaryExp op t l' r'))))"
| "an_args S [] ps = Inr []"
| "an_args S (a # as) [] = Inl Out_of_range"
| "an_args S (a # as) (p # ps) =
     rbind (an_exp S a p True) (\<lambda>(t, a'). rbind (an_args S as ps) (\<lambda>as'. Inr (a' # as')))"

section \<open>Declarations\<close>

text \<open>The type of an initialiser; the state plays no part.\<close>

definition join_elem :: "ty \<Rightarrow> ty \<Rightarrow> ty result" where
  "join_elem t u =
     (if \<not> constructable t u \<and> \<not> constructable u t then Inl (Semantic_error ''type error: array elements have incompatible types'')
      else Inr (if constructable t u then u else t))"

fun init_type :: "init_val \<Rightarrow> ty result" and init_elem :: "init_val list \<Rightarrow> ty \<Rightarrow> ty result" where
  "init_type (InitExp c) = Inr (const_type c)"
| "init_type (InitList vs) = rbind (init_elem vs Bottom) (\<lambda>e. Inr (Array e (length vs)))"
| "init_elem [] t = Inr t"
| "init_elem (v # vs) t = rbind (init_type v) (\<lambda>u. rbind (join_elem t u) (init_elem vs))"

definition register_def :: "ty \<Rightarrow> sym_def \<Rightarrow> string \<Rightarrow> nat option list \<Rightarrow> sem \<Rightarrow> sem result" where
  "register_def base d x dims S =
     rbind (registerVariable x d S) (\<lambda>S1. rbind (array_type dims base) (\<lambda>t. Inr (set_type d t S1)))"

definition check_const_def :: "const_def \<Rightarrow> sem \<Rightarrow> sem result" where
  "check_const_def c S =
     rbind (init_type (cd_val c)) (\<lambda>v. rbind (type_of_def S (Def_const (cd_id c))) (\<lambda>t.
       if \<not> constructable v t then Inl (Semantic_error ''type error: cannot initialize'')
       else Inr (S\<lparr>sm_readonly := insert (Def_const (cd_id c)) (sm_readonly S)\<rparr>)))"

definition check_var_def :: "var_def \<Rightarrow> sem \<Rightarrow> sem result" where
  "check_var_def c S =
     rbind (case vd_val c of None \<Rightarrow> Inr Bottom | Some i \<Rightarrow> init_type i) (\<lambda>v.
     rbind (type_of_def S (Def_var (vd_id c))) (\<lambda>t.
       if \<not> constructable v t then Inl (Semantic_error ''type error: cannot initialize'') else Inr S))"

fun an_decl :: "decl \<Rightarrow> sem \<Rightarrow> sem result" where
  "an_decl (ConstDecl t ds) S =
     rbind (rfold (\<lambda>c. register_def (base_type t) (Def_const (cd_id c)) (cd_name c) (cd_dims c)) ds S)
       (rfold check_const_def ds)"
| "an_decl (VarDecl t ds) S =
     rbind (rfold (\<lambda>c. register_def (base_type t) (Def_var (vd_id c)) (vd_name c) (vd_dims c)) ds S)
       (rfold check_var_def ds)"

section \<open>Statements\<close>

record stmt_type =
  ret_type :: ty
  always_return :: bool

definition no_return :: stmt_type where
  "no_return = \<lparr>ret_type = Bottom, always_return = False\<rparr>"

definition append_type :: "stmt_type \<Rightarrow> stmt_type \<Rightarrow> stmt_type result" where
  "append_type next t =
     (if always_return t then Inr t
      else rbind (join_ty (ret_type t) (ret_type next)) (\<lambda>r.
        Inr \<lparr>ret_type = r, always_return = always_return next\<rparr>))"

definition merge_type :: "stmt_type \<Rightarrow> stmt_type \<Rightarrow> stmt_type result" where
  "merge_type next t =
     rbind (join_ty (ret_type t) (ret_type next)) (\<lambda>r.
       Inr \<lparr>ret_type = r, always_return = always_return t \<and> always_return next\<rparr>)"

fun an_stmt :: "raw_stmt \<Rightarrow> sem \<Rightarrow> (stmt_type \<times> typed_stmt \<times> sem) result"
  and an_items :: "raw_item list \<Rightarrow> stmt_type \<Rightarrow> sem \<Rightarrow> (stmt_type \<times> typed_item list \<times> sem) result" where
  "an_stmt (IfS loc u c s None) S =
     rbind (an_exp S c bool_ty True) (\<lambda>(ct, c').
     rbind (an_stmt s S) (\<lambda>(t1, s', S1).
     rbind (merge_type t1 no_return) (\<lambda>t.
     Inr (t, IfS loc (always_return t) c' s' None, S1))))"
| "an_stmt (IfS loc u c s (Some e)) S =
     rbind (an_exp S c bool_ty True) (\<lambda>(ct, c').
     rbind (an_stmt s S) (\<lambda>(t1, s', S1).
     rbind (an_stmt e S1) (\<lambda>(t2, e', S2).
     rbind (merge_type t1 t2) (\<lambda>t.
     Inr (t, IfS loc (always_return t) c' s' (Some e'), S2)))))"
| "an_stmt (WhileS loc c s) S =
     rbind (an_exp S c bool_ty True) (\<lambda>(ct, c').
     rbind (an_stmt s S) (\<lambda>(t1, s', S1).
     rbind (merge_type t1 no_return) (\<lambda>t. Inr (t, WhileS loc c' s', S1))))"
| "an_stmt (ReturnS None) S = Inr (\<lparr>ret_type = unit_ty, always_return = True\<rparr>, ReturnS None, S)"
| "an_stmt (ReturnS (Some e)) S =
     rbind (an_exp S e Top True) (\<lambda>(t, e').
       Inr (\<lparr>ret_type = t, always_return = True\<rparr>, ReturnS (Some e'), S))"
| "an_stmt BreakS S = Inr (no_return, BreakS, S)"
| "an_stmt ContinueS S = Inr (no_return, ContinueS, S)"
| "an_stmt (AssignS l e) S =
     rbind (an_exp S e Top True) (\<lambda>(t, e').
     rbind (an_lval_exp S l t False) (\<lambda>(lt, l'). Inr (no_return, AssignS l' e', S)))"
| "an_stmt (BlockS items) S =
     rbind (an_items items no_return (pushScope S)) (\<lambda>(t, items', S1).
       Inr (t, BlockS items', popScope S1))"
| "an_stmt (ExpS e) S = rbind (an_exp S e Top True) (\<lambda>(t, e'). Inr (no_return, ExpS e', S))"
| "an_items [] t S = Inr (t, [], S)"
| "an_items (DeclI d # is) t S =
     rbind (an_decl d S) (\<lambda>S1. rbind (an_items is t S1) (\<lambda>(t', is', S2). Inr (t', DeclI d # is', S2)))"
| "an_items (StmtI s # is) t S =
     rbind (an_stmt s S) (\<lambda>(t1, s', S1).
     rbind (append_type t1 t) (\<lambda>t2.
     rbind (an_items is t2 S1) (\<lambda>(t', is', S2). Inr (t', StmtI s' # is', S2))))"

section \<open>Functions and the program\<close>

definition an_param :: "func_param \<Rightarrow> sem \<Rightarrow> sem result" where
  "an_param p S =
     rbind (registerVariable (fp_name p) (Def_param (fp_id p)) S) (\<lambda>S1.
     rbind (param_type p) (\<lambda>t. Inr (set_type (Def_param (fp_id p)) t S1)))"

definition an_builtin :: "(unit, unit, unit) func_def \<Rightarrow> sem \<Rightarrow> sem result" where
  "an_builtin f S =
     rbind (func_type f) (\<lambda>t.
       registerFunction (fd_name f) (Def_predef (fd_id f)) (set_type (Def_predef (fd_id f)) t S))"

type_synonym typed_func = "(ty \<times> sym_def, ty, bool) func_def"

definition an_func :: "(unit, unit, unit) func_def \<Rightarrow> sem \<Rightarrow> (typed_func \<times> sem) result" where
  "an_func f S =
     rbind (func_type f) (\<lambda>t.
     rbind (registerFunction (fd_name f) (Def_fun (fd_id f)) (set_type (Def_fun (fd_id f)) t S)) (\<lambda>S1.
     rbind (rfold an_param (fd_params f) (pushScope S1)) (\<lambda>S2.
     rbind (an_items (fd_block f) no_return S2) (\<lambda>(bt, block, S3).
       if \<not> always_return bt \<and> \<not> sub_ty (base_type (fd_type f)) unit_ty
         then Inl (Semantic_error (''non-void function may not return on all paths: '' @ fd_name f))
       else if \<not> sub_ty (ret_type bt) (base_type (fd_type f))
         then Inl (Semantic_error (''function has another return type: '' @ fd_name f))
       else Inr (\<lparr>fd_id = fd_id f, fd_type = fd_type f, fd_name = fd_name f, fd_params = fd_params f,
                  fd_block = block\<rparr>, popScope S3)))))"

type_synonym typed_unit = "(ty \<times> sym_def, ty, bool) unit_item"

fun an_units :: "(unit, unit, unit) unit_item list \<Rightarrow> sem \<Rightarrow> (typed_unit list \<times> sem) result" where
  "an_units [] S = Inr ([], S)"
| "an_units (DeclU d # us) S =
     rbind (an_decl d S) (\<lambda>S1. rbind (an_units us S1) (\<lambda>(us', S2). Inr (DeclU d # us', S2)))"
| "an_units (FuncU f # us) S =
     rbind (an_func f S) (\<lambda>(f', S1). rbind (an_units us S1) (\<lambda>(us', S2). Inr (FuncU f' # us', S2)))"

definition main_type :: ty where
  "main_type = Func (Product []) (Prim Int32)"

definition an_comp_unit :: "(unit, unit, unit) unit_item list \<Rightarrow> (typed_unit list \<times> sem) result" where
  "an_comp_unit us =
     rbind (rfold an_builtin builtin_funcs (pushScope empty_sem)) (\<lambda>S.
     rbind (an_units us (pushScope S)) (\<lambda>(us', S1).
       case sm_funcs S1 ''main'' of
         None \<Rightarrow> Inl (Semantic_error ''function main is not defined'')
       | Some d \<Rightarrow> rbind (type_of_def S1 d) (\<lambda>t.
           if \<not> eq_ty t main_type then Inl (Semantic_error ''function main must have type () -> int'')
           else Inr (us', S1))))"

end
