(* ===== verification/Sema_Sound.thy ===== *)
theory Sema_Sound
  imports Sema
begin

text \<open>
  What the semantic analysis guarantees: a checked expression has the recorded type and that type is
  a subtype of the bound; statements leave the scopes as they found them; a place that is assigned
  never belongs to a constant.
\<close>

section \<open>Types\<close>

lemma check_type_eq_Inr [simp]: "check_type t bound x = Inr y \<longleftrightarrow> sub_ty t bound \<and> y = x"
  by (auto simp: check_type_def)

lemma boxed_eq_Inr [simp]: "boxed bound r = Inr (t, x) \<longleftrightarrow> r = Inr (t, x) \<and> sub_ty t bound"
  by (auto simp: boxed_def rbind_eq_Inr)

lemma an_lval_bound: "an_lval S x bound ro = Inr (t, d) \<Longrightarrow> sub_ty t bound"
  by (auto simp: an_lval_def rbind_eq_Inr Let_def split: option.splits if_splits)

lemma an_exp_types:
  "an_exp S e bound ro = Inr (t, e') \<Longrightarrow> exp_type e' = t \<and> sub_ty t bound"
  "an_lval_exp S l bound ro = Inr (t, l') \<Longrightarrow> lval_type l' = t \<and> sub_ty t bound"
  "an_binary S b bound ro = Inr (t, b') \<Longrightarrow> binary_type b' = t \<and> sub_ty t bound"
  "an_args S as ps = Inr as' \<Longrightarrow> True"
proof (induction S e bound ro and S l bound ro and S b bound ro and S as ps
    arbitrary: t e' and t l' and t b' and as' rule: an_exp_an_lval_exp_an_binary_an_args.induct)
qed (auto simp: rbind_eq_Inr split: if_splits dest: an_lval_bound)

section \<open>Constants are not assigned\<close>

text \<open>The name whose storage an assignment to the expression changes.\<close>

fun root_exp :: "('l, 't) exp \<Rightarrow> 'l option" and root_lval :: "('l, 't) lval_exp \<Rightarrow> 'l option"
  and root_binary :: "('l, 't) binary_exp \<Rightarrow> 'l option" where
  "root_exp (BoxE e) = root_exp e"
| "root_exp (LValE l) = root_lval l"
| "root_exp (BinaryE b) = root_binary b"
| "root_exp _ = None"
| "root_lval (NameL x l) = Some l"
| "root_lval (IndexL b) = root_binary b"
| "root_binary (BinaryExp op t l r) = (if op = B_INDEX then root_exp l else None)"

lemma an_lval_writable:
  "an_lval S x bound False = Inr (t, d) \<Longrightarrow> \<not> is_func bound \<Longrightarrow> d \<notin> sm_readonly S"
  by (auto simp: an_lval_def rbind_eq_Inr Let_def split: option.splits if_splits)

lemma writable_root:
  "an_exp S e bound ro = Inr (t, e') \<Longrightarrow> \<not> ro \<Longrightarrow> \<not> is_func bound \<Longrightarrow> root_exp e' = Some (u, d) \<Longrightarrow> d \<notin> sm_readonly S"
  "an_lval_exp S l bound ro = Inr (t, l') \<Longrightarrow> \<not> ro \<Longrightarrow> \<not> is_func bound \<Longrightarrow> root_lval l' = Some (u, d) \<Longrightarrow> d \<notin> sm_readonly S"
  "an_binary S b bound ro = Inr (t, b') \<Longrightarrow> \<not> ro \<Longrightarrow> root_binary b' = Some (u, d) \<Longrightarrow> d \<notin> sm_readonly S"
  "an_args S as ps = Inr as' \<Longrightarrow> True"
proof (induction S e bound ro and S l bound ro and S b bound ro and S as ps
    arbitrary: t e' and t l' and t b' and as' rule: an_exp_an_lval_exp_an_binary_an_args.induct)
  case (9 S op u l r bound ro)
  then show ?case by (auto simp: rbind_eq_Inr slice_def split: if_splits) blast
qed (auto simp: rbind_eq_Inr split: if_splits dest: an_lval_writable)

section \<open>Scopes\<close>

definition same_scopes :: "sem \<Rightarrow> sem \<Rightarrow> bool" where
  "same_scopes S S' \<longleftrightarrow> sm_vars S' = sm_vars S \<and> sm_funcs S' = sm_funcs S"

text \<open>A declaration changes the innermost scope only, and only adds names to it.\<close>

definition scope_grown :: "sem \<Rightarrow> sem \<Rightarrow> bool" where
  "scope_grown S S' \<longleftrightarrow>
     sm_vars S' \<noteq> [] \<and> tl (sm_vars S') = tl (sm_vars S) \<and> hd (sm_vars S) \<subseteq>\<^sub>m hd (sm_vars S') \<and>
     sm_funcs S' = sm_funcs S"

lemma scope_grown_refl: "sm_vars S \<noteq> [] \<Longrightarrow> scope_grown S S"
  by (simp add: scope_grown_def)

lemma scope_grown_trans: "scope_grown S T \<Longrightarrow> scope_grown T U \<Longrightarrow> scope_grown S U"
  by (auto simp: scope_grown_def intro: map_le_trans)

lemma register_def_grown: "register_def base d x dims S = Inr S' \<Longrightarrow> scope_grown S S'"
  by (auto simp: register_def_def registerVariable_def rbind_eq_Inr set_type_def scope_grown_def map_le_def
    split: list.splits if_splits)

lemma rfold_grown:
  assumes "rfold f xs S = Inr S'" "sm_vars S \<noteq> []" "\<And>x S S'. f x S = Inr S' \<Longrightarrow> sm_vars S \<noteq> [] \<Longrightarrow> scope_grown S S'"
  shows "scope_grown S S'"
  using assms
proof (induction xs arbitrary: S)
  case (Cons x xs)
  obtain T where T: "f x S = Inr T" "rfold f xs T = Inr S'" using Cons.prems(1) by (auto simp: rbind_eq_Inr)
  have 1: "scope_grown S T" using Cons.prems(3) [OF T(1) Cons.prems(2)] .
  then have "scope_grown T S'" using Cons.IH [OF T(2) _ Cons.prems(3)] by (simp add: scope_grown_def)
  then show ?case using 1 by (auto intro: scope_grown_trans)
qed (simp add: scope_grown_refl)

lemma check_def_grown:
  "check_const_def c S = Inr S' \<Longrightarrow> sm_vars S \<noteq> [] \<Longrightarrow> scope_grown S S'"
  "check_var_def v S = Inr S' \<Longrightarrow> sm_vars S \<noteq> [] \<Longrightarrow> scope_grown S S'"
  by (auto simp: check_const_def_def check_var_def_def rbind_eq_Inr scope_grown_def split: if_splits)

lemma an_decl_grown: "an_decl d S = Inr S' \<Longrightarrow> sm_vars S \<noteq> [] \<Longrightarrow> scope_grown S S'"
proof (cases d)
  case (ConstDecl t ds)
  assume a: "an_decl d S = Inr S'" "sm_vars S \<noteq> []"
  then obtain T where T: "rfold (\<lambda>c. register_def (base_type t) (Def_const (cd_id c)) (cd_name c) (cd_dims c)) ds S = Inr T"
      "rfold check_const_def ds T = Inr S'"
    by (auto simp: ConstDecl rbind_eq_Inr)
  have 1: "scope_grown S T" by (rule rfold_grown [OF T(1) a(2)]) (rule register_def_grown)
  then have "scope_grown T S'" by (intro rfold_grown [OF T(2)] check_def_grown) (simp_all add: scope_grown_def)
  then show ?thesis using 1 by (auto intro: scope_grown_trans)
next
  case (VarDecl t ds)
  assume a: "an_decl d S = Inr S'" "sm_vars S \<noteq> []"
  then obtain T where T: "rfold (\<lambda>c. register_def (base_type t) (Def_var (vd_id c)) (vd_name c) (vd_dims c)) ds S = Inr T"
      "rfold check_var_def ds T = Inr S'"
    by (auto simp: VarDecl rbind_eq_Inr)
  have 1: "scope_grown S T" by (rule rfold_grown [OF T(1) a(2)]) (rule register_def_grown)
  then have "scope_grown T S'" by (intro rfold_grown [OF T(2)] check_def_grown) (simp_all add: scope_grown_def)
  then show ?thesis using 1 by (auto intro: scope_grown_trans)
qed

lemma an_stmt_same_scopes:
  "an_stmt s S = Inr (t, s', S') \<Longrightarrow> same_scopes S S'"
  "an_items is u S = Inr (t', is', S') \<Longrightarrow> sm_vars S \<noteq> [] \<Longrightarrow> scope_grown S S'"
proof (induction s S and "is" u S arbitrary: t s' S' and t' is' S' rule: an_stmt_an_items.induct)
  case (9 items S)
  then obtain T is' where T: "an_items items no_return (pushScope S) = Inr (t, is', T)" "S' = popScope T"
    by (auto simp: rbind_eq_Inr)
  have "scope_grown (pushScope S) T" using 9(1) [OF T(1)] by (simp add: pushScope_def)
  then show ?case by (simp add: T(2) same_scopes_def scope_grown_def pushScope_def popScope_def)
next
  case (12 d "is" u S)
  then obtain T r where "an_decl d S = Inr T" "an_items is u T = Inr (t', r, S')" by (auto simp: rbind_eq_Inr)
  then show ?case using 12(1) [of T t' r S'] an_decl_grown [of d S T] 12(3)
    by (auto simp: scope_grown_def intro: map_le_trans)
next
  case (13 s "is" u S)
  then obtain t1 s1 T u1 r where T: "an_stmt s S = Inr (t1, s1, T)" "append_type t1 u = Inr u1"
      "an_items is u1 T = Inr (t', r, S')"
    by (auto simp: rbind_eq_Inr)
  have 1: "same_scopes S T" using 13(1) [OF T(1)] .
  have "scope_grown T S'" using 13(2) [OF T(1) _ _ T(2,3)] 13(4) 1 by (simp add: same_scopes_def)
  then show ?case using 1 by (simp add: same_scopes_def scope_grown_def)
next
  case (11 t S)
  then show ?case by (simp add: scope_grown_refl)
next
  case (1 loc u c s S)
  then obtain a b t1 s1 where E: "an_exp S c bool_ty True = Inr (a, b)" "an_stmt s S = Inr (t1, s1, S')"
    by (auto simp: rbind_eq_Inr)
  show ?case using 1(1) [OF E(1) refl E(2)] .
next
  case (2 loc u c s e S)
  then obtain a b t1 s1 S1 t2 s2 where E: "an_exp S c bool_ty True = Inr (a, b)" "an_stmt s S = Inr (t1, s1, S1)"
      "an_stmt e S1 = Inr (t2, s2, S')"
    by (auto simp: rbind_eq_Inr)
  have "same_scopes S S1" using 2(1) [OF E(1) refl E(2)] .
  moreover have "same_scopes S1 S'" using 2(2) [OF E(1) refl E(2) refl refl E(3)] .
  ultimately show ?case by (simp add: same_scopes_def)
next
  case (3 loc c s S)
  then obtain a b t1 s1 where E: "an_exp S c bool_ty True = Inr (a, b)" "an_stmt s S = Inr (t1, s1, S')"
    by (auto simp: rbind_eq_Inr)
  show ?case using 3(1) [OF E(1) refl E(2)] .
next
  case (5 e S)
  then show ?case by (clarsimp simp: rbind_eq_Inr same_scopes_def)
next
  case (8 l e S)
  then show ?case by (clarsimp simp: rbind_eq_Inr same_scopes_def)
next
  case (10 e S)
  then show ?case by (clarsimp simp: rbind_eq_Inr same_scopes_def)
qed (simp_all add: same_scopes_def)

section \<open>Properties\<close>

text \<open>
  C26: a statement leaves the scopes as it found them: what a name refers to after an if, a loop
  or a block is what it referred to before.
\<close>

theorem stmt_restores_scopes:
  assumes "an_stmt s S = Inr (t, s', S')"
  shows "lookup_var S' x = lookup_var S x"
  using an_stmt_same_scopes(1) [OF assms] by (simp add: same_scopes_def lookup_var_def)

text \<open>
  C25: a statement that is accepted never assigns to a constant or to an element of one, however
  the place is written.
\<close>

theorem assigned_not_constant:
  assumes "an_stmt (AssignS l e) S = Inr (t, AssignS l' e', S')"
    and "root_lval l' = Some (u, d)" and "\<not> is_func (exp_type e')"
  shows "d \<notin> sm_readonly S"
proof -
  obtain te lt where e: "an_exp S e Top True = Inr (te, e')" "an_lval_exp S l te False = Inr (lt, l')"
    using assms(1) by (auto simp: rbind_eq_Inr)
  then have "\<not> is_func te" using an_exp_types(1) [OF e(1)] assms(3) by simp
  then show ?thesis using writable_root(2) [OF e(2)] assms(2) by simp
qed

section \<open>Instances\<close>

definition sem_x :: sem where
  "sem_x = \<lparr>sm_funcs = Map.empty, sm_vars = [[''x'' \<mapsto> Def_var 0]], sm_readonly = {},
            sm_types = [Def_var 0 \<mapsto> int_ty]\<rparr>"

definition block_x :: raw_stmt where
  "block_x = BlockS [DeclI (VarDecl T_BOOL [\<lparr>vd_id = 1, vd_name = ''x'', vd_dims = [], vd_val = None\<rparr>])]"

theorem stmt_restores_scopes_witness:
  "lookup_var (case an_stmt block_x sem_x of Inr (t, s, S) \<Rightarrow> S | Inl e \<Rightarrow> sem_x) ''x'' = Some (Def_var 0)"
proof -
  have "\<exists>t s S. an_stmt block_x sem_x = Inr (t, s, S)"
    by (simp add: block_x_def sem_x_def pushScope_def register_def_def registerVariable_def set_type_def
        check_var_def_def type_of_def_def)
  then obtain t s S where r: "an_stmt block_x sem_x = Inr (t, s, S)" by blast
  show ?thesis using stmt_restores_scopes [OF r, of "''x''"] by (simp add: r) (simp add: sem_x_def lookup_var_def)
qed

theorem assigned_not_constant_witness: "Def_var 0 \<notin> sm_readonly sem_x"
proof (rule assigned_not_constant)
  show "an_stmt (AssignS (NameL ''x'' ()) (ConstE (CE_int 1))) sem_x =
      Inr (no_return, AssignS (NameL ''x'' (int_ty, Def_var 0)) (ConstE (CE_int 1)), sem_x)"
    by (simp add: sem_x_def an_lval_def lookup_var_def type_of_def_def const_type_def int_ty_def boxed_def check_type_def)
qed (simp_all add: const_type_def)

end
