(* ===== verification/Irgen.thy ===== *)
theory Irgen
  imports Sema Ir_Inst
begin

text \<open>
  The translation of the checked syntax tree into the IR (\<open>backend/ir/gen\<close>). The state holds the
  allocations, the function under construction and the counters from which new objects get their
  numbers; a block that control does not leave is \<open>None\<close>, the null pointer of the code.
\<close>

section \<open>State\<close>

record gen_state =
  gs_alloc :: alloc_store
  gs_next_alloc :: nat
  gs_defs :: "sym_def \<rightharpoonup> name_def"
  gs_names :: "sym_def \<rightharpoonup> string"
  gs_count :: "string \<Rightarrow> nat"
  gs_fn :: ir_func
  gs_next_block :: nat
  gs_labels :: nat
  gs_next_func :: nat

definition in_fn :: "(ir_func \<Rightarrow> ir_func) \<Rightarrow> gen_state \<Rightarrow> gen_state" where
  "in_fn f st = st\<lparr>gs_fn := f (gs_fn st)\<rparr>"

definition emit_inst :: "inst \<Rightarrow> block_id \<Rightarrow> gen_state \<Rightarrow> gen_state" where
  "emit_inst i b = in_fn (update_block b (block_append i))"

definition set_exit :: "ir_exit \<Rightarrow> block_id \<Rightarrow> gen_state \<Rightarrow> gen_state" where
  "set_exit e b = in_fn (update_block b (setExit e))"

definition gen_temp :: "ty \<Rightarrow> block_id \<Rightarrow> gen_state \<Rightarrow> left_value \<times> gen_state" where
  "gen_temp t b st = (case newTemp t b (gs_fn st) of (v, fn) \<Rightarrow> (v, st\<lparr>gs_fn := fn\<rparr>))"

definition newBlock :: "string \<Rightarrow> gen_state \<Rightarrow> block_id \<times> gen_state" where
  "newBlock label st =
     (let b = gs_next_block st; fn = gs_fn st in
      (b, st\<lparr>gs_next_block := Suc b,
            gs_fn := fn\<lparr>fn_blocks := fn_blocks fn @ [b], fn_blk := (fn_blk fn)(b := new_ir_block label)\<rparr>\<rparr>))"

definition newLabelBlock :: "gen_state \<Rightarrow> block_id \<times> gen_state" where
  "newLabelBlock st = newBlock (''L'' @ nat_to_string (gs_labels st)) (st\<lparr>gs_labels := Suc (gs_labels st)\<rparr>)"

definition new_alloc :: "alloc \<Rightarrow> gen_state \<Rightarrow> alloc_id \<times> gen_state" where
  "new_alloc a st =
     (let i = gs_next_alloc st in
      (i, st\<lparr>gs_alloc := (gs_alloc st)(i := a), gs_next_alloc := Suc i\<rparr>))"

section \<open>Names\<close>

definition mangled_name :: "sym_def \<Rightarrow> string \<Rightarrow> gen_state \<Rightarrow> string \<times> gen_state" where
  "mangled_name d x st =
     (case gs_names st d of
        Some n \<Rightarrow> (n, st)
      | None \<Rightarrow>
          let n = x @ ''_'' @ nat_to_string (gs_count st x) in
          (n, st\<lparr>gs_names := (gs_names st)(d \<mapsto> n), gs_count := (gs_count st)(x := Suc (gs_count st x))\<rparr>))"

text \<open>\<open>demangle\<close> cuts at the last underscore.\<close>

definition demangle :: "string \<Rightarrow> string" where
  "demangle x =
     (if CHR ''_'' \<notin> set x then x
      else take (length x - Suc (length (takeWhile (\<lambda>c. c \<noteq> CHR ''_'') (rev x)))) x)"

section \<open>Initialisers\<close>

fun const_bytes :: "const_exp \<Rightarrow> u8 list" where
  "const_bytes (CE_int v) = word_bytes 4 v"
| "const_bytes (CE_float v) = word_bytes 4 v"
| "const_bytes (CE_double v) = word_bytes 8 v"
| "const_bytes (CE_bool v) = [if v then 1 else 0]"

definition put_bytes :: "nat \<Rightarrow> u8 list \<Rightarrow> u8 list \<Rightarrow> u8 list result" where
  "put_bytes off bs buf =
     (if off + length bs \<le> length buf then Inr (take off buf @ bs @ drop (off + length bs) buf)
      else Inl (Undefined ''write past the end of a buffer''))"

text \<open>\<open>construct\<close>: the element types of the initialiser and of the target.\<close>

fun init_fill :: "ty \<Rightarrow> ty \<Rightarrow> init_val list \<Rightarrow> nat \<Rightarrow> u8 list \<Rightarrow> u8 list result" where
  "init_fill te ge [] off buf = Inr buf"
| "init_fill te ge (InitExp c # vs) off buf =
     rbind (put_bytes off (const_bytes c) buf) (init_fill te ge vs (off + size_of ge))"
| "init_fill te ge (InitList us # vs) off buf =
     rbind (case (te, ge) of
              (Array e1 n1, Array e2 n2) \<Rightarrow> init_fill e1 e2 us off buf
            | _ \<Rightarrow> Inl (Compiler_error ''Type is not an array''))
       (init_fill te ge vs (off + size_of ge))"

fun elem_of_array :: "ty \<Rightarrow> ty result" where
  "elem_of_array (Array e n) = Inr e"
| "elem_of_array _ = Inl (Compiler_error ''Type is not an array'')"

fun gen_init :: "init_val \<Rightarrow> ty \<Rightarrow> constexpr result" where
  "gen_init (InitExp c) target = Inr (mk_const (const_cval c))"
| "gen_init (InitList vs) target =
     rbind (init_type (InitList vs)) (\<lambda>t.
     rbind (elem_of_array t) (\<lambda>e.
     rbind (elem_of_array target) (\<lambda>ge0.
     let target' = (if \<not> is_array e \<and> is_array ge0 then flatten target else target) in
     rbind (elem_of_array target') (\<lambda>ge.
     rbind (init_fill e ge vs 0 (replicate (size_of target') 0)) (\<lambda>buf.
       Inr (Constexpr (flatten target') (V_bytes buf)))))))"

section \<open>Definitions\<close>

definition bind_alloc :: "sym_def \<Rightarrow> alloc \<Rightarrow> gen_state \<Rightarrow> alloc_id \<times> gen_state" where
  "bind_alloc d a st =
     (case new_alloc a st of (i, st1) \<Rightarrow> (i, st1\<lparr>gs_defs := (gs_defs st1)(d \<mapsto> Def_alloc i)\<rparr>))"

definition gen_const_def :: "sem \<Rightarrow> const_def \<Rightarrow> gen_state \<Rightarrow> (alloc_id \<times> gen_state) result" where
  "gen_const_def info c st =
     (let d = Def_const (cd_id c) in
      rbind (type_of_def info d) (\<lambda>t.
      case mangled_name d (cd_name c) st of (n, st1) \<Rightarrow>
      rbind (gen_init (cd_val c) t) (\<lambda>v.
      rbind (alloc_constant n t v False) (\<lambda>a. Inr (bind_alloc d a st1)))))"

definition gen_var_def :: "sem \<Rightarrow> var_def \<Rightarrow> gen_state \<Rightarrow> (alloc_id \<times> gen_state) result" where
  "gen_var_def info c st =
     (let d = Def_var (vd_id c) in
      rbind (type_of_def info d) (\<lambda>t.
      case mangled_name d (vd_name c) st of (n, st1) \<Rightarrow>
      rbind (case vd_val c of None \<Rightarrow> zeros_like t | Some i \<Rightarrow> gen_init i t) (\<lambda>v.
      rbind (alloc_variable n t (Some v) False) (\<lambda>a. Inr (bind_alloc d a st1)))))"

definition gen_param :: "sem \<Rightarrow> func_param \<Rightarrow> gen_state \<Rightarrow> (alloc_id \<times> gen_state) result" where
  "gen_param info p st =
     (let d = Def_param (fp_id p) in
      rbind (type_of_def info d) (\<lambda>t.
      case mangled_name d (fp_name p) st of (n, st1) \<Rightarrow>
      rbind (alloc_variable n t None False) (\<lambda>a. Inr (bind_alloc d a st1))))"

text \<open>A list of definitions or parameters in order.\<close>

fun gen_all :: "('a \<Rightarrow> 's \<Rightarrow> ('b \<times> 's) result) \<Rightarrow> 'a list \<Rightarrow> 's \<Rightarrow> ('b list \<times> 's) result" where
  "gen_all f [] st = Inr ([], st)"
| "gen_all f (x # xs) st = rbind (f x st) (\<lambda>(y, st1). rbind (gen_all f xs st1) (\<lambda>(ys, st2). Inr (y # ys, st2)))"

definition set_reference :: "alloc_id \<Rightarrow> gen_state \<Rightarrow> gen_state" where
  "set_reference i st = st\<lparr>gs_alloc := (gs_alloc st)(i := (gs_alloc st i)\<lparr>al_reference := True\<rparr>)\<rparr>"

definition mark_array :: "alloc_id \<Rightarrow> gen_state \<Rightarrow> gen_state" where
  "mark_array i st = (if is_array (al_type (gs_alloc st i)) then set_reference i st else st)"

fun gen_decl :: "sem \<Rightarrow> decl \<Rightarrow> gen_state \<Rightarrow> (alloc_id list \<times> gen_state) result" where
  "gen_decl info (ConstDecl t ds) st =
     rbind (gen_all (gen_const_def info) ds st) (\<lambda>(is, st1). Inr (is, fold mark_array is st1))"
| "gen_decl info (VarDecl t ds) st =
     rbind (gen_all (gen_var_def info) ds st) (\<lambda>(is, st1). Inr (is, fold mark_array is st1))"

section \<open>Expressions\<close>

definition gen_lval :: "ty \<times> sym_def \<Rightarrow> gen_state \<Rightarrow> left_value result" where
  "gen_lval l st =
     (case gs_defs st (snd l) of
        None \<Rightarrow> Inl Out_of_range
      | Some (Def_alloc i) \<Rightarrow>
          Inr (if al_reference (gs_alloc st i) then alloc_value (gs_alloc st) i else NamedValue (fst l) (Def_alloc i))
      | Some d \<Rightarrow> Inr (NamedValue (fst l) d))"

definition load_name :: "left_value \<Rightarrow> block_id \<Rightarrow> gen_state \<Rightarrow> left_value \<times> gen_state" where
  "load_name v b st =
     (case type_of_lv v of
        Reference e ro False \<Rightarrow>
          (case gen_temp e b st of (r, st1) \<Rightarrow> (r, emit_inst (Unary Op_LOAD (Some r) (val.Left v)) b st1))
      | _ \<Rightarrow> (v, st))"

definition gen_operation :: "ast_binary_op \<Rightarrow> ty \<Rightarrow> val \<Rightarrow> val \<Rightarrow> block_id \<Rightarrow> gen_state \<Rightarrow> (val \<times> gen_state) result" where
  "gen_operation op t lv rv b st =
     (if op \<noteq> B_INDEX
        then (case gen_temp t b st of (r, st1) \<Rightarrow>
          rbind (convert_binary_op op) (\<lambda>o'. Inr (val.Left r, emit_inst (Binary o' (Some r) lv rv) b st1)))
      else case t of
        Reference e ro s \<Rightarrow>
          (case gen_temp t b st of (r, st1) \<Rightarrow>
             Inr (val.Left r, emit_inst (Binary (if ro then Op_BORROW_ELEM else Op_BORROW_ELEM_MUT) (Some r) lv rv) b st1))
      | _ \<Rightarrow>
          (case gen_temp (borrow True t) b st of (p, st1) \<Rightarrow>
           case gen_temp t b st1 of (r, st2) \<Rightarrow>
             Inr (val.Left r, emit_inst (Unary Op_LOAD (Some r) (val.Left p)) b
               (emit_inst (Binary Op_BORROW_ELEM (Some p) lv rv) b st2))))"

fun name_of_callee :: "left_value \<Rightarrow> (ty \<times> name_def) result" where
  "name_of_callee (NamedValue t d) = Inr (t, d)"
| "name_of_callee _ = Inl Bad_variant"

fun gen_exp :: "typed_exp \<Rightarrow> block_id \<Rightarrow> gen_state \<Rightarrow> (val \<times> gen_state) result"
  and gen_lval_exp :: "typed_lval \<Rightarrow> block_id \<Rightarrow> gen_state \<Rightarrow> (left_value \<times> gen_state) result"
  and gen_binary :: "typed_binary \<Rightarrow> block_id \<Rightarrow> gen_state \<Rightarrow> (val \<times> gen_state) result"
  and gen_args :: "typed_exp list \<Rightarrow> block_id \<Rightarrow> gen_state \<Rightarrow> (val list \<times> gen_state) result" where
  "gen_exp (BoxE e) b st = gen_exp e b st"
| "gen_exp (LValE l) b st = rbind (gen_lval_exp l b st) (\<lambda>(v, st1). Inr (val.Left v, st1))"
| "gen_exp (ConstE c) b st = Inr (Const (mk_const (const_cval c)), st)"
| "gen_exp (UnaryE op t e) b st =
     rbind (gen_exp e b st) (\<lambda>(v, st1).
       case gen_temp t b st1 of (r, st2) \<Rightarrow>
         Inr (val.Left r, emit_inst (Unary (convert_unary_op op) (Some r) v) b st2))"
| "gen_exp (BinaryE e) b st = gen_binary e b st"
| "gen_exp (CallE f l t args) b st =
     rbind (gen_args args b st) (\<lambda>(vs, st1).
       if eq_ty t unit_ty
         then rbind (gen_lval l st1) (\<lambda>c. rbind (name_of_callee c) (\<lambda>(ft, d).
           Inr (Const void_const, emit_inst (CallI None ft d vs) b st1)))
       else (case gen_temp t b st1 of (r, st2) \<Rightarrow>
         rbind (gen_lval l st2) (\<lambda>c. rbind (name_of_callee c) (\<lambda>(ft, d).
           Inr (val.Left r, emit_inst (CallI (Some r) ft d vs) b st2)))))"
| "gen_lval_exp (NameL x l) b st = rbind (gen_lval l st) (\<lambda>v. Inr (load_name v b st))"
| "gen_lval_exp (IndexL e) b st =
     rbind (gen_binary e b st) (\<lambda>(v, st1). case v of
       val.Left r \<Rightarrow> Inr (r, st1) | Const c \<Rightarrow> Inl (Compiler_error ''invalid expr in LValExp''))"
| "gen_binary (BinaryExp op t l r) b st =
     rbind (gen_exp l b st) (\<lambda>(lv, st1). rbind (gen_exp r b st1) (\<lambda>(rv, st2). gen_operation op t lv rv b st2))"
| "gen_args [] b st = Inr ([], st)"
| "gen_args (a # as) b st =
     rbind (gen_exp a b st) (\<lambda>(v, st1). rbind (gen_args as b st1) (\<lambda>(vs, st2). Inr (v # vs, st2)))"

section \<open>Conditions\<close>

text \<open>
  Only an unboxed \<open>&&\<close> or \<open>||\<close> is evaluated by branching; inside parentheses it is an instruction.
\<close>

fun gen_branch :: "typed_exp \<Rightarrow> block_id \<Rightarrow> block_id option \<Rightarrow> block_id option \<Rightarrow> gen_state \<Rightarrow>
    (ir_exit \<times> gen_state) result" where
  "gen_branch (BinaryE (BinaryExp op t l r)) b yes no st =
     (if op = B_AND
        then (case newLabelBlock st of (rb, st1) \<Rightarrow>
          rbind (gen_branch l b (Some rb) no st1) (\<lambda>(le, st2).
          rbind (gen_branch r rb yes no st2) (\<lambda>(re, st3). Inr (le, set_exit re rb st3))))
      else if op = B_OR
        then (case newLabelBlock st of (rb, st1) \<Rightarrow>
          rbind (gen_branch l b yes (Some rb) st1) (\<lambda>(le, st2).
          rbind (gen_branch r rb yes no st2) (\<lambda>(re, st3). Inr (le, set_exit re rb st3))))
      else rbind (gen_binary (BinaryExp op t l r) b st) (\<lambda>(v, st1). Inr (BranchExit v yes no, st1)))"
| "gen_branch e b yes no st = rbind (gen_exp e b st) (\<lambda>(v, st1). Inr (BranchExit v yes no, st1))"

section \<open>Statements\<close>

text \<open>The jump at the end of an arm that control leaves; the target may be the null pointer.\<close>

fun jump_from :: "block_id option \<Rightarrow> block_id option \<Rightarrow> gen_state \<Rightarrow> gen_state result" where
  "jump_from None target st = Inr st"
| "jump_from (Some b) (Some target) st = Inr (set_exit (JumpExit target) b st)"
| "jump_from (Some b) None st = Inl (Undefined ''jump to a null block'')"

text \<open>A local declaration: its initialiser becomes an instruction.\<close>

definition gen_local :: "block_id \<Rightarrow> alloc_id \<Rightarrow> gen_state \<Rightarrow> gen_state" where
  "gen_local b i st =
     (let a = gs_alloc st i in
      if al_comptime a then in_fn (addLocal i) st
      else case al_init a of
        None \<Rightarrow> in_fn (addLocal i) st
      | Some c \<Rightarrow>
          let v = alloc_value (gs_alloc st) i;
              ins = (if al_reference a then Binary Op_STORE None (val.Left v) (Const c)
                     else Unary Op_MOV (Some v) (Const c)) in
          in_fn (addLocal i) ((emit_inst ins b st)\<lparr>gs_alloc := (gs_alloc st)(i := a\<lparr>al_init := None\<rparr>)\<rparr>))"

definition gen_assign_name :: "ty \<times> sym_def \<Rightarrow> typed_exp \<Rightarrow> block_id \<Rightarrow> gen_state \<Rightarrow> gen_state result" where
  "gen_assign_name l e b st =
     rbind (gen_lval l st) (\<lambda>v. rbind (gen_exp e b st) (\<lambda>(x, st1).
       Inr (emit_inst (if isPointer (type_of_lv v) then Binary Op_STORE None (val.Left v) x
                       else Unary Op_MOV (Some v) x) b st1)))"

definition gen_assign_index ::
  "typed_exp \<Rightarrow> typed_exp \<Rightarrow> typed_exp \<Rightarrow> block_id \<Rightarrow> gen_state \<Rightarrow> gen_state result" where
  "gen_assign_index l r e b st =
     rbind (gen_exp l b st) (\<lambda>(arr, st1). rbind (gen_exp r b st1) (\<lambda>(idx, st2).
     rbind (gen_exp e b st2) (\<lambda>(x, st3).
       case gen_temp (borrow False (type_of x)) b st3 of (p, st4) \<Rightarrow>
         Inr (emit_inst (Binary Op_STORE None (val.Left p) x) b
           (emit_inst (Binary Op_BORROW_ELEM_MUT (Some p) arr idx) b st4)))))"

fun gen_stmt :: "sem \<Rightarrow> typed_stmt \<Rightarrow> block_id \<Rightarrow> gen_state \<Rightarrow> (block_id option \<times> gen_state) result"
  and gen_items :: "sem \<Rightarrow> typed_item list \<Rightarrow> block_id \<Rightarrow> gen_state \<Rightarrow> (block_id option \<times> gen_state) result" where
  "gen_stmt info (IfS loc ar c s els) b st =
     (case newBlock (''if_true_'' @ loc) st of (tb, st1) \<Rightarrow>
      case (if ar then (None, st1)
            else case newBlock (''if_exit_'' @ loc) st1 of (x, st2) \<Rightarrow> (Some x, st2)) of (xb, st2) \<Rightarrow>
      (case els of
         Some e \<Rightarrow>
           (case newBlock (''if_false_'' @ loc) st2 of (fb, st3) \<Rightarrow>
            rbind (gen_branch c b (Some tb) (Some fb) st3) (\<lambda>(ex, st4).
            rbind (gen_stmt info s tb (set_exit ex b st4)) (\<lambda>(te, st5).
            rbind (jump_from te xb st5) (\<lambda>st6.
            rbind (gen_stmt info e fb st6) (\<lambda>(fe, st7).
            rbind (jump_from fe xb st7) (\<lambda>st8. Inr (xb, st8)))))))
       | None \<Rightarrow>
           rbind (gen_branch c b (Some tb) xb st2) (\<lambda>(ex, st4).
           rbind (gen_stmt info s tb (set_exit ex b st4)) (\<lambda>(te, st5).
           rbind (jump_from te xb st5) (\<lambda>st6. Inr (xb, st6))))))"
| "gen_stmt info (WhileS loc c s) b st =
     (case newBlock (''while_cond_'' @ loc) st of (cb, st1) \<Rightarrow>
      case newBlock (''while_body_'' @ loc) st1 of (bb, st2) \<Rightarrow>
      case newBlock (''while_exit_'' @ loc) st2 of (xb, st3) \<Rightarrow>
      rbind (gen_branch c cb (Some bb) (Some xb) (set_exit (JumpExit cb) b (in_fn (pushLoop cb xb) st3))) (\<lambda>(ex, st4).
      rbind (gen_stmt info s bb (set_exit ex cb st4)) (\<lambda>(be, st5).
      case be of
        None \<Rightarrow> Inl (Undefined ''setExit of a null block'')
      | Some eb \<Rightarrow>
          rbind (popLoop (gs_fn st5)) (\<lambda>fn.
            Inr (Some xb, set_exit (JumpExit cb) eb (st5\<lparr>gs_fn := fn\<rparr>))))))"
| "gen_stmt info (BlockS items) b st = gen_items info items b st"
| "gen_stmt info (AssignS (NameL x l) e) b st =
     rbind (gen_assign_name l e b st) (\<lambda>st1. Inr (Some b, st1))"
| "gen_stmt info (AssignS (IndexL (BinaryExp op t l r)) e) b st =
     rbind (gen_assign_index l r e b st) (\<lambda>st1. Inr (Some b, st1))"
| "gen_stmt info (ExpS e) b st = rbind (gen_exp e b st) (\<lambda>(v, st1). Inr (Some b, st1))"
| "gen_stmt info (ReturnS None) b st = Inr (None, set_exit (ReturnExit (Const void_const)) b st)"
| "gen_stmt info (ReturnS (Some e)) b st =
     rbind (gen_exp e b st) (\<lambda>(v, st1). Inr (None, set_exit (ReturnExit v) b st1))"
| "gen_stmt info ContinueS b st =
     rbind (currentLoop (gs_fn st)) (\<lambda>(c, x). Inr (None, set_exit (JumpExit c) b st))"
| "gen_stmt info BreakS b st =
     rbind (currentLoop (gs_fn st)) (\<lambda>(c, x). Inr (None, set_exit (JumpExit x) b st))"
| "gen_items info [] b st = Inr (Some b, st)"
| "gen_items info (DeclI d # is) b st =
     rbind (gen_decl info d st) (\<lambda>(as, st1). gen_items info is b (fold (gen_local b) as st1))"
| "gen_items info (StmtI s # is) b st =
     rbind (gen_stmt info s b st) (\<lambda>(e, st1). case e of
       None \<Rightarrow> Inr (None, st1) | Some b' \<Rightarrow> gen_items info is b' st1)"

section \<open>Functions and the program\<close>

definition new_func :: "func_id \<Rightarrow> string \<Rightarrow> ty \<Rightarrow> alloc_id list \<Rightarrow> ir_func" where
  "new_func i x ret params =
     \<lparr>fn_id = i, fn_name = x, fn_ret = ret, fn_params = params, fn_locals = [], fn_blocks = [],
      fn_blk = (\<lambda>b. new_ir_block []), fn_temps = [], fn_loops = []\<rparr>"

definition gen_func :: "sem \<Rightarrow> typed_func \<Rightarrow> gen_state \<Rightarrow> (ir_func \<times> gen_state) result" where
  "gen_func info f st =
     rbind (type_of_def info (Def_fun (fd_id f))) (\<lambda>t. case t of
       Func p ret \<Rightarrow>
         rbind (gen_all (gen_param info) (fd_params f) st) (\<lambda>(params, st1).
         let i = gs_next_func st1 in
         case newBlock ''entry'' (st1\<lparr>gs_fn := new_func i (fd_name f) ret params, gs_labels := 0, gs_next_func := Suc i\<rparr>) of
           (entry, st2) \<Rightarrow>
         rbind (gen_items info (fd_block f) entry (st2\<lparr>gs_defs := (gs_defs st2)(Def_fun (fd_id f) \<mapsto> Def_func i)\<rparr>)) (\<lambda>(e, st3).
         case e of
           None \<Rightarrow> Inr (gs_fn st3, st3)
         | Some b \<Rightarrow>
             if \<not> sub_ty ret unit_ty then Inl (Compiler_error (''control may reach end of function '' @ fd_name f))
             else let st4 = set_exit (ReturnExit (Const void_const)) b st3 in Inr (gs_fn st4, st4)))
     | _ \<Rightarrow> Inl (Compiler_error ''Type is not a function''))"

text \<open>A global that can change is accessed through its reference.\<close>

definition mark_global :: "alloc_id \<Rightarrow> gen_state \<Rightarrow> gen_state" where
  "mark_global i st = (if \<not> al_immutable (gs_alloc st i) then set_reference i st else st)"

fun gen_units :: "sem \<Rightarrow> typed_unit list \<Rightarrow> gen_state \<Rightarrow> ((alloc_id list \<times> ir_func list) \<times> gen_state) result" where
  "gen_units info [] st = Inr (([], []), st)"
| "gen_units info (DeclU d # us) st =
     rbind (gen_decl info d st) (\<lambda>(as, st1). rbind (gen_units info us (fold mark_global as st1)) (\<lambda>((gl, fs), st2).
       Inr ((as @ gl, fs), st2)))"
| "gen_units info (FuncU f # us) st =
     rbind (gen_func info f st) (\<lambda>(fn, st1). rbind (gen_units info us st1) (\<lambda>((gl, fs), st2).
       Inr ((gl, fn # fs), st2)))"

definition gen_builtin :: "sem \<Rightarrow> (unit, unit, unit) func_def \<Rightarrow> gen_state \<Rightarrow> ((string \<times> ty) \<times> gen_state) result" where
  "gen_builtin info f st =
     rbind (type_of_def info (Def_predef (fd_id f))) (\<lambda>t.
       Inr ((fd_name f, t), st\<lparr>gs_defs := (gs_defs st)(Def_predef (fd_id f) \<mapsto> Def_builtin (fd_id f))\<rparr>))"

definition empty_gen :: gen_state where
  "empty_gen =
     \<lparr>gs_alloc = (\<lambda>i. \<lparr>al_name = [], al_type = Bottom, al_comptime = False, al_immutable = False,
                   al_reference = False, al_init = None\<rparr>),
      gs_next_alloc = 0, gs_defs = Map.empty, gs_names = Map.empty, gs_count = (\<lambda>x. 0),
      gs_fn = new_func 0 [] unit_ty [], gs_next_block = 0, gs_labels = 0, gs_next_func = 0\<rparr>"

definition generate :: "sem \<Rightarrow> typed_unit list \<Rightarrow> ir_program result" where
  "generate info us =
     rbind (gen_all (gen_builtin info) builtin_funcs empty_gen) (\<lambda>(bs, st).
     rbind (gen_units info us st) (\<lambda>((gl, fs), st1).
       Inr \<lparr>pr_alloc = gs_alloc st1, pr_globals = gl, pr_funcs = fs, pr_builtins = bs, pr_is_ssa = False\<rparr>))"

end
