(* ===== verification/Irgen_Sound.thy ===== *)
theory Irgen_Sound
  imports Sema_Sound Irgen
begin

text \<open>
  What the translation guarantees about a program the analysis accepts: a checked expression is
  always translated and its value has the recorded type; a statement that always returns leaves no
  open block; the generated names are different and give the source name back.
\<close>

section \<open>Names\<close>

text \<open>The number a decimal string stands for.\<close>

definition decimal_value :: "string \<Rightarrow> nat" where
  "decimal_value s = foldl (\<lambda>n c. 10 * n + (of_char c - 48)) 0 s"

lemma decimal_value_to_string: "decimal_value (nat_to_string n) = n"
proof (induction n rule: nat_to_string.induct)
  case (1 n)
  have "n mod 10 < 10" by simp
  then have d: "of_char (char_of (48 + n mod 10) :: char) = 48 + n mod 10" by simp
  show ?case
  proof (cases "n < 10")
    case True
    then show ?thesis using d by (subst nat_to_string.simps) (simp add: decimal_value_def)
  next
    case False
    then have "decimal_value (nat_to_string n) = 10 * (n div 10) + n mod 10"
      using 1 d by (subst nat_to_string.simps) (simp add: decimal_value_def)
    then show ?thesis by simp
  qed
qed

lemma nat_to_string_inj: "nat_to_string n = nat_to_string m \<Longrightarrow> n = m"
  by (metis decimal_value_to_string)

lemma digit_not_underscore: "k < 10 \<Longrightarrow> (char_of (48 + k :: nat) :: char) \<noteq> CHR ''_''"
proof
  assume "k < 10" "(char_of (48 + k) :: char) = CHR ''_''"
  then have "(of_char (char_of (48 + k) :: char) :: nat) = of_char (CHR ''_'')" by simp
  then show False using \<open>k < 10\<close> by simp
qed

lemma nat_to_string_no_underscore: "CHR ''_'' \<notin> set (nat_to_string n)"
proof (induction n rule: nat_to_string.induct)
  case (1 n)
  have "n mod 10 < 10" by simp
  then show ?case using 1 digit_not_underscore [of n] digit_not_underscore [of "n mod 10"]
    by (subst nat_to_string.simps) auto
qed

lemma demangle_mangled: "demangle (x @ ''_'' @ nat_to_string n) = x"
proof -
  have "takeWhile (\<lambda>c. c \<noteq> CHR ''_'') (rev (nat_to_string n) @ CHR ''_'' # rev x) = rev (nat_to_string n)"
    using nat_to_string_no_underscore by (subst takeWhile_append2) auto
  then show ?thesis by (simp add: demangle_def)
qed

section \<open>Expressions\<close>

text \<open>The definitions the analysis knows have been generated, with their types.\<close>

definition def_agrees :: "alloc_store \<Rightarrow> bool \<Rightarrow> ty \<Rightarrow> name_def \<Rightarrow> bool" where
  "def_agrees A ro t f \<longleftrightarrow>
     (case f of
        Def_alloc i \<Rightarrow>
          al_type (A i) = t \<and> al_immutable (A i) = ro \<and> (is_array t \<longrightarrow> al_reference (A i)) \<and>
          \<not> isPointer t \<and> \<not> is_func t
      | _ \<Rightarrow> is_func t)"

definition agrees :: "sem \<Rightarrow> gen_state \<Rightarrow> bool" where
  "agrees S st \<longleftrightarrow>
     (\<forall>d t. sm_types S d = Some t \<longrightarrow>
       (\<exists>f. gs_defs st d = Some f \<and> def_agrees (gs_alloc st) (d \<in> sm_readonly S) t f))"

definition same_defs :: "gen_state \<Rightarrow> gen_state \<Rightarrow> bool" where
  "same_defs st st' \<longleftrightarrow> gs_defs st' = gs_defs st \<and> gs_alloc st' = gs_alloc st"

lemma same_defs_refl: "same_defs st st" by (simp add: same_defs_def)

lemma same_defs_trans: "same_defs a b \<Longrightarrow> same_defs b c \<Longrightarrow> same_defs a c" by (simp add: same_defs_def)

lemma same_defs_emit: "same_defs st (emit_inst i b st')  \<longleftrightarrow> same_defs st st'"
  by (simp add: same_defs_def emit_inst_def in_fn_def)

lemma same_defs_set_exit: "same_defs st (set_exit e b st')  \<longleftrightarrow> same_defs st st'"
  by (simp add: same_defs_def set_exit_def in_fn_def)

lemma gen_temp_type: "gen_temp t b st = (v, st') \<Longrightarrow> type_of_lv v = t \<and> same_defs st st'"
  by (auto simp: gen_temp_def newTemp_def same_defs_def Let_def split: prod.splits)

lemma same_agrees: "agrees S st \<Longrightarrow> same_defs st st' \<Longrightarrow> agrees S st'"
  by (simp add: agrees_def same_defs_def)

lemma gen_lval_value:
  assumes "agrees S st" "sm_types S d = Some u" "t = decay (d \<in> sm_readonly S) u"
  shows "\<exists>v. gen_lval (t, d) st = Inr v \<and> type_of_lv (fst (load_name v b st)) = t"
proof -
  obtain f where f: "gs_defs st d = Some f" "def_agrees (gs_alloc st) (d \<in> sm_readonly S) u f"
    using assms(1,2) by (auto simp: agrees_def)
  show ?thesis
  proof (cases f)
    case (Def_alloc i)
    let ?a = "gs_alloc st i"
    have a: "al_type ?a = u" "al_immutable ?a = (d \<in> sm_readonly S)" "is_array u \<longrightarrow> al_reference ?a" "\<not> isPointer u"
      using f(2) by (auto simp: def_agrees_def Def_alloc)
    show ?thesis
    proof (cases "al_reference ?a")
      case True
      then show ?thesis using a assms(3) f(1)
        by (cases u) (auto simp: gen_lval_def Def_alloc alloc_value_def load_name_def pointer_def slice_def
          split: prod.splits bool.splits dest: gen_temp_type)
    next
      case False
      then show ?thesis using a assms(3) f(1)
        by (cases u) (auto simp: gen_lval_def Def_alloc load_name_def split: bool.splits)
    qed
  qed (use f assms(3) in \<open>cases u; auto simp: def_agrees_def gen_lval_def load_name_def\<close>)+
qed

lemma gen_lval_checked:
  assumes "an_lval S x bound ro = Inr (t, d)" "agrees S st"
  shows "\<exists>v. gen_lval (t, d) st = Inr v \<and> type_of_lv (fst (load_name v b st)) = t"
proof -
  obtain u where u: "sm_types S d = Some u" "t = decay (d \<in> sm_readonly S) u"
  proof (cases "is_func bound")
    case True
    then obtain p r where b: "bound = Func p r" by (cases bound) auto
    then have "sm_types S d = Some t" "sub_ty t (Func p r)"
      using assms(1) by (auto simp: an_lval_def type_of_def_def rbind_eq_Inr split: option.splits)
    moreover from this(2) have "decay (d \<in> sm_readonly S) t = t" by (cases t) auto
    ultimately show ?thesis using that by simp
  next
    case False
    then show ?thesis using assms(1) that
      by (auto simp: an_lval_def type_of_def_def rbind_eq_Inr Let_def split: option.splits if_splits)
  qed
  show ?thesis by (rule gen_lval_value [OF assms(2) u])
qed

lemma gen_callee_checked:
  assumes "an_lval S x (Func Bottom Top) ro = Inr (t, d)" "call_type t = Inr q" "agrees S st"
  shows "\<exists>v f. gen_lval (t, d) st = Inr v \<and> name_of_callee v = Inr (t, f)"
proof -
  have t: "sm_types S d = Some t" "is_func t"
    using assms(1,2) by (auto simp: an_lval_def type_of_def_def rbind_eq_Inr split: option.splits elim: call_type.elims)
  then obtain f where "gs_defs st d = Some f" "def_agrees (gs_alloc st) (d \<in> sm_readonly S) t f"
    using assms(3) by (auto simp: agrees_def)
  then show ?thesis using t by (cases f) (auto simp: gen_lval_def def_agrees_def)
qed

lemma gen_operation_checked:
  "\<exists>r st'. gen_operation op t lv rv b st = Inr (val.Left r, st') \<and> type_of_lv r = t \<and> same_defs st st'"
proof (cases "op = B_INDEX")
  case True
  then show ?thesis
    by (cases t) (auto simp: gen_operation_def same_defs_emit split: prod.splits dest!: gen_temp_type intro: same_defs_trans)
next
  case False
  then obtain o' where "convert_binary_op op = Inr o'" by (cases op) auto
  then show ?thesis using False
    by (auto simp: gen_operation_def same_defs_emit split: prod.splits dest!: gen_temp_type)
qed

lemma load_name_same: "same_defs st (snd (load_name v b st))"
  by (auto simp: load_name_def same_defs_emit same_defs_refl split: ty.splits bool.splits prod.splits dest: gen_temp_type)

lemma gen_exp_ok:
  "an_exp S e bound ro = Inr (t, e') \<Longrightarrow> agrees S st \<Longrightarrow>
     \<exists>v st'. gen_exp e' b st = Inr (v, st') \<and> eq_ty (type_of v) t \<and> same_defs st st'"
  "an_lval_exp S l bound ro = Inr (t, l') \<Longrightarrow> agrees S st \<Longrightarrow>
     \<exists>v st'. gen_lval_exp l' b st = Inr (v, st') \<and> type_of_lv v = t \<and> same_defs st st'"
  "an_binary S bi bound ro = Inr (t, bi') \<Longrightarrow> agrees S st \<Longrightarrow>
     \<exists>v st'. gen_binary bi' b st = Inr (val.Left v, st') \<and> type_of_lv v = t \<and> same_defs st st'"
  "an_args S as ps = Inr as' \<Longrightarrow> agrees S st \<Longrightarrow>
     \<exists>vs st'. gen_args as' b st = Inr (vs, st') \<and> same_defs st st'"
proof (induction S e bound ro and S l bound ro and S bi bound ro and S as ps
    arbitrary: t e' st and t l' st and t bi' st and as' st rule: an_exp_an_lval_exp_an_binary_an_args.induct)
  case (1 S e bound ro)
  then obtain e1 where "an_exp S e bound ro = Inr (t, e1)" "e' = BoxE e1" by (auto simp: rbind_eq_Inr)
  then show ?case using 1(1) 1(3) by simp
next
  case (2 S l bound ro)
  then obtain l1 where l: "an_lval_exp S l bound ro = Inr (t, l1)" "e' = LValE l1" by (auto simp: rbind_eq_Inr)
  obtain v st' where "gen_lval_exp l1 b st = Inr (v, st')" "type_of_lv v = t" "same_defs st st'"
    using 2(1) [OF l(1) 2(3)] by blast
  then show ?case by (simp add: l(2))
next
  case (3 S c bound ro)
  then show ?case by (auto simp: same_defs_refl const_type_def mk_const_def)
next
  case (4 S op u e bound ro)
  then obtain t1 e1 where e: "an_exp S e (unary_bound op) True = Inr (t, e1)" "e' = UnaryE op t e1" by (auto simp: rbind_eq_Inr)
  obtain v st1 where "gen_exp e1 b st = Inr (v, st1)" "same_defs st st1"
    using 4(1) [OF e(1) 4(3)] by blast
  then show ?case by (auto simp: e(2) same_defs_emit split: prod.splits dest!: gen_temp_type intro: same_defs_trans)
next
  case (5 S bi bound ro)
  then obtain b1 where l: "an_binary S bi bound ro = Inr (t, b1)" "e' = BinaryE b1" by (auto simp: rbind_eq_Inr)
  obtain v st' where "gen_binary b1 b st = Inr (val.Left v, st')" "type_of_lv v = t" "same_defs st st'"
    using 5(1) [OF l(1) 5(3)] by blast
  then show ?case by (simp add: l(2))
next
  case (6 S f u v args bound ro)
  then obtain ft d ps as1 where c: "an_lval S f (Func Bottom Top) True = Inr (ft, d)" "call_type ft = Inr (ps, t)"
      "length args = length ps" "an_args S args ps = Inr as1" "e' = CallE f (ft, d) t as1"
    by (auto simp: rbind_eq_Inr split: if_splits)
  obtain vs st1 where a: "gen_args as1 b st = Inr (vs, st1)" "same_defs st st1"
    using 6(1) [OF c(1) refl c(2) refl _ c(4) 6(3)] c(3) by blast
  have call: "\<exists>v f. gen_lval (ft, d) st' = Inr v \<and> name_of_callee v = Inr (ft, f)" if "same_defs st1 st'" for st'
    using gen_callee_checked [OF c(1,2) same_agrees [OF 6(3) same_defs_trans [OF a(2) that]]] .
  obtain r st2 where r: "gen_temp t b st1 = (r, st2)" by fastforce
  obtain v1 f1 v2 f2 where n: "gen_lval (ft, d) st1 = Inr v1" "name_of_callee v1 = Inr (ft, f1)"
      "gen_lval (ft, d) st2 = Inr v2" "name_of_callee v2 = Inr (ft, f2)"
    using call [OF same_defs_refl] call [of st2] gen_temp_type [OF r] by blast
  show ?case
  proof (cases "eq_ty t unit_ty")
    case True
    then show ?thesis using a n by (simp add: c(5) same_defs_emit void_const_def eq_ty_sym)
  next
    case False
    then show ?thesis using a n gen_temp_type [OF r] by (simp add: c(5) r same_defs_emit) (blast intro: same_defs_trans)
  qed
next
  case (7 S x u bound ro)
  then obtain d where l: "an_lval S x bound ro = Inr (t, d)" "l' = NameL x (t, d)" by (auto simp: rbind_eq_Inr)
  show ?case using gen_lval_checked [OF l(1) 7(2), of b] load_name_same by (auto simp: l(2) prod_eq_iff)
next
  case (8 S bi bound ro)
  then obtain b1 where l: "an_binary S bi bound ro = Inr (t, b1)" "l' = IndexL b1" by (auto simp: rbind_eq_Inr)
  obtain v st' where "gen_binary b1 b st = Inr (val.Left v, st')" "type_of_lv v = t" "same_defs st st'"
    using 8(1) [OF l(1) 8(3)] by blast
  then show ?case by (simp add: l(2))
next
  case (9 S op u l r bound ro)
  let ?lb = "left_bound op bound ro"
  obtain rt r' lt l1 where e: "an_exp S r (right_bound op) True = Inr (rt, r')"
      "an_exp S l ?lb (ro \<or> op \<noteq> B_INDEX) = Inr (lt, l1)" "bi' = BinaryExp op t l1 r'"
      "boxed (right_bound op) (an_exp S r (right_bound op) True) = Inr (rt, r')"
    using 9(3) by (auto simp: rbind_eq_Inr)
  obtain lv st1 where l: "gen_exp l1 b st = Inr (lv, st1)" "same_defs st st1"
    using 9(2) [OF e(4) refl e(2) 9(4)] by blast
  obtain rv st2 where r: "gen_exp r' b st1 = Inr (rv, st2)" "same_defs st1 st2"
    using 9(1) [OF e(1) same_agrees [OF 9(4) l(2)]] by blast
  obtain x st3 where x: "gen_operation op t lv rv b st2 = Inr (val.Left x, st3)" "type_of_lv x = t" "same_defs st2 st3"
    using gen_operation_checked by blast
  show ?case using l(1) r(1) x(1,2) same_defs_trans [OF l(2) same_defs_trans [OF r(2) x(3)]] by (simp add: e(3))
next
  case (10 S ps)
  then show ?case by (auto simp: same_defs_refl)
next
  case (12 S a as p ps)
  then obtain t1 a1 as1 where e: "an_exp S a p True = Inr (t1, a1)" "an_args S as ps = Inr as1" "as' = a1 # as1"
    by (auto simp: rbind_eq_Inr)
  obtain v st1 where l: "gen_exp a1 b st = Inr (v, st1)" "same_defs st st1"
    using 12(1) [OF e(1) 12(4)] by blast
  obtain vs st2 where r: "gen_args as1 b st1 = Inr (vs, st2)" "same_defs st1 st2"
    using 12(2) [OF e(1) refl e(2) same_agrees [OF 12(4) l(2)]] by blast
  show ?case using l r by (auto simp: e(3) intro: same_defs_trans)
qed simp

section \<open>Statements\<close>

lemma same_defs_newLabelBlock: "newLabelBlock st = (b, st') \<Longrightarrow> same_defs st st'"
  by (auto simp: newLabelBlock_def newBlock_def same_defs_def Let_def)

lemma same_defs_newBlock: "newBlock x st = (b, st') \<Longrightarrow> same_defs st st'"
  by (auto simp: newBlock_def same_defs_def Let_def)

lemma an_binary_arms:
  "an_binary S (BinaryExp op u l r) bound ro = Inr (t, b') \<Longrightarrow>
     \<exists>tl tr l' r'. b' = BinaryExp op t l' r' \<and> an_exp S r (right_bound op) True = Inr (tr, r') \<and>
       an_exp S l (left_bound op bound ro) (ro \<or> op \<noteq> B_INDEX) = Inr (tl, l')"
  by (auto simp: rbind_eq_Inr)

lemma gen_branch_ok:
  "an_exp S e bound ro = Inr (t, e') \<Longrightarrow> agrees S st \<Longrightarrow>
     \<exists>x st'. gen_branch e' b yes no st = Inr (x, st') \<and> same_defs st st'"
proof (induction e' b yes no st arbitrary: e bound ro t rule: gen_branch.induct)
  case (1 op t0 l r b yes no st)
  have raw: "\<exists>bi. an_binary S bi bound ro = Inr (t, BinaryExp op t0 l r)" if "an_exp S e bound ro = Inr (t, BinaryE (BinaryExp op t0 l r))"
    using that by (cases e) (auto simp: rbind_eq_Inr split: if_splits)
  obtain bi where bi: "an_binary S bi bound ro = Inr (t, BinaryExp op t0 l r)" using raw [OF 1(5)] by blast
  obtain u l0 r0 where "bi = BinaryExp op u l0 r0" using bi by (cases bi) (auto simp: rbind_eq_Inr)
  then obtain tl tr where a: "an_exp S r0 (right_bound op) True = Inr (tr, r)"
      "an_exp S l0 (left_bound op bound ro) (ro \<or> op \<noteq> B_INDEX) = Inr (tl, l)"
    using an_binary_arms bi by blast
  obtain rb st1 where nb: "newLabelBlock st = (rb, st1)" by fastforce
  have ag: "agrees S st1" using same_agrees [OF 1(6) same_defs_newLabelBlock [OF nb]] .
  consider "op = B_AND" | "op = B_OR" | "op \<noteq> B_AND" "op \<noteq> B_OR" by blast
  then show ?case
  proof cases
    case op: 1
    obtain x st2 where l: "gen_branch l b (Some rb) no st1 = Inr (x, st2)" "same_defs st1 st2"
      using 1(1) [OF op nb [symmetric] a(2) ag] by blast
    obtain y st3 where r: "gen_branch r rb yes no st2 = Inr (y, st3)" "same_defs st2 st3"
      using 1(2) [OF op nb [symmetric] l(1) refl a(1) same_agrees [OF ag l(2)]] by blast
    show ?thesis using l r nb same_defs_newLabelBlock [OF nb]
      by (simp add: op same_defs_set_exit) (blast intro: same_defs_trans)
  next
    case op: 2
    then have op': "op \<noteq> B_AND" by simp
    obtain x st2 where l: "gen_branch l b yes (Some rb) st1 = Inr (x, st2)" "same_defs st1 st2"
      using 1(3) [OF op' op nb [symmetric] a(2) ag] by blast
    obtain y st3 where r: "gen_branch r rb yes no st2 = Inr (y, st3)" "same_defs st2 st3"
      using 1(4) [OF op' op nb [symmetric] l(1) refl a(1) same_agrees [OF ag l(2)]] by blast
    show ?thesis using l r nb same_defs_newLabelBlock [OF nb]
      by (simp add: op same_defs_set_exit) (blast intro: same_defs_trans)
  next
    case op: 3
    obtain v st' where "gen_binary (BinaryExp op t0 l r) b st = Inr (val.Left v, st')" "same_defs st st'"
      using gen_exp_ok(3) [OF bi 1(6)] by blast
    then show ?thesis using op by simp
  qed
qed (use gen_exp_ok(1) in \<open>fastforce simp: rbind_eq_Inr\<close>)+

definition loops :: "gen_state \<Rightarrow> (block_id \<times> block_id) list" where
  "loops st = fn_loops (gs_fn st)"

lemma loops_emit [simp]: "loops (emit_inst i b st) = loops st"
  by (simp add: loops_def emit_inst_def in_fn_def update_block_def)

lemma loops_set_exit [simp]: "loops (set_exit e b st) = loops st"
  by (simp add: loops_def set_exit_def in_fn_def update_block_def)

lemma loops_temp: "gen_temp t b st = (v, st') \<Longrightarrow> loops st' = loops st"
  by (auto simp: loops_def gen_temp_def newTemp_def)

lemma loops_newBlock: "newBlock x st = (b, st') \<Longrightarrow> loops st' = loops st"
  by (auto simp: loops_def newBlock_def Let_def)

lemma loops_newLabelBlock: "newLabelBlock st = (b, st') \<Longrightarrow> loops st' = loops st"
  by (auto simp: newLabelBlock_def loops_def dest: loops_newBlock)

lemma loops_operation: "gen_operation op t lv rv b st = Inr (v, st') \<Longrightarrow> loops st' = loops st"
  by (auto simp: gen_operation_def rbind_eq_Inr split: if_splits prod.splits ty.splits dest!: loops_temp)

lemma loops_load: "loops (snd (load_name v b st)) = loops st"
  by (auto simp: load_name_def split: ty.splits bool.splits prod.splits dest: loops_temp)

lemma gen_exp_loops:
  "gen_exp e b st = Inr (v, st') \<Longrightarrow> loops st' = loops st"
  "gen_lval_exp l b st = Inr (x, st') \<Longrightarrow> loops st' = loops st"
  "gen_binary bi b st = Inr (v, st') \<Longrightarrow> loops st' = loops st"
  "gen_args as b st = Inr (vs, st') \<Longrightarrow> loops st' = loops st"
proof (induction e b st and l b st and bi b st and as b st arbitrary: v st' and x st' and v st' and vs st'
    rule: gen_exp_gen_lval_exp_gen_binary_gen_args.induct)
  case (6 f l t args b st)
  then show ?case
    by (auto simp: rbind_eq_Inr split: if_splits prod.splits dest!: loops_temp)
next
  case (7 x l b st)
  then show ?case using loops_load by (auto simp: rbind_eq_Inr prod_eq_iff)
next
  case (4 op t e b st)
  then obtain w st1 where e: "gen_exp e b st = Inr (w, st1)" by (auto simp: rbind_eq_Inr)
  obtain r st2 where r: "gen_temp t b st1 = (r, st2)" by fastforce
  show ?case using 4 by (auto simp: e r loops_temp [OF r])
next
  case (8 e b st)
  then obtain w st1 where e: "gen_binary e b st = Inr (w, st1)" by (auto simp: rbind_eq_Inr)
  show ?case using 8 by (cases w) (auto simp: e)
qed (auto simp: rbind_eq_Inr dest!: loops_operation)

lemma gen_branch_loops: "gen_branch e b yes no st = Inr (x, st') \<Longrightarrow> loops st' = loops st"
proof (induction e b yes no st arbitrary: x st' rule: gen_branch.induct)
  case (1 op t l r b yes no st)
  obtain rb st1 where nb: "newLabelBlock st = (rb, st1)" by fastforce
  note n = loops_newLabelBlock [OF nb]
  show ?case
  proof (cases "op = B_AND \<or> op = B_OR")
    case True
    then show ?thesis using 1 n by (auto simp: nb rbind_eq_Inr)
  next
    case False
    then show ?thesis using 1(5) gen_exp_loops(3) by (auto simp: rbind_eq_Inr simp del: gen_binary.simps)
  qed
qed (auto simp: rbind_eq_Inr simp del: gen_exp.simps dest: gen_exp_loops(1))

lemma gen_returns:
  "an_stmt s S = Inr (t, s', S') \<Longrightarrow> always_return t \<Longrightarrow> gen_stmt info s' b st = Inr (e, st') \<Longrightarrow> e = None"
  "an_items is u S = Inr (t', is', S') \<Longrightarrow> always_return t' \<Longrightarrow> \<not> always_return u \<Longrightarrow>
     gen_items info is' b st = Inr (e, st') \<Longrightarrow> e = None"
proof (induction s S and "is" u S arbitrary: t s' S' b st e st' and t' is' S' b st e st' rule: an_stmt_an_items.induct)
  case (1 loc u c s S)
  then show ?case by (auto simp: rbind_eq_Inr merge_type_def no_return_def)
next
  case (2 loc u c s e' S)
  obtain c1 s1 e1 where s': "s' = IfS loc True c1 s1 (Some e1)" using 2(3,4) by (auto simp: rbind_eq_Inr)
  show ?case using 2(5) by (simp add: s' rbind_eq_Inr split: prod.splits) blast
next
  case (3 loc c s S)
  then show ?case by (auto simp: rbind_eq_Inr merge_type_def no_return_def)
next
  case (9 items S)
  then obtain is' T where "an_items items no_return (pushScope S) = Inr (t, is', T)" "s' = BlockS is'"
    by (auto simp: rbind_eq_Inr)
  then show ?case using 9(1) [of t is' T b st e st'] 9(3,4) by (simp add: no_return_def)
next
  case (12 d "is" u S)
  then obtain T r where r: "an_decl d S = Inr T" "an_items is u T = Inr (t', r, S')" "is' = DeclI d # r"
    by (auto simp: rbind_eq_Inr)
  show ?case using 12(1) [OF r(1,2) 12(3,4)] 12(5) by (auto simp: r(3) rbind_eq_Inr)
next
  case (13 s "is" u S)
  then obtain t1 s1 T u1 r where T: "an_stmt s S = Inr (t1, s1, T)" "append_type t1 u = Inr u1"
      "an_items is u1 T = Inr (t', r, S')" "is' = StmtI s1 # r"
    by (auto simp: rbind_eq_Inr)
  obtain e1 st1 where g: "gen_stmt info s1 b st = Inr (e1, st1)"
      "(case e1 of None \<Rightarrow> Inr (None, st1) | Some b' \<Rightarrow> gen_items info r b' st1) = Inr (e, st')"
    using 13(6) by (auto simp: T(4) rbind_eq_Inr)
  show ?case
  proof (cases e1)
    case (Some b')
    then have "\<not> always_return t1" using 13(1) [OF T(1) _ g(1)] by auto
    then have "\<not> always_return u1" using T(2) 13(5) by (auto simp: append_type_def rbind_eq_Inr)
    then show ?thesis using 13(2) [OF T(1) refl refl T(2,3) 13(4)] g(2) Some by simp
  qed (use g in simp)
qed (auto simp: rbind_eq_Inr no_return_def)

lemma checked_body_returns:
  assumes "an_func f S = Inr (f', S')" and "gen_items info (fd_block f') b st = Inr (Some b', st')"
  shows "sub_ty (base_type (fd_type f')) unit_ty"
proof (rule ccontr)
  assume n: "\<not> ?thesis"
  obtain T bt block U where r: "an_items (fd_block f) no_return T = Inr (bt, block, U)"
      "always_return bt \<or> sub_ty (base_type (fd_type f)) unit_ty" "fd_type f' = fd_type f" "fd_block f' = block"
    using assms(1) by (auto simp: an_func_def rbind_eq_Inr split: if_splits)
  then show False using gen_returns(2) [OF r(1) _ _ assms(2) [unfolded r(4)]] n by (simp add: no_return_def)
qed

section \<open>Generated names\<close>

fun name_all :: "(sym_def \<times> string) list \<Rightarrow> gen_state \<Rightarrow> string list \<times> gen_state" where
  "name_all [] st = ([], st)"
| "name_all ((d, x) # ds) st =
     (case mangled_name d x st of (n, st1) \<Rightarrow> case name_all ds st1 of (ns, st2) \<Rightarrow> (n # ns, st2))"

text \<open>Every name in use is a source name with a number below its counter, and names are not shared.\<close>

definition names_inv :: "gen_state \<Rightarrow> bool" where
  "names_inv st \<longleftrightarrow>
     (\<forall>d n. gs_names st d = Some n \<longrightarrow> (\<exists>x k. n = x @ ''_'' @ nat_to_string k \<and> k < gs_count st x)) \<and>
     inj_on (gs_names st) (dom (gs_names st))"

lemma mangled_eq: "x @ ''_'' @ nat_to_string k = y @ ''_'' @ nat_to_string j \<longleftrightarrow> x = y \<and> k = j"
  by (metis append_same_eq demangle_mangled nat_to_string_inj same_append_eq)

lemma mangled_name_inv:
  assumes "names_inv st" "mangled_name d x st = (n, st')"
  shows "names_inv st'" "gs_names st' d = Some n" "gs_names st \<subseteq>\<^sub>m gs_names st'"
    "dom (gs_names st') = insert d (dom (gs_names st))"
proof -
  have *: "names_inv st' \<and> gs_names st' d = Some n \<and> gs_names st \<subseteq>\<^sub>m gs_names st' \<and>
    dom (gs_names st') = insert d (dom (gs_names st))"
  proof (cases "gs_names st d")
    case (Some m)
    then show ?thesis using assms by (auto simp: mangled_name_def)
  next
    case None
    then have st': "n = x @ ''_'' @ nat_to_string (gs_count st x)"
        "st' = st\<lparr>gs_names := (gs_names st)(d \<mapsto> n), gs_count := (gs_count st)(x := Suc (gs_count st x))\<rparr>"
      using assms(2) by (auto simp: mangled_name_def Let_def)
    have old: "\<exists>y k. m = y @ ''_'' @ nat_to_string k \<and> k < gs_count st y" if "gs_names st e = Some m" for e m
      using assms(1) that by (auto simp: names_inv_def)
    have new: "gs_names st e \<noteq> Some n" for e
      using old [of e n] unfolding st'(1) mangled_eq by auto
    have "\<exists>y k. m = y @ ''_'' @ nat_to_string k \<and> k < gs_count st' y" if "gs_names st' e = Some m" for e m
    proof (cases "e = d")
      case True
      then show ?thesis using that st' by auto
    next
      case False
      then have "gs_names st e = Some m" using that by (simp add: st'(2))
      then obtain y k where "m = y @ ''_'' @ nat_to_string k" "k < gs_count st y" using old by blast
      then show ?thesis by (intro exI [of _ y] exI [of _ k]) (auto simp: st'(2))
    qed
    moreover have "inj_on (gs_names st') (dom (gs_names st'))"
      using assms(1) new None by (auto simp: st'(2) names_inv_def inj_on_def dom_def)
    ultimately show ?thesis using None by (auto simp: names_inv_def st'(2) map_le_def)
  qed
  then show "names_inv st'" "gs_names st' d = Some n" "gs_names st \<subseteq>\<^sub>m gs_names st'"
    "dom (gs_names st') = insert d (dom (gs_names st))" by blast+
qed

lemma name_all_inv:
  "names_inv st \<Longrightarrow> name_all ds st = (ns, st') \<Longrightarrow>
     names_inv st' \<and> gs_names st \<subseteq>\<^sub>m gs_names st' \<and> map Some ns = map (gs_names st' \<circ> fst) ds"
proof (induction ds arbitrary: st ns st')
  case (Cons dx ds)
  obtain d x where dx: "dx = (d, x)" by fastforce
  obtain n st1 where n: "mangled_name d x st = (n, st1)" by fastforce
  obtain ns' st2 where a: "name_all ds st1 = (ns', st2)" by fastforce
  have e: "ns = n # ns'" "st' = st2" using Cons.prems(2) by (auto simp: dx n a)
  note n' = mangled_name_inv [OF Cons.prems(1) n]
  have i: "names_inv st2 \<and> gs_names st1 \<subseteq>\<^sub>m gs_names st2 \<and> map Some ns' = map (gs_names st2 \<circ> fst) ds"
    using Cons.IH [OF n'(1) a] .
  then have "gs_names st2 d = Some n" using n'(2) by (auto simp: map_le_def dom_def)
  then show ?case using i n'(3) by (auto simp: e dx intro: map_le_trans)
qed simp

lemma names_distinct_from:
  assumes "names_inv st" "distinct (map fst ds)"
  shows "distinct (fst (name_all ds st))"
proof -
  obtain ns st' where a: "name_all ds st = (ns, st')" by fastforce
  note i = name_all_inv [OF assms(1) a]
  have "fst ` set ds \<subseteq> dom (gs_names st')"
  proof
    fix d assume "d \<in> fst ` set ds"
    then have "gs_names st' d \<in> set (map Some ns)" using i by auto
    then show "d \<in> dom (gs_names st')" by auto
  qed
  then have "inj_on (gs_names st') (set (map fst ds))"
    using i by (auto simp: names_inv_def intro: inj_on_subset)
  then have "distinct (map (gs_names st') (map fst ds))" using assms(2) by (simp only: distinct_map)
  then have "distinct (map Some ns)" using i by simp
  then show ?thesis by (simp add: a distinct_map)
qed

lemma names_inv_empty: "names_inv empty_gen"
  by (simp add: names_inv_def empty_gen_def)

section \<open>Properties\<close>


theorem open_end_is_void:
  assumes "an_func f S = Inr (f', S')" and "gen_items info (fd_block f') b st = Inr (Some b', st')"
  shows "sub_ty (base_type (fd_type f')) unit_ty"
  using checked_body_returns [OF assms] .

text \<open>
  A loop whose body ends in break is accepted by the analysis, and its translation reads the null pointer.
\<close>

theorem while_break_null_block:
  assumes "an_stmt (WhileS loc c BreakS) S = Inr (t, s', S')" and "agrees S st"
  shows "gen_stmt info s' b st = Inl (Undefined ''setExit of a null block'')"
proof -
  obtain ct c' where c: "an_exp S c bool_ty True = Inr (ct, c')" "s' = WhileS loc c' BreakS"
    using assms(1) by (auto simp: rbind_eq_Inr)
  obtain cb st1 where n1: "newBlock (''while_cond_'' @ loc) st = (cb, st1)" by fastforce
  obtain bb st2 where n2: "newBlock (''while_body_'' @ loc) st1 = (bb, st2)" by fastforce
  obtain xb st3 where n3: "newBlock (''while_exit_'' @ loc) st2 = (xb, st3)" by fastforce
  let ?st = "set_exit (JumpExit cb) b (in_fn (pushLoop cb xb) st3)"
  have "same_defs st ?st"
    using same_defs_newBlock [OF n1] same_defs_newBlock [OF n2] same_defs_newBlock [OF n3]
    by (simp add: same_defs_set_exit) (simp add: same_defs_def in_fn_def)
  then obtain x st4 where g: "gen_branch c' cb (Some bb) (Some xb) ?st = Inr (x, st4)"
    using gen_branch_ok [OF c(1) same_agrees [OF assms(2)]] by blast
  have "loops (set_exit x cb st4) = fn_loops (gs_fn st3) @ [(cb, xb)]" using gen_branch_loops [OF g]
    by simp (simp add: loops_def in_fn_def pushLoop_def)
  then have l: "currentLoop (gs_fn (set_exit x cb st4)) = Inr (cb, xb)" by (simp add: loops_def currentLoop_def)
  show ?thesis unfolding c(2) gen_stmt.simps n1 n2 n3 prod.case g rbind.simps l option.case ..
qed

text \<open>
  The name the user wrote can be read back from the generated one.
\<close>

theorem demangle_name_of:
  assumes "gs_names st d = None"
  shows "demangle (fst (mangled_name d x st)) = x"
  using assms demangle_mangled by (simp add: mangled_name_def Let_def)

text \<open>
  Different definitions get different names, whatever they are called in the source.
\<close>

theorem names_distinct:
  assumes "distinct (map fst ds)"
  shows "distinct (fst (name_all ds empty_gen))"
  by (rule names_distinct_from [OF names_inv_empty assms])

section \<open>Instances\<close>

definition gen_x :: gen_state where
  "gen_x = empty_gen\<lparr>gs_defs := [Def_var 0 \<mapsto> Def_alloc 0],
     gs_alloc := (\<lambda>i. \<lparr>al_name = ''x_0'', al_type = int_ty, al_comptime = False, al_immutable = False,
                   al_reference = True, al_init = None\<rparr>)\<rparr>"

lemma agrees_x: "agrees sem_x gen_x"
  by (simp add: agrees_def sem_x_def gen_x_def def_agrees_def int_ty_def)

definition sum_x :: raw_exp where
  "sum_x = BinaryE (BinaryExp B_LT () (LValE (NameL ''x'' ())) (ConstE (CE_int 1)))"

definition typed_sum_x :: typed_exp where
  "typed_sum_x = BinaryE (BinaryExp B_LT bool_ty (LValE (NameL ''x'' (int_ty, Def_var 0))) (ConstE (CE_int 1)))"

lemma an_sum_x: "an_exp sem_x sum_x bool_ty True = Inr (bool_ty, typed_sum_x)"
  by (simp add: sum_x_def typed_sum_x_def sem_x_def an_lval_def lookup_var_def type_of_def_def const_type_def
      int_ty_def num_ty_def bool_ty_def boxed_def check_type_def binary_result_def is_comparison_op_def)


definition void_fun :: "(unit, unit, unit) func_def" where
  "void_fun = \<lparr>fd_id = 0, fd_type = T_VOID, fd_name = ''f'', fd_params = [],
     fd_block = [StmtI (IfS ''1:1'' () (ConstE (CE_bool True)) (ReturnS None) None)]\<rparr>"

definition typed_void_fun :: typed_func where
  "typed_void_fun = \<lparr>fd_id = 0, fd_type = T_VOID, fd_name = ''f'', fd_params = [],
     fd_block = [StmtI (IfS ''1:1'' False (ConstE (CE_bool True)) (ReturnS None) None)]\<rparr>"

theorem open_end_is_void_witness: "sub_ty (base_type (fd_type typed_void_fun)) unit_ty"
proof -
  have "\<exists>S. an_func void_fun sem_x = Inr (typed_void_fun, S)"
    by (simp add: an_func_def func_type_def void_fun_def registerFunction_def set_type_def sem_x_def const_type_def
        boxed_def check_type_def bool_ty_def merge_type_def append_type_def join_ty_def no_return_def typed_void_fun_def)
  then obtain S where a: "an_func void_fun sem_x = Inr (typed_void_fun, S)" by blast
  have "\<exists>b st. gen_items sem_x (fd_block typed_void_fun) 0 gen_x = Inr (Some b, st)"
    by (simp add: typed_void_fun_def newBlock_def Let_def)
  then obtain b st where g: "gen_items sem_x (fd_block typed_void_fun) 0 gen_x = Inr (Some b, st)" by blast
  show ?thesis by (rule open_end_is_void [OF a g])
qed

definition loop_x :: typed_stmt where
  "loop_x = WhileS ''1:1'' typed_sum_x BreakS"

theorem while_break_null_block_witness:
  "gen_stmt sem_x loop_x 0 gen_x = Inl (Undefined ''setExit of a null block'')"
proof (rule while_break_null_block [OF _ agrees_x])
  show "an_stmt (WhileS ''1:1'' sum_x BreakS) sem_x = Inr (no_return, loop_x, sem_x)"
    using an_sum_x by (simp add: loop_x_def merge_type_def no_return_def join_ty_def)
qed

theorem demangle_name_of_witness: "demangle (fst (mangled_name (Def_var 0) ''a_1'' empty_gen)) = ''a_1''"
  by (rule demangle_name_of) (simp add: empty_gen_def)

theorem names_distinct_witness:
  "distinct (fst (name_all [(Def_var 0, ''a''), (Def_var 1, ''a''), (Def_param 0, ''a_1'')] empty_gen))"
  by (rule names_distinct) simp

end
