(* ===== verification/Usedef.thy ===== *)
theory Usedef
  imports Ir_Inst
begin

text \<open>
  The use-def graph (\<open>analysis/usedef.h\<close>, \<open>usedef.cpp\<close>) and the callbacks by which the program keeps
  it up to date (\<open>program.cpp\<close>). Instructions and exits live at addresses; a use site is the address
  of the container and the position of the operand in it. An unordered set of sites is a list without
  duplicates, in the order of insertion.
\<close>

section \<open>Operands\<close>

datatype node = Node_inst inst | Node_exit ir_exit

fun node_used :: "node \<Rightarrow> val list" where
  "node_used (Node_inst i) = used i"
| "node_used (Node_exit e) = (case used_exit e of None \<Rightarrow> [] | Some v \<Rightarrow> [v])"

text \<open>The instruction with other operands.\<close>

fun with_operands :: "val list \<Rightarrow> inst \<Rightarrow> inst" where
  "with_operands vs (Phi r args) = Phi r (map2 (\<lambda>(b, v) w. (b, w)) args vs)"
| "with_operands vs (Unary op r x) = Unary op r (vs ! 0)"
| "with_operands vs (Binary op r x y) = Binary op r (vs ! 0) (vs ! 1)"
| "with_operands vs (CallI r t f args) = CallI r t f vs"

fun exit_with :: "val list \<Rightarrow> ir_exit \<Rightarrow> ir_exit" where
  "exit_with vs (JumpExit t) = JumpExit t"
| "exit_with vs (BranchExit c t f) = BranchExit (vs ! 0) t f"
| "exit_with vs (ReturnExit v) = ReturnExit (vs ! 0)"

fun node_with :: "val list \<Rightarrow> node \<Rightarrow> node" where
  "node_with vs (Node_inst i) = Node_inst (with_operands vs i)"
| "node_with vs (Node_exit e) = Node_exit (exit_with vs e)"

lemma used_with: "length vs = length (used i) \<Longrightarrow> used (with_operands vs i) = vs"
  by (cases i) (auto simp: length_Suc_conv numeral_2_eq_2 map_snd_zip split_def comp_def map2_map_map
      intro!: nth_equalityI)

lemma node_used_with: "length vs = length (node_used n) \<Longrightarrow> node_used (node_with vs n) = vs"
proof (cases n)
  case (Node_exit e)
  assume "length vs = length (node_used n)"
  then show ?thesis by (cases e) (auto simp: Node_exit length_Suc_conv)
qed (simp add: used_with)

lemma with_used: "with_operands (used i) i = i"
  by (cases i) (auto simp: split_def intro!: nth_equalityI)

lemma node_with_used: "node_with (node_used n) n = n"
proof (cases n)
  case (Node_exit e)
  then show ?thesis by (cases e) auto
qed (simp add: with_used)

lemma with_with: "length vs = length (used i) \<Longrightarrow> with_operands ws (with_operands vs i) = with_operands ws i"
  by (cases i) (auto simp: split_def intro!: nth_equalityI)

lemma node_with_with: "length vs = length (node_used n) \<Longrightarrow> node_with ws (node_with vs n) = node_with ws n"
proof (cases n)
  case (Node_exit e)
  then show ?thesis by (cases e) auto
qed (simp add: with_with)

text \<open>A function of the position and the operand, applied to every operand.\<close>

definition update_ops :: "(nat \<Rightarrow> val \<Rightarrow> val) \<Rightarrow> node \<Rightarrow> node" where
  "update_ops f n = node_with (map (\<lambda>k. f k (node_used n ! k)) [0..<length (node_used n)]) n"

lemma node_used_update [simp]:
  "length (node_used (update_ops f n)) = length (node_used n)"
  "k < length (node_used n) \<Longrightarrow> node_used (update_ops f n) ! k = f k (node_used n ! k)"
  by (simp_all add: update_ops_def node_used_with)

lemma update_update: "update_ops f (update_ops g n) = update_ops (\<lambda>k v. f k (g k v)) n"
  unfolding update_ops_def by (simp add: node_used_with node_with_with) (rule arg_cong2 [where f = node_with], auto)

lemma update_ops_cong:
  "(\<And>k. k < length (node_used n) \<Longrightarrow> f k (node_used n ! k) = g k (node_used n ! k)) \<Longrightarrow> update_ops f n = update_ops g n"
  unfolding update_ops_def by (rule arg_cong2 [where f = node_with]) auto

lemma update_ops_id: "update_ops (\<lambda>k v. v) n = n"
  by (simp add: update_ops_def map_nth node_with_used)

section \<open>Uses\<close>

type_synonym memory = "nat \<rightharpoonup> node"
type_synonym site = "nat \<times> nat"
type_synonym use_sites = "lv_key \<Rightarrow> site list"

definition add_use :: "site \<Rightarrow> val \<Rightarrow> use_sites \<Rightarrow> use_sites" where
  "add_use s v U = (case v of val.Left l \<Rightarrow> U(key_of l := List.insert s (U (key_of l))) | Const c \<Rightarrow> U)"

definition erase_use :: "site \<Rightarrow> val \<Rightarrow> use_sites \<Rightarrow> use_sites" where
  "erase_use s v U = (case v of val.Left l \<Rightarrow> U(key_of l := removeAll s (U (key_of l))) | Const c \<Rightarrow> U)"

definition uses_after_add :: "nat \<Rightarrow> node \<Rightarrow> use_sites \<Rightarrow> use_sites" where
  "uses_after_add a n = fold (\<lambda>(k, v). add_use (a, k) v) (enumerate 0 (node_used n))"

definition uses_before_erase :: "nat \<Rightarrow> node \<Rightarrow> use_sites \<Rightarrow> use_sites" where
  "uses_before_erase a n = fold (\<lambda>(k, v). erase_use (a, k) v) (enumerate 0 (node_used n))"

definition uses_of :: "lv_key \<Rightarrow> use_sites \<Rightarrow> site list" where
  "uses_of x U = U x"

text \<open>One round of the loop: the operand at the site is taken out, overwritten and entered again.\<close>

definition replace_site :: "val \<Rightarrow> site \<Rightarrow> memory \<times> use_sites \<Rightarrow> memory \<times> use_sites" where
  "replace_site new s st =
     (case st of (M, U) \<Rightarrow>
      case M (fst s) of
        None \<Rightarrow> st
      | Some n \<Rightarrow>
          (M(fst s \<mapsto> update_ops (\<lambda>k v. if k = snd s then new else v) n),
           add_use s new (erase_use s (node_used n ! snd s) U)))"

definition replace_all_uses_with :: "lv_key \<Rightarrow> val \<Rightarrow> memory \<times> use_sites \<Rightarrow> bool \<times> memory \<times> use_sites" where
  "replace_all_uses_with old new st =
     (if snd st old = [] then (False, st) else (True, fold (replace_site new) (snd st old) st))"

text \<open>Registration with the program visits every instruction and exit.\<close>

definition collect_uses :: "(nat \<times> node) list \<Rightarrow> use_sites" where
  "collect_uses ns = fold (\<lambda>(a, n). uses_after_add a n) ns (\<lambda>x. [])"

section \<open>The graph is exact\<close>

definition is_use :: "memory \<Rightarrow> site \<Rightarrow> lv_key \<Rightarrow> bool" where
  "is_use M s x \<longleftrightarrow>
     (\<exists>n l. M (fst s) = Some n \<and> snd s < length (node_used n) \<and> node_used n ! snd s = val.Left l \<and> key_of l = x)"

definition uses_exact :: "memory \<Rightarrow> use_sites \<Rightarrow> bool" where
  "uses_exact M U \<longleftrightarrow> (\<forall>x. distinct (U x) \<and> (\<forall>s. s \<in> set (U x) \<longleftrightarrow> is_use M s x))"

lemma set_add_use: "s' \<in> set (add_use s v U x) \<longleftrightarrow> s' \<in> set (U x) \<or> (s' = s \<and> (\<exists>l. v = val.Left l \<and> key_of l = x))"
  by (auto simp: add_use_def split: val.splits)

lemma set_erase_use: "s' \<in> set (erase_use s v U x) \<longleftrightarrow> s' \<in> set (U x) \<and> \<not> (s' = s \<and> (\<exists>l. v = val.Left l \<and> key_of l = x))"
  by (auto simp: erase_use_def split: val.splits)

lemma distinct_add_use: "(\<And>x. distinct (U x)) \<Longrightarrow> distinct (add_use s v U x)"
  by (auto simp: add_use_def split: val.splits)

lemma distinct_erase_use: "(\<And>x. distinct (U x)) \<Longrightarrow> distinct (erase_use s v U x)"
  by (auto simp: erase_use_def distinct_removeAll split: val.splits)

lemma fold_add_use:
  "s' \<in> set (fold (\<lambda>(k, v). add_use (a, k) v) (enumerate j vs) U x) \<longleftrightarrow>
     s' \<in> set (U x) \<or> (\<exists>k<length vs. \<exists>l. s' = (a, j + k) \<and> vs ! k = val.Left l \<and> key_of l = x)"
proof (induction vs arbitrary: j U)
  case (Cons v vs)
  show ?case unfolding enumerate_simps fold_simps prod.case Cons.IH set_add_use by (auto simp: Ex_less_Suc2)
qed simp

lemma fold_erase_use:
  "s' \<in> set (fold (\<lambda>(k, v). erase_use (a, k) v) (enumerate j vs) U x) \<longleftrightarrow>
     s' \<in> set (U x) \<and> \<not> (\<exists>k<length vs. \<exists>l. s' = (a, j + k) \<and> vs ! k = val.Left l \<and> key_of l = x)"
proof (induction vs arbitrary: j U)
  case (Cons v vs)
  show ?case unfolding enumerate_simps fold_simps prod.case Cons.IH set_erase_use by (auto simp: Ex_less_Suc2)
qed simp

lemma fold_distinct_add: "(\<And>x. distinct (U x)) \<Longrightarrow> distinct (fold (\<lambda>(k, v). add_use (a, k) v) kvs U x)"
  by (induction kvs arbitrary: U) (auto intro: distinct_add_use)

lemma fold_distinct_erase: "(\<And>x. distinct (U x)) \<Longrightarrow> distinct (fold (\<lambda>(k, v). erase_use (a, k) v) kvs U x)"
  by (induction kvs arbitrary: U) (auto intro: distinct_erase_use)

lemma uses_exact_add:
  assumes "uses_exact M U" "M a = None"
  shows "uses_exact (M(a \<mapsto> n)) (uses_after_add a n U)"
  using assms unfolding uses_exact_def uses_after_add_def fold_add_use
  by (auto simp: is_use_def intro!: fold_distinct_add)

lemma uses_exact_erase:
  assumes "uses_exact M U" "M a = Some n"
  shows "uses_exact (M(a := None)) (uses_before_erase a n U)"
  using assms unfolding uses_exact_def uses_before_erase_def fold_erase_use
  by (auto simp: is_use_def intro!: fold_distinct_erase)

lemma uses_exact_empty: "uses_exact Map.empty (\<lambda>x. [])"
  by (simp add: uses_exact_def is_use_def)

lemma uses_exact_collect: "distinct (map fst ns) \<Longrightarrow> uses_exact (map_of ns) (collect_uses ns)"
proof (induction ns rule: rev_induct)
  case (snoc an ns)
  obtain a n where an: "an = (a, n)" by fastforce
  have d: "distinct (map fst ns)" "a \<notin> fst ` set ns" using snoc.prems by (auto simp: an)
  then have "map_of ns a = None" by (simp add: map_of_eq_None_iff)
  moreover have "map_of (ns @ [(a, n)]) = (map_of ns)(a \<mapsto> n)"
    using \<open>map_of ns a = None\<close> by (auto simp: an map_add_def fun_eq_iff split: option.splits)
  moreover have "collect_uses (ns @ [an]) = uses_after_add a n (collect_uses ns)" by (simp add: an collect_uses_def)
  ultimately show ?case using uses_exact_add [OF snoc.IH [OF d(1)], of a n] by (simp only: an)
qed (simp add: collect_uses_def uses_exact_empty)

section \<open>Replacing all uses\<close>

lemma uses_exact_replace:
  assumes "uses_exact M U" "M a = Some n" "k < length (node_used n)"
  shows "uses_exact (M(a \<mapsto> update_ops (\<lambda>j v. if j = k then new else v) n))
           (add_use (a, k) new (erase_use (a, k) (node_used n ! k) U))"
  using assms unfolding uses_exact_def set_add_use set_erase_use
    by (auto simp: is_use_def split: if_splits intro!: distinct_add_use distinct_erase_use)

text \<open>After the sites \<open>P\<close> have been visited.\<close>

definition mem_replaced :: "site set \<Rightarrow> val \<Rightarrow> memory \<Rightarrow> memory" where
  "mem_replaced P new M = (\<lambda>a. map_option (update_ops (\<lambda>k v. if (a, k) \<in> P then new else v)) (M a))"

lemma replaced_insert:
  assumes "M a = Some n"
  shows "(mem_replaced P new M)(a \<mapsto> update_ops (\<lambda>j v. if j = k then new else v)
            (update_ops (\<lambda>k v. if (a, k) \<in> P then new else v) n)) = mem_replaced (insert (a, k) P) new M"
  using assms by (auto simp: mem_replaced_def fun_eq_iff update_update intro: update_ops_cong)

lemma replace_sites:
  assumes "uses_exact (mem_replaced P new M) U"
    and "\<forall>s\<in>set ss. \<exists>n. M (fst s) = Some n \<and> snd s < length (node_used n)"
  shows "\<exists>U'. fold (replace_site new) ss (mem_replaced P new M, U) = (mem_replaced (P \<union> set ss) new M, U') \<and>
           uses_exact (mem_replaced (P \<union> set ss) new M) U'"
  using assms
proof (induction ss arbitrary: P U)
  case (Cons s ss)
  obtain a k where s: "s = (a, k)" by fastforce
  obtain n where n: "M a = Some n" "k < length (node_used n)" using Cons.prems(2) by (auto simp: s)
  let ?n = "update_ops (\<lambda>k v. if (a, k) \<in> P then new else v) n"
  let ?U = "add_use s new (erase_use s (node_used ?n ! k) U)"
  have m: "mem_replaced P new M a = Some ?n" using n by (simp add: mem_replaced_def)
  have ins: "(mem_replaced P new M)(a \<mapsto> update_ops (\<lambda>j v. if j = k then new else v) ?n) = mem_replaced (insert s P) new M"
    unfolding s by (rule replaced_insert [of M a n P new k, OF n(1)])
  have step: "replace_site new s (mem_replaced P new M, U) = (mem_replaced (insert s P) new M, ?U)"
    using ins by (simp add: replace_site_def s m)
  have "uses_exact (mem_replaced (insert s P) new M) ?U"
    using uses_exact_replace [OF Cons.prems(1) m, of k new] n(2) unfolding ins unfolding s by simp
  from Cons.IH [OF this] Cons.prems(2) show ?case by (simp add: step)
qed auto

text \<open>The substitution the passes rely on.\<close>

definition subst_val :: "lv_key \<Rightarrow> val \<Rightarrow> val \<Rightarrow> val" where
  "subst_val old new v = (case v of val.Left l \<Rightarrow> if key_of l = old then new else v | Const c \<Rightarrow> v)"

definition subst_node :: "lv_key \<Rightarrow> val \<Rightarrow> node \<Rightarrow> node" where
  "subst_node old new = update_ops (\<lambda>k. subst_val old new)"

lemma replaced_all:
  assumes "uses_exact M U"
  shows "mem_replaced (set (U old)) new M = (\<lambda>a. map_option (subst_node old new) (M a))"
proof
  fix a
  show "mem_replaced (set (U old)) new M a = map_option (subst_node old new) (M a)"
  proof (cases "M a")
    case (Some n)
    have "update_ops (\<lambda>k v. if (a, k) \<in> set (U old) then new else v) n = subst_node old new n"
      unfolding subst_node_def
      using assms Some by (intro update_ops_cong) (auto simp: uses_exact_def is_use_def subst_val_def split: val.splits)
    then show ?thesis by (simp add: mem_replaced_def Some)
  qed (simp add: mem_replaced_def)
qed

lemma replaced_none: "mem_replaced {} new M = M"
proof
  fix a show "mem_replaced {} new M a = M a" by (cases "M a") (simp_all add: mem_replaced_def update_ops_id)
qed

lemma replace_all_exact:
  assumes "uses_exact M U"
  shows "\<exists>U'. replace_all_uses_with old new (M, U) =
           (\<exists>s. is_use M s old, (\<lambda>a. map_option (subst_node old new) (M a)), U') \<and>
         uses_exact (\<lambda>a. map_option (subst_node old new) (M a)) U'"
proof (cases "U old = []")
  case True
  then have "(\<lambda>a. map_option (subst_node old new) (M a)) = M"
    using replaced_all [OF assms, of old new] by (simp add: replaced_none)
  moreover have "\<not> (\<exists>s. is_use M s old)" using assms True by (metis empty_iff empty_set uses_exact_def)
  ultimately show ?thesis using assms True by (simp add: replace_all_uses_with_def)
next
  case False
  have "\<forall>s\<in>set (U old). \<exists>n. M (fst s) = Some n \<and> snd s < length (node_used n)"
    using assms by (auto simp: uses_exact_def is_use_def)
  from replace_sites [of "{}" new M U, unfolded replaced_none, OF assms this]
  obtain U' where "fold (replace_site new) (U old) (M, U) = (mem_replaced (set (U old)) new M, U')"
      "uses_exact (mem_replaced (set (U old)) new M) U'"
    by auto
  moreover have "\<exists>s. is_use M s old" using assms False by (metis list.set_intros(1) neq_Nil_conv uses_exact_def)
  ultimately show ?thesis using False by (simp add: replace_all_uses_with_def replaced_all [OF assms])
qed

section \<open>The substitution on a program\<close>

text \<open>
  The passes work on a program whose graph is exact, so replacing the uses of a variable is this
  substitution, and the result says whether there was a use.
\<close>

definition subst_inst :: "lv_key \<Rightarrow> val \<Rightarrow> inst \<Rightarrow> inst" where
  "subst_inst old new i = with_operands (map (subst_val old new) (used i)) i"

fun subst_exit :: "lv_key \<Rightarrow> val \<Rightarrow> ir_exit \<Rightarrow> ir_exit" where
  "subst_exit old new (BranchExit c t f) = BranchExit (subst_val old new c) t f"
| "subst_exit old new (ReturnExit v) = ReturnExit (subst_val old new v)"
| "subst_exit old new (JumpExit t) = JumpExit t"

definition subst_block :: "lv_key \<Rightarrow> val \<Rightarrow> ir_block \<Rightarrow> ir_block" where
  "subst_block old new b =
     b\<lparr>bk_insts := map (subst_inst old new) (bk_insts b), bk_exit := map_option (subst_exit old new) (bk_exit b)\<rparr>"

definition subst_func :: "lv_key \<Rightarrow> val \<Rightarrow> ir_func \<Rightarrow> ir_func" where
  "subst_func old new fn =
     fn\<lparr>fn_blk := (\<lambda>b. if b \<in> set (fn_blocks fn) then subst_block old new (fn_blk fn b) else fn_blk fn b)\<rparr>"

definition subst_prog :: "lv_key \<Rightarrow> val \<Rightarrow> ir_program \<Rightarrow> ir_program" where
  "subst_prog old new p = p\<lparr>pr_funcs := map (subst_func old new) (pr_funcs p)\<rparr>"

definition is_var :: "lv_key \<Rightarrow> val \<Rightarrow> bool" where
  "is_var x v = (case v of val.Left l \<Rightarrow> key_of l = x | Const c \<Rightarrow> False)"

definition block_uses :: "lv_key \<Rightarrow> ir_block \<Rightarrow> bool" where
  "block_uses x b \<longleftrightarrow>
     list_ex (\<lambda>i. list_ex (is_var x) (used i)) (bk_insts b) \<or>
     (case bk_exit b of None \<Rightarrow> False | Some e \<Rightarrow> (case used_exit e of None \<Rightarrow> False | Some v \<Rightarrow> is_var x v))"

definition prog_uses :: "lv_key \<Rightarrow> ir_program \<Rightarrow> bool" where
  "prog_uses x p \<longleftrightarrow> list_ex (\<lambda>fn. list_ex (\<lambda>b. block_uses x (fn_blk fn b)) (fn_blocks fn)) (pr_funcs p)"

definition replace_uses :: "lv_key \<Rightarrow> val \<Rightarrow> ir_program \<Rightarrow> bool \<times> ir_program" where
  "replace_uses old new p = (prog_uses old p, subst_prog old new p)"

lemma subst_node_inst: "subst_node old new (Node_inst i) = Node_inst (subst_inst old new i)"
  by (simp add: subst_node_def update_ops_def subst_inst_def) (rule arg_cong2 [where f = with_operands], auto intro: nth_equalityI)

lemma subst_node_exit: "subst_node old new (Node_exit e) = Node_exit (subst_exit old new e)"
  by (cases e) (simp_all add: subst_node_def update_ops_def)

section \<open>Definitions\<close>

fun node_defines :: "node \<Rightarrow> left_value option" where
  "node_defines (Node_inst i) = defined_var i"
| "node_defines (Node_exit e) = None"

text \<open>\<open>DefInfo\<close>: one site per variable.\<close>

type_synonym def_sites = "lv_key \<rightharpoonup> nat"

definition def_after_add :: "nat \<Rightarrow> node \<Rightarrow> def_sites \<Rightarrow> def_sites" where
  "def_after_add a n D = (case node_defines n of None \<Rightarrow> D | Some l \<Rightarrow> D(key_of l \<mapsto> a))"

definition def_before_erase :: "nat \<Rightarrow> node \<Rightarrow> def_sites \<Rightarrow> def_sites" where
  "def_before_erase a n D = (case node_defines n of None \<Rightarrow> D | Some l \<Rightarrow> D(key_of l := None))"

definition def_of :: "lv_key \<Rightarrow> def_sites \<Rightarrow> nat option" where
  "def_of x D = D x"

fun set_result :: "left_value \<Rightarrow> inst \<Rightarrow> inst" where
  "set_result r (Phi q args) = Phi (Some r) args"
| "set_result r (Unary op q x) = Unary op (Some r) x"
| "set_result r (Binary op q x y) = Binary op (Some r) x y"
| "set_result r (CallI q t f args) = CallI (Some r) t f args"

fun node_set_result :: "left_value \<Rightarrow> node \<Rightarrow> node" where
  "node_set_result r (Node_inst i) = Node_inst (set_result r i)"
| "node_set_result r (Node_exit e) = Node_exit e"

text \<open>The order in the code: the new key is set before the old one is erased.\<close>

definition replace_def :: "lv_key \<Rightarrow> left_value \<Rightarrow> memory \<times> def_sites \<Rightarrow> bool \<times> memory \<times> def_sites" where
  "replace_def old r st =
     (case st of (M, D) \<Rightarrow>
      case D old of
        None \<Rightarrow> (False, st)
      | Some a \<Rightarrow> (True, M(a := map_option (node_set_result r) (M a)), (D(key_of r \<mapsto> a))(old := None)))"

text \<open>\<open>MultiDefInfo\<close>: all sites of a variable.\<close>

type_synonym multi_sites = "lv_key \<Rightarrow> nat list"

definition defs_after_add :: "nat \<Rightarrow> node \<Rightarrow> multi_sites \<Rightarrow> multi_sites" where
  "defs_after_add a n D =
     (case node_defines n of None \<Rightarrow> D | Some l \<Rightarrow> D(key_of l := List.insert a (D (key_of l))))"

definition defs_before_erase :: "nat \<Rightarrow> node \<Rightarrow> multi_sites \<Rightarrow> multi_sites" where
  "defs_before_erase a n D =
     (case node_defines n of None \<Rightarrow> D | Some l \<Rightarrow> D(key_of l := removeAll a (D (key_of l))))"

definition defs_of :: "lv_key \<Rightarrow> multi_sites \<Rightarrow> nat list" where
  "defs_of x D = D x"

definition replace_defs :: "lv_key \<Rightarrow> left_value \<Rightarrow> memory \<times> multi_sites \<Rightarrow> bool \<times> memory \<times> multi_sites" where
  "replace_defs old r st =
     (case st of (M, D) \<Rightarrow>
      if D old = [] then (False, st)
      else let (M', D') = fold (\<lambda>a (M, D). (M(a := map_option (node_set_result r) (M a)),
                                          D(key_of r := List.insert a (D (key_of r))))) (D old) (M, D)
           in (True, M', D'(old := [])))"

definition defines_at :: "memory \<Rightarrow> nat \<Rightarrow> lv_key \<Rightarrow> bool" where
  "defines_at M a x \<longleftrightarrow> (\<exists>n l. M a = Some n \<and> node_defines n = Some l \<and> key_of l = x)"

definition def_exact :: "memory \<Rightarrow> def_sites \<Rightarrow> bool" where
  "def_exact M D \<longleftrightarrow> (\<forall>x a. D x = Some a \<longleftrightarrow> defines_at M a x)"

definition defs_exact :: "memory \<Rightarrow> multi_sites \<Rightarrow> bool" where
  "defs_exact M D \<longleftrightarrow> (\<forall>x. distinct (D x) \<and> set (D x) = {a. defines_at M a x})"

lemma defines_at_upd:
  "defines_at (M(a \<mapsto> n)) b x \<longleftrightarrow>
     (if b = a then (\<exists>l. node_defines n = Some l \<and> key_of l = x) else defines_at M b x)"
  "defines_at (M(a := None)) b x \<longleftrightarrow> b \<noteq> a \<and> defines_at M b x"
  by (auto simp: defines_at_def)

lemma defines_at_none: "M a = None \<Longrightarrow> \<not> defines_at M a x"
  by (simp add: defines_at_def)

lemma def_exact_add:
  assumes "def_exact M D" "M a = None" "\<And>l b. node_defines n = Some l \<Longrightarrow> \<not> defines_at M b (key_of l)"
  shows "def_exact (M(a \<mapsto> n)) (def_after_add a n D)"
proof (cases "node_defines n")
  case None
  then show ?thesis using assms(1) defines_at_none [of M a, OF assms(2)]
    by (auto simp: def_exact_def def_after_add_def defines_at_upd)
next
  case (Some l)
  then show ?thesis using assms(1,3) defines_at_none [of M a, OF assms(2)]
    by (auto simp: def_exact_def def_after_add_def defines_at_upd)
qed

lemma def_exact_erase:
  assumes "def_exact M D" "M a = Some n"
  shows "def_exact (M(a := None)) (def_before_erase a n D)"
proof (cases "node_defines n")
  case None
  then have "\<not> defines_at M a x" for x using assms(2) by (simp add: defines_at_def)
  then show ?thesis using assms(1) None by (auto simp: def_exact_def def_before_erase_def defines_at_upd)
next
  case (Some l)
  then have a: "defines_at M a x \<longleftrightarrow> key_of l = x" for x using assms(2) by (simp add: defines_at_def)
  have "D x = Some b \<longleftrightarrow> defines_at M b x" for x b using assms(1) by (simp add: def_exact_def)
  then show ?thesis using a by (simp add: def_exact_def def_before_erase_def defines_at_upd Some) (metis option.inject)
qed

lemma defs_exact_add: "defs_exact M D \<Longrightarrow> M a = None \<Longrightarrow> defs_exact (M(a \<mapsto> n)) (defs_after_add a n D)"
  by (auto simp: defs_exact_def defs_after_add_def defines_at_def split: option.splits)

lemma defs_exact_erase: "defs_exact M D \<Longrightarrow> M a = Some n \<Longrightarrow> defs_exact (M(a := None)) (defs_before_erase a n D)"
  by (auto simp: defs_exact_def defs_before_erase_def defines_at_def distinct_removeAll split: option.splits)

section \<open>Histories\<close>

text \<open>What the passes do to the program, with the callback that follows or precedes it.\<close>

datatype change = Add_node nat node | Erase_node nat | Replace_uses lv_key val

fun apply_change :: "change \<Rightarrow> memory \<times> use_sites \<Rightarrow> memory \<times> use_sites" where
  "apply_change (Add_node a n) (M, U) = (if M a = None then (M(a \<mapsto> n), uses_after_add a n U) else (M, U))"
| "apply_change (Erase_node a) (M, U) =
     (case M a of None \<Rightarrow> (M, U) | Some n \<Rightarrow> (M(a := None), uses_before_erase a n U))"
| "apply_change (Replace_uses x v) (M, U) = snd (replace_all_uses_with x v (M, U))"

lemma apply_change_exact: "uses_exact M U \<Longrightarrow> apply_change c (M, U) = (M', U') \<Longrightarrow> uses_exact M' U'"
proof (cases c)
  case (Replace_uses x v)
  assume "uses_exact M U" "apply_change c (M, U) = (M', U')"
  then show ?thesis using replace_all_exact [of M U x v] by (auto simp: Replace_uses)
qed (auto split: if_splits option.splits intro: uses_exact_add uses_exact_erase)

lemma changes_exact: "uses_exact M U \<Longrightarrow> fold apply_change cs (M, U) = (M', U') \<Longrightarrow> uses_exact M' U'"
proof (induction cs arbitrary: M U)
  case (Cons c cs)
  obtain M1 U1 where "apply_change c (M, U) = (M1, U1)" by fastforce
  then show ?case using Cons.IH [OF apply_change_exact [OF Cons.prems(1)]] Cons.prems(2) by simp
qed simp

text \<open>
  C30: the use-def graph stays exact: from the registration of a program on, through any sequence
  of additions, removals and replacements, the sites recorded for a variable are its uses, each
  once.
\<close>

theorem use_graph_exact:
  assumes "fold apply_change cs (Map.empty, \<lambda>x. []) = (M, U)"
  shows "s \<in> set (uses_of x U) \<longleftrightarrow> is_use M s x"
  using changes_exact [OF uses_exact_empty assms] by (cases s) (simp add: uses_of_def uses_exact_def)

theorem replace_all_uses_substitutes:
  assumes "uses_exact M U"
  shows "fst (snd (replace_all_uses_with old new (M, U))) = (\<lambda>a. map_option (subst_node old new) (M a))"
  using replace_all_exact [OF assms, of old new] by auto

section \<open>Instances\<close>

definition mov_node :: node where
  "mov_node = Node_inst (Unary Op_MOV (Some (TempValue (Prim Int32) 1 0)) (val.Left (TempValue (Prim Int32) 0 0)))"

theorem use_graph_exact_witness:
  "(0, 0) \<in> set (uses_of (K_temp 0 2) (snd (fold apply_change
     [Add_node 0 mov_node, Replace_uses (K_temp 0 0) (val.Left (TempValue (Prim Int32) 2 0))] (Map.empty, \<lambda>x. []))))
   \<longleftrightarrow> is_use (fst (fold apply_change
     [Add_node 0 mov_node, Replace_uses (K_temp 0 0) (val.Left (TempValue (Prim Int32) 2 0))] (Map.empty, \<lambda>x. []))) (0, 0) (K_temp 0 2)"
  by (rule use_graph_exact [where cs = "[Add_node 0 mov_node, Replace_uses (K_temp 0 0) (val.Left (TempValue (Prim Int32) 2 0))]"])
    (rule prod.collapse [symmetric])

theorem replace_all_uses_substitutes_witness:
  "fst (snd (replace_all_uses_with (K_temp 0 0) (Const (mk_const (V_int 7)))
      (map_of [(0, mov_node)], collect_uses [(0, mov_node)]))) 0 =
     Some (Node_inst (Unary Op_MOV (Some (TempValue (Prim Int32) 1 0)) (Const (mk_const (V_int 7)))))"
proof -
  have "uses_exact (map_of [(0, mov_node)]) (collect_uses [(0, mov_node)])" by (rule uses_exact_collect) simp
  from replace_all_uses_substitutes [OF this] show ?thesis
    by (simp add: subst_node_def update_ops_def mov_node_def subst_val_def)
qed

end
