(* ===== verification/Ir_Fold.thy ===== *)
theory Ir_Fold
  imports Ir_Eval Usedef
begin

text \<open>
  Constant folding (\<open>transform/optim/constant_fold.hpp\<close>) and strength reduction
  (\<open>strength_reduce.hpp\<close>). The use-def graph of the pass context is exact, see \<open>Usedef\<close>, so replacing
  all uses is a substitution in the program.
\<close>

section \<open>Folding of constants\<close>

fun fold_unary :: "unary_inst_op \<Rightarrow> constexpr \<Rightarrow> constexpr option" where
  "fold_unary op (Constexpr t v) =
     (if \<not> is_primitive t then None
      else case v of
        V_int w \<Rightarrow> if op = Op_NEG then Some (mk_const (V_int (- w))) else None
      | V_int64 w \<Rightarrow> if op = Op_NEG then Some (mk_const (V_int64 (- w))) else None
      | V_float w \<Rightarrow> if op = Op_NEG then Some (mk_const (V_float (f32_neg w))) else None
      | V_double w \<Rightarrow> if op = Op_NEG then Some (mk_const (V_double (f64_neg w))) else None
      | V_bool b \<Rightarrow> if op = Op_NOT then Some (mk_const (V_bool (\<not> b))) else None
      | V_none \<Rightarrow> None
      | V_bytes bs \<Rightarrow> None)"

abbreviation folded :: "cval \<Rightarrow> constexpr option result" where
  "folded v \<equiv> Inr (Some (mk_const v))"

fun fold_int :: "('a::len word \<Rightarrow> cval) \<Rightarrow> inst_op \<Rightarrow> 'a word \<Rightarrow> 'a word \<Rightarrow> constexpr option result" where
  "fold_int C Op_ADD l r = folded (C (l + r))"
| "fold_int C Op_SUB l r = folded (C (l - r))"
| "fold_int C Op_MUL l r = folded (C (l * r))"
| "fold_int C Op_DIV l r =
     (if r = 0 then Inr None
      else if div_overflows l r then Inl (Undefined ''quotient overflows'') else folded (C (sdiv_word l r)))"
| "fold_int C Op_MOD l r =
     (if r = 0 then Inr None
      else if div_overflows l r then Inl (Undefined ''quotient overflows'') else folded (C (smod_word l r)))"
| "fold_int C Op_SHL l r =
     (if LENGTH('a) \<le> unat r then Inl (Undefined ''shift distance'') else folded (C (push_bit (unat r) l)))"
| "fold_int C Op_SHRL l r =
     (if LENGTH('a) \<le> unat r then Inl (Undefined ''shift distance'') else folded (C (drop_bit (unat r) l)))"
| "fold_int C Op_SHRA l r =
     (if LENGTH('a) \<le> unat r then Inl (Undefined ''shift distance'') else folded (C (signed_drop_bit (unat r) l)))"
| "fold_int C Op_LT l r = folded (V_bool (sint l < sint r))"
| "fold_int C Op_GT l r = folded (V_bool (sint l > sint r))"
| "fold_int C Op_LEQ l r = folded (V_bool (sint l \<le> sint r))"
| "fold_int C Op_GEQ l r = folded (V_bool (sint l \<ge> sint r))"
| "fold_int C Op_EQ l r = folded (V_bool (l = r))"
| "fold_int C Op_NEQ l r = folded (V_bool (l \<noteq> r))"
| "fold_int C _ l r = Inr None"

fun fold_f32 :: "host \<Rightarrow> inst_op \<Rightarrow> u32 \<Rightarrow> u32 \<Rightarrow> constexpr option" where
  "fold_f32 h Op_ADD l r = Some (mk_const (V_float (f32_add h l r)))"
| "fold_f32 h Op_SUB l r = Some (mk_const (V_float (f32_sub h l r)))"
| "fold_f32 h Op_MUL l r = Some (mk_const (V_float (f32_mul h l r)))"
| "fold_f32 h Op_DIV l r = (if f32_zero r then None else Some (mk_const (V_float (f32_div h l r))))"
| "fold_f32 h Op_LT l r = Some (mk_const (V_bool (f32_lt l r)))"
| "fold_f32 h Op_GT l r = Some (mk_const (V_bool (f32_lt r l)))"
| "fold_f32 h Op_LEQ l r = Some (mk_const (V_bool (f32_le l r)))"
| "fold_f32 h Op_GEQ l r = Some (mk_const (V_bool (f32_le r l)))"
| "fold_f32 h Op_EQ l r = Some (mk_const (V_bool (f32_eq l r)))"
| "fold_f32 h Op_NEQ l r = Some (mk_const (V_bool (\<not> f32_eq l r)))"
| "fold_f32 h _ l r = None"

fun fold_f64 :: "host \<Rightarrow> inst_op \<Rightarrow> u64 \<Rightarrow> u64 \<Rightarrow> constexpr option" where
  "fold_f64 h Op_ADD l r = Some (mk_const (V_double (f64_add h l r)))"
| "fold_f64 h Op_SUB l r = Some (mk_const (V_double (f64_sub h l r)))"
| "fold_f64 h Op_MUL l r = Some (mk_const (V_double (f64_mul h l r)))"
| "fold_f64 h Op_DIV l r = (if f64_zero r then None else Some (mk_const (V_double (f64_div h l r))))"
| "fold_f64 h Op_LT l r = Some (mk_const (V_bool (f64_lt l r)))"
| "fold_f64 h Op_GT l r = Some (mk_const (V_bool (f64_lt r l)))"
| "fold_f64 h Op_LEQ l r = Some (mk_const (V_bool (f64_le l r)))"
| "fold_f64 h Op_GEQ l r = Some (mk_const (V_bool (f64_le r l)))"
| "fold_f64 h Op_EQ l r = Some (mk_const (V_bool (f64_eq l r)))"
| "fold_f64 h Op_NEQ l r = Some (mk_const (V_bool (\<not> f64_eq l r)))"
| "fold_f64 h _ l r = None"

fun fold_bool :: "inst_op \<Rightarrow> bool \<Rightarrow> bool \<Rightarrow> constexpr option" where
  "fold_bool Op_AND l r = Some (mk_const (V_bool (l \<and> r)))"
| "fold_bool Op_OR l r = Some (mk_const (V_bool (l \<or> r)))"
| "fold_bool Op_EQ l r = Some (mk_const (V_bool (l = r)))"
| "fold_bool Op_NEQ l r = Some (mk_const (V_bool (l \<noteq> r)))"
| "fold_bool _ l r = None"

text \<open>\<open>get<T>\<close> of the right constant throws when its variant holds another alternative.\<close>

fun fold_values :: "host \<Rightarrow> inst_op \<Rightarrow> cval \<Rightarrow> cval \<Rightarrow> constexpr option result" where
  "fold_values h op V_none r = Inr None"
| "fold_values h op (V_bytes bs) r = Inr None"
| "fold_values h op (V_int a) (V_int b) = fold_int V_int op a b"
| "fold_values h op (V_int64 a) (V_int64 b) = fold_int V_int64 op a b"
| "fold_values h op (V_float a) (V_float b) = Inr (fold_f32 h op a b)"
| "fold_values h op (V_double a) (V_double b) = Inr (fold_f64 h op a b)"
| "fold_values h op (V_bool a) (V_bool b) = Inr (fold_bool op a b)"
| "fold_values h op l r = Inl Bad_variant"

definition fold_binary :: "host \<Rightarrow> inst_op \<Rightarrow> constexpr \<Rightarrow> constexpr \<Rightarrow> constexpr option result" where
  "fold_binary h op l r =
     (if \<not> is_primitive (ctype l) \<or> \<not> is_primitive (ctype r) then Inr None
      else if \<not> eq_ty (ctype l) (ctype r) then Inr None
      else fold_values h op (cvalue l) (cvalue r))"

section \<open>Neutral elements\<close>

fun is_zero :: "cval \<Rightarrow> bool" where
  "is_zero (V_int w) = (w = 0)"
| "is_zero (V_int64 w) = (w = 0)"
| "is_zero (V_float w) = f32_zero w"
| "is_zero (V_double w) = f64_zero w"
| "is_zero (V_bool b) = (\<not> b)"
| "is_zero _ = False"

fun is_one :: "cval \<Rightarrow> bool" where
  "is_one (V_int w) = (w = 1)"
| "is_one (V_int64 w) = (w = 1)"
| "is_one (V_float w) = f32_eq w f32_one"
| "is_one (V_double w) = f64_eq w f64_one"
| "is_one _ = False"

definition const_test :: "(cval \<Rightarrow> bool) \<Rightarrow> val \<Rightarrow> bool" where
  "const_test P x = (case x of Const c \<Rightarrow> P (cvalue c) | val.Left l \<Rightarrow> False)"

fun identity_result :: "inst_op \<Rightarrow> val \<Rightarrow> val \<Rightarrow> val option" where
  "identity_result Op_ADD x y =
     (if const_test is_zero y then Some x else if const_test is_zero x then Some y else None)"
| "identity_result Op_SUB x y = (if const_test is_zero y then Some x else None)"
| "identity_result Op_MUL x y =
     (if const_test is_one y then Some x else if const_test is_one x then Some y else None)"
| "identity_result _ x y = None"

section \<open>Instructions\<close>

text \<open>The constant all arguments of a phi have in common, as the loop finds it.\<close>

fun phi_common :: "constexpr option \<Rightarrow> (block_id \<times> val) list \<Rightarrow> constexpr option result" where
  "phi_common k [] = Inr k"
| "phi_common k ((b, val.Left l) # args) = Inr None"
| "phi_common None ((b, Const c) # args) = phi_common (Some c) args"
| "phi_common (Some k) ((b, Const c) # args) =
     rbind (constexpr_eq k c) (\<lambda>e. if e then phi_common (Some k) args else Inr None)"

fun fold_inst :: "host \<Rightarrow> inst \<Rightarrow> inst option result" where
  "fold_inst h (Unary op (Some r) (Const c)) =
     Inr (map_option (\<lambda>f. Unary Op_MOV (Some r) (Const f)) (fold_unary op c))"
| "fold_inst h (Binary op (Some r) (Const l) (Const c)) =
     rbind (fold_binary h op l c) (\<lambda>f. Inr (map_option (\<lambda>f. Unary Op_MOV (Some r) (Const f)) f))"
| "fold_inst h (Binary op (Some r) x y) = Inr (map_option (Unary Op_MOV (Some r)) (identity_result op x y))"
| "fold_inst h (Phi (Some r) args) =
     rbind (phi_common None args) (\<lambda>f. Inr (map_option (\<lambda>f. Unary Op_MOV (Some r) (Const f)) f))"
| "fold_inst h i = Inr None"

text \<open>The branch on a constant; a null target throws in the constructor of the jump.\<close>

fun fold_exit :: "ir_exit \<Rightarrow> ir_exit option result" where
  "fold_exit (BranchExit (Const c) t f) =
     (if ctype c \<noteq> Prim Int1 then Inr None
      else case cvalue c of
        V_bool b \<Rightarrow> rbind (mk_jump (if b then t else f)) (\<lambda>e. Inr (Some e))
      | _ \<Rightarrow> Inl Bad_variant)"
| "fold_exit e = Inr None"

section \<open>The pass\<close>

fun fold_insts :: "host \<Rightarrow> inst list \<Rightarrow> (bool \<times> inst list) result" where
  "fold_insts h [] = Inr (False, [])"
| "fold_insts h (i # is) =
     rbind (fold_inst h i) (\<lambda>n. rbind (fold_insts h is) (\<lambda>(c, is').
       Inr (case n of Some i' \<Rightarrow> (True, i' # is') | None \<Rightarrow> (c, i # is'))))"

definition fold_block :: "host \<Rightarrow> ir_block \<Rightarrow> (bool \<times> ir_block) result" where
  "fold_block h b =
     rbind (fold_insts h (bk_insts b)) (\<lambda>(c, is).
     rbind (get_exit b) (\<lambda>e. rbind (fold_exit e) (\<lambda>n.
       Inr (case n of Some e' \<Rightarrow> (True, b\<lparr>bk_insts := is, bk_exit := Some e'\<rparr>) | None \<Rightarrow> (c, b\<lparr>bk_insts := is\<rparr>)))))"

fun fold_blocks :: "host \<Rightarrow> block_id list \<Rightarrow> bool \<times> ir_func \<Rightarrow> (bool \<times> ir_func) result" where
  "fold_blocks h [] st = Inr st"
| "fold_blocks h (b # bs) st =
     rbind (fold_block h (fn_blk (snd st) b)) (\<lambda>(c, blk).
       fold_blocks h bs (fst st \<or> c, update_block b (\<lambda>_. blk) (snd st)))"

text \<open>The uses of the compile-time constants among the allocations.\<close>

fun fold_allocs :: "alloc_id list \<Rightarrow> bool \<times> ir_program \<Rightarrow> (bool \<times> ir_program) result" where
  "fold_allocs [] st = Inr st"
| "fold_allocs (i # is) st =
     (let a = pr_alloc (snd st) i in
      if al_comptime a \<and> \<not> al_reference a
        then (case al_init a of
                None \<Rightarrow> Inl (Undefined ''value of an empty optional'')
              | Some c \<Rightarrow>
                  (case replace_uses (key_of (alloc_value (pr_alloc (snd st)) i)) (Const c) (snd st) of (ch, p) \<Rightarrow>
                     fold_allocs is (fst st \<or> ch, p)))
      else fold_allocs is st)"

definition fold_func :: "host \<Rightarrow> nat \<Rightarrow> bool \<times> ir_program \<Rightarrow> (bool \<times> ir_program) result" where
  "fold_func h k st =
     rbind (fold_allocs (fn_locals (pr_funcs (snd st) ! k)) st) (\<lambda>(c, p).
     let fn = pr_funcs p ! k in
     rbind (fold_blocks h (fn_blocks fn) (c, fn)) (\<lambda>(c', fn').
       Inr (c', p\<lparr>pr_funcs := (pr_funcs p)[k := fn']\<rparr>)))"

definition ConstantFolding :: "host \<Rightarrow> ir_program \<Rightarrow> (bool \<times> ir_program) result" where
  "ConstantFolding h p =
     rbind (fold_allocs (pr_globals p) (False, p)) (rfold (fold_func h) [0..<length (pr_funcs p)])"

section \<open>Strength reduction\<close>

fun log2_loop :: "nat \<Rightarrow> nat" where
  "log2_loop u = (if u > 1 then Suc (log2_loop (u div 2)) else 0)"

declare log2_loop.simps [simp del]

definition log2_pow2_impl :: "'a::len word \<Rightarrow> nat option" where
  "log2_pow2_impl v =
     (if sint v \<le> 0 then None
      else if and v (v - 1) \<noteq> 0 then None
      else Some (log2_loop (unat v)))"

fun log2_pow2 :: "cval \<Rightarrow> nat option" where
  "log2_pow2 (V_int v) = log2_pow2_impl v"
| "log2_pow2 (V_int64 v) = log2_pow2_impl v"
| "log2_pow2 _ = None"

text \<open>The distance is an \<open>int\<close> that is given the type of the factor.\<close>

definition shift_by :: "constexpr \<Rightarrow> left_value option \<Rightarrow> val \<Rightarrow> inst option" where
  "shift_by c r x =
     map_option (\<lambda>n. Binary Op_SHL r x (Const (Constexpr (ctype c) (V_int (of_nat n))))) (log2_pow2 (cvalue c))"

fun reduce_inst :: "inst \<Rightarrow> inst option" where
  "reduce_inst (Binary Op_MUL r (Const c) y) = shift_by c r y"
| "reduce_inst (Binary Op_MUL r x (Const c)) = shift_by c r x"
| "reduce_inst i = None"

definition reduce_block :: "ir_block \<Rightarrow> bool \<times> ir_block" where
  "reduce_block b =
     (list_ex (\<lambda>i. reduce_inst i \<noteq> None) (bk_insts b),
      b\<lparr>bk_insts := map (\<lambda>i. case reduce_inst i of Some i' \<Rightarrow> i' | None \<Rightarrow> i) (bk_insts b)\<rparr>)"

definition reduce_func :: "ir_func \<Rightarrow> bool \<times> ir_func" where
  "reduce_func fn =
     (list_ex (\<lambda>b. fst (reduce_block (fn_blk fn b))) (fn_blocks fn),
      fn\<lparr>fn_blk := (\<lambda>b. if b \<in> set (fn_blocks fn) then snd (reduce_block (fn_blk fn b)) else fn_blk fn b)\<rparr>)"

definition ArithmeticStrengthReduction :: "ir_program \<Rightarrow> bool \<times> ir_program" where
  "ArithmeticStrengthReduction p =
     (list_ex (\<lambda>fn. fst (reduce_func fn)) (pr_funcs p),
      p\<lparr>pr_funcs := map (\<lambda>fn. snd (reduce_func fn)) (pr_funcs p)\<rparr>)"

end
