(* ===== verification/Ir_Fold_Sound.thy ===== *)
theory Ir_Fold_Sound
  imports Ir_Fold
begin

text \<open>
  Constant folding and strength reduction keep the value of an instruction. The value is the one the
  IR interpreter computes (\<open>Ir_Eval\<close>) from the values of the variables.
\<close>

section \<open>The value of an instruction\<close>

type_synonym env = "lv_key \<rightharpoonup> cval"

text \<open>A scalar operand with its type; the stored alternative has to fit the type.\<close>

definition scalar :: "ty \<Rightarrow> cval option \<Rightarrow> (prim \<times> cval) result" where
  "scalar t v =
     (case (t, v) of
        (Prim p, Some w) \<Rightarrow> if has_prim p w then Inr (p, w) else Inl Bad_variant
      | _ \<Rightarrow> Inl (Compiler_error ''not a scalar''))"

fun operand :: "env \<Rightarrow> val \<Rightarrow> (prim \<times> cval) result" where
  "operand env (Const c) = scalar (ctype c) (Some (cvalue c))"
| "operand env (val.Left l) = scalar (type_of_lv l) (env (key_of l))"

fun inst_value :: "host \<Rightarrow> block_id \<Rightarrow> env \<Rightarrow> prim \<Rightarrow> inst \<Rightarrow> cval result" where
  "inst_value h prev env d (Phi r args) =
     rbind (phi_value args prev) (\<lambda>x. rbind (operand env x) (\<lambda>(p, v). assign_prim h d p v))"
| "inst_value h prev env d (Unary op r x) = rbind (operand env x) (eval_unary h op d)"
| "inst_value h prev env d (Binary op r x y) =
     rbind (operand env x) (\<lambda>a. rbind (operand env y) (\<lambda>b. eval_op h op d a b))"
| "inst_value h prev env d (CallI r t f args) = Inl (Compiler_error ''call'')"

definition inst_step :: "host \<Rightarrow> block_id \<Rightarrow> inst \<Rightarrow> env \<Rightarrow> env result" where
  "inst_step h prev i env =
     (case defined_var i of
        None \<Rightarrow> Inl (Compiler_error ''not a scalar'')
      | Some r \<Rightarrow>
          (case type_of_lv r of
             Prim d \<Rightarrow> rbind (inst_value h prev env d i) (\<lambda>v. Inr (env(key_of r \<mapsto> v)))
           | _ \<Rightarrow> Inl (Compiler_error ''not a scalar'')))"

lemma inst_step_Inr:
  "inst_step h prev i env = Inr env' \<longleftrightarrow>
     (\<exists>r d c. defined_var i = Some r \<and> type_of_lv r = Prim d \<and> inst_value h prev env d i = Inr c \<and>
        env' = env(key_of r \<mapsto> c))"
  by (auto simp: inst_step_def rbind_eq_Inr split: option.splits ty.splits)

text \<open>
  The types the generator gives: the operands of an operation have one type, which is the type of the
  result unless the operation compares.
\<close>

fun inst_typed :: "inst \<Rightarrow> bool" where
  "inst_typed (Binary op (Some r) x y) =
     (type_of x = type_of y \<and> type_of_lv r = (if is_comparison op then Prim Int1 else type_of x))"
| "inst_typed (Unary op (Some r) x) = (type_of_lv r = type_of x)"
| "inst_typed (Phi (Some r) args) = list_all (\<lambda>a. type_of (snd a) = type_of_lv r) args"
| "inst_typed _ = True"

lemma scalar_eq_Inr: "scalar t v = Inr (p, w) \<longleftrightarrow> t = Prim p \<and> v = Some w \<and> has_prim p w"
  by (auto simp: scalar_def split: ty.splits option.splits)

lemma operand_type: "operand env x = Inr (p, w) \<Longrightarrow> type_of x = Prim p \<and> has_prim p w"
  by (cases x) (auto simp: scalar_eq_Inr)

lemma operand_const: "operand env (Const c) = Inr (p, w) \<longleftrightarrow> c = Constexpr (Prim p) w \<and> has_prim p w"
  by (cases c) (auto simp: scalar_eq_Inr)

lemma type_of_cval_prim: "has_prim p v \<Longrightarrow> p \<noteq> Float \<Longrightarrow> type_of_cval v = Prim p"
  by (cases p; cases v) auto

lemma eval_binary_same:
  assumes "has_prim p a" "has_prim p b"
  shows "eval_binary h op p a b = arith h op a b"
proof (cases "op = Op_MOD \<and> p \<in> {Float32, Float64, Float}")
  case True
  then consider x y where "p = Float32" "a = V_float x" "b = V_float y"
    | x y where "p \<noteq> Float32" "a = V_double x" "b = V_double y"
    using assms by (cases p; cases a; cases b) auto
  then show ?thesis
    using True conv_to_same by cases (auto simp: eval_binary_def)
qed (use assms in \<open>auto simp: eval_binary_def conv_to_same\<close>)

lemma eval_same:
  "has_prim p a \<Longrightarrow> has_prim p b \<Longrightarrow> \<not> is_comparison op \<Longrightarrow> eval_op h op p (p, a) (p, b) = arith h op a b"
  by (simp add: eval_op_def eval_binary_same)

lemma eval_comparison_value:
  "has_prim p a \<Longrightarrow> has_prim p b \<Longrightarrow> is_comparison op \<Longrightarrow>
     eval_op h op Int1 (p, a) (p, b) = rbind (compare op a b) (\<lambda>c. Inr (V_bool c))"
  by (simp add: eval_op_def eval_comparison_def common_type_def conv_to_same)


section \<open>Constant folding\<close>

text \<open>What folding two values yields, and what the interpreter computes.\<close>

definition agrees_with :: "constexpr \<Rightarrow> inst_op \<Rightarrow> cval result \<Rightarrow> bool result \<Rightarrow> bool" where
  "agrees_with c op ar cmp \<longleftrightarrow>
     (if is_comparison op then \<exists>t. c = mk_const (V_bool t) \<and> cmp = Inr t else \<exists>v. c = mk_const v \<and> ar = Inr v)"

lemma sint_eq: "sint a = sint b \<longleftrightarrow> a = b"
  by (auto intro: signed_word_eqI)

lemma fold_int_sound:
  "fold_int C op a b = Inr (Some c) \<Longrightarrow>
     agrees_with c op (rbind (arith_int op a b) (\<lambda>v. Inr (C v))) (by_tests op (<) (\<le>) (=) (sint a) (sint b))"
  by (cases op) (auto simp: agrees_with_def is_comparison_def sint_eq split: if_splits)

lemma fold_f32_sound:
  "fold_f32 h op a b = Some c \<Longrightarrow>
     agrees_with c op (rbind (arith_f32 h op a b) (\<lambda>v. Inr (V_float v))) (by_tests op f32_lt f32_le f32_eq a b)"
  by (cases op) (auto simp: agrees_with_def is_comparison_def split: if_splits)

lemma fold_f64_sound:
  "fold_f64 h op a b = Some c \<Longrightarrow>
     agrees_with c op (rbind (arith_f64 h op a b) (\<lambda>v. Inr (V_double v))) (by_tests op f64_lt f64_le f64_eq a b)"
  by (cases op) (auto simp: agrees_with_def is_comparison_def split: if_splits)

lemma fold_bool_sound:
  "fold_bool op a b = Some c \<Longrightarrow>
     agrees_with c op (rbind (arith_bool op a b) (\<lambda>v. Inr (V_bool v))) (by_tests op (<) (\<le>) (=) a b)"
  by (cases op) (auto simp: agrees_with_def is_comparison_def)

lemma fold_values_sound:
  "fold_values h op a b = Inr (Some c) \<Longrightarrow> agrees_with c op (arith h op a b) (compare op a b)"
  by (cases a; cases b)
    (simp_all add: fold_int_sound fold_f32_sound fold_f64_sound fold_bool_sound)

lemma mov_const: "has_prim d v \<Longrightarrow> rbind (operand env (Const (mk_const v))) (eval_unary h Op_MOV d) = Inr v"
  by (cases d; cases v) (simp_all add: mk_const_def scalar_def assign_prim_def assign_pairs_def)

lemma mov_same:
  "operand env x = Inr (d, v) \<Longrightarrow> rbind (operand env x) (eval_unary h Op_MOV d) = Inr v"
  by (simp add: assign_prim_def)

lemma fold_binary_value:
  assumes "fold_binary h op l c = Inr (Some f)"
    and "operand env (Const l) = Inr (p, a)" "operand env (Const c) = Inr (p, b)"
    and "d = (if is_comparison op then Int1 else p)" "eval_op h op d (p, a) (p, b) = Inr v"
  shows "rbind (operand env (Const f)) (eval_unary h Op_MOV d) = Inr v"
proof -
  have lc: "l = Constexpr (Prim p) a" "has_prim p a" "c = Constexpr (Prim p) b" "has_prim p b"
    using assms(2,3) unfolding operand_const by simp_all
  then have ag: "agrees_with f op (arith h op a b) (compare op a b)"
    using assms(1) by (intro fold_values_sound) (simp add: fold_binary_def)
  show ?thesis
  proof (cases "is_comparison op")
    case True
    then obtain t where "f = mk_const (V_bool t)" "compare op a b = Inr t" using ag by (auto simp: agrees_with_def)
    then have "f = mk_const v" "v = V_bool t" using True assms(4,5) lc(2,4) by (simp_all add: eval_comparison_value)
    then show ?thesis using True assms(4) by (simp only: mov_const has_prim.simps if_True)
  next
    case False
    then obtain w where f: "f = mk_const w" "arith h op a b = Inr w" using ag by (auto simp: agrees_with_def)
    then have "v = w" using False assms(4,5) lc(2,4) by (simp add: eval_same)
    then show ?thesis using False assms(4) f mov_const arith_has_prim [OF lc(2,4) f(2)] by simp
  qed
qed

lemma fold_unary_value:
  assumes "fold_unary op c = Some f" "operand env (Const c) = Inr (d, a)" "eval_unary h op d (d, a) = Inr v"
  shows "rbind (operand env (Const f)) (eval_unary h Op_MOV d) = Inr v"
proof -
  have c: "c = Constexpr (Prim d) a" "has_prim d a" using assms(2) unfolding operand_const by simp_all
  have "f = mk_const v \<and> has_prim d v"
    using assms(1,3) c(2) unfolding c(1)
    by (cases a; cases d) (auto simp: eval_neg_def eval_not_def split: if_splits)
  then show ?thesis using mov_const by simp
qed

lemma const_test_operand:
  "const_test P x \<Longrightarrow> operand env x = Inr (p, v) \<Longrightarrow> P v"
  by (cases x) (auto simp: const_test_def scalar_eq_Inr)

lemma arith_neutral:
  assumes "int_prim p" "has_prim p a" "has_prim p b"
  shows "is_zero b \<Longrightarrow> arith h Op_ADD a b = Inr a" "is_zero a \<Longrightarrow> arith h Op_ADD a b = Inr b"
    "is_zero b \<Longrightarrow> arith h Op_SUB a b = Inr a" "is_one b \<Longrightarrow> arith h Op_MUL a b = Inr a"
    "is_one a \<Longrightarrow> arith h Op_MUL a b = Inr b"
  using assms by (auto simp: int_prim_def elim!: has_prim.elims)

lemma identity_value:
  assumes "identity_result op x y = Some z" "int_prim p"
    and "operand env x = Inr (p, a)" "operand env y = Inr (p, b)" "eval_op h op p (p, a) (p, b) = Inr v"
  shows "operand env z = Inr (p, v)"
proof -
  have h: "has_prim p a" "has_prim p b" using operand_type assms(3,4) by blast+
  have op: "op \<in> {Op_ADD, Op_SUB, Op_MUL}" using assms(1) by (cases op) auto
  then have "\<not> is_comparison op" by (auto simp: is_comparison_def)
  then have "arith h op a b = Inr v" using assms(5) h by (simp add: eval_same)
  then show ?thesis using assms(1,3,4) op arith_neutral [OF assms(2) h]
    by (auto split: if_splits dest!: const_test_operand [OF _ assms(3)] const_test_operand [OF _ assms(4)])
qed

lemma constexpr_eq_int:
  assumes "constexpr_eq k c = Inr True" "int_prim d" "ctype k = Prim d" "ctype c = Prim d" "has_prim d (cvalue c)"
  shows "k = c"
  using assms by (cases k; cases c; cases "cvalue k"; cases "cvalue c") (auto simp: constexpr_eq_def int_prim_def)

lemma phi_common_some:
  "phi_common (Some k) args = Inr (Some c) \<Longrightarrow>
     c = k \<and> (\<forall>a\<in>set args. \<exists>c'. snd a = Const c' \<and> constexpr_eq k c' = Inr True)"
proof (induction args)
  case (Cons a args)
  obtain b' x where a: "a = (b', x)" by fastforce
  obtain c' where x: "x = Const c'" using Cons.prems by (cases x) (auto simp: a)
  obtain e where "constexpr_eq k c' = Inr e" "(if e then phi_common (Some k) args else Inr None) = Inr (Some c)"
    using Cons.prems by (auto simp: a x rbind_eq_Inr)
  then show ?case using Cons.IH by (cases e) (auto simp: a x)
qed auto

lemma phi_value_in: "phi_value args b = Inr x \<Longrightarrow> (b, x) \<in> set args"
  by (induction args b rule: phi_value.induct) (auto split: if_splits)

lemma phi_common_value:
  assumes "phi_common None args = Inr (Some c)" "phi_value args b = Inr x" "operand env x = Inr (d, v)" "int_prim d"
    and "list_all (\<lambda>a. type_of (snd a) = Prim d) args"
  shows "x = Const c"
proof -
  obtain b0 x0 rest where args: "args = (b0, x0) # rest" using assms(2) by (cases args) auto
  obtain c0 where x0: "x0 = Const c0" using assms(1) by (cases x0) (auto simp: args)
  have r: "c = c0" "\<forall>a\<in>set rest. \<exists>c'. snd a = Const c' \<and> constexpr_eq c0 c' = Inr True"
    using phi_common_some [of c0 rest c] assms(1) by (auto simp: args x0)
  have "(b, x) \<in> set args" using phi_value_in [OF assms(2)] .
  then consider "x = x0" | "(b, x) \<in> set rest" by (auto simp: args)
  then show ?thesis
  proof cases
    case 2
    then obtain c' where c': "x = Const c'" "constexpr_eq c0 c' = Inr True" using r(2) by force
    then have "ctype c' = Prim d" "has_prim d (cvalue c')" using assms(3) by (auto simp: scalar_eq_Inr)
    moreover have "ctype c0 = Prim d" using assms(5) by (simp add: args x0)
    ultimately show ?thesis using constexpr_eq_int [OF c'(2) assms(4)] c'(1) r(1) by simp
  qed (simp add: x0 r(1))
qed

lemma fold_identity_value:
  assumes "map_option (Unary Op_MOV (Some r)) (identity_result op x y) = Some i'" "inst_typed (Binary op (Some r) x y)"
    and "type_of_lv r = Prim d" "int_prim d" "inst_value h prev env d (Binary op (Some r) x y) = Inr v"
  shows "defined_var i' = Some r \<and> inst_value h prev env d i' = Inr v"
proof -
  obtain z where z: "identity_result op x y = Some z" "i' = Unary Op_MOV (Some r) z" using assms(1) by auto
  then have nc: "\<not> is_comparison op" by (cases op) (auto simp: is_comparison_def)
  obtain p a q b where a: "operand env x = Inr (p, a)" "operand env y = Inr (q, b)" "eval_op h op d (p, a) (q, b) = Inr v"
    using assms(5) by (auto simp: rbind_eq_Inr)
  have "p = d \<and> q = d" using operand_type [OF a(1)] operand_type [OF a(2)] assms(2,3) nc by simp
  then have "operand env z = Inr (d, v)" using identity_value [OF z(1) assms(4)] a by simp
  then show ?thesis using mov_same z(2) by simp
qed

lemma fold_inst_value:
  assumes "fold_inst h i = Inr (Some i')" "inst_typed i" "defined_var i = Some r" "type_of_lv r = Prim d" "int_prim d"
    and "inst_value h prev env d i = Inr v"
  shows "defined_var i' = Some r \<and> inst_value h prev env d i' = Inr v"
  using assms(1)
proof (cases "(h, i)" rule: fold_inst.cases)
  case (1 h' op r' c)
  then have i: "i = Unary op (Some r') (Const c)" by simp
  then obtain f where f: "fold_unary op c = Some f" "i' = Unary Op_MOV (Some r') (Const f)" using assms(1) by auto
  obtain p a where a: "operand env (Const c) = Inr (p, a)" "eval_unary h op d (p, a) = Inr v"
    using assms(6) by (auto simp: i rbind_eq_Inr simp del: operand.simps)
  then have "p = d" using operand_type [OF a(1)] assms(2-4) by (simp add: i)
  then show ?thesis using fold_unary_value f a assms(3) i by simp
next
  case (2 h' op r' l c)
  then have i: "i = Binary op (Some r') (Const l) (Const c)" by simp
  then obtain f where f: "fold_binary h op l c = Inr (Some f)" "i' = Unary Op_MOV (Some r') (Const f)"
    using assms(1) by (auto simp: rbind_eq_Inr)
  obtain p a q b where a: "operand env (Const l) = Inr (p, a)" "operand env (Const c) = Inr (q, b)"
      "eval_op h op d (p, a) (q, b) = Inr v"
    using assms(6) by (auto simp: i rbind_eq_Inr simp del: operand.simps)
  then have "p = q" "d = (if is_comparison op then Int1 else p)"
    using operand_type [OF a(1)] operand_type [OF a(2)] assms(2-4) by (auto simp: i)
  then show ?thesis using fold_binary_value [OF f(1) a(1)] f(2) a assms(3) i by simp
next
  case (4 h' r' args)
  then have i: "i = Phi (Some r') args" by simp
  then obtain f where f: "phi_common None args = Inr (Some f)" "i' = Unary Op_MOV (Some r') (Const f)"
    using assms(1) by (auto simp: rbind_eq_Inr)
  obtain x p a where a: "phi_value args prev = Inr x" "operand env x = Inr (p, a)" "assign_prim h d p a = Inr v"
    using assms(6) by (auto simp: i rbind_eq_Inr)
  have t: "list_all (\<lambda>a. type_of (snd a) = Prim d) args" using assms(2-4) by (simp add: i)
  then have "p = d" using phi_value_in [OF a(1)] operand_type [OF a(2)] by (auto simp: list_all_iff)
  then have "x = Const f" using phi_common_value [OF f(1) a(1) _ assms(5) t] a(2) by simp
  then show ?thesis using f(2) a \<open>p = d\<close> assms(3) i by simp
qed (use assms fold_identity_value in \<open>auto simp del: inst_value.simps inst_typed.simps\<close>)

section \<open>Strength reduction\<close>

lemma pow2_nat: "0 < u \<Longrightarrow> and u (u - 1) = 0 \<Longrightarrow> u = 2 ^ log2_loop u" for u :: nat
proof (induction u rule: log2_loop.induct)
  case (1 u)
  show ?case
  proof (cases "u > 1")
    case True
    have e: "even u"
    proof (rule ccontr)
      assume "odd u"
      then have "u - 1 = 2 * (u div 2)" "(u - 1) div 2 = u div 2" using True by presburger+
      then have "and u (u - 1) = 2 * and (u div 2) (u div 2)" using \<open>odd u\<close> by (subst and_rec) simp
      then show False using 1(3) True by simp
    qed
    then have "(u - 1) div 2 = u div 2 - 1" by presburger
    then have "and u (u - 1) = 2 * and (u div 2) (u div 2 - 1)" using e by (subst and_rec) simp
    then have "u div 2 = 2 ^ log2_loop (u div 2)" using 1(1) True 1(3) by simp
    then have "u = 2 * 2 ^ log2_loop (u div 2)" using e by auto
    then show ?thesis using True by (subst log2_loop.simps) simp
  next
    case False
    then show ?thesis using 1(2) by (subst log2_loop.simps) simp
  qed
qed

lemma log2_pow2_impl_pow:
  fixes v :: "'a::len word"
  assumes "log2_pow2_impl v = Some n"
  shows "v = 2 ^ n \<and> n < LENGTH('a)"
proof -
  have v: "0 < sint v" "and v (v - 1) = 0" "n = log2_loop (unat v)"
    using assms by (auto simp: log2_pow2_impl_def split: if_splits)
  then have "v \<noteq> 0" by auto
  then have p: "0 < unat v" by (simp add: unat_gt_0)
  have "unat (v - 1) = unat v - 1" by (rule unat_minus_one [OF \<open>v \<noteq> 0\<close>])
  then have "and (unat v) (unat v - 1) = unat (and v (v - 1))" by (simp add: unsigned_and_eq)
  then have "and (unat v) (unat v - 1) = 0" using v(2) by simp
  then have u: "unat v = 2 ^ n" using pow2_nat p v(3) by simp
  moreover have "(2::nat) ^ n < 2 ^ LENGTH('a)"
    using unsigned_less [of v, where ?'a = nat] by (simp only: u)
  moreover have "v = of_nat (unat v)" by simp
  ultimately show ?thesis by (metis of_nat_numeral of_nat_power one_less_numeral_iff power_strict_increasing_iff semiring_norm(76))
qed

lemma mul_pow2_shift:
  fixes v :: u32
  assumes "log2_pow2_impl v = Some n"
  shows "a * v = push_bit (unat (of_nat n :: u32)) a" "unat (of_nat n :: u32) < 32"
proof -
  have v: "v = 2 ^ n" "n < 32" using log2_pow2_impl_pow [OF assms] by simp_all
  then have "unat (of_nat n :: u32) = n" by (simp add: unsigned_of_nat take_bit_nat_eq_self)
  then show "a * v = push_bit (unat (of_nat n :: u32)) a" "unat (of_nat n :: u32) < 32"
    using v by (simp_all add: push_bit_eq_mult)
qed

lemma shift_by_value:
  assumes "shift_by c (Some r) x = Some i'" "operand env x = Inr (Int32, a)" "operand env (Const c) = Inr (Int32, b)"
    and "arith h Op_MUL a b = Inr v"
  shows "defined_var i' = Some r \<and> inst_value h prev env Int32 i' = Inr v"
proof -
  obtain w u where ab: "a = V_int w" "b = V_int u"
    using operand_type [OF assms(2)] operand_type [OF assms(3)] by (cases a; cases b) auto
  have c: "c = Constexpr (Prim Int32) (V_int u)" using assms(3) ab unfolding operand_const by simp
  then obtain n where n: "log2_pow2_impl u = Some n" "i' = Binary Op_SHL (Some r) x (Const (Constexpr (Prim Int32) (V_int (of_nat n))))"
    using assms(1) by (auto simp: shift_by_def)
  have "v = V_int (push_bit (unat (of_nat n :: u32)) w)" using assms(4) mul_pow2_shift(1) [OF n(1)] by (simp add: ab)
  then show ?thesis using assms(2) mul_pow2_shift(2) [OF n(1)]
    by (simp add: n(2) scalar_def ab eval_op_def eval_binary_def is_comparison_def)
qed

lemma reduce_inst_value:
  assumes "reduce_inst i = Some i'" "inst_typed i" "defined_var i = Some r" "type_of_lv r = Prim Int32"
    and "inst_value h prev env Int32 i = Inr v"
  shows "defined_var i' = Some r \<and> inst_value h prev env Int32 i' = Inr v"
proof -
  obtain x y where i: "i = Binary Op_MUL (Some r) x y" using assms(1,3) by (cases i rule: reduce_inst.cases) auto
  obtain p a q b where a: "operand env x = Inr (p, a)" "operand env y = Inr (q, b)" "eval_op h Op_MUL Int32 (p, a) (q, b) = Inr v"
    using assms(5) by (auto simp: i rbind_eq_Inr)
  have t: "p = Int32" "q = Int32" "has_prim Int32 a" "has_prim Int32 b"
    using operand_type [OF a(1)] operand_type [OF a(2)] assms(2,4) by (auto simp: i is_comparison_def)
  then have v: "arith h Op_MUL a b = Inr v" using a(3) by (simp add: eval_same is_comparison_def)
  have com: "arith h Op_MUL b a = Inr v" using v t(3,4) by (cases a; cases b) (auto simp: mult.commute)
  show ?thesis
  proof (cases x)
    case (Const c)
    then have "shift_by c (Some r) y = Some i'" using assms(1) by (simp add: i)
    then show ?thesis by (rule shift_by_value) (use a t com Const in simp_all)
  next
    case (Left l)
    then obtain c where "y = Const c" "shift_by c (Some r) x = Some i'" using assms(1) by (cases y) (simp_all add: i)
    then show ?thesis using shift_by_value a t v by simp
  qed
qed

text \<open>The 64-bit factor: its distance is not a 64-bit constant, so the shift has no value.\<close>

lemma reduce_wide_invalid:
  assumes "cvalue c = V_int64 v" "ctype c = Prim Int64" "shift_by c (Some r) x = Some i'" "operand env x = Inr a"
  shows "inst_value h prev env Int64 i' = Inl Bad_variant"
  using assms by (auto simp: shift_by_def scalar_def)

section \<open>Blocks\<close>

definition int_dest :: "inst \<Rightarrow> bool" where
  "int_dest i = (case defined_var i of Some r \<Rightarrow> type_of_lv r \<in> Prim ` {Int1, Int32, Int64} | None \<Rightarrow> False)"

definition word_dest :: "inst \<Rightarrow> bool" where
  "word_dest i = (case defined_var i of Some r \<Rightarrow> type_of_lv r = Prim Int32 | None \<Rightarrow> False)"

lemma fold_inst_step:
  "fold_inst h i = Inr (Some i') \<Longrightarrow> inst_typed i \<Longrightarrow> int_dest i \<Longrightarrow> inst_step h prev i env = Inr env' \<Longrightarrow>
     inst_step h prev i' env = Inr env'"
  using fold_inst_value [of h i i' _ _ prev env]
  by (fastforce simp: inst_step_def int_dest_def int_prim_def rbind_eq_Inr split: option.splits ty.splits)

lemma fold_insts_run:
  "fold_insts h is = Inr (c, is') \<Longrightarrow> list_all inst_typed is \<Longrightarrow> list_all int_dest is \<Longrightarrow>
     rfold (inst_step h prev) is env = Inr env' \<Longrightarrow> rfold (inst_step h prev) is' env = Inr env'"
proof (induction "is" arbitrary: c is' env)
  case (Cons i "is")
  obtain n c1 is1 where n: "fold_inst h i = Inr n" "fold_insts h is = Inr (c1, is1)"
      "is' = (case n of Some i' \<Rightarrow> i' # is1 | None \<Rightarrow> i # is1)"
    using Cons.prems(1) by (auto simp: rbind_eq_Inr split: option.splits)
  obtain env1 where e: "inst_step h prev i env = Inr env1" "rfold (inst_step h prev) is env1 = Inr env'"
    using Cons.prems(4) by (auto simp: rbind_eq_Inr)
  have "rfold (inst_step h prev) is1 env1 = Inr env'" using Cons.IH [OF n(2) _ _ e(2)] Cons.prems(2,3) by simp
  then show ?case using n e Cons.prems(2,3) fold_inst_step [of h i _ prev env env1] by (cases n) auto
qed simp

lemma reduce_insts_run:
  "list_all inst_typed is \<Longrightarrow> list_all word_dest is \<Longrightarrow> rfold (inst_step h prev) is env = Inr env' \<Longrightarrow>
     rfold (inst_step h prev) (map (\<lambda>i. case reduce_inst i of Some i' \<Rightarrow> i' | None \<Rightarrow> i) is) env = Inr env'"
proof (induction "is" arbitrary: env)
  case (Cons i "is")
  obtain env1 where e: "inst_step h prev i env = Inr env1" "rfold (inst_step h prev) is env1 = Inr env'"
    using Cons.prems(3) by (auto simp: rbind_eq_Inr)
  have "inst_step h prev i' env = Inr env1" if "reduce_inst i = Some i'" for i'
    using reduce_inst_value [OF that, of _ h prev env] Cons.prems(1,2) e(1)
    by (auto simp: inst_step_def word_dest_def rbind_eq_Inr split: option.splits)
  then show ?case using Cons e by (auto split: option.splits)
qed simp


theorem reduce_block_sound:
  assumes "list_all inst_typed (bk_insts b)" "list_all word_dest (bk_insts b)"
    and "rfold (inst_step h prev) (bk_insts b) env = Inr env'"
  shows "rfold (inst_step h prev) (bk_insts (snd (reduce_block b))) env = Inr env'"
  using reduce_insts_run [OF assms] by (simp add: reduce_block_def)

section \<open>Instances\<close>

abbreviation t32 :: "nat \<Rightarrow> left_value" where "t32 i \<equiv> TempValue (Prim Int32) i 0"
abbreviation c32 :: "u32 \<Rightarrow> val" where "c32 w \<equiv> Const (mk_const (V_int w))"

definition sum_block :: ir_block where
  "sum_block = \<lparr>bk_label = ''b'',
     bk_insts = [Binary Op_ADD (Some (t32 0)) (c32 2) (c32 3), Binary Op_MUL (Some (t32 1)) (val.Left (t32 0)) (c32 8)],
     bk_exit = Some (ReturnExit (val.Left (t32 1)))\<rparr>"

definition sum_block_folded :: ir_block where
  "sum_block_folded = sum_block\<lparr>bk_insts :=
     [Unary Op_MOV (Some (t32 0)) (c32 5), Binary Op_MUL (Some (t32 1)) (val.Left (t32 0)) (c32 8)]\<rparr>"

lemma sum_block_run:
  "rfold (inst_step h 0) (bk_insts sum_block) Map.empty = Inr [K_temp 0 0 \<mapsto> V_int 5, K_temp 0 1 \<mapsto> V_int 40]"
  by (simp add: sum_block_def inst_step_def scalar_def mk_const_def eval_op_def eval_binary_def is_comparison_def)


theorem reduce_block_sound_witness:
  "rfold (inst_step undefined 0) (bk_insts (snd (reduce_block sum_block))) Map.empty
     = Inr [K_temp 0 0 \<mapsto> V_int 5, K_temp 0 1 \<mapsto> V_int 40]"
  by (rule reduce_block_sound [OF _ _ sum_block_run])
    (simp_all add: sum_block_def is_comparison_def mk_const_def word_dest_def)

end
