(* ===== verification/Ir_Dead.thy ===== *)
theory Ir_Dead
  imports Usedef Ir_Order
begin

text \<open>
  The passes that delete: dead definitions (\<open>transform/optim/dead_def.hpp\<close>), allocations and
  temporaries (\<open>dead_alloc.hpp\<close>), unreachable and trivial blocks (\<open>dead_block.hpp\<close>).
\<close>

section \<open>Dead definitions\<close>

text \<open>An instruction uses a variable.\<close>

definition inst_uses :: "lv_key \<Rightarrow> inst \<Rightarrow> bool" where
  "inst_uses x i \<longleftrightarrow> list_ex (is_var x) (used i)"

text \<open>The uses outside the instructions of one block of one function.\<close>

definition set_insts :: "nat \<Rightarrow> block_id \<Rightarrow> inst list \<Rightarrow> ir_program \<Rightarrow> ir_program" where
  "set_insts k b is p =
     p\<lparr>pr_funcs := (pr_funcs p)[k := update_block b (\<lambda>blk. blk\<lparr>bk_insts := is\<rparr>) (pr_funcs p ! k)]\<rparr>"

definition removable :: "(lv_key \<Rightarrow> bool) \<Rightarrow> inst list \<Rightarrow> inst \<Rightarrow> bool" where
  "removable outside is i \<longleftrightarrow>
     (case defined_var i of
        None \<Rightarrow> False
      | Some r \<Rightarrow> \<not> outside (key_of r) \<and> \<not> list_ex (inst_uses (key_of r)) is \<and> \<not> has_side_effect i)"

text \<open>The walk over a block: the instructions kept so far, in reverse, and the ones to come.\<close>

fun sweep :: "(lv_key \<Rightarrow> bool) \<Rightarrow> inst list \<Rightarrow> inst list \<Rightarrow> inst list" where
  "sweep outside kept [] = rev kept"
| "sweep outside kept (i # is) =
     (if removable outside (rev kept @ i # is) i then sweep outside kept is else sweep outside (i # kept) is)"

definition sweep_block :: "nat \<Rightarrow> block_id \<Rightarrow> ir_program \<Rightarrow> ir_program" where
  "sweep_block k b p =
     set_insts k b (sweep (\<lambda>x. prog_uses x (set_insts k b [] p)) [] (bk_insts (fn_blk (pr_funcs p ! k) b))) p"

definition sweep_func :: "nat \<Rightarrow> ir_program \<Rightarrow> ir_program" where
  "sweep_func k p = fold (sweep_block k) (fn_blocks (pr_funcs p ! k)) p"

definition prog_size :: "ir_program \<Rightarrow> nat" where
  "prog_size p = sum_list (map (\<lambda>fn. length (func_insts fn)) (pr_funcs p))"

text \<open>One round; it has changed the program when an instruction is gone.\<close>

definition dead_def_round :: "ir_program \<Rightarrow> bool \<times> ir_program" where
  "dead_def_round p = (let p' = fold sweep_func [0..<length (pr_funcs p)] p in (prog_size p' < prog_size p, p'))"

function dead_def_loop :: "ir_program \<Rightarrow> ir_program" where
  "dead_def_loop p = (case dead_def_round p of (c, p') \<Rightarrow> if c then dead_def_loop p' else p')"
  by auto
termination
  by (relation "measure prog_size") (auto simp: dead_def_round_def Let_def)

declare dead_def_loop.simps [simp del]

definition DeadDefElimination :: "ir_program \<Rightarrow> (bool \<times> ir_program) result" where
  "DeadDefElimination p =
     (if \<not> pr_is_ssa p then Inl (Compiler_error ''DeadDefElimination requires SSA form'')
      else Inr (fst (dead_def_round p), dead_def_loop p))"

section \<open>Dead allocations\<close>

definition func_vars :: "ir_func \<Rightarrow> left_value list" where
  "func_vars fn =
     concat (map (\<lambda>b. concat (map vars (bk_insts (fn_blk fn b))) @
       (case bk_exit (fn_blk fn b) of None \<Rightarrow> [] | Some e \<Rightarrow> (case used_var_exit e of None \<Rightarrow> [] | Some l \<Rightarrow> [l])))
       (fn_blocks fn))"

definition func_allocs :: "ir_func \<Rightarrow> alloc_id list" where
  "func_allocs fn = List.map_filter alloc_of (func_vars fn)"

text \<open>The table of referenced allocations grows from function to function.\<close>

fun keep_locals :: "alloc_id list \<Rightarrow> ir_func list \<Rightarrow> alloc_id list \<times> ir_func list" where
  "keep_locals ref [] = (ref, [])"
| "keep_locals ref (fn # fns) =
     (let ref' = func_allocs fn @ ref in
      case keep_locals ref' fns of (r, fs) \<Rightarrow>
        (r, fn\<lparr>fn_locals := [a \<leftarrow> fn_locals fn. a \<in> set ref']\<rparr> # fs))"

definition DeadAllocElimination :: "ir_program \<Rightarrow> bool \<times> ir_program" where
  "DeadAllocElimination p =
     (case keep_locals [] (pr_funcs p) of (ref, fns) \<Rightarrow>
      let gl = [a \<leftarrow> pr_globals p. a \<in> set ref];
          p' = p\<lparr>pr_funcs := fns, pr_globals := gl\<rparr> in
      (map fn_locals fns \<noteq> map fn_locals (pr_funcs p) \<or> gl \<noteq> pr_globals p, p'))"

section \<open>Dead temporaries\<close>

text \<open>Renaming the definitions of a variable.\<close>

fun rename_def :: "lv_key \<Rightarrow> left_value \<Rightarrow> inst \<Rightarrow> inst" where
  "rename_def old r i =
     (case defined_var i of None \<Rightarrow> i | Some l \<Rightarrow> if key_of l = old then set_result r i else i)"

definition replace_defs_prog :: "lv_key \<Rightarrow> left_value \<Rightarrow> ir_program \<Rightarrow> ir_program" where
  "replace_defs_prog old r p =
     p\<lparr>pr_funcs := map (\<lambda>fn. fn\<lparr>fn_blk := (\<lambda>b. if b \<in> set (fn_blocks fn)
         then (fn_blk fn b)\<lparr>bk_insts := map (rename_def old r) (bk_insts (fn_blk fn b))\<rparr> else fn_blk fn b)\<rparr>) (pr_funcs p)\<rparr>"

definition prog_defines :: "lv_key \<Rightarrow> ir_program \<Rightarrow> bool" where
  "prog_defines x p \<longleftrightarrow>
     list_ex (\<lambda>fn. list_ex (\<lambda>i. case defined_var i of None \<Rightarrow> False | Some l \<Rightarrow> key_of l = x) (func_insts fn)) (pr_funcs p)"

text \<open>The temporaries in use, in ascending order; the new number is the position.\<close>

definition live_temps :: "ir_program \<Rightarrow> ir_func \<Rightarrow> nat list" where
  "live_temps p fn =
     [i \<leftarrow> [0..<length (fn_temps fn)]. prog_defines (K_temp (fn_id fn) i) p \<or> prog_uses (K_temp (fn_id fn) i) p]"

definition rename_temp :: "func_id \<Rightarrow> (ty \<times> block_id) list \<Rightarrow> nat \<times> nat \<Rightarrow> ir_program \<Rightarrow> ir_program" where
  "rename_temp f temps fromto p =
     (case fromto of (from, to) \<Rightarrow>
      if from = to then p
      else let l = TempValue (fst (temps ! from)) to f in
           replace_defs_prog (K_temp f from) l (subst_prog (K_temp f from) (val.Left l) p))"

definition dead_temps :: "nat \<Rightarrow> bool \<times> ir_program \<Rightarrow> bool \<times> ir_program" where
  "dead_temps k st =
     (let p = snd st; fn = pr_funcs p ! k; keep = live_temps p fn; temps = fn_temps fn;
          p1 = fold (rename_temp (fn_id fn) temps) (zip keep [0..<length keep]) p;
          p2 = p1\<lparr>pr_funcs := (pr_funcs p1)[k := (pr_funcs p1 ! k)\<lparr>fn_temps := map ((!) temps) keep\<rparr>]\<rparr>
      in (fst st \<or> length keep \<noteq> length temps, p2))"

definition DeadTempElimination :: "ir_program \<Rightarrow> bool \<times> ir_program" where
  "DeadTempElimination p = fold dead_temps [0..<length (pr_funcs p)] (False, p)"

section \<open>Unreachable blocks\<close>

text \<open>The worklist is a stack.\<close>

partial_function (option) reach_loop ::
  "(block_id \<Rightarrow> block_id list result) \<Rightarrow> block_id list \<Rightarrow> block_id list \<Rightarrow> block_id list result option" where
  "reach_loop succ work seen =
     (case work of
        [] \<Rightarrow> Some (Inr seen)
      | b # rest \<Rightarrow>
          (case succ b of
             Inl e \<Rightarrow> Some (Inl e)
           | Inr ts \<Rightarrow>
               (let new = remdups [t \<leftarrow> ts. t \<notin> set seen] in reach_loop succ (rev new @ rest) (new @ seen))))"

declare reach_loop.simps [code]

definition refine_phi :: "block_id list \<Rightarrow> inst \<Rightarrow> inst" where
  "refine_phi reachable i = (case i of Phi r args \<Rightarrow> Phi r [a \<leftarrow> args. fst a \<in> set reachable] | _ \<Rightarrow> i)"

text \<open>The phis at the head of a block.\<close>

definition map_phis :: "(inst \<Rightarrow> inst) \<Rightarrow> inst list \<Rightarrow> inst list" where
  "map_phis f is = map f (takeWhile is_phi_inst is) @ dropWhile is_phi_inst is"

definition dead_block_func :: "ir_func \<Rightarrow> (bool \<times> ir_func) result" where
  "dead_block_func fn =
     rbind (entrance fn) (\<lambda>e.
       case reach_loop (succs fn) [e] [e] of
         None \<Rightarrow> Inl (Undefined ''endless loop'')
       | Some (Inl err) \<Rightarrow> Inl err
       | Some (Inr seen) \<Rightarrow>
           Inr (length seen \<noteq> length (fn_blocks fn),
                fn\<lparr>fn_blocks := [b \<leftarrow> fn_blocks fn. b \<in> set seen],
                   fn_blk := (\<lambda>b. if b \<in> set (fn_blocks fn) \<and> b \<in> set seen
                      then (fn_blk fn b)\<lparr>bk_insts := map_phis (refine_phi seen) (bk_insts (fn_blk fn b))\<rparr>
                      else fn_blk fn b)\<rparr>))"

fun dead_block_round :: "ir_func list \<Rightarrow> (bool \<times> ir_func list) result" where
  "dead_block_round [] = Inr (False, [])"
| "dead_block_round (fn # fns) =
     rbind (dead_block_func fn) (\<lambda>(c, fn'). rbind (dead_block_round fns) (\<lambda>(c', fns'). Inr (c \<or> c', fn' # fns')))"

partial_function (option) dead_block_loop :: "bool \<Rightarrow> ir_func list \<Rightarrow> (bool \<times> ir_func list) result option" where
  "dead_block_loop ch fns =
     (case dead_block_round fns of
        Inl e \<Rightarrow> Some (Inl e)
      | Inr (c, fns') \<Rightarrow> if c then dead_block_loop True fns' else Some (Inr (ch, fns')))"

declare dead_block_loop.simps [code]

definition DeadBlockElimination :: "ir_program \<Rightarrow> (bool \<times> ir_program) result option" where
  "DeadBlockElimination p =
     map_option (\<lambda>r. rbind r (\<lambda>(c, fns). Inr (c, p\<lparr>pr_funcs := fns\<rparr>))) (dead_block_loop False (pr_funcs p))"

section \<open>Trivial blocks\<close>

text \<open>\<open>SimplifyCFG::refine_phi\<close>: the predecessors of the replaced block take its place.\<close>

fun add_preds :: "block_id list \<Rightarrow> val \<Rightarrow> (block_id \<times> val) list \<Rightarrow> (block_id \<times> val) list result" where
  "add_preds [] v args = Inr args"
| "add_preds (p # ps) v args =
     (if p \<in> set (map fst args) then Inl (Compiler_error ''conflict phi args'')
      else add_preds ps v (args @ [(p, v)]))"

definition merge_phi_args :: "ir_func \<Rightarrow> block_id \<Rightarrow> (block_id \<times> val) list \<Rightarrow> (block_id \<times> val) list result" where
  "merge_phi_args fn replaced args =
     rfold (\<lambda>a acc. add_preds (cfg_pred fn replaced) (snd a) acc)
       [a \<leftarrow> args. fst a = replaced] [a \<leftarrow> args. fst a \<noteq> replaced]"

fun merge_phi :: "ir_func \<Rightarrow> block_id \<Rightarrow> inst \<Rightarrow> inst result" where
  "merge_phi fn replaced (Phi r args) = rbind (merge_phi_args fn replaced args) (\<lambda>args'. Inr (Phi r args'))"
| "merge_phi fn replaced i = Inr i"

text \<open>The phis at the head, as the loop with its early exit visits them.\<close>

fun merge_phis :: "ir_func \<Rightarrow> block_id \<Rightarrow> inst list \<Rightarrow> inst list result" where
  "merge_phis fn replaced [] = Inr []"
| "merge_phis fn replaced (i # is) =
     (if is_phi_inst i
        then rbind (merge_phi fn replaced i) (\<lambda>i'. rbind (merge_phis fn replaced is) (\<lambda>is'. Inr (i' # is')))
      else Inr (i # is))"

definition conflicts :: "ir_func \<Rightarrow> block_id \<Rightarrow> block_id \<Rightarrow> bool" where
  "conflicts fn replaced target \<longleftrightarrow>
     list_ex (\<lambda>i. case i of Phi r args \<Rightarrow> list_ex (phi_contains args) (cfg_pred fn replaced) | _ \<Rightarrow> False)
       (takeWhile is_phi_inst (bk_insts (fn_blk fn target)))"

definition mergable_block :: "ir_func \<Rightarrow> block_id \<Rightarrow> block_id \<Rightarrow> bool" where
  "mergable_block fn from to \<longleftrightarrow>
     (case (bk_insts (fn_blk fn from), bk_insts (fn_blk fn to)) of
        ([], _) \<Rightarrow> True
      | (_, []) \<Rightarrow> True
      | (_, i # is) \<Rightarrow> \<not> is_phi_inst i)"

definition merge_blocks :: "block_id \<Rightarrow> block_id \<Rightarrow> ir_func \<Rightarrow> ir_func" where
  "merge_blocks from to fn =
     (let is = bk_insts (fn_blk fn from) in
      update_block to (\<lambda>b. b\<lparr>bk_insts := (if from = to then is else is @ bk_insts b)\<rparr>)
        (update_block from (\<lambda>b. b\<lparr>bk_insts := []\<rparr>) fn))"

text \<open>The target with which a block can be merged.\<close>

definition squash_target :: "ir_func \<Rightarrow> block_id \<Rightarrow> block_id option" where
  "squash_target fn b =
     (if cfg_pred fn b = [] then None
      else case bk_exit (fn_blk fn b) of
        Some (JumpExit t) \<Rightarrow>
          if b = t then None
          else if bk_insts (fn_blk fn b) = [] then (if conflicts fn b t then None else Some t)
          else if length (cfg_pred fn t) = 1 \<and> mergable_block fn b t then Some t else None
      | _ \<Rightarrow> None)"

fun retarget :: "block_id \<Rightarrow> block_id \<Rightarrow> ir_exit \<Rightarrow> ir_exit" where
  "retarget from to (JumpExit t) = JumpExit (if t = from then to else t)"
| "retarget from to (BranchExit c t f) =
     BranchExit c (map_option (\<lambda>b. if b = from then to else b) t) (map_option (\<lambda>b. if b = from then to else b) f)"
| "retarget from to (ReturnExit v) = ReturnExit v"

lemma exit_complete_retarget [simp]: "exit_complete (map_option (retarget from to) e) = exit_complete e"
proof (cases e)
  case (Some x)
  then show ?thesis by (cases x) simp_all
qed simp

text \<open>The predecessors are those of the graph built before the merge.\<close>

fun squash_blocks :: "ir_func \<Rightarrow> block_id \<Rightarrow> block_id \<Rightarrow> block_id list \<Rightarrow> ir_func \<Rightarrow> ir_func result" where
  "squash_blocks old replaced target [] fn = Inr fn"
| "squash_blocks old replaced target (b # bs) fn =
     rbind (merge_phis old replaced (bk_insts (fn_blk fn b))) (\<lambda>is.
       squash_blocks old replaced target bs
         (update_block b (\<lambda>blk. blk\<lparr>bk_insts := is, bk_exit := map_option (retarget replaced target) (bk_exit blk)\<rparr>) fn))"

definition squash_func :: "ir_func \<Rightarrow> (bool \<times> ir_func) result" where
  "squash_func fn =
     with_cfg fn (case List.find (\<lambda>b. squash_target fn b \<noteq> None) (fn_blocks fn) of
        None \<Rightarrow> Inr (False, fn)
      | Some b \<Rightarrow>
          (case squash_target fn b of
             None \<Rightarrow> Inr (False, fn)
           | Some t \<Rightarrow> rbind (squash_blocks fn b t (fn_blocks fn) (merge_blocks b t fn)) (\<lambda>fn'. Inr (True, fn'))))"

text \<open>The loop of \<open>redirect\<close> over the positions of the list; the labels are swapped with the blocks.\<close>

definition swap_pos :: "nat \<Rightarrow> nat \<Rightarrow> 'a list \<Rightarrow> 'a list" where
  "swap_pos i j xs = xs[i := xs ! j, j := xs ! i]"

definition swap_labels :: "block_id \<Rightarrow> block_id \<Rightarrow> ir_func \<Rightarrow> ir_func" where
  "swap_labels a b fn =
     (let la = bk_label (fn_blk fn a); lb = bk_label (fn_blk fn b) in
      update_block b (\<lambda>blk. blk\<lparr>bk_label := la\<rparr>) (update_block a (\<lambda>blk. blk\<lparr>bk_label := lb\<rparr>) fn))"

fun to_front :: "block_id \<Rightarrow> nat list \<Rightarrow> ir_func \<Rightarrow> ir_func" where
  "to_front target [] fn = fn"
| "to_front target (k # ks) fn =
     (if fn_blocks fn ! k = target
        then let fn1 = swap_labels (fn_blocks fn ! 0) target fn;
                 bs = swap_pos k (length (fn_blocks fn) - 1) (swap_pos 0 k (fn_blocks fn)) in
             to_front target ks (fn1\<lparr>fn_blocks := bs\<rparr>)
      else to_front target ks fn)"

definition redirect :: "ir_func \<Rightarrow> (bool \<times> ir_func) result" where
  "redirect fn =
     rbind (entrance fn) (\<lambda>e. rbind (get_exit (fn_blk fn e)) (\<lambda>x.
       case x of
         JumpExit t \<Rightarrow>
           if \<not> mergable_block fn e t then Inr (False, fn)
           else if (case bk_insts (fn_blk fn t) of i # is \<Rightarrow> is_phi_inst i | [] \<Rightarrow> False) then Inr (False, fn)
           else with_cfg fn
             (if length (cfg_pred fn t) > 1 then Inr (False, fn)
              else Inr (True, to_front t [0..<length (fn_blocks fn)] (merge_blocks e t fn)))
       | _ \<Rightarrow> Inr (False, fn)))"

fun simplify_round :: "ir_func list \<Rightarrow> (bool \<times> ir_func list) result" where
  "simplify_round [] = Inr (False, [])"
| "simplify_round (fn # fns) =
     rbind (squash_func fn) (\<lambda>(c1, fn1). rbind (redirect fn1) (\<lambda>(c2, fn2).
     rbind (simplify_round fns) (\<lambda>(c3, fns'). Inr (c1 \<or> c2 \<or> c3, fn2 # fns'))))"

partial_function (option) simplify_loop :: "bool \<Rightarrow> ir_func list \<Rightarrow> (bool \<times> ir_func list) result option" where
  "simplify_loop ch fns =
     (case simplify_round fns of
        Inl e \<Rightarrow> Some (Inl e)
      | Inr (c, fns') \<Rightarrow> if c then simplify_loop True fns' else Some (Inr (ch, fns')))"

declare simplify_loop.simps [code]

definition SimplifyCFG :: "ir_program \<Rightarrow> (bool \<times> ir_program) result option" where
  "SimplifyCFG p =
     map_option (\<lambda>r. rbind r (\<lambda>(c, fns). Inr (c, p\<lparr>pr_funcs := fns\<rparr>))) (simplify_loop False (pr_funcs p))"

end
