(* ===== verification/Ir_Dead_Sound.thy ===== *)
theory Ir_Dead_Sound
  imports Ir_Dead
begin

text \<open>
  The passes of \<open>Ir_Dead\<close> end and do what they are for: the blocks that stay are the reachable ones,
  and the definitions that stay are used or have an effect.
\<close>

section \<open>Reachable blocks\<close>

lemma reaches_snoc: "reaches succ x y \<Longrightarrow> z \<in> set (succ y) \<Longrightarrow> reaches succ x z"
  unfolding reaches_def edges_def by (metis (mono_tags, lifting) case_prodI mem_Collect_eq rtrancl.simps)

definition reach_inv :: "(block_id \<Rightarrow> block_id list) \<Rightarrow> block_id \<Rightarrow> block_id list \<Rightarrow> block_id list \<Rightarrow> bool" where
  "reach_inv succ e work seen \<longleftrightarrow>
     e \<in> set seen \<and> distinct seen \<and> set work \<subseteq> set seen \<and> (\<forall>x\<in>set seen. reaches succ e x) \<and>
     (\<forall>x\<in>set seen - set work. set (succ x) \<subseteq> set seen)"

lemma reach_inv_step:
  assumes "reach_inv succ e (b # rest) seen" and "new = remdups [t \<leftarrow> succ b. t \<notin> set seen]"
  shows "reach_inv succ e (rev new @ rest) (new @ seen)"
proof -
  have b: "reaches succ e b" using assms(1) by (auto simp: reach_inv_def)
  have "reaches succ e t" if "t \<in> set (succ b)" for t
    using reaches_snoc [OF b that] .
  then show ?thesis using assms by (auto simp: reach_inv_def)
qed

lemma reach_loop_spec:
  assumes "reach_inv succ e work seen" "finite B" "set seen \<subseteq> B" "\<And>x. x \<in> B \<Longrightarrow> set (succ x) \<subseteq> B"
    and get: "\<And>x. x \<in> B \<Longrightarrow> read x = Inr (succ x)"
  shows "\<exists>r. reach_loop read work seen = Some (Inr r) \<and> distinct r \<and> set r = {x. reaches succ e x} \<and> set r \<subseteq> B"
  using assms(1,3)
proof (induction "(card (B - set seen), length work)" arbitrary: work seen rule: wf_induct_rule [OF wf_lex_prod [OF wf_less_than wf_less_than]])
  case 1
  show ?case
  proof (cases work)
    case Nil
    then have i: "e \<in> set seen" "distinct seen" "\<forall>x\<in>set seen. reaches succ e x" "\<forall>x\<in>set seen. set (succ x) \<subseteq> set seen"
      using 1(2) by (auto simp: reach_inv_def)
    have "x \<in> set seen" if "reaches succ e x" for x
      using that by (rule reaches_closed) (use i in auto)
    then show ?thesis using i 1(3) by (auto simp: Nil reach_loop.simps)
  next
    case (Cons b rest)
    define new where "new = remdups [t \<leftarrow> succ b. t \<notin> set seen]"
    have b: "b \<in> B" using 1(2,3) by (auto simp: reach_inv_def Cons)
    have sub: "set (new @ seen) \<subseteq> B" using assms(4) [OF b] 1(3) by (auto simp: new_def)
    have inv: "reach_inv succ e (rev new @ rest) (new @ seen)"
      using reach_inv_step 1(2) new_def by (simp add: Cons)
    have less: "((card (B - set (new @ seen)), length (rev new @ rest)), (card (B - set seen), length work)) \<in> less_than <*lex*> less_than"
    proof (cases "new = []")
      case False
      then obtain t where "t \<in> set new" by (cases new) auto
      then have "t \<in> B - set seen" "t \<notin> B - set (new @ seen)" using sub by (auto simp: new_def)
      then have "B - set (new @ seen) \<subset> B - set seen" by auto
      then have "card (B - set (new @ seen)) < card (B - set seen)"
        using assms(2) by (intro psubset_card_mono) simp_all
      then show ?thesis by (simp only: in_lex_prod less_than_iff) simp
    qed (simp add: Cons)
    have "reach_loop read work seen = reach_loop read (rev new @ rest) (new @ seen)"
      unfolding Cons by (subst reach_loop.simps) (simp only: list.case Let_def new_def get [OF b] sum.case)
    then show ?thesis using 1(1) [OF less inv sub] by simp
  qed
qed

definition live_blocks :: "ir_func \<Rightarrow> block_id list" where
  "live_blocks fn = [b \<leftarrow> fn_blocks fn. reaches (exit_succs fn) (hd (fn_blocks fn)) b]"

definition blocks_closed :: "ir_func \<Rightarrow> bool" where
  "blocks_closed fn \<longleftrightarrow> fn_blocks fn \<noteq> [] \<and> distinct (fn_blocks fn) \<and> closed_cfg fn"

lemma dead_block_func_spec:
  assumes "blocks_closed fn"
  shows "\<exists>fn'. dead_block_func fn = Inr (live_blocks fn \<noteq> fn_blocks fn, fn') \<and> fn_blocks fn' = live_blocks fn \<and>
    blocks_closed fn' \<and> live_blocks fn' = fn_blocks fn'"
proof -
  let ?e = "hd (fn_blocks fn)"
  have e: "entrance fn = Inr ?e" "?e \<in> set (fn_blocks fn)"
    using assms by (auto simp: blocks_closed_def entrance_def split: list.splits)
  have "reach_inv (exit_succs fn) ?e [?e] [?e]" by (simp add: reach_inv_def)
  then obtain r where r: "reach_loop (succs fn) [?e] [?e] = Some (Inr r)" "distinct r" "set r = {x. reaches (exit_succs fn) ?e x}"
      "set r \<subseteq> set (fn_blocks fn)"
    using reach_loop_spec [of "exit_succs fn" ?e "[?e]" "[?e]" "set (fn_blocks fn)" "succs fn"] e(2) assms
    by (auto simp: blocks_closed_def closed_cfg_def succs_exit)
  have live: "[b \<leftarrow> fn_blocks fn. b \<in> set r] = live_blocks fn" by (simp add: live_blocks_def r(3))
  have set_live: "set (live_blocks fn) = set r" using r(4) by (auto simp: live_blocks_def r(3))
  have d: "distinct (fn_blocks fn)" using assms by (simp add: blocks_closed_def)
  then have "length r = length (live_blocks fn)"
    using r(2) set_live distinct_card by (metis distinct_filter live_blocks_def)
  then have ch: "length r \<noteq> length (fn_blocks fn) \<longleftrightarrow> live_blocks fn \<noteq> fn_blocks fn"
    by (metis filter_id_conv length_filter_less live_blocks_def nat_less_le)
  obtain fn' where fn': "dead_block_func fn = Inr (live_blocks fn \<noteq> fn_blocks fn, fn')" "fn_blocks fn' = live_blocks fn"
      "\<And>b. bk_exit (fn_blk fn' b) = bk_exit (fn_blk fn b)"
    by (auto simp: dead_block_func_def e(1) r(1) live ch)
  then have exit_succs: "exit_succs fn' = exit_succs fn" by (auto simp: exit_succs_def block_targets_def fun_eq_iff)
  have hd: "live_blocks fn \<noteq> [] \<and> hd (live_blocks fn) = ?e"
    using assms by (cases "fn_blocks fn") (auto simp: blocks_closed_def live_blocks_def)
  have "hasExit (fn_blk fn' b)" if "b \<in> set r" for b
    using that r(4) assms fn'(3) [of b] by (auto simp: blocks_closed_def closed_cfg_def hasExit_def)
  then have "closed_cfg fn'"
    unfolding closed_cfg_def exit_succs fn'(2) set_live
    unfolding r(3) by (auto intro: reaches_snoc)
  then have wf: "blocks_closed fn'" using hd d by (simp add: blocks_closed_def fn'(2) live_blocks_def)
  have "live_blocks fn' = fn_blocks fn'"
    unfolding live_blocks_def [of fn'] exit_succs fn'(2) using hd by (auto simp: live_blocks_def filter_id_conv)
  then show ?thesis using fn' wf by blast
qed

lemma dead_block_round_spec:
  "\<forall>fn\<in>set fns. blocks_closed fn \<Longrightarrow>
     \<exists>fns'. dead_block_round fns = Inr (list_ex (\<lambda>fn. live_blocks fn \<noteq> fn_blocks fn) fns, fns') \<and>
       map fn_blocks fns' = map live_blocks fns \<and> (\<forall>fn\<in>set fns'. blocks_closed fn \<and> live_blocks fn = fn_blocks fn)"
proof (induction fns)
  case (Cons fn fns)
  obtain fn' where f: "dead_block_func fn = Inr (live_blocks fn \<noteq> fn_blocks fn, fn')" "fn_blocks fn' = live_blocks fn"
      "blocks_closed fn'" "live_blocks fn' = fn_blocks fn'"
    using dead_block_func_spec Cons.prems by force
  obtain fns' where "dead_block_round fns = Inr (list_ex (\<lambda>fn. live_blocks fn \<noteq> fn_blocks fn) fns, fns')"
      "map fn_blocks fns' = map live_blocks fns" "\<forall>fn\<in>set fns'. blocks_closed fn \<and> live_blocks fn = fn_blocks fn"
    using Cons.IH Cons.prems by auto
  then show ?case using f by auto
qed simp

lemma dead_block_loop_stable:
  assumes "\<forall>fn\<in>set fns. blocks_closed fn" "\<forall>fn\<in>set fns. live_blocks fn = fn_blocks fn"
  shows "\<exists>fns'. dead_block_loop ch fns = Some (Inr (ch, fns')) \<and> map fn_blocks fns' = map live_blocks fns"
proof -
  have n: "\<not> list_ex (\<lambda>fn. live_blocks fn \<noteq> fn_blocks fn) fns" using assms(2) by (simp add: list_ex_iff)
  obtain fns' where "dead_block_round fns = Inr (False, fns')" "map fn_blocks fns' = map live_blocks fns"
    using dead_block_round_spec [OF assms(1)] n by auto
  then show ?thesis by (subst dead_block_loop.simps) simp
qed

lemma dead_block_loop_spec:
  assumes "\<forall>fn\<in>set fns. blocks_closed fn"
  shows "\<exists>c fns'. dead_block_loop ch fns = Some (Inr (c, fns')) \<and> map fn_blocks fns' = map live_blocks fns"
proof -
  let ?c = "list_ex (\<lambda>fn. live_blocks fn \<noteq> fn_blocks fn) fns"
  obtain fns1 where r: "dead_block_round fns = Inr (?c, fns1)" "map fn_blocks fns1 = map live_blocks fns"
      "\<forall>fn\<in>set fns1. blocks_closed fn \<and> live_blocks fn = fn_blocks fn"
    using dead_block_round_spec [OF assms] by blast
  show ?thesis
  proof (cases ?c)
    case False
    then show ?thesis using r by (subst dead_block_loop.simps) simp
  next
    case True
    obtain fns2 where "dead_block_loop True fns1 = Some (Inr (True, fns2))" "map fn_blocks fns2 = map live_blocks fns1"
      using dead_block_loop_stable [of fns1 True] r(3) by auto
    moreover have "map live_blocks fns1 = map fn_blocks fns1" using r(3) by (simp cong: map_cong)
    moreover have "dead_block_loop ch fns = dead_block_loop True fns1"
      using True r(1) by (subst dead_block_loop.simps) simp
    ultimately show ?thesis using r(2) by (intro exI [of _ True] exI [of _ fns2]) simp
  qed
qed

text \<open>
  C29: the elimination of dead blocks ends on every well-formed program, and what is left of each
  function are exactly the blocks reachable from its entrance, in their old order.
\<close>

theorem DeadBlockElimination_reachable:
  assumes "list_all blocks_closed (pr_funcs p)"
  shows "\<exists>c p'. DeadBlockElimination p = Some (Inr (c, p')) \<and> map fn_blocks (pr_funcs p') = map live_blocks (pr_funcs p)"
  using dead_block_loop_spec [of "pr_funcs p" False] assms by (auto simp: DeadBlockElimination_def list_all_iff)

section \<open>Dead definitions\<close>

lemma sweep_length: "length (sweep U kept is) \<le> length kept + length is"
  by (induction U kept "is" rule: sweep.induct) auto

lemma sweep_same:
  "length (sweep U kept is) = length kept + length is \<Longrightarrow>
     sweep U kept is = rev kept @ is \<and> (\<forall>i\<in>set is. \<not> removable U (rev kept @ is) i)"
proof (induction U kept "is" rule: sweep.induct)
  case (2 U kept i "is")
  show ?case
  proof (cases "removable U (rev kept @ i # is) i")
    case True
    then show ?thesis using 2(3) sweep_length [of U kept "is"] by simp
  next
    case False
    then show ?thesis using 2(2,3) by simp
  qed
qed simp

lemma sum_list_map_le: "(\<And>x. x \<in> set xs \<Longrightarrow> f x \<le> g x) \<Longrightarrow> sum_list (map f xs) \<le> (sum_list (map g xs) :: nat)"
  by (induction xs) (auto intro: add_mono)

lemma sum_list_map_less:
  "(\<And>x. x \<in> set xs \<Longrightarrow> f x \<le> g x) \<Longrightarrow> y \<in> set xs \<Longrightarrow> f y < g y \<Longrightarrow>
     sum_list (map f xs) < (sum_list (map g xs) :: nat)"
  by (induction xs) (auto intro: add_less_le_mono add_le_less_mono sum_list_map_le)

definition func_size :: "ir_func \<Rightarrow> nat" where
  "func_size fn = length (func_insts fn)"

lemma func_size_sum: "func_size fn = sum_list (map (\<lambda>b. length (bk_insts (fn_blk fn b))) (fn_blocks fn))"
  by (simp add: func_size_def func_insts_def length_concat comp_def)

lemma prog_size_sum: "prog_size p = sum_list (map func_size (pr_funcs p))"
  by (simp add: prog_size_def func_size_def [abs_def])

lemma func_size_update:
  assumes "length is \<le> length (bk_insts (fn_blk fn b))"
  shows "func_size (update_block b (\<lambda>blk. blk\<lparr>bk_insts := is\<rparr>) fn) \<le> func_size fn"
    and "b \<in> set (fn_blocks fn) \<Longrightarrow> length is < length (bk_insts (fn_blk fn b)) \<Longrightarrow>
      func_size (update_block b (\<lambda>blk. blk\<lparr>bk_insts := is\<rparr>) fn) < func_size fn"
proof -
  show "func_size (update_block b (\<lambda>blk. blk\<lparr>bk_insts := is\<rparr>) fn) \<le> func_size fn"
    using assms unfolding func_size_sum update_block_def by (auto intro: sum_list_map_le)
  assume "b \<in> set (fn_blocks fn)" "length is < length (bk_insts (fn_blk fn b))"
  then show "func_size (update_block b (\<lambda>blk. blk\<lparr>bk_insts := is\<rparr>) fn) < func_size fn"
    unfolding func_size_sum update_block_def by (auto intro: sum_list_map_less)
qed

lemma prog_size_set_insts:
  assumes "k < length (pr_funcs p)" "length is \<le> length (bk_insts (fn_blk (pr_funcs p ! k) b))"
  shows "prog_size (set_insts k b is p) \<le> prog_size p"
    and "b \<in> set (fn_blocks (pr_funcs p ! k)) \<Longrightarrow> length is < length (bk_insts (fn_blk (pr_funcs p ! k) b)) \<Longrightarrow>
      prog_size (set_insts k b is p) < prog_size p"
proof -
  have s: "prog_size (p\<lparr>pr_funcs := (pr_funcs p)[k := f]\<rparr>) + func_size (pr_funcs p ! k) = prog_size p + func_size f" for f
    using assms(1) elem_le_sum_list [of k "map func_size (pr_funcs p)"]
    by (simp add: prog_size_sum map_update sum_list_update)
  show "prog_size (set_insts k b is p) \<le> prog_size p"
    using s func_size_update(1) [OF assms(2)] unfolding set_insts_def by (metis add_le_cancel_right add_le_mono1 add.commute)
  assume "b \<in> set (fn_blocks (pr_funcs p ! k))" "length is < length (bk_insts (fn_blk (pr_funcs p ! k) b))"
  then show "prog_size (set_insts k b is p) < prog_size p"
    using s [of "update_block b (\<lambda>blk. blk\<lparr>bk_insts := is\<rparr>) (pr_funcs p ! k)"] func_size_update(2) [OF assms(2)]
    unfolding set_insts_def by linarith
qed

text \<open>Nothing in the block can be removed.\<close>

definition block_clean :: "nat \<Rightarrow> block_id \<Rightarrow> ir_program \<Rightarrow> bool" where
  "block_clean k b p \<longleftrightarrow>
     (\<forall>i\<in>set (bk_insts (fn_blk (pr_funcs p ! k) b)).
        \<not> removable (\<lambda>x. prog_uses x (set_insts k b [] p)) (bk_insts (fn_blk (pr_funcs p ! k) b)) i)"

lemma set_insts_same: "k < length (pr_funcs p) \<Longrightarrow> set_insts k b (bk_insts (fn_blk (pr_funcs p ! k) b)) p = p"
  by (simp add: set_insts_def update_block_def)

lemma sweep_block_size:
  assumes "k < length (pr_funcs p)" "b \<in> set (fn_blocks (pr_funcs p ! k))"
  shows "prog_size (sweep_block k b p) \<le> prog_size p"
    and "prog_size (sweep_block k b p) = prog_size p \<Longrightarrow> sweep_block k b p = p \<and> block_clean k b p"
proof -
  let ?is = "bk_insts (fn_blk (pr_funcs p ! k) b)"
  let ?U = "\<lambda>x. prog_uses x (set_insts k b [] p)"
  have l: "length (sweep ?U [] ?is) \<le> length ?is" using sweep_length [of ?U "[]" ?is] by simp
  then show "prog_size (sweep_block k b p) \<le> prog_size p"
    unfolding sweep_block_def by (rule prog_size_set_insts(1) [OF assms(1)])
  assume "prog_size (sweep_block k b p) = prog_size p"
  then have "\<not> length (sweep ?U [] ?is) < length ?is"
    using prog_size_set_insts(2) [OF assms(1) l assms(2)] unfolding sweep_block_def by auto
  then have "sweep ?U [] ?is = ?is \<and> (\<forall>i\<in>set ?is. \<not> removable ?U ?is i)"
    using sweep_same [of ?U "[]" ?is] l by simp
  then show "sweep_block k b p = p \<and> block_clean k b p"
    using set_insts_same [OF assms(1)] by (simp add: sweep_block_def block_clean_def)
qed

lemma sweep_block_shape:
  "map fn_blocks (pr_funcs (sweep_block k b p)) = map fn_blocks (pr_funcs p)"
  unfolding sweep_block_def set_insts_def update_block_def
  by (cases "k < length (pr_funcs p)") (simp_all add: map_update list_update_same_conv list_update_beyond)

text \<open>A fold of steps that never grow the program and stop at it when they do not shrink it.\<close>

lemma fold_shrink:
  assumes "\<And>x p. x \<in> set xs \<Longrightarrow> Q p \<Longrightarrow> prog_size (f x p) \<le> prog_size p \<and> Q (f x p)"
    and "\<And>x p. x \<in> set xs \<Longrightarrow> Q p \<Longrightarrow> prog_size (f x p) = prog_size p \<Longrightarrow> f x p = p \<and> C x p"
    and "Q p"
  shows "prog_size (fold f xs p) \<le> prog_size p \<and> Q (fold f xs p) \<and>
    (prog_size (fold f xs p) = prog_size p \<longrightarrow> fold f xs p = p \<and> (\<forall>x\<in>set xs. C x p))"
  using assms
proof (induction xs arbitrary: p)
  case (Cons x xs)
  have x: "prog_size (f x p) \<le> prog_size p" "Q (f x p)" using Cons.prems by auto
  have xs: "prog_size (fold f xs (f x p)) \<le> prog_size (f x p) \<and> Q (fold f xs (f x p)) \<and>
    (prog_size (fold f xs (f x p)) = prog_size (f x p) \<longrightarrow> fold f xs (f x p) = f x p \<and> (\<forall>y\<in>set xs. C y (f x p)))"
    by (rule Cons.IH) (use Cons.prems x in auto)
  show ?case
  proof (cases "prog_size (f x p) = prog_size p")
    case True
    then have "f x p = p" "C x p" using Cons.prems(2) [of x p] Cons.prems(3) by auto
    then show ?thesis using xs by simp
  next
    case False
    then show ?thesis using xs x by auto
  qed
qed simp

definition shape :: "ir_program \<Rightarrow> block_id list list" where
  "shape p = map fn_blocks (pr_funcs p)"

lemma shape_nth: "shape p = s \<Longrightarrow> k < length s \<Longrightarrow> k < length (pr_funcs p) \<and> fn_blocks (pr_funcs p ! k) = s ! k"
  by (auto simp: shape_def)

lemma sweep_func_size:
  assumes "k < length s" "shape p = s"
  shows "prog_size (sweep_func k p) \<le> prog_size p \<and> shape (sweep_func k p) = s \<and>
    (prog_size (sweep_func k p) = prog_size p \<longrightarrow> sweep_func k p = p \<and> (\<forall>b\<in>set (s ! k). block_clean k b p))"
proof -
  have "fn_blocks (pr_funcs p ! k) = s ! k" using shape_nth [OF assms(2,1)] by simp
  moreover have "prog_size (fold (sweep_block k) (s ! k) p) \<le> prog_size p \<and> shape (fold (sweep_block k) (s ! k) p) = s \<and>
    (prog_size (fold (sweep_block k) (s ! k) p) = prog_size p \<longrightarrow>
      fold (sweep_block k) (s ! k) p = p \<and> (\<forall>b\<in>set (s ! k). block_clean k b p))"
  proof (rule fold_shrink [where Q = "\<lambda>p. shape p = s"])
    fix b q assume "b \<in> set (s ! k)" "shape q = s"
    then have q: "k < length (pr_funcs q)" "b \<in> set (fn_blocks (pr_funcs q ! k))" using shape_nth assms(1) by auto
    show "prog_size (sweep_block k b q) \<le> prog_size q \<and> shape (sweep_block k b q) = s"
      using sweep_block_size(1) [OF q] sweep_block_shape \<open>shape q = s\<close> by (simp add: shape_def)
    show "prog_size (sweep_block k b q) = prog_size q \<Longrightarrow> sweep_block k b q = q \<and> block_clean k b q"
      by (rule sweep_block_size(2) [OF q])
  qed (rule assms(2))
  ultimately show ?thesis by (simp add: sweep_func_def)
qed

definition prog_clean :: "ir_program \<Rightarrow> bool" where
  "prog_clean p \<longleftrightarrow> (\<forall>k<length (pr_funcs p). \<forall>b\<in>set (fn_blocks (pr_funcs p ! k)). block_clean k b p)"

lemma dead_def_round_spec:
  assumes "dead_def_round p = (False, p')"
  shows "p' = p \<and> prog_clean p"
proof -
  let ?n = "length (pr_funcs p)"
  have n: "?n = length (shape p)" by (simp add: shape_def)
  have "prog_size (fold sweep_func [0..<?n] p) \<le> prog_size p \<and> shape (fold sweep_func [0..<?n] p) = shape p \<and>
    (prog_size (fold sweep_func [0..<?n] p) = prog_size p \<longrightarrow>
      fold sweep_func [0..<?n] p = p \<and> (\<forall>k\<in>set [0..<?n]. \<forall>b\<in>set (shape p ! k). block_clean k b p))"
    by (rule fold_shrink [where Q = "\<lambda>q. shape q = shape p"]) (use sweep_func_size n in auto)
  then show ?thesis using assms by (auto simp: dead_def_round_def Let_def prog_clean_def shape_def)
qed

lemma dead_def_loop_clean: "prog_clean (dead_def_loop p)"
proof (induction p rule: dead_def_loop.induct)
  case (1 p)
  obtain c p' where r: "dead_def_round p = (c, p')" by fastforce
  show ?case
  proof (cases c)
    case True
    then show ?thesis using 1 [OF r [symmetric]] by (subst dead_def_loop.simps) (simp add: r)
  next
    case False
    then show ?thesis using dead_def_round_spec r by (subst dead_def_loop.simps) auto
  qed
qed

text \<open>What is not used outside the block and not in it is not used at all.\<close>

lemma removable_unused:
  assumes "k < length (pr_funcs p)" "b \<in> set (fn_blocks (pr_funcs p ! k))" "defined_var i = Some r"
    and "\<not> has_side_effect i" "\<not> prog_uses (key_of r) p"
  shows "removable (\<lambda>x. prog_uses x (set_insts k b [] p)) (bk_insts (fn_blk (pr_funcs p ! k) b)) i"
proof -
  have u: "\<not> block_uses (key_of r) (fn_blk fn c)" if "fn \<in> set (pr_funcs p)" "c \<in> set (fn_blocks fn)" for fn c
    using assms(5) that by (auto simp: prog_uses_def list_ex_iff)
  have k: "pr_funcs p ! k \<in> set (pr_funcs p)" using assms(1) by simp
  have "\<not> list_ex (inst_uses (key_of r)) (bk_insts (fn_blk (pr_funcs p ! k) b))"
    using u [OF k assms(2)] by (simp add: block_uses_def inst_uses_def [abs_def])
  moreover have "\<not> prog_uses (key_of r) (set_insts k b [] p)"
  proof
    assume "prog_uses (key_of r) (set_insts k b [] p)"
    then obtain fn c where fn: "fn \<in> set (pr_funcs (set_insts k b [] p))" "c \<in> set (fn_blocks fn)" "block_uses (key_of r) (fn_blk fn c)"
      by (auto simp: prog_uses_def list_ex_iff)
    then consider "fn \<in> set (pr_funcs p)" | "fn = update_block b (\<lambda>blk. blk\<lparr>bk_insts := []\<rparr>) (pr_funcs p ! k)"
      using set_update_subset_insert [of "pr_funcs p" k] by (auto simp: set_insts_def)
    then show False
    proof cases
      case 1
      then show False using u fn by blast
    next
      case 2
      then have "c \<in> set (fn_blocks (pr_funcs p ! k))" using fn(2) by (simp add: update_block_def)
      then have "\<not> block_uses (key_of r) (fn_blk (pr_funcs p ! k) c)" using u [OF k] by simp
      then show False using fn(3) 2 by (auto simp: update_block_def block_uses_def split: if_splits)
    qed
  qed
  ultimately show ?thesis using assms(3,4) by (simp add: removable_def)
qed

theorem DeadDefElimination_used:
  assumes "DeadDefElimination p = Inr (c, p')" "fn \<in> set (pr_funcs p')" "i \<in> set (func_insts fn)"
    and "defined_var i = Some r" "\<not> has_side_effect i"
  shows "prog_uses (key_of r) p'"
proof (rule ccontr)
  assume n: "\<not> prog_uses (key_of r) p'"
  have p': "prog_clean p'" using assms(1) dead_def_loop_clean by (auto simp: DeadDefElimination_def split: if_splits)
  obtain k where k: "k < length (pr_funcs p')" "fn = pr_funcs p' ! k" using assms(2) by (auto simp: in_set_conv_nth)
  obtain b where b: "b \<in> set (fn_blocks fn)" "i \<in> set (bk_insts (fn_blk fn b))" using assms(3) by (auto simp: func_insts_def)
  have "block_clean k b p'" using p' k b(1) by (auto simp: prog_clean_def)
  then show False using removable_unused [OF k(1) _ assms(4,5) n, of b] b unfolding k(2) by (auto simp: block_clean_def)
qed

section \<open>Instances\<close>

definition two_blocks :: ir_func where
  "two_blocks = sample_func\<lparr>fn_blocks := [0, 1, 2], fn_blk := (\<lambda>b. \<lparr>bk_label = ''b'',
     bk_insts = (if b = 0 then [Unary Op_MOV (Some (TempValue (Prim Int32) 0 0)) (Const (mk_const (V_int 1))),
                                Unary Op_MOV (Some (TempValue (Prim Int32) 1 0)) (val.Left (TempValue (Prim Int32) 0 0)),
                                Unary Op_MOV (Some (TempValue (Prim Int32) 2 0)) (val.Left (TempValue (Prim Int32) 0 0))]
                 else []),
     bk_exit = Some (if b = 0 then JumpExit 2 else ReturnExit (val.Left (TempValue (Prim Int32) 1 0)))\<rparr>)\<rparr>"

definition two_prog :: ir_program where
  "two_prog = \<lparr>pr_alloc = (\<lambda>i. undefined), pr_globals = [], pr_funcs = [two_blocks], pr_builtins = [], pr_is_ssa = True\<rparr>"

theorem DeadBlockElimination_reachable_witness:
  "\<exists>c p'. DeadBlockElimination two_prog = Some (Inr (c, p')) \<and>
     map fn_blocks (pr_funcs p') = map live_blocks (pr_funcs two_prog)"
  by (rule DeadBlockElimination_reachable)
    (simp add: two_prog_def two_blocks_def blocks_closed_def closed_cfg_def hasExit_def exit_succs_def block_targets_def)

lemma two_prog_insts:
  "func_insts (hd (pr_funcs (dead_def_loop two_prog))) =
     [Unary Op_MOV (Some (TempValue (Prim Int32) 0 0)) (Const (mk_const (V_int 1))),
      Unary Op_MOV (Some (TempValue (Prim Int32) 1 0)) (val.Left (TempValue (Prim Int32) 0 0))]"
  by code_simp

theorem DeadDefElimination_used_witness: "prog_uses (K_temp 0 0) (dead_def_loop two_prog)"
proof -
  have "DeadDefElimination two_prog = Inr (fst (dead_def_round two_prog), dead_def_loop two_prog)"
    by (simp add: DeadDefElimination_def two_prog_def)
  note used = DeadDefElimination_used [OF this]
  have "pr_funcs (dead_def_loop two_prog) \<noteq> []" by code_simp
  then have "hd (pr_funcs (dead_def_loop two_prog)) \<in> set (pr_funcs (dead_def_loop two_prog))" by simp
  from used [OF this, of "Unary Op_MOV (Some (TempValue (Prim Int32) 0 0)) (Const (mk_const (V_int 1)))" "TempValue (Prim Int32) 0 0"]
  show ?thesis by (simp add: two_prog_insts)
qed

end
