(* ===== verification/Ir_Copy.thy ===== *)
theory Ir_Copy
  imports Usedef Dominance "HOL-Library.AList"
begin

text \<open>
  Copy propagation (\<open>transform/optim/copy_propagation.hpp\<close>) and elimination of common subexpressions
  (\<open>common_expr.hpp\<close>). A hash map is a list of its entries; the loop over the copies takes them in this
  order. Equality of constants throws on an array constant without a buffer; such constants, which no
  pass builds, count as different here.
\<close>

section \<open>Equality of values\<close>

fun val_same :: "val \<Rightarrow> val \<Rightarrow> bool" where
  "val_same (val.Left a) (val.Left b) = (key_of a = key_of b)"
| "val_same (Const c) (Const d) = (constexpr_eq c d = Inr True)"
| "val_same _ _ = False"

section \<open>Copy propagation\<close>

type_synonym copies = "(lv_key \<times> val) list"

definition set_copy :: "left_value \<Rightarrow> val \<Rightarrow> copies \<Rightarrow> copies" where
  "set_copy l v cs = AList.update (key_of l) v cs"

definition copy_keys :: "copies \<Rightarrow> lv_key set" where
  "copy_keys cs = {k. \<exists>l. val.Left l \<in> snd ` set cs \<and> key_of l = k}"

lemma finite_copy_keys: "finite (copy_keys cs)"
proof -
  have "copy_keys cs \<subseteq> (\<lambda>v. case v of val.Left l \<Rightarrow> key_of l | Const c \<Rightarrow> undefined) ` snd ` set cs"
    by (force simp: copy_keys_def image_iff)
  then show ?thesis by (rule finite_subset) simp
qed

text \<open>
  The chain of copies, cut where a value comes up again. A constant ends the chain, so only variables
  are looked up among the visited values.
\<close>

function get_root :: "copies \<Rightarrow> lv_key list \<Rightarrow> val \<Rightarrow> val" where
  "get_root cs visited v =
     (case v of
        Const c \<Rightarrow> v
      | val.Left l \<Rightarrow>
          (case map_of cs (key_of l) of
             None \<Rightarrow> v
           | Some (Const c) \<Rightarrow> Const c
           | Some (val.Left m) \<Rightarrow>
               if key_of m \<in> set visited then v else get_root cs (key_of m # visited) (val.Left m)))"
  by auto
termination
proof (relation "measure (\<lambda>(cs, visited, v). card (copy_keys cs - set visited))")
  fix cs visited v l w m
  assume v: "v = val.Left l" "map_of cs (key_of l) = Some w" "w = val.Left m" "key_of m \<notin> set visited"
  then have "key_of m \<in> copy_keys cs - set visited"
    by (force simp: copy_keys_def dest: map_of_SomeD)
  then have "card (copy_keys cs - set (key_of m # visited)) < card (copy_keys cs - set visited)"
    using finite_copy_keys [of cs] by (intro psubset_card_mono) auto
  then show "((cs, key_of m # visited, val.Left m), (cs, visited, v)) \<in> measure (\<lambda>(cs, visited, v). card (copy_keys cs - set visited))"
    by simp
qed simp

declare get_root.simps [simp del]

text \<open>The variable all arguments of a phi come from; the phi itself does not count.\<close>

fun phi_root :: "copies \<Rightarrow> left_value \<Rightarrow> val option \<Rightarrow> (block_id \<times> val) list \<Rightarrow> val option" where
  "phi_root cs r u [] = u"
| "phi_root cs r u ((b, Const c) # args) = None"
| "phi_root cs r u ((b, val.Left l) # args) =
     (let root = get_root cs [] (val.Left l) in
      if val_same root (val.Left r) then phi_root cs r u args
      else case u of
        None \<Rightarrow> phi_root cs r (Some root) args
      | Some w \<Rightarrow> if val_same w root then phi_root cs r u args else None)"

fun find_copy :: "inst \<Rightarrow> copies \<Rightarrow> copies result" where
  "find_copy (Unary Op_MOV r x) cs =
     (if is_array (type_of x) then Inr cs
      else case r of None \<Rightarrow> Inl (Undefined ''value of an empty optional'') | Some l \<Rightarrow> Inr (set_copy l x cs))"
| "find_copy (Phi None ((b, val.Left l) # args)) cs = Inl (Undefined ''value of an empty optional'')"
| "find_copy (Phi (Some l) args) cs =
     (case phi_root cs l None args of None \<Rightarrow> Inr cs | Some v \<Rightarrow> Inr (set_copy l v cs))"
| "find_copy i cs = Inr cs"

fun global_copies :: "alloc_store \<Rightarrow> alloc_id list \<Rightarrow> copies \<Rightarrow> copies result" where
  "global_copies A [] cs = Inr cs"
| "global_copies A (i # is) cs =
     (if al_comptime (A i) \<and> \<not> is_array (al_type (A i))
        then (case al_init (A i) of
                None \<Rightarrow> Inl (Undefined ''value of an empty optional'')
              | Some c \<Rightarrow> global_copies A is (set_copy (alloc_value A i) (Const c) cs))
      else global_copies A is cs)"

definition copies_of :: "ir_program \<Rightarrow> nat \<Rightarrow> copies result" where
  "copies_of p k = rbind (global_copies (pr_alloc p) (pr_globals p) []) (rfold find_copy (func_insts (pr_funcs p ! k)))"

text \<open>Every use of a copy becomes a use of its root.\<close>

fun replace_copies :: "copies \<Rightarrow> copies \<Rightarrow> bool \<times> ir_program \<Rightarrow> bool \<times> ir_program" where
  "replace_copies cs [] st = st"
| "replace_copies cs ((k, v) # rest) st =
     (case replace_uses k (get_root cs [] v) (snd st) of (c, p) \<Rightarrow> replace_copies cs rest (fst st \<or> c, p))"

definition propagate :: "nat \<Rightarrow> ir_program \<Rightarrow> (bool \<times> ir_program) result" where
  "propagate k p = rbind (copies_of p k) (\<lambda>cs. Inr (replace_copies cs cs (False, p)))"

partial_function (option) propagate_loop :: "nat \<Rightarrow> bool \<times> ir_program \<Rightarrow> (bool \<times> ir_program) result option" where
  "propagate_loop k st =
     (case propagate k (snd st) of
        Inl e \<Rightarrow> Some (Inl e)
      | Inr (c, p) \<Rightarrow> if c then propagate_loop k (True, p) else Some (Inr (fst st, p)))"

declare propagate_loop.simps [code]

fun propagate_funcs :: "nat list \<Rightarrow> bool \<times> ir_program \<Rightarrow> (bool \<times> ir_program) result option" where
  "propagate_funcs [] st = Some (Inr st)"
| "propagate_funcs (k # ks) st =
     (case propagate_loop k st of
        None \<Rightarrow> None
      | Some (Inl e) \<Rightarrow> Some (Inl e)
      | Some (Inr st') \<Rightarrow> propagate_funcs ks st')"

definition CopyPropagation :: "ir_program \<Rightarrow> (bool \<times> ir_program) result option" where
  "CopyPropagation p =
     (if \<not> pr_is_ssa p then Some (Inl (Compiler_error ''CopyPropagation requires SSA form''))
      else propagate_funcs [0..<length (pr_funcs p)] (False, p))"

section \<open>Common subexpressions\<close>

type_synonym expr = "(unary_inst_op + inst_op) \<times> nat \<times> nat"

record numbering =
  nm_value :: "(val \<times> nat) list"
  nm_expr :: "expr \<rightharpoonup> nat"
  nm_num :: "nat \<rightharpoonup> val"

definition empty_numbering :: numbering where
  "empty_numbering =
     \<lparr>nm_value = [(Const void_const, 0)], nm_expr = Map.empty, nm_num = [0 \<mapsto> Const void_const]\<rparr>"

definition value_num :: "numbering \<Rightarrow> val \<Rightarrow> nat option" where
  "value_num N v = map_option snd (List.find (\<lambda>e. val_same (fst e) v) (nm_value N))"

fun set_num :: "val \<Rightarrow> nat \<Rightarrow> (val \<times> nat) list \<Rightarrow> (val \<times> nat) list" where
  "set_num v n [] = [(v, n)]"
| "set_num v n ((w, m) # es) = (if val_same w v then (w, n) # es else (w, m) # set_num v n es)"

definition number_new :: "val \<Rightarrow> numbering \<Rightarrow> numbering" where
  "number_new v N =
     (let n = length (nm_value N) in N\<lparr>nm_value := set_num v n (nm_value N), nm_num := (nm_num N)(n \<mapsto> v)\<rparr>)"

definition lookup_num :: "val \<Rightarrow> numbering \<Rightarrow> nat \<times> numbering" where
  "lookup_num v N =
     (case value_num N v of
        Some n \<Rightarrow> (n, N)
      | None \<Rightarrow> (length (nm_value N), number_new v N))"

text \<open>
  An expression seen before becomes a copy of the value with its number; a missing number would be
  the default constant.
\<close>

definition convert_expr :: "expr \<Rightarrow> left_value \<Rightarrow> inst \<Rightarrow> numbering \<Rightarrow> bool \<times> inst \<times> numbering" where
  "convert_expr x r i N =
     (case nm_expr N x of
        Some n \<Rightarrow>
          (True, Unary Op_MOV (Some r) (case nm_num N n of Some v \<Rightarrow> v | None \<Rightarrow> Const void_const),
           N\<lparr>nm_value := set_num (val.Left r) n (nm_value N)\<rparr>)
      | None \<Rightarrow>
          (let N1 = number_new (val.Left r) N in
           (False, i, N1\<lparr>nm_expr := (nm_expr N1)(x \<mapsto> length (nm_value N))\<rparr>)))"

fun cse_inst :: "inst \<Rightarrow> numbering \<Rightarrow> bool \<times> inst \<times> numbering" where
  "cse_inst (Unary op (Some r) x) N =
     (if op = Op_LOAD \<or> op = Op_MOV then (False, Unary op (Some r) x, N)
      else case lookup_num x N of (n, N1) \<Rightarrow> convert_expr (Inl op, n, 0) r (Unary op (Some r) x) N1)"
| "cse_inst (Binary op (Some r) x y) N =
     (if op = Op_LOAD_ELEM \<or> op = Op_STORE then (False, Binary op (Some r) x y, N)
      else case lookup_num x N of (n, N1) \<Rightarrow>
           case lookup_num y N1 of (m, N2) \<Rightarrow>
           case convert_expr (Inr op, n, m) r (Binary op (Some r) x y) N2 of (c, i, N3) \<Rightarrow>
             (c, i, if commutative op then N3\<lparr>nm_expr := (nm_expr N3)((Inr op, m, n) := nm_expr N3 (Inr op, n, m))\<rparr> else N3))"
| "cse_inst i N = (False, i, N)"

fun cse_insts :: "inst list \<Rightarrow> numbering \<Rightarrow> bool \<times> inst list \<times> numbering" where
  "cse_insts [] N = (False, [], N)"
| "cse_insts (i # is) N =
     (case cse_inst i N of (c, i', N1) \<Rightarrow>
      case cse_insts is N1 of (c', is', N2) \<Rightarrow> (c \<or> c', i' # is', N2))"

text \<open>The walk over the dominator tree; a child starts with the numbering of its parent.\<close>

partial_function (option) cse_walk ::
  "(block_id \<Rightarrow> block_id list) \<Rightarrow> (block_id \<times> numbering) list \<Rightarrow> bool \<times> ir_func \<Rightarrow> (bool \<times> ir_func) option" where
  "cse_walk kids work st =
     (case work of
        [] \<Rightarrow> Some st
      | (b, N) # rest \<Rightarrow>
          (case cse_insts (bk_insts (fn_blk (snd st) b)) N of (c, is, N') \<Rightarrow>
             cse_walk kids (map (\<lambda>d. (d, N')) (kids b) @ rest)
               (fst st \<or> c, update_block b (\<lambda>blk. blk\<lparr>bk_insts := is\<rparr>) (snd st))))"

declare cse_walk.simps [code]

definition cse_func :: "(block_id set \<Rightarrow> block_id list) \<Rightarrow> ir_func \<Rightarrow> (bool \<times> ir_func) result option" where
  "cse_func enum fn =
     (case dominators enum fn of
        None \<Rightarrow> None
      | Some (Inl e) \<Rightarrow> Some (Inl e)
      | Some (Inr t) \<Rightarrow>
          (case entrance fn of
             Inl e \<Rightarrow> Some (Inl e)
           | Inr b \<Rightarrow> map_option Inr (cse_walk (dom_children enum t) [(b, empty_numbering)] (False, fn))))"

fun cse_funcs :: "(block_id set \<Rightarrow> block_id list) \<Rightarrow> ir_func list \<Rightarrow> (bool \<times> ir_func list) result option" where
  "cse_funcs enum [] = Some (Inr (False, []))"
| "cse_funcs enum (fn # fns) =
     (case cse_func enum fn of
        None \<Rightarrow> None
      | Some (Inl e) \<Rightarrow> Some (Inl e)
      | Some (Inr (c, fn')) \<Rightarrow>
          (case cse_funcs enum fns of
             None \<Rightarrow> None
           | Some (Inl e) \<Rightarrow> Some (Inl e)
           | Some (Inr (c', fns')) \<Rightarrow> Some (Inr (c \<or> c', fn' # fns'))))"

definition CommonSubexprElimination ::
  "(block_id set \<Rightarrow> block_id list) \<Rightarrow> ir_program \<Rightarrow> (bool \<times> ir_program) result option" where
  "CommonSubexprElimination enum p =
     (if \<not> pr_is_ssa p then Some (Inl (Compiler_error ''CommonSubexprElimination requires SSA form''))
      else map_option (\<lambda>r. rbind r (\<lambda>(c, fns). Inr (c, p\<lparr>pr_funcs := fns\<rparr>))) (cse_funcs enum (pr_funcs p)))"

end
