(* ===== verification/Ir_Copy_Sound.thy ===== *)
theory Ir_Copy_Sound
  imports Ir_Copy Ir_Fold_Sound
begin

text \<open>
  Elimination of common subexpressions keeps what a block computes, for blocks over integers whose
  definitions are new: the copy of an earlier result has the value the expression had.
\<close>

section \<open>Integer blocks\<close>

definition int_val :: "val \<Rightarrow> bool" where
  "int_val v \<longleftrightarrow> type_of v \<in> Prim ` {Int1, Int32, Int64}"

definition int_inst :: "inst \<Rightarrow> bool" where
  "int_inst i \<longleftrightarrow> inst_typed i \<and> int_dest i \<and> list_all int_val (used i)"

definition used_keys :: "inst \<Rightarrow> lv_key set" where
  "used_keys i = key_of ` set (used_vars i)"

lemma used_keysI: "val.Left l \<in> set (used i) \<Longrightarrow> key_of l \<in> used_keys i"
  by (force simp: used_keys_def used_vars_def List.map_filter_def as_var_Some)

text \<open>A definition is of a variable that does not occur before.\<close>

fun new_defs :: "lv_key set \<Rightarrow> inst list \<Rightarrow> bool" where
  "new_defs K [] = True"
| "new_defs K (i # is) =
     (case defined_var i of
        None \<Rightarrow> new_defs (K \<union> used_keys i) is
      | Some r \<Rightarrow> key_of r \<notin> K \<union> used_keys i \<and> new_defs (insert (key_of r) (K \<union> used_keys i)) is)"

section \<open>Consistent numberings\<close>

definition known :: "lv_key set \<Rightarrow> val \<Rightarrow> bool" where
  "known K v \<longleftrightarrow> (\<forall>l. v = val.Left l \<longrightarrow> key_of l \<in> K)"

definition entry_ok :: "env \<Rightarrow> lv_key set \<Rightarrow> (nat \<rightharpoonup> val) \<Rightarrow> val \<Rightarrow> nat \<Rightarrow> bool" where
  "entry_ok env K num v n \<longleftrightarrow>
     v = Const void_const \<or>
     (int_val v \<and> known K v \<and> is_ok (operand env v) \<and> (\<exists>w. num n = Some w \<and> operand env w = operand env v))"

definition nums_ok :: "lv_key set \<Rightarrow> numbering \<Rightarrow> bool" where
  "nums_ok K N \<longleftrightarrow> (\<forall>n v. nm_num N n = Some v \<longrightarrow> n < length (nm_value N) \<and> known K v)"

text \<open>The value of an expression on numbers.\<close>

definition num_operand :: "env \<Rightarrow> (nat \<rightharpoonup> val) \<Rightarrow> nat \<Rightarrow> (prim \<times> cval) result" where
  "num_operand env num n = (case num n of None \<Rightarrow> Inl Out_of_range | Some u \<Rightarrow> operand env u)"

fun expr_value :: "host \<Rightarrow> env \<Rightarrow> (nat \<rightharpoonup> val) \<Rightarrow> expr \<Rightarrow> (prim \<times> cval) result" where
  "expr_value h env num (Inl op, n, m) =
     rbind (num_operand env num n) (\<lambda>(p, a). rbind (eval_unary h op p (p, a)) (\<lambda>c. Inr (p, c)))"
| "expr_value h env num (Inr op, n, m) =
     rbind (num_operand env num n) (\<lambda>(p, a). rbind (num_operand env num m) (\<lambda>(q, b).
       if p \<noteq> q \<or> \<not> int_prim p then Inl Bad_variant
       else let d = (if is_comparison op then Int1 else p) in rbind (eval_op h op d (p, a) (p, b)) (\<lambda>c. Inr (d, c))))"

definition expr_ok :: "host \<Rightarrow> env \<Rightarrow> (nat \<rightharpoonup> val) \<Rightarrow> expr \<Rightarrow> val \<Rightarrow> bool" where
  "expr_ok h env num x w \<longleftrightarrow> is_ok (expr_value h env num x) \<and> operand env w = expr_value h env num x"

definition exprs_ok :: "host \<Rightarrow> env \<Rightarrow> numbering \<Rightarrow> bool" where
  "exprs_ok h env N \<longleftrightarrow> (\<forall>x n. nm_expr N x = Some n \<longrightarrow> (\<exists>w. nm_num N n = Some w \<and> expr_ok h env (nm_num N) x w))"

definition numbering_ok :: "host \<Rightarrow> env \<Rightarrow> lv_key set \<Rightarrow> numbering \<Rightarrow> bool" where
  "numbering_ok h env K N \<longleftrightarrow>
     (\<forall>e\<in>set (nm_value N). entry_ok env K (nm_num N) (fst e) (snd e)) \<and> nums_ok K N \<and> exprs_ok h env N"

lemma numbering_ok_empty: "numbering_ok h env K empty_numbering"
  by (simp add: numbering_ok_def entry_ok_def nums_ok_def known_def exprs_ok_def empty_numbering_def)

lemma map_le_SomeD: "m \<subseteq>\<^sub>m m' \<Longrightarrow> m k = Some v \<Longrightarrow> m' k = Some v"
  by (metis domI map_le_def)

lemma num_operand_mono: "num_operand env num n = Inr y \<Longrightarrow> num \<subseteq>\<^sub>m num' \<Longrightarrow> num_operand env num' n = Inr y"
  by (auto simp: num_operand_def split: option.splits dest: map_le_SomeD)

lemma expr_value_mono:
  assumes "expr_value h env num x = Inr y" "num \<subseteq>\<^sub>m num'"
  shows "expr_value h env num' x = Inr y"
proof (cases "(h, env, num, x)" rule: expr_value.cases)
  case (1 h' env' num0 op n m)
  then have x: "x = (Inl op, n, m)" by simp
  obtain z where z: "num_operand env num n = Inr z" using assms(1) by (auto simp: x rbind_eq_Inr)
  have "expr_value h env num' x = expr_value h env num x" unfolding x expr_value.simps z num_operand_mono [OF z assms(2)] ..
  then show ?thesis using assms(1) by (simp only:)
next
  case (2 h' env' num0 op n m)
  then have x: "x = (Inr op, n, m)" by simp
  obtain z w where z: "num_operand env num n = Inr z" and w: "num_operand env num m = Inr w"
    using assms(1) by (auto simp: x rbind_eq_Inr)
  have "expr_value h env num' x = expr_value h env num x"
    unfolding x expr_value.simps z w num_operand_mono [OF z assms(2)] num_operand_mono [OF w assms(2)] ..
  then show ?thesis using assms(1) by (simp only:)
qed

lemma expr_ok_mono: "expr_ok h env num x w \<Longrightarrow> num \<subseteq>\<^sub>m num' \<Longrightarrow> expr_ok h env num' x w"
proof -
  assume ok: "expr_ok h env num x w" and le: "num \<subseteq>\<^sub>m num'"
  obtain y where "expr_value h env num x = Inr y" using ok by (cases "expr_value h env num x") (simp_all add: expr_ok_def)
  then show ?thesis using ok expr_value_mono [OF _ le] by (simp add: expr_ok_def)
qed

lemma expr_value_env:
  assumes "\<And>n u. num n = Some u \<Longrightarrow> operand env' u = operand env u"
  shows "expr_value h env' num x = expr_value h env num x"
proof -
  have "num_operand env' num n = num_operand env num n" for n
    using assms by (simp add: num_operand_def split: option.splits)
  then show ?thesis by (cases "(h, env, num, x)" rule: expr_value.cases) simp_all
qed

lemma exprs_ok_mono: "exprs_ok h env N \<Longrightarrow> nm_num N \<subseteq>\<^sub>m nm_num N' \<Longrightarrow> nm_expr N' = nm_expr N \<Longrightarrow> exprs_ok h env N'"
  unfolding exprs_ok_def by (metis domI expr_ok_mono map_le_def)

lemma entry_ok_mono: "entry_ok env K num v n \<Longrightarrow> num \<subseteq>\<^sub>m num' \<Longrightarrow> entry_ok env K num' v n"
  unfolding entry_ok_def by (metis domI map_le_def)

lemma known_mono: "known K v \<Longrightarrow> K \<subseteq> K' \<Longrightarrow> known K' v"
  by (auto simp: known_def)

text \<open>A new variable changes no operand that is known.\<close>

lemma operand_other: "known K v \<Longrightarrow> k \<notin> K \<Longrightarrow> operand (env(k \<mapsto> x)) v = operand env v"
  by (cases v) (auto simp: known_def)

lemma numbering_ok_extend:
  assumes "numbering_ok h env K N" "k \<notin> K" "K \<subseteq> K'"
  shows "numbering_ok h (env(k \<mapsto> x)) K' N"
proof -
  have num: "operand (env(k \<mapsto> x)) v = operand env v" if "nm_num N n = Some v" for n v
    using assms(1,2) that operand_other unfolding numbering_ok_def nums_ok_def by blast
  have "entry_ok (env(k \<mapsto> x)) K' (nm_num N) v n" if "entry_ok env K (nm_num N) v n" for v n
    using that num operand_other [OF _ assms(2)] known_mono [OF _ assms(3)] unfolding entry_ok_def by metis
  moreover have "expr_ok h (env(k \<mapsto> x)) (nm_num N) y w" if "expr_ok h env (nm_num N) y w" "nm_num N n = Some w" for y w n
    using that num expr_value_env [of "nm_num N" "env(k \<mapsto> x)" env h y] by (simp add: expr_ok_def)
  ultimately show ?thesis
    using assms(1) known_mono [OF _ assms(3)] unfolding numbering_ok_def exprs_ok_def nums_ok_def by blast
qed

lemma int_operand: "int_val v \<Longrightarrow> operand env v = Inr (p, a) \<Longrightarrow> int_prim p"
  using operand_type by (fastforce simp: int_val_def int_prim_def)

lemma has_prim_unique: "has_prim p v \<Longrightarrow> has_prim q v \<Longrightarrow> int_prim p \<Longrightarrow> p = q"
  by (cases p; cases q; cases v) (simp_all add: int_prim_def)

text \<open>Values that compare equal have the same operand.\<close>

lemma val_same_operand:
  assumes "val_same v w" "int_val w" "operand env w = Inr (p, a)" "is_ok (operand env v)"
  shows "operand env v = Inr (p, a)"
proof -
  obtain q b where v: "operand env v = Inr (q, b)" using assms(4) by (cases "operand env v") auto
  have p: "int_prim p" using int_operand assms(2,3) by blast
  show ?thesis
  proof (cases w)
    case (Left l)
    then obtain m where m: "v = val.Left m" "key_of m = key_of l" using assms(1) by (cases v) auto
    then have "b = a" using v assms(3) by (simp add: Left scalar_eq_Inr)
    moreover have "p = q" using has_prim_unique p operand_type [OF v] operand_type [OF assms(3)] \<open>b = a\<close> by blast
    ultimately show ?thesis using v by simp
  next
    case (Const c)
    then obtain d where d: "v = Const d" "constexpr_eq d c = Inr True" using assms(1) by (cases v) auto
    have "ctype c = Prim p" "has_prim p (cvalue c)" using assms(3) by (simp_all add: Const scalar_eq_Inr)
    moreover have "ctype d = Prim p"
    proof -
      have "ctype d = Prim q" using v by (simp add: d scalar_eq_Inr)
      moreover have "eq_ty (ctype d) (ctype c)" using d(2) unfolding constexpr_eq_def by (cases "eq_ty (ctype d) (ctype c)") simp_all
      ultimately have "sub_ty (Prim q) (Prim p)" using \<open>ctype c = Prim p\<close> by (simp only: eq_ty_def)
      then show ?thesis using \<open>ctype d = Prim q\<close> by simp
    qed
    ultimately have "d = c" using constexpr_eq_int [OF d(2) p] by simp
    then show ?thesis using assms(3) by (simp add: d Const)
  qed
qed

lemma void_not_same: "int_val v \<Longrightarrow> \<not> val_same (Const void_const) v"
  by (cases v) (auto simp: int_val_def constexpr_eq_def void_const_def eq_ty_def unit_ty_def)

lemma set_num_new: "\<forall>e\<in>set es. \<not> val_same (fst e) v \<Longrightarrow> set_num v n es = es @ [(v, n)]"
  by (induction v n es rule: set_num.induct) auto

lemma value_num_None: "value_num N v = None \<longleftrightarrow> (\<forall>e\<in>set (nm_value N). \<not> val_same (fst e) v)"
  by (auto simp: value_num_def find_None_iff)

lemma value_num_Some:
  assumes "value_num N v = Some n"
  shows "\<exists>w. (w, n) \<in> set (nm_value N) \<and> val_same w v"
proof -
  obtain e where e: "List.find (\<lambda>e. val_same (fst e) v) (nm_value N) = Some e" "n = snd e"
    using assms by (auto simp: value_num_def)
  then have "e \<in> set (nm_value N)" "val_same (fst e) v" by (auto simp: find_Some_iff)
  then show ?thesis using e(2) by (metis prod.collapse)
qed

text \<open>A value gets the next number.\<close>

lemma number_new_ok:
  assumes "numbering_ok h env K N" "value_num N v = None" "int_val v" "known K v" "is_ok (operand env v)"
  shows "numbering_ok h env K (number_new v N) \<and> nm_num (number_new v N) (length (nm_value N)) = Some v \<and>
    nm_num N \<subseteq>\<^sub>m nm_num (number_new v N) \<and> nm_expr (number_new v N) = nm_expr N"
proof -
  let ?N = "number_new v N" and ?n = "length (nm_value N)"
  have N': "nm_value ?N = nm_value N @ [(v, ?n)]" "nm_num ?N = (nm_num N)(?n \<mapsto> v)" "nm_expr ?N = nm_expr N"
    using assms(2) set_num_new [of "nm_value N" v] by (simp_all add: number_new_def Let_def value_num_None)
  have "nm_num N ?n = None"
    using assms(1) unfolding numbering_ok_def nums_ok_def by (metis less_irrefl not_None_eq)
  then have le: "nm_num N \<subseteq>\<^sub>m nm_num ?N" unfolding N'(2) by (auto simp: map_le_def)
  have "entry_ok env K (nm_num ?N) v ?n" using assms(3-5) by (simp add: entry_ok_def N'(2))
  then have "\<forall>e\<in>set (nm_value ?N). entry_ok env K (nm_num ?N) (fst e) (snd e)"
    using assms(1) entry_ok_mono [OF _ le] by (auto simp: N'(1) numbering_ok_def)
  moreover have "nums_ok K ?N" using assms(1,4) by (auto simp: numbering_ok_def nums_ok_def N' less_Suc_eq)
  moreover have "exprs_ok h env ?N" using assms(1) exprs_ok_mono [OF _ le N'(3)] by (simp add: numbering_ok_def)
  ultimately show ?thesis using le N' by (simp add: numbering_ok_def)
qed

text \<open>A value that is looked up has a number with its operand.\<close>

lemma lookup_ok:
  assumes "numbering_ok h env K N" "int_val v" "operand env v = Inr (p, a)" "lookup_num v N = (n, N')" "known K v"
  shows "numbering_ok h env K N' \<and> (\<exists>w. nm_num N' n = Some w \<and> operand env w = Inr (p, a)) \<and>
    nm_num N \<subseteq>\<^sub>m nm_num N' \<and> nm_expr N' = nm_expr N"
proof (cases "value_num N v")
  case (Some k)
  then have k: "n = k" "N' = N" using assms(4) by (simp_all add: lookup_num_def)
  obtain w where w: "(w, k) \<in> set (nm_value N)" "val_same w v" using value_num_Some [OF Some] by blast
  then have "w \<noteq> Const void_const" using void_not_same assms(2) by auto
  moreover have "entry_ok env K (nm_num N) w k" using assms(1) w(1) by (force simp: numbering_ok_def)
  ultimately obtain u where "nm_num N k = Some u" "is_ok (operand env w)" "operand env u = operand env w"
    by (auto simp: entry_ok_def)
  then show ?thesis using val_same_operand [OF w(2) assms(2,3)] assms(1) k by simp
next
  case None
  then have "n = length (nm_value N)" "N' = number_new v N" using assms(4) by (auto simp: lookup_num_def)
  then show ?thesis using number_new_ok [OF assms(1) None assms(2,5)] assms(3) by simp
qed

lemma numbering_ok_mono: "numbering_ok h env K N \<Longrightarrow> K \<subseteq> K' \<Longrightarrow> numbering_ok h env K' N"
  using known_mono unfolding numbering_ok_def entry_ok_def nums_ok_def by blast

lemma entries_new:
  assumes "numbering_ok h env K N" "key_of r \<notin> K"
  shows "value_num N (val.Left r) = None"
  unfolding value_num_None
proof
  fix e assume "e \<in> set (nm_value N)"
  then have "fst e = Const void_const \<or> known K (fst e)" using assms(1) by (auto simp: numbering_ok_def entry_ok_def)
  then show "\<not> val_same (fst e) (val.Left r)" using assms(2) by (cases "fst e") (auto simp: known_def)
qed

lemma numbering_ok_value: "numbering_ok h env K N \<Longrightarrow> (v, n) \<in> set (nm_value N) \<Longrightarrow> entry_ok env K (nm_num N) v n"
  by (force simp: numbering_ok_def)

text \<open>The step that replaces an expression by the value with its number.\<close>

lemma convert_ok:
  assumes ok: "numbering_ok h env K N" and new: "key_of r \<notin> K" and t: "type_of_lv r = Prim d" "int_prim d"
    and val: "expr_value h env (nm_num N) x = Inr (d, c)" "has_prim d c"
    and step: "inst_step h prev i env = Inr (env(key_of r \<mapsto> c))" and conv: "convert_expr x r i N = (ch, i', N')"
  shows "inst_step h prev i' env = Inr (env(key_of r \<mapsto> c)) \<and>
    numbering_ok h (env(key_of r \<mapsto> c)) (insert (key_of r) K) N' \<and> nm_num N \<subseteq>\<^sub>m nm_num N' \<and>
    is_ok (expr_value h (env(key_of r \<mapsto> c)) (nm_num N') x) \<and> nm_expr N' x \<noteq> None"
proof -
  let ?env = "env(key_of r \<mapsto> c)" and ?K = "insert (key_of r) K"
  have ok': "numbering_ok h ?env ?K N" using numbering_ok_extend [OF ok new] by blast
  have num: "operand ?env u = operand env u" if "nm_num N n = Some u" for n u
    using ok that operand_other [OF _ new] unfolding numbering_ok_def nums_ok_def by blast
  have val': "expr_value h ?env (nm_num N) x = Inr (d, c)"
    using expr_value_env [of "nm_num N" ?env env h x] num val(1) by simp
  have r: "operand ?env (val.Left r) = Inr (d, c)" using t val(2) by (simp add: scalar_def)
  have int: "int_val (val.Left r)" using t by (auto simp: int_val_def int_prim_def)
  have newr: "value_num N (val.Left r) = None" using entries_new [OF ok new] .
  show ?thesis
  proof (cases "nm_expr N x")
    case (Some n)
    then obtain w where w: "nm_num N n = Some w" "operand env w = Inr (d, c)" "operand ?env w = Inr (d, c)"
      using ok val(1) num unfolding numbering_ok_def exprs_ok_def expr_ok_def by fastforce
    have e: "i' = Unary Op_MOV (Some r) w" "N' = N\<lparr>nm_value := nm_value N @ [(val.Left r, n)]\<rparr>"
      using conv w(1) set_num_new newr by (auto simp: convert_expr_def Some value_num_None)
    have "inst_step h prev i' env = Inr ?env"
      using w(2) t(1) by (simp add: e(1) inst_step_def assign_prim_def)
    moreover have "entry_ok ?env ?K (nm_num N) (val.Left r) n"
      using r int w by (simp add: entry_ok_def known_def)
    then have "numbering_ok h ?env ?K N'"
      using ok' unfolding e(2) numbering_ok_def nums_ok_def exprs_ok_def by (auto simp: less_Suc_eq)
    ultimately show ?thesis using val' Some by (simp add: e(2))
  next
    case None
    let ?N = "number_new (val.Left r) N"
    have e: "i' = i" "N' = ?N\<lparr>nm_expr := (nm_expr ?N)(x \<mapsto> length (nm_value N))\<rparr>"
      using conv by (auto simp: convert_expr_def None Let_def)
    have n: "numbering_ok h ?env ?K ?N" "nm_num ?N (length (nm_value N)) = Some (val.Left r)" "nm_num N \<subseteq>\<^sub>m nm_num ?N"
      using number_new_ok [OF ok' newr int] r by (simp_all add: known_def)
    have v: "expr_value h ?env (nm_num ?N) x = Inr (d, c)" using expr_value_mono [OF val' n(3)] .
    then have "expr_ok h ?env (nm_num ?N) x (val.Left r)" using r by (simp add: expr_ok_def)
    then have "numbering_ok h ?env ?K N'"
      using n(1,2) by (auto simp: e(2) numbering_ok_def nums_ok_def exprs_ok_def)
    then show ?thesis using step n(3) v by (simp add: e)
  qed
qed

section \<open>Instructions\<close>

lemma eval_unary_has_prim: "eval_unary h op d (d, a) = Inr c \<Longrightarrow> has_prim d a \<Longrightarrow> has_prim d c"
  by (cases op; cases d; cases a)
    (auto simp: assign_prim_def eval_not_def eval_neg_def rbind_eq_Inr split: if_splits)

text \<open>Two operands of one integer type: the result has its type, and may be computed in either order.\<close>

lemma eval_op_typed:
  assumes "has_prim p a" "has_prim p b" "int_prim p"
    and "eval_op h op (if is_comparison op then Int1 else p) (p, a) (p, b) = Inr c"
  shows "has_prim (if is_comparison op then Int1 else p) c"
proof (cases "is_comparison op")
  case True
  then show ?thesis using assms by (auto simp: eval_comparison_value rbind_eq_Inr)
next
  case False
  then show ?thesis using assms arith_has_prim [of p a b h op c] by (simp add: eval_same)
qed

lemma eval_op_commutes:
  assumes "has_prim p a" "has_prim p b" "int_prim p" "commutative op"
  shows "eval_op h op (if is_comparison op then Int1 else p) (p, a) (p, b) =
    eval_op h op (if is_comparison op then Int1 else p) (p, b) (p, a)"
proof (cases "is_comparison op")
  case True
  then have "op = Op_EQ \<or> op = Op_NEQ" using assms(4) by (auto simp: commutative_def is_comparison_def)
  then have "compare op a b = compare op b a"
    using assms(1-3) by (cases p; cases a; cases b) (auto simp: int_prim_def)
  then show ?thesis using True assms(1,2) by (simp add: eval_comparison_value)
next
  case False
  then have "op = Op_MUL \<or> op = Op_ADD \<or> op = Op_AND \<or> op = Op_OR"
    using assms(4) by (auto simp: commutative_def is_comparison_def)
  then have "arith h op a b = arith h op b a"
    using assms(1-3) by (cases p; cases a; cases b) (auto simp: int_prim_def ac_simps)
  then show ?thesis using False assms(1,2) by (simp add: eval_same)
qed

lemma num_operand_prim: "num_operand env num n = Inr (p, a) \<Longrightarrow> has_prim p a"
  using operand_type by (fastforce simp: num_operand_def split: option.splits)

lemma expr_value_commutes:
  assumes "commutative op" "expr_value h env num (Inr op, n, m) = Inr y"
  shows "expr_value h env num (Inr op, m, n) = Inr y"
proof -
  obtain p a q b where e: "num_operand env num n = Inr (p, a)" "num_operand env num m = Inr (q, b)"
    using assms(2) by (auto simp: rbind_eq_Inr)
  then have p: "q = p" "int_prim p" using assms(2) by (auto split: if_splits)
  then have "eval_op h op (if is_comparison op then Int1 else p) (p, a) (p, b) =
      eval_op h op (if is_comparison op then Int1 else p) (p, b) (p, a)"
    using eval_op_commutes assms(1) num_operand_prim e by blast
  then show ?thesis using assms e p by (simp add: Let_def)
qed

lemma numbering_ok_commute:
  assumes "numbering_ok h env K N" "commutative op" "is_ok (expr_value h env (nm_num N) (Inr op, n, m))"
  shows "numbering_ok h env K (N\<lparr>nm_expr := (nm_expr N)((Inr op, m, n) := nm_expr N (Inr op, n, m))\<rparr>)"
proof -
  obtain y where "expr_value h env (nm_num N) (Inr op, n, m) = Inr y"
    using assms(3) by (cases "expr_value h env (nm_num N) (Inr op, n, m)") simp_all
  then have "expr_value h env (nm_num N) (Inr op, m, n) = expr_value h env (nm_num N) (Inr op, n, m)"
    using expr_value_commutes [OF assms(2)] by metis
  then have "expr_ok h env (nm_num N) (Inr op, m, n) w" if "expr_ok h env (nm_num N) (Inr op, n, m) w" for w
    using that unfolding expr_ok_def by (simp only:)
  moreover have "\<exists>w. nm_num N k = Some w \<and> expr_ok h env (nm_num N) x w" if "nm_expr N x = Some k" for x k
    using assms(1) that unfolding numbering_ok_def exprs_ok_def by blast
  ultimately have "exprs_ok h env (N\<lparr>nm_expr := (nm_expr N)((Inr op, m, n) := nm_expr N (Inr op, n, m))\<rparr>)"
    unfolding exprs_ok_def by simp metis
  then show ?thesis using assms(1) by (simp add: numbering_ok_def nums_ok_def)
qed

lemma binary_operands:
  assumes "inst_value h prev env d (Binary op (Some r) x y) = Inr c" "inst_typed (Binary op (Some r) x y)" "type_of_lv r = Prim d"
  shows "\<exists>p a b. operand env x = Inr (p, a) \<and> operand env y = Inr (p, b) \<and> eval_op h op d (p, a) (p, b) = Inr c \<and>
    d = (if is_comparison op then Int1 else p)"
proof -
  obtain p a q b where e: "operand env x = Inr (p, a)" "operand env y = Inr (q, b)" "eval_op h op d (p, a) (q, b) = Inr c"
    using assms(1) by (auto simp: rbind_eq_Inr)
  then have "q = p" "d = (if is_comparison op then Int1 else p)"
    using assms(2,3) operand_type [OF e(1)] operand_type [OF e(2)] by auto
  then show ?thesis using e by simp
qed

text \<open>The rewritten instruction has the effect of the given one, and the numbering stays consistent.\<close>

lemma cse_inst_ok:
  assumes ok: "numbering_ok h env K N" and i: "int_inst i" and r: "defined_var i = Some r"
    and new: "key_of r \<notin> K \<union> used_keys i"
    and step: "inst_step h prev i env = Inr env'" and cse: "cse_inst i N = (ch, i', N')"
  shows "inst_step h prev i' env = Inr env' \<and> numbering_ok h env' (insert (key_of r) (K \<union> used_keys i)) N'"
proof -
  let ?K = "K \<union> used_keys i"
  have ok': "numbering_ok h env ?K N" using numbering_ok_mono [OF ok] by blast
  obtain d c where d: "type_of_lv r = Prim d" "inst_value h prev env d i = Inr c" "env' = env(key_of r \<mapsto> c)"
    using step r by (auto simp: inst_step_Inr)
  have int: "int_prim d" using i d(1) r by (auto simp: int_inst_def int_dest_def int_prim_def)
  have skip: ?thesis if "cse_inst i N = (False, i, N)"
    using that cse step numbering_ok_extend [OF ok' new, of "insert (key_of r) ?K"] d(3) by auto
  show ?thesis
  proof (cases i)
    case (Unary op r' x)
    show ?thesis
    proof (cases "op = Op_LOAD \<or> op = Op_MOV")
      case False
      have [simp]: "r' = Some r" using r Unary by simp
      have x: "int_val x" "known ?K x" using i used_keysI [of _ i] by (auto simp: int_inst_def Unary known_def)
      obtain a where a: "operand env x = Inr (d, a)" "eval_unary h op d (d, a) = Inr c"
        using d(1,2) i operand_type by (fastforce simp: Unary rbind_eq_Inr int_inst_def)
      obtain n N1 where n: "lookup_num x N = (n, N1)" by fastforce
      have l: "numbering_ok h env ?K N1" "num_operand env (nm_num N1) n = Inr (d, a)"
        using lookup_ok [OF ok' x(1) a(1) n x(2)] by (auto simp: num_operand_def)
      have "expr_value h env (nm_num N1) (Inl op, n, 0) = Inr (d, c)" using l(2) a(2) by simp
      moreover have "has_prim d c" using eval_unary_has_prim [OF a(2)] operand_type [OF a(1)] by simp
      moreover have "convert_expr (Inl op, n, 0) r i N1 = (ch, i', N')" using cse n False by (simp add: Unary)
      ultimately show ?thesis using convert_ok [OF l(1) new d(1) int] step d(3) by blast
    qed (use skip Unary r in auto)
  next
    case (Binary op r' x y)
    show ?thesis
    proof (cases "op = Op_LOAD_ELEM \<or> op = Op_STORE")
      case False
      have [simp]: "r' = Some r" using r Binary by simp
      have x: "int_val x" "known ?K x" and y: "int_val y" "known ?K y"
        using i used_keysI [of _ i] by (auto simp: int_inst_def Binary known_def)
      obtain p a b where a: "operand env x = Inr (p, a)" "operand env y = Inr (p, b)"
          "eval_op h op d (p, a) (p, b) = Inr c" "d = (if is_comparison op then Int1 else p)"
        using binary_operands [of h prev env d op r x y c] d(1,2) i unfolding Binary int_inst_def \<open>r' = Some r\<close> by blast
      obtain n N1 where n: "lookup_num x N = (n, N1)" by fastforce
      obtain m N2 where m: "lookup_num y N1 = (m, N2)" by fastforce
      obtain c3 i3 N3 where cv: "convert_expr (Inr op, n, m) r i N2 = (c3, i3, N3)" by (cases "convert_expr (Inr op, n, m) r i N2")
      have l: "numbering_ok h env ?K N1" "num_operand env (nm_num N1) n = Inr (p, a)"
        using lookup_ok [OF ok' x(1) a(1) n x(2)] by (auto simp: num_operand_def)
      have k: "numbering_ok h env ?K N2" "num_operand env (nm_num N2) m = Inr (p, b)" "nm_num N1 \<subseteq>\<^sub>m nm_num N2"
        using lookup_ok [OF l(1) y(1) a(2) m y(2)] by (auto simp: num_operand_def)
      have p: "int_prim p" using int_operand x(1) a(1) by blast
      have "expr_value h env (nm_num N2) (Inr op, n, m) = Inr (d, c)"
        using num_operand_mono [OF l(2) k(3)] k(2) a(3,4) p by (simp add: Let_def)
      moreover have "has_prim d c"
        using eval_op_typed [of p a b h op c] operand_type [OF a(1)] operand_type [OF a(2)] a(3) p by (simp add: a(4))
      ultimately have cok: "inst_step h prev i3 env = Inr env'" "numbering_ok h env' (insert (key_of r) ?K) N3"
          "is_ok (expr_value h env' (nm_num N3) (Inr op, n, m))"
        using convert_ok [OF k(1) new d(1) int _ _ _ cv] step d(3) by blast+
      have e: "i' = i3" "N' = (if commutative op then N3\<lparr>nm_expr := (nm_expr N3)((Inr op, m, n) := nm_expr N3 (Inr op, n, m))\<rparr> else N3)"
        using cse n m cv False by (simp_all add: Binary)
      then show ?thesis using cok numbering_ok_commute [OF cok(2) _ cok(3)] by simp
    qed (use skip Binary r in auto)
  qed (use skip r in auto)
qed

lemma cse_insts_run:
  "numbering_ok h env K N \<Longrightarrow> new_defs K is \<Longrightarrow> list_all int_inst is \<Longrightarrow> cse_insts is N = (ch, is', N') \<Longrightarrow>
     rfold (inst_step h prev) is env = Inr env' \<Longrightarrow>
     rfold (inst_step h prev) is' env = Inr env' \<and> (\<exists>K'. numbering_ok h env' K' N')"
proof (induction "is" arbitrary: env K N ch is')
  case (Cons i "is")
  obtain c i1 N1 where i1: "cse_inst i N = (c, i1, N1)" by (cases "cse_inst i N")
  obtain c1 is1 where is1: "cse_insts is N1 = (c1, is1, N')" and e: "is' = i1 # is1"
    using Cons.prems(4) i1 by (cases "cse_insts is N1") auto
  obtain env1 where run: "inst_step h prev i env = Inr env1" "rfold (inst_step h prev) is env1 = Inr env'"
    using Cons.prems(5) by (auto simp: rbind_eq_Inr)
  obtain r where r: "defined_var i = Some r" using run(1) by (auto simp: inst_step_Inr)
  have "inst_step h prev i1 env = Inr env1 \<and> numbering_ok h env1 (insert (key_of r) (K \<union> used_keys i)) N1"
    using cse_inst_ok [OF Cons.prems(1) _ r _ run(1) i1] Cons.prems(2,3) r by simp
  then show ?case using Cons.IH [OF _ _ _ is1 run(2)] Cons.prems(2,3) r e by auto
qed auto

section \<open>Blocks\<close>


definition twice_insts :: "inst list" where
  "twice_insts =
     [Binary Op_ADD (Some (t32 1)) (val.Left (t32 0)) (c32 1),
      Binary Op_ADD (Some (t32 2)) (c32 1) (val.Left (t32 0)),
      Binary Op_MUL (Some (t32 3)) (val.Left (t32 1)) (val.Left (t32 2))]"

definition twice_insts_shared :: "inst list" where
  "twice_insts_shared = twice_insts[1 := Unary Op_MOV (Some (t32 2)) (val.Left (t32 1))]"

lemma cse_twice: "fst (snd (cse_insts twice_insts empty_numbering)) = twice_insts_shared"
  by (simp add: twice_insts_def twice_insts_shared_def empty_numbering_def lookup_num_def value_num_def convert_expr_def
      number_new_def Let_def constexpr_eq_def mk_const_def void_const_def eq_ty_def unit_ty_def commutative_def)


end
