(* ===== verification/Ir_Vm.thy ===== *)
theory Ir_Vm
  imports Ir_Eval
begin

text \<open>
  Execution of IR programs (\<open>backend/ir/vm/vm.h\<close>, \<open>assign.cpp\<close>, \<open>exec.cpp\<close>, \<open>view.hpp\<close>). The memory of
  the process is a partial map from addresses to bytes. \<open>operator new\<close> hands out growing addresses
  and a released buffer is gone, so that an access outside the live buffers is undefined behaviour.
  A view is an address, or the bytes of an object the model gives no address: a constant, or a
  temporary of the interpreter. Tracing and the debugger are left out.
\<close>

section \<open>Memory\<close>

datatype place = Mem u64 | Own "u8 list"

record view =
  vw_data :: place
  vw_type :: ty

record frame =
  fr_vars :: "name_def \<rightharpoonup> view"
  fr_temps :: "view list"

record ivm =
  iv_mem :: "u64 \<rightharpoonup> u8"
  iv_next :: u64
  iv_global :: frame
  iv_in :: string
  iv_in_ok :: bool
  iv_out :: string
  iv_insts :: nat

definition load_mem :: "u64 \<Rightarrow> nat \<Rightarrow> ivm \<Rightarrow> u8 list result" where
  "load_mem a n S =
     (let cells = map (\<lambda>i. iv_mem S (a + of_nat i)) [0..<n] in
      if None \<in> set cells then Inl (Undefined ''access outside the live buffers'') else Inr (map the cells))"

definition store_mem :: "u64 \<Rightarrow> u8 list \<Rightarrow> ivm \<Rightarrow> ivm result" where
  "store_mem a bs S =
     (if list_ex (\<lambda>i. iv_mem S (a + of_nat i) = None) [0..<length bs]
        then Inl (Undefined ''access outside the live buffers'')
      else Inr (S\<lparr>iv_mem := (\<lambda>x. if unat (x - a) < length bs then Some (bs ! unat (x - a)) else iv_mem S x)\<rparr>))"

fun place_bytes :: "place \<Rightarrow> nat \<Rightarrow> ivm \<Rightarrow> u8 list result" where
  "place_bytes (Mem a) n S = load_mem a n S"
| "place_bytes (Own bs) n S =
     (if n \<le> length bs then Inr (take n bs) else Inl (Undefined ''access outside an object''))"

fun place_off :: "place \<Rightarrow> u64 \<Rightarrow> place" where
  "place_off (Mem a) k = Mem (a + k)"
| "place_off (Own bs) k = Own (drop (unat k) bs)"

text \<open>A store through a view; only memory is written to.\<close>

fun place_store :: "place \<Rightarrow> u8 list \<Rightarrow> ivm \<Rightarrow> ivm result" where
  "place_store (Mem a) bs S = store_mem a bs S"
| "place_store (Own cs) bs S = Inl (Undefined ''write to a constant'')"

definition new_buffer :: "nat \<Rightarrow> ivm \<Rightarrow> u64 \<times> ivm" where
  "new_buffer n S =
     (iv_next S,
      S\<lparr>iv_mem := (\<lambda>x. if unat (x - iv_next S) < n then Some 0 else iv_mem S x),
        iv_next := iv_next S + of_nat n\<rparr>)"

definition free_buffer :: "u64 \<Rightarrow> nat \<Rightarrow> ivm \<Rightarrow> ivm" where
  "free_buffer a n S = S\<lparr>iv_mem := (\<lambda>x. if unat (x - a) < n then None else iv_mem S x)\<rparr>"

definition count_inst :: "ivm \<Rightarrow> ivm" where
  "count_inst S = S\<lparr>iv_insts := Suc (iv_insts S)\<rparr>"

section \<open>Scalars in memory\<close>

fun val_bytes :: "cval \<Rightarrow> u8 list" where
  "val_bytes V_none = []"
| "val_bytes (V_int w) = word_bytes 4 w"
| "val_bytes (V_int64 w) = word_bytes 8 w"
| "val_bytes (V_float w) = word_bytes 4 w"
| "val_bytes (V_bool b) = [if b then 1 else 0]"
| "val_bytes (V_double w) = word_bytes 8 w"
| "val_bytes (V_bytes bs) = bs"

text \<open>Reading a \<open>bool\<close> whose byte is neither zero nor one is undefined.\<close>

fun bytes_val :: "prim \<Rightarrow> u8 list \<Rightarrow> cval result" where
  "bytes_val Int1 bs =
     (if bs = [0] then Inr (V_bool False) else if bs = [1] then Inr (V_bool True)
      else Inl (Undefined ''bool that is neither true nor false''))"
| "bytes_val Int32 bs = Inr (V_int (bytes_word bs))"
| "bytes_val Int64 bs = Inr (V_int64 (bytes_word bs))"
| "bytes_val Float32 bs = Inr (V_float (bytes_word bs))"
| "bytes_val Float64 bs = Inr (V_double (bytes_word bs))"
| "bytes_val Float bs = Inr (V_double (bytes_word bs))"

definition read_prim :: "prim \<Rightarrow> place \<Rightarrow> ivm \<Rightarrow> cval result" where
  "read_prim p d S = rbind (place_bytes d (size_of_prim p) S) (bytes_val p)"

definition read_addr :: "place \<Rightarrow> ivm \<Rightarrow> u64 result" where
  "read_addr d S = rbind (place_bytes d 8 S) (\<lambda>bs. Inr (bytes_word bs))"

text \<open>\<open>type.as<Primitive>()\<close>; the templates read a reference as a general integer.\<close>

definition as_prim :: "ty \<Rightarrow> prim result" where
  "as_prim t = (case t of Prim p \<Rightarrow> Inr p | _ \<Rightarrow> Inl (Compiler_error ''Type is not primitive''))"

definition num_prim :: "ty \<Rightarrow> prim result" where
  "num_prim t = (if is_reference t then Inr Int64 else as_prim t)"

section \<open>Assignment\<close>

lemma rfold_cong [fundef_cong]:
  "xs = ys \<Longrightarrow> s = t \<Longrightarrow> (\<And>x s. x \<in> set ys \<Longrightarrow> f x s = g x s) \<Longrightarrow> rfold f xs s = rfold g ys t"
proof (induction ys arbitrary: xs s t)
  case (Cons y ys)
  then show ?case by (cases "g y t") auto
qed simp

definition assign_bytes :: "nat \<Rightarrow> u64 \<Rightarrow> place \<Rightarrow> ivm \<Rightarrow> ivm result" where
  "assign_bytes n a src S = rbind (place_bytes src n S) (\<lambda>bs. store_mem a bs S)"

definition assign_scalar :: "host \<Rightarrow> prim \<Rightarrow> u64 \<Rightarrow> prim \<Rightarrow> place \<Rightarrow> ivm \<Rightarrow> ivm result" where
  "assign_scalar h d a s src S =
     (if d = s then assign_bytes (size_of_prim d) a src S
      else if (d, s) \<in> set assign_pairs
        then rbind (read_prim s src S) (\<lambda>v. rbind (assign_prim h d s v) (\<lambda>w. store_mem a (val_bytes w) S))
      else Inl (Compiler_error ''Cannot assign''))"

lemma array_flatten_smaller: "(e', n') = array_flatten e n \<Longrightarrow> size e' \<le> size e"
  by (induction e n rule: array_flatten.induct) auto

text \<open>
  \<open>assign\<close> for two types, by the overload for their alternatives; a pair without an overload throws.
  Arrays are assigned element by element, a product item by item.
\<close>

definition assign_flat :: "host \<Rightarrow> ty \<Rightarrow> u64 \<Rightarrow> ty \<Rightarrow> place \<Rightarrow> ivm \<Rightarrow> ivm result" where
  "assign_flat h dt a st src S =
     (case (dt, st) of
        (Prim d, Prim s) \<Rightarrow> assign_scalar h d a s src S
      | (Reference e r sl, Prim Int64) \<Rightarrow> assign_bytes 8 a src S
      | (Prim Int64, Reference e r sl) \<Rightarrow> assign_bytes 8 a src S
      | (Reference e r sl, Reference e' r' sl') \<Rightarrow>
          if sub_ty e' e then assign_bytes 8 a src S else Inl (Compiler_error ''Cannot assign pointer'')
      | (Reference e r sl, Array e' n') \<Rightarrow>
          if \<not> sub_ty e' e then Inl (Compiler_error ''Cannot assign array to pointer'')
          else (case src of
                  Mem b \<Rightarrow> store_mem a (word_bytes 8 b) S
                | Own bs \<Rightarrow> Inl (Undefined ''address of a constant''))
      | _ \<Rightarrow> Inl (Compiler_error ''Cannot assign''))"

function assign_to :: "host \<Rightarrow> ty \<Rightarrow> u64 \<Rightarrow> ty \<Rightarrow> place \<Rightarrow> ivm \<Rightarrow> ivm result"
  and assign_items :: "host \<Rightarrow> ty list \<Rightarrow> u64 \<Rightarrow> ty list \<Rightarrow> place \<Rightarrow> ivm \<Rightarrow> ivm result" where
  "assign_to h dt a st src S =
     (case st of
        Array e' n' \<Rightarrow>
          (case dt of
             Array e n \<Rightarrow>
               (case (array_flatten e n, array_flatten e' n') of ((de, dn), (se, sn)) \<Rightarrow>
                  if dn < sn then Inl (Compiler_error ''Cannot assign array'')
                  else rfold (\<lambda>i. assign_to h de (a + of_nat (i * size_of de)) se
                                    (place_off src (of_nat (i * size_of se)))) [0..<sn] S)
           | _ \<Rightarrow> assign_flat h dt a st src S)
      | Product ss \<Rightarrow>
          (case dt of
             Product ds \<Rightarrow>
               if length ds \<noteq> length ss then Inl (Compiler_error ''Cannot assign'') else assign_items h ds a ss src S
           | _ \<Rightarrow> assign_flat h dt a st src S)
      | _ \<Rightarrow> assign_flat h dt a st src S)"
| "assign_items h ds a [] src S = Inr S"
| "assign_items h ds a (s # ss) src S =
     (case ds of
        [] \<Rightarrow> Inr S
      | d # ds' \<Rightarrow>
          rbind (assign_to h d a s src S)
            (assign_items h ds' (a + of_nat (size_of d)) ss (place_off src (of_nat (size_of s)))))"
  by pat_completeness auto
termination
  by (relation "measure (\<lambda>x. case x of Inl (h, d, a, s, src, S) \<Rightarrow> 2 * size s | Inr (h, ds, a, ss, src, S) \<Rightarrow> Suc (2 * size_list size ss))")
    (auto dest!: array_flatten_smaller)

declare assign_to.simps [simp del]

lemma assign_to_prim: "assign_to h (Prim d) a (Prim s) src S = assign_scalar h d a s src S"
  by (cases d; cases s) (simp_all add: assign_to.simps assign_flat_def)

text \<open>\<open>assign\<close> for two views, the only way into a sum: the tag is an \<open>int\<close> before the data.\<close>

definition assign_view :: "host \<Rightarrow> view \<Rightarrow> view \<Rightarrow> ivm \<Rightarrow> ivm result" where
  "assign_view h dest src S =
     (case vw_data dest of
        Own bs \<Rightarrow> Inl (Undefined ''write to a constant'')
      | Mem a \<Rightarrow>
          (case (vw_type dest, vw_type src) of
             (Sum ds, Sum ss) \<Rightarrow>
               rbind (place_bytes (vw_data src) 4 S) (\<lambda>t.
               rbind (sum_type_of ss (unat (sext32 (bytes_word t)))) (\<lambda>item.
               rbind (index_of ds item) (\<lambda>i.
               rbind (store_mem a (word_bytes 4 (of_nat i :: u32)) S) (\<lambda>S1.
                 assign_to h item (a + 4) item (place_off (vw_data src) 4) S1))))
           | (Sum ds, s) \<Rightarrow>
               rbind (index_of ds s) (\<lambda>i.
               rbind (store_mem a (word_bytes 4 (of_nat i :: u32)) S) (\<lambda>S1.
                 assign_to h s (a + 4) s (vw_data src) S1))
           | (d, s) \<Rightarrow> assign_to h d a s (vw_data src) S))"

text \<open>The assignment of the unary operations goes by the types alone.\<close>

definition assign_typed :: "host \<Rightarrow> view \<Rightarrow> ty \<Rightarrow> place \<Rightarrow> ivm \<Rightarrow> ivm result" where
  "assign_typed h dest st src S =
     (case vw_data dest of
        Own bs \<Rightarrow> Inl (Undefined ''write to a constant'')
      | Mem a \<Rightarrow> assign_to h (vw_type dest) a st src S)"

section \<open>Operations on views\<close>

definition eval_num_unary :: "host \<Rightarrow> unary_inst_op \<Rightarrow> view \<Rightarrow> view \<Rightarrow> ivm \<Rightarrow> ivm result" where
  "eval_num_unary h op dest x S =
     rbind (num_prim (vw_type x)) (\<lambda>p. rbind (num_prim (vw_type dest)) (\<lambda>d.
     rbind (read_prim p (vw_data x) S) (\<lambda>a. rbind (eval_unary h op d (p, a)) (\<lambda>c.
       place_store (vw_data dest) (val_bytes c) S))))"

definition eval_num_binary :: "host \<Rightarrow> inst_op \<Rightarrow> view \<Rightarrow> view \<Rightarrow> view \<Rightarrow> ivm \<Rightarrow> ivm result" where
  "eval_num_binary h op dest x y S =
     rbind (num_prim (vw_type dest)) (\<lambda>d. rbind (num_prim (vw_type x)) (\<lambda>p. rbind (num_prim (vw_type y)) (\<lambda>q.
     rbind (read_prim p (vw_data x) S) (\<lambda>a. rbind (read_prim q (vw_data y) S) (\<lambda>b.
     rbind (eval_op h op d (p, a) (q, b)) (\<lambda>c. place_store (vw_data dest) (val_bytes c) S))))))"

definition ref_elem :: "ty \<Rightarrow> ty result" where
  "ref_elem t = (case t of Reference e r s \<Rightarrow> Inr e | _ \<Rightarrow> Inl (Compiler_error ''expected reference type''))"

definition place_addr :: "place \<Rightarrow> u64 result" where
  "place_addr d = (case d of Mem a \<Rightarrow> Inr a | Own bs \<Rightarrow> Inl (Undefined ''address of a constant''))"

text \<open>The second argument of \<open>Reference::pointer\<close> is \<open>readonly\<close>; the code passes it the wrong way round.\<close>

fun vm_unary :: "host \<Rightarrow> unary_inst_op \<Rightarrow> view \<Rightarrow> view \<Rightarrow> ivm \<Rightarrow> ivm result" where
  "vm_unary h Op_MOV dest x S = assign_typed h dest (vw_type x) (vw_data x) S"
| "vm_unary h Op_CONVERT dest x S = assign_typed h dest (vw_type x) (vw_data x) S"
| "vm_unary h Op_BORROW dest x S =
     rbind (place_addr (vw_data x)) (\<lambda>a. assign_typed h dest (pointer (vw_type x) False) (Own (word_bytes 8 a)) S)"
| "vm_unary h Op_BORROW_MUT dest x S =
     rbind (place_addr (vw_data x)) (\<lambda>a. assign_typed h dest (pointer (vw_type x) True) (Own (word_bytes 8 a)) S)"
| "vm_unary h Op_LOAD dest x S =
     rbind (ref_elem (vw_type x)) (\<lambda>e. rbind (read_addr (vw_data x) S) (\<lambda>a. assign_typed h dest e (Mem a) S))"
| "vm_unary h op dest x S = eval_num_unary h op dest x S"

text \<open>The element an index selects: its type and its place.\<close>

definition vm_index :: "view \<Rightarrow> view \<Rightarrow> ivm \<Rightarrow> (ty \<times> place) result" where
  "vm_index x y S =
     (if vw_type y \<noteq> Prim Int32 then Inl (Compiler_error ''Offset must be an integer'')
      else case vw_type x of
        Reference e r s \<Rightarrow>
          rbind (place_bytes (vw_data y) 4 S) (\<lambda>k. rbind (read_addr (vw_data x) S) (\<lambda>a.
            Inr (e, Mem (a + sext32 (bytes_word k) * of_nat (size_of e)))))
      | Array e n \<Rightarrow>
          rbind (place_bytes (vw_data y) 4 S) (\<lambda>k.
            Inr (e, place_off (vw_data x) (sext32 (bytes_word k) * of_nat (size_of e))))
      | _ \<Rightarrow> Inl (Compiler_error ''Expected slice reference or array type''))"

definition vm_borrow_elem :: "host \<Rightarrow> bool \<Rightarrow> view \<Rightarrow> view \<Rightarrow> view \<Rightarrow> ivm \<Rightarrow> ivm result" where
  "vm_borrow_elem h readonly dest x y S =
     rbind (vm_index x y S) (\<lambda>(e, d). rbind (place_addr d) (\<lambda>a.
       assign_typed h dest (borrow readonly e) (Own (word_bytes 8 a)) S))"

definition vm_store :: "host \<Rightarrow> view \<Rightarrow> view \<Rightarrow> ivm \<Rightarrow> ivm result" where
  "vm_store h x y S =
     rbind (read_addr (vw_data x) S) (\<lambda>a.
       if a < 0x1000 then Inl (Compiler_error ''invalid memory access'')
       else case vw_type x of
         Reference e r s \<Rightarrow>
           if s then (case vw_type y of
                        Array e' n \<Rightarrow> assign_to h (Array e n) a (Array e' n) (vw_data y) S
                      | _ \<Rightarrow> Inl (Compiler_error ''Type is not an array''))
           else assign_to h e a (vw_type y) (vw_data y) S
       | _ \<Rightarrow> Inl (Compiler_error ''expected reference type''))"

fun vm_binary :: "host \<Rightarrow> inst_op \<Rightarrow> view \<Rightarrow> view \<Rightarrow> view \<Rightarrow> ivm \<Rightarrow> ivm result" where
  "vm_binary h Op_LOAD_ELEM dest x y S = rbind (vm_index x y S) (\<lambda>(e, d). assign_typed h dest e d S)"
| "vm_binary h Op_BORROW_ELEM dest x y S = vm_borrow_elem h True dest x y S"
| "vm_binary h Op_BORROW_ELEM_MUT dest x y S = vm_borrow_elem h False dest x y S"
| "vm_binary h Op_STORE dest x y S = vm_store h x y S"
| "vm_binary h op dest x y S = eval_num_binary h op dest x y S"

section \<open>Variables\<close>

definition const_view :: "constexpr \<Rightarrow> view" where
  "const_view c = \<lparr>vw_data = Own (val_bytes (cvalue c)), vw_type = ctype c\<rparr>"

definition void_view :: view where
  "void_view = \<lparr>vw_data = Mem 0, vw_type = unit_ty\<rparr>"

text \<open>A variable of reference type is seen at the type of the occurrence.\<close>

fun find_view :: "left_value \<Rightarrow> frame \<Rightarrow> view option" where
  "find_view (NamedValue t d) F =
     map_option (\<lambda>v. if is_reference t then v\<lparr>vw_type := t\<rparr> else v) (fr_vars F d)"
| "find_view (TempValue t i f) F = (if i < length (fr_temps F) then Some (fr_temps F ! i) else None)"
| "find_view (SSAValue t a k) F = fr_vars F (Def_alloc a)"

definition view_of_lv :: "frame \<Rightarrow> ivm \<Rightarrow> left_value \<Rightarrow> view result" where
  "view_of_lv F S l =
     (case find_view l F of
        Some v \<Rightarrow> Inr v
      | None \<Rightarrow>
          (case find_view l (iv_global S) of
             Some v \<Rightarrow> Inr v
           | None \<Rightarrow> Inl (Compiler_error ''Undefined variable'')))"

fun view_of :: "frame \<Rightarrow> ivm \<Rightarrow> val \<Rightarrow> view result" where
  "view_of F S (Const c) = Inr (const_view c)"
| "view_of F S (val.Left l) = view_of_lv F S l"

definition result_view :: "frame \<Rightarrow> ivm \<Rightarrow> left_value option \<Rightarrow> view result" where
  "result_view F S r = (case r of None \<Rightarrow> Inr void_view | Some l \<Rightarrow> view_of_lv F S l)"

fun views_of :: "frame \<Rightarrow> ivm \<Rightarrow> val list \<Rightarrow> view list result" where
  "views_of F S [] = Inr []"
| "views_of F S (x # xs) = rbind (view_of F S x) (\<lambda>v. rbind (views_of F S xs) (\<lambda>vs. Inr (v # vs)))"

section \<open>Blocks\<close>

text \<open>The phi instructions at the head read all their sources before the first is assigned.\<close>

fun collect_phis :: "block_id option \<Rightarrow> frame \<Rightarrow> ivm \<Rightarrow> inst list \<Rightarrow> ((view \<times> u8 list) list \<times> inst list) result" where
  "collect_phis prev F S (Phi r args # is) =
     (case prev of
        None \<Rightarrow> Inl (Compiler_error ''Block not found in PhiInst'')
      | Some b \<Rightarrow>
          rbind (phi_value args b) (\<lambda>x. rbind (view_of F S x) (\<lambda>v. rbind (result_view F S r) (\<lambda>d.
          rbind (place_bytes (vw_data v) (size_of (vw_type d)) S) (\<lambda>bs.
          rbind (collect_phis prev F S is) (\<lambda>(ps, rest). Inr ((d, bs) # ps, rest)))))))"
| "collect_phis prev F S is = Inr ([], is)"

definition assign_phi :: "host \<Rightarrow> view \<times> u8 list \<Rightarrow> ivm \<Rightarrow> ivm result" where
  "assign_phi h p S = (case p of (d, bs) \<Rightarrow> assign_view h d \<lparr>vw_data = Own bs, vw_type = vw_type d\<rparr> S)"

type_synonym callee = "name_def \<Rightarrow> view list \<Rightarrow> view \<Rightarrow> ivm \<Rightarrow> ivm result"

fun exec_inst :: "callee \<Rightarrow> host \<Rightarrow> frame \<Rightarrow> inst \<Rightarrow> ivm \<Rightarrow> ivm result" where
  "exec_inst call h F (Unary op r x) S =
     rbind (view_of F S x) (\<lambda>v. rbind (result_view F S r) (\<lambda>d.
     rbind (vm_unary h op d v S) (\<lambda>S'. Inr (count_inst S'))))"
| "exec_inst call h F (Binary op r x y) S =
     rbind (view_of F S x) (\<lambda>v. rbind (view_of F S y) (\<lambda>w. rbind (result_view F S r) (\<lambda>d.
     rbind (vm_binary h op d v w S) (\<lambda>S'. Inr (count_inst S')))))"
| "exec_inst call h F (CallI r t f args) S =
     rbind (result_view F S r) (\<lambda>d. rbind (views_of F S args) (\<lambda>vs.
     rbind (call f vs d S) (\<lambda>S'. Inr (count_inst S'))))"
| "exec_inst call h F (Phi r args) S =
     Inl (Compiler_error ''Phi instruction must be at the beginning of a block'')"

definition exec_insts :: "callee \<Rightarrow> host \<Rightarrow> frame \<Rightarrow> inst list \<Rightarrow> ivm \<Rightarrow> ivm result" where
  "exec_insts call h F = rfold (exec_inst call h F)"

text \<open>The next block; a null target ends the function.\<close>

fun exec_exit :: "host \<Rightarrow> frame \<Rightarrow> view \<Rightarrow> ir_exit \<Rightarrow> ivm \<Rightarrow> (block_id option \<times> ivm) result" where
  "exec_exit h F ret (BranchExit c t f) S =
     rbind (view_of F S c) (\<lambda>v. rbind (as_prim (vw_type v)) (\<lambda>p. rbind (read_prim p (vw_data v) S) (\<lambda>x.
     rbind (to_bool x) (\<lambda>b. Inr (if b then t else f, S)))))"
| "exec_exit h F ret (JumpExit t) S = Inr (Some t, S)"
| "exec_exit h F ret (ReturnExit x) S =
     rbind (view_of F S x) (\<lambda>v. rbind (assign_view h ret v S) (\<lambda>S'. Inr (None, S')))"

definition exec_ir_block :: "callee \<Rightarrow> host \<Rightarrow> frame \<Rightarrow> view \<Rightarrow> block_id option \<Rightarrow> ir_block \<Rightarrow> ivm \<Rightarrow> (block_id option \<times> ivm) result" where
  "exec_ir_block call h F ret prev b S =
     rbind (collect_phis prev F S (bk_insts b)) (\<lambda>(ps, rest).
     rbind (rfold (assign_phi h) ps (S\<lparr>iv_insts := iv_insts S + length ps\<rparr>)) (\<lambda>S1.
     rbind (exec_insts call h F rest S1) (\<lambda>S2.
     rbind (get_exit b) (\<lambda>e. exec_exit h F ret e (count_inst S2)))))"

section \<open>Frames\<close>

definition padding_to :: "nat \<Rightarrow> nat \<Rightarrow> nat" where
  "padding_to original requirement =
     (if original mod requirement = 0 then original else wrap64 (original + (requirement - original mod requirement)))"

definition stack_size_alloc :: "alloc \<Rightarrow> nat" where
  "stack_size_alloc a = wrap64 (padding_to (size_of (al_type a)) 8 + (if al_reference a then 8 else 0))"

definition alloc_slot :: "alloc_store \<Rightarrow> alloc_id \<Rightarrow> nat" where
  "alloc_slot A i = padding_to (stack_size_alloc (A i)) 16"

definition temp_slot :: "ty \<times> block_id \<Rightarrow> nat" where
  "temp_slot t = padding_to (size_of (fst t)) 16"

text \<open>A variable at \<open>buf\<close>; one that is accessed by reference has a pointer to its data behind it.\<close>

definition alloc_view :: "alloc \<Rightarrow> u64 \<Rightarrow> view" where
  "alloc_view a buf =
     (if al_reference a
        then \<lparr>vw_data = Mem (buf + of_nat (padding_to (size_of (al_type a)) 8)), vw_type = borrow (al_immutable a) (al_type a)\<rparr>
      else \<lparr>vw_data = Mem buf, vw_type = al_type a\<rparr>)"

definition alloc_var :: "host \<Rightarrow> alloc_store \<Rightarrow> alloc_id \<Rightarrow> u64 \<Rightarrow> frame \<times> ivm \<Rightarrow> (frame \<times> ivm) result" where
  "alloc_var h A i buf st =
     (case st of (F, S) \<Rightarrow>
      let a = A i in
      rbind (if al_reference a
               then store_mem (buf + of_nat (padding_to (size_of (al_type a)) 8)) (word_bytes 8 buf) S
             else Inr S) (\<lambda>S1.
      rbind (case al_init a of
               None \<Rightarrow> Inr S1
             | Some c \<Rightarrow> assign_to h (al_type a) buf (ctype c) (Own (val_bytes (cvalue c))) S1) (\<lambda>S2.
        Inr (F\<lparr>fr_vars := (fr_vars F)(Def_alloc i \<mapsto> alloc_view a buf)\<rparr>, S2))))"

fun place_params :: "host \<Rightarrow> alloc_store \<Rightarrow> alloc_id list \<Rightarrow> view list \<Rightarrow> u64 \<Rightarrow> frame \<times> ivm \<Rightarrow> (u64 \<times> frame \<times> ivm) result" where
  "place_params h A (i # is) (v # vs) cur st =
     rbind (alloc_var h A i cur st) (\<lambda>(F, S).
     rbind (assign_to h (al_type (A i)) cur (vw_type v) (vw_data v) S) (\<lambda>S'.
       place_params h A is vs (cur + of_nat (alloc_slot A i)) (F, S')))"
| "place_params h A _ _ cur st = Inr (cur, st)"

fun place_locals :: "host \<Rightarrow> alloc_store \<Rightarrow> alloc_id list \<Rightarrow> u64 \<Rightarrow> frame \<times> ivm \<Rightarrow> (u64 \<times> frame \<times> ivm) result" where
  "place_locals h A [] cur st = Inr (cur, st)"
| "place_locals h A (i # is) cur st =
     rbind (alloc_var h A i cur st) (place_locals h A is (cur + of_nat (alloc_slot A i)))"

fun place_temps :: "(ty \<times> block_id) list \<Rightarrow> u64 \<Rightarrow> frame \<Rightarrow> frame" where
  "place_temps [] cur F = F"
| "place_temps (t # ts) cur F =
     place_temps ts (cur + of_nat (temp_slot t)) (F\<lparr>fr_temps := fr_temps F @ [\<lparr>vw_data = Mem cur, vw_type = fst t\<rparr>]\<rparr>)"

text \<open>The sum of the slots, and the same sum as the code computes it.\<close>

definition frame_bytes :: "alloc_store \<Rightarrow> ir_func \<Rightarrow> nat" where
  "frame_bytes A fn =
     sum_list (map (alloc_slot A) (fn_locals fn)) + sum_list (map temp_slot (fn_temps fn)) +
     sum_list (map (alloc_slot A) (fn_params fn))"

definition frame_size :: "alloc_store \<Rightarrow> ir_func \<Rightarrow> nat" where
  "frame_size A fn = wrap64 (frame_bytes A fn)"

definition no_frame :: frame where
  "no_frame = \<lparr>fr_vars = Map.empty, fr_temps = []\<rparr>"

definition enter_func :: "host \<Rightarrow> alloc_store \<Rightarrow> ir_func \<Rightarrow> view list \<Rightarrow> ivm \<Rightarrow> (u64 \<times> frame \<times> ivm) result" where
  "enter_func h A fn args S =
     (case new_buffer (frame_size A fn) S of (buf, S0) \<Rightarrow>
      if length (fn_params fn) \<noteq> length args then Inl (Compiler_error ''Argument count mismatch'')
      else rbind (place_params h A (fn_params fn) args buf (no_frame, S0)) (\<lambda>(cur, st).
           rbind (place_locals h A (fn_locals fn) cur st) (\<lambda>(cur', F, S').
             Inr (buf, place_temps (fn_temps fn) cur' F, S'))))"

section \<open>Built-in functions\<close>

definition arg :: "view list \<Rightarrow> nat \<Rightarrow> view result" where
  "arg args k = (if k < length args then Inr (args ! k) else Inl (Undefined ''argument out of range''))"

definition arg_prim :: "view list \<Rightarrow> nat \<Rightarrow> ivm \<Rightarrow> cval result" where
  "arg_prim args k S = rbind (arg args k) (\<lambda>v. rbind (as_prim (vw_type v)) (\<lambda>p. read_prim p (vw_data v) S))"

definition arg_addr :: "view list \<Rightarrow> nat \<Rightarrow> ivm \<Rightarrow> u64 result" where
  "arg_addr args k S = rbind (arg args k) (\<lambda>v. read_addr (vw_data v) S)"

definition store_ret :: "host \<Rightarrow> view \<Rightarrow> cval \<Rightarrow> ivm \<Rightarrow> ivm result" where
  "store_ret h ret v S =
     rbind (as_prim (vw_type ret)) (\<lambda>p. rbind (conv_to h p v) (\<lambda>w. place_store (vw_data ret) (val_bytes w) S))"

definition vm_memset :: "host \<Rightarrow> view list \<Rightarrow> ivm \<Rightarrow> ivm result" where
  "vm_memset h args S =
     rbind (arg_addr args 0 S) (\<lambda>d. rbind (arg_prim args 1 S) (\<lambda>v. rbind (to_i32 h v) (\<lambda>b.
     rbind (arg_prim args 2 S) (\<lambda>n. rbind (to_i64 h n) (\<lambda>k.
       store_mem d (replicate (unat k) (ucast b)) S)))))"

definition vm_memcpy :: "host \<Rightarrow> view list \<Rightarrow> ivm \<Rightarrow> ivm result" where
  "vm_memcpy h args S =
     rbind (arg_addr args 0 S) (\<lambda>d. rbind (arg_addr args 1 S) (\<lambda>s.
     rbind (arg_prim args 2 S) (\<lambda>n. rbind (to_i64 h n) (\<lambda>k.
     rbind (load_mem s (unat k) S) (\<lambda>bs. store_mem d bs S)))))"

definition vm_get_int :: "host \<Rightarrow> view \<Rightarrow> ivm \<Rightarrow> ivm result" where
  "vm_get_int h ret S =
     rbind (read_int (iv_in S) (iv_in_ok S)) (\<lambda>(v, ok, rest).
       store_ret h ret (V_int v) (S\<lparr>iv_in := rest, iv_in_ok := ok\<rparr>))"

definition vm_get_float :: "host \<Rightarrow> view \<Rightarrow> ivm \<Rightarrow> ivm result" where
  "vm_get_float h ret S =
     rbind (read_f32 h (iv_in S)) (\<lambda>(v, rest). store_ret h ret (V_float v) (S\<lparr>iv_in := rest\<rparr>))"

definition vm_get_double :: "host \<Rightarrow> view \<Rightarrow> ivm \<Rightarrow> ivm result" where
  "vm_get_double h ret S =
     rbind (read_f64 h (iv_in S)) (\<lambda>(v, rest). store_ret h ret (V_double v) (S\<lparr>iv_in := rest\<rparr>))"

definition vm_print :: "string result \<Rightarrow> ivm \<Rightarrow> ivm result" where
  "vm_print s S = rbind s (\<lambda>s. Inr (S\<lparr>iv_out := iv_out S @ s @ newline\<rparr>))"

definition vm_builtin :: "host \<Rightarrow> string \<Rightarrow> view list \<Rightarrow> view \<Rightarrow> ivm \<Rightarrow> ivm result" where
  "vm_builtin h name args ret S =
     (if name = ''memset'' then vm_memset h args S
      else if name = ''memcpy'' then vm_memcpy h args S
      else if name = ''get_int'' then vm_get_int h ret S
      else if name = ''get_float'' then vm_get_float h ret S
      else if name = ''get_double'' then vm_get_double h ret S
      else if name = ''print_int''
        then vm_print (rbind (arg_prim args 0 S) (\<lambda>v. rbind (to_i32 h v) (\<lambda>w. Inr (int_to_string (sint w))))) S
      else if name = ''print_float''
        then vm_print (rbind (arg_prim args 0 S) (\<lambda>v. rbind (to_f32 h v) (\<lambda>w. Inr (fmt_f32 h w)))) S
      else if name = ''print_double''
        then vm_print (rbind (arg_prim args 0 S) (\<lambda>v. rbind (to_f64 h v) (\<lambda>w. Inr (fmt_f64 h w)))) S
      else if name = ''print_bool''
        then vm_print (rbind (arg_prim args 0 S) (\<lambda>v. rbind (to_bool v) (\<lambda>b. Inr (if b then ''true'' else ''false'')))) S
      else Inl (Compiler_error ''Builtin function not found''))"

section \<open>Functions and programs\<close>

text \<open>
  The fuel \<open>m\<close> bounds the blocks one activation of a function executes, \<open>n\<close> the depth of the calls; a
  run that needs more ends in the error \<open>out_of_fuel\<close>. More fuel does not change a result, see
  \<open>Ir_Vm_Sound\<close>.
\<close>

definition out_of_fuel :: cerror where
  "out_of_fuel = Undefined ''out of fuel''"

fun exec_blocks :: "nat \<Rightarrow> callee \<Rightarrow> host \<Rightarrow> ir_func \<Rightarrow> frame \<Rightarrow> view \<Rightarrow> block_id option \<Rightarrow> block_id \<Rightarrow> ivm \<Rightarrow> ivm result" where
  "exec_blocks 0 call h fn F ret prev b S = Inl out_of_fuel"
| "exec_blocks (Suc m) call h fn F ret prev b S =
     rbind (exec_ir_block call h F ret prev (fn_blk fn b) S) (\<lambda>(next, S').
       case next of None \<Rightarrow> Inr S' | Some c \<Rightarrow> exec_blocks m call h fn F ret (Some b) c S')"

definition exec_body :: "nat \<Rightarrow> callee \<Rightarrow> alloc_store \<Rightarrow> host \<Rightarrow> ir_func \<Rightarrow> view list \<Rightarrow> view \<Rightarrow> ivm \<Rightarrow> ivm result" where
  "exec_body m call A h fn args ret S =
     rbind (enter_func h A fn args S) (\<lambda>(buf, F, S1).
     rbind (entrance fn) (\<lambda>b. rbind (exec_blocks m call h fn F ret None b S1) (\<lambda>S2.
       Inr (free_buffer buf (frame_size A fn) S2))))"

primrec exec_call :: "nat \<Rightarrow> nat \<Rightarrow> ir_program \<Rightarrow> host \<Rightarrow> callee" where
  "exec_call 0 m p h = (\<lambda>f args ret S. Inl out_of_fuel)"
| "exec_call (Suc n) m p h = (\<lambda>f args ret S.
     case f of
       Def_func g \<Rightarrow>
         (case List.find (\<lambda>fn. fn_id fn = g) (pr_funcs p) of
            None \<Rightarrow> Inl (Undefined ''dangling function'')
          | Some fn \<Rightarrow> exec_body m (exec_call n m p h) (pr_alloc p) h fn args ret S)
     | Def_builtin k \<Rightarrow>
         (if k < length (pr_builtins p) then vm_builtin h (fst (pr_builtins p ! k)) args ret S
          else Inl (Undefined ''dangling function''))
     | Def_alloc a \<Rightarrow> Inl (Compiler_error ''Cannot call variable''))"

definition exec_func :: "nat \<Rightarrow> nat \<Rightarrow> ir_program \<Rightarrow> host \<Rightarrow> ir_func \<Rightarrow> view list \<Rightarrow> view \<Rightarrow> ivm \<Rightarrow> ivm result" where
  "exec_func n m p h fn args ret S = exec_body m (exec_call n m p h) (pr_alloc p) h fn args ret S"

definition findFunc :: "string \<Rightarrow> ir_program \<Rightarrow> ir_func result" where
  "findFunc name p =
     (case List.find (\<lambda>fn. fn_name fn = name) (pr_funcs p) of
        None \<Rightarrow> Inl (Compiler_error ''function not found'')
      | Some fn \<Rightarrow> Inr fn)"

definition start_vm :: "string \<Rightarrow> ivm" where
  "start_vm input =
     \<lparr>iv_mem = Map.empty, iv_next = 0x10000, iv_global = no_frame, iv_in = input, iv_in_ok = True,
      iv_out = [], iv_insts = 0\<rparr>"

text \<open>The exit value is the low byte of the \<open>int\<close> behind the globals.\<close>

definition vm_execute :: "nat \<Rightarrow> nat \<Rightarrow> host \<Rightarrow> ir_program \<Rightarrow> string \<Rightarrow> (u8 \<times> ivm) result" where
  "vm_execute n m h p input =
     (case new_buffer (sum_list (map (alloc_slot (pr_alloc p)) (pr_globals p)) + 4) (start_vm input) of (buf, S0) \<Rightarrow>
      rbind (place_locals h (pr_alloc p) (pr_globals p) buf (no_frame, S0)) (\<lambda>(cur, F, S1).
      rbind (findFunc ''main'' p) (\<lambda>fn.
      rbind (exec_func n m p h fn [] \<lparr>vw_data = Mem cur, vw_type = Prim Int32\<rparr> (S1\<lparr>iv_global := F\<rparr>)) (\<lambda>S2.
      rbind (load_mem cur 4 S2) (\<lambda>bs. Inr (bytes_word bs, S2))))))"

end
