(* ===== verification/Ir_Vm_Sound.thy ===== *)
theory Ir_Vm_Sound
  imports Ir_Vm Ir_Fold_Sound
begin

text \<open>
  The interpreter refines the store semantics of scalar blocks that the proofs of the optimisation
  passes use: where the variables have cells of their own in the memory of the interpreter, running a
  block keeps the cells equal to the store.
\<close>

section \<open>Bytes and memory\<close>

lemma bytes_word_bytes: "LENGTH('a) \<le> 8 * n \<Longrightarrow> bytes_word (word_bytes n w) = (w :: 'a::len word)"
proof (rule bit_word_eqI)
  fix i assume n: "LENGTH('a) \<le> 8 * n" and i: "i < LENGTH('a)"
  have "i div 8 < n" using n i by (simp add: less_mult_imp_div_less mult.commute)
  then show "bit (bytes_word (word_bytes n w) :: 'a word) i = bit w i"
    using i by (simp add: bit_bytes_word word_bytes_def bit_ucast_iff bit_drop_bit_eq)
qed

lemma bytes_val_bytes: "has_prim p v \<Longrightarrow> bytes_val p (val_bytes v) = Inr v"
  by (cases p; cases v) (simp_all add: bytes_word_bytes)

lemma length_val_bytes: "has_prim p v \<Longrightarrow> length (val_bytes v) = size_of_prim p"
  by (cases p; cases v) simp_all

definition mapped :: "u64 \<Rightarrow> nat \<Rightarrow> ivm \<Rightarrow> bool" where
  "mapped a n S \<longleftrightarrow> (\<forall>i<n. iv_mem S (a + of_nat i) \<noteq> None)"

definition apart :: "u64 \<Rightarrow> nat \<Rightarrow> u64 \<Rightarrow> nat \<Rightarrow> bool" where
  "apart a n b m \<longleftrightarrow> (\<forall>i<n. \<forall>j<m. a + of_nat i \<noteq> b + of_nat j)"

lemma store_mem_ok:
  assumes "mapped a (length bs) S"
  shows "store_mem a bs S = Inr (S\<lparr>iv_mem := (\<lambda>x. if unat (x - a) < length bs then Some (bs ! unat (x - a)) else iv_mem S x)\<rparr>)"
  using assms by (auto simp: store_mem_def mapped_def list_ex_iff)

lemma unat_offset: "n < 2 ^ 64 \<Longrightarrow> i < n \<Longrightarrow> unat (of_nat i :: u64) = i"
  by (simp add: unat_of_nat take_bit_nat_eq_self_iff)

lemma load_stored:
  assumes "length bs < 2 ^ 64"
  shows "load_mem a (length bs) (S\<lparr>iv_mem := (\<lambda>x. if unat (x - a) < length bs then Some (bs ! unat (x - a)) else iv_mem S x)\<rparr>) = Inr bs"
proof -
  let ?S = "S\<lparr>iv_mem := (\<lambda>x. if unat (x - a) < length bs then Some (bs ! unat (x - a)) else iv_mem S x)\<rparr>"
  have "map (\<lambda>i. iv_mem ?S (a + of_nat i)) [0..<length bs] = map Some bs"
    using assms by (intro nth_equalityI) (auto simp: unat_offset)
  then show ?thesis unfolding load_mem_def Let_def by simp
qed

lemma store_other:
  assumes "apart b m a (length bs)" "j < m"
  shows "\<not> unat (b + of_nat j - a) < length bs"
proof
  assume l: "unat (b + of_nat j - a) < length bs"
  have "b + of_nat j = a + of_nat (unat (b + of_nat j - a))" by simp
  then show False using assms l unfolding apart_def by blast
qed

lemma load_mem_cong: "(\<And>i. i < n \<Longrightarrow> iv_mem S' (a + of_nat i) = iv_mem S (a + of_nat i)) \<Longrightarrow> load_mem a n S' = load_mem a n S"
  by (simp add: load_mem_def cong: map_cong)

section \<open>Variables in cells\<close>

lemma view_of_key:
  "key_of l = key_of m \<Longrightarrow> type_of_lv l = Prim p \<Longrightarrow> type_of_lv m = Prim q \<Longrightarrow> view_of_lv F S l = view_of_lv F S m"
  by (cases l; cases m) (auto simp: view_of_lv_def option.map_ident split: option.splits)

definition cell :: "frame \<Rightarrow> ivm \<Rightarrow> left_value \<Rightarrow> u64 \<Rightarrow> prim \<Rightarrow> bool" where
  "cell F S l a p \<longleftrightarrow> view_of_lv F S l = Inr \<lparr>vw_data = Mem a, vw_type = Prim p\<rparr> \<and> type_of_lv l = Prim p"

definition cells_ok :: "frame \<Rightarrow> ivm \<Rightarrow> left_value set \<Rightarrow> bool" where
  "cells_ok F S V \<longleftrightarrow>
     (\<forall>l\<in>V. \<exists>a p. cell F S l a p \<and> mapped a (size_of_prim p) S) \<and>
     (\<forall>l\<in>V. \<forall>m\<in>V. \<forall>a p b q. cell F S l a p \<longrightarrow> cell F S m b q \<longrightarrow> key_of l \<noteq> key_of m \<longrightarrow>
        apart a (size_of_prim p) b (size_of_prim q))"

definition store_in :: "frame \<Rightarrow> left_value set \<Rightarrow> env \<Rightarrow> ivm \<Rightarrow> bool" where
  "store_in F V env S \<longleftrightarrow> cells_ok F S V \<and>
     (\<forall>l\<in>V. \<forall>a p v. cell F S l a p \<longrightarrow> env (key_of l) = Some v \<longrightarrow>
        has_prim p v \<and> load_mem a (size_of_prim p) S = Inr (val_bytes v))"

lemma size_small: "size_of_prim p < 2 ^ 64"
  by (cases p) simp_all

text \<open>Writing a variable.\<close>

lemma store_in_update:
  assumes "store_in F V env S" "l \<in> V" "cell F S l a p" "has_prim p c"
  shows "\<exists>S'. store_mem a (val_bytes c) S = Inr S' \<and> store_in F V (env(key_of l \<mapsto> c)) S' \<and>
    iv_out S' = iv_out S \<and> iv_in S' = iv_in S \<and> iv_global S' = iv_global S \<and> iv_insts S' = iv_insts S"
proof -
  let ?m = "\<lambda>x. if unat (x - a) < length (val_bytes c) then Some (val_bytes c ! unat (x - a)) else iv_mem S x"
  let ?S = "S\<lparr>iv_mem := ?m\<rparr>"
  have len: "length (val_bytes c) = size_of_prim p" by (rule length_val_bytes [OF assms(4)])
  have view: "view_of_lv F ?S m = view_of_lv F S m" for m
    by (cases "find_view m F") (simp_all add: view_of_lv_def)
  have cells: "cell F ?S m b q \<longleftrightarrow> cell F S m b q" for m b q by (simp add: cell_def view)
  have ok: "cells_ok F S V" using assms(1) by (simp add: store_in_def)
  have "mapped a (size_of_prim p) S"
    using ok assms(2,3) unfolding cells_ok_def cell_def by (metis Inr_inject place.inject(1) ty.inject(1) view.ext_inject)
  then have st: "store_mem a (val_bytes c) S = Inr ?S" using store_mem_ok [of a "val_bytes c" S] len by simp
  have mem: "mapped b n ?S" if "mapped b n S" for b n using that by (simp add: mapped_def)
  have "cells_ok F ?S V" using ok mem unfolding cells_ok_def cells by blast
  moreover have "has_prim q v \<and> load_mem b (size_of_prim q) ?S = Inr (val_bytes v)"
    if m: "m \<in> V" "cell F S m b q" "(env(key_of l \<mapsto> c)) (key_of m) = Some v" for m b q v
  proof (cases "key_of m = key_of l")
    case True
    then have "view_of_lv F S m = view_of_lv F S l"
      using view_of_key [of m l q p] m(2) assms(3) by (simp add: cell_def)
    then have "b = a" "q = p" using m(2) assms(3) by (auto simp: cell_def)
    moreover have "v = c" using m(3) True by simp
    ultimately show ?thesis
      using load_stored [of "val_bytes c" a S] assms(4) len size_small [of p] by simp
  next
    case False
    then have "apart b (size_of_prim q) a (size_of_prim p)"
      using ok m(1,2) assms(2,3) unfolding cells_ok_def by blast
    then have "load_mem b (size_of_prim q) ?S = load_mem b (size_of_prim q) S"
      using store_other [of b "size_of_prim q" a "val_bytes c"] len by (intro load_mem_cong) simp
    then show ?thesis using assms(1) m False by (auto simp: store_in_def)
  qed
  ultimately show ?thesis using st by (auto simp: store_in_def cells)
qed

lemma store_in_count: "store_in F V env S \<Longrightarrow> store_in F V env (S\<lparr>iv_insts := n\<rparr>)"
proof -
  have view: "view_of_lv F (S\<lparr>iv_insts := n\<rparr>) m = view_of_lv F S m" for m
    by (cases "find_view m F") (simp_all add: view_of_lv_def)
  show "store_in F V env S \<Longrightarrow> store_in F V env (S\<lparr>iv_insts := n\<rparr>)"
    by (simp add: store_in_def cells_ok_def cell_def view mapped_def load_mem_def)
qed

section \<open>Instructions\<close>

lemma eval_unary_prim: "eval_unary h op d (p, a) = Inr c \<Longrightarrow> has_prim p a \<Longrightarrow> has_prim d c"
  by (cases op; cases d; cases p)
    (auto simp: assign_prim_def eval_not_def eval_neg_def rbind_eq_Inr assign_pairs_def dest: conv_to_has_prim split: if_splits)

lemma operand_view:
  assumes "store_in F V env S" "operand env x = Inr (p, a)" "\<And>l. x = val.Left l \<Longrightarrow> l \<in> V"
  shows "\<exists>v. view_of F S x = Inr v \<and> vw_type v = Prim p \<and> has_prim p a \<and>
    place_bytes (vw_data v) (size_of_prim p) S = Inr (val_bytes a)"
proof (cases x)
  case (Const c)
  then show ?thesis using assms(2) length_val_bytes [of p a] by (auto simp: const_view_def scalar_eq_Inr)
next
  case (Left l)
  then have l: "l \<in> V" "type_of_lv l = Prim p" "env (key_of l) = Some a"
    using assms(2,3) by (simp_all add: scalar_eq_Inr)
  obtain b q where b: "cell F S l b q" using assms(1) l(1) unfolding store_in_def cells_ok_def by blast
  then have "q = p" using l(2) by (simp add: cell_def)
  then show ?thesis using assms(1) l b Left by (auto simp: store_in_def cell_def)
qed

lemma result_cell:
  assumes "store_in F V env S" "r \<in> V" "type_of_lv r = Prim d"
  shows "\<exists>a. cell F S r a d \<and> result_view F S (Some r) = Inr \<lparr>vw_data = Mem a, vw_type = Prim d\<rparr>"
proof -
  obtain b q where b: "cell F S r b q" using assms(1,2) unfolding store_in_def cells_ok_def by blast
  then have "q = d" using assms(3) by (simp add: cell_def)
  then show ?thesis using b by (auto simp: cell_def result_view_def)
qed

lemma vm_unary_scalar:
  assumes "eval_unary h op d (p, a) = Inr c" "has_prim p a" "vw_type v = Prim p"
    and "place_bytes (vw_data v) (size_of_prim p) S = Inr (val_bytes a)"
  shows "vm_unary h op \<lparr>vw_data = Mem b, vw_type = Prim d\<rparr> v S = store_mem b (val_bytes c) S"
proof -
  have r: "read_prim p (vw_data v) S = Inr a" by (simp add: read_prim_def assms(4) bytes_val_bytes [OF assms(2)])
  have mov: "assign_typed h \<lparr>vw_data = Mem b, vw_type = Prim d\<rparr> (vw_type v) (vw_data v) S = store_mem b (val_bytes c) S"
    if "assign_prim h d p a = Inr c"
    using that r assms(3,4) by (auto simp: assign_typed_def assign_to_prim assign_scalar_def assign_prim_def assign_bytes_def split: if_splits)
  have num: "eval_num_unary h op \<lparr>vw_data = Mem b, vw_type = Prim d\<rparr> v S = store_mem b (val_bytes c) S"
    using r assms(1,3) by (simp add: eval_num_unary_def num_prim_def as_prim_def)
  show ?thesis using assms(1) mov num by (cases op) simp_all
qed

lemma vm_binary_scalar:
  assumes "eval_op h op d (p, a) (q, b) = Inr c" "has_prim p a" "has_prim q b" "vw_type v = Prim p" "vw_type w = Prim q"
    and "place_bytes (vw_data v) (size_of_prim p) S = Inr (val_bytes a)"
    and "place_bytes (vw_data w) (size_of_prim q) S = Inr (val_bytes b)"
  shows "vm_binary h op \<lparr>vw_data = Mem e, vw_type = Prim d\<rparr> v w S = store_mem e (val_bytes c) S"
proof -
  have r: "read_prim p (vw_data v) S = Inr a" "read_prim q (vw_data w) S = Inr b"
    by (simp_all add: read_prim_def assms(6,7) bytes_val_bytes [OF assms(2)] bytes_val_bytes [OF assms(3)])
  have num: "eval_num_binary h op \<lparr>vw_data = Mem e, vw_type = Prim d\<rparr> v w S = store_mem e (val_bytes c) S"
    using r assms(1,4,5) by (simp add: eval_num_binary_def num_prim_def as_prim_def)
  have "op \<notin> {Op_LOAD_ELEM, Op_BORROW_ELEM, Op_BORROW_ELEM_MUT, Op_STORE}"
    using assms(1) by (auto simp: eval_op_def is_comparison_def eval_binary_def rbind_eq_Inr elim!: arith.elims)
  then show ?thesis using num by (cases op) simp_all
qed

lemma exec_inst_store:
  assumes st: "store_in F V env S" and step: "inst_step h prev i env = Inr env'"
    and vars: "set (vars i) \<subseteq> V" and phi: "\<not> is_phi_inst i"
  shows "\<exists>S'. exec_inst call h F i S = Inr S' \<and> store_in F V env' S' \<and> iv_out S' = iv_out S \<and> iv_in S' = iv_in S"
proof -
  obtain r d c where r: "defined_var i = Some r" "type_of_lv r = Prim d" "inst_value h prev env d i = Inr c" "env' = env(key_of r \<mapsto> c)"
    using step by (auto simp: inst_step_Inr)
  have rV: "r \<in> V" using vars r(1) by (simp add: vars_def)
  have used: "l \<in> V" if "val.Left l \<in> set (used i)" for l
    using vars that by (force simp: vars_def used_vars_def List.map_filter_def as_var_Some)
  obtain e where e: "cell F S r e d" "result_view F S (Some r) = Inr \<lparr>vw_data = Mem e, vw_type = Prim d\<rparr>"
    using result_cell [OF st rV r(2)] by blast
  have fin: ?thesis if c: "has_prim d c" and run: "\<And>S'. store_mem e (val_bytes c) S = Inr S' \<Longrightarrow> exec_inst call h F i S = Inr (count_inst S')"
  proof -
    obtain S' where S': "store_mem e (val_bytes c) S = Inr S'" "store_in F V (env(key_of r \<mapsto> c)) S'" "iv_out S' = iv_out S" "iv_in S' = iv_in S"
      using store_in_update [OF st rV e(1) c] by blast
    then show ?thesis using run [OF S'(1)] r(4) by (auto simp: count_inst_def intro: store_in_count)
  qed
  show ?thesis
  proof (cases i)
    case (Unary op r' x)
    obtain p a where a: "operand env x = Inr (p, a)" "eval_unary h op d (p, a) = Inr c"
      using r(3) by (auto simp: Unary rbind_eq_Inr)
    obtain v where v: "view_of F S x = Inr v" "vw_type v = Prim p" "has_prim p a"
        "place_bytes (vw_data v) (size_of_prim p) S = Inr (val_bytes a)"
      using operand_view [OF st a(1)] used by (auto simp: Unary)
    show ?thesis
      using fin [OF eval_unary_prim [OF a(2) v(3)]] vm_unary_scalar [OF a(2) v(3,2,4)] v(1) e(2) r(1) by (simp add: Unary)
  next
    case (Binary op r' x y)
    obtain p a q b where a: "operand env x = Inr (p, a)" "operand env y = Inr (q, b)" "eval_op h op d (p, a) (q, b) = Inr c"
      using r(3) by (auto simp: Binary rbind_eq_Inr)
    obtain v where v: "view_of F S x = Inr v" "vw_type v = Prim p" "has_prim p a"
        "place_bytes (vw_data v) (size_of_prim p) S = Inr (val_bytes a)"
      using operand_view [OF st a(1)] used by (auto simp: Binary)
    obtain w where w: "view_of F S y = Inr w" "vw_type w = Prim q" "has_prim q b"
        "place_bytes (vw_data w) (size_of_prim q) S = Inr (val_bytes b)"
      using operand_view [OF st a(2)] used by (auto simp: Binary)
    show ?thesis
      using fin [OF eval_op_has_prim [OF a(3)]] vm_binary_scalar [OF a(3) v(3) w(3) v(2) w(2) v(4) w(4)] v(1) w(1) e(2) r(1)
      by (simp add: Binary)
  qed (use r phi in auto)
qed

lemma exec_insts_store:
  "store_in F V env S \<Longrightarrow> rfold (inst_step h prev) is env = Inr env' \<Longrightarrow> \<forall>i\<in>set is. set (vars i) \<subseteq> V \<and> \<not> is_phi_inst i \<Longrightarrow>
     \<exists>S'. exec_insts call h F is S = Inr S' \<and> store_in F V env' S' \<and> iv_out S' = iv_out S \<and> iv_in S' = iv_in S"
proof (induction "is" arbitrary: env S)
  case (Cons i "is")
  obtain env1 where e: "inst_step h prev i env = Inr env1" "rfold (inst_step h prev) is env1 = Inr env'"
    using Cons.prems(2) by (auto simp: rbind_eq_Inr)
  obtain S1 where S1: "exec_inst call h F i S = Inr S1" "store_in F V env1 S1" "iv_out S1 = iv_out S" "iv_in S1 = iv_in S"
    using exec_inst_store [OF Cons.prems(1) e(1)] Cons.prems(3) by fastforce
  then show ?case using Cons.IH [OF S1(2) e(2)] Cons.prems(3) by (auto simp: exec_insts_def)
qed (simp add: exec_insts_def)

section \<open>Fuel\<close>

text \<open>A run that does not stop for lack of fuel is the same with more of it.\<close>

definition more_fuel :: "'a result \<Rightarrow> 'a result \<Rightarrow> bool" where
  "more_fuel r r' \<longleftrightarrow> r \<noteq> Inl out_of_fuel \<longrightarrow> r' = r"

definition more_calls :: "callee \<Rightarrow> callee \<Rightarrow> bool" where
  "more_calls call call' \<longleftrightarrow> (\<forall>f args ret S. more_fuel (call f args ret S) (call' f args ret S))"

lemma more_fuel_refl [simp]: "more_fuel r r"
  by (simp add: more_fuel_def)

lemma more_fuel_bind: "more_fuel r r' \<Longrightarrow> (\<And>x. more_fuel (f x) (f' x)) \<Longrightarrow> more_fuel (rbind r f) (rbind r' f')"
  by (cases r) (auto simp: more_fuel_def)

lemma more_fuel_fold: "(\<And>x s. more_fuel (f x s) (g x s)) \<Longrightarrow> more_fuel (rfold f xs s) (rfold g xs s)"
proof (induction xs arbitrary: s)
  case (Cons x xs)
  then show ?case by (simp add: more_fuel_bind)
qed simp

lemma exec_inst_fuel: "more_calls call call' \<Longrightarrow> more_fuel (exec_inst call h F i S) (exec_inst call' h F i S)"
  by (cases i) (auto simp: more_calls_def intro!: more_fuel_bind)

lemma exec_ir_block_fuel:
  "more_calls call call' \<Longrightarrow> more_fuel (exec_ir_block call h F ret prev b S) (exec_ir_block call' h F ret prev b S)"
  unfolding exec_ir_block_def exec_insts_def
  by (intro more_fuel_bind more_fuel_refl) (auto split: prod.split intro!: more_fuel_bind more_fuel_fold exec_inst_fuel)

lemma exec_blocks_fuel:
  "more_calls call call' \<Longrightarrow> m \<le> m' \<Longrightarrow>
     more_fuel (exec_blocks m call h fn F ret prev b S) (exec_blocks m' call' h fn F ret prev b S)"
proof (induction m arbitrary: m' prev b S)
  case (Suc m)
  then obtain k where k: "m' = Suc k" "m \<le> k" by (cases m') auto
  show ?case unfolding k exec_blocks.simps
    by (rule more_fuel_bind [OF exec_ir_block_fuel [OF Suc.prems(1)]])
      (auto split: prod.split option.split intro: Suc.IH [OF Suc.prems(1) k(2)])
qed (simp add: more_fuel_def)

lemma exec_body_fuel:
  "more_calls call call' \<Longrightarrow> m \<le> m' \<Longrightarrow>
     more_fuel (exec_body m call A h fn args ret S) (exec_body m' call' A h fn args ret S)"
  unfolding exec_body_def
  by (intro more_fuel_bind more_fuel_refl) (auto split: prod.split intro!: more_fuel_bind exec_blocks_fuel)

lemma exec_call_fuel: "n \<le> n' \<Longrightarrow> m \<le> m' \<Longrightarrow> more_calls (exec_call n m p h) (exec_call n' m' p h)"
proof (induction n arbitrary: n')
  case (Suc n)
  then obtain k where k: "n' = Suc k" "n \<le> k" by (cases n') auto
  show ?case
    using exec_body_fuel [OF Suc.IH [OF k(2) Suc.prems(2)] Suc.prems(2)]
    by (auto simp: k(1) more_calls_def split: name_def.split option.split)
qed (simp add: more_calls_def more_fuel_def)

lemma exec_func_fuel:
  "n \<le> n' \<Longrightarrow> m \<le> m' \<Longrightarrow> more_fuel (exec_func n m p h fn args ret S) (exec_func n' m' p h fn args ret S)"
  by (simp add: exec_func_def exec_body_fuel exec_call_fuel)

theorem vm_more_fuel:
  assumes "vm_execute n m h p input = Inr r" "n \<le> n'" "m \<le> m'"
  shows "vm_execute n' m' h p input = Inr r"
proof -
  have "more_fuel (vm_execute n m h p input) (vm_execute n' m' h p input)"
    unfolding vm_execute_def
    by (auto split: prod.split intro!: more_fuel_bind exec_func_fuel assms(2,3))
  then show ?thesis using assms(1) by (simp add: more_fuel_def)
qed

end
