(* ===== verification/Ir_Vm_Frame.thy ===== *)
theory Ir_Vm_Frame
  imports Ir_Vm_Sound
begin

text \<open>
  The frame of an activation: entering a function gives every scalar parameter, local and temporary
  a cell of its own in the buffer of the frame, as \<open>Ir_Vm_Sound\<close> requires.
\<close>

section \<open>What initialisation keeps\<close>

definition keeps :: "ivm \<Rightarrow> ivm \<Rightarrow> bool" where
  "keeps S S' \<longleftrightarrow> dom (iv_mem S') = dom (iv_mem S) \<and> iv_next S' = iv_next S \<and> iv_global S' = iv_global S"

lemma keeps_refl [simp]: "keeps S S"
  by (simp add: keeps_def)

lemma keeps_trans: "keeps S S' \<Longrightarrow> keeps S' S'' \<Longrightarrow> keeps S S''"
  by (simp add: keeps_def)

lemma keeps_store: "store_mem a bs S = Inr S' \<Longrightarrow> keeps S S'"
proof -
  assume st: "store_mem a bs S = Inr S'"
  have "iv_mem S x \<noteq> None" if "unat (x - a) < length bs" for x
  proof -
    have "\<forall>i\<in>{0..<length bs}. iv_mem S (a + of_nat i) \<noteq> None"
      using st unfolding store_mem_def by (auto simp: list_ex_iff split: if_splits)
    then have "iv_mem S (a + of_nat (unat (x - a))) \<noteq> None" using that by (metis atLeastLessThan_iff le0)
    then show ?thesis by simp
  qed
  then show ?thesis using st by (auto simp: keeps_def store_mem_def split: if_splits)
qed

lemma keeps_copy: "assign_bytes n a src S = Inr S' \<Longrightarrow> keeps S S'"
  by (auto simp: assign_bytes_def rbind_eq_Inr dest: keeps_store)

lemma keeps_scalar: "assign_scalar h d a s src S = Inr S' \<Longrightarrow> keeps S S'"
  by (auto simp: assign_scalar_def rbind_eq_Inr dest: keeps_store keeps_copy split: if_splits)

lemma keeps_flat:
  assumes "assign_flat h dt a st src S = Inr S'"
  shows "keeps S S'"
proof (cases dt)
  case (Prim p)
  then show ?thesis using assms unfolding assign_flat_def
    by (cases p; cases st) (auto dest: keeps_scalar keeps_copy)
next
  case (Reference e r sl)
  show ?thesis
  proof (cases st)
    case (Prim q)
    then show ?thesis using assms Reference unfolding assign_flat_def by (cases q) (auto dest: keeps_copy)
  qed (use assms Reference in \<open>auto simp: assign_flat_def dest: keeps_copy keeps_store split: if_splits place.splits\<close>)
qed (use assms in \<open>simp_all add: assign_flat_def\<close>)

lemma keeps_fold:
  "(\<And>x S S'. x \<in> set xs \<Longrightarrow> f x S = Inr S' \<Longrightarrow> keeps S S') \<Longrightarrow> rfold f xs S = Inr S' \<Longrightarrow> keeps S S'"
proof (induction xs arbitrary: S)
  case (Cons x xs)
  obtain S1 where "f x S = Inr S1" "rfold f xs S1 = Inr S'" using Cons.prems(2) by (auto simp: rbind_eq_Inr)
  then show ?case using Cons.IH [of S1] Cons.prems(1) keeps_trans by (metis list.set_intros)
qed simp

lemma keeps_assign:
  "assign_to h dt a st src S = Inr S' \<Longrightarrow> keeps S S'"
  "assign_items h ds a ss src S = Inr S' \<Longrightarrow> keeps S S'"
proof (induction h dt a st src S and h ds a ss src S arbitrary: S' and S' rule: assign_to_assign_items.induct)
  case (1 h dt a st src S)
  show ?case
  proof (cases "\<exists>e n e' n'. st = Array e' n' \<and> dt = Array e n")
    case True
    then obtain e n e' n' where t: "st = Array e' n'" "dt = Array e n" by blast
    obtain de dn se sn where f: "array_flatten e n = (de, dn)" "array_flatten e' n' = (se, sn)" by fastforce
    have run: "rfold (\<lambda>i. assign_to h de (a + of_nat (i * size_of de)) se (place_off src (of_nat (i * size_of se)))) [0..<sn] S = Inr S'"
      and le: "\<not> dn < sn"
      using "1.prems" f by (auto simp: t assign_to.simps [of h "Array e n"] split: if_splits)
    show ?thesis
      by (rule keeps_fold [OF _ run], rule "1.IH"(2) [OF t]) (use le in \<open>auto simp: f\<close>)
  next
    case False
    then consider (flat) "assign_flat h dt a st src S = Inr S'"
      | (items) ds ss where "dt = Product ds" "st = Product ss" "length ds = length ss" "assign_items h ds a ss src S = Inr S'"
      using "1.prems" unfolding assign_to.simps [of h dt] by (cases st; cases dt) (simp_all split: if_splits)
    then show ?thesis
    proof cases
      case flat
      then show ?thesis by (rule keeps_flat)
    next
      case (items ds ss)
      then show ?thesis using "1.IH"(1) by blast
    qed
  qed
next
  case (3 h ds a s ss src S)
  then show ?case
    by (cases ds) (auto simp: rbind_eq_Inr, metis keeps_trans)
qed simp

lemma keeps_alloc:
  assumes "alloc_var h A i buf (F, S) = Inr (F', S')"
  shows "keeps S S' \<and> F' = F\<lparr>fr_vars := (fr_vars F)(Def_alloc i \<mapsto> alloc_view (A i) buf)\<rparr>"
  using assms
  by (auto simp: alloc_var_def Let_def rbind_eq_Inr split: if_splits option.splits
      dest: keeps_store keeps_assign(1) intro: keeps_trans)

section \<open>Layout\<close>

abbreviation slots :: "alloc_store \<Rightarrow> alloc_id list \<Rightarrow> nat" where
  "slots A is \<equiv> sum_list (map (alloc_slot A) is)"

lemma place_params_layout:
  assumes "place_params h A is vs cur (F, S) = Inr (cur', F', S')" "length is = length vs" "distinct is"
  shows "keeps S S' \<and> fr_temps F' = fr_temps F \<and> cur' = cur + of_nat (slots A is) \<and>
    (\<forall>k<length is. fr_vars F' (Def_alloc (is ! k)) = Some (alloc_view (A (is ! k)) (cur + of_nat (slots A (take k is))))) \<and>
    (\<forall>d. d \<notin> Def_alloc ` set is \<longrightarrow> fr_vars F' d = fr_vars F d)"
  using assms
proof (induction "is" arbitrary: vs cur F S)
  case (Cons i "is")
  obtain v vs' where vs: "vs = v # vs'" using Cons.prems(2) by (cases vs) auto
  obtain F1 S1 S2 where a: "alloc_var h A i cur (F, S) = Inr (F1, S1)"
      "assign_to h (al_type (A i)) cur (vw_type v) (vw_data v) S1 = Inr S2"
      "place_params h A is vs' (cur + of_nat (alloc_slot A i)) (F1, S2) = Inr (cur', F', S')"
    using Cons.prems(1) by (auto simp: vs rbind_eq_Inr)
  note ih = Cons.IH [OF a(3)]
  note v = keeps_alloc [OF a(1)] keeps_assign(1) [OF a(2)]
  show ?case
    using ih v Cons.prems(2,3) vs
    by (auto simp: nth_Cons' take_Cons' add.assoc image_iff less_Suc_eq_0_disj intro: keeps_trans)
qed simp

lemma place_locals_layout:
  assumes "place_locals h A is cur (F, S) = Inr (cur', F', S')" "distinct is"
  shows "keeps S S' \<and> fr_temps F' = fr_temps F \<and> cur' = cur + of_nat (slots A is) \<and>
    (\<forall>k<length is. fr_vars F' (Def_alloc (is ! k)) = Some (alloc_view (A (is ! k)) (cur + of_nat (slots A (take k is))))) \<and>
    (\<forall>d. d \<notin> Def_alloc ` set is \<longrightarrow> fr_vars F' d = fr_vars F d)"
  using assms
proof (induction "is" arbitrary: cur F S)
  case (Cons i "is")
  obtain F1 S1 where a: "alloc_var h A i cur (F, S) = Inr (F1, S1)"
      "place_locals h A is (cur + of_nat (alloc_slot A i)) (F1, S1) = Inr (cur', F', S')"
    using Cons.prems(1) by (auto simp: rbind_eq_Inr)
  note ih = Cons.IH [OF a(2)]
  note v = keeps_alloc [OF a(1)]
  show ?case
    using ih v Cons.prems(2)
    by (auto simp: nth_Cons' take_Cons' add.assoc image_iff less_Suc_eq_0_disj intro: keeps_trans)
qed simp

abbreviation temp_slots :: "(ty \<times> block_id) list \<Rightarrow> nat" where
  "temp_slots ts \<equiv> sum_list (map temp_slot ts)"

lemma place_temps_layout:
  "place_temps ts cur F = F\<lparr>fr_temps := fr_temps F @
     map (\<lambda>k. \<lparr>vw_data = Mem (cur + of_nat (temp_slots (take k ts))), vw_type = fst (ts ! k)\<rparr>) [0..<length ts]\<rparr>"
  by (induction ts cur F rule: place_temps.induct)
    (simp_all add: upt_conv_Cons map_Suc_upt [symmetric] comp_def add.assoc del: upt_Suc map_Suc_upt)

section \<open>Every variable has a cell\<close>

text \<open>The scalar variables of a function, and the slot each has in the buffer.\<close>

definition func_slots :: "alloc_store \<Rightarrow> ir_func \<Rightarrow> nat list" where
  "func_slots A fn = map (alloc_slot A) (fn_params fn @ fn_locals fn) @ map temp_slot (fn_temps fn)"

fun slot_of :: "alloc_store \<Rightarrow> ir_func \<Rightarrow> left_value \<Rightarrow> nat \<Rightarrow> prim \<Rightarrow> bool" where
  "slot_of A fn (NamedValue t (Def_alloc i)) k p \<longleftrightarrow>
     t = Prim p \<and> k < length (fn_params fn @ fn_locals fn) \<and> (fn_params fn @ fn_locals fn) ! k = i \<and>
     \<not> al_reference (A i) \<and> al_type (A i) = Prim p"
| "slot_of A fn (TempValue t i f) k p \<longleftrightarrow>
     t = Prim p \<and> f = fn_id fn \<and> i < length (fn_temps fn) \<and> fst (fn_temps fn ! i) = Prim p \<and>
     k = length (fn_params fn @ fn_locals fn) + i"
| "slot_of A fn l k p \<longleftrightarrow> False"

definition frame_vars :: "alloc_store \<Rightarrow> ir_func \<Rightarrow> left_value set" where
  "frame_vars A fn = {l. \<exists>k p. slot_of A fn l k p}"

lemma frame_size_slots: "frame_bytes A fn = sum_list (func_slots A fn)"
  by (simp add: frame_bytes_def func_slots_def)

lemma padding_to_ge: "n + r < 2 ^ 64 \<Longrightarrow> n \<le> padding_to n r \<and> padding_to n r \<le> n + r"
proof -
  assume n: "n + r < 2 ^ 64"
  have "n + (r - n mod r) \<le> n + r" by simp
  then have "wrap64 (n + (r - n mod r)) = n + (r - n mod r)" using n by (intro wrap64_id) linarith
  then show ?thesis by (simp add: padding_to_def)
qed

lemma scalar_slot: "size_of_prim p \<le> padding_to (wrap64 (padding_to (size_of_prim p) 8)) 16" "size_of_prim p \<le> padding_to (size_of_prim p) 16"
  by (cases p; simp add: padding_to_def)+

lemma slot_size: "slot_of A fn l k p \<Longrightarrow> k < length (func_slots A fn) \<and> size_of_prim p \<le> func_slots A fn ! k"
proof (cases l)
  case (NamedValue t d)
  assume s: "slot_of A fn l k p"
  obtain i where i: "d = Def_alloc i" using s by (cases d) (auto simp: NamedValue)
  have "size_of_prim p \<le> alloc_slot A i"
    using s scalar_slot(1) by (auto simp: NamedValue i alloc_slot_def stack_size_alloc_def)
  moreover have "func_slots A fn ! k = alloc_slot A i" "k < length (func_slots A fn)"
    using s by (auto simp: NamedValue i func_slots_def nth_append)
  ultimately show ?thesis by simp
next
  case (TempValue t i f)
  assume s: "slot_of A fn l k p"
  then have "size_of_prim p \<le> temp_slot (fn_temps fn ! i)"
    using scalar_slot(2) by (auto simp: TempValue temp_slot_def)
  then show ?thesis using s by (auto simp: TempValue func_slots_def nth_append)
qed simp

lemma slot_key:
  assumes "distinct (fn_params fn @ fn_locals fn)" "slot_of A fn l k p" "slot_of A fn m k q"
  shows "key_of l = key_of m"
  using assms(2,3) by (cases "(A, fn, l, k, p)" rule: slot_of.cases; cases "(A, fn, m, k, q)" rule: slot_of.cases) auto

definition slot_addr :: "alloc_store \<Rightarrow> ir_func \<Rightarrow> u64 \<Rightarrow> nat \<Rightarrow> u64" where
  "slot_addr A fn buf k = buf + of_nat (sum_list (take k (func_slots A fn)))"

lemma slots_below: "i < j \<Longrightarrow> j < length xs \<Longrightarrow> sum_list (take i xs) + xs ! i \<le> sum_list (take j (xs :: nat list))"
proof (induction xs arbitrary: i j)
  case (Cons x xs)
  then show ?case by (cases i; cases j) auto
qed simp

lemma slot_inside: "k < length xs \<Longrightarrow> sum_list (take k xs) + xs ! k \<le> sum_list (xs :: nat list)"
proof (induction xs arbitrary: k)
  case (Cons x xs)
  then show ?case by (cases k) auto
qed simp

lemma slots_apart:
  assumes "unat buf + sum_list (func_slots A fn) < 2 ^ 64" "k < length (func_slots A fn)" "j < length (func_slots A fn)" "k < j"
    and "n \<le> func_slots A fn ! k" "m \<le> func_slots A fn ! j"
  shows "apart (slot_addr A fn buf k) n (slot_addr A fn buf j) m"
  unfolding apart_def
proof (intro allI impI)
  fix x y assume x: "x < n" and y: "y < m"
  let ?o = "\<lambda>k. sum_list (take k (func_slots A fn))"
  have le: "?o k + x < ?o j + y" "?o j + y < sum_list (func_slots A fn)"
    using slots_below [OF assms(4,3)] slot_inside [OF assms(3)] assms(5,6) x y by linarith+
  have "unat (buf + of_nat (?o k + x)) = unat buf + (?o k + x)" "unat (buf + of_nat (?o j + y)) = unat buf + (?o j + y)"
    using le assms(1) by (simp_all add: unat_word_ariths unat_of_nat del: of_nat_add)
  then have "buf + of_nat (?o k + x) \<noteq> buf + of_nat (?o j + y)" using le by (metis add_left_cancel less_irrefl)
  then show "slot_addr A fn buf k + of_nat x \<noteq> slot_addr A fn buf j + of_nat y"
    by (simp add: slot_addr_def add.assoc)
qed

lemma apart_sym: "apart a n b m \<longleftrightarrow> apart b m a n"
  unfolding apart_def by metis

lemma find_view_slot:
  assumes "enter_func h A fn args S = Inr (buf, F, S')" "distinct (fn_params fn @ fn_locals fn)" "slot_of A fn l k p"
  shows "view_of_lv F S' l = Inr \<lparr>vw_data = Mem (slot_addr A fn buf k), vw_type = Prim p\<rparr>"
proof -
  obtain cur1 F1 S1 cur2 F2 where e: "length (fn_params fn) = length args"
      "place_params h A (fn_params fn) args buf (no_frame, snd (new_buffer (frame_size A fn) S)) = Inr (cur1, F1, S1)"
      "place_locals h A (fn_locals fn) cur1 (F1, S1) = Inr (cur2, F2, S')" "F = place_temps (fn_temps fn) cur2 F2"
    using assms(1) by (auto simp: enter_func_def new_buffer_def rbind_eq_Inr split: if_splits)
  have d: "distinct (fn_params fn)" "distinct (fn_locals fn)" "set (fn_params fn) \<inter> set (fn_locals fn) = {}"
    using assms(2) by auto
  note 1 = place_params_layout [OF e(2,1) d(1)] and 2 = place_locals_layout [OF e(3) d(2)]
  have "find_view l F = Some \<lparr>vw_data = Mem (slot_addr A fn buf k), vw_type = Prim p\<rparr>"
  proof (cases l)
    case (NamedValue t dd)
    then obtain i where i: "dd = Def_alloc i" using assms(3) by (cases dd) auto
    note s = assms(3) [unfolded NamedValue i slot_of.simps]
    have "fr_vars F (Def_alloc i) = Some (alloc_view (A i) (slot_addr A fn buf k))"
    proof (cases "k < length (fn_params fn)")
      case True
      then have "i = fn_params fn ! k" using s by (simp add: nth_append)
      moreover have "Def_alloc i \<notin> Def_alloc ` set (fn_locals fn)" using d(3) True calculation nth_mem by fastforce
      ultimately show ?thesis
        using 1 2 True by (simp add: e(4) place_temps_layout slot_addr_def func_slots_def take_map)
    next
      case False
      then have "i = fn_locals fn ! (k - length (fn_params fn))" "k - length (fn_params fn) < length (fn_locals fn)"
        using s by (auto simp: nth_append)
      then show ?thesis
        using 1 2 False by (simp add: e(4) place_temps_layout slot_addr_def func_slots_def take_map add.assoc)
    qed
    then show ?thesis using s by (simp add: NamedValue i alloc_view_def)
  next
    case (TempValue t i f)
    then show ?thesis
      using assms(3) 1 2 by (simp add: e(4) place_temps_layout slot_addr_def func_slots_def take_map add.assoc nth_append no_frame_def)
  qed (use assms(3) in simp)
  then show ?thesis by (simp add: view_of_lv_def)
qed

text \<open>
  C32: a new activation has a proper frame: after a successful entry every scalar parameter, local
  and temporary of the function has a cell of its own inside the new buffer, and the cells of
  different variables do not overlap.
\<close>

lemma enter_func_cells':
  assumes "enter_func h A fn args S = Inr (buf, F, S')" "distinct (fn_params fn @ fn_locals fn)"
    and "unat (iv_next S) + frame_bytes A fn < 2 ^ 64"
  shows "cells_ok F S' (frame_vars A fn)"
proof -
  have buf: "buf = iv_next S" using assms(1) by (auto simp: enter_func_def new_buffer_def rbind_eq_Inr split: if_splits)
  have size: "frame_size A fn = frame_bytes A fn" using assms(3) by (simp add: frame_size_def)
  have dom: "iv_mem S' x \<noteq> None" if "unat (x - buf) < frame_size A fn" for x
  proof -
    obtain cur1 F1 S1 cur2 F2 where e: "length (fn_params fn) = length args"
        "place_params h A (fn_params fn) args buf (no_frame, snd (new_buffer (frame_size A fn) S)) = Inr (cur1, F1, S1)"
        "place_locals h A (fn_locals fn) cur1 (F1, S1) = Inr (cur2, F2, S')"
      using assms(1) by (auto simp: enter_func_def new_buffer_def rbind_eq_Inr split: if_splits)
    have "keeps (snd (new_buffer (frame_size A fn) S)) S'"
      using place_params_layout [OF e(2,1)] place_locals_layout [OF e(3)] assms(2) keeps_trans by auto
    moreover have "iv_mem (snd (new_buffer (frame_size A fn) S)) x \<noteq> None" using that buf by (simp add: new_buffer_def)
    ultimately show ?thesis unfolding keeps_def by (metis domIff)
  qed
  have cell: "cell F S' l (slot_addr A fn buf k) p" if "slot_of A fn l k p" for l k p
    using find_view_slot [OF assms(1,2) that] that by (cases "(A, fn, l, k, p)" rule: slot_of.cases) (simp_all add: cell_def)
  have mapped: "mapped (slot_addr A fn buf k) (size_of_prim p) S'" if "slot_of A fn l k p" for l k p
    unfolding mapped_def
  proof (intro allI impI)
    fix i assume i: "i < size_of_prim p"
    let ?o = "sum_list (take k (func_slots A fn))"
    have "?o + i < frame_bytes A fn"
      using slot_size [OF that] slot_inside [of k "func_slots A fn"] i by (simp add: frame_size_slots)
    then have "unat (slot_addr A fn buf k + of_nat i - buf) < frame_size A fn"
      using assms(3) by (simp add: size slot_addr_def unat_of_nat del: of_nat_add flip: of_nat_add)
    then show "iv_mem S' (slot_addr A fn buf k + of_nat i) \<noteq> None" by (rule dom)
  qed
  have "apart a (size_of_prim p) b (size_of_prim q)"
    if l: "l \<in> frame_vars A fn" "cell F S' l a p" and m: "m \<in> frame_vars A fn" "cell F S' m b q" and n: "key_of l \<noteq> key_of m"
    for l m a p b q
  proof -
    obtain k p' where k: "slot_of A fn l k p'" using l(1) by (auto simp: frame_vars_def)
    obtain j q' where j: "slot_of A fn m j q'" using m(1) by (auto simp: frame_vars_def)
    have e: "a = slot_addr A fn buf k" "p = p'" "b = slot_addr A fn buf j" "q = q'"
      using l(2) m(2) cell [OF k] cell [OF j] by (auto simp: cell_def)
    have "k \<noteq> j" using slot_key [OF assms(2) k] j n by blast
    then show ?thesis
      using slots_apart [of buf A fn k j "size_of_prim p" "size_of_prim q"] slots_apart [of buf A fn j k "size_of_prim q" "size_of_prim p"]
        slot_size [OF k] slot_size [OF j] assms(3) apart_sym unfolding e buf frame_size_slots by (metis linorder_neqE_nat)
  qed
  moreover have "\<exists>a p. cell F S' l a p \<and> mapped a (size_of_prim p) S'" if "l \<in> frame_vars A fn" for l
    using that cell mapped by (fastforce simp: frame_vars_def)
  ultimately show ?thesis unfolding cells_ok_def by blast
qed


section \<open>Blocks in the interpreter\<close>

text \<open>
  C31: the interpreter refines the store semantics. When the variables of a scalar block have
  disjoint cells in memory and the store semantics runs it to a store, the interpreter runs it
  without error, the cells hold that store, and the input and output are untouched.
\<close>

theorem scalar_block_runs:
  assumes "store_in F V env S" "rfold (inst_step h prev) is env = Inr env'"
    and "\<forall>i\<in>set is. set (vars i) \<subseteq> V \<and> \<not> is_phi_inst i"
  shows "\<exists>S'. exec_insts call h F is S = Inr S' \<and> store_in F V env' S' \<and> iv_out S' = iv_out S \<and> iv_in S' = iv_in S"
  by (rule exec_insts_store [OF assms])

lemma as_var_identity: "identity_result op x y = Some z \<Longrightarrow> z = x \<or> z = y"
  by (cases op) (auto split: if_splits)

lemma fold_binary_mov:
  assumes "fold_inst h (Binary op (Some r) x y) = Inr (Some i')"
  shows "\<exists>z. i' = Unary Op_MOV (Some r) z \<and> ((\<exists>c. z = Const c) \<or> z = x \<or> z = y)"
proof (cases "\<exists>c d. x = Const c \<and> y = Const d")
  case True
  then show ?thesis using assms by (auto simp: rbind_eq_Inr)
next
  case False
  then have "fold_inst h (Binary op (Some r) x y) = Inr (map_option (Unary Op_MOV (Some r)) (identity_result op x y))"
    by (cases x; cases y) simp_all
  then obtain z where "identity_result op x y = Some z" "i' = Unary Op_MOV (Some r) z" using assms by (cases "identity_result op x y") simp_all
  then show ?thesis using as_var_identity by blast
qed

lemma fold_inst_vars: "fold_inst h i = Inr (Some i') \<Longrightarrow> set (vars i') \<subseteq> set (vars i) \<and> \<not> is_phi_inst i'"
proof (cases i)
  case (Phi r args)
  assume "fold_inst h i = Inr (Some i')"
  then show ?thesis by (cases r) (auto simp: Phi vars_def used_vars_def List.map_filter_simps rbind_eq_Inr)
next
  case (Unary op r x)
  assume "fold_inst h i = Inr (Some i')"
  then show ?thesis by (cases r; cases x) (auto simp: Unary vars_def used_vars_def List.map_filter_simps)
next
  case (Binary op r x y)
  assume "fold_inst h i = Inr (Some i')"
  then obtain q where q: "r = Some q" by (cases r) (simp_all add: Binary)
  then obtain z where z: "i' = Unary Op_MOV (Some q) z" "(\<exists>c. z = Const c) \<or> z = x \<or> z = y"
    using \<open>fold_inst h i = Inr (Some i')\<close> fold_binary_mov [of h op q x y i'] unfolding Binary by blast
  have "set (used_vars i') \<subseteq> set (used_vars i)"
    using z(2) unfolding z(1) Binary used_vars_def by (auto simp: List.map_filter_def)
  then show ?thesis unfolding vars_def z(1) Binary q by auto
qed simp

lemma fold_insts_vars:
  "fold_insts h is = Inr (c, is') \<Longrightarrow> \<forall>i\<in>set is. set (vars i) \<subseteq> V \<and> \<not> is_phi_inst i \<Longrightarrow>
     \<forall>i\<in>set is'. set (vars i) \<subseteq> V \<and> \<not> is_phi_inst i"
proof (induction "is" arbitrary: c is')
  case (Cons i "is")
  obtain n c1 is1 where n: "fold_inst h i = Inr n" "fold_insts h is = Inr (c1, is1)"
      "is' = (case n of Some i' \<Rightarrow> i' # is1 | None \<Rightarrow> i # is1)"
    using Cons.prems(1) by (auto simp: rbind_eq_Inr split: option.splits)
  have rest: "\<forall>i\<in>set is1. set (vars i) \<subseteq> V \<and> \<not> is_phi_inst i"
    by (rule Cons.IH [OF n(2)]) (use Cons.prems(2) in simp)
  show ?case
  proof (cases n)
    case (Some j)
    have "set (vars j) \<subseteq> set (vars i) \<and> \<not> is_phi_inst j" by (rule fold_inst_vars [OF n(1) [unfolded Some]])
    then show ?thesis using rest Cons.prems(2) n(3) Some by auto
  qed (use rest Cons.prems(2) n(3) in simp)
qed simp

text \<open>A folded block leaves the interpreter with the same values of the variables.\<close>

theorem folded_block_runs:
  assumes "fold_block h b = Inr (c, b')" "list_all inst_typed (bk_insts b)" "list_all int_dest (bk_insts b)"
    and "\<forall>i\<in>set (bk_insts b). set (vars i) \<subseteq> V \<and> \<not> is_phi_inst i"
    and "store_in F V env S" "rfold (inst_step h prev) (bk_insts b) env = Inr env'"
  shows "\<exists>S1 S2. exec_insts call h F (bk_insts b) S = Inr S1 \<and> exec_insts call h F (bk_insts b') S = Inr S2 \<and>
    store_in F V env' S1 \<and> store_in F V env' S2 \<and> iv_out S2 = iv_out S1"
proof -
  obtain c1 is1 where f: "fold_insts h (bk_insts b) = Inr (c1, is1)" "bk_insts b' = is1"
    using assms(1) by (auto simp: fold_block_def rbind_eq_Inr split: option.splits)
  have run: "rfold (inst_step h prev) (bk_insts b') env = Inr env'"
    using fold_insts_run [OF f(1) assms(2,3,6)] f(2) by simp
  show ?thesis
    using exec_insts_store [OF assms(5,6,4), where call = call]
      exec_insts_store [OF assms(5) run, unfolded f(2), OF fold_insts_vars [OF f(1) assms(4)], where call = call]
    unfolding f(2) by auto
qed

section \<open>Instances\<close>

text \<open>A function with a parameter and two temporaries.\<close>

definition pair_alloc :: "alloc_store" where
  "pair_alloc = (\<lambda>i. \<lparr>al_name = ''x'', al_type = Prim Int32, al_comptime = False, al_immutable = False, al_reference = False, al_init = None\<rparr>)"

definition pair_fn :: ir_func where
  "pair_fn = \<lparr>fn_id = 0, fn_name = ''f'', fn_ret = Prim Int32, fn_params = [0], fn_locals = [], fn_blocks = [0],
     fn_blk = (\<lambda>b. sum_block), fn_temps = [(Prim Int32, 0), (Prim Int32, 0)], fn_loops = []\<rparr>"

definition pair_frame :: frame where
  "pair_frame = \<lparr>fr_vars = [Def_alloc 0 \<mapsto> \<lparr>vw_data = Mem 0x10000, vw_type = Prim Int32\<rparr>],
     fr_temps = [\<lparr>vw_data = Mem 0x10010, vw_type = Prim Int32\<rparr>, \<lparr>vw_data = Mem 0x10020, vw_type = Prim Int32\<rparr>]\<rparr>"

definition pair_state :: ivm where
  "pair_state =
     (case enter_func undefined pair_alloc pair_fn [const_view (mk_const (V_int 0))] (start_vm []) of
        Inr (buf, F, S) \<Rightarrow> S
      | Inl e \<Rightarrow> start_vm [])"

lemma enter_pair:
  "enter_func undefined pair_alloc pair_fn [const_view (mk_const (V_int 0))] (start_vm []) = Inr (0x10000, pair_frame, pair_state)"
proof -
  have "\<exists>S. enter_func undefined pair_alloc pair_fn [const_view (mk_const (V_int 0))] (start_vm []) = Inr (0x10000, pair_frame, S)"
    by (simp add: enter_func_def pair_fn_def pair_alloc_def new_buffer_def start_vm_def frame_size_def frame_bytes_def alloc_slot_def
        stack_size_alloc_def temp_slot_def padding_to_def alloc_var_def alloc_view_def const_view_def mk_const_def Let_def
        assign_to_prim assign_scalar_def assign_bytes_def store_mem_def upt_rec pair_frame_def no_frame_def word_bytes_def)
  then show ?thesis by (auto simp: pair_state_def)
qed


abbreviation x32 :: left_value where "x32 \<equiv> NamedValue (Prim Int32) (Def_alloc 0)"

lemma pair_vars: "{x32, t32 0, t32 1} \<subseteq> frame_vars pair_alloc pair_fn"
proof -
  have "slot_of pair_alloc pair_fn x32 0 Int32" "slot_of pair_alloc pair_fn (t32 0) 1 Int32"
      "slot_of pair_alloc pair_fn (t32 1) 2 Int32"
    by (simp_all add: pair_fn_def pair_alloc_def)
  then show ?thesis unfolding frame_vars_def by blast
qed

lemma cells_ok_mono: "cells_ok F S V \<Longrightarrow> W \<subseteq> V \<Longrightarrow> cells_ok F S W"
  unfolding cells_ok_def by blast

lemma pair_cells: "cells_ok pair_frame pair_state (frame_vars pair_alloc pair_fn)"
  by (rule enter_func_cells' [OF enter_pair])
    (simp_all add: pair_fn_def pair_alloc_def start_vm_def frame_size_def frame_bytes_def alloc_slot_def stack_size_alloc_def temp_slot_def padding_to_def)

lemma pair_stored: "V \<subseteq> {x32, t32 0, t32 1} \<Longrightarrow> store_in pair_frame V Map.empty pair_state"
  using cells_ok_mono [OF pair_cells order_trans [OF _ pair_vars]] by (simp add: store_in_def)

theorem scalar_block_runs_witness:
  "\<exists>S'. exec_insts (\<lambda>f args ret. Inr) undefined pair_frame (bk_insts sum_block) pair_state = Inr S' \<and>
     store_in pair_frame {t32 0, t32 1} [K_temp 0 0 \<mapsto> V_int 5, K_temp 0 1 \<mapsto> V_int 40] S' \<and>
     iv_out S' = iv_out pair_state \<and> iv_in S' = iv_in pair_state"
  by (rule scalar_block_runs [OF pair_stored sum_block_run])
    (auto simp: sum_block_def vars_def used_vars_def List.map_filter_simps)

theorem folded_block_runs_witness:
  "\<exists>S1 S2. exec_insts (\<lambda>f args ret. Inr) undefined pair_frame (bk_insts sum_block) pair_state = Inr S1 \<and>
     exec_insts (\<lambda>f args ret. Inr) undefined pair_frame (bk_insts sum_block_folded) pair_state = Inr S2 \<and>
     store_in pair_frame {t32 0, t32 1} [K_temp 0 0 \<mapsto> V_int 5, K_temp 0 1 \<mapsto> V_int 40] S1 \<and>
     store_in pair_frame {t32 0, t32 1} [K_temp 0 0 \<mapsto> V_int 5, K_temp 0 1 \<mapsto> V_int 40] S2 \<and> iv_out S2 = iv_out S1"
proof (rule folded_block_runs [OF _ _ _ _ pair_stored sum_block_run])
  show "fold_block undefined sum_block = Inr (True, sum_block_folded)"
    by (simp add: fold_block_def sum_block_def sum_block_folded_def mk_const_def fold_binary_def const_test_def get_exit_def)
qed (auto simp: sum_block_def is_comparison_def mk_const_def int_dest_def vars_def used_vars_def List.map_filter_simps)

text \<open>
  The interpreter keeps all versions of a variable in one place: where a program in SSA form uses an
  old version after a new one was defined, as copy propagation may make it, the new value is read.
\<close>

definition versions_insts :: "inst list" where
  "versions_insts =
     [Unary Op_MOV (Some (SSAValue (Prim Int32) 0 0)) (c32 1),
      Unary Op_MOV (Some (SSAValue (Prim Int32) 0 1)) (c32 2),
      Unary Op_MOV (Some (t32 0)) (val.Left (SSAValue (Prim Int32) 0 0))]"

lemma versions_run:
  "rfold (inst_step h 0) versions_insts Map.empty = Inr [K_ssa 0 0 \<mapsto> V_int 1, K_ssa 0 1 \<mapsto> V_int 2, K_temp 0 0 \<mapsto> V_int 1]"
  by (simp add: versions_insts_def inst_step_def scalar_def mk_const_def assign_prim_def)

lemma rfold_same: "list_all2 (\<lambda>x y. \<forall>s. f x s = f y s) xs ys \<Longrightarrow> rfold f xs s = rfold f ys s"
  by (induction xs ys arbitrary: s rule: list_all2_induct) (auto intro: rbind_cong)

lemma versions_alias:
  "\<exists>S. exec_insts call h pair_frame versions_insts pair_state = Inr S \<and> load_mem 0x10010 4 S = Inr (val_bytes (V_int 2))"
proof -
  let ?is = "[Unary Op_MOV (Some x32) (c32 1), Unary Op_MOV (Some x32) (c32 2), Unary Op_MOV (Some (t32 0)) (val.Left x32)]"
  have view: "view_of_lv pair_frame S (SSAValue (Prim Int32) 0 k) = view_of_lv pair_frame S x32" for S k
    by (simp add: view_of_lv_def pair_frame_def)
  have same: "exec_insts call h pair_frame versions_insts pair_state = exec_insts call h pair_frame ?is pair_state"
    unfolding exec_insts_def versions_insts_def by (rule rfold_same) (simp add: result_view_def view)
  have "rfold (inst_step h 0) ?is Map.empty = Inr [K_named (Def_alloc 0) \<mapsto> V_int 2, K_temp 0 0 \<mapsto> V_int 2]"
    by (simp add: inst_step_def scalar_def mk_const_def assign_prim_def)
  then obtain S where S: "exec_insts call h pair_frame ?is pair_state = Inr S"
      "store_in pair_frame {x32, t32 0} [K_named (Def_alloc 0) \<mapsto> V_int 2, K_temp 0 0 \<mapsto> V_int 2] S"
    using exec_insts_store [OF pair_stored [of "{x32, t32 0}"], of h 0 ?is]
    by (fastforce simp: vars_def used_vars_def List.map_filter_simps)
  have "cell pair_frame S (t32 0) 0x10010 Int32" by (simp add: cell_def view_of_lv_def pair_frame_def)
  then have "load_mem 0x10010 (size_of_prim Int32) S = Inr (val_bytes (V_int 2))"
    using S(2) unfolding store_in_def by force
  then show ?thesis using S(1) same by simp
qed

end
