(* ===== verification/Ir_Lower.thy ===== *)
theory Ir_Lower
  imports Ir_Dead Abi Usedef
begin

text \<open>
  The passes between the way out of SSA form and register allocation (\<open>backend/ir/lowering\<close>): address
  arithmetic for element borrows (\<open>addr.hpp\<close>), the two library functions (\<open>stdlib.hpp\<close>), temporaries for
  accesses to globals and for stored constants (\<open>proxy.hpp\<close>), array initialisers (\<open>array.hpp\<close>), and memory
  for variables without a register (\<open>reg2mem.hpp\<close>).

  A loop over the instructions of a block that inserts before the current one is a recursion that
  returns the new instructions; an erased instruction is one that is not returned. \<open>fresh_alloc\<close>
  gives the address of a new allocation.
\<close>

section \<open>Loops over the blocks\<close>

text \<open>A pass on the instructions of a block also has a state: the function with its temporaries, and more.\<close>

definition in_block ::
  "(block_id \<Rightarrow> inst list \<Rightarrow> ir_func \<Rightarrow> (inst list \<times> bool \<times> ir_func) result) \<Rightarrow> block_id \<Rightarrow> bool \<times> ir_func \<Rightarrow> (bool \<times> ir_func) result" where
  "in_block f b st =
     (case st of (c, fn) \<Rightarrow>
        rbind (f b (bk_insts (fn_blk fn b)) fn) (\<lambda>(is, c', fn').
          Inr (c \<or> c', update_block b (\<lambda>k. k\<lparr>bk_insts := is\<rparr>) fn')))"

section \<open>Address arithmetic\<close>

definition elem_type :: "ty \<Rightarrow> ty result" where
  "elem_type t =
     (case t of Reference e r s \<Rightarrow> Inr e | Array e n \<Rightarrow> Inr e | _ \<Rightarrow> Inl (Compiler_error ''Expected array or reference type''))"

definition lower_borrow :: "block_id \<Rightarrow> left_value option \<Rightarrow> val \<Rightarrow> val \<Rightarrow> ir_func \<Rightarrow> (inst list \<times> ir_func) result" where
  "lower_borrow b r base offset fn =
     (case r of
        None \<Rightarrow> Inl (Undefined ''no result'')
      | Some result \<Rightarrow>
          (case newTemp (Prim Int32) b fn of (offset_bytes, fn1) \<Rightarrow>
           rbind (elem_type (type_of base)) (\<lambda>e.
           case newTemp (Prim Int64) b fn1 of (base_int, fn2) \<Rightarrow>
           case newTemp (Prim Int64) b fn2 of (result_int, fn3) \<Rightarrow>
           rbind (abi_size e) (\<lambda>n.
           Inr ([Binary Op_MUL (Some offset_bytes) offset (Const (mk_const (V_int (word_of_nat n)))),
                 Unary Op_CONVERT (Some base_int) base,
                 Binary Op_ADD (Some result_int) (val.Left base_int) (val.Left offset_bytes),
                 Unary Op_CONVERT (Some result) (val.Left result_int)], fn3)))))"

fun lower_addresses :: "block_id \<Rightarrow> inst list \<Rightarrow> ir_func \<Rightarrow> (inst list \<times> bool \<times> ir_func) result" where
  "lower_addresses b [] fn = Inr ([], False, fn)"
| "lower_addresses b (i # is) fn =
     (case i of
        Binary op r base offset \<Rightarrow>
          if op = Op_BORROW_ELEM \<or> op = Op_BORROW_ELEM_MUT then
            rbind (lower_borrow b r base offset fn) (\<lambda>(js, fn1).
            rbind (lower_addresses b is fn1) (\<lambda>(ks, c, fn2). Inr (js @ ks, True, fn2)))
          else rbind (lower_addresses b is fn) (\<lambda>(ks, c, fn2). Inr (i # ks, c, fn2))
      | _ \<Rightarrow> rbind (lower_addresses b is fn) (\<lambda>(ks, c, fn2). Inr (i # ks, c, fn2)))"

definition address_func :: "ir_func \<Rightarrow> (bool \<times> ir_func) result" where
  "address_func fn = rfold (in_block lower_addresses) (fn_blocks fn) (False, fn)"

fun each_func :: "(ir_func \<Rightarrow> (bool \<times> ir_func) result) \<Rightarrow> ir_func list \<Rightarrow> (bool \<times> ir_func list) result" where
  "each_func f [] = Inr (False, [])"
| "each_func f (fn # fns) =
     rbind (f fn) (\<lambda>(c, fn'). rbind (each_func f fns) (\<lambda>(cs, fns'). Inr (c \<or> cs, fn' # fns')))"

definition AddressLowering :: "ir_program \<Rightarrow> (bool \<times> ir_program) result" where
  "AddressLowering p = rbind (each_func address_func (pr_funcs p)) (\<lambda>(c, fns). Inr (c, p\<lparr>pr_funcs := fns\<rparr>))"

section \<open>The library functions\<close>

definition stdlibs :: "(string \<times> ty) list" where
  "stdlibs =
     [(''memcpy'', Func (Product [Prim Int64, Prim Int64, Prim Int64]) unit_ty),
      (''memset'', Func (Product [Prim Int64, Prim Int64, Prim Int64]) unit_ty)]"

definition addBuiltinFunc :: "string \<times> ty \<Rightarrow> ir_program \<Rightarrow> ir_program" where
  "addBuiltinFunc f p = p\<lparr>pr_builtins := pr_builtins p @ [f]\<rparr>"

definition AddStandardLib :: "ir_program \<Rightarrow> bool \<times> ir_program" where
  "AddStandardLib p = (True, fold addBuiltinFunc stdlibs p)"

text \<open>\<open>findBuiltin\<close> and \<open>value\<close>: the type and the place in the list.\<close>

definition findBuiltin :: "string \<Rightarrow> ir_program \<Rightarrow> (ty \<times> name_def) result" where
  "findBuiltin name p =
     (case List.find (\<lambda>k. fst (pr_builtins p ! k) = name) [0..<length (pr_builtins p)] of
        None \<Rightarrow> Inl (Compiler_error ''builtin-function not found'')
      | Some k \<Rightarrow> Inr (snd (pr_builtins p ! k), Def_builtin k))"

definition addGlobal :: "alloc_id \<Rightarrow> alloc \<Rightarrow> ir_program \<Rightarrow> ir_program" where
  "addGlobal a al p = p\<lparr>pr_alloc := (pr_alloc p)(a := al), pr_globals := pr_globals p @ [a]\<rparr>"

section \<open>Array initialisers\<close>

text \<open>The counter of the names starts again with every block.\<close>

definition init_name :: "ir_func \<Rightarrow> nat \<Rightarrow> string" where
  "init_name fn cnt = ''__init_'' @ fn_name fn @ ''_'' @ nat_to_string cnt"

definition int64_const :: "nat \<Rightarrow> val" where
  "int64_const n = Const (mk_const (V_int64 (word_of_nat n)))"

definition lower_array_store ::
  "(ir_program \<Rightarrow> alloc_id) \<Rightarrow> ir_func \<Rightarrow> val \<Rightarrow> val \<Rightarrow> nat \<times> ir_program \<Rightarrow> (inst list \<times> nat \<times> ir_program) result" where
  "lower_array_store fresh_alloc fn place init st =
     (case st of (cnt, p) \<Rightarrow>
      rbind (abi_size (type_of init)) (\<lambda>size.
      case init of
        val.Left l \<Rightarrow> Inl Bad_variant
      | Const c \<Rightarrow>
          rbind (findBuiltin ''memset'' p) (\<lambda>(t, memset).
          let clear = CallI None t memset [place, int64_const 0, int64_const size] in
          rbind (zeros_like (ctype c)) (\<lambda>z.
          rbind (constexpr_eq c z) (\<lambda>zero.
          if zero then Inr ([clear], cnt, p)
          else
            rbind (prune c) (\<lambda>pruned.
            rbind (abi_size (ctype pruned)) (\<lambda>prune_size.
            rbind (alloc_constant (init_name fn cnt) (ctype pruned) pruned True) (\<lambda>al.
            rbind (findBuiltin ''memcpy'' p) (\<lambda>(t', memcpy).
            let a = fresh_alloc p; p' = addGlobal a al p;
                copy = CallI None t' memcpy [place, val.Left (alloc_value (pr_alloc p') a), int64_const prune_size]
            in Inr ((if prune_size \<noteq> size then [clear, copy] else [copy]), Suc cnt, p'))))))))))"

fun lower_inits ::
  "(ir_program \<Rightarrow> alloc_id) \<Rightarrow> ir_func \<Rightarrow> inst list \<Rightarrow> nat \<times> ir_program \<Rightarrow> (inst list \<times> bool \<times> ir_program) result" where
  "lower_inits fresh_alloc fn [] st = Inr ([], False, snd st)"
| "lower_inits fresh_alloc fn (i # is) st =
     (case i of
        Binary op r place init \<Rightarrow>
          if op = Op_STORE \<and> is_array (type_of init) then
            rbind (lower_array_store fresh_alloc fn place init st) (\<lambda>(js, st1).
            rbind (lower_inits fresh_alloc fn is st1) (\<lambda>(ks, c, p). Inr (js @ ks, True, p)))
          else rbind (lower_inits fresh_alloc fn is st) (\<lambda>(ks, c, p). Inr (i # ks, c, p))
      | _ \<Rightarrow> rbind (lower_inits fresh_alloc fn is st) (\<lambda>(ks, c, p). Inr (i # ks, c, p)))"

definition array_block :: "(ir_program \<Rightarrow> alloc_id) \<Rightarrow> nat \<Rightarrow> block_id \<Rightarrow> bool \<times> ir_program \<Rightarrow> (bool \<times> ir_program) result" where
  "array_block fresh_alloc k b st =
     (case st of (c, p) \<Rightarrow>
        (let fn = pr_funcs p ! k in
         rbind (lower_inits fresh_alloc fn (bk_insts (fn_blk fn b)) (0, p)) (\<lambda>(is, c', p').
           Inr (c \<or> c', p'\<lparr>pr_funcs := (pr_funcs p')[k := update_block b (\<lambda>x. x\<lparr>bk_insts := is\<rparr>) fn]\<rparr>))))"

definition array_func :: "(ir_program \<Rightarrow> alloc_id) \<Rightarrow> nat \<Rightarrow> bool \<times> ir_program \<Rightarrow> (bool \<times> ir_program) result" where
  "array_func fresh_alloc k st = rfold (array_block fresh_alloc k) (fn_blocks (pr_funcs (snd st) ! k)) st"

definition ArrayInitLowering :: "(ir_program \<Rightarrow> alloc_id) \<Rightarrow> ir_program \<Rightarrow> (bool \<times> ir_program) result" where
  "ArrayInitLowering fresh_alloc p = rfold (array_func fresh_alloc) [0..<length (pr_funcs p)] (False, p)"

section \<open>Temporaries for globals and stored constants\<close>

text \<open>The temporaries of a block for a global, one for each type it is used with.\<close>

type_synonym proxies_of = "alloc_id \<Rightarrow> (ty \<times> left_value) list"

fun global_of :: "alloc_id list \<Rightarrow> val \<Rightarrow> (ty \<times> alloc_id) option" where
  "global_of gs (val.Left (NamedValue t (Def_alloc a))) = (if a \<in> set gs then Some (t, a) else None)"
| "global_of gs v = None"

definition proxy_val ::
  "alloc_id list \<Rightarrow> block_id \<Rightarrow> val \<Rightarrow> proxies_of \<times> ir_func \<Rightarrow> val \<times> inst list \<times> proxies_of \<times> ir_func" where
  "proxy_val gs b v st =
     (case global_of gs v of
        None \<Rightarrow> (v, [], st)
      | Some (t, a) \<Rightarrow>
          (case st of (P, fn) \<Rightarrow>
             (case List.find (\<lambda>(u, l). eq_ty u t) (P a) of
                Some (u, l) \<Rightarrow> (val.Left l, [], st)
              | None \<Rightarrow>
                  (case newTemp t b fn of (l, fn') \<Rightarrow>
                     (val.Left l, [Unary Op_MOV (Some l) v], P(a := P a @ [(t, l)]), fn')))))"

fun proxy_vals ::
  "alloc_id list \<Rightarrow> block_id \<Rightarrow> val list \<Rightarrow> proxies_of \<times> ir_func \<Rightarrow> val list \<times> inst list \<times> proxies_of \<times> ir_func" where
  "proxy_vals gs b [] st = ([], [], st)"
| "proxy_vals gs b (v # vs) st =
     (case proxy_val gs b v st of (w, js, st1) \<Rightarrow>
      case proxy_vals gs b vs st1 of (ws, ks, st2) \<Rightarrow> (w # ws, js @ ks, st2))"

fun is_plain_move :: "inst \<Rightarrow> bool" where
  "is_plain_move (Unary op r v) \<longleftrightarrow> op = Op_MOV \<or> op = Op_CONVERT"
| "is_plain_move i \<longleftrightarrow> False"

fun proxy_insts ::
  "alloc_id list \<Rightarrow> block_id \<Rightarrow> inst list \<Rightarrow> proxies_of \<times> ir_func \<Rightarrow> inst list \<times> bool \<times> ir_func" where
  "proxy_insts gs b [] st = ([], False, snd st)"
| "proxy_insts gs b (i # is) st =
     (if is_plain_move i then (case proxy_insts gs b is st of (ks, c, fn) \<Rightarrow> (i # ks, c, fn))
      else
        (case proxy_vals gs b (used i) st of (vs, js, st1) \<Rightarrow>
         case proxy_insts gs b is st1 of (ks, c, fn) \<Rightarrow>
           (js @ with_operands vs i # ks, c \<or> list_ex (\<lambda>v. global_of gs v \<noteq> None) (used i), fn)))"

definition convert_global :: "alloc_id list \<Rightarrow> block_id \<Rightarrow> inst list \<Rightarrow> ir_func \<Rightarrow> (inst list \<times> bool \<times> ir_func) result" where
  "convert_global gs b is fn = Inr (proxy_insts gs b is (\<lambda>a. [], fn))"

fun proxy_consts :: "block_id \<Rightarrow> inst list \<Rightarrow> ir_func \<Rightarrow> inst list \<times> bool \<times> ir_func" where
  "proxy_consts b [] fn = ([], False, fn)"
| "proxy_consts b (i # is) fn =
     (case i of
        Binary op r x (Const c) \<Rightarrow>
          if op = Op_STORE \<and> is_primitive (ctype c) then
            (case newTemp (ctype c) b fn of (l, fn1) \<Rightarrow>
             case proxy_consts b is fn1 of (ks, ch, fn2) \<Rightarrow>
               (Unary Op_MOV (Some l) (Const c) # Binary op r x (val.Left l) # ks, True, fn2))
          else (case proxy_consts b is fn of (ks, ch, fn2) \<Rightarrow> (i # ks, ch, fn2))
      | _ \<Rightarrow> (case proxy_consts b is fn of (ks, ch, fn2) \<Rightarrow> (i # ks, ch, fn2)))"

definition convert_constexpr :: "block_id \<Rightarrow> inst list \<Rightarrow> ir_func \<Rightarrow> (inst list \<times> bool \<times> ir_func) result" where
  "convert_constexpr b is fn = Inr (proxy_consts b is fn)"

definition proxy_func :: "alloc_id list \<Rightarrow> ir_func \<Rightarrow> (bool \<times> ir_func) result" where
  "proxy_func gs fn =
     rfold (\<lambda>b st. rbind (in_block (convert_global gs) b st) (in_block convert_constexpr b)) (fn_blocks fn) (False, fn)"

definition AccessProxyLowering :: "ir_program \<Rightarrow> (bool \<times> ir_program) result" where
  "AccessProxyLowering p =
     rbind (each_func (proxy_func (pr_globals p)) (pr_funcs p)) (\<lambda>(c, fns). Inr (c, p\<lparr>pr_funcs := fns\<rparr>))"

section \<open>Variables in memory\<close>

text \<open>The temporaries of the loads before an instruction, by variable.\<close>

type_synonym load_cache = "(lv_key \<times> left_value) list"

definition referenced_type :: "left_value \<Rightarrow> ty result" where
  "referenced_type l = (case type_of_lv l of Reference e r s \<Rightarrow> Inr e | _ \<Rightarrow> Inl (Compiler_error ''Type is not Reference''))"

definition load_val ::
  "lv_key set \<Rightarrow> block_id \<Rightarrow> val \<Rightarrow> load_cache \<times> ir_func \<Rightarrow> (val \<times> inst list \<times> load_cache \<times> ir_func) result" where
  "load_val S b v st =
     (case v of
        Const c \<Rightarrow> Inr (v, [], st)
      | val.Left l \<Rightarrow>
          if key_of l \<notin> S then Inr (v, [], st)
          else
            (case st of (L, fn) \<Rightarrow>
               (case map_of L (key_of l) of
                  Some t \<Rightarrow> Inr (val.Left t, [], st)
                | None \<Rightarrow>
                    rbind (referenced_type l) (\<lambda>e.
                    case newTemp e b fn of (t, fn') \<Rightarrow>
                      Inr (val.Left t, [Unary Op_LOAD (Some t) v], (key_of l, t) # L, fn')))))"

fun load_vals ::
  "lv_key set \<Rightarrow> block_id \<Rightarrow> val list \<Rightarrow> load_cache \<times> ir_func \<Rightarrow> (val list \<times> inst list \<times> load_cache \<times> ir_func) result" where
  "load_vals S b [] st = Inr ([], [], st)"
| "load_vals S b (v # vs) st =
     rbind (load_val S b v st) (\<lambda>(w, js, st1).
     rbind (load_vals S b vs st1) (\<lambda>(ws, ks, st2). Inr (w # ws, js @ ks, st2)))"

definition replace_inst :: "lv_key set \<Rightarrow> block_id \<Rightarrow> inst \<Rightarrow> ir_func \<Rightarrow> (inst list \<times> ir_func) result" where
  "replace_inst S b i fn =
     rbind (load_vals S b (used i) ([], fn)) (\<lambda>(vs, js, L, fn1).
       let i' = with_operands vs i in
       case defined_var i of
         Some d \<Rightarrow>
           if key_of d \<in> S then
             rbind (referenced_type d) (\<lambda>e.
             case newTemp e b fn1 of (t, fn2) \<Rightarrow>
               Inr (js @ [set_result t i', Binary Op_STORE None (val.Left d) (val.Left t)], fn2))
           else Inr (js @ [i'], fn1)
       | None \<Rightarrow> Inr (js @ [i'], fn1))"

fun replace_insts :: "lv_key set \<Rightarrow> block_id \<Rightarrow> inst list \<Rightarrow> ir_func \<Rightarrow> (inst list \<times> ir_func) result" where
  "replace_insts S b [] fn = Inr ([], fn)"
| "replace_insts S b (i # is) fn =
     rbind (replace_inst S b i fn) (\<lambda>(js, fn1).
     rbind (replace_insts S b is fn1) (\<lambda>(ks, fn2). Inr (js @ ks, fn2)))"

text \<open>The value an exit uses is loaded at the end of the block.\<close>

definition replace_exit :: "lv_key set \<Rightarrow> block_id \<Rightarrow> ir_exit \<Rightarrow> ir_func \<Rightarrow> (inst list \<times> ir_exit \<times> ir_func) result" where
  "replace_exit S b e fn =
     (case used_exit e of
        None \<Rightarrow> Inr ([], e, fn)
      | Some v \<Rightarrow> rbind (load_val S b v ([], fn)) (\<lambda>(w, js, L, fn1). Inr (js, exit_with [w] e, fn1)))"

definition replace_block :: "lv_key set \<Rightarrow> block_id \<Rightarrow> ir_func \<Rightarrow> ir_func result" where
  "replace_block S b fn =
     (let k = fn_blk fn b in
      rbind (replace_insts S b (bk_insts k) fn) (\<lambda>(is, fn1).
      case bk_exit k of
        None \<Rightarrow> Inr (update_block b (\<lambda>k. k\<lparr>bk_insts := is\<rparr>) fn1)
      | Some e \<Rightarrow>
          rbind (replace_exit S b e fn1) (\<lambda>(js, e', fn2).
            Inr (update_block b (\<lambda>k. k\<lparr>bk_insts := is @ js, bk_exit := Some e'\<rparr>) fn2))))"

definition replace_instruments :: "lv_key set \<Rightarrow> ir_func \<Rightarrow> ir_func result" where
  "replace_instruments S fn = rfold (replace_block S) (fn_blocks fn) fn"

text \<open>The replacements of \<open>ud\<close> change the type of every occurrence, the key stays.\<close>

definition make_reference :: "alloc_id \<Rightarrow> ir_program \<Rightarrow> ir_program" where
  "make_reference a p =
     (let p' = p\<lparr>pr_alloc := (pr_alloc p)(a := (pr_alloc p a)\<lparr>al_reference := True\<rparr>)\<rparr>;
          l = alloc_value (pr_alloc p') a
      in subst_prog (key_of l) (val.Left l) (replace_defs_prog (key_of l) l p'))"

fun rmap :: "('a \<Rightarrow> 'b result) \<Rightarrow> 'a list \<Rightarrow> 'b list result" where
  "rmap f [] = Inr []"
| "rmap f (x # xs) = rbind (f x) (\<lambda>y. rbind (rmap f xs) (\<lambda>ys. Inr (y # ys)))"

definition spill_allocs :: "alloc_id list \<Rightarrow> ir_program \<Rightarrow> ir_program result" where
  "spill_allocs as p =
     (let p' = fold make_reference as p; S = set (map (\<lambda>a. K_named (Def_alloc a)) as) in
      rbind (rmap (replace_instruments S) (pr_funcs p')) (\<lambda>fns. Inr (p'\<lparr>pr_funcs := fns\<rparr>)))"

text \<open>The set of variables that get memory: globals, and parameters without a register.\<close>

definition stack_params :: "alloc_store \<Rightarrow> target_abi \<Rightarrow> ir_func \<Rightarrow> alloc_id list result" where
  "stack_params A abi fn =
     rbind (assign_param_regs A (fn_params fn) abi) (\<lambda>regs.
       if length regs < length (fn_params fn) then Inl (Undefined ''vector index'')
       else Inr [a. (a, r) \<leftarrow> zip (fn_params fn) regs, r = None])"

definition RegToMem :: "target_abi \<Rightarrow> ir_program \<Rightarrow> (bool \<times> ir_program) result" where
  "RegToMem abi p =
     rbind (rmap (stack_params (pr_alloc p) abi) (pr_funcs p)) (\<lambda>pss.
       let as = remdups ([a \<leftarrow> pr_globals p. \<not> al_reference (pr_alloc p a)] @ concat pss) in
       if as = [] then Inr (False, p) else rbind (spill_allocs as p) (\<lambda>p'. Inr (True, p')))"

end
