(* ===== verification/Ssa_Construct.thy ===== *)
theory Ssa_Construct
  imports Dominance Liveness
begin

text \<open>
  Construction of SSA form (\<open>transform/ssa/construct.hpp\<close>): \<open>AddPhi\<close> places phi instructions on the
  dominance frontiers, where the variable is live, and \<open>Rename\<close> gives every definition a version of
  its own in a walk over the dominator tree. The orders in which sets of blocks and of allocations are
  traversed are the arguments \<open>arrange\<close> and \<open>order\<close>.
\<close>

section \<open>Placing phi instructions\<close>

definition def_blocks :: "ir_func \<Rightarrow> left_value \<Rightarrow> block_id set" where
  "def_blocks fn v =
     {b \<in> set (fn_blocks fn). \<exists>i\<in>set (bk_insts (fn_blk fn b)). \<exists>d. defined_var i = Some d \<and> lv_eq d v}"

definition live_in_block :: "live_result \<Rightarrow> left_value \<Rightarrow> block_id \<Rightarrow> bool" where
  "live_in_block R v b = (case lr_in R b of None \<Rightarrow> False | Some s \<Rightarrow> dset_contains s (key_of v))"

record phi_state =
  ph_fn :: ir_func
  ph_work :: "block_id list"
  ph_listed :: "block_id set"
  ph_visited :: "block_id set"
  ph_has :: "block_id set"

definition new_phi :: "(block_id \<Rightarrow> block_id list) \<Rightarrow> left_value \<Rightarrow> block_id \<Rightarrow> inst" where
  "new_phi pred v b = Phi (Some v) (map (\<lambda>p. (p, val.Left v)) (pred b))"

definition phi_frontier :: "(block_id \<Rightarrow> block_id list) \<Rightarrow> live_result \<Rightarrow> left_value \<Rightarrow> block_id \<Rightarrow> phi_state \<Rightarrow> phi_state" where
  "phi_frontier pred R v f st =
     (if \<not> live_in_block R v f then st
      else
        let st1 = (if f \<in> ph_has st then st
                   else st\<lparr>ph_fn := update_block f (block_prepend (new_phi pred v f)) (ph_fn st),
                           ph_has := insert f (ph_has st)\<rparr>)
        in if f \<in> ph_listed st1 then st1
           else st1\<lparr>ph_work := ph_work st1 @ [f], ph_listed := insert f (ph_listed st1)\<rparr>)"

definition phi_visit ::
  "(block_id set \<Rightarrow> block_id list) \<Rightarrow> frontier_map \<Rightarrow> (block_id \<Rightarrow> block_id list) \<Rightarrow> live_result \<Rightarrow> left_value \<Rightarrow>
     block_id \<Rightarrow> phi_state \<Rightarrow> phi_state result" where
  "phi_visit arrange F pred R v b st =
     (if b \<in> ph_visited st then Inr st
      else case F b of
        None \<Rightarrow> Inl (Compiler_error ''Block not found in dominance frontier'')
      | Some d \<Rightarrow>
          rbind (dset_elems d) (\<lambda>s.
            Inr (fold (phi_frontier pred R v) (arrange s) (st\<lparr>ph_visited := insert b (ph_visited st)\<rparr>))))"

partial_function (option) phi_loop ::
  "(block_id set \<Rightarrow> block_id list) \<Rightarrow> frontier_map \<Rightarrow> (block_id \<Rightarrow> block_id list) \<Rightarrow> live_result \<Rightarrow> left_value \<Rightarrow>
     phi_state \<Rightarrow> phi_state result option" where
  "phi_loop arrange F pred R v st =
     (case ph_work st of
        [] \<Rightarrow> Some (Inr st)
      | b # bs \<Rightarrow>
          (case phi_visit arrange F pred R v b (st\<lparr>ph_work := bs\<rparr>) of
             Inl e \<Rightarrow> Some (Inl e)
           | Inr st' \<Rightarrow> phi_loop arrange F pred R v st'))"

definition phi_start :: "(block_id set \<Rightarrow> block_id list) \<Rightarrow> left_value \<Rightarrow> ir_func \<Rightarrow> phi_state" where
  "phi_start arrange v fn =
     \<lparr>ph_fn = fn, ph_work = arrange (def_blocks fn v), ph_listed = def_blocks fn v, ph_visited = {}, ph_has = {}\<rparr>"

text \<open>\<open>pred\<close>, \<open>F\<close> and \<open>R\<close> were computed before the first phi was placed.\<close>

fun add_phi_allocs ::
  "(block_id set \<Rightarrow> block_id list) \<Rightarrow> frontier_map \<Rightarrow> (block_id \<Rightarrow> block_id list) \<Rightarrow> live_result \<Rightarrow> alloc_store \<Rightarrow>
     alloc_id list \<Rightarrow> bool \<times> ir_func \<Rightarrow> (bool \<times> ir_func) result option" where
  "add_phi_allocs arrange F pred R A [] st = Some (Inr st)"
| "add_phi_allocs arrange F pred R A (a # as) (changed, fn) =
     (if al_immutable (A a) then add_phi_allocs arrange F pred R A as (changed, fn)
      else obind (phi_loop arrange F pred R (alloc_value A a) (phi_start arrange (alloc_value A a) fn))
             (\<lambda>st. add_phi_allocs arrange F pred R A as (True, ph_fn st)))"

definition add_phi_func ::
  "(block_id set \<Rightarrow> block_id list) \<Rightarrow> (alloc_id set \<Rightarrow> alloc_id list) \<Rightarrow> alloc_store \<Rightarrow> ir_func \<Rightarrow>
     (bool \<times> ir_func) result option" where
  "add_phi_func arrange order A fn =
     obind (frontiers arrange fn) (\<lambda>F. obind (liveness fn) (\<lambda>R.
       add_phi_allocs arrange F (cfg_pred fn) R A (order (set (fn_locals fn @ fn_params fn))) (False, fn)))"

fun add_phi_funcs ::
  "(block_id set \<Rightarrow> block_id list) \<Rightarrow> (alloc_id set \<Rightarrow> alloc_id list) \<Rightarrow> alloc_store \<Rightarrow> ir_func list \<Rightarrow>
     (bool \<times> ir_func list) result option" where
  "add_phi_funcs arrange order A [] = Some (Inr (False, []))"
| "add_phi_funcs arrange order A (fn # fns) =
     obind (add_phi_func arrange order A fn) (\<lambda>(c, fn').
     obind (add_phi_funcs arrange order A fns) (\<lambda>(cs, fns'). Some (Inr (c \<or> cs, fn' # fns'))))"

definition AddPhi ::
  "(block_id set \<Rightarrow> block_id list) \<Rightarrow> (alloc_id set \<Rightarrow> alloc_id list) \<Rightarrow> ir_program \<Rightarrow> (bool \<times> ir_program) result option" where
  "AddPhi arrange order p =
     obind (add_phi_funcs arrange order (pr_alloc p) (pr_funcs p)) (\<lambda>(c, fns). Some (Inr (c, p\<lparr>pr_funcs := fns\<rparr>)))"

section \<open>Renaming\<close>

type_synonym ssa_stack = "alloc_id \<Rightarrow> left_value list"

record rename_state =
  rn_fn :: ir_func
  rn_version :: "alloc_id \<Rightarrow> nat"
  rn_stack :: ssa_stack

fun map_val :: "(left_value \<Rightarrow> left_value) \<Rightarrow> val \<Rightarrow> val" where
  "map_val f (val.Left l) = val.Left (f l)"
| "map_val f (Const c) = Const c"

fun map_used :: "(left_value \<Rightarrow> left_value) \<Rightarrow> inst \<Rightarrow> inst" where
  "map_used f (Phi r args) = Phi r args"
| "map_used f (Unary op r x) = Unary op r (map_val f x)"
| "map_used f (Binary op r x y) = Binary op r (map_val f x) (map_val f y)"
| "map_used f (CallI r t g args) = CallI r t g (map (map_val f) args)"

fun map_exit :: "(left_value \<Rightarrow> left_value) \<Rightarrow> ir_exit \<Rightarrow> ir_exit" where
  "map_exit f (JumpExit t) = JumpExit t"
| "map_exit f (BranchExit c t e) = BranchExit (map_val f c) t e"
| "map_exit f (ReturnExit v) = ReturnExit (map_val f v)"

fun set_def :: "left_value \<Rightarrow> inst \<Rightarrow> inst" where
  "set_def d (Phi r args) = Phi (Some d) args"
| "set_def d (Unary op r x) = Unary op (Some d) x"
| "set_def d (Binary op r x y) = Binary op (Some d) x y"
| "set_def d (CallI r t g args) = CallI (Some d) t g args"

fun named_alloc :: "left_value \<Rightarrow> alloc_id option" where
  "named_alloc (NamedValue t (Def_alloc a)) = Some a"
| "named_alloc l = None"

definition rename_var :: "alloc_id set \<Rightarrow> ssa_stack \<Rightarrow> left_value \<Rightarrow> left_value" where
  "rename_var need stk l =
     (case named_alloc l of
        None \<Rightarrow> l
      | Some a \<Rightarrow> if a \<in> need then (case stk a of [] \<Rightarrow> l | s # ss \<Rightarrow> s) else l)"

text \<open>The versions, the stacks and how often each stack has been pushed in this block.\<close>

type_synonym rename_env = "(alloc_id \<Rightarrow> nat) \<times> ssa_stack \<times> (alloc_id \<Rightarrow> nat)"

definition rename_inst :: "alloc_id set \<Rightarrow> inst \<Rightarrow> rename_env \<Rightarrow> inst \<times> rename_env" where
  "rename_inst need i E =
     (case E of (ver, stk, cnt) \<Rightarrow>
      let i1 = map_used (rename_var need stk) i in
      case Option.bind (defined_var i) named_alloc of
        None \<Rightarrow> (i1, E)
      | Some a \<Rightarrow>
          if a \<in> need then
            let s = SSAValue (type_of_lv (the (defined_var i))) a (ver a) in
            (set_def s i1, (ver(a := Suc (ver a)), stk(a := s # stk a), cnt(a := Suc (cnt a))))
          else (i1, E))"

fun rename_insts :: "alloc_id set \<Rightarrow> inst list \<Rightarrow> rename_env \<Rightarrow> inst list \<times> rename_env" where
  "rename_insts need [] E = ([], E)"
| "rename_insts need (i # is) E =
     (case rename_inst need i E of (i', E1) \<Rightarrow>
      case rename_insts need is E1 of (is', E2) \<Rightarrow> (i' # is', E2))"

text \<open>The phi instructions at the head of a successor.\<close>

definition rename_args :: "block_id \<Rightarrow> (left_value \<Rightarrow> left_value) \<Rightarrow> (block_id \<times> val) list \<Rightarrow> (block_id \<times> val) list" where
  "rename_args b f args = map (\<lambda>(p, v). (p, if p = b then map_val f v else v)) args"

fun rename_phis :: "block_id \<Rightarrow> (left_value \<Rightarrow> left_value) \<Rightarrow> inst list \<Rightarrow> inst list" where
  "rename_phis b f (Phi r args # is) = Phi r (rename_args b f args) # rename_phis b f is"
| "rename_phis b f is = is"

definition rename_succ :: "block_id \<Rightarrow> (left_value \<Rightarrow> left_value) \<Rightarrow> block_id \<Rightarrow> ir_func \<Rightarrow> ir_func" where
  "rename_succ b f s fn = update_block s (\<lambda>k. k\<lparr>bk_insts := rename_phis b f (bk_insts k)\<rparr>) fn"

definition rename_body ::
  "(block_id \<Rightarrow> block_id list) \<Rightarrow> alloc_id set \<Rightarrow> block_id \<Rightarrow> rename_state \<Rightarrow> rename_state \<times> (alloc_id \<Rightarrow> nat)" where
  "rename_body succ need b st =
     (let k = fn_blk (rn_fn st) b in
      case rename_insts need (bk_insts k) (rn_version st, rn_stack st, \<lambda>a. 0) of (is, ver, stk, cnt) \<Rightarrow>
      let f = rename_var need stk;
          fn1 = update_block b (\<lambda>k. k\<lparr>bk_insts := is, bk_exit := map_option (map_exit f) (bk_exit k)\<rparr>) (rn_fn st)
      in (\<lparr>rn_fn = fold (rename_succ b f) (succ b) fn1, rn_version = ver, rn_stack = stk\<rparr>, cnt))"

text \<open>The fuel bounds the depth of the recursion; the number of blocks is enough, see \<open>Ssa_Rename\<close>.\<close>

fun rename_block ::
  "(block_id \<Rightarrow> block_id list) \<Rightarrow> (block_id \<Rightarrow> block_id list) \<Rightarrow> alloc_id set \<Rightarrow> nat \<Rightarrow> block_id \<Rightarrow>
     rename_state \<Rightarrow> rename_state option"
  and rename_list ::
  "(block_id \<Rightarrow> block_id list) \<Rightarrow> (block_id \<Rightarrow> block_id list) \<Rightarrow> alloc_id set \<Rightarrow> nat \<Rightarrow> block_id list \<Rightarrow>
     rename_state \<Rightarrow> rename_state option" where
  "rename_block succ children need 0 b st = None"
| "rename_block succ children need (Suc n) b st =
     (case rename_body succ need b st of (st1, cnt) \<Rightarrow>
      case rename_list succ children need n (children b) st1 of
        None \<Rightarrow> None
      | Some st2 \<Rightarrow> Some (st2\<lparr>rn_stack := (\<lambda>a. drop (cnt a) (rn_stack st2 a))\<rparr>))"
| "rename_list succ children need n [] st = Some st"
| "rename_list succ children need n (c # cs) st =
     (case rename_block succ children need n c st of
        None \<Rightarrow> None
      | Some st' \<Rightarrow> rename_list succ children need n cs st')"

definition func_allocs_set :: "ir_func \<Rightarrow> alloc_id set" where
  "func_allocs_set fn = set (fn_locals fn @ fn_params fn)"

definition needs_rename :: "alloc_store \<Rightarrow> ir_func \<Rightarrow> alloc_id set" where
  "needs_rename A fn = {a \<in> func_allocs_set fn. \<not> al_immutable (A a)}"

definition start_rename :: "ir_func \<Rightarrow> rename_state" where
  "start_rename fn = \<lparr>rn_fn = fn, rn_version = (\<lambda>a. 0), rn_stack = (\<lambda>a. [])\<rparr>"

definition rename_func ::
  "(block_id set \<Rightarrow> block_id list) \<Rightarrow> alloc_store \<Rightarrow> ir_func \<Rightarrow> (bool \<times> ir_func \<times> alloc_store) result option" where
  "rename_func arrange A fn =
     obind (dominators arrange fn) (\<lambda>m.
       if needs_rename A fn = {} then Some (Inr (False, fn, A))
       else case entrance fn of
         Inl e \<Rightarrow> Some (Inl e)
       | Inr b \<Rightarrow>
           (case rename_block (cfg_succ fn) (dom_children arrange m) (needs_rename A fn)
                   (Suc (length (fn_blocks fn))) b (start_rename fn) of
              None \<Rightarrow> Some (Inl (Undefined ''recursion deeper than the number of blocks''))
            | Some st \<Rightarrow>
                Some (Inr (True, rn_fn st,
                  \<lambda>a. if a \<in> func_allocs_set fn then (A a)\<lparr>al_immutable := True\<rparr> else A a))))"

fun rename_funcs ::
  "(block_id set \<Rightarrow> block_id list) \<Rightarrow> alloc_store \<Rightarrow> ir_func list \<Rightarrow> (bool \<times> ir_func list \<times> alloc_store) result option" where
  "rename_funcs arrange A [] = Some (Inr (False, [], A))"
| "rename_funcs arrange A (fn # fns) =
     obind (rename_func arrange A fn) (\<lambda>(c, fn', A').
     obind (rename_funcs arrange A' fns) (\<lambda>(cs, fns', A''). Some (Inr (c \<or> cs, fn' # fns', A''))))"

definition Rename :: "(block_id set \<Rightarrow> block_id list) \<Rightarrow> ir_program \<Rightarrow> (bool \<times> ir_program) result option" where
  "Rename arrange p =
     obind (rename_funcs arrange (pr_alloc p) (pr_funcs p)) (\<lambda>(c, fns, A).
       Some (Inr (c, p\<lparr>pr_funcs := fns, pr_alloc := A, pr_is_ssa := pr_is_ssa p \<or> fns \<noteq> []\<rparr>)))"

definition ConstructSSA ::
  "(block_id set \<Rightarrow> block_id list) \<Rightarrow> (alloc_id set \<Rightarrow> alloc_id list) \<Rightarrow> ir_program \<Rightarrow> (bool \<times> ir_program) result option" where
  "ConstructSSA arrange order p =
     obind (AddPhi arrange order p) (\<lambda>(c, p1). obind (Rename arrange p1) (\<lambda>(c', p2). Some (Inr (c \<or> c', p2))))"

end
