(* ===== verification/Ssa_Phi.thy ===== *)
theory Ssa_Phi
  imports Ssa_Construct
begin

text \<open>
  \<open>AddPhi\<close> places the phi instructions of a variable exactly on its iterated dominance frontier, as far
  as the variable is live there: the work list ends, and the blocks that got a phi are the least set
  closed under the frontiers.
\<close>

section \<open>The specification\<close>

definition live_into :: "ir_func \<Rightarrow> left_value \<Rightarrow> block_id \<Rightarrow> bool" where
  "live_into fn v b \<longleftrightarrow> live_at fn b 0 (key_of v)"

inductive_set phi_blocks :: "ir_func \<Rightarrow> left_value \<Rightarrow> block_id set" for fn v where
  from_def: "b \<in> def_blocks fn v \<Longrightarrow> f \<in> frontier_of fn b \<Longrightarrow> live_into fn v f \<Longrightarrow> f \<in> phi_blocks fn v"
| from_phi: "b \<in> phi_blocks fn v \<Longrightarrow> f \<in> frontier_of fn b \<Longrightarrow> live_into fn v f \<Longrightarrow> f \<in> phi_blocks fn v"

abbreviation enumerates :: "('a set \<Rightarrow> 'a list) \<Rightarrow> bool" where
  "enumerates arrange \<equiv> \<forall>S. finite S \<longrightarrow> set (arrange S) = S \<and> distinct (arrange S)"

lemma phi_blocks_block: "f \<in> phi_blocks fn v \<Longrightarrow> f \<in> set (fn_blocks fn)"
  by (induction rule: phi_blocks.induct) (simp_all add: frontier_of_def)

lemma phi_blocks_live: "f \<in> phi_blocks fn v \<Longrightarrow> live_into fn v f"
  by (induction rule: phi_blocks.induct)

lemma def_blocks_block: "b \<in> def_blocks fn v \<Longrightarrow> b \<in> set (fn_blocks fn)"
  by (simp add: def_blocks_def)

section \<open>The work list\<close>

definition with_phi :: "(block_id \<Rightarrow> block_id list) \<Rightarrow> left_value \<Rightarrow> block_id set \<Rightarrow> ir_func \<Rightarrow> ir_func" where
  "with_phi pred v H fn =
     fn\<lparr>fn_blk := (\<lambda>c. if c \<in> H then block_prepend (new_phi pred v c) (fn_blk fn c) else fn_blk fn c)\<rparr>"

lemma with_phi_empty [simp]: "with_phi pred v {} fn = fn"
  by (simp add: with_phi_def)

lemma with_phi_insert:
  "f \<notin> H \<Longrightarrow> update_block f (block_prepend (new_phi pred v f)) (with_phi pred v H fn) = with_phi pred v (insert f H) fn"
  by (auto simp: with_phi_def update_block_def fun_eq_iff)

definition phi_inv :: "ir_func \<Rightarrow> ir_func \<Rightarrow> left_value \<Rightarrow> phi_state \<Rightarrow> bool" where
  "phi_inv fn g v st \<longleftrightarrow>
     ph_fn st = with_phi (cfg_pred fn) v (ph_has st) g \<and> ph_has st \<subseteq> phi_blocks fn v \<and>
     ph_listed st = def_blocks fn v \<union> ph_has st \<and> set (ph_work st) \<subseteq> ph_listed st \<and>
     ph_visited st \<subseteq> ph_listed st \<and> ph_listed st \<subseteq> ph_visited st \<union> set (ph_work st)"

definition phi_closed :: "ir_func \<Rightarrow> left_value \<Rightarrow> block_id set \<Rightarrow> phi_state \<Rightarrow> bool" where
  "phi_closed fn v B st \<longleftrightarrow> (\<forall>b\<in>B. \<forall>f\<in>frontier_of fn b. live_into fn v f \<longrightarrow> f \<in> ph_has st)"

definition lives_as :: "ir_func \<Rightarrow> live_result \<Rightarrow> bool" where
  "lives_as fn R \<longleftrightarrow> (\<forall>b\<in>set (fn_blocks fn). \<forall>v. live_in_block R v b \<longleftrightarrow> live_into fn v b)"

lemma phi_frontier_inv:
  assumes "lives_as fn R" "phi_inv fn g v st" "f \<in> set (fn_blocks fn)" "live_into fn v f \<Longrightarrow> f \<in> phi_blocks fn v"
  shows "phi_inv fn g v (phi_frontier (cfg_pred fn) R v f st)"
  using assms by (auto simp: lives_as_def phi_inv_def phi_frontier_def Let_def with_phi_insert)

lemma phi_frontier_grow:
  assumes "lives_as fn R" "f \<in> set (fn_blocks fn)"
  shows "ph_has st \<subseteq> ph_has (phi_frontier (cfg_pred fn) R v f st)"
    and "live_into fn v f \<Longrightarrow> f \<in> ph_has (phi_frontier (cfg_pred fn) R v f st)"
    and "ph_visited (phi_frontier (cfg_pred fn) R v f st) = ph_visited st"
  using assms by (auto simp: lives_as_def phi_frontier_def Let_def)

lemma phi_frontiers_inv:
  assumes "lives_as fn R" "phi_inv fn g v st" "set fs \<subseteq> set (fn_blocks fn)"
    and "\<And>f. f \<in> set fs \<Longrightarrow> live_into fn v f \<Longrightarrow> f \<in> phi_blocks fn v"
  shows "phi_inv fn g v (fold (phi_frontier (cfg_pred fn) R v) fs st) \<and>
    ph_has st \<subseteq> ph_has (fold (phi_frontier (cfg_pred fn) R v) fs st) \<and>
    (\<forall>f\<in>set fs. live_into fn v f \<longrightarrow> f \<in> ph_has (fold (phi_frontier (cfg_pred fn) R v) fs st)) \<and>
    ph_visited (fold (phi_frontier (cfg_pred fn) R v) fs st) = ph_visited st"
  using assms(2-)
proof (induction fs arbitrary: st)
  case (Cons f fs)
  have "phi_inv fn g v (phi_frontier (cfg_pred fn) R v f st)"
    using phi_frontier_inv [OF assms(1) Cons.prems(1)] Cons.prems(2,3) by simp
  then show ?case
    using Cons.IH [of "phi_frontier (cfg_pred fn) R v f st"] phi_frontier_grow [OF assms(1), of f, where st = st and v = v] Cons.prems(2,3)
    by auto
qed simp

definition frontiers_as :: "ir_func \<Rightarrow> frontier_map \<Rightarrow> bool" where
  "frontiers_as fn F \<longleftrightarrow> (\<forall>n\<in>set (fn_blocks fn). F n = Some (Elems (frontier_of fn n)))"

lemma phi_listed_block: "phi_inv fn g v st \<Longrightarrow> b \<in> ph_listed st \<Longrightarrow> b \<in> set (fn_blocks fn)"
  using phi_blocks_block def_blocks_block by (fastforce simp: phi_inv_def)

lemma phi_listed_phi:
  "phi_inv fn g v st \<Longrightarrow> b \<in> ph_listed st \<Longrightarrow> f \<in> frontier_of fn b \<Longrightarrow> live_into fn v f \<Longrightarrow> f \<in> phi_blocks fn v"
  by (auto simp: phi_inv_def intro: phi_blocks.intros)

lemma phi_visit_inv:
  assumes "lives_as fn R" "frontiers_as fn F" "arranges arrange"
    and inv: "phi_inv fn g v st" and work: "ph_work st = b # bs" and cl: "phi_closed fn v (ph_visited st) st"
  shows "\<exists>st'. phi_visit arrange F (cfg_pred fn) R v b (st\<lparr>ph_work := bs\<rparr>) = Inr st' \<and> phi_inv fn g v st' \<and>
    phi_closed fn v (ph_visited st') st' \<and>
    (b \<in> ph_visited st \<and> ph_visited st' = ph_visited st \<and> ph_work st' = bs \<or>
     b \<notin> ph_visited st \<and> ph_visited st' = insert b (ph_visited st))"
proof (cases "b \<in> ph_visited st")
  case True
  then show ?thesis using inv work cl by (auto simp: phi_visit_def phi_inv_def phi_closed_def)
next
  case False
  have b: "b \<in> ph_listed st" using inv work unfolding phi_inv_def by (metis list.set_intros(1) subsetD)
  let ?st = "st\<lparr>ph_work := bs, ph_visited := insert b (ph_visited st)\<rparr>"
  let ?fs = "arrange (frontier_of fn b)"
  have fs: "set ?fs = frontier_of fn b" using assms(3) by (simp add: frontier_of_def)
  have "phi_inv fn g v ?st" using inv work b by (auto simp: phi_inv_def)
  then have f: "phi_inv fn g v (fold (phi_frontier (cfg_pred fn) R v) ?fs ?st) \<and>
      ph_has st \<subseteq> ph_has (fold (phi_frontier (cfg_pred fn) R v) ?fs ?st) \<and>
      (\<forall>f\<in>frontier_of fn b. live_into fn v f \<longrightarrow> f \<in> ph_has (fold (phi_frontier (cfg_pred fn) R v) ?fs ?st)) \<and>
      ph_visited (fold (phi_frontier (cfg_pred fn) R v) ?fs ?st) = insert b (ph_visited st)"
    using phi_frontiers_inv [OF assms(1), of g v ?st ?fs] phi_listed_phi [OF inv b] fs
    by (auto simp: frontier_of_def)
  moreover have "F b = Some (Elems (frontier_of fn b))"
    using assms(2) phi_listed_block [OF inv b] by (simp add: frontiers_as_def)
  ultimately show ?thesis using False cl by (auto simp: phi_visit_def phi_closed_def)
qed

lemma phi_loop_spec:
  assumes "lives_as fn R" "frontiers_as fn F" "arranges arrange" "phi_inv fn g v st" "phi_closed fn v (ph_visited st) st"
  shows "\<exists>st'. phi_loop arrange F (cfg_pred fn) R v st = Some (Inr st') \<and>
    ph_fn st' = with_phi (cfg_pred fn) v (phi_blocks fn v) g"
  using assms(4,5)
proof (induction "(card (set (fn_blocks fn) - ph_visited st), length (ph_work st))"
    arbitrary: st rule: wf_induct_rule [OF wf_lex_prod [OF wf_less_than wf_less_than]])
  case (1 st)
  show ?case
  proof (cases "ph_work st")
    case Nil
    have "f \<in> ph_has st" if "f \<in> phi_blocks fn v" for f
      using that
    proof (induction rule: phi_blocks.induct)
      case (from_def b f)
      then show ?case using "1.prems" Nil by (auto simp: phi_inv_def phi_closed_def)
    next
      case (from_phi b f)
      then show ?case using "1.prems" Nil by (auto simp: phi_inv_def phi_closed_def)
    qed
    then have "ph_has st = phi_blocks fn v" using "1.prems"(1) by (auto simp: phi_inv_def)
    then show ?thesis using Nil "1.prems"(1) by (simp add: phi_loop.simps phi_inv_def)
  next
    case (Cons b bs)
    obtain st' where st': "phi_visit arrange F (cfg_pred fn) R v b (st\<lparr>ph_work := bs\<rparr>) = Inr st'"
        "phi_inv fn g v st'" "phi_closed fn v (ph_visited st') st'"
      and less: "b \<in> ph_visited st \<and> ph_visited st' = ph_visited st \<and> ph_work st' = bs \<or>
        b \<notin> ph_visited st \<and> ph_visited st' = insert b (ph_visited st)"
      using phi_visit_inv [OF assms(1-3) "1.prems"(1) Cons "1.prems"(2)] by blast
    have "b \<in> set (fn_blocks fn)"
      using phi_listed_block [OF "1.prems"(1)] "1.prems"(1) Cons by (auto simp: phi_inv_def)
    then have "card (set (fn_blocks fn) - insert b (ph_visited st)) < card (set (fn_blocks fn) - ph_visited st)"
      if "b \<notin> ph_visited st" using that by (intro psubset_card_mono) auto
    then have "((card (set (fn_blocks fn) - ph_visited st'), length (ph_work st')),
        (card (set (fn_blocks fn) - ph_visited st), length (ph_work st))) \<in> less_than <*lex*> less_than"
      using less Cons by auto
    then show ?thesis using "1.hyps" [OF _ st'(2,3)] Cons st'(1) by (subst phi_loop.simps) simp
  qed
qed

lemma phi_start_inv:
  assumes "arranges arrange" "def_blocks g v = def_blocks fn v"
  shows "phi_inv fn g v (phi_start arrange v g) \<and> phi_closed fn v (ph_visited (phi_start arrange v g)) (phi_start arrange v g)"
proof -
  have "finite (def_blocks fn v)" by (simp add: def_blocks_def)
  then show ?thesis using assms by (simp add: phi_inv_def phi_start_def phi_closed_def)
qed

section \<open>All variables of a function\<close>

text \<open>The phi instructions of a block, of the variable treated last first.\<close>

definition phis_of :: "ir_func \<Rightarrow> alloc_store \<Rightarrow> alloc_id list \<Rightarrow> block_id \<Rightarrow> inst list" where
  "phis_of fn A as b =
     map (\<lambda>a. new_phi (cfg_pred fn) (alloc_value A a) b)
       (filter (\<lambda>a. \<not> al_immutable (A a) \<and> b \<in> phi_blocks fn (alloc_value A a)) (rev as))"

definition phis_added :: "ir_func \<Rightarrow> alloc_store \<Rightarrow> alloc_id list \<Rightarrow> ir_func" where
  "phis_added fn A as =
     fn\<lparr>fn_blk := (\<lambda>b. (fn_blk fn b)\<lparr>bk_insts := phis_of fn A as b @ bk_insts (fn_blk fn b)\<rparr>)\<rparr>"

lemma phis_added_snoc:
  "\<not> al_immutable (A a) \<Longrightarrow>
     with_phi (cfg_pred fn) (alloc_value A a) (phi_blocks fn (alloc_value A a)) (phis_added fn A as) = phis_added fn A (as @ [a])"
  by (auto simp: phis_added_def with_phi_def phis_of_def block_prepend_def fun_eq_iff)

lemma phis_added_skip: "al_immutable (A a) \<Longrightarrow> phis_added fn A (as @ [a]) = phis_added fn A as"
  by (simp add: phis_added_def phis_of_def)

lemma key_alloc_value [simp]: "key_of (alloc_value A a) = K_named (Def_alloc a)"
  by (simp add: alloc_value_def)

lemma def_blocks_added:
  assumes "a \<notin> set as"
  shows "def_blocks (phis_added fn A as) (alloc_value A a) = def_blocks fn (alloc_value A a)"
proof -
  have "\<not> lv_eq d (alloc_value A a)" if "i \<in> set (phis_of fn A as b)" "defined_var i = Some d" for i d b
    using that assms by (auto simp: phis_of_def new_phi_def lv_eq_def)
  then show ?thesis by (fastforce simp: def_blocks_def phis_added_def)
qed

lemma add_phi_allocs_spec:
  assumes "lives_as fn R" "frontiers_as fn F" "arranges arrange"
  shows "distinct (done @ as) \<Longrightarrow>
    add_phi_allocs arrange F (cfg_pred fn) R A as (c, phis_added fn A done) =
      Some (Inr (c \<or> (\<exists>a\<in>set as. \<not> al_immutable (A a)), phis_added fn A (done @ as)))"
proof (induction as arbitrary: "done" c)
  case (Cons a as)
  show ?case
  proof (cases "al_immutable (A a)")
    case True
    then show ?thesis using Cons.IH [of "done @ [a]" c] Cons.prems phis_added_skip [of A a fn "done"] True by simp
  next
    case False
    have a: "a \<notin> set done" using Cons.prems by simp
    have start: "phi_inv fn (phis_added fn A done) (alloc_value A a) (phi_start arrange (alloc_value A a) (phis_added fn A done))"
        "phi_closed fn (alloc_value A a) (ph_visited (phi_start arrange (alloc_value A a) (phis_added fn A done)))
           (phi_start arrange (alloc_value A a) (phis_added fn A done))"
      using phi_start_inv [OF assms(3) def_blocks_added [OF a]] by blast+
    obtain st where "phi_loop arrange F (cfg_pred fn) R (alloc_value A a)
        (phi_start arrange (alloc_value A a) (phis_added fn A done)) = Some (Inr st)"
        "ph_fn st = phis_added fn A (done @ [a])"
      using phi_loop_spec [OF assms start] phis_added_snoc [of A a fn "done"] False by auto
    then show ?thesis using False Cons.IH [of "done @ [a]" True] Cons.prems by simp
  qed
qed simp

text \<open>What the construction relies on: exits inside the function, every block reachable.\<close>

definition cfg_ok :: "ir_func \<Rightarrow> bool" where
  "cfg_ok fn \<longleftrightarrow> fn_blocks fn \<noteq> [] \<and> distinct (fn_blocks fn) \<and> cfg_defined fn \<and>
     (\<forall>b\<in>set (fn_blocks fn). hasExit (fn_blk fn b) \<and> set (exit_succs fn b) \<subseteq> set (fn_blocks fn) \<and> reachable fn b)"

lemma add_phi_func_spec:
  assumes "cfg_ok fn" "arranges arrange" "enumerates order"
  shows "add_phi_func arrange order A fn =
    Some (Inr (needs_rename A fn \<noteq> {}, phis_added fn A (order (func_allocs_set fn))))"
proof -
  obtain F where F: "frontiers arrange fn = Some (Inr F)" "frontiers_as fn F"
    using frontiers_of [of fn arrange] assms(1,2) by (auto simp: cfg_ok_def frontiers_as_def)
  obtain R where R: "liveness fn = Some (Inr R)" "\<forall>b\<in>set (fn_blocks fn). lr_in R b = Some (Elems {x. live_at fn b 0 x})"
    using liveness_sets [of fn] assms(1) by (auto simp: cfg_ok_def)
  have "lives_as fn R" using R(2) by (simp add: lives_as_def live_in_block_def live_into_def)
  moreover have o: "set (order (func_allocs_set fn)) = func_allocs_set fn" "distinct (order (func_allocs_set fn))"
    using assms(3) by (simp_all add: func_allocs_set_def)
  moreover have "phis_added fn A [] = fn" by (simp add: phis_added_def phis_of_def)
  ultimately show ?thesis
    using add_phi_allocs_spec [OF _ F(2) assms(2), of R "[]" "order (func_allocs_set fn)" A False] F(1) R(1)
    by (auto simp: add_phi_func_def func_allocs_set_def needs_rename_def)
qed

end
