(* ===== verification/Ssa_Rename.thy ===== *)
theory Ssa_Rename
  imports Ssa_Phi
begin

text \<open>
  What \<open>Rename\<close> makes of a function: in every block the uses and definitions are replaced by the
  versions current there, a block starts with the versions its immediate dominator ends with, and a phi
  reads on each edge the version its predecessor ends with. The walk over the dominator tree ends.
\<close>

section \<open>One block\<close>

type_synonym current = "alloc_id \<rightharpoonup> left_value"

definition current_of :: "ssa_stack \<Rightarrow> current" where
  "current_of stk a = (case stk a of [] \<Rightarrow> None | s # ss \<Rightarrow> Some s)"

definition subst_cur :: "alloc_id set \<Rightarrow> current \<Rightarrow> left_value \<Rightarrow> left_value" where
  "subst_cur need cur l =
     (case named_alloc l of
        None \<Rightarrow> l
      | Some a \<Rightarrow> if a \<in> need then (case cur a of None \<Rightarrow> l | Some s \<Rightarrow> s) else l)"

lemma rename_var_cur: "rename_var need stk = subst_cur need (current_of stk)"
  by (auto simp: fun_eq_iff rename_var_def subst_cur_def current_of_def split: option.split list.split)

inductive renamed :: "alloc_id set \<Rightarrow> current \<Rightarrow> inst list \<Rightarrow> inst list \<Rightarrow> current \<Rightarrow> bool" for need where
  stop: "renamed need cur [] [] cur"
| keep: "(\<And>d a. defined_var i = Some d \<Longrightarrow> named_alloc d = Some a \<Longrightarrow> a \<notin> need) \<Longrightarrow> renamed need cur is is' cur' \<Longrightarrow>
    renamed need cur (i # is) (map_used (subst_cur need cur) i # is') cur'"
| version: "defined_var i = Some d \<Longrightarrow> named_alloc d = Some a \<Longrightarrow> a \<in> need \<Longrightarrow> s = SSAValue (type_of_lv d) a n \<Longrightarrow>
    renamed need (cur(a \<mapsto> s)) is is' cur' \<Longrightarrow>
    renamed need cur (i # is) (set_def s (map_used (subst_cur need cur) i) # is') cur'"

definition ssa_defs :: "inst list \<Rightarrow> (alloc_id \<times> nat) list" where
  "ssa_defs is = List.map_filter (\<lambda>i. case defined_var i of Some (SSAValue t a n) \<Rightarrow> Some (a, n) | _ \<Rightarrow> None) is"

lemma ssa_defs_Cons:
  "ssa_defs (i # is) = (case defined_var i of Some (SSAValue t a n) \<Rightarrow> (a, n) # ssa_defs is | _ \<Rightarrow> ssa_defs is)"
  by (auto simp: ssa_defs_def List.map_filter_simps split: option.split left_value.split)

lemma defined_map_used [simp]: "defined_var (map_used f i) = defined_var i"
  by (cases i) simp_all

lemma defined_set_def [simp]: "defined_var (set_def s i) = Some s"
  by (cases i) simp_all

definition pushed :: "rename_env \<Rightarrow> rename_env \<Rightarrow> bool" where
  "pushed E E' \<longleftrightarrow>
     (case (E, E') of ((ver, stk, cnt), (ver', stk', cnt')) \<Rightarrow>
        \<forall>a. ver a \<le> ver' a \<and> (\<exists>p. stk' a = p @ stk a \<and> cnt' a = length p + cnt a))"

lemma pushed_refl: "pushed E E"
  by (cases E) (auto simp: pushed_def)

lemma pushed_trans: "pushed E E' \<Longrightarrow> pushed E' E'' \<Longrightarrow> pushed E E''"
  unfolding pushed_def by (auto split: prod.splits) (meson order_trans, metis append.assoc length_append add.assoc)

lemma pushed_step: "pushed (ver, stk, cnt) (ver(a := Suc (ver a)), stk(a := s # stk a), cnt(a := Suc (cnt a)))"
  by (auto simp: pushed_def intro: exI [of _ "[s]"] exI [of _ "[]"])

text \<open>The new versions of a block are distinct and not below the counters it starts with.\<close>

lemma rename_insts_renamed:
  "rename_insts need is (ver, stk, cnt) = (is', ver', stk', cnt') \<Longrightarrow> ssa_defs is = [] \<Longrightarrow>
     renamed need (current_of stk) is is' (current_of stk') \<and> pushed (ver, stk, cnt) (ver', stk', cnt') \<and>
     distinct (ssa_defs is') \<and> (\<forall>(a, n)\<in>set (ssa_defs is'). ver a \<le> n \<and> n < ver' a)"
proof (induction "is" arbitrary: ver stk cnt is')
  case Nil
  then show ?case by (auto simp: pushed_refl ssa_defs_def List.map_filter_simps intro: renamed.stop)
next
  case (Cons i "is")
  obtain i1 ver1 stk1 cnt1 where i1: "rename_inst need i (ver, stk, cnt) = (i1, ver1, stk1, cnt1)"
    by (cases "rename_inst need i (ver, stk, cnt)") auto
  obtain is1 where is1: "rename_insts need is (ver1, stk1, cnt1) = (is1, ver', stk', cnt')" "is' = i1 # is1"
    using Cons.prems(1) i1 by (auto split: prod.splits)
  have no: "ssa_defs is = []" "\<And>t a n. defined_var i \<noteq> Some (SSAValue t a n)"
    using Cons.prems(2) by (auto simp: ssa_defs_Cons split: option.splits left_value.splits)
  note IH = Cons.IH [OF is1(1) no(1)]
  let ?i = "map_used (subst_cur need (current_of stk)) i"
  show ?case
  proof (cases "\<exists>d a. defined_var i = Some d \<and> named_alloc d = Some a \<and> a \<in> need")
    case True
    then obtain d a where d: "defined_var i = Some d" "named_alloc d = Some a" "a \<in> need" by blast
    let ?s = "SSAValue (type_of_lv d) a (ver a)"
    have e: "i1 = set_def ?s ?i" "ver1 = ver(a := Suc (ver a))" "stk1 = stk(a := ?s # stk a)" "cnt1 = cnt(a := Suc (cnt a))"
      using i1 d by (auto simp: rename_inst_def Let_def rename_var_cur)
    have cur: "current_of stk1 = (current_of stk)(a \<mapsto> ?s)" by (auto simp: e current_of_def)
    have "pushed (ver, stk, cnt) (ver1, stk1, cnt1)" unfolding e by (rule pushed_step)
    then have push: "pushed (ver, stk, cnt) (ver', stk', cnt')" using IH pushed_trans by blast
    have le: "Suc (ver a) \<le> ver' a" using IH by (auto simp: pushed_def e dest: spec [of _ a])
    have "distinct (ssa_defs is')" "\<forall>(a, n)\<in>set (ssa_defs is'). ver a \<le> n \<and> n < ver' a"
      using IH le by (auto simp: is1(2) e ssa_defs_Cons fun_upd_def split: if_splits)
    moreover have "renamed need (current_of stk) (i # is) is' (current_of stk')"
      unfolding is1(2) e(1) by (rule renamed.version [OF d refl], unfold cur [symmetric]) (use IH in blast)
    ultimately show ?thesis using push by simp
  next
    case False
    then have e: "i1 = ?i" "ver1 = ver" "stk1 = stk" "cnt1 = cnt"
      using i1 by (auto simp: rename_inst_def Let_def rename_var_cur bind_eq_Some_conv split: option.splits if_splits)
    have "ssa_defs is' = ssa_defs is1"
      using no(2) by (auto simp: is1(2) e ssa_defs_Cons split: option.split left_value.split)
    then show ?thesis using IH False renamed.keep [of i need] by (auto simp: is1(2) e)
  qed
qed

text \<open>Arguments of phi instructions are renamed from outside the block.\<close>

fun map_args :: "(block_id \<Rightarrow> val \<Rightarrow> val) \<Rightarrow> inst \<Rightarrow> inst" where
  "map_args g (Phi r args) = Phi r (map (\<lambda>(p, v). (p, g p v)) args)"
| "map_args g i = i"

lemma defined_map_args [simp]: "defined_var (map_args g i) = defined_var i"
  by (cases i) simp_all

lemma map_used_args: "map_used f (map_args g i) = map_args g (map_used f i)"
  by (cases i) simp_all

lemma set_def_args: "set_def s (map_args g i) = map_args g (set_def s i)"
  by (cases i) simp_all

lemma rename_insts_args:
  "rename_insts need (map (map_args g) is) E = (case rename_insts need is E of (is', E') \<Rightarrow> (map (map_args g) is', E'))"
proof (induction "is" arbitrary: E)
  case (Cons i "is")
  have "rename_inst need (map_args g i) E = (case rename_inst need i E of (i', E') \<Rightarrow> (map_args g i', E'))"
    by (auto simp: rename_inst_def Let_def map_used_args set_def_args split: prod.split option.split)
  then show ?case by (auto simp: Cons.IH split: prod.split)
qed simp

lemma sources_map_used [simp]: "sources (map_used f i) = sources i" "is_phi_inst (map_used f i) = is_phi_inst i"
  by (cases i; simp)+

lemma sources_set_def [simp]: "sources (set_def s i) = sources i" "is_phi_inst (set_def s i) = is_phi_inst i"
  by (cases i; simp)+

lemma renamed_shape:
  "renamed need cur is is' cur' \<Longrightarrow> map sources is' = map sources is \<and> map is_phi_inst is' = map is_phi_inst is"
  by (induction rule: renamed.induct) simp_all

lemma map_args_cong: "(\<And>p v. p \<in> set (sources i) \<Longrightarrow> g p v = h p v) \<Longrightarrow> map_args g i = map_args h i"
  by (cases i) force+

fun phis_first :: "bool list \<Rightarrow> bool" where
  "phis_first [] = True"
| "phis_first (b # bs) = (if b then phis_first bs else \<not> (\<exists>c\<in>set bs. c))"

lemma map_args_other: "\<not> is_phi_inst i \<Longrightarrow> map_args g i = i"
  by (cases i) simp_all

lemma rename_phis_map:
  "phis_first (map is_phi_inst is) \<Longrightarrow>
     rename_phis b f (map (map_args h) is) = map (map_args (\<lambda>p v. if p = b then map_val f (h p v) else h p v)) is"
proof (induction "is")
  case (Cons i "is")
  show ?case
  proof (cases "is_phi_inst i")
    case True
    then obtain r args where "i = Phi r args" by (cases i) auto
    then show ?thesis using Cons by (auto simp: rename_args_def)
  next
    case False
    have "map (map_args g) (i # is) = i # is" for g
      using Cons.prems False by (auto simp: map_args_other intro!: map_idI)
    moreover have "rename_phis b f (i # is) = i # is" using False by (cases i) auto
    ultimately show ?thesis by simp
  qed
qed simp

section \<open>The state of the walk\<close>

text \<open>
  The blocks in \<open>D\<close> have been visited; \<open>ci\<close> and \<open>co\<close> are the versions current at their start and end.
\<close>

definition arg_at :: "alloc_id set \<Rightarrow> block_id set \<Rightarrow> (block_id \<Rightarrow> current) \<Rightarrow> block_id \<Rightarrow> val \<Rightarrow> val" where
  "arg_at need D co p v = (if p \<in> D then map_val (subst_cur need (co p)) v else v)"

definition block_core ::
  "alloc_id set \<Rightarrow> block_id set \<Rightarrow> (block_id \<Rightarrow> current) \<Rightarrow> (block_id \<Rightarrow> current) \<Rightarrow> ir_block \<Rightarrow> block_id \<Rightarrow> ir_block \<Rightarrow>
     inst list \<Rightarrow> bool" where
  "block_core need D ci co k b k' core \<longleftrightarrow>
     bk_insts k' = map (map_args (arg_at need D co)) core \<and>
     (if b \<in> D then renamed need (ci b) (bk_insts k) core (co b) \<and>
                   bk_exit k' = map_option (map_exit (subst_cur need (co b))) (bk_exit k)
      else core = bk_insts k \<and> bk_exit k' = bk_exit k)"

definition renamed_to ::
  "ir_func \<Rightarrow> alloc_id set \<Rightarrow> block_id set \<Rightarrow> (block_id \<Rightarrow> current) \<Rightarrow> (block_id \<Rightarrow> current) \<Rightarrow> ir_func \<Rightarrow> bool" where
  "renamed_to fn need D ci co g \<longleftrightarrow>
     g\<lparr>fn_blk := fn_blk fn\<rparr> = fn \<and>
     (\<forall>c\<in>set (fn_blocks fn). \<exists>core. block_core need D ci co (fn_blk fn c) c (fn_blk g c) core)"

definition ssa_distinct :: "block_id set \<Rightarrow> ir_func \<Rightarrow> (alloc_id \<Rightarrow> nat) \<Rightarrow> bool" where
  "ssa_distinct D g ver \<longleftrightarrow>
     (\<forall>c\<in>D. distinct (ssa_defs (bk_insts (fn_blk g c))) \<and> (\<forall>(a, n)\<in>set (ssa_defs (bk_insts (fn_blk g c))). n < ver a)) \<and>
     (\<forall>c\<in>D. \<forall>c'\<in>D. c \<noteq> c' \<longrightarrow> set (ssa_defs (bk_insts (fn_blk g c))) \<inter> set (ssa_defs (bk_insts (fn_blk g c'))) = {})"

definition phis_ok :: "ir_func \<Rightarrow> bool" where
  "phis_ok fn \<longleftrightarrow>
     (\<forall>c\<in>set (fn_blocks fn). phis_first (map is_phi_inst (bk_insts (fn_blk fn c))) \<and> ssa_defs (bk_insts (fn_blk fn c)) = [] \<and>
        (\<forall>i\<in>set (bk_insts (fn_blk fn c)). \<forall>p\<in>set (sources i). c \<in> set (cfg_succ fn p)))"

lemma ssa_defs_args [simp]: "ssa_defs (map (map_args g) is) = ssa_defs is"
  by (simp add: ssa_defs_def List.map_filter_def comp_def filter_map)

lemma fold_rename_succ:
  "distinct ss \<Longrightarrow>
     fn_blk (fold (rename_succ b f) ss g) =
       (\<lambda>c. if c \<in> set ss then (fn_blk g c)\<lparr>bk_insts := rename_phis b f (bk_insts (fn_blk g c))\<rparr> else fn_blk g c) \<and>
     (fold (rename_succ b f) ss g)\<lparr>fn_blk := X\<rparr> = g\<lparr>fn_blk := X\<rparr>"
proof (induction ss arbitrary: g)
  case (Cons s ss)
  then show ?case using Cons.IH [of "rename_succ b f s g"] by (auto simp: rename_succ_def update_block_def fun_eq_iff)
qed auto

lemma core_sources:
  assumes "phis_ok fn" "c \<in> set (fn_blocks fn)" "block_core need D ci co (fn_blk fn c) c k core"
  shows "phis_first (map is_phi_inst core)" "i \<in> set core \<Longrightarrow> p \<in> set (sources i) \<Longrightarrow> c \<in> set (cfg_succ fn p)"
proof -
  let ?is = "bk_insts (fn_blk fn c)"
  have s: "map sources core = map sources ?is" "map is_phi_inst core = map is_phi_inst ?is"
    using assms(3) renamed_shape by (auto simp: block_core_def split: if_splits)
  show "phis_first (map is_phi_inst core)" using assms(1,2) s(2) by (simp add: phis_ok_def)
  assume i: "i \<in> set core" "p \<in> set (sources i)"
  then have "sources i \<in> sources ` set ?is" using s(1) by (metis image_eqI list.set_map)
  then show "c \<in> set (cfg_succ fn p)" using assms(1,2) i(2) by (auto simp: phis_ok_def)
qed

lemma arg_at_insert:
  "b \<notin> D \<Longrightarrow> (\<lambda>p v. if p = b then map_val (subst_cur need cur) (arg_at need D co p v) else arg_at need D co p v) =
     arg_at need (insert b D) (co(b := cur))"
  by (auto simp: fun_eq_iff arg_at_def)

lemma arg_at_other: "b \<noteq> p \<Longrightarrow> arg_at need (insert b D) (co(b := cur)) p v = arg_at need D co p v"
  by (simp add: arg_at_def)

lemma block_core_cong:
  "bk_insts k = bk_insts k' \<Longrightarrow> bk_exit k = bk_exit k' \<Longrightarrow> block_core need D ci co b0 b k core = block_core need D ci co b0 b k' core"
  by (simp add: block_core_def)

text \<open>Visiting a block renames it and the arguments its successors read from it.\<close>

lemma rename_body_renamed:
  assumes inv: "renamed_to fn need D ci co (rn_fn st)" and ok: "phis_ok fn" and b: "b \<in> set (fn_blocks fn)" "b \<notin> D" "D \<subseteq> set (fn_blocks fn)"
    and ssa: "ssa_distinct D (rn_fn st) (rn_version st)"
    and body: "rename_body (cfg_succ fn) need b st = (st1, cnt)"
  shows "renamed_to fn need (insert b D) (ci(b := current_of (rn_stack st))) (co(b := current_of (rn_stack st1))) (rn_fn st1)"
    and "ssa_distinct (insert b D) (rn_fn st1) (rn_version st1)"
    and "\<exists>p. rn_stack st1 a = p @ rn_stack st a \<and> cnt a = length p"
proof -
  let ?g = "rn_fn st" and ?h = "arg_at need D co" and ?is = "bk_insts (fn_blk fn b)"
  obtain core0 where core0: "block_core need D ci co (fn_blk fn b) b (fn_blk ?g b) core0"
    using inv b(1) by (auto simp: renamed_to_def)
  have is0: "bk_insts (fn_blk ?g b) = map (map_args ?h) ?is" "bk_exit (fn_blk ?g b) = bk_exit (fn_blk fn b)"
    using core0 b(2) by (simp_all add: block_core_def)
  obtain core ver stk cnt' where r: "rename_insts need ?is (rn_version st, rn_stack st, \<lambda>a. 0) = (core, ver, stk, cnt')"
    by (cases "rename_insts need ?is (rn_version st, rn_stack st, \<lambda>a. 0)") auto
  let ?f = "subst_cur need (current_of stk)"
  let ?g1 = "update_block b (\<lambda>k. k\<lparr>bk_insts := map (map_args ?h) core, bk_exit := map_option (map_exit ?f) (bk_exit k)\<rparr>) ?g"
  have st1: "rn_fn st1 = fold (rename_succ b ?f) (cfg_succ fn b) ?g1" "rn_version st1 = ver" "rn_stack st1 = stk" "cnt = cnt'"
    using body by (auto simp: rename_body_def Let_def is0(1) rename_insts_args r rename_var_cur)
  have no: "ssa_defs ?is = []" using ok b(1) by (simp add: phis_ok_def)
  note ren = rename_insts_renamed [OF r no]
  show "\<exists>p. rn_stack st1 a = p @ rn_stack st a \<and> cnt a = length p"
    using ren by (auto simp: pushed_def st1)
  let ?D = "insert b D" and ?ci = "ci(b := current_of (rn_stack st))" and ?co = "co(b := current_of stk)"
  have d: "distinct (cfg_succ fn b)" by (simp add: cfg_succ_def)
  note fold = fold_rename_succ [OF d, of b ?f ?g1]
  have blk: "\<exists>core'. block_core need ?D ?ci ?co (fn_blk fn c) c (fn_blk (rn_fn st1) c) core' \<and>
      (c = b \<longrightarrow> core' = core) \<and> (c \<noteq> b \<longrightarrow> ssa_defs core' = ssa_defs (bk_insts (fn_blk ?g c)))"
    if c: "c \<in> set (fn_blocks fn)" for c
  proof -
    obtain core1 where core1: "block_core need D ci co (fn_blk fn c) c (fn_blk ?g c) core1"
      using inv c by (auto simp: renamed_to_def)
    let ?core = "if c = b then core else core1"
    have core': "block_core need ?D ?ci ?co (fn_blk fn c) c
        ((fn_blk ?g1 c)\<lparr>bk_insts := map (map_args (arg_at need ?D ?co)) ?core\<rparr>) ?core"
      using core1 ren is0(2) b(2) by (auto simp: block_core_def update_block_def)
    have g1: "bk_insts (fn_blk ?g1 c) = map (map_args ?h) ?core"
      using core1 by (simp add: update_block_def block_core_def)
    have "bk_insts (fn_blk (rn_fn st1) c) = map (map_args (arg_at need ?D ?co)) ?core"
    proof (cases "c \<in> set (cfg_succ fn b)")
      case True
      then show ?thesis
        using rename_phis_map [OF core_sources(1) [OF ok c core'], of b ?f ?h] fold g1
        by (simp add: st1(1) arg_at_insert [OF b(2)])
    next
      case False
      have "map (map_args ?h) ?core = map (map_args (arg_at need ?D ?co)) ?core"
      proof (rule map_cong [OF refl], rule map_args_cong)
        fix i p v assume "i \<in> set ?core" "p \<in> set (sources i)"
        then have "p \<noteq> b" using core_sources(2) [OF ok c core'] False by blast
        then show "?h p v = arg_at need ?D ?co p v" using arg_at_other by metis
      qed
      then show ?thesis using False fold g1 by (simp add: st1(1))
    qed
    moreover have "bk_exit (fn_blk (rn_fn st1) c) = bk_exit (fn_blk ?g1 c)" using fold by (simp add: st1(1))
    ultimately have "block_core need ?D ?ci ?co (fn_blk fn c) c (fn_blk (rn_fn st1) c) ?core"
      using core' block_core_cong [of "fn_blk (rn_fn st1) c" "(fn_blk ?g1 c)\<lparr>bk_insts := map (map_args (arg_at need ?D ?co)) ?core\<rparr>"]
      by simp
    then show ?thesis using core1 by (auto simp: block_core_def)
  qed
  have rest: "(rn_fn st1)\<lparr>fn_blk := fn_blk fn\<rparr> = fn"
    using fold inv by (simp add: st1(1) renamed_to_def update_block_def)
  show "renamed_to fn need ?D ?ci (co(b := current_of (rn_stack st1))) (rn_fn st1)"
    using blk rest unfolding renamed_to_def st1(3) by blast
  show "ssa_distinct ?D (rn_fn st1) (rn_version st1)"
  proof -
    have defs: "ssa_defs (bk_insts (fn_blk (rn_fn st1) c)) =
        (if c = b then ssa_defs core else ssa_defs (bk_insts (fn_blk ?g c)))" if c: "c \<in> insert b D" for c
    proof -
      have "c \<in> set (fn_blocks fn)" using c b(1,3) by blast
      then show ?thesis using blk [of c] by (auto simp: block_core_def)
    qed
    have below: "n < ver a" if "c \<in> D" "(a, n) \<in> set (ssa_defs (bk_insts (fn_blk ?g c)))" for c a n
      using that ssa ren unfolding ssa_distinct_def pushed_def by (fastforce dest: order_less_le_trans)
    have fresh: "set (ssa_defs core) \<inter> set (ssa_defs (bk_insts (fn_blk ?g c))) = {}" if "c \<in> D" for c
      using that ssa ren unfolding ssa_distinct_def by fastforce
    show ?thesis
      using ssa ren below fresh b(2) unfolding ssa_distinct_def st1(2)
      by (auto simp: defs Int_commute [of _ "set (ssa_defs core)"] split: if_splits)
  qed
qed

section \<open>The walk over the dominator tree\<close>

definition walk_ok ::
  "ir_func \<Rightarrow> alloc_id set \<Rightarrow> idom_map \<Rightarrow> block_id set \<Rightarrow> (block_id \<Rightarrow> current) \<Rightarrow> (block_id \<Rightarrow> current) \<Rightarrow> rename_state \<Rightarrow> bool" where
  "walk_ok fn need m D ci co st \<longleftrightarrow>
     D \<subseteq> set (fn_blocks fn) \<and> renamed_to fn need D ci co (rn_fn st) \<and> ssa_distinct D (rn_fn st) (rn_version st) \<and>
     (\<forall>c\<in>D. \<forall>p. m c = Some (Some p) \<longrightarrow> p \<in> D)"

text \<open>What a call adds: the subtrees of \<open>cs\<close>, with versions handed down from the parents.\<close>

definition walk_adds ::
  "idom_map \<Rightarrow> block_id set \<Rightarrow> block_id set \<Rightarrow> (block_id \<Rightarrow> current) \<Rightarrow> (block_id \<Rightarrow> current) \<Rightarrow>
     block_id set \<Rightarrow> (block_id \<Rightarrow> current) \<Rightarrow> (block_id \<Rightarrow> current) \<Rightarrow> bool" where
  "walk_adds m cs D ci co D' ci' co' \<longleftrightarrow>
     D \<subseteq> D' \<and> cs \<subseteq> D' \<and> (\<forall>c\<in>D. ci' c = ci c \<and> co' c = co c) \<and>
     (\<forall>c\<in>D' - D - cs. \<exists>p\<in>D' - D. m c = Some (Some p) \<and> ci' c = co' p) \<and>
     (\<forall>p\<in>D' - D. \<forall>c. m c = Some (Some p) \<longrightarrow> c \<in> D')"

lemma walk_adds_refl: "walk_adds m {} D ci co D ci co"
  by (simp add: walk_adds_def)

lemma walk_adds_seq:
  assumes "walk_adds m cs D ci co D1 ci1 co1" "walk_adds m ds D1 ci1 co1 D2 ci2 co2"
  shows "walk_adds m (cs \<union> ds) D ci co D2 ci2 co2"
proof -
  have a: "D \<subseteq> D1" "cs \<subseteq> D1" "\<And>c. c \<in> D \<Longrightarrow> ci1 c = ci c \<and> co1 c = co c"
      "\<And>c. c \<in> D1 \<Longrightarrow> c \<notin> D \<Longrightarrow> c \<notin> cs \<Longrightarrow> \<exists>p\<in>D1 - D. m c = Some (Some p) \<and> ci1 c = co1 p"
      "\<And>p c. p \<in> D1 \<Longrightarrow> p \<notin> D \<Longrightarrow> m c = Some (Some p) \<Longrightarrow> c \<in> D1"
    using assms(1) by (auto simp: walk_adds_def)
  have b: "D1 \<subseteq> D2" "ds \<subseteq> D2" "\<And>c. c \<in> D1 \<Longrightarrow> ci2 c = ci1 c \<and> co2 c = co1 c"
      "\<And>c. c \<in> D2 \<Longrightarrow> c \<notin> D1 \<Longrightarrow> c \<notin> ds \<Longrightarrow> \<exists>p\<in>D2 - D1. m c = Some (Some p) \<and> ci2 c = co2 p"
      "\<And>p c. p \<in> D2 \<Longrightarrow> p \<notin> D1 \<Longrightarrow> m c = Some (Some p) \<Longrightarrow> c \<in> D2"
    using assms(2) by (auto simp: walk_adds_def)
  have "\<exists>p\<in>D2 - D. m c = Some (Some p) \<and> ci2 c = co2 p" if c: "c \<in> D2" "c \<notin> D" "c \<notin> cs" "c \<notin> ds" for c
  proof (cases "c \<in> D1")
    case True
    obtain p where p: "p \<in> D1 - D" "m c = Some (Some p)" "ci1 c = co1 p" using a(4) [OF True c(2,3)] by blast
    then have "ci2 c = co2 p" using b(3) [OF True] b(3) [of p] by simp
    then show ?thesis using p b(1) by blast
  next
    case False
    obtain p where "p \<in> D2 - D1" "m c = Some (Some p)" "ci2 c = co2 p" using b(4) [OF c(1) False c(4)] by blast
    then show ?thesis using a(1) by blast
  qed
  moreover have "c \<in> D2" if p: "p \<in> D2" "p \<notin> D" "m c = Some (Some p)" for p c
    using a(5) [OF _ p(2,3)] b(5) [OF p(1) _ p(3)] b(1) by (cases "p \<in> D1") auto
  moreover have "D \<subseteq> D2" "cs \<union> ds \<subseteq> D2" using a(1,2) b(1,2) by auto
  moreover have "ci2 c = ci c \<and> co2 c = co c" if "c \<in> D" for c using a(1,3) b(3) that by auto
  ultimately show ?thesis unfolding walk_adds_def by blast
qed

definition tree_of :: "ir_func \<Rightarrow> idom_map \<Rightarrow> (block_id \<Rightarrow> block_id list) \<Rightarrow> bool" where
  "tree_of fn m children \<longleftrightarrow>
     dom m = set (fn_blocks fn) \<and> (\<forall>b. m b \<noteq> Some (Some b)) \<and>
     (\<forall>p. distinct (children p) \<and> set (children p) = {c. m c = Some (Some p)})"

lemma rename_list_walk:
  assumes tree: "tree_of fn m children"
    and block: "\<And>D ci co st b. walk_ok fn need m D ci co st \<Longrightarrow> card (set (fn_blocks fn) - D) < n \<Longrightarrow> b \<in> set (fn_blocks fn) \<Longrightarrow>
      b \<notin> D \<Longrightarrow> (\<And>p. m b = Some (Some p) \<Longrightarrow> p \<in> D) \<Longrightarrow>
      \<exists>st' D' ci' co'. rename_block (cfg_succ fn) children need n b st = Some st' \<and> rn_stack st' = rn_stack st \<and>
        walk_ok fn need m D' ci' co' st' \<and> walk_adds m {b} D ci co D' ci' co' \<and> ci' b = current_of (rn_stack st)"
  shows "walk_ok fn need m D ci co st \<Longrightarrow> card (set (fn_blocks fn) - D) < n \<Longrightarrow> distinct cs \<Longrightarrow> set cs \<inter> D = {} \<Longrightarrow>
      b \<in> D \<Longrightarrow> (\<forall>c\<in>set cs. m c = Some (Some b)) \<Longrightarrow>
      \<exists>st' D' ci' co'. rename_list (cfg_succ fn) children need n cs st = Some st' \<and> rn_stack st' = rn_stack st \<and>
        walk_ok fn need m D' ci' co' st' \<and> walk_adds m (set cs) D ci co D' ci' co' \<and>
        (\<forall>c\<in>set cs. ci' c = current_of (rn_stack st))"
proof (induction cs arbitrary: D ci co st)
  case Nil
  then show ?case using walk_adds_refl by fastforce
next
  case (Cons c cs)
  have c: "c \<in> set (fn_blocks fn)" "c \<notin> D" "m c = Some (Some b)"
    using Cons.prems(4,6) tree by (auto simp: tree_of_def)
  obtain st1 D1 ci1 co1 where IH1: "rename_block (cfg_succ fn) children need n c st = Some st1" "rn_stack st1 = rn_stack st"
      "walk_ok fn need m D1 ci1 co1 st1" "walk_adds m {c} D ci co D1 ci1 co1" "ci1 c = current_of (rn_stack st)"
    using block [OF Cons.prems(1,2) c(1,2)] c(3) Cons.prems(5) by auto
  have sub: "D \<subseteq> D1" using IH1(4) by (simp add: walk_adds_def)
  have "card (set (fn_blocks fn) - D1) \<le> card (set (fn_blocks fn) - D)" using sub by (intro card_mono) auto
  then have fuel: "card (set (fn_blocks fn) - D1) < n" using Cons.prems(2) by simp
  have dis: "set cs \<inter> D1 = {}"
  proof (rule ccontr)
    assume "set cs \<inter> D1 \<noteq> {}"
    then obtain d where d: "d \<in> set cs" "d \<in> D1" by blast
    then have "d \<in> D1 - D - {c}" "m d = Some (Some b)" using Cons.prems(3,4,6) by auto
    then obtain p where "p \<in> D1 - D" "m d = Some (Some p)" using IH1(4) unfolding walk_adds_def by blast
    then show False using \<open>m d = Some (Some b)\<close> Cons.prems(5) by simp
  qed
  obtain st2 D2 ci2 co2 where IH2: "rename_list (cfg_succ fn) children need n cs st1 = Some st2" "rn_stack st2 = rn_stack st1"
      "walk_ok fn need m D2 ci2 co2 st2" "walk_adds m (set cs) D1 ci1 co1 D2 ci2 co2"
      "\<forall>d\<in>set cs. ci2 d = current_of (rn_stack st1)"
    using Cons.IH [OF IH1(3) fuel _ dis subsetD [OF sub Cons.prems(5)]] Cons.prems(3,6) by auto
  have "walk_adds m (set (c # cs)) D ci co D2 ci2 co2"
    using walk_adds_seq [OF IH1(4) IH2(4)] by simp
  moreover have "\<forall>d\<in>set (c # cs). ci2 d = current_of (rn_stack st)"
    using IH1(2,4,5) IH2(4,5) by (auto simp: walk_adds_def)
  moreover have "rename_list (cfg_succ fn) children need n (c # cs) st = Some st2" by (simp add: IH1(1) IH2(1))
  ultimately show ?case using IH1(2) IH2(2,3) by (intro exI [of _ st2] exI [of _ D2] exI [of _ ci2] exI [of _ co2]) simp
qed

lemma rename_block_walk:
  assumes ok: "phis_ok fn" and tree: "tree_of fn m children"
  shows "walk_ok fn need m D ci co st \<Longrightarrow> card (set (fn_blocks fn) - D) < n \<Longrightarrow> b \<in> set (fn_blocks fn) \<Longrightarrow> b \<notin> D \<Longrightarrow>
      (\<And>p. m b = Some (Some p) \<Longrightarrow> p \<in> D) \<Longrightarrow>
      \<exists>st' D' ci' co'. rename_block (cfg_succ fn) children need n b st = Some st' \<and> rn_stack st' = rn_stack st \<and>
        walk_ok fn need m D' ci' co' st' \<and> walk_adds m {b} D ci co D' ci' co' \<and> ci' b = current_of (rn_stack st)"
proof (induction n arbitrary: D ci co st b)
  case (Suc n)
  obtain st1 cnt where body: "rename_body (cfg_succ fn) need b st = (st1, cnt)"
    by (cases "rename_body (cfg_succ fn) need b st") auto
  let ?D = "insert b D" and ?ci = "ci(b := current_of (rn_stack st))" and ?co = "co(b := current_of (rn_stack st1))"
  note w = Suc.prems(1) [unfolded walk_ok_def]
  note step = rename_body_renamed [OF conjunct1 [OF conjunct2 [OF w]] ok Suc.prems(3,4) conjunct1 [OF w]
      conjunct1 [OF conjunct2 [OF conjunct2 [OF w]]] body]
  have ok1: "walk_ok fn need m ?D ?ci ?co st1"
    using w step(1,2) Suc.prems(3,5) unfolding walk_ok_def by blast
  have ch: "distinct (children b)" "set (children b) = {c. m c = Some (Some b)}" using tree by (simp_all add: tree_of_def)
  have "c \<notin> ?D" if "m c = Some (Some b)" for c
    using that w Suc.prems(4) tree unfolding tree_of_def by blast
  then have dis: "set (children b) \<inter> ?D = {}" using ch(2) by blast
  have "card (set (fn_blocks fn) - ?D) < card (set (fn_blocks fn) - D)"
    using Suc.prems(3,4) by (intro psubset_card_mono) auto
  then have fuel: "card (set (fn_blocks fn) - ?D) < n" using Suc.prems(2) by simp
  have "\<exists>st2 D2 ci2 co2. rename_list (cfg_succ fn) children need n (children b) st1 = Some st2 \<and>
      rn_stack st2 = rn_stack st1 \<and> walk_ok fn need m D2 ci2 co2 st2 \<and>
      walk_adds m (set (children b)) ?D ?ci ?co D2 ci2 co2 \<and> (\<forall>c\<in>set (children b). ci2 c = current_of (rn_stack st1))"
    by (rule rename_list_walk [OF tree _ ok1 fuel ch(1) dis]) (rule Suc.IH, assumption+, use ch(2) in auto)
  then obtain st2 D2 ci2 co2 where IH: "rename_list (cfg_succ fn) children need n (children b) st1 = Some st2"
      "rn_stack st2 = rn_stack st1" "walk_ok fn need m D2 ci2 co2 st2"
      "walk_adds m (set (children b)) ?D ?ci ?co D2 ci2 co2" "\<forall>c\<in>set (children b). ci2 c = current_of (rn_stack st1)"
    by blast
  let ?st = "st2\<lparr>rn_stack := (\<lambda>a. drop (cnt a) (rn_stack st2 a))\<rparr>"
  have stack: "rn_stack ?st = rn_stack st"
  proof (simp add: fun_eq_iff IH(2), rule)
    fix a show "drop (cnt a) (rn_stack st1 a) = rn_stack st a" using step(3) [of a] by auto
  qed
  have "walk_adds m {b} D ci co D2 ci2 co2"
    unfolding walk_adds_def
  proof (intro conjI ballI allI impI)
    fix c assume c: "c \<in> D2 - D - {b}"
    show "\<exists>p\<in>D2 - D. m c = Some (Some p) \<and> ci2 c = co2 p"
    proof (cases "c \<in> set (children b)")
      case True
      moreover have "b \<in> D2 - D" "co2 b = current_of (rn_stack st1)"
        using IH(4) Suc.prems(4) by (auto simp: walk_adds_def)
      ultimately show ?thesis using IH(5) ch(2) by auto
    next
      case False
      then have "c \<in> D2 - ?D - set (children b)" using c by blast
      then obtain p where "p \<in> D2 - ?D" "m c = Some (Some p)" "ci2 c = co2 p"
        using IH(4) unfolding walk_adds_def by blast
      then show ?thesis by blast
    qed
  next
    fix p c assume p: "p \<in> D2 - D" "m c = Some (Some p)"
    then show "c \<in> D2" using IH(4) ch(2) unfolding walk_adds_def by (cases "p = b") blast+
  qed (use IH(4) Suc.prems(4) in \<open>auto simp: walk_adds_def\<close>)
  moreover have "ci2 b = current_of (rn_stack st)" using IH(4) by (simp add: walk_adds_def)
  moreover have "walk_ok fn need m D2 ci2 co2 ?st" using IH(3) by (simp add: walk_ok_def)
  moreover have "rename_block (cfg_succ fn) children need (Suc n) b st = Some ?st" by (simp add: body IH(1))
  ultimately show ?case using stack by blast
qed simp

end
