(* ===== verification/Ssa_Sound.thy ===== *)
theory Ssa_Sound
  imports Ssa_Rename
begin

text \<open>
  Construction of SSA form keeps the behaviour of a function. The semantics is that of a machine that
  is a parameter: what an operation does with the values of its operands and with the world outside
  the variables (memory, input, output) is arbitrary. The function in SSA form runs in lock step with
  the original, and every SSA value is defined once.
\<close>

section \<open>The function after renaming\<close>

lemma path_to_mono:
  assumes "cfg_succ g = cfg_succ fn" "entrance g = entrance fn"
  shows "path_to g b ps \<Longrightarrow> path_to fn b ps"
  by (induction rule: path_to.induct) (use assms path_to.intros in metis)+

lemma same_paths:
  assumes "fn_blocks g = fn_blocks fn" "\<And>b. bk_exit (fn_blk g b) = bk_exit (fn_blk fn b)"
  shows "cfg_succ g = cfg_succ fn" "cfg_pred g = cfg_pred fn" "entrance g = entrance fn" "path_to g = path_to fn"
proof -
  show s: "cfg_succ g = cfg_succ fn" and p: "cfg_pred g = cfg_pred fn" and e: "entrance g = entrance fn"
    using assms by (auto simp: fun_eq_iff cfg_succ_def cfg_pred_def exit_succs_def block_targets_def entrance_def)
  show "path_to g = path_to fn" using path_to_mono [of g fn] path_to_mono [of fn g] s e by (auto simp: fun_eq_iff)
qed

lemma phis_added_sel [simp]:
  "fn_blocks (phis_added fn A as) = fn_blocks fn" "fn_locals (phis_added fn A as) = fn_locals fn"
  "fn_params (phis_added fn A as) = fn_params fn" "fn_temps (phis_added fn A as) = fn_temps fn"
  "bk_exit (fn_blk (phis_added fn A as) b) = bk_exit (fn_blk fn b)"
  "bk_insts (fn_blk (phis_added fn A as) b) = phis_of fn A as b @ bk_insts (fn_blk fn b)"
  by (simp_all add: phis_added_def)

text \<open>A function before the construction.\<close>

definition before_ssa :: "ir_func \<Rightarrow> bool" where
  "before_ssa fn \<longleftrightarrow>
     (\<forall>b\<in>set (fn_blocks fn). \<forall>i\<in>set (bk_insts (fn_blk fn b)). \<not> is_phi_inst i \<and>
        (\<forall>t a n. SSAValue t a n \<notin> set (vars i))) \<and>
     (\<forall>b\<in>set (fn_blocks fn). \<forall>e t a n. bk_exit (fn_blk fn b) = Some e \<longrightarrow> used_var_exit e \<noteq> Some (SSAValue t a n))"

lemma phis_of_phi: "i \<in> set (phis_of fn A as b) \<Longrightarrow> is_phi_inst i \<and> sources i = cfg_pred fn b \<and>
    (\<exists>a\<in>set as. \<not> al_immutable (A a) \<and> defined_var i = Some (alloc_value A a))"
  by (auto simp: phis_of_def new_phi_def comp_def)

lemma phis_first_append: "\<forall>b\<in>set bs. b \<Longrightarrow> \<forall>b\<in>set cs. \<not> b \<Longrightarrow> phis_first (bs @ cs)"
proof (induction bs)
  case Nil
  then show ?case by (cases cs) auto
qed auto

lemma ssa_defs_empty: "(\<And>i t a n. i \<in> set is \<Longrightarrow> defined_var i \<noteq> Some (SSAValue t a n)) \<Longrightarrow> ssa_defs is = []"
  by (induction "is") (auto simp: ssa_defs_Cons ssa_defs_def List.map_filter_simps split: option.split left_value.split)

lemma phis_ok_added:
  assumes "before_ssa fn"
  shows "phis_ok (phis_added fn A as)"
  unfolding phis_ok_def
proof (intro ballI conjI)
  let ?g = "phis_added fn A as"
  note same = same_paths [of ?g fn, simplified]
  fix c assume c: "c \<in> set (fn_blocks ?g)"
  then have old: "\<forall>i\<in>set (bk_insts (fn_blk fn c)). \<not> is_phi_inst i \<and> (\<forall>t a n. defined_var i \<noteq> Some (SSAValue t a n))"
    using assms unfolding before_ssa_def vars_def by fastforce
  show "phis_first (map is_phi_inst (bk_insts (fn_blk ?g c)))"
    using old phis_of_phi by (auto intro!: phis_first_append)
  show "ssa_defs (bk_insts (fn_blk ?g c)) = []"
  proof (rule ssa_defs_empty)
    fix i t a n assume "i \<in> set (bk_insts (fn_blk ?g c))"
    then show "defined_var i \<noteq> Some (SSAValue t a n)"
      using old phis_of_phi [of i fn A as c] by (auto simp: alloc_value_def split: if_splits)
  qed
  fix i p assume i: "i \<in> set (bk_insts (fn_blk ?g c))" "p \<in> set (sources i)"
  have "i \<notin> set (bk_insts (fn_blk fn c))" using old i(2) by (cases i) auto
  then have "p \<in> set (cfg_pred fn c)" using i phis_of_phi [of i fn A as c] by auto
  then show "c \<in> set (cfg_succ ?g p)" by (simp add: cfg_pred_succ same)
qed

lemma cfg_ok_added: "cfg_ok fn \<Longrightarrow> cfg_ok (phis_added fn A as)"
  using same_paths [of "phis_added fn A as" fn]
  by (simp add: cfg_ok_def cfg_defined_def hasExit_def exit_succs_def block_targets_def reachable_def)

lemma tree_of_children:
  assumes "tree_ok fn (set (fn_blocks fn)) m" "enumerates arrange"
  shows "tree_of fn m (dom_children arrange m)"
proof -
  have d: "dom m = set (fn_blocks fn)" using assms(1) by (simp add: tree_ok_def)
  then have f: "finite (dom m)" by simp
  have "m b \<noteq> Some (Some b)" for b
  proof
    assume m: "m b = Some (Some b)"
    then have "b \<in> set (fn_blocks fn)" using d by blast
    then have "immediate_dominator fn b b" using assms(1) m unfolding tree_ok_def by fastforce
    then show False by (simp add: immediate_dominator_def strictly_dominates_def)
  qed
  then show ?thesis using d f assms(2) by (auto simp: tree_of_def dom_children_def)
qed

lemma tree_root:
  assumes "tree_ok fn (set (fn_blocks fn)) m" "b \<in> set (fn_blocks fn)"
  shows "b = hd (fn_blocks fn) \<and> m b = Some None \<or>
    b \<noteq> hd (fn_blocks fn) \<and> (\<exists>i. m b = Some (Some i) \<and> immediate_dominator fn i b)"
proof -
  obtain x where x: "m b = Some x" using assms by (auto simp: tree_ok_def)
  show ?thesis using assms x by (cases x) (auto simp: tree_ok_def)
qed

text \<open>The walk from the entrance reaches every block.\<close>

lemma walk_all:
  assumes ok: "cfg_ok fn" and tree: "tree_ok fn (set (fn_blocks fn)) m"
    and adds: "walk_adds m {hd (fn_blocks fn)} {} ci co D ci' co'" and b: "b \<in> set (fn_blocks fn)"
  shows "b \<in> D"
  using b
proof (induction "card {d. dominates fn d b}" arbitrary: b rule: less_induct)
  case less
  have r: "reachable fn b" using ok less.prems by (simp add: cfg_ok_def)
  have wf: "well_formed fn" using ok by (simp add: cfg_ok_def)
  consider "b = hd (fn_blocks fn)" | i where "m b = Some (Some i)" "immediate_dominator fn i b"
    using tree_root [OF tree less.prems] by blast
  then show ?case
  proof cases
    case 1
    then show ?thesis using adds by (simp add: walk_adds_def)
  next
    case 2
    have i: "dominates fn i b" "i \<noteq> b" using 2(2) by (simp_all add: immediate_dominator_def strictly_dominates_def)
    have "i \<in> D" by (rule less.hyps [OF dominators_less [OF i r] dominates_blocks [OF wf r i(1)]])
    then show ?thesis using adds 2(1) unfolding walk_adds_def by blast
  qed
qed

lemma map_args_id: "map_args (\<lambda>p v. v) i = i"
  by (cases i) (auto simp: map_idI)

lemma walk_ok_start: "walk_ok fn need m {} ci co (start_rename fn)"
proof -
  have a: "arg_at need {} co = (\<lambda>p v. v)" by (simp add: arg_at_def fun_eq_iff)
  have "block_core need {} ci co k b k (bk_insts k)" for k b
    by (auto simp: block_core_def a map_args_id intro!: map_idI [symmetric])
  then show ?thesis by (auto simp: walk_ok_def renamed_to_def ssa_distinct_def start_rename_def)
qed

definition renamed_func ::
  "ir_func \<Rightarrow> alloc_id set \<Rightarrow> (block_id \<Rightarrow> current) \<Rightarrow> (block_id \<Rightarrow> current) \<Rightarrow> ir_func \<Rightarrow> bool" where
  "renamed_func fn need ci co g \<longleftrightarrow>
     renamed_to fn need (set (fn_blocks fn)) ci co g \<and> (\<exists>ver. ssa_distinct (set (fn_blocks fn)) g ver) \<and>
     ci (hd (fn_blocks fn)) = Map.empty \<and>
     (\<forall>b\<in>set (fn_blocks fn). b \<noteq> hd (fn_blocks fn) \<longrightarrow> (\<exists>i. immediate_dominator fn i b \<and> ci b = co i))"

definition all_immutable :: "ir_func \<Rightarrow> alloc_store \<Rightarrow> alloc_store" where
  "all_immutable fn A = (\<lambda>a. if a \<in> func_allocs_set fn then (A a)\<lparr>al_immutable := True\<rparr> else A a)"

lemma rename_func_spec:
  assumes ok: "cfg_ok fn" and phis: "phis_ok fn" and arr: "enumerates arrange" and need: "needs_rename A fn \<noteq> {}"
  shows "\<exists>g ci co. rename_func arrange A fn = Some (Inr (True, g, all_immutable fn A)) \<and>
    renamed_func fn (needs_rename A fn) ci co g"
proof -
  let ?e = "hd (fn_blocks fn)" and ?need = "needs_rename A fn"
  have wf: "well_formed fn" using ok by (simp add: cfg_ok_def)
  have e: "?e \<in> set (fn_blocks fn)" using wf by simp
  obtain m where m: "dominators arrange fn = Some (Inr m)" "tree_ok fn (set (fn_blocks fn)) m"
    using dominators_of [of fn arrange] ok arr by (auto simp: cfg_ok_def)
  have root: "m ?e = Some None" using tree_root [OF m(2) e] by auto
  have fuel: "card (set (fn_blocks fn) - {}) < Suc (length (fn_blocks fn))"
    by (simp add: card_length less_Suc_eq_le)
  have "\<exists>st D ci co. rename_block (cfg_succ fn) (dom_children arrange m) ?need (Suc (length (fn_blocks fn))) ?e
        (start_rename fn) = Some st \<and> rn_stack st = rn_stack (start_rename fn) \<and> walk_ok fn ?need m D ci co st \<and>
      walk_adds m {?e} {} (\<lambda>b. Map.empty) (\<lambda>b. Map.empty) D ci co \<and> ci ?e = current_of (rn_stack (start_rename fn))"
    by (rule rename_block_walk [OF phis tree_of_children [OF m(2) arr] walk_ok_start fuel e]) (use root in simp_all)
  then obtain st D ci co where w: "rename_block (cfg_succ fn) (dom_children arrange m) ?need (Suc (length (fn_blocks fn))) ?e
        (start_rename fn) = Some st" "walk_ok fn ?need m D ci co st" "walk_adds m {?e} {} (\<lambda>b. Map.empty) (\<lambda>b. Map.empty) D ci co"
        "ci ?e = current_of (rn_stack (start_rename fn))"
    by blast
  have D: "D = set (fn_blocks fn)"
    using walk_all [OF ok m(2) w(3)] w(2) by (auto simp: walk_ok_def)
  have "ci ?e = Map.empty" by (simp add: w(4) start_rename_def current_of_def fun_eq_iff)
  moreover have "\<exists>i. immediate_dominator fn i b \<and> ci b = co i" if b: "b \<in> set (fn_blocks fn)" "b \<noteq> ?e" for b
  proof -
    obtain p where "m b = Some (Some p)" "ci b = co p" using w(3) b unfolding walk_adds_def D by blast
    then show ?thesis using tree_root [OF m(2) b(1)] b(2) by auto
  qed
  ultimately have "renamed_func fn ?need ci co (rn_fn st)"
    using w(2) unfolding renamed_func_def walk_ok_def D by blast
  moreover have "rename_func arrange A fn = Some (Inr (True, rn_fn st, all_immutable fn A))"
    using need by (simp add: rename_func_def m(1) entrance_hd [OF wf] w(1) all_immutable_def del: rename_block.simps)
  ultimately show ?thesis by blast
qed

section \<open>Versions at the joins\<close>

text \<open>Renaming changes the current version of a variable only where it is defined.\<close>

lemma renamed_unchanged:
  "renamed need cur is is' cur' \<Longrightarrow> (\<And>i d. i \<in> set is \<Longrightarrow> defined_var i = Some d \<Longrightarrow> named_alloc d \<noteq> Some a) \<Longrightarrow> cur' a = cur a"
proof (induction rule: renamed.induct)
  case (version i d b s n cur "is" is' cur')
  then have "b \<noteq> a" by auto
  then show ?case using version by auto
qed auto

lemma named_alloc_key: "named_alloc d = Some a \<longleftrightarrow> key_of d = K_named (Def_alloc a)"
proof (cases d)
  case (NamedValue t x)
  then show ?thesis by (cases x) auto
qed auto

text \<open>
  A predecessor ends with the version of a live variable that the immediate dominator ends with, unless
  the block has a phi for it: a definition on the way down from the dominator would put the block into a
  frontier.
\<close>

lemma versions_at_join:
  assumes ok: "cfg_ok fn" and r: "renamed_func (phis_added fn A as) need ci co g"
    and a: "a \<in> set as" "\<not> al_immutable (A a)"
    and b: "b \<in> set (fn_blocks fn)" "b \<noteq> hd (fn_blocks fn)" "p \<in> set (cfg_pred fn b)"
    and live: "live_into fn (alloc_value A a) b" and no: "b \<notin> phi_blocks fn (alloc_value A a)"
  shows "co p a = ci b a"
proof -
  let ?v = "alloc_value A a" and ?g = "phis_added fn A as"
  note same = same_paths [of ?g fn, simplified]
  have wf: "well_formed fn" using ok by (simp add: cfg_ok_def)
  have dom: "immediate_dominator ?g = immediate_dominator fn"
    by (simp add: fun_eq_iff immediate_dominator_def strictly_dominates_def dominates_def same)
  have reach: "reachable fn c" if "c \<in> set (fn_blocks fn)" for c using ok that by (simp add: cfg_ok_def)
  obtain i where i: "immediate_dominator fn i b" "ci b = co i"
    using r b(1,2) by (auto simp: renamed_func_def dom)
  have ib: "dominates fn i b" "i \<noteq> b" using i(1) by (simp_all add: immediate_dominator_def strictly_dominates_def)
  have p: "p \<in> set (fn_blocks fn)" using b(3) by (simp add: cfg_pred_def)
  have ip: "dominates fn i p" using dominates_pred [OF ib] b(3) by (simp add: cfg_pred_succ)
  have "co c a = co i a" if "dominates fn c p" "dominates fn i c" for c
    using that
  proof (induction "card {d. dominates fn d c}" arbitrary: c rule: less_induct)
    case less
    have c: "c \<in> set (fn_blocks fn)" using dominates_blocks [OF wf reach [OF p] less.prems(1)] .
    show ?case
    proof (cases "c = i")
      case False
      have "\<not> strictly_dominates fn c b"
      proof
        assume "strictly_dominates fn c b"
        then have "dominates fn c i" using immediate_dominates [OF i(1) reach [OF b(1)]] by simp
        then show False using dominates_antisym [OF less.prems(2) _ reach [OF c]] False by simp
      qed
      then have front: "b \<in> frontier_of fn c" using b less.prems(1) by (auto simp: frontier_of_def)
      then have nodef: "c \<notin> def_blocks fn ?v" and nophi: "c \<notin> phi_blocks fn ?v"
        using no live phi_blocks.intros by blast+
      have entry: "c \<noteq> hd (fn_blocks fn)" using dominates_entry [OF wf, of i] less.prems(2) False by auto
      then obtain j where j: "immediate_dominator fn j c" "ci c = co j"
        using r c by (auto simp: renamed_func_def dom)
      have jc: "dominates fn j c" "j \<noteq> c" using j(1) by (simp_all add: immediate_dominator_def strictly_dominates_def)
      obtain core where core: "renamed need (ci c) (phis_of fn A as c @ bk_insts (fn_blk fn c)) core (co c)"
        using r c by (auto simp: renamed_func_def renamed_to_def block_core_def)
      have "named_alloc d \<noteq> Some a"
        if x: "x \<in> set (phis_of fn A as c @ bk_insts (fn_blk fn c))" "defined_var x = Some d" for x d
      proof (cases "x \<in> set (bk_insts (fn_blk fn c))")
        case True
        then have "\<not> lv_eq d ?v" using nodef c x(2) unfolding def_blocks_def by blast
        then show ?thesis by (simp add: named_alloc_key lv_eq_def)
      next
        case False
        then obtain a' where "d = alloc_value A a'" "c \<in> phi_blocks fn (alloc_value A a')"
          using x by (auto simp: phis_of_def new_phi_def)
        then show ?thesis using nophi by (auto simp: named_alloc_key)
      qed
      then have "co c a = ci c a" using renamed_unchanged [OF core] by blast
      moreover have "dominates fn i j"
        using immediate_dominates [OF j(1) reach [OF c]] less.prems(2) False by (simp add: strictly_dominates_def)
      then have "co j a = co i a"
        using less.hyps [OF dominators_less [OF jc reach [OF c]]] dominates_trans [OF jc(1) less.prems(1)] by simp
      ultimately show ?thesis using j(2) by simp
    qed simp
  qed
  from this [OF dominates_refl ip] show ?thesis by (simp add: i(2))
qed

end
