(* ===== verification/Ssa_Run.thy ===== *)
theory Ssa_Run
  imports Ssa_Sound
begin

text \<open>
  The machine that runs a function before and after the construction of SSA form, and the proof that
  the two runs agree step by step.
\<close>

section \<open>The machine\<close>

text \<open>
  A variable always has a value, as its memory is initialised. \<open>mc_op\<close> says what an operation does with
  the typed values of its operands and the rest of the state; phi instructions copy at once, as in
  \<open>VirtualMachine::execute\<close>.
\<close>

datatype operation = Do_unary unary_inst_op | Do_binary inst_op | Do_call ty name_def

record ('v, 'w) machine =
  mc_const :: "constexpr \<Rightarrow> 'v"
  mc_op :: "operation \<Rightarrow> ty option \<Rightarrow> (ty \<times> 'v) list \<Rightarrow> 'w \<Rightarrow> ('v \<times> 'w) result"
  mc_test :: "'v \<Rightarrow> bool result"

fun operation_of :: "inst \<Rightarrow> operation option" where
  "operation_of (Phi r args) = None"
| "operation_of (Unary op r x) = Some (Do_unary op)"
| "operation_of (Binary op r x y) = Some (Do_binary op)"
| "operation_of (CallI r t f args) = Some (Do_call t f)"

type_synonym 'v vars_env = "lv_key \<Rightarrow> 'v"

fun val_of :: "('v, 'w) machine \<Rightarrow> 'v vars_env \<Rightarrow> val \<Rightarrow> 'v" where
  "val_of M env (Const c) = mc_const M c"
| "val_of M env (val.Left l) = env (key_of l)"

definition put_result :: "left_value option \<Rightarrow> 'v \<Rightarrow> 'v vars_env \<Rightarrow> 'v vars_env" where
  "put_result r v env = (case r of None \<Rightarrow> env | Some d \<Rightarrow> env(key_of d := v))"

definition run_inst :: "('v, 'w) machine \<Rightarrow> inst \<Rightarrow> 'v vars_env \<times> 'w \<Rightarrow> ('v vars_env \<times> 'w) result" where
  "run_inst M i s =
     (case operation_of i of
        None \<Rightarrow> Inl (Compiler_error ''Phi instruction must be at the beginning of a block'')
      | Some op \<Rightarrow>
          rbind (mc_op M op (map_option type_of_lv (defined_var i)) (map (\<lambda>x. (type_of x, val_of M (fst s) x)) (used i)) (snd s))
            (\<lambda>(v, w). Inr (put_result (defined_var i) v (fst s), w)))"

fun read_phis :: "('v, 'w) machine \<Rightarrow> block_id option \<Rightarrow> 'v vars_env \<Rightarrow> inst list \<Rightarrow> ((left_value option \<times> 'v) list \<times> inst list) result" where
  "read_phis M prev env (Phi r args # is) =
     (case prev of
        None \<Rightarrow> Inl (Compiler_error ''Block not found in PhiInst'')
      | Some p \<Rightarrow>
          rbind (phi_value args p) (\<lambda>x. rbind (read_phis M prev env is) (\<lambda>(ws, rest). Inr ((r, val_of M env x) # ws, rest))))"
| "read_phis M prev env is = Inr ([], is)"

fun run_exit :: "('v, 'w) machine \<Rightarrow> 'v vars_env \<Rightarrow> ir_exit \<Rightarrow> (block_id option \<times> 'v option) result" where
  "run_exit M env (JumpExit t) = Inr (Some t, None)"
| "run_exit M env (BranchExit c t f) = rbind (mc_test M (val_of M env c)) (\<lambda>b. Inr (if b then t else f, None))"
| "run_exit M env (ReturnExit x) = Inr (None, Some (val_of M env x))"

definition run_block ::
  "('v, 'w) machine \<Rightarrow> ir_func \<Rightarrow> block_id option \<Rightarrow> block_id \<Rightarrow> 'v vars_env \<times> 'w \<Rightarrow>
     ((block_id option \<times> 'v option) \<times> 'v vars_env \<times> 'w) result" where
  "run_block M fn prev b s =
     rbind (read_phis M prev (fst s) (bk_insts (fn_blk fn b))) (\<lambda>(ws, rest).
     rbind (rfold (run_inst M) rest (fold (\<lambda>(r, v). put_result r v) ws (fst s), snd s)) (\<lambda>s1.
     rbind (get_exit (fn_blk fn b)) (\<lambda>e.
     rbind (run_exit M (fst s1) e) (\<lambda>nx. Inr (nx, s1)))))"

fun run_from :: "('v, 'w) machine \<Rightarrow> ir_func \<Rightarrow> nat \<Rightarrow> block_id option \<Rightarrow> block_id \<Rightarrow> 'v vars_env \<times> 'w \<Rightarrow> ('v option \<times> 'w) result" where
  "run_from M fn 0 prev b s = Inl (Undefined ''out of fuel'')"
| "run_from M fn (Suc n) prev b s =
     rbind (run_block M fn prev b s) (\<lambda>((next, v), s1).
       case next of None \<Rightarrow> Inr (v, snd s1) | Some c \<Rightarrow> run_from M fn n (Some b) c s1)"

definition run_func :: "('v, 'w) machine \<Rightarrow> ir_func \<Rightarrow> nat \<Rightarrow> 'v vars_env \<Rightarrow> 'w \<Rightarrow> ('v option \<times> 'w) result" where
  "run_func M fn n env w = rbind (entrance fn) (\<lambda>b. run_from M fn n None b (env, w))"

section \<open>Instructions in lock step\<close>

definition cur_key :: "current \<Rightarrow> alloc_id \<Rightarrow> lv_key" where
  "cur_key cur a = (case cur a of None \<Rightarrow> K_named (Def_alloc a) | Some s \<Rightarrow> key_of s)"

definition cur_ok :: "alloc_store \<Rightarrow> current \<Rightarrow> bool" where
  "cur_ok A cur \<longleftrightarrow> (\<forall>a s. cur a = Some s \<longrightarrow> (\<exists>n. s = SSAValue (type_of_lv (alloc_value A a)) a n))"

fun kept_key :: "alloc_id set \<Rightarrow> lv_key \<Rightarrow> bool" where
  "kept_key need (K_named (Def_alloc a)) \<longleftrightarrow> a \<notin> need"
| "kept_key need (K_ssa a n) \<longleftrightarrow> False"
| "kept_key need k \<longleftrightarrow> True"

definition follows :: "alloc_id set \<Rightarrow> current \<Rightarrow> (lv_key \<Rightarrow> bool) \<Rightarrow> 'v vars_env \<Rightarrow> 'v vars_env \<Rightarrow> bool" where
  "follows need cur L env env' \<longleftrightarrow>
     (\<forall>a\<in>need. L (K_named (Def_alloc a)) \<longrightarrow> env' (cur_key cur a) = env (K_named (Def_alloc a))) \<and>
     (\<forall>k. kept_key need k \<longrightarrow> env' k = env k)"

fun fits_var :: "alloc_store \<Rightarrow> alloc_id set \<Rightarrow> left_value \<Rightarrow> bool" where
  "fits_var A need (NamedValue t (Def_alloc a)) \<longleftrightarrow> (a \<in> need \<longrightarrow> t = type_of_lv (alloc_value A a))"
| "fits_var A need (SSAValue t a n) \<longleftrightarrow> False"
| "fits_var A need l \<longleftrightarrow> True"

lemma subst_cur_value:
  assumes "follows need cur L env env'" "cur_ok A cur" "fits_var A need l" "L (key_of l)"
  shows "type_of_lv (subst_cur need cur l) = type_of_lv l \<and> env' (key_of (subst_cur need cur l)) = env (key_of l)"
proof (cases "\<exists>t a. l = NamedValue t (Def_alloc a) \<and> a \<in> need")
  case True
  then obtain t a where l: "l = NamedValue t (Def_alloc a)" "a \<in> need" by blast
  then have e: "env' (cur_key cur a) = env (key_of l)" using assms(1,4) by (simp add: follows_def)
  show ?thesis
  proof (cases "cur a")
    case None
    then show ?thesis using l e by (simp add: subst_cur_def cur_key_def)
  next
    case (Some s)
    then obtain n where "s = SSAValue (type_of_lv (alloc_value A a)) a n" using assms(2) by (auto simp: cur_ok_def)
    then show ?thesis using l e Some assms(3) by (simp add: subst_cur_def cur_key_def)
  qed
next
  case False
  then have "subst_cur need cur l = l" "kept_key need (key_of l)"
    using assms(3) by (cases l rule: named_alloc.cases; auto simp: subst_cur_def split: option.split)+
  then show ?thesis using assms(1) by (simp add: follows_def)
qed

lemma map_val_value:
  assumes "follows need cur L env env'" "cur_ok A cur" "\<And>l. x = val.Left l \<Longrightarrow> fits_var A need l \<and> L (key_of l)"
  shows "type_of (map_val (subst_cur need cur) x) = type_of x \<and> val_of M env' (map_val (subst_cur need cur) x) = val_of M env x"
  using subst_cur_value [OF assms(1,2)] assms(3) by (cases x) auto

lemma used_map_used: "\<not> is_phi_inst i \<Longrightarrow> used (map_used f i) = map (map_val f) (used i)"
  by (cases i) simp_all

lemma used_set_def [simp]: "used (set_def s i) = used i"
  by (cases i) simp_all

lemma operation_maps [simp]: "operation_of (map_used f i) = operation_of i" "operation_of (set_def s i) = operation_of i"
  by (cases i; simp)+

lemma operands_value:
  assumes "follows need cur L env env'" "cur_ok A cur" "\<not> is_phi_inst i"
    and "\<forall>l\<in>set (used_vars i). fits_var A need l \<and> L (key_of l)"
  shows "map (\<lambda>x. (type_of x, val_of M env' x)) (used (map_used (subst_cur need cur) i)) =
    map (\<lambda>x. (type_of x, val_of M env x)) (used i)"
proof -
  have "type_of (map_val (subst_cur need cur) x) = type_of x \<and> val_of M env' (map_val (subst_cur need cur) x) = val_of M env x"
    if "x \<in> set (used i)" for x
  proof (rule map_val_value [OF assms(1,2)])
    fix l assume "x = val.Left l"
    then show "fits_var A need l \<and> L (key_of l)"
      using assms(4) that by (force simp: used_vars_def List.map_filter_def as_var_Some)
  qed
  then show ?thesis by (simp add: used_map_used [OF assms(3)])
qed

text \<open>The variables live before a list of instructions.\<close>

fun live_list :: "inst list \<Rightarrow> (lv_key \<Rightarrow> bool) \<Rightarrow> lv_key \<Rightarrow> bool" where
  "live_list [] L x \<longleftrightarrow> L x"
| "live_list (i # is) L x \<longleftrightarrow> uses_key i x \<or> \<not> defines_key i x \<and> live_list is L x"

lemma follows_mono: "follows need cur L env env' \<Longrightarrow> (\<And>x. K x \<Longrightarrow> L x) \<Longrightarrow> follows need cur K env env'"
  by (auto simp: follows_def)

lemma follows_keep:
  assumes "follows need cur L env env'" "cur_ok A cur" "\<And>d a. r = Some d \<Longrightarrow> named_alloc d = Some a \<Longrightarrow> a \<notin> need"
    and "\<And>d. r = Some d \<Longrightarrow> fits_var A need d" "\<And>x. K x \<Longrightarrow> (\<forall>d. r = Some d \<longrightarrow> key_of d \<noteq> x) \<Longrightarrow> L x"
  shows "follows need cur K (put_result r v env) (put_result r v env')"
proof (cases r)
  case None
  then show ?thesis using assms(1,5) by (auto simp: put_result_def intro: follows_mono)
next
  case (Some d)
  have k: "kept_key need (key_of d)"
    using assms(3,4) Some by (cases d rule: named_alloc.cases) auto
  have ne: "cur_key cur a \<noteq> key_of d" "K_named (Def_alloc a) \<noteq> key_of d" if a: "a \<in> need" for a
  proof -
    show n: "K_named (Def_alloc a) \<noteq> key_of d" using k a by (metis kept_key.simps(1))
    show "cur_key cur a \<noteq> key_of d"
    proof (cases "cur a")
      case (Some s)
      then obtain m where "s = SSAValue (type_of_lv (alloc_value A a)) a m" using assms(2) by (auto simp: cur_ok_def)
      then show ?thesis using k Some by (cases "key_of d") (auto simp: cur_key_def)
    qed (use n in \<open>simp add: cur_key_def\<close>)
  qed
  have L: "L x" if "K x" "key_of d \<noteq> x" for x using assms(5) that Some by simp
  show ?thesis
    unfolding Some follows_def put_result_def option.case
  proof (intro conjI ballI allI impI)
    fix a assume a: "a \<in> need" "K (K_named (Def_alloc a))"
    then have "L (K_named (Def_alloc a))" using L ne(2) by metis
    then have "env' (cur_key cur a) = env (K_named (Def_alloc a))"
      using assms(1) a(1) unfolding follows_def by blast
    then show "(env'(key_of d := v)) (cur_key cur a) = (env(key_of d := v)) (K_named (Def_alloc a))"
      using ne [OF a(1)] by simp
  qed (use assms(1) in \<open>simp add: follows_def\<close>)
qed

lemma follows_version:
  assumes "follows need cur L env env'" "cur_ok A cur" "named_alloc d = Some a" "a \<in> need"
    and "\<And>x. K x \<Longrightarrow> key_of d \<noteq> x \<Longrightarrow> L x"
  shows "follows need (cur(a \<mapsto> SSAValue t a n)) K (put_result (Some d) v env) (put_result (Some (SSAValue t a n)) v env')"
proof -
  have d: "key_of d = K_named (Def_alloc a)" using assms(3) by (simp add: named_alloc_key)
  have "cur_key cur b \<noteq> K_ssa a n" if "b \<noteq> a" for b
    using that assms(2) by (cases "cur b") (force simp: cur_key_def cur_ok_def)+
  then show ?thesis using assms(1,4,5) d by (auto simp: follows_def put_result_def cur_key_def)
qed

text \<open>Two results agree: the same error, or related states.\<close>

abbreviation agree_res :: "('a \<Rightarrow> 'b \<Rightarrow> bool) \<Rightarrow> 'a result \<Rightarrow> 'b result \<Rightarrow> bool" where
  "agree_res R \<equiv> rel_sum (=) R"

lemma agree_bind:
  "agree_res R r r' \<Longrightarrow> (\<And>x y. R x y \<Longrightarrow> agree_res S (f x) (f' y)) \<Longrightarrow> agree_res S (rbind r f) (rbind r' f')"
  by (cases r; cases r') auto

definition state_follows ::
  "alloc_id set \<Rightarrow> current \<Rightarrow> (lv_key \<Rightarrow> bool) \<Rightarrow> 'v vars_env \<times> 'w \<Rightarrow> 'v vars_env \<times> 'w \<Rightarrow> bool" where
  "state_follows need cur L s s' \<longleftrightarrow> follows need cur L (fst s) (fst s') \<and> snd s' = snd s"

definition plain_inst :: "alloc_store \<Rightarrow> alloc_id set \<Rightarrow> inst \<Rightarrow> bool" where
  "plain_inst A need i \<longleftrightarrow> \<not> is_phi_inst i \<and> (\<forall>l\<in>set (vars i). fits_var A need l)"

lemma plain_inst_vars:
  assumes "plain_inst A need i"
  shows "\<not> is_phi_inst i" "\<forall>l\<in>set (used_vars i). fits_var A need l" "\<And>d. defined_var i = Some d \<Longrightarrow> fits_var A need d"
  using assms by (auto simp: plain_inst_def vars_def)

lemma uses_key_plain: "\<not> is_phi_inst i \<Longrightarrow> uses_key i x \<longleftrightarrow> x \<in> key_of ` set (used_vars i)"
  by (cases i) (auto simp: uses_key_def)

lemma run_inst_agree:
  assumes "state_follows need cur (live_list (i # is) L) s s'" "cur_ok A cur" "plain_inst A need i"
    and step: "\<And>v. follows need cur' (live_list is L) (put_result (defined_var i) v (fst s)) (put_result (defined_var i') v (fst s'))"
    and i': "operation_of i' = operation_of i" "used i' = used (map_used (subst_cur need cur) i)"
      "map_option type_of_lv (defined_var i') = map_option type_of_lv (defined_var i)"
  shows "agree_res (state_follows need cur' (live_list is L)) (run_inst M i s) (run_inst M i' s')"
proof -
  have f: "follows need cur (live_list (i # is) L) (fst s) (fst s')" "snd s' = snd s"
    using assms(1) by (simp_all add: state_follows_def)
  have "\<forall>l\<in>set (used_vars i). fits_var A need l \<and> live_list (i # is) L (key_of l)"
    using plain_inst_vars [OF assms(3)] by (simp add: uses_key_plain)
  then have ops: "map (\<lambda>x. (type_of x, val_of M (fst s') x)) (used i') = map (\<lambda>x. (type_of x, val_of M (fst s) x)) (used i)"
    using operands_value [OF f(1) assms(2) plain_inst_vars(1) [OF assms(3)]] by (simp add: i'(2))
  obtain op where op: "operation_of i = Some op" using plain_inst_vars(1) [OF assms(3)] by (cases i) auto
  have eq: "rel_sum (=) (=) r r" for r :: "('v \<times> 'w) result" by (cases r) auto
  show ?thesis
    unfolding run_inst_def i'(1,3) op option.case ops f(2)
    by (rule agree_bind [OF eq]) (use step in \<open>auto simp: state_follows_def\<close>)
qed

lemma version_type:
  "fits_var A need d \<Longrightarrow> named_alloc d = Some a \<Longrightarrow> a \<in> need \<Longrightarrow> type_of_lv d = type_of_lv (alloc_value A a)"
  by (cases d rule: named_alloc.cases) auto

lemma renamed_cur_ok:
  "renamed need cur is is' cur' \<Longrightarrow> (\<And>i d. i \<in> set is \<Longrightarrow> defined_var i = Some d \<Longrightarrow> fits_var A need d) \<Longrightarrow> cur_ok A cur \<Longrightarrow> cur_ok A cur'"
proof (induction rule: renamed.induct)
  case (version i d a s n cur "is" is' cur')
  have "cur_ok A (cur(a \<mapsto> s))"
    using version.prems(2) version_type [OF version.prems(1) version.hyps(2,3)] version.hyps(1,4) by (auto simp: cur_ok_def)
  then show ?case by (rule version.IH [rotated]) (rule version.prems(1), simp_all)
qed auto

text \<open>A renamed list of instructions runs in lock step with the original.\<close>

lemma run_insts_agree:
  assumes "renamed need cur is is' cur'" "\<forall>i\<in>set is. plain_inst A need i"
  shows "cur_ok A cur \<Longrightarrow> state_follows need cur (live_list is L) s s' \<Longrightarrow>
    agree_res (state_follows need cur' L) (rfold (run_inst M) is s) (rfold (run_inst M) is' s')"
  using assms
proof (induction arbitrary: s s' rule: renamed.induct)
  case (stop cur)
  then show ?case by (auto simp: state_follows_def elim: follows_mono)
next
  case (keep i cur "is" is' cur')
  have plain: "plain_inst A need i" using keep.prems(3) by simp
  let ?i = "map_used (subst_cur need cur) i"
  have f: "follows need cur (live_list (i # is) L) (fst s) (fst s')" using keep.prems(2) unfolding state_follows_def by (rule conjunct1)
  have "follows need cur (live_list is L) (put_result (defined_var i) v (fst s)) (put_result (defined_var ?i) v (fst s'))" for v
    unfolding defined_map_used
    by (rule follows_keep [OF f keep.prems(1) keep.hyps(1) plain_inst_vars(3) [OF plain]]) (auto simp: defines_key_def split: option.split)
  then have "agree_res (state_follows need cur (live_list is L)) (run_inst M i s) (run_inst M ?i s')"
    by (intro run_inst_agree [OF keep.prems(2,1) plain]) simp_all
  then show ?case
    using keep.IH keep.prems(1,3) by (auto intro!: agree_bind [where R = "state_follows need cur (live_list is L)"])
next
  case (version i d a s0 n cur "is" is' cur')
  have plain: "plain_inst A need i" using version.prems(3) by simp
  let ?i = "set_def s0 (map_used (subst_cur need cur) i)"
  let ?cur = "cur(a \<mapsto> s0)"
  have t: "type_of_lv d = type_of_lv (alloc_value A a)"
    using version_type [OF plain_inst_vars(3) [OF plain version.hyps(1)] version.hyps(2,3)] .
  have ok: "cur_ok A ?cur" using version.prems(1) by (auto simp: cur_ok_def version.hyps(4) t)
  have f: "follows need cur (live_list (i # is) L) (fst s) (fst s')" using version.prems(2) unfolding state_follows_def by (rule conjunct1)
  have "follows need ?cur (live_list is L) (put_result (defined_var i) v (fst s)) (put_result (defined_var ?i) v (fst s'))" for v
    unfolding version.hyps(1,4) defined_set_def
    by (rule follows_version [OF f version.prems(1) version.hyps(2,3)]) (simp add: defines_key_def version.hyps(1))
  then have "agree_res (state_follows need ?cur (live_list is L)) (run_inst M i s) (run_inst M ?i s')"
    by (intro run_inst_agree [OF version.prems(2,1) plain]) (simp_all add: version.hyps(1,4))
  moreover have "agree_res (state_follows need cur' L) (rfold (run_inst M) is x) (rfold (run_inst M) is' y)"
    if "state_follows need ?cur (live_list is L) x y" for x y
    by (rule version.IH [OF ok that]) (use version.prems(3) in simp)
  ultimately show ?case by (simp only: rfold.simps) (rule agree_bind)
qed

section \<open>Phi instructions\<close>

lemma renamed_Cons:
  "renamed need cur (i # is) zs cur' \<Longrightarrow>
     (\<exists>is'. zs = map_used (subst_cur need cur) i # is' \<and>
        (\<forall>d a. defined_var i = Some d \<longrightarrow> named_alloc d = Some a \<longrightarrow> a \<notin> need) \<and> renamed need cur is is' cur') \<or>
     (\<exists>d a n is'. defined_var i = Some d \<and> named_alloc d = Some a \<and> a \<in> need \<and>
        zs = set_def (SSAValue (type_of_lv d) a n) (map_used (subst_cur need cur) i) # is' \<and>
        renamed need (cur(a \<mapsto> SSAValue (type_of_lv d) a n)) is is' cur')"
  by (erule renamed.cases) auto

lemma renamed_append:
  "renamed need cur (xs @ ys) zs cur2 \<Longrightarrow>
     \<exists>xs' ys' cur1. zs = xs' @ ys' \<and> renamed need cur xs xs' cur1 \<and> renamed need cur1 ys ys' cur2"
proof (induction xs arbitrary: cur zs)
  case Nil
  then show ?case using renamed.stop by fastforce
next
  case (Cons x xs)
  have "renamed need cur (x # (xs @ ys)) zs cur2" using Cons.prems by simp
  then consider (keep) is' where "zs = map_used (subst_cur need cur) x # is'"
      "\<forall>d a. defined_var x = Some d \<longrightarrow> named_alloc d = Some a \<longrightarrow> a \<notin> need" "renamed need cur (xs @ ys) is' cur2"
    | (version) d a n is' where "defined_var x = Some d" "named_alloc d = Some a" "a \<in> need"
        "zs = set_def (SSAValue (type_of_lv d) a n) (map_used (subst_cur need cur) x) # is'"
        "renamed need (cur(a \<mapsto> SSAValue (type_of_lv d) a n)) (xs @ ys) is' cur2"
    using renamed_Cons by blast
  then show ?case
  proof cases
    case keep
    obtain xs' ys' cur1 where x: "is' = xs' @ ys'" "renamed need cur xs xs' cur1" "renamed need cur1 ys ys' cur2"
      using Cons.IH [OF keep(3)] by blast
    have "renamed need cur (x # xs) (map_used (subst_cur need cur) x # xs') cur1"
      by (rule renamed.keep [OF _ x(2)]) (use keep(2) in blast)
    then show ?thesis using x keep(1) by (metis append_Cons)
  next
    case version
    obtain xs' ys' cur1 where x: "is' = xs' @ ys'" "renamed need (cur(a \<mapsto> SSAValue (type_of_lv d) a n)) xs xs' cur1"
        "renamed need cur1 ys ys' cur2"
      using Cons.IH [OF version(5)] by blast
    show ?thesis using renamed.version [OF version(1-3) refl x(2)] x version(4) by (metis append_Cons)
  qed
qed

lemma phi_value_map: "p \<in> set ps \<Longrightarrow> phi_value (map (\<lambda>p. (p, f p)) ps) p = Inr (f p)"
  by (induction ps) auto

lemma named_alloc_value [simp]: "named_alloc (alloc_value A a) = Some a"
  by (simp add: alloc_value_def)

lemma read_phis_renamed:
  assumes "renamed need cur (map (\<lambda>a. new_phi pred (alloc_value A a) b) ps) xs' cur1" "set ps \<subseteq> need" "p \<in> set (pred b)"
    and "\<And>a. a \<in> set ps \<Longrightarrow> val_of M env' (h p (val.Left (alloc_value A a))) = v a"
    and "\<forall>i\<in>set rest. \<not> is_phi_inst i" "cur_ok A cur"
  shows "\<exists>ws. read_phis M (Some p) env' (map (map_args h) xs' @ rest) = Inr (ws, rest) \<and> cur_ok A cur1 \<and>
    (\<forall>L e e'. follows need cur (\<lambda>x. L x \<and> x \<notin> (\<lambda>a. K_named (Def_alloc a)) ` set ps) e e' \<longrightarrow>
       (\<forall>a\<in>set ps. e (K_named (Def_alloc a)) = v a) \<longrightarrow> follows need cur1 L e (fold (\<lambda>(r, v). put_result r v) ws e'))"
  using assms
proof (induction ps arbitrary: cur xs')
  case Nil
  then have x: "xs' = []" "cur1 = cur" by (auto elim: renamed.cases)
  have "read_phis M (Some p) env' rest = Inr ([], rest)"
    using Nil.prems(5) by (cases rest; cases "hd rest") auto
  then show ?case using x Nil.prems(6) by auto
next
  case (Cons a ps)
  let ?i = "new_phi pred (alloc_value A a) b"
  obtain xs1 n where r: "xs' = set_def (SSAValue (type_of_lv (alloc_value A a)) a n) (map_used (subst_cur need cur) ?i) # xs1"
      "renamed need (cur(a \<mapsto> SSAValue (type_of_lv (alloc_value A a)) a n)) (map (\<lambda>a. new_phi pred (alloc_value A a) b) ps) xs1 cur1"
    using renamed_Cons [of need cur ?i "map (\<lambda>a. new_phi pred (alloc_value A a) b) ps" xs' cur1] Cons.prems(1,2)
    by (auto simp: new_phi_def)
  let ?s = "SSAValue (type_of_lv (alloc_value A a)) a n"
  have ok: "cur_ok A (cur(a \<mapsto> ?s))" using Cons.prems(6) by (auto simp: cur_ok_def)
  have "\<exists>ws. read_phis M (Some p) env' (map (map_args h) xs1 @ rest) = Inr (ws, rest) \<and> cur_ok A cur1 \<and>
    (\<forall>L e e'. follows need (cur(a \<mapsto> ?s)) (\<lambda>x. L x \<and> x \<notin> (\<lambda>a. K_named (Def_alloc a)) ` set ps) e e' \<longrightarrow>
       (\<forall>a\<in>set ps. e (K_named (Def_alloc a)) = v a) \<longrightarrow> follows need cur1 L e (fold (\<lambda>(r, v). put_result r v) ws e'))"
    by (rule Cons.IH [OF r(2) _ Cons.prems(3) _ Cons.prems(5) ok]) (use Cons.prems(2,4) in simp_all)
  then obtain ws where ws: "read_phis M (Some p) env' (map (map_args h) xs1 @ rest) = Inr (ws, rest)" "cur_ok A cur1"
      "\<And>L e e'. follows need (cur(a \<mapsto> ?s)) (\<lambda>x. L x \<and> x \<notin> (\<lambda>a. K_named (Def_alloc a)) ` set ps) e e' \<Longrightarrow>
         (\<forall>a\<in>set ps. e (K_named (Def_alloc a)) = v a) \<Longrightarrow> follows need cur1 L e (fold (\<lambda>(r, v). put_result r v) ws e')"
    by blast
  have read: "read_phis M (Some p) env' (map (map_args h) xs' @ rest) = Inr ((Some ?s, v a) # ws, rest)"
    using ws(1) Cons.prems(3,4) by (simp add: r(1) new_phi_def comp_def phi_value_map)
  have "follows need cur1 L e (fold (\<lambda>(r, v). put_result r v) ((Some ?s, v a) # ws) e')"
    if f: "follows need cur (\<lambda>x. L x \<and> x \<notin> (\<lambda>a. K_named (Def_alloc a)) ` set (a # ps)) e e'"
      and e: "\<forall>a\<in>set (a # ps). e (K_named (Def_alloc a)) = v a" for L e e'
  proof -
    have "put_result (Some (alloc_value A a)) (v a) e = e" using e by (auto simp: put_result_def)
    moreover have "a \<in> need" using Cons.prems(2) by simp
    ultimately have "follows need (cur(a \<mapsto> ?s)) (\<lambda>x. L x \<and> x \<notin> (\<lambda>a. K_named (Def_alloc a)) ` set ps) e (put_result (Some ?s) (v a) e')"
      using follows_version [OF f Cons.prems(6) named_alloc_value [of A a], where K = "\<lambda>x. L x \<and> x \<notin> (\<lambda>a. K_named (Def_alloc a)) ` set ps" and v = "v a"]
      by auto
    then show ?thesis using ws(3) e by simp
  qed
  then show ?case using read ws(2) by blast
qed

section \<open>Blocks and functions\<close>

definition ssa_ready :: "alloc_store \<Rightarrow> ir_func \<Rightarrow> bool" where
  "ssa_ready A fn \<longleftrightarrow>
     cfg_ok fn \<and> cfg_pred fn (hd (fn_blocks fn)) = [] \<and>
     (\<forall>b\<in>set (fn_blocks fn). (\<forall>i\<in>set (bk_insts (fn_blk fn b)). plain_inst A (needs_rename A fn) i) \<and>
        (\<forall>e l. bk_exit (fn_blk fn b) = Some e \<longrightarrow> used_var_exit e = Some l \<longrightarrow> fits_var A (needs_rename A fn) l))"

lemma ssa_ready_before: "ssa_ready A fn \<Longrightarrow> before_ssa fn"
  by (fastforce simp: ssa_ready_def before_ssa_def plain_inst_def)

lemma live_list_at:
  assumes "live_list (bk_insts (fn_blk fn b)) (\<lambda>x. exit_uses (bk_exit (fn_blk fn b)) x \<or> live_end fn b x) x"
  shows "live_at fn b 0 x"
proof -
  have "live_list is (\<lambda>x. exit_uses e x \<or> live_end fn b x) x \<longleftrightarrow> exposed is e x \<or> \<not> killed is x \<and> live_end fn b x" for "is" e
    by (induction "is") (auto simp: killed_def)
  then show ?thesis using assms live_at_split [of 0 fn b x] by simp
qed

text \<open>The versions current on the way from \<open>prev\<close> into a block.\<close>

definition arriving :: "(block_id \<Rightarrow> current) \<Rightarrow> block_id option \<Rightarrow> current" where
  "arriving co prev = (case prev of None \<Rightarrow> Map.empty | Some p \<Rightarrow> co p)"

definition arrives :: "ir_func \<Rightarrow> block_id option \<Rightarrow> block_id \<Rightarrow> bool" where
  "arrives fn prev b \<longleftrightarrow> b \<in> set (fn_blocks fn) \<and>
     (case prev of None \<Rightarrow> b = hd (fn_blocks fn) | Some p \<Rightarrow> p \<in> set (cfg_pred fn b) \<and> b \<noteq> hd (fn_blocks fn))"

lemma renamed_core:
  assumes "renamed_func (phis_added fn A as) need ci co g" "b \<in> set (fn_blocks fn)"
  shows "\<exists>core. renamed need (ci b) (phis_of fn A as b @ bk_insts (fn_blk fn b)) core (co b) \<and>
    bk_insts (fn_blk g b) = map (map_args (arg_at need (set (fn_blocks fn)) co)) core \<and>
    bk_exit (fn_blk g b) = map_option (map_exit (subst_cur need (co b))) (bk_exit (fn_blk fn b))"
  using assms by (auto simp: renamed_func_def renamed_to_def block_core_def)

lemma renamed_cur_ok_end:
  assumes r: "renamed_func (phis_added fn A as) need ci co g" and ready: "ssa_ready A fn" and need: "need = needs_rename A fn"
    and b: "b \<in> set (fn_blocks fn)"
  shows "cur_ok A (ci b) \<and> cur_ok A (co b)"
  using b
proof (induction "card {d. dominates fn d b}" arbitrary: b rule: less_induct)
  case less
  note same = same_paths [of "phis_added fn A as" fn, simplified]
  have dom: "immediate_dominator (phis_added fn A as) = immediate_dominator fn"
    by (simp add: fun_eq_iff immediate_dominator_def strictly_dominates_def dominates_def same)
  have cfg: "cfg_ok fn" using ready by (simp add: ssa_ready_def)
  have reach: "reachable fn b" using cfg less.prems by (simp add: cfg_ok_def)
  have wf: "well_formed fn" using cfg by (simp add: cfg_ok_def)
  have "cur_ok A (ci b)"
  proof (cases "b = hd (fn_blocks fn)")
    case True
    then show ?thesis using r by (simp add: renamed_func_def cur_ok_def)
  next
    case False
    then obtain i where i: "immediate_dominator fn i b" "ci b = co i" using r less.prems by (auto simp: renamed_func_def dom)
    then have "dominates fn i b" "i \<noteq> b" by (simp_all add: immediate_dominator_def strictly_dominates_def)
    then show ?thesis
      using less.hyps [OF dominators_less dominates_blocks [OF wf reach]] reach i(2) by metis
  qed
  moreover obtain core where core: "renamed need (ci b) (phis_of fn A as b @ bk_insts (fn_blk fn b)) core (co b)"
    using renamed_core [OF r less.prems] by blast
  have "fits_var A need d" if "i \<in> set (phis_of fn A as b @ bk_insts (fn_blk fn b))" "defined_var i = Some d" for i d
  proof (cases "i \<in> set (bk_insts (fn_blk fn b))")
    case True
    then show ?thesis using ready less.prems that(2) plain_inst_vars(3) by (metis need ssa_ready_def)
  next
    case False
    then show ?thesis using that by (auto simp: phis_of_def new_phi_def alloc_value_def)
  qed
  then have "cur_ok A (ci b) \<Longrightarrow> cur_ok A (co b)" using renamed_cur_ok [OF core] by blast
  ultimately show ?case by blast
qed

lemma phi_blocks_entry: "f \<in> phi_blocks fn v \<Longrightarrow> f \<noteq> hd (fn_blocks fn)"
  by (induction rule: phi_blocks.induct) (simp_all add: frontier_of_def)

lemma fits_alloc_value: "fits_var A need (alloc_value A a)"
  by (simp add: alloc_value_def)

lemma read_no_phis: "\<forall>i\<in>set is. \<not> is_phi_inst i \<Longrightarrow> read_phis M prev env is = Inr ([], is)"
  by (cases "is"; cases "hd is") auto

text \<open>Before the phi instructions the versions are those of the predecessor, after them those of the block.\<close>

lemma enter_block:
  assumes ready: "ssa_ready A fn" and need: "need = needs_rename A fn"
    and r: "renamed_func (phis_added fn A as) need ci co g" and as: "set as = func_allocs_set fn" "distinct as"
    and arr: "arrives fn prev b" and f: "follows need (arriving co prev) (live_at fn b 0) env env'"
  shows "\<exists>ws rest cur. read_phis M prev env' (bk_insts (fn_blk g b)) = Inr (ws, rest) \<and> cur_ok A cur \<and>
    renamed need cur (bk_insts (fn_blk fn b)) rest (co b) \<and>
    follows need cur (live_at fn b 0) env (fold (\<lambda>(r, v). put_result r v) ws env')"
proof -
  have cfg: "cfg_ok fn" using ready by (simp add: ssa_ready_def)
  have b: "b \<in> set (fn_blocks fn)" using arr by (simp add: arrives_def)
  let ?ps = "filter (\<lambda>a. \<not> al_immutable (A a) \<and> b \<in> phi_blocks fn (alloc_value A a)) (rev as)"
  let ?h = "arg_at need (set (fn_blocks fn)) co"
  have phis: "phis_of fn A as b = map (\<lambda>a. new_phi (cfg_pred fn) (alloc_value A a) b) ?ps" by (simp add: phis_of_def)
  obtain core where core: "renamed need (ci b) (phis_of fn A as b @ bk_insts (fn_blk fn b)) core (co b)"
      "bk_insts (fn_blk g b) = map (map_args ?h) core"
    using renamed_core [OF r b] by blast
  obtain xs ys cur where x: "core = xs @ ys" "renamed need (ci b) (phis_of fn A as b) xs cur"
      "renamed need cur (bk_insts (fn_blk fn b)) ys (co b)"
    using renamed_append [OF core(1)] by blast
  have "map is_phi_inst ys = map is_phi_inst (bk_insts (fn_blk fn b))" using renamed_shape [OF x(3)] by simp
  moreover have "\<forall>i\<in>set (bk_insts (fn_blk fn b)). \<not> is_phi_inst i"
    using ready b by (auto simp: ssa_ready_def plain_inst_def)
  ultimately have ys: "\<forall>i\<in>set ys. \<not> is_phi_inst i" by (metis (no_types, opaque_lifting) image_iff list.set_map)
  then have insts: "bk_insts (fn_blk g b) = map (map_args ?h) xs @ ys"
    by (simp add: core(2) x(1) map_args_other map_idI)
  have ok: "cur_ok A (ci c)" "cur_ok A (co c)" if "c \<in> set (fn_blocks fn)" for c
    using renamed_cur_ok_end [OF r ready need that] by auto
  show ?thesis
  proof (cases prev)
    case None
    then have e: "b = hd (fn_blocks fn)" using arr by (simp add: arrives_def)
    have "?ps = []" using phi_blocks_entry e by (auto simp: filter_empty_conv)
    then have "xs = []" "cur = ci b" using x(2) unfolding phis by (auto elim: renamed.cases)
    moreover have "ci b = arriving co prev" using r by (simp add: e None arriving_def renamed_func_def)
    ultimately show ?thesis using read_no_phis [OF ys] x(3) f ok(1) [OF b] insts by fastforce
  next
    case (Some p)
    have p: "p \<in> set (cfg_pred fn b)" "b \<noteq> hd (fn_blocks fn)" "p \<in> set (fn_blocks fn)"
      using arr Some by (auto simp: arrives_def cfg_pred_def)
    have f': "follows need (co p) (live_at fn b 0) env env'" using f by (simp add: Some arriving_def)
    have v: "val_of M env' (?h p (val.Left (alloc_value A a))) = env (K_named (Def_alloc a))" if "a \<in> set ?ps" for a
    proof -
      have "live_into fn (alloc_value A a) b" using that phi_blocks_live by auto
      then show ?thesis
        using map_val_value [OF f' ok(2) [OF p(3)], of "val.Left (alloc_value A a)"] fits_alloc_value p(3)
        by (auto simp: arg_at_def live_into_def)
    qed
    have sub: "set ?ps \<subseteq> need" using as(1) by (auto simp: need needs_rename_def)
    have "\<exists>ws. read_phis M (Some p) env' (map (map_args ?h) xs @ ys) = Inr (ws, ys) \<and> cur_ok A cur \<and>
        (\<forall>L e e'. follows need (ci b) (\<lambda>x. L x \<and> x \<notin> (\<lambda>a. K_named (Def_alloc a)) ` set ?ps) e e' \<longrightarrow>
           (\<forall>a\<in>set ?ps. e (K_named (Def_alloc a)) = env (K_named (Def_alloc a))) \<longrightarrow>
           follows need cur L e (fold (\<lambda>(r, v). put_result r v) ws e'))"
      by (rule read_phis_renamed [where pred = "cfg_pred fn" and b = b and A = A and v = "\<lambda>a. env (K_named (Def_alloc a))"])
        (use x(2) sub p(1) v ys ok(1) [OF b] phis in simp_all)
    then obtain ws where ws: "read_phis M (Some p) env' (bk_insts (fn_blk g b)) = Inr (ws, ys)" "cur_ok A cur"
        "\<And>L. follows need (ci b) (\<lambda>x. L x \<and> x \<notin> (\<lambda>a. K_named (Def_alloc a)) ` set ?ps) env env' \<Longrightarrow>
           follows need cur L env (fold (\<lambda>(r, v). put_result r v) ws env')"
      unfolding insts by blast
    have "cur_key (ci b) a = cur_key (co p) a"
      if a: "a \<in> need" "live_at fn b 0 (K_named (Def_alloc a))" "a \<notin> set ?ps" for a
    proof -
      have m: "a \<in> set as" "\<not> al_immutable (A a)" using a(1) as(1) by (auto simp: need needs_rename_def)
      then have "co p a = ci b a"
        using versions_at_join [OF cfg r m b p(2,1)] a(2,3) by (simp add: live_into_def)
      then show ?thesis by (simp add: cur_key_def)
    qed
    then have "follows need (ci b) (\<lambda>x. live_at fn b 0 x \<and> x \<notin> (\<lambda>a. K_named (Def_alloc a)) ` set ?ps) env env'"
      using f' unfolding follows_def by (metis (no_types, lifting) image_eqI)
    then show ?thesis using ws x(3) Some by blast
  qed
qed

lemma run_exit_agree:
  assumes "follows need cur L env env'" "cur_ok A cur"
    and "\<And>l. used_var_exit e = Some l \<Longrightarrow> fits_var A need l \<and> L (key_of l)"
  shows "run_exit M env' (map_exit (subst_cur need cur) e) = run_exit M env e"
  using map_val_value [OF assms(1,2)] assms(3) by (cases e) (auto simp: used_var_exit_def as_var_Some)

lemma run_exit_target: "run_exit M env e = Inr (Some c, v) \<Longrightarrow> c \<in> set (targets e)"
  by (cases e) (auto simp: rbind_eq_Inr split: if_splits option.splits)

text \<open>What is known when control leaves a block.\<close>

definition leaves ::
  "ir_func \<Rightarrow> alloc_id set \<Rightarrow> (block_id \<Rightarrow> current) \<Rightarrow> block_id \<Rightarrow>
     (block_id option \<times> 'v option) \<times> 'v vars_env \<times> 'w \<Rightarrow> (block_id option \<times> 'v option) \<times> 'v vars_env \<times> 'w \<Rightarrow> bool" where
  "leaves fn need co b x x' \<longleftrightarrow>
     fst x' = fst x \<and> snd (snd x') = snd (snd x) \<and>
     (\<forall>c. fst (fst x) = Some c \<longrightarrow> arrives fn (Some b) c \<and> state_follows need (co b) (live_at fn c 0) (snd x) (snd x'))"

lemma run_block_agree:
  assumes ready: "ssa_ready A fn" and need: "need = needs_rename A fn"
    and r: "renamed_func (phis_added fn A as) need ci co g" and as: "set as = func_allocs_set fn" "distinct as"
    and arr: "arrives fn prev b" and f: "state_follows need (arriving co prev) (live_at fn b 0) s s'"
  shows "agree_res (leaves fn need co b) (run_block M fn prev b s) (run_block M g prev b s')"
proof -
  let ?L = "\<lambda>x. exit_uses (bk_exit (fn_blk fn b)) x \<or> live_end fn b x" and ?is = "bk_insts (fn_blk fn b)"
  have b: "b \<in> set (fn_blocks fn)" using arr by (simp add: arrives_def)
  have plain: "\<forall>i\<in>set ?is. plain_inst A need i" using ready b by (simp add: ssa_ready_def need)
  have cfg: "cfg_ok fn" using ready by (simp add: ssa_ready_def)
  obtain e where e: "bk_exit (fn_blk fn b) = Some e" using cfg b by (auto simp: cfg_ok_def hasExit_def)
  obtain ws rest cur where enter: "read_phis M prev (fst s') (bk_insts (fn_blk g b)) = Inr (ws, rest)" "cur_ok A cur"
      "renamed need cur ?is rest (co b)" "follows need cur (live_at fn b 0) (fst s) (fold (\<lambda>(r, v). put_result r v) ws (fst s'))"
    using enter_block [OF ready need r as arr] f by (fastforce simp: state_follows_def)
  have "state_follows need cur (live_list ?is ?L) s (fold (\<lambda>(r, v). put_result r v) ws (fst s'), snd s')"
    using follows_mono [OF enter(4)] live_list_at f by (fastforce simp: state_follows_def)
  from run_insts_agree [OF enter(3) plain enter(2) this]
  have insts: "agree_res (state_follows need (co b) ?L) (rfold (run_inst M) ?is s)
      (rfold (run_inst M) rest (fold (\<lambda>(r, v). put_result r v) ws (fst s'), snd s'))" .
  have ok: "cur_ok A (co b)" using renamed_cur_ok_end [OF r ready need b] by blast
  have exit: "bk_exit (fn_blk g b) = Some (map_exit (subst_cur need (co b)) e)"
    using renamed_core [OF r b] e by auto
  have orig: "read_phis M prev (fst s) ?is = Inr ([], ?is)"
    by (rule read_no_phis) (use plain in \<open>simp add: plain_inst_def\<close>)
  have last: "agree_res (leaves fn need co b) (rbind (run_exit M (fst x) e) (\<lambda>nx. Inr (nx, x)))
      (rbind (run_exit M (fst y) (map_exit (subst_cur need (co b)) e)) (\<lambda>nx. Inr (nx, y)))"
    if xy: "state_follows need (co b) ?L x y" for x y
  proof -
    have fxy: "follows need (co b) ?L (fst x) (fst y)" using xy by (simp add: state_follows_def)
    have "run_exit M (fst y) (map_exit (subst_cur need (co b)) e) = run_exit M (fst x) e"
      by (rule run_exit_agree [OF fxy ok]) (use ready b e need in \<open>auto simp: ssa_ready_def exit_uses_def\<close>)
    moreover have "leaves fn need co b (nx, x) (nx, y)" if nx: "run_exit M (fst x) e = Inr nx" for nx
      unfolding leaves_def
    proof (intro conjI allI impI)
      fix c assume "fst (fst (nx, x)) = Some c"
      then have "c \<in> set (targets e)" using nx run_exit_target by (cases nx) fastforce
      then have c: "c \<in> set (exit_succs fn b)" using e by (simp add: exit_succs_def block_targets_def)
      then have cs: "c \<in> set (cfg_succ fn b)" "b \<in> set (cfg_pred fn c)" using b by (simp_all add: cfg_succ_def cfg_pred_def)
      moreover have "c \<in> set (fn_blocks fn)" using cfg b c by (auto simp: cfg_ok_def)
      moreover have "c \<noteq> hd (fn_blocks fn)" using ready cs(2) by (auto simp: ssa_ready_def)
      ultimately show "arrives fn (Some b) c" by (simp add: arrives_def)
      show "state_follows need (co b) (live_at fn c 0) (snd (nx, x)) (snd (nx, y))"
        using xy cs(1) live_at_live_end.edge by (auto simp: state_follows_def elim!: follows_mono)
    qed (use xy in \<open>simp_all add: state_follows_def\<close>)
    ultimately show ?thesis by (cases "run_exit M (fst x) e") auto
  qed
  show ?thesis
    unfolding run_block_def orig enter(1) rbind.simps prod.case fold_simps get_exit_def e exit option.case
    by (simp only: surjective_pairing [symmetric] id_apply) (rule agree_bind [OF insts last])
qed

lemma run_from_agree:
  assumes ready: "ssa_ready A fn" and need: "need = needs_rename A fn"
    and r: "renamed_func (phis_added fn A as) need ci co g" and as: "set as = func_allocs_set fn" "distinct as"
  shows "arrives fn prev b \<Longrightarrow> state_follows need (arriving co prev) (live_at fn b 0) s s' \<Longrightarrow>
    run_from M g n prev b s' = run_from M fn n prev b s"
proof (induction n arbitrary: prev b s s')
  case (Suc n)
  have "agree_res (leaves fn need co b) (run_block M fn prev b s) (run_block M g prev b s')"
    by (rule run_block_agree [OF ready need r as Suc.prems])
  then consider e where "run_block M fn prev b s = Inl e" "run_block M g prev b s' = Inl e"
    | x y where "run_block M fn prev b s = Inr x" "run_block M g prev b s' = Inr y" "leaves fn need co b x y"
    by (cases "run_block M fn prev b s"; cases "run_block M g prev b s'") auto
  then show ?case
  proof cases
    case 2
    obtain nx v s1 where x: "x = ((nx, v), s1)" by (metis prod.collapse)
    then obtain s2 where y: "y = ((nx, v), s2)" using 2(3) by (cases y) (auto simp: leaves_def)
    show ?thesis
    proof (cases nx)
      case None
      then show ?thesis using 2 x y by (simp add: leaves_def)
    next
      case (Some c)
      then have "arrives fn (Some b) c" "state_follows need (arriving co (Some b)) (live_at fn c 0) s1 s2"
        using 2(3) x y by (auto simp: leaves_def arriving_def)
      then show ?thesis using Suc.IH 2(1,2) x y Some by simp
    qed
  qed simp
qed simp

section \<open>SSA form\<close>

text \<open>Every SSA value is defined by one instruction, and the variables in \<open>need\<close> are defined no more.\<close>

definition single_defs :: "alloc_id set \<Rightarrow> ir_func \<Rightarrow> bool" where
  "single_defs need fn \<longleftrightarrow>
     (\<forall>b\<in>set (fn_blocks fn). distinct (ssa_defs (bk_insts (fn_blk fn b))) \<and>
        (\<forall>c\<in>set (fn_blocks fn). b \<noteq> c \<longrightarrow>
           set (ssa_defs (bk_insts (fn_blk fn b))) \<inter> set (ssa_defs (bk_insts (fn_blk fn c))) = {}) \<and>
        (\<forall>i\<in>set (bk_insts (fn_blk fn b)). \<forall>d a. defined_var i = Some d \<longrightarrow> named_alloc d = Some a \<longrightarrow> a \<notin> need))"

lemma renamed_no_named:
  "renamed need cur is is' cur' \<Longrightarrow> \<forall>i\<in>set is'. \<forall>d a. defined_var i = Some d \<longrightarrow> named_alloc d = Some a \<longrightarrow> a \<notin> need"
  by (induction rule: renamed.induct) auto

lemma renamed_blocks: "renamed_func fn need ci co g \<Longrightarrow> fn_blocks g = fn_blocks fn"
  unfolding renamed_func_def renamed_to_def by (metis ir_func.select_convs(6) ir_func.surjective ir_func.update_convs(7))

lemma renamed_single_defs:
  assumes "renamed_func (phis_added fn A as) need ci co g"
  shows "single_defs need g"
proof -
  have bl: "fn_blocks g = fn_blocks fn" using renamed_blocks [OF assms] by simp
  have "a \<notin> need" if b: "b \<in> set (fn_blocks fn)" and i: "i \<in> set (bk_insts (fn_blk g b))" "defined_var i = Some d" "named_alloc d = Some a"
    for b i d a
  proof -
    obtain core where core: "renamed need (ci b) (phis_of fn A as b @ bk_insts (fn_blk fn b)) core (co b)"
        "bk_insts (fn_blk g b) = map (map_args (arg_at need (set (fn_blocks fn)) co)) core"
      using renamed_core [OF assms b] by blast
    then obtain j where "j \<in> set core" "defined_var j = Some d" using i by auto
    then show ?thesis using renamed_no_named [OF core(1)] i(3) by blast
  qed
  then show ?thesis using assms by (auto simp: single_defs_def bl renamed_func_def ssa_distinct_def)
qed

lemma phis_added_none: "needs_rename A fn = {} \<Longrightarrow> set as \<subseteq> func_allocs_set fn \<Longrightarrow> phis_added fn A as = fn"
proof -
  assume "needs_rename A fn = {}" "set as \<subseteq> func_allocs_set fn"
  then have "phis_of fn A as b = []" for b by (auto simp: phis_of_def needs_rename_def filter_empty_conv)
  then show ?thesis by (simp add: phis_added_def)
qed

lemma single_defs_before: "before_ssa fn \<Longrightarrow> single_defs {} fn"
proof -
  assume "before_ssa fn"
  then have "ssa_defs (bk_insts (fn_blk fn b)) = []" if "b \<in> set (fn_blocks fn)" for b
    using that by (intro ssa_defs_empty) (fastforce simp: before_ssa_def vars_def)
  then show ?thesis by (simp add: single_defs_def)
qed

text \<open>One function; the marks of its own allocations are still those of \<open>A\<close>.\<close>

definition same_marks :: "ir_func \<Rightarrow> alloc_store \<Rightarrow> alloc_store \<Rightarrow> bool" where
  "same_marks fn A A' \<longleftrightarrow> (\<forall>a\<in>func_allocs_set fn. A' a = A a)"

lemma rename_func_agrees:
  fixes M :: "('v, 'w) machine"
  assumes ready: "ssa_ready A fn" and arr: "enumerates arrange" and as: "set as = func_allocs_set fn" "distinct as"
    and marks: "same_marks fn A A'"
  shows "\<exists>c g A''. rename_func arrange A' (phis_added fn A as) = Some (Inr (c, g, A'')) \<and>
    (\<forall>a. a \<notin> func_allocs_set fn \<longrightarrow> A'' a = A' a) \<and> single_defs (needs_rename A fn) g \<and>
    (\<forall>n env w. run_func M g n env w = run_func M fn n env w)"
proof -
  let ?g = "phis_added fn A as"
  have cfg: "cfg_ok ?g" using ready cfg_ok_added by (simp add: ssa_ready_def)
  have phis: "phis_ok ?g" using phis_ok_added [OF ssa_ready_before [OF ready]] .
  have need: "needs_rename A' ?g = needs_rename A fn"
    using marks by (auto simp: needs_rename_def same_marks_def func_allocs_set_def)
  show ?thesis
  proof (cases "needs_rename A fn = {}")
    case True
    obtain m where "dominators arrange ?g = Some (Inr m)" using dominators_of [of ?g arrange] cfg arr by (auto simp: cfg_ok_def)
    then have "rename_func arrange A' ?g = Some (Inr (False, fn, A'))"
      using True need phis_added_none [OF True, of as] as(1) by (simp add: rename_func_def)
    then show ?thesis using single_defs_before [OF ssa_ready_before [OF ready]] True by auto
  next
    case False
    obtain g ci co where g: "rename_func arrange A' ?g = Some (Inr (True, g, all_immutable ?g A'))"
        "renamed_func ?g (needs_rename A fn) ci co g"
      using rename_func_spec [OF cfg phis arr] need False by metis
    have wf: "well_formed fn" using ready by (simp add: ssa_ready_def cfg_ok_def)
    have bl: "fn_blocks g = fn_blocks fn" using renamed_blocks [OF g(2)] by simp
    have "run_func M g n env w = run_func M fn n env w" for n env w
    proof -
      have "arrives fn None (hd (fn_blocks fn))" using wf by (simp add: arrives_def)
      moreover have "state_follows (needs_rename A fn) (arriving co None) L (env, w) (env, w)" for L
        by (simp add: state_follows_def follows_def arriving_def cur_key_def)
      ultimately have "run_from M g n None (hd (fn_blocks fn)) (env, w) = run_from M fn n None (hd (fn_blocks fn)) (env, w)"
        by (rule run_from_agree [OF ready refl g(2) as])
      moreover have "entrance g = Inr (hd (fn_blocks fn))" using wf bl by (cases "fn_blocks fn") (simp_all add: entrance_def)
      ultimately show ?thesis using wf by (simp add: run_func_def entrance_hd)
    qed
    moreover have "all_immutable ?g A' a = A' a" if "a \<notin> func_allocs_set fn" for a
      using that by (simp add: all_immutable_def func_allocs_set_def)
    ultimately show ?thesis using g(1) renamed_single_defs [OF g(2)] by blast
  qed
qed

fun disjoint_allocs :: "ir_func list \<Rightarrow> bool" where
  "disjoint_allocs [] \<longleftrightarrow> True"
| "disjoint_allocs (fn # fns) \<longleftrightarrow>
     (\<forall>f\<in>set fns. func_allocs_set fn \<inter> func_allocs_set f = {}) \<and> disjoint_allocs fns"

lemma add_phi_funcs_spec:
  assumes "arranges arrange" "enumerates order"
  shows "\<forall>fn\<in>set fns. cfg_ok fn \<Longrightarrow>
    \<exists>c. add_phi_funcs arrange order A fns = Some (Inr (c, map (\<lambda>fn. phis_added fn A (order (func_allocs_set fn))) fns))"
  by (induction fns) (auto simp: add_phi_func_spec [OF _ assms])

lemma rename_funcs_agree:
  fixes M :: "('v, 'w) machine"
  assumes arr: "enumerates arrange" "enumerates order"
  shows "\<forall>fn\<in>set fns. ssa_ready A fn \<and> same_marks fn A A' \<Longrightarrow> disjoint_allocs fns \<Longrightarrow>
    \<exists>c fns' A''. rename_funcs arrange A' (map (\<lambda>fn. phis_added fn A (order (func_allocs_set fn))) fns) = Some (Inr (c, fns', A'')) \<and>
      list_all2 (\<lambda>fn g. single_defs (needs_rename A fn) g \<and> (\<forall>n env w. run_func M g n env w = run_func M fn n env w)) fns fns'"
proof (induction fns arbitrary: A')
  case (Cons fn fns)
  have as: "set (order (func_allocs_set fn)) = func_allocs_set fn" "distinct (order (func_allocs_set fn))"
    using arr(2) by (simp_all add: func_allocs_set_def)
  obtain c g A1 where g: "rename_func arrange A' (phis_added fn A (order (func_allocs_set fn))) = Some (Inr (c, g, A1))"
      "\<And>a. a \<notin> func_allocs_set fn \<Longrightarrow> A1 a = A' a" "single_defs (needs_rename A fn) g"
      "\<And>n env w. run_func M g n env w = run_func M fn n env w"
    using rename_func_agrees [OF _ arr(1) as, of A A' M] Cons.prems(1) by auto
  have "same_marks f A A1" if "f \<in> set fns" for f
    using that Cons.prems g(2) by (fastforce simp: same_marks_def)
  then obtain cs fns' A2 where "rename_funcs arrange A1 (map (\<lambda>fn. phis_added fn A (order (func_allocs_set fn))) fns) = Some (Inr (cs, fns', A2))"
      "list_all2 (\<lambda>fn g. single_defs (needs_rename A fn) g \<and> (\<forall>n env w. run_func M g n env w = run_func M fn n env w)) fns fns'"
    using Cons.IH [of A1] Cons.prems by auto
  then show ?case using g(1,3,4) by simp
qed (auto intro: exI [of _ False])

lemma ConstructSSA_spec:
  fixes M :: "('v, 'w) machine"
  assumes "\<forall>fn\<in>set (pr_funcs p). ssa_ready (pr_alloc p) fn" "disjoint_allocs (pr_funcs p)"
    and "enumerates arrange" "enumerates order"
  shows "\<exists>c p'. ConstructSSA arrange order p = Some (Inr (c, p')) \<and>
    list_all2 (\<lambda>fn g. single_defs (needs_rename (pr_alloc p) fn) g \<and> (\<forall>n env w. run_func M g n env w = run_func M fn n env w))
      (pr_funcs p) (pr_funcs p')"
proof -
  have "\<forall>fn\<in>set (pr_funcs p). cfg_ok fn" using assms(1) by (simp add: ssa_ready_def)
  then obtain c where c: "add_phi_funcs arrange order (pr_alloc p) (pr_funcs p) =
      Some (Inr (c, map (\<lambda>fn. phis_added fn (pr_alloc p) (order (func_allocs_set fn))) (pr_funcs p)))"
    using add_phi_funcs_spec [of arrange order] assms(3,4) by blast
  have "\<forall>fn\<in>set (pr_funcs p). ssa_ready (pr_alloc p) fn \<and> same_marks fn (pr_alloc p) (pr_alloc p)"
    using assms(1) by (simp add: same_marks_def)
  from rename_funcs_agree [OF assms(3,4) this assms(2), of M] c show ?thesis
    by (auto simp: ConstructSSA_def AddPhi_def Rename_def)
qed

text \<open>
  C4: construction of SSA form keeps the behaviour of a program. On functions whose blocks are all
  reachable, whose entrance has no predecessor and whose variables occur with the type of their
  allocation, the pass succeeds, and every function of the result runs in lock step with the
  original: the same value, state or error after any number of blocks, whatever the operations do
  with the values of their operands and the rest of the machine.
\<close>

theorem ConstructSSA_runs:
  fixes M :: "('v, 'w) machine"
  assumes "\<forall>fn\<in>set (pr_funcs p). ssa_ready (pr_alloc p) fn" "disjoint_allocs (pr_funcs p)"
    and "enumerates arrange" "enumerates order"
  shows "\<exists>c p'. ConstructSSA arrange order p = Some (Inr (c, p')) \<and>
    list_all2 (\<lambda>fn g. \<forall>n env w. run_func M g n env w = run_func M fn n env w) (pr_funcs p) (pr_funcs p')"
  using ConstructSSA_spec [OF assms, of M] by (auto elim!: list_all2_mono)

text \<open>
  No two instructions of a function define the same version of a variable after the construction.
\<close>

theorem ConstructSSA_single:
  assumes "\<forall>fn\<in>set (pr_funcs p). ssa_ready (pr_alloc p) fn" "disjoint_allocs (pr_funcs p)"
    and "enumerates arrange" "enumerates order"
  shows "\<exists>c p'. ConstructSSA arrange order p = Some (Inr (c, p')) \<and>
    list_all2 (\<lambda>fn g. single_defs (needs_rename (pr_alloc p) fn) g) (pr_funcs p) (pr_funcs p')"
  using ConstructSSA_spec [OF assms, of undefined] by (auto elim!: list_all2_mono)

text \<open>
  C15: phi instructions are placed exactly where they are needed: the work list ends, and a block
  gets a phi for a mutable variable if and only if it is in the least set that contains the live
  blocks on the frontier of a definition or of another phi.
\<close>

theorem add_phi_exact:
  assumes "cfg_ok fn" "arranges arrange" "enumerates order"
  shows "add_phi_func arrange order A fn =
    Some (Inr (needs_rename A fn \<noteq> {}, phis_added fn A (order (func_allocs_set fn))))"
  by (rule add_phi_func_spec [OF assms])

section \<open>An instance\<close>

text \<open>A variable that is assigned before and in one arm of a branch, and read at the join.\<close>

definition join_alloc :: alloc_store where
  "join_alloc = (\<lambda>a. \<lparr>al_name = ''x'', al_type = Prim Int32, al_comptime = False, al_immutable = False,
     al_reference = False, al_init = None\<rparr>)"

abbreviation join_x :: left_value where "join_x \<equiv> NamedValue (Prim Int32) (Def_alloc 0)"

definition join_fn :: ir_func where
  "join_fn = \<lparr>fn_id = 0, fn_name = ''f'', fn_ret = Prim Int32, fn_params = [], fn_locals = [0], fn_blocks = [0, 1, 2],
     fn_blk = (\<lambda>b.
       if b = 0 then \<lparr>bk_label = ''a'', bk_insts = [Unary Op_MOV (Some join_x) (Const (mk_const (V_int 1)))],
         bk_exit = Some (BranchExit (Const (mk_const (V_bool True))) (Some 1) (Some 2))\<rparr>
       else if b = 1 then \<lparr>bk_label = ''b'', bk_insts = [Unary Op_MOV (Some join_x) (Const (mk_const (V_int 2)))],
         bk_exit = Some (JumpExit 2)\<rparr>
       else \<lparr>bk_label = ''c'', bk_insts = [], bk_exit = Some (ReturnExit (val.Left join_x))\<rparr>),
     fn_temps = [], fn_loops = []\<rparr>"

definition join_prog :: ir_program where
  "join_prog = \<lparr>pr_alloc = join_alloc, pr_globals = [], pr_funcs = [join_fn], pr_builtins = [], pr_is_ssa = False\<rparr>"

lemma join_cfg: "cfg_ok join_fn"
proof -
  have "reachable join_fn 0" using path_to.start [of join_fn 0] by (auto simp: reachable_def entrance_def join_fn_def)
  moreover from this have "reachable join_fn 1" by (rule reachable_step) (simp add: cfg_succ_def exit_succs_def block_targets_def join_fn_def)
  moreover from this have "reachable join_fn 2" by (rule reachable_step) (simp add: cfg_succ_def exit_succs_def block_targets_def join_fn_def)
  moreover have "fn_blocks join_fn = [0, 1, 2]" by (simp add: join_fn_def)
  moreover have "hasExit (fn_blk join_fn b) \<and> set (exit_succs join_fn b) \<subseteq> {0, 1, 2}" for b
    by (auto simp: join_fn_def hasExit_def exit_succs_def block_targets_def)
  moreover have "cfg_defined join_fn" by (simp add: cfg_defined_def join_fn_def)
  ultimately show ?thesis by (simp add: cfg_ok_def)
qed

lemma join_ready: "ssa_ready join_alloc join_fn"
proof -
  have "cfg_pred join_fn 0 = []" by (simp add: cfg_pred_def exit_succs_def block_targets_def join_fn_def)
  then show ?thesis
    using join_cfg by (simp add: ssa_ready_def join_fn_def plain_inst_def vars_def used_vars_def List.map_filter_simps
      used_var_exit_def alloc_value_def join_alloc_def)
qed

lemma join_needs: "needs_rename join_alloc join_fn = {0}" "func_allocs_set join_fn = {0}"
  by (auto simp: needs_rename_def func_allocs_set_def join_alloc_def join_fn_def)

lemma sorted_enumerates: "enumerates (sorted_list_of_set :: nat set \<Rightarrow> nat list)"
  by simp

theorem ConstructSSA_runs_witness:
  "\<forall>M :: (nat, unit) machine. \<exists>c p'. ConstructSSA sorted_list_of_set sorted_list_of_set join_prog = Some (Inr (c, p')) \<and>
    list_all2 (\<lambda>fn g. \<forall>n env w. run_func M g n env w = run_func M fn n env w) [join_fn] (pr_funcs p')"
proof
  fix M :: "(nat, unit) machine"
  show "\<exists>c p'. ConstructSSA sorted_list_of_set sorted_list_of_set join_prog = Some (Inr (c, p')) \<and>
      list_all2 (\<lambda>fn g. \<forall>n env w. run_func M g n env w = run_func M fn n env w) [join_fn] (pr_funcs p')"
    using ConstructSSA_runs [of join_prog sorted_list_of_set sorted_list_of_set M] join_ready sorted_enumerates
    by (simp add: join_prog_def)
qed

theorem ConstructSSA_single_witness:
  "\<exists>c p'. ConstructSSA sorted_list_of_set sorted_list_of_set join_prog = Some (Inr (c, p')) \<and>
    list_all2 (\<lambda>fn g. single_defs (needs_rename join_alloc fn) g) [join_fn] (pr_funcs p')"
  using ConstructSSA_single [of join_prog sorted_list_of_set sorted_list_of_set] join_ready sorted_enumerates
  by (simp add: join_prog_def)

text \<open>The join has a phi for the variable.\<close>

theorem add_phi_exact_witness:
  "add_phi_func sorted_list_of_set sorted_list_of_set join_alloc join_fn = Some (Inr (True, phis_added join_fn join_alloc [0]))"
  using add_phi_exact [OF join_cfg _ sorted_enumerates, of sorted_list_of_set join_alloc]
  by (simp add: join_needs)

end
