(* ===== verification/Ssa_Destruct.thy ===== *)
theory Ssa_Destruct
  imports Ssa_Copies Ir_Dead Dominance
begin

text \<open>
  The way out of SSA form (\<open>SSAValue2TempValue\<close> in \<open>transform/ssa/construct.hpp\<close> and the passes of
  \<open>transform/ssa/destruct.hpp\<close>): SSA values become temporaries, critical edges into blocks with phi
  instructions are split, the phi instructions become moves at the end of the predecessors, and the
  variables with several definitions get memory of their own.

  The new objects are arguments: \<open>fresh\<close> gives the address of a new block of a function,
  \<open>fresh_alloc\<close> that of a new allocation, \<open>labels\<close> the value of a function's label counter.
\<close>

section \<open>SSA values become temporaries\<close>

text \<open>The use-def graph is exact, so the two replacements are substitutions in the whole program.\<close>

definition replace_var :: "lv_key \<Rightarrow> left_value \<Rightarrow> ir_program \<Rightarrow> ir_program" where
  "replace_var old l p = replace_defs_prog old l (subst_prog old (val.Left l) p)"

definition ssa_to_temp :: "nat \<Rightarrow> block_id \<Rightarrow> nat \<Rightarrow> bool \<times> ir_program \<Rightarrow> bool \<times> ir_program" where
  "ssa_to_temp k b i st =
     (let p = snd st; fn = pr_funcs p ! k in
      case defined_var (bk_insts (fn_blk fn b) ! i) of
        Some (SSAValue t a n) \<Rightarrow>
          (case newTemp t b fn of (target, fn') \<Rightarrow>
             (True, replace_var (K_ssa a n) target (p\<lparr>pr_funcs := (pr_funcs p)[k := fn']\<rparr>)))
      | _ \<Rightarrow> st)"

definition ssa_to_temp_block :: "nat \<Rightarrow> block_id \<Rightarrow> bool \<times> ir_program \<Rightarrow> bool \<times> ir_program" where
  "ssa_to_temp_block k b st =
     fold (ssa_to_temp k b) [0..<length (bk_insts (fn_blk (pr_funcs (snd st) ! k) b))] st"

definition ssa_to_temp_func :: "nat \<Rightarrow> bool \<times> ir_program \<Rightarrow> bool \<times> ir_program" where
  "ssa_to_temp_func k st = fold (ssa_to_temp_block k) (fn_blocks (pr_funcs (snd st) ! k)) st"

definition SSAValue2TempValue :: "ir_program \<Rightarrow> bool \<times> ir_program" where
  "SSAValue2TempValue p = fold ssa_to_temp_func [0..<length (pr_funcs p)] (False, p)"

section \<open>Critical edges\<close>

definition starts_with_phi :: "ir_block \<Rightarrow> bool" where
  "starts_with_phi b = (case bk_insts b of [] \<Rightarrow> False | i # is \<Rightarrow> is_phi_inst i)"

type_synonym edge = "block_id \<times> block_id"

definition critical_edges :: "(block_id set \<Rightarrow> block_id list) \<Rightarrow> ir_func \<Rightarrow> edge list" where
  "critical_edges arrange fn =
     concat (map (\<lambda>b.
       if length (cfg_pred fn b) \<le> 1 \<or> \<not> starts_with_phi (fn_blk fn b) then []
       else [(p, b). p \<leftarrow> arrange (set (cfg_pred fn b)), 1 < length (cfg_succ fn p)]) (fn_blocks fn))"

text \<open>The block in the middle has a new label and jumps to the target.\<close>

definition split_edge :: "(ir_func \<Rightarrow> block_id) \<Rightarrow> edge \<Rightarrow> nat \<times> ir_func \<Rightarrow> nat \<times> ir_func" where
  "split_edge fresh e st =
     (case (e, st) of ((from, to), (n, fn)) \<Rightarrow>
        (let mid = fresh fn;
             blk = setExit (JumpExit to) (new_ir_block (''L'' @ nat_to_string n));
             fn1 = fn\<lparr>fn_blocks := fn_blocks fn @ [mid], fn_blk := (fn_blk fn)(mid := blk)\<rparr>;
             fn2 = update_block from (\<lambda>k. k\<lparr>bk_exit := map_option (retarget to mid) (bk_exit k)\<rparr>) fn1;
             fn3 = update_block to (\<lambda>k. k\<lparr>bk_insts := map_phis (rename_source from mid) (bk_insts k)\<rparr>) fn2
         in (Suc n, fn3)))"

definition split_edges ::
  "(block_id set \<Rightarrow> block_id list) \<Rightarrow> (ir_func \<Rightarrow> block_id) \<Rightarrow> nat \<Rightarrow> ir_func \<Rightarrow> bool \<times> nat \<times> ir_func" where
  "split_edges arrange fresh n fn =
     (let es = critical_edges arrange fn in (es \<noteq> [], fold (split_edge fresh) es (n, fn)))"

fun split_funcs ::
  "(block_id set \<Rightarrow> block_id list) \<Rightarrow> (ir_func \<Rightarrow> block_id) \<Rightarrow> (func_id \<Rightarrow> nat) \<Rightarrow> ir_func list \<Rightarrow>
     (bool \<times> nat \<times> ir_func) list result" where
  "split_funcs arrange fresh labels [] = Inr []"
| "split_funcs arrange fresh labels (fn # fns) =
     with_cfg fn (rbind (split_funcs arrange fresh labels fns) (\<lambda>rs.
       Inr (split_edges arrange fresh (labels (fn_id fn)) fn # rs)))"

definition SplitCriticalEdge ::
  "(block_id set \<Rightarrow> block_id list) \<Rightarrow> (ir_func \<Rightarrow> block_id) \<Rightarrow> (func_id \<Rightarrow> nat) \<Rightarrow> ir_program \<Rightarrow>
     (bool \<times> ir_program) result" where
  "SplitCriticalEdge arrange fresh labels p =
     rbind (split_funcs arrange fresh labels (pr_funcs p)) (\<lambda>rs.
       Inr (list_ex fst rs, p\<lparr>pr_funcs := map (\<lambda>r. snd (snd r)) rs\<rparr>))"

section \<open>Phi instructions become moves\<close>

text \<open>
  \<open>insert_copy\<close> walks over the dominator tree; the fuel bounds the depth of the recursion, the number
  of blocks is enough.
\<close>

fun insert_copy ::
  "(copy list \<Rightarrow> copy list) \<Rightarrow> (block_id \<Rightarrow> block_id list) \<Rightarrow> nat \<Rightarrow> block_id \<Rightarrow> ir_func \<Rightarrow> ir_func result"
  and insert_copies_in ::
  "(copy list \<Rightarrow> copy list) \<Rightarrow> (block_id \<Rightarrow> block_id list) \<Rightarrow> nat \<Rightarrow> block_id list \<Rightarrow> ir_func \<Rightarrow> ir_func result" where
  "insert_copy order children 0 b fn = Inl (Undefined ''recursion deeper than the number of blocks'')"
| "insert_copy order children (Suc n) b fn =
     rbind (schedule_copy order b fn) (insert_copies_in order children n (children b))"
| "insert_copies_in order children n [] fn = Inr fn"
| "insert_copies_in order children n (c # cs) fn =
     rbind (insert_copy order children n c fn) (insert_copies_in order children n cs)"

definition remove_phis :: "ir_func \<Rightarrow> bool \<times> ir_func" where
  "remove_phis fn =
     (list_ex (\<lambda>b. fst (remove_phi (fn_blk fn b))) (fn_blocks fn),
      fn\<lparr>fn_blk := (\<lambda>b. if b \<in> set (fn_blocks fn) then snd (remove_phi (fn_blk fn b)) else fn_blk fn b)\<rparr>)"

definition replace_phi ::
  "(block_id set \<Rightarrow> block_id list) \<Rightarrow> (copy list \<Rightarrow> copy list) \<Rightarrow> ir_func \<Rightarrow> (bool \<times> ir_func) result option" where
  "replace_phi arrange order fn =
     obind (dominators arrange fn) (\<lambda>m.
       Some (rbind (entrance fn) (\<lambda>e.
         rbind (insert_copy order (dom_children arrange m) (Suc (length (fn_blocks fn))) e fn) (\<lambda>fn'.
         Inr (remove_phis fn')))))"

fun replace_phi_funcs ::
  "(block_id set \<Rightarrow> block_id list) \<Rightarrow> (copy list \<Rightarrow> copy list) \<Rightarrow> ir_func list \<Rightarrow> (bool \<times> ir_func list) result option" where
  "replace_phi_funcs arrange order [] = Some (Inr (False, []))"
| "replace_phi_funcs arrange order (fn # fns) =
     obind (replace_phi arrange order fn) (\<lambda>(c, fn').
     obind (replace_phi_funcs arrange order fns) (\<lambda>(cs, fns'). Some (Inr (c \<or> cs, fn' # fns'))))"

section \<open>Variables with several definitions\<close>

definition def_vars :: "ir_program \<Rightarrow> left_value list" where
  "def_vars p = List.map_filter defined_var (concat (map func_insts (pr_funcs p)))"

fun is_named :: "left_value \<Rightarrow> bool" where
  "is_named (NamedValue t d) \<longleftrightarrow> True"
| "is_named l \<longleftrightarrow> False"

text \<open>The keys of \<open>all_defs\<close> with more than one site, each as it was inserted first.\<close>

definition illegal_vars :: "ir_program \<Rightarrow> left_value list" where
  "illegal_vars p =
     (let ds = def_vars p; ks = map key_of ds
      in [ds ! j. j \<leftarrow> [0..<length ds], ks ! j \<notin> set (take j ks) \<and> ks ! j \<in> set (drop (Suc j) ks) \<and> \<not> is_named (ds ! j)])"

text \<open>The table \<open>where\<close>: a later function overwrites an earlier one.\<close>

definition owner :: "ir_func list \<Rightarrow> alloc_id \<Rightarrow> func_id option" where
  "owner fns a = map_option fn_id (List.find (\<lambda>fn. a \<in> set (fn_locals fn @ fn_params fn)) (rev fns))"

fun phi_scope :: "ir_program \<Rightarrow> left_value \<Rightarrow> (string \<times> func_id) result" where
  "phi_scope p (TempValue t i f) = Inr (''__phi_'' @ nat_to_string i, f)"
| "phi_scope p (SSAValue t a n) =
     (case owner (pr_funcs p) a of
        None \<Rightarrow> Inl (Undefined ''map::at'')
      | Some f \<Rightarrow> Inr (''__phi_'' @ al_name (pr_alloc p a) @ ''_'' @ nat_to_string n, f))"
| "phi_scope p (NamedValue t d) =
     Inl (Compiler_error ''detected NamedValue in illegal single-assignment variable'')"

definition legalize_var :: "(ir_program \<Rightarrow> alloc_id) \<Rightarrow> ir_program \<Rightarrow> left_value \<Rightarrow> ir_program \<Rightarrow> ir_program result" where
  "legalize_var fresh_alloc p0 v p =
     rbind (phi_scope p0 v) (\<lambda>(name, f).
     rbind (alloc_variable name (type_of_lv v) None False) (\<lambda>al.
       let a = fresh_alloc p; A = (pr_alloc p)(a := al);
           p' = replace_var (key_of v) (alloc_value A a) (p\<lparr>pr_alloc := A\<rparr>)
       in Inr (p'\<lparr>pr_funcs := map (\<lambda>fn. if fn_id fn = f then addLocal a fn else fn) (pr_funcs p')\<rparr>)))"

text \<open>\<open>arrange_vars\<close> is the order of \<open>std::set\<close>.\<close>

definition legalize ::
  "(left_value list \<Rightarrow> left_value list) \<Rightarrow> (ir_program \<Rightarrow> alloc_id) \<Rightarrow> ir_program \<Rightarrow> ir_program result" where
  "legalize arrange_vars fresh_alloc p = rfold (legalize_var fresh_alloc p) (arrange_vars (illegal_vars p)) p"

definition ReplacePhi ::
  "(block_id set \<Rightarrow> block_id list) \<Rightarrow> (copy list \<Rightarrow> copy list) \<Rightarrow> (left_value list \<Rightarrow> left_value list) \<Rightarrow>
     (ir_program \<Rightarrow> alloc_id) \<Rightarrow> ir_program \<Rightarrow> (bool \<times> ir_program) result option" where
  "ReplacePhi arrange order arrange_vars fresh_alloc p =
     obind (replace_phi_funcs arrange order (pr_funcs p)) (\<lambda>(c, fns).
       Some (rbind (legalize arrange_vars fresh_alloc (p\<lparr>pr_funcs := fns\<rparr>)) (\<lambda>p'. Inr (c, p'\<lparr>pr_is_ssa := False\<rparr>))))"

definition DestructSSA ::
  "(block_id set \<Rightarrow> block_id list) \<Rightarrow> (copy list \<Rightarrow> copy list) \<Rightarrow> (left_value list \<Rightarrow> left_value list) \<Rightarrow>
     (ir_func \<Rightarrow> block_id) \<Rightarrow> (func_id \<Rightarrow> nat) \<Rightarrow> (ir_program \<Rightarrow> alloc_id) \<Rightarrow> ir_program \<Rightarrow> (bool \<times> ir_program) result option" where
  "DestructSSA arrange order arrange_vars fresh labels fresh_alloc p =
     (case SSAValue2TempValue p of (c1, p1) \<Rightarrow>
      obind (DeadBlockElimination p1) (\<lambda>(c2, p2).
      obind (Some (SplitCriticalEdge arrange fresh labels p2)) (\<lambda>(c3, p3).
      obind (ReplacePhi arrange order arrange_vars fresh_alloc p3) (\<lambda>(c4, p4).
      case DeadTempElimination p4 of (c5, p5) \<Rightarrow> Some (Inr (c1 \<or> c2 \<or> c3 \<or> c4 \<or> c5, p5))))))"

end
