(* ===== verification/Ssa_Vars.thy ===== *)
theory Ssa_Vars
  imports Ssa_Run Ssa_Destruct
begin

text \<open>
  Passes that only rename variables: a function whose variables are renamed one to one runs in lock
  step with the original.
\<close>

section \<open>Renaming every variable of a function\<close>

fun map_inst :: "(left_value \<Rightarrow> left_value) \<Rightarrow> inst \<Rightarrow> inst" where
  "map_inst f (Phi r args) = Phi (map_option f r) (map (\<lambda>(b, v). (b, map_val f v)) args)"
| "map_inst f (Unary op r x) = Unary op (map_option f r) (map_val f x)"
| "map_inst f (Binary op r x y) = Binary op (map_option f r) (map_val f x) (map_val f y)"
| "map_inst f (CallI r t g args) = CallI (map_option f r) t g (map (map_val f) args)"

definition map_block :: "(left_value \<Rightarrow> left_value) \<Rightarrow> ir_block \<Rightarrow> ir_block" where
  "map_block f k = k\<lparr>bk_insts := map (map_inst f) (bk_insts k), bk_exit := map_option (map_exit f) (bk_exit k)\<rparr>"

definition map_func :: "(left_value \<Rightarrow> left_value) \<Rightarrow> ir_func \<Rightarrow> ir_func" where
  "map_func f fn = fn\<lparr>fn_blk := (\<lambda>b. if b \<in> set (fn_blocks fn) then map_block f (fn_blk fn b) else fn_blk fn b)\<rparr>"

definition block_occurs :: "ir_block \<Rightarrow> left_value set" where
  "block_occurs k =
     (\<Union>i\<in>set (bk_insts k). set (vars i)) \<union> {l. \<exists>e. bk_exit k = Some e \<and> used_var_exit e = Some l}"

definition occurs :: "ir_func \<Rightarrow> left_value set" where
  "occurs fn = (\<Union>b\<in>set (fn_blocks fn). block_occurs (fn_blk fn b))"

lemma map_func_sel [simp]:
  "fn_id (map_func f fn) = fn_id fn" "fn_blocks (map_func f fn) = fn_blocks fn" "fn_temps (map_func f fn) = fn_temps fn"
  "fn_locals (map_func f fn) = fn_locals fn" "fn_params (map_func f fn) = fn_params fn"
  "b \<in> set (fn_blocks fn) \<Longrightarrow> fn_blk (map_func f fn) b = map_block f (fn_blk fn b)"
  by (simp_all add: map_func_def)

lemma map_block_sel [simp]:
  "bk_insts (map_block f k) = map (map_inst f) (bk_insts k)" "bk_exit (map_block f k) = map_option (map_exit f) (bk_exit k)"
  by (simp_all add: map_block_def)

lemma defined_map_inst [simp]: "defined_var (map_inst f i) = map_option f (defined_var i)"
  by (cases i) simp_all

lemma used_map_inst [simp]: "used (map_inst f i) = map (map_val f) (used i)"
  by (cases i) (auto simp: comp_def split: prod.split)

lemma operation_map_inst [simp]: "operation_of (map_inst f i) = operation_of i"
  by (cases i) simp_all

lemma is_phi_map_inst [simp]: "is_phi_inst (map_inst f i) = is_phi_inst i"
  by (cases i) simp_all

lemma used_vars_left: "val.Left l \<in> set (used i) \<Longrightarrow> l \<in> set (vars i)"
  by (force simp: vars_def used_vars_def List.map_filter_def as_var_Some)

lemma defined_var_vars: "defined_var i = Some d \<Longrightarrow> d \<in> set (vars i)"
  by (simp add: vars_def)

section \<open>Renamed functions run in lock step\<close>

text \<open>On the variables in \<open>V\<close> the function \<open>f\<close> is injective and keeps the type.\<close>

definition renames :: "(left_value \<Rightarrow> left_value) \<Rightarrow> (lv_key \<Rightarrow> lv_key) \<Rightarrow> left_value set \<Rightarrow> bool" where
  "renames f \<rho> V \<longleftrightarrow>
     (\<forall>l\<in>V. key_of (f l) = \<rho> (key_of l) \<and> type_of_lv (f l) = type_of_lv l) \<and> inj_on \<rho> (key_of ` V)"

definition env_renamed :: "(lv_key \<Rightarrow> lv_key) \<Rightarrow> left_value set \<Rightarrow> 'v vars_env \<Rightarrow> 'v vars_env \<Rightarrow> bool" where
  "env_renamed \<rho> V env env' \<longleftrightarrow> (\<forall>l\<in>V. env (key_of l) = env' (\<rho> (key_of l)))"

lemma renamed_val:
  assumes "renames f \<rho> V" "env_renamed \<rho> V env env'" "\<And>l. v = val.Left l \<Longrightarrow> l \<in> V"
  shows "type_of (map_val f v) = type_of v \<and> val_of M env' (map_val f v) = val_of M env v"
  using assms by (cases v) (auto simp: renames_def env_renamed_def)

lemma renamed_put:
  assumes "renames f \<rho> V" "env_renamed \<rho> V env env'" "\<And>d. r = Some d \<Longrightarrow> d \<in> V"
  shows "env_renamed \<rho> V (put_result r v env) (put_result (map_option f r) v env')"
proof (cases r)
  case (Some d)
  then have d: "d \<in> V" "key_of (f d) = \<rho> (key_of d)" using assms by (simp_all add: renames_def)
  have "\<rho> (key_of l) \<noteq> \<rho> (key_of d)" if "l \<in> V" "key_of l \<noteq> key_of d" for l
    using assms(1) that d(1) by (auto simp: renames_def inj_on_def)
  then show ?thesis using assms(2) Some d by (auto simp: env_renamed_def put_result_def)
qed (use assms(2) in \<open>simp add: put_result_def\<close>)

abbreviation same_state :: "(lv_key \<Rightarrow> lv_key) \<Rightarrow> left_value set \<Rightarrow> 'v vars_env \<times> 'w \<Rightarrow> 'v vars_env \<times> 'w \<Rightarrow> bool" where
  "same_state \<rho> V s s' \<equiv> env_renamed \<rho> V (fst s) (fst s') \<and> snd s' = snd s"

lemma renamed_inst:
  assumes "renames f \<rho> V" "same_state \<rho> V s s'" "set (vars i) \<subseteq> V"
  shows "agree_res (same_state \<rho> V) (run_inst M i s) (run_inst M (map_inst f i) s')"
proof -
  have "type_of (map_val f x) = type_of x \<and> val_of M (fst s') (map_val f x) = val_of M (fst s) x" if "x \<in> set (used i)" for x
    by (rule renamed_val [OF assms(1)]) (use assms(2,3) used_vars_left that in auto)
  then have args: "map (\<lambda>x. (type_of x, val_of M (fst s') x)) (used (map_inst f i)) = map (\<lambda>x. (type_of x, val_of M (fst s) x)) (used i)"
    by simp
  have types: "map_option type_of_lv (defined_var (map_inst f i)) = map_option type_of_lv (defined_var i)"
    using assms(1,3) defined_var_vars by (cases "defined_var i") (auto simp: renames_def)
  have put: "env_renamed \<rho> V (put_result (defined_var i) v (fst s)) (put_result (defined_var (map_inst f i)) v (fst s'))" for v
    unfolding defined_map_inst by (rule renamed_put [OF assms(1)]) (use assms(2,3) defined_var_vars in auto)
  show ?thesis
    using assms(2) put unfolding run_inst_def operation_map_inst args types
    by (auto split: option.split intro!: agree_bind [where R = "(=)"] sum.rel_refl)
qed

lemma renamed_insts:
  assumes "renames f \<rho> V"
  shows "same_state \<rho> V s s' \<Longrightarrow> (\<Union>i\<in>set is. set (vars i)) \<subseteq> V \<Longrightarrow>
    agree_res (same_state \<rho> V) (rfold (run_inst M) is s) (rfold (run_inst M) (map (map_inst f) is) s')"
proof (induction "is" arbitrary: s s')
  case (Cons i "is")
  have "agree_res (same_state \<rho> V) (run_inst M i s) (run_inst M (map_inst f i) s')"
    by (rule renamed_inst [OF assms Cons.prems(1)]) (use Cons.prems(2) in auto)
  then show ?case using Cons.IH Cons.prems(2) by (auto intro!: agree_bind)
qed simp

definition phi_writes_renamed :: "(left_value \<Rightarrow> left_value) \<Rightarrow>
  ((left_value option \<times> 'v) list \<times> inst list) \<Rightarrow> ((left_value option \<times> 'v) list \<times> inst list) \<Rightarrow> bool" where
  "phi_writes_renamed f x y \<longleftrightarrow>
     y = (map (\<lambda>(r, v). (map_option f r, v)) (fst x), map (map_inst f) (snd x))"

lemma phi_value_image: "phi_value (map (\<lambda>(b, v). (b, g v)) args) p = rbind (phi_value args p) (\<lambda>v. Inr (g v))"
  by (induction args p rule: phi_value.induct) auto

lemma phi_value_used: "phi_value args p = Inr x \<Longrightarrow> x \<in> set (used (Phi r args))"
  by (induction args p rule: phi_value.induct) (auto split: if_splits)

lemma renamed_phis:
  assumes "renames f \<rho> V" "env_renamed \<rho> V env env'"
  shows "(\<Union>i\<in>set is. set (vars i)) \<subseteq> V \<Longrightarrow>
    agree_res (phi_writes_renamed f) (read_phis M prev env is) (read_phis M prev env' (map (map_inst f) is))"
proof (induction "is")
  case (Cons i "is")
  show ?case
  proof (cases i)
    case (Phi r args)
    show ?thesis
    proof (cases prev)
      case (Some p)
      show ?thesis
      proof (cases "phi_value args p")
        case (Inr x)
        have "l \<in> V" if "x = val.Left l" for l
          using Cons.prems phi_value_used [OF Inr, of r] used_vars_left [of l i] that Phi by auto
        then have "val_of M env' (map_val f x) = val_of M env x"
          using renamed_val [OF assms, of x M] by blast
        moreover have "agree_res (phi_writes_renamed f)
            (rbind (read_phis M prev env is) (\<lambda>(ws, rest). Inr ((r, v) # ws, rest)))
            (rbind (read_phis M prev env' (map (map_inst f) is)) (\<lambda>(ws, rest). Inr ((map_option f r, v) # ws, rest)))" for v
          by (rule agree_bind [OF Cons.IH]) (use Cons.prems in \<open>auto simp: phi_writes_renamed_def\<close>)
        ultimately show ?thesis using Inr Some Phi by (simp add: phi_value_image)
      qed (simp add: Some Phi phi_value_image)
    qed (simp add: Phi)
  qed (simp_all add: phi_writes_renamed_def)
qed (simp add: phi_writes_renamed_def)

lemma renamed_writes:
  assumes "renames f \<rho> V"
  shows "env_renamed \<rho> V env env' \<Longrightarrow> (\<forall>(r, v)\<in>set ws. \<forall>d. r = Some d \<longrightarrow> d \<in> V) \<Longrightarrow>
    env_renamed \<rho> V (fold (\<lambda>(r, v). put_result r v) ws env)
      (fold (\<lambda>(r, v). put_result r v) (map (\<lambda>(r, v). (map_option f r, v)) ws) env')"
proof (induction ws arbitrary: env env')
  case (Cons w ws)
  then show ?case by (cases w) (simp add: renamed_put [OF assms])
qed simp

lemma read_phis_parts:
  "read_phis M prev env is = Inr (ws, rest) \<Longrightarrow>
     (\<forall>(r, v)\<in>set ws. \<forall>d. r = Some d \<longrightarrow> d \<in> (\<Union>i\<in>set is. set (vars i))) \<and> set rest \<subseteq> set is"
proof (induction "is" arbitrary: ws rest)
  case (Cons i "is")
  show ?case
  proof (cases i)
    case (Phi r args)
    then obtain x ws1 where ws1: "read_phis M prev env is = Inr (ws1, rest)" "ws = (r, x) # ws1"
      using Cons.prems by (auto simp: rbind_eq_Inr split: option.splits)
    moreover have "d \<in> set (vars i)" if "r = Some d" for d using that Phi by (auto simp: vars_def)
    ultimately show ?thesis using Cons.IH [OF ws1(1)] by fastforce
  qed (use Cons.prems in auto)
qed simp

lemma renamed_exit:
  assumes "renames f \<rho> V" "env_renamed \<rho> V env env'" "\<And>l. used_var_exit e = Some l \<Longrightarrow> l \<in> V"
  shows "run_exit M env' (map_exit f e) = run_exit M env e"
proof (cases e)
  case (BranchExit c t u)
  then have "val_of M env' (map_val f c) = val_of M env c"
    using renamed_val [OF assms(1,2), of c M] assms(3) by (simp add: used_var_exit_def)
  then show ?thesis using BranchExit by simp
next
  case (ReturnExit v)
  then have "val_of M env' (map_val f v) = val_of M env v"
    using renamed_val [OF assms(1,2), of v M] assms(3) by (simp add: used_var_exit_def)
  then show ?thesis using ReturnExit by simp
qed simp

lemma renamed_block_runs:
  assumes ren: "renames f \<rho> (occurs fn)" and st: "same_state \<rho> (occurs fn) s s'" and b: "b \<in> set (fn_blocks fn)"
  shows "agree_res (\<lambda>x y. fst y = fst x \<and> same_state \<rho> (occurs fn) (snd x) (snd y))
    (run_block M fn prev b s) (run_block M (map_func f fn) prev b s')"
proof -
  let ?V = "occurs fn" and ?k = "fn_blk fn b"
  have V: "(\<Union>i\<in>set (bk_insts ?k). set (vars i)) \<subseteq> ?V"
    "\<And>e l. bk_exit ?k = Some e \<Longrightarrow> used_var_exit e = Some l \<Longrightarrow> l \<in> ?V"
    using b by (auto simp: occurs_def block_occurs_def)
  have exit: "agree_res (\<lambda>x y. fst y = fst x \<and> same_state \<rho> ?V (snd x) (snd y))
      (rbind (get_exit ?k) (\<lambda>e. rbind (run_exit M (fst s1) e) (\<lambda>nx. Inr (nx, s1))))
      (rbind (get_exit (map_block f ?k)) (\<lambda>e. rbind (run_exit M (fst s2) e) (\<lambda>nx. Inr (nx, s2))))"
    if "same_state \<rho> ?V s1 s2" for s1 s2
  proof (cases "bk_exit ?k")
    case (Some e)
    then have "run_exit M (fst s2) (map_exit f e) = run_exit M (fst s1) e"
      using renamed_exit [OF ren, of "fst s1" "fst s2" e M] V(2) that by blast
    then show ?thesis using Some that
      by (auto simp: get_exit_def intro!: agree_bind [where R = "(=)"] sum.rel_refl)
  qed (simp add: get_exit_def)
  note phis = renamed_phis [OF ren _ V(1), of "fst s" "fst s'" M prev]
  show ?thesis
  proof (cases "read_phis M prev (fst s) (bk_insts ?k)")
    case (Inl e)
    then have "read_phis M prev (fst s') (map (map_inst f) (bk_insts ?k)) = Inl e"
      using phis st by (auto simp: rel_sum.simps)
    then show ?thesis using Inl b by (simp add: run_block_def)
  next
    case (Inr x)
    obtain ws rest where x: "x = (ws, rest)" by force
    let ?ws = "map (\<lambda>(r, v). (map_option f r, v)) ws" and ?rest = "map (map_inst f) rest"
    have r: "read_phis M prev (fst s') (map (map_inst f) (bk_insts ?k)) = Inr (?ws, ?rest)"
      using phis st Inr x by (auto simp: rel_sum.simps phi_writes_renamed_def)
    note parts = read_phis_parts [OF Inr [unfolded x]]
    have "\<forall>(r, v)\<in>set ws. \<forall>d. r = Some d \<longrightarrow> d \<in> ?V" using parts V(1) by blast
    then have "same_state \<rho> ?V (fold (\<lambda>(r, v). put_result r v) ws (fst s), snd s)
        (fold (\<lambda>(r, v). put_result r v) ?ws (fst s'), snd s')"
      using renamed_writes [OF ren, of "fst s" "fst s'" ws] st by simp
    moreover have "(\<Union>i\<in>set rest. set (vars i)) \<subseteq> ?V" using parts V(1) by blast
    ultimately have "agree_res (same_state \<rho> ?V) (rfold (run_inst M) rest (fold (\<lambda>(r, v). put_result r v) ws (fst s), snd s))
        (rfold (run_inst M) ?rest (fold (\<lambda>(r, v). put_result r v) ?ws (fst s'), snd s'))"
      by (rule renamed_insts [OF ren])
    then show ?thesis
      unfolding run_block_def map_func_sel(6) [OF b] map_block_sel Inr r x rbind.simps prod.case
      by (rule agree_bind) (rule exit)
  qed
qed

lemma run_exit_next: "run_exit M env e = Inr (Some c, v) \<Longrightarrow> c \<in> set (targets e)"
  by (cases e) (auto simp: rbind_eq_Inr split: if_splits)

lemma run_block_next:
  "run_block M fn prev b s = Inr ((Some c, v), s1) \<Longrightarrow> c \<in> set (exit_succs fn b)"
  using run_exit_next
  by (fastforce simp: run_block_def rbind_eq_Inr get_exit_def exit_succs_def block_targets_def split: option.splits)

lemma run_from_renamed:
  assumes ren: "renames f \<rho> (occurs fn)" and closed: "well_formed fn"
  shows "b \<in> set (fn_blocks fn) \<Longrightarrow> same_state \<rho> (occurs fn) s s' \<Longrightarrow>
    run_from M (map_func f fn) n prev b s' = run_from M fn n prev b s"
proof (induction n arbitrary: prev b s s')
  case (Suc n)
  note step = renamed_block_runs [OF ren Suc.prems(2,1), of M prev]
  show ?case
  proof (cases "run_block M fn prev b s")
    case (Inl e)
    then have "run_block M (map_func f fn) prev b s' = Inl e" using step by (auto simp: rel_sum.simps)
    then show ?thesis using Inl by simp
  next
    case (Inr x)
    obtain nx v s1 where x: "x = ((nx, v), s1)" by (metis prod.collapse)
    then obtain s2 where y: "run_block M (map_func f fn) prev b s' = Inr ((nx, v), s2)" "same_state \<rho> (occurs fn) s1 s2"
      using step Inr by (auto simp: rel_sum.simps)
    show ?thesis
    proof (cases nx)
      case (Some c)
      then have "c \<in> set (exit_succs fn b)" using Inr x run_block_next by fastforce
      then have "c \<in> set (fn_blocks fn)" using closed Suc.prems(1) by blast
      then show ?thesis using Suc.IH [OF _ y(2)] Inr x y(1) Some by simp
    qed (use Inr x y in simp)
  qed
qed simp

text \<open>The renamed function computes on an environment what the original computes on the renamed one.\<close>

lemma run_func_renamed:
  assumes "renames f \<rho> (occurs fn)" "well_formed fn"
  shows "run_func M (map_func f fn) n env w = run_func M fn n (env \<circ> \<rho>) w"
proof -
  have e: "entrance fn = Inr (hd (fn_blocks fn))" "hd (fn_blocks fn) \<in> set (fn_blocks fn)"
    using assms(2) by (simp_all add: entrance_hd)
  have "entrance (map_func f fn) = entrance fn" by (simp add: entrance_def)
  then show ?thesis
    using run_from_renamed [OF assms e(2), of "(env \<circ> \<rho>, w)" "(env, w)" M n None] e(1)
    by (simp add: run_func_def env_renamed_def)
qed

section \<open>Renamed programs\<close>

definition prog_occurs :: "ir_program \<Rightarrow> left_value set" where
  "prog_occurs p = (\<Union>fn\<in>set (pr_funcs p). occurs fn)"

text \<open>The code is renamed; the lists of temporaries and locals may have changed.\<close>

definition code_mapped :: "(left_value \<Rightarrow> left_value) \<Rightarrow> ir_func \<Rightarrow> ir_func \<Rightarrow> bool" where
  "code_mapped f fn g \<longleftrightarrow> g = (map_func f fn)\<lparr>fn_temps := fn_temps g, fn_locals := fn_locals g\<rparr>"

abbreviation prog_mapped :: "(left_value \<Rightarrow> left_value) \<Rightarrow> ir_program \<Rightarrow> ir_program \<Rightarrow> bool" where
  "prog_mapped f p q \<equiv> list_all2 (code_mapped f) (pr_funcs p) (pr_funcs q)"

lemma code_mapped_sel:
  assumes "code_mapped f fn g"
  shows "fn_id g = fn_id fn" "fn_blocks g = fn_blocks fn" "fn_params g = fn_params fn"
    "b \<in> set (fn_blocks fn) \<Longrightarrow> fn_blk g b = map_block f (fn_blk fn b)" "fn_blk g = fn_blk (map_func f fn)"
proof -
  obtain ts ls where g: "g = (map_func f fn)\<lparr>fn_temps := ts, fn_locals := ls\<rparr>" using assms by (simp add: code_mapped_def)
  show "fn_id g = fn_id fn" "fn_blocks g = fn_blocks fn" "fn_params g = fn_params fn"
    "b \<in> set (fn_blocks fn) \<Longrightarrow> fn_blk g b = map_block f (fn_blk fn b)" "fn_blk g = fn_blk (map_func f fn)"
    unfolding g by simp_all
qed

lemma map_val_id [simp]: "map_val (\<lambda>l. l) v = v"
  by (cases v) simp_all

lemma map_val_comp: "map_val g (map_val f v) = map_val (g \<circ> f) v"
  by (cases v) simp_all

lemma map_inst_comp: "map_inst g (map_inst f i) = map_inst (g \<circ> f) i"
  by (cases i) (auto simp: map_val_comp option.map_comp)

lemma map_exit_comp: "map_exit g (map_exit f e) = map_exit (g \<circ> f) e"
  by (cases e) (auto simp: map_val_comp)

lemma map_block_comp: "map_block g (map_block f k) = map_block (g \<circ> f) k"
  by (cases "bk_exit k") (simp_all add: map_block_def map_inst_comp map_exit_comp comp_def)

lemma map_func_comp: "map_func g (map_func f fn) = map_func (g \<circ> f) fn"
  by (simp add: map_func_def map_block_comp cong: if_cong)

lemma map_exit_id [simp]: "map_exit (\<lambda>l. l) e = e"
  by (cases e) simp_all

lemma map_inst_id [simp]: "map_inst (\<lambda>l. l) i = i"
  by (cases i) (auto simp: option.map_ident map_idI)

lemma map_func_id [simp]: "map_func (\<lambda>l. l) fn = fn"
proof -
  have "map_inst (\<lambda>l. l) = (\<lambda>i. i)" "map_exit (\<lambda>l. l) = (\<lambda>e. e)" by auto
  then show ?thesis by (simp add: map_func_def map_block_def option.map_ident cong: if_cong)
qed

lemma code_mapped_refl: "code_mapped (\<lambda>l. l) fn fn"
  by (simp add: code_mapped_def)

lemma code_mapped_trans:
  assumes "code_mapped f fn g" "code_mapped f' g h"
  shows "code_mapped (f' \<circ> f) fn h"
proof -
  obtain ts ls where g: "g = (map_func f fn)\<lparr>fn_temps := ts, fn_locals := ls\<rparr>" using assms(1) by (simp add: code_mapped_def)
  have "map_func f' g = (map_func f' (map_func f fn))\<lparr>fn_temps := ts, fn_locals := ls\<rparr>"
    unfolding g by (simp add: map_func_def cong: if_cong)
  then show ?thesis using assms(2) by (simp add: code_mapped_def map_func_comp)
qed

lemma prog_mapped_trans: "prog_mapped f p q \<Longrightarrow> prog_mapped f' q r \<Longrightarrow> prog_mapped (f' \<circ> f) p r"
  using list_all2_trans [of "code_mapped f" "code_mapped f'" "code_mapped (f' \<circ> f)"] code_mapped_trans by blast

text \<open>The variables of a renamed function.\<close>

lemma vars_map_inst: "set (vars (map_inst f i)) = f ` set (vars i)"
proof -
  have "set (used_vars (map_inst f i)) = f ` set (used_vars i)"
    by (force simp: used_vars_def List.map_filter_def as_var_Some elim: map_val.elims)
  then show ?thesis by (cases "defined_var i") (auto simp: vars_def)
qed

lemma used_var_exit_map: "used_var_exit (map_exit f e) = map_option f (used_var_exit e)"
proof (cases e)
  case (BranchExit c t u) then show ?thesis by (cases c) (simp_all add: used_var_exit_def)
next
  case (ReturnExit v) then show ?thesis by (cases v) (simp_all add: used_var_exit_def)
qed (simp add: used_var_exit_def)

lemma block_occurs_map: "block_occurs (map_block f k) = f ` block_occurs k"
  by (fastforce simp: block_occurs_def vars_map_inst used_var_exit_map)

lemma occurs_mapped: "code_mapped f fn g \<Longrightarrow> occurs g = f ` occurs fn"
  by (auto simp: occurs_def code_mapped_sel block_occurs_map)

lemma prog_occurs_mapped: "prog_mapped f p q \<Longrightarrow> prog_occurs q = f ` prog_occurs p"
proof -
  have "list_all2 (code_mapped f) fns gns \<Longrightarrow> (\<Union>g\<in>set gns. occurs g) = f ` (\<Union>fn\<in>set fns. occurs fn)" for fns gns
    by (induction fns gns rule: list_all2_induct) (auto simp: occurs_mapped image_Un)
  then show "prog_mapped f p q \<Longrightarrow> prog_occurs q = f ` prog_occurs p" by (simp add: prog_occurs_def)
qed

lemma renames_comp:
  assumes "renames f \<rho> V" "renames g \<rho>' (f ` V)"
  shows "renames (g \<circ> f) (\<rho>' \<circ> \<rho>) V"
proof -
  have "key_of ` f ` V = \<rho> ` key_of ` V" using assms(1) by (force simp: renames_def)
  then show ?thesis using assms by (auto simp: renames_def intro: comp_inj_on)
qed

lemma renames_subset: "renames f \<rho> V \<Longrightarrow> W \<subseteq> V \<Longrightarrow> renames f \<rho> W"
  unfolding renames_def by (meson image_mono inj_on_subset subsetD)

lemma renames_id [simp]: "renames (\<lambda>l. l) (\<lambda>k. k) V"
  by (simp add: renames_def)

text \<open>Running the result of a renaming pass.\<close>

lemma run_func_code: "fn_blocks g = fn_blocks fn \<Longrightarrow> fn_blk g = fn_blk fn \<Longrightarrow> run_func M g n env w = run_func M fn n env w"
proof -
  assume eq: "fn_blocks g = fn_blocks fn" "fn_blk g = fn_blk fn"
  have "run_from M g n prev b s = run_from M fn n prev b s" for prev b s
    by (induction n arbitrary: prev b s) (simp_all add: run_block_def eq cong: option.case_cong)
  then show ?thesis by (simp add: run_func_def entrance_def eq)
qed

lemma run_code_mapped:
  assumes "code_mapped f fn g" "renames f \<rho> (occurs fn)" "well_formed fn"
  shows "run_func M g n env w = run_func M fn n (env \<circ> \<rho>) w"
  using run_func_renamed [OF assms(2,3), of M n env w] run_func_code [of g "map_func f fn" M n env w] code_mapped_sel [OF assms(1)]
  by simp

section \<open>Replacing one variable\<close>

definition swap_var :: "lv_key \<Rightarrow> left_value \<Rightarrow> left_value \<Rightarrow> left_value" where
  "swap_var old l x = (if key_of x = old then l else x)"

lemma swap_var_val: "subst_val old (val.Left l) v = map_val (swap_var old l) v"
  by (cases v) (simp_all add: subst_val_def swap_var_def)

lemma swap_var_inst: "rename_def old l (subst_inst old (val.Left l) i) = map_inst (swap_var old l) i"
proof -
  have v: "subst_val old (val.Left l) = map_val (swap_var old l)" by (simp add: fun_eq_iff swap_var_val)
  have "zip args (map (map_val (swap_var old l)) (map snd args)) = map (\<lambda>a. (a, map_val (swap_var old l) (snd a))) args" for args :: "(block_id \<times> val) list"
    by (induction args) auto
  then show ?thesis
    by (cases i) (auto simp: subst_inst_def v swap_var_def split_def split: option.split)
qed

lemma swap_var_exit: "subst_exit old (val.Left l) e = map_exit (swap_var old l) e"
  by (cases e) (simp_all add: swap_var_val)

lemma swap_var_block:
  "(subst_block old (val.Left l) k)\<lparr>bk_insts := map (rename_def old l) (bk_insts (subst_block old (val.Left l) k))\<rparr> =
     map_block (swap_var old l) k"
proof -
  have "subst_exit old (val.Left l) = map_exit (swap_var old l)" by (simp add: fun_eq_iff swap_var_exit)
  then show ?thesis by (simp add: subst_block_def map_block_def swap_var_inst del: rename_def.simps)
qed

lemma replace_var_funcs: "pr_funcs (replace_var old l p) = map (map_func (swap_var old l)) (pr_funcs p)"
  by (simp add: replace_var_def replace_defs_prog_def subst_prog_def subst_func_def swap_var_block map_func_def comp_def
      del: rename_def.simps cong: if_cong)

lemma replace_var_mapped: "prog_mapped (swap_var old l) p (replace_var old l p)"
  by (simp add: replace_var_funcs list_all2_conv_all_nth code_mapped_def map_func_def)

lemma swap_var_renames:
  assumes "key_of l \<notin> key_of ` V" "\<And>x. x \<in> V \<Longrightarrow> key_of x = old \<Longrightarrow> type_of_lv x = type_of_lv l"
  shows "renames (swap_var old l) (id(old := key_of l)) V"
  using assms by (auto simp: renames_def swap_var_def inj_on_def image_iff)

section \<open>Typed programs\<close>

text \<open>
  A function uses its own temporaries, with their types; a variable has one type, and only variables
  with a name are shared between functions.
\<close>

definition temps_ok :: "ir_func \<Rightarrow> bool" where
  "temps_ok fn \<longleftrightarrow>
     (\<forall>t i f. TempValue t i f \<in> occurs fn \<longrightarrow> f = fn_id fn \<and> i < length (fn_temps fn) \<and> fst (fn_temps fn ! i) = t)"

definition vars_agree :: "ir_func \<Rightarrow> ir_func \<Rightarrow> bool" where
  "vars_agree fn g \<longleftrightarrow>
     (\<forall>l\<in>occurs fn. \<forall>l'\<in>occurs g. key_of l = key_of l' \<longrightarrow> type_of_lv l = type_of_lv l' \<and> (is_named l \<or> fn_id fn = fn_id g))"

definition typed_prog :: "ir_program \<Rightarrow> bool" where
  "typed_prog p \<longleftrightarrow>
     distinct (map fn_id (pr_funcs p)) \<and> (\<forall>fn\<in>set (pr_funcs p). temps_ok fn) \<and>
     (\<forall>fn\<in>set (pr_funcs p). \<forall>g\<in>set (pr_funcs p). vars_agree fn g)"

lemma typed_prog_type:
  "typed_prog p \<Longrightarrow> l \<in> prog_occurs p \<Longrightarrow> l' \<in> prog_occurs p \<Longrightarrow> key_of l = key_of l' \<Longrightarrow> type_of_lv l = type_of_lv l'"
  unfolding prog_occurs_def typed_prog_def vars_agree_def by blast

lemma typed_prog_temp:
  assumes "typed_prog p" "fn \<in> set (pr_funcs p)" "TempValue t i (fn_id fn) \<in> prog_occurs p"
  shows "i < length (fn_temps fn) \<and> fst (fn_temps fn ! i) = t"
proof -
  obtain g where g: "g \<in> set (pr_funcs p)" "TempValue t i (fn_id fn) \<in> occurs g" using assms(3) by (auto simp: prog_occurs_def)
  then have "fn_id g = fn_id fn" "i < length (fn_temps g)" "fst (fn_temps g ! i) = t"
    using assms(1) unfolding typed_prog_def temps_ok_def by metis+
  moreover have "g = fn" using calculation(1) g(1) assms(1,2) by (auto simp: typed_prog_def distinct_map dest: inj_onD)
  ultimately show ?thesis by simp
qed

lemma typed_prog_single:
  assumes "typed_prog p" "fn \<in> set (pr_funcs p)" "g \<in> set (pr_funcs p)" "l \<in> occurs fn" "l' \<in> occurs g"
    and "key_of l = key_of l'" "\<not> is_named l"
  shows "g = fn"
proof -
  have "fn_id fn = fn_id g" using assms unfolding typed_prog_def vars_agree_def by blast
  then show ?thesis using assms(1-3) by (auto simp: typed_prog_def distinct_map dest: inj_onD)
qed

lemma key_of_temp: "key_of l = K_temp f i \<longleftrightarrow> (\<exists>t. l = TempValue t i f)"
  by (cases l) auto

lemma is_named_key: "is_named l \<longleftrightarrow> (\<exists>d. key_of l = K_named d)"
  by (cases l) auto

text \<open>A fold whose steps each add something to what holds.\<close>

lemma fold_collect:
  assumes "\<And>x D s. x \<in> set xs \<Longrightarrow> I D s \<Longrightarrow> I (D \<union> c x) (f x s)"
  shows "I D s \<Longrightarrow> I (D \<union> (\<Union>x\<in>set xs. c x)) (fold f xs s)"
  using assms
proof (induction xs arbitrary: D s)
  case (Cons x xs)
  from Cons.IH [OF Cons.prems(2) [OF _ Cons.prems(1)]] Cons.prems(2) show ?case by (simp add: Un_assoc)
qed simp

section \<open>SSA values become temporaries\<close>

type_synonym position = "nat \<times> block_id \<times> nat"

definition result_at :: "ir_program \<Rightarrow> position \<Rightarrow> left_value option" where
  "result_at p x = (case x of (k, b, i) \<Rightarrow> defined_var (bk_insts (fn_blk (pr_funcs p ! k) b) ! i))"

fun is_ssa_value :: "left_value \<Rightarrow> bool" where
  "is_ssa_value (SSAValue t a n) \<longleftrightarrow> True"
| "is_ssa_value l \<longleftrightarrow> False"

text \<open>The positions of the instructions of a program.\<close>

definition valid_pos :: "ir_program \<Rightarrow> position \<Rightarrow> bool" where
  "valid_pos p x = (case x of (k, b, i) \<Rightarrow>
     k < length (pr_funcs p) \<and> b \<in> set (fn_blocks (pr_funcs p ! k)) \<and> i < length (bk_insts (fn_blk (pr_funcs p ! k) b)))"

lemma mapped_pos:
  assumes "prog_mapped f p q"
  shows "valid_pos q x \<longleftrightarrow> valid_pos p x"
    and "valid_pos p x \<Longrightarrow> result_at q x = map_option f (result_at p x)"
proof -
  obtain k b i where x: "x = (k, b, i)" by (metis prod.collapse)
  have "code_mapped f (pr_funcs p ! k) (pr_funcs q ! k)" if "k < length (pr_funcs p)"
    using assms that by (simp add: list_all2_conv_all_nth)
  note sel = code_mapped_sel [OF this]
  have len: "length (pr_funcs q) = length (pr_funcs p)" using assms by (simp add: list_all2_lengthD)
  show "valid_pos q x \<longleftrightarrow> valid_pos p x" using sel len by (auto simp: valid_pos_def x)
  show "valid_pos p x \<Longrightarrow> result_at q x = map_option f (result_at p x)"
    using sel by (auto simp: valid_pos_def result_at_def x)
qed

lemma occurs_inst: "b \<in> set (fn_blocks fn) \<Longrightarrow> i \<in> set (bk_insts (fn_blk fn b)) \<Longrightarrow> l \<in> set (vars i) \<Longrightarrow> l \<in> occurs fn"
  unfolding occurs_def block_occurs_def by blast

lemma occurs_exit: "b \<in> set (fn_blocks fn) \<Longrightarrow> bk_exit (fn_blk fn b) = Some e \<Longrightarrow> used_var_exit e = Some l \<Longrightarrow> l \<in> occurs fn"
  unfolding occurs_def block_occurs_def by blast

lemma prog_occursI: "fn \<in> set (pr_funcs p) \<Longrightarrow> l \<in> occurs fn \<Longrightarrow> l \<in> prog_occurs p"
  unfolding prog_occurs_def by blast

lemma result_occurs:
  assumes "valid_pos p (k, b, i)" "result_at p (k, b, i) = Some l"
  shows "l \<in> occurs (pr_funcs p ! k)"
  by (rule occurs_inst [OF _ nth_mem]) (use assms in \<open>auto simp: valid_pos_def result_at_def defined_var_vars\<close>)

text \<open>Types and ownership survive a renaming.\<close>

lemma mapped_vars_agree:
  assumes "renames f \<rho> V" "occurs fn \<subseteq> V" "occurs fn' \<subseteq> V" "\<And>l. is_named l \<Longrightarrow> is_named (f l)"
    and "code_mapped f fn g" "code_mapped f fn' g'" "vars_agree fn fn'"
  shows "vars_agree g g'"
  unfolding vars_agree_def occurs_mapped [OF assms(5)] occurs_mapped [OF assms(6)]
proof (intro ballI impI)
  fix l l' assume "l \<in> f ` occurs fn" "l' \<in> f ` occurs fn'" and k: "key_of l = key_of l'"
  then obtain x y where xy: "x \<in> occurs fn" "y \<in> occurs fn'" "l = f x" "l' = f y" by blast
  then have V: "x \<in> V" "y \<in> V" using assms(2,3) by auto
  then have "\<rho> (key_of x) = \<rho> (key_of y)" using k xy(3,4) assms(1) by (simp add: renames_def)
  then have "key_of x = key_of y" using V assms(1) by (simp add: renames_def inj_on_def)
  then have "type_of_lv x = type_of_lv y \<and> (is_named x \<or> fn_id fn = fn_id fn')" using assms(7) xy(1,2) by (simp add: vars_agree_def)
  then show "type_of_lv l = type_of_lv l' \<and> (is_named l \<or> fn_id g = fn_id g')"
    using xy(3,4) V assms(1,4) code_mapped_sel(1) [OF assms(5)] code_mapped_sel(1) [OF assms(6)] by (auto simp: renames_def)
qed

lemma mapped_ids: "prog_mapped f p q \<Longrightarrow> map fn_id (pr_funcs q) = map fn_id (pr_funcs p)"
  by (intro nth_equalityI) (auto simp: list_all2_conv_all_nth code_mapped_sel)

lemma mapped_member:
  assumes "prog_mapped f p q" "g \<in> set (pr_funcs q)"
  obtains fn where "fn \<in> set (pr_funcs p)" "code_mapped f fn g"
proof -
  obtain j where "j < length (pr_funcs q)" "g = pr_funcs q ! j" using assms(2) by (auto simp: in_set_conv_nth)
  then show ?thesis using assms(1) that [of "pr_funcs p ! j"] by (simp add: list_all2_conv_all_nth)
qed

lemma typed_prog_mapped:
  assumes "typed_prog p" "prog_mapped f p q" "renames f \<rho> (prog_occurs p)" "\<And>l. is_named l \<Longrightarrow> is_named (f l)"
    and "\<And>g. g \<in> set (pr_funcs q) \<Longrightarrow> temps_ok g"
  shows "typed_prog q"
  unfolding typed_prog_def
proof (intro conjI ballI)
  show "distinct (map fn_id (pr_funcs q))" using assms(1) mapped_ids [OF assms(2)] by (simp add: typed_prog_def)
  fix g g' assume g: "g \<in> set (pr_funcs q)" "g' \<in> set (pr_funcs q)"
  obtain fn fn' where fn: "fn \<in> set (pr_funcs p)" "code_mapped f fn g" "fn' \<in> set (pr_funcs p)" "code_mapped f fn' g'"
    using g mapped_member [OF assms(2)] by metis
  show "vars_agree g g'"
    by (rule mapped_vars_agree [OF assms(3) _ _ assms(4) fn(2,4)])
      (use fn(1,3) assms(1) in \<open>auto simp: typed_prog_def intro: prog_occursI\<close>)
qed (use assms(5) in blast)

definition ssa_inv :: "ir_program \<Rightarrow> position set \<Rightarrow> bool \<times> ir_program \<Rightarrow> bool" where
  "ssa_inv p0 D st \<longleftrightarrow>
     (\<exists>f \<rho>. prog_mapped f p0 (snd st) \<and> renames f \<rho> (prog_occurs p0) \<and> (\<forall>l. is_named l \<longrightarrow> f l = l) \<and>
        (\<forall>d. \<rho> (K_named d) = K_named d)) \<and> typed_prog (snd st) \<and> pr_alloc (snd st) = pr_alloc p0 \<and>
     (\<forall>x\<in>D. valid_pos p0 x \<longrightarrow> (\<forall>l. result_at (snd st) x = Some l \<longrightarrow> \<not> is_ssa_value l))"

lemma ssa_inv_step:
  assumes "ssa_inv p0 D st" "valid_pos p0 (k, b, i)"
  shows "ssa_inv p0 (D \<union> {(k, b, i)}) (ssa_to_temp k b i st)"
proof -
  let ?p = "snd st" and ?fn = "pr_funcs (snd st) ! k"
  obtain f \<rho> where inv: "prog_mapped f p0 ?p" "renames f \<rho> (prog_occurs p0)" "\<And>l. is_named l \<Longrightarrow> f l = l"
      "\<And>d. \<rho> (K_named d) = K_named d" "typed_prog ?p" "pr_alloc ?p = pr_alloc p0"
      "\<And>x l. x \<in> D \<Longrightarrow> valid_pos p0 x \<Longrightarrow> result_at ?p x = Some l \<Longrightarrow> \<not> is_ssa_value l"
    using assms(1) by (auto simp: ssa_inv_def)
  have val: "valid_pos ?p (k, b, i)" using assms(2) mapped_pos(1) [OF inv(1)] by simp
  then have k: "k < length (pr_funcs ?p)" by (simp add: valid_pos_def)
  show ?thesis
  proof (cases "\<exists>t a n. result_at ?p (k, b, i) = Some (SSAValue t a n)")
    case False
    then have "ssa_to_temp k b i st = st"
      by (auto simp: ssa_to_temp_def result_at_def Let_def split: option.split left_value.split)
    moreover have "\<not> is_ssa_value l" if "result_at ?p (k, b, i) = Some l" for l
      using False that by (cases l) auto
    ultimately show ?thesis using assms(1) by (auto simp: ssa_inv_def)
  next
    case True
    then obtain t a n where r: "result_at ?p (k, b, i) = Some (SSAValue t a n)" by blast
    define l where "l = TempValue t (length (fn_temps ?fn)) (fn_id ?fn)"
    define p1 where "p1 = ?p\<lparr>pr_funcs := (pr_funcs ?p)[k := ?fn\<lparr>fn_temps := fn_temps ?fn @ [(t, b)]\<rparr>]\<rparr>"
    have step: "ssa_to_temp k b i st = (True, replace_var (K_ssa a n) l p1)"
      using r by (simp add: ssa_to_temp_def result_at_def Let_def newTemp_def l_def p1_def)
    have m1: "prog_mapped (\<lambda>l. l) ?p p1"
      unfolding p1_def using k by (auto simp: list_all2_conv_all_nth nth_list_update code_mapped_def)
    note m2 = replace_var_mapped [of "K_ssa a n" l p1]
    let ?q = "replace_var (K_ssa a n) l p1"
    have o1: "prog_occurs p1 = prog_occurs ?p" using prog_occurs_mapped [OF m1] by simp
    have fn: "?fn \<in> set (pr_funcs ?p)" using k by simp
    have occ: "SSAValue t a n \<in> occurs ?fn" using result_occurs [OF val r] .
    have fresh: "key_of l \<notin> key_of ` prog_occurs ?p"
      using typed_prog_temp [OF inv(5) fn] by (auto simp: l_def dest!: key_of_temp [THEN iffD1, OF sym])
    have "type_of_lv x = type_of_lv l" if "x \<in> prog_occurs ?p" "key_of x = K_ssa a n" for x
      using typed_prog_type [OF inv(5) that(1) prog_occursI [OF fn occ]] that(2) by (simp add: l_def)
    then have ren: "renames (swap_var (K_ssa a n) l) (id(K_ssa a n := key_of l)) (prog_occurs ?p)"
      by (intro swap_var_renames fresh)
    have m: "prog_mapped (swap_var (K_ssa a n) l) ?p ?q" using prog_mapped_trans [OF m1 m2] by (simp add: comp_def)
    have "typed_prog ?q"
    proof (rule typed_prog_mapped [OF inv(5) m ren])
      show "is_named (swap_var (K_ssa a n) l x)" if "is_named x" for x using that by (cases x) (simp_all add: swap_var_def)
      fix g assume g: "g \<in> set (pr_funcs ?q)"
      then obtain j where j: "j < length (pr_funcs ?p)" "g = pr_funcs ?q ! j"
        using list_all2_lengthD [OF m] by (auto simp: in_set_conv_nth)
      let ?fj = "pr_funcs ?p ! j"
      have fj: "?fj \<in> set (pr_funcs ?p)" "temps_ok ?fj" using j(1) inv(5) by (simp_all add: typed_prog_def)
      have cm: "code_mapped (swap_var (K_ssa a n) l) ?fj g" using m j by (simp add: list_all2_conv_all_nth)
      have temps: "fn_temps g = fn_temps ?fj @ (if j = k then [(t, b)] else [])"
        using j k by (simp add: replace_var_funcs p1_def nth_list_update)
      show "temps_ok g"
        unfolding temps_ok_def occurs_mapped [OF cm]
      proof (intro allI impI)
        fix t' i' f' assume "TempValue t' i' f' \<in> swap_var (K_ssa a n) l ` occurs ?fj"
        then obtain x where x: "x \<in> occurs ?fj" "TempValue t' i' f' = swap_var (K_ssa a n) l x" by blast
        show "f' = fn_id g \<and> i' < length (fn_temps g) \<and> fst (fn_temps g ! i') = t'"
        proof (cases "key_of x = K_ssa a n")
          case True
          then have "?fj = ?fn" using typed_prog_single [OF inv(5) fn fj(1) occ x(1)] by simp
          then have "j = k" using nth_eq_iff_index_eq [of "pr_funcs ?p" j k] inv(5) j(1) k by (simp add: typed_prog_def distinct_map)
          then show ?thesis using True x(2) temps code_mapped_sel(1) [OF cm] by (simp add: swap_var_def l_def)
        next
          case False
          then have "x = TempValue t' i' f'" using x(2) by (simp add: swap_var_def)
          then have "f' = fn_id ?fj \<and> i' < length (fn_temps ?fj) \<and> fst (fn_temps ?fj ! i') = t'"
            using fj(2) x(1) by (simp add: temps_ok_def)
          then show ?thesis using temps code_mapped_sel(1) [OF cm] by (simp add: nth_append)
        qed
      qed
    qed
    moreover have "prog_mapped (swap_var (K_ssa a n) l \<circ> f) p0 ?q" using prog_mapped_trans [OF inv(1) m] .
    moreover have "renames (swap_var (K_ssa a n) l \<circ> f) (id(K_ssa a n := key_of l) \<circ> \<rho>) (prog_occurs p0)"
      using renames_comp [OF inv(2)] ren prog_occurs_mapped [OF inv(1)] by simp
    moreover have "swap_var (K_ssa a n) l (f x) = x" if "is_named x" for x
      using that inv(3) by (cases x) (simp_all add: swap_var_def)
    moreover have "\<not> is_ssa_value x" if y: "y \<in> D \<union> {(k, b, i)}" "valid_pos p0 y" "result_at ?q y = Some x" for y x
    proof -
      have v: "valid_pos ?p y" using y(2) mapped_pos(1) [OF inv(1)] by simp
      obtain z where z: "result_at ?p y = Some z" "x = swap_var (K_ssa a n) l z"
        using mapped_pos(2) [OF m v] y(3) by (cases "result_at ?p y") simp_all
      show ?thesis
      proof (cases "key_of z = K_ssa a n")
        case False
        then have "y \<noteq> (k, b, i)" using z(1) r by auto
        then show ?thesis using y(1,2) inv(7) z False by (auto simp: swap_var_def)
      qed (simp add: z(2) swap_var_def l_def)
    qed
    moreover have "pr_alloc ?q = pr_alloc p0"
      using inv(6) by (simp add: replace_var_def replace_defs_prog_def subst_prog_def p1_def)
    ultimately show ?thesis unfolding ssa_inv_def step snd_conv
      using inv(4) by (intro conjI exI [of _ "swap_var (K_ssa a n) l \<circ> f"] exI [of _ "id(K_ssa a n := key_of l) \<circ> \<rho>"]) auto
  qed
qed

lemma ssa_inv_shape:
  assumes "ssa_inv p0 D st"
  shows "length (pr_funcs (snd st)) = length (pr_funcs p0)"
    and "k < length (pr_funcs p0) \<Longrightarrow> fn_blocks (pr_funcs (snd st) ! k) = fn_blocks (pr_funcs p0 ! k)"
    and "k < length (pr_funcs p0) \<Longrightarrow> b \<in> set (fn_blocks (pr_funcs p0 ! k)) \<Longrightarrow>
      length (bk_insts (fn_blk (pr_funcs (snd st) ! k) b)) = length (bk_insts (fn_blk (pr_funcs p0 ! k) b))"
  using assms code_mapped_sel by (fastforce simp: ssa_inv_def list_all2_conv_all_nth)+

lemma ssa_inv_block:
  assumes "ssa_inv p0 D st" "k < length (pr_funcs p0)" "b \<in> set (fn_blocks (pr_funcs p0 ! k))"
  shows "ssa_inv p0 (D \<union> {x. valid_pos p0 x \<and> fst x = k \<and> fst (snd x) = b}) (ssa_to_temp_block k b st)"
proof -
  let ?xs = "[0..<length (bk_insts (fn_blk (pr_funcs p0 ! k) b))]"
  have "ssa_inv p0 (D' \<union> {(k, b, i)}) (ssa_to_temp k b i s)" if "i \<in> set ?xs" "ssa_inv p0 D' s" for i D' s
    by (rule ssa_inv_step) (use that assms(2,3) in \<open>simp_all add: valid_pos_def\<close>)
  from fold_collect [where I = "ssa_inv p0" and f = "ssa_to_temp k b" and c = "\<lambda>i. {(k, b, i)}" and xs = ?xs, OF this assms(1)]
  have "ssa_inv p0 (D \<union> (\<Union>i\<in>set ?xs. {(k, b, i)})) (ssa_to_temp_block k b st)"
    by (simp add: ssa_to_temp_block_def ssa_inv_shape(3) [OF assms])
  then show ?thesis
    unfolding ssa_inv_def by (auto simp: valid_pos_def)
qed

lemma ssa_inv_func:
  assumes "ssa_inv p0 D st" "k < length (pr_funcs p0)"
  shows "ssa_inv p0 (D \<union> {x. valid_pos p0 x \<and> fst x = k}) (ssa_to_temp_func k st)"
proof -
  from fold_collect [where I = "ssa_inv p0" and f = "ssa_to_temp_block k" and xs = "fn_blocks (pr_funcs p0 ! k)"
      and c = "\<lambda>b. {x. valid_pos p0 x \<and> fst x = k \<and> fst (snd x) = b}", OF ssa_inv_block assms(1)] assms(2)
  have "ssa_inv p0 (D \<union> (\<Union>b\<in>set (fn_blocks (pr_funcs p0 ! k)). {x. valid_pos p0 x \<and> fst x = k \<and> fst (snd x) = b}))
      (ssa_to_temp_func k st)"
    by (simp add: ssa_to_temp_func_def ssa_inv_shape(2) [OF assms])
  then show ?thesis unfolding ssa_inv_def by (auto simp: valid_pos_def)
qed

lemma SSAValue2TempValue_inv:
  assumes "typed_prog p"
  shows "ssa_inv p {x. valid_pos p x} (SSAValue2TempValue p)"
proof -
  have m: "prog_mapped (\<lambda>l. l) p p" by (simp add: list_all2_conv_all_nth code_mapped_refl)
  have "ssa_inv p {} (False, p)"
    unfolding ssa_inv_def snd_conv using assms m by (intro conjI exI [of _ "\<lambda>l. l"] exI [of _ "\<lambda>k. k"]) auto
  from fold_collect [where I = "ssa_inv p" and f = ssa_to_temp_func and xs = "[0..<length (pr_funcs p)]"
      and c = "\<lambda>k. {x. valid_pos p x \<and> fst x = k}", OF ssa_inv_func this]
  have "ssa_inv p ({} \<union> (\<Union>k\<in>set [0..<length (pr_funcs p)]. {x. valid_pos p x \<and> fst x = k})) (SSAValue2TempValue p)"
    by (simp add: SSAValue2TempValue_def)
  moreover have "{} \<union> (\<Union>k\<in>set [0..<length (pr_funcs p)]. {x. valid_pos p x \<and> fst x = k}) = {x. valid_pos p x}"
    by (auto simp: valid_pos_def)
  ultimately show ?thesis by simp
qed

text \<open>No SSA value is defined any more.\<close>

definition no_ssa_defs :: "ir_program \<Rightarrow> bool" where
  "no_ssa_defs p \<longleftrightarrow> (\<forall>fn\<in>set (pr_funcs p). \<forall>b\<in>set (fn_blocks fn). \<forall>i\<in>set (bk_insts (fn_blk fn b)). \<forall>l. defined_var i = Some l \<longrightarrow> \<not> is_ssa_value l)"

lemma SSAValue2TempValue_spec:
  assumes "typed_prog p"
  obtains c q f \<rho> where "SSAValue2TempValue p = (c, q)" "prog_mapped f p q" "renames f \<rho> (prog_occurs p)"
    "\<And>l. is_named l \<Longrightarrow> f l = l" "\<And>d. \<rho> (K_named d) = K_named d" "typed_prog q" "no_ssa_defs q" "pr_alloc q = pr_alloc p"
proof -
  obtain c q where q: "SSAValue2TempValue p = (c, q)" by force
  note inv = SSAValue2TempValue_inv [OF assms, unfolded ssa_inv_def q snd_conv]
  then obtain f \<rho> where f: "prog_mapped f p q" "renames f \<rho> (prog_occurs p)" "\<And>l. is_named l \<Longrightarrow> f l = l"
      "\<And>d. \<rho> (K_named d) = K_named d" by blast
  have "no_ssa_defs q"
    unfolding no_ssa_defs_def
  proof (intro ballI allI impI)
    fix fn b i l assume "fn \<in> set (pr_funcs q)" "b \<in> set (fn_blocks fn)" "i \<in> set (bk_insts (fn_blk fn b))" "defined_var i = Some l"
    then obtain k j where "k < length (pr_funcs q)" "fn = pr_funcs q ! k" "valid_pos q (k, b, j)" "result_at q (k, b, j) = Some l"
      by (auto simp: in_set_conv_nth valid_pos_def result_at_def)
    then show "\<not> is_ssa_value l" using inv mapped_pos(1) [OF f(1)] by blast
  qed
  then show ?thesis using that [OF q f] inv by blast
qed

end
