(* ===== verification/Ssa_Split.thy ===== *)
theory Ssa_Split
  imports Ssa_Vars
begin

text \<open>
  Splitting critical edges: the function with a new block on an edge gives the same results, and when
  all critical edges are split, a block in front of phi instructions has no other successor.
\<close>

section \<open>Results of a function\<close>

text \<open>
  A run gives \<open>r\<close> when enough blocks are allowed; a run that never ends gives nothing. (An operation
  that itself fails with the error for a lack of fuel is not counted either.)
\<close>

abbreviation out_of_fuel :: "('v option \<times> 'w) result" where
  "out_of_fuel \<equiv> Inl (Undefined ''out of fuel'')"

definition run_gives :: "('v, 'w) machine \<Rightarrow> ir_func \<Rightarrow> 'v vars_env \<Rightarrow> 'w \<Rightarrow> ('v option \<times> 'w) result \<Rightarrow> bool" where
  "run_gives M fn env w r \<longleftrightarrow> r \<noteq> out_of_fuel \<and> (\<exists>n. run_func M fn n env w = r)"

section \<open>One edge\<close>

definition edge_split :: "block_id \<Rightarrow> block_id \<Rightarrow> block_id \<Rightarrow> ir_func \<Rightarrow> ir_func \<Rightarrow> bool" where
  "edge_split from to mid fn g \<longleftrightarrow>
     fn_blocks g = fn_blocks fn @ [mid] \<and> mid \<notin> set (fn_blocks fn) \<and>
     bk_insts (fn_blk g mid) = [] \<and> bk_exit (fn_blk g mid) = Some (JumpExit to) \<and>
     (\<forall>b\<in>set (fn_blocks fn).
        bk_insts (fn_blk g b) =
          (if b = to then map_phis (rename_source from mid) (bk_insts (fn_blk fn b)) else bk_insts (fn_blk fn b)) \<and>
        bk_exit (fn_blk g b) =
          (if b = from then map_option (retarget to mid) (bk_exit (fn_blk fn b)) else bk_exit (fn_blk fn b))) \<and>
     fn_id g = fn_id fn \<and> fn_temps g = fn_temps fn \<and> fn_locals g = fn_locals fn \<and> fn_params g = fn_params fn"

lemma split_edge_split:
  assumes "fresh fn \<notin> set (fn_blocks fn)" "from \<in> set (fn_blocks fn)" "to \<in> set (fn_blocks fn)"
  shows "edge_split from to (fresh fn) fn (snd (split_edge fresh (from, to) (n, fn)))"
  using assms by (auto simp: edge_split_def split_edge_def Let_def update_block_def setExit_def new_ir_block_def)

lemma split_insts:
  assumes "edge_split from to mid fn g"
  shows "b \<in> set (fn_blocks fn) \<Longrightarrow> bk_insts (fn_blk g b) =
      (if b = to then map_phis (rename_source from mid) (bk_insts (fn_blk fn b)) else bk_insts (fn_blk fn b))"
    and "bk_insts (fn_blk g mid) = []"
  using assms by (simp_all add: edge_split_def)

lemma map_phis_Cons:
  "map_phis f (i # is) = (if is_phi_inst i then f i # map_phis f is else i # is)"
  by (simp add: map_phis_def)

lemma map_phis_Nil [simp]: "map_phis f [] = []"
  by (simp add: map_phis_def)

lemma phi_value_renamed:
  assumes "mid \<notin> fst ` set args" "p \<noteq> mid"
  shows "phi_value (map (\<lambda>(b, v). (if b = from then mid else b, v)) args) (if p = from then mid else p) = phi_value args p"
  using assms by (induction args) auto

lemma read_phis_retargeted:
  assumes "\<forall>i\<in>set is. mid \<notin> set (sources i)" "prev \<noteq> Some mid"
  shows "read_phis M (if prev = Some from then Some mid else prev) env (map_phis (rename_source from mid) is) =
    read_phis M prev env is"
  using assms(1)
proof (induction "is")
  case (Cons i "is")
  show ?case
  proof (cases i)
    case (Phi r args)
    show ?thesis
    proof (cases prev)
      case (Some p)
      have "phi_value (map (\<lambda>(b, v). (if b = from then mid else b, v)) args) (if p = from then mid else p) = phi_value args p"
        by (rule phi_value_renamed) (use Cons.prems assms(2) Some Phi in \<open>auto simp: image_iff\<close>)
      then show ?thesis using Cons Phi Some by (auto simp: map_phis_Cons split: if_splits)
    qed (use Cons Phi in \<open>simp add: map_phis_Cons\<close>)
  qed (simp_all add: map_phis_Cons)
qed simp

lemma map_redirect: "map_option (\<lambda>b. if b = to then mid else b) x = (if x = Some to then Some mid else x)"
  by (cases x) auto

lemma run_exit_retarget:
  "run_exit M env (retarget to mid e) =
    rbind (run_exit M env e) (\<lambda>(nx, v). Inr (if nx = Some to then Some mid else nx, v))"
proof (cases e)
  case (BranchExit c t u)
  then show ?thesis by (cases "mc_test M (val_of M env c)") (simp_all add: map_redirect)
qed auto

text \<open>Where the run of the split function is while the original goes from \<open>prev\<close> to \<open>b\<close>.\<close>

definition split_prev :: "block_id \<Rightarrow> block_id \<Rightarrow> block_id \<Rightarrow> block_id option \<Rightarrow> block_id \<Rightarrow> block_id option" where
  "split_prev from to mid prev b = (if prev = Some from \<and> b = to then Some mid else prev)"

definition sources_ok :: "ir_func \<Rightarrow> bool" where
  "sources_ok fn \<longleftrightarrow> (\<forall>b\<in>set (fn_blocks fn). \<forall>i\<in>set (bk_insts (fn_blk fn b)). set (sources i) \<subseteq> set (fn_blocks fn))"

lemma split_block_runs:
  assumes split: "edge_split from to mid fn g" and src: "sources_ok fn" and b: "b \<in> set (fn_blocks fn)" and prev: "prev \<noteq> Some mid"
  shows "run_block M g (split_prev from to mid prev b) b s =
    rbind (run_block M fn prev b s) (\<lambda>((nx, v), s1). Inr ((if b = from \<and> nx = Some to then Some mid else nx, v), s1))"
proof -
  have mid: "mid \<notin> set (fn_blocks fn)" using split by (simp add: edge_split_def)
  have "\<forall>i\<in>set (bk_insts (fn_blk fn b)). mid \<notin> set (sources i)" using src b mid by (auto simp: sources_ok_def)
  from read_phis_retargeted [OF this prev, of M "from" "fst s"]
  have phis: "read_phis M (split_prev from to mid prev b) (fst s) (bk_insts (fn_blk g b)) = read_phis M prev (fst s) (bk_insts (fn_blk fn b))"
    using split b by (auto simp: edge_split_def split_prev_def)
  have exit: "bk_exit (fn_blk g b) = (if b = from then map_option (retarget to mid) (bk_exit (fn_blk fn b)) else bk_exit (fn_blk fn b))"
    using split b by (simp add: edge_split_def)
  have ex: "rbind (get_exit (fn_blk g b)) (\<lambda>e. rbind (run_exit M (fst s1) e) (\<lambda>nx. Inr (nx, s1))) =
      rbind (rbind (get_exit (fn_blk fn b)) (\<lambda>e. rbind (run_exit M (fst s1) e) (\<lambda>nx. Inr (nx, s1))))
        (\<lambda>((nx, v), s1). Inr ((if b = from \<and> nx = Some to then Some mid else nx, v), s1))" for s1 :: "'a vars_env \<times> 'b"
  proof (cases "bk_exit (fn_blk fn b)")
    case (Some e)
    show ?thesis
      using Some by (cases "run_exit M (fst s1) e") (auto simp: get_exit_def exit run_exit_retarget)
  qed (auto simp: get_exit_def exit)
  show ?thesis
    unfolding run_block_def phis rbind_assoc by (simp add: ex rbind_assoc split_def)
qed

lemma split_mid_runs:
  assumes "edge_split from to mid fn g"
  shows "run_block M g prev mid s = Inr ((Some to, None), s)"
  using assms by (simp add: edge_split_def run_block_def get_exit_def)

lemma fuel_mono:
  "run_from M fn n prev b s = r \<Longrightarrow> r \<noteq> out_of_fuel \<Longrightarrow> n \<le> m \<Longrightarrow> run_from M fn m prev b s = r"
proof (induction n arbitrary: m prev b s)
  case (Suc n)
  then obtain k where k: "m = Suc k" "n \<le> k" by (cases m) auto
  show ?case
  proof (cases "run_block M fn prev b s")
    case (Inr x)
    obtain nx v s1 where x: "x = ((nx, v), s1)" by (metis prod.collapse)
    show ?thesis using Suc.prems Suc.IH [OF _ _ k(2)] k Inr x by (cases nx) auto
  qed (use Suc.prems k in auto)
qed simp

lemma split_runs_on:
  assumes split: "edge_split from to mid fn g" and src: "sources_ok fn" and wf: "well_formed fn"
  shows "b \<in> set (fn_blocks fn) \<Longrightarrow> prev \<noteq> Some mid \<Longrightarrow> run_from M fn n prev b s = r \<Longrightarrow> r \<noteq> out_of_fuel \<Longrightarrow>
    \<exists>m. run_from M g m (split_prev from to mid prev b) b s = r"
proof (induction n arbitrary: prev b s)
  case (Suc n)
  note step = split_block_runs [OF split src Suc.prems(1,2), of M s]
  have mid: "mid \<notin> set (fn_blocks fn)" using split by (simp add: edge_split_def)
  show ?case
  proof (cases "run_block M fn prev b s")
    case (Inl e)
    then have "run_from M g (Suc 0) (split_prev from to mid prev b) b s = r" using step Suc.prems(3) by simp
    then show ?thesis by blast
  next
    case (Inr x)
    obtain nx v s1 where x: "x = ((nx, v), s1)" by (metis prod.collapse)
    show ?thesis
    proof (cases nx)
      case None
      then have "run_from M g (Suc 0) (split_prev from to mid prev b) b s = r" using step Suc.prems(3) Inr x by simp
      then show ?thesis by blast
    next
      case (Some c)
      then have "c \<in> set (exit_succs fn b)" using Inr x run_block_next by fastforce
      then have c: "c \<in> set (fn_blocks fn)" using wf Suc.prems(1) by blast
      have "run_from M fn n (Some b) c s1 = r" using Suc.prems(3) Inr x Some by simp
      moreover have "Some b \<noteq> Some mid" using Suc.prems(1) mid by auto
      ultimately obtain m where m: "run_from M g m (split_prev from to mid (Some b) c) c s1 = r"
        using Suc.IH [OF c] Suc.prems(4) by blast
      have "run_from M g (Suc (Suc m)) (split_prev from to mid prev b) b s = r"
      proof (cases "b = from \<and> c = to")
        case True
        then show ?thesis using m step Inr x Some by (simp add: split_mid_runs [OF split] split_prev_def)
      next
        case False
        then have "run_from M g (Suc m) (Some b) c s1 = r" using fuel_mono [OF m Suc.prems(4), of "Suc m"]
          by (auto simp: split_prev_def simp del: run_from.simps)
        then show ?thesis using False step Inr x Some by auto
      qed
      then show ?thesis by blast
    qed
  qed
qed simp

lemma split_runs_back:
  assumes split: "edge_split from to mid fn g" and src: "sources_ok fn" and wf: "well_formed fn"
  shows "b \<in> set (fn_blocks fn) \<Longrightarrow> prev \<noteq> Some mid \<Longrightarrow> run_from M g m (split_prev from to mid prev b) b s = r \<Longrightarrow>
    r \<noteq> out_of_fuel \<Longrightarrow> run_from M fn m prev b s = r"
proof (induction m arbitrary: prev b s rule: less_induct)
  case (less m)
  note step = split_block_runs [OF split src less.prems(1,2), of M s]
  have mid: "mid \<notin> set (fn_blocks fn)" using split by (simp add: edge_split_def)
  obtain k where k: "m = Suc k" using less.prems(3,4) by (cases m) auto
  show ?case
  proof (cases "run_block M fn prev b s")
    case (Inl e)
    then show ?thesis using step less.prems(3) k by simp
  next
    case (Inr x)
    obtain nx v s1 where x: "x = ((nx, v), s1)" by (metis prod.collapse)
    show ?thesis
    proof (cases nx)
      case None
      then show ?thesis using step less.prems(3) k Inr x by simp
    next
      case (Some c)
      then have "c \<in> set (exit_succs fn b)" using Inr x run_block_next by fastforce
      then have c: "c \<in> set (fn_blocks fn)" "Some b \<noteq> Some mid" using wf less.prems(1) mid by auto
      show ?thesis
      proof (cases "b = from \<and> c = to")
        case True
        then have "run_from M g k (Some b) mid s1 = r" using less.prems(3) step Inr x Some k by simp
        then obtain j where j: "k = Suc j" "run_from M g j (Some mid) to s1 = r"
          using less.prems(4) by (cases k) (auto simp: split_mid_runs [OF split])
        then have "run_from M fn j (Some b) c s1 = r"
          using less.IH [of j c "Some b" s1] k True c less.prems(4) by (simp add: split_prev_def)
        then show ?thesis using fuel_mono [of M fn j "Some b" c s1 r k] j(1) k less.prems(4) Inr x Some by simp
      next
        case False
        then have "run_from M g k (split_prev from to mid (Some b) c) c s1 = r"
          using less.prems(3) step Inr x Some k by (auto simp: split_prev_def)
        then show ?thesis using less.IH [of k c "Some b" s1] k c less.prems(4) Inr x Some by simp
      qed
    qed
  qed
qed

lemma split_run_gives:
  assumes split: "edge_split from to mid fn g" and src: "sources_ok fn" and wf: "well_formed fn"
  shows "run_gives M g env w r \<longleftrightarrow> run_gives M fn env w r"
proof -
  let ?e = "hd (fn_blocks fn)"
  have e: "entrance fn = Inr ?e" "?e \<in> set (fn_blocks fn)" using wf by (simp_all add: entrance_hd)
  have "fn_blocks g = fn_blocks fn @ [mid]" using split by (simp add: edge_split_def)
  then have eg: "entrance g = Inr ?e" using wf by (cases "fn_blocks fn") (simp_all add: entrance_def)
  have "split_prev from to mid None ?e = None" by (simp add: split_prev_def)
  then show ?thesis
    using split_runs_on [OF split src wf e(2), of None M] split_runs_back [OF split src wf e(2), of None M] e(1) eg
    unfolding run_gives_def run_func_def by (metis option.distinct(1) rbind.simps(2))
qed

section \<open>What a split keeps\<close>

lemma is_phi_eq: "is_phi = is_phi_inst"
proof
  fix i show "is_phi i = is_phi_inst i" by (cases i) simp_all
qed

text \<open>The copies on the edge from \<open>p\<close> to \<open>b\<close> can be scheduled.\<close>

definition edge_ok :: "(constexpr \<Rightarrow> 'v) \<Rightarrow> ir_func \<Rightarrow> block_id \<Rightarrow> block_id \<Rightarrow> bool" where
  "edge_ok C fn p b \<longleftrightarrow>
     (\<exists>cs. phi_copies p (bk_insts (fn_blk fn b)) = Inr cs \<and> copies_ok C (fn_id fn) (length (fn_temps fn)) cs)"

text \<open>A branch in front of phi instructions has two different targets.\<close>

definition clean_branches :: "ir_func \<Rightarrow> bool" where
  "clean_branches fn \<longleftrightarrow>
     (\<forall>p\<in>set (fn_blocks fn). \<forall>c t e. bk_exit (fn_blk fn p) = Some (BranchExit c t e) \<longrightarrow>
        (\<exists>b\<in>set (exit_succs fn p). starts_with_phi (fn_blk fn b)) \<longrightarrow> (\<exists>x y. t = Some x \<and> e = Some y \<and> x \<noteq> y))"

definition split_ready :: "(constexpr \<Rightarrow> 'v) \<Rightarrow> ir_func \<Rightarrow> bool" where
  "split_ready C fn \<longleftrightarrow>
     cfg_ok fn \<and> sources_ok fn \<and> clean_branches fn \<and> \<not> starts_with_phi (fn_blk fn (hd (fn_blocks fn))) \<and>
     (\<forall>p\<in>set (fn_blocks fn). \<forall>b\<in>set (exit_succs fn p). edge_ok C fn p b)"

lemma targets_retarget: "targets (retarget to mid e) = map (\<lambda>c. if c = to then mid else c) (targets e)"
proof (cases e)
  case (BranchExit c t u)
  then show ?thesis by (cases t; cases u) simp_all
qed simp_all

lemma split_succs:
  assumes "edge_split from to mid fn g"
  shows "b \<in> set (fn_blocks fn) \<Longrightarrow>
      exit_succs g b = (if b = from then map (\<lambda>c. if c = to then mid else c) (exit_succs fn b) else exit_succs fn b)"
    and "exit_succs g mid = [to]"
  using assms by (auto simp: edge_split_def exit_succs_def block_targets_def targets_retarget split: option.split)

lemma map_phis_phi: "map is_phi_inst (map_phis (rename_source from mid) is) = map is_phi_inst is"
proof (induction "is")
  case (Cons i "is")
  then show ?case by (cases i) (simp_all add: map_phis_Cons)
qed simp

lemma starts_map_phis: "is = map_phis (rename_source from mid) js \<Longrightarrow>
    (case is of [] \<Rightarrow> False | i # is \<Rightarrow> is_phi_inst i) = (case js of [] \<Rightarrow> False | i # is \<Rightarrow> is_phi_inst i)"
  using map_phis_phi [of "from" mid js] by (cases "is"; cases js) auto

lemma split_starts:
  assumes "edge_split from to mid fn g"
  shows "b \<in> set (fn_blocks fn) \<Longrightarrow> starts_with_phi (fn_blk g b) = starts_with_phi (fn_blk fn b)"
    and "\<not> starts_with_phi (fn_blk g mid)"
  using assms starts_map_phis by (auto simp: edge_split_def starts_with_phi_def)

lemma phi_copies_renamed:
  assumes "\<forall>i\<in>set is. mid \<notin> set (sources i)" "p \<noteq> mid"
  shows "phi_copies (if p = from then mid else p) (map_phis (rename_source from mid) is) = phi_copies p is"
  using assms(1)
proof (induction "is")
  case (Cons i "is")
  show ?case
  proof (cases i)
    case (Phi r args)
    have "phi_value (map (\<lambda>(b, v). (if b = from then mid else b, v)) args) (if p = from then mid else p) = phi_value args p"
      by (rule phi_value_renamed) (use Cons.prems assms(2) Phi in \<open>auto simp: image_iff\<close>)
    then show ?thesis using Cons Phi by (simp add: map_phis_Cons)
  qed (simp_all add: map_phis_Cons)
qed simp

lemma split_occurs:
  assumes split: "edge_split from to mid fn g"
  shows "occurs g = occurs fn"
proof -
  have "set (vars (rename_source from mid i)) = set (vars i)" for i
  proof (cases i)
    case (Phi r args)
    have "map snd (map (\<lambda>(b, v). (if b = from then mid else b, v)) args) = map snd args" by (induction args) auto
    then have u: "used (rename_source from mid i) = used i" using Phi by simp
    have d: "defined_var (rename_source from mid i) = defined_var i" using Phi by simp
    show ?thesis unfolding vars_def used_vars_def u d ..
  qed simp_all
  then have "set (concat (map vars (map_phis (rename_source from mid) is))) = set (concat (map vars is))" for "is"
    by (induction "is") (auto simp: map_phis_Cons)
  then have i: "(\<Union>i\<in>set (map_phis (rename_source from mid) is). set (vars i)) = (\<Union>i\<in>set is. set (vars i))" for "is"
    by simp
  have e: "used_var_exit (retarget to mid e) = used_var_exit e" for e
    by (cases e) (simp_all add: used_var_exit_def)
  have "block_occurs (fn_blk g b) = block_occurs (fn_blk fn b)" if "b \<in> set (fn_blocks fn)" for b
    using split that by (auto simp: edge_split_def block_occurs_def i e)
  moreover have "block_occurs (fn_blk g mid) = {}"
    using split by (auto simp: edge_split_def block_occurs_def used_var_exit_def)
  moreover have "set (fn_blocks g) = insert mid (set (fn_blocks fn))" using split by (simp add: edge_split_def)
  ultimately show ?thesis by (simp add: occurs_def)
qed

lemma split_reachable:
  assumes split: "edge_split from to mid fn g" and wf: "well_formed fn" and edge: "to \<in> set (exit_succs fn from)" "from \<in> set (fn_blocks fn)"
  shows "path_to fn b ps \<Longrightarrow> reachable g b"
proof (induction rule: path_to.induct)
  case (start b)
  have "hd (fn_blocks g) = hd (fn_blocks fn)" using split wf by (simp add: edge_split_def)
  moreover have "entrance g = Inr (hd (fn_blocks g))" using split by (simp add: edge_split_def entrance_def split: list.split)
  ultimately have "entrance g = Inr b" using start wf entrance_hd by (metis sum.inject(2))
  then show ?case unfolding reachable_def using path_to.start by blast
next
  case (step c ps b)
  have c: "c \<in> set (fn_blocks fn)" "b \<in> set (exit_succs fn c)" using step by (auto simp: cfg_succ_def split: if_splits)
  have gs: "set (cfg_succ g x) = set (exit_succs g x)" if "x \<in> set (fn_blocks fn) \<or> x = mid" for x
    using split that by (auto simp: cfg_succ_def edge_split_def)
  show ?case
  proof (cases "c = from \<and> b = to")
    case True
    then have "mid \<in> set (exit_succs g c)" using split_succs(1) [OF split c(1)] c(2) by (auto intro: rev_image_eqI)
    then have "reachable g mid" using reachable_step [OF step.IH] gs c(1) by simp
    then show ?thesis using reachable_step [of g mid to] gs True split_succs(2) [OF split] by simp
  next
    case False
    then have "b \<in> set (exit_succs g c)" using split_succs(1) [OF split c(1)] c(2) by (auto intro: rev_image_eqI)
    then show ?thesis using reachable_step [OF step.IH] gs c(1) by simp
  qed
qed

lemma split_ready_step:
  assumes split: "edge_split from to mid fn g" and ready: "split_ready C fn"
    and edge: "from \<in> set (fn_blocks fn)" "to \<in> set (exit_succs fn from)"
  shows "split_ready C g"
proof -
  let ?B = "set (fn_blocks fn)"
  have cfg: "cfg_ok fn" and src: "sources_ok fn" using ready by (simp_all add: split_ready_def)
  have wf: "well_formed fn" using cfg by (simp add: cfg_ok_def)
  have to: "to \<in> ?B" using wf edge by blast
  have B: "set (fn_blocks g) = insert mid ?B" and mid: "mid \<notin> ?B" using split by (simp_all add: edge_split_def)
  have hd: "hd (fn_blocks g) = hd (fn_blocks fn)" using split wf by (simp add: edge_split_def)
  have entry: "hd (fn_blocks fn) \<in> ?B" using wf by simp
  have succ: "set (exit_succs g b) \<subseteq> set (fn_blocks g)" if "b \<in> set (fn_blocks g)" for b
    using that split_succs [OF split] wf to B by (cases "b = mid") (auto split: if_splits)
  have ex: "hasExit (fn_blk g b)" if "b \<in> set (fn_blocks g)" for b
    using that split cfg B by (auto simp: edge_split_def hasExit_def cfg_ok_def)
  have reach: "reachable g b" if "b \<in> ?B" for b
    using that cfg split_reachable [OF split wf edge(2,1)] by (auto simp: cfg_ok_def reachable_def)
  have "mid \<in> set (cfg_succ g from)" using split_succs(1) [OF split edge(1)] edge B by (force simp: cfg_succ_def)
  then have "reachable g mid" using reachable_step [OF reach [OF edge(1)]] by simp
  moreover have "cfg_defined g"
    using cfg split by (auto simp: cfg_ok_def edge_split_def cfg_defined_def list_all_iff)
  ultimately have "cfg_ok g"
    using cfg succ ex reach B split by (auto simp: cfg_ok_def edge_split_def)
  moreover have "sources_ok g"
  proof -
    have "set (sources i) \<subseteq> insert mid ?B" if b: "b \<in> ?B" and i: "i \<in> set (map_phis (rename_source from mid) (bk_insts (fn_blk fn b)))" for b i
    proof -
      have "i \<in> set (bk_insts (fn_blk fn b)) \<or> (\<exists>j\<in>set (bk_insts (fn_blk fn b)). i = rename_source from mid j)"
        using i by (auto simp: map_phis_def dest: set_takeWhileD set_dropWhileD)
      moreover have "set (sources (rename_source from mid j)) \<subseteq> insert mid (set (sources j))" for j by (cases j) force+
      ultimately show ?thesis using src b unfolding sources_ok_def by blast
    qed
    then have "set (sources i) \<subseteq> insert mid ?B" if "b \<in> insert mid ?B" "i \<in> set (bk_insts (fn_blk g b))" for b i
      using that src split_insts [OF split] unfolding sources_ok_def by (cases "b = mid") (auto split: if_splits)
    then show ?thesis unfolding sources_ok_def B by blast
  qed
  moreover have "clean_branches g"
    unfolding clean_branches_def
  proof (intro ballI allI impI)
    fix p c t e assume p: "p \<in> set (fn_blocks g)" "bk_exit (fn_blk g p) = Some (BranchExit c t e)"
      and b: "\<exists>b\<in>set (exit_succs g p). starts_with_phi (fn_blk g b)"
    have pB: "p \<in> ?B" using p B split by (auto simp: edge_split_def)
    obtain b where b: "b \<in> set (exit_succs g p)" "starts_with_phi (fn_blk g b)" using b by blast
    have "b \<noteq> mid" using b(2) split_starts(2) [OF split] by auto
    then have old: "b \<in> set (exit_succs fn p)" using b(1) split_succs(1) [OF split pB] by (auto split: if_splits)
    then have "starts_with_phi (fn_blk fn b)" using wf pB b(2) split_starts(1) [OF split] by blast
    then have some: "\<exists>b\<in>set (exit_succs fn p). starts_with_phi (fn_blk fn b)" using old by blast
    show "\<exists>x y. t = Some x \<and> e = Some y \<and> x \<noteq> y"
    proof (cases "p = from")
      case False
      then show ?thesis using some p(2) pB split ready unfolding split_ready_def clean_branches_def edge_split_def by auto
    next
      case True
      then have "map_option (retarget to mid) (bk_exit (fn_blk fn p)) = Some (BranchExit c t e)"
        using p(2) pB split by (simp add: edge_split_def)
      then obtain e0 where e0: "bk_exit (fn_blk fn p) = Some e0" "retarget to mid e0 = BranchExit c t e" by auto
      then obtain t0 u0 where o: "e0 = BranchExit c t0 u0" "t = map_option (\<lambda>b. if b = to then mid else b) t0"
          "e = map_option (\<lambda>b. if b = to then mid else b) u0" by (cases e0) auto
      obtain x y where xy: "t0 = Some x" "u0 = Some y" "x \<noteq> y"
        using some pB e0(1) o(1) ready unfolding split_ready_def clean_branches_def by blast
      have "set (exit_succs fn p) \<subseteq> ?B" using wf pB by blast
      then have "x \<in> ?B" "y \<in> ?B" using e0(1) o(1) xy by (simp_all add: exit_succs_def block_targets_def)
      then show ?thesis using xy o(2,3) mid by auto
    qed
  qed
  moreover have "\<not> starts_with_phi (fn_blk g (hd (fn_blocks g)))"
    using ready hd split_starts(1) [OF split entry] by (simp add: split_ready_def)
  moreover have "edge_ok C g p b" if p: "p \<in> set (fn_blocks g)" and b: "b \<in> set (exit_succs g p)" for p b
  proof (cases "b = mid")
    case True
    then show ?thesis using split by (simp add: edge_ok_def edge_split_def copies_ok_def no_temps_def keys_exact_def)
  next
    case False
    define q where "q = (if p = mid then from else p)"
    have q: "q \<in> ?B" "b \<in> set (exit_succs fn q)" "p = (if q = from \<and> b = to then mid else q)"
      using p b B edge False split_succs [OF split] by (auto simp: q_def split: if_splits)
    have bB: "b \<in> ?B" using wf q(1,2) by blast
    have qm: "q \<noteq> mid" using q(1) mid by auto
    have "\<forall>i\<in>set (bk_insts (fn_blk fn b)). mid \<notin> set (sources i)" using src bB mid unfolding sources_ok_def by blast
    from phi_copies_renamed [OF this qm, of "from"]
    have "phi_copies p (bk_insts (fn_blk g b)) = phi_copies q (bk_insts (fn_blk fn b))"
      using split bB q(3) by (auto simp: edge_split_def)
    moreover have "edge_ok C fn q b" using ready q(1,2) by (simp add: split_ready_def)
    ultimately show ?thesis using split by (simp add: edge_ok_def edge_split_def)
  qed
  ultimately show ?thesis by (simp add: split_ready_def)
qed

definition func_defs :: "ir_func \<Rightarrow> left_value set" where
  "func_defs fn = {d. \<exists>b\<in>set (fn_blocks fn). \<exists>i\<in>set (bk_insts (fn_blk fn b)). defined_var i = Some d}"

lemma func_defs_occur: "func_defs fn \<subseteq> occurs fn"
  using occurs_inst defined_var_vars unfolding func_defs_def by blast

lemma split_defs:
  assumes split: "edge_split from to mid fn g"
  shows "func_defs g = func_defs fn"
proof -
  have "defined_var (rename_source from mid i) = defined_var i" for i by (cases i) simp_all
  then have "defined_var ` set (map_phis (rename_source from mid) is) = defined_var ` set is" for "is"
    by (induction "is") (auto simp: map_phis_Cons)
  then have d: "defined_var ` set (bk_insts (fn_blk g b)) = defined_var ` set (bk_insts (fn_blk fn b))" if "b \<in> set (fn_blocks fn)" for b
    using split_insts(1) [OF split that] by simp
  have e: "func_defs fn = {x. \<exists>b\<in>set (fn_blocks fn). Some x \<in> defined_var ` set (bk_insts (fn_blk fn b))}" for fn
    by (force simp: func_defs_def)
  have B: "set (fn_blocks g) = insert mid (set (fn_blocks fn))" using split by (simp add: edge_split_def)
  show ?thesis unfolding e B using d split_insts(2) [OF split] by auto
qed

section \<open>All critical edges\<close>

text \<open>The function after the edges in \<open>D\<close> have been split.\<close>

definition same_interface :: "ir_func \<Rightarrow> ir_func \<Rightarrow> bool" where
  "same_interface fn g \<longleftrightarrow>
     occurs g = occurs fn \<and> func_defs g = func_defs fn \<and> fn_id g = fn_id fn \<and> fn_temps g = fn_temps fn \<and> fn_locals g = fn_locals fn \<and> fn_params g = fn_params fn"

definition splits_done :: "ir_func \<Rightarrow> edge set \<Rightarrow> ir_func \<Rightarrow> bool" where
  "splits_done fn D g \<longleftrightarrow>
     set (fn_blocks fn) \<subseteq> set (fn_blocks g) \<and>
     (\<forall>p\<in>set (fn_blocks fn). \<forall>c\<in>set (fn_blocks fn). c \<in> set (exit_succs g p) \<longleftrightarrow> c \<in> set (exit_succs fn p) \<and> (p, c) \<notin> D) \<and>
     (\<forall>p\<in>set (fn_blocks fn). (\<forall>c. (p, c) \<notin> D) \<longrightarrow> exit_succs g p = exit_succs fn p) \<and>
     (\<forall>m\<in>set (fn_blocks g) - set (fn_blocks fn). bk_insts (fn_blk g m) = [] \<and>
        (\<exists>c\<in>set (fn_blocks fn). exit_succs g m = [c] \<and> (\<exists>p. (p, c) \<in> D))) \<and>
     (\<forall>b\<in>set (fn_blocks fn). map is_phi_inst (bk_insts (fn_blk g b)) = map is_phi_inst (bk_insts (fn_blk fn b)))"

lemma splits_done_step:
  assumes "splits_done fn D g" "edge_split from to mid g h" "(from, to) \<notin> D"
    and "from \<in> set (fn_blocks fn)" "to \<in> set (fn_blocks fn)"
  shows "splits_done fn (insert (from, to) D) h"
proof -
  let ?B = "set (fn_blocks fn)"
  note state = assms(1)[unfolded splits_done_def]
  have sub: "?B \<subseteq> set (fn_blocks g)" using state by blast
  have B: "set (fn_blocks h) = insert mid (set (fn_blocks g))" "mid \<notin> set (fn_blocks g)"
    using assms(2) by (simp_all add: edge_split_def)
  note succ = split_succs [OF assms(2)] and insts = split_insts [OF assms(2)]
  show ?thesis
    unfolding splits_done_def
  proof (intro conjI ballI impI)
    show "?B \<subseteq> set (fn_blocks h)" using sub B by blast
  next
    fix p c assume pc: "p \<in> ?B" "c \<in> ?B"
    then have p: "p \<in> set (fn_blocks g)" "c \<noteq> mid" using sub B by auto
    have "c \<in> set (exit_succs g p) \<longleftrightarrow> c \<in> set (exit_succs fn p) \<and> (p, c) \<notin> D" using state pc by blast
    then show "c \<in> set (exit_succs h p) \<longleftrightarrow> c \<in> set (exit_succs fn p) \<and> (p, c) \<notin> insert (from, to) D"
      using succ(1) [OF p(1)] p(2) by (auto simp: image_iff)
  next
    fix p assume p: "p \<in> ?B" "\<forall>c. (p, c) \<notin> insert (from, to) D"
    then have "exit_succs g p = exit_succs fn p" "p \<noteq> from" using state by blast+
    then show "exit_succs h p = exit_succs fn p" using succ(1) [of p] p(1) sub by auto
  next
    fix m assume m: "m \<in> set (fn_blocks h) - ?B"
    show "bk_insts (fn_blk h m) = []"
    proof (cases "m = mid")
      case False
      then have "m \<in> set (fn_blocks g) - ?B" "m \<noteq> to" using m B assms(5) by auto
      then show ?thesis using state insts(1) [of m] by auto
    qed (use insts(2) in simp)
    show "\<exists>c\<in>?B. exit_succs h m = [c] \<and> (\<exists>p. (p, c) \<in> insert (from, to) D)"
    proof (cases "m = mid")
      case False
      then have "m \<in> set (fn_blocks g) - ?B" "m \<noteq> from" using m B assms(4) by auto
      moreover from this obtain c where "c \<in> ?B" "exit_succs g m = [c]" "\<exists>p. (p, c) \<in> D" using state by blast
      ultimately show ?thesis using succ(1) [of m] by auto
    qed (use succ(2) assms(5) in auto)
  next
    fix b assume b: "b \<in> ?B"
    then have "map is_phi_inst (bk_insts (fn_blk g b)) = map is_phi_inst (bk_insts (fn_blk fn b))" using state by blast
    then show "map is_phi_inst (bk_insts (fn_blk h b)) = map is_phi_inst (bk_insts (fn_blk fn b))"
      using insts(1) [of b] b sub by (auto simp: map_phis_phi)
  qed
qed

lemma splits_done_starts:
  assumes "splits_done fn D g"
  shows "b \<in> set (fn_blocks fn) \<Longrightarrow> starts_with_phi (fn_blk g b) = starts_with_phi (fn_blk fn b)"
    and "b \<in> set (fn_blocks g) \<Longrightarrow> starts_with_phi (fn_blk g b) \<Longrightarrow> b \<in> set (fn_blocks fn)"
proof -
  have "starts_with_phi k \<longleftrightarrow> (case map is_phi_inst (bk_insts k) of [] \<Rightarrow> False | x # xs \<Rightarrow> x)" for k
    by (cases "bk_insts k") (simp_all add: starts_with_phi_def)
  then show "b \<in> set (fn_blocks fn) \<Longrightarrow> starts_with_phi (fn_blk g b) = starts_with_phi (fn_blk fn b)"
    using assms by (simp add: splits_done_def)
  show "b \<in> set (fn_blocks g) \<Longrightarrow> starts_with_phi (fn_blk g b) \<Longrightarrow> b \<in> set (fn_blocks fn)"
    using assms unfolding splits_done_def starts_with_phi_def by (metis DiffI list.simps(4))
qed

lemma same_interface_trans: "same_interface fn g \<Longrightarrow> same_interface g h \<Longrightarrow> same_interface fn h"
  by (simp add: same_interface_def)

lemma split_fold:
  assumes "split_ready C fn" and fresh: "\<And>f. fresh f \<notin> set (fn_blocks f)"
  shows "split_ready C g \<Longrightarrow> splits_done fn D g \<Longrightarrow> same_interface fn g \<Longrightarrow> distinct es \<Longrightarrow> set es \<inter> D = {} \<Longrightarrow>
      \<forall>(p, c)\<in>set es. p \<in> set (fn_blocks fn) \<and> c \<in> set (exit_succs fn p) \<Longrightarrow>
    (let h = snd (fold (split_edge fresh) es (n, g)) in
      split_ready C h \<and> splits_done fn (D \<union> set es) h \<and> same_interface fn h \<and>
      (\<forall>env w r. run_gives M h env w r \<longleftrightarrow> run_gives M g env w r))"
proof (induction es arbitrary: n g D)
  case (Cons e es)
  obtain p c where e: "e = (p, c)" by force
  have wf: "well_formed fn" "well_formed g" using assms(1) Cons.prems(1) by (simp_all add: split_ready_def cfg_ok_def)
  have pc: "p \<in> set (fn_blocks fn)" "c \<in> set (exit_succs fn p)" "(p, c) \<notin> D" using Cons.prems(5,6) e by auto
  then have c: "c \<in> set (fn_blocks fn)" using wf(1) by blast
  have g: "p \<in> set (fn_blocks g)" "c \<in> set (fn_blocks g)" "c \<in> set (exit_succs g p)"
    using Cons.prems(2) pc c by (auto simp: splits_done_def)
  let ?h = "snd (split_edge fresh (p, c) (n, g))"
  have split: "edge_split p c (fresh g) g ?h" by (rule split_edge_split) (use fresh g in auto)
  have src: "sources_ok g" using Cons.prems(1) by (simp add: split_ready_def)
  have "same_interface g ?h"
    using split split_occurs [OF split] split_defs [OF split] by (simp add: edge_split_def same_interface_def)
  then have h: "split_ready C ?h" "splits_done fn (insert (p, c) D) ?h" "same_interface fn ?h"
    using split_ready_step [OF split Cons.prems(1) g(1,3)] splits_done_step [OF Cons.prems(2) split pc(3,1) c]
      same_interface_trans [OF Cons.prems(3)] by blast+
  obtain n' where st: "split_edge fresh (p, c) (n, g) = (n', ?h)" by (metis prod.collapse)
  have "distinct es" "set es \<inter> insert (p, c) D = {}" using Cons.prems(4,5) e by auto
  from Cons.IH [OF h this] Cons.prems(6)
  have "split_ready C (snd (fold (split_edge fresh) es (n', ?h))) \<and>
      splits_done fn (insert (p, c) D \<union> set es) (snd (fold (split_edge fresh) es (n', ?h))) \<and>
      same_interface fn (snd (fold (split_edge fresh) es (n', ?h))) \<and>
      (\<forall>env w r. run_gives M (snd (fold (split_edge fresh) es (n', ?h))) env w r \<longleftrightarrow> run_gives M ?h env w r)"
    by (simp add: Let_def)
  then show ?case
    using st e split_run_gives [OF split src wf(2), of M] by (simp add: Let_def)
qed (simp add: Let_def)

text \<open>The edges the pass collects.\<close>

lemma critical_edges_alt:
  "critical_edges arrange fn =
     concat (map (\<lambda>b.
       if length (cfg_pred fn b) \<le> 1 \<or> \<not> starts_with_phi (fn_blk fn b) then []
       else map (\<lambda>p. (p, b)) [p \<leftarrow> arrange (set (cfg_pred fn b)). 1 < length (cfg_succ fn p)]) (fn_blocks fn))"
proof -
  have "[(p, b). p \<leftarrow> ps, P p] = map (\<lambda>p. (p, b)) (filter P ps)" for P and ps :: "block_id list" and b :: block_id
    by (induction ps) auto
  then show ?thesis unfolding critical_edges_def by (simp cong: if_cong)
qed

lemma critical_edges_set:
  assumes "enumerates arrange"
  shows "(p, b) \<in> set (critical_edges arrange fn) \<longleftrightarrow>
    b \<in> set (fn_blocks fn) \<and> starts_with_phi (fn_blk fn b) \<and> 1 < length (cfg_pred fn b) \<and>
    p \<in> set (cfg_pred fn b) \<and> 1 < length (cfg_succ fn p)"
proof -
  have "set (arrange (set (cfg_pred fn b))) = set (cfg_pred fn b)" for b using assms by blast
  then show ?thesis by (auto simp: critical_edges_alt not_le)
qed

lemma distinct_concat_map:
  "distinct bs \<Longrightarrow> (\<And>b. b \<in> set bs \<Longrightarrow> distinct (f b)) \<Longrightarrow> (\<And>b x. x \<in> set (f b) \<Longrightarrow> g x = b) \<Longrightarrow> distinct (concat (map f bs))"
proof (induction bs)
  case (Cons b bs)
  have "set (f b) \<inter> set (concat (map f bs)) = {}"
  proof (rule ccontr)
    assume "set (f b) \<inter> set (concat (map f bs)) \<noteq> {}"
    then obtain x c where "x \<in> set (f b)" "c \<in> set bs" "x \<in> set (f c)" by auto
    then show False using Cons.prems(1) Cons.prems(3) [of x b] Cons.prems(3) [of x c] by simp
  qed
  then show ?case using Cons by simp
qed simp

lemma distinct_critical_edges:
  assumes "enumerates arrange" "distinct (fn_blocks fn)"
  shows "distinct (critical_edges arrange fn)"
  unfolding critical_edges_alt
proof (rule distinct_concat_map [where g = snd])
  have "distinct (arrange (set (cfg_pred fn b)))" for b using assms(1) by blast
  then show "distinct (if length (cfg_pred fn b) \<le> 1 \<or> \<not> starts_with_phi (fn_blk fn b) then []
      else map (\<lambda>p. (p, b)) [p \<leftarrow> arrange (set (cfg_pred fn b)). 1 < length (cfg_succ fn p)])" for b
    by (simp add: distinct_map inj_on_def)
qed (use assms(2) in \<open>auto split: if_splits\<close>)

lemma split_edges_spec:
  assumes ready: "split_ready C fn" and arr: "enumerates arrange" and fresh: "\<And>f. fresh f \<notin> set (fn_blocks f)"
  obtains c n' g where "split_edges arrange fresh n fn = (c, n', g)" "split_ready C g"
    "splits_done fn (set (critical_edges arrange fn)) g" "same_interface fn g"
    "\<And>M :: ('v, 'w) machine. \<And>env w r. run_gives M g env w r \<longleftrightarrow> run_gives M fn env w r"
proof -
  let ?es = "critical_edges arrange fn"
  have "splits_done fn {} fn" by (simp add: splits_done_def)
  moreover have "same_interface fn fn" by (simp add: same_interface_def)
  moreover have "distinct ?es" using distinct_critical_edges [OF arr] ready by (simp add: split_ready_def cfg_ok_def)
  moreover have "\<forall>(p, c)\<in>set ?es. p \<in> set (fn_blocks fn) \<and> c \<in> set (exit_succs fn p)"
    by (auto simp: critical_edges_set [OF arr] cfg_pred_def)
  ultimately have "(let h = snd (fold (split_edge fresh) ?es (n, fn)) in
      split_ready C h \<and> splits_done fn ({} \<union> set ?es) h \<and> same_interface fn h \<and>
      (\<forall>env w r. run_gives M h env w r \<longleftrightarrow> run_gives M fn env w r))" for M :: "('v, 'w) machine"
    by (intro split_fold [OF ready fresh ready]) auto
  then show ?thesis
    using that [of "?es \<noteq> []" "fst (fold (split_edge fresh) ?es (n, fn))" "snd (fold (split_edge fresh) ?es (n, fn))"]
    by (simp add: split_edges_def Let_def)
qed

text \<open>A predecessor of a join with phi instructions has no other successor.\<close>

lemma splits_done_single:
  assumes splits: "splits_done fn (set (critical_edges arrange fn)) g" and arr: "enumerates arrange" and wf: "well_formed fn"
    and b: "starts_with_phi (fn_blk g b)" "1 < length (cfg_pred fn b)" and p: "p \<in> set (fn_blocks g)" "b \<in> set (exit_succs g p)"
    and bg: "b \<in> set (fn_blocks g)"
  shows "set (exit_succs g p) = {b}"
proof -
  let ?B = "set (fn_blocks fn)" and ?E = "set (critical_edges arrange fn)"
  note state = splits [unfolded splits_done_def]
  have bB: "b \<in> ?B" using splits_done_starts(2) [OF splits bg b(1)] .
  show ?thesis
  proof (cases "p \<in> ?B")
    case False
    then obtain c where "exit_succs g p = [c]" using state p(1) by blast
    then show ?thesis using p(2) by simp
  next
    case True
    then have s: "b \<in> set (exit_succs fn p)" "(p, b) \<notin> ?E" using state p(2) bB by blast+
    then have pred: "p \<in> set (cfg_pred fn b)" using True by (simp add: cfg_pred_def)
    have "starts_with_phi (fn_blk fn b)" using splits_done_starts(1) [OF splits bB] b(1) by simp
    then have one: "\<not> 1 < length (cfg_succ fn p)" using s(2) pred b(2) bB critical_edges_set [OF arr] by blast
    then have "(p, c) \<notin> ?E" for c using critical_edges_set [OF arr] by blast
    then have "exit_succs g p = exit_succs fn p" using state True by blast
    moreover have "set (cfg_succ fn p) = set (exit_succs fn p)" using True by (simp add: cfg_succ_def)
    moreover have "set (cfg_succ fn p) = {b}"
    proof -
      have "b \<in> set (cfg_succ fn p)" using s(1) calculation(2) by simp
      then show ?thesis using one by (cases "cfg_succ fn p"; cases "tl (cfg_succ fn p)") auto
    qed
    ultimately show ?thesis by simp
  qed
qed

end
