(* ===== verification/Ssa_Moves.thy ===== *)
theory Ssa_Moves
  imports Ssa_Split
begin

text \<open>
  Phi instructions become moves: when no edge into a block with phi instructions is critical, the
  function with the scheduled copies runs in lock step with the one that has the phi instructions.
\<close>

section \<open>The walk over the dominator tree\<close>

definition dom_tree :: "ir_func \<Rightarrow> (block_id \<Rightarrow> block_id list) \<Rightarrow> bool" where
  "dom_tree fn children \<longleftrightarrow>
     (\<forall>b. distinct (children b)) \<and>
     (\<forall>b c. c \<in> set (children b) \<longleftrightarrow> c \<in> set (fn_blocks fn) \<and> immediate_dominator fn b c)"

lemma immediate_unique:
  assumes "immediate_dominator fn i b" "immediate_dominator fn j b" "reachable fn b"
  shows "i = j"
proof -
  have "dominates fn i j" "dominates fn j i" using assms(1,2) by (simp_all add: immediate_dominator_def)
  moreover have "reachable fn j" using assms(2,3) dominates_reachable by (auto simp: immediate_dominator_def strictly_dominates_def)
  ultimately show ?thesis using dominates_antisym by blast
qed

lemma dom_children_tree:
  assumes tree: "tree_ok fn (set (fn_blocks fn)) m" and arr: "enumerates arrange" and ok: "cfg_ok fn"
  shows "dom_tree fn (dom_children arrange m)"
proof -
  have t: "dom m = set (fn_blocks fn)" "\<And>p. distinct (dom_children arrange m p)"
      "\<And>p. set (dom_children arrange m p) = {c. m c = Some (Some p)}"
    using tree_of_children [OF tree arr] by (simp_all add: tree_of_def)
  have "m c = Some (Some b) \<longleftrightarrow> c \<in> set (fn_blocks fn) \<and> immediate_dominator fn b c" for b c
  proof
    assume m: "m c = Some (Some b)"
    then have c: "c \<in> set (fn_blocks fn)" using t(1) by blast
    then show "c \<in> set (fn_blocks fn) \<and> immediate_dominator fn b c" using tree_root [OF tree c] m by auto
  next
    assume c: "c \<in> set (fn_blocks fn) \<and> immediate_dominator fn b c"
    then have r: "reachable fn c" using ok by (simp add: cfg_ok_def)
    have wf: "well_formed fn" using ok by (simp add: cfg_ok_def)
    have "dominates fn b c" "b \<noteq> c" using c by (simp_all add: immediate_dominator_def strictly_dominates_def)
    then have "c \<noteq> hd (fn_blocks fn)" using dominates_entry [OF wf] by auto
    then obtain i where "m c = Some (Some i)" "immediate_dominator fn i c" using tree_root [OF tree] c by blast
    then show "m c = Some (Some b)" using immediate_unique r c by blast
  qed
  then show ?thesis using t by (simp add: dom_tree_def)
qed

text \<open>The blocks in the order in which \<open>insert_copy\<close> visits them.\<close>

fun tree_walk :: "(block_id \<Rightarrow> block_id list) \<Rightarrow> nat \<Rightarrow> block_id \<Rightarrow> block_id list option"
  and tree_walks :: "(block_id \<Rightarrow> block_id list) \<Rightarrow> nat \<Rightarrow> block_id list \<Rightarrow> block_id list option" where
  "tree_walk children 0 b = None"
| "tree_walk children (Suc n) b = map_option (\<lambda>bs. b # bs) (tree_walks children n (children b))"
| "tree_walks children n [] = Some []"
| "tree_walks children n (c # cs) =
     (case tree_walk children n c of None \<Rightarrow> None | Some bs \<Rightarrow> map_option (\<lambda>ds. bs @ ds) (tree_walks children n cs))"

lemma insert_copy_walk:
  "tree_walk children n b = Some bs \<Longrightarrow> insert_copy order children n b fn = rfold (schedule_copy order) bs fn"
  "tree_walks children n cs = Some bs \<Longrightarrow> insert_copies_in order children n cs fn = rfold (schedule_copy order) bs fn"
proof (induction children n b and children n cs arbitrary: bs fn and bs fn rule: tree_walk_tree_walks.induct)
  case (2 children n b)
  then show ?case by (cases "schedule_copy order b fn") auto
next
  case (4 children n c cs)
  then obtain xs ys where "tree_walk children n c = Some xs" "tree_walks children n cs = Some ys" "bs = xs @ ys"
    by (auto split: option.splits)
  then show ?case using 4 by (cases "rfold (schedule_copy order) xs fn") (auto simp: rfold_append)
qed auto

definition below :: "ir_func \<Rightarrow> block_id \<Rightarrow> block_id set" where
  "below fn b = {x \<in> set (fn_blocks fn). dominates fn b x}"

lemma below_children:
  assumes ok: "cfg_ok fn" and tree: "dom_tree fn children" and b: "b \<in> set (fn_blocks fn)"
  shows "below fn b = insert b (\<Union>c\<in>set (children b). below fn c)"
proof
  have reach: "reachable fn x" if "x \<in> set (fn_blocks fn)" for x using ok that by (simp add: cfg_ok_def)
  have wf: "well_formed fn" using ok by (simp add: cfg_ok_def)
  have "x = b \<or> (\<exists>c\<in>set (children b). x \<in> below fn c)" if "x \<in> below fn b" for x
    using that
  proof (induction "card {d. dominates fn d x}" arbitrary: x rule: less_induct)
    case less
    have x: "x \<in> set (fn_blocks fn)" "dominates fn b x" using less.prems by (simp_all add: below_def)
    show ?case
    proof (cases "x = b")
      case False
      then have sd: "strictly_dominates fn b x" using x(2) by (simp add: strictly_dominates_def)
      have "x \<noteq> hd (fn_blocks fn)" using dominates_entry [OF wf] x(2) False by auto
      obtain m where "dominators sorted_list_of_set fn = Some (Inr m)" "tree_ok fn (set (fn_blocks fn)) m"
        using dominators_of [OF wf, of sorted_list_of_set] reach by auto
      then obtain i where i: "immediate_dominator fn i x" using tree_root [OF _ x(1)] \<open>x \<noteq> hd _\<close> by blast
      have ix: "dominates fn i x" "i \<noteq> x" using i by (simp_all add: immediate_dominator_def strictly_dominates_def)
      have iB: "i \<in> set (fn_blocks fn)" using dominates_blocks [OF wf reach [OF x(1)] ix(1)] .
      have "dominates fn b i" using i sd by (simp add: immediate_dominator_def)
      then have "i \<in> below fn b" using iB by (simp add: below_def)
      from less.hyps [OF dominators_less [OF ix reach [OF x(1)]] this]
      consider "i = b" | c where "c \<in> set (children b)" "i \<in> below fn c" by blast
      then show ?thesis
      proof cases
        case 1
        then have "x \<in> set (children b)" using tree i x(1) by (simp add: dom_tree_def)
        moreover have "x \<in> below fn x" using x(1) by (simp add: below_def)
        ultimately show ?thesis by blast
      next
        case 2
        then have "x \<in> below fn c" using ix(1) x(1) dominates_trans by (auto simp: below_def)
        then show ?thesis using 2(1) by blast
      qed
    qed simp
  qed
  then show "below fn b \<subseteq> insert b (\<Union>c\<in>set (children b). below fn c)" by blast
  show "insert b (\<Union>c\<in>set (children b). below fn c) \<subseteq> below fn b"
    using tree b dominates_trans
    by (auto simp: below_def dom_tree_def immediate_dominator_def strictly_dominates_def)
qed

lemma below_disjoint:
  assumes ok: "cfg_ok fn" and tree: "dom_tree fn children"
    and c: "c \<in> set (children b)" "d \<in> set (children b)" "x \<in> below fn c" "x \<in> below fn d"
  shows "c = d"
proof (rule ccontr)
  assume ne: "c \<noteq> d"
  have reach: "reachable fn x" if "x \<in> set (fn_blocks fn)" for x using ok that by (simp add: cfg_ok_def)
  have imm: "immediate_dominator fn b c" "immediate_dominator fn b d" "c \<in> set (fn_blocks fn)" "d \<in> set (fn_blocks fn)"
    using tree c(1,2) by (simp_all add: dom_tree_def)
  have False if "dominates fn u v" "u \<noteq> v" "immediate_dominator fn b u" "immediate_dominator fn b v" "u \<in> set (fn_blocks fn)" for u v
  proof -
    have "dominates fn u b" using that(1,2,4) by (simp add: immediate_dominator_def strictly_dominates_def)
    moreover have "dominates fn b u" "b \<noteq> u" using that(3) by (simp_all add: immediate_dominator_def strictly_dominates_def)
    ultimately show False using dominates_antisym [of fn u b] dominates_reachable [of fn b u] reach that(5) by blast
  qed
  moreover have "dominates fn c d \<or> dominates fn d c"
    using c(3,4) reach by (intro dominates_linear) (auto simp: below_def)
  ultimately show False using imm ne by metis
qed

lemma root_not_below:
  assumes ok: "cfg_ok fn" and tree: "dom_tree fn children" and c: "c \<in> set (children b)"
  shows "b \<notin> below fn c"
proof
  assume "b \<in> below fn c"
  then have d: "dominates fn c b" "reachable fn b" using ok by (simp_all add: below_def cfg_ok_def)
  have "dominates fn b c" "b \<noteq> c" using tree c by (simp_all add: dom_tree_def immediate_dominator_def strictly_dominates_def)
  then show False using dominates_antisym [OF d(1)] d(2) by blast
qed

lemma walk_spec:
  assumes ok: "cfg_ok fn" and tree: "dom_tree fn children"
  shows "b \<in> set (fn_blocks fn) \<Longrightarrow> card (below fn b) \<le> n \<Longrightarrow>
    \<exists>bs. tree_walk children n b = Some bs \<and> distinct bs \<and> set bs = below fn b"
proof (induction n arbitrary: b)
  case 0
  have "b \<in> below fn b" "finite (below fn b)" using 0(1) by (simp_all add: below_def)
  then show ?case using 0(2) by auto
next
  case (Suc n)
  have list: "\<exists>bs. tree_walks children n cs = Some bs \<and> distinct bs \<and> set bs = (\<Union>c\<in>set cs. below fn c)"
    if "set cs \<subseteq> set (children b)" "distinct cs" for cs
    using that
  proof (induction cs)
    case (Cons c cs)
    have c: "c \<in> set (children b)" "c \<in> set (fn_blocks fn)" using Cons.prems tree by (auto simp: dom_tree_def)
    have "below fn c \<subset> below fn b"
      using below_children [OF ok tree Suc.prems(1)] root_not_below [OF ok tree c(1)] c(1) by blast
    moreover have "finite (below fn b)" by (simp add: below_def)
    ultimately have "card (below fn c) \<le> n" using Suc.prems(2) psubset_card_mono [of "below fn b" "below fn c"] by simp
    then obtain xs where xs: "tree_walk children n c = Some xs" "distinct xs" "set xs = below fn c"
      using Suc.IH c(2) by blast
    obtain ys where ys: "tree_walks children n cs = Some ys" "distinct ys" "set ys = (\<Union>c\<in>set cs. below fn c)"
      using Cons by auto
    have "below fn c \<inter> below fn d = {}" if "d \<in> set cs" for d
      using below_disjoint [OF ok tree c(1), of d] that Cons.prems by auto
    then show ?case using xs ys by auto
  qed simp
  obtain bs where bs: "tree_walks children n (children b) = Some bs" "distinct bs" "set bs = (\<Union>c\<in>set (children b). below fn c)"
    using list [of "children b"] tree by (auto simp: dom_tree_def)
  have "b \<notin> set bs" using bs(3) root_not_below [OF ok tree] by blast
  then show ?case using bs below_children [OF ok tree Suc.prems(1)] by simp
qed

lemma walk_all_blocks:
  assumes ok: "cfg_ok fn" and tree: "dom_tree fn children"
  obtains bs where "tree_walk children (Suc (length (fn_blocks fn))) (hd (fn_blocks fn)) = Some bs" "distinct bs"
    "set bs = set (fn_blocks fn)"
proof -
  have wf: "well_formed fn" using ok by (simp add: cfg_ok_def)
  have "dominates fn (hd (fn_blocks fn)) x" if "x \<in> set (fn_blocks fn)" for x
  proof -
    have "hd (fn_blocks fn) \<in> set ps" if "path_to fn x ps" for ps x
      using that by (induction rule: path_to.induct) (auto simp: entrance_hd [OF wf])
    then show ?thesis by (simp add: dominates_def)
  qed
  then have b: "below fn (hd (fn_blocks fn)) = set (fn_blocks fn)" by (auto simp: below_def)
  have "card (set (fn_blocks fn)) \<le> Suc (length (fn_blocks fn))" using card_length [of "fn_blocks fn"] by simp
  moreover have "hd (fn_blocks fn) \<in> set (fn_blocks fn)" using wf by simp
  ultimately show ?thesis using walk_spec [OF ok tree, of "hd (fn_blocks fn)" "Suc (length (fn_blocks fn))"] b that by metis
qed

section \<open>What scheduling adds to a block\<close>

definition all_moves :: "inst list \<Rightarrow> bool" where
  "all_moves is \<longleftrightarrow> (\<forall>i\<in>set is. \<exists>d v. i = Unary Op_MOV (Some d) v)"

text \<open>The temporaries numbered from \<open>n\<close> on, with their types.\<close>

definition temps_from :: "func_id \<Rightarrow> nat \<Rightarrow> (ty \<times> block_id) list \<Rightarrow> left_value set" where
  "temps_from f n ts = {TempValue (fst (ts ! k)) k f | k. n \<le> k \<and> k < length ts}"

lemma temps_from_append: "temps_from f n ts \<subseteq> temps_from f n (ts @ us)"
  by (force simp: temps_from_def nth_append)

definition sched_vars :: "func_id \<Rightarrow> left_value set \<Rightarrow> left_value set \<Rightarrow> nat \<Rightarrow> copy_state \<Rightarrow> bool" where
  "sched_vars f L R n st \<longleftrightarrow>
     R \<subseteq> L \<and> n \<le> length (cp_temps st) \<and>
     (\<forall>c\<in>set (pending st). (\<forall>l. fst c = val.Left l \<longrightarrow> l \<in> L) \<and> snd c \<in> R) \<and>
     (\<forall>i\<in>set (cp_out st). \<forall>d. defined_var i = Some d \<longrightarrow> d \<in> R \<union> temps_from f n (cp_temps st)) \<and>
     (\<forall>k l. cp_map st k = Some (val.Left l) \<longrightarrow> l \<in> L \<union> temps_from f n (cp_temps st)) \<and>
     (\<forall>i\<in>set (cp_out st). set (vars i) \<subseteq> L \<union> temps_from f n (cp_temps st)) \<and> all_moves (cp_out st)"

lemma vars_move: "set (vars (Unary op (Some d) v)) = insert d (case v of val.Left l \<Rightarrow> {l} | Const c \<Rightarrow> {})"
  by (auto simp: vars_def used_vars_def List.map_filter_def split: val.split)

lemma emit_copy_vars:
  assumes v: "sched_vars f L R n st" and ne: "cp_work st \<noteq> []"
  shows "sched_vars f L R n (emit_copy st)"
proof -
  obtain src dest where c: "last (cp_work st) = (src, dest)" by force
  have "(src, dest) \<in> set (pending st)" using c ne last_in_set by fastforce
  then have "snd (src, dest) \<in> R" using v unfolding sched_vars_def by blast
  then have R: "dest \<in> R" by simp
  then have "dest \<in> L" using v by (auto simp: sched_vars_def)
  moreover have "l \<in> L \<union> temps_from f n (cp_temps st)" if "map_value st src = val.Left l" for l
    using v that by (auto simp: sched_vars_def map_value_def split: option.splits)
  ultimately have "set (vars (Unary Op_MOV (Some dest) (map_value st src))) \<subseteq> L \<union> temps_from f n (cp_temps st)"
    by (auto simp: vars_move split: val.split)
  then have "\<forall>i\<in>set (cp_out st @ [Unary Op_MOV (Some dest) (map_value st src)]). set (vars i) \<subseteq> L \<union> temps_from f n (cp_temps st)"
    using v by (simp add: sched_vars_def)
  moreover have "\<forall>k l. cp_map (emit_copy st) k = Some (val.Left l) \<longrightarrow> l \<in> L \<union> temps_from f n (cp_temps st)"
    using v \<open>dest \<in> L\<close> by (simp add: sched_vars_def emit_copy_eq [OF c])
  moreover have "set (pending (emit_copy st)) \<subseteq> set (pending st)"
    by (auto simp: emit_copy_eq [OF c] dest: in_set_butlastD)
  then have "\<forall>c\<in>set (pending (emit_copy st)). (\<forall>l. fst c = val.Left l \<longrightarrow> l \<in> L) \<and> snd c \<in> R"
    using v unfolding sched_vars_def by blast
  moreover have "\<forall>i\<in>set (cp_out st @ [Unary Op_MOV (Some dest) (map_value st src)]). \<forall>d. defined_var i = Some d \<longrightarrow> d \<in> R \<union> temps_from f n (cp_temps st)"
    using v R unfolding sched_vars_def by auto
  moreover have "all_moves (cp_out st @ [Unary Op_MOV (Some dest) (map_value st src)])"
    using v by (simp add: sched_vars_def all_moves_def)
  moreover have e: "cp_temps (emit_copy st) = cp_temps st"
      "cp_out (emit_copy st) = cp_out st @ [Unary Op_MOV (Some dest) (map_value st src)]"
    by (simp_all add: emit_copy_eq [OF c])
  moreover have "R \<subseteq> L" "n \<le> length (cp_temps st)" using v by (simp_all add: sched_vars_def)
  ultimately show ?thesis unfolding sched_vars_def e by blast
qed

lemma break_cycle_vars:
  assumes v: "sched_vars f L R n st" and ne: "cp_set st \<noteq> []"
  shows "sched_vars f L R n (break_cycle f b st)"
proof -
  obtain src dest rest where set: "cp_set st = (src, dest) # rest" using ne by (cases "cp_set st") auto
  let ?t = "TempValue (type_of_lv dest) (length (cp_temps st)) f" and ?ts = "cp_temps st @ [(type_of_lv dest, b)]"
  have st: "break_cycle f b st = st\<lparr>cp_work := cp_work st @ [(src, dest)], cp_set := rest,
      cp_map := (cp_map st)(K_var (key_of dest) \<mapsto> val.Left ?t), cp_temps := ?ts,
      cp_out := cp_out st @ [Unary Op_MOV (Some ?t) (val.Left dest)]\<rparr>"
    by (simp add: break_cycle_def set Let_def)
  have "(src, dest) \<in> set (pending st)" using set by simp
  then have "snd (src, dest) \<in> R" using v unfolding sched_vars_def by blast
  then have R: "dest \<in> R" by simp
  then have d: "dest \<in> L" using v by (auto simp: sched_vars_def)
  have t: "?t \<in> temps_from f n ?ts" using v by (auto simp: temps_from_def sched_vars_def nth_append)
  note mono = temps_from_append [of f n "cp_temps st" "[(type_of_lv dest, b)]"]
  have "\<forall>i\<in>set (cp_out st). set (vars i) \<subseteq> L \<union> temps_from f n ?ts" using v mono unfolding sched_vars_def by blast
  moreover have "\<forall>k l. cp_map st k = Some (val.Left l) \<longrightarrow> l \<in> L \<union> temps_from f n ?ts"
    using v mono unfolding sched_vars_def by blast
  moreover have "\<forall>i\<in>set (cp_out st). \<forall>d. defined_var i = Some d \<longrightarrow> d \<in> R \<union> temps_from f n ?ts"
    using v mono unfolding sched_vars_def by blast
  ultimately show ?thesis
    unfolding st using v d t R by (simp add: sched_vars_def set all_moves_def vars_move)
qed

lemma schedule_loop_vars: "sched_vars f L R n st \<Longrightarrow> sched_vars f L R n (schedule_loop f b st)"
proof (induction f b st rule: schedule_loop.induct)
  case (1 f b st)
  then show ?case
    using emit_copy_vars break_cycle_vars by (subst schedule_loop.simps) auto
qed

lemma insert_copies_subset: "set (insert_copies acc cs) \<subseteq> set acc \<union> set cs"
  by (induction acc cs rule: insert_copies.induct) auto

lemma init_copies_vars:
  assumes "set order \<subseteq> set cs" "\<And>s d. (s, d) \<in> set cs \<Longrightarrow> (\<forall>l. s = val.Left l \<longrightarrow> l \<in> L) \<and> d \<in> R" "R \<subseteq> L"
  shows "sched_vars f L R (length temps) (init_copies temps cs order)"
proof -
  have m: "l \<in> L" if "init_map cs k = Some (val.Left l)" for k l
  proof -
    have "val.Left l \<in> fst ` set cs \<or> l \<in> snd ` set cs"
      using init_map_some [of cs Map.empty k "val.Left l"] that by (auto simp: init_map_def)
    then show ?thesis using assms(2,3) by fastforce
  qed
  have c: "(\<forall>l. fst c = val.Left l \<longrightarrow> l \<in> L) \<and> snd c \<in> R" if "c \<in> set order" for c
    using assms(1) assms(2) [of "fst c" "snd c"] that by auto
  have "set (pending (init_copies temps cs order)) \<subseteq> set order" by (auto simp: init_copies_def Let_def)
  then have "\<forall>c\<in>set (pending (init_copies temps cs order)). (\<forall>l. fst c = val.Left l \<longrightarrow> l \<in> L) \<and> snd c \<in> R" using c by blast
  moreover have "cp_map (init_copies temps cs order) = init_map cs" "cp_out (init_copies temps cs order) = []"
    "cp_temps (init_copies temps cs order) = temps" by (simp_all add: init_copies_def Let_def)
  ultimately show ?thesis using m assms(3) by (simp add: sched_vars_def all_moves_def)
qed

lemma phi_copies_vars:
  "phi_copies b is = Inr cs \<Longrightarrow> (s, d) \<in> set cs \<Longrightarrow>
     (\<forall>l. s = val.Left l \<longrightarrow> l \<in> (\<Union>i\<in>set is. set (vars i))) \<and> (\<exists>i\<in>set is. defined_var i = Some d)"
proof (induction "is" arbitrary: cs)
  case (Cons i "is")
  show ?case
  proof (cases i)
    case (Phi r args)
    then obtain x e cs' where p: "phi_value args b = Inr x" "r = Some e" "phi_copies b is = Inr cs'" "cs = (x, e) # cs'"
      using Cons.prems(1) by (auto simp: rbind_eq_Inr split: option.splits)
    show ?thesis
    proof (cases "(s, d) \<in> set cs'")
      case True
      then show ?thesis using Cons.IH [OF p(3)] by auto
    next
      case False
      then have "s = x" "d = e" using Cons.prems(2) p(4) by auto
      moreover have "x \<in> set (used i)" using phi_value_used [OF p(1), of r] Phi by simp
      then have "l \<in> set (vars i)" if "x = val.Left l" for l using that used_vars_left by blast
      moreover have "defined_var i = Some e" using p(2) Phi by simp
      ultimately show ?thesis by auto
    qed
  qed (use Cons.prems in auto)
qed simp

lemma phi_copies_append: "\<not> is_phi_inst j \<Longrightarrow> phi_copies b (is @ j # js) = phi_copies b is"
proof (induction "is")
  case Nil
  then show ?case by (cases j) simp_all
next
  case (Cons i "is")
  then show ?case by simp
qed

lemma phi_copies_moves: "all_moves ms \<Longrightarrow> phi_copies b (is @ ms) = phi_copies b is"
  by (cases ms) (auto simp: all_moves_def phi_copies_append)

lemma schedule_loop_temps: "\<exists>extra. cp_temps (schedule_loop f b st) = cp_temps st @ extra"
proof (induction f b st rule: schedule_loop.induct)
  case (1 f b st)
  have "cp_temps (emit_copy st) = cp_temps st" by (cases "last (cp_work st)") (simp add: emit_copy_eq)
  moreover have "\<exists>e. cp_temps (break_cycle f b st) = cp_temps st @ e"
    by (cases "hd (cp_set st)") (auto simp: break_cycle_def Let_def)
  ultimately have e: "\<exists>e. cp_temps (emit_copy st) = cp_temps st @ e" "\<exists>e. cp_temps (break_cycle f b st) = cp_temps st @ e"
    by auto
  show ?case
  proof (cases "cp_work st = [] \<and> cp_set st = []")
    case True
    then show ?thesis by (simp add: schedule_loop.simps)
  next
    case False
    let ?n = "if cp_work st \<noteq> [] then emit_copy st else break_cycle f b st"
    have "schedule_loop f b st = schedule_loop f b ?n" using False by (subst schedule_loop.simps) auto
    moreover have "\<exists>x. cp_temps (schedule_loop f b ?n) = cp_temps ?n @ x" using 1 False by (cases "cp_work st \<noteq> []") auto
    then obtain x where "cp_temps (schedule_loop f b ?n) = cp_temps ?n @ x" by blast
    moreover obtain y where "cp_temps ?n = cp_temps st @ y" using e by (cases "cp_work st \<noteq> []") auto
    ultimately show ?thesis by simp
  qed
qed

lemma edge_copies_vars:
  "edge_copies g b ts = Inr cs \<Longrightarrow> set ts \<subseteq> set (fn_blocks g) \<Longrightarrow> (s, d) \<in> set cs \<Longrightarrow>
     (\<forall>l. s = val.Left l \<longrightarrow> l \<in> occurs g) \<and> d \<in> func_defs g"
proof (induction ts arbitrary: cs)
  case (Cons t ts)
  then obtain xs ys where x: "phi_copies b (bk_insts (fn_blk g t)) = Inr xs" "edge_copies g b ts = Inr ys" "cs = xs @ ys"
    by (auto simp: rbind_eq_Inr)
  have "(\<Union>i\<in>set (bk_insts (fn_blk g t)). set (vars i)) \<subseteq> occurs g"
    using Cons.prems(2) occurs_inst [of t g] by auto
  then show ?case
    using Cons.IH [OF x(2)] phi_copies_vars [OF x(1), of s d] Cons.prems x(3) by (auto simp: func_defs_def)
qed simp

definition block_moves :: "(constexpr \<Rightarrow> 'v) \<Rightarrow> ir_func \<Rightarrow> (ty \<times> block_id) list \<Rightarrow> block_id \<Rightarrow> inst list \<Rightarrow> bool" where
  "block_moves C g ts b ms \<longleftrightarrow>
     all_moves ms \<and> (\<Union>i\<in>set ms. set (vars i)) \<subseteq> occurs g \<union> temps_from (fn_id g) (length (fn_temps g)) ts \<and>
     (\<forall>i\<in>set ms. \<forall>d. defined_var i = Some d \<longrightarrow> d \<in> func_defs g \<union> temps_from (fn_id g) (length (fn_temps g)) ts) \<and>
     (\<exists>cs. edge_copies g b (cfg_succ g b) = Inr cs \<and>
        (\<forall>\<sigma>. copied C cs (new_temp (fn_id g) (length (fn_temps g))) \<sigma> (do_moves C ms \<sigma>)))"

definition moves_added :: "(constexpr \<Rightarrow> 'v) \<Rightarrow> ir_func \<Rightarrow> block_id set \<Rightarrow> (block_id \<Rightarrow> inst list) \<Rightarrow> ir_func \<Rightarrow> bool" where
  "moves_added C g D ms h \<longleftrightarrow>
     h = g\<lparr>fn_blk := (\<lambda>b. (fn_blk g b)\<lparr>bk_insts := bk_insts (fn_blk g b) @ ms b\<rparr>), fn_temps := fn_temps h\<rparr> \<and>
     (\<exists>extra. fn_temps h = fn_temps g @ extra) \<and> (\<forall>b. b \<notin> D \<longrightarrow> ms b = []) \<and> (\<forall>b\<in>D. block_moves C g (fn_temps h) b (ms b))"

text \<open>The copies on the edges out of a block can be scheduled.\<close>

definition copies_ready :: "(constexpr \<Rightarrow> 'v) \<Rightarrow> ir_func \<Rightarrow> block_id \<Rightarrow> bool" where
  "copies_ready C g b \<longleftrightarrow>
     (\<exists>cs. edge_copies g b (cfg_succ g b) = Inr cs \<and> copies_ok C (fn_id g) (length (fn_temps g)) cs)"

lemma moves_added_sel:
  assumes "moves_added C g D ms h"
  shows "fn_id h = fn_id g" "fn_blocks h = fn_blocks g" "bk_insts (fn_blk h b) = bk_insts (fn_blk g b) @ ms b"
    "bk_exit (fn_blk h b) = bk_exit (fn_blk g b)" "cfg_succ h = cfg_succ g" "all_moves (ms b)"
proof -
  obtain ts where h: "h = g\<lparr>fn_blk := (\<lambda>b. (fn_blk g b)\<lparr>bk_insts := bk_insts (fn_blk g b) @ ms b\<rparr>), fn_temps := ts\<rparr>"
    using assms unfolding moves_added_def by blast
  show "fn_id h = fn_id g" "fn_blocks h = fn_blocks g" "bk_insts (fn_blk h b) = bk_insts (fn_blk g b) @ ms b"
    "bk_exit (fn_blk h b) = bk_exit (fn_blk g b)" by (simp_all add: h)
  show "cfg_succ h = cfg_succ g" by (simp add: h fun_eq_iff cfg_succ_def exit_succs_def block_targets_def)
  show "all_moves (ms b)"
    using assms by (cases "b \<in> D") (simp_all add: moves_added_def block_moves_def all_moves_def)
qed

lemma copies_ok_mono: "copies_ok C f n cs \<Longrightarrow> n \<le> m \<Longrightarrow> copies_ok C f m cs"
proof -
  assume c: "copies_ok C f n cs" and le: "n \<le> m"
  have "no_temps f m cs"
    unfolding no_temps_def
  proof (intro ballI, clarify)
    fix s d assume "(s, d) \<in> set cs"
    then have "\<not> new_temp f n (key_of d) \<and> (\<forall>x. value_key s = K_var x \<longrightarrow> \<not> new_temp f n x)"
      using c unfolding copies_ok_def no_temps_def by blast
    then show "\<not> new_temp f m (key_of d) \<and> (\<forall>x. value_key s = K_var x \<longrightarrow> \<not> new_temp f m x)" using le order_trans by blast
  qed
  then show ?thesis using c by (simp add: copies_ok_def)
qed

lemma copied_mono: "copied C cs (new_temp f m) \<sigma> \<sigma>' \<Longrightarrow> n \<le> m \<Longrightarrow> copied C cs (new_temp f n) \<sigma> \<sigma>'"
  unfolding copied_def using order_trans [of n m] by blast

lemma schedule_step:
  assumes added: "moves_added C g D ms h" and b: "b \<notin> D" and ready: "copies_ready C g b"
    and closed: "set (cfg_succ g b) \<subseteq> set (fn_blocks g)"
    and order: "\<And>cs. distinct cs \<Longrightarrow> set (order cs) = set cs \<and> distinct (order cs)"
  shows "\<exists>h' m. schedule_copy order b h = Inr h' \<and> moves_added C g (insert b D) (ms(b := m)) h'"
proof -
  note sel = moves_added_sel [OF added]
  obtain ex where ex: "fn_temps h = fn_temps g @ ex" using added by (auto simp: moves_added_def)
  obtain cs where cs: "edge_copies g b (cfg_succ g b) = Inr cs" "copies_ok C (fn_id g) (length (fn_temps g)) cs"
    using ready by (auto simp: copies_ready_def)
  have "edge_copies h b ts = edge_copies g b ts" for ts
    by (induction ts) (simp_all add: sel(3) phi_copies_moves [OF sel(6)])
  then have hcs: "edge_copies h b (cfg_succ h b) = Inr cs" using cs(1) sel(5) by simp
  have ok: "copies_ok C (fn_id h) (length (fn_temps h)) cs"
    using copies_ok_mono [OF cs(2), of "length (fn_temps h)"] ex sel(1) by simp
  have dist: "distinct cs" using cs(2) by (auto simp: copies_ok_def distinct_map)
  have ins: "insert_copies [] cs = cs" using insert_copies_distinct [of "[]" cs] cs(2) by (simp add: copies_ok_def)
  define st where "st = schedule_loop (fn_id h) b (init_copies (fn_temps h) cs (order cs))"
  let ?m = "cp_out st" and ?h' = "(update_block b (\<lambda>bl. bl\<lparr>bk_insts := bk_insts bl @ cp_out st\<rparr>) h)\<lparr>fn_temps := cp_temps st\<rparr>"
  have run: "schedule_copy order b h = Inr ?h'" by (simp add: schedule_copy_def hcs ins st_def Let_def)
  have cp: "copied C cs (new_temp (fn_id g) (length (fn_temps g))) \<sigma> (do_moves C ?m \<sigma>)" for \<sigma>
  proof (rule copied_mono [where m = "length (fn_temps h)"])
    show "copied C cs (new_temp (fn_id g) (length (fn_temps h))) \<sigma> (do_moves C ?m \<sigma>)"
      using schedule_loop_copies [OF ok, of "order cs" \<sigma> b] order [OF dist] sel(1) by (simp add: st_def)
  qed (simp add: ex)
  have v: "sched_vars (fn_id h) (occurs g) (func_defs g) (length (fn_temps h)) st"
    unfolding st_def by (rule schedule_loop_vars [OF init_copies_vars])
      (use order [OF dist] edge_copies_vars [OF cs(1) closed] func_defs_occur in auto)
  obtain ex2 where ex2: "cp_temps st = fn_temps h @ ex2"
    using schedule_loop_temps [of "fn_id h" b "init_copies (fn_temps h) cs (order cs)"]
    by (auto simp: st_def init_copies_def Let_def)
  have wide: "temps_from (fn_id h) (length (fn_temps h)) ts \<subseteq> temps_from (fn_id g) (length (fn_temps g)) ts" for ts
    using ex sel(1) by (auto simp: temps_from_def)
  have new: "block_moves C g (cp_temps st) b ?m"
  proof -
    have "(\<Union>i\<in>set ?m. set (vars i)) \<subseteq> occurs g \<union> temps_from (fn_id h) (length (fn_temps h)) (cp_temps st)"
      using v unfolding sched_vars_def by blast
    moreover have "\<forall>i\<in>set ?m. \<forall>d. defined_var i = Some d \<longrightarrow> d \<in> func_defs g \<union> temps_from (fn_id h) (length (fn_temps h)) (cp_temps st)"
      using v unfolding sched_vars_def by blast
    moreover have "all_moves ?m" using v by (simp add: sched_vars_def)
    ultimately show ?thesis unfolding block_moves_def using cs(1) cp wide [of "cp_temps st"] by blast
  qed
  have old: "block_moves C g (cp_temps st) c (ms c)" if "c \<in> D" for c
    using that added temps_from_append [of "fn_id g" "length (fn_temps g)" "fn_temps h" ex2]
    unfolding moves_added_def block_moves_def ex2 by blast
  obtain ts where h: "h = g\<lparr>fn_blk := (\<lambda>b. (fn_blk g b)\<lparr>bk_insts := bk_insts (fn_blk g b) @ ms b\<rparr>), fn_temps := ts\<rparr>"
    using added unfolding moves_added_def by blast
  have "ms b = []" using added b by (simp add: moves_added_def)
  then have "?h' = g\<lparr>fn_blk := (\<lambda>c. (fn_blk g c)\<lparr>bk_insts := bk_insts (fn_blk g c) @ (ms(b := ?m)) c\<rparr>), fn_temps := cp_temps st\<rparr>"
    by (simp add: h update_block_def) (simp add: fun_eq_iff)
  then have "moves_added C g (insert b D) (ms(b := ?m)) ?h'"
    using ex ex2 new old added by (simp add: moves_added_def)
  then show ?thesis using run by blast
qed

lemma schedule_fold:
  assumes order: "\<And>cs. distinct cs \<Longrightarrow> set (order cs) = set cs \<and> distinct (order cs)"
    and ready: "\<And>b. b \<in> set (fn_blocks g) \<Longrightarrow> copies_ready C g b \<and> set (cfg_succ g b) \<subseteq> set (fn_blocks g)"
  shows "moves_added C g D ms h \<Longrightarrow> distinct bs \<Longrightarrow> set bs \<inter> D = {} \<Longrightarrow> set bs \<subseteq> set (fn_blocks g) \<Longrightarrow>
    \<exists>h' ms'. rfold (schedule_copy order) bs h = Inr h' \<and> moves_added C g (D \<union> set bs) ms' h'"
proof (induction bs arbitrary: D ms h)
  case (Cons b bs)
  obtain h1 m where h1: "schedule_copy order b h = Inr h1" "moves_added C g (insert b D) (ms(b := m)) h1"
    using schedule_step [OF Cons.prems(1), of b order] ready [of b] order Cons.prems(3,4) by auto
  have "distinct bs" "set bs \<inter> insert b D = {}" "set bs \<subseteq> set (fn_blocks g)" using Cons.prems(2-4) by auto
  from Cons.IH [OF h1(2) this] h1(1) show ?case by simp
qed auto

text \<open>A predecessor of a block with phi instructions has no other successor.\<close>

definition joins_clean :: "ir_func \<Rightarrow> bool" where
  "joins_clean g \<longleftrightarrow>
     (\<forall>b\<in>set (fn_blocks g). starts_with_phi (fn_blk g b) \<longrightarrow>
        (\<forall>p\<in>set (fn_blocks g). b \<in> set (exit_succs g p) \<longrightarrow> set (exit_succs g p) = {b}))"

lemma no_phi_copies: "\<not> starts_with_phi k \<Longrightarrow> phi_copies b (bk_insts k) = Inr []"
  by (cases "bk_insts k") (auto simp: starts_with_phi_def is_phi_eq)

lemma no_edge_copies: "\<forall>t\<in>set ts. \<not> starts_with_phi (fn_blk g t) \<Longrightarrow> edge_copies g b ts = Inr []"
  by (induction ts) (simp_all add: no_phi_copies)

lemma cfg_succ_single: "p \<in> set (fn_blocks g) \<Longrightarrow> set (exit_succs g p) = {b} \<Longrightarrow> cfg_succ g p = [b]"
proof -
  assume "p \<in> set (fn_blocks g)" "set (exit_succs g p) = {b}"
  then have "set (cfg_succ g p) = {b}" "distinct (cfg_succ g p)" by (simp_all add: cfg_succ_def)
  then show ?thesis by (cases "cfg_succ g p"; cases "tl (cfg_succ g p)") auto
qed

lemma clean_edge_copies:
  assumes ready: "split_ready C g" and clean: "joins_clean g" and p: "p \<in> set (fn_blocks g)"
  shows "(\<exists>t cs. cfg_succ g p = [t] \<and> starts_with_phi (fn_blk g t) \<and> phi_copies p (bk_insts (fn_blk g t)) = Inr cs \<and>
        copies_ok C (fn_id g) (length (fn_temps g)) cs \<and> edge_copies g p (cfg_succ g p) = Inr cs) \<or>
    (\<forall>t\<in>set (exit_succs g p). \<not> starts_with_phi (fn_blk g t)) \<and> edge_copies g p (cfg_succ g p) = Inr []"
proof (cases "\<exists>t\<in>set (exit_succs g p). starts_with_phi (fn_blk g t)")
  case True
  then obtain t where t: "t \<in> set (exit_succs g p)" "starts_with_phi (fn_blk g t)" by blast
  have "well_formed g" using ready by (simp add: split_ready_def cfg_ok_def)
  then have "t \<in> set (fn_blocks g)" using p t(1) by blast
  then have one: "cfg_succ g p = [t]" using clean t p cfg_succ_single by (simp add: joins_clean_def)
  obtain cs where "phi_copies p (bk_insts (fn_blk g t)) = Inr cs" "copies_ok C (fn_id g) (length (fn_temps g)) cs"
    using ready p t(1) by (auto simp: split_ready_def edge_ok_def)
  then show ?thesis using one t(2) by simp
next
  case False
  moreover have "set (cfg_succ g p) = set (exit_succs g p)" using p by (simp add: cfg_succ_def)
  ultimately show ?thesis using no_edge_copies by metis
qed

lemma replace_phi_spec:
  assumes ready: "split_ready C g" and clean: "joins_clean g" and arr: "enumerates arrange"
    and order: "\<And>cs. distinct cs \<Longrightarrow> set (order cs) = set cs \<and> distinct (order cs)"
  obtains h ms where "replace_phi arrange order g = Some (Inr (remove_phis h))" "moves_added C g (set (fn_blocks g)) ms h"
proof -
  have ok: "cfg_ok g" using ready by (simp add: split_ready_def)
  have wf: "well_formed g" and reach: "\<forall>b\<in>set (fn_blocks g). reachable g b" using ok by (simp_all add: cfg_ok_def)
  obtain m where m: "dominators arrange g = Some (Inr m)" "tree_ok g (set (fn_blocks g)) m"
    using dominators_of [OF wf reach, of arrange] arr by auto
  have tree: "dom_tree g (dom_children arrange m)" using dom_children_tree [OF m(2) arr ok] .
  obtain bs where bs: "tree_walk (dom_children arrange m) (Suc (length (fn_blocks g))) (hd (fn_blocks g)) = Some bs"
      "distinct bs" "set bs = set (fn_blocks g)"
    using walk_all_blocks [OF ok tree] .
  have cr: "copies_ready C g b \<and> set (cfg_succ g b) \<subseteq> set (fn_blocks g)" if "b \<in> set (fn_blocks g)" for b
  proof
    show "copies_ready C g b"
      using clean_edge_copies [OF ready clean that]
      by (auto simp: copies_ready_def copies_ok_def no_temps_def keys_exact_def)
    show "set (cfg_succ g b) \<subseteq> set (fn_blocks g)" using wf that by (auto simp: cfg_succ_def)
  qed
  have "moves_added C g {} (\<lambda>b. []) g" by (simp add: moves_added_def)
  then obtain h ms where h: "rfold (schedule_copy order) bs g = Inr h" "moves_added C g ({} \<union> set bs) ms h"
    using schedule_fold [OF order cr, of "{}" "\<lambda>b. []" g bs] bs by blast
  have "insert_copy order (dom_children arrange m) (Suc (length (fn_blocks g))) (hd (fn_blocks g)) g = Inr h"
    using insert_copy_walk(1) [OF bs(1)] h(1) by simp
  then have "replace_phi arrange order g = Some (Inr (remove_phis h))"
    using m(1) wf by (simp add: replace_phi_def entrance_hd del: insert_copy.simps)
  then show ?thesis using that h(2) bs(3) by simp
qed

section \<open>The function without phi instructions runs in lock step\<close>

definition moves_exact :: "('v, 'w) machine \<Rightarrow> bool" where
  "moves_exact M \<longleftrightarrow> (\<forall>t x w. mc_op M (Do_unary Op_MOV) t [x] w = Inr (snd x, w))"

lemma run_moves:
  assumes "moves_exact M" "all_moves ms"
  shows "rfold (run_inst M) ms (env, w) = Inr (do_moves (mc_const M) ms env, w)"
  using assms(2)
proof (induction ms arbitrary: env)
  case (Cons i ms)
  then obtain d v where i: "i = Unary Op_MOV (Some d) v" by (auto simp: all_moves_def)
  have "value_in (mc_const M) env v = val_of M env v" by (cases v) simp_all
  then have "run_inst M i (env, w) = Inr (do_move (mc_const M) i env, w)"
    using assms(1) by (simp add: run_inst_def i moves_exact_def put_result_def)
  moreover have "do_moves C (i # ms) env = do_moves C ms (do_move C i env)" for C by (simp add: do_moves_def)
  ultimately show ?case using Cons by (simp add: all_moves_def)
qed (simp add: do_moves_def)

lemma phi_copies_read:
  "phi_copies p is = Inr cs \<Longrightarrow>
     read_phis M (Some p) env is = Inr (map (\<lambda>(s, d). (Some d, val_of M env s)) cs, dropWhile is_phi_inst is)"
proof (induction "is" arbitrary: cs)
  case (Cons i "is")
  then show ?case by (cases i) (auto simp: rbind_eq_Inr split: option.splits)
qed simp

text \<open>Writing values to different variables.\<close>

abbreviation puts :: "(left_value option \<times> 'v) list \<Rightarrow> 'v vars_env \<Rightarrow> 'v vars_env" where
  "puts ws env \<equiv> fold (\<lambda>(r, v). put_result r v) ws env"

lemma puts_other: "x \<notin> key_of ` fst ` set ws \<Longrightarrow> puts (map (\<lambda>(d, v). (Some d, v)) ws) env x = env x"
  by (induction ws arbitrary: env) (auto simp: put_result_def)

lemma puts_at:
  "distinct (map (\<lambda>w. key_of (fst w)) ws) \<Longrightarrow> (d, v) \<in> set ws \<Longrightarrow>
     puts (map (\<lambda>(d, v). (Some d, v)) ws) env (key_of d) = v"
proof (induction ws arbitrary: env)
  case (Cons w ws)
  obtain e u where w: "w = (e, u)" by force
  show ?case
  proof (cases "w = (d, v)")
    case True
    have "key_of d \<notin> key_of ` fst ` set ws" using Cons.prems(1) True by (auto simp: image_image)
    moreover have "put_result (Some d) v env (key_of d) = v" by (simp add: put_result_def)
    ultimately show ?thesis using True puts_other [of "key_of d" ws "put_result (Some d) v env"] by simp
  next
    case False
    then have "(d, v) \<in> set ws" using Cons.prems(2) by simp
    then show ?thesis using Cons.IH Cons.prems(1) by (cases w) simp
  qed
qed simp

text \<open>Equal outside the new temporaries.\<close>

abbreviation same_env :: "ir_func \<Rightarrow> 'v vars_env \<Rightarrow> 'v vars_env \<Rightarrow> bool" where
  "same_env g env env' \<equiv> env_renamed (\<lambda>k. k) (occurs g) env env'"

lemma same_env_val:
  assumes "same_env g env env'" "\<And>l. v = val.Left l \<Longrightarrow> l \<in> occurs g"
  shows "val_of M env' v = val_of M env v"
  using renamed_val [OF renames_id [of "occurs g"] assms(1), of v M] assms(2) by simp

lemma old_vars:
  assumes "temps_ok g" "l \<in> occurs g"
  shows "\<not> new_temp (fn_id g) (length (fn_temps g)) (key_of l)"
proof (cases l)
  case (TempValue t i f)
  then have "i < length (fn_temps g)" using assms unfolding temps_ok_def by blast
  then show ?thesis using TempValue by simp
qed simp_all

text \<open>After the moves the variables have the values the phi instructions would give them.\<close>

lemma moves_phis:
  assumes same: "same_env g env env'" and temps: "temps_ok g"
    and copied: "copied (mc_const M) cs (new_temp (fn_id g) (length (fn_temps g))) env' env2"
    and dist: "distinct (map dest_key cs)"
    and vars: "\<And>s d. (s, d) \<in> set cs \<Longrightarrow> (\<forall>l. s = val.Left l \<longrightarrow> l \<in> occurs g) \<and> d \<in> occurs g"
  shows "same_env g (puts (map (\<lambda>(s, d). (Some d, val_of M env s)) cs) env) env2"
  unfolding env_renamed_def
proof
  fix l assume l: "l \<in> occurs g"
  let ?ws = "map (\<lambda>(s, d). (d, val_of M env s)) cs"
  have ws: "map (\<lambda>(s, d). (Some d, val_of M env s)) cs = map (\<lambda>(d, v). (Some d, v)) ?ws" by auto
  have dw: "distinct (map (\<lambda>w. key_of (fst w)) ?ws)" using dist by (simp add: comp_def split_def)
  show "puts (map (\<lambda>(s, d). (Some d, val_of M env s)) cs) env (key_of l) = env2 (key_of l)"
  proof (cases "key_of l \<in> dest_key ` set cs")
    case True
    then obtain s d where c: "(s, d) \<in> set cs" "key_of d = key_of l" by force
    then have "(d, val_of M env s) \<in> set ?ws" by force
    then have "puts (map (\<lambda>(d, v). (Some d, v)) ?ws) env (key_of l) = val_of M env s" using puts_at [OF dw] c(2) by metis
    moreover have "env2 (key_of l) = value_in (mc_const M) env' s" using copied c unfolding copied_def by fastforce
    moreover have "value_in (mc_const M) env' s = val_of M env' s" by (cases s) simp_all
    moreover have "val_of M env' s = val_of M env s" using same_env_val [OF same] vars [OF c(1)] by blast
    ultimately show ?thesis unfolding ws by (simp only:)
  next
    case False
    then have "key_of l \<notin> key_of ` fst ` set ?ws" by force
    then have "puts (map (\<lambda>(d, v). (Some d, v)) ?ws) env (key_of l) = env (key_of l)" by (rule puts_other)
    moreover have "env2 (key_of l) = env' (key_of l)"
      using copied False old_vars [OF temps l] unfolding copied_def by (metis image_image)
    moreover have "env (key_of l) = env' (key_of l)" using same l by (simp add: env_renamed_def)
    ultimately show ?thesis unfolding ws by (simp only:)
  qed
qed

text \<open>What holds when a block is entered: the moves have done what its phi instructions do.\<close>

definition enters :: "('v, 'w) machine \<Rightarrow> ir_func \<Rightarrow> block_id option \<Rightarrow> block_id \<Rightarrow> 'v vars_env \<Rightarrow> 'v vars_env \<Rightarrow> bool" where
  "enters M g prev b env env' \<longleftrightarrow>
     (\<exists>ws. read_phis M prev env (bk_insts (fn_blk g b)) = Inr (ws, dropWhile is_phi_inst (bk_insts (fn_blk g b))) \<and>
        same_env g (puts ws env) env')"

lemma no_phis_read: "\<not> starts_with_phi k \<Longrightarrow> read_phis M prev env (bk_insts k) = Inr ([], bk_insts k) \<and> dropWhile is_phi_inst (bk_insts k) = bk_insts k"
proof (cases "bk_insts k")
  case (Cons i "is")
  then show "\<not> starts_with_phi k \<Longrightarrow> ?thesis" by (cases i) (simp_all add: starts_with_phi_def)
qed simp

lemma enters_no_phis: "\<not> starts_with_phi (fn_blk g b) \<Longrightarrow> same_env g env env' \<Longrightarrow> enters M g prev b env env'"
  using no_phis_read by (fastforce simp: enters_def)

lemma remove_phis_blk:
  assumes "moves_added C g D ms h" "b \<in> set (fn_blocks g)"
  shows "bk_insts (fn_blk (snd (remove_phis h)) b) = dropWhile is_phi_inst (bk_insts (fn_blk g b)) @ ms b"
    and "bk_exit (fn_blk (snd (remove_phis h)) b) = bk_exit (fn_blk g b)"
proof -
  note sel = moves_added_sel [OF assms(1)]
  have "dropWhile is_phi_inst (xs @ ms b) = dropWhile is_phi_inst xs @ ms b" for xs
    using sel(6) [of b] by (induction xs) (cases "ms b"; auto simp: all_moves_def)+
  then show "bk_insts (fn_blk (snd (remove_phis h)) b) = dropWhile is_phi_inst (bk_insts (fn_blk g b)) @ ms b"
    "bk_exit (fn_blk (snd (remove_phis h)) b) = bk_exit (fn_blk g b)"
    using assms(2) sel(2-4) by (simp_all add: remove_phis_def remove_phi_def is_phi_eq)
qed

lemma exit_after_moves:
  assumes ready: "split_ready (mc_const M) g" and clean: "joins_clean g" and temps: "temps_ok g"
    and b: "b \<in> set (fn_blocks g)" and same: "same_env g env env'"
    and moves: "block_moves (mc_const M) g ts b ms" and e: "bk_exit (fn_blk g b) = Some e"
  shows "run_exit M (do_moves (mc_const M) ms env') e = run_exit M env e"
    and "run_exit M env e = Inr (Some c, v) \<Longrightarrow> enters M g (Some b) c env (do_moves (mc_const M) ms env')"
proof -
  let ?env2 = "do_moves (mc_const M) ms env'"
  obtain cs where cs: "edge_copies g b (cfg_succ g b) = Inr cs"
      "copied (mc_const M) cs (new_temp (fn_id g) (length (fn_temps g))) env' ?env2"
    using moves by (auto simp: block_moves_def)
  have wf: "well_formed g" using ready by (simp add: split_ready_def cfg_ok_def)
  have exit_succs: "exit_succs g b = targets e" using e by (simp add: exit_succs_def block_targets_def)
  have "run_exit M ?env2 e = run_exit M env e \<and> (run_exit M env e = Inr (Some c, v) \<longrightarrow> enters M g (Some b) c env ?env2)"
    using clean_edge_copies [OF ready clean b]
  proof (elim disjE exE conjE)
    fix t cs' assume t: "cfg_succ g b = [t]" "starts_with_phi (fn_blk g t)" "phi_copies b (bk_insts (fn_blk g t)) = Inr cs'"
      and ok: "copies_ok (mc_const M) (fn_id g) (length (fn_temps g)) cs'" "edge_copies g b (cfg_succ g b) = Inr cs'"
    have cs': "cs' = cs" using ok(2) cs(1) by simp
    have st: "set (targets e) = {t}" using t(1) b exit_succs by (metis cfg_succ_def list.set(1) list.set(2) set_remdups)
    have jump: "e = JumpExit t"
    proof (cases e)
      case (BranchExit x y z)
      have "\<exists>a\<in>set (exit_succs g b). starts_with_phi (fn_blk g a)" using st t(2) exit_succs by simp
      then obtain y' z' where "y = Some y'" "z = Some z'" "y' \<noteq> z'"
        using ready b e BranchExit unfolding split_ready_def clean_branches_def by blast
      then show ?thesis using st BranchExit by auto
    qed (use st in auto)
    have tB: "t \<in> set (fn_blocks g)" using wf b st exit_succs by auto
    have vars: "(\<forall>l. s = val.Left l \<longrightarrow> l \<in> occurs g) \<and> d \<in> occurs g" if "(s, d) \<in> set cs" for s d
      using phi_copies_vars [OF t(3), of s d] that cs' occurs_inst [OF tB] defined_var_vars by blast
    have dist: "distinct (map dest_key cs)" using ok(1) cs' by (simp add: copies_ok_def)
    have "same_env g (puts (map (\<lambda>(s, d). (Some d, val_of M env s)) cs) env) ?env2"
      by (rule moves_phis [OF same temps cs(2) dist vars])
    then have "enters M g (Some b) t env ?env2"
      using phi_copies_read [OF t(3), of M env] cs' by (simp add: enters_def)
    then show ?thesis using jump by auto
  next
    assume none: "\<forall>t\<in>set (exit_succs g b). \<not> starts_with_phi (fn_blk g t)" and "edge_copies g b (cfg_succ g b) = Inr []"
    then have "cs = []" using cs(1) by simp
    then have "?env2 x = env' x" if "\<not> new_temp (fn_id g) (length (fn_temps g)) x" for x
      using cs(2) that by (simp add: copied_def)
    then have same2: "same_env g env ?env2" using same old_vars [OF temps] by (simp add: env_renamed_def)
    have "run_exit M ?env2 (map_exit (\<lambda>l. l) e) = run_exit M env e"
      by (rule renamed_exit [OF renames_id same2]) (rule occurs_exit [OF b e])
    moreover have "enters M g (Some b) c env ?env2" if "run_exit M env e = Inr (Some c, v)"
      using run_exit_next [OF that] exit_succs none enters_no_phis [OF _ same2] by metis
    ultimately show ?thesis by simp
  qed
  then show "run_exit M ?env2 e = run_exit M env e" "run_exit M env e = Inr (Some c, v) \<Longrightarrow> enters M g (Some b) c env ?env2"
    by auto
qed

lemma no_phi_head:
  "is = [] \<or> \<not> is_phi_inst (hd is) \<Longrightarrow> all_moves ms \<Longrightarrow> \<not> (case is @ ms of [] \<Rightarrow> False | i # is \<Rightarrow> is_phi_inst i)"
  by (cases "is"; cases ms) (auto simp: all_moves_def)

lemma moved_block_runs:
  assumes ready: "split_ready (mc_const M) g" and clean: "joins_clean g" and temps: "temps_ok g" and mov: "moves_exact M"
    and added: "moves_added (mc_const M) g (set (fn_blocks g)) ms h" and b: "b \<in> set (fn_blocks g)"
    and enters: "enters M g prev b env env'"
  shows "agree_res (\<lambda>x y. fst y = fst x \<and> snd (snd y) = snd (snd x) \<and>
      (\<forall>c. fst (fst x) = Some c \<longrightarrow> enters M g (Some b) c (fst (snd x)) (fst (snd y))))
    (run_block M g prev b (env, w)) (run_block M (snd (remove_phis h)) prev' b (env', w))"
proof -
  let ?rest = "dropWhile is_phi_inst (bk_insts (fn_blk g b))" and ?h = "snd (remove_phis h)"
  obtain ws where ws: "read_phis M prev env (bk_insts (fn_blk g b)) = Inr (ws, ?rest)" "same_env g (puts ws env) env'"
    using enters by (auto simp: enters_def)
  note blk = remove_phis_blk [OF added b]
  have am: "all_moves (ms b)" using moves_added_sel(6) [OF added] .
  have bm: "block_moves (mc_const M) g (fn_temps h) b (ms b)" using added b by (simp add: moves_added_def)
  obtain e where e: "bk_exit (fn_blk g b) = Some e" using ready b by (auto simp: split_ready_def cfg_ok_def hasExit_def)
  have "?rest = [] \<or> \<not> is_phi_inst (hd ?rest)" using hd_dropWhile by blast
  then have "\<not> starts_with_phi (fn_blk ?h b)"
    unfolding starts_with_phi_def blk by (rule no_phi_head [OF _ am])
  then have read: "read_phis M prev' env' (bk_insts (fn_blk ?h b)) = Inr ([], ?rest @ ms b)"
    using no_phis_read blk(1) by metis
  have sub: "(\<Union>i\<in>set ?rest. set (vars i)) \<subseteq> occurs g" using occurs_inst [OF b] set_dropWhileD by fastforce
  have "map (map_inst (\<lambda>l. l)) ?rest = ?rest" by (simp add: map_idI)
  then have agree: "agree_res (same_state (\<lambda>k. k) (occurs g)) (rfold (run_inst M) ?rest (puts ws env, w)) (rfold (run_inst M) ?rest (env', w))"
    using renamed_insts [OF renames_id [of "occurs g"], of "(puts ws env, w)" "(env', w)" ?rest M] ws(2) sub by simp
  show ?thesis
  proof (cases "rfold (run_inst M) ?rest (puts ws env, w)")
    case (Inl x)
    then have "rfold (run_inst M) ?rest (env', w) = Inl x" using agree by (auto simp: rel_sum.simps)
    then show ?thesis using Inl ws(1) read by (simp add: run_block_def rfold_append)
  next
    case (Inr s1)
    then obtain e1 w1 e2 where s: "s1 = (e1, w1)" "rfold (run_inst M) ?rest (env', w) = Inr (e2, w1)" "same_env g e1 e2"
      using agree by (cases s1) (auto simp: rel_sum.simps)
    let ?e3 = "do_moves (mc_const M) (ms b) e2"
    have "rfold (run_inst M) (?rest @ ms b) (env', w) = Inr (?e3, w1)"
      using s(2) run_moves [OF mov am] by (simp add: rfold_append)
    then have "run_block M ?h prev' b (env', w) = rbind (run_exit M e1 e) (\<lambda>nx. Inr (nx, ?e3, w1))"
      using read blk(2) e exit_after_moves(1) [OF ready clean temps b s(3) bm e]
      by (simp add: run_block_def get_exit_def)
    moreover have "run_block M g prev b (env, w) = rbind (run_exit M e1 e) (\<lambda>nx. Inr (nx, e1, w1))"
      using ws(1) Inr s(1) e by (simp add: run_block_def get_exit_def)
    ultimately show ?thesis
      using exit_after_moves(2) [OF ready clean temps b s(3) bm e] by (cases "run_exit M e1 e") auto
  qed
qed

lemma moved_runs:
  assumes ready: "split_ready (mc_const M) g" and clean: "joins_clean g" and temps: "temps_ok g" and mov: "moves_exact M"
    and added: "moves_added (mc_const M) g (set (fn_blocks g)) ms h"
  shows "b \<in> set (fn_blocks g) \<Longrightarrow> enters M g prev b env env' \<Longrightarrow>
    run_from M (snd (remove_phis h)) n prev' b (env', w) = run_from M g n prev b (env, w)"
proof (induction n arbitrary: prev prev' b env env' w)
  case (Suc n)
  note step = moved_block_runs [OF ready clean temps mov added Suc.prems, of w prev']
  have wf: "well_formed g" using ready by (simp add: split_ready_def cfg_ok_def)
  show ?case
  proof (cases "run_block M g prev b (env, w)")
    case (Inl x)
    then have "run_block M (snd (remove_phis h)) prev' b (env', w) = Inl x" using step by (auto simp: rel_sum.simps)
    then show ?thesis using Inl by simp
  next
    case (Inr x)
    obtain nx v e1 w1 where x: "x = ((nx, v), e1, w1)" by (metis prod.collapse)
    then obtain e2 where y: "run_block M (snd (remove_phis h)) prev' b (env', w) = Inr ((nx, v), e2, w1)"
        "\<forall>c. nx = Some c \<longrightarrow> enters M g (Some b) c e1 e2"
      using step Inr by (auto simp: rel_sum.simps)
    show ?thesis
    proof (cases nx)
      case (Some c)
      then have "c \<in> set (exit_succs g b)" using Inr x run_block_next by fastforce
      then have "c \<in> set (fn_blocks g)" using wf Suc.prems(1) by blast
      then show ?thesis using Suc.IH y(2) Inr x y(1) Some by simp
    qed (use Inr x y in simp)
  qed
qed simp

lemma moved_run_func:
  assumes ready: "split_ready (mc_const M) g" and clean: "joins_clean g" and temps: "temps_ok g" and mov: "moves_exact M"
    and added: "moves_added (mc_const M) g (set (fn_blocks g)) ms h"
  shows "run_func M (snd (remove_phis h)) n env w = run_func M g n env w"
proof -
  have wf: "well_formed g" using ready by (simp add: split_ready_def cfg_ok_def)
  have "fn_blocks (snd (remove_phis h)) = fn_blocks g" using moves_added_sel(2) [OF added] by (simp add: remove_phis_def)
  moreover have "same_env g env env" by (simp add: env_renamed_def)
  then have "enters M g None (hd (fn_blocks g)) env env"
    using ready by (intro enters_no_phis) (simp_all add: split_ready_def)
  ultimately show ?thesis
    using moved_runs [OF assms, of "hd (fn_blocks g)" None env env n None w] wf entrance_hd [OF wf]
    by (simp add: run_func_def entrance_def)
qed

end
