(* ===== verification/Ssa_Out.thy ===== *)
theory Ssa_Out
  imports Ssa_Moves Ir_Dead_Sound Ssa_Run
begin

text \<open>
  The whole way out of SSA form: \<open>DestructSSA\<close> succeeds on programs in SSA form, leaves no phi
  instruction, and every function of the result computes what the original computes.
\<close>

section \<open>Functions ready for the destruction\<close>

text \<open>The copies on an edge: one for each variable, and constants with one key have one value.\<close>

definition phis_ready :: "(constexpr \<Rightarrow> 'v) \<Rightarrow> ir_func \<Rightarrow> block_id \<Rightarrow> block_id \<Rightarrow> bool" where
  "phis_ready C fn p b \<longleftrightarrow>
     (\<exists>cs. phi_copies p (bk_insts (fn_blk fn b)) = Inr cs \<and> distinct (map dest_key cs) \<and> keys_exact C cs)"

text \<open>
  Every block is reachable, the phi instructions come first in their block, the entrance has none, a phi
  instruction has an operand for every predecessor, and a block with phi instructions has more than one.
\<close>

definition leading_phis :: "ir_block \<Rightarrow> bool" where
  "leading_phis k \<longleftrightarrow> phis_first (map is_phi_inst (bk_insts k))"

definition destruct_ready :: "(constexpr \<Rightarrow> 'v) \<Rightarrow> ir_func \<Rightarrow> bool" where
  "destruct_ready C fn \<longleftrightarrow>
     cfg_ok fn \<and> sources_ok fn \<and> clean_branches fn \<and> \<not> starts_with_phi (fn_blk fn (hd (fn_blocks fn))) \<and>
     (\<forall>b\<in>set (fn_blocks fn). leading_phis (fn_blk fn b)) \<and>
     (\<forall>b\<in>set (fn_blocks fn). starts_with_phi (fn_blk fn b) \<longrightarrow> 1 < length (cfg_pred fn b)) \<and>
     (\<forall>p\<in>set (fn_blocks fn). \<forall>b\<in>set (exit_succs fn p). phis_ready C fn p b)"

lemma destruct_split_ready:
  assumes "destruct_ready C fn" "temps_ok fn"
  shows "split_ready C fn"
proof -
  have "edge_ok C fn p b" if p: "p \<in> set (fn_blocks fn)" "b \<in> set (exit_succs fn p)" for p b
  proof -
    have "phis_ready C fn p b" using assms(1) p by (simp add: destruct_ready_def)
    then obtain cs where cs: "phi_copies p (bk_insts (fn_blk fn b)) = Inr cs" "distinct (map dest_key cs)" "keys_exact C cs"
      by (auto simp: phis_ready_def)
    have b: "b \<in> set (fn_blocks fn)" using assms(1) p by (auto simp: destruct_ready_def cfg_ok_def)
    have "\<not> new_temp (fn_id fn) (length (fn_temps fn)) (key_of d) \<and>
        (\<forall>x. value_key s = K_var x \<longrightarrow> \<not> new_temp (fn_id fn) (length (fn_temps fn)) x)" if c: "(s, d) \<in> set cs" for s d
    proof
      note v = phi_copies_vars [OF cs(1) c]
      show "\<not> new_temp (fn_id fn) (length (fn_temps fn)) (key_of d)"
        using v old_vars [OF assms(2)] occurs_inst [OF b] defined_var_vars by blast
      show "\<forall>x. value_key s = K_var x \<longrightarrow> \<not> new_temp (fn_id fn) (length (fn_temps fn)) x"
        using v old_vars [OF assms(2)] occurs_inst [OF b] by (cases s) auto
    qed
    then have "no_temps (fn_id fn) (length (fn_temps fn)) cs" unfolding no_temps_def by blast
    then show ?thesis using cs by (auto simp: edge_ok_def copies_ok_def)
  qed
  then show ?thesis using assms(1) by (simp add: destruct_ready_def split_ready_def)
qed

text \<open>Renaming keeps the control flow and the copies.\<close>

lemma targets_map_exit [simp]: "targets (map_exit f e) = targets e"
  by (cases e) simp_all

lemma sources_map_inst [simp]: "sources (map_inst f i) = sources i"
  by (cases i) (auto simp: comp_def split_def)

lemma mapped_succs:
  assumes "code_mapped f fn g"
  shows "b \<in> set (fn_blocks fn) \<Longrightarrow> exit_succs g b = exit_succs fn b" "cfg_succ g = cfg_succ fn" "cfg_pred g = cfg_pred fn"
    "entrance g = entrance fn" "reachable g = reachable fn"
proof -
  note sel = code_mapped_sel [OF assms]
  have s: "exit_succs g b = exit_succs fn b" if "b \<in> set (fn_blocks fn)" for b
    using sel(4) [OF that] by (cases "bk_exit (fn_blk fn b)") (simp_all add: exit_succs_def block_targets_def)
  then show "b \<in> set (fn_blocks fn) \<Longrightarrow> exit_succs g b = exit_succs fn b" .
  show c: "cfg_succ g = cfg_succ fn" using s sel(2) by (auto simp: fun_eq_iff cfg_succ_def)
  show "cfg_pred g = cfg_pred fn" using s sel(2) by (auto simp: fun_eq_iff cfg_pred_def intro!: filter_cong)
  show e: "entrance g = entrance fn" using sel(2) by (simp add: entrance_def)
  show "reachable g = reachable fn"
  proof
    fix b show "reachable g b = reachable fn b"
      unfolding reachable_def using path_to_mono [of g fn b] path_to_mono [of fn g b] c e by metis
  qed
qed

lemma mapped_starts:
  assumes "code_mapped f fn g" "b \<in> set (fn_blocks fn)"
  shows "starts_with_phi (fn_blk g b) = starts_with_phi (fn_blk fn b)"
  using code_mapped_sel(4) [OF assms] by (cases "bk_insts (fn_blk fn b)") (simp_all add: starts_with_phi_def)

lemma mapped_copies:
  "phi_copies p (map (map_inst f) is) = rbind (phi_copies p is) (\<lambda>cs. Inr (map (\<lambda>(s, d). (map_val f s, f d)) cs))"
proof (induction "is")
  case (Cons i "is")
  show ?case
  proof (cases i)
    case (Phi r args)
    show ?thesis
      using Cons Phi by (cases "phi_value args p"; cases r; cases "phi_copies p is") (simp_all add: phi_value_image)
  qed simp_all
qed simp

lemma map_val_Const: "map_val f s = Const c \<longleftrightarrow> s = Const c"
  by (cases s) simp_all

lemma keys_exact_mapped: "keys_exact C cs \<Longrightarrow> keys_exact C (map (\<lambda>(s, d). (map_val f s, f d)) cs)"
proof -
  have "Const c \<in> fst ` set (map (\<lambda>(s, d). (map_val f s, f d)) cs) \<longleftrightarrow> Const c \<in> fst ` set cs" for c
  proof -
    have "fst ` set (map (\<lambda>(s, d). (map_val f s, f d)) cs) = map_val f ` fst ` set cs" by (simp add: image_image split_def)
    moreover have "Const c \<in> map_val f ` S \<longleftrightarrow> Const c \<in> S" for S by (metis image_iff map_val_Const)
    ultimately show ?thesis by simp
  qed
  then show "keys_exact C cs \<Longrightarrow> ?thesis" unfolding keys_exact_def by blast
qed

lemma phis_ready_mapped:
  assumes "code_mapped f fn g" "renames f \<rho> (occurs fn)" "b \<in> set (fn_blocks fn)" "phis_ready C fn p b"
  shows "phis_ready C g p b"
proof -
  obtain cs where cs: "phi_copies p (bk_insts (fn_blk fn b)) = Inr cs" "distinct (map dest_key cs)" "keys_exact C cs"
    using assms(4) by (auto simp: phis_ready_def)
  have occ: "d \<in> occurs fn" if "(s, d) \<in> set cs" for s d
    using phi_copies_vars [OF cs(1) that] occurs_inst [OF assms(3)] defined_var_vars by blast
  have "inj_on dest_key (set cs)" "distinct cs" using cs(2) by (simp_all add: distinct_map)
  have inj: "key_of (f d) = key_of (f e) \<longleftrightarrow> key_of d = key_of e" if "(s, d) \<in> set cs" "(t, e) \<in> set cs" for s d t e
    using occ [OF that(1)] occ [OF that(2)] assms(2) by (auto simp: renames_def inj_on_def)
  have "inj_on (\<lambda>c. key_of (f (snd c))) (set cs)"
  proof (rule inj_onI)
    fix x y assume xy: "x \<in> set cs" "y \<in> set cs" "key_of (f (snd x)) = key_of (f (snd y))"
    then have "dest_key x = dest_key y" using inj [of "fst x" "snd x" "fst y" "snd y"] by simp
    then show "x = y" using \<open>inj_on dest_key (set cs)\<close> xy(1,2) by (simp add: inj_on_def)
  qed
  then have "distinct (map dest_key (map (\<lambda>(s, d). (map_val f s, f d)) cs))"
    using \<open>distinct cs\<close> by (simp add: distinct_map comp_def split_def)
  moreover have "phi_copies p (bk_insts (fn_blk g b)) = Inr (map (\<lambda>(s, d). (map_val f s, f d)) cs)"
    using code_mapped_sel(4) [OF assms(1,3)] cs(1) by (simp add: mapped_copies)
  ultimately show ?thesis using keys_exact_mapped [OF cs(3)] by (auto simp: phis_ready_def)
qed

lemma destruct_ready_mapped:
  assumes m: "code_mapped f fn g" and ren: "renames f \<rho> (occurs fn)" and ready: "destruct_ready C fn"
  shows "destruct_ready C g"
proof -
  note sel = code_mapped_sel [OF m] and succ = mapped_succs [OF m] and starts = mapped_starts [OF m]
  have wf: "well_formed fn" using ready by (simp add: destruct_ready_def cfg_ok_def)
  have tB: "t \<in> set (fn_blocks fn)" if "p \<in> set (fn_blocks fn)" "t \<in> set (exit_succs fn p)" for p t using wf that by blast
  have "exit_complete (map_option (map_exit f) e) = exit_complete e" for e
  proof (cases e)
    case (Some x)
    then show ?thesis by (cases x) simp_all
  qed simp
  then have "cfg_defined g"
    using ready sel(2,4) by (simp add: destruct_ready_def cfg_ok_def cfg_defined_def list_all_iff)
  then have "cfg_ok g"
    using ready sel(2,4) succ by (simp add: destruct_ready_def cfg_ok_def hasExit_def)
  moreover have "sources_ok g" using ready sel(2,4) by (simp add: destruct_ready_def sources_ok_def)
  moreover have "clean_branches g"
    unfolding clean_branches_def sel(2)
  proof (intro ballI allI impI)
    fix p c t e assume p: "p \<in> set (fn_blocks fn)" "bk_exit (fn_blk g p) = Some (BranchExit c t e)"
      and b: "\<exists>b\<in>set (exit_succs g p). starts_with_phi (fn_blk g b)"
    obtain e0 where e0: "bk_exit (fn_blk fn p) = Some e0" "map_exit f e0 = BranchExit c t e" using p sel(4) by auto
    then obtain c0 where "bk_exit (fn_blk fn p) = Some (BranchExit c0 t e)" by (cases e0) auto
    moreover have "\<exists>b\<in>set (exit_succs fn p). starts_with_phi (fn_blk fn b)" using b p(1) succ(1) starts tB by auto
    ultimately show "\<exists>x y. t = Some x \<and> e = Some y \<and> x \<noteq> y"
      using ready p(1) unfolding destruct_ready_def clean_branches_def by blast
  qed
  moreover have "\<not> starts_with_phi (fn_blk g (hd (fn_blocks g)))"
    using ready wf sel(2) starts [of "hd (fn_blocks fn)"] by (simp add: destruct_ready_def)
  moreover have "leading_phis (fn_blk g b)" if "b \<in> set (fn_blocks g)" for b
    using ready that sel(2,4) by (simp add: destruct_ready_def leading_phis_def comp_def)
  moreover have "1 < length (cfg_pred g b)" if "b \<in> set (fn_blocks g)" "starts_with_phi (fn_blk g b)" for b
    using ready that sel(2) starts succ(3) by (simp add: destruct_ready_def)
  moreover have "phis_ready C g p b" if "p \<in> set (fn_blocks g)" "b \<in> set (exit_succs g p)" for p b
  proof -
    have p: "p \<in> set (fn_blocks fn)" "b \<in> set (exit_succs fn p)" using that sel(2) succ(1) by auto
    then have "phis_ready C fn p b" using ready by (simp add: destruct_ready_def)
    then show ?thesis by (rule phis_ready_mapped [OF m ren tB [OF p]])
  qed
  ultimately show ?thesis by (simp add: destruct_ready_def)
qed

section \<open>No block is dead\<close>

lemma reachable_reaches:
  assumes "well_formed fn" "path_to fn b ps"
  shows "reaches (exit_succs fn) (hd (fn_blocks fn)) b"
  using assms(2)
proof (induction rule: path_to.induct)
  case (start b)
  then show ?case using entrance_hd [OF assms(1)] by (simp add: reaches_def)
next
  case (step p ps b)
  then have "b \<in> set (exit_succs fn p)" by (simp add: cfg_succ_def split: if_splits)
  then show ?case using step.IH reaches_snoc by blast
qed

lemma refine_phi_same: "set (sources i) \<subseteq> set seen \<Longrightarrow> refine_phi seen i = i"
  by (cases i) (auto simp: refine_phi_def filter_id_conv)

lemma dead_block_func_same:
  assumes "destruct_ready C fn"
  shows "dead_block_func fn = Inr (False, fn)"
proof -
  have ok: "cfg_ok fn" and src: "sources_ok fn" using assms by (simp_all add: destruct_ready_def)
  have wf: "well_formed fn" using ok by (simp add: cfg_ok_def)
  let ?e = "hd (fn_blocks fn)" and ?B = "set (fn_blocks fn)"
  have "reach_inv (exit_succs fn) ?e [?e] [?e]" by (simp add: reach_inv_def reaches_def)
  then obtain r where r: "reach_loop (succs fn) [?e] [?e] = Some (Inr r)" "distinct r" "set r = {x. reaches (exit_succs fn) ?e x}" "set r \<subseteq> ?B"
    using reach_loop_spec [of "exit_succs fn" ?e "[?e]" "[?e]" ?B "succs fn"] wf cfg_defined_has [of fn]
    by (auto simp: succs_exit)
  have "?B \<subseteq> set r" using r(3) reachable_reaches [OF wf] ok by (auto simp: cfg_ok_def reachable_def)
  then have set: "set r = ?B" using r(4) by blast
  then have len: "length r = length (fn_blocks fn)" using r(2) ok by (metis cfg_ok_def distinct_card)
  have same: "map_phis (refine_phi r) (bk_insts (fn_blk fn b)) = bk_insts (fn_blk fn b)" if "b \<in> ?B" for b
  proof -
    have "refine_phi r i = i" if "i \<in> set (takeWhile is_phi_inst (bk_insts (fn_blk fn b)))" for i
      using src \<open>b \<in> ?B\<close> set set_takeWhileD [OF that] by (intro refine_phi_same) (auto simp: sources_ok_def)
    then show ?thesis by (simp add: map_phis_def map_idI)
  qed
  have "fn\<lparr>fn_blocks := [b \<leftarrow> fn_blocks fn. b \<in> set r],
      fn_blk := (\<lambda>b. if b \<in> ?B \<and> b \<in> set r then (fn_blk fn b)\<lparr>bk_insts := map_phis (refine_phi r) (bk_insts (fn_blk fn b))\<rparr>
        else fn_blk fn b)\<rparr> = fn"
  proof -
    have "(\<lambda>b. if b \<in> ?B \<and> b \<in> set r then (fn_blk fn b)\<lparr>bk_insts := map_phis (refine_phi r) (bk_insts (fn_blk fn b))\<rparr>
        else fn_blk fn b) = fn_blk fn" by (rule ext) (simp add: same)
    moreover have "[b \<leftarrow> fn_blocks fn. b \<in> set r] = fn_blocks fn" by (simp add: set filter_id_conv)
    ultimately show ?thesis by simp
  qed
  then show ?thesis using r(1) len entrance_hd [OF wf] by (simp add: dead_block_func_def)
qed

lemma dead_blocks_same:
  assumes "\<forall>fn\<in>set (pr_funcs p). destruct_ready C fn"
  shows "DeadBlockElimination p = Some (Inr (False, p))"
proof -
  have "\<forall>fn\<in>set fns. destruct_ready C fn \<Longrightarrow> dead_block_round fns = Inr (False, fns)" for fns
    by (induction fns) (auto dest: dead_block_func_same)
  then have "dead_block_round (pr_funcs p) = Inr (False, pr_funcs p)" using assms by blast
  then show ?thesis by (simp add: DeadBlockElimination_def dead_block_loop.simps)
qed

section \<open>Steps that rename a typed program\<close>

definition renaming_step :: "ir_program \<Rightarrow> ir_program \<Rightarrow> bool" where
  "renaming_step p q \<longleftrightarrow>
     typed_prog q \<and> (\<exists>f \<rho>. prog_mapped f p q \<and> renames f \<rho> (prog_occurs p) \<and> (\<forall>d. \<rho> (K_named d) = K_named d))"

lemma prog_mapped_refl: "prog_mapped (\<lambda>l. l) p p"
  by (simp add: list_all2_conv_all_nth code_mapped_refl)

lemma renaming_step_refl: "typed_prog p \<Longrightarrow> renaming_step p p"
  unfolding renaming_step_def by (intro conjI exI [of _ "\<lambda>l. l"] exI [of _ "\<lambda>k. k"]) (simp_all add: prog_mapped_refl)

lemma renaming_step_trans:
  assumes "renaming_step p q" "renaming_step q r"
  shows "renaming_step p r"
proof -
  obtain f \<rho> where f: "prog_mapped f p q" "renames f \<rho> (prog_occurs p)" "\<forall>d. \<rho> (K_named d) = K_named d"
    using assms(1) by (auto simp: renaming_step_def)
  obtain f' \<rho>' where f': "prog_mapped f' q r" "renames f' \<rho>' (prog_occurs q)" "\<forall>d. \<rho>' (K_named d) = K_named d"
    using assms(2) by (auto simp: renaming_step_def)
  have "renames (f' \<circ> f) (\<rho>' \<circ> \<rho>) (prog_occurs p)"
    using renames_comp [OF f(2)] f'(2) prog_occurs_mapped [OF f(1)] by simp
  then show ?thesis
    using prog_mapped_trans [OF f(1) f'(1)] f(3) f'(3) assms(2) unfolding renaming_step_def
    by (intro conjI exI [of _ "f' \<circ> f"] exI [of _ "\<rho>' \<circ> \<rho>"]) auto
qed

text \<open>Only the lists of temporaries and locals change.\<close>

lemma code_mapped_same:
  "fn_id g = fn_id fn \<Longrightarrow> fn_name g = fn_name fn \<Longrightarrow> fn_ret g = fn_ret fn \<Longrightarrow> fn_params g = fn_params fn \<Longrightarrow>
     fn_blocks g = fn_blocks fn \<Longrightarrow> fn_blk g = fn_blk fn \<Longrightarrow> fn_loops g = fn_loops fn \<Longrightarrow> code_mapped (\<lambda>l. l) fn g"
  by (simp add: code_mapped_def)

section \<open>New temporaries\<close>

definition grown :: "ir_func \<Rightarrow> ir_func \<Rightarrow> bool" where
  "grown g h \<longleftrightarrow>
     fn_id h = fn_id g \<and> (\<exists>extra. fn_temps h = fn_temps g @ extra) \<and>
     occurs h \<subseteq> occurs g \<union> temps_from (fn_id g) (length (fn_temps g)) (fn_temps h) \<and>
     func_defs h \<subseteq> func_defs g \<union> temps_from (fn_id g) (length (fn_temps g)) (fn_temps h)"

lemma moves_grown:
  assumes added: "moves_added C g (set (fn_blocks g)) ms h"
  shows "grown g (snd (remove_phis h))"
proof -
  let ?h = "snd (remove_phis h)" and ?T = "temps_from (fn_id g) (length (fn_temps g)) (fn_temps h)"
  note sel = moves_added_sel [OF added] and blk = remove_phis_blk [OF added]
  have h: "fn_id ?h = fn_id g" "fn_temps ?h = fn_temps h" "fn_blocks ?h = fn_blocks g"
    using sel(1,2) by (simp_all add: remove_phis_def)
  have ms: "(\<Union>i\<in>set (ms b). set (vars i)) \<subseteq> occurs g \<union> ?T"
      "\<forall>i\<in>set (ms b). \<forall>d. defined_var i = Some d \<longrightarrow> d \<in> func_defs g \<union> ?T" if "b \<in> set (fn_blocks g)" for b
    using added that by (auto simp: moves_added_def block_moves_def)
  have "block_occurs (fn_blk ?h b) \<subseteq> occurs g \<union> ?T" if b: "b \<in> set (fn_blocks g)" for b
  proof
    fix l assume "l \<in> block_occurs (fn_blk ?h b)"
    then consider i where "i \<in> set (dropWhile is_phi_inst (bk_insts (fn_blk g b)))" "l \<in> set (vars i)"
      | "l \<in> (\<Union>i\<in>set (ms b). set (vars i))"
      | e where "bk_exit (fn_blk g b) = Some e" "used_var_exit e = Some l"
      unfolding block_occurs_def blk [OF b] by auto
    then show "l \<in> occurs g \<union> ?T"
    proof cases
      case 1
      then show ?thesis using occurs_inst [OF b set_dropWhileD [OF 1(1)]] by blast
    next
      case 2
      then show ?thesis using ms(1) [OF b] by blast
    next
      case 3
      then show ?thesis using occurs_exit [OF b] by blast
    qed
  qed
  then have "occurs ?h \<subseteq> occurs g \<union> ?T" unfolding occurs_def [of ?h] h(3) by blast
  moreover have "func_defs ?h \<subseteq> func_defs g \<union> ?T"
  proof
    fix d assume "d \<in> func_defs ?h"
    then obtain b i where b: "b \<in> set (fn_blocks g)" "i \<in> set (bk_insts (fn_blk ?h b))" "defined_var i = Some d"
      using h(3) by (auto simp: func_defs_def)
    then consider "i \<in> set (bk_insts (fn_blk g b))" | "i \<in> set (ms b)" using blk(1) [OF b(1)] set_dropWhileD by fastforce
    then show "d \<in> func_defs g \<union> ?T" by cases (use b ms(2) [OF b(1)] in \<open>auto simp: func_defs_def\<close>)
  qed
  ultimately show ?thesis using h added by (auto simp: grown_def moves_added_def)
qed

lemma grown_temp:
  assumes "grown g h" "temps_ok g" "l \<in> occurs h" "l \<notin> occurs g"
  obtains k where "l = TempValue (fst (fn_temps h ! k)) k (fn_id g)" "length (fn_temps g) \<le> k" "k < length (fn_temps h)"
  using assms by (auto simp: grown_def temps_from_def)

lemma grown_agree:
  assumes p: "typed_prog p" and g: "g \<in> set (pr_funcs p)" "g' \<in> set (pr_funcs p)"
    and h: "grown g h" "grown g' h'" and same: "g = g' \<Longrightarrow> h = h'"
  shows "vars_agree h h'"
  unfolding vars_agree_def
proof (intro ballI impI)
  have ok: "temps_ok g" "temps_ok g'" using p g by (simp_all add: typed_prog_def)
  have ids: "fn_id h = fn_id g" "fn_id h' = fn_id g'" using h by (simp_all add: grown_def)
  have inj: "g = g'" if "fn_id g = fn_id g'" using p g that by (auto simp: typed_prog_def distinct_map dest: inj_onD)
  fix l l' assume l: "l \<in> occurs h" "l' \<in> occurs h'" and k: "key_of l = key_of l'"
  show "type_of_lv l = type_of_lv l' \<and> (is_named l \<or> fn_id h = fn_id h')"
  proof (cases "l \<in> occurs g")
    case True
    show ?thesis
    proof (cases "l' \<in> occurs g'")
      case True
      then show ?thesis using p g \<open>l \<in> occurs g\<close> k ids unfolding typed_prog_def vars_agree_def by metis
    next
      case False
      then obtain i where i: "l' = TempValue (fst (fn_temps h' ! i)) i (fn_id g')" "length (fn_temps g') \<le> i"
        using grown_temp [OF h(2) ok(2) l(2)] by metis
      then obtain t where t: "l = TempValue t i (fn_id g')" using k key_of_temp by auto
      then have "fn_id g' = fn_id g" "i < length (fn_temps g)" using ok(1) True by (auto simp: temps_ok_def)
      then show ?thesis using inj i(2) by auto
    qed
  next
    case False
    then obtain i where i: "l = TempValue (fst (fn_temps h ! i)) i (fn_id g)" "length (fn_temps g) \<le> i"
      using grown_temp [OF h(1) ok(1) l(1)] by metis
    then obtain t where t: "l' = TempValue t i (fn_id g)" using k key_of_temp by (metis key_of.simps(2))
    show ?thesis
    proof (cases "l' \<in> occurs g'")
      case True
      then have "fn_id g' = fn_id g" "i < length (fn_temps g')" using ok(2) t by (auto simp: temps_ok_def)
      then show ?thesis using inj i(2) by auto
    next
      case False
      then obtain j where j: "l' = TempValue (fst (fn_temps h' ! j)) j (fn_id g')" using grown_temp [OF h(2) ok(2) l(2)] by metis
      then show ?thesis using i(1) t inj same by auto
    qed
  qed
qed

lemma grown_temps_ok: "grown g h \<Longrightarrow> temps_ok g \<Longrightarrow> temps_ok h"
  unfolding temps_ok_def [of h]
proof (intro allI impI)
  assume h: "grown g h" "temps_ok g"
  fix t i f assume o: "TempValue t i f \<in> occurs h"
  show "f = fn_id h \<and> i < length (fn_temps h) \<and> fst (fn_temps h ! i) = t"
  proof (cases "TempValue t i f \<in> occurs g")
    case True
    then have "f = fn_id g \<and> i < length (fn_temps g) \<and> fst (fn_temps g ! i) = t" using h(2) by (simp add: temps_ok_def)
    then show ?thesis using h(1) by (auto simp: grown_def nth_append)
  next
    case False
    show ?thesis by (rule grown_temp [OF h o False]) (use h(1) in \<open>auto simp: grown_def\<close>)
  qed
qed

lemma typed_prog_grown:
  assumes p: "typed_prog p" and hs: "list_all2 grown (pr_funcs p) hs"
  shows "typed_prog (p\<lparr>pr_funcs := hs\<rparr>)"
proof -
  have len: "length hs = length (pr_funcs p)" using list_all2_lengthD [OF hs] by simp
  have g: "grown (pr_funcs p ! k) (hs ! k)" if "k < length hs" for k using hs that len by (simp add: list_all2_conv_all_nth)
  have dist: "distinct (pr_funcs p)" using p by (simp add: typed_prog_def distinct_map)
  have "map fn_id hs = map fn_id (pr_funcs p)" using g len by (intro nth_equalityI) (auto simp: grown_def)
  moreover have "temps_ok h" if "h \<in> set hs" for h
    using that g len p grown_temps_ok by (fastforce simp: in_set_conv_nth typed_prog_def)
  moreover have "vars_agree h h'" if hh: "h \<in> set hs" "h' \<in> set hs" for h h'
  proof -
    obtain j k where jk: "j < length hs" "h = hs ! j" "k < length hs" "h' = hs ! k" using hh unfolding in_set_conv_nth by blast
    show ?thesis
      by (rule grown_agree [OF p _ _ g [OF jk(1), folded jk(2)] g [OF jk(3), folded jk(4)]])
        (use jk len dist nth_eq_iff_index_eq in auto)
  qed
  ultimately show ?thesis using p by (simp add: typed_prog_def)
qed

section \<open>Variables with several definitions\<close>

fun is_temp :: "left_value \<Rightarrow> bool" where
  "is_temp (TempValue t i f) \<longleftrightarrow> True"
| "is_temp l \<longleftrightarrow> False"

lemma mapped_temps_subset:
  assumes "code_mapped f fn g" "\<And>l. \<not> is_named (f l) \<Longrightarrow> f l = l" "fn_temps g = fn_temps fn" "temps_ok fn"
  shows "temps_ok g"
  unfolding temps_ok_def occurs_mapped [OF assms(1)]
proof (intro allI impI)
  fix t i f' assume "TempValue t i f' \<in> f ` occurs fn"
  then obtain l where l: "l \<in> occurs fn" "f l = TempValue t i f'" by (metis imageE)
  then have "l = TempValue t i f'" using assms(2) [of l] by simp
  then show "f' = fn_id g \<and> i < length (fn_temps g) \<and> fst (fn_temps g ! i) = t"
    using l(1) assms(3,4) code_mapped_sel(1) [OF assms(1)] by (simp add: temps_ok_def)
qed

lemma legalize_var_step:
  assumes p: "typed_prog p" and fresh: "K_named (Def_alloc (fresh_alloc p)) \<notin> key_of ` prog_occurs p"
    and v: "is_temp v" "\<And>x. x \<in> prog_occurs p \<Longrightarrow> key_of x = key_of v \<Longrightarrow> type_of_lv x = type_of_lv v"
  shows "\<exists>p'. legalize_var fresh_alloc p0 v p = Inr p' \<and> renaming_step p p' \<and>
    (\<forall>l\<in>prog_occurs p'. \<not> is_named l \<longrightarrow> l \<in> prog_occurs p)"
proof -
  obtain t i f where tv: "v = TempValue t i f" using v(1) by (cases v) auto
  define al where "al = \<lparr>al_name = ''__phi_'' @ nat_to_string i, al_type = t, al_comptime = False, al_immutable = False,
    al_reference = False, al_init = None\<rparr>"
  define a where "a = fresh_alloc p"
  define l where "l = NamedValue t (Def_alloc a)"
  define A where "A = (pr_alloc p)(a := al)"
  have al: "alloc_variable (''__phi_'' @ nat_to_string i) t None False = Inr al"
    by (simp add: alloc_variable_def mk_alloc_def al_def)
  have la: "alloc_value A a = l" by (simp add: alloc_value_def A_def al_def l_def)
  let ?q = "replace_var (key_of v) l (p\<lparr>pr_alloc := A\<rparr>)"
  define p' where "p' = ?q\<lparr>pr_funcs := map (\<lambda>fn. if fn_id fn = f then addLocal a fn else fn) (pr_funcs ?q)\<rparr>"
  have run: "legalize_var fresh_alloc p0 v p = Inr p'"
    unfolding legalize_var_def tv phi_scope.simps rbind.simps prod.case type_of_lv.simps al Let_def a_def [symmetric]
      A_def [symmetric] la p'_def by (simp only:)
  have m1: "prog_mapped (swap_var (key_of v) l) p ?q"
    using replace_var_mapped [of "key_of v" l "p\<lparr>pr_alloc := A\<rparr>"] by simp
  have m2: "prog_mapped (\<lambda>l. l) ?q p'"
    unfolding p'_def by (auto simp: list_all2_conv_all_nth addLocal_def code_mapped_def)
  have m: "prog_mapped (swap_var (key_of v) l) p p'" using prog_mapped_trans [OF m1 m2] by (simp add: comp_def)
  have ren: "renames (swap_var (key_of v) l) (id(key_of v := key_of l)) (prog_occurs p)"
    by (rule swap_var_renames) (use fresh v(2) in \<open>auto simp: l_def a_def tv\<close>)
  have "typed_prog p'"
  proof (rule typed_prog_mapped [OF p m ren])
    show "is_named (swap_var (key_of v) l x)" if "is_named x" for x using that by (simp add: swap_var_def l_def)
    fix g assume "g \<in> set (pr_funcs p')"
    then obtain j where j: "j < length (pr_funcs p')" "g = pr_funcs p' ! j" by (auto simp: in_set_conv_nth)
    have jp: "j < length (pr_funcs p)" "code_mapped (swap_var (key_of v) l) (pr_funcs p ! j) g"
      using m j by (simp_all add: list_all2_conv_all_nth)
    show "temps_ok g"
    proof (rule mapped_temps_subset [OF jp(2)])
      show "fn_temps g = fn_temps (pr_funcs p ! j)" using j jp(1) by (simp add: p'_def replace_var_funcs addLocal_def)
    qed (use p jp(1) in \<open>simp_all add: typed_prog_def swap_var_def l_def split: if_splits\<close>)
  qed
  then have "renaming_step p p'"
    unfolding renaming_step_def using m ren tv
    by (intro conjI exI [of _ "swap_var (key_of v) l"] exI [of _ "id(key_of v := key_of l)"]) simp_all
  moreover have "x \<in> prog_occurs p" if "x \<in> prog_occurs p'" "\<not> is_named x" for x
    using that prog_occurs_mapped [OF m] by (auto simp: swap_var_def l_def)
  ultimately show ?thesis using run by blast
qed

lemma legalize_fold:
  assumes fresh: "\<And>p. K_named (Def_alloc (fresh_alloc p)) \<notin> key_of ` prog_occurs p" and p0: "typed_prog p0"
  shows "renaming_step p0 p \<Longrightarrow> (\<forall>l\<in>prog_occurs p. \<not> is_named l \<longrightarrow> l \<in> prog_occurs p0) \<Longrightarrow>
    \<forall>v\<in>set vs. is_temp v \<and> v \<in> prog_occurs p0 \<Longrightarrow>
    \<exists>p'. rfold (legalize_var fresh_alloc p1) vs p = Inr p' \<and> renaming_step p0 p'"
proof (induction vs arbitrary: p)
  case (Cons v vs)
  have "type_of_lv x = type_of_lv v" if x: "x \<in> prog_occurs p" "key_of x = key_of v" for x
  proof -
    have "\<not> is_named x" using x(2) Cons.prems(3) by (cases v) (auto simp: is_named_key)
    then have "x \<in> prog_occurs p0" using Cons.prems(2) x(1) by blast
    then show ?thesis using typed_prog_type [OF p0 _ _ x(2)] Cons.prems(3) by simp
  qed
  moreover have "typed_prog p" using Cons.prems(1) by (simp add: renaming_step_def)
  ultimately obtain q where q: "legalize_var fresh_alloc p1 v p = Inr q" "renaming_step p q"
      "\<forall>l\<in>prog_occurs q. \<not> is_named l \<longrightarrow> l \<in> prog_occurs p"
    using legalize_var_step [of p fresh_alloc v p1, OF _ fresh] Cons.prems(3) by auto
  have "\<forall>l\<in>prog_occurs q. \<not> is_named l \<longrightarrow> l \<in> prog_occurs p0" using q(3) Cons.prems(2) by blast
  from Cons.IH [OF renaming_step_trans [OF Cons.prems(1) q(2)] this] Cons.prems(3) q(1) show ?case by simp
qed simp

lemma def_vars_iff: "l \<in> set (def_vars p) \<longleftrightarrow> (\<exists>fn\<in>set (pr_funcs p). l \<in> func_defs fn)"
proof -
  have "set (List.map_filter f xs) = {y. \<exists>x\<in>set xs. f x = Some y}" for f :: "inst \<Rightarrow> left_value option" and xs
    by (force simp: List.map_filter_def)
  then show ?thesis by (auto simp: def_vars_def func_insts_def func_defs_def)
qed

lemma legalize_spec:
  assumes p: "typed_prog p" "no_ssa_defs p" and arr: "\<And>vs. set (arrange_vars vs) = set vs"
    and fresh: "\<And>p. K_named (Def_alloc (fresh_alloc p)) \<notin> key_of ` prog_occurs p"
  obtains p' where "legalize arrange_vars fresh_alloc p = Inr p'" "renaming_step p p'"
proof -
  have "is_temp v \<and> v \<in> prog_occurs p" if v: "v \<in> set (illegal_vars p)" for v
  proof
    have d: "v \<in> set (def_vars p)" "\<not> is_named v" using v by (auto simp: illegal_vars_def Let_def split: if_splits)
    then obtain fn where fn: "fn \<in> set (pr_funcs p)" "v \<in> func_defs fn" by (auto simp: def_vars_iff)
    then show "v \<in> prog_occurs p" using func_defs_occur prog_occursI by blast
    have "\<not> is_ssa_value v" using p(2) fn unfolding no_ssa_defs_def func_defs_def by blast
    then show "is_temp v" using d(2) by (cases v) simp_all
  qed
  then have "\<exists>p'. rfold (legalize_var fresh_alloc p) (arrange_vars (illegal_vars p)) p = Inr p' \<and> renaming_step p p'"
    by (intro legalize_fold [OF fresh p(1) renaming_step_refl [OF p(1)]]) (simp_all add: arr)
  then show ?thesis using that by (auto simp: legalize_def)
qed

section \<open>Unused temporaries\<close>

lemma occurs_live:
  assumes "TempValue t i f \<in> prog_occurs p"
  shows "prog_defines (K_temp f i) p \<or> prog_uses (K_temp f i) p"
proof -
  obtain fn b where fn: "fn \<in> set (pr_funcs p)" "b \<in> set (fn_blocks fn)" "TempValue t i f \<in> block_occurs (fn_blk fn b)"
    using assms by (auto simp: prog_occurs_def occurs_def)
  then consider j where "j \<in> set (bk_insts (fn_blk fn b))" "TempValue t i f \<in> set (used_vars j)"
    | j where "j \<in> set (bk_insts (fn_blk fn b))" "defined_var j = Some (TempValue t i f)"
    | e where "bk_exit (fn_blk fn b) = Some e" "used_var_exit e = Some (TempValue t i f)"
    by (auto simp: block_occurs_def vars_def split: option.splits)
  then show ?thesis
  proof cases
    case 1
    then have "val.Left (TempValue t i f) \<in> set (used j)" by (force simp: used_vars_def List.map_filter_def as_var_Some)
    then have "list_ex (is_var (K_temp f i)) (used j)" by (force simp: list_ex_iff is_var_def)
    then have "block_uses (K_temp f i) (fn_blk fn b)" using 1(1) by (auto simp: block_uses_def list_ex_iff)
    then show ?thesis using fn(1,2) by (auto simp: prog_uses_def list_ex_iff)
  next
    case 2
    then show ?thesis using fn(1,2) by (force simp: prog_defines_def list_ex_iff func_insts_def)
  next
    case 3
    then have "used_exit e = Some (val.Left (TempValue t i f))"
      by (auto simp: used_var_exit_def as_var_Some split: option.splits)
    then have "block_uses (K_temp f i) (fn_blk fn b)" using 3(1) by (simp add: block_uses_def is_var_def)
    then show ?thesis using fn(1,2) by (auto simp: prog_uses_def list_ex_iff)
  qed
qed

text \<open>The first \<open>j\<close> temporaries of a function have their new numbers.\<close>

definition temps_moved :: "ir_program \<Rightarrow> func_id \<Rightarrow> (ty \<times> block_id) list \<Rightarrow> nat list \<Rightarrow> nat \<Rightarrow> ir_program \<Rightarrow> bool" where
  "temps_moved p f ts keep j q \<longleftrightarrow>
     (\<exists>F \<rho>. prog_mapped F p q \<and> renames F \<rho> (prog_occurs p) \<and> (\<forall>d. \<rho> (K_named d) = K_named d) \<and>
        (\<forall>l. (\<forall>t i. l \<noteq> TempValue t i f) \<longrightarrow> F l = l) \<and> (\<forall>t i. \<exists>t' i'. F (TempValue t i f) = TempValue t' i' f)) \<and>
     map fn_temps (pr_funcs q) = map fn_temps (pr_funcs p) \<and>
     (\<forall>t i. TempValue t i f \<in> prog_occurs q \<longrightarrow>
        i < j \<and> t = fst (ts ! (keep ! i)) \<or> i \<in> set (drop j keep) \<and> t = fst (ts ! i))"

lemma temps_moved_step:
  assumes moved: "temps_moved p f ts keep j q" and j: "j < length keep" and sorted: "sorted_wrt (<) keep"
  shows "temps_moved p f ts keep (Suc j) (rename_temp f ts (keep ! j, j) q)"
proof -
  obtain F \<rho> where F: "prog_mapped F p q" "renames F \<rho> (prog_occurs p)" "\<And>d. \<rho> (K_named d) = K_named d"
      "\<And>l. (\<forall>t i. l \<noteq> TempValue t i f) \<Longrightarrow> F l = l" "\<And>t i. \<exists>t' i'. F (TempValue t i f) = TempValue t' i' f"
    using moved by (auto simp: temps_moved_def)
  have occ: "i < j \<and> t = fst (ts ! (keep ! i)) \<or> i \<in> set (drop j keep) \<and> t = fst (ts ! i)" if "TempValue t i f \<in> prog_occurs q" for t i
    using moved that by (auto simp: temps_moved_def)
  have temps: "map fn_temps (pr_funcs q) = map fn_temps (pr_funcs p)" using moved by (simp add: temps_moved_def)
  have drop: "drop j keep = keep ! j # drop (Suc j) keep" using j by (simp add: Cons_nth_drop_Suc)
  have ge: "j \<le> keep ! j" using sorted_wrt_less_idx [OF sorted j] .
  have later: "keep ! j < i" if "i \<in> set (drop (Suc j) keep)" for i
    using sorted_wrt_drop [OF sorted, of j] that unfolding drop by simp
  show ?thesis
  proof (cases "keep ! j = j")
    case True
    then have "i < Suc j \<and> t = fst (ts ! (keep ! i)) \<or> i \<in> set (drop (Suc j) keep) \<and> t = fst (ts ! i)"
      if "TempValue t i f \<in> prog_occurs q" for t i
      using occ [OF that] drop by (auto simp: less_Suc_eq)
    then show ?thesis using moved True by (auto simp: temps_moved_def rename_temp_def)
  next
    case False
    let ?l = "TempValue (fst (ts ! (keep ! j))) j f" and ?k = "K_temp f (keep ! j)"
    have q': "rename_temp f ts (keep ! j, j) q = replace_var ?k ?l q"
      using False by (simp add: rename_temp_def replace_var_def Let_def)
    note m = replace_var_mapped [of ?k ?l q]
    have ren: "renames (swap_var ?k ?l) (id(?k := key_of ?l)) (prog_occurs q)"
    proof (rule swap_var_renames)
      show "key_of ?l \<notin> key_of ` prog_occurs q"
      proof
        assume "key_of ?l \<in> key_of ` prog_occurs q"
        then obtain t where "TempValue t j f \<in> prog_occurs q" by (metis imageE key_of.simps(2) key_of_temp)
        then show False using occ drop ge later False by fastforce
      qed
      fix x assume x: "x \<in> prog_occurs q" "key_of x = ?k"
      then obtain t where "x = TempValue t (keep ! j) f" by (auto simp: key_of_temp)
      then show "type_of_lv x = type_of_lv ?l" using occ x(1) ge False by fastforce
    qed
    let ?F = "swap_var ?k ?l \<circ> F" and ?\<rho> = "id(?k := key_of ?l) \<circ> \<rho>"
    have 1: "prog_mapped ?F p (replace_var ?k ?l q)" using prog_mapped_trans [OF F(1) m] .
    have 2: "renames ?F ?\<rho> (prog_occurs p)" using renames_comp [OF F(2)] ren prog_occurs_mapped [OF F(1)] by simp
    have 3: "?\<rho> (K_named d) = K_named d" for d using F(3) by simp
    have 4: "?F l = l" if l: "\<forall>t i. l \<noteq> TempValue t i f" for l
    proof -
      have "key_of l \<noteq> ?k" using l key_of_temp by metis
      then show ?thesis using F(4) [OF l] by (simp add: swap_var_def)
    qed
    have 5: "\<exists>t' i'. ?F (TempValue t i f) = TempValue t' i' f" for t i
    proof -
      obtain t' i' where "F (TempValue t i f) = TempValue t' i' f" using F(5) by blast
      then show ?thesis by (simp add: swap_var_def)
    qed
    have 6: "map fn_temps (pr_funcs (replace_var ?k ?l q)) = map fn_temps (pr_funcs p)"
      using temps by (simp add: replace_var_funcs comp_def)
    have 7: "i < Suc j \<and> t = fst (ts ! (keep ! i)) \<or> i \<in> set (drop (Suc j) keep) \<and> t = fst (ts ! i)"
      if o: "TempValue t i f \<in> prog_occurs (replace_var ?k ?l q)" for t i
    proof -
      obtain x where x: "x \<in> prog_occurs q" "swap_var ?k ?l x = TempValue t i f"
        using o unfolding prog_occurs_mapped [OF m] by (metis imageE)
      show ?thesis
      proof (cases "key_of x = ?k")
        case True
        then show ?thesis using x(2) by (auto simp: swap_var_def)
      next
        case other: False
        then have "x = TempValue t i f" using x(2) by (simp add: swap_var_def)
        then show ?thesis using occ [of t i] x(1) drop other by auto
      qed
    qed
    show ?thesis
      unfolding q' temps_moved_def using 1 2 3 4 5 6 7
      by (intro conjI exI [of _ ?F] exI [of _ ?\<rho>]) blast+
  qed
qed

lemma temps_moved_all:
  assumes start: "temps_moved p f ts keep 0 p" and sorted: "sorted_wrt (<) keep"
  shows "temps_moved p f ts keep (length keep) (fold (rename_temp f ts) (zip keep [0..<length keep]) p)"
proof -
  let ?zs = "zip keep [0..<length keep]"
  have "j \<le> length keep \<Longrightarrow> temps_moved p f ts keep j (fold (rename_temp f ts) (take j ?zs) p)" for j
  proof (induction j)
    case (Suc j)
    have "take (Suc j) ?zs = take j ?zs @ [(keep ! j, j)]"
      using Suc.prems by (simp add: take_Suc_conv_app_nth)
    then show ?case using temps_moved_step [OF _ _ sorted] Suc by simp
  qed (use start in simp)
  from this [of "length keep"] show ?thesis by simp
qed

lemma dead_temps_step:
  assumes p: "typed_prog p" and k: "k < length (pr_funcs p)"
  shows "renaming_step p (snd (dead_temps k (c, p)))"
proof -
  define fn where "fn = pr_funcs p ! k"
  define ts where "ts = fn_temps fn"
  define keep where "keep = live_temps p fn"
  let ?f = "fn_id fn"
  define q where "q = fold (rename_temp ?f ts) (zip keep [0..<length keep]) p"
  define p2 where "p2 = q\<lparr>pr_funcs := (pr_funcs q)[k := (pr_funcs q ! k)\<lparr>fn_temps := map ((!) ts) keep\<rparr>]\<rparr>"
  have res: "snd (dead_temps k (c, p)) = p2"
    unfolding dead_temps_def snd_conv Let_def fn_def [symmetric] ts_def [symmetric] keep_def [symmetric] q_def [symmetric]
      p2_def [symmetric] by simp
  have fn: "fn \<in> set (pr_funcs p)" using k by (simp add: fn_def)
  have sorted: "sorted_wrt (<) keep" unfolding keep_def live_temps_def by (rule sorted_wrt_filter) simp
  have "temps_moved p ?f ts keep 0 p"
    unfolding temps_moved_def
  proof (intro conjI exI [of _ "\<lambda>l. l"] exI [of _ "\<lambda>k. k"] allI impI)
    fix t i assume o: "TempValue t i ?f \<in> prog_occurs p"
    then have "i < length ts \<and> fst (ts ! i) = t" using typed_prog_temp [OF p fn] by (simp add: ts_def)
    then show "i < 0 \<and> t = fst (ts ! (keep ! i)) \<or> i \<in> set (drop 0 keep) \<and> t = fst (ts ! i)"
      using occurs_live [OF o] by (auto simp: keep_def live_temps_def ts_def)
  qed (simp_all add: prog_mapped_refl)
  then have moved: "temps_moved p ?f ts keep (length keep) q" unfolding q_def by (rule temps_moved_all [OF _ sorted])
  then obtain F \<rho> where F: "prog_mapped F p q" "renames F \<rho> (prog_occurs p)" "\<And>d. \<rho> (K_named d) = K_named d"
      "\<And>l. (\<forall>t i. l \<noteq> TempValue t i ?f) \<Longrightarrow> F l = l" "\<And>t i. \<exists>t' i'. F (TempValue t i ?f) = TempValue t' i' ?f"
    by (auto simp: temps_moved_def)
  have occ: "i < length keep \<and> t = fst (ts ! (keep ! i))" if "TempValue t i ?f \<in> prog_occurs q" for t i
    using moved that by (auto simp: temps_moved_def)
  have temps: "map fn_temps (pr_funcs q) = map fn_temps (pr_funcs p)" using moved by (simp add: temps_moved_def)
  have len: "length (pr_funcs q) = length (pr_funcs p)" using list_all2_lengthD [OF F(1)] by simp
  have "prog_mapped (\<lambda>l. l) q p2"
    unfolding p2_def using k len by (auto simp: list_all2_conv_all_nth nth_list_update code_mapped_def)
  then have m: "prog_mapped F p p2" using prog_mapped_trans [OF F(1)] by (fastforce simp: comp_def)
  have oq: "prog_occurs p2 = prog_occurs q" using prog_occurs_mapped [OF m] prog_occurs_mapped [OF F(1)] by simp
  have "typed_prog p2"
  proof (rule typed_prog_mapped [OF p m F(2)])
    show "is_named (F l)" if "is_named l" for l using F(4) [of l] that by (cases l) auto
    fix g assume g: "g \<in> set (pr_funcs p2)"
    then obtain j where j: "j < length (pr_funcs p)" "g = pr_funcs p2 ! j" using len by (auto simp: in_set_conv_nth p2_def)
    let ?fj = "pr_funcs p ! j"
    have cm: "code_mapped F ?fj g" using m j by (simp add: list_all2_conv_all_nth)
    have fj: "?fj \<in> set (pr_funcs p)" "temps_ok ?fj" using j(1) p by (simp_all add: typed_prog_def)
    have "fn_temps (pr_funcs q ! j) = fn_temps ?fj" using temps j(1) len by (metis nth_map)
    then have tg: "fn_temps g = (if j = k then map ((!) ts) keep else fn_temps ?fj)"
      using j k len by (simp add: p2_def nth_list_update)
    have jk: "fn_id ?fj = ?f \<longleftrightarrow> j = k"
    proof
      assume "fn_id ?fj = ?f"
      then have "map fn_id (pr_funcs p) ! j = map fn_id (pr_funcs p) ! k" using j(1) k by (simp add: fn_def)
      then show "j = k" using nth_eq_iff_index_eq [of "map fn_id (pr_funcs p)" j k] p j(1) k by (simp add: typed_prog_def)
    qed (simp add: fn_def)
    show "temps_ok g"
      unfolding temps_ok_def
    proof (intro allI impI)
      fix t i f' assume o: "TempValue t i f' \<in> occurs g"
      then obtain l where l: "l \<in> occurs ?fj" "F l = TempValue t i f'" using occurs_mapped [OF cm] by (metis imageE)
      show "f' = fn_id g \<and> i < length (fn_temps g) \<and> fst (fn_temps g ! i) = t"
      proof (cases "\<exists>t i. l = TempValue t i ?f")
        case True
        then have j': "j = k" using fj(2) l(1) jk by (auto simp: temps_ok_def)
        have f': "f' = ?f" using True F(5) l(2) by (metis left_value.inject(2))
        then have "TempValue t i ?f \<in> prog_occurs q" using prog_occursI [OF g] o oq by blast
        then show ?thesis using occ tg j' f' code_mapped_sel(1) [OF cm] jk by simp
      next
        case False
        then have lt: "l = TempValue t i f'" using F(4) [of l] l(2) by auto
        then have "j \<noteq> k" using False fj(2) l(1) jk by (auto simp: temps_ok_def)
        then show ?thesis using fj(2) l(1) lt tg code_mapped_sel(1) [OF cm] by (simp add: temps_ok_def)
      qed
    qed
  qed
  then show ?thesis
    unfolding res renaming_step_def using m F(2,3) by blast
qed

lemma DeadTempElimination_spec:
  assumes "typed_prog p"
  obtains c q where "DeadTempElimination p = (c, q)" "renaming_step p q"
proof -
  have "renaming_step p q \<Longrightarrow> set ks \<subseteq> {..<length (pr_funcs p)} \<Longrightarrow> renaming_step p (snd (fold dead_temps ks (c, q)))" for ks c q
  proof (induction ks arbitrary: c q)
    case (Cons k ks)
    have "length (pr_funcs q) = length (pr_funcs p)" "typed_prog q"
      using Cons.prems(1) by (auto simp: renaming_step_def dest: list_all2_lengthD)
    then have "renaming_step q (snd (dead_temps k (c, q)))" using dead_temps_step [of q k c] Cons.prems(2) by auto
    then have "renaming_step p (snd (dead_temps k (c, q)))" using renaming_step_trans Cons.prems(1) by blast
    then show ?case using Cons.IH [of "snd (dead_temps k (c, q))" "fst (dead_temps k (c, q))"] Cons.prems(2) by simp
  qed simp
  from this [OF renaming_step_refl [OF assms], of "[0..<length (pr_funcs p)]" False] show ?thesis
    using that by (metis DeadTempElimination_def lessThan_atLeast0 order_refl prod.collapse set_upt)
qed


section \<open>One function\<close>

definition phi_free :: "ir_func \<Rightarrow> bool" where
  "phi_free fn \<longleftrightarrow> (\<forall>b\<in>set (fn_blocks fn). \<forall>i\<in>set (bk_insts (fn_blk fn b)). \<not> is_phi_inst i)"

lemma phi_free_mapped: "code_mapped f fn g \<Longrightarrow> phi_free fn \<Longrightarrow> phi_free g"
  using code_mapped_sel(2,4) by (fastforce simp: phi_free_def)

lemma phis_first_dropWhile: "phis_first (map is_phi_inst is) \<Longrightarrow> i \<in> set (dropWhile is_phi_inst is) \<Longrightarrow> \<not> is_phi_inst i"
  by (induction "is") (auto split: if_splits)

lemma leading_phis_dropWhile: "leading_phis k \<Longrightarrow> i \<in> set (dropWhile is_phi_inst (bk_insts k)) \<Longrightarrow> \<not> is_phi_inst i"
  unfolding leading_phis_def by (rule phis_first_dropWhile)

lemma moves_added_params:
  assumes "moves_added C g D ms h"
  shows "fn_params h = fn_params g"
proof -
  have "h = g\<lparr>fn_blk := (\<lambda>b. (fn_blk g b)\<lparr>bk_insts := bk_insts (fn_blk g b) @ ms b\<rparr>), fn_temps := fn_temps h\<rparr>"
    using assms by (simp only: moves_added_def)
  from arg_cong [OF this, of fn_params] show ?thesis by simp
qed

lemma splits_done_leading_phis:
  assumes "splits_done fn D g" "\<forall>b\<in>set (fn_blocks fn). leading_phis (fn_blk fn b)" "b \<in> set (fn_blocks g)"
  shows "leading_phis (fn_blk g b)"
proof (cases "b \<in> set (fn_blocks fn)")
  case True
  then show ?thesis using assms(1,2) by (simp add: splits_done_def leading_phis_def)
next
  case False
  then show ?thesis using assms(1,3) by (simp add: splits_done_def leading_phis_def)
qed

text \<open>What becomes of a function until the last renaming.\<close>

definition phis_gone :: "('v, 'w) machine \<Rightarrow> ir_func \<Rightarrow> ir_func \<Rightarrow> bool" where
  "phis_gone M fn h \<longleftrightarrow> grown fn h \<and> well_formed h \<and> phi_free h \<and> fn_params h = fn_params fn \<and>
     (\<forall>env w r. run_gives M h env w r \<longleftrightarrow> run_gives M fn env w r)"

lemma out_func:
  assumes ready: "destruct_ready (mc_const M) fn" and temps: "temps_ok fn" and mov: "moves_exact M"
    and arr: "enumerates arrange" and order: "\<And>cs. distinct cs \<Longrightarrow> set (order cs) = set cs \<and> distinct (order cs)"
    and fresh: "\<And>f. fresh f \<notin> set (fn_blocks f)"
  shows "\<exists>c h. replace_phi arrange order (snd (snd (split_edges arrange fresh n fn))) = Some (Inr (c, h)) \<and> phis_gone M fn h"
proof -
  obtain c n' g where g: "split_edges arrange fresh n fn = (c, n', g)" "split_ready (mc_const M) g"
      "splits_done fn (set (critical_edges arrange fn)) g" "same_interface fn g"
      "\<And>env w r. run_gives M g env w r \<longleftrightarrow> run_gives M fn env w r"
    using split_edges_spec [OF destruct_split_ready [OF ready temps] arr fresh] by metis
  have wf: "well_formed fn" "well_formed g" using ready g(2) by (simp_all add: destruct_ready_def split_ready_def cfg_ok_def)
  have "joins_clean g"
    unfolding joins_clean_def
  proof (intro ballI impI)
    fix b p assume b: "b \<in> set (fn_blocks g)" "starts_with_phi (fn_blk g b)" "p \<in> set (fn_blocks g)" "b \<in> set (exit_succs g p)"
    have "1 < length (cfg_pred fn b)" using ready splits_done_starts [OF g(3)] b(1,2) by (auto simp: destruct_ready_def)
    then show "set (exit_succs g p) = {b}" using splits_done_single [OF g(3) arr wf(1) b(2) _ b(3,4,1)] by blast
  qed
  then obtain h ms where h: "replace_phi arrange order g = Some (Inr (remove_phis h))"
      "moves_added (mc_const M) g (set (fn_blocks g)) ms h"
    using replace_phi_spec [OF g(2) _ arr order] by metis
  let ?h = "snd (remove_phis h)"
  note sel = moves_added_sel [OF h(2)] and blk = remove_phis_blk [OF h(2)]
  have temps_g: "temps_ok g" using temps g(4) by (simp add: temps_ok_def same_interface_def)
  have blocks: "fn_blocks ?h = fn_blocks g" using sel(2) by (simp add: remove_phis_def)
  have "run_func M ?h n env w = run_func M g n env w" for n env w
    using moved_run_func [OF g(2) \<open>joins_clean g\<close> temps_g mov h(2)] .
  then have run: "run_gives M ?h env w r \<longleftrightarrow> run_gives M fn env w r" for env w r using g(5) by (simp add: run_gives_def)
  have "exit_succs ?h b = exit_succs g b" if "b \<in> set (fn_blocks g)" for b
    using blk(2) [OF that] by (simp add: exit_succs_def block_targets_def)
  moreover have "cfg_defined ?h" using wf(2) blocks blk(2) by (simp add: cfg_defined_def list_all_iff)
  ultimately have wf_h: "well_formed ?h" using wf(2) blocks by simp
  have "phi_free ?h"
    unfolding phi_free_def blocks
  proof (intro ballI)
    fix b i assume b: "b \<in> set (fn_blocks g)" and i: "i \<in> set (bk_insts (fn_blk ?h b))"
    have "leading_phis (fn_blk g b)" using splits_done_leading_phis [OF g(3) _ b] ready by (simp add: destruct_ready_def)
    then show "\<not> is_phi_inst i"
      using i blk(1) [OF b] leading_phis_dropWhile sel(6) [of b] by (auto simp: all_moves_def)
  qed
  moreover have "grown fn ?h" using moves_grown [OF h(2)] g(4) by (simp add: grown_def same_interface_def)
  moreover have "fn_params ?h = fn_params fn"
    using moves_added_params [OF h(2)] g(4) by (simp add: remove_phis_def same_interface_def)
  ultimately have "phis_gone M fn ?h" using run wf_h by (simp add: phis_gone_def)
  then show ?thesis using h(1) g(1) by (intro exI [of _ "fst (remove_phis h)"] exI [of _ ?h]) simp
qed

section \<open>The whole program\<close>

lemma replace_phi_funcs_all:
  assumes "\<forall>fn\<in>set fns. \<exists>c h. replace_phi arrange order (s fn) = Some (Inr (c, h)) \<and> P fn h"
  shows "\<exists>c hs. replace_phi_funcs arrange order (map s fns) = Some (Inr (c, hs)) \<and> list_all2 P fns hs"
  using assms
proof (induction fns)
  case (Cons fn fns)
  then obtain c h cs hs where "replace_phi arrange order (s fn) = Some (Inr (c, h))" "P fn h"
      "replace_phi_funcs arrange order (map s fns) = Some (Inr (cs, hs))" "list_all2 P fns hs" by force
  then show ?case by (intro exI [of _ "c \<or> cs"] exI [of _ "h # hs"]) simp
qed (intro exI [of _ False] exI [of _ "[]"], simp)

lemma no_ssa_grown:
  assumes "no_ssa_defs p" "list_all2 (phis_gone M) (pr_funcs p) hs"
  shows "no_ssa_defs (p\<lparr>pr_funcs := hs\<rparr>)"
proof -
  have defs: "no_ssa_defs q \<longleftrightarrow> (\<forall>fn\<in>set (pr_funcs q). \<forall>l\<in>func_defs fn. \<not> is_ssa_value l)" for q
    by (auto simp: no_ssa_defs_def func_defs_def)
  have "\<not> is_ssa_value l" if h: "h \<in> set hs" "l \<in> func_defs h" for h l
  proof -
    obtain fn where "fn \<in> set (pr_funcs p)" "grown fn h"
      using assms(2) h(1) unfolding list_all2_conv_all_nth in_set_conv_nth phis_gone_def by metis
    then show ?thesis using assms(1) h(2) unfolding defs by (auto simp: grown_def temps_from_def)
  qed
  then show ?thesis by (simp add: defs)
qed

lemma run_gives_mapped:
  assumes "code_mapped f fn g" "renames f \<rho> (occurs fn)" "well_formed fn"
  shows "run_gives M g env w r \<longleftrightarrow> run_gives M fn (env \<circ> \<rho>) w r"
  by (simp add: run_gives_def run_code_mapped [OF assms])

definition computes_same :: "('v, 'w) machine \<Rightarrow> (lv_key \<Rightarrow> lv_key) \<Rightarrow> ir_func \<Rightarrow> ir_func \<Rightarrow> bool" where
  "computes_same M \<rho> fn g \<longleftrightarrow>
     fn_id g = fn_id fn \<and> fn_params g = fn_params fn \<and> phi_free g \<and>
     (\<forall>env w r. run_gives M g env w r \<longleftrightarrow> run_gives M fn (env \<circ> \<rho>) w r)"

definition split_prog ::
  "(block_id set \<Rightarrow> block_id list) \<Rightarrow> (ir_func \<Rightarrow> block_id) \<Rightarrow> (func_id \<Rightarrow> nat) \<Rightarrow> ir_program \<Rightarrow> ir_program" where
  "split_prog arrange fresh labels p =
     p\<lparr>pr_funcs := map (\<lambda>fn. snd (snd (split_edges arrange fresh (labels (fn_id fn)) fn))) (pr_funcs p)\<rparr>"

lemmas split_prog_funcs = split_prog_def

lemma split_funcs_all:
  "\<forall>fn\<in>set fns. cfg_defined fn \<Longrightarrow>
     split_funcs arrange fresh labels fns = Inr (map (\<lambda>fn. split_edges arrange fresh (labels (fn_id fn)) fn) fns)"
  by (induction fns) simp_all

lemma SplitCriticalEdge_prog:
  assumes "\<forall>fn\<in>set (pr_funcs p). cfg_defined fn"
  shows "\<exists>c. SplitCriticalEdge arrange fresh labels p = Inr (c, split_prog arrange fresh labels p)"
  by (simp add: SplitCriticalEdge_def split_funcs_all [OF assms] split_prog_def comp_def)

lemma ReplacePhi_spec:
  assumes typed: "typed_prog p" "no_ssa_defs p" and ready: "\<forall>fn\<in>set (pr_funcs p). destruct_ready (mc_const M) fn"
    and mov: "moves_exact M" and arr: "enumerates arrange"
    and order: "\<And>cs. distinct cs \<Longrightarrow> set (order cs) = set cs \<and> distinct (order cs)"
    and vars: "\<And>vs. set (arrange_vars vs) = set vs" and fresh: "\<And>f. fresh f \<notin> set (fn_blocks f)"
    and alloc: "\<And>p. K_named (Def_alloc (fresh_alloc p)) \<notin> key_of ` prog_occurs p"
  obtains c hs p' where "ReplacePhi arrange order arrange_vars fresh_alloc (split_prog arrange fresh labels p) = Some (Inr (c, p'))"
    "list_all2 (phis_gone M) (pr_funcs p) hs" "renaming_step (p\<lparr>pr_funcs := hs\<rparr>) p'"
proof -
  have "\<exists>c h. replace_phi arrange order (snd (snd (split_edges arrange fresh (labels (fn_id fn)) fn))) = Some (Inr (c, h)) \<and> phis_gone M fn h"
    if "fn \<in> set (pr_funcs p)" for fn
    by (rule out_func [OF _ _ mov arr order fresh]) (use that ready typed(1) in \<open>simp_all add: typed_prog_def\<close>)
  then obtain c hs where hs: "replace_phi_funcs arrange order (pr_funcs (split_prog arrange fresh labels p)) = Some (Inr (c, hs))"
      "list_all2 (phis_gone M) (pr_funcs p) hs"
    using replace_phi_funcs_all [of "pr_funcs p" arrange order "\<lambda>fn. snd (snd (split_edges arrange fresh (labels (fn_id fn)) fn))" "phis_gone M"]
    by (auto simp: split_prog_funcs)
  let ?q = "p\<lparr>pr_funcs := hs\<rparr>"
  have "list_all2 grown (pr_funcs p) hs" using hs(2) by (rule list_all2_mono) (simp add: phis_gone_def)
  then have "typed_prog ?q" by (rule typed_prog_grown [OF typed(1)])
  then obtain p' where p': "legalize arrange_vars fresh_alloc ?q = Inr p'" "renaming_step ?q p'"
    using legalize_spec [OF _ no_ssa_grown [OF typed(2) hs(2)] vars alloc] by metis
  have "renaming_step ?q (p'\<lparr>pr_is_ssa := False\<rparr>)"
    using p'(2) by (simp add: renaming_step_def typed_prog_def prog_occurs_def)
  moreover have "ReplacePhi arrange order arrange_vars fresh_alloc (split_prog arrange fresh labels p) =
      Some (Inr (c, p'\<lparr>pr_is_ssa := False\<rparr>))"
    unfolding ReplacePhi_def hs(1) using p'(1) by (simp add: split_prog_funcs)
  ultimately show ?thesis using that hs(2) by blast
qed

lemma phis_gone_renamed:
  assumes h: "phis_gone M fn1 h" and m1: "code_mapped f1 fn fn1" "renames f1 \<rho>1 (occurs fn)"
    and m2: "code_mapped f2 h g" "renames f2 \<rho>2 (occurs h)" and wf: "well_formed fn"
  shows "computes_same M (\<rho>2 \<circ> \<rho>1) fn g"
proof -
  have id: "fn_id h = fn_id fn1" "fn_params h = fn_params fn1" "well_formed h" "phi_free h"
    using h by (simp_all add: phis_gone_def grown_def)
  have "run_gives M g env w r \<longleftrightarrow> run_gives M fn (env \<circ> (\<rho>2 \<circ> \<rho>1)) w r" for env w r
  proof -
    have "run_gives M g env w r \<longleftrightarrow> run_gives M h (env \<circ> \<rho>2) w r" by (rule run_gives_mapped [OF m2 id(3)])
    also have "\<dots> \<longleftrightarrow> run_gives M fn1 (env \<circ> \<rho>2) w r" using h by (simp add: phis_gone_def)
    also have "\<dots> \<longleftrightarrow> run_gives M fn (env \<circ> \<rho>2 \<circ> \<rho>1) w r" by (rule run_gives_mapped [OF m1 wf])
    finally show ?thesis by (simp only: comp_assoc)
  qed
  then show ?thesis
    using id code_mapped_sel(1,3) [OF m1(1)] code_mapped_sel(1,3) [OF m2(1)] phi_free_mapped [OF m2(1)]
    by (simp add: computes_same_def)
qed

lemma prog_mapped_occurs: "prog_mapped f p q \<Longrightarrow> renames f \<rho> (prog_occurs p) \<Longrightarrow> fn \<in> set (pr_funcs p) \<Longrightarrow> renames f \<rho> (occurs fn)"
  by (rule renames_subset) (auto intro: prog_occursI)

lemma destruct_all:
  assumes typed: "typed_prog p" and ready: "\<forall>fn\<in>set (pr_funcs p). destruct_ready (mc_const M) fn"
    and mov: "moves_exact M" and arr: "enumerates arrange"
    and order: "\<And>cs. distinct cs \<Longrightarrow> set (order cs) = set cs \<and> distinct (order cs)"
    and vars: "\<And>vs. set (arrange_vars vs) = set vs" and fresh: "\<And>f. fresh f \<notin> set (fn_blocks f)"
    and alloc: "\<And>p. K_named (Def_alloc (fresh_alloc p)) \<notin> key_of ` prog_occurs p"
  shows "\<exists>c p' \<rho>. DestructSSA arrange order arrange_vars fresh labels fresh_alloc p = Some (Inr (c, p')) \<and>
    (\<forall>d. \<rho> (K_named d) = K_named d) \<and> list_all2 (computes_same M \<rho>) (pr_funcs p) (pr_funcs p')"
proof -
  obtain c q f \<rho>1 where q: "SSAValue2TempValue p = (c, q)" "prog_mapped f p q" "renames f \<rho>1 (prog_occurs p)"
      "\<And>d. \<rho>1 (K_named d) = K_named d" "typed_prog q" "no_ssa_defs q"
    using SSAValue2TempValue_spec [OF typed] by metis
  have ren: "renames f \<rho>1 (occurs fn)" if "fn \<in> set (pr_funcs p)" for fn using prog_mapped_occurs [OF q(2,3) that] .
  have readyq: "\<forall>fn\<in>set (pr_funcs q). destruct_ready (mc_const M) fn"
  proof
    fix g assume "g \<in> set (pr_funcs q)"
    then obtain fn where "fn \<in> set (pr_funcs p)" "code_mapped f fn g"
      using q(2) by (metis in_set_conv_nth list_all2_conv_all_nth)
    then show "destruct_ready (mc_const M) g" using destruct_ready_mapped ren ready by blast
  qed
  obtain c4 hs p4 where p4: "ReplacePhi arrange order arrange_vars fresh_alloc (split_prog arrange fresh labels q) = Some (Inr (c4, p4))"
      "list_all2 (phis_gone M) (pr_funcs q) hs" "renaming_step (q\<lparr>pr_funcs := hs\<rparr>) p4"
    using ReplacePhi_spec [OF q(5,6) readyq mov arr order vars fresh alloc] by metis
  have "typed_prog p4" using p4(3) by (simp add: renaming_step_def)
  then obtain c5 p5 where p5: "DeadTempElimination p4 = (c5, p5)" "renaming_step p4 p5" using DeadTempElimination_spec by metis
  obtain f2 \<rho>2 where f2: "prog_mapped f2 (q\<lparr>pr_funcs := hs\<rparr>) p5" "renames f2 \<rho>2 (prog_occurs (q\<lparr>pr_funcs := hs\<rparr>))"
      "\<And>d. \<rho>2 (K_named d) = K_named d"
    using renaming_step_trans [OF p4(3) p5(2)] by (auto simp: renaming_step_def)
  have len: "length (pr_funcs q) = length (pr_funcs p)" "length hs = length (pr_funcs p)" "length (pr_funcs p5) = length (pr_funcs p)"
    using list_all2_lengthD [OF q(2)] list_all2_lengthD [OF p4(2)] list_all2_lengthD [OF f2(1)] by simp_all
  have "computes_same M (\<rho>2 \<circ> \<rho>1) (pr_funcs p ! k) (pr_funcs p5 ! k)" if k: "k < length (pr_funcs p)" for k
  proof (rule phis_gone_renamed)
    show "phis_gone M (pr_funcs q ! k) (hs ! k)" "code_mapped f (pr_funcs p ! k) (pr_funcs q ! k)"
        "code_mapped f2 (hs ! k) (pr_funcs p5 ! k)"
      using q(2) p4(2) f2(1) k len by (simp_all add: list_all2_conv_all_nth)
    show "renames f \<rho>1 (occurs (pr_funcs p ! k))" using ren k by simp
    show "renames f2 \<rho>2 (occurs (hs ! k))" using prog_mapped_occurs [OF f2(1,2)] k len by simp
    show "well_formed (pr_funcs p ! k)" using ready k by (simp add: destruct_ready_def cfg_ok_def)
  qed
  then have "list_all2 (computes_same M (\<rho>2 \<circ> \<rho>1)) (pr_funcs p) (pr_funcs p5)"
    using len by (simp add: list_all2_conv_all_nth)
  moreover obtain c3 where "SplitCriticalEdge arrange fresh labels q = Inr (c3, split_prog arrange fresh labels q)"
    using SplitCriticalEdge_prog [of q arrange fresh labels] readyq by (auto simp: destruct_ready_def cfg_ok_def)
  then have "\<exists>c. DestructSSA arrange order arrange_vars fresh labels fresh_alloc p = Some (Inr (c, p5))"
    using q(1) dead_blocks_same [OF readyq] p4(1) p5(1) by (simp add: DestructSSA_def split_def)
  ultimately show ?thesis using q(4) f2(3) by (metis comp_apply)
qed

text \<open>
  C5: the way out of SSA form keeps the behaviour of a program. On programs whose phi instructions
  lead their blocks and have an operand for every predecessor, the pass succeeds, leaves no phi
  instruction, and every function of the result ends with a result if and only if the original
  ends with it, from the same values of the named variables, on every machine whose moves are
  exact.
\<close>

theorem DestructSSA_runs:
  fixes M :: "('v, 'w) machine"
  assumes "typed_prog p" "\<forall>fn\<in>set (pr_funcs p). destruct_ready (mc_const M) fn" "moves_exact M"
    and "enumerates arrange" "\<And>cs. distinct cs \<Longrightarrow> set (order cs) = set cs \<and> distinct (order cs)"
    and "\<And>vs. set (arrange_vars vs) = set vs"
    and "\<And>f. fresh f \<notin> set (fn_blocks f)" "\<And>p. K_named (Def_alloc (fresh_alloc p)) \<notin> key_of ` prog_occurs p"
  shows "\<exists>c p' \<rho>. DestructSSA arrange order arrange_vars fresh labels fresh_alloc p = Some (Inr (c, p')) \<and>
    (\<forall>d. \<rho> (K_named d) = K_named d) \<and> list_all2 (computes_same M \<rho>) (pr_funcs p) (pr_funcs p')"
  by (rule destruct_all [OF assms])

section \<open>An instance\<close>

text \<open>
  A loop on one block whose phi is read after the loop: the edge back is critical, and the copy on it
  would be lost without the split.
\<close>

abbreviation lost_x1 :: left_value where "lost_x1 \<equiv> SSAValue (Prim Int32) 0 1"
abbreviation lost_x2 :: left_value where "lost_x2 \<equiv> SSAValue (Prim Int32) 0 2"

definition lost_fn :: ir_func where
  "lost_fn = \<lparr>fn_id = 0, fn_name = ''f'', fn_ret = Prim Int32, fn_params = [], fn_locals = [0], fn_blocks = [0, 1, 2],
     fn_blk = (\<lambda>b.
       if b = 0 then \<lparr>bk_label = ''a'', bk_insts = [], bk_exit = Some (JumpExit 1)\<rparr>
       else if b = 1 then \<lparr>bk_label = ''b'',
         bk_insts = [Phi (Some lost_x1) [(0, Const (mk_const (V_int 1))), (1, val.Left lost_x2)],
           Binary Op_ADD (Some lost_x2) (val.Left lost_x1) (Const (mk_const (V_int 1)))],
         bk_exit = Some (BranchExit (Const (mk_const (V_bool True))) (Some 1) (Some 2))\<rparr>
       else \<lparr>bk_label = ''c'', bk_insts = [], bk_exit = Some (ReturnExit (val.Left lost_x1))\<rparr>),
     fn_temps = [], fn_loops = []\<rparr>"

definition lost_prog :: ir_program where
  "lost_prog = \<lparr>pr_alloc = join_alloc, pr_globals = [], pr_funcs = [lost_fn], pr_builtins = [], pr_is_ssa = True\<rparr>"

definition next_block :: "ir_func \<Rightarrow> block_id" where
  "next_block fn = Suc (fold max (fn_blocks fn) 0)"

fun var_alloc :: "left_value \<Rightarrow> alloc_id" where
  "var_alloc (NamedValue t (Def_alloc a)) = a"
| "var_alloc l = 0"

definition listed_vars :: "ir_block \<Rightarrow> left_value list" where
  "listed_vars b = concat (map vars (bk_insts b)) @
     (case bk_exit b of None \<Rightarrow> [] | Some e \<Rightarrow> (case used_var_exit e of None \<Rightarrow> [] | Some l \<Rightarrow> [l]))"

definition next_alloc :: "ir_program \<Rightarrow> alloc_id" where
  "next_alloc p = Suc (fold max (map var_alloc (concat (map (\<lambda>fn. concat (map (\<lambda>b. listed_vars (fn_blk fn b)) (fn_blocks fn))) (pr_funcs p)))) 0)"

lemma fold_max_ge: "x \<in> set xs \<Longrightarrow> x \<le> fold max xs (n :: nat)" and fold_max_start: "n \<le> fold max xs (n :: nat)"
proof -
  show start: "n \<le> fold max xs n" for n :: nat and xs by (induction xs arbitrary: n) (auto intro: order_trans [OF max.cobounded2])
  show "x \<in> set xs \<Longrightarrow> x \<le> fold max xs n"
    by (induction xs arbitrary: n) (auto intro: order_trans [OF max.cobounded1 start])
qed

lemma next_block_new: "next_block f \<notin> set (fn_blocks f)"
  using fold_max_ge [of "next_block f" "fn_blocks f" 0] by (auto simp: next_block_def)

lemma next_alloc_new: "K_named (Def_alloc (next_alloc p)) \<notin> key_of ` prog_occurs p"
proof
  let ?as = "map var_alloc (concat (map (\<lambda>fn. concat (map (\<lambda>b. listed_vars (fn_blk fn b)) (fn_blocks fn))) (pr_funcs p)))"
  assume "K_named (Def_alloc (next_alloc p)) \<in> key_of ` prog_occurs p"
  then obtain l where l: "l \<in> prog_occurs p" "key_of l = K_named (Def_alloc (next_alloc p))" by (metis imageE)
  then have "var_alloc l = next_alloc p" by (cases l) auto
  moreover have "set (listed_vars b) = block_occurs b" for b
    by (cases "bk_exit b") (auto simp: listed_vars_def block_occurs_def split: option.splits)
  then have "var_alloc l \<in> set ?as" using l(1) by (auto simp: prog_occurs_def occurs_def)
  then have "var_alloc l \<le> fold max ?as 0" by (rule fold_max_ge)
  ultimately show False by (simp add: next_alloc_def)
qed

text \<open>Any machine whose moves are exact.\<close>

definition exact_machine :: "('v, 'w) machine \<Rightarrow> ('v, 'w) machine" where
  "exact_machine M = M\<lparr>mc_op := (\<lambda>op t xs w.
     case xs of [x] \<Rightarrow> if op = Do_unary Op_MOV then Inr (snd x, w) else mc_op M op t xs w | _ \<Rightarrow> mc_op M op t xs w)\<rparr>"

lemma exact_machine_moves: "moves_exact (exact_machine M)"
  by (simp add: moves_exact_def exact_machine_def)

lemma lost_cfg: "cfg_ok lost_fn"
proof -
  have "reachable lost_fn 0" using path_to.start [of lost_fn 0] by (auto simp: reachable_def entrance_def lost_fn_def)
  moreover from this have "reachable lost_fn 1" by (rule reachable_step) (simp add: cfg_succ_def exit_succs_def block_targets_def lost_fn_def)
  moreover from this have "reachable lost_fn 2" by (rule reachable_step) (simp add: cfg_succ_def exit_succs_def block_targets_def lost_fn_def)
  moreover have "fn_blocks lost_fn = [0, 1, 2]" by (simp add: lost_fn_def)
  moreover have "hasExit (fn_blk lost_fn b) \<and> set (exit_succs lost_fn b) \<subseteq> {0, 1, 2}" for b
    by (auto simp: lost_fn_def hasExit_def exit_succs_def block_targets_def)
  moreover have "cfg_defined lost_fn" by (simp add: cfg_defined_def lost_fn_def)
  ultimately show ?thesis by (simp add: cfg_ok_def)
qed

lemma lost_occurs: "occurs lost_fn = {lost_x1, lost_x2}"
  by (auto simp: occurs_def block_occurs_def lost_fn_def vars_def used_vars_def List.map_filter_simps used_var_exit_def)

lemma lost_typed: "typed_prog lost_prog"
  by (auto simp: typed_prog_def lost_prog_def temps_ok_def vars_agree_def lost_occurs)

lemma lost_phis: "p \<in> {0, 1, 2} \<Longrightarrow> b \<in> set (exit_succs lost_fn p) \<Longrightarrow> phis_ready C lost_fn p b"
  by (auto simp: phis_ready_def lost_fn_def exit_succs_def block_targets_def keys_exact_def split: if_splits)

lemma lost_ready: "destruct_ready C lost_fn"
proof -
  have blocks: "fn_blocks lost_fn = [0, 1, 2]" by (simp add: lost_fn_def)
  have "sources_ok lost_fn" "clean_branches lost_fn"
    by (simp_all add: sources_ok_def clean_branches_def lost_fn_def)
  moreover have "1 < length (cfg_pred lost_fn 1)" by (simp add: cfg_pred_def exit_succs_def block_targets_def lost_fn_def)
  moreover have "starts_with_phi (fn_blk lost_fn b) \<longleftrightarrow> b = 1" "leading_phis (fn_blk lost_fn b)" for b
    by (simp_all add: starts_with_phi_def leading_phis_def lost_fn_def)
  moreover have "\<forall>p\<in>{0, 1, 2}. \<forall>b\<in>set (exit_succs lost_fn p). phis_ready C lost_fn p b" using lost_phis by blast
  ultimately show ?thesis using lost_cfg blocks by (simp add: destruct_ready_def)
qed

theorem DestructSSA_runs_witness:
  "\<forall>M :: (nat, unit) machine. \<exists>c p' \<rho>.
    DestructSSA sorted_list_of_set (\<lambda>cs. cs) (\<lambda>vs. vs) next_block (\<lambda>f. 0) next_alloc lost_prog = Some (Inr (c, p')) \<and>
    (\<forall>d. \<rho> (K_named d) = K_named d) \<and> list_all2 (computes_same (exact_machine M) \<rho>) [lost_fn] (pr_funcs p')"
proof
  fix M :: "(nat, unit) machine"
  show "\<exists>c p' \<rho>.
    DestructSSA sorted_list_of_set (\<lambda>cs. cs) (\<lambda>vs. vs) next_block (\<lambda>f. 0) next_alloc lost_prog = Some (Inr (c, p')) \<and>
    (\<forall>d. \<rho> (K_named d) = K_named d) \<and> list_all2 (computes_same (exact_machine M) \<rho>) [lost_fn] (pr_funcs p')"
    using DestructSSA_runs [of lost_prog "exact_machine M" sorted_list_of_set "\<lambda>cs. cs" "\<lambda>vs. vs" next_block next_alloc "\<lambda>f. 0"]
      lost_typed lost_ready [of "mc_const (exact_machine M)"] exact_machine_moves [of M] sorted_enumerates
      next_block_new next_alloc_new
    by (simp add: lost_prog_def)
qed

end
