(* ===== verification/Ir_Lower_Sound.thy ===== *)
theory Ir_Lower_Sound
  imports Ir_Lower Ssa_Out
begin

text \<open>
  The lowering passes on the machine of \<open>Ssa_Run\<close>: keeping variables in memory does not change what a
  function computes (\<open>spill_allocs\<close>); temporaries for globals do not, as long as no global is assigned in the
  block where it is used, and do otherwise.
\<close>

section \<open>Functions in lock step\<close>

text \<open>Blocks that agree up to a relation between states make functions that agree.\<close>

definition blocks_agree ::
  "('v, 'w) machine \<Rightarrow> ('v vars_env \<times> 'w \<Rightarrow> 'v vars_env \<times> 'w \<Rightarrow> bool) \<Rightarrow> ir_func \<Rightarrow> ir_func \<Rightarrow> bool" where
  "blocks_agree M R fn g \<longleftrightarrow> fn_blocks g = fn_blocks fn \<and>
     (\<forall>b\<in>set (fn_blocks fn). \<forall>prev s s'. R s s' \<longrightarrow>
        agree_res (\<lambda>x y. fst y = fst x \<and> R (snd x) (snd y)) (run_block M fn prev b s) (run_block M g prev b s'))"

lemma agree_run_from:
  assumes agree: "blocks_agree M R fn g" and wf: "well_formed fn"
  shows "b \<in> set (fn_blocks fn) \<Longrightarrow> R s s' \<Longrightarrow>
    agree_res (\<lambda>x y. fst y = fst x \<and> (\<exists>env env'. R (env, snd x) (env', snd y))) (run_from M fn n prev b s) (run_from M g n prev b s')"
proof (induction n arbitrary: prev b s s')
  case (Suc n)
  have step: "agree_res (\<lambda>x y. fst y = fst x \<and> R (snd x) (snd y)) (run_block M fn prev b s) (run_block M g prev b s')"
    using agree Suc.prems unfolding blocks_agree_def by blast
  show ?case
  proof (cases "run_block M fn prev b s")
    case (Inl e)
    then show ?thesis using step by (auto simp: rel_sum.simps)
  next
    case (Inr x)
    obtain nx v s1 where x: "x = ((nx, v), s1)" by (metis prod.collapse)
    then obtain s2 where y: "run_block M g prev b s' = Inr ((nx, v), s2)" "R s1 s2"
      using step Inr by (auto simp: rel_sum.simps)
    show ?thesis
    proof (cases nx)
      case None
      moreover have "\<exists>env env'. R (env, snd s1) (env', snd s2)" using y(2) by (metis prod.collapse)
      ultimately show ?thesis using Inr x y(1) by simp
    next
      case (Some c)
      then have "c \<in> set (fn_blocks fn)" using Inr x run_block_next wf Suc.prems(1) by fastforce
      then show ?thesis using Suc.IH [OF _ y(2)] Inr x y(1) Some by simp
    qed
  qed
qed simp

lemma agree_run_func:
  assumes "blocks_agree M R fn g" "well_formed fn" "R (env, w) (env', w')"
  shows "agree_res (\<lambda>x y. fst y = fst x \<and> (\<exists>env env'. R (env, snd x) (env', snd y))) (run_func M fn n env w) (run_func M g n env' w')"
proof -
  have "entrance g = entrance fn" using assms(1) by (simp add: blocks_agree_def entrance_def)
  then show ?thesis
    using agree_run_from [OF assms(1,2), of "hd (fn_blocks fn)" "(env, w)" "(env', w')" n None] assms(2,3)
    by (simp add: run_func_def entrance_hd)
qed

lemma rfold_one: "rfold f [x] = f x"
proof -
  have "rfold f [] = Inr" by (rule ext) simp
  then show ?thesis by (intro ext) (simp only: rfold.simps rbind_Inr)
qed

text \<open>Blocks without phi instructions.\<close>

definition run_body :: "('v, 'w) machine \<Rightarrow> ir_block \<Rightarrow> 'v vars_env \<times> 'w \<Rightarrow> ((block_id option \<times> 'v option) \<times> 'v vars_env \<times> 'w) result" where
  "run_body M k s =
     rbind (rfold (run_inst M) (bk_insts k) s) (\<lambda>s1.
     rbind (get_exit k) (\<lambda>e. rbind (run_exit M (fst s1) e) (\<lambda>nx. Inr (nx, s1))))"

lemma phi_free_block:
  assumes "\<forall>i\<in>set (bk_insts (fn_blk fn b)). \<not> is_phi_inst i"
  shows "run_block M fn prev b s = run_body M (fn_blk fn b) s"
proof -
  have "read_phis M prev (fst s) (bk_insts (fn_blk fn b)) = Inr ([], bk_insts (fn_blk fn b))"
    using assms by (cases "bk_insts (fn_blk fn b)"; cases "hd (bk_insts (fn_blk fn b))") auto
  then show ?thesis by (simp add: run_block_def run_body_def)
qed

section \<open>Variables in memory\<close>

text \<open>
  The cells of the variables \<open>S\<close> on a machine: \<open>adr\<close> gives their addresses, \<open>get\<close> reads them. Loads and
  stores at these addresses act on the cells; every other operation neither sees them nor makes an
  address of one, so its result does not depend on them (\<open>sim\<close>).
\<close>

definition cells_exact ::
  "('v, 'w) machine \<Rightarrow> lv_key set \<Rightarrow> (lv_key \<Rightarrow> 'v) \<Rightarrow> ('w \<Rightarrow> lv_key \<Rightarrow> 'v) \<Rightarrow> ('w \<Rightarrow> 'w \<Rightarrow> bool) \<Rightarrow> bool" where
  "cells_exact M S adr get sim \<longleftrightarrow>
     (\<forall>c. mc_const M c \<notin> adr ` S) \<and>
     (\<forall>op t xs w w'. sim w w' \<longrightarrow> snd ` set xs \<inter> adr ` S = {} \<longrightarrow>
        agree_res (\<lambda>x y. fst y = fst x \<and> fst x \<notin> adr ` S \<and> sim (snd x) (snd y) \<and> (\<forall>k\<in>S. get (snd y) k = get w' k))
          (mc_op M op t xs w) (mc_op M op t xs w')) \<and>
     (\<forall>k\<in>S. \<forall>t u w. mc_op M (Do_unary Op_LOAD) t [(u, adr k)] w = Inr (get w k, w)) \<and>
     (\<forall>k\<in>S. \<forall>t u v w w'. sim w w' \<longrightarrow>
        (\<exists>x w1. mc_op M (Do_binary Op_STORE) None [(t, adr k), (u, v)] w' = Inr (x, w1) \<and> sim w w1 \<and>
           (\<forall>j\<in>S. get w1 j = (if j = k then v else get w' j))))"

text \<open>
  The state of the original and of the code with the cells. \<open>f\<close> and \<open>n\<close> tell which temporaries are new.
\<close>

definition in_cells ::
  "lv_key set \<Rightarrow> (lv_key \<Rightarrow> 'v) \<Rightarrow> ('w \<Rightarrow> lv_key \<Rightarrow> 'v) \<Rightarrow> ('w \<Rightarrow> 'w \<Rightarrow> bool) \<Rightarrow> func_id \<Rightarrow> nat \<Rightarrow>
     'v vars_env \<times> 'w \<Rightarrow> 'v vars_env \<times> 'w \<Rightarrow> bool" where
  "in_cells S adr get sim f n s s' \<longleftrightarrow>
     sim (snd s) (snd s') \<and> (\<forall>k. fst s k \<notin> adr ` S) \<and>
     (\<forall>k. k \<notin> S \<longrightarrow> \<not> new_temp f n k \<longrightarrow> fst s' k = fst s k) \<and>
     (\<forall>k\<in>S. fst s' k = adr k \<and> get (snd s') k = fst s k)"

text \<open>Occurrences of the variables \<open>S\<close> before and after they become references.\<close>

definition ref_var :: "(lv_key \<Rightarrow> ty) \<Rightarrow> (lv_key \<Rightarrow> bool) \<Rightarrow> lv_key set \<Rightarrow> left_value \<Rightarrow> left_value" where
  "ref_var ty_of ro S l =
     (case l of NamedValue t d \<Rightarrow> if K_named d \<in> S then NamedValue (Reference (ty_of (K_named d)) (ro (K_named d)) False) d else l
      | _ \<Rightarrow> l)"

definition spill_vars :: "(lv_key \<Rightarrow> ty) \<Rightarrow> lv_key set \<Rightarrow> func_id \<Rightarrow> nat \<Rightarrow> left_value set \<Rightarrow> bool" where
  "spill_vars ty_of S f n V \<longleftrightarrow>
     S \<subseteq> range K_named \<and> (\<forall>l\<in>V. \<not> new_temp f n (key_of l) \<and> (key_of l \<in> S \<longrightarrow> type_of_lv l = ty_of (key_of l)))"

lemma ref_var_key [simp]: "key_of (ref_var ty_of ro S l) = key_of l"
  by (simp add: ref_var_def split: left_value.split)

lemma ref_var_in: "S \<subseteq> range K_named \<Longrightarrow> key_of l \<in> S \<Longrightarrow> type_of_lv (ref_var ty_of ro S l) = Reference (ty_of (key_of l)) (ro (key_of l)) False"
  by (cases l) (auto simp: ref_var_def)

lemma ref_var_out: "key_of l \<notin> S \<Longrightarrow> ref_var ty_of ro S l = l"
  by (cases l) (auto simp: ref_var_def)

text \<open>Running the loads for the operands.\<close>

definition cache_ok ::
  "(lv_key \<Rightarrow> ty) \<Rightarrow> lv_key set \<Rightarrow> func_id \<Rightarrow> nat \<Rightarrow> load_cache \<Rightarrow> 'v vars_env \<Rightarrow> 'v vars_env \<Rightarrow> ir_func \<Rightarrow> bool" where
  "cache_ok ty_of S f n L env env' fn \<longleftrightarrow>
     fn_id fn = f \<and> n \<le> length (fn_temps fn) \<and>
     (\<forall>k t. (k, t) \<in> set L \<longrightarrow> (\<exists>j. t = TempValue (ty_of k) j f \<and> n \<le> j \<and> j < length (fn_temps fn)) \<and> env' (key_of t) = env k)"

definition loaded ::
  "('v, 'w) machine \<Rightarrow> (lv_key \<Rightarrow> ty) \<Rightarrow> lv_key set \<Rightarrow> func_id \<Rightarrow> nat \<Rightarrow> 'v vars_env \<Rightarrow> 'w \<Rightarrow> 'v vars_env \<Rightarrow>
     load_cache \<times> ir_func \<Rightarrow> inst list \<Rightarrow> load_cache \<times> ir_func \<Rightarrow> 'v vars_env \<Rightarrow> bool" where
  "loaded M ty_of S f n env w' env' st js st' env2 \<longleftrightarrow>
     rfold (run_inst M) js (env', w') = Inr (env2, w') \<and> cache_ok ty_of S f n (fst st') env env2 (snd st') \<and>
     (\<exists>extra. snd st' = (snd st)\<lparr>fn_temps := fn_temps (snd st) @ extra\<rparr>) \<and>
     (\<forall>k. \<not> new_temp f (length (fn_temps (snd st))) k \<longrightarrow> env2 k = env' k)"

definition operand_ok :: "('v, 'w) machine \<Rightarrow> func_id \<Rightarrow> 'v vars_env \<Rightarrow> 'v vars_env \<Rightarrow> ir_func \<Rightarrow> val \<Rightarrow> val \<Rightarrow> bool" where
  "operand_ok M f env env2 fn v u \<longleftrightarrow>
     val_of M env2 u = val_of M env v \<and> type_of u = type_of v \<and>
     (\<forall>l. u = val.Left l \<longrightarrow> \<not> new_temp f (length (fn_temps fn)) (key_of l))"

lemma cells_env:
  assumes "in_cells S adr get sim f n (env, w) (env', w')" "\<And>k. \<not> new_temp f n k \<Longrightarrow> env2 k = env' k" "S \<subseteq> range K_named"
  shows "in_cells S adr get sim f n (env, w) (env2, w')"
  using assms unfolding in_cells_def by auto

lemma load_val_spec:
  assumes cells: "cells_exact M S adr get sim" and rel: "in_cells S adr get sim f n (env, w) (env', w')"
    and vars: "spill_vars ty_of S f n V" and v: "\<And>l. v = val.Left l \<Longrightarrow> l \<in> V"
    and cache: "cache_ok ty_of S f n L env env' fn"
  shows "\<exists>u js st env2. load_val S b (map_val (ref_var ty_of ro S) v) (L, fn) = Inr (u, js, st) \<and>
    loaded M ty_of S f n env w' env' (L, fn) js st env2 \<and> operand_ok M f env env2 (snd st) v u"
proof -
  have named: "S \<subseteq> range K_named" using vars by (simp add: spill_vars_def)
  have same: "loaded M ty_of S f n env w' env' (L, fn) [] (L, fn) env'"
    using cache by (auto simp: loaded_def intro: exI [of _ "[]"])
  have len: "n \<le> length (fn_temps fn)" "fn_id fn = f" using cache by (simp_all add: cache_ok_def)
  show ?thesis
  proof (cases v)
    case (Const c)
    then show ?thesis using same by (auto simp: load_val_def operand_ok_def)
  next
    case (Left l)
    then have l: "\<not> new_temp f n (key_of l)" "key_of l \<in> S \<Longrightarrow> type_of_lv l = ty_of (key_of l)"
      using vars v by (auto simp: spill_vars_def)
    have old: "\<not> new_temp f (length (fn_temps fn)) (key_of l)" using l(1) len(1) by (meson order_trans)
    show ?thesis
    proof (cases "key_of l \<in> S")
      case False
      then have "env' (key_of l) = env (key_of l)" using rel l(1) by (auto simp: in_cells_def)
      then show ?thesis using same Left False old by (simp add: load_val_def ref_var_out operand_ok_def) blast
    next
      case True
      show ?thesis
      proof (cases "map_of L (key_of l)")
        case (Some t)
        then obtain j where "t = TempValue (ty_of (key_of l)) j f" "j < length (fn_temps fn)" "env' (key_of t) = env (key_of l)"
          using cache map_of_SomeD unfolding cache_ok_def by metis
        then show ?thesis using same Left True Some l(2) by (simp add: load_val_def operand_ok_def) blast
      next
        case None
        let ?t = "TempValue (ty_of (key_of l)) (length (fn_temps fn)) f" and ?l = "ref_var ty_of ro S l"
        let ?fn = "fn\<lparr>fn_temps := fn_temps fn @ [(ty_of (key_of l), b)]\<rparr>" and ?L = "(key_of l, TempValue (ty_of (key_of l)) (length (fn_temps fn)) f) # L"
        let ?env = "env'(K_temp f (length (fn_temps fn)) := env (key_of l))"
        have "load_val S b (map_val (ref_var ty_of ro S) v) (L, fn) = Inr (val.Left ?t, [Unary Op_LOAD (Some ?t) (val.Left ?l)], ?L, ?fn)"
          using Left True None len(2) by (simp add: load_val_def referenced_type_def ref_var_in [OF named] newTemp_def)
        moreover have "mc_op M (Do_unary Op_LOAD) (Some (ty_of (key_of l))) [(type_of_lv ?l, adr (key_of l))] w' = Inr (env (key_of l), w')"
          using cells rel True by (simp add: cells_exact_def in_cells_def)
        then have "rfold (run_inst M) [Unary Op_LOAD (Some ?t) (val.Left ?l)] (env', w') = Inr (?env, w')"
          using rel True by (simp add: run_inst_def in_cells_def put_result_def)
        moreover have "cache_ok ty_of S f n ?L env ?env ?fn"
          using cache unfolding cache_ok_def by fastforce
        ultimately show ?thesis using l(2) [OF True] Left
          by (intro exI [of _ "val.Left ?t"] exI [of _ "[Unary Op_LOAD (Some ?t) (val.Left ?l)]"] exI [of _ "(?L, ?fn)"] exI [of _ ?env])
            (auto simp: loaded_def operand_ok_def)
      qed
    qed
  qed
qed

lemma operand_ok_later:
  assumes "operand_ok M f env env2 fn v u" "\<And>k. \<not> new_temp f (length (fn_temps fn)) k \<Longrightarrow> env3 k = env2 k"
    and "fn' = fn\<lparr>fn_temps := fn_temps fn @ extra\<rparr>"
  shows "operand_ok M f env env3 fn' v u"
proof -
  have "val_of M env3 u = val_of M env2 u" using assms(1,2) by (cases u) (simp_all add: operand_ok_def)
  then show ?thesis using assms(1,3) unfolding operand_ok_def by (auto dest: add_leD1)
qed

lemma load_vals_spec:
  assumes cells: "cells_exact M S adr get sim" and vars: "spill_vars ty_of S f n V"
  shows "in_cells S adr get sim f n (env, w) (env', w') \<Longrightarrow> (\<And>l. val.Left l \<in> set vs \<Longrightarrow> l \<in> V) \<Longrightarrow>
    cache_ok ty_of S f n L env env' fn \<Longrightarrow>
    \<exists>us js st env2. load_vals S b (map (map_val (ref_var ty_of ro S)) vs) (L, fn) = Inr (us, js, st) \<and>
      loaded M ty_of S f n env w' env' (L, fn) js st env2 \<and> list_all2 (operand_ok M f env env2 (snd st)) vs us"
proof (induction vs arbitrary: L fn env')
  case Nil
  then show ?case by (auto simp: loaded_def intro!: exI [of _ "[]"])
next
  case (Cons v vs)
  have named: "S \<subseteq> range K_named" using vars by (simp add: spill_vars_def)
  obtain u js st env2 where u: "load_val S b (map_val (ref_var ty_of ro S) v) (L, fn) = Inr (u, js, st)"
      "loaded M ty_of S f n env w' env' (L, fn) js st env2" "operand_ok M f env env2 (snd st) v u"
    using load_val_spec [OF cells Cons.prems(1) vars _ Cons.prems(3), of v b ro] Cons.prems(2) by auto
  obtain extra where extra: "snd st = fn\<lparr>fn_temps := fn_temps fn @ extra\<rparr>" using u(2) by (auto simp: loaded_def)
  have n: "n \<le> length (fn_temps fn)" using Cons.prems(3) by (simp add: cache_ok_def)
  have "in_cells S adr get sim f n (env, w) (env2, w')"
  proof (rule cells_env [OF Cons.prems(1) _ named])
    fix k assume "\<not> new_temp f n k"
    then show "env2 k = env' k" using u(2) n unfolding loaded_def fst_conv snd_conv by (meson order_trans)
  qed
  moreover have "cache_ok ty_of S f n (fst st) env env2 (snd st)" using u(2) by (simp add: loaded_def)
  ultimately obtain us ks st' env3 where us: "load_vals S b (map (map_val (ref_var ty_of ro S)) vs) st = Inr (us, ks, st')"
      "loaded M ty_of S f n env w' env2 st ks st' env3" "list_all2 (operand_ok M f env env3 (snd st')) vs us"
    using Cons.IH [of env2 "fst st" "snd st"] Cons.prems(2) unfolding prod.collapse by (meson list.set_intros(2))
  obtain extra' where extra': "snd st' = (snd st)\<lparr>fn_temps := fn_temps (snd st) @ extra'\<rparr>" using us(2) by (auto simp: loaded_def)
  have "env3 k = env2 k" if "\<not> new_temp f (length (fn_temps (snd st))) k" for k
    using us(2) that by (simp add: loaded_def)
  then have "operand_ok M f env env3 (snd st') v u" using operand_ok_later [OF u(3) _ extra'] by blast
  moreover have "loaded M ty_of S f n env w' env' (L, fn) (js @ ks) st' env3"
  proof -
    have "env3 k = env' k" if "\<not> new_temp f (length (fn_temps fn)) k" for k
    proof -
      have "\<not> new_temp f (length (fn_temps (snd st))) k" using that extra by auto
      then show ?thesis using us(2) u(2) that by (simp add: loaded_def)
    qed
    moreover have "snd st' = fn\<lparr>fn_temps := fn_temps fn @ (extra @ extra')\<rparr>" using extra extra' by simp
    ultimately show ?thesis using u(2) us(2) unfolding loaded_def rfold_append fst_conv snd_conv rbind.simps by (metis rbind.simps(2))
  qed
  ultimately show ?case using u(1) us(1,3) by (intro exI [of _ "u # us"] exI [of _ "js @ ks"] exI [of _ st'] exI [of _ env3]) simp
qed

text \<open>The loads never fail, since the variables in memory are references.\<close>

lemma load_val_total:
  assumes "S \<subseteq> range K_named"
  shows "\<exists>u js L' extra. load_val S b (map_val (ref_var ty_of ro S) v) (L, fn) = Inr (u, js, L', fn\<lparr>fn_temps := fn_temps fn @ extra\<rparr>)"
proof -
  have same: "\<exists>extra. fn = fn\<lparr>fn_temps := fn_temps fn @ extra\<rparr>" by (rule exI [of _ "[]"]) simp
  show ?thesis
  proof (cases v)
    case (Left l)
    then show ?thesis
      using same by (cases "map_of L (key_of l)") (auto simp: load_val_def referenced_type_def ref_var_in [OF assms] newTemp_def)
  qed (use same in \<open>simp add: load_val_def\<close>)
qed

lemma load_vals_total:
  assumes "S \<subseteq> range K_named"
  shows "\<exists>us js L' extra. length us = length vs \<and>
    load_vals S b (map (map_val (ref_var ty_of ro S)) vs) (L, fn) = Inr (us, js, L', fn\<lparr>fn_temps := fn_temps fn @ extra\<rparr>)"
proof (induction vs arbitrary: L fn)
  case Nil
  then show ?case by (auto intro: exI [of _ "[]"])
next
  case (Cons v vs)
  obtain u js L' extra where u: "load_val S b (map_val (ref_var ty_of ro S) v) (L, fn) = Inr (u, js, L', fn\<lparr>fn_temps := fn_temps fn @ extra\<rparr>)"
    using load_val_total [OF assms, of b ty_of ro v L fn] by blast
  obtain us ks L'' extra' where us: "length us = length vs"
      "load_vals S b (map (map_val (ref_var ty_of ro S)) vs) (L', fn\<lparr>fn_temps := fn_temps fn @ extra\<rparr>) =
        Inr (us, ks, L'', fn\<lparr>fn_temps := (fn_temps fn @ extra) @ extra'\<rparr>)"
    using Cons.IH [of L' "fn\<lparr>fn_temps := fn_temps fn @ extra\<rparr>"] by auto
  then show ?case using u by (auto intro!: exI [of _ "u # us"])
qed

lemma replace_inst_total:
  assumes "S \<subseteq> range K_named"
  shows "\<exists>js extra. replace_inst S b (map_inst (ref_var ty_of ro S) i) fn = Inr (js, fn\<lparr>fn_temps := fn_temps fn @ extra\<rparr>)"
proof -
  obtain us js L' extra where us:
      "load_vals S b (map (map_val (ref_var ty_of ro S)) (used i)) ([], fn) = Inr (us, js, L', fn\<lparr>fn_temps := fn_temps fn @ extra\<rparr>)"
    using load_vals_total [OF assms, of "used i" b ty_of ro "[]" fn] by blast
  show ?thesis
  proof (cases "defined_var i")
    case None
    then show ?thesis using us by (auto simp: replace_inst_def Let_def)
  next
    case (Some d)
    then show ?thesis
      using us by (auto simp: replace_inst_def Let_def referenced_type_def ref_var_in [OF assms] newTemp_def)
  qed
qed

section \<open>Instructions on the cells\<close>

lemma set_result_sel [simp]:
  "defined_var (set_result l i) = Some l" "used (set_result l i) = used i" "operation_of (set_result l i) = operation_of i"
  by (cases i; simp)+

lemma with_operands_sel [simp]: "defined_var (with_operands vs i) = defined_var i" "operation_of (with_operands vs i) = operation_of i"
  by (cases i; simp)+

lemma operands_same:
  assumes "list_all2 (operand_ok M f env env2 fn) vs us"
  shows "map (\<lambda>x. (type_of x, val_of M env2 x)) us = map (\<lambda>x. (type_of x, val_of M env x)) vs"
  using assms by (induction rule: list_all2_induct) (auto simp: operand_ok_def)

lemma clean_operands:
  assumes "cells_exact M S adr get sim" "\<forall>k. env k \<notin> adr ` S"
  shows "snd ` set (map (\<lambda>x. (type_of x, val_of M env x)) vs) \<inter> adr ` S = {}"
proof -
  have "val_of M env v \<notin> adr ` S" for v
    using assms by (cases v) (simp_all add: cells_exact_def)
  then have "val_of M env ` set vs \<inter> adr ` S = {}" by blast
  then show ?thesis by (simp add: image_image)
qed

lemma in_cells_put:
  assumes "in_cells S adr get sim f n (env, w) (env', w')" "v \<notin> adr ` S" "sim w1 w1'" "\<forall>k\<in>S. get w1' k = get w' k" "k \<notin> S"
  shows "in_cells S adr get sim f n (env(k := v), w1) (env'(k := v), w1')"
  using assms unfolding in_cells_def by (simp add: all_conj_distrib)

lemma in_cells_keep:
  assumes "in_cells S adr get sim f n (env, w) (env', w')" "sim w1 w1'" "\<forall>k\<in>S. get w1' k = get w' k"
  shows "in_cells S adr get sim f n (env, w1) (env', w1')"
  using assms unfolding in_cells_def by auto

lemma in_cells_store:
  assumes "in_cells S adr get sim f n (env, w) (env', w')" "v \<notin> adr ` S" "sim w1 w2" "\<forall>k\<in>S. get w1' k = get w' k"
    and "\<forall>j\<in>S. get w2 j = (if j = k then v else get w1' j)" "k \<in> S" "S \<subseteq> range K_named" "n \<le> j"
  shows "in_cells S adr get sim f n (env(k := v), w1) (env'(K_temp f j := v), w2)"
proof -
  have "K_temp f j \<notin> S" using assms(7) by auto
  then show ?thesis using assms unfolding in_cells_def by (auto simp del: image_iff)
qed

lemma replace_inst_run:
  assumes cells: "cells_exact M S adr get sim" and rel: "in_cells S adr get sim f n s s'"
    and vars: "spill_vars ty_of S f n V" "set (vars i) \<subseteq> V" and fn: "fn_id fn = f" "n \<le> length (fn_temps fn)"
    and run: "replace_inst S b (map_inst (ref_var ty_of ro S) i) fn = Inr (js, fn')"
  shows "agree_res (in_cells S adr get sim f n) (run_inst M i s) (rfold (run_inst M) js s')"
proof -
  obtain env w env' w' where s: "s = (env, w)" "s' = (env', w')" by (metis prod.collapse)
  have named: "S \<subseteq> range K_named" using vars by (simp add: spill_vars_def)
  have "cache_ok ty_of S f n [] env env' fn" using fn by (simp add: cache_ok_def)
  then obtain us ks st env2 where us: "load_vals S b (map (map_val (ref_var ty_of ro S)) (used i)) ([], fn) = Inr (us, ks, st)"
      "loaded M ty_of S f n env w' env' ([], fn) ks st env2" "list_all2 (operand_ok M f env env2 (snd st)) (used i) us"
    using load_vals_spec [OF cells vars(1), of env w env' w' "used i" "[]" fn b ro] rel vars(2) used_vars_left unfolding s by blast
  have loads: "rfold (run_inst M) ks (env', w') = Inr (env2, w')" using us(2) by (simp add: loaded_def)
  have rel2: "in_cells S adr get sim f n (env, w) (env2, w')"
  proof (rule cells_env [OF rel [unfolded s] _ named])
    fix k assume "\<not> new_temp f n k"
    then show "env2 k = env' k" using us(2) fn(2) unfolding loaded_def fst_conv snd_conv by (meson order_trans)
  qed
  let ?i = "with_operands us (map_inst (ref_var ty_of ro S) i)"
  let ?ops = "map (\<lambda>x. (type_of x, val_of M env x)) (used i)"
  have len: "length us = length (used (map_inst (ref_var ty_of ro S) i))" using us(3) by (simp add: list_all2_lengthD)
  have ops: "map (\<lambda>x. (type_of x, val_of M env2 x)) (used ?i) = ?ops"
    using operands_same [OF us(3)] by (simp add: used_with [OF len])
  have clean: "\<forall>k. env k \<notin> adr ` S" and sim: "sim w w'" using rel by (simp_all add: in_cells_def s)
  have step: "agree_res (\<lambda>x y. fst y = fst x \<and> fst x \<notin> adr ` S \<and> sim (snd x) (snd y) \<and> (\<forall>k\<in>S. get (snd y) k = get w' k))
      (mc_op M op t ?ops w) (mc_op M op t ?ops w')" for op t
    using cells sim clean_operands [OF cells clean, of "used i"] unfolding cells_exact_def by blast
  have temps: "fn_id (snd st) = f" "n \<le> length (fn_temps (snd st))" using us(2) by (auto simp: loaded_def cache_ok_def)
  show ?thesis
  proof (cases "defined_var i")
    case None
    then have "js = ks @ [?i]" using run us(1) by (simp add: replace_inst_def Let_def split_def)
    then have js: "rfold (run_inst M) js s' = run_inst M ?i (env2, w')" using loads by (simp add: s rfold_append rfold_one)
    show ?thesis
    proof (cases "operation_of i")
      case (Some op)
      then show ?thesis
        unfolding js using None s ops by (auto simp: run_inst_def put_result_def intro!: agree_bind [OF step] in_cells_keep [OF rel2])
    qed (simp add: js run_inst_def)
  next
    case (Some d)
    note d = this
    show ?thesis
    proof (cases "key_of d \<in> S")
      case False
      then have "js = ks @ [?i]" using run us(1) d by (simp add: replace_inst_def Let_def split_def)
      then have js: "rfold (run_inst M) js s' = run_inst M ?i (env2, w')" using loads by (simp add: s rfold_append rfold_one)
      show ?thesis
      proof (cases "operation_of i")
        case (Some op)
        then show ?thesis
          unfolding js using d s ops False
          by (auto simp: run_inst_def put_result_def ref_var_out intro!: agree_bind [OF step] in_cells_put [OF rel2])
      qed (simp add: js run_inst_def)
    next
      case True
      let ?t = "TempValue (ty_of (key_of d)) (length (fn_temps (snd st))) f" and ?r = "ref_var ty_of ro S d"
      have js: "js = ks @ [set_result ?t ?i, Binary Op_STORE None (val.Left ?r) (val.Left ?t)]"
        using run us(1) d True temps(1) ref_var_in [OF named True, of ty_of ro]
        by (auto simp: replace_inst_def Let_def split_def referenced_type_def newTemp_def)
      have ty: "type_of_lv d = ty_of (key_of d)" using vars d True defined_var_vars [OF d] by (auto simp: spill_vars_def)
      show ?thesis
      proof (cases "operation_of i")
        case (Some op)
        have "agree_res (in_cells S adr get sim f n)
            (rbind (mc_op M op (Some (ty_of (key_of d))) ?ops w) (\<lambda>(v, w). Inr (env(key_of d := v), w)))
            (rbind (rbind (mc_op M op (Some (ty_of (key_of d))) ?ops w') (\<lambda>(v, w). Inr (env2(K_temp f (length (fn_temps (snd st))) := v), w)))
              (run_inst M (Binary Op_STORE None (val.Left ?r) (val.Left ?t))))"
        proof (unfold rbind_assoc, rule agree_bind [OF step], clarsimp)
          fix v w1 w1' assume v: "v \<notin> adr ` S" "sim w1 w1'" "\<forall>k\<in>S. get w1' k = get w' k"
          let ?env = "env2(K_temp f (length (fn_temps (snd st))) := v)"
          obtain x w2 where w2: "mc_op M (Do_binary Op_STORE) None [(type_of_lv ?r, adr (key_of d)), (ty_of (key_of d), v)] w1' = Inr (x, w2)"
              "sim w1 w2" "\<forall>j\<in>S. get w2 j = (if j = key_of d then v else get w1' j)"
            using cells v(2) True unfolding cells_exact_def by blast
          have "?env (key_of d) = adr (key_of d)" using rel2 True named by (auto simp: in_cells_def)
          then have "run_inst M (Binary Op_STORE None (val.Left ?r) (val.Left ?t)) (?env, w1') = Inr (?env, w2)"
            using w2(1) by (simp add: run_inst_def put_result_def)
          then show "agree_res (in_cells S adr get sim f n) (Inr (env(key_of d := v), w1))
              (run_inst M (Binary Op_STORE None (val.Left ?r) (val.Left ?t)) (?env, w1'))"
            using in_cells_store [OF rel2 v(1) w2(2) v(3) w2(3) True named temps(2)] by simp
        qed
        then show ?thesis
          using d s ops Some ty loads by (simp add: js run_inst_def [of M i] run_inst_def [of M "set_result ?t ?i"] rfold_append put_result_def rfold_one)
      qed (simp add: js s rfold_append loads run_inst_def)
    qed
  qed
qed

section \<open>Blocks and functions on the cells\<close>

lemma replace_insts_total:
  assumes "S \<subseteq> range K_named"
  shows "\<exists>js extra. replace_insts S b (map (map_inst (ref_var ty_of ro S)) is) fn = Inr (js, fn\<lparr>fn_temps := fn_temps fn @ extra\<rparr>)"
proof (induction "is" arbitrary: fn)
  case Nil
  then show ?case by (auto intro!: exI [of _ "[]"])
next
  case (Cons i "is")
  obtain js extra where js: "replace_inst S b (map_inst (ref_var ty_of ro S) i) fn = Inr (js, fn\<lparr>fn_temps := fn_temps fn @ extra\<rparr>)"
    using replace_inst_total [OF assms] by blast
  obtain ks extra' where "replace_insts S b (map (map_inst (ref_var ty_of ro S)) is) (fn\<lparr>fn_temps := fn_temps fn @ extra\<rparr>) =
      Inr (ks, fn\<lparr>fn_temps := (fn_temps fn @ extra) @ extra'\<rparr>)"
    using Cons.IH [of "fn\<lparr>fn_temps := fn_temps fn @ extra\<rparr>"] by auto
  then show ?case using js by auto
qed

lemma replace_insts_run:
  assumes cells: "cells_exact M S adr get sim" and vars: "spill_vars ty_of S f n V"
  shows "in_cells S adr get sim f n s s' \<Longrightarrow> (\<forall>i\<in>set is. set (vars i) \<subseteq> V) \<Longrightarrow> fn_id fn = f \<Longrightarrow> n \<le> length (fn_temps fn) \<Longrightarrow>
    replace_insts S b (map (map_inst (ref_var ty_of ro S)) is) fn = Inr (js, fn') \<Longrightarrow>
    agree_res (in_cells S adr get sim f n) (rfold (run_inst M) is s) (rfold (run_inst M) js s')"
proof (induction "is" arbitrary: fn js s s')
  case (Cons i "is")
  have named: "S \<subseteq> range K_named" using vars by (simp add: spill_vars_def)
  obtain ks extra where ks: "replace_inst S b (map_inst (ref_var ty_of ro S) i) fn = Inr (ks, fn\<lparr>fn_temps := fn_temps fn @ extra\<rparr>)"
    using replace_inst_total [OF named] by blast
  then obtain ls where ls: "replace_insts S b (map (map_inst (ref_var ty_of ro S)) is) (fn\<lparr>fn_temps := fn_temps fn @ extra\<rparr>) = Inr (ls, fn')"
      "js = ks @ ls"
    using Cons.prems(5) by (auto simp: rbind_eq_Inr)
  have "agree_res (in_cells S adr get sim f n) (run_inst M i s) (rfold (run_inst M) ks s')"
    using replace_inst_run [OF cells Cons.prems(1) vars _ Cons.prems(3,4) ks] Cons.prems(2) by simp
  then show ?case
    unfolding ls(2) rfold_append rfold.simps
  proof (rule agree_bind)
    fix x y assume "in_cells S adr get sim f n x y"
    then show "agree_res (in_cells S adr get sim f n) (rfold (run_inst M) is x) (rfold (run_inst M) ls y)"
      using Cons.IH [OF _ _ _ _ ls(1)] Cons.prems(2,3,4) by simp
  qed
qed simp

lemma used_exit_map: "used_exit (map_exit F e) = map_option (map_val F) (used_exit e)"
  by (cases e) simp_all

lemma run_exit_with:
  "used_exit e = Some v \<Longrightarrow> val_of M env2 u = val_of M env v \<Longrightarrow> run_exit M env2 (exit_with [u] (map_exit F e)) = run_exit M env e"
  by (cases e) simp_all

lemma run_exit_unused: "used_exit e = None \<Longrightarrow> run_exit M env2 (map_exit F e) = run_exit M env e"
  by (cases e) simp_all

text \<open>An instruction is never replaced by a phi.\<close>

lemma load_val_phi: "load_val S b v st = Inr (u, js, st') \<Longrightarrow> \<forall>j\<in>set js. \<not> is_phi_inst j"
  by (auto simp: load_val_def rbind_eq_Inr newTemp_def split: val.splits if_splits option.splits prod.splits)

lemma replace_insts_phi:
  assumes "replace_insts S b is fn = Inr (js, fn')" "\<forall>i\<in>set is. \<not> is_phi_inst i"
  shows "\<forall>j\<in>set js. \<not> is_phi_inst j"
proof -
  have vals: "load_vals S b vs st = Inr (us, js, st') \<Longrightarrow> \<forall>j\<in>set js. \<not> is_phi_inst j" for vs st us js st'
    by (induction vs arbitrary: st us js) (fastforce simp: rbind_eq_Inr dest: load_val_phi)+
  have ops: "is_phi_inst (with_operands us i) = is_phi_inst i" "is_phi_inst (set_result l i) = is_phi_inst i" for us i l
    by (cases i; simp)+
  have inst: "replace_inst S b i fn = Inr (js, fn') \<Longrightarrow> \<not> is_phi_inst i \<Longrightarrow> \<forall>j\<in>set js. \<not> is_phi_inst j" for i fn js fn'
  proof -
    fix i fn js fn' assume i: "replace_inst S b i fn = Inr (js, fn')" "\<not> is_phi_inst i"
    then obtain us ks L fn1 where ks: "load_vals S b (used i) ([], fn) = Inr (us, ks, L, fn1)"
      by (auto simp: replace_inst_def rbind_eq_Inr)
    have k: "\<forall>j\<in>set ks. \<not> is_phi_inst j" by (rule vals [OF ks])
    show "\<forall>j\<in>set js. \<not> is_phi_inst j"
    proof (cases "\<exists>d. defined_var i = Some d \<and> key_of d \<in> S")
      case True
      then obtain d where d: "defined_var i = Some d" "key_of d \<in> S" by blast
      then obtain e where "referenced_type d = Inr e" using i(1) ks by (auto simp: replace_inst_def rbind_eq_Inr)
      then show ?thesis using i ks k d by (auto simp: replace_inst_def Let_def newTemp_def ops)
    next
      case False
      then have "js = ks @ [with_operands us i]"
        using i(1) ks by (cases "defined_var i") (simp_all add: replace_inst_def Let_def)
      then show ?thesis using k i(2) by (auto simp: ops)
    qed
  qed
  show ?thesis
    using assms by (induction "is" arbitrary: fn js) (fastforce simp: rbind_eq_Inr dest: inst)+
qed

definition spilled_block ::
  "('v, 'w) machine \<Rightarrow> ('v vars_env \<times> 'w \<Rightarrow> 'v vars_env \<times> 'w \<Rightarrow> bool) \<Rightarrow> ir_block \<Rightarrow> ir_block \<Rightarrow> bool" where
  "spilled_block M R k k' \<longleftrightarrow> (\<forall>i\<in>set (bk_insts k'). \<not> is_phi_inst i) \<and>
     (\<forall>s s'. R s s' \<longrightarrow> agree_res (\<lambda>x y. fst y = fst x \<and> R (snd x) (snd y)) (run_body M k s) (run_body M k' s'))"

lemma replace_block_spec:
  assumes cells: "cells_exact M S adr get sim" and vars: "spill_vars ty_of S f n (block_occurs k)"
    and h: "fn_id h = f" "n \<le> length (fn_temps h)" "fn_blk h b = map_block (ref_var ty_of ro S) k"
    and phis: "\<forall>i\<in>set (bk_insts k). \<not> is_phi_inst i"
  shows "\<exists>k' extra. replace_block S b h = Inr (h\<lparr>fn_blk := (fn_blk h)(b := k'), fn_temps := fn_temps h @ extra\<rparr>) \<and>
    spilled_block M (in_cells S adr get sim f n) k k'"
proof -
  let ?F = "ref_var ty_of ro S" and ?R = "in_cells S adr get sim f n"
  have named: "S \<subseteq> range K_named" using vars by (simp add: spill_vars_def)
  have occ: "\<forall>i\<in>set (bk_insts k). set (vars i) \<subseteq> block_occurs k" by (auto simp: block_occurs_def)
  obtain js extra where js: "replace_insts S b (map (map_inst ?F) (bk_insts k)) h = Inr (js, h\<lparr>fn_temps := fn_temps h @ extra\<rparr>)"
    using replace_insts_total [OF named] by blast
  have phi_js: "\<forall>j\<in>set js. \<not> is_phi_inst j" using replace_insts_phi [OF js] phis by simp
  have run: "agree_res ?R (rfold (run_inst M) (bk_insts k) s) (rfold (run_inst M) js s')" if "?R s s'" for s s'
    using replace_insts_run [OF cells vars that occ h(1,2) js] .
  show ?thesis
  proof (cases "bk_exit k")
    case None
    let ?k = "(map_block ?F k)\<lparr>bk_insts := js\<rparr>"
    have "run_body M k s = rbind (rfold (run_inst M) (bk_insts k) s) (\<lambda>s1. Inl (Undefined ''block without exit''))"
        "run_body M ?k s = rbind (rfold (run_inst M) js s) (\<lambda>s1. Inl (Undefined ''block without exit''))" for s
      using None by (simp_all add: run_body_def get_exit_def)
    then have "agree_res (\<lambda>x y. fst y = fst x \<and> ?R (snd x) (snd y)) (run_body M k s) (run_body M ?k s')" if "?R s s'" for s s'
      using agree_bind [OF run [OF that], of _ "\<lambda>s1. Inl (Undefined ''block without exit'')" "\<lambda>s1. Inl (Undefined ''block without exit'')"] by simp
    then have "spilled_block M ?R k ?k" using phi_js by (simp add: spilled_block_def)
    moreover have "replace_block S b h = Inr (h\<lparr>fn_blk := (fn_blk h)(b := ?k), fn_temps := fn_temps h @ extra\<rparr>)"
      using js None h(3) by (simp add: replace_block_def update_block_def Let_def)
    ultimately show ?thesis by blast
  next
    case (Some e)
    note e = this
    show ?thesis
    proof (cases "used_exit e")
      case None
      let ?k = "(map_block ?F k)\<lparr>bk_insts := js, bk_exit := Some (map_exit ?F e)\<rparr>"
      have "agree_res (\<lambda>x y. fst y = fst x \<and> ?R (snd x) (snd y))
          (rbind (run_exit M (fst x) e) (\<lambda>nx. Inr (nx, x))) (rbind (run_exit M (fst y) (map_exit ?F e)) (\<lambda>nx. Inr (nx, y)))"
        if "?R x y" for x y
        using that by (cases "run_exit M (fst x) e") (simp_all add: run_exit_unused [OF None, of M "fst y" _ "fst x"])
      then have "spilled_block M ?R k ?k"
        using phi_js e by (simp add: spilled_block_def run_body_def get_exit_def agree_bind [OF run])
      moreover have "replace_block S b h = Inr (h\<lparr>fn_blk := (fn_blk h)(b := ?k), fn_temps := fn_temps h @ extra\<rparr>)"
        using js e None h(3) by (simp add: replace_block_def replace_exit_def used_exit_map update_block_def Let_def)
      ultimately show ?thesis by blast
    next
      case (Some v)
      let ?h = "h\<lparr>fn_temps := fn_temps h @ extra\<rparr>"
      obtain u ls L extra' where ls: "load_val S b (map_val ?F v) ([], ?h) = Inr (u, ls, L, ?h\<lparr>fn_temps := fn_temps ?h @ extra'\<rparr>)"
        using load_val_total [OF named, of b ty_of ro v "[]" ?h] by blast
      let ?k = "(map_block ?F k)\<lparr>bk_insts := js @ ls, bk_exit := Some (exit_with [u] (map_exit ?F e))\<rparr>"
      have v: "\<And>l. v = val.Left l \<Longrightarrow> l \<in> block_occurs k" using e Some by (auto simp: block_occurs_def used_var_exit_def)
      have "agree_res (\<lambda>x y. fst y = fst x \<and> ?R (snd x) (snd y)) (rbind (run_exit M (fst x) e) (\<lambda>nx. Inr (nx, x)))
          (rbind (rfold (run_inst M) ls y) (\<lambda>y. rbind (run_exit M (fst y) (exit_with [u] (map_exit ?F e))) (\<lambda>nx. Inr (nx, y))))"
        if R: "?R x y" for x y
      proof -
        obtain env w env' w' where xy: "x = (env, w)" "y = (env', w')" by (metis prod.collapse)
        have "cache_ok ty_of S f n [] env env' ?h" using h(1,2) by (simp add: cache_ok_def)
        then obtain env2 where l: "loaded M ty_of S f n env w' env' ([], ?h) ls (L, ?h\<lparr>fn_temps := fn_temps ?h @ extra'\<rparr>) env2"
            "val_of M env2 u = val_of M env v"
          using load_val_spec [OF cells R [unfolded xy] vars v, where L = "[]" and fn = ?h and b = b and ro = ro and v = v] ls
          by (auto simp: operand_ok_def)
        have "env2 q = env' q" if "\<not> new_temp f n q" for q using l(1) that h(2) by (auto simp: loaded_def)
        then have "?R (env, w) (env2, w')" using cells_env [OF R [unfolded xy] _ named] by blast
        moreover have "rfold (run_inst M) ls y = Inr (env2, w')" using l(1) by (simp add: loaded_def xy)
        ultimately show ?thesis
          using run_exit_with [OF Some l(2), of ?F] by (cases "run_exit M env e") (simp_all add: xy)
      qed
      then have "spilled_block M ?R k ?k"
        using phi_js load_val_phi [OF ls] e
        by (auto simp: spilled_block_def run_body_def get_exit_def rfold_append rbind_assoc intro: agree_bind [OF run])
      moreover have "replace_block S b h = Inr (h\<lparr>fn_blk := (fn_blk h)(b := ?k), fn_temps := fn_temps h @ extra @ extra'\<rparr>)"
        using js e Some h(3) ls by (simp add: replace_block_def replace_exit_def used_exit_map update_block_def Let_def)
      ultimately show ?thesis by blast
    qed
  qed
qed

lemma replace_instruments_spec:
  assumes cells: "cells_exact M S adr get sim" and vars: "spill_vars ty_of S (fn_id fn) (length (fn_temps fn)) (occurs fn)"
    and phis: "phi_free fn" and dist: "distinct (fn_blocks fn)"
  shows "\<exists>h. replace_instruments S (map_func (ref_var ty_of ro S) fn) = Inr h \<and> fn_id h = fn_id fn \<and> fn_blocks h = fn_blocks fn \<and>
    fn_params h = fn_params fn \<and>
    (\<forall>b\<in>set (fn_blocks fn). spilled_block M (in_cells S adr get sim (fn_id fn) (length (fn_temps fn))) (fn_blk fn b) (fn_blk h b))"
proof -
  let ?R = "in_cells S adr get sim (fn_id fn) (length (fn_temps fn))" and ?F = "ref_var ty_of ro S"
  have occ: "spill_vars ty_of S (fn_id fn) (length (fn_temps fn)) (block_occurs (fn_blk fn b))" if "b \<in> set (fn_blocks fn)" for b
    using vars that unfolding spill_vars_def occurs_def by blast
  have "distinct bs \<Longrightarrow> set bs \<subseteq> set (fn_blocks fn) \<Longrightarrow> fn_id h = fn_id fn \<Longrightarrow> length (fn_temps fn) \<le> length (fn_temps h) \<Longrightarrow>
      fn_blocks h = fn_blocks fn \<Longrightarrow> fn_params h = fn_params fn \<Longrightarrow>
      (\<forall>b\<in>set bs. fn_blk h b = map_block ?F (fn_blk fn b)) \<Longrightarrow>
      (\<forall>b\<in>set (fn_blocks fn) - set bs. spilled_block M ?R (fn_blk fn b) (fn_blk h b)) \<Longrightarrow>
      \<exists>h'. rfold (replace_block S) bs h = Inr h' \<and> fn_id h' = fn_id fn \<and> fn_blocks h' = fn_blocks fn \<and> fn_params h' = fn_params fn \<and>
        (\<forall>b\<in>set (fn_blocks fn). spilled_block M ?R (fn_blk fn b) (fn_blk h' b))" for bs h
  proof (induction bs arbitrary: h)
    case (Cons b bs)
    have b: "b \<in> set (fn_blocks fn)" "fn_blk h b = map_block ?F (fn_blk fn b)" using Cons.prems(2,7) by simp_all
    obtain k' extra where k': "replace_block S b h = Inr (h\<lparr>fn_blk := (fn_blk h)(b := k'), fn_temps := fn_temps h @ extra\<rparr>)"
        "spilled_block M ?R (fn_blk fn b) k'"
      using replace_block_spec [OF cells occ [OF b(1)] Cons.prems(3,4) b(2)] phis b(1) by (auto simp: phi_free_def)
    show ?case
      using Cons.IH [of "h\<lparr>fn_blk := (fn_blk h)(b := k'), fn_temps := fn_temps h @ extra\<rparr>"] Cons.prems k' by auto
  qed simp
  from this [of "fn_blocks fn" "map_func ?F fn"] show ?thesis
    using dist by (simp add: replace_instruments_def)
qed

lemma spilled_blocks_agree:
  assumes "fn_blocks h = fn_blocks fn" "phi_free fn" "\<forall>b\<in>set (fn_blocks fn). spilled_block M R (fn_blk fn b) (fn_blk h b)"
  shows "blocks_agree M R fn h"
  unfolding blocks_agree_def
proof (intro conjI ballI allI impI)
  fix b prev s s' assume b: "b \<in> set (fn_blocks fn)" and R: "R s s'"
  have fn: "run_block M fn prev b s = run_body M (fn_blk fn b) s" using assms(2) b by (intro phi_free_block) (simp add: phi_free_def)
  have sb: "spilled_block M R (fn_blk fn b) (fn_blk h b)" using assms(3) b by blast
  then have h: "run_block M h prev b s' = run_body M (fn_blk h b) s'" by (intro phi_free_block) (simp add: spilled_block_def)
  show "agree_res (\<lambda>x y. fst y = fst x \<and> R (snd x) (snd y)) (run_block M fn prev b s) (run_block M h prev b s')"
    unfolding fn h using sb R unfolding spilled_block_def by blast
qed (rule assms(1))

section \<open>Whole programs\<close>

definition al_ty :: "alloc_store \<Rightarrow> lv_key \<Rightarrow> ty" where
  "al_ty A k = (case k of K_named (Def_alloc a) \<Rightarrow> al_type (A a) | _ \<Rightarrow> Bottom)"

definition al_ro :: "alloc_store \<Rightarrow> lv_key \<Rightarrow> bool" where
  "al_ro A k = (case k of K_named (Def_alloc a) \<Rightarrow> al_immutable (A a) | _ \<Rightarrow> False)"

abbreviation alloc_keys :: "alloc_id list \<Rightarrow> lv_key set" where
  "alloc_keys as \<equiv> (\<lambda>a. K_named (Def_alloc a)) ` set as"

lemma swap_var_inst_defs: "subst_inst old (val.Left l) (rename_def old l i) = map_inst (swap_var old l) i"
proof -
  have v: "subst_val old (val.Left l) = map_val (swap_var old l)" by (simp add: fun_eq_iff swap_var_val)
  have "zip args (map (map_val (swap_var old l)) (map snd args)) = map (\<lambda>a. (a, map_val (swap_var old l) (snd a))) args" for args :: "(block_id \<times> val) list"
    by (induction args) auto
  then show ?thesis
    by (cases i) (auto simp: subst_inst_def v swap_var_def split_def split: option.split)
qed

lemma subst_after_defs:
  "pr_funcs (subst_prog old (val.Left l) (replace_defs_prog old l p)) = map (map_func (swap_var old l)) (pr_funcs p)"
proof -
  have "subst_exit old (val.Left l) = map_exit (swap_var old l)" by (simp add: fun_eq_iff swap_var_exit)
  then have "subst_block old (val.Left l) (k\<lparr>bk_insts := map (rename_def old l) (bk_insts k)\<rparr>) = map_block (swap_var old l) k" for k
    by (simp add: subst_block_def map_block_def swap_var_inst_defs del: rename_def.simps)
  then show ?thesis
    by (simp add: replace_defs_prog_def subst_prog_def subst_func_def map_func_def comp_def del: rename_def.simps cong: if_cong)
qed

lemma make_reference_sel:
  assumes "\<not> is_array (al_type (pr_alloc p a))"
  shows "pr_funcs (make_reference a p) = map (map_func (swap_var (K_named (Def_alloc a))
      (NamedValue (Reference (al_type (pr_alloc p a)) (al_immutable (pr_alloc p a)) False) (Def_alloc a)))) (pr_funcs p)"
    and "al_type (pr_alloc (make_reference a p) b) = al_type (pr_alloc p b)"
    and "al_immutable (pr_alloc (make_reference a p) b) = al_immutable (pr_alloc p b)"
proof -
  let ?p = "p\<lparr>pr_alloc := (pr_alloc p)(a := (pr_alloc p a)\<lparr>al_reference := True\<rparr>)\<rparr>"
  have l: "alloc_value (pr_alloc ?p) a = NamedValue (Reference (al_type (pr_alloc p a)) (al_immutable (pr_alloc p a)) False) (Def_alloc a)"
    using assms by (cases "al_type (pr_alloc p a)") (simp_all add: alloc_value_def pointer_def)
  show "pr_funcs (make_reference a p) = map (map_func (swap_var (K_named (Def_alloc a))
      (NamedValue (Reference (al_type (pr_alloc p a)) (al_immutable (pr_alloc p a)) False) (Def_alloc a)))) (pr_funcs p)"
    unfolding make_reference_def Let_def l subst_after_defs by simp
  show "al_type (pr_alloc (make_reference a p) b) = al_type (pr_alloc p b)"
    "al_immutable (pr_alloc (make_reference a p) b) = al_immutable (pr_alloc p b)"
    by (simp_all add: make_reference_def Let_def subst_prog_def replace_defs_prog_def)
qed

lemma make_references_funcs:
  "\<forall>a\<in>set as. \<not> is_array (al_type (pr_alloc p a)) \<Longrightarrow>
    pr_funcs (fold make_reference as p) = map (map_func (ref_var (al_ty (pr_alloc p)) (al_ro (pr_alloc p)) (alloc_keys as))) (pr_funcs p)"
proof (induction as arbitrary: p)
  case Nil
  have "ref_var ty_of ro {} = (\<lambda>l. l)" for ty_of ro by (auto simp: fun_eq_iff ref_var_def split: left_value.split)
  then show ?case by (simp add: map_idI)
next
  case (Cons a as)
  let ?q = "make_reference a p"
  note sel = make_reference_sel [of p a]
  have ty: "al_ty (pr_alloc ?q) = al_ty (pr_alloc p)" "al_ro (pr_alloc ?q) = al_ro (pr_alloc p)"
    using sel(2,3) Cons.prems by (auto simp: al_ty_def al_ro_def fun_eq_iff split: lv_key.split name_def.split)
  have "ref_var (al_ty (pr_alloc p)) (al_ro (pr_alloc p)) (alloc_keys as) \<circ>
      swap_var (K_named (Def_alloc a)) (NamedValue (Reference (al_type (pr_alloc p a)) (al_immutable (pr_alloc p a)) False) (Def_alloc a)) =
      ref_var (al_ty (pr_alloc p)) (al_ro (pr_alloc p)) (alloc_keys (a # as))"
    by (auto simp: fun_eq_iff ref_var_def swap_var_def al_ty_def al_ro_def split: left_value.split)
  then show ?case
    using Cons.IH [of ?q] Cons.prems sel ty by (simp add: map_func_comp comp_def)
qed

lemma rmap_all:
  "\<forall>x\<in>set xs. \<exists>y. f x = Inr y \<and> P x y \<Longrightarrow> \<exists>ys. rmap f xs = Inr ys \<and> list_all2 P xs ys"
proof (induction xs)
  case (Cons x xs)
  then obtain y ys where "f x = Inr y" "P x y" "rmap f xs = Inr ys" "list_all2 P xs ys" by auto
  then show ?case by simp
qed simp

text \<open>Functions whose variables can move to memory.\<close>

definition spill_ready :: "alloc_store \<Rightarrow> alloc_id list \<Rightarrow> ir_func \<Rightarrow> bool" where
  "spill_ready A as fn \<longleftrightarrow>
     well_formed fn \<and> distinct (fn_blocks fn) \<and> phi_free fn \<and> temps_ok fn \<and>
     (\<forall>l\<in>occurs fn. \<forall>a\<in>set as. key_of l = K_named (Def_alloc a) \<longrightarrow> type_of_lv l = al_type (A a))"

definition spilled ::
  "('v, 'w) machine \<Rightarrow> lv_key set \<Rightarrow> (lv_key \<Rightarrow> 'v) \<Rightarrow> ('w \<Rightarrow> lv_key \<Rightarrow> 'v) \<Rightarrow> ('w \<Rightarrow> 'w \<Rightarrow> bool) \<Rightarrow> ir_func \<Rightarrow> ir_func \<Rightarrow> bool" where
  "spilled M S adr get sim fn g \<longleftrightarrow> fn_id g = fn_id fn \<and> fn_params g = fn_params fn \<and>
     (\<forall>n env w env' w'. in_cells S adr get sim (fn_id fn) (length (fn_temps fn)) (env, w) (env', w') \<longrightarrow>
        agree_res (\<lambda>x y. fst y = fst x \<and> sim (snd x) (snd y)) (run_func M fn n env w) (run_func M g n env' w'))"

lemma spill_func:
  assumes cells: "cells_exact M (alloc_keys as) adr get sim" and ready: "spill_ready A as fn"
  shows "\<exists>h. replace_instruments (alloc_keys as) (map_func (ref_var (al_ty A) ro (alloc_keys as)) fn) = Inr h \<and>
    spilled M (alloc_keys as) adr get sim fn h"
proof -
  have vars: "spill_vars (al_ty A) (alloc_keys as) (fn_id fn) (length (fn_temps fn)) (occurs fn)"
    unfolding spill_vars_def
  proof (intro conjI ballI impI)
    fix l assume l: "l \<in> occurs fn"
    show "\<not> new_temp (fn_id fn) (length (fn_temps fn)) (key_of l)" using old_vars l ready by (auto simp: spill_ready_def)
    assume "key_of l \<in> alloc_keys as"
    then show "type_of_lv l = al_ty A (key_of l)" using ready l by (auto simp: spill_ready_def al_ty_def)
  qed auto
  have wf: "well_formed fn" "phi_free fn" using ready by (simp_all add: spill_ready_def)
  obtain h where h: "replace_instruments (alloc_keys as) (map_func (ref_var (al_ty A) ro (alloc_keys as)) fn) = Inr h" "fn_id h = fn_id fn"
      "fn_blocks h = fn_blocks fn" "fn_params h = fn_params fn"
      "\<forall>b\<in>set (fn_blocks fn). spilled_block M (in_cells (alloc_keys as) adr get sim (fn_id fn) (length (fn_temps fn))) (fn_blk fn b) (fn_blk h b)"
    using replace_instruments_spec [OF cells vars wf(2), of ro] ready by (auto simp: spill_ready_def)
  note agree = agree_run_func [OF spilled_blocks_agree [OF h(3) wf(2) h(5)] wf(1)]
  have "agree_res (\<lambda>x y. fst y = fst x \<and> sim (snd x) (snd y)) (run_func M fn n env w) (run_func M h n env' w')"
    if "in_cells (alloc_keys as) adr get sim (fn_id fn) (length (fn_temps fn)) (env, w) (env', w')" for n env w env' w'
    using agree [OF that, of n] by (rule sum.rel_mono_strong) (auto simp: in_cells_def)
  then show ?thesis using h(1,2,4) by (auto simp: spilled_def)
qed

lemma spill_all:
  assumes "cells_exact M (alloc_keys as) adr get sim" "\<forall>a\<in>set as. \<not> is_array (al_type (pr_alloc p a))"
    and "\<forall>fn\<in>set (pr_funcs p). spill_ready (pr_alloc p) as fn"
  shows "\<exists>p'. spill_allocs as p = Inr p' \<and> list_all2 (spilled M (alloc_keys as) adr get sim) (pr_funcs p) (pr_funcs p')"
proof -
  let ?F = "ref_var (al_ty (pr_alloc p)) (al_ro (pr_alloc p)) (alloc_keys as)"
  have "\<exists>hs. rmap (\<lambda>fn. replace_instruments (alloc_keys as) (map_func ?F fn)) (pr_funcs p) = Inr hs \<and>
      list_all2 (spilled M (alloc_keys as) adr get sim) (pr_funcs p) hs"
    using spill_func [OF assms(1)] assms(3) by (intro rmap_all) blast
  moreover have "rmap f (map g xs) = rmap (\<lambda>x. f (g x)) xs" for f :: "ir_func \<Rightarrow> ir_func result" and g :: "ir_func \<Rightarrow> ir_func" and xs
    by (induction xs) simp_all
  ultimately show ?thesis
    by (auto simp: spill_allocs_def Let_def make_references_funcs [OF assms(2)])
qed

section \<open>Temporaries for globals\<close>

text \<open>Equal states outside the new temporaries.\<close>

definition off_temps :: "func_id \<Rightarrow> nat \<Rightarrow> 'v vars_env \<times> 'w \<Rightarrow> 'v vars_env \<times> 'w \<Rightarrow> bool" where
  "off_temps f n s s' \<longleftrightarrow> snd s' = snd s \<and> (\<forall>k. \<not> new_temp f n k \<longrightarrow> fst s' k = fst s k)"

text \<open>A global occurs with one type.\<close>

definition globals_typed :: "(alloc_id \<Rightarrow> ty) \<Rightarrow> alloc_id list \<Rightarrow> func_id \<Rightarrow> nat \<Rightarrow> left_value set \<Rightarrow> bool" where
  "globals_typed ty_of gs f n V \<longleftrightarrow>
     (\<forall>l\<in>V. \<not> new_temp f n (key_of l) \<and> (\<forall>t a. l = NamedValue t (Def_alloc a) \<longrightarrow> a \<in> set gs \<longrightarrow> t = ty_of a))"

definition proxies_ok ::
  "(alloc_id \<Rightarrow> ty) \<Rightarrow> alloc_id list \<Rightarrow> func_id \<Rightarrow> nat \<Rightarrow> proxies_of \<Rightarrow> 'v vars_env \<Rightarrow> 'v vars_env \<Rightarrow> ir_func \<Rightarrow> bool" where
  "proxies_ok ty_of gs f n P env env' fn \<longleftrightarrow>
     fn_id fn = f \<and> n \<le> length (fn_temps fn) \<and>
     (\<forall>a t l. (t, l) \<in> set (P a) \<longrightarrow> a \<in> set gs \<and> t = ty_of a \<and> (\<exists>j. l = TempValue t j f \<and> n \<le> j \<and> j < length (fn_temps fn)) \<and>
        env' (key_of l) = env (K_named (Def_alloc a)))"

definition fetched ::
  "('v, 'w) machine \<Rightarrow> func_id \<Rightarrow> nat \<Rightarrow> 'w \<Rightarrow> 'v vars_env \<Rightarrow> ir_func \<Rightarrow> inst list \<Rightarrow> ir_func \<Rightarrow> 'v vars_env \<Rightarrow> bool" where
  "fetched M f n w env' fn js fn' env2 \<longleftrightarrow>
     rfold (run_inst M) js (env', w) = Inr (env2, w) \<and> (\<exists>extra. fn' = fn\<lparr>fn_temps := fn_temps fn @ extra\<rparr>) \<and>
     (\<forall>k. \<not> new_temp f (length (fn_temps fn)) k \<longrightarrow> env2 k = env' k)"

lemma global_of_Some: "global_of gs v = Some (t, a) \<longleftrightarrow> v = val.Left (NamedValue t (Def_alloc a)) \<and> a \<in> set gs"
  by (cases "(gs, v)" rule: global_of.cases) auto

lemma global_of_Nil: "global_of [] v = None"
  by (cases "([] :: alloc_id list, v)" rule: global_of.cases) auto

lemma run_mov: "moves_exact M \<Longrightarrow> run_inst M (Unary Op_MOV (Some l) v) (env, w) = Inr (env(key_of l := val_of M env v), w)"
  by (simp add: run_inst_def moves_exact_def put_result_def)

lemma proxy_val_spec:
  assumes mov: "moves_exact M" and typed: "globals_typed ty_of gs f n V" and v: "\<And>l. v = val.Left l \<Longrightarrow> l \<in> V"
    and rel: "off_temps f n (env, w) (env', w)" and ok: "proxies_ok ty_of gs f n P env env' fn"
  shows "\<exists>u js P' fn' env2. proxy_val gs b v (P, fn) = (u, js, P', fn') \<and> fetched M f n w env' fn js fn' env2 \<and>
    proxies_ok ty_of gs f n P' env env2 fn' \<and> operand_ok M f env env2 fn' v u"
proof -
  have same: "fetched M f n w env' fn [] fn env'" by (auto simp: fetched_def intro: exI [of _ "[]"])
  have len: "n \<le> length (fn_temps fn)" "fn_id fn = f" using ok by (simp_all add: proxies_ok_def)
  have old: "\<not> new_temp f (length (fn_temps fn)) (key_of l) \<and> env' (key_of l) = env (key_of l)" if "v = val.Left l" for l
    using typed v [OF that] rel len(1) unfolding globals_typed_def off_temps_def fst_conv by (meson order_trans)
  show ?thesis
  proof (cases "global_of gs v")
    case None
    have "operand_ok M f env env' fn v v" using old by (cases v) (auto simp: operand_ok_def)
    then show ?thesis using None same ok by (auto simp: proxy_val_def)
  next
    case (Some ta)
    obtain t a where ta: "ta = (t, a)" by force
    then have va: "v = val.Left (NamedValue t (Def_alloc a))" "a \<in> set gs" using Some by (simp_all add: global_of_Some)
    then have t: "t = ty_of a" using typed v by (auto simp: globals_typed_def)
    have eq: "env' (K_named (Def_alloc a)) = env (K_named (Def_alloc a))" using old [OF va(1)] by simp
    show ?thesis
    proof (cases "List.find (\<lambda>(u, l). eq_ty u t) (P a)")
      case None
      let ?l = "TempValue t (length (fn_temps fn)) f" and ?fn = "fn\<lparr>fn_temps := fn_temps fn @ [(t, b)]\<rparr>"
      let ?env = "env'(K_temp f (length (fn_temps fn)) := env (K_named (Def_alloc a)))" and ?P = "P(a := P a @ [(t, TempValue t (length (fn_temps fn)) f)])"
      have "proxy_val gs b v (P, fn) = (val.Left ?l, [Unary Op_MOV (Some ?l) v], ?P, ?fn)"
        using Some ta None len(2) by (simp add: proxy_val_def newTemp_def)
      moreover have "fetched M f n w env' fn [Unary Op_MOV (Some ?l) v] ?fn ?env"
        using va(1) eq by (auto simp: fetched_def run_mov [OF mov])
      moreover have "proxies_ok ty_of gs f n ?P env ?env ?fn"
        using ok va(2) t unfolding proxies_ok_def by (fastforce split: if_splits)
      moreover have "operand_ok M f env ?env ?fn v (val.Left ?l)" using va(1) by (simp add: operand_ok_def)
      ultimately show ?thesis by blast
    next
      case (Some ul)
      obtain u l where ul: "ul = (u, l)" by force
      then have "(u, l) \<in> set (P a)" using Some unfolding find_Some_iff by (metis nth_mem)
      then have "u = ty_of a" "env' (key_of l) = env (K_named (Def_alloc a))" "\<exists>j. l = TempValue u j f \<and> j < length (fn_temps fn)"
        using ok unfolding proxies_ok_def by blast+
      then have "operand_ok M f env env' fn v (val.Left l)" using va(1) t by (auto simp: operand_ok_def)
      then show ?thesis
        using same ok Some ul \<open>global_of gs v = Some ta\<close> ta by (auto simp: proxy_val_def)
    qed
  qed
qed

lemma off_temps_later:
  assumes "off_temps f n (env, w) (env', w)" "\<And>k. \<not> new_temp f m k \<Longrightarrow> env2 k = env' k" "n \<le> m"
  shows "off_temps f n (env, w) (env2, w)"
proof -
  have "env2 k = env k" if k: "\<not> new_temp f n k" for k
  proof -
    have "\<not> new_temp f m k" using k assms(3) order_trans by blast
    then show ?thesis using assms(1,2) k by (simp add: off_temps_def)
  qed
  then show ?thesis by (simp add: off_temps_def)
qed

lemma proxy_vals_spec:
  assumes mov: "moves_exact M" and typed: "globals_typed ty_of gs f n V"
  shows "(\<And>l. val.Left l \<in> set vs \<Longrightarrow> l \<in> V) \<Longrightarrow> off_temps f n (env, w) (env', w) \<Longrightarrow> proxies_ok ty_of gs f n P env env' fn \<Longrightarrow>
    \<exists>us js P' fn' env2. proxy_vals gs b vs (P, fn) = (us, js, P', fn') \<and> fetched M f n w env' fn js fn' env2 \<and>
      proxies_ok ty_of gs f n P' env env2 fn' \<and> list_all2 (operand_ok M f env env2 fn') vs us"
proof (induction vs arbitrary: P fn env')
  case Nil
  then show ?case by (auto simp: fetched_def intro!: exI [of _ "[]"])
next
  case (Cons v vs)
  obtain u js P1 fn1 env1 where u: "proxy_val gs b v (P, fn) = (u, js, P1, fn1)" "fetched M f n w env' fn js fn1 env1"
      "proxies_ok ty_of gs f n P1 env env1 fn1" "operand_ok M f env env1 fn1 v u"
    using proxy_val_spec [OF mov typed _ Cons.prems(2,3), of v b] Cons.prems(1) by auto
  have n: "n \<le> length (fn_temps fn)" using Cons.prems(3) by (simp add: proxies_ok_def)
  have "off_temps f n (env, w) (env1, w)" using u(2) by (intro off_temps_later [OF Cons.prems(2) _ n]) (simp add: fetched_def)
  then obtain us ks P2 fn2 env2 where us: "proxy_vals gs b vs (P1, fn1) = (us, ks, P2, fn2)" "fetched M f n w env1 fn1 ks fn2 env2"
      "proxies_ok ty_of gs f n P2 env env2 fn2" "list_all2 (operand_ok M f env env2 fn2) vs us"
    using Cons.IH [OF _ _ u(3)] Cons.prems(1) by (metis list.set_intros(2))
  obtain extra extra' where ex: "fn1 = fn\<lparr>fn_temps := fn_temps fn @ extra\<rparr>" "fn2 = fn1\<lparr>fn_temps := fn_temps fn1 @ extra'\<rparr>"
    using u(2) us(2) by (auto simp: fetched_def)
  have "operand_ok M f env env2 fn2 v u" using us(2) by (intro operand_ok_later [OF u(4) _ ex(2)]) (simp add: fetched_def)
  moreover have "fetched M f n w env' fn (js @ ks) fn2 env2"
  proof -
    have "env2 k = env' k" if k: "\<not> new_temp f (length (fn_temps fn)) k" for k
    proof -
      have "\<not> new_temp f (length (fn_temps fn1)) k" using k ex(1) by auto
      then show ?thesis using u(2) us(2) k by (simp add: fetched_def)
    qed
    moreover have "fn2 = fn\<lparr>fn_temps := fn_temps fn @ (extra @ extra')\<rparr>" using ex by simp
    ultimately show ?thesis using u(2) us(2) unfolding fetched_def rfold_append by (metis rbind.simps(2))
  qed
  ultimately show ?case using u(1) us(1,3,4) by auto
qed

lemma off_temps_inst:
  assumes rel: "off_temps f n (env, w) (env2, w)" and ok: "proxies_ok ty_of gs f n P env env2 fn"
    and us: "list_all2 (operand_ok M f env env2 fn) (used i) us"
    and d: "\<And>d. defined_var i = Some d \<Longrightarrow> \<not> new_temp f n (key_of d) \<and> global_of gs (val.Left d) = None"
  shows "agree_res (\<lambda>x y. off_temps f n x y \<and> proxies_ok ty_of gs f n P (fst x) (fst y) fn)
    (run_inst M i (env, w)) (run_inst M (with_operands us i) (env2, w))"
proof (cases "operation_of i")
  case (Some op)
  let ?ops = "map (\<lambda>x. (type_of x, val_of M env x)) (used i)"
  have ops: "map (\<lambda>x. (type_of x, val_of M env2 x)) (used (with_operands us i)) = ?ops"
    using operands_same [OF us] used_with [of us i] list_all2_lengthD [OF us] by simp
  have "off_temps f n (put_result (defined_var i) v env, w1) (put_result (defined_var i) v env2, w1) \<and>
      proxies_ok ty_of gs f n P (put_result (defined_var i) v env) (put_result (defined_var i) v env2) fn" for v w1
  proof (cases "defined_var i")
    case None
    then show ?thesis using rel ok by (simp add: put_result_def off_temps_def)
  next
    case (Some d)
    have "key_of d \<noteq> K_named (Def_alloc a)" if "a \<in> set gs" for a using assms(4) [OF Some] that by (cases d) auto
    moreover have "key_of d \<noteq> K_temp f j" if "n \<le> j" for j using assms(4) [OF Some] that by auto
    ultimately have "proxies_ok ty_of gs f n P (env(key_of d := v)) (env2(key_of d := v)) fn"
      using ok unfolding proxies_ok_def by (fastforce split: if_splits)
    then show ?thesis using rel Some by (simp add: put_result_def off_temps_def)
  qed
  then show ?thesis
    using Some by (cases "mc_op M op (map_option type_of_lv (defined_var i)) ?ops w") (simp_all add: run_inst_def ops split_def)
qed (simp add: run_inst_def)

lemma same_operands:
  assumes "globals_typed ty_of gs f n V" "set (vars i) \<subseteq> V" "off_temps f n (env, w) (env2, w)" "n \<le> length (fn_temps fn)"
  shows "list_all2 (operand_ok M f env env2 fn) (used i) (used i)"
proof -
  have "operand_ok M f env env2 fn v v" if v: "v \<in> set (used i)" for v
  proof (cases v)
    case (Left l)
    then have "\<not> new_temp f n (key_of l)" using assms(1,2) v used_vars_left unfolding globals_typed_def by blast
    then show ?thesis using Left assms(3,4) order_trans by (auto simp: operand_ok_def off_temps_def)
  qed (simp add: operand_ok_def)
  then show ?thesis by (simp add: list_all2_same)
qed

lemma proxy_insts_run:
  fixes M :: "('v, 'w) machine"
  assumes mov: "moves_exact M" and typed: "globals_typed ty_of gs f n V"
  shows "\<forall>i\<in>set is. set (vars i) \<subseteq> V \<and> (\<forall>d. defined_var i = Some d \<longrightarrow> global_of gs (val.Left d) = None) \<Longrightarrow>
    off_temps f n (env, w) (env', w) \<Longrightarrow> proxies_ok ty_of gs f n P env env' fn \<Longrightarrow> proxy_insts gs b is (P, fn) = (js, c, fn') \<Longrightarrow>
    agree_res (off_temps f n) (rfold (run_inst M) is (env, w)) (rfold (run_inst M) js (env', w))"
proof (induction "is" arbitrary: env env' w P fn js c)
  case (Cons i "is")
  have V: "set (vars i) \<subseteq> V" using Cons.prems(1) by simp
  have n: "n \<le> length (fn_temps fn)" using Cons.prems(3) by (simp add: proxies_ok_def)
  have d: "\<not> new_temp f n (key_of d) \<and> global_of gs (val.Left d) = None" if "defined_var i = Some d" for d
    using Cons.prems(1) that typed defined_var_vars [OF that] by (auto simp: globals_typed_def)
  obtain us ks P1 fn1 env2 ls c' where us: "js = ks @ with_operands us i # ls" "proxy_insts gs b is (P1, fn1) = (ls, c', fn')"
      "fetched M f n w env' fn ks fn1 env2" "proxies_ok ty_of gs f n P1 env env2 fn1" "list_all2 (operand_ok M f env env2 fn1) (used i) us"
  proof (cases "is_plain_move i")
    case True
    then obtain ls c' where ls: "proxy_insts gs b is (P, fn) = (ls, c', fn')" "js = i # ls"
      using Cons.prems(4) by (auto split: prod.splits)
    have "fetched M f n w env' fn [] fn env'" by (auto simp: fetched_def intro: exI [of _ "[]"])
    then show ?thesis
      using that [of "[]" "used i" ls P fn c' env'] ls Cons.prems(3) same_operands [OF typed V Cons.prems(2) n, of M]
      by (simp add: with_used)
  next
    case False
    obtain us ks P1 fn1 env2 where us: "proxy_vals gs b (used i) (P, fn) = (us, ks, P1, fn1)" "fetched M f n w env' fn ks fn1 env2"
        "proxies_ok ty_of gs f n P1 env env2 fn1" "list_all2 (operand_ok M f env env2 fn1) (used i) us"
      using proxy_vals_spec [OF mov typed _ Cons.prems(2,3), of "used i" b] V used_vars_left by blast
    obtain ls c' where "proxy_insts gs b is (P1, fn1) = (ls, c', fn')" "js = ks @ with_operands us i # ls"
      using Cons.prems(4) False us(1) by (auto split: prod.splits)
    then show ?thesis using that us by blast
  qed
  have rel: "off_temps f n (env, w) (env2, w)" using us(3) by (intro off_temps_later [OF Cons.prems(2) _ n]) (simp add: fetched_def)
  have js: "rfold (run_inst M) js (env', w) = rbind (run_inst M (with_operands us i) (env2, w)) (rfold (run_inst M) ls)"
    using us(3) by (simp add: us(1) rfold_append fetched_def)
  show ?case
    unfolding js rfold.simps
  proof (rule agree_bind [OF off_temps_inst [OF rel us(4,5) d]])
    fix x y :: "'v vars_env \<times> 'w" assume xy: "off_temps f n x y \<and> proxies_ok ty_of gs f n P1 (fst x) (fst y) fn1"
    obtain env3 w3 env3' where "x = (env3, w3)" "y = (env3', w3)" using xy by (metis off_temps_def prod.collapse)
    then show "agree_res (off_temps f n) (rfold (run_inst M) is x) (rfold (run_inst M) ls y)"
      using Cons.IH [OF _ _ _ us(2)] Cons.prems(1) xy by simp
  qed
qed simp

text \<open>The variables of the new code are old or among the temporaries of the function.\<close>

definition val_below :: "func_id \<Rightarrow> nat \<Rightarrow> val \<Rightarrow> bool" where
  "val_below f m v \<longleftrightarrow> (\<forall>l. v = val.Left l \<longrightarrow> \<not> new_temp f m (key_of l))"

lemma val_below_mono: "val_below f m v \<Longrightarrow> m \<le> m' \<Longrightarrow> val_below f m' v"
proof -
  assume below: "val_below f m v" "m \<le> m'"
  have "key_of l \<noteq> K_temp f k" if "v = val.Left l" "m' \<le> k" for l k
    using below that order_trans [OF below(2) that(2)] by (auto simp: val_below_def)
  then show ?thesis by (auto simp: val_below_def)
qed

definition temps_added :: "ir_func \<Rightarrow> ir_func \<Rightarrow> bool" where
  "temps_added fn fn' \<longleftrightarrow> (\<exists>extra. fn' = fn\<lparr>fn_temps := fn_temps fn @ extra\<rparr>)"

lemma temps_added_refl [simp]: "temps_added fn fn"
  unfolding temps_added_def by (rule exI [of _ "[]"]) simp

lemma temps_added_one [simp]: "temps_added fn (fn\<lparr>fn_temps := fn_temps fn @ extra\<rparr>)"
  by (auto simp: temps_added_def)

lemma temps_added_trans:
  assumes "temps_added fn fn1" "temps_added fn1 fn2"
  shows "temps_added fn fn2"
proof -
  obtain ex ex' where "fn1 = fn\<lparr>fn_temps := fn_temps fn @ ex\<rparr>" "fn2 = fn1\<lparr>fn_temps := fn_temps fn1 @ ex'\<rparr>"
    using assms by (auto simp: temps_added_def)
  then have "fn2 = fn\<lparr>fn_temps := fn_temps fn @ (ex @ ex')\<rparr>" by simp
  then show ?thesis unfolding temps_added_def by blast
qed

lemma temps_added_length: "temps_added fn fn' \<Longrightarrow> length (fn_temps fn) \<le> length (fn_temps fn')"
  by (auto simp: temps_added_def)

lemma temps_added_id: "temps_added fn fn' \<Longrightarrow> fn_id fn' = fn_id fn"
  by (auto simp: temps_added_def)

definition proxies_below :: "proxies_of \<Rightarrow> ir_func \<Rightarrow> bool" where
  "proxies_below P fn \<longleftrightarrow> (\<forall>a t l. (t, l) \<in> set (P a) \<longrightarrow> val_below (fn_id fn) (length (fn_temps fn)) (val.Left l))"

definition code_below :: "func_id \<Rightarrow> nat \<Rightarrow> inst list \<Rightarrow> bool" where
  "code_below f m is \<longleftrightarrow> (\<forall>i\<in>set is. \<not> is_phi_inst i \<and> (\<forall>l\<in>set (vars i). val_below f m (val.Left l)))"

lemma code_below_mono: "code_below f m is \<Longrightarrow> m \<le> m' \<Longrightarrow> code_below f m' is"
  unfolding code_below_def using val_below_mono by blast

lemma code_below_append [simp]: "code_below f m (is @ js) \<longleftrightarrow> code_below f m is \<and> code_below f m js"
  by (auto simp: code_below_def)

lemma code_below_move: "code_below f m [Unary Op_MOV (Some l) v] \<longleftrightarrow> val_below f m (val.Left l) \<and> val_below f m v"
  by (cases v) (auto simp: code_below_def vars_move val_below_def)

lemma val_below_const: "val_below f m (Const c)"
  by (simp add: val_below_def)

lemma code_below_Cons: "code_below f m (i # j # is) \<longleftrightarrow> code_below f m [i] \<and> code_below f m (j # is)"
  by (auto simp: code_below_def)

lemma code_below_binary:
  "code_below f m [Binary op r x y] \<longleftrightarrow> (\<forall>d. r = Some d \<longrightarrow> val_below f m (val.Left d)) \<and> val_below f m x \<and> val_below f m y"
  by (cases x; cases y; cases r) (auto simp: code_below_def vars_def used_vars_def List.map_filter_simps val_below_const)

lemma proxy_val_below:
  assumes "proxy_val gs b v (P, fn) = (u, js, P', fn')" "proxies_below P fn" "val_below (fn_id fn) (length (fn_temps fn)) v"
  shows "proxies_below P' fn' \<and> temps_added fn fn' \<and> code_below (fn_id fn) (length (fn_temps fn')) js \<and>
    val_below (fn_id fn) (length (fn_temps fn')) u"
proof (cases "global_of gs v")
  case None
  then show ?thesis using assms by (simp add: proxy_val_def code_below_def)
next
  case (Some ta)
  obtain t a where ta: "ta = (t, a)" by force
  show ?thesis
  proof (cases "List.find (\<lambda>(u, l). eq_ty u t) (P a)")
    case None
    let ?l = "TempValue t (length (fn_temps fn)) (fn_id fn)" and ?fn = "fn\<lparr>fn_temps := fn_temps fn @ [(t, b)]\<rparr>"
    have res: "u = val.Left ?l" "js = [Unary Op_MOV (Some ?l) v]" "P' = P(a := P a @ [(t, ?l)])" "fn' = ?fn"
      using assms(1) Some ta None by (auto simp: proxy_val_def newTemp_def)
    have "val_below (fn_id fn) (length (fn_temps ?fn)) (val.Left ?l)" by (simp add: val_below_def)
    moreover have "val_below (fn_id fn) (length (fn_temps ?fn)) v" using assms(3) by (rule val_below_mono) simp
    moreover have "proxies_below (P(a := P a @ [(t, ?l)])) ?fn"
      using assms(2) calculation(1) val_below_mono [of "fn_id fn" "length (fn_temps fn)" _ "length (fn_temps ?fn)"]
      by (auto simp: proxies_below_def)
    ultimately show ?thesis by (simp add: res code_below_move)
  next
    case find: (Some ul)
    obtain u' l' where ul: "ul = (u', l')" by force
    then have "(u', l') \<in> set (P a)" using find unfolding find_Some_iff by (metis nth_mem)
    then show ?thesis using assms Some ta find ul by (auto simp: proxy_val_def code_below_def proxies_below_def)
  qed
qed

lemma proxy_vals_below:
  "proxy_vals gs b vs (P, fn) = (us, js, P', fn') \<Longrightarrow> proxies_below P fn \<Longrightarrow> \<forall>v\<in>set vs. val_below (fn_id fn) (length (fn_temps fn)) v \<Longrightarrow>
   proxies_below P' fn' \<and> temps_added fn fn' \<and> code_below (fn_id fn) (length (fn_temps fn')) js \<and>
    length us = length vs \<and> (\<forall>u\<in>set us. val_below (fn_id fn) (length (fn_temps fn')) u)"
proof (induction vs arbitrary: P fn us js)
  case Nil
  then show ?case by (simp add: code_below_def)
next
  case (Cons v vs)
  obtain u ks P1 fn1 ws ls where u: "proxy_val gs b v (P, fn) = (u, ks, P1, fn1)" "proxy_vals gs b vs (P1, fn1) = (ws, ls, P', fn')"
      "us = u # ws" "js = ks @ ls"
    using Cons.prems(1) by (auto split: prod.splits)
  have 1: "proxies_below P1 fn1" "temps_added fn fn1" "code_below (fn_id fn) (length (fn_temps fn1)) ks"
      "val_below (fn_id fn) (length (fn_temps fn1)) u"
    using proxy_val_below [OF u(1) Cons.prems(2)] Cons.prems(3) by simp_all
  note id = temps_added_id [OF 1(2)]
  have "\<forall>v\<in>set vs. val_below (fn_id fn1) (length (fn_temps fn1)) v"
    using Cons.prems(3) val_below_mono [OF _ temps_added_length [OF 1(2)]] id by simp
  from Cons.IH [OF u(2) 1(1) this] show ?case
    using 1 temps_added_trans [OF 1(2)] temps_added_length [of fn1 fn'] val_below_mono code_below_mono id by (auto simp: u(3,4))
qed

lemma proxy_insts_below:
  "proxy_insts gs b is (P, fn) = (js, c, fn') \<Longrightarrow> proxies_below P fn \<Longrightarrow> code_below (fn_id fn) (length (fn_temps fn)) is \<Longrightarrow>
   temps_added fn fn' \<and> code_below (fn_id fn) (length (fn_temps fn')) js"
proof (induction "is" arbitrary: P fn js c)
  case (Cons i "is")
  show ?case
  proof (cases "is_plain_move i")
    case True
    then obtain ks c' where ks: "proxy_insts gs b is (P, fn) = (ks, c', fn')" "js = i # ks"
      using Cons.prems(1) by (auto split: prod.splits)
    have i: "code_below (fn_id fn) (length (fn_temps fn)) [i]" "code_below (fn_id fn) (length (fn_temps fn)) is"
      using Cons.prems(3) by (simp_all add: code_below_def)
    have "temps_added fn fn'" "code_below (fn_id fn) (length (fn_temps fn')) ks" using Cons.IH [OF ks(1) Cons.prems(2) i(2)] by simp_all
    then show ?thesis
      using code_below_mono [OF i(1) temps_added_length] ks(2) by (simp add: code_below_def)
  next
    case False
    obtain us ks P1 fn1 ls c' where us: "proxy_vals gs b (used i) (P, fn) = (us, ks, P1, fn1)" "proxy_insts gs b is (P1, fn1) = (ls, c', fn')"
        "js = ks @ with_operands us i # ls"
      using Cons.prems(1) False by (auto split: prod.splits)
    have "\<forall>v\<in>set (used i). val_below (fn_id fn) (length (fn_temps fn)) v"
      using Cons.prems(3) used_vars_left by (auto simp: code_below_def val_below_def)
    then have 1: "proxies_below P1 fn1" "temps_added fn fn1" "code_below (fn_id fn) (length (fn_temps fn1)) ks"
        "length us = length (used i)" "\<forall>u\<in>set us. val_below (fn_id fn) (length (fn_temps fn1)) u"
      using proxy_vals_below [OF us(1) Cons.prems(2)] by simp_all
    note id = temps_added_id [OF 1(2)] and len = temps_added_length [OF 1(2)]
    have "code_below (fn_id fn1) (length (fn_temps fn1)) is"
      using Cons.prems(3) len id unfolding code_below_def using val_below_mono by (metis list.set_intros(2))
    then have 2: "temps_added fn1 fn'" "code_below (fn_id fn) (length (fn_temps fn')) ls" using Cons.IH [OF us(2) 1(1)] id by simp_all
    have "code_below (fn_id fn) (length (fn_temps fn1)) [with_operands us i]"
    proof -
      have "\<not> is_phi_inst (with_operands us i)" using Cons.prems(3) by (cases i) (auto simp: code_below_def)
      moreover have "val_below (fn_id fn) (length (fn_temps fn1)) (val.Left l)" if l: "l \<in> set (vars (with_operands us i))" for l
      proof -
        consider "val.Left l \<in> set us" | "defined_var i = Some l"
          using l used_with [OF 1(4)] by (auto simp: vars_def used_vars_def List.map_filter_def as_var_Some split: option.splits)
        then show ?thesis
        proof cases
          case 2
          then have "val_below (fn_id fn) (length (fn_temps fn)) (val.Left l)"
            using Cons.prems(3) defined_var_vars by (simp add: code_below_def)
          then show ?thesis by (rule val_below_mono [OF _ len])
        qed (use 1(5) in blast)
      qed
      ultimately show ?thesis by (simp add: code_below_def)
    qed
    then have "code_below (fn_id fn) (length (fn_temps fn')) (ks @ [with_operands us i])"
      using 1(3) code_below_mono temps_added_length [OF 2(1)] by (metis code_below_append)
    then show ?thesis using 2 temps_added_trans [OF 1(2) 2(1)] us(3) by (auto simp: code_below_def)
  qed
qed simp

text \<open>Constants that are stored.\<close>

lemma proxy_consts_below:
  "proxy_consts b is fn = (js, c, fn') \<Longrightarrow> code_below (fn_id fn) (length (fn_temps fn)) is \<Longrightarrow>
    temps_added fn fn' \<and> code_below (fn_id fn) (length (fn_temps fn')) js"
proof (induction "is" arbitrary: fn js c)
  case (Cons i "is")
  have i: "code_below (fn_id fn) (length (fn_temps fn)) [i]" "code_below (fn_id fn) (length (fn_temps fn)) is"
    using Cons.prems(2) by (simp_all add: code_below_def)
  show ?case
  proof (cases "\<exists>r x k. i = Binary Op_STORE r x (Const k) \<and> is_primitive (ctype k)")
    case True
    then obtain r x k where ik: "i = Binary Op_STORE r x (Const k)" "is_primitive (ctype k)" by blast
    let ?l = "TempValue (ctype k) (length (fn_temps fn)) (fn_id fn)" and ?fn = "fn\<lparr>fn_temps := fn_temps fn @ [(ctype k, b)]\<rparr>"
    obtain ls c' where ls: "proxy_consts b is ?fn = (ls, c', fn')" "js = [Unary Op_MOV (Some ?l) (Const k), Binary Op_STORE r x (val.Left ?l)] @ ls"
      using Cons.prems(1) ik by (auto simp: newTemp_def split: prod.splits)
    have "code_below (fn_id fn) (length (fn_temps ?fn)) is" using code_below_mono [OF i(2), of "length (fn_temps ?fn)"] by simp
    then have rec: "temps_added ?fn fn'" "code_below (fn_id fn) (length (fn_temps fn')) ls" using Cons.IH [OF ls(1)] by simp_all
    have "code_below (fn_id fn) (length (fn_temps ?fn)) [i]" using code_below_mono [OF i(1), of "length (fn_temps ?fn)"] by simp
    then have "code_below (fn_id fn) (length (fn_temps ?fn)) [Unary Op_MOV (Some ?l) (Const k), Binary Op_STORE r x (val.Left ?l)]"
      unfolding ik(1) code_below_Cons code_below_binary code_below_move by (simp add: val_below_const) (simp add: val_below_def)
    from code_below_mono [OF this temps_added_length [OF rec(1)]] rec(2) have "code_below (fn_id fn) (length (fn_temps fn')) js"
      unfolding ls(2) code_below_append by blast
    then show ?thesis using temps_added_trans [OF temps_added_one rec(1)] by blast
  next
    case False
    then obtain ls c' where ls: "proxy_consts b is fn = (ls, c', fn')" "js = [i] @ ls"
      using Cons.prems(1) by (cases i) (auto split: prod.splits val.splits if_splits)
    then have rec: "temps_added fn fn'" "code_below (fn_id fn) (length (fn_temps fn')) ls" using Cons.IH [OF ls(1) i(2)] by simp_all
    then show ?thesis using code_below_mono [OF i(1) temps_added_length [OF rec(1)]] ls(2) by (simp del: append.simps)
  qed
qed simp

lemma proxy_consts_run:
  fixes M :: "('v, 'w) machine"
  assumes mov: "moves_exact M"
  shows "code_below f n is \<Longrightarrow> off_temps f n (env, w) (env', w) \<Longrightarrow> fn_id fn = f \<Longrightarrow> n \<le> length (fn_temps fn) \<Longrightarrow>
    proxy_consts b is fn = (js, c, fn') \<Longrightarrow>
    agree_res (off_temps f n) (rfold (run_inst M) is (env, w)) (rfold (run_inst M) js (env', w))"
proof (induction "is" arbitrary: env env' w fn js c)
  case (Cons i "is")
  have V: "globals_typed (\<lambda>a. Bottom) [] f n (set (vars i))" using Cons.prems(1) by (auto simp: globals_typed_def code_below_def val_below_def)
  have d: "\<not> new_temp f n (key_of d) \<and> global_of [] (val.Left d) = None" if "defined_var i = Some d" for d
  proof -
    have "val_below f n (val.Left d)" using Cons.prems(1) defined_var_vars [OF that] by (simp add: code_below_def)
    then show ?thesis by (simp add: val_below_def global_of_Nil)
  qed
  have ops: "list_all2 (operand_ok M f env env' fn1) (used i) (used i)" if "n \<le> length (fn_temps fn1)" for fn1
    by (rule same_operands [OF V order_refl Cons.prems(2) that])
  obtain us ks fn1 env2 ls c' where us: "js = ks @ with_operands us i # ls" "proxy_consts b is fn1 = (ls, c', fn')"
      "rfold (run_inst M) ks (env', w) = Inr (env2, w)" "off_temps f n (env, w) (env2, w)" "fn_id fn1 = f" "n \<le> length (fn_temps fn1)"
      "list_all2 (operand_ok M f env env2 fn1) (used i) us"
  proof (cases "\<exists>r x k. i = Binary Op_STORE r x (Const k) \<and> is_primitive (ctype k)")
    case True
    then obtain r x k where i: "i = Binary Op_STORE r x (Const k)" "is_primitive (ctype k)" by blast
    let ?l = "TempValue (ctype k) (length (fn_temps fn)) f" and ?fn = "fn\<lparr>fn_temps := fn_temps fn @ [(ctype k, b)]\<rparr>"
    let ?env = "env'(K_temp f (length (fn_temps fn)) := mc_const M k)"
    obtain ls c' where ls: "proxy_consts b is ?fn = (ls, c', fn')"
        "js = [Unary Op_MOV (Some ?l) (Const k)] @ with_operands [x, val.Left ?l] i # ls"
      using Cons.prems(3,5) i by (auto simp: newTemp_def split: prod.splits)
    have rel: "off_temps f n (env, w) (?env, w)" using Cons.prems(2,4) by (auto simp: off_temps_def)
    have "operand_ok M f env env' fn x x" using ops [OF Cons.prems(4)] i by simp
    then have "operand_ok M f env ?env ?fn x x" by (rule operand_ok_later) auto
    then have "list_all2 (operand_ok M f env ?env ?fn) (used i) [x, val.Left ?l]" by (simp add: i operand_ok_def)
    then show ?thesis
      using that [OF ls(2,1) _ rel] Cons.prems(3,4) by (simp add: run_mov [OF mov])
  next
    case False
    then obtain ls c' where ls: "proxy_consts b is fn = (ls, c', fn')" "js = i # ls"
      using Cons.prems(5) by (cases i) (auto split: prod.splits val.splits if_splits)
    then show ?thesis using that [of "[]" "used i" ls fn c' env'] Cons.prems ops by (simp add: with_used)
  qed
  have js: "rfold (run_inst M) js (env', w) = rbind (run_inst M (with_operands us i) (env2, w)) (rfold (run_inst M) ls)"
    using us(3) by (simp add: us(1) rfold_append)
  have "proxies_ok (\<lambda>a. Bottom) [] f n (\<lambda>a. []) env env2 fn1" using us(5,6) by (simp add: proxies_ok_def)
  note step = off_temps_inst [OF us(4) this us(7) d]
  show ?case
    unfolding js rfold.simps
  proof (rule agree_bind [OF step])
    fix x y :: "'v vars_env \<times> 'w"
    assume xy: "off_temps f n x y \<and> proxies_ok (\<lambda>a. Bottom) [] f n (\<lambda>a. []) (fst x) (fst y) fn1"
    obtain env3 w3 env3' where "x = (env3, w3)" "y = (env3', w3)" using xy by (metis off_temps_def prod.collapse)
    then show "agree_res (off_temps f n) (rfold (run_inst M) is x) (rfold (run_inst M) ls y)"
      using Cons.IH [OF _ _ us(5,6,2)] Cons.prems(1) xy by (simp add: code_below_def)
  qed
qed simp

text \<open>
  A block is safe when its globals are not assigned in it, or when it only moves them. The temporary
  of a global is not refreshed after an assignment.
\<close>

definition proxy_safe :: "alloc_id list \<Rightarrow> inst list \<Rightarrow> bool" where
  "proxy_safe gs is \<longleftrightarrow>
     (\<forall>i\<in>set is. \<forall>d. defined_var i = Some d \<longrightarrow> global_of gs (val.Left d) = None) \<or>
     (\<forall>i\<in>set is. is_plain_move i \<or> (\<forall>v\<in>set (used i). global_of gs v = None))"

lemma proxy_vals_none: "\<forall>v\<in>set vs. global_of gs v = None \<Longrightarrow> proxy_vals gs b vs st = (vs, [], st)"
  by (induction vs) (simp_all add: proxy_val_def)

lemma proxy_insts_none:
  "\<forall>i\<in>set is. is_plain_move i \<or> (\<forall>v\<in>set (used i). global_of gs v = None) \<Longrightarrow> \<exists>c. proxy_insts gs b is st = (is, c, snd st)"
proof (induction "is" arbitrary: st)
  case (Cons i "is")
  then obtain c where "proxy_insts gs b is st = (is, c, snd st)" by (metis list.set_intros(2))
  then show ?case using Cons.prems by (cases "is_plain_move i") (auto simp: proxy_vals_none with_used)
next
  case Nil
  show ?case by (rule exI [of _ False]) simp
qed

lemma off_temps_refl: "off_temps f n s s"
  by (simp add: off_temps_def)

lemma off_temps_trans:
  assumes "off_temps f n s s1" "off_temps f m s1 s2" "n \<le> m"
  shows "off_temps f n s s2"
proof -
  obtain env w env1 env2 where s: "s = (env, w)" "s1 = (env1, w)" "s2 = (env2, w)"
    using assms(1,2) by (metis off_temps_def prod.collapse)
  show ?thesis unfolding s by (rule off_temps_later [OF assms(1) [unfolded s] _ assms(3)]) (use assms(2) s in \<open>simp add: off_temps_def\<close>)
qed

lemma agree_res_trans:
  assumes "agree_res R r s" "agree_res R' s t" "\<And>x y z. R x y \<Longrightarrow> R' y z \<Longrightarrow> R'' x z"
  shows "agree_res R'' r t"
  using assms by (cases r; cases s; cases t) auto

lemma global_insts_run:
  fixes M :: "('v, 'w) machine"
  assumes mov: "moves_exact M" and typed: "globals_typed ty_of gs f n V" "\<forall>i\<in>set is. set (vars i) \<subseteq> V" and safe: "proxy_safe gs is"
    and rel: "off_temps f n s s'" and fn: "fn_id fn = f" "n \<le> length (fn_temps fn)"
    and pass: "proxy_insts gs b is (\<lambda>a. [], fn) = (js, c, fn')"
  shows "agree_res (off_temps f n) (rfold (run_inst M) is s) (rfold (run_inst M) js s')"
proof -
  obtain env w env' where s: "s = (env, w)" "s' = (env', w)" using rel by (metis off_temps_def prod.collapse)
  have ok: "proxies_ok ty_of gs f n (\<lambda>a. []) env env' fn" using fn by (simp add: proxies_ok_def)
  show ?thesis
  proof (cases "\<forall>i\<in>set is. \<forall>d. defined_var i = Some d \<longrightarrow> global_of gs (val.Left d) = None")
    case True
    then show ?thesis
      unfolding s using typed(2) by (intro proxy_insts_run [OF mov typed(1) _ rel [unfolded s] ok pass]) auto
  next
    case False
    then obtain c' where "proxy_insts gs b is (\<lambda>a. [], fn) = (is, c', fn)"
      using safe proxy_insts_none [of "is" gs b "(\<lambda>a. [], fn)"] by (auto simp: proxy_safe_def)
    then have js: "js = is" using pass by simp
    have typed': "globals_typed (\<lambda>a. Bottom) [] f n V" using typed(1) by (auto simp: globals_typed_def)
    obtain c'' where pass': "proxy_insts [] b is (\<lambda>a. [], fn) = (is, c'', fn)"
      using proxy_insts_none [of "is" "[]" b "(\<lambda>a. [], fn)"] by (auto simp: global_of_Nil)
    have ok': "proxies_ok (\<lambda>a. Bottom) [] f n (\<lambda>a. []) env env' fn" using fn by (simp add: proxies_ok_def)
    show ?thesis
      unfolding s js using typed(2) by (intro proxy_insts_run [OF mov typed' _ rel [unfolded s] ok' pass']) (auto simp: global_of_Nil)
  qed
qed

text \<open>Both loops on one block.\<close>

lemma proxy_block_spec:
  fixes M :: "('v, 'w) machine"
  assumes mov: "moves_exact M" and typed: "globals_typed ty_of gs f n (block_occurs k)" and safe: "proxy_safe gs (bk_insts k)"
    and h: "fn_id h = f" "n \<le> length (fn_temps h)" "fn_blk h b = k" and phis: "\<forall>i\<in>set (bk_insts k). \<not> is_phi_inst i"
  shows "\<exists>k' extra c'. rbind (in_block (convert_global gs) b (c, h)) (in_block convert_constexpr b) =
      Inr (c', h\<lparr>fn_blk := (fn_blk h)(b := k'), fn_temps := fn_temps h @ extra\<rparr>) \<and> spilled_block M (off_temps f n) k k'"
proof -
  obtain js c1 h1 where js: "proxy_insts gs b (bk_insts k) (\<lambda>a. [], h) = (js, c1, h1)" by (metis prod.collapse)
  have below: "code_below f n (bk_insts k)"
    using typed phis by (auto simp: code_below_def val_below_def globals_typed_def block_occurs_def)
  have 1: "temps_added h h1" "code_below f (length (fn_temps h1)) js"
    using proxy_insts_below [OF js] code_below_mono [OF below h(2)] h(1) by (auto simp: proxies_below_def)
  let ?h1 = "update_block b (\<lambda>k. k\<lparr>bk_insts := js\<rparr>) h1"
  obtain ks c2 h2 where ks: "proxy_consts b js ?h1 = (ks, c2, h2)" by (metis prod.collapse)
  have id1: "fn_id ?h1 = f" "fn_temps ?h1 = fn_temps h1" using 1(1) h(1) by (auto simp: update_block_def temps_added_def)
  have 2: "temps_added ?h1 h2" "code_below f (length (fn_temps h2)) ks"
    using proxy_consts_below [OF ks] 1(2) id1 by simp_all
  let ?k = "k\<lparr>bk_insts := ks\<rparr>"
  have blk: "fn_blk h1 = fn_blk h" using 1(1) by (auto simp: temps_added_def)
  have eq: "\<exists>extra. update_block b (\<lambda>k. k\<lparr>bk_insts := ks\<rparr>) h2 = h\<lparr>fn_blk := (fn_blk h)(b := ?k), fn_temps := fn_temps h @ extra\<rparr>"
  proof -
    obtain ex where ex: "h1 = h\<lparr>fn_temps := fn_temps h @ ex\<rparr>" using 1(1) by (auto simp: temps_added_def)
    obtain ex' where "h2 = ?h1\<lparr>fn_temps := fn_temps ?h1 @ ex'\<rparr>" using 2(1) by (auto simp: temps_added_def)
    then show ?thesis using h(3) by (intro exI [of _ "ex @ ex'"]) (simp add: ex update_block_def)
  qed
  have pass: "\<exists>c'. rbind (in_block (convert_global gs) b (c, h)) (in_block convert_constexpr b) =
      Inr (c', update_block b (\<lambda>k. k\<lparr>bk_insts := ks\<rparr>) h2)"
    using js ks h(3) by (simp add: in_block_def convert_global_def convert_constexpr_def update_block_def)
  have len: "n \<le> length (fn_temps h1)" using h(2) temps_added_length [OF 1(1)] by simp
  have "agree_res (off_temps f n) (rfold (run_inst M) (bk_insts k) s) (rfold (run_inst M) ks s')" if rel: "off_temps f n s s'" for s s'
  proof (rule agree_res_trans)
    show "agree_res (off_temps f n) (rfold (run_inst M) (bk_insts k) s) (rfold (run_inst M) js s')"
      by (rule global_insts_run [OF mov typed _ safe rel h(1,2) js]) (auto simp: block_occurs_def)
    obtain env' w' where s': "s' = (env', w')" by force
    show "agree_res (off_temps f (length (fn_temps h1))) (rfold (run_inst M) js s') (rfold (run_inst M) ks s')"
      unfolding s' by (rule proxy_consts_run [OF mov 1(2) off_temps_refl id1(1) _ ks]) (simp add: id1(2))
  qed (rule off_temps_trans [OF _ _ len])
  note run = this
  have exit: "run_exit M (fst y) e = run_exit M (fst x) e" if e: "bk_exit k = Some e" and xy: "off_temps f n x y" for x y e
  proof -
    have "val_of M (fst y) v = val_of M (fst x) v" if "used_exit e = Some v" for v
    proof (cases v)
      case (Left l)
      then have "l \<in> block_occurs k" using e that by (auto simp: block_occurs_def used_var_exit_def)
      then show ?thesis using Left typed xy by (simp add: globals_typed_def off_temps_def)
    qed simp
    then show ?thesis by (cases e) simp_all
  qed
  have "agree_res (\<lambda>x y. fst y = fst x \<and> off_temps f n (snd x) (snd y)) (run_body M k s) (run_body M ?k s')"
    if rel: "off_temps f n s s'" for s s'
    unfolding run_body_def
  proof (rule agree_bind)
    show "agree_res (off_temps f n) (rfold (run_inst M) (bk_insts k) s) (rfold (run_inst M) (bk_insts ?k) s')" using run [OF rel] by simp
    fix x y :: "'v vars_env \<times> 'w" assume xy: "off_temps f n x y"
    show "agree_res (\<lambda>x y. fst y = fst x \<and> off_temps f n (snd x) (snd y))
      (rbind (get_exit k) (\<lambda>e. rbind (run_exit M (fst x) e) (\<lambda>nx. Inr (nx, x))))
      (rbind (get_exit ?k) (\<lambda>e. rbind (run_exit M (fst y) e) (\<lambda>nx. Inr (nx, y))))"
    proof (cases "bk_exit k")
      case (Some e)
      then show ?thesis using exit [OF Some xy] xy by (cases "run_exit M (fst x) e") (simp_all add: get_exit_def)
    qed (simp add: get_exit_def)
  qed
  then have "spilled_block M (off_temps f n) k ?k" using 2(2) unfolding spilled_block_def code_below_def by simp
  then show ?thesis using pass eq by metis
qed

text \<open>Functions that use each global with one type and in safe blocks only.\<close>

definition proxy_ready :: "alloc_store \<Rightarrow> alloc_id list \<Rightarrow> ir_func \<Rightarrow> bool" where
  "proxy_ready A gs fn \<longleftrightarrow>
     well_formed fn \<and> distinct (fn_blocks fn) \<and> phi_free fn \<and> temps_ok fn \<and>
     (\<forall>t a. NamedValue t (Def_alloc a) \<in> occurs fn \<longrightarrow> a \<in> set gs \<longrightarrow> t = type_of_lv (alloc_value A a)) \<and>
     (\<forall>b\<in>set (fn_blocks fn). proxy_safe gs (bk_insts (fn_blk fn b)))"

lemma proxy_func_spec:
  fixes M :: "('v, 'w) machine"
  assumes mov: "moves_exact M" and ready: "proxy_ready A gs fn"
  shows "\<exists>c h. proxy_func gs fn = Inr (c, h) \<and> fn_id h = fn_id fn \<and> fn_params h = fn_params fn \<and>
    (\<forall>n env w. run_func M h n env w = run_func M fn n env w)"
proof -
  let ?f = "fn_id fn" and ?n = "length (fn_temps fn)"
  let ?R = "off_temps ?f ?n :: 'v vars_env \<times> 'w \<Rightarrow> 'v vars_env \<times> 'w \<Rightarrow> bool"
  have wf: "well_formed fn" "phi_free fn" using ready by (simp_all add: proxy_ready_def)
  have typed: "globals_typed (\<lambda>a. type_of_lv (alloc_value A a)) gs ?f ?n (block_occurs (fn_blk fn b))" if "b \<in> set (fn_blocks fn)" for b
    unfolding globals_typed_def
  proof (intro ballI conjI allI impI)
    fix l assume "l \<in> block_occurs (fn_blk fn b)"
    then have l: "l \<in> occurs fn" using that by (auto simp: occurs_def)
    show "\<not> new_temp ?f ?n (key_of l)" using ready l by (intro old_vars) (simp_all add: proxy_ready_def)
    show "t = type_of_lv (alloc_value A a)" if "l = NamedValue t (Def_alloc a)" "a \<in> set gs" for t a
      using ready l that by (simp add: proxy_ready_def)
  qed
  have "distinct bs \<Longrightarrow> set bs \<subseteq> set (fn_blocks fn) \<Longrightarrow> fn_id h = ?f \<Longrightarrow> ?n \<le> length (fn_temps h) \<Longrightarrow>
      fn_blocks h = fn_blocks fn \<Longrightarrow> fn_params h = fn_params fn \<Longrightarrow>
      (\<forall>b\<in>set bs. fn_blk h b = fn_blk fn b) \<Longrightarrow>
      (\<forall>b\<in>set (fn_blocks fn) - set bs. spilled_block M ?R (fn_blk fn b) (fn_blk h b)) \<Longrightarrow>
      \<exists>c' h'. rfold (\<lambda>b st. rbind (in_block (convert_global gs) b st) (in_block convert_constexpr b)) bs (c, h) = Inr (c', h') \<and>
        fn_id h' = ?f \<and> fn_blocks h' = fn_blocks fn \<and> fn_params h' = fn_params fn \<and>
        (\<forall>b\<in>set (fn_blocks fn). spilled_block M ?R (fn_blk fn b) (fn_blk h' b))" for bs c h
  proof (induction bs arbitrary: c h)
    case (Cons b bs)
    have b: "b \<in> set (fn_blocks fn)" "fn_blk h b = fn_blk fn b" using Cons.prems(2,7) by simp_all
    have "proxy_safe gs (bk_insts (fn_blk fn b))" "\<forall>i\<in>set (bk_insts (fn_blk fn b)). \<not> is_phi_inst i"
      using ready wf(2) b(1) by (simp_all add: phi_free_def proxy_ready_def)
    from proxy_block_spec [OF mov typed [OF b(1)] this(1) Cons.prems(3,4) b(2) this(2), of c]
    obtain k' extra c' where k': "rbind (in_block (convert_global gs) b (c, h)) (in_block convert_constexpr b) =
          Inr (c', h\<lparr>fn_blk := (fn_blk h)(b := k'), fn_temps := fn_temps h @ extra\<rparr>)"
        "spilled_block M ?R (fn_blk fn b) k'"
      by blast
    show ?case
      using Cons.IH [of "h\<lparr>fn_blk := (fn_blk h)(b := k'), fn_temps := fn_temps h @ extra\<rparr>" c'] Cons.prems k' by auto
  qed simp
  from this [of "fn_blocks fn" fn False] obtain c h where h: "proxy_func gs fn = Inr (c, h)" "fn_id h = ?f"
      "fn_blocks h = fn_blocks fn" "fn_params h = fn_params fn" "\<forall>b\<in>set (fn_blocks fn). spilled_block M ?R (fn_blk fn b) (fn_blk h b)"
    using ready by (auto simp: proxy_func_def proxy_ready_def)
  have "run_func M h n env w = run_func M fn n env w" for n env w
  proof -
    have "agree_res (\<lambda>x y. fst y = fst x \<and> (\<exists>env env'. ?R (env, snd x) (env', snd y))) (run_func M fn n env w) (run_func M h n env w)"
      by (rule agree_run_func [OF spilled_blocks_agree [OF h(3) wf(2) h(5)] wf(1) off_temps_refl])
    then show ?thesis by (cases "run_func M fn n env w"; cases "run_func M h n env w") (auto simp: off_temps_def prod_eq_iff)
  qed
  then show ?thesis using h(1,2,4) by blast
qed

lemma each_func_all:
  "\<forall>fn\<in>set fns. \<exists>c h. f fn = Inr (c, h) \<and> P fn h \<Longrightarrow> \<exists>c hs. each_func f fns = Inr (c, hs) \<and> list_all2 P fns hs"
proof (induction fns)
  case Nil
  then show ?case by (intro exI [of _ False] exI [of _ "[]"]) simp
next
  case (Cons fn fns)
  then obtain c h cs hs where "f fn = Inr (c, h)" "P fn h" "each_func f fns = Inr (cs, hs)" "list_all2 P fns hs" by force
  then show ?case by (intro exI [of _ "c \<or> cs"] exI [of _ "h # hs"]) simp
qed

lemma proxies_all:
  assumes "moves_exact M" "\<forall>fn\<in>set (pr_funcs p). proxy_ready (pr_alloc p) (pr_globals p) fn"
  shows "\<exists>c p'. AccessProxyLowering p = Inr (c, p') \<and>
    list_all2 (\<lambda>fn g. fn_params g = fn_params fn \<and> (\<forall>n env w. run_func M g n env w = run_func M fn n env w)) (pr_funcs p) (pr_funcs p')"
proof -
  have "\<exists>c hs. each_func (proxy_func (pr_globals p)) (pr_funcs p) = Inr (c, hs) \<and>
      list_all2 (\<lambda>fn g. fn_params g = fn_params fn \<and> (\<forall>n env w. run_func M g n env w = run_func M fn n env w)) (pr_funcs p) hs"
    using proxy_func_spec [OF assms(1)] assms(2) by (intro each_func_all) blast
  then obtain c hs where "each_func (proxy_func (pr_globals p)) (pr_funcs p) = Inr (c, hs)"
      "list_all2 (\<lambda>fn g. fn_params g = fn_params fn \<and> (\<forall>n env w. run_func M g n env w = run_func M fn n env w)) (pr_funcs p) hs" by blast
  then show ?thesis by (intro exI [of _ c] exI [of _ "p\<lparr>pr_funcs := hs\<rparr>"]) (simp add: AccessProxyLowering_def)
qed



section \<open>Instances\<close>

text \<open>A small machine with one memory cell, whose address is the value 0.\<close>

fun cell_op :: "operation \<Rightarrow> ty option \<Rightarrow> (ty \<times> nat) list \<Rightarrow> nat \<Rightarrow> (nat \<times> nat) result" where
  "cell_op (Do_unary Op_LOAD) t [(u, 0)] w = Inr (w, w)"
| "cell_op (Do_binary Op_STORE) t [(u, 0), (u', v)] w = Inr (1, v)"
| "cell_op (Do_unary Op_MOV) t [(u, v)] w = Inr (v, w)"
| "cell_op op t xs w = Inr (Suc (sum_list (map snd xs)), w)"

definition cell_machine :: "(nat, nat) machine" where
  "cell_machine = \<lparr>mc_const = (\<lambda>c. case cvalue c of V_int v \<Rightarrow> Suc (unat v) | _ \<Rightarrow> 1), mc_op = cell_op, mc_test = (\<lambda>v. Inr (v = 1))\<rparr>"

definition stale_alloc :: alloc_store where
  "stale_alloc = (\<lambda>a. \<lparr>al_name = ''g'', al_type = Prim Int32, al_comptime = False, al_immutable = False,
     al_reference = False, al_init = None\<rparr>)"

abbreviation stale_g :: left_value where "stale_g \<equiv> NamedValue (Prim Int32) (Def_alloc 0)"

text \<open>A function that uses a global, assigns it and uses it again.\<close>

definition stale_fn :: ir_func where
  "stale_fn = \<lparr>fn_id = 0, fn_name = ''f'', fn_ret = Prim Int32, fn_params = [], fn_locals = [], fn_blocks = [0],
     fn_blk = (\<lambda>b. \<lparr>bk_label = ''a'',
       bk_insts = [Binary Op_ADD (Some (TempValue (Prim Int32) 0 0)) (val.Left stale_g) (Const (mk_const (V_int 1))),
         Unary Op_MOV (Some stale_g) (Const (mk_const (V_int 5))),
         Binary Op_ADD (Some (TempValue (Prim Int32) 1 0)) (val.Left stale_g) (Const (mk_const (V_int 2)))],
       bk_exit = Some (ReturnExit (val.Left (TempValue (Prim Int32) 1 0)))\<rparr>),
     fn_temps = [(Prim Int32, 0), (Prim Int32, 0)], fn_loops = []\<rparr>"

definition stale_prog :: ir_program where
  "stale_prog = \<lparr>pr_alloc = stale_alloc, pr_globals = [0], pr_funcs = [stale_fn], pr_builtins = [], pr_is_ssa = False\<rparr>"

text \<open>
  A function that uses a global, assigns 5 to it and returns 5 + 2: the temporary of the global still has
  the old value, so the pass changes the result.
\<close>

theorem AccessProxyLowering_stale:
  "\<exists>c p' g. AccessProxyLowering stale_prog = Inr (c, p') \<and> pr_funcs p' = [g] \<and>
    run_func cell_machine stale_fn 1 env w = Inr (Some 10, w) \<and>
    run_func cell_machine g 1 env w = Inr (Some (env (K_named (Def_alloc 0)) + 4), w)"
proof -
  let ?t = "\<lambda>i. TempValue (Prim Int32) i 0" and ?c = "\<lambda>n. Const (mk_const (V_int n))"
  let ?is = "[Unary Op_MOV (Some (?t 2)) (val.Left stale_g), Binary Op_ADD (Some (?t 0)) (val.Left (?t 2)) (?c 1),
    Unary Op_MOV (Some stale_g) (?c 5), Binary Op_ADD (Some (?t 1)) (val.Left (?t 2)) (?c 2)]"
  let ?g = "stale_fn\<lparr>fn_temps := fn_temps stale_fn @ [(Prim Int32, 0)], fn_blk := (fn_blk stale_fn)(0 := (fn_blk stale_fn 0)\<lparr>bk_insts := ?is\<rparr>)\<rparr>"
  have "proxy_func [0] stale_fn = Inr (True, ?g)"
    by (simp add: proxy_func_def stale_fn_def in_block_def convert_global_def convert_constexpr_def update_block_def proxy_val_def
        newTemp_def eq_ty_def numeral_2_eq_2)
  then have "\<exists>c p'. AccessProxyLowering stale_prog = Inr (c, p') \<and> pr_funcs p' = [?g]"
    by (intro exI [of _ True] exI [of _ "stale_prog\<lparr>pr_funcs := [?g]\<rparr>"]) (simp add: AccessProxyLowering_def stale_prog_def)
  moreover have "run_func cell_machine stale_fn 1 env w = Inr (Some 10, w)"
    by (simp add: run_func_def entrance_def stale_fn_def run_block_def run_inst_def put_result_def get_exit_def cell_machine_def mk_const_def)
  moreover have "run_func cell_machine ?g 1 env w = Inr (Some (env (K_named (Def_alloc 0)) + 4), w)"
    by (simp add: run_func_def entrance_def stale_fn_def run_block_def run_inst_def put_result_def get_exit_def cell_machine_def mk_const_def)
  ultimately show ?thesis by blast
qed

text \<open>One use of the global only.\<close>

definition fresh_fn :: ir_func where
  "fresh_fn = stale_fn\<lparr>fn_blk := (\<lambda>b. (fn_blk stale_fn b)\<lparr>bk_insts := tl (tl (bk_insts (fn_blk stale_fn b)))\<rparr>)\<rparr>"

lemma cell_machine_moves: "moves_exact cell_machine"
  by (simp add: moves_exact_def cell_machine_def)

lemma stale_occurs: "occurs stale_fn = {stale_g, TempValue (Prim Int32) 0 0, TempValue (Prim Int32) 1 0}"
  by (auto simp: occurs_def block_occurs_def stale_fn_def vars_def used_vars_def List.map_filter_simps used_var_exit_def)

lemma fresh_ready: "proxy_ready stale_alloc [0] fresh_fn"
  by (auto simp: proxy_ready_def cfg_defined_def fresh_fn_def stale_fn_def exit_succs_def block_targets_def phi_free_def temps_ok_def occurs_def block_occurs_def
      vars_def used_vars_def List.map_filter_simps used_var_exit_def alloc_value_def stale_alloc_def proxy_safe_def)


lemma cell_op_clean:
  "snd ` set xs \<inter> {0} = {} \<Longrightarrow> \<exists>v. v \<noteq> 0 \<and> (\<forall>w. cell_op op t xs w = Inr (v, w))"
  by (cases "(op, t, xs, 0 :: nat)" rule: cell_op.cases) auto

lemma cell_machine_exact: "cells_exact cell_machine {K_named (Def_alloc 0)} (\<lambda>k. 0) (\<lambda>w k. w) (\<lambda>w w'. True)"
  unfolding cells_exact_def
proof (intro conjI allI ballI impI)
  show "mc_const cell_machine c \<notin> (\<lambda>k. 0) ` {K_named (Def_alloc 0)}" for c
    by (simp add: cell_machine_def split: cval.split)
  fix op t and xs :: "(ty \<times> nat) list" and w w' :: nat assume "snd ` set xs \<inter> (\<lambda>k. 0) ` {K_named (Def_alloc 0)} = {}"
  then obtain v where "v \<noteq> 0" "\<forall>w. cell_op op t xs w = Inr (v, w)" using cell_op_clean [of xs op t] by auto
  then show "agree_res (\<lambda>x y. fst y = fst x \<and> fst x \<notin> (\<lambda>k. 0) ` {K_named (Def_alloc 0)} \<and> True \<and> (\<forall>k\<in>{K_named (Def_alloc 0)}. snd y = w'))
      (mc_op cell_machine op t xs w) (mc_op cell_machine op t xs w')" by (simp add: cell_machine_def)
qed (auto simp: cell_machine_def)


section \<open>Names of array initialisers\<close>

definition next_global :: "ir_program \<Rightarrow> alloc_id" where
  "next_global p = Suc (length (pr_globals p))"

text \<open>Two blocks that each store an array.\<close>

definition clash_fn :: ir_func where
  "clash_fn = \<lparr>fn_id = 0, fn_name = ''f'', fn_ret = unit_ty, fn_params = [], fn_locals = [0], fn_blocks = [0, 1],
     fn_blk = (\<lambda>b. \<lparr>bk_label = if b = 0 then ''a'' else ''b'',
       bk_insts = [Binary Op_STORE None (val.Left (NamedValue (slice (Prim Int32) False) (Def_alloc 0)))
         (Const (Constexpr (Array (Prim Int32) 1) (V_bytes [if b = 0 then 1 else 2, 0, 0, 0])))],
       bk_exit = Some (if b = 0 then JumpExit 1 else ReturnExit (Const void_const))\<rparr>),
     fn_temps = [], fn_loops = []\<rparr>"

definition clash_prog :: ir_program where
  "clash_prog = \<lparr>pr_alloc = stale_alloc, pr_globals = [], pr_funcs = [clash_fn], pr_builtins = [], pr_is_ssa = False\<rparr>"

text \<open>
  Two blocks of one function that each store an array give two globals of the same name with different
  contents, because the counter starts again with every block.
\<close>

theorem ArrayInitLowering_name_clash:
  "\<exists>c p' a b. ArrayInitLowering next_global (snd (AddStandardLib clash_prog)) = Inr (c, p') \<and> pr_globals p' = [a, b] \<and> a \<noteq> b \<and>
    al_name (pr_alloc p' a) = al_name (pr_alloc p' b) \<and> al_init (pr_alloc p' a) \<noteq> al_init (pr_alloc p' b)"
proof -
  let ?p = "snd (AddStandardLib clash_prog)"
  have b: "pr_builtins ?p = stdlibs" "pr_funcs ?p = [clash_fn]" "pr_globals ?p = []" "pr_alloc ?p = stale_alloc"
    by (simp_all add: AddStandardLib_def stdlibs_def addBuiltinFunc_def clash_prog_def)
  have find: "findBuiltin ''memset'' p = Inr (snd (stdlibs ! 1), Def_builtin 1)" "findBuiltin ''memcpy'' p = Inr (snd (stdlibs ! 0), Def_builtin 0)"
    if "pr_builtins p = stdlibs" for p
    using that by (simp_all add: findBuiltin_def stdlibs_def numeral_2_eq_2)
  have len: "length stdlibs = 2" by (simp add: stdlibs_def)
  let ?c = "\<lambda>k. Constexpr (Array (Prim Int32) 1) (V_bytes [k, 0, 0, 0])"
  let ?al = "\<lambda>k. \<lparr>al_name = init_name clash_fn 0, al_type = Array (Prim Int32) 1, al_comptime = True, al_immutable = True, al_reference = True,
    al_init = Some (?c k)\<rparr>"
  have four: "replicate 4 (0 :: u8) = [0, 0, 0, 0]" by (simp add: eval_nat_numeral)
  have zero: "zeros_like (Array (Prim Int32) 1) = Inr (Constexpr (Array (Prim Int32) 1) (V_bytes [0, 0, 0, 0]))"
    by (simp add: four)
  have store: "\<exists>js. lower_array_store next_global fn v (Const (?c k)) (0, p) = Inr (js, 1, addGlobal (next_global p) (?al k) p)"
    if "pr_builtins p = stdlibs" "k = 1 \<or> k = 2" "fn_name fn = fn_name clash_fn" for p k v fn
  proof -
    have nz: "constexpr_eq (?c k) (Constexpr (Array (Prim Int32) 1) (V_bytes [0, 0, 0, 0])) = Inr False"
      using that(2) by (auto simp: constexpr_eq_def eq_ty_def elem_bytes_def eval_nat_numeral)
    have pr: "prune (?c k) = Inr (?c k)"
      using that(2) by (auto simp: prune_def elem_bytes_def elem_is_zero_def eval_nat_numeral)
    have size: "abi_size (Array (Prim Int32) 1) = Inr 4" by simp
    have alloc: "alloc_constant (init_name fn 0) (Array (Prim Int32) 1) (?c k) True = Inr (?al k)"
      using that(3) by (simp add: alloc_constant_def mk_alloc_def init_name_def)
    show ?thesis
      unfolding lower_array_store_def prod.case type_of.simps constexpr.sel size rbind.simps val.case find [OF that(1)] Let_def zero nz if_False
        pr alloc by simp
  qed
  have insts: "\<exists>is. lower_inits next_global fn (bk_insts (fn_blk fn b)) (0, p) = Inr (is, True, addGlobal (next_global p) (?al (if b = 0 then 1 else 2)) p)"
    if "pr_builtins p = stdlibs" "fn_name fn = fn_name clash_fn" "fn_blk fn b = fn_blk clash_fn b" for p fn b
  proof -
    note asm = that
    let ?k = "if b = 0 then 1 else 2 :: 8 word"
    have k: "?k = 1 \<or> ?k = 2" by simp
    obtain js where js: "lower_array_store next_global fn (val.Left (NamedValue (slice (Prim Int32) False) (Def_alloc 0))) (Const (?c ?k)) (0, p) =
        Inr (js, 1, addGlobal (next_global p) (?al ?k) p)"
      using store [OF asm(1) k asm(2)] by blast
    have "bk_insts (fn_blk fn b) = [Binary Op_STORE None (val.Left (NamedValue (slice (Prim Int32) False) (Def_alloc 0))) (Const (?c ?k))]"
      unfolding asm(3) by (simp add: clash_fn_def)
    then show ?thesis using js by simp
  qed
  let ?lower = "\<lambda>b is. \<lambda>fn. update_block b (\<lambda>x. x\<lparr>bk_insts := is\<rparr>) fn"
  have step: "\<exists>is. array_block next_global 0 b (c, q) =
      Inr (True, (addGlobal (next_global q) (?al (if b = 0 then 1 else 2)) q)\<lparr>pr_funcs := [?lower b is f]\<rparr>)"
    if "pr_builtins q = stdlibs" "pr_funcs q = [f]" "fn_name f = fn_name clash_fn" "fn_blk f b = fn_blk clash_fn b" for b c q f
    using insts [OF that(1) that(3) that(4)] that(2) by (auto simp: array_block_def addGlobal_def)
  obtain is0 where s0: "array_block next_global 0 0 (False, ?p) =
      Inr (True, (addGlobal (next_global ?p) (?al 1) ?p)\<lparr>pr_funcs := [?lower 0 is0 clash_fn]\<rparr>)"
    using step [OF b(1) b(2), of 0 False] by auto
  let ?q = "(addGlobal (next_global ?p) (?al 1) ?p)\<lparr>pr_funcs := [?lower 0 is0 clash_fn]\<rparr>"
  have q: "pr_builtins ?q = stdlibs" "pr_funcs ?q = [?lower 0 is0 clash_fn]" "pr_globals ?q = [1]" "pr_alloc ?q 1 = ?al 1"
    using b(1,3) by (simp_all add: addGlobal_def next_global_def)
  have qb: "fn_name (?lower 0 is0 clash_fn) = fn_name clash_fn" "fn_blk (?lower 0 is0 clash_fn) 1 = fn_blk clash_fn 1"
    by (simp_all add: update_block_def)
  obtain is1 where s1: "array_block next_global 0 1 (True, ?q) =
      Inr (True, (addGlobal (next_global ?q) (?al 2) ?q)\<lparr>pr_funcs := [?lower 1 is1 (?lower 0 is0 clash_fn)]\<rparr>)"
    using step [OF q(1,2) qb, of True] by auto
  let ?r = "(addGlobal (next_global ?q) (?al 2) ?q)\<lparr>pr_funcs := [?lower 1 is1 (?lower 0 is0 clash_fn)]\<rparr>"
  have n: "next_global ?q = 2" using q(3) by (simp add: next_global_def)
  have "array_func next_global 0 (False, ?p) = Inr (True, ?r)"
    using s0 s1 b(2) by (simp add: array_func_def clash_fn_def)
  then have run: "ArrayInitLowering next_global ?p = Inr (True, ?r)"
    using b(2) by (simp add: ArrayInitLowering_def)
  have "pr_globals ?r = [1, 2]" "pr_alloc ?r 1 = ?al 1" "pr_alloc ?r 2 = ?al 2"
    using q(3,4) n by (simp_all add: addGlobal_def)
  then show ?thesis
    unfolding run by (intro exI [of _ True] exI [of _ ?r] exI [of _ 1] exI [of _ 2]) simp
qed

end
