(* ===== verification/Spec2Isabelle.thy ===== *)
theory Spec2Isabelle
  imports Isel_Correct Isel_Frame Isel_Store Dominance Ssa_Copies Ra_Sound Irgen_Sound
    Ir_Fold_Sound Ir_Dead_Sound Ir_Copy_Sound Ir_Vm_Frame Ir_Lower_Sound
begin

text \<open>
  This is a verification library for the compiler in \<open>src/\<close>, which translates a small imperative
  language into an intermediate representation (IR), optimises it, and lowers it to RV64 assembly;
  the repository also holds an interpreter of the IR and a virtual machine for the RV64 code.

  The parts and how they interact. The front end (\<open>frontend/ast\<close>) checks the syntax tree,
  from which the generator (\<open>backend/ir/gen\<close>) makes the IR; the IR (\<open>backend/ir\<close>) is a list of functions of basic blocks over named, temporary
  and SSA variables; instruction selection (\<open>backend/rv64/isel.hpp\<close>) takes the IR with the colouring
  of the register allocator and produces a module of RV64 instructions (\<open>backend/rv64/inst.hpp\<close>); the
  passes in \<open>backend/rv64/optim\<close> rewrite the module; the virtual machine (\<open>backend/rv64/vm\<close>) flattens
  and executes it.

  The theories, in the order in which they build on each other:

  \<^item> \<open>Prelude\<close>: errors as values, the result type and its bind, machine integers, bytes of words.
  \<^item> \<open>Ir_Op\<close>: the operators (\<open>ast/op.hpp\<close>, \<open>ir/op.hpp\<close>). \<open>Ir_Type\<close>: types, sizes, subtyping, joins,
    initialiser check (\<open>ir/type.hpp\<close>). \<open>Ir_Value\<close>: constants, variables, allocations
    (\<open>ir/value.cpp\<close>, \<open>ir/alloc.cpp\<close>). \<open>Ir_Inst\<close>: instructions, blocks, functions, the walks over
    them (\<open>ir/ir.h\<close>, \<open>inst.cpp\<close>, \<open>block.cpp\<close>, \<open>func.cpp\<close>, \<open>analysis/utils.hpp\<close>). \<open>Ir_Order\<close>: the
    post order, undefined where it meets a block without exit. \<open>Ir_Eval\<close>: the scalar semantics of the IR interpreter (\<open>ir/vm/vm.h\<close>,
    \<open>ir/vm/assign.cpp\<close>).
  \<^item> \<open>Ast\<close>: the syntax tree (\<open>ast/ast.hpp\<close>). \<open>Sema\<close>: scopes, name resolution and type checking
    (\<open>ast/analysis\<close>). \<open>Sema_Sound\<close>: recorded types respect their bounds, statements leave the scopes
    alone, constants are not assigned. \<open>Irgen\<close>: the translation of the checked tree (\<open>ir/gen\<close>).
    \<open>Irgen_Sound\<close>: checked expressions translate to values of their types, names are unique.
  \<^item> \<open>Rv64_Inst\<close>: registers, opcodes, instructions, modules. \<open>Abi\<close>: the calling convention
    (\<open>rv64/abi.hpp\<close>, \<open>ir/lowering/abi.hpp\<close>). \<open>Rv64_Vm\<close>: the virtual machine, instruction by
    instruction, with its built-in functions, loader and execution loop. \<open>Rv64_Block\<close>: a semantics
    of basic blocks and its agreement with the machine.
  \<^item> \<open>Rv64_Peephole\<close> and \<open>Rv64_Labels\<close>: the optimisation passes and their correctness, the
    window loop through the locale \<open>sound_rule\<close>.
  \<^item> \<open>Isel\<close>: instruction selection. \<open>Isel_Correct\<close>: the code for integer operations computes what
    the IR interpreter computes, for the types and constants that the theorem names, and what it
    computes for constants outside them. \<open>Isel_Frame\<close>: the layout of the stack frame. \<open>Isel_Store\<close>: the
    stores of local initialisers write the given bytes; their offsets can be encoded up to 2048 bytes.

  \<^item> \<open>Dataflow\<close>: the iterative data-flow solver (\<open>ir/analysis/dataflow/framework.hpp\<close>); the locale
    \<open>flow_problem\<close> shows that it ends in the best solution of a monotone problem. \<open>Liveness\<close> and
    \<open>Dominance\<close> interpret it (\<open>dataflow/liveness.hpp\<close>, \<open>dataflow/dominance.hpp\<close>,
    \<open>analysis/dominance.hpp\<close>) and show the results exact with respect to paths.
  \<^item> \<open>Usedef\<close>: the use-def graph and its callbacks (\<open>ir/analysis/usedef.cpp\<close>); it stays exact.
  \<^item> \<open>Ir_Fold\<close>: constant folding and strength reduction (\<open>optim/constant_fold.hpp\<close>,
    \<open>optim/strength_reduce.hpp\<close>). \<open>Ir_Fold_Sound\<close>: a store semantics of scalar blocks, and that both
    passes keep it. \<open>Ir_Dead\<close>, \<open>Ir_Dead_Sound\<close>: the elimination of dead definitions, allocations and
    blocks (\<open>optim/dead_def.hpp\<close>, \<open>dead_alloc.hpp\<close>, \<open>dead_block.hpp\<close>) ends and leaves what is used
    and reachable. \<open>Ir_Copy\<close>, \<open>Ir_Copy_Sound\<close>: copy propagation and common subexpressions
    (\<open>optim/copy_propagation.hpp\<close>, \<open>common_expr.hpp\<close>).
  \<^item> \<open>Ir_Vm\<close>: the interpreter of the IR (\<open>ir/vm/exec.cpp\<close>, \<open>vm.h\<close>, \<open>assign.cpp\<close>): views, memory, frames,
    calls, built-in functions. \<open>Ir_Vm_Sound\<close>: it refines the store semantics; more fuel does not change
    a result. \<open>Ir_Vm_Frame\<close>: the variables of an activation have disjoint cells, and folded blocks run
    to the same values.
  \<^item> \<open>Ssa_Construct\<close>: phi placement and renaming (\<open>ir/transform/ssa/construct.hpp\<close>). \<open>Ssa_Phi\<close>: the
    phis are on the iterated frontiers. \<open>Ssa_Rename\<close>: the walk over the dominator tree and what it
    makes of a block. \<open>Ssa_Sound\<close>, \<open>Ssa_Run\<close>: the program in SSA form runs in lock step with the
    original, on a machine that is a parameter.
  \<^item> \<open>Ssa_Copies\<close>: the copies that replace phi instructions (\<open>ir/transform/ssa/destruct.hpp\<close>) act in
    parallel. \<open>Ssa_Destruct\<close>: the rest of the way out of SSA form. \<open>Ssa_Vars\<close>: replacing variables
    throughout a program keeps what it computes. \<open>Ssa_Split\<close>: so does splitting the critical edges.
    \<open>Ssa_Moves\<close>: and so do the moves at the ends of the predecessors. \<open>Ssa_Out\<close>: the composition of
    all passes.
  \<^item> \<open>Ir_Lower\<close>: the passes between the way out of SSA form and the register allocator: address
    arithmetic (\<open>ir/lowering/addr.hpp\<close>), library functions (\<open>stdlib.hpp\<close>), array initialisers
    (\<open>array.hpp\<close>), temporaries for globals (\<open>proxy.hpp\<close>), variables in memory (\<open>reg2mem.hpp\<close>).
    \<open>Ir_Lower_Sound\<close>: variables in memory refine the original program, temporaries for globals keep
    it where no block assigns a global it uses, and examples of what goes wrong elsewhere.
  \<^item> \<open>Ir_Key\<close>: the order of variables. \<open>Ra_Graph\<close>: the interference graph and its construction
    (\<open>ir/lowering/regalloc/graph.hpp\<close>). \<open>Ra_Colour\<close>: the colouring (\<open>regalloc/colorize.hpp\<close>).
    \<open>Ra_Loop\<close>: the invariant of its main loop. \<open>Ra_Build\<close>: the graphs that are built and the
    interferences they hold. \<open>Ra_Sound\<close>: the colouring is proper and complete, and two variables
    that are live at once get different registers.

  How state and operations correspond. A C++ object that is changed in place is a record that is
  passed and returned; a vector of instructions an operation appends to is the list it returns; a
  pointer to a block, function or allocation is a number with a store from numbers to contents; a
  thrown exception is the left alternative of \<open>result\<close>, and so is undefined behaviour: reading the
  exit of a block that has none (\<open>succs\<close>), or building a control flow graph with such a block
  (\<open>with_cfg\<close>), is an error. Sizes are numbers of type \<open>size_t\<close>, which wrap around (\<open>wrap64\<close>). A definition
  has the name of the function or method it models where Isabelle allows it.

  Bounds and fuel. The execution loop of the machine is bounded by the program's own instruction
  limit. The recursion of the post order is bounded by the number of blocks, and \<open>Ir_Order\<close> shows that
  this is enough. The renaming walk over the dominator tree has one unit of fuel for each block and one
  more, which is proved enough, as it is for the walk that inserts the copies, and the work list that places the phi functions is proved to end. The
  interpreter of the IR has two fuels, one for the depth of calls and one for the
  blocks an activation executes; running out is an error of its own, and a result does not change with
  more fuel. Loops over memory and instruction lists are structural. The data-flow iteration
  and the main loop of the colouring are partial functions, with \<open>None\<close> for a run that does not end;
  that the iteration ends is proved, for the colouring it is shown on an example only, so its theorems
  speak of the results it returns. A set of variables is traversed as it was when the loop began.

  Not modelled. Floating-point arithmetic, formatting and parsing of floats are those of the host:
  the fields of the record \<open>host\<close>. The parsers are visitors over generated ANTLR code. Printing,
  command line, debugger, tests and vendored libraries are left out. The spilling loop around the
  colouring and inlining are not modelled; instruction selection takes the colouring as an argument.
  Address arithmetic and array initialisers are modelled without a theorem that they keep the
  behaviour, which would need the sizes and the memory of a concrete machine.
\<close>

end
